(* ===== verification/Prelude.thy ===== *)
theory Prelude
  imports
    Main
    "HOL-Library.Word"
    "HOL-Library.Char_ord"
    "HOL-Library.List_Lexorder"
    "HOL-Library.Product_Lexorder"
    "HOL-Library.Multiset"
begin

text \<open>
  Shared vocabulary of the development: the machine integer types, the two's complement
  range of \<^verbatim>\<open>std::int64_t\<close>, \<^verbatim>\<open>std::to_string\<close>, \<^verbatim>\<open>std::map\<close> as an association list that is
  strictly ordered by key, and the tables that give the enumerations their names.
  Every component theory imports this one.
\<close>

unbundle bit_operations_syntax

section \<open>Collections of facts\<close>

text \<open>
  \<open>int_range\<close> collects the unfoldings of the integer ranges, \<open>branch_splits\<close> the case
  distinctions of the error paths, \<open>ordered_map_laws\<close> the rewrite rules of the ordered maps.
\<close>

named_theorems int_range \<open>unfoldings of the integer ranges\<close>
named_theorems ordered_map_laws \<open>rewrite rules of the ordered maps\<close>

section \<open>Machine integers\<close>

type_synonym u8 = "8 word"
type_synonym u32 = "32 word"
type_synonym u64 = "64 word"

text \<open>
  \<^verbatim>\<open>std::int64_t\<close> values are integers in the range \<open>in_i64\<close>. An unchecked signed operation of
  the source goes through \<open>wrap_i64\<close>, the value two's complement hardware leaves in the register
  (the language leaves the overflowing case undefined); \<open>wrap_i64_id\<close> removes it wherever the
  exact result is in range.
\<close>

definition i64_min :: int where "i64_min = - 9223372036854775808"
definition i64_max :: int where "i64_max = 9223372036854775807"

definition in_i64 :: "int \<Rightarrow> bool" where
  "in_i64 x \<longleftrightarrow> i64_min \<le> x \<and> x \<le> i64_max"

definition wrap_i64 :: "int \<Rightarrow> int" where
  "wrap_i64 x = (x + 9223372036854775808) mod 18446744073709551616 - 9223372036854775808"

lemmas i64_bounds [int_range] = i64_min_def i64_max_def

lemma in_i64_iff [int_range]:
  "in_i64 x \<longleftrightarrow> - 9223372036854775808 \<le> x \<and> x \<le> 9223372036854775807"
  by (simp add: in_i64_def i64_bounds)

lemma wrap_i64_id [simp]: "in_i64 x \<Longrightarrow> wrap_i64 x = x"
  by (simp add: wrap_i64_def in_i64_iff)

lemma wrap_i64_range [simp]: "in_i64 (wrap_i64 x)"
proof -
  have "0 \<le> (x + 9223372036854775808) mod 18446744073709551616"
    and "(x + 9223372036854775808) mod 18446744073709551616 < 18446744073709551616"
    by (rule pos_mod_sign pos_mod_bound, simp)+
  then show ?thesis by (simp add: wrap_i64_def in_i64_iff)
qed

lemma in_i64_0 [simp]: "in_i64 0"
  by (simp add: in_i64_iff)

text \<open>Conversion to \<^verbatim>\<open>std::uint64_t\<close> and the truncating division of the language.\<close>

definition to_u64 :: "int \<Rightarrow> u64" where "to_u64 x = word_of_int x"

definition cdiv :: "int \<Rightarrow> int \<Rightarrow> int" where
  "cdiv a b = sgn a * sgn b * (\<bar>a\<bar> div \<bar>b\<bar>)"

definition cmod :: "int \<Rightarrow> int \<Rightarrow> int" where
  "cmod a b = a - b * cdiv a b"

lemma unat_less_2_64: "unat (w :: u64) < 18446744073709551616"
  using unsigned_less [of w, where ?'a = nat] by simp

lemma unat_to_u64: "0 \<le> x \<Longrightarrow> x < 18446744073709551616 \<Longrightarrow> unat (to_u64 x) = nat x"
  by (simp add: to_u64_def unat_eq_nat_uint uint_word_of_int)

lemma unat_neg_to_u64:
  "- 9223372036854775808 \<le> x \<Longrightarrow> x < 0 \<Longrightarrow> unat (0 - to_u64 x) = nat (- x)"
proof -
  assume r: "- 9223372036854775808 \<le> x" "x < 0"
  have "0 - to_u64 x = to_u64 (- x)" by (simp add: to_u64_def)
  then show ?thesis using r by (simp add: unat_to_u64)
qed

lemma cdiv_nonneg: "0 \<le> a \<Longrightarrow> 0 < b \<Longrightarrow> cdiv a b = a div b"
  by (cases "a = 0") (simp_all add: cdiv_def)

lemma cmod_nonneg: "0 \<le> a \<Longrightarrow> 0 < b \<Longrightarrow> cmod a b = a mod b"
  by (simp add: cmod_def cdiv_nonneg minus_mult_div_eq_mod)

lemma cdiv_neg: "a < 0 \<Longrightarrow> 0 < b \<Longrightarrow> cdiv a b = - ((- a) div b)"
  by (simp add: cdiv_def)

lemma cmod_neg: "a < 0 \<Longrightarrow> 0 < b \<Longrightarrow> cmod a b = - ((- a) mod b)"
  by (simp add: cmod_def cdiv_neg) (metis add.commute minus_mult_div_eq_mod minus_diff_eq diff_minus_eq_add mult_minus_right)

text \<open>
  The source's floor division idiom: truncate, and correct by one when the rest is negative.
\<close>

lemma floor_idiom_quotient:
  assumes "0 < b"
  shows "(if cmod a b < 0 then cdiv a b - 1 else cdiv a b) = a div b"
proof (cases "0 \<le> a")
  case True
  with assms show ?thesis by (simp add: cdiv_nonneg cmod_nonneg not_less)
next
  case False
  then have a: "a < 0" by simp
  show ?thesis
  proof (cases "(- a) mod b = 0")
    case True
    then show ?thesis using a assms
      by (simp add: cdiv_neg cmod_neg zdiv_zminus1_eq_if [of b "- a", simplified])
  next
    case nz: False
    have "0 \<le> (- a) mod b" using assms by simp
    with nz have "0 < (- a) mod b" by linarith
    then show ?thesis using a assms nz
      by (simp add: cdiv_neg cmod_neg zdiv_zminus1_eq_if [of b "- a", simplified])
  qed
qed

lemma floor_idiom_rest:
  assumes "0 < b"
  shows "(if cmod a b < 0 then cmod a b + b else cmod a b) = a mod b"
proof -
  have "(if cmod a b < 0 then cmod a b + b else cmod a b)
      = a - b * (if cmod a b < 0 then cdiv a b - 1 else cdiv a b)"
    by (simp add: cmod_def algebra_simps)
  also have "\<dots> = a mod b"
    by (simp only: floor_idiom_quotient [OF assms] minus_mult_div_eq_mod)
  finally show ?thesis .
qed

section \<open>Characters and decimal rendering\<close>

text \<open>
  Characters are bytes; the source compares them against character literals of the ASCII range,
  where the signedness of \<^verbatim>\<open>char\<close> makes no difference.
\<close>

abbreviation byte_of :: "char \<Rightarrow> nat" where "byte_of c \<equiv> of_char c"

definition is_digit :: "char \<Rightarrow> bool" where
  "is_digit c \<longleftrightarrow> 48 \<le> byte_of c \<and> byte_of c \<le> 57"

definition digit_char :: "nat \<Rightarrow> char" where "digit_char d = char_of (48 + d)"

definition digit_value :: "char \<Rightarrow> nat" where "digit_value c = byte_of c - 48"

text \<open>\<^verbatim>\<open>std::to_string\<close> for unsigned and signed integers.\<close>

fun show_nat :: "nat \<Rightarrow> string" where
  "show_nat n = (if n < 10 then [digit_char n] else show_nat (n div 10) @ [digit_char (n mod 10)])"

declare show_nat.simps [simp del]

definition show_int :: "int \<Rightarrow> string" where
  "show_int x = (if x < 0 then CHR ''-'' # show_nat (nat (- x)) else show_nat (nat x))"

definition dec_value :: "string \<Rightarrow> nat" where
  "dec_value s = foldl (\<lambda>a c. 10 * a + digit_value c) 0 s"

lemma byte_of_digit_char [simp]: "d < 10 \<Longrightarrow> byte_of (digit_char d) = 48 + d"
  by (simp add: digit_char_def)

lemma digit_char_props [simp]:
  "d < 10 \<Longrightarrow> is_digit (digit_char d)" "d < 10 \<Longrightarrow> digit_value (digit_char d) = d"
  by (simp_all add: is_digit_def digit_value_def)

lemma digit_value_less: "is_digit c \<Longrightarrow> digit_value c < 10"
  by (auto simp: is_digit_def digit_value_def)

lemma dec_value_snoc: "dec_value (s @ [c]) = 10 * dec_value s + digit_value c"
  by (simp add: dec_value_def)

lemma dec_value_show_nat [simp]: "dec_value (show_nat n) = n"
proof (induction n rule: show_nat.induct)
  case (1 n)
  then show ?case
    by (cases "n < 10") (simp_all add: show_nat.simps [of n] dec_value_snoc, simp add: dec_value_def)
qed

lemma show_nat_digits: "c \<in> set (show_nat n) \<Longrightarrow> is_digit c"
proof (induction n rule: show_nat.induct)
  case (1 n)
  then show ?case by (cases "n < 10") (auto simp: show_nat.simps [of n])
qed

lemma show_nat_Nil [simp]: "show_nat n \<noteq> []"
  by (subst show_nat.simps) simp

lemma show_nat_inj: "show_nat m = show_nat n \<longleftrightarrow> m = n"
  by (metis dec_value_show_nat)

lemma length_show_nat_le: "n < 10 ^ k \<Longrightarrow> 0 < k \<Longrightarrow> length (show_nat n) \<le> k"
proof (induction n arbitrary: k rule: show_nat.induct)
  case (1 n)
  show ?case
  proof (cases "n < 10")
    case True
    with 1 show ?thesis by (simp add: show_nat.simps [of n])
  next
    case False
    obtain j where k: "k = Suc j" using 1 by (cases k) auto
    have "0 < j" using False 1 k by (cases j) auto
    moreover have "n div 10 < 10 ^ j" using 1 k by (simp add: less_mult_imp_div_less mult.commute)
    ultimately have "length (show_nat (n div 10)) \<le> j" using 1 False by blast
    with False k show ?thesis by (simp add: show_nat.simps [of n])
  qed
qed

lemma hd_show_nat_digit: "is_digit (hd (show_nat n))"
  by (rule show_nat_digits [of _ n]) simp

lemma sign_not_digit [simp]: "\<not> is_digit CHR ''-''" "\<not> is_digit CHR ''+''"
  by (simp_all add: is_digit_def)

lemma show_nat_hd_not_sign [simp]: "hd (show_nat n) \<noteq> CHR ''-''" "hd (show_nat n) \<noteq> CHR ''+''"
  using hd_show_nat_digit [of n] by (metis sign_not_digit)+

lemma show_int_inj: "show_int x = show_int y \<longleftrightarrow> x = y"
proof
  assume eq: "show_int x = show_int y"
  consider "x < 0" "y < 0" | "x < 0" "\<not> y < 0" | "\<not> x < 0" "y < 0" | "\<not> x < 0" "\<not> y < 0" by blast
  then show "x = y"
  proof cases
    case 1 with eq show ?thesis by (simp add: show_int_def show_nat_inj)
  next
    case 2 with eq show ?thesis by (metis list.sel(1) show_int_def show_nat_hd_not_sign(1))
  next
    case 3 with eq show ?thesis by (metis list.sel(1) show_int_def show_nat_hd_not_sign(1))
  next
    case 4 with eq show ?thesis by (simp add: show_int_def show_nat_inj)
  qed
qed simp

section \<open>Early returns\<close>

text \<open>
  A run of statements \<^verbatim>\<open>if (condition) return value\<close>: the first condition that holds decides.
\<close>

fun first_match :: "(bool \<times> 'a) list \<Rightarrow> 'a option" where
  "first_match [] = None"
| "first_match ((condition, v) # rest) = (if condition then Some v else first_match rest)"

lemma first_match_None: "first_match ms = None \<longleftrightarrow> list_all (\<lambda>m. \<not> fst m) ms"
  by (induction ms rule: first_match.induct) auto

lemma first_match_Some: "first_match ms = Some v \<Longrightarrow> (True, v) \<in> set ms"
  by (induction ms rule: first_match.induct) (auto split: if_splits)

declare first_match.simps [simp del]

section \<open>Ordered maps\<close>

text \<open>
  \<^verbatim>\<open>std::map\<close>: an association list with strictly increasing keys, in iteration order.
\<close>

type_synonym ('k, 'v) omap = "('k \<times> 'v) list"

abbreviation om_find :: "('k, 'v) omap \<Rightarrow> 'k \<Rightarrow> 'v option" where "om_find \<equiv> map_of"

fun om_set :: "'k::linorder \<Rightarrow> 'v \<Rightarrow> ('k, 'v) omap \<Rightarrow> ('k, 'v) omap" where
  "om_set k v [] = [(k, v)]"
| "om_set k v ((j, w) # m) =
     (if j < k then (j, w) # om_set k v m else if j = k then (k, v) # m else (k, v) # (j, w) # m)"

definition om_erase :: "'k \<Rightarrow> ('k, 'v) omap \<Rightarrow> ('k, 'v) omap" where
  "om_erase k m = filter (\<lambda>e. fst e \<noteq> k) m"

definition om_inv :: "('k::linorder, 'v) omap \<Rightarrow> bool" where
  "om_inv m \<longleftrightarrow> sorted_wrt (<) (map fst m)"

text \<open>
  What the components rely on: a find after an update, which entries there are, how the size
  changes, and that the order is kept.
\<close>

locale ordered_map =
  fixes find :: "'m \<Rightarrow> 'k \<Rightarrow> 'v option"
    and assign :: "'k \<Rightarrow> 'v \<Rightarrow> 'm \<Rightarrow> 'm"
    and erase :: "'k \<Rightarrow> 'm \<Rightarrow> 'm"
    and entries :: "'m \<Rightarrow> ('k \<times> 'v) list"
    and inv :: "'m \<Rightarrow> bool"
  assumes find_assign: "inv m \<Longrightarrow> find (assign k v m) j = (if j = k then Some v else find m j)"
    and find_erase: "inv m \<Longrightarrow> find (erase k m) j = (if j = k then None else find m j)"
    and find_entries: "inv m \<Longrightarrow> (k, v) \<in> set (entries m) \<longleftrightarrow> find m k = Some v"
    and distinct_entries: "inv m \<Longrightarrow> distinct (map fst (entries m))"
    and inv_assign: "inv m \<Longrightarrow> inv (assign k v m)"
    and inv_erase: "inv m \<Longrightarrow> inv (erase k m)"
begin

lemma dom_entries: "inv m \<Longrightarrow> fst ` set (entries m) = dom (find m)"
  using find_entries by force

lemma size_entries: "inv m \<Longrightarrow> length (entries m) = card (dom (find m))"
  by (metis dom_entries distinct_card distinct_entries length_map list.set_map)

lemma finite_keys [simp]: "inv m \<Longrightarrow> finite (dom (find m))"
  by (metis dom_entries finite_imageI finite_set)

lemma size_assign_new:
  assumes "inv m" and "find m k = None"
  shows "length (entries (assign k v m)) = Suc (length (entries m))"
proof -
  have "dom (find (assign k v m)) = insert k (dom (find m))"
    using assms by (auto simp: find_assign split: if_splits)
  moreover have "k \<notin> dom (find m)" using assms by auto
  ultimately show ?thesis using assms by (simp add: size_entries inv_assign)
qed

lemma size_assign_old:
  assumes "inv m" and "find m k = Some w"
  shows "length (entries (assign k v m)) = length (entries m)"
proof -
  have "dom (find (assign k v m)) = dom (find m)"
    using assms by (auto simp: find_assign split: if_splits)
  then show ?thesis using assms by (simp add: size_entries inv_assign)
qed

lemma size_erase:
  assumes "inv m" and "find m k = Some w"
  shows "Suc (length (entries (erase k m))) = length (entries m)"
proof -
  have "dom (find (erase k m)) = dom (find m) - {k}"
    using assms by (auto simp: find_erase split: if_splits)
  moreover have "k \<in> dom (find m)" using assms by auto
  ultimately show ?thesis
    using assms by (metis card_Suc_Diff1 finite_keys inv_erase size_entries)
qed

lemma entries_assign:
  assumes "inv m"
  shows "set (entries (assign k v m)) = insert (k, v) {e \<in> set (entries m). fst e \<noteq> k}"
  using assms by (auto simp: find_entries inv_assign find_assign split: if_splits)

end

lemma om_inv_Nil [simp, ordered_map_laws]: "om_inv []"
  by (simp add: om_inv_def)

lemma om_inv_Cons: "om_inv ((j, w) # m) \<longleftrightarrow> (\<forall>k \<in> fst ` set m. j < k) \<and> om_inv m"
  by (auto simp: om_inv_def)

lemma keys_om_set: "fst ` set (om_set k v m) = insert k (fst ` set m)"
  by (induction k v m rule: om_set.induct) auto

lemma om_inv_set [ordered_map_laws]: "om_inv m \<Longrightarrow> om_inv (om_set k v m)"
  by (induction k v m rule: om_set.induct) (auto simp: om_inv_Cons keys_om_set ball_Un)

lemma om_find_set [ordered_map_laws]:
  "om_inv m \<Longrightarrow> om_find (om_set k v m) j = (if j = k then Some v else om_find m j)"
  by (induction k v m rule: om_set.induct) (auto simp: om_inv_Cons)

lemma om_inv_erase [ordered_map_laws]: "om_inv m \<Longrightarrow> om_inv (om_erase k m)"
  by (simp add: om_inv_def om_erase_def sorted_wrt_filter sorted_wrt_map)

lemma om_find_erase [ordered_map_laws]:
  "om_find (om_erase k m) j = (if j = k then None else om_find m j)"
  by (induction m) (auto simp: om_erase_def)

lemma om_inv_distinct: "om_inv m \<Longrightarrow> distinct (map fst m)"
  by (simp add: om_inv_def strict_sorted_iff)

interpretation om: ordered_map "om_find :: ('k::linorder, 'v) omap \<Rightarrow> 'k \<Rightarrow> 'v option"
  om_set om_erase "\<lambda>m. m" om_inv
  by unfold_locales
    (auto simp: ordered_map_laws om_inv_distinct intro: map_of_is_SomeI dest: map_of_SomeD)

section \<open>Enumerations and their names\<close>

text \<open>
  Every enumeration of the source has a constant table of pairs of a value and its name. The name
  of a value is the first entry that holds the value, parsing a name takes the first entry that
  holds the name.
\<close>

definition enum_name :: "('e \<times> string) list \<Rightarrow> string \<Rightarrow> 'e \<Rightarrow> string" where
  "enum_name table fallback e =
     (case List.find (\<lambda>entry. fst entry = e) table of Some entry \<Rightarrow> snd entry | None \<Rightarrow> fallback)"

definition enum_parse :: "('e \<times> string) list \<Rightarrow> string \<Rightarrow> 'e option" where
  "enum_parse table text = map_option fst (List.find (\<lambda>entry. snd entry = text) table)"

text \<open>
  A table that repeats neither a value nor a name makes naming and parsing inverse to each other
  on its entries; one that also names every value does so everywhere.
\<close>

locale name_table =
  fixes table :: "('e \<times> string) list" and fallback :: string
  assumes distinct_values: "distinct (map fst table)"
    and distinct_names: "distinct (map snd table)"
begin

lemma listed_entry: "e \<in> fst ` set table \<Longrightarrow> (e, enum_name table fallback e) \<in> set table"
proof (cases "List.find (\<lambda>entry. fst entry = e) table")
  case None
  then have "e \<notin> fst ` set table" by (auto simp: find_None_iff)
  then show "e \<in> fst ` set table \<Longrightarrow> ?thesis" by blast
next
  case (Some entry)
  then have "entry \<in> set table" and "fst entry = e" by (auto simp: find_Some_iff)
  with Some show ?thesis by (metis (mono_tags, lifting) enum_name_def option.simps(5) prod.collapse)
qed

lemma parse_entry: "enum_parse table text = Some e \<longleftrightarrow> (e, text) \<in> set table"
proof
  assume "enum_parse table text = Some e"
  then obtain entry where "List.find (\<lambda>entry. snd entry = text) table = Some entry"
      and "fst entry = e" by (auto simp: enum_parse_def)
  then show "(e, text) \<in> set table"
    by (metis (mono_tags, lifting) find_Some_iff nth_mem prod.collapse)
next
  assume mem: "(e, text) \<in> set table"
  then obtain entry where f: "List.find (\<lambda>entry. snd entry = text) table = Some entry"
    by (cases "List.find (\<lambda>entry. snd entry = text) table") (auto simp: find_None_iff)
  then have "entry \<in> set table" and "snd entry = text" by (auto simp: find_Some_iff)
  with mem distinct_names have "entry = (e, text)"
    by (metis eq_key_imp_eq_value distinct_map inj_onD snd_conv)
  with f show "enum_parse table text = Some e" by (simp add: enum_parse_def)
qed

lemma parse_listed: "e \<in> fst ` set table \<Longrightarrow> enum_parse table (enum_name table fallback e) = Some e"
  by (simp add: parse_entry listed_entry)

lemma name_parse: "enum_parse table text = Some e \<Longrightarrow> enum_name table fallback e = text"
proof -
  assume "enum_parse table text = Some e"
  then have mem: "(e, text) \<in> set table" by (simp add: parse_entry)
  then have "(e, enum_name table fallback e) \<in> set table" by (intro listed_entry) force
  with mem distinct_values show ?thesis by (metis eq_key_imp_eq_value)
qed

end

locale named_enum = name_table +
  assumes complete: "e \<in> fst ` set table"
begin

lemma parse_name [simp]: "enum_parse table (enum_name table fallback e) = Some e"
  by (rule parse_listed [OF complete])

lemma name_inject: "enum_name table fallback e = enum_name table fallback f \<longleftrightarrow> e = f"
  by (metis option.inject parse_name)

end

end
