(* ===== verification/Core_Error.thy ===== *)
theory Core_Error
  imports Prelude
begin

text \<open>
  \<^verbatim>\<open>core/error.hpp\<close> and \<^verbatim>\<open>core/error.cpp\<close>: the failure vocabulary and its stable names, error
  values with their description, \<^verbatim>\<open>Result<T>\<close> as a sum and \<^verbatim>\<open>Status\<close> as a result without value.
  \<^verbatim>\<open>LATOBS_TRY\<close> is \<open>try_bind\<close>: a failed result leaves the enclosing function with its error.
\<close>

datatype error_code =
    Ok
  | InvalidArgument
  | OutOfRange
  | Overflow
  | ParseError
  | VersionMismatch
  | IntegrityFailure
  | NotFound
  | AlreadyExists
  | Conflict
  | CapacityExceeded
  | Unsupported
  | Refused
  | IoError
  | Cancelled
  | ShuttingDown
  | Internal

definition kCodeNames :: "(error_code \<times> string) list" where
  "kCodeNames =
    [(Ok, ''ok''),
     (InvalidArgument, ''invalid_argument''),
     (OutOfRange, ''out_of_range''),
     (Overflow, ''overflow''),
     (ParseError, ''parse_error''),
     (VersionMismatch, ''version_mismatch''),
     (IntegrityFailure, ''integrity_failure''),
     (NotFound, ''not_found''),
     (AlreadyExists, ''already_exists''),
     (Conflict, ''conflict''),
     (CapacityExceeded, ''capacity_exceeded''),
     (Unsupported, ''unsupported''),
     (Refused, ''refused''),
     (IoError, ''io_error''),
     (Cancelled, ''cancelled''),
     (ShuttingDown, ''shutting_down''),
     (Internal, ''internal'')]"

definition error_code_to_string :: "error_code \<Rightarrow> string" where
  "error_code_to_string code = enum_name kCodeNames ''unknown'' code"

definition parse_error_code :: "string \<Rightarrow> error_code option" where
  "parse_error_code text = enum_parse kCodeNames text"

record error =
  err_code :: error_code
  err_message :: string
  err_context :: string

definition Error :: "error_code \<Rightarrow> string \<Rightarrow> string \<Rightarrow> error" where
  "Error code message ctx = \<lparr>err_code = code, err_message = message, err_context = ctx\<rparr>"

definition describe :: "error \<Rightarrow> string" where
  "describe e =
     error_code_to_string (err_code e) @ '': '' @ err_message e @
     (if err_context e = [] then [] else '' ['' @ err_context e @ '']'')"

text \<open>
  \<^verbatim>\<open>Result<T>\<close> holds a value or an error; \<^verbatim>\<open>Status\<close> is a result without a value.
\<close>

type_synonym 'a result = "error + 'a"
type_synonym status = "unit result"

abbreviation ok_status :: status where "ok_status \<equiv> Inr ()"

definition fail :: "error_code \<Rightarrow> string \<Rightarrow> string \<Rightarrow> 'a result" where
  "fail code message ctx = Inl (Error code message ctx)"

definition has_value :: "'a result \<Rightarrow> bool" where
  "has_value r = (case r of Inl _ \<Rightarrow> False | Inr _ \<Rightarrow> True)"

definition value_or :: "'a result \<Rightarrow> 'a \<Rightarrow> 'a" where
  "value_or r fallback = (case r of Inl _ \<Rightarrow> fallback | Inr v \<Rightarrow> v)"

definition try_bind :: "'a result \<Rightarrow> ('a \<Rightarrow> 'b result) \<Rightarrow> 'b result" where
  "try_bind r f = (case r of Inl e \<Rightarrow> Inl e | Inr v \<Rightarrow> f v)"

text \<open>
  A run of guards \<^verbatim>\<open>if (condition) return Error(code, message, context)\<close> at the head of a function:
  the first guard whose condition holds decides, None when none does.
\<close>

fun first_guard :: "(bool \<times> error_code \<times> string) list \<Rightarrow> string \<Rightarrow> error option" where
  "first_guard [] ctx = None"
| "first_guard ((condition, code, message) # rest) ctx =
     (if condition then Some (Error code message ctx) else first_guard rest ctx)"

section \<open>Facts\<close>

named_theorems result_simps \<open>evaluation of results\<close>

lemma fail_not_value [simp, result_simps]: "fail c m x \<noteq> Inr v" "Inr v \<noteq> fail c m x"
  by (simp_all add: fail_def)

lemma fail_eq_Inl [simp, result_simps]: "fail c m x = Inl e \<longleftrightarrow> e = Error c m x"
  by (auto simp: fail_def)

lemma err_code_Error [simp, result_simps]: "err_code (Error c m x) = c"
  by (simp add: Error_def)

lemma try_bind_simps [simp, result_simps]:
  "try_bind (Inr v) f = f v" "try_bind (Inl e) f = Inl e" "try_bind (fail c m x) f = fail c m x"
  by (simp_all add: try_bind_def fail_def)

lemma try_bind_eq_Inr [result_simps]: "try_bind r f = Inr w \<longleftrightarrow> (\<exists>v. r = Inr v \<and> f v = Inr w)"
  by (cases r) auto

lemma first_guard_None: "first_guard gs ctx = None \<longleftrightarrow> list_all (\<lambda>g. \<not> fst g) gs"
  by (induction gs ctx rule: first_guard.induct) auto

lemma first_guard_Some:
  "first_guard gs ctx = Some e \<Longrightarrow> \<exists>code message. (True, code, message) \<in> set gs \<and> e = Error code message ctx"
  by (induction gs ctx rule: first_guard.induct) (auto split: if_splits)

declare first_guard.simps [simp del]

lemma has_value_iff: "has_value r \<longleftrightarrow> (\<exists>v. r = Inr v)"
  by (cases r) (auto simp: has_value_def)

interpretation code_names: named_enum kCodeNames "''unknown''"
proof unfold_locales
  show "e \<in> fst ` set kCodeNames" for e by (cases e) (simp_all add: kCodeNames_def)
qed (simp_all add: kCodeNames_def)

end
