(* ===== verification/Core_Checked.thy ===== *)
theory Core_Checked
  imports Core_Error
begin

text \<open>
  \<^verbatim>\<open>core/checked.cpp\<close>: overflow checked arithmetic, strict integer parsing, the integer square
  root and the unsigned 128 bit accumulator. Unsigned values are words and wrap; signed values are
  integers of the range \<open>in_i64\<close>. An operation with an out parameter and a failure flag returns an
  option, \<open>None\<close> for "overflowed".
\<close>

section \<open>Constants\<close>

definition kU64Max :: u64 where "kU64Max = 18446744073709551615"
definition kI64Max :: u64 where "kI64Max = 9223372036854775807"
definition kI64MinAbs :: u64 where "kI64MinAbs = kI64Max + 1"

section \<open>Checked arithmetic\<close>

definition add_overflow_i64 :: "int \<Rightarrow> int \<Rightarrow> int option" where
  "add_overflow_i64 a b =
     (if b > 0 \<and> a > i64_max - b then None
      else if b < 0 \<and> a < i64_min - b then None
      else Some (a + b))"

definition sub_overflow_i64 :: "int \<Rightarrow> int \<Rightarrow> int option" where
  "sub_overflow_i64 a b =
     (if b < 0 \<and> a > i64_max + b then None
      else if b > 0 \<and> a < i64_min + b then None
      else Some (a - b))"

definition mul_overflow_i64 :: "int \<Rightarrow> int \<Rightarrow> int option" where
  "mul_overflow_i64 a b =
     (if a = 0 \<or> b = 0 then Some 0
      else
        let negative = ((a < 0) \<noteq> (b < 0));
            ua = (if a < 0 then 0 - to_u64 a else to_u64 a);
            ub = (if b < 0 then 0 - to_u64 b else to_u64 b)
        in if ua > kU64Max div ub then None
           else
             let product = ua * ub
             in if negative then
                  (if product > kI64MinAbs then None
                   else Some (if product = kI64MinAbs then i64_min else - sint product))
                else if product > kI64Max then None
                else Some (sint product))"

definition checked_add_i64 :: "int \<Rightarrow> int \<Rightarrow> int option" where
  "checked_add_i64 a b = add_overflow_i64 a b"

definition checked_sub_i64 :: "int \<Rightarrow> int \<Rightarrow> int option" where
  "checked_sub_i64 a b = sub_overflow_i64 a b"

definition checked_mul_i64 :: "int \<Rightarrow> int \<Rightarrow> int option" where
  "checked_mul_i64 a b = mul_overflow_i64 a b"

definition checked_add_u64 :: "u64 \<Rightarrow> u64 \<Rightarrow> u64 option" where
  "checked_add_u64 a b = (if a > kU64Max - b then None else Some (a + b))"

definition checked_mul_u64 :: "u64 \<Rightarrow> u64 \<Rightarrow> u64 option" where
  "checked_mul_u64 a b =
     (if a = 0 \<or> b = 0 then Some 0
      else if a > kU64Max div b then None
      else Some (a * b))"

text \<open>\<^verbatim>\<open>std::size_t\<close> has 64 bits on the supported platforms.\<close>

definition checked_add_size :: "u64 \<Rightarrow> u64 \<Rightarrow> u64 option" where
  "checked_add_size a b = (if a > kU64Max - b then None else Some (a + b))"

definition checked_mul_size :: "u64 \<Rightarrow> u64 \<Rightarrow> u64 option" where
  "checked_mul_size a b =
     (if a = 0 \<or> b = 0 then Some 0
      else if a > kU64Max div b then None
      else Some (a * b))"

section \<open>Strict parsing\<close>

text \<open>The digit loop that both parsers run on the text behind the sign.\<close>

fun parse_magnitude :: "u64 \<Rightarrow> string \<Rightarrow> u64 option" where
  "parse_magnitude magnitude [] = Some magnitude"
| "parse_magnitude magnitude (c # rest) =
     (if \<not> is_digit c then None
      else
        let digit = word_of_nat (digit_value c)
        in if magnitude > (kU64Max - digit) div 10 then None
           else parse_magnitude (magnitude * 10 + digit) rest)"

definition parse_i64 :: "string \<Rightarrow> int option" where
  "parse_i64 text =
     (case text of
        [] \<Rightarrow> None
      | c # rest \<Rightarrow>
          let signed = (c = CHR ''+'' \<or> c = CHR ''-'');
              negative = (c = CHR ''-'')
          in if signed \<and> rest = [] then None
             else
               (case parse_magnitude 0 (if signed then rest else text) of
                  None \<Rightarrow> None
                | Some magnitude \<Rightarrow>
                    if negative then
                      (if magnitude > kI64MinAbs then None
                       else if magnitude = kI64MinAbs then Some i64_min
                       else Some (- sint magnitude))
                    else if magnitude > kI64Max then None
                    else Some (sint magnitude)))"

definition parse_u64 :: "string \<Rightarrow> u64 option" where
  "parse_u64 text =
     (case text of
        [] \<Rightarrow> None
      | c # rest \<Rightarrow>
          if c = CHR ''+'' then (if rest = [] then None else parse_magnitude 0 rest)
          else parse_magnitude 0 text)"

section \<open>Integer square root\<close>

text \<open>The two loops; the shift to the right by two ends both.\<close>

function isqrt_start :: "u64 \<Rightarrow> u64 \<Rightarrow> u64" where
  "isqrt_start bt remainder =
     (if bt > remainder then isqrt_start (drop_bit 2 bt) remainder else bt)"
  by pat_completeness auto

function isqrt_loop :: "u64 \<Rightarrow> u64 \<Rightarrow> u64 \<Rightarrow> u64" where
  "isqrt_loop result bt remainder =
     (if bt \<noteq> 0 then
        (if remainder \<ge> result + bt
         then isqrt_loop (drop_bit 1 result + bt) (drop_bit 2 bt) (remainder - (result + bt))
         else isqrt_loop (drop_bit 1 result) (drop_bit 2 bt) remainder)
      else result)"
  by pat_completeness auto

lemma drop_bit_2_less: "(w :: u64) \<noteq> 0 \<Longrightarrow> unat (drop_bit 2 w) < unat w"
  by (simp only: unat_drop_bit_eq) (simp add: drop_bit_eq_div unat_gt_0)

termination isqrt_start
proof (relation "measure (\<lambda>(bt, remainder). unat bt)")
  fix bt remainder :: u64
  assume "bt > remainder"
  then have "bt \<noteq> 0" by auto
  then show "((drop_bit 2 bt, remainder), bt, remainder) \<in> measure (\<lambda>(bt, remainder). unat bt)"
    by (simp add: drop_bit_2_less)
qed simp

termination isqrt_loop
  by (relation "measure (\<lambda>(result, bt, remainder). unat bt)") (simp_all add: drop_bit_2_less)

declare isqrt_start.simps [simp del] isqrt_loop.simps [simp del]

definition isqrt_u64 :: "u64 \<Rightarrow> u64" where
  "isqrt_u64 value = isqrt_loop 0 (isqrt_start (push_bit 62 1) value) value"

section \<open>The 128 bit accumulator\<close>

record uint128 =
  hi :: u64
  lo :: u64

definition UInt128 :: "u64 \<Rightarrow> u64 \<Rightarrow> uint128" where
  "UInt128 h l = \<lparr>hi = h, lo = l\<rparr>"

definition u128_from_u64 :: "u64 \<Rightarrow> uint128" where
  "u128_from_u64 value = UInt128 0 value"

definition u128_is_zero :: "uint128 \<Rightarrow> bool" where
  "u128_is_zero v \<longleftrightarrow> hi v = 0 \<and> lo v = 0"

definition fits_u64 :: "uint128 \<Rightarrow> bool" where
  "fits_u64 v \<longleftrightarrow> hi v = 0"

definition exceeds_i64_max :: "uint128 \<Rightarrow> bool" where
  "exceeds_i64_max v \<longleftrightarrow> hi v > 0 \<or> lo v > 0x7FFFFFFFFFFFFFFF"

definition kSaturated :: uint128 where
  "kSaturated = UInt128 kU64Max kU64Max"

definition bit_at :: "uint128 \<Rightarrow> nat \<Rightarrow> u64" where
  "bit_at v n = (if n \<ge> 64 then drop_bit (n - 64) (hi v) AND 1 else drop_bit n (lo v) AND 1)"

definition add_u128 :: "uint128 \<Rightarrow> uint128 \<Rightarrow> uint128" where
  "add_u128 a b =
     (let l = lo a + lo b;
          carry = (if l < lo a then 1 else 0)
      in if hi a > kU64Max - hi b then kSaturated
         else
           let h = hi a + hi b
           in if h > kU64Max - carry then kSaturated
              else UInt128 (h + carry) l)"

definition mul_u64_to_u128 :: "u64 \<Rightarrow> u64 \<Rightarrow> uint128" where
  "mul_u64_to_u128 a b =
     (let a_lo = a AND 0xFFFFFFFF;
          a_hi = drop_bit 32 a;
          b_lo = b AND 0xFFFFFFFF;
          b_hi = drop_bit 32 b;
          p0 = a_lo * b_lo;
          p1 = a_lo * b_hi;
          p2 = a_hi * b_lo;
          p3 = a_hi * b_hi;
          mid = drop_bit 32 p0 + (p1 AND 0xFFFFFFFF) + (p2 AND 0xFFFFFFFF);
          l = (p0 AND 0xFFFFFFFF) OR push_bit 32 mid;
          h = p3 + drop_bit 32 p1 + drop_bit 32 p2 + drop_bit 32 mid
      in UInt128 h l)"

definition mul_u128_u64 :: "uint128 \<Rightarrow> u64 \<Rightarrow> uint128" where
  "mul_u128_u64 a b =
     (if u128_is_zero a \<or> b = 0 then UInt128 0 0
      else
        let low = mul_u64_to_u128 (lo a) b;
            high = mul_u64_to_u128 (hi a) b
        in if hi high \<noteq> 0 then kSaturated
           else
             let h = lo high + hi low
             in if h < lo high then kSaturated
                else UInt128 h (lo low))"

text \<open>
  One pass of the division loop for the bit number \<open>n\<close>, and the loop from \<open>n - 1\<close> down to 0.
\<close>

definition divmod_step :: "uint128 \<Rightarrow> u64 \<Rightarrow> nat \<Rightarrow> uint128 \<times> uint128 \<Rightarrow> uint128 \<times> uint128" where
  "divmod_step value divisor n st =
     (let (quotient, rem) = st;
          rem_hi = push_bit 1 (hi rem) OR drop_bit 63 (lo rem);
          rem_lo = push_bit 1 (lo rem) OR bit_at value n;
          quot_hi = push_bit 1 (hi quotient) OR drop_bit 63 (lo quotient);
          quot_lo = push_bit 1 (lo quotient)
      in if rem_hi \<noteq> 0 \<or> rem_lo \<ge> divisor then
           let borrow = (if rem_lo < divisor then 1 else 0)
           in (UInt128 quot_hi (quot_lo OR 1), UInt128 (rem_hi - borrow) (rem_lo - divisor))
         else (UInt128 quot_hi quot_lo, UInt128 rem_hi rem_lo))"

fun divmod_loop :: "uint128 \<Rightarrow> u64 \<Rightarrow> nat \<Rightarrow> uint128 \<times> uint128 \<Rightarrow> uint128 \<times> uint128" where
  "divmod_loop value divisor 0 st = st"
| "divmod_loop value divisor (Suc n) st =
     divmod_loop value divisor n (divmod_step value divisor n st)"

definition divmod_u128_u64 :: "uint128 \<Rightarrow> u64 \<Rightarrow> uint128 \<times> u64" where
  "divmod_u128_u64 value divisor =
     (if divisor = 0 then (kSaturated, 0)
      else
        let (quotient, rem) = divmod_loop value divisor 128 (UInt128 0 0, UInt128 0 0)
        in (quotient, lo rem))"

definition sub_u128 :: "uint128 \<Rightarrow> uint128 \<Rightarrow> uint128" where
  "sub_u128 a b =
     (let borrow = (if lo a < lo b then 1 else 0)
      in UInt128 (hi a - hi b - borrow) (lo a - lo b))"

definition u128_equal :: "uint128 \<Rightarrow> uint128 \<Rightarrow> bool" where
  "u128_equal a b \<longleftrightarrow> hi a = hi b \<and> lo a = lo b"

definition u128_less :: "uint128 \<Rightarrow> uint128 \<Rightarrow> bool" where
  "u128_less a b = (if hi a \<noteq> hi b then hi a < hi b else lo a < lo b)"

definition is_saturated :: "uint128 \<Rightarrow> bool" where
  "is_saturated v \<longleftrightarrow> hi v = kU64Max \<and> lo v = kU64Max"

section \<open>Checked arithmetic is exact\<close>

lemmas u64_consts [int_range] = kU64Max_def kI64Max_def kI64MinAbs_def

lemma unat_u64_consts [simp]:
  "unat kU64Max = 18446744073709551615" "unat kI64Max = 9223372036854775807"
  "unat kI64MinAbs = 9223372036854775808"
  by (simp_all add: u64_consts)

lemma le_kU64Max [simp]: "w \<le> kU64Max"
  using unat_less_2_64 [of w] by (simp add: word_le_nat_alt)

lemma unat_kU64Max_minus [simp]: "unat (kU64Max - w) = 18446744073709551615 - unat w"
  by (simp add: unat_sub)

lemma u64_add_fits: "unat a + unat b < 18446744073709551616 \<Longrightarrow> unat (a + b :: u64) = unat a + unat b"
  by (simp add: unat_word_ariths)

lemma u64_mult_fits: "unat a * unat b < 18446744073709551616 \<Longrightarrow> unat (a * b :: u64) = unat a * unat b"
  by (simp add: unat_word_ariths)

lemma u64_mul_guard:
  assumes "b \<noteq> (0 :: u64)"
  shows "a > kU64Max div b \<longleftrightarrow> 18446744073709551615 < unat a * unat b"
proof -
  have "0 < unat b" using assms by (simp add: unat_gt_0)
  then show ?thesis
    by (simp add: word_less_nat_alt unat_div div_less_iff_less_mult)
qed

lemma sint_small:
  assumes "unat (w :: u64) < 9223372036854775808"
  shows "sint w = int (unat w)"
proof -
  have u: "uint w = int (unat w)" by simp
  have "uint w < 9223372036854775808" and "- 9223372036854775808 \<le> uint w"
    unfolding u using assms by linarith+
  then have "signed_take_bit 63 (uint w) = uint w"
    by (simp add: signed_take_bit_int_eq_self)
  then show ?thesis by (simp add: sint_uint)
qed

lemma checked_add_i64_spec:
  "in_i64 a \<Longrightarrow> in_i64 b \<Longrightarrow> checked_add_i64 a b = (if in_i64 (a + b) then Some (a + b) else None)"
  by (auto simp: checked_add_i64_def add_overflow_i64_def int_range)

lemma checked_sub_i64_spec:
  "in_i64 a \<Longrightarrow> in_i64 b \<Longrightarrow> checked_sub_i64 a b = (if in_i64 (a - b) then Some (a - b) else None)"
  by (auto simp: checked_sub_i64_def sub_overflow_i64_def int_range)

lemma checked_add_u64_spec:
  "checked_add_u64 a b = (if unat a + unat b < 2 ^ 64 then Some (a + b) else None)"
  using unat_less_2_64 [of b] by (auto simp: checked_add_u64_def word_less_nat_alt)

lemma checked_mul_u64_spec:
  "checked_mul_u64 a b = (if unat a * unat b < 2 ^ 64 then Some (a * b) else None)"
  by (auto simp: checked_mul_u64_def u64_mul_guard)

definition mag_u64 :: "int \<Rightarrow> u64" where
  "mag_u64 a = (if a < 0 then 0 - to_u64 a else to_u64 a)"

lemma unat_mag_u64: "in_i64 a \<Longrightarrow> unat (mag_u64 a) = nat \<bar>a\<bar>"
  using unat_neg_to_u64 [of a] unat_to_u64 [of a] by (auto simp: mag_u64_def int_range)

lemma checked_mul_i64_spec:
  assumes "in_i64 a" and "in_i64 b"
  shows "checked_mul_i64 a b = (if in_i64 (a * b) then Some (a * b) else None)"
proof (cases "a = 0 \<or> b = 0")
  case True
  then show ?thesis by (auto simp: checked_mul_i64_def mul_overflow_i64_def)
next
  case False
  let ?p = "mag_u64 a * mag_u64 b"
  have nz: "mag_u64 b \<noteq> 0"
    using False unat_mag_u64 [OF assms(2)] by (metis nat_0_iff not_le unat_0 zero_less_abs_iff)
  have prod: "unat (mag_u64 a) * unat (mag_u64 b) = nat \<bar>a * b\<bar>"
    using assms by (simp add: unat_mag_u64 nat_abs_mult_distrib)
  have guard: "mag_u64 a > kU64Max div mag_u64 b \<longleftrightarrow> 18446744073709551615 < nat \<bar>a * b\<bar>"
    by (simp add: u64_mul_guard [OF nz] prod)
  have up: "unat ?p = nat \<bar>a * b\<bar>" if "\<not> 18446744073709551615 < nat \<bar>a * b\<bar>"
    using that prod by (simp add: u64_mult_fits)
  have sp: "sint ?p = \<bar>a * b\<bar>" if "nat \<bar>a * b\<bar> < 9223372036854775808"
    using that up sint_small [of ?p] by simp
  have neg: "a * b < 0 \<longleftrightarrow> (a < 0) \<noteq> (b < 0)"
    using False by (auto simp: mult_less_0_iff)
  have eqm: "?p = kI64MinAbs \<longleftrightarrow> unat ?p = 9223372036854775808"
    by (metis unat_u64_consts(3) word_unat_eq_iff)
  have "checked_mul_i64 a b =
     (if 18446744073709551615 < nat \<bar>a * b\<bar> then None
      else if a * b < 0 then
        (if 9223372036854775808 < unat ?p then None
         else Some (if unat ?p = 9223372036854775808 then i64_min else - sint ?p))
      else if 9223372036854775807 < unat ?p then None else Some (sint ?p))"
    using False
    by (simp add: checked_mul_i64_def mul_overflow_i64_def Let_def neg guard [symmetric] eqm
        word_less_nat_alt flip: mag_u64_def)
  then show ?thesis using up sp by (auto simp: int_range)
qed

section \<open>Parsing inverts rendering\<close>

abbreviation dec_fold :: "nat \<Rightarrow> string \<Rightarrow> nat" where
  "dec_fold a s \<equiv> foldl (\<lambda>a c. 10 * a + digit_value c) a s"

lemma dec_fold_ge: "a \<le> dec_fold a s"
proof (induction s arbitrary: a)
  case (Cons c s)
  have "a \<le> 10 * a + digit_value c" by simp
  also have "\<dots> \<le> dec_fold (10 * a + digit_value c) s" by (rule Cons.IH)
  finally show ?case by simp
qed simp

lemma magnitude_guard:
  assumes "d < 10"
  shows "m > (kU64Max - word_of_nat d) div (10 :: u64) \<longleftrightarrow> 18446744073709551616 \<le> 10 * unat m + d"
proof -
  have "unat (word_of_nat d :: u64) = d" using assms by (simp add: unat_of_nat)
  then have "unat ((kU64Max - word_of_nat d) div (10 :: u64)) = (18446744073709551615 - d) div 10"
    by (simp add: unat_div)
  then show ?thesis using assms by (auto simp: word_less_nat_alt)
qed

lemma parse_magnitude_spec:
  "parse_magnitude m s =
     (if (\<forall>c \<in> set s. is_digit c) \<and> dec_fold (unat m) s < 18446744073709551616
      then Some (word_of_nat (dec_fold (unat m) s)) else None)"
proof (induction m s rule: parse_magnitude.induct)
  case (1 m)
  then show ?case using unat_less_2_64 [of m] by simp
next
  case (2 m c s)
  let ?d = "digit_value c"
  show ?case
  proof (cases "is_digit c")
    case False then show ?thesis by simp
  next
    case True
    then have d: "?d < 10" by (rule digit_value_less)
    show ?thesis
    proof (cases "18446744073709551616 \<le> 10 * unat m + ?d")
      case big: True
      then have "18446744073709551616 \<le> dec_fold (unat m) (c # s)"
        using dec_fold_ge [of "10 * unat m + ?d" s] by simp
      with big True d show ?thesis by (simp add: magnitude_guard Let_def)
    next
      case small: False
      have ud: "unat (word_of_nat ?d :: u64) = ?d" using d by (simp add: unat_of_nat)
      have u: "unat (m * 10 + word_of_nat ?d) = 10 * unat m + ?d"
        using small ud by (simp add: unat_word_ariths mult.commute)
      from small True d 2 show ?thesis by (simp add: magnitude_guard Let_def u)
    qed
  qed
qed

lemma parse_magnitude_show_nat:
  "parse_magnitude 0 (show_nat n) =
     (if n < 18446744073709551616 then Some (word_of_nat n) else None)"
  using show_nat_digits [of _ n] dec_value_show_nat [of n]
  by (auto simp: parse_magnitude_spec dec_value_def)

lemma show_nat_Cons: obtains c s where "show_nat n = c # s" "c \<noteq> CHR ''-''" "c \<noteq> CHR ''+''"
  by (cases "show_nat n") (use show_nat_hd_not_sign [of n] in auto)

lemma parse_u64_show_nat: "parse_u64 (show_nat (unat w)) = Some w"
proof -
  obtain c s where s: "show_nat (unat w) = c # s" "c \<noteq> CHR ''-''" "c \<noteq> CHR ''+''"
    by (rule show_nat_Cons)
  have "parse_u64 (show_nat (unat w)) = parse_magnitude 0 (show_nat (unat w))"
    using s by (simp add: parse_u64_def)
  then show ?thesis using unat_less_2_64 [of w] by (simp add: parse_magnitude_show_nat)
qed

lemma sint_word_of_nat_small:
  "n < 9223372036854775808 \<Longrightarrow> sint (word_of_nat n :: u64) = int n"
  by (subst sint_small) (simp_all add: unat_of_nat)

lemma word_of_nat_cmp:
  assumes "n < 18446744073709551616"
  shows "(word_of_nat n :: u64) > kI64MinAbs \<longleftrightarrow> 9223372036854775808 < n"
    and "(word_of_nat n :: u64) > kI64Max \<longleftrightarrow> 9223372036854775807 < n"
    and "(word_of_nat n :: u64) = kI64MinAbs \<longleftrightarrow> n = 9223372036854775808"
proof -
  have "unat (word_of_nat n :: u64) = n" using assms by (simp add: unat_of_nat)
  then show "(word_of_nat n :: u64) > kI64MinAbs \<longleftrightarrow> 9223372036854775808 < n"
    and "(word_of_nat n :: u64) > kI64Max \<longleftrightarrow> 9223372036854775807 < n"
    by (simp_all add: word_less_nat_alt)
  show "(word_of_nat n :: u64) = kI64MinAbs \<longleftrightarrow> n = 9223372036854775808"
    using \<open>unat (word_of_nat n :: u64) = n\<close> by (metis unat_u64_consts(3) word_unat_eq_iff)
qed

lemma parse_i64_show_int: "in_i64 x \<Longrightarrow> parse_i64 (show_int x) = Some x"
proof (cases "x < 0")
  case True
  assume r: "in_i64 x"
  define n where "n = nat (- x)"
  have n: "n \<le> 9223372036854775808" "x = - int n" "0 < n" using True r by (auto simp: n_def int_range)
  then have "show_int x = CHR ''-'' # show_nat n" by (simp add: show_int_def)
  with n show ?thesis
    by (auto simp: parse_i64_def parse_magnitude_show_nat word_of_nat_cmp sint_word_of_nat_small
        i64_min_def)
next
  case False
  assume r: "in_i64 x"
  define n where "n = nat x"
  have n: "n < 9223372036854775808" "x = int n" using False r by (auto simp: n_def int_range)
  then have sx: "show_int x = show_nat n" by (simp add: show_int_def)
  obtain c s where s: "show_nat n = c # s" "c \<noteq> CHR ''-''" "c \<noteq> CHR ''+''"
    by (rule show_nat_Cons)
  have "parse_magnitude 0 (c # s) = Some (word_of_nat n)"
    using n s(1) parse_magnitude_show_nat [of n] by simp
  moreover have "show_int (int n) = c # s" using sx n s by simp
  ultimately show ?thesis using n s
    by (simp add: parse_i64_def word_of_nat_cmp sint_word_of_nat_small del: parse_magnitude.simps)
qed

lemma parse_i64_range: "parse_i64 text = Some x \<Longrightarrow> in_i64 x"
proof -
  have neg: "in_i64 (- sint w)" if "\<not> w > kI64MinAbs" "w \<noteq> kI64MinAbs" for w :: u64
  proof -
    have "unat w < 9223372036854775808"
      using that by (metis linorder_neqE_nat unat_u64_consts(3) word_less_nat_alt word_unat_eq_iff)
    then show ?thesis using sint_small [of w] by (simp only: in_i64_iff) linarith
  qed
  have pos: "in_i64 (sint w)" if "\<not> w > kI64Max" for w :: u64
  proof -
    have "unat w < 9223372036854775808" using that by (simp add: word_less_nat_alt)
    then show ?thesis using sint_small [of w] by (simp only: in_i64_iff) linarith
  qed
  assume "parse_i64 text = Some x"
  then show ?thesis
    by (auto simp: parse_i64_def Let_def i64_min_def in_i64_iff [of "- 9223372036854775808"] 
        split: list.splits if_splits option.splits intro: neg pos)
qed

section \<open>The accumulator computes on natural numbers below \<open>2 ^ 128\<close>\<close>

definition u128_val :: "uint128 \<Rightarrow> nat" where
  "u128_val v = unat (hi v) * 18446744073709551616 + unat (lo v)"

lemma u128_val_UInt128 [simp]: "u128_val (UInt128 h l) = unat h * 18446744073709551616 + unat l"
  by (simp add: u128_val_def UInt128_def)

lemma UInt128_sel [simp]: "hi (UInt128 h l) = h" "lo (UInt128 h l) = l"
  by (simp_all add: UInt128_def)

lemma u128_val_less: "u128_val v < 340282366920938463463374607431768211456"
  using unat_less_2_64 [of "hi v"] unat_less_2_64 [of "lo v"] by (simp add: u128_val_def)

lemma u128_val_split:
  "u128_val v div 18446744073709551616 = unat (hi v)"
  "u128_val v mod 18446744073709551616 = unat (lo v)"
  using unat_less_2_64 [of "lo v"] by (simp_all add: u128_val_def)

lemma u128_eq_iff: "a = b \<longleftrightarrow> hi a = hi b \<and> lo a = lo b" for a b :: uint128
  by (cases a, cases b) auto

lemma u128_val_inject: "u128_val a = u128_val b \<longleftrightarrow> a = b"
  by (metis u128_eq_iff u128_val_split word_unat_eq_iff)

lemma u128_val_saturated [simp]: "u128_val kSaturated = 340282366920938463463374607431768211455"
  by (simp add: kSaturated_def)

lemma u128_val_from_u64 [simp]: "u128_val (u128_from_u64 w) = unat w"
  by (simp add: u128_from_u64_def)

lemma u128_is_zero_iff: "u128_is_zero v \<longleftrightarrow> u128_val v = 0"
  by (auto simp: u128_is_zero_def u128_val_def unat_eq_0)

lemma fits_u64_iff: "fits_u64 v \<longleftrightarrow> u128_val v < 18446744073709551616"
  using unat_less_2_64 [of "lo v"]
  by (cases "unat (hi v) = 0") (auto simp: fits_u64_def u128_val_def unat_eq_0 [symmetric])

lemma is_saturated_iff: "is_saturated v \<longleftrightarrow> u128_val v = 340282366920938463463374607431768211455"
proof -
  have "is_saturated v \<longleftrightarrow> v = kSaturated"
    by (simp add: is_saturated_def kSaturated_def u128_eq_iff)
  then show ?thesis by (simp add: u128_val_inject [symmetric])
qed

lemma u128_less_iff: "u128_less a b \<longleftrightarrow> u128_val a < u128_val b"
proof -
  have "unat (hi a) = unat (hi b) \<longleftrightarrow> hi a = hi b" by (simp add: word_unat_eq_iff)
  then show ?thesis
    using unat_less_2_64 [of "lo a"] unat_less_2_64 [of "lo b"]
    by (auto simp: u128_less_def u128_val_def word_less_nat_alt)
qed

lemma u128_equal_iff: "u128_equal a b \<longleftrightarrow> a = b"
  by (cases a, cases b) (auto simp: u128_equal_def)

lemma carry_iff: "(l + m :: u64) < l \<longleftrightarrow> 18446744073709551616 \<le> unat l + unat m"
  using unat_less_2_64 [of l] unat_less_2_64 [of m]
  by (auto simp: word_less_nat_alt unat_word_ariths mod_if)

lemma add_u128_val:
  "u128_val (add_u128 a b) = min (u128_val a + u128_val b) 340282366920938463463374607431768211455"
proof -
  have la: "unat (lo a) < 18446744073709551616" and lb: "unat (lo b) < 18446744073709551616"
    and ha: "unat (hi a) < 18446744073709551616" and hb: "unat (hi b) < 18446744073709551616"
    by (rule unat_less_2_64)+
  define c :: u64 where "c = (if lo a + lo b < lo a then 1 else 0)"
  have c: "unat c = (if 18446744073709551616 \<le> unat (lo a) + unat (lo b) then 1 else 0)"
    by (simp add: c_def carry_iff)
  have l: "unat (lo a + lo b) + unat c * 18446744073709551616 = unat (lo a) + unat (lo b)"
    using la lb by (auto simp: c unat_word_ariths mod_if)
  have add: "add_u128 a b =
      (if hi a > kU64Max - hi b then kSaturated
       else if hi a + hi b > kU64Max - c then kSaturated
       else UInt128 (hi a + hi b + c) (lo a + lo b))"
    by (simp add: add_u128_def c_def Let_def)
  show ?thesis
  proof (cases "unat (hi a) + unat (hi b) + unat c < 18446744073709551616")
    case True
    then have h: "unat (hi a + hi b) = unat (hi a) + unat (hi b)"
      and hc: "unat (hi a + hi b + c) = unat (hi a) + unat (hi b) + unat c"
      by (simp_all add: unat_word_ariths)
    have "\<not> hi a > kU64Max - hi b" "\<not> hi a + hi b > kU64Max - c"
      using True by (simp_all add: word_less_nat_alt h)
    then have "u128_val (add_u128 a b) = u128_val a + u128_val b"
      using l hc by (simp add: add u128_val_def algebra_simps)
    then show ?thesis using u128_val_less [of "add_u128 a b"] by simp
  next
    case False
    have "hi a > kU64Max - hi b \<or> hi a + hi b > kU64Max - c"
    proof (cases "unat (hi a) + unat (hi b) < 18446744073709551616")
      case True
      then have "unat (hi a + hi b) = unat (hi a) + unat (hi b)" by (rule u64_add_fits)
      with True False unat_less_2_64 [of c] have "hi a + hi b > kU64Max - c"
        unfolding word_less_nat_alt unat_kU64Max_minus by linarith
      then show ?thesis ..
    next
      case False
      then have "hi a > kU64Max - hi b"
        unfolding word_less_nat_alt unat_kU64Max_minus using hb by linarith
      then show ?thesis ..
    qed
    then have "add_u128 a b = kSaturated" by (auto simp: add)
    moreover have "340282366920938463463374607431768211456 \<le> u128_val a + u128_val b"
      using False l by (simp add: u128_val_def)
    ultimately show ?thesis by simp
  qed
qed

lemma sub_u128_val: "u128_val b \<le> u128_val a \<Longrightarrow> u128_val (sub_u128 a b) = u128_val a - u128_val b"
proof -
  assume le: "u128_val b \<le> u128_val a"
  have la: "unat (lo a) < 18446744073709551616" and lb: "unat (lo b) < 18446744073709551616"
    by (rule unat_less_2_64)+
  show ?thesis
  proof (cases "lo a < lo b")
    case True
    then have h: "unat (hi b) < unat (hi a)"
      using le la lb by (simp add: u128_val_def word_less_nat_alt)
    then have "hi b \<le> hi a" by (simp add: word_le_nat_alt)
    moreover have "1 \<le> hi a - hi b"
      using h \<open>hi b \<le> hi a\<close> by (simp add: word_le_nat_alt unat_sub)
    ultimately have "unat (hi a - hi b - 1) = unat (hi a) - unat (hi b) - 1"
      by (simp add: unat_sub)
    moreover have "unat (lo a - lo b) = unat (lo a) + 18446744073709551616 - unat (lo b)"
      using True by (simp add: unat_sub_if_size word_size word_less_nat_alt word_le_nat_alt)
    ultimately show ?thesis
      using True h lb by (simp add: sub_u128_def u128_val_def word_less_nat_alt algebra_simps)
  next
    case False
    then have "hi b \<le> hi a"
      using le la lb by (simp add: u128_val_def word_le_nat_alt word_less_nat_alt)
    with False le show ?thesis
      by (simp add: sub_u128_def u128_val_def unat_sub word_le_nat_alt word_less_nat_alt algebra_simps)
  qed
qed

section \<open>Multiplication\<close>

lemma unat_low32: "unat (w AND 0xFFFFFFFF :: u64) = unat w mod 4294967296"
proof -
  have "(0xFFFFFFFF :: u64) = mask 32" by (simp add: mask_eq_exp_minus_1)
  then have "w AND 0xFFFFFFFF = take_bit 32 w" by (simp add: take_bit_eq_mask)
  then show ?thesis by (simp only: unsigned_take_bit_eq) (simp add: take_bit_eq_mod)
qed

lemma unat_high32: "unat (drop_bit 32 w :: u64) = unat w div 4294967296"
  by (simp only: unat_drop_bit_eq) (simp add: drop_bit_eq_div)

lemma unat_or_push32:
  "unat ((x AND 0xFFFFFFFF) OR push_bit 32 y :: u64)
     = unat x mod 4294967296 + 4294967296 * (unat y mod 4294967296)"
proof -
  have m: "(0xFFFFFFFF :: u64) = mask 32" by (simp add: mask_eq_exp_minus_1)
  have "(x AND 0xFFFFFFFF) OR push_bit 32 y = (x AND 0xFFFFFFFF) + push_bit 32 y"
    unfolding m by (rule disjunctive_add [symmetric]) (auto simp: bit_simps)
  moreover have "unat (push_bit 32 y) = 4294967296 * (unat y mod 4294967296)"
  proof -
    have "unat (push_bit 32 y) = (unat y * 4294967296) mod 18446744073709551616"
      by (simp add: push_bit_eq_mult unat_word_ariths)
    also have "\<dots> = 4294967296 * (unat y mod 4294967296)"
      using mult_mod_right [of 4294967296 "unat y" 4294967296] by (simp add: mult.commute)
    finally show ?thesis .
  qed
  moreover have "unat x mod 4294967296 + 4294967296 * (unat y mod 4294967296) < 18446744073709551616"
  proof -
    have "unat x mod 4294967296 \<le> 4294967295" "unat y mod 4294967296 \<le> 4294967295"
      by (simp_all add: less_Suc_eq_le [symmetric])
    then show ?thesis by linarith
  qed
  ultimately show ?thesis by (simp add: u64_add_fits unat_low32)
qed

lemma schoolbook_nat:
  fixes a b :: nat
  defines "B \<equiv> (4294967296 :: nat)"
  defines "p0 \<equiv> a mod B * (b mod B)" and "p1 \<equiv> a mod B * (b div B)"
    and "p2 \<equiv> a div B * (b mod B)" and "p3 \<equiv> a div B * (b div B)"
  defines "m \<equiv> p0 div B + p1 mod B + p2 mod B"
  shows "a * b = (p3 + p1 div B + p2 div B + m div B) * (B * B) + (p0 mod B + B * (m mod B))"
proof -
  have expand: "(x * B + y) * (z * B + w) = x * z * (B * B) + (y * z + x * w) * B + y * w"
    for x y z w by (simp add: algebra_simps)
  have "a * b = p3 * (B * B) + (p1 + p2) * B + p0"
    using expand [of "a div B" "a mod B" "b div B" "b mod B"]
    by (simp only: div_mult_mod_eq p0_def p1_def p2_def p3_def)
  also have "(p1 + p2) * B = (p1 div B + p2 div B) * (B * B) + (p1 mod B + p2 mod B) * B"
    by (metis (no_types, lifting) add.assoc add.left_commute distrib_right div_mult_mod_eq mult.assoc)
  also have "p0 = p0 div B * B + p0 mod B" by simp
  also have "p3 * (B * B) + ((p1 div B + p2 div B) * (B * B) + (p1 mod B + p2 mod B) * B)
      + (p0 div B * B + p0 mod B)
      = (p3 + p1 div B + p2 div B) * (B * B) + m * B + p0 mod B"
    by (simp add: m_def algebra_simps)
  also have "m * B = (m div B * B + m mod B) * B" by (simp only: div_mult_mod_eq)
  also have "\<dots> = m div B * (B * B) + B * (m mod B)"
    by (simp only: distrib_right mult.assoc mult.commute [of B "m mod B"])
  finally show ?thesis by (simp only: distrib_right add.assoc add.commute add.left_commute)
qed

lemma low_mod_le: "(x :: nat) mod 4294967296 \<le> 4294967295"
  by (simp add: less_Suc_eq_le [symmetric])

lemma high_div_le: "x < 18446744073709551616 \<Longrightarrow> x div 4294967296 \<le> (4294967295 :: nat)"
  using less_mult_imp_div_less [of x 4294967296 4294967296] by simp

lemma mul_u64_to_u128_val: "u128_val (mul_u64_to_u128 a b) = unat a * unat b"
proof -
  define B where "B = (4294967296 :: nat)"
  define p0 where "p0 = unat a mod B * (unat b mod B)"
  define p1 where "p1 = unat a mod B * (unat b div B)"
  define p2 where "p2 = unat a div B * (unat b mod B)"
  define p3 where "p3 = unat a div B * (unat b div B)"
  define m where "m = p0 div B + p1 mod B + p2 mod B"
  define h where "h = p3 + p1 div B + p2 div B + m div B"
  have eq: "unat a * unat b = h * (B * B) + (p0 mod B + B * (m mod B))"
    unfolding h_def m_def p0_def p1_def p2_def p3_def B_def by (rule schoolbook_nat)
  have small: "x * y < 18446744073709551616" if "x \<le> 4294967295" "y \<le> 4294967295" for x y :: nat
    using mult_le_mono [OF that] by simp
  have bnd: "unat a mod B \<le> 4294967295" "unat b mod B \<le> 4294967295"
      "unat a div B \<le> 4294967295" "unat b div B \<le> 4294967295"
    by (simp_all only: B_def low_mod_le high_div_le unat_less_2_64)
  have P: "unat ((a AND 0xFFFFFFFF) * (b AND 0xFFFFFFFF)) = p0"
      "unat ((a AND 0xFFFFFFFF) * drop_bit 32 b) = p1"
      "unat (drop_bit 32 a * (b AND 0xFFFFFFFF)) = p2"
      "unat (drop_bit 32 a * drop_bit 32 b) = p3"
    using bnd small
    by (simp_all add: u64_mult_fits unat_low32 unat_high32 p0_def p1_def p2_def p3_def B_def)
  have pl: "p0 < 18446744073709551616" "p1 < 18446744073709551616"
      "p2 < 18446744073709551616" "p3 < 18446744073709551616"
    using bnd small by (simp_all add: p0_def p1_def p2_def p3_def)
  have dv: "x div B \<le> 4294967295" if "x < 18446744073709551616" for x
    using that by (simp only: B_def high_div_le)
  have mb: "m \<le> 12884901885"
    using dv [OF pl(1)] low_mod_le [of p1] low_mod_le [of p2] by (simp add: m_def B_def)
  define mid :: u64 where "mid = drop_bit 32 ((a AND 0xFFFFFFFF) * (b AND 0xFFFFFFFF))
      + (((a AND 0xFFFFFFFF) * drop_bit 32 b) AND 0xFFFFFFFF)
      + ((drop_bit 32 a * (b AND 0xFFFFFFFF)) AND 0xFFFFFFFF)"
  have mid: "unat mid = m"
    using mb by (simp add: mid_def m_def u64_add_fits P unat_low32 unat_high32 B_def)
  have "h * (B * B) < 18446744073709551616 * (B * B)"
  proof -
    have "h * (B * B) \<le> unat a * unat b" by (simp add: eq)
    also have "\<dots> < 18446744073709551616 * 18446744073709551616"
      by (rule mult_strict_mono) (simp_all add: unat_less_2_64)
    finally show ?thesis by (simp add: B_def)
  qed
  then have hb: "h < 18446744073709551616" by (simp add: B_def)
  have "unat (drop_bit 32 a * drop_bit 32 b + drop_bit 32 ((a AND 0xFFFFFFFF) * drop_bit 32 b)
      + drop_bit 32 (drop_bit 32 a * (b AND 0xFFFFFFFF)) + drop_bit 32 mid) = h"
    using hb by (simp add: h_def u64_add_fits P mid unat_high32 B_def)
  moreover have "unat ((((a AND 0xFFFFFFFF) * (b AND 0xFFFFFFFF)) AND 0xFFFFFFFF) OR push_bit 32 mid)
      = p0 mod B + B * (m mod B)"
    by (simp add: unat_or_push32 P mid B_def)
  ultimately show ?thesis
    by (simp add: mul_u64_to_u128_def Let_def eq B_def flip: mid_def)
qed

lemma mul_u128_u64_val:
  "u128_val (mul_u128_u64 a b) = min (u128_val a * unat b) 340282366920938463463374607431768211455"
proof (cases "u128_is_zero a \<or> b = 0")
  case True
  then show ?thesis by (auto simp: mul_u128_u64_def u128_is_zero_iff)
next
  case False
  define low where "low = mul_u64_to_u128 (lo a) b"
  define high where "high = mul_u64_to_u128 (hi a) b"
  have low: "u128_val low = unat (lo a) * unat b" and high: "u128_val high = unat (hi a) * unat b"
    by (simp_all add: low_def high_def mul_u64_to_u128_val)
  have tot: "u128_val a * unat b = u128_val high * 18446744073709551616 + u128_val low"
    by (simp only: low high u128_val_def [of a]) (simp add: algebra_simps)
  have m: "mul_u128_u64 a b =
      (if hi high \<noteq> 0 then kSaturated
       else if lo high + hi low < lo high then kSaturated
       else UInt128 (lo high + hi low) (lo low))"
    using False by (simp add: mul_u128_u64_def Let_def low_def high_def)
  show ?thesis
  proof (cases "hi high = 0 \<and> \<not> lo high + hi low < lo high")
    case True
    then have "unat (lo high) + unat (hi low) < 18446744073709551616" by (simp add: carry_iff)
    with True have "u128_val (mul_u128_u64 a b) = u128_val a * unat b"
      by (simp only: tot) (simp add: m u64_add_fits u128_val_def algebra_simps)
    then show ?thesis using u128_val_less [of "mul_u128_u64 a b"] by simp
  next
    case False
    then have sat: "mul_u128_u64 a b = kSaturated" by (auto simp: m)
    have "18446744073709551616 \<le> u128_val high + unat (hi low)"
    proof (cases "hi high = 0")
      case True
      with False show ?thesis by (simp add: carry_iff u128_val_def)
    next
      case nz: False
      then have "1 \<le> unat (hi high)" by (simp add: unat_gt_0 Suc_le_eq)
      then show ?thesis by (simp add: u128_val_def)
    qed
    then have "18446744073709551616 * 18446744073709551616 \<le> u128_val a * unat b"
      unfolding tot u128_val_def [of low] by linarith
    with sat show ?thesis by simp
  qed
qed

section \<open>Division\<close>

lemma u64_le_1_cases: "unat b \<le> 1 \<Longrightarrow> b = 0 \<or> b = (1 :: u64)"
  by (metis One_nat_def le_Suc_eq le_zero_eq unat_1 unat_eq_0 word_unat_eq_iff)

lemma unat_shl1_or:
  assumes "unat b \<le> 1"
  shows "unat (push_bit 1 l OR b :: u64) = (2 * unat l) mod 18446744073709551616 + unat b"
proof -
  have "push_bit 1 l OR b = push_bit 1 l + b"
    using u64_le_1_cases [OF assms]
    by (auto intro!: disjunctive_add [symmetric] simp: bit_simps bit_0)
  moreover have p: "unat (push_bit 1 l) = (2 * unat l) mod 18446744073709551616"
    by (simp add: push_bit_eq_mult unat_word_ariths mult.commute)
  moreover have "(2 * unat l) mod 18446744073709551616 + unat b < 18446744073709551616"
  proof -
    have "even ((2 * unat l) mod 18446744073709551616)" by (rule dvd_mod) simp_all
    then obtain k where k: "(2 * unat l) mod 18446744073709551616 = 2 * k" by (rule evenE)
    have "2 * k < 18446744073709551616" unfolding k [symmetric] by simp
    then have "k < 9223372036854775808" by simp
    then show ?thesis using assms unfolding k by linarith
  qed
  ultimately show ?thesis by (simp only: u64_add_fits)
qed

lemma unat_top_bit: "unat (drop_bit 63 l :: u64) = unat l div 9223372036854775808"
  by (simp only: unat_drop_bit_eq) (simp add: drop_bit_eq_div)

lemma unat_shl1_carry:
  assumes "unat h < 9223372036854775808"
  shows "unat (push_bit 1 h OR drop_bit 63 l :: u64) = 2 * unat h + unat l div 9223372036854775808"
proof -
  have "unat l div 9223372036854775808 \<le> 1"
    using less_mult_imp_div_less [of "unat l" 2 9223372036854775808] unat_less_2_64 [of l] by simp
  then have "unat (drop_bit 63 l) \<le> 1" by (simp only: unat_top_bit)
  from unat_shl1_or [OF this, of h] assms show ?thesis by (simp only: unat_top_bit) simp
qed

lemma u128_shl1_val:
  assumes v: "u128_val x < 170141183460469231731687303715884105728" and b: "unat b \<le> 1"
  shows "u128_val (UInt128 (push_bit 1 (hi x) OR drop_bit 63 (lo x)) (push_bit 1 (lo x) OR b))
    = 2 * u128_val x + unat b"
proof -
  have h: "unat (hi x) < 9223372036854775808" using v by (simp add: u128_val_def)
  have l: "2 * unat (lo x) = unat (lo x) div 9223372036854775808 * 18446744073709551616
      + (2 * unat (lo x)) mod 18446744073709551616"
    using div_mult_mod_eq [of "2 * unat (lo x)" 18446744073709551616]
      div_mult_mult1 [of 2 "unat (lo x)" 9223372036854775808] by simp
  have "(2 * hx + c) * 18446744073709551616 + (m + bx) = 2 * (hx * 18446744073709551616 + lx) + bx"
    if "2 * lx = c * 18446744073709551616 + m" for hx c m bx lx :: nat
    using that by simp
  from this [OF l] show ?thesis
    by (simp only: u128_val_UInt128 unat_shl1_carry [OF h] unat_shl1_or [OF b] u128_val_def [of x])
qed

lemma unat_bit_of: "unat (drop_bit n w AND 1 :: u64) = unat w div 2 ^ n mod 2"
proof -
  have "drop_bit n w AND 1 = take_bit 1 (drop_bit n w)"
    by (simp add: take_bit_eq_mask mask_eq_exp_minus_1)
  then have "unat (drop_bit n w AND 1) = take_bit 1 (drop_bit n (unat w))"
    by (simp only: unsigned_take_bit_eq unat_drop_bit_eq)
  then show ?thesis by (simp only: take_bit_eq_mod drop_bit_eq_div) simp
qed

lemma bit_at_val: "n < 128 \<Longrightarrow> unat (bit_at v n) = u128_val v div 2 ^ n mod 2"
proof (cases "64 \<le> n")
  case True
  have "u128_val v div 2 ^ n = u128_val v div 18446744073709551616 div 2 ^ (n - 64)"
  proof -
    have "(2 :: nat) ^ n = 18446744073709551616 * 2 ^ (n - 64)"
      using True power_add [of "2 :: nat" 64 "n - 64"] by simp
    then show ?thesis by (simp only: div_mult2_eq)
  qed
  then show ?thesis using True by (simp add: bit_at_def unat_bit_of u128_val_split)
next
  case False
  have "u128_val v = unat (hi v) * 2 ^ (63 - n) * 2 * 2 ^ n + unat (lo v)"
  proof -
    have "(18446744073709551616 :: nat) = 2 ^ (63 - n) * 2 * 2 ^ n"
      using False power_add [of "2 :: nat" "63 - n" "Suc n"] by simp
    then show ?thesis by (simp add: u128_val_def)
  qed
  then have "u128_val v div 2 ^ n = unat (hi v) * 2 ^ (63 - n) * 2 + unat (lo v) div 2 ^ n"
    by simp
  then show ?thesis using False by (simp add: bit_at_def unat_bit_of)
qed

text \<open>
  The loop invariant with \<open>n\<close> bits left: quotient and remainder of the bits read so far.
\<close>

definition divmod_inv :: "uint128 \<Rightarrow> u64 \<Rightarrow> nat \<Rightarrow> uint128 \<times> uint128 \<Rightarrow> bool" where
  "divmod_inv value divisor n st \<longleftrightarrow>
     u128_val (fst st) * unat divisor + u128_val (snd st) = u128_val value div 2 ^ n \<and>
     u128_val (snd st) < unat divisor"

lemma divmod_step_inv:
  assumes n: "n < 128" and inv: "divmod_inv value divisor (Suc n) st" and d: "divisor \<noteq> 0"
  shows "divmod_inv value divisor n (divmod_step value divisor n st)"
proof -
  obtain q r where st: "st = (q, r)" by force
  define b where "b = bit_at value n"
  have d1: "1 \<le> unat divisor" and dm: "unat divisor < 18446744073709551616"
    using d by (simp_all add: unat_gt_0 Suc_le_eq unat_less_2_64)
  have qr: "u128_val q * unat divisor + u128_val r = u128_val value div 2 ^ n div 2"
    and r: "u128_val r < unat divisor"
    using inv by (auto simp only: divmod_inv_def st power_Suc2 div_mult2_eq fst_conv snd_conv)
  have b: "unat b = u128_val value div 2 ^ n mod 2" by (simp only: b_def bit_at_val [OF n])
  then have b1: "unat b \<le> 1" by simp
  have "u128_val q * 1 \<le> u128_val q * unat divisor" using d1 by (rule mult_le_mono2)
  also have "\<dots> \<le> u128_val value div 2 ^ n div 2" using qr by linarith
  also have "\<dots> \<le> u128_val value div 2" by (metis div_le_dividend div_le_mono div_mult2_eq mult.commute)
  finally have q: "u128_val q < 170141183460469231731687303715884105728"
    using u128_val_less [of "value"] by linarith
  define r2 where "r2 = UInt128 (push_bit 1 (hi r) OR drop_bit 63 (lo r)) (push_bit 1 (lo r) OR b)"
  have r2: "u128_val r2 = 2 * u128_val r + unat b"
    unfolding r2_def using r dm by (intro u128_shl1_val b1) linarith
  define q2 where "q2 c = UInt128 (push_bit 1 (hi q) OR drop_bit 63 (lo q)) (push_bit 1 (lo q) OR c)"
    for c :: u64
  have q2: "u128_val (q2 c) = 2 * u128_val q + unat c" if "unat c \<le> 1" for c
    unfolding q2_def by (intro u128_shl1_val that q)
  have sub: "UInt128 (hi r2 - (if lo r2 < divisor then 1 else 0)) (lo r2 - divisor)
      = sub_u128 r2 (UInt128 0 divisor)" by (simp add: sub_u128_def)
  have ge: "hi r2 \<noteq> 0 \<or> lo r2 \<ge> divisor \<longleftrightarrow> unat divisor \<le> u128_val r2"
  proof (cases "hi r2 = 0")
    case True then show ?thesis by (simp add: u128_val_def word_le_nat_alt)
  next
    case False
    then have "1 \<le> unat (hi r2)" by (simp add: unat_gt_0 Suc_le_eq)
    then show ?thesis using False dm by (simp add: u128_val_def)
  qed
  have rh: "hi r2 = push_bit 1 (hi r) OR drop_bit 63 (lo r)" and rl: "lo r2 = push_bit 1 (lo r) OR b"
    by (simp_all only: r2_def UInt128_sel)
  have r2e: "UInt128 (hi r2) (lo r2) = r2" by (simp add: u128_eq_iff)
  have step: "divmod_step value divisor n st =
      (if unat divisor \<le> u128_val r2 then (q2 1, sub_u128 r2 (UInt128 0 divisor)) else (q2 0, r2))"
    by (simp only: divmod_step_def st Let_def prod.case b_def [symmetric] rh [symmetric]
        rl [symmetric] ge sub r2e q2_def or.right_neutral)
  have tot: "2 * (u128_val q * unat divisor) + u128_val r2 = u128_val value div 2 ^ n"
  proof -
    have "2 * a + (2 * e + m) = x" if "a + e = d" "d * 2 + m = x" for a e d m x :: nat
      using that by simp
    from this [OF qr div_mult_mod_eq] show ?thesis unfolding r2 b .
  qed
  show ?thesis
  proof (cases "unat divisor \<le> u128_val r2")
    case True
    then have "u128_val (sub_u128 r2 (UInt128 0 divisor)) = u128_val r2 - unat divisor"
      by (simp add: sub_u128_val)
    with True tot r r2 b1 show ?thesis
      by (simp add: divmod_inv_def step q2 algebra_simps)
  next
    case False
    with tot show ?thesis by (simp add: divmod_inv_def step q2 algebra_simps)
  qed
qed

lemma divmod_loop_inv:
  "n \<le> 128 \<Longrightarrow> divisor \<noteq> 0 \<Longrightarrow> divmod_inv value divisor n st \<Longrightarrow>
     divmod_inv value divisor 0 (divmod_loop value divisor n st)"
  by (induction n arbitrary: st) (simp_all add: divmod_step_inv)

lemma divmod_u128_u64_val:
  assumes "divisor \<noteq> 0" and "divmod_u128_u64 value divisor = (q, r)"
  shows "u128_val q = u128_val value div unat divisor" and "unat r = u128_val value mod unat divisor"
proof -
  obtain q' r' where l: "divmod_loop value divisor 128 (UInt128 0 0, UInt128 0 0) = (q', r')" by force
  have "u128_val value div 2 ^ 128 = 0" using u128_val_less [of "value"] by simp
  then have "divmod_inv value divisor 128 (UInt128 0 0, UInt128 0 0)"
    using assms(1) by (simp add: divmod_inv_def unat_gt_0)
  then have inv: "divmod_inv value divisor 0 (q', r')"
    using divmod_loop_inv [OF order_refl assms(1)] l by metis
  then have eq: "u128_val q' * unat divisor + u128_val r' = u128_val value"
    and lt: "u128_val r' < unat divisor" by (simp_all add: divmod_inv_def)
  have dm: "u128_val value div unat divisor = u128_val q'" "u128_val value mod unat divisor = u128_val r'"
    using lt by (simp_all flip: eq)
  have "q = q'" "r = lo r'" using assms l by (simp_all add: divmod_u128_u64_def)
  moreover have "u128_val r' = unat (lo r')"
  proof -
    have "u128_val r' < 18446744073709551616" using lt unat_less_2_64 [of divisor] by linarith
    then have "hi r' = 0" by (simp add: fits_u64_iff [symmetric] fits_u64_def)
    then show ?thesis by (simp add: u128_val_def)
  qed
  ultimately show "u128_val q = u128_val value div unat divisor"
    and "unat r = u128_val value mod unat divisor" using dm by simp_all
qed

section \<open>Rendering the accumulator\<close>

text \<open>The digits, least significant first, that the loop of \<^verbatim>\<open>to_string\<close> collects.\<close>

lemma divmod_10_smaller:
  assumes "\<not> u128_is_zero v"
  shows "u128_val (fst (divmod_u128_u64 v 10)) < u128_val v"
proof -
  obtain q r where d: "divmod_u128_u64 v 10 = (q, r)" by force
  have "u128_val q = u128_val v div 10" using divmod_u128_u64_val(1) [OF _ d] by simp
  then show ?thesis using assms d by (simp add: u128_is_zero_iff)
qed

function u128_digits :: "uint128 \<Rightarrow> string" where
  "u128_digits current =
     (if u128_is_zero current then []
      else digit_char (unat (snd (divmod_u128_u64 current 10)))
           # u128_digits (fst (divmod_u128_u64 current 10)))"
  by pat_completeness auto

termination
  by (relation "measure u128_val") (auto simp: divmod_10_smaller)

declare u128_digits.simps [simp del]

definition u128_to_string :: "uint128 \<Rightarrow> string" where
  "u128_to_string v = (if u128_is_zero v then ''0'' else rev (u128_digits v))"

lemma rev_u128_digits: "0 < u128_val v \<Longrightarrow> rev (u128_digits v) = show_nat (u128_val v)"
proof (induction v rule: u128_digits.induct)
  case (1 v)
  obtain q r where d: "divmod_u128_u64 v 10 = (q, r)" by force
  have q: "u128_val q = u128_val v div 10" and r: "unat r = u128_val v mod 10"
    using divmod_u128_u64_val [OF _ d] by simp_all
  have u: "u128_digits v = digit_char (u128_val v mod 10) # u128_digits q"
    using 1 by (simp add: u128_digits.simps [of v] u128_is_zero_iff d r)
  show ?case
  proof (cases "u128_val v < 10")
    case True
    then have "u128_digits q = []" by (simp add: u128_digits.simps [of q] u128_is_zero_iff q)
    with True u show ?thesis by (simp add: show_nat.simps [of "u128_val v"])
  next
    case False
    then have "rev (u128_digits q) = show_nat (u128_val q)"
      using 1 d q by (simp add: u128_is_zero_iff)
    with False u q show ?thesis by (simp add: show_nat.simps [of "u128_val v"])
  qed
qed

lemma u128_to_string_show: "u128_to_string v = show_nat (u128_val v)"
proof (cases "u128_is_zero v")
  case True
  then have "u128_val v = 0" by (simp add: u128_is_zero_iff)
  moreover have "digit_char 0 = CHR ''0''" by code_simp
  ultimately show ?thesis using True by (simp add: u128_to_string_def show_nat.simps)
next
  case False
  then show ?thesis by (simp add: u128_to_string_def u128_is_zero_iff rev_u128_digits)
qed

section \<open>The square root\<close>

text \<open>
  With \<open>bt = 4 ^ k\<close> the register \<open>result\<close> holds \<open>s * 2 ^ (k + 1)\<close> for the root \<open>s\<close> found so far and
  \<open>remainder\<close> holds \<open>n - s\<^sup>2\<close>; \<open>s\<close> is short of the root by less than \<open>2 ^ (k + 1)\<close>.
\<close>

definition isqrt_inv :: "nat \<Rightarrow> nat \<Rightarrow> nat \<Rightarrow> u64 \<Rightarrow> u64 \<Rightarrow> bool" where
  "isqrt_inv n k s result remainder \<longleftrightarrow>
     unat result = s * 2 ^ k \<and> unat remainder + s * s = n \<and> n < (s + 2 ^ k) * (s + 2 ^ k)
     \<and> (\<exists>t. s = t * 2 ^ k) \<and> s < 4294967296"

lemma unat_drop_bit_1: "unat (drop_bit 1 (w :: u64)) = unat w div 2"
  by (simp only: unat_drop_bit_eq) (simp add: drop_bit_eq_div)

lemma unat_drop_bit_2: "unat (drop_bit 2 (w :: u64)) = unat w div 4"
  by (simp only: unat_drop_bit_eq) (simp add: drop_bit_eq_div)

lemma isqrt_step:
  assumes inv: "isqrt_inv n (Suc k) s result remainder"
    and bt: "unat bt = 4 ^ k" and k: "k < 32" and n: "n < 18446744073709551616"
  shows "unat (result + bt) = s * 2 ^ Suc k + 4 ^ k"
    and "remainder \<ge> result + bt \<Longrightarrow>
      isqrt_inv n k (s + 2 ^ k) (drop_bit 1 result + bt) (remainder - (result + bt))"
    and "\<not> remainder \<ge> result + bt \<Longrightarrow> isqrt_inv n k s (drop_bit 1 result) remainder"
proof -
  obtain t where t: "s = t * 2 ^ Suc k" and r: "unat result = s * 2 ^ Suc k"
    and rem: "unat remainder + s * s = n" and up: "n < (s + 2 ^ Suc k) * (s + 2 ^ Suc k)"
    and s: "s < 4294967296"
    using inv by (auto simp: isqrt_inv_def)
  have four: "(4 :: nat) ^ k = 2 ^ k * 2 ^ k" by (simp add: power_mult_distrib [symmetric])
  have sum: "s * 2 ^ Suc k + 4 ^ k + s * s = (s + 2 ^ k) * (s + 2 ^ k)"
    by (simp add: four algebra_simps)
  have sk: "s + 2 ^ k < 4294967296"
  proof -
    have pw: "(4294967296 :: nat) = 2 ^ (31 - k) * 2 ^ Suc k"
      using k power_add [of "2 :: nat" "31 - k" "Suc k"] by simp
    have "t * 2 ^ Suc k < 2 ^ (31 - k) * 2 ^ Suc k" using s unfolding t pw .
    then have "Suc t \<le> 2 ^ (31 - k)" by (simp only: mult_less_cancel2 Suc_le_eq)
    then have "Suc t * 2 ^ Suc k \<le> 2 ^ (31 - k) * 2 ^ Suc k" by (rule mult_le_mono1)
    then have "s + 2 ^ Suc k \<le> 4294967296"
      unfolding t pw by (simp add: algebra_simps)
    moreover have "(2 :: nat) ^ k < 2 ^ Suc k" by simp
    ultimately show ?thesis by linarith
  qed
  have "(s + 2 ^ k) * (s + 2 ^ k) < 4294967296 * 4294967296"
    using sk by (intro mult_strict_mono) simp_all
  then have fit: "s * 2 ^ Suc k + 4 ^ k < 18446744073709551616" using sum by linarith
  then show add: "unat (result + bt) = s * 2 ^ Suc k + 4 ^ k"
    using u64_add_fits [of result bt] r bt by simp
  have half: "unat (drop_bit 1 result) = s * 2 ^ k" by (simp only: unat_drop_bit_1 r) simp
  have s': "s = (2 * t) * 2 ^ k" using t by simp
  show "isqrt_inv n k (s + 2 ^ k) (drop_bit 1 result + bt) (remainder - (result + bt))"
    if ge: "remainder \<ge> result + bt"
  proof -
    have "unat (remainder - (result + bt)) = unat remainder - (s * 2 ^ Suc k + 4 ^ k)"
      using ge by (simp add: unat_sub add)
    moreover have "s * 2 ^ Suc k + 4 ^ k \<le> unat remainder" using ge by (simp add: word_le_nat_alt add)
    ultimately have "unat (remainder - (result + bt)) + (s + 2 ^ k) * (s + 2 ^ k) = n"
      using sum rem by linarith
    moreover have "unat (drop_bit 1 result + bt) = (s + 2 ^ k) * 2 ^ k"
      using u64_add_fits [of "drop_bit 1 result" bt] half bt fit by (simp add: four algebra_simps)
    moreover have "s + 2 ^ k = (2 * t + 1) * 2 ^ k" using s' by (simp add: algebra_simps)
    moreover have "s + 2 ^ k + 2 ^ k = s + 2 ^ Suc k" by simp
    ultimately show ?thesis using up sk by (auto simp only: isqrt_inv_def)
  qed
  show "isqrt_inv n k s (drop_bit 1 result) remainder" if lt: "\<not> remainder \<ge> result + bt"
  proof -
    have "unat remainder < s * 2 ^ Suc k + 4 ^ k" using lt by (simp add: word_le_nat_alt add)
    then have "n < (s + 2 ^ k) * (s + 2 ^ k)" using sum rem by linarith
    then show ?thesis using half rem s s' by (auto simp only: isqrt_inv_def)
  qed
qed

lemma isqrt_loop_correct:
  assumes "isqrt_inv n (Suc k) s result remainder" and "unat bt = 4 ^ k" and "k < 32"
    and "n < 18446744073709551616"
  shows "\<exists>r. unat (isqrt_loop result bt remainder) = r \<and> r * r \<le> n \<and> n < (r + 1) * (r + 1)"
  using assms
proof (induction k arbitrary: s result remainder bt)
  case 0
  note st = isqrt_step [OF 0(1) 0(2) 0(3) 0(4)]
  have b1: "bt = 1" using 0(2) by (simp add: word_unat_eq_iff)
  have d: "drop_bit 2 bt = 0" using 0(2) by (simp only: word_unat_eq_iff unat_drop_bit_2) simp
  have fin: "\<exists>r. unat (isqrt_loop res 0 rm) = r \<and> r * r \<le> n \<and> n < (r + 1) * (r + 1)"
    if "isqrt_inv n 0 s' res rm" for s' res rm
    using that by (auto simp: isqrt_loop.simps isqrt_inv_def)
  show ?case
  proof (cases "remainder \<ge> result + bt")
    case True
    with fin [OF st(2) [OF True]] show ?thesis
      using b1 d by (subst isqrt_loop.simps) simp
  next
    case False
    with fin [OF st(3) [OF False]] show ?thesis
      using b1 d by (subst isqrt_loop.simps) simp
  qed
next
  case (Suc k)
  note st = isqrt_step [OF Suc.prems]
  have nz: "bt \<noteq> 0" using Suc.prems(2) by auto
  have d: "unat (drop_bit 2 bt) = 4 ^ k" using Suc.prems(2) by (simp only: unat_drop_bit_2) simp
  have k: "k < 32" using Suc.prems(3) by simp
  show ?case
  proof (cases "remainder \<ge> result + bt")
    case True
    with Suc.IH [OF st(2) [OF True] d k Suc.prems(4)] nz show ?thesis
      by (subst isqrt_loop.simps) simp
  next
    case False
    with Suc.IH [OF st(3) [OF False] d k Suc.prems(4)] nz show ?thesis
      by (subst isqrt_loop.simps) simp
  qed
qed

lemma isqrt_start_spec:
  assumes "unat bt = 4 ^ k" and "k < 32" and "unat rm < 4 ^ Suc k"
  shows "isqrt_start bt rm = 0 \<and> rm = 0 \<or>
    (\<exists>j \<le> k. unat (isqrt_start bt rm) = 4 ^ j \<and> unat rm < 4 ^ Suc j)"
  using assms
proof (induction k arbitrary: bt)
  case 0
  then have b: "bt = 1" by (simp add: word_unat_eq_iff)
  show ?case
  proof (cases "bt > rm")
    case True
    then have rm: "rm = 0" using b by (simp add: word_less_nat_alt unat_eq_0)
    have "drop_bit 2 bt = 0" using 0(1) by (simp only: word_unat_eq_iff unat_drop_bit_2) simp
    then have "isqrt_start bt rm = isqrt_start 0 0"
      using True unfolding rm by (simp add: isqrt_start.simps [of bt 0])
    also have "\<dots> = 0" by (subst isqrt_start.simps) simp
    finally show ?thesis using rm by simp
  next
    case False
    then show ?thesis using 0 by (simp add: isqrt_start.simps [of bt rm])
  qed
next
  case (Suc k)
  have d: "unat (drop_bit 2 bt) = 4 ^ k" using Suc.prems(1) by (simp only: unat_drop_bit_2) simp
  show ?case
  proof (cases "bt > rm")
    case True
    then have lt: "unat rm < 4 ^ Suc k" using Suc.prems(1) by (simp add: word_less_nat_alt)
    have "isqrt_start bt rm = isqrt_start (drop_bit 2 bt) rm"
      using True by (simp add: isqrt_start.simps [of bt rm])
    with Suc.IH [OF d _ lt] Suc.prems(2) show ?thesis by (auto intro: le_SucI)
  next
    case False
    then show ?thesis using Suc.prems by (auto simp: isqrt_start.simps [of bt rm])
  qed
qed

lemma isqrt_u64_correct:
  "unat (isqrt_u64 v) * unat (isqrt_u64 v) \<le> unat v"
  "unat v < (unat (isqrt_u64 v) + 1) * (unat (isqrt_u64 v) + 1)"
proof -
  have "unat (push_bit 62 1 :: u64) = 4 ^ 31" by simp
  moreover have "unat v < 4 ^ Suc 31" using unat_less_2_64 [of v] by simp
  ultimately consider (zero) "isqrt_start (push_bit 62 1) v = 0" "v = 0"
    | (pow) j where "j < 32" "unat (isqrt_start (push_bit 62 1) v) = 4 ^ j" "unat v < 4 ^ Suc j"
    using isqrt_start_spec [of "push_bit 62 1" 31 v] by force
  then have "\<exists>r. unat (isqrt_u64 v) = r \<and> r * r \<le> unat v \<and> unat v < (r + 1) * (r + 1)"
  proof cases
    case zero
    then show ?thesis by (simp add: isqrt_u64_def isqrt_loop.simps)
  next
    case pow
    have "(4 :: nat) ^ Suc j = 2 ^ Suc j * 2 ^ Suc j" by (simp add: power_mult_distrib [symmetric])
    then have "isqrt_inv (unat v) (Suc j) 0 0 v" using pow(3) by (simp add: isqrt_inv_def)
    from isqrt_loop_correct [OF this pow(2) pow(1)] show ?thesis
      by (simp add: isqrt_u64_def unat_less_2_64)
  qed
  then show "unat (isqrt_u64 v) * unat (isqrt_u64 v) \<le> unat v"
    and "unat v < (unat (isqrt_u64 v) + 1) * (unat (isqrt_u64 v) + 1)" by auto
qed

section \<open>Properties\<close>

text \<open>The checked signed operations return the exact result whenever it is representable as a
  signed 64 bit integer and report an overflow in every other case, for all operand pairs.\<close>

lemma checked_i64_exact:
  assumes "in_i64 a" and "in_i64 b"
  shows "checked_add_i64 a b = (if in_i64 (a + b) then Some (a + b) else None)
    \<and> checked_sub_i64 a b = (if in_i64 (a - b) then Some (a - b) else None)
    \<and> checked_mul_i64 a b = (if in_i64 (a * b) then Some (a * b) else None)"
  by (intro conjI checked_add_i64_spec checked_sub_i64_spec checked_mul_i64_spec assms)

lemma checked_i64_exact_example:
  "checked_add_i64 9223372036854775807 (-1) = Some 9223372036854775806
   \<and> checked_sub_i64 9223372036854775807 (-1) = None
   \<and> checked_mul_i64 9223372036854775807 (-1) = Some (- 9223372036854775807)"
  using checked_i64_exact [of 9223372036854775807 "-1"] by (simp add: in_i64_iff)

text \<open>C11: The 128 bit accumulator is exact: addition and multiplication by a word give the
  mathematical result, saturating at \<open>2 ^ 128 - 1\<close> and nowhere else; the widening product never
  saturates; the bitwise division yields the floor quotient and the remainder of every division by
  a nonzero divisor; and the decimal rendering is the one of the number held.\<close>

theorem u128_arithmetic_exact:
  assumes "d \<noteq> 0"
  shows "u128_val (add_u128 a b) = min (u128_val a + u128_val b) (2 ^ 128 - 1)
    \<and> u128_val (mul_u64_to_u128 x y) = unat x * unat y
    \<and> u128_val (mul_u128_u64 a x) = min (u128_val a * unat x) (2 ^ 128 - 1)
    \<and> u128_val (fst (divmod_u128_u64 a d)) = u128_val a div unat d
    \<and> unat (snd (divmod_u128_u64 a d)) = u128_val a mod unat d
    \<and> u128_to_string a = show_nat (u128_val a)"
proof -
  have "u128_val (fst (divmod_u128_u64 a d)) = u128_val a div unat d"
    and "unat (snd (divmod_u128_u64 a d)) = u128_val a mod unat d"
    using divmod_u128_u64_val [OF assms, of a] by (cases "divmod_u128_u64 a d", simp)+
  then show ?thesis
    by (simp add: add_u128_val mul_u64_to_u128_val mul_u128_u64_val u128_to_string_show)
qed

theorem u128_arithmetic_exact_witness:
  "u128_val (fst (divmod_u128_u64 (UInt128 1 0) 10)) = 1844674407370955161
   \<and> unat (snd (divmod_u128_u64 (UInt128 1 0) 10)) = 6"
  using u128_arithmetic_exact [of 10 "UInt128 1 0"] by simp

text \<open>The integer square root is the floor of the real square root for every 64 bit
  argument, zero and the maximum included; in particular both loops end.\<close>

lemma isqrt_is_floor:
  "(unat (isqrt_u64 v))\<^sup>2 \<le> unat v \<and> unat v < (unat (isqrt_u64 v) + 1)\<^sup>2"
  using isqrt_u64_correct [of v] by (simp add: power2_eq_square)

text \<open>Strict parsing reads back what \<^verbatim>\<open>std::to_string\<close> renders, for every signed and every
  unsigned 64 bit value, and never yields a value outside the destination type.\<close>

lemma parse_reads_rendering:
  "(in_i64 x \<longrightarrow> parse_i64 (show_int x) = Some x) \<and> parse_u64 (show_nat (unat w)) = Some w
   \<and> (parse_i64 text = Some y \<longrightarrow> in_i64 y)"
  by (simp add: parse_i64_show_int parse_u64_show_nat) (blast intro: parse_i64_range)

lemma parse_reads_rendering_example:
  "parse_i64 (show_int (- 9223372036854775808)) = Some (- 9223372036854775808)
   \<and> parse_u64 (show_nat (unat (18446744073709551615 :: u64))) = Some 18446744073709551615
   \<and> in_i64 (- 12)"
proof -
  have r: "in_i64 (- 9223372036854775808)" by (simp add: in_i64_iff)
  have p: "parse_i64 ''-12'' = Some (- 12)" by code_simp
  show ?thesis
    using parse_reads_rendering [of "- 9223372036854775808" 18446744073709551615 "''-12''" "- 12"] r p
    by blast
qed

end
