(* ===== verification/Core_Digest.thy ===== *)
theory Core_Digest
  imports Core_Error
begin

text \<open>
  \<^verbatim>\<open>core/digest.cpp\<close>: FNV-1a, the table driven CRC-32C, SHA-256 with its streaming buffer, and the
  hexadecimal rendering. Bytes are 8 bit words; a \<^verbatim>\<open>std::string_view\<close> is the list of its bytes. The
  array \<^verbatim>\<open>buffer_\<close> with its fill level \<^verbatim>\<open>buffer_size_\<close> is the list of the bytes it holds.
\<close>

definition byte_word :: "char \<Rightarrow> u8" where "byte_word c = word_of_nat (byte_of c)"

abbreviation bytes_of :: "string \<Rightarrow> u8 list" where "bytes_of s \<equiv> map byte_word s"

section \<open>FNV-1a\<close>

definition kFnvOffset :: u64 where "kFnvOffset = 14695981039346656037"
definition kFnvPrime :: u64 where "kFnvPrime = 1099511628211"

definition fnv1a64 :: "string \<Rightarrow> u64" where
  "fnv1a64 data = foldl (\<lambda>hash c. (hash XOR word_of_nat (byte_of c)) * kFnvPrime) kFnvOffset data"

section \<open>CRC-32C\<close>

definition kCrc32cTable :: "u32 list" where
  "kCrc32cTable =
    [0x00000000, 0xF26B8303, 0xE13B70F7, 0x1350F3F4, 0xC79A971F, 0x35F1141C,
     0x26A1E7E8, 0xD4CA64EB, 0x8AD958CF, 0x78B2DBCC, 0x6BE22838, 0x9989AB3B,
     0x4D43CFD0, 0xBF284CD3, 0xAC78BF27, 0x5E133C24, 0x105EC76F, 0xE235446C,
     0xF165B798, 0x030E349B, 0xD7C45070, 0x25AFD373, 0x36FF2087, 0xC494A384,
     0x9A879FA0, 0x68EC1CA3, 0x7BBCEF57, 0x89D76C54, 0x5D1D08BF, 0xAF768BBC,
     0xBC267848, 0x4E4DFB4B, 0x20BD8EDE, 0xD2D60DDD, 0xC186FE29, 0x33ED7D2A,
     0xE72719C1, 0x154C9AC2, 0x061C6936, 0xF477EA35, 0xAA64D611, 0x580F5512,
     0x4B5FA6E6, 0xB93425E5, 0x6DFE410E, 0x9F95C20D, 0x8CC531F9, 0x7EAEB2FA,
     0x30E349B1, 0xC288CAB2, 0xD1D83946, 0x23B3BA45, 0xF779DEAE, 0x05125DAD,
     0x1642AE59, 0xE4292D5A, 0xBA3A117E, 0x4851927D, 0x5B016189, 0xA96AE28A,
     0x7DA08661, 0x8FCB0562, 0x9C9BF696, 0x6EF07595, 0x417B1DBC, 0xB3109EBF,
     0xA0406D4B, 0x522BEE48, 0x86E18AA3, 0x748A09A0, 0x67DAFA54, 0x95B17957,
     0xCBA24573, 0x39C9C670, 0x2A993584, 0xD8F2B687, 0x0C38D26C, 0xFE53516F,
     0xED03A29B, 0x1F682198, 0x5125DAD3, 0xA34E59D0, 0xB01EAA24, 0x42752927,
     0x96BF4DCC, 0x64D4CECF, 0x77843D3B, 0x85EFBE38, 0xDBFC821C, 0x2997011F,
     0x3AC7F2EB, 0xC8AC71E8, 0x1C661503, 0xEE0D9600, 0xFD5D65F4, 0x0F36E6F7,
     0x61C69362, 0x93AD1061, 0x80FDE395, 0x72966096, 0xA65C047D, 0x5437877E,
     0x4767748A, 0xB50CF789, 0xEB1FCBAD, 0x197448AE, 0x0A24BB5A, 0xF84F3859,
     0x2C855CB2, 0xDEEEDFB1, 0xCDBE2C45, 0x3FD5AF46, 0x7198540D, 0x83F3D70E,
     0x90A324FA, 0x62C8A7F9, 0xB602C312, 0x44694011, 0x5739B3E5, 0xA55230E6,
     0xFB410CC2, 0x092A8FC1, 0x1A7A7C35, 0xE811FF36, 0x3CDB9BDD, 0xCEB018DE,
     0xDDE0EB2A, 0x2F8B6829, 0x82F63B78, 0x709DB87B, 0x63CD4B8F, 0x91A6C88C,
     0x456CAC67, 0xB7072F64, 0xA457DC90, 0x563C5F93, 0x082F63B7, 0xFA44E0B4,
     0xE9141340, 0x1B7F9043, 0xCFB5F4A8, 0x3DDE77AB, 0x2E8E845F, 0xDCE5075C,
     0x92A8FC17, 0x60C37F14, 0x73938CE0, 0x81F80FE3, 0x55326B08, 0xA759E80B,
     0xB4091BFF, 0x466298FC, 0x1871A4D8, 0xEA1A27DB, 0xF94AD42F, 0x0B21572C,
     0xDFEB33C7, 0x2D80B0C4, 0x3ED04330, 0xCCBBC033, 0xA24BB5A6, 0x502036A5,
     0x4370C551, 0xB11B4652, 0x65D122B9, 0x97BAA1BA, 0x84EA524E, 0x7681D14D,
     0x2892ED69, 0xDAF96E6A, 0xC9A99D9E, 0x3BC21E9D, 0xEF087A76, 0x1D63F975,
     0x0E330A81, 0xFC588982, 0xB21572C9, 0x407EF1CA, 0x532E023E, 0xA145813D,
     0x758FE5D6, 0x87E466D5, 0x94B49521, 0x66DF1622, 0x38CC2A06, 0xCAA7A905,
     0xD9F75AF1, 0x2B9CD9F2, 0xFF56BD19, 0x0D3D3E1A, 0x1E6DCDEE, 0xEC064EED,
     0xC38D26C4, 0x31E6A5C7, 0x22B65633, 0xD0DDD530, 0x0417B1DB, 0xF67C32D8,
     0xE52CC12C, 0x1747422F, 0x49547E0B, 0xBB3FFD08, 0xA86F0EFC, 0x5A048DFF,
     0x8ECEE914, 0x7CA56A17, 0x6FF599E3, 0x9D9E1AE0, 0xD3D3E1AB, 0x21B862A8,
     0x32E8915C, 0xC083125F, 0x144976B4, 0xE622F5B7, 0xF5720643, 0x07198540,
     0x590AB964, 0xAB613A67, 0xB831C993, 0x4A5A4A90, 0x9E902E7B, 0x6CFBAD78,
     0x7FAB5E8C, 0x8DC0DD8F, 0xE330A81A, 0x115B2B19, 0x020BD8ED, 0xF0605BEE,
     0x24AA3F05, 0xD6C1BC06, 0xC5914FF2, 0x37FACCF1, 0x69E9F0D5, 0x9B8273D6,
     0x88D28022, 0x7AB90321, 0xAE7367CA, 0x5C18E4C9, 0x4F48173D, 0xBD23943E,
     0xF36E6F75, 0x0105EC76, 0x12551F82, 0xE03E9C81, 0x34F4F86A, 0xC69F7B69,
     0xD5CF889D, 0x27A40B9E, 0x79B737BA, 0x8BDCB4B9, 0x988C474D, 0x6AE7C44E,
     0xBE2DA0A5, 0x4C4623A6, 0x5F16D052, 0xAD7D5351]"

definition crc_table_step :: "u32 \<Rightarrow> u8 \<Rightarrow> u32" where
  "crc_table_step crc b = kCrc32cTable ! unat ((crc XOR ucast b) AND 0xFF) XOR drop_bit 8 crc"

definition crc32c :: "u8 list \<Rightarrow> u32" where
  "crc32c bytes = foldl crc_table_step 0xFFFFFFFF bytes XOR 0xFFFFFFFF"

section \<open>SHA-256\<close>

definition kSha256K :: "u32 list" where
  "kSha256K =
    [0x428A2F98, 0x71374491, 0xB5C0FBCF, 0xE9B5DBA5, 0x3956C25B, 0x59F111F1,
     0x923F82A4, 0xAB1C5ED5, 0xD807AA98, 0x12835B01, 0x243185BE, 0x550C7DC3,
     0x72BE5D74, 0x80DEB1FE, 0x9BDC06A7, 0xC19BF174, 0xE49B69C1, 0xEFBE4786,
     0x0FC19DC6, 0x240CA1CC, 0x2DE92C6F, 0x4A7484AA, 0x5CB0A9DC, 0x76F988DA,
     0x983E5152, 0xA831C66D, 0xB00327C8, 0xBF597FC7, 0xC6E00BF3, 0xD5A79147,
     0x06CA6351, 0x14292967, 0x27B70A85, 0x2E1B2138, 0x4D2C6DFC, 0x53380D13,
     0x650A7354, 0x766A0ABB, 0x81C2C92E, 0x92722C85, 0xA2BFE8A1, 0xA81A664B,
     0xC24B8B70, 0xC76C51A3, 0xD192E819, 0xD6990624, 0xF40E3585, 0x106AA070,
     0x19A4C116, 0x1E376C08, 0x2748774C, 0x34B0BCB5, 0x391C0CB3, 0x4ED8AA4A,
     0x5B9CCA4F, 0x682E6FF3, 0x748F82EE, 0x78A5636F, 0x84C87814, 0x8CC70208,
     0x90BEFFFA, 0xA4506CEB, 0xBEF9A3F7, 0xC67178F2]"

definition rotr :: "u32 \<Rightarrow> nat \<Rightarrow> u32" where
  "rotr v bits = drop_bit bits v OR push_bit (32 - bits) v"

record sha256 =
  sha_state :: "u32 list"
  sha_bit_count :: u64
  sha_buffer :: "u8 list"

definition sha256_init :: sha256 where
  "sha256_init =
    \<lparr>sha_state = [0x6A09E667, 0xBB67AE85, 0x3C6EF372, 0xA54FF53A, 0x510E527F, 0x9B05688C,
                  0x1F83D9AB, 0x5BE0CD19],
     sha_bit_count = 0, sha_buffer = []\<rparr>"

text \<open>The message schedule: sixteen big endian words of the block, then the expansion.\<close>

definition sha_word_at :: "u8 list \<Rightarrow> nat \<Rightarrow> u32" where
  "sha_word_at block index =
     (let offset = index * 4
      in push_bit 24 (ucast (block ! offset)) OR push_bit 16 (ucast (block ! (offset + 1)))
         OR push_bit 8 (ucast (block ! (offset + 2))) OR ucast (block ! (offset + 3)))"

fun sha_expand :: "nat \<Rightarrow> u32 list \<Rightarrow> u32 list" where
  "sha_expand 0 w = w"
| "sha_expand (Suc n) w =
     (let i = length w;
          w15 = w ! (i - 15);
          w2 = w ! (i - 2);
          s0 = rotr w15 7 XOR rotr w15 18 XOR drop_bit 3 w15;
          s1 = rotr w2 17 XOR rotr w2 19 XOR drop_bit 10 w2
      in sha_expand n (w @ [w ! (i - 16) + s0 + w ! (i - 7) + s1]))"

definition sha_schedule :: "u8 list \<Rightarrow> u32 list" where
  "sha_schedule block = sha_expand 48 (map (sha_word_at block) [0..<16])"

type_synonym sha_regs = "u32 \<times> u32 \<times> u32 \<times> u32 \<times> u32 \<times> u32 \<times> u32 \<times> u32"

definition sha_round :: "sha_regs \<Rightarrow> u32 \<times> u32 \<Rightarrow> sha_regs" where
  "sha_round r kw =
     (let (a, b, c, d, e, f, g, h) = r;
          (k, w) = kw;
          s1 = rotr e 6 XOR rotr e 11 XOR rotr e 25;
          ch = (e AND f) XOR (NOT e AND g);
          temp1 = h + s1 + ch + k + w;
          s0 = rotr a 2 XOR rotr a 13 XOR rotr a 22;
          maj = (a AND b) XOR (a AND c) XOR (b AND c);
          temp2 = s0 + maj
      in (temp1 + temp2, a, b, c, d + temp1, e, f, g))"

definition sha_transform :: "u32 list \<Rightarrow> u8 list \<Rightarrow> u32 list" where
  "sha_transform st block =
     (let (a, b, c, d, e, f, g, h) =
            foldl sha_round (st ! 0, st ! 1, st ! 2, st ! 3, st ! 4, st ! 5, st ! 6, st ! 7)
              (zip kSha256K (sha_schedule block))
      in [st ! 0 + a, st ! 1 + b, st ! 2 + c, st ! 3 + d, st ! 4 + e, st ! 5 + f, st ! 6 + g,
          st ! 7 + h])"

text \<open>
  The three loops of \<^verbatim>\<open>update\<close>: fill a partly filled buffer, compress whole blocks straight from the
  input, keep the rest. Each returns the state and the bytes not yet read.
\<close>

fun sha_fill :: "u8 list \<Rightarrow> u8 list \<Rightarrow> u8 list \<times> u8 list" where
  "sha_fill buffer [] = (buffer, [])"
| "sha_fill buffer (b # bs) =
     (if length buffer < 64 then sha_fill (buffer @ [b]) bs else (buffer, b # bs))"

function sha_blocks :: "u32 list \<Rightarrow> u8 list \<Rightarrow> u32 list \<times> u8 list" where
  "sha_blocks st bytes =
     (if length bytes \<ge> 64 then sha_blocks (sha_transform st (take 64 bytes)) (drop 64 bytes)
      else (st, bytes))"
  by pat_completeness auto
termination by (relation "measure (\<lambda>(st, bytes). length bytes)") auto

declare sha_blocks.simps [simp del]

definition sha_update :: "sha256 \<Rightarrow> u8 list \<Rightarrow> sha256" where
  "sha_update s bytes =
     (let s = s\<lparr>sha_bit_count := sha_bit_count s + word_of_nat (length bytes) * 8\<rparr>;
          (s, rest) =
            (if sha_buffer s \<noteq> [] then
               let (buffer, rest) = sha_fill (sha_buffer s) bytes
               in if length buffer = 64
                  then (s\<lparr>sha_state := sha_transform (sha_state s) buffer, sha_buffer := []\<rparr>, rest)
                  else (s\<lparr>sha_buffer := buffer\<rparr>, rest)
             else (s, bytes));
          (st, rest) = sha_blocks (sha_state s) rest
      in s\<lparr>sha_state := st, sha_buffer := sha_buffer s @ rest\<rparr>)"

text \<open>
  The padding loop of \<^verbatim>\<open>finish\<close>. A fill level above 64 lies outside \<^verbatim>\<open>buffer_[64]\<close>; the loop is
  only given a meaning where the array is not overrun.
\<close>

lemma length_sha_update_zero:
  "length (sha_buffer s) \<le> 64 \<Longrightarrow>
     length (sha_buffer (sha_update s [0])) = (if length (sha_buffer s) = 64 then 1
       else if length (sha_buffer s) = 63 then 0 else length (sha_buffer s) + 1)"
  by (auto simp: sha_update_def sha_blocks.simps Let_def)

function sha_pad_zero :: "sha256 \<Rightarrow> sha256" where
  "sha_pad_zero s =
     (if length (sha_buffer s) \<noteq> 56 \<and> length (sha_buffer s) \<le> 64
      then sha_pad_zero (sha_update s [0]) else s)"
  by pat_completeness auto
termination
  by (relation "measure (\<lambda>s. if length (sha_buffer s) \<le> 56 then 56 - length (sha_buffer s)
        else 121 - length (sha_buffer s))")
    (auto simp: length_sha_update_zero)

declare sha_pad_zero.simps [simp del]

definition sha_length_bytes :: "u64 \<Rightarrow> u8 list" where
  "sha_length_bytes n = map (\<lambda>index. ucast (drop_bit (56 - 8 * index) n AND 0xFF)) [0..<8]"

definition sha_word_bytes :: "u32 \<Rightarrow> u8 list" where
  "sha_word_bytes w =
     [ucast (drop_bit 24 w AND 0xFF), ucast (drop_bit 16 w AND 0xFF), ucast (drop_bit 8 w AND 0xFF),
      ucast (w AND 0xFF)]"

definition sha_finish :: "sha256 \<Rightarrow> u8 list \<times> sha256" where
  "sha_finish s =
     (let bit_count = sha_bit_count s;
          s = sha_pad_zero (sha_update s [0x80]);
          block = sha_buffer s @ sha_length_bytes bit_count;
          s = s\<lparr>sha_state := sha_transform (sha_state s) block, sha_buffer := []\<rparr>
      in (concat (map sha_word_bytes (sha_state s)), s))"

section \<open>Hexadecimal rendering\<close>

definition kDigits :: string where "kDigits = ''0123456789abcdef''"

definition to_hex :: "u8 list \<Rightarrow> string" where
  "to_hex bytes =
     concat (map (\<lambda>b. [kDigits ! unat (drop_bit 4 b AND 0x0F), kDigits ! unat (b AND 0x0F)]) bytes)"

definition sha256_hex :: "string \<Rightarrow> string" where
  "sha256_hex data = to_hex (fst (sha_finish (sha_update sha256_init (bytes_of data))))"

section \<open>The CRC table is the Castagnoli polynomial\<close>

text \<open>Bit by bit reference: one shift of the reflected polynomial division, and a byte of eight.\<close>

definition crc_bit :: "u32 \<Rightarrow> u32" where
  "crc_bit c = drop_bit 1 c XOR (if bit c 0 then 0x82F63B78 else 0)"

definition crc_byte_ref :: "u32 \<Rightarrow> u8 \<Rightarrow> u32" where
  "crc_byte_ref crc b = (crc_bit ^^ 8) (crc XOR ucast b)"

definition crc32c_ref :: "u8 list \<Rightarrow> u32" where
  "crc32c_ref bytes = foldl crc_byte_ref 0xFFFFFFFF bytes XOR 0xFFFFFFFF"

lemma crc_bit_xor: "crc_bit (x XOR y) = crc_bit x XOR crc_bit y"
proof -
  have "drop_bit 1 (x XOR y) = drop_bit 1 x XOR drop_bit 1 y" by (rule drop_bit_xor)
  moreover have "bit (x XOR y) 0 = (bit x 0 \<noteq> bit y 0)" by (simp only: bit_xor_iff)
  ultimately show ?thesis
    by (cases "bit x 0"; cases "bit y 0")
      (simp_all only: crc_bit_def if_True if_False not_False_eq_True xor.assoc xor.left_commute
        xor.commute xor_self_eq xor.right_neutral xor.left_neutral simp_thms)
qed

lemma crc_bits_xor: "(crc_bit ^^ n) (x XOR y) = (crc_bit ^^ n) x XOR (crc_bit ^^ n) y"
  by (induction n) (simp_all only: funpow.simps o_apply id_apply crc_bit_xor)

definition crc_entry :: "nat \<Rightarrow> u32" where
  "crc_entry n = (crc_bit ^^ 8) (word_of_nat n)"

lemma word_of_nat_split:
  assumes "j < 2 ^ k" and "k < 32"
  shows "(word_of_nat (2 ^ k + j) :: u32) = word_of_nat (2 ^ k) XOR word_of_nat j"
proof -
  have "\<not> bit j k" using assms(1) by (simp add: bit_iff_odd)
  then have dis: "\<not> bit (word_of_nat (2 ^ k) :: u32) n \<or> \<not> bit (word_of_nat j :: u32) n" for n
    by (auto simp: bit_of_nat_iff bit_exp_iff)
  have "(word_of_nat (2 ^ k + j) :: u32) = word_of_nat (2 ^ k) + word_of_nat j"
    by (simp only: of_nat_add)
  also have "\<dots> = word_of_nat (2 ^ k) OR word_of_nat j"
    using dis by (rule disjunctive_add)
  also have "\<dots> = word_of_nat (2 ^ k) XOR word_of_nat j"
    using dis by (intro bit_word_eqI) (auto simp: bit_or_iff bit_xor_iff)
  finally show ?thesis .
qed

definition crc_list :: "nat \<Rightarrow> u32 list" where
  "crc_list k = map crc_entry [0..<2 ^ k]"

lemma crc_list_double:
  assumes "k < 32"
  shows "crc_list (Suc k) = crc_list k @ map (\<lambda>x. crc_entry (2 ^ k) XOR x) (crc_list k)"
proof -
  have "(2 :: nat) ^ Suc k = 2 ^ k + 2 ^ k" by simp
  then have "[0..<2 ^ Suc k] = [0..<2 ^ k] @ [2 ^ k..<2 ^ k + 2 ^ k]"
    by (simp only: upt_add_eq_append [of 0 "2 ^ k" "2 ^ k"] le0)
  moreover have "[2 ^ k..<2 ^ k + 2 ^ k] = map (\<lambda>j. j + 2 ^ k) [0..<2 ^ k :: nat]"
    by (simp only: map_add_upt)
  moreover have "crc_entry (j + 2 ^ k) = crc_entry (2 ^ k) XOR crc_entry j" if "j < 2 ^ k" for j
    unfolding crc_entry_def add.commute [of j] word_of_nat_split [OF that assms]
    by (rule crc_bits_xor)
  ultimately show ?thesis by (simp only: crc_list_def map_append map_map) (simp add: o_def)
qed

lemma funpow_8: "(f ^^ 8) x = f (f (f (f (f (f (f (f x)))))))"
  by (simp add: eval_nat_numeral)

lemma crc_entry_powers:
  "crc_entry 0 = 0" "crc_entry 1 = 0xF26B8303" "crc_entry 2 = 0xE13B70F7"
  "crc_entry 4 = 0xC79A971F" "crc_entry 8 = 0x8AD958CF" "crc_entry 16 = 0x105EC76F"
  "crc_entry 32 = 0x20BD8EDE" "crc_entry 64 = 0x417B1DBC" "crc_entry 128 = 0x82F63B78"
  by (simp_all add: crc_entry_def funpow_8 crc_bit_def bit_0)

lemma crc_table_generated: "kCrc32cTable = map crc_entry [0..<256]"
proof -
  have l0: "crc_list 0 = [0]" using crc_entry_powers(1) by (simp add: crc_list_def)
  have l1: "crc_list 1 = [0, 0xF26B8303]"
    using crc_list_double [of 0] crc_entry_powers(2) by (simp add: l0)
  have l2: "crc_list 2 = [0, 0xF26B8303, 0xE13B70F7, 0x1350F3F4]"
    using crc_list_double [of 1] l1 crc_entry_powers(3) by (simp add: numeral_2_eq_2 [symmetric])
  note step = crc_list_double [of 2, simplified]
    crc_list_double [of 3, simplified] crc_list_double [of 4, simplified]
    crc_list_double [of 5, simplified] crc_list_double [of 6, simplified]
    crc_list_double [of 7, simplified]
  have l4: "crc_list 4 = take 16 kCrc32cTable"
    by (simp add: step l2 crc_entry_powers kCrc32cTable_def)
  have l6: "crc_list 6 = take 64 kCrc32cTable"
    by (simp add: step(3-4) l4 crc_entry_powers kCrc32cTable_def)
  have "crc_list 8 = kCrc32cTable"
    by (simp add: step(5-6) l6 crc_entry_powers kCrc32cTable_def)
  then show ?thesis by (simp add: crc_list_def)
qed

lemma crc_bits_low_zero: "(\<And>i. i < n \<Longrightarrow> \<not> bit z i) \<Longrightarrow> (crc_bit ^^ n) z = drop_bit n z"
proof (induction n)
  case 0
  then show ?case by simp
next
  case (Suc n)
  have "(crc_bit ^^ Suc n) z = crc_bit (drop_bit n z)" using Suc by simp
  also have "bit (drop_bit n z) 0 = bit z n" by (simp only: bit_drop_bit_eq) simp
  then have "crc_bit (drop_bit n z) = drop_bit 1 (drop_bit n z)"
    using Suc.prems [of n] by (simp add: crc_bit_def)
  also have "\<dots> = drop_bit (Suc n) z" by (simp only: drop_bit_drop_bit plus_1_eq_Suc)
  finally show ?case .
qed

lemma unat_and_FF: "unat (x AND 0xFF :: u32) < 256"
proof -
  have "(0xFF :: u32) = mask 8" by (simp add: mask_eq_exp_minus_1)
  then have "x AND 0xFF = take_bit 8 x" by (simp add: take_bit_eq_mask)
  then have "unat (x AND 0xFF) = unat x mod 256"
    by (simp only: unsigned_take_bit_eq) (simp add: take_bit_eq_mod)
  then show ?thesis by simp
qed

lemma bit_FF: "bit (0xFF :: u32) n \<longleftrightarrow> n < 8"
proof -
  have "(0xFF :: u32) = mask 8" by (simp add: mask_eq_exp_minus_1)
  moreover have "bit (mask 8 :: u32) n \<longleftrightarrow> n < 8"
    by (simp only: bit_mask_iff possible_bit_word) auto
  ultimately show ?thesis by (simp only:)
qed

lemma xor_cancel: "x XOR c = y XOR c \<longleftrightarrow> x = (y :: u32)"
  by (metis xor.assoc xor.right_neutral xor_self_eq)

lemma crc_table_nth: "n < 256 \<Longrightarrow> kCrc32cTable ! n = crc_entry n"
  by (simp only: crc_table_generated nth_map length_upt diff_zero nth_upt add_0)

lemma crc_table_step_ref: "crc_table_step crc b = crc_byte_ref crc b"
proof -
  define x where "x = crc XOR ucast b"
  define z where "z = x AND NOT 0xFF"
  have zb: "bit z n \<longleftrightarrow> bit x n \<and> \<not> n < 8" for n
    by (auto simp only: z_def bit_and_iff bit_not_iff bit_FF dest: bit_imp_possible_bit)
  have xb: "bit x n = bit crc n" if "8 \<le> n" for n
    using that by (auto simp: x_def bit_simps dest: bit_imp_le_length)
  have "kCrc32cTable ! unat (x AND 0xFF) = (crc_bit ^^ 8) (x AND 0xFF)"
    using crc_table_nth [OF unat_and_FF [of x]] by (simp add: crc_entry_def)
  moreover have "drop_bit 8 crc = (crc_bit ^^ 8) z"
  proof -
    have "(crc_bit ^^ 8) z = drop_bit 8 z"
      by (rule crc_bits_low_zero) (simp add: zb)
    also have "\<dots> = drop_bit 8 crc"
      by (rule bit_word_eqI) (simp add: bit_drop_bit_eq zb xb)
    finally show ?thesis by simp
  qed
  moreover have "(x AND 0xFF) XOR z = x"
    by (rule bit_word_eqI) (auto simp only: zb bit_and_iff bit_xor_iff bit_FF)
  ultimately show ?thesis
    by (simp add: crc_table_step_def crc_byte_ref_def crc_bits_xor [symmetric] flip: x_def)
qed

lemma crc32c_eq_ref: "crc32c bytes = crc32c_ref bytes"
  by (simp add: crc32c_def crc32c_ref_def crc_table_step_ref [abs_def])

lemma bit_31_crc_bit: "bit (crc_bit x) 31 = bit x 0"
proof -
  have "\<not> bit (drop_bit 1 x) 31"
    by (simp only: bit_drop_bit_eq o_apply) (auto dest: bit_imp_le_length)
  moreover have "bit (0x82F63B78 :: u32) 31" by simp
  ultimately show ?thesis by (cases "bit x 0") (simp_all only: crc_bit_def bit_xor_iff if_True if_False, simp_all)
qed

lemma crc_bit_inject: "crc_bit x = crc_bit y \<longleftrightarrow> x = y"
proof
  assume eq: "crc_bit x = crc_bit y"
  then have b0: "bit x 0 = bit y 0" by (metis bit_31_crc_bit)
  with eq have d: "drop_bit 1 x = drop_bit 1 y"
    by (auto simp: crc_bit_def xor_cancel split: if_splits)
  show "x = y"
  proof (rule bit_word_eqI)
    fix n
    show "bit x n = bit y n"
    proof (cases n)
      case 0 with b0 show ?thesis by simp
    next
      case (Suc m)
      have "bit (drop_bit 1 x) m = bit (drop_bit 1 y) m" by (simp only: d)
      then show ?thesis unfolding Suc by (simp only: bit_drop_bit_eq o_apply plus_1_eq_Suc)
    qed
  qed
qed simp

lemma crc_bits_inject: "(crc_bit ^^ n) x = (crc_bit ^^ n) y \<longleftrightarrow> x = y"
  by (induction n) (simp_all add: crc_bit_inject)

lemma crc_byte_ref_inject: "crc_byte_ref c b = crc_byte_ref d b \<longleftrightarrow> c = d"
  by (simp add: crc_byte_ref_def crc_bits_inject xor_cancel)

lemma crc_byte_ref_byte: "crc_byte_ref c a = crc_byte_ref c b \<longleftrightarrow> a = b"
proof
  assume "crc_byte_ref c a = crc_byte_ref c b"
  then have "c XOR ucast a = c XOR ucast b" by (simp add: crc_byte_ref_def crc_bits_inject)
  then have eq: "(ucast a :: u32) = ucast b" by (simp only: xor.commute [of c] xor_cancel)
  show "a = b"
  proof (rule bit_word_eqI)
    fix n assume n: "n < LENGTH(8)"
    have "bit (ucast a :: u32) n = bit (ucast b :: u32) n" by (simp only: eq)
    with n show "bit a n = bit b n" by (simp add: bit_ucast_iff)
  qed
qed simp

lemma crc_foldl_inject:
  "foldl crc_byte_ref c bs = foldl crc_byte_ref d bs \<longleftrightarrow> c = d"
  by (induction bs arbitrary: c d) (simp_all add: crc_byte_ref_inject)

section \<open>The streaming buffer of SHA-256\<close>

lemma sha_fill_eq:
  "length buffer \<le> 64 \<Longrightarrow>
     sha_fill buffer bs = (buffer @ take (64 - length buffer) bs, drop (64 - length buffer) bs)"
  by (induction buffer bs rule: sha_fill.induct) (auto simp: Suc_diff_Suc take_Cons' drop_Cons')

lemma sha_blocks_short [simp]: "length bs < 64 \<Longrightarrow> sha_blocks st bs = (st, bs)"
  by (simp add: sha_blocks.simps)

lemma sha_blocks_long:
  "64 \<le> length bs \<Longrightarrow>
     sha_blocks st bs = sha_blocks (sha_transform st (take 64 bs)) (drop 64 bs)"
  by (subst sha_blocks.simps) simp

lemma sha_blocks_rest: "length (snd (sha_blocks st bs)) = length bs mod 64"
proof (induction st bs rule: sha_blocks.induct)
  case (1 st bs)
  then show ?case
    by (cases "64 \<le> length bs") (simp_all add: sha_blocks_long le_mod_geq)
qed

lemma sha_blocks_append:
  "sha_blocks st (a @ b) = (let (st', rest) = sha_blocks st a in sha_blocks st' (rest @ b))"
proof (induction st a rule: sha_blocks.induct)
  case (1 st a)
  then show ?case
    by (cases "64 \<le> length a") (simp_all add: sha_blocks_long)
qed

definition sha_ready :: "sha256 \<Rightarrow> bool" where
  "sha_ready s \<longleftrightarrow> length (sha_buffer s) < 64"

lemma sha_update_eq:
  assumes "sha_ready s"
  shows "sha_update s bs =
     (let (st, rest) = sha_blocks (sha_state s) (sha_buffer s @ bs)
      in \<lparr>sha_state = st, sha_bit_count = sha_bit_count s + word_of_nat (length bs) * 8,
          sha_buffer = rest\<rparr>)"
proof -
  let ?n = "length (sha_buffer s)"
  have n: "?n < 64" using assms by (simp add: sha_ready_def)
  show ?thesis
  proof (cases "sha_buffer s = [] \<or> ?n + length bs < 64")
    case True
    then show ?thesis using n
      by (cases s) (auto simp: sha_update_def Let_def sha_fill_eq split: prod.splits)
  next
    case False
    then have "sha_blocks (sha_state s) (sha_buffer s @ bs)
        = sha_blocks (sha_transform (sha_state s) (sha_buffer s @ take (64 - ?n) bs))
            (drop (64 - ?n) bs)"
      using n by (subst sha_blocks_long) simp_all
    then show ?thesis using n False
      by (cases s) (auto simp: sha_update_def Let_def sha_fill_eq split: prod.splits)
  qed
qed

lemma sha_ready_update [simp]: "sha_ready s \<Longrightarrow> sha_ready (sha_update s bs)"
  using sha_blocks_rest [of "sha_state s" "sha_buffer s @ bs"]
  by (auto simp: sha_update_eq sha_ready_def Let_def split: prod.splits)

lemma sha_ready_init [simp]: "sha_ready sha256_init"
  by (simp add: sha_ready_def sha256_init_def)

lemma sha_update_append:
  assumes "sha_ready s"
  shows "sha_update s (a @ b) = sha_update (sha_update s a) b"
proof -
  obtain st rest where r: "sha_blocks (sha_state s) (sha_buffer s @ a) = (st, rest)" by fastforce
  let ?t = "\<lparr>sha_state = st, sha_bit_count = sha_bit_count s + word_of_nat (length a) * 8,
              sha_buffer = rest\<rparr>"
  have t: "sha_update s a = ?t" using assms r by (simp add: sha_update_eq)
  then have "sha_ready ?t" using assms by (metis sha_ready_update)
  then show ?thesis using assms r sha_blocks_append [of "sha_state s" "sha_buffer s @ a" b]
    by (simp add: t sha_update_eq algebra_simps split: prod.splits)
qed

text \<open>The padding loop appends as many zero bytes as it takes to leave room for the length.\<close>

definition sha_padding :: "nat \<Rightarrow> u8 list" where
  "sha_padding n = 0x80 # replicate ((119 - n mod 64) mod 64) 0"

lemma length_update_buffer:
  "sha_ready s \<Longrightarrow>
     length (sha_buffer (sha_update s bs)) = (length (sha_buffer s) + length bs) mod 64"
  using sha_blocks_rest [of "sha_state s" "sha_buffer s @ bs"]
  by (auto simp: sha_update_eq Let_def split: prod.splits)

definition pad_ok :: "nat \<Rightarrow> bool" where
  "pad_ok n \<longleftrightarrow> (n \<noteq> 56 \<longrightarrow> (120 - n) mod 64 = Suc ((120 - (n + 1) mod 64) mod 64)) \<and>
     (120 - (n + 1) mod 64) mod 64 = (119 - n) mod 64 \<and>
     (n + Suc ((119 - n) mod 64)) mod 64 = 56"

lemma pad_ok_below: "n < 64 \<Longrightarrow> pad_ok n"
proof -
  have "list_all pad_ok [0..<64]" by code_simp
  then show "n < 64 \<Longrightarrow> pad_ok n" by (simp only: list_all_iff set_upt ball_simps atLeastLessThan_iff Ball_def le0 simp_thms)
qed

lemma pad_count_step:
  "n < 64 \<Longrightarrow> n \<noteq> 56 \<Longrightarrow> (120 - n) mod 64 = Suc ((120 - (n + 1) mod 64) mod 64)"
  by (drule pad_ok_below) (simp only: pad_ok_def simp_thms)

lemma pad_count_total:
  "(120 - (n + 1) mod 64) mod 64 = (119 - n mod 64) mod 64"
  "(n + Suc ((119 - n mod 64) mod 64)) mod 64 = (56 :: nat)"
proof -
  have r: "pad_ok (n mod 64)" by (rule pad_ok_below) simp
  have "(n + 1) mod 64 = (n mod 64 + 1) mod 64" by (rule mod_add_left_eq [symmetric])
  with r show "(120 - (n + 1) mod 64) mod 64 = (119 - n mod 64) mod 64"
    by (simp only: pad_ok_def)
  have "(n + Suc ((119 - n mod 64) mod 64)) mod 64
      = (n mod 64 + Suc ((119 - n mod 64) mod 64)) mod 64" by (rule mod_add_left_eq [symmetric])
  with r show "(n + Suc ((119 - n mod 64) mod 64)) mod 64 = 56"
    by (simp only: pad_ok_def)
qed

lemma sha_pad_zero_eq:
  assumes "sha_ready s"
  shows "sha_pad_zero s =
     sha_update s (replicate ((120 - length (sha_buffer s)) mod 64) 0)"
  using assms
proof (induction s rule: sha_pad_zero.induct)
  case (1 s)
  let ?n = "length (sha_buffer s)"
  have n: "?n < 64" using 1(2) by (simp add: sha_ready_def)
  show ?case
  proof (cases "?n = 56")
    case True
    then show ?thesis using 1(2) n
      by (simp add: sha_pad_zero.simps [of s] sha_update_eq sha_ready_def)
  next
    case False
    have step: "length (sha_buffer (sha_update s [0])) = (?n + 1) mod 64"
      using length_update_buffer [OF 1(2), of "[0]"] by simp
    have count: "(120 - ?n) mod 64 = Suc ((120 - (?n + 1) mod 64) mod 64)"
      using n False by (rule pad_count_step)
    have "sha_pad_zero s = sha_pad_zero (sha_update s [0])"
      using False n by (simp add: sha_pad_zero.simps [of s])
    also have "\<dots> = sha_update (sha_update s [0])
        (replicate ((120 - (?n + 1) mod 64) mod 64) 0)"
      unfolding step [symmetric] using 1(2) False n
      by (intro 1(1) sha_ready_update) simp_all
    also have "\<dots> = sha_update s (0 # replicate ((120 - (?n + 1) mod 64) mod 64) 0)"
      by (rule sha_update_append [OF 1(2), of "[0]", unfolded append_Cons append_Nil, symmetric])
    finally show ?thesis by (simp only: count replicate_Suc)
  qed
qed

text \<open>
  Reference digest: the compression function folded over the 64 byte blocks of the padded message.
\<close>

definition sha_cut :: "u8 list \<Rightarrow> u8 list list" where
  "sha_cut m = map (\<lambda>i. take 64 (drop (64 * i) m)) [0..<length m div 64]"

definition sha_padded :: "u8 list \<Rightarrow> u8 list" where
  "sha_padded m = m @ sha_padding (length m) @ sha_length_bytes (word_of_nat (length m) * 8)"

definition sha256_ref :: "u8 list \<Rightarrow> u8 list" where
  "sha256_ref m =
     concat (map sha_word_bytes (foldl sha_transform (sha_state sha256_init) (sha_cut (sha_padded m))))"

lemma sha_cut_long:
  assumes "64 \<le> length m"
  shows "sha_cut m = take 64 m # sha_cut (drop 64 m)"
proof -
  have "length m div 64 = Suc ((length m - 64) div 64)" using assms by (simp add: le_div_geq)
  moreover have "[0..<Suc k] = 0 # map Suc [0..<k]" for k
    by (metis map_Suc_upt upt_conv_Cons zero_less_Suc)
  ultimately show ?thesis by (simp add: sha_cut_def o_def add.commute)
qed

lemma sha_blocks_cut: "fst (sha_blocks st m) = foldl sha_transform st (sha_cut m)"
proof (induction st m rule: sha_blocks.induct)
  case (1 st m)
  show ?case
  proof (cases "64 \<le> length m")
    case True
    with 1 show ?thesis by (simp only: sha_blocks_long sha_cut_long foldl_Cons)
  next
    case False
    then have "length m div 64 = 0" by (simp only: not_le div_less)
    with False show ?thesis by (simp add: sha_cut_def)
  qed
qed

lemma length_sha_length_bytes [simp]: "length (sha_length_bytes n) = 8"
  by (simp add: sha_length_bytes_def)

lemma length_sha_padded: "length (sha_padded m) mod 64 = 0"
proof -
  have "length (sha_padded m) = length m + Suc ((119 - length m mod 64) mod 64) + 8"
    by (simp add: sha_padded_def sha_padding_def)
  then have "length (sha_padded m) mod 64 = (56 + 8) mod 64"
    by (metis mod_add_left_eq pad_count_total(2))
  then show ?thesis by simp
qed

lemma foldl_sha_update:
  "sha_ready s \<Longrightarrow> foldl sha_update s chunks = sha_update s (concat chunks)"
  by (induction chunks arbitrary: s rule: rev_induct)
    (simp_all add: sha_update_append, simp add: sha_update_eq sha_ready_def)

lemma sha_finish_init:
  "fst (sha_finish (sha_update sha256_init m)) = sha256_ref m"
proof -
  let ?s = "sha_update sha256_init m"
  let ?z = "replicate ((119 - length m mod 64) mod 64) 0"
  have empty: "sha_buffer sha256_init = []" by (simp add: sha256_init_def)
  have len: "length (sha_buffer (sha_update ?s [0x80])) = (length m + 1) mod 64"
    by (simp only: length_update_buffer sha_ready_update sha_ready_init empty list.size add_0
        add_Suc_right add_0_right mod_add_left_eq One_nat_def mod_Suc_eq)
  have "sha_pad_zero (sha_update ?s [0x80]) = sha_update (sha_update ?s [0x80]) ?z"
    using len by (simp only: sha_pad_zero_eq sha_ready_update sha_ready_init pad_count_total)
  also have "\<dots> = sha_update sha256_init (m @ sha_padding (length m))"
    by (simp add: sha_update_append [symmetric] sha_padding_def)
  finally have pad: "sha_pad_zero (sha_update ?s [0x80])
      = sha_update sha256_init (m @ sha_padding (length m))" .
  obtain st rest where r: "sha_blocks (sha_state sha256_init) (m @ sha_padding (length m)) = (st, rest)"
    by fastforce
  let ?block = "rest @ sha_length_bytes (word_of_nat (length m) * 8)"
  have all: "sha_blocks (sha_state sha256_init) (sha_padded m) = sha_blocks st ?block"
    using sha_blocks_append [of _ "m @ sha_padding (length m)"] r by (simp add: sha_padded_def)
  have "length rest = length (m @ sha_padding (length m)) mod 64"
    using sha_blocks_rest r by (metis snd_conv)
  then have "length rest = 56"
    by (simp only: sha_padding_def length_append length_Cons length_replicate pad_count_total)
  then have "fst (sha_blocks st ?block) = sha_transform st ?block"
    by (subst sha_blocks_long) simp_all
  then have "foldl sha_transform (sha_state sha256_init) (sha_cut (sha_padded m))
      = sha_transform st ?block"
    by (simp only: sha_blocks_cut [symmetric] all)
  moreover have "sha_bit_count ?s = word_of_nat (length m) * 8"
    by (simp add: sha_update_eq split: prod.splits) (simp add: sha256_init_def)
  ultimately show ?thesis
    using pad r empty by (simp add: sha_finish_def Let_def sha256_ref_def sha_update_eq)
qed

text \<open>C14: SHA-256 is independent of how the message is cut into updates, and its padding loop, its
  length field and its buffer handling produce the compression of the padded message: for every
  sequence of chunks the digest equals the reference that folds the compression function over the
  64 byte blocks of message, 0x80, zeros and 64 bit length.\<close>
theorem sha256_streaming:
  "fst (sha_finish (foldl sha_update sha256_init chunks)) = sha256_ref (concat chunks)"
  by (simp add: foldl_sha_update sha_finish_init)

text \<open>The table driven CRC-32C equals the bitwise division by the reflected Castagnoli polynomial,
  and it detects every corruption confined to one byte: two messages of equal length that differ in
  exactly one byte have different checksums.\<close>
lemma crc32c_detects_byte:
  "crc32c m = crc32c_ref m \<and>
   (a \<noteq> b \<longrightarrow> crc32c (pre @ [a] @ post) \<noteq> crc32c (pre @ [b] @ post))"
  by (simp add: crc32c_eq_ref) (simp add: crc32c_ref_def xor_cancel crc_foldl_inject crc_byte_ref_byte)

lemma crc32c_detects_byte_example:
  "crc32c [1, 2, 3] \<noteq> crc32c [1, 7, 3]"
  using crc32c_detects_byte [of "[]" 2 7 "[1]" "[3]"] by simp

end
