(* ===== verification/Core_Ids.thy ===== *)
theory Core_Ids
  imports Core_Checked Core_Digest
begin

text \<open>
  \<^verbatim>\<open>core/ids.hpp\<close> and \<^verbatim>\<open>core/ids.cpp\<close>: validated names, the content addressed identities
  \<^verbatim>\<open>StrongId<Tag>\<close> (a phantom type: identities of different kinds do not unify), sequence numbers,
  revisions and hop indices. The value classes around one unsigned integer are that word.
\<close>

section \<open>Names\<close>

type_synonym name = string

definition kMaxLength :: nat where "kMaxLength = 128"

definition is_name_start :: "char \<Rightarrow> bool" where
  "is_name_start c \<longleftrightarrow>
     (97 \<le> byte_of c \<and> byte_of c \<le> 122) \<or> (65 \<le> byte_of c \<and> byte_of c \<le> 90) \<or>
     (48 \<le> byte_of c \<and> byte_of c \<le> 57) \<or> c = CHR ''_''"

definition is_name_char :: "char \<Rightarrow> bool" where
  "is_name_char c \<longleftrightarrow>
     is_name_start c \<or> c = CHR ''.'' \<or> c = CHR ''-'' \<or> c = CHR '':'' \<or> c = CHR ''/'' \<or>
     c = CHR ''@'' \<or> c = CHR ''+''"

definition parse_name :: "string \<Rightarrow> name result" where
  "parse_name text =
     (if text = [] then fail InvalidArgument ''name must not be empty'' []
      else if length text > kMaxLength
      then fail OutOfRange ''name exceeds the maximum length'' (take 32 text)
      else if \<not> is_name_start (hd text)
      then fail InvalidArgument ''name must start with an alphanumeric or underscore'' text
      else if list_ex (\<lambda>c. \<not> is_name_char c) text
      then fail InvalidArgument ''name contains a character outside the allowed set'' text
      else Inr text)"

definition name_ok :: "name \<Rightarrow> bool" where
  "name_ok n \<longleftrightarrow> n \<noteq> [] \<and> length n \<le> kMaxLength \<and> is_name_start (hd n) \<and> list_all is_name_char n"

lemma parse_name_iff: "parse_name text = Inr n \<longleftrightarrow> n = text \<and> name_ok text"
  by (auto simp: parse_name_def name_ok_def list_ex_iff list_all_iff)

section \<open>Strong identities\<close>

definition latobs_identity_hash :: "string \<Rightarrow> u64" where
  "latobs_identity_hash text = fnv1a64 text"

datatype 'tag strong_id = StrongId (id_value: u64)

instantiation strong_id :: (type) linorder
begin

definition less_eq_strong_id :: "'a strong_id \<Rightarrow> 'a strong_id \<Rightarrow> bool" where
  "a \<le> b \<longleftrightarrow> id_value a \<le> id_value b"

definition less_strong_id :: "'a strong_id \<Rightarrow> 'a strong_id \<Rightarrow> bool" where
  "a < b \<longleftrightarrow> id_value a < id_value b"

instance
  by standard (auto simp: less_eq_strong_id_def less_strong_id_def intro: strong_id.expand)

end

definition no_id :: "'tag strong_id" where "no_id = StrongId 0"

definition from_value :: "u64 \<Rightarrow> 'tag strong_id result" where
  "from_value v =
     (if v = 0 then fail InvalidArgument ''identity value must be non-zero'' []
      else Inr (StrongId v))"

definition derive_from :: "string \<Rightarrow> 'tag strong_id" where
  "derive_from canonical =
     (let hash = latobs_identity_hash canonical in StrongId (if hash = 0 then 1 else hash))"

definition valid_id :: "'tag strong_id \<Rightarrow> bool" where "valid_id i \<longleftrightarrow> id_value i \<noteq> 0"

definition id_to_hex :: "'tag strong_id \<Rightarrow> string" where
  "id_to_hex i =
     map (\<lambda>position. kDigits ! unat (drop_bit ((15 - position) * 4) (id_value i) AND 0x0F)) [0..<16]"

definition hex_digit :: "char \<Rightarrow> u64 option" where
  "hex_digit c =
     (if 48 \<le> byte_of c \<and> byte_of c \<le> 57 then Some (word_of_nat (byte_of c - 48))
      else if 97 \<le> byte_of c \<and> byte_of c \<le> 102 then Some (word_of_nat (byte_of c - 97) + 10)
      else if 65 \<le> byte_of c \<and> byte_of c \<le> 70 then Some (word_of_nat (byte_of c - 65) + 10)
      else None)"

fun hex_accumulate :: "u64 \<Rightarrow> string \<Rightarrow> u64 option" where
  "hex_accumulate v [] = Some v"
| "hex_accumulate v (c # cs) =
     (case hex_digit c of None \<Rightarrow> None | Some digit \<Rightarrow> hex_accumulate (push_bit 4 v OR digit) cs)"

definition parse_hex :: "string \<Rightarrow> 'tag strong_id result" where
  "parse_hex text =
     (if length text \<noteq> 16
      then fail ParseError ''identity hex text must be exactly 16 characters'' []
      else case hex_accumulate 0 text of
        None \<Rightarrow> fail ParseError ''identity hex text contains a non-hex character'' []
      | Some v \<Rightarrow> if v = 0 then Inr no_id else Inr (StrongId v))"

definition strong_id_hash :: "'tag strong_id \<Rightarrow> u64" where
  "strong_id_hash i = id_value i XOR drop_bit 32 (id_value i)"

text \<open>The tags; every kind of identity is its own type.\<close>

datatype source_tag = SourceTag
datatype path_tag = PathTag
datatype hop_tag = HopTag
datatype link_tag = LinkTag
datatype queue_tag = QueueTag
datatype endpoint_tag = EndpointTag
datatype generation_tag = GenerationTag
datatype clock_domain_tag = ClockDomainTag
datatype epoch_tag = EpochTag
datatype incarnation_tag = IncarnationTag
datatype baseline_tag = BaselineTag
datatype measurement_tag = MeasurementTag
datatype snapshot_tag = SnapshotTag
datatype session_tag = SessionTag
datatype subscription_tag = SubscriptionTag

type_synonym source_id = "source_tag strong_id"
type_synonym path_id = "path_tag strong_id"
type_synonym hop_id = "hop_tag strong_id"
type_synonym link_id = "link_tag strong_id"
type_synonym queue_id = "queue_tag strong_id"
type_synonym endpoint_id = "endpoint_tag strong_id"
type_synonym generation_id = "generation_tag strong_id"
type_synonym clock_domain_id = "clock_domain_tag strong_id"
type_synonym epoch_id = "epoch_tag strong_id"
type_synonym incarnation_id = "incarnation_tag strong_id"
type_synonym baseline_id = "baseline_tag strong_id"
type_synonym measurement_id = "measurement_tag strong_id"
type_synonym snapshot_id = "snapshot_tag strong_id"
type_synonym session_id = "session_tag strong_id"
type_synonym subscription_id = "subscription_tag strong_id"

section \<open>Small value identities\<close>

type_synonym sequence = u64
type_synonym revision = u32
type_synonym hop_index = u32

definition parse_sequence :: "string \<Rightarrow> sequence result" where
  "parse_sequence text =
     (case parse_u64 text of
        None \<Rightarrow> fail ParseError ''sequence is not a valid unsigned integer'' text
      | Some v \<Rightarrow> Inr v)"

definition sequence_successor :: "sequence \<Rightarrow> sequence option" where
  "sequence_successor s = (if s = - 1 then None else Some (s + 1))"

definition revision_from_value :: "u32 \<Rightarrow> revision result" where
  "revision_from_value v =
     (if v = 0 then fail InvalidArgument ''revision must be at least 1'' [] else Inr v)"

definition first_revision :: revision where "first_revision = 1"

definition revision_successor :: "revision \<Rightarrow> revision option" where
  "revision_successor r = (if r = - 1 then None else Some (r + 1))"

definition revision_valid :: "revision \<Rightarrow> bool" where "revision_valid r \<longleftrightarrow> r \<noteq> 0"

definition kMaxExclusive :: u32 where "kMaxExclusive = 4096"

definition hop_index_from_value :: "u32 \<Rightarrow> hop_index result" where
  "hop_index_from_value v =
     (if v \<ge> kMaxExclusive
      then fail OutOfRange ''hop index exceeds the supported maximum'' (show_nat (unat v))
      else Inr v)"

definition hop_index_next :: "hop_index \<Rightarrow> hop_index option" where
  "hop_index_next i = (if i + 1 \<ge> kMaxExclusive then None else Some (i + 1))"

section \<open>Facts\<close>

lemma derive_from_valid [simp]: "valid_id (derive_from s)"
  by (simp add: derive_from_def valid_id_def Let_def)

lemma no_id_invalid [simp]: "\<not> valid_id no_id"
  by (simp add: valid_id_def no_id_def)

lemma from_value_valid: "from_value v = Inr i \<Longrightarrow> valid_id i \<and> id_value i = v"
  by (auto simp: from_value_def valid_id_def split: if_splits)

lemma unat_plus_one: "(x :: 'a::len word) \<noteq> - 1 \<Longrightarrow> unat (x + 1) = Suc (unat x)"
proof -
  assume "x \<noteq> - 1"
  then have "1 + x \<noteq> 0" by (metis add.inverse_unique add.commute)
  then show ?thesis by (metis add.commute unatSuc)
qed

lemma successor_step:
  "sequence_successor s = Some t \<Longrightarrow> unat t = Suc (unat s)"
  "revision_successor r = Some q \<Longrightarrow> unat q = Suc (unat r)"
  by (auto simp: sequence_successor_def revision_successor_def unat_plus_one split: if_splits)

lemma revision_successor_greater: "revision_successor r = Some q \<Longrightarrow> r < q"
  by (drule successor_step(2)) (simp add: word_less_nat_alt)

lemma hop_index_next_step:
  "i < kMaxExclusive \<Longrightarrow> hop_index_next i = Some j \<Longrightarrow> unat j = Suc (unat i) \<and> j < kMaxExclusive"
proof -
  assume i: "i < kMaxExclusive" and "hop_index_next i = Some j"
  then have j: "j = i + 1" "j < kMaxExclusive"
    by (auto simp: hop_index_next_def not_le split: if_splits)
  have "i \<noteq> - 1" using i by (auto simp: kMaxExclusive_def)
  then show ?thesis using j by (simp add: unat_plus_one)
qed

section \<open>Hexadecimal round trip\<close>

lemma hex_accumulate_append:
  "hex_accumulate v (a @ b) = Option.bind (hex_accumulate v a) (\<lambda>w. hex_accumulate w b)"
  by (induction v a rule: hex_accumulate.induct) (auto split: option.splits)

lemma nibble_bound: "unat (w AND 0x0F :: u64) < 16"
proof -
  have "(0x0F :: u64) = mask 4" by (simp add: mask_eq_exp_minus_1)
  then have "w AND 0x0F = take_bit 4 w" by (simp add: take_bit_eq_mask)
  then have "unat (w AND 0x0F) = unat w mod 16"
    by (simp only: unsigned_take_bit_eq) (simp add: take_bit_eq_mod)
  then show ?thesis by simp
qed

lemma hex_digit_nibbles: "list_all (\<lambda>d. hex_digit (kDigits ! d) = Some (word_of_nat d)) [0..<16]"
  by code_simp

lemma hex_digit_nibble: "hex_digit (kDigits ! unat (w AND 0x0F)) = Some (w AND 0x0F)"
proof -
  have "unat (w AND 0x0F) \<in> set [0..<16]" using nibble_bound by simp
  then show ?thesis using hex_digit_nibbles unfolding list_all_iff by fastforce
qed

lemma join_nibble: "push_bit 4 (drop_bit 4 w) OR (w AND 0x0F) = (w :: u64)"
proof -
  have "(0x0F :: u64) = mask 4" by (simp add: mask_eq_exp_minus_1)
  then have "w AND 0x0F = take_bit 4 w" by (simp add: take_bit_eq_mask)
  then show ?thesis
    by (intro bit_word_eqI) (auto simp: bit_or_iff bit_push_bit_iff bit_drop_bit_eq bit_take_bit_iff)
qed

lemma hex_accumulate_prefix:
  "k \<le> 16 \<Longrightarrow>
     hex_accumulate 0 (take k (id_to_hex i)) = Some (drop_bit ((16 - k) * 4) (id_value i))"
proof (induction k)
  case 0
  have "drop_bit 64 (id_value i) = 0"
    by (rule bit_word_eqI) (auto simp: bit_drop_bit_eq dest: bit_imp_le_length)
  then show ?case by simp
next
  case (Suc k)
  let ?w = "drop_bit ((15 - k) * 4) (id_value i)"
  have "take (Suc k) (id_to_hex i) = take k (id_to_hex i) @ [kDigits ! unat (?w AND 0x0F)]"
    using Suc.prems by (subst take_Suc_conv_app_nth) (simp_all add: id_to_hex_def)
  moreover have "(16 - k) * 4 = (15 - k) * 4 + 4" using Suc.prems by simp
  then have "drop_bit 4 ?w = drop_bit ((16 - k) * 4) (id_value i)"
    by (simp add: drop_bit_drop_bit add.commute)
  ultimately have "hex_accumulate 0 (take (Suc k) (id_to_hex i))
      = Some (push_bit 4 (drop_bit 4 ?w) OR (?w AND 0x0F))"
    using Suc by (simp only: hex_accumulate_append) (simp add: hex_digit_nibble)
  then show ?case by (simp only: join_nibble) simp
qed

lemma parse_hex_to_hex [simp]: "parse_hex (id_to_hex i) = Inr i"
proof -
  have "length (id_to_hex i) = 16" by (simp add: id_to_hex_def)
  then have "hex_accumulate 0 (id_to_hex i) = Some (id_value i)"
    using hex_accumulate_prefix [of 16 i] by simp
  then show ?thesis by (cases i) (simp add: parse_hex_def no_id_def id_to_hex_def)
qed

text \<open>Identities survive their text form: parsing the sixteen digits that \<^verbatim>\<open>to_hex\<close> writes
  returns the same identity for every value, the invalid identity included; an identity derived
  from a name is never the invalid one; and whatever the hexadecimal parser accepts has sixteen
  characters.\<close>
lemma id_hex_roundtrip:
  "parse_hex (id_to_hex i) = Inr i \<and> valid_id (derive_from n :: 'tag strong_id) \<and>
   (parse_hex text = Inr (j :: 'tag strong_id) \<longrightarrow> length text = 16)"
  by (simp, simp add: parse_hex_def split: if_splits)

lemma id_hex_roundtrip_example:
  "parse_hex ''00000000000000fF'' = Inr (StrongId 255 :: source_id) \<and>
   length ''00000000000000fF'' = 16"
proof -
  have "parse_hex ''00000000000000fF'' = Inr (StrongId 255 :: source_id)" by code_simp
  then show ?thesis using id_hex_roundtrip [of "StrongId 255 :: source_id"] by blast
qed

end
