(* ===== verification/Core_Time.thy ===== *)
theory Core_Time
  imports Core_Ids
begin

text \<open>
  \<^verbatim>\<open>core/time.hpp\<close> and \<^verbatim>\<open>core/time.cpp\<close>: timestamps tagged with their clock domain, the civil
  calendar conversions and the UTC text form. The unsigned intermediate values of the calendar
  functions are integers: \<open>era_day_range\<close> and the facts below it show that none of them leaves the
  range of its type. The readings of the system clocks are inputs of the program and have no model.
\<close>

section \<open>Timestamps\<close>

type_synonym nanos = int

record timestamp =
  ts_ns :: nanos
  ts_domain :: clock_domain_id

record mono_time = mono_ns :: nanos

definition ts_valid :: "timestamp \<Rightarrow> bool" where "ts_valid t \<longleftrightarrow> valid_id (ts_domain t)"

definition same_domain :: "timestamp \<Rightarrow> timestamp \<Rightarrow> bool" where
  "same_domain a b \<longleftrightarrow> ts_domain a = ts_domain b"

definition kReferenceDomainName :: string where
  "kReferenceDomainName = ''lobs.clock.reference.utc''"

definition reference_clock_domain :: clock_domain_id where
  "reference_clock_domain = derive_from kReferenceDomainName"

definition duration_between :: "timestamp \<Rightarrow> timestamp \<Rightarrow> nanos" where
  "duration_between earlier later = wrap_i64 (ts_ns later - ts_ns earlier)"

section \<open>Civil calendar\<close>

definition kNanosPerSecond :: int where "kNanosPerSecond = 1000000000"

definition civil_from_days :: "int \<Rightarrow> int \<times> int \<times> int" where
  "civil_from_days days0 =
     (let days = days0 + 719468;
          era = cdiv (if days \<ge> 0 then days else days - 146096) 146097;
          doe = days - era * 146097;
          yoe = (doe - doe div 1460 + doe div 36524 - doe div 146096) div 365;
          y = yoe + era * 400;
          doy = doe - (365 * yoe + yoe div 4 - yoe div 100);
          mp = (5 * doy + 2) div 153;
          d = doy - (153 * mp + 2) div 5 + 1;
          m = (if mp < 10 then mp + 3 else mp - 9)
      in (y + (if m \<le> 2 then 1 else 0), m, d))"

definition days_from_civil :: "int \<Rightarrow> int \<Rightarrow> int \<Rightarrow> int" where
  "days_from_civil year0 month day =
     (let year = year0 - (if month \<le> 2 then 1 else 0);
          era = cdiv (if year \<ge> 0 then year else year - 399) 400;
          yoe = year - era * 400;
          doy = (153 * (if month > 2 then month - 3 else month + 9) + 2) div 5 + day - 1;
          doe = yoe * 365 + yoe div 4 - yoe div 100 + doy
      in era * 146097 + doe - 719468)"

section \<open>UTC text\<close>

text \<open>The conversions \<^verbatim>\<open>%0<width>lld\<close> and \<^verbatim>\<open>%0<width>u\<close> of \<^verbatim>\<open>snprintf\<close>.\<close>

definition show_padded :: "nat \<Rightarrow> int \<Rightarrow> string" where
  "show_padded width x =
     (let sign = (if x < 0 then ''-'' else []);
          digits = show_nat (nat \<bar>x\<bar>)
      in sign @ replicate (width - length sign - length digits) CHR ''0'' @ digits)"

definition format_utc :: "nanos \<Rightarrow> string" where
  "format_utc unix_ns =
     (let seconds = cdiv unix_ns kNanosPerSecond;
          fraction = cmod unix_ns kNanosPerSecond;
          (fraction, seconds) =
            (if fraction < 0 then (fraction + kNanosPerSecond, seconds - 1) else (fraction, seconds));
          days = cdiv seconds 86400;
          second_of_day = cmod seconds 86400;
          (second_of_day, days) =
            (if second_of_day < 0 then (second_of_day + 86400, days - 1) else (second_of_day, days));
          (year, month, day) = civil_from_days days;
          hour = cdiv second_of_day 3600;
          minute = cdiv (cmod second_of_day 3600) 60;
          second = cmod second_of_day 60
      in take 47 (show_padded 4 year @ ''-'' @ show_padded 2 month @ ''-'' @ show_padded 2 day @ ''T'' @
           show_padded 2 hour @ '':'' @ show_padded 2 minute @ '':'' @ show_padded 2 second @ ''.'' @
           show_padded 9 fraction @ ''Z''))"

fun fraction_loop :: "int \<Rightarrow> int \<Rightarrow> nat \<Rightarrow> string \<Rightarrow> int \<times> nat \<times> string" where
  "fraction_loop fraction scale fraction_digits [] = (fraction, fraction_digits, [])"
| "fraction_loop fraction scale fraction_digits (c # rest) =
     (if \<not> is_digit c then (fraction, fraction_digits, c # rest)
      else if fraction_digits < 9
      then fraction_loop (fraction + int (digit_value c) * scale) (cdiv scale 10)
             (fraction_digits + 1) rest
      else fraction_loop fraction scale fraction_digits rest)"

definition field_digits :: "string \<Rightarrow> nat \<Rightarrow> nat \<Rightarrow> int option" where
  "field_digits text offset n =
     (if offset + n > length text then None else parse_i64 (take n (drop offset text)))"

definition parse_fraction :: "string \<Rightarrow> string \<Rightarrow> (int \<times> string) result" where
  "parse_fraction text tail =
     (case tail of
        [] \<Rightarrow> Inr (0, [])
      | c # rest \<Rightarrow>
          if c \<noteq> CHR ''.'' then Inr (0, tail)
          else
            let (fraction, fraction_digits, rest') = fraction_loop 0 100000000 0 rest
            in if fraction_digits = 0
               then fail ParseError ''timestamp fraction has no digits'' text
               else Inr (fraction, rest'))"

definition utc_total :: "string \<Rightarrow> int \<Rightarrow> int \<Rightarrow> int \<Rightarrow> nanos result" where
  "utc_total text days second_of_day fraction =
     (case checked_mul_i64 days 86400 of
        None \<Rightarrow> fail Overflow ''timestamp day count overflows'' text
      | Some seconds \<Rightarrow>
          (case checked_add_i64 seconds second_of_day of
             None \<Rightarrow> fail Overflow ''timestamp seconds overflow'' text
           | Some total_s \<Rightarrow>
               (case checked_mul_i64 total_s kNanosPerSecond of
                  None \<Rightarrow> fail Overflow ''timestamp nanoseconds overflow'' text
                | Some total_ns \<Rightarrow>
                    (case checked_add_i64 total_ns fraction of
                       None \<Rightarrow> fail Overflow ''timestamp nanoseconds overflow'' text
                     | Some with_fraction \<Rightarrow> Inr with_fraction))))"

definition parse_utc :: "string \<Rightarrow> nanos result" where
  "parse_utc text =
     (if length text < 20 \<or> length text > 30
      then fail ParseError ''timestamp has an unsupported length'' text
      else case (field_digits text 0 4, field_digits text 5 2, field_digits text 8 2,
                 field_digits text 11 2, field_digits text 14 2, field_digits text 17 2) of
        (Some year, Some month, Some day, Some hour, Some minute, Some second) \<Rightarrow>
          if text ! 4 \<noteq> CHR ''-'' \<or> text ! 7 \<noteq> CHR ''-'' \<or> text ! 10 \<noteq> CHR ''T'' \<or>
             text ! 13 \<noteq> CHR '':'' \<or> text ! 16 \<noteq> CHR '':''
          then fail ParseError ''timestamp separators are malformed'' text
          else if month < 1 \<or> month > 12 \<or> day < 1 \<or> day > 31 \<or> hour < 0 \<or> hour > 23 \<or>
                  minute < 0 \<or> minute > 59 \<or> second < 0 \<or> second > 60
          then fail OutOfRange ''timestamp field is out of range'' text
          else
            try_bind (parse_fraction text (drop 19 text)) (\<lambda>(fraction, rest).
              if rest \<noteq> ''Z'' then fail ParseError (''timestamp must end with '' @ [CHR 0x27, CHR ''Z'', CHR 0x27]) text
              else utc_total text (days_from_civil year month day)
                     (hour * 3600 + minute * 60 + second) fraction)
      | _ \<Rightarrow> fail ParseError ''timestamp field is malformed'' text)"

section \<open>The calendar\<close>

text \<open>
  The year of the era as the source computes it, and the first day of each year of the era that
  starts on the first of March.
\<close>

definition era_scale :: "int \<Rightarrow> int" where
  "era_scale doe = doe - doe div 1460 + doe div 36524 - doe div 146096"

definition year_start :: "int \<Rightarrow> int" where
  "year_start y = 365 * y + y div 4 - y div 100 + (if y = 400 then 1 else 0)"

definition leap :: "int \<Rightarrow> bool" where
  "leap y \<longleftrightarrow> y mod 4 = 0 \<and> (y mod 100 \<noteq> 0 \<or> y mod 400 = 0)"

lemma div_step:
  assumes "0 \<le> a" and "0 < b"
  shows "(a + 1) div b = a div b + (if b dvd a + 1 then 1 else (0 :: int))"
proof -
  obtain n m where nm: "a = int n" "b = int m" "0 < m"
    using assms by (metis nonneg_int_cases pos_int_cases)
  have "int (Suc n div m) = int (n div m) + (if m dvd Suc n then 1 else 0)"
    using nm by (simp add: div_Suc dvd_eq_mod_eq_0)
  moreover have "(int n + 1) div int m = int (Suc n div m)" by (simp add: zdiv_int add.commute)
  moreover have "int m dvd int n + 1 \<longleftrightarrow> m dvd Suc n" by (metis Suc_eq_plus1 int_dvd_int_iff of_nat_1 of_nat_add)
  ultimately show ?thesis by (simp only: nm zdiv_int)
qed

lemma era_scale_step: "0 \<le> d \<Longrightarrow> era_scale d \<le> era_scale (d + 1)"
proof -
  assume d: "0 \<le> d"
  have "(146096 :: int) dvd d + 1 \<Longrightarrow> 36524 dvd d + 1"
    by (rule dvd_trans [of _ 146096]) simp_all
  then show ?thesis using d by (auto simp: era_scale_def div_step)
qed

lemma era_scale_mono:
  assumes "0 \<le> a" and "a \<le> b" shows "era_scale a \<le> era_scale b"
proof -
  have "era_scale a \<le> era_scale (a + int n)" for n
  proof (induction n)
    case (Suc n)
    then show ?case using era_scale_step [of "a + int n"] assms by (simp add: add_ac)
  qed simp
  from this [of "nat (b - a)"] assms show ?thesis by simp
qed

lemma list_all_upto: "list_all P [a..b] \<Longrightarrow> a \<le> x \<Longrightarrow> x \<le> b \<Longrightarrow> P x"
  by (simp add: list_all_iff)

text \<open>Checked for the four hundred years of the era.\<close>

definition year_ok :: "int \<Rightarrow> bool" where
  "year_ok y \<longleftrightarrow> era_scale (year_start y) div 365 = y \<and> era_scale (year_start (y + 1) - 1) div 365 = y \<and>
     year_start (y + 1) - year_start y = (if leap (y + 1) then 366 else 365) \<and>
     0 \<le> year_start y \<and> year_start (y + 1) \<le> 146097"

lemma year_ok_era: "0 \<le> y \<Longrightarrow> y < 400 \<Longrightarrow> year_ok y"
proof -
  have "list_all year_ok [0..399]" by code_simp
  then show "0 \<le> y \<Longrightarrow> y < 400 \<Longrightarrow> year_ok y"
    by (rule list_all_upto) simp_all
qed

lemma year_of_day:
  assumes "0 \<le> doe" and "doe < 146097"
  obtains y where "0 \<le> y" "y < 400" "year_start y \<le> doe" "doe < year_start (y + 1)"
proof -
  have "\<exists>y. 0 \<le> y \<and> y < int n \<and> year_start y \<le> doe \<and> doe < year_start (y + 1)"
    if "doe < year_start (int n)" for n
    using that
  proof (induction n)
    case 0 with assms show ?case by (simp add: year_start_def)
  next
    case (Suc n)
    show ?case
    proof (cases "doe < year_start (int n)")
      case True
      with Suc.IH show ?thesis by force
    next
      case False
      with Suc.prems show ?thesis by (intro exI [of _ "int n"]) (simp add: add.commute)
    qed
  qed
  from this [of 400] assms that show ?thesis by (auto simp: year_start_def)
qed

lemma era_year:
  assumes "0 \<le> y" "y < 400" "year_start y \<le> doe" "doe < year_start (y + 1)"
  shows "era_scale doe div 365 = y"
proof -
  have ok: "year_ok y" using assms by (simp add: year_ok_era)
  have "0 \<le> year_start y"
    using ok by (simp add: year_ok_def)
  then have "era_scale (year_start y) \<le> era_scale doe"
    and "era_scale doe \<le> era_scale (year_start (y + 1) - 1)"
    using assms by (auto intro: era_scale_mono)
  then have "y \<le> era_scale doe div 365" and "era_scale doe div 365 \<le> y"
    using ok unfolding year_ok_def by (metis zdiv_mono1 zero_less_numeral)+
  then show ?thesis by simp
qed

text \<open>Month and day from the day of the year that starts in March, for leap years and others.\<close>

definition march_month :: "int \<Rightarrow> int" where
  "march_month doy = (let mp = (5 * doy + 2) div 153 in if mp < 10 then mp + 3 else mp - 9)"

definition march_day :: "int \<Rightarrow> int" where
  "march_day doy = doy - (153 * ((5 * doy + 2) div 153) + 2) div 5 + 1"

definition march_carry :: "int \<Rightarrow> int" where
  "march_carry doy = (if march_month doy \<le> 2 then 1 else 0)"

definition month_len :: "bool \<Rightarrow> int \<Rightarrow> int" where
  "month_len l m = (if m = 2 then (if l then 29 else 28) else if m \<in> {4, 6, 9, 11} then 30 else 31)"

definition advance :: "bool \<Rightarrow> int \<times> int \<times> int \<Rightarrow> int \<times> int \<times> int" where
  "advance l date = (case date of (y, m, d) \<Rightarrow>
     if d < month_len l m then (y, m, d + 1) else if m < 12 then (y, m + 1, 1) else (y + 1, 1, 1))"

text \<open>The calendar: the date that follows a date.\<close>

definition next_day :: "int \<times> int \<times> int \<Rightarrow> int \<times> int \<times> int" where
  "next_day date = advance (leap (fst date)) date"

definition doy_ok :: "int \<Rightarrow> bool" where
  "doy_ok doy \<longleftrightarrow> 1 \<le> march_month doy \<and> march_month doy \<le> 12 \<and> 1 \<le> march_day doy \<and> march_day doy \<le> 31 \<and>
     (153 * (if march_month doy > 2 then march_month doy - 3 else march_month doy + 9) + 2) div 5
       + march_day doy - 1 = doy"

definition doy_step :: "bool \<Rightarrow> int \<Rightarrow> bool" where
  "doy_step l doy \<longleftrightarrow> advance l (march_carry doy, march_month doy, march_day doy) =
     (if doy + 1 < (if l then 366 else 365)
      then (march_carry (doy + 1), march_month (doy + 1), march_day (doy + 1)) else (1, 3, 1))"

lemma doy_okI: "0 \<le> doy \<Longrightarrow> doy \<le> 365 \<Longrightarrow> doy_ok doy"
proof -
  have "list_all doy_ok [0..365]" by code_simp
  then show "0 \<le> doy \<Longrightarrow> doy \<le> 365 \<Longrightarrow> doy_ok doy"
    by (rule list_all_upto)
qed

lemma doy_stepI: "0 \<le> doy \<Longrightarrow> doy < (if l then 366 else 365) \<Longrightarrow> doy_step l doy"
proof -
  have f: "list_all (doy_step False) [0..364]" by code_simp
  have t: "list_all (doy_step True) [0..365]" by code_simp
  show "0 \<le> doy \<Longrightarrow> doy < (if l then 366 else 365) \<Longrightarrow> doy_step l doy"
    using list_all_upto [OF f] list_all_upto [OF t] by (cases l) simp_all
qed

lemma era_quotient: 
  "cdiv (if (a :: int) \<ge> 0 then a else a - c) b = a div b" if "0 < b" and c: "c = b - 1"
proof (cases "a \<ge> 0")
  case True with that show ?thesis by (simp add: cdiv_nonneg)
next
  case False
  define q where "q = a div b"
  define r where "r = a mod b"
  have r: "0 \<le> r" "r < b" using that by (simp_all add: r_def)
  have a: "a = q * b + r" by (simp add: q_def r_def)
  have "- (a - c) = (- q) * b + (b - 1 - r)" by (simp add: a c algebra_simps)
  then have "(- (a - c)) div b = - q"
    using r that by (simp only: div_mult_self3) simp
  then show ?thesis using False that by (simp add: cdiv_neg q_def)
qed

text \<open>A day of the era decomposes into its year and the day of that year.\<close>

definition era_day :: "int \<Rightarrow> int \<Rightarrow> int \<Rightarrow> int" where
  "era_day era y doy = era * 146097 + (year_start y + doy) - 719468"

definition doy_in :: "int \<Rightarrow> int \<Rightarrow> bool" where
  "doy_in y doy \<longleftrightarrow> 0 \<le> y \<and> y < 400 \<and> 0 \<le> doy \<and> doy < (if leap (y + 1) then 366 else 365)"

lemma era_day_exists: obtains era y doy where "days = era_day era y doy" "doy_in y doy"
proof -
  define era where "era = (days + 719468) div 146097"
  define doe where "doe = (days + 719468) mod 146097"
  have doe: "0 \<le> doe" "doe < 146097" by (simp_all add: doe_def)
  have days: "days = era * 146097 + doe - 719468" by (simp add: era_def doe_def)
  from doe obtain y where y: "0 \<le> y" "y < 400" "year_start y \<le> doe" "doe < year_start (y + 1)"
    by (rule year_of_day)
  have "year_ok y" using y by (simp add: year_ok_era)
  then have "doy_in y (doe - year_start y)" using y by (auto simp: doy_in_def year_ok_def)
  moreover have "days = era_day era y (doe - year_start y)" by (simp add: days era_day_def)
  ultimately show ?thesis using that by blast
qed

lemma era_day_range:
  assumes "doy_in y doy"
  shows "0 \<le> year_start y + doy" and "year_start y + doy < 146097"
    and "year_start y + doy < year_start (y + 1)"
proof -
  have y: "0 \<le> y" "y < 400" and ok: "year_ok y" using assms by (simp_all add: doy_in_def year_ok_era)
  have "0 \<le> year_start y" using ok by (simp add: year_ok_def)
  then show "0 \<le> year_start y + doy" using assms by (simp add: doy_in_def)
  show less: "year_start y + doy < year_start (y + 1)" using assms ok by (auto simp: doy_in_def year_ok_def split: if_splits)
  have "year_start (y + 1) \<le> 146097" using ok by (simp add: year_ok_def)
  with less show "year_start y + doy < 146097" by simp
qed

lemma civil_era_day:
  assumes "doy_in y doy"
  shows "civil_from_days (era_day era y doy) =
     (y + era * 400 + march_carry doy, march_month doy, march_day doy)"
proof -
  define doe where "doe = year_start y + doy"
  note r = era_day_range [OF assms, folded doe_def]
  have sum: "era_day era y doy + 719468 = era * 146097 + doe" by (simp add: era_day_def doe_def)
  have q: "(era * 146097 + doe) div 146097 = era" using r by (simp add: div_mult_self3)
  have eq: "cdiv (if era * 146097 + doe \<ge> 0 then era * 146097 + doe
      else era * 146097 + doe - 146096) 146097 = era"
    by (subst era_quotient) (simp, simp, rule q)
  have rest: "era * 146097 + doe - era * 146097 = doe" by simp
  have yr: "(doe - doe div 1460 + doe div 36524 - doe div 146096) div 365 = y"
    using era_year [of y doe] r assms by (simp add: era_scale_def doy_in_def doe_def)
  have "y \<noteq> 400" using assms by (simp add: doy_in_def)
  then have dy: "doe - (365 * y + y div 4 - y div 100) = doy" by (simp add: doe_def year_start_def)
  show ?thesis
    unfolding civil_from_days_def sum Let_def eq
    by (simp only: rest yr dy march_month_def march_day_def march_carry_def Let_def)
qed

lemma leap_shift: "leap (y + era * 400) = leap y"
proof -
  have "(y + era * 400) mod 4 = y mod 4" "(y + era * 400) mod 100 = y mod 100"
    using mod_mult_self1 [of y "era * 100" 4] mod_mult_self1 [of y "era * 4" 100]
    by (simp_all add: algebra_simps)
  then show ?thesis by (simp add: leap_def)
qed

lemma days_era_day:
  assumes "doy_in y doy"
  shows "days_from_civil (y + era * 400 + march_carry doy) (march_month doy) (march_day doy)
      = era_day era y doy"
proof -
  have "doy \<le> 365" using assms by (auto simp: doy_in_def split: if_splits)
  then have "doy_ok doy" using assms by (intro doy_okI) (auto simp: doy_in_def)
  then have dy: "(153 * (if march_month doy > 2 then march_month doy - 3 else march_month doy + 9) + 2)
      div 5 + march_day doy - 1 = doy" by (simp add: doy_ok_def)
  have y: "y + era * 400 + march_carry doy - (if march_month doy \<le> 2 then 1 else 0) = y + era * 400"
    by (simp add: march_carry_def)
  have q: "(y + era * 400) div 400 = era" using assms by (simp add: doy_in_def)
  have eq: "cdiv (if y + era * 400 \<ge> 0 then y + era * 400 else y + era * 400 - 399) 400 = era"
    by (subst era_quotient) (simp, simp, rule q)
  have rest: "y + era * 400 - era * 400 = y" by simp
  have "y \<noteq> 400" using assms by (simp add: doy_in_def)
  then have st: "year_start y = y * 365 + y div 4 - y div 100" by (simp add: year_start_def)
  show ?thesis
    unfolding days_from_civil_def y Let_def eq rest dy era_day_def st by simp
qed

lemma civil_next_day: "civil_from_days (days + 1) = next_day (civil_from_days days)"
proof -
  obtain era y doy where d: "days = era_day era y doy" "doy_in y doy" by (rule era_day_exists)
  let ?l = "leap (y + 1)"
  have st: "doy_step ?l doy" using d(2) by (intro doy_stepI) (auto simp: doy_in_def)
  have feb: "month_len (leap (y + era * 400 + march_carry doy)) (march_month doy)
      = month_len ?l (march_month doy)"
  proof (cases "march_month doy = 2")
    case True
    then have "y + era * 400 + march_carry doy = (y + 1) + era * 400"
      by (simp add: march_carry_def)
    then show ?thesis by (simp only: leap_shift)
  qed (simp add: month_len_def)
  have nxt: "next_day (civil_from_days days)
      = (case advance ?l (march_carry doy, march_month doy, march_day doy) of
           (c, m, d) \<Rightarrow> (y + era * 400 + c, m, d))"
    by (simp add: d civil_era_day next_day_def advance_def feb)
  show ?thesis
  proof (cases "doy + 1 < (if ?l then 366 else 365)")
    case True
    then have "doy_in y (doy + 1)" using d(2) by (simp add: doy_in_def)
    moreover have "days + 1 = era_day era y (doy + 1)" by (simp add: d(1) era_day_def)
    ultimately show ?thesis using st True by (simp add: nxt civil_era_day doy_step_def)
  next
    case False
    have ok: "year_ok y" using d(2) by (simp add: doy_in_def year_ok_era)
    have end': "doy + 1 = (if ?l then 366 else 365)" using False d(2) by (auto simp: doy_in_def)
    have start: "doy_in y' 0 \<Longrightarrow> civil_from_days (era_day era' y' 0) = (y' + era' * 400, 3, 1)"
      for y' era' by (simp add: civil_era_day march_carry_def march_month_def march_day_def)
    have "civil_from_days (days + 1) = (y + 1 + era * 400, 3, 1)"
    proof (cases "y = 399")
      case True
      then have "year_start (y + 1) = 146097" by (simp add: year_start_def)
      then have "days + 1 = era_day (era + 1) 0 0"
        using ok end' by (simp add: d(1) era_day_def year_ok_def year_start_def [of 0])
      then show ?thesis using start [of 0 "era + 1"] True by (simp add: doy_in_def)
    next
      case f: False
      have "days + 1 = era_day era (y + 1) 0"
        using ok end' by (simp add: d(1) era_day_def year_ok_def)
      then show ?thesis using start [of "y + 1" era] f d(2) by (simp add: doy_in_def)
    qed
    then show ?thesis using st False by (simp add: nxt doy_step_def)
  qed
qed

text \<open>The civil calendar conversion is the Gregorian calendar: day zero is the first of January
  1970, each following day is the next date with month lengths and leap years as the calendar has
  them, before and after the epoch, and \<^verbatim>\<open>days_from_civil\<close> inverts it on every day.\<close>
lemma civil_calendar:
  "civil_from_days 0 = (1970, 1, 1) \<and> civil_from_days (days + 1) = next_day (civil_from_days days) \<and>
   (case civil_from_days days of (y, m, d) \<Rightarrow> days_from_civil y m d = days)"
proof -
  obtain era y doy where d: "days = era_day era y doy" "doy_in y doy" by (rule era_day_exists)
  have "civil_from_days 0 = (1970, 1, 1)" by code_simp
  then show ?thesis using d by (simp add: civil_next_day) (simp add: civil_era_day days_era_day)
qed

section \<open>Text round trip\<close>

lemma dec_value_Cons: "dec_value (c # s) = digit_value c * 10 ^ length s + dec_value s"
proof -
  have "foldl (\<lambda>a c. 10 * a + digit_value c) a s = a * 10 ^ length s + dec_value s" for a
  proof (induction s arbitrary: a)
    case Nil then show ?case by (simp add: dec_value_def)
  next
    case (Cons c s)
    from Cons [of "10 * a + digit_value c"] Cons [of "digit_value c"]
    show ?case by (simp add: dec_value_def [of "c # s"] algebra_simps)
  qed
  from this [of "digit_value c"] show ?thesis by (simp add: dec_value_def)
qed

lemma dec_value_zeros: "dec_value (replicate k CHR ''0'' @ s) = dec_value s"
  by (induction k) (simp_all add: dec_value_Cons digit_value_def)

lemma show_padded_small:
  assumes "0 \<le> x" and "x < 10 ^ w" and "0 < w"
  shows "length (show_padded w x) = w" and "\<forall>c \<in> set (show_padded w x). is_digit c"
    and "dec_value (show_padded w x) = nat x"
proof -
  have "nat x < 10 ^ w" using assms by (simp add: nat_less_iff)
  then have "length (show_nat (nat x)) \<le> w" using assms(3) by (rule length_show_nat_le)
  then show "length (show_padded w x) = w" using assms by (simp add: show_padded_def Let_def)
  show "\<forall>c \<in> set (show_padded w x). is_digit c"
    using assms show_nat_digits by (auto simp: show_padded_def Let_def is_digit_def)
  show "dec_value (show_padded w x) = nat x"
    using assms by (simp add: show_padded_def Let_def dec_value_zeros)
qed

lemma parse_i64_digits:
  assumes "s \<noteq> []" and "\<forall>c \<in> set s. is_digit c" and "dec_value s < 9223372036854775808"
  shows "parse_i64 s = Some (int (dec_value s))"
proof -
  obtain c r where s: "s = c # r" using assms by (cases s) auto
  have c: "c \<noteq> CHR ''+''" "c \<noteq> CHR ''-''" using assms s by (auto simp: is_digit_def)
  have "parse_magnitude 0 s = Some (word_of_nat (dec_value s))"
    using assms by (simp add: parse_magnitude_spec dec_value_def)
  then show ?thesis using assms(3) c s
    by (simp add: parse_i64_def word_of_nat_cmp sint_word_of_nat_small del: parse_magnitude.simps)
qed

lemma parse_padded:
  assumes "0 \<le> x" and "x < 10 ^ w" and "0 < w" and "w \<le> 18"
  shows "parse_i64 (show_padded w x) = Some x"
proof -
  note p = show_padded_small [OF assms(1-3)]
  have "(10 :: int) ^ w \<le> 10 ^ 18" using assms(4) by (rule power_increasing) simp
  then have "x < 10 ^ 18" using assms(2) by linarith
  then have "nat x < 9223372036854775808" by simp
  then show ?thesis using parse_i64_digits [of "show_padded w x"] p assms by force
qed

lemma fraction_loop_digits:
  assumes "\<forall>c \<in> set s. is_digit c" and "n + length s = 9" and "n < 9 \<longrightarrow> scale = 10 ^ (8 - n)"
  shows "fraction_loop f scale n (s @ ''Z'') = (f + int (dec_value s), 9, ''Z'')"
  using assms
proof (induction s arbitrary: f scale n)
  case Nil
  then show ?case by (simp add: dec_value_def is_digit_def)
next
  case (Cons c s)
  have n: "n < 9" "scale = 10 ^ length s" "length s = 8 - n" using Cons.prems by auto
  have "Suc n < 9 \<longrightarrow> cdiv scale 10 = 10 ^ (8 - Suc n)"
  proof
    assume "Suc n < 9"
    then have "length s = Suc (8 - Suc n)" using n(3) by arith
    then show "cdiv scale 10 = 10 ^ (8 - Suc n)" using n(2) by (simp add: cdiv_nonneg)
  qed
  then have "fraction_loop (f + int (digit_value c) * scale) (cdiv scale 10) (Suc n) (s @ ''Z'')
      = (f + int (digit_value c) * scale + int (dec_value s), 9, ''Z'')"
    using Cons.prems by (intro Cons.IH) auto
  then show ?case using Cons.prems n by (simp add: dec_value_Cons)
qed

text \<open>The text of a date with four digit year, cut back into its fields.\<close>

definition utc_text :: "int \<Rightarrow> int \<Rightarrow> int \<Rightarrow> int \<Rightarrow> int \<Rightarrow> int \<Rightarrow> int \<Rightarrow> string" where
  "utc_text year month day hour minute second fraction =
     show_padded 4 year @ ''-'' @ show_padded 2 month @ ''-'' @ show_padded 2 day @ ''T'' @
     show_padded 2 hour @ '':'' @ show_padded 2 minute @ '':'' @ show_padded 2 second @ ''.'' @
     show_padded 9 fraction @ ''Z''"

lemma parse_utc_text:
  assumes "0 \<le> y" "y < 10000" "1 \<le> m" "m \<le> 12" "1 \<le> d" "d \<le> 31" "0 \<le> h" "h < 24"
    "0 \<le> mi" "mi < 60" "0 \<le> s" "s < 60" "0 \<le> f" "f < 1000000000"
  shows "parse_utc (utc_text y m d h mi s f) =
     utc_total (utc_text y m d h mi s f) (days_from_civil y m d) (h * 3600 + mi * 60 + s) f"
proof -
  have len: "length (show_padded 4 y) = 4" "length (show_padded 2 m) = 2"
    "length (show_padded 2 d) = 2" "length (show_padded 2 h) = 2" "length (show_padded 2 mi) = 2"
    "length (show_padded 2 s) = 2" "length (show_padded 9 f) = 9"
    using assms by (auto intro!: show_padded_small(1))
  have val: "parse_i64 (show_padded 4 y) = Some y" "parse_i64 (show_padded 2 m) = Some m"
    "parse_i64 (show_padded 2 d) = Some d" "parse_i64 (show_padded 2 h) = Some h"
    "parse_i64 (show_padded 2 mi) = Some mi" "parse_i64 (show_padded 2 s) = Some s"
    using assms by (auto intro!: parse_padded)
  have frac: "fraction_loop 0 100000000 0 (show_padded 9 f @ ''Z'') = (f, 9, ''Z'')"
    using show_padded_small [of f 9] assms
    by (subst fraction_loop_digits) simp_all
  have pf: "parse_fraction t (drop 19 (utc_text y m d h mi s f)) = Inr (f, ''Z'')" for t
    using frac by (simp add: utc_text_def len parse_fraction_def)
  have fields: "field_digits (utc_text y m d h mi s f) 0 4 = Some y"
    "field_digits (utc_text y m d h mi s f) 5 2 = Some m"
    "field_digits (utc_text y m d h mi s f) 8 2 = Some d"
    "field_digits (utc_text y m d h mi s f) 11 2 = Some h"
    "field_digits (utc_text y m d h mi s f) 14 2 = Some mi"
    "field_digits (utc_text y m d h mi s f) 17 2 = Some s"
    by (simp_all add: field_digits_def utc_text_def len val)
  have seps: "utc_text y m d h mi s f ! 4 = CHR ''-''" "utc_text y m d h mi s f ! 7 = CHR ''-''"
    "utc_text y m d h mi s f ! 10 = CHR ''T''" "utc_text y m d h mi s f ! 13 = CHR '':''"
    "utc_text y m d h mi s f ! 16 = CHR '':''"
    by (simp_all add: utc_text_def nth_append len)
  have "length (utc_text y m d h mi s f) = 30" by (simp add: utc_text_def len)
  then show ?thesis using assms by (simp add: parse_utc_def fields seps pf)
qed

lemma civil_bounds:
  assumes "- 200000 \<le> days" "days \<le> 200000" "civil_from_days days = (y, m, d)"
  shows "0 \<le> y" "y < 10000" "1 \<le> m" "m \<le> 12" "1 \<le> d" "d \<le> 31"
proof -
  obtain era y' doy where e: "days = era_day era y' doy" "doy_in y' doy" by (rule era_day_exists)
  note r = era_day_range [OF e(2)]
  have "0 \<le> era" "era \<le> 20" using e(1) r assms(1,2) by (auto simp: era_day_def)
  moreover have "y = y' + era * 400 + march_carry doy" and md: "m = march_month doy" "d = march_day doy"
    using civil_era_day [OF e(2), of era] assms(3) e(1) by auto
  moreover have "0 \<le> march_carry doy" "march_carry doy \<le> 1" by (simp_all add: march_carry_def)
  ultimately show "0 \<le> y" "y < 10000" using e(2) by (auto simp: doy_in_def)
  have "doy_ok doy" using e(2) by (intro doy_okI) (auto simp: doy_in_def split: if_splits)
  then show "1 \<le> m" "m \<le> 12" "1 \<le> d" "d \<le> 31" by (simp_all add: md doy_ok_def)
qed

lemma if_pair_swap: "(if c then (a, b) else (a', b')) = (if c then a else a', if c then b else b')"
  by simp

lemma format_utc_text:
  assumes "civil_from_days (x div 1000000000 div 86400) = (y, m, d)"
    and "r = x div 1000000000 mod 86400"
  shows "format_utc x =
     take 47 (utc_text y m d (r div 3600) (r mod 3600 div 60) (r mod 60) (x mod 1000000000))"
proof -
  have r: "0 \<le> r" by (simp add: assms(2))
  have e: "cdiv r 3600 = r div 3600" "cdiv (cmod r 3600) 60 = r mod 3600 div 60"
    "cmod r 60 = r mod 60" using r by (simp_all add: cdiv_nonneg cmod_nonneg)
  show ?thesis
    by (simp only: format_utc_def utc_text_def kNanosPerSecond_def Let_def if_pair_swap prod.case
        floor_idiom_rest floor_idiom_quotient zero_less_numeral assms(2) [symmetric] assms(1) e)
qed

lemma utc_total_value:
  assumes "in_i64 (days * 86400 + r)" "0 \<le> r" "r < 86400" "- 200000 \<le> days" "days \<le> 200000"
    and x: "x = (days * 86400 + r) * 1000000000 + f" "in_i64 x" "0 \<le> f" "f < 1000000000"
  shows "utc_total t days r f =
     (if x < - 9223372036000000000
      then fail Overflow ''timestamp nanoseconds overflow'' t else Inr x)"
proof -
  define sec where "sec = days * 86400 + r"
  have s: "checked_mul_i64 days 86400 = Some (days * 86400)"
    using assms by (subst checked_mul_i64_spec) (auto simp: in_i64_iff)
  have a: "checked_add_i64 (days * 86400) r = Some sec"
    using assms by (subst checked_add_i64_spec) (auto simp: in_i64_iff sec_def)
  have xs: "x = sec * 1000000000 + f" by (simp add: x(1) sec_def)
  have iff: "in_i64 (sec * 1000000000) \<longleftrightarrow> \<not> x < - 9223372036000000000"
  proof (cases "- 9223372036 \<le> sec")
    case True
    then have "- 9223372036000000000 \<le> sec * 1000000000" by simp
    then show ?thesis using x(2-4) xs by (simp add: in_i64_iff)
  next
    case False
    then have "sec \<le> - 9223372037" by simp
    then have "sec * 1000000000 \<le> - 9223372037000000000" by simp
    then show ?thesis using x(3,4) xs by (simp add: in_i64_iff)
  qed
  have m: "checked_mul_i64 sec 1000000000
      = (if in_i64 (sec * 1000000000) then Some (sec * 1000000000) else None)"
    using assms(1) by (subst checked_mul_i64_spec) (auto simp: in_i64_iff sec_def)
  have "in_i64 (sec * 1000000000) \<Longrightarrow> checked_add_i64 (sec * 1000000000) f = Some x"
    using x xs by (subst checked_add_i64_spec) (auto simp: in_i64_iff)
  then show ?thesis by (simp add: utc_total_def s a m iff kNanosPerSecond_def)
qed

lemma parse_format_utc:
  assumes "in_i64 x"
  shows "parse_utc (format_utc x) =
     (if x < - 9223372036000000000
      then fail Overflow ''timestamp nanoseconds overflow'' (format_utc x) else Inr x)"
proof -
  define sec where "sec = x div 1000000000"
  define f where "f = x mod 1000000000"
  define days where "days = sec div 86400"
  define r where "r = sec mod 86400"
  have x: "x = sec * 1000000000 + f" by (simp add: sec_def f_def)
  have f: "0 \<le> f" "f < 1000000000" by (simp_all add: f_def)
  have sec: "sec = days * 86400 + r" by (simp add: days_def r_def)
  have r: "0 \<le> r" "r < 86400" by (simp_all add: r_def)
  have xb: "- 9223372036854775808 \<le> x" "x \<le> 9223372036854775807" using assms by (simp_all add: in_i64_iff)
  have sb: "- 9223372037 \<le> sec" "sec \<le> 9223372036" using x f xb by linarith+
  have db: "- 200000 \<le> days" "days \<le> 200000" using sec r sb by linarith+
  obtain y m d where c: "civil_from_days days = (y, m, d)" by (metis prod_cases3)
  note cb = civil_bounds [OF db c]
  have hms: "r div 3600 * 3600 + r mod 3600 div 60 * 60 + r mod 60 = r"
  proof -
    have "r mod 60 = r mod 3600 mod 60" by (simp add: mod_mod_cancel)
    then show ?thesis by (metis add.assoc div_mult_mod_eq)
  qed
  have h: "0 \<le> r div 3600" "r div 3600 < 24" "0 \<le> r mod 3600 div 60" "r mod 3600 div 60 < 60"
    "0 \<le> r mod 60" "r mod 60 < 60"
    using r by (simp_all add: pos_imp_zdiv_nonneg_iff div_less_iff_less_mult)
  let ?t = "utc_text y m d (r div 3600) (r mod 3600 div 60) (r mod 60) f"
  have len: "length ?t = 30" using cb h f by (simp add: utc_text_def show_padded_small)
  have ft: "format_utc x = ?t"
    using format_utc_text [of x y m d r, folded sec_def f_def, folded days_def r_def, OF c refl] len
    by (simp only: take_all numeral_le_iff semiring_norm)
  have "days_from_civil y m d = days"
  proof -
    obtain era y' doy where e: "days = era_day era y' doy" "doy_in y' doy" by (rule era_day_exists)
    then show ?thesis using c civil_era_day [OF e(2)] days_era_day [OF e(2)] by auto
  qed
  then have "parse_utc (format_utc x) = utc_total ?t days r f"
    using parse_utc_text [OF cb h f] by (simp add: ft hms)
  also have "\<dots> = (if x < - 9223372036000000000
      then fail Overflow ''timestamp nanoseconds overflow'' ?t else Inr x)"
    by (rule utc_total_value [OF _ r db _ assms f]) (use sb in \<open>simp_all add: sec [symmetric] x [symmetric] in_i64_iff\<close>)
  finally show ?thesis by (simp only: ft)
qed

text \<open>C15: The UTC text form is lossless: parsing what \<^verbatim>\<open>format_utc\<close> writes returns the same
  nanosecond count for every 64 bit value from -9223372036000000000 on, dates before 1970 included.
  The 854775808 smallest values are rejected with an overflow error: \<^verbatim>\<open>parse_utc\<close> scales the floored
  seconds before it adds the fraction.\<close>
theorem utc_roundtrip:
  "in_i64 x \<Longrightarrow> parse_utc (format_utc x) =
     (if x < - 9223372036000000000
      then fail Overflow ''timestamp nanoseconds overflow'' (format_utc x) else Inr x)"
  by (rule parse_format_utc)

theorem utc_roundtrip_witness:
  "parse_utc (format_utc (- 1)) = Inr (- 1) \<and> \<not> has_value (parse_utc (format_utc i64_min))"
  using utc_roundtrip [of "- 1"] utc_roundtrip [of i64_min]
  by (simp add: in_i64_iff i64_min_def has_value_iff)

end
