(* ===== verification/Core_Evidence.thy ===== *)
theory Core_Evidence
  imports Core_Time
begin

text \<open>
  \<^verbatim>\<open>core/evidence.hpp\<close> and \<^verbatim>\<open>core/evidence.cpp\<close>: what the runtime knows about a value. States,
  freshness and confidence are datatypes; the reason codes, a hundred and three enumerators over
  \<^verbatim>\<open>std::uint16_t\<close>, are a code number with a name for each enumerator. Constructors that clash with
  another type carry the name of theirs (\<open>StaleState\<close>, \<open>StaleFreshness\<close>).
\<close>

section \<open>Vocabulary\<close>

datatype evidence_state =
    Observed | Incomplete | Missing | StaleState | Conflicting | UnknownState
  | UnsupportedState | RefusedState

datatype freshness = Fresh | Aging | StaleFreshness | Expired | UnknownFreshness

datatype confidence = High | Moderate | Low | Degraded | NoConfidence

datatype reason_code = ReasonCode (reason_ordinal: nat)

abbreviation MalformedPayload :: reason_code where "MalformedPayload \<equiv> ReasonCode 0"
abbreviation LengthLimitExceeded :: reason_code where "LengthLimitExceeded \<equiv> ReasonCode 1"
abbreviation DepthLimitExceeded :: reason_code where "DepthLimitExceeded \<equiv> ReasonCode 2"
abbreviation MissingField :: reason_code where "MissingField \<equiv> ReasonCode 3"
abbreviation UnexpectedField :: reason_code where "UnexpectedField \<equiv> ReasonCode 4"
abbreviation InvalidFieldValue :: reason_code where "InvalidFieldValue \<equiv> ReasonCode 5"
abbreviation DuplicateField :: reason_code where "DuplicateField \<equiv> ReasonCode 6"
abbreviation UnsupportedSchema :: reason_code where "UnsupportedSchema \<equiv> ReasonCode 7"
abbreviation UnknownSource :: reason_code where "UnknownSource \<equiv> ReasonCode 8"
abbreviation UnknownPath :: reason_code where "UnknownPath \<equiv> ReasonCode 9"
abbreviation UnknownHop :: reason_code where "UnknownHop \<equiv> ReasonCode 10"
abbreviation UnknownLink :: reason_code where "UnknownLink \<equiv> ReasonCode 11"
abbreviation UnknownQueue :: reason_code where "UnknownQueue \<equiv> ReasonCode 12"
abbreviation UnknownGeneration :: reason_code where "UnknownGeneration \<equiv> ReasonCode 13"
abbreviation UnknownClockDomain :: reason_code where "UnknownClockDomain \<equiv> ReasonCode 14"
abbreviation UnknownBaseline :: reason_code where "UnknownBaseline \<equiv> ReasonCode 15"
abbreviation IdCollision :: reason_code where "IdCollision \<equiv> ReasonCode 16"
abbreviation NameConflict :: reason_code where "NameConflict \<equiv> ReasonCode 17"
abbreviation EpochAdvanced :: reason_code where "EpochAdvanced \<equiv> ReasonCode 18"
abbreviation EpochReplayed :: reason_code where "EpochReplayed \<equiv> ReasonCode 19"
abbreviation IncarnationChanged :: reason_code where "IncarnationChanged \<equiv> ReasonCode 20"
abbreviation IncarnationReplayed :: reason_code where "IncarnationReplayed \<equiv> ReasonCode 21"
abbreviation SequenceReplay :: reason_code where "SequenceReplay \<equiv> ReasonCode 22"
abbreviation SequenceGap :: reason_code where "SequenceGap \<equiv> ReasonCode 23"
abbreviation SequenceAdvanced :: reason_code where "SequenceAdvanced \<equiv> ReasonCode 24"
abbreviation SequenceReordered :: reason_code where "SequenceReordered \<equiv> ReasonCode 25"
abbreviation SessionEvicted :: reason_code where "SessionEvicted \<equiv> ReasonCode 26"
abbreviation GenerationSuperseded :: reason_code where "GenerationSuperseded \<equiv> ReasonCode 27"
abbreviation RevisionChanged :: reason_code where "RevisionChanged \<equiv> ReasonCode 28"
abbreviation AuthorityConflict :: reason_code where "AuthorityConflict \<equiv> ReasonCode 29"
abbreviation AuthorityDowngrade :: reason_code where "AuthorityDowngrade \<equiv> ReasonCode 30"
abbreviation ClockDomainMissing :: reason_code where "ClockDomainMissing \<equiv> ReasonCode 31"
abbreviation ClockSelfComparable :: reason_code where "ClockSelfComparable \<equiv> ReasonCode 32"
abbreviation ClockUnsynced :: reason_code where "ClockUnsynced \<equiv> ReasonCode 33"
abbreviation ClockSyncStale :: reason_code where "ClockSyncStale \<equiv> ReasonCode 34"
abbreviation ClockSyncExpired :: reason_code where "ClockSyncExpired \<equiv> ReasonCode 35"
abbreviation ClockSyncGenerationMismatch :: reason_code where "ClockSyncGenerationMismatch \<equiv> ReasonCode 36"
abbreviation ClockSyncEpochMismatch :: reason_code where "ClockSyncEpochMismatch \<equiv> ReasonCode 37"
abbreviation ClockSyncIncarnationMismatch :: reason_code where "ClockSyncIncarnationMismatch \<equiv> ReasonCode 38"
abbreviation ClockReferenceMismatch :: reason_code where "ClockReferenceMismatch \<equiv> ReasonCode 39"
abbreviation ClockUncertaintyExceeded :: reason_code where "ClockUncertaintyExceeded \<equiv> ReasonCode 40"
abbreviation ClockHoldover :: reason_code where "ClockHoldover \<equiv> ReasonCode 41"
abbreviation ClockOffsetUnavailable :: reason_code where "ClockOffsetUnavailable \<equiv> ReasonCode 42"
abbreviation ClockComparable :: reason_code where "ClockComparable \<equiv> ReasonCode 43"
abbreviation EvidenceFresh :: reason_code where "EvidenceFresh \<equiv> ReasonCode 44"
abbreviation EvidenceAging :: reason_code where "EvidenceAging \<equiv> ReasonCode 45"
abbreviation EvidenceStale :: reason_code where "EvidenceStale \<equiv> ReasonCode 46"
abbreviation EvidenceExpired :: reason_code where "EvidenceExpired \<equiv> ReasonCode 47"
abbreviation FreshnessUnknown :: reason_code where "FreshnessUnknown \<equiv> ReasonCode 48"
abbreviation RestartLoadedEvidence :: reason_code where "RestartLoadedEvidence \<equiv> ReasonCode 49"
abbreviation HopMissing :: reason_code where "HopMissing \<equiv> ReasonCode 50"
abbreviation HopUnsupported :: reason_code where "HopUnsupported \<equiv> ReasonCode 51"
abbreviation HopConflicting :: reason_code where "HopConflicting \<equiv> ReasonCode 52"
abbreviation HopNotContiguous :: reason_code where "HopNotContiguous \<equiv> ReasonCode 53"
abbreviation HopOutOfOrder :: reason_code where "HopOutOfOrder \<equiv> ReasonCode 54"
abbreviation HopOverlap :: reason_code where "HopOverlap \<equiv> ReasonCode 55"
abbreviation HopGap :: reason_code where "HopGap \<equiv> ReasonCode 56"
abbreviation PartialCoverage :: reason_code where "PartialCoverage \<equiv> ReasonCode 57"
abbreviation NoSamples :: reason_code where "NoSamples \<equiv> ReasonCode 58"
abbreviation EmptyWindow :: reason_code where "EmptyWindow \<equiv> ReasonCode 59"
abbreviation ArithmeticOverflow :: reason_code where "ArithmeticOverflow \<equiv> ReasonCode 60"
abbreviation AggregateDeterministic :: reason_code where "AggregateDeterministic \<equiv> ReasonCode 61"
abbreviation InsufficientSamples :: reason_code where "InsufficientSamples \<equiv> ReasonCode 62"
abbreviation HistogramUnderflow :: reason_code where "HistogramUnderflow \<equiv> ReasonCode 63"
abbreviation HistogramOverflowValue :: reason_code where "HistogramOverflowValue \<equiv> ReasonCode 64"
abbreviation BaselineMissing :: reason_code where "BaselineMissing \<equiv> ReasonCode 65"
abbreviation BaselineGenerationMismatch :: reason_code where "BaselineGenerationMismatch \<equiv> ReasonCode 66"
abbreviation BaselinePathMismatch :: reason_code where "BaselinePathMismatch \<equiv> ReasonCode 67"
abbreviation BaselineClockDomainMismatch :: reason_code where "BaselineClockDomainMismatch \<equiv> ReasonCode 68"
abbreviation BaselineHistogramMismatch :: reason_code where "BaselineHistogramMismatch \<equiv> ReasonCode 69"
abbreviation BaselineRevisionMismatch :: reason_code where "BaselineRevisionMismatch \<equiv> ReasonCode 70"
abbreviation BaselineStale :: reason_code where "BaselineStale \<equiv> ReasonCode 71"
abbreviation BaselineExpired :: reason_code where "BaselineExpired \<equiv> ReasonCode 72"
abbreviation BaselineMatched :: reason_code where "BaselineMatched \<equiv> ReasonCode 73"
abbreviation IncomparableClocks :: reason_code where "IncomparableClocks \<equiv> ReasonCode 74"
abbreviation NonTilingCoverage :: reason_code where "NonTilingCoverage \<equiv> ReasonCode 75"
abbreviation SemanticsUnsupported :: reason_code where "SemanticsUnsupported \<equiv> ReasonCode 76"
abbreviation QueueSemanticsUndeclared :: reason_code where "QueueSemanticsUndeclared \<equiv> ReasonCode 77"
abbreviation RefusedByPolicy :: reason_code where "RefusedByPolicy \<equiv> ReasonCode 78"
abbreviation NoCausalInference :: reason_code where "NoCausalInference \<equiv> ReasonCode 79"
abbreviation UnaccountedResidual :: reason_code where "UnaccountedResidual \<equiv> ReasonCode 80"
abbreviation ResidualWithinTolerance :: reason_code where "ResidualWithinTolerance \<equiv> ReasonCode 81"
abbreviation AttributionComplete :: reason_code where "AttributionComplete \<equiv> ReasonCode 82"
abbreviation AttributionPartial :: reason_code where "AttributionPartial \<equiv> ReasonCode 83"
abbreviation DeviationNone :: reason_code where "DeviationNone \<equiv> ReasonCode 84"
abbreviation DeviationWatch :: reason_code where "DeviationWatch \<equiv> ReasonCode 85"
abbreviation DeviationElevated :: reason_code where "DeviationElevated \<equiv> ReasonCode 86"
abbreviation DeviationSuppressed :: reason_code where "DeviationSuppressed \<equiv> ReasonCode 87"
abbreviation BaselineAbsent :: reason_code where "BaselineAbsent \<equiv> ReasonCode 88"
abbreviation StoreOpenFailed :: reason_code where "StoreOpenFailed \<equiv> ReasonCode 89"
abbreviation StoreFormatUnsupported :: reason_code where "StoreFormatUnsupported \<equiv> ReasonCode 90"
abbreviation RecordIntegrityFailure :: reason_code where "RecordIntegrityFailure \<equiv> ReasonCode 91"
abbreviation SegmentTruncated :: reason_code where "SegmentTruncated \<equiv> ReasonCode 92"
abbreviation SegmentRejected :: reason_code where "SegmentRejected \<equiv> ReasonCode 93"
abbreviation PersistenceCapacityExceeded :: reason_code where "PersistenceCapacityExceeded \<equiv> ReasonCode 94"
abbreviation RecoveryConservative :: reason_code where "RecoveryConservative \<equiv> ReasonCode 95"
abbreviation RecoveredEvidence :: reason_code where "RecoveredEvidence \<equiv> ReasonCode 96"
abbreviation OperationCancelled :: reason_code where "OperationCancelled \<equiv> ReasonCode 97"
abbreviation RuntimeShuttingDown :: reason_code where "RuntimeShuttingDown \<equiv> ReasonCode 98"
abbreviation WorkerPoolSaturated :: reason_code where "WorkerPoolSaturated \<equiv> ReasonCode 99"
abbreviation QueueFull :: reason_code where "QueueFull \<equiv> ReasonCode 100"
abbreviation BatchLimitExceeded :: reason_code where "BatchLimitExceeded \<equiv> ReasonCode 101"
abbreviation ExportTruncated :: reason_code where "ExportTruncated \<equiv> ReasonCode 102"

definition kStates :: "(evidence_state \<times> string) list" where
  "kStates =
    [(Observed, ''observed''), (Incomplete, ''incomplete''), (Missing, ''missing''),
     (StaleState, ''stale''), (Conflicting, ''conflicting''), (UnknownState, ''unknown''),
     (UnsupportedState, ''unsupported''), (RefusedState, ''refused'')]"

definition kFreshness :: "(freshness \<times> string) list" where
  "kFreshness =
    [(Fresh, ''fresh''), (Aging, ''aging''), (StaleFreshness, ''stale''), (Expired, ''expired''),
     (UnknownFreshness, ''unknown'')]"

definition kConfidence :: "(confidence \<times> string) list" where
  "kConfidence =
    [(High, ''high''), (Moderate, ''moderate''), (Low, ''low''), (Degraded, ''degraded''),
     (NoConfidence, ''none'')]"

definition kReasons :: "(reason_code \<times> string) list" where
  "kReasons =
    [(MalformedPayload, ''malformed_payload''),
     (LengthLimitExceeded, ''length_limit_exceeded''),
     (DepthLimitExceeded, ''depth_limit_exceeded''),
     (MissingField, ''missing_field''),
     (UnexpectedField, ''unexpected_field''),
     (InvalidFieldValue, ''invalid_field_value''),
     (DuplicateField, ''duplicate_field''),
     (UnsupportedSchema, ''unsupported_schema''),
     (UnknownSource, ''unknown_source''),
     (UnknownPath, ''unknown_path''),
     (UnknownHop, ''unknown_hop''),
     (UnknownLink, ''unknown_link''),
     (UnknownQueue, ''unknown_queue''),
     (UnknownGeneration, ''unknown_generation''),
     (UnknownClockDomain, ''unknown_clock_domain''),
     (UnknownBaseline, ''unknown_baseline''),
     (IdCollision, ''id_collision''),
     (NameConflict, ''name_conflict''),
     (EpochAdvanced, ''epoch_advanced''),
     (EpochReplayed, ''epoch_replayed''),
     (IncarnationChanged, ''incarnation_changed''),
     (IncarnationReplayed, ''incarnation_replayed''),
     (SequenceReplay, ''sequence_replay''),
     (SequenceGap, ''sequence_gap''),
     (SequenceAdvanced, ''sequence_advanced''),
     (SequenceReordered, ''sequence_reordered''),
     (SessionEvicted, ''session_evicted''),
     (GenerationSuperseded, ''generation_superseded''),
     (RevisionChanged, ''revision_changed''),
     (AuthorityConflict, ''authority_conflict''),
     (AuthorityDowngrade, ''authority_downgrade''),
     (ClockDomainMissing, ''clock_domain_missing''),
     (ClockSelfComparable, ''clock_self_comparable''),
     (ClockUnsynced, ''clock_unsynced''),
     (ClockSyncStale, ''clock_sync_stale''),
     (ClockSyncExpired, ''clock_sync_expired''),
     (ClockSyncGenerationMismatch, ''clock_sync_generation_mismatch''),
     (ClockSyncEpochMismatch, ''clock_sync_epoch_mismatch''),
     (ClockSyncIncarnationMismatch, ''clock_sync_incarnation_mismatch''),
     (ClockReferenceMismatch, ''clock_reference_mismatch''),
     (ClockUncertaintyExceeded, ''clock_uncertainty_exceeded''),
     (ClockHoldover, ''clock_holdover''),
     (ClockOffsetUnavailable, ''clock_offset_unavailable''),
     (ClockComparable, ''clock_comparable''),
     (EvidenceFresh, ''evidence_fresh''),
     (EvidenceAging, ''evidence_aging''),
     (EvidenceStale, ''evidence_stale''),
     (EvidenceExpired, ''evidence_expired''),
     (FreshnessUnknown, ''freshness_unknown''),
     (RestartLoadedEvidence, ''restart_loaded_evidence''),
     (HopMissing, ''hop_missing''),
     (HopUnsupported, ''hop_unsupported''),
     (HopConflicting, ''hop_conflicting''),
     (HopNotContiguous, ''hop_not_contiguous''),
     (HopOutOfOrder, ''hop_out_of_order''),
     (HopOverlap, ''hop_overlap''),
     (HopGap, ''hop_gap''),
     (PartialCoverage, ''partial_coverage''),
     (NoSamples, ''no_samples''),
     (EmptyWindow, ''empty_window''),
     (ArithmeticOverflow, ''arithmetic_overflow''),
     (AggregateDeterministic, ''aggregate_deterministic''),
     (InsufficientSamples, ''insufficient_samples''),
     (HistogramUnderflow, ''histogram_underflow''),
     (HistogramOverflowValue, ''histogram_overflow_value''),
     (BaselineMissing, ''baseline_missing''),
     (BaselineGenerationMismatch, ''baseline_generation_mismatch''),
     (BaselinePathMismatch, ''baseline_path_mismatch''),
     (BaselineClockDomainMismatch, ''baseline_clock_domain_mismatch''),
     (BaselineHistogramMismatch, ''baseline_histogram_mismatch''),
     (BaselineRevisionMismatch, ''baseline_revision_mismatch''),
     (BaselineStale, ''baseline_stale''),
     (BaselineExpired, ''baseline_expired''),
     (BaselineMatched, ''baseline_matched''),
     (IncomparableClocks, ''incomparable_clocks''),
     (NonTilingCoverage, ''non_tiling_coverage''),
     (SemanticsUnsupported, ''semantics_unsupported''),
     (QueueSemanticsUndeclared, ''queue_semantics_undeclared''),
     (RefusedByPolicy, ''refused_by_policy''),
     (NoCausalInference, ''no_causal_inference''),
     (UnaccountedResidual, ''unaccounted_residual''),
     (ResidualWithinTolerance, ''residual_within_tolerance''),
     (AttributionComplete, ''attribution_complete''),
     (AttributionPartial, ''attribution_partial''),
     (DeviationNone, ''deviation_none''),
     (DeviationWatch, ''deviation_watch''),
     (DeviationElevated, ''deviation_elevated''),
     (DeviationSuppressed, ''deviation_suppressed''),
     (BaselineAbsent, ''baseline_absent''),
     (StoreOpenFailed, ''store_open_failed''),
     (StoreFormatUnsupported, ''store_format_unsupported''),
     (RecordIntegrityFailure, ''record_integrity_failure''),
     (SegmentTruncated, ''segment_truncated''),
     (SegmentRejected, ''segment_rejected''),
     (PersistenceCapacityExceeded, ''persistence_capacity_exceeded''),
     (RecoveryConservative, ''recovery_conservative''),
     (RecoveredEvidence, ''recovered_evidence''),
     (OperationCancelled, ''operation_cancelled''),
     (RuntimeShuttingDown, ''runtime_shutting_down''),
     (WorkerPoolSaturated, ''worker_pool_saturated''),
     (QueueFull, ''queue_full''),
     (BatchLimitExceeded, ''batch_limit_exceeded''),
     (ExportTruncated, ''export_truncated'')]"

definition state_to_string :: "evidence_state \<Rightarrow> string" where
  "state_to_string s = enum_name kStates ''unknown'' s"

definition parse_evidence_state :: "string \<Rightarrow> evidence_state option" where
  "parse_evidence_state text = enum_parse kStates text"

definition freshness_to_string :: "freshness \<Rightarrow> string" where
  "freshness_to_string f = enum_name kFreshness ''unknown'' f"

definition parse_freshness :: "string \<Rightarrow> freshness option" where
  "parse_freshness text = enum_parse kFreshness text"

definition confidence_to_string :: "confidence \<Rightarrow> string" where
  "confidence_to_string c = enum_name kConfidence ''none'' c"

definition parse_confidence :: "string \<Rightarrow> confidence option" where
  "parse_confidence text = enum_parse kConfidence text"

definition reason_to_string :: "reason_code \<Rightarrow> string" where
  "reason_to_string c = enum_name kReasons ''unknown_reason'' c"

definition parse_reason_code :: "string \<Rightarrow> reason_code option" where
  "parse_reason_code text = enum_parse kReasons text"

fun state_rank :: "evidence_state \<Rightarrow> int" where
  "state_rank Observed = 0"
| "state_rank Incomplete = 1"
| "state_rank Missing = 2"
| "state_rank StaleState = 3"
| "state_rank Conflicting = 4"
| "state_rank UnknownState = 5"
| "state_rank UnsupportedState = 6"
| "state_rank RefusedState = 7"

fun freshness_rank :: "freshness \<Rightarrow> int" where
  "freshness_rank Fresh = 0"
| "freshness_rank Aging = 1"
| "freshness_rank StaleFreshness = 2"
| "freshness_rank Expired = 3"
| "freshness_rank UnknownFreshness = 4"

fun confidence_rank :: "confidence \<Rightarrow> int" where
  "confidence_rank High = 0"
| "confidence_rank Moderate = 1"
| "confidence_rank Low = 2"
| "confidence_rank Degraded = 3"
| "confidence_rank NoConfidence = 4"

section \<open>Reasons\<close>

datatype reason = Reason (reason_code_of: reason_code) (reason_detail: string)

text \<open>Reasons are ordered by code number, then by detail.\<close>

instantiation reason :: linorder
begin

definition less_eq_reason :: "reason \<Rightarrow> reason \<Rightarrow> bool" where
  "a \<le> b \<longleftrightarrow> (reason_ordinal (reason_code_of a), reason_detail a)
     \<le> (reason_ordinal (reason_code_of b), reason_detail b)"

definition less_reason :: "reason \<Rightarrow> reason \<Rightarrow> bool" where
  "a < b \<longleftrightarrow> (reason_ordinal (reason_code_of a), reason_detail a)
     < (reason_ordinal (reason_code_of b), reason_detail b)"

instance
proof
  fix x y z :: reason
  show "x < y \<longleftrightarrow> x \<le> y \<and> \<not> y \<le> x"
    by (simp only: less_eq_reason_def less_reason_def less_le_not_le)
  show "x \<le> x" by (simp only: less_eq_reason_def order_refl)
  show "x \<le> y \<Longrightarrow> y \<le> z \<Longrightarrow> x \<le> z" by (simp only: less_eq_reason_def)
  show "x \<le> y \<or> y \<le> x" by (simp only: less_eq_reason_def linear)
  show "x \<le> y \<Longrightarrow> y \<le> x \<Longrightarrow> x = y"
    by (simp only: less_eq_reason_def, drule (1) order_antisym)
      (auto intro: reason.expand reason_code.expand)
qed

end

section \<open>Evidence\<close>

definition kMaxReasons :: nat where "kMaxReasons = 24"

record evidence =
  ev_state :: evidence_state
  ev_freshness :: freshness
  ev_confidence :: confidence
  ev_reasons :: "reason list"
  ev_truncated :: bool

definition default_evidence :: evidence where
  "default_evidence =
     \<lparr>ev_state = UnknownState, ev_freshness = UnknownFreshness, ev_confidence = NoConfidence,
      ev_reasons = [], ev_truncated = False\<rparr>"

definition add_reason :: "reason_code \<Rightarrow> string \<Rightarrow> evidence \<Rightarrow> evidence" where
  "add_reason code detail ev =
     (let r = Reason code detail
      in if r \<in> set (ev_reasons ev) then ev
         else if length (ev_reasons ev) \<ge> kMaxReasons then ev\<lparr>ev_truncated := True\<rparr>
         else ev\<lparr>ev_reasons := ev_reasons ev @ [r]\<rparr>)"

definition observed :: "freshness \<Rightarrow> confidence \<Rightarrow> evidence" where
  "observed f c = default_evidence\<lparr>ev_state := Observed, ev_freshness := f, ev_confidence := c\<rparr>"

definition observed_fresh :: evidence where
  "observed_fresh = add_reason EvidenceFresh [] (observed Fresh High)"

definition missing :: "reason_code \<Rightarrow> string \<Rightarrow> evidence" where
  "missing code detail =
     add_reason code detail (default_evidence\<lparr>ev_state := Missing, ev_freshness := UnknownFreshness,
       ev_confidence := NoConfidence\<rparr>)"

definition incomplete :: "reason_code \<Rightarrow> string \<Rightarrow> evidence" where
  "incomplete code detail =
     add_reason code detail (default_evidence\<lparr>ev_state := Incomplete, ev_confidence := Low\<rparr>)"

definition stale :: "reason_code \<Rightarrow> string \<Rightarrow> evidence" where
  "stale code detail =
     add_reason code detail (default_evidence\<lparr>ev_state := StaleState,
       ev_freshness := StaleFreshness, ev_confidence := NoConfidence\<rparr>)"

definition conflicting :: "reason_code \<Rightarrow> string \<Rightarrow> evidence" where
  "conflicting code detail =
     add_reason code detail
       (default_evidence\<lparr>ev_state := Conflicting, ev_confidence := NoConfidence\<rparr>)"

definition unknown :: "reason_code \<Rightarrow> string \<Rightarrow> evidence" where
  "unknown code detail =
     add_reason code detail
       (default_evidence\<lparr>ev_state := UnknownState, ev_confidence := NoConfidence\<rparr>)"

definition unsupported :: "reason_code \<Rightarrow> string \<Rightarrow> evidence" where
  "unsupported code detail =
     add_reason code detail
       (default_evidence\<lparr>ev_state := UnsupportedState, ev_confidence := NoConfidence\<rparr>)"

definition refused :: "reason_code \<Rightarrow> string \<Rightarrow> evidence" where
  "refused code detail =
     add_reason code detail
       (default_evidence\<lparr>ev_state := RefusedState, ev_confidence := NoConfidence\<rparr>)"

definition usable :: "evidence \<Rightarrow> bool" where
  "usable ev \<longleftrightarrow>
     ev_state ev = Observed \<and> (ev_freshness ev = Fresh \<or> ev_freshness ev = Aging)"

definition ev_has_value :: "evidence \<Rightarrow> bool" where
  "ev_has_value ev \<longleftrightarrow>
     ev_state ev = Observed \<or> ev_state ev = Incomplete \<or> ev_state ev = StaleState"

text \<open>\<open>worse\<close> is the source's comparison of two ranks: the left value wins a tie.\<close>

definition worse :: "('a \<Rightarrow> int) \<Rightarrow> 'a \<Rightarrow> 'a \<Rightarrow> 'a" where
  "worse rank a b = (if rank a \<ge> rank b then a else b)"

definition is_coverage :: "evidence_state \<Rightarrow> bool" where
  "is_coverage s \<longleftrightarrow> s = Observed \<or> s = Incomplete \<or> s = Missing"

definition merge_state :: "evidence_state \<Rightarrow> evidence_state \<Rightarrow> evidence_state" where
  "merge_state l r =
     (if is_coverage l \<and> is_coverage r then
        let any_missing = (l = Missing \<or> r = Missing);
            any_incomplete = (l = Incomplete \<or> r = Incomplete)
        in if any_missing \<or> any_incomplete then Incomplete else Observed
      else worse state_rank l r)"

definition add_reasons :: "reason list \<Rightarrow> evidence \<Rightarrow> evidence" where
  "add_reasons rs ev = foldl (\<lambda>ev r. add_reason (reason_code_of r) (reason_detail r) ev) ev rs"

text \<open>\<^verbatim>\<open>std::sort\<close> followed by \<^verbatim>\<open>std::unique\<close> and \<^verbatim>\<open>erase\<close>.\<close>

definition normalize :: "evidence \<Rightarrow> evidence" where
  "normalize ev = ev\<lparr>ev_reasons := remdups_adj (sort (ev_reasons ev))\<rparr>"

definition merge :: "evidence \<Rightarrow> evidence \<Rightarrow> evidence" where
  "merge left right =
     (let result = default_evidence
            \<lparr>ev_state := merge_state (ev_state left) (ev_state right),
             ev_freshness := worse freshness_rank (ev_freshness left) (ev_freshness right),
             ev_confidence := worse confidence_rank (ev_confidence left) (ev_confidence right)\<rparr>;
          result = add_reasons (ev_reasons left) result;
          result = add_reasons (ev_reasons right) result;
          result = result\<lparr>ev_truncated :=
            ev_truncated left \<or> ev_truncated right \<or> ev_truncated result\<rparr>
      in normalize result)"

definition summarize :: "evidence \<Rightarrow> string" where
  "summarize ev =
     state_to_string (ev_state ev) @ ''/'' @ freshness_to_string (ev_freshness ev) @ ''/'' @
     confidence_to_string (ev_confidence ev) @
     concat (map (\<lambda>r. '' '' @ reason_to_string (reason_code_of r) @
       (if reason_detail r = [] then [] else ''('' @ reason_detail r @ '')'')) (ev_reasons ev)) @
     (if ev_truncated ev then '' reasons_truncated'' else [])"

section \<open>Names\<close>

interpretation state_names: named_enum kStates "''unknown''"
proof unfold_locales
  show "e \<in> fst ` set kStates" for e by (cases e) (simp_all add: kStates_def)
qed (simp_all add: kStates_def)

interpretation freshness_names: named_enum kFreshness "''unknown''"
proof unfold_locales
  show "e \<in> fst ` set kFreshness" for e by (cases e) (simp_all add: kFreshness_def)
qed (simp_all add: kFreshness_def)

interpretation confidence_names: named_enum kConfidence "''none''"
proof unfold_locales
  show "e \<in> fst ` set kConfidence" for e by (cases e) (simp_all add: kConfidence_def)
qed (simp_all add: kConfidence_def)

lemma kReasons_ordinals: "map (reason_ordinal \<circ> fst) kReasons = [0..<103]"
  by code_simp

interpretation reason_names: name_table kReasons "''unknown_reason''"
proof unfold_locales
  have "distinct (map (reason_ordinal \<circ> fst) kReasons)" by (simp only: kReasons_ordinals distinct_upt)
  then show "distinct (map fst kReasons)" by (simp add: distinct_map o_def inj_on_def)
  show "distinct (map snd kReasons)" by code_simp
qed

section \<open>The worse of two ranks\<close>

locale rank_order =
  fixes rank :: "'a \<Rightarrow> int"
  assumes rank_inject: "rank a = rank b \<Longrightarrow> a = b"
begin

lemma worse_commute: "worse rank a b = worse rank b a"
  using rank_inject by (auto simp: worse_def)

lemma worse_assoc: "worse rank (worse rank a b) c = worse rank a (worse rank b c)"
  by (auto simp: worse_def)

lemma worse_idem: "worse rank a a = a"
  by (simp add: worse_def)

lemma rank_worse: "rank (worse rank a b) = max (rank a) (rank b)"
  by (simp add: worse_def)

end

interpretation state_order: rank_order state_rank
proof unfold_locales
  show "state_rank a = state_rank b \<Longrightarrow> a = b" for a b by (cases a; cases b) simp_all
qed

interpretation freshness_order: rank_order freshness_rank
proof unfold_locales
  show "freshness_rank a = freshness_rank b \<Longrightarrow> a = b" for a b by (cases a; cases b) simp_all
qed

interpretation confidence_order: rank_order confidence_rank
proof unfold_locales
  show "confidence_rank a = confidence_rank b \<Longrightarrow> a = b" for a b by (cases a; cases b) simp_all
qed

lemma merge_state_commute: "merge_state a b = merge_state b a"
  by (auto simp: merge_state_def Let_def intro: state_order.worse_commute)

lemma merge_state_assoc: "merge_state (merge_state a b) c = merge_state a (merge_state b c)"
  by (cases a; cases b; cases c) (simp_all add: merge_state_def is_coverage_def worse_def)

lemma merge_state_observed: "merge_state a b = Observed \<longleftrightarrow> a = Observed \<and> b = Observed"
  by (cases a; cases b) (simp_all add: merge_state_def is_coverage_def worse_def)

section \<open>Reason lists\<close>

text \<open>Adding reasons one by one without the bound, keeping the first occurrence of each.\<close>

fun collect :: "reason list \<Rightarrow> reason list \<Rightarrow> reason list" where
  "collect xs [] = xs"
| "collect xs (r # rs) = collect (if r \<in> set xs then xs else xs @ [r]) rs"

lemma collect_append: "collect xs (a @ b) = collect (collect xs a) b"
  by (induction xs a rule: collect.induct) auto

lemma set_collect: "set (collect xs rs) = set xs \<union> set rs"
  by (induction xs rs rule: collect.induct) auto

lemma distinct_collect: "distinct xs \<Longrightarrow> distinct (collect xs rs)"
  by (induction xs rs rule: collect.induct) auto

lemma collect_prefix: "\<exists>ys. collect xs rs = xs @ ys"
  by (induction xs rs rule: collect.induct) (auto split: if_splits)

lemma add_reason_fields [simp]:
  "ev_state (add_reason c d ev) = ev_state ev"
  "ev_freshness (add_reason c d ev) = ev_freshness ev"
  "ev_confidence (add_reason c d ev) = ev_confidence ev"
  by (simp_all add: add_reason_def Let_def)

lemma add_reasons_fields [simp]:
  "ev_state (add_reasons rs ev) = ev_state ev"
  "ev_freshness (add_reasons rs ev) = ev_freshness ev"
  "ev_confidence (add_reasons rs ev) = ev_confidence ev"
  by (induction rs arbitrary: ev) (simp_all add: add_reasons_def)

lemma add_reasons_append: "add_reasons (a @ b) ev = add_reasons b (add_reasons a ev)"
  by (simp add: add_reasons_def)

lemma add_reasons_collect:
  assumes "ev_reasons ev = take kMaxReasons full" and "ev_truncated ev = (t \<or> length full > kMaxReasons)"
  shows "ev_reasons (add_reasons rs ev) = take kMaxReasons (collect full rs) \<and>
     (length (collect full rs) > kMaxReasons \<longrightarrow> ev_truncated (add_reasons rs ev)) \<and>
     (ev_truncated (add_reasons rs ev) \<longrightarrow> t \<or> length (collect full rs) > kMaxReasons)"
  using assms
proof (induction rs arbitrary: ev full)
  case Nil
  then show ?case by (simp add: add_reasons_def)
next
  case (Cons r rs)
  let ?ev = "add_reason (reason_code_of r) (reason_detail r) ev"
  let ?full = "if r \<in> set full then full else full @ [r]"
  have "ev_reasons ?ev = take kMaxReasons ?full \<and> ev_truncated ?ev = (t \<or> length ?full > kMaxReasons)"
  proof (cases "length full < kMaxReasons")
    case True
    then show ?thesis using Cons.prems by (auto simp: add_reason_def)
  next
    case False
    then show ?thesis using Cons.prems by (auto simp: add_reason_def dest: in_set_takeD)
  qed
  then show ?case using Cons.IH [of ?ev ?full] by (simp add: add_reasons_def)
qed

lemma merge_fields [simp]:
  "ev_state (merge l r) = merge_state (ev_state l) (ev_state r)"
  "ev_freshness (merge l r) = worse freshness_rank (ev_freshness l) (ev_freshness r)"
  "ev_confidence (merge l r) = worse confidence_rank (ev_confidence l) (ev_confidence r)"
  by (simp_all add: merge_def normalize_def Let_def)

lemma sort_unique:
  assumes "distinct xs" shows "remdups_adj (sort xs) = sort xs"
  using assms by (simp add: remdups_adj_distinct)

lemma merge_reasons:
  "ev_reasons (merge l r) = sort (take kMaxReasons (collect [] (ev_reasons l @ ev_reasons r)))"
  "ev_truncated (merge l r) \<longleftrightarrow>
     ev_truncated l \<or> ev_truncated r \<or> card (set (ev_reasons l) \<union> set (ev_reasons r)) > kMaxReasons"
proof -
  let ?all = "collect [] (ev_reasons l @ ev_reasons r)"
  let ?start = "default_evidence\<lparr>ev_state := merge_state (ev_state l) (ev_state r),
    ev_freshness := worse freshness_rank (ev_freshness l) (ev_freshness r),
    ev_confidence := worse confidence_rank (ev_confidence l) (ev_confidence r)\<rparr>"
  let ?sum = "add_reasons (ev_reasons r) (add_reasons (ev_reasons l) ?start)"
  have m: "merge l r = normalize (?sum\<lparr>ev_truncated :=
      ev_truncated l \<or> ev_truncated r \<or> ev_truncated ?sum\<rparr>)"
    by (simp add: merge_def Let_def)
  have sum: "ev_reasons ?sum = take kMaxReasons ?all \<and> (ev_truncated ?sum \<longleftrightarrow> length ?all > kMaxReasons)"
    using add_reasons_collect [of ?start "[]" False "ev_reasons l @ ev_reasons r"]
    by (auto simp: default_evidence_def add_reasons_append)
  have "distinct ?all" by (rule distinct_collect) simp
  then have "length ?all = card (set (ev_reasons l) \<union> set (ev_reasons r))"
    by (metis distinct_card set_collect set_append set_empty2 sup_bot.left_neutral)
  then show "ev_truncated (merge l r) \<longleftrightarrow>
      ev_truncated l \<or> ev_truncated r \<or> card (set (ev_reasons l) \<union> set (ev_reasons r)) > kMaxReasons"
    using sum by (simp add: m normalize_def)
  show "ev_reasons (merge l r) = sort (take kMaxReasons ?all)"
    using sum \<open>distinct ?all\<close> by (simp add: m normalize_def sort_unique)
qed

text \<open>The invariant of every evidence value: at most 24 reasons, none twice.\<close>

definition evidence_inv :: "evidence \<Rightarrow> bool" where
  "evidence_inv ev \<longleftrightarrow> distinct (ev_reasons ev) \<and> length (ev_reasons ev) \<le> kMaxReasons"

lemma evidence_inv_add_reason [simp]: "evidence_inv ev \<Longrightarrow> evidence_inv (add_reason c d ev)"
  by (auto simp: evidence_inv_def add_reason_def Let_def)

lemma evidence_inv_merge [simp]: "evidence_inv (merge l r)"
  using distinct_collect [of "[]" "ev_reasons l @ ev_reasons r"]
  by (simp add: evidence_inv_def merge_reasons)

lemma evidence_inv_default [simp]: "evidence_inv default_evidence" "evidence_inv (observed f c)"
  by (simp_all add: evidence_inv_def default_evidence_def observed_def)

lemma merge_reasons_fit:
  assumes "card (set (ev_reasons l) \<union> set (ev_reasons r)) \<le> kMaxReasons"
  shows "ev_reasons (merge l r) = sorted_list_of_set (set (ev_reasons l) \<union> set (ev_reasons r))"
proof -
  let ?all = "collect [] (ev_reasons l @ ev_reasons r)"
  have d: "distinct ?all" by (rule distinct_collect) simp
  have s: "set ?all = set (ev_reasons l) \<union> set (ev_reasons r)" by (simp add: set_collect)
  then have "length ?all \<le> kMaxReasons" using d assms by (metis distinct_card)
  moreover have "sort ?all = sorted_list_of_set (set ?all)"
    using d by (simp only: sorted_list_of_set_sort_remdups distinct_remdups_id)
  ultimately show ?thesis by (simp add: merge_reasons s)
qed

lemma evidence_eqI:
  "ev_state a = ev_state b \<Longrightarrow> ev_freshness a = ev_freshness b \<Longrightarrow> ev_confidence a = ev_confidence b \<Longrightarrow>
   ev_reasons a = ev_reasons b \<Longrightarrow> ev_truncated a = ev_truncated b \<Longrightarrow> (a :: evidence) = b"
  by simp

lemma merge_commute_fit:
  assumes "card (set (ev_reasons l) \<union> set (ev_reasons r)) \<le> kMaxReasons"
  shows "merge l r = merge r l"
proof (rule evidence_eqI)
  show "ev_reasons (merge l r) = ev_reasons (merge r l)"
    using assms by (simp add: merge_reasons_fit Un_commute)
  show "ev_truncated (merge l r) = ev_truncated (merge r l)"
    by (auto simp: merge_reasons(2) Un_commute)
qed (simp_all add: merge_state_commute freshness_order.worse_commute [of "ev_freshness l"]
  confidence_order.worse_commute [of "ev_confidence l"])

lemma merge_assoc_fit:
  assumes "card (set (ev_reasons a) \<union> set (ev_reasons b) \<union> set (ev_reasons c)) \<le> kMaxReasons"
  shows "merge (merge a b) c = merge a (merge b c)"
proof -
  let ?A = "set (ev_reasons a)" and ?B = "set (ev_reasons b)" and ?C = "set (ev_reasons c)"
  have fits: "card (?A \<union> ?B) \<le> kMaxReasons" "card (?B \<union> ?C) \<le> kMaxReasons"
    by (rule order_trans [OF card_mono assms], simp, blast)+
  then have sets: "set (ev_reasons (merge a b)) = ?A \<union> ?B" "set (ev_reasons (merge b c)) = ?B \<union> ?C"
    by (simp_all add: merge_reasons_fit)
  show ?thesis
  proof (rule evidence_eqI)
    show "ev_reasons (merge (merge a b) c) = ev_reasons (merge a (merge b c))"
      using assms by (simp add: merge_reasons_fit sets Un_assoc)
    show "ev_truncated (merge (merge a b) c) = ev_truncated (merge a (merge b c))"
      using fits by (auto simp: merge_reasons(2) sets Un_assoc)
  qed (simp_all add: merge_state_assoc freshness_order.worse_assoc confidence_order.worse_assoc)
qed

lemma usable_merge: "usable (merge l r) \<longleftrightarrow> usable l \<and> usable r"
  by (cases "ev_freshness l"; cases "ev_freshness r")
    (simp_all add: usable_def merge_state_observed worse_def)

text \<open>C16: Merging evidence never upgrades it and is independent of order and grouping while the
  reasons fit: the merge is usable exactly when both sides are, it keeps the bound of 24 distinct
  reasons, and as long as no more than 24 distinct reasons take part it is commutative and
  associative and loses no reason.\<close>
theorem evidence_merge_laws:
  "(usable (merge a b) \<longleftrightarrow> usable a \<and> usable b) \<and> evidence_inv (merge a b) \<and>
   (card (set (ev_reasons a) \<union> set (ev_reasons b) \<union> set (ev_reasons c)) \<le> kMaxReasons \<longrightarrow>
     merge a b = merge b a \<and> merge (merge a b) c = merge a (merge b c) \<and>
     set (ev_reasons (merge a b)) = set (ev_reasons a) \<union> set (ev_reasons b))"
proof -
  have "card (set (ev_reasons a) \<union> set (ev_reasons b)) \<le> kMaxReasons"
    if "card (set (ev_reasons a) \<union> set (ev_reasons b) \<union> set (ev_reasons c)) \<le> kMaxReasons"
    by (rule order_trans [OF card_mono that]) auto
  then show ?thesis
    using merge_commute_fit [of a b] merge_assoc_fit [of a b c] merge_reasons_fit [of a b]
    by (auto simp: usable_merge)
qed

theorem evidence_merge_laws_witness:
  "merge (missing HopMissing ''h1'') observed_fresh = merge observed_fresh (missing HopMissing ''h1'')"
  using evidence_merge_laws [of "missing HopMissing ''h1''" observed_fresh observed_fresh]
  by (simp add: missing_def observed_fresh_def observed_def add_reason_def default_evidence_def
      kMaxReasons_def)

definition full_evidence :: evidence where
  "full_evidence = add_reasons (map (\<lambda>n. Reason (ReasonCode n) []) [0..<24]) default_evidence"

text \<open>Beyond 24 reasons the order of a merge decides what is kept, contrary to the comment on
  \<^verbatim>\<open>Evidence::merge\<close>, which promises order independence without a bound: evidence with 24 reasons and
  evidence with one further reason merge to different results in the two orders.\<close>
lemma merge_order_dependent:
  "evidence_inv full_evidence \<and> evidence_inv (unknown ExportTruncated []) \<and>
   merge full_evidence (unknown ExportTruncated []) \<noteq> merge (unknown ExportTruncated []) full_evidence"
proof -
  have "Reason ExportTruncated [] \<in> set (ev_reasons (merge (unknown ExportTruncated []) full_evidence))"
    and "Reason ExportTruncated [] \<notin> set (ev_reasons (merge full_evidence (unknown ExportTruncated [])))"
    by code_simp+
  moreover have "evidence_inv full_evidence" by code_simp
  ultimately show ?thesis by (auto simp: unknown_def default_evidence_def evidence_inv_def add_reason_def kMaxReasons_def)
qed

end
