(* ===== verification/Core_Policy.thy ===== *)
theory Core_Policy
  imports Core_Evidence
begin

text \<open>
  \<^verbatim>\<open>core/policy.hpp\<close> and \<^verbatim>\<open>core/policy.cpp\<close>: the hard limits, the freshness, comparability,
  attribution and anomaly policies, their validation (the first violated requirement is the error)
  and the canonical text whose digest identifies a policy. Unsigned limits are natural numbers: the
  program only compares them.
\<close>

section \<open>Helpers\<close>

definition require :: "bool \<Rightarrow> string \<Rightarrow> status" where
  "require condition message = (if \<not> condition then fail InvalidArgument message [] else ok_status)"

text \<open>A sequence of \<^verbatim>\<open>LATOBS_TRY_STATUS(require(...))\<close>.\<close>

fun require_all :: "(bool \<times> string) list \<Rightarrow> status" where
  "require_all [] = ok_status"
| "require_all ((condition, message) # rest) =
     try_bind (require condition message) (\<lambda>_. require_all rest)"

definition append_line :: "string \<Rightarrow> nat \<Rightarrow> string" where
  "append_line key v = key @ ''='' @ show_nat v @ [CHR 0x0A]"

definition append_line_signed :: "string \<Rightarrow> int \<Rightarrow> string" where
  "append_line_signed key v = key @ ''='' @ show_int v @ [CHR 0x0A]"

definition append_flag :: "string \<Rightarrow> bool \<Rightarrow> string" where
  "append_flag key v = key @ ''='' @ (if v then ''true'' else ''false'') @ [CHR 0x0A]"

section \<open>Policies\<close>

record limits =
  max_hops_per_path :: nat
  max_endpoints :: nat
  max_links :: nat
  max_queues :: nat
  max_paths :: nat
  max_sources :: nat
  max_generations :: nat
  max_clock_domains :: nat
  max_batch_samples :: nat
  max_samples_per_path :: nat
  max_total_samples :: nat
  max_baselines :: nat
  max_export_records :: nat
  max_history_buckets :: nat
  max_histogram_buckets :: nat
  max_quantile_probes :: nat
  max_json_depth :: nat
  max_json_bytes :: nat
  max_transport_line_bytes :: nat
  max_connections :: nat
  max_workers :: nat
  max_queue_depth :: nat
  max_pending_operations :: nat
  max_segment_records :: nat
  max_segment_bytes :: nat
  max_store_bytes :: nat
  sequence_replay_window :: nat
  max_sessions_per_source :: nat

definition default_limits :: limits where
  "default_limits =
     \<lparr>max_hops_per_path = 64,
      max_endpoints = 4096,
      max_links = 4096,
      max_queues = 4096,
      max_paths = 4096,
      max_sources = 1024,
      max_generations = 256,
      max_clock_domains = 256,
      max_batch_samples = 4096,
      max_samples_per_path = 200000,
      max_total_samples = 1000000,
      max_baselines = 1024,
      max_export_records = 100000,
      max_history_buckets = 512,
      max_histogram_buckets = 512,
      max_quantile_probes = 16,
      max_json_depth = 24,
      max_json_bytes = 4194304,
      max_transport_line_bytes = 1048576,
      max_connections = 16,
      max_workers = 8,
      max_queue_depth = 1024,
      max_pending_operations = 4096,
      max_segment_records = 4096,
      max_segment_bytes = 8388608,
      max_store_bytes = 268435456,
      sequence_replay_window = 4096,
      max_sessions_per_source = 64\<rparr>"

definition limits_validate :: "limits \<Rightarrow> status" where
  "limits_validate l = require_all
    [(max_hops_per_path l \<ge> 1 \<and> max_hops_per_path l \<le> 4096,
        ''limits: max_hops_per_path must be within [1, 4096]''),
     (max_endpoints l \<ge> 1 \<and> max_endpoints l \<le> 1000000,
        ''limits: max_endpoints must be within [1, 1000000]''),
     (max_links l \<ge> 1 \<and> max_links l \<le> 1000000,
        ''limits: max_links must be within [1, 1000000]''),
     (max_queues l \<ge> 1 \<and> max_queues l \<le> 1000000,
        ''limits: max_queues must be within [1, 1000000]''),
     (max_paths l \<ge> 1 \<and> max_paths l \<le> 1000000,
        ''limits: max_paths must be within [1, 1000000]''),
     (max_sources l \<ge> 1 \<and> max_sources l \<le> 1000000,
        ''limits: max_sources must be within [1, 1000000]''),
     (max_generations l \<ge> 1 \<and> max_generations l \<le> 1000000,
        ''limits: max_generations must be within [1, 1000000]''),
     (max_clock_domains l \<ge> 2 \<and> max_clock_domains l \<le> 1000000,
        ''limits: max_clock_domains must be within [2, 1000000]''),
     (max_batch_samples l \<ge> 1 \<and> max_batch_samples l \<le> 1000000,
        ''limits: max_batch_samples must be within [1, 1000000]''),
     (max_samples_per_path l \<ge> max_batch_samples l,
        ''limits: max_samples_per_path must be at least max_batch_samples''),
     (max_total_samples l \<ge> max_samples_per_path l,
        ''limits: max_total_samples must be at least max_samples_per_path''),
     (max_baselines l \<ge> 1,
        ''limits: max_baselines must be at least 1''),
     (max_export_records l \<ge> 1,
        ''limits: max_export_records must be at least 1''),
     (max_history_buckets l \<ge> 1 \<and> max_history_buckets l \<le> 100000,
        ''limits: max_history_buckets must be within [1, 100000]''),
     (max_histogram_buckets l \<ge> 1 \<and> max_histogram_buckets l \<le> 4096,
        ''limits: max_histogram_buckets must be within [1, 4096]''),
     (max_quantile_probes l \<ge> 1 \<and> max_quantile_probes l \<le> 64,
        ''limits: max_quantile_probes must be within [1, 64]''),
     (max_json_depth l \<ge> 1 \<and> max_json_depth l \<le> 128,
        ''limits: max_json_depth must be within [1, 128]''),
     (max_json_bytes l \<ge> 1024,
        ''limits: max_json_bytes must be at least 1024''),
     (max_transport_line_bytes l \<ge> 1024,
        ''limits: max_transport_line_bytes must be at least 1024''),
     (max_transport_line_bytes l \<le> max_json_bytes l,
        ''limits: a transport line must not exceed max_json_bytes''),
     (max_connections l \<ge> 1 \<and> max_connections l \<le> 1024,
        ''limits: max_connections must be within [1, 1024]''),
     (max_workers l \<ge> 1 \<and> max_workers l \<le> 256,
        ''limits: max_workers must be within [1, 256]''),
     (max_queue_depth l \<ge> 1 \<and> max_queue_depth l \<le> 1000000,
        ''limits: max_queue_depth must be within [1, 1000000]''),
     (max_pending_operations l \<ge> max_queue_depth l,
        ''limits: max_pending_operations must be at least max_queue_depth''),
     (max_segment_records l \<ge> 1,
        ''limits: max_segment_records must be at least 1''),
     (max_segment_bytes l \<ge> 4096,
        ''limits: max_segment_bytes must be at least 4096''),
     (max_store_bytes l \<ge> max_segment_bytes l,
        ''limits: max_store_bytes must be at least max_segment_bytes''),
     (sequence_replay_window l \<ge> 1,
        ''limits: sequence_replay_window must be at least 1''),
     (max_sessions_per_source l \<ge> 1 \<and> max_sessions_per_source l \<le> 4096,
        ''limits: max_sessions_per_source must be within [1, 4096]'')]"

definition limits_text :: "limits \<Rightarrow> string" where
  "limits_text l =
     append_line ''limits.max_hops_per_path'' (max_hops_per_path l) @
     append_line ''limits.max_endpoints'' (max_endpoints l) @
     append_line ''limits.max_links'' (max_links l) @
     append_line ''limits.max_queues'' (max_queues l) @
     append_line ''limits.max_paths'' (max_paths l) @
     append_line ''limits.max_sources'' (max_sources l) @
     append_line ''limits.max_generations'' (max_generations l) @
     append_line ''limits.max_clock_domains'' (max_clock_domains l) @
     append_line ''limits.max_batch_samples'' (max_batch_samples l) @
     append_line ''limits.max_samples_per_path'' (max_samples_per_path l) @
     append_line ''limits.max_total_samples'' (max_total_samples l) @
     append_line ''limits.max_baselines'' (max_baselines l) @
     append_line ''limits.max_export_records'' (max_export_records l) @
     append_line ''limits.max_history_buckets'' (max_history_buckets l) @
     append_line ''limits.max_histogram_buckets'' (max_histogram_buckets l) @
     append_line ''limits.max_quantile_probes'' (max_quantile_probes l) @
     append_line ''limits.max_json_depth'' (max_json_depth l) @
     append_line ''limits.max_json_bytes'' (max_json_bytes l) @
     append_line ''limits.max_transport_line_bytes'' (max_transport_line_bytes l) @
     append_line ''limits.max_connections'' (max_connections l) @
     append_line ''limits.max_workers'' (max_workers l) @
     append_line ''limits.max_queue_depth'' (max_queue_depth l) @
     append_line ''limits.max_pending_operations'' (max_pending_operations l) @
     append_line ''limits.max_segment_records'' (max_segment_records l) @
     append_line ''limits.max_segment_bytes'' (max_segment_bytes l) @
     append_line ''limits.max_store_bytes'' (max_store_bytes l) @
     append_line ''limits.sequence_replay_window'' (sequence_replay_window l) @
     append_line ''limits.max_sessions_per_source'' (max_sessions_per_source l)"

record freshness_policy =
  fresh_horizon_ns :: nanos
  aging_horizon_ns :: nanos
  stale_horizon_ns :: nanos

definition default_freshness_policy :: freshness_policy where
  "default_freshness_policy =
     \<lparr>fresh_horizon_ns = 2000000000,
      aging_horizon_ns = 10000000000,
      stale_horizon_ns = 60000000000\<rparr>"

definition freshness_policy_validate :: "freshness_policy \<Rightarrow> status" where
  "freshness_policy_validate p = require_all
    [(fresh_horizon_ns p > 0,
        ''freshness: fresh_horizon_ns must be positive''),
     (aging_horizon_ns p > fresh_horizon_ns p,
        ''freshness: aging_horizon_ns must exceed fresh_horizon_ns''),
     (stale_horizon_ns p > aging_horizon_ns p,
        ''freshness: stale_horizon_ns must exceed aging_horizon_ns'')]"

definition freshness_policy_text :: "freshness_policy \<Rightarrow> string" where
  "freshness_policy_text p =
     append_line_signed ''freshness.fresh_horizon_ns'' (fresh_horizon_ns p) @
     append_line_signed ''freshness.aging_horizon_ns'' (aging_horizon_ns p) @
     append_line_signed ''freshness.stale_horizon_ns'' (stale_horizon_ns p)"

definition classify_age :: "freshness_policy \<Rightarrow> nanos \<Rightarrow> freshness" where
  "classify_age p age_ns =
     (if age_ns < 0 then UnknownFreshness
      else if age_ns \<le> fresh_horizon_ns p then Fresh
      else if age_ns \<le> aging_horizon_ns p then Aging
      else if age_ns \<le> stale_horizon_ns p then StaleFreshness
      else Expired)"

record comparability_policy =
  max_uncertainty_ns :: nanos
  allow_holdover :: bool
  require_generation_match :: bool
  require_epoch_match :: bool
  require_incarnation_match :: bool
  allow_transitive :: bool

definition default_comparability_policy :: comparability_policy where
  "default_comparability_policy =
     \<lparr>max_uncertainty_ns = 1000000,
      allow_holdover = True,
      require_generation_match = True,
      require_epoch_match = True,
      require_incarnation_match = True,
      allow_transitive = False\<rparr>"

definition comparability_policy_validate :: "comparability_policy \<Rightarrow> status" where
  "comparability_policy_validate p = require_all
    [(max_uncertainty_ns p \<ge> 0,
        ''comparability: max_uncertainty_ns must not be negative''),
     (\<not> allow_transitive p,
        ''comparability: transitive clock chains are not supported by design'')]"

definition comparability_policy_text :: "comparability_policy \<Rightarrow> string" where
  "comparability_policy_text p =
     append_line_signed ''comparability.max_uncertainty_ns'' (max_uncertainty_ns p) @
     append_flag ''comparability.allow_holdover'' (allow_holdover p) @
     append_flag ''comparability.require_generation_match'' (require_generation_match p) @
     append_flag ''comparability.require_epoch_match'' (require_epoch_match p) @
     append_flag ''comparability.require_incarnation_match'' (require_incarnation_match p) @
     append_flag ''comparability.allow_transitive'' (allow_transitive p)"

record attribution_policy =
  residual_tolerance_ns :: nanos
  allow_partial_decomposition :: bool
  allow_degraded_confidence :: bool
  min_samples_for_trend :: nat

definition default_attribution_policy :: attribution_policy where
  "default_attribution_policy =
     \<lparr>residual_tolerance_ns = 1000,
      allow_partial_decomposition = False,
      allow_degraded_confidence = False,
      min_samples_for_trend = 16\<rparr>"

definition attribution_policy_validate :: "attribution_policy \<Rightarrow> status" where
  "attribution_policy_validate p = require_all
    [(residual_tolerance_ns p \<ge> 0,
        ''attribution: residual_tolerance_ns must not be negative''),
     (min_samples_for_trend p \<ge> 1,
        ''attribution: min_samples_for_trend must be at least 1'')]"

definition attribution_policy_text :: "attribution_policy \<Rightarrow> string" where
  "attribution_policy_text p =
     append_line_signed ''attribution.residual_tolerance_ns'' (residual_tolerance_ns p) @
     append_flag ''attribution.allow_partial_decomposition'' (allow_partial_decomposition p) @
     append_flag ''attribution.allow_degraded_confidence'' (allow_degraded_confidence p) @
     append_line ''attribution.min_samples_for_trend'' (min_samples_for_trend p)"

record anomaly_policy =
  watch_delta_ns :: nanos
  elevated_delta_ns :: nanos
  min_samples :: nat

definition default_anomaly_policy :: anomaly_policy where
  "default_anomaly_policy =
     \<lparr>watch_delta_ns = 1000000,
      elevated_delta_ns = 10000000,
      min_samples = 8\<rparr>"

definition anomaly_policy_validate :: "anomaly_policy \<Rightarrow> status" where
  "anomaly_policy_validate p = require_all
    [(watch_delta_ns p \<ge> 0,
        ''anomaly: watch_delta_ns must not be negative''),
     (elevated_delta_ns p \<ge> watch_delta_ns p,
        ''anomaly: elevated_delta_ns must be at least watch_delta_ns''),
     (min_samples p \<ge> 1,
        ''anomaly: min_samples must be at least 1'')]"

definition anomaly_policy_text :: "anomaly_policy \<Rightarrow> string" where
  "anomaly_policy_text p =
     append_line_signed ''anomaly.watch_delta_ns'' (watch_delta_ns p) @
     append_line_signed ''anomaly.elevated_delta_ns'' (elevated_delta_ns p) @
     append_line ''anomaly.min_samples'' (min_samples p)"

section \<open>The runtime policy\<close>

record runtime_policy =
  pol_limits :: limits
  pol_freshness :: freshness_policy
  pol_comparability :: comparability_policy
  pol_attribution :: attribution_policy
  pol_anomaly :: anomaly_policy

definition default_runtime_policy :: runtime_policy where
  "default_runtime_policy =
     \<lparr>pol_limits = default_limits, pol_freshness = default_freshness_policy,
      pol_comparability = default_comparability_policy,
      pol_attribution = default_attribution_policy, pol_anomaly = default_anomaly_policy\<rparr>"

definition policy_validate :: "runtime_policy \<Rightarrow> status" where
  "policy_validate p =
     try_bind (limits_validate (pol_limits p)) (\<lambda>_.
     try_bind (freshness_policy_validate (pol_freshness p)) (\<lambda>_.
     try_bind (comparability_policy_validate (pol_comparability p)) (\<lambda>_.
     try_bind (attribution_policy_validate (pol_attribution p)) (\<lambda>_.
     try_bind (anomaly_policy_validate (pol_anomaly p)) (\<lambda>_.
     require (max_quantile_probes (pol_limits p) \<le> 64)
       ''policy: quantile probe count exceeds the supported maximum'')))))"

definition policy_text :: "runtime_policy \<Rightarrow> string" where
  "policy_text p =
     ''policy.version=1'' @ [CHR 0x0A] @ limits_text (pol_limits p) @
     freshness_policy_text (pol_freshness p) @ comparability_policy_text (pol_comparability p) @
     attribution_policy_text (pol_attribution p) @ anomaly_policy_text (pol_anomaly p)"

definition policy_digest :: "runtime_policy \<Rightarrow> string" where
  "policy_digest p = sha256_hex (policy_text p)"

text \<open>\<^verbatim>\<open>default_policy\<close> asserts its validity; a violated assertion aborts the process (None).\<close>

definition default_policy :: "runtime_policy option" where
  "default_policy =
     (if has_value (policy_validate default_runtime_policy) then Some default_runtime_policy else None)"

section \<open>Facts\<close>

lemma require_iff: "require c m = Inr u \<longleftrightarrow> c"
  by (simp add: require_def)

lemma require_all_ok: "require_all checks = Inr u \<longleftrightarrow> list_all fst checks"
  by (induction checks rule: require_all.induct) (auto simp: require_def)

lemma require_all_error:
  "require_all checks = Inl e \<Longrightarrow> \<exists>m. (False, m) \<in> set checks \<and> e = Error InvalidArgument m []"
  by (induction checks rule: require_all.induct) (auto simp: require_def split: if_splits)

declare require_all.simps [simp del]

lemma until_delimiter:
  "c \<notin> set a \<Longrightarrow> c \<notin> set b \<Longrightarrow> a @ c # r = b @ c # s \<longleftrightarrow> a = b \<and> r = s"
proof (induction a arbitrary: b)
  case Nil then show ?case by (cases b) auto
next
  case (Cons x a) then show ?case by (cases b) auto
qed

lemma newline_not_digit: "CHR 0x0A \<notin> set (show_nat n)" "CHR 0x0A \<notin> set (show_int x)"
  using show_nat_digits [of "CHR 0x0A"] by (auto simp: is_digit_def show_int_def)

lemma line_inject:
  "append_line k v @ r = append_line k w @ s \<longleftrightarrow> v = w \<and> r = s"
  "append_line_signed k x @ r = append_line_signed k y @ s \<longleftrightarrow> x = y \<and> r = s"
  "append_flag k p @ r = append_flag k q @ s \<longleftrightarrow> p = q \<and> r = s"
  by (auto simp: append_line_def append_line_signed_def append_flag_def until_delimiter
      newline_not_digit show_nat_inj show_int_inj)

lemma limits_text_inject: "limits_text l @ r = limits_text m @ s \<longleftrightarrow> l = m \<and> r = s"
  by (cases l; cases m) (simp add: limits_text_def line_inject)

lemma freshness_text_inject:
  "freshness_policy_text l @ r = freshness_policy_text m @ s \<longleftrightarrow> l = m \<and> r = s"
  by (cases l; cases m) (simp add: freshness_policy_text_def line_inject)

lemma comparability_text_inject:
  "comparability_policy_text l @ r = comparability_policy_text m @ s \<longleftrightarrow> l = m \<and> r = s"
  by (cases l; cases m) (simp add: comparability_policy_text_def line_inject)

lemma attribution_text_inject:
  "attribution_policy_text l @ r = attribution_policy_text m @ s \<longleftrightarrow> l = m \<and> r = s"
  by (cases l; cases m) (simp add: attribution_policy_text_def line_inject)

lemma anomaly_text_inject:
  "anomaly_policy_text l = anomaly_policy_text m \<longleftrightarrow> l = m"
proof -
  have "anomaly_policy_text l @ [] = anomaly_policy_text m @ [] \<longleftrightarrow> l = m"
    unfolding anomaly_policy_text_def append_assoc by (cases l; cases m) (simp only: line_inject, simp)
  then show ?thesis by simp
qed

lemma policy_text_inject: "policy_text p = policy_text q \<longleftrightarrow> p = q"
  by (cases p; cases q)
    (simp add: policy_text_def limits_text_inject freshness_text_inject comparability_text_inject
      attribution_text_inject anomaly_text_inject)

lemma default_limits_ok: "limits_validate default_limits = ok_status"
  by (simp add: limits_validate_def default_limits_def require_all_ok)

lemma default_policy_ok: "policy_validate default_runtime_policy = ok_status"
  by (simp add: policy_validate_def default_runtime_policy_def default_limits_ok require_iff)
    (simp add: freshness_policy_validate_def comparability_policy_validate_def
      attribution_policy_validate_def anomaly_policy_validate_def try_bind_eq_Inr require_all_ok
      require_def default_limits_def
      default_freshness_policy_def default_comparability_policy_def default_attribution_policy_def
      default_anomaly_policy_def)

lemma classify_age_mono:
  "0 \<le> a \<Longrightarrow> a \<le> b \<Longrightarrow> freshness_rank (classify_age p a) \<le> freshness_rank (classify_age p b)"
  by (simp add: classify_age_def)

lemma freshness_policy_ordered:
  "freshness_policy_validate p = Inr u \<Longrightarrow>
     0 < fresh_horizon_ns p \<and> fresh_horizon_ns p < aging_horizon_ns p \<and>
     aging_horizon_ns p < stale_horizon_ns p"
  by (simp add: freshness_policy_validate_def require_all_ok)

lemma policy_validateD:
  assumes "policy_validate p = Inr u"
  shows "limits_validate (pol_limits p) = Inr ()"
    and "freshness_policy_validate (pol_freshness p) = Inr ()"
    and "comparability_policy_validate (pol_comparability p) = Inr ()"
    and "attribution_policy_validate (pol_attribution p) = Inr ()"
    and "anomaly_policy_validate (pol_anomaly p) = Inr ()"
  using assms by (auto simp: policy_validate_def try_bind_eq_Inr)

text \<open>A policy is identified by its canonical text: two policies with the same text are the same
  policy, in all forty-four fields. The default policy passes its own validation, so the assertion in
  \<^verbatim>\<open>default_policy\<close> never aborts, and under a valid policy older evidence is never classified fresher:
  the classes are ordered by age, and evidence from the future is never fresh.\<close>
lemma policy_identity:
  "(policy_text p = policy_text q \<longleftrightarrow> p = q) \<and> default_policy = Some default_runtime_policy \<and>
   (policy_validate p = ok_status \<and> a \<le> b \<longrightarrow>
      (classify_age (pol_freshness p) a = UnknownFreshness \<longleftrightarrow> a < 0) \<and>
      (0 \<le> a \<longrightarrow> freshness_rank (classify_age (pol_freshness p) a)
        \<le> freshness_rank (classify_age (pol_freshness p) b)) \<and>
      (classify_age (pol_freshness p) a = Fresh \<longleftrightarrow> 0 \<le> a \<and> a \<le> fresh_horizon_ns (pol_freshness p)) \<and>
      (classify_age (pol_freshness p) a = Expired \<longleftrightarrow> stale_horizon_ns (pol_freshness p) < a))"
proof -
  have "(classify_age (pol_freshness p) a = UnknownFreshness \<longleftrightarrow> a < 0) \<and>
      (classify_age (pol_freshness p) a = Fresh \<longleftrightarrow> 0 \<le> a \<and> a \<le> fresh_horizon_ns (pol_freshness p)) \<and>
      (classify_age (pol_freshness p) a = Expired \<longleftrightarrow> stale_horizon_ns (pol_freshness p) < a)"
    if "policy_validate p = ok_status"
    using freshness_policy_ordered [OF policy_validateD(2) [OF that]]
    by (auto simp: classify_age_def)
  then show ?thesis
    by (auto simp: policy_text_inject default_policy_def default_policy_ok has_value_def
        classify_age_mono)
qed

lemma policy_identity_example:
  "classify_age (pol_freshness default_runtime_policy) (- 1) = UnknownFreshness \<and>
   classify_age (pol_freshness default_runtime_policy) 5000000000 = Aging"
proof -
  have "classify_age (pol_freshness default_runtime_policy) 5000000000 = Aging"
    by (simp add: classify_age_def default_runtime_policy_def default_freshness_policy_def)
  then show ?thesis
    using policy_identity [of default_runtime_policy default_runtime_policy "- 1" 5]
    by (simp add: default_policy_ok)
qed

end
