(* ===== verification/Model_Entities.thy ===== *)
theory Model_Entities
  imports Core_Policy
begin

text \<open>
  \<^verbatim>\<open>model/entities.hpp\<close> and \<^verbatim>\<open>model/entities.cpp\<close>: the vocabulary of sources, hops and endpoints, the
  semantics mask, the seven kinds of definitions and the catalog that registers them. The catalog's
  tables are ordered maps; an operation returns its result and the catalog it leaves behind, because
  the source may fail after it has changed a table.
\<close>

section \<open>Vocabulary\<close>

datatype source_kind = SyntheticKind | Probe | TelemetryAgent | DerivedAggregate | UnknownSourceKind
datatype authority_class = Primary | Secondary | Derived | SyntheticAuthority | UnknownAuthority
datatype hop_kind = EndpointHop | LinkHop | ForwardingStage | QueueingStage | Application | UnknownHopKind
datatype endpoint_role = Client | Server | Intermediate | UnknownRole

definition kSourceKinds :: "(source_kind \<times> string) list" where
  "kSourceKinds =
    [(SyntheticKind, ''synthetic''), (Probe, ''probe''), (TelemetryAgent, ''telemetry_agent''),
     (DerivedAggregate, ''derived_aggregate''), (UnknownSourceKind, ''unknown'')]"

definition kAuthorityClasses :: "(authority_class \<times> string) list" where
  "kAuthorityClasses =
    [(Primary, ''primary''), (Secondary, ''secondary''), (Derived, ''derived''),
     (SyntheticAuthority, ''synthetic''), (UnknownAuthority, ''unknown'')]"

definition kHopKinds :: "(hop_kind \<times> string) list" where
  "kHopKinds =
    [(EndpointHop, ''endpoint''), (LinkHop, ''link''), (ForwardingStage, ''forwarding_stage''),
     (QueueingStage, ''queueing_stage''), (Application, ''application''), (UnknownHopKind, ''unknown'')]"

definition kEndpointRoles :: "(endpoint_role \<times> string) list" where
  "kEndpointRoles =
    [(Client, ''client''), (Server, ''server''), (Intermediate, ''intermediate''),
     (UnknownRole, ''unknown'')]"

definition source_kind_to_string :: "source_kind \<Rightarrow> string" where
  "source_kind_to_string k = enum_name kSourceKinds ''unknown'' k"

definition parse_source_kind :: "string \<Rightarrow> source_kind option" where
  "parse_source_kind text = enum_parse kSourceKinds text"

definition authority_to_string :: "authority_class \<Rightarrow> string" where
  "authority_to_string a = enum_name kAuthorityClasses ''unknown'' a"

definition parse_authority_class :: "string \<Rightarrow> authority_class option" where
  "parse_authority_class text = enum_parse kAuthorityClasses text"

definition hop_kind_to_string :: "hop_kind \<Rightarrow> string" where
  "hop_kind_to_string k = enum_name kHopKinds ''unknown'' k"

definition parse_hop_kind :: "string \<Rightarrow> hop_kind option" where
  "parse_hop_kind text = enum_parse kHopKinds text"

definition endpoint_role_to_string :: "endpoint_role \<Rightarrow> string" where
  "endpoint_role_to_string r = enum_name kEndpointRoles ''unknown'' r"

definition parse_endpoint_role :: "string \<Rightarrow> endpoint_role option" where
  "parse_endpoint_role text = enum_parse kEndpointRoles text"

section \<open>The semantics mask\<close>

text \<open>\<^verbatim>\<open>SemanticsProfile\<close>, an enumeration over \<^verbatim>\<open>std::uint8_t\<close> whose values are combined bitwise.\<close>

type_synonym semantics = u8

abbreviation SemUnknown :: semantics where "SemUnknown \<equiv> 0"
abbreviation EndToEndRequestResponse :: semantics where "EndToEndRequestResponse \<equiv> 1"
abbreviation HopDwell :: semantics where "HopDwell \<equiv> 2"
abbreviation QueueDwell :: semantics where "QueueDwell \<equiv> 4"

definition kSemantics :: "(semantics \<times> string) list" where
  "kSemantics =
    [(SemUnknown, ''unknown''), (EndToEndRequestResponse, ''end_to_end_request_response''),
     (HopDwell, ''hop_dwell''), (QueueDwell, ''queue_dwell'')]"

definition has_semantics :: "semantics \<Rightarrow> semantics \<Rightarrow> bool" where
  "has_semantics v flag \<longleftrightarrow> v AND flag \<noteq> 0"

fun semantics_names :: "semantics \<Rightarrow> string \<Rightarrow> (semantics \<times> string) list \<Rightarrow> string" where
  "semantics_names bits out [] = out"
| "semantics_names bits out ((entry_bits, entry_name) # rest) =
     (if entry_bits = 0 \<or> bits AND entry_bits = 0 then semantics_names bits out rest
      else semantics_names bits ((if out \<noteq> [] then out @ ''|'' else out) @ entry_name) rest)"

definition semantics_to_string :: "semantics \<Rightarrow> string" where
  "semantics_to_string profile =
     (if profile = 0 then ''unknown''
      else let out = semantics_names profile [] kSemantics
           in if out = [] then ''unknown'' else out)"

definition parse_semantics_profile :: "string \<Rightarrow> semantics option" where
  "parse_semantics_profile text = enum_parse kSemantics text"

text \<open>The loop of \<^verbatim>\<open>parse_semantics_list\<close>: \<open>token\<close> is the part of the current token already read.\<close>

fun semantics_list_loop :: "semantics \<Rightarrow> string \<Rightarrow> string \<Rightarrow> semantics option" where
  "semantics_list_loop bits token [] =
     (if token = [] then Some bits
      else case parse_semantics_profile token of
        None \<Rightarrow> None | Some parsed \<Rightarrow> Some (bits OR parsed))"
| "semantics_list_loop bits token (c # rest) =
     (if c = CHR ''|'' then
        if token = [] then semantics_list_loop bits [] rest
        else (case parse_semantics_profile token of
            None \<Rightarrow> None | Some parsed \<Rightarrow> semantics_list_loop (bits OR parsed) [] rest)
      else semantics_list_loop bits (token @ [c]) rest)"

definition parse_semantics_list :: "string \<Rightarrow> semantics option" where
  "parse_semantics_list text = (if text = [] then None else semantics_list_loop 0 [] text)"

section \<open>Definitions\<close>

record source_descriptor =
  src_id :: source_id
  src_name :: name
  src_kind :: source_kind
  src_authority :: authority_class
  src_semantics :: semantics
  src_revision :: revision
  src_description :: string

record endpoint_def =
  ep_id :: endpoint_id
  ep_name :: name
  ep_role :: endpoint_role
  ep_revision :: revision

record link_def =
  link_id :: link_id
  link_name :: name
  link_from :: endpoint_id
  link_to :: endpoint_id
  link_revision :: revision

record queue_def =
  queue_id :: queue_id
  queue_name :: name
  queue_link :: link_id
  queue_semantics :: semantics
  queue_revision :: revision

record hop_def =
  hop_id :: hop_id
  hop_name :: name
  hop_kind :: hop_kind
  hop_link :: link_id
  hop_queue :: queue_id
  hop_revision :: revision

record generation_def =
  gen_id :: generation_id
  gen_name :: name
  gen_revision :: revision
  gen_supersedes :: generation_id
  gen_description :: string

record path_def =
  path_id :: path_id
  path_name :: name
  path_generation :: generation_id
  path_revision :: revision
  path_hops :: "hop_id list"

definition has_queue :: "hop_def \<Rightarrow> bool" where "has_queue h \<longleftrightarrow> valid_id (hop_queue h)"

section \<open>The catalog\<close>

record catalog =
  cat_limits :: limits
  cat_sources :: "(source_id, source_descriptor) omap"
  cat_endpoints :: "(endpoint_id, endpoint_def) omap"
  cat_links :: "(link_id, link_def) omap"
  cat_queues :: "(queue_id, queue_def) omap"
  cat_hops :: "(hop_id, hop_def) omap"
  cat_generations :: "(generation_id, generation_def) omap"
  cat_paths :: "(path_id, path_def) omap"
  cat_generation_names :: "(string, generation_id) omap"
  cat_path_names :: "(string, path_id) omap"
  cat_source_names :: "(string, source_id) omap"

definition empty_catalog :: "limits \<Rightarrow> catalog" where
  "empty_catalog l =
     \<lparr>cat_limits = l, cat_sources = [], cat_endpoints = [], cat_links = [], cat_queues = [],
      cat_hops = [], cat_generations = [], cat_paths = [], cat_generation_names = [],
      cat_path_names = [], cat_source_names = []\<rparr>"

text \<open>
  The member template \<^verbatim>\<open>upsert\<close>; \<open>name_of\<close> and \<open>revision_of\<close> are the members it reads of a value.
\<close>

definition upsert ::
  "('v \<Rightarrow> name) \<Rightarrow> ('v \<Rightarrow> revision) \<Rightarrow> 'k::linorder \<Rightarrow> 'v \<Rightarrow> name \<Rightarrow> nat \<Rightarrow> string
     \<Rightarrow> ('k, 'v) omap \<Rightarrow> ('k, 'v) omap result" where
  "upsert name_of revision_of k v nm limit what table =
     (case om_find table k of
        None \<Rightarrow>
          if length table \<ge> limit then fail CapacityExceeded (what @ '' registry is at capacity'') nm
          else Inr (om_set k v table)
      | Some existing \<Rightarrow>
          if name_of existing \<noteq> nm
          then fail Conflict (what @ '' identity collides with a different name'') nm
          else if existing = v then Inr table
          else if revision_of v \<le> revision_of existing
          then fail Conflict (what @
            '' is already defined with different content at the same or a newer revision'') nm
          else Inr (om_set k v table))"

definition index_name ::
  "name \<Rightarrow> 'tag strong_id \<Rightarrow> string \<Rightarrow> (string, 'tag strong_id) omap
     \<Rightarrow> (string, 'tag strong_id) omap result" where
  "index_name nm i message table =
     (case om_find table nm of
        Some j \<Rightarrow> if j \<noteq> i then fail Conflict message nm else Inr (om_set nm i table)
      | None \<Rightarrow> Inr (om_set nm i table))"

definition define_source :: "source_descriptor \<Rightarrow> catalog \<Rightarrow> source_id result \<times> catalog" where
  "define_source d cat =
     (let nm = src_name d; i = derive_from nm
      in case first_guard
            [(valid_id (src_id d) \<and> src_id d \<noteq> i, Conflict, ''source id does not match its canonical name''),
             (\<not> revision_valid (src_revision d), InvalidArgument, ''source revision must be at least 1'')] nm of
          Some e \<Rightarrow> (Inl e, cat)
        | None \<Rightarrow>
            (case upsert src_name src_revision i (d\<lparr>src_id := i\<rparr>) nm
                    (max_sources (cat_limits cat)) ''source'' (cat_sources cat) of
               Inl e \<Rightarrow> (Inl e, cat)
             | Inr table \<Rightarrow> 
                 let cat = cat\<lparr>cat_sources := table\<rparr>
                 in (case index_name nm i ''source name maps to a different identity''
                           (cat_source_names cat) of
                       Inl e \<Rightarrow> (Inl e, cat)
                     | Inr indexed \<Rightarrow> (Inr i, cat\<lparr>cat_source_names := indexed\<rparr>))))"

definition define_endpoint :: "endpoint_def \<Rightarrow> catalog \<Rightarrow> endpoint_id result \<times> catalog" where
  "define_endpoint d cat =
     (let nm = ep_name d; i = derive_from nm
      in case first_guard
            [(\<not> revision_valid (ep_revision d), InvalidArgument, ''endpoint revision must be at least 1'')] nm of
          Some e \<Rightarrow> (Inl e, cat)
        | None \<Rightarrow>
            (case upsert ep_name ep_revision i (d\<lparr>ep_id := i\<rparr>) nm
                    (max_endpoints (cat_limits cat)) ''endpoint'' (cat_endpoints cat) of
               Inl e \<Rightarrow> (Inl e, cat)
             | Inr table \<Rightarrow> (Inr i, cat\<lparr>cat_endpoints := table\<rparr>)))"

definition define_link :: "link_def \<Rightarrow> catalog \<Rightarrow> link_id result \<times> catalog" where
  "define_link d cat =
     (let nm = link_name d; i = derive_from nm
      in case first_guard
            [(\<not> revision_valid (link_revision d), InvalidArgument, ''link revision must be at least 1''),
             (valid_id (link_from d) \<and> om_find (cat_endpoints cat) (link_from d) = None, NotFound, ''link references an unknown source endpoint''),
             (valid_id (link_to d) \<and> om_find (cat_endpoints cat) (link_to d) = None, NotFound, ''link references an unknown destination endpoint'')] nm of
          Some e \<Rightarrow> (Inl e, cat)
        | None \<Rightarrow>
            (case upsert link_name link_revision i (d\<lparr>link_id := i\<rparr>) nm
                    (max_links (cat_limits cat)) ''link'' (cat_links cat) of
               Inl e \<Rightarrow> (Inl e, cat)
             | Inr table \<Rightarrow> (Inr i, cat\<lparr>cat_links := table\<rparr>)))"

definition define_queue :: "queue_def \<Rightarrow> catalog \<Rightarrow> queue_id result \<times> catalog" where
  "define_queue d cat =
     (let nm = queue_name d; i = derive_from nm
      in case first_guard
            [(\<not> revision_valid (queue_revision d), InvalidArgument, ''queue revision must be at least 1''),
             (valid_id (queue_link d) \<and> om_find (cat_links cat) (queue_link d) = None, NotFound, ''queue references an unknown link'')] nm of
          Some e \<Rightarrow> (Inl e, cat)
        | None \<Rightarrow>
            (case upsert queue_name queue_revision i (d\<lparr>queue_id := i\<rparr>) nm
                    (max_queues (cat_limits cat)) ''queue'' (cat_queues cat) of
               Inl e \<Rightarrow> (Inl e, cat)
             | Inr table \<Rightarrow> (Inr i, cat\<lparr>cat_queues := table\<rparr>)))"

definition define_hop :: "hop_def \<Rightarrow> catalog \<Rightarrow> hop_id result \<times> catalog" where
  "define_hop d cat =
     (let nm = hop_name d; i = derive_from nm
      in case first_guard
            [(\<not> revision_valid (hop_revision d), InvalidArgument, ''hop revision must be at least 1''),
             (valid_id (hop_link d) \<and> om_find (cat_links cat) (hop_link d) = None, NotFound, ''hop references an unknown link''),
             (valid_id (hop_queue d) \<and> om_find (cat_queues cat) (hop_queue d) = None, NotFound, ''hop references an unknown queue'')] nm of
          Some e \<Rightarrow> (Inl e, cat)
        | None \<Rightarrow>
            (case upsert hop_name hop_revision i (d\<lparr>hop_id := i\<rparr>) nm
                    (max_hops_per_path (cat_limits cat) * 64) ''hop'' (cat_hops cat) of
               Inl e \<Rightarrow> (Inl e, cat)
             | Inr table \<Rightarrow> (Inr i, cat\<lparr>cat_hops := table\<rparr>)))"

definition define_generation :: "generation_def \<Rightarrow> catalog \<Rightarrow> generation_id result \<times> catalog" where
  "define_generation d cat =
     (let nm = gen_name d; i = derive_from nm
      in case first_guard
            [(\<not> revision_valid (gen_revision d), InvalidArgument, ''generation revision must be at least 1''),
             (valid_id (gen_supersedes d) \<and> om_find (cat_generations cat) (gen_supersedes d) = None, NotFound, ''generation supersedes an unknown generation''),
             (gen_supersedes d = i, InvalidArgument, ''a generation cannot supersede itself'')] nm of
          Some e \<Rightarrow> (Inl e, cat)
        | None \<Rightarrow>
            (case upsert gen_name gen_revision i (d\<lparr>gen_id := i\<rparr>) nm
                    (max_generations (cat_limits cat)) ''generation'' (cat_generations cat) of
               Inl e \<Rightarrow> (Inl e, cat)
             | Inr table \<Rightarrow> 
                 let cat = cat\<lparr>cat_generations := table\<rparr>
                 in (case index_name nm i ''generation name maps to a different identity''
                           (cat_generation_names cat) of
                       Inl e \<Rightarrow> (Inl e, cat)
                     | Inr indexed \<Rightarrow> (Inr i, cat\<lparr>cat_generation_names := indexed\<rparr>))))"

definition define_path :: "path_def \<Rightarrow> catalog \<Rightarrow> path_id result \<times> catalog" where
  "define_path d cat =
     (let nm = path_name d; i = derive_from nm
      in case first_guard
            [(\<not> revision_valid (path_revision d), InvalidArgument, ''path revision must be at least 1''),
             (\<not> valid_id (path_generation d) \<or> om_find (cat_generations cat) (path_generation d) = None, NotFound, ''path references an unknown generation''),
             (path_hops d = [], InvalidArgument, ''path must define at least one hop''),
             (length (path_hops d) > max_hops_per_path (cat_limits cat), OutOfRange, ''path exceeds the hop limit''),
             (list_ex (\<lambda>h. om_find (cat_hops cat) h = None) (path_hops d), NotFound, ''path references an unknown hop'')] nm of
          Some e \<Rightarrow> (Inl e, cat)
        | None \<Rightarrow>
            (case upsert path_name path_revision i (d\<lparr>path_id := i\<rparr>) nm
                    (max_paths (cat_limits cat)) ''path'' (cat_paths cat) of
               Inl e \<Rightarrow> (Inl e, cat)
             | Inr table \<Rightarrow> 
                 let cat = cat\<lparr>cat_paths := table\<rparr>
                 in (case index_name nm i ''path name maps to a different identity''
                           (cat_path_names cat) of
                       Inl e \<Rightarrow> (Inl e, cat)
                     | Inr indexed \<Rightarrow> (Inr i, cat\<lparr>cat_path_names := indexed\<rparr>))))"

section \<open>Lookups\<close>

definition lookup_def :: "string \<Rightarrow> ('tag strong_id, 'v) omap \<Rightarrow> 'tag strong_id \<Rightarrow> 'v result" where
  "lookup_def message table i =
     (case om_find table i of None \<Rightarrow> fail NotFound message (id_to_hex i) | Some v \<Rightarrow> Inr v)"

definition cat_source :: "catalog \<Rightarrow> source_id \<Rightarrow> source_descriptor result" where
  "cat_source cat i = lookup_def ''unknown source'' (cat_sources cat) i"

definition cat_endpoint :: "catalog \<Rightarrow> endpoint_id \<Rightarrow> endpoint_def result" where
  "cat_endpoint cat i = lookup_def ''unknown endpoint'' (cat_endpoints cat) i"

definition cat_link :: "catalog \<Rightarrow> link_id \<Rightarrow> link_def result" where
  "cat_link cat i = lookup_def ''unknown link'' (cat_links cat) i"

definition cat_queue :: "catalog \<Rightarrow> queue_id \<Rightarrow> queue_def result" where
  "cat_queue cat i = lookup_def ''unknown queue'' (cat_queues cat) i"

definition cat_hop :: "catalog \<Rightarrow> hop_id \<Rightarrow> hop_def result" where
  "cat_hop cat i = lookup_def ''unknown hop'' (cat_hops cat) i"

definition cat_generation :: "catalog \<Rightarrow> generation_id \<Rightarrow> generation_def result" where
  "cat_generation cat i = lookup_def ''unknown generation'' (cat_generations cat) i"

definition cat_path :: "catalog \<Rightarrow> path_id \<Rightarrow> path_def result" where
  "cat_path cat i = lookup_def ''unknown path'' (cat_paths cat) i"

definition path_by_name :: "catalog \<Rightarrow> string \<Rightarrow> path_def result" where
  "path_by_name cat nm =
     (case om_find (cat_path_names cat) nm of
        None \<Rightarrow> fail NotFound ''unknown path name'' nm | Some i \<Rightarrow> cat_path cat i)"

definition generation_by_name :: "catalog \<Rightarrow> string \<Rightarrow> generation_def result" where
  "generation_by_name cat nm =
     (case om_find (cat_generation_names cat) nm of
        None \<Rightarrow> fail NotFound ''unknown generation name'' nm | Some i \<Rightarrow> cat_generation cat i)"

definition source_by_name :: "catalog \<Rightarrow> string \<Rightarrow> source_descriptor result" where
  "source_by_name cat nm =
     (case om_find (cat_source_names cat) nm of
        None \<Rightarrow> fail NotFound ''unknown source name'' nm | Some i \<Rightarrow> cat_source cat i)"

definition is_superseded :: "catalog \<Rightarrow> generation_id \<Rightarrow> bool" where
  "is_superseded cat i \<longleftrightarrow> list_ex (\<lambda>entry. gen_supersedes (snd entry) = i) (cat_generations cat)"

definition current_generation :: "catalog \<Rightarrow> generation_id" where
  "current_generation cat =
     (let (tip, tips) = foldl (\<lambda>(tip, tips) entry.
            if is_superseded cat (fst entry) then (tip, tips) else (fst entry, tips + 1))
          (no_id, 0 :: nat) (cat_generations cat)
      in if tips \<noteq> 1 then no_id else tip)"

definition list_sources :: "catalog \<Rightarrow> source_descriptor list" where
  "list_sources cat = map snd (cat_sources cat)"

definition list_generations :: "catalog \<Rightarrow> generation_def list" where
  "list_generations cat = map snd (cat_generations cat)"

definition list_paths :: "catalog \<Rightarrow> path_def list" where
  "list_paths cat = map snd (cat_paths cat)"

section \<open>Names of the vocabulary\<close>

interpretation source_kind_names: named_enum kSourceKinds "''unknown''"
proof unfold_locales
  show "e \<in> fst ` set kSourceKinds" for e by (cases e) (simp_all add: kSourceKinds_def)
qed (simp_all add: kSourceKinds_def)

interpretation authority_names: named_enum kAuthorityClasses "''unknown''"
proof unfold_locales
  show "e \<in> fst ` set kAuthorityClasses" for e by (cases e) (simp_all add: kAuthorityClasses_def)
qed (simp_all add: kAuthorityClasses_def)

interpretation hop_kind_names: named_enum kHopKinds "''unknown''"
proof unfold_locales
  show "e \<in> fst ` set kHopKinds" for e by (cases e) (simp_all add: kHopKinds_def)
qed (simp_all add: kHopKinds_def)

interpretation endpoint_role_names: named_enum kEndpointRoles "''unknown''"
proof unfold_locales
  show "e \<in> fst ` set kEndpointRoles" for e by (cases e) (simp_all add: kEndpointRoles_def)
qed (simp_all add: kEndpointRoles_def)

interpretation semantics_entry_names: name_table kSemantics "''unknown''"
  by unfold_locales (simp_all add: kSemantics_def)

section \<open>Versioned tables\<close>

text \<open>
  What a client of a definition table relies on: a successful write is read back, other keys are
  untouched, nothing disappears, and content only changes towards a greater revision.
\<close>

locale versioned_table =
  fixes find :: "'t \<Rightarrow> 'k \<Rightarrow> 'v option"
    and put :: "'k \<Rightarrow> 'v \<Rightarrow> 't \<Rightarrow> 't result"
    and revision_of :: "'v \<Rightarrow> revision"
    and inv :: "'t \<Rightarrow> bool"
  assumes put_find: "inv t \<Longrightarrow> put k v t = Inr t' \<Longrightarrow> find t' j = (if j = k then Some v else find t j)"
    and put_newer: "inv t \<Longrightarrow> put k v t = Inr t' \<Longrightarrow> find t k = Some w \<Longrightarrow> w = v \<or> revision_of w < revision_of v"
    and put_inv: "inv t \<Longrightarrow> put k v t = Inr t' \<Longrightarrow> inv t'"
begin

text \<open>A sequence of writes of which the failing ones are skipped.\<close>

fun put_all :: "('k \<times> 'v) list \<Rightarrow> 't \<Rightarrow> 't" where
  "put_all [] t = t"
| "put_all ((k, v) # rest) t = (case put k v t of Inl _ \<Rightarrow> put_all rest t | Inr t' \<Rightarrow> put_all rest t')"

lemma put_grows: "inv t \<Longrightarrow> put k v t = Inr t' \<Longrightarrow> find t j = Some w \<Longrightarrow>
    \<exists>u. find t' j = Some u \<and> (u = w \<or> revision_of w < revision_of u)"
  using put_find put_newer by (metis option.inject)

lemma put_all_grows:
  assumes "inv t" and "find t j = Some w"
  shows "inv (put_all kvs t) \<and> (\<exists>u. find (put_all kvs t) j = Some u \<and> (u = w \<or> revision_of w < revision_of u))"
  using assms
proof (induction kvs t arbitrary: w rule: put_all.induct)
  case (1 t)
  then show ?case by simp
next
  case (2 k v rest t)
  show ?case
  proof (cases "put k v t")
    case (Inl e)
    with 2 show ?thesis by simp
  next
    case (Inr t')
    from put_grows [OF 2(3) Inr 2(4)] obtain u
      where u: "find t' j = Some u" "u = w \<or> revision_of w < revision_of u" by blast
    from 2(2) [OF Inr put_inv [OF 2(3) Inr] u(1)] u(2) Inr show ?thesis by force
  qed
qed

end

lemma upsert_success:
  assumes "om_inv t" and "upsert nf rf k v nm limit what t = Inr t'"
  shows "om_find t' j = (if j = k then Some v else om_find t j)" and "om_inv t'"
    and "length t' \<le> max (length t) limit"
    and "om_find t k = Some w \<Longrightarrow> nf w = nm \<and> (w = v \<or> rf w < rf v)"
  using assms om.size_assign_new [OF assms(1), of k v] om.size_assign_old [OF assms(1), of k _ v]
  by (auto simp: upsert_def ordered_map_laws split: option.splits if_splits)

interpretation upsert_table: versioned_table om_find
  "\<lambda>k v. upsert name_of revision_of k v (name_of v) limit what" revision_of om_inv
  for name_of :: "'v \<Rightarrow> name" and revision_of limit what
proof unfold_locales
  fix t t' :: "('k::linorder, 'v) omap" and k j v w
  assume t: "om_inv t" "upsert name_of revision_of k v (name_of v) limit what t = Inr t'"
  show "om_find t' j = (if j = k then Some v else om_find t j)" by (rule upsert_success(1) [OF t])
  show "om_inv t'" by (rule upsert_success(2) [OF t])
  assume "om_find t k = Some w"
  then show "w = v \<or> revision_of w < revision_of v" using upsert_success(4) [OF t] by blast
qed

section \<open>The invariant of the catalog\<close>

definition known :: "('k, 'v) omap \<Rightarrow> 'k \<Rightarrow> bool" where "known t i \<longleftrightarrow> om_find t i \<noteq> None"

definition opt_known :: "('tag strong_id, 'v) omap \<Rightarrow> 'tag strong_id \<Rightarrow> bool" where
  "opt_known t i \<longleftrightarrow> (valid_id i \<longrightarrow> known t i)"

definition table_ok ::
  "('v \<Rightarrow> 'tag strong_id) \<Rightarrow> ('v \<Rightarrow> name) \<Rightarrow> ('v \<Rightarrow> revision) \<Rightarrow> nat \<Rightarrow> ('tag strong_id, 'v) omap \<Rightarrow> bool"
  where "table_ok id_of name_of revision_of limit t \<longleftrightarrow>
     om_inv t \<and> length t \<le> limit \<and>
     (\<forall>(k, v) \<in> set t. id_of v = k \<and> k = derive_from (name_of v) \<and> revision_valid (revision_of v))"

definition names_ok ::
  "('v \<Rightarrow> name) \<Rightarrow> (string, 'tag strong_id) omap \<Rightarrow> ('tag strong_id, 'v) omap \<Rightarrow> bool" where
  "names_ok name_of names t \<longleftrightarrow> om_inv names \<and>
     (\<forall>(n, i) \<in> set names. i = derive_from n \<and> known t i) \<and>
     (\<forall>(k, v) \<in> set t. om_find names (name_of v) = Some k)"

definition tables_ok :: "catalog \<Rightarrow> bool" where
  "tables_ok cat \<longleftrightarrow>
     table_ok src_id src_name src_revision (max_sources (cat_limits cat)) (cat_sources cat) \<and>
     table_ok ep_id ep_name ep_revision (max_endpoints (cat_limits cat)) (cat_endpoints cat) \<and>
     table_ok link_id link_name link_revision (max_links (cat_limits cat)) (cat_links cat) \<and>
     table_ok queue_id queue_name queue_revision (max_queues (cat_limits cat)) (cat_queues cat) \<and>
     table_ok hop_id hop_name hop_revision (max_hops_per_path (cat_limits cat) * 64) (cat_hops cat) \<and>
     table_ok gen_id gen_name gen_revision (max_generations (cat_limits cat)) (cat_generations cat) \<and>
     table_ok path_id path_name path_revision (max_paths (cat_limits cat)) (cat_paths cat)"

definition refs_ok :: "catalog \<Rightarrow> bool" where
  "refs_ok cat \<longleftrightarrow>
     (\<forall>(k, d) \<in> set (cat_links cat).
        opt_known (cat_endpoints cat) (link_from d) \<and> opt_known (cat_endpoints cat) (link_to d)) \<and>
     (\<forall>(k, d) \<in> set (cat_queues cat). opt_known (cat_links cat) (queue_link d)) \<and>
     (\<forall>(k, d) \<in> set (cat_hops cat).
        opt_known (cat_links cat) (hop_link d) \<and> opt_known (cat_queues cat) (hop_queue d)) \<and>
     (\<forall>(k, d) \<in> set (cat_generations cat).
        opt_known (cat_generations cat) (gen_supersedes d) \<and> gen_supersedes d \<noteq> k) \<and>
     (\<forall>(k, d) \<in> set (cat_paths cat).
        known (cat_generations cat) (path_generation d) \<and> path_hops d \<noteq> [] \<and>
        length (path_hops d) \<le> max_hops_per_path (cat_limits cat) \<and>
        (\<forall>h \<in> set (path_hops d). known (cat_hops cat) h))"

definition index_ok :: "catalog \<Rightarrow> bool" where
  "index_ok cat \<longleftrightarrow>
     names_ok src_name (cat_source_names cat) (cat_sources cat) \<and>
     names_ok gen_name (cat_generation_names cat) (cat_generations cat) \<and>
     names_ok path_name (cat_path_names cat) (cat_paths cat)"

definition catalog_inv :: "catalog \<Rightarrow> bool" where
  "catalog_inv cat \<longleftrightarrow> tables_ok cat \<and> refs_ok cat \<and> index_ok cat"

lemma upsert_table_ok:
  assumes t: "table_ok id_of nf rf limit t"
    and up: "upsert nf rf (derive_from nm) v nm limit what t = Inr t'"
    and v: "nf v = nm" "id_of v = derive_from nm" "revision_valid (rf v)"
  shows "table_ok id_of nf rf limit t'" and "\<And>j. known t j \<Longrightarrow> known t' j"
    and "known t' (derive_from nm)"
    and "\<And>e. e \<in> set t' \<Longrightarrow> e = (derive_from nm, v) \<or> e \<in> set t"
proof -
  have inv: "om_inv t" using t by (simp add: table_ok_def)
  note s = upsert_success [OF inv up]
  show k: "\<And>j. known t j \<Longrightarrow> known t' j" and "known t' (derive_from nm)"
    using s(1) by (auto simp: known_def)
  show e: "e = (derive_from nm, v) \<or> e \<in> set t" if "e \<in> set t'" for e
  proof (cases e)
    case (Pair j w)
    then have "om_find t' j = Some w" using that om.find_entries [OF s(2)] by blast
    then show ?thesis using Pair s(1) [of j] om.find_entries [OF inv] by (auto split: if_splits)
  qed
  then show "table_ok id_of nf rf limit t'"
    using t v s(2,3) by (force simp: table_ok_def)
qed

lemma index_name_ok:
  assumes n: "names_ok nf names t" and inv: "om_inv t'"
    and k: "\<And>j. known t j \<Longrightarrow> known t' j" "known t' (derive_from nm)"
    and e: "\<And>e. e \<in> set t' \<Longrightarrow> e = (derive_from nm, v) \<or> e \<in> set t" "nf v = nm"
  shows "index_name nm (derive_from nm) msg names = Inr (om_set nm (derive_from nm) names)"
    and "names_ok nf (om_set nm (derive_from nm) names) t'"
proof -
  have ninv: "om_inv names" using n by (simp add: names_ok_def)
  have old: "om_find names nm = Some i \<Longrightarrow> i = derive_from nm" for i
    using n om.find_entries [OF ninv] by (fastforce simp: names_ok_def)
  then show "index_name nm (derive_from nm) msg names = Inr (om_set nm (derive_from nm) names)"
    by (auto simp: index_name_def split: option.splits)
  show "names_ok nf (om_set nm (derive_from nm) names) t'"
    unfolding names_ok_def
  proof (intro conjI)
    show "om_inv (om_set nm (derive_from nm) names)" using ninv by (rule om_inv_set)
    show "\<forall>(m, i) \<in> set (om_set nm (derive_from nm) names). i = derive_from m \<and> known t' i"
      using n k om.entries_assign [OF ninv] by (fastforce simp: names_ok_def)
    show "\<forall>(j, w) \<in> set t'. om_find (om_set nm (derive_from nm) names) (nf w) = Some j"
    proof clarify
      fix j w assume m: "(j, w) \<in> set t'"
      show "om_find (om_set nm (derive_from nm) names) (nf w) = Some j"
      proof (cases "(j, w) = (derive_from nm, v)")
        case True
        then show ?thesis using e(2) ninv by (simp add: om_find_set)
      next
        case False
        then have "om_find names (nf w) = Some j" using e(1) [OF m] n by (auto simp: names_ok_def)
        then show ?thesis using old ninv by (auto simp: om_find_set)
      qed
    qed
  qed
qed

lemma define_source_inv: "catalog_inv cat \<Longrightarrow> catalog_inv (snd (define_source d cat))"
proof -
  assume inv: "catalog_inv cat"
  let ?i = "derive_from (src_name d)" and ?d = "d\<lparr>src_id := derive_from (src_name d)\<rparr>"
  show ?thesis
  proof (cases "snd (define_source d cat) = cat")
    case True with inv show ?thesis by simp
  next
    case False
    then obtain table where up: "upsert src_name src_revision ?i ?d (src_name d)
        (max_sources (cat_limits cat)) ''source'' (cat_sources cat) = Inr table"
      by (simp add: define_source_def Let_def split: option.splits sum.splits)
    from False have g: "revision_valid (src_revision d)"
      by (simp_all add: define_source_def Let_def first_guard_None split: option.splits)
    have t: "table_ok src_id src_name src_revision (max_sources (cat_limits cat)) (cat_sources cat)"
      using inv by (simp add: catalog_inv_def tables_ok_def)
    note u = upsert_table_ok [OF t up, simplified, OF g(1)]
    have n: "names_ok src_name (cat_source_names cat) (cat_sources cat)"
      using inv by (simp add: catalog_inv_def index_ok_def)
    have "om_inv table" using u(1) by (simp add: table_ok_def)
    note x = index_name_ok [OF n this u(2) u(3) u(4), simplified]
    let ?cat = "cat\<lparr>cat_sources := table,
      cat_source_names := om_set (src_name d) ?i (cat_source_names cat)\<rparr>"
    have cat: "snd (define_source d cat) = ?cat"
      using False up by (simp add: define_source_def Let_def x(1) split: option.splits)
    show ?thesis unfolding cat catalog_inv_def
    proof (intro conjI)
      show "tables_ok ?cat" using inv u(1) by (simp add: catalog_inv_def tables_ok_def)
      show "refs_ok ?cat"
        using inv u(2) by (auto simp: catalog_inv_def refs_ok_def opt_known_def dest!: u(4))
      show "index_ok ?cat" using inv x(2) by (simp add: catalog_inv_def index_ok_def)
    qed
  qed
qed

lemma define_endpoint_inv: "catalog_inv cat \<Longrightarrow> catalog_inv (snd (define_endpoint d cat))"
proof -
  assume inv: "catalog_inv cat"
  let ?i = "derive_from (ep_name d)" and ?d = "d\<lparr>ep_id := derive_from (ep_name d)\<rparr>"
  show ?thesis
  proof (cases "snd (define_endpoint d cat) = cat")
    case True with inv show ?thesis by simp
  next
    case False
    then obtain table where up: "upsert ep_name ep_revision ?i ?d (ep_name d)
        (max_endpoints (cat_limits cat)) ''endpoint'' (cat_endpoints cat) = Inr table"
      by (simp add: define_endpoint_def Let_def split: option.splits sum.splits)
    from False have g: "revision_valid (ep_revision d)"
      by (simp_all add: define_endpoint_def Let_def first_guard_None split: option.splits)
    have t: "table_ok ep_id ep_name ep_revision (max_endpoints (cat_limits cat)) (cat_endpoints cat)"
      using inv by (simp add: catalog_inv_def tables_ok_def)
    note u = upsert_table_ok [OF t up, simplified, OF g(1)]
    let ?cat = "cat\<lparr>cat_endpoints := table\<rparr>"
    have cat: "snd (define_endpoint d cat) = ?cat"
      using False up by (simp add: define_endpoint_def Let_def  split: option.splits)
    show ?thesis unfolding cat catalog_inv_def
    proof (intro conjI)
      show "tables_ok ?cat" using inv u(1) by (simp add: catalog_inv_def tables_ok_def)
      show "refs_ok ?cat"
        using inv u(2) by (auto simp: catalog_inv_def refs_ok_def opt_known_def dest!: u(4))
      show "index_ok ?cat" using inv by (simp add: catalog_inv_def index_ok_def)
    qed
  qed
qed

lemma define_link_inv: "catalog_inv cat \<Longrightarrow> catalog_inv (snd (define_link d cat))"
proof -
  assume inv: "catalog_inv cat"
  let ?i = "derive_from (link_name d)" and ?d = "d\<lparr>link_id := derive_from (link_name d)\<rparr>"
  show ?thesis
  proof (cases "snd (define_link d cat) = cat")
    case True with inv show ?thesis by simp
  next
    case False
    then obtain table where up: "upsert link_name link_revision ?i ?d (link_name d)
        (max_links (cat_limits cat)) ''link'' (cat_links cat) = Inr table"
      by (simp add: define_link_def Let_def split: option.splits sum.splits)
    from False have g: "revision_valid (link_revision d)" "valid_id (link_from d) \<longrightarrow> om_find (cat_endpoints cat) (link_from d) \<noteq> None"
        "valid_id (link_to d) \<longrightarrow> om_find (cat_endpoints cat) (link_to d) \<noteq> None"
      by (simp_all add: define_link_def Let_def first_guard_None split: option.splits)
    have ref: "opt_known (cat_endpoints cat) (link_from d)" "opt_known (cat_endpoints cat) (link_to d)"
      using g by (auto simp: opt_known_def known_def list_ex_iff)
    have t: "table_ok link_id link_name link_revision (max_links (cat_limits cat)) (cat_links cat)"
      using inv by (simp add: catalog_inv_def tables_ok_def)
    note u = upsert_table_ok [OF t up, simplified, OF g(1)]
    let ?cat = "cat\<lparr>cat_links := table\<rparr>"
    have cat: "snd (define_link d cat) = ?cat"
      using False up by (simp add: define_link_def Let_def  split: option.splits)
    show ?thesis unfolding cat catalog_inv_def
    proof (intro conjI)
      show "tables_ok ?cat" using inv u(1) by (simp add: catalog_inv_def tables_ok_def)
      show "refs_ok ?cat"
        using inv u(2) ref by (auto simp: catalog_inv_def refs_ok_def opt_known_def dest!: u(4))
      show "index_ok ?cat" using inv by (simp add: catalog_inv_def index_ok_def)
    qed
  qed
qed

lemma define_queue_inv: "catalog_inv cat \<Longrightarrow> catalog_inv (snd (define_queue d cat))"
proof -
  assume inv: "catalog_inv cat"
  let ?i = "derive_from (queue_name d)" and ?d = "d\<lparr>queue_id := derive_from (queue_name d)\<rparr>"
  show ?thesis
  proof (cases "snd (define_queue d cat) = cat")
    case True with inv show ?thesis by simp
  next
    case False
    then obtain table where up: "upsert queue_name queue_revision ?i ?d (queue_name d)
        (max_queues (cat_limits cat)) ''queue'' (cat_queues cat) = Inr table"
      by (simp add: define_queue_def Let_def split: option.splits sum.splits)
    from False have g: "revision_valid (queue_revision d)" "valid_id (queue_link d) \<longrightarrow> om_find (cat_links cat) (queue_link d) \<noteq> None"
      by (simp_all add: define_queue_def Let_def first_guard_None split: option.splits)
    have ref: "opt_known (cat_links cat) (queue_link d)"
      using g by (auto simp: opt_known_def known_def list_ex_iff)
    have t: "table_ok queue_id queue_name queue_revision (max_queues (cat_limits cat)) (cat_queues cat)"
      using inv by (simp add: catalog_inv_def tables_ok_def)
    note u = upsert_table_ok [OF t up, simplified, OF g(1)]
    let ?cat = "cat\<lparr>cat_queues := table\<rparr>"
    have cat: "snd (define_queue d cat) = ?cat"
      using False up by (simp add: define_queue_def Let_def  split: option.splits)
    show ?thesis unfolding cat catalog_inv_def
    proof (intro conjI)
      show "tables_ok ?cat" using inv u(1) by (simp add: catalog_inv_def tables_ok_def)
      show "refs_ok ?cat"
        using inv u(2) ref by (auto simp: catalog_inv_def refs_ok_def opt_known_def dest!: u(4))
      show "index_ok ?cat" using inv by (simp add: catalog_inv_def index_ok_def)
    qed
  qed
qed

lemma define_hop_inv: "catalog_inv cat \<Longrightarrow> catalog_inv (snd (define_hop d cat))"
proof -
  assume inv: "catalog_inv cat"
  let ?i = "derive_from (hop_name d)" and ?d = "d\<lparr>hop_id := derive_from (hop_name d)\<rparr>"
  show ?thesis
  proof (cases "snd (define_hop d cat) = cat")
    case True with inv show ?thesis by simp
  next
    case False
    then obtain table where up: "upsert hop_name hop_revision ?i ?d (hop_name d)
        (max_hops_per_path (cat_limits cat) * 64) ''hop'' (cat_hops cat) = Inr table"
      by (simp add: define_hop_def Let_def split: option.splits sum.splits)
    from False have g: "revision_valid (hop_revision d)" "valid_id (hop_link d) \<longrightarrow> om_find (cat_links cat) (hop_link d) \<noteq> None"
        "valid_id (hop_queue d) \<longrightarrow> om_find (cat_queues cat) (hop_queue d) \<noteq> None"
      by (simp_all add: define_hop_def Let_def first_guard_None split: option.splits)
    have ref: "opt_known (cat_links cat) (hop_link d)" "opt_known (cat_queues cat) (hop_queue d)"
      using g by (auto simp: opt_known_def known_def list_ex_iff)
    have t: "table_ok hop_id hop_name hop_revision (max_hops_per_path (cat_limits cat) * 64) (cat_hops cat)"
      using inv by (simp add: catalog_inv_def tables_ok_def)
    note u = upsert_table_ok [OF t up, simplified, OF g(1)]
    let ?cat = "cat\<lparr>cat_hops := table\<rparr>"
    have cat: "snd (define_hop d cat) = ?cat"
      using False up by (simp add: define_hop_def Let_def  split: option.splits)
    show ?thesis unfolding cat catalog_inv_def
    proof (intro conjI)
      show "tables_ok ?cat" using inv u(1) by (simp add: catalog_inv_def tables_ok_def)
      show "refs_ok ?cat"
        using inv u(2) ref by (auto simp: catalog_inv_def refs_ok_def opt_known_def dest!: u(4))
      show "index_ok ?cat" using inv by (simp add: catalog_inv_def index_ok_def)
    qed
  qed
qed

lemma define_generation_inv: "catalog_inv cat \<Longrightarrow> catalog_inv (snd (define_generation d cat))"
proof -
  assume inv: "catalog_inv cat"
  let ?i = "derive_from (gen_name d)" and ?d = "d\<lparr>gen_id := derive_from (gen_name d)\<rparr>"
  show ?thesis
  proof (cases "snd (define_generation d cat) = cat")
    case True with inv show ?thesis by simp
  next
    case False
    then obtain table where up: "upsert gen_name gen_revision ?i ?d (gen_name d)
        (max_generations (cat_limits cat)) ''generation'' (cat_generations cat) = Inr table"
      by (simp add: define_generation_def Let_def split: option.splits sum.splits)
    from False have g: "revision_valid (gen_revision d)" "valid_id (gen_supersedes d) \<longrightarrow> om_find (cat_generations cat) (gen_supersedes d) \<noteq> None"
        "gen_supersedes d \<noteq> ?i"
      by (simp_all add: define_generation_def Let_def first_guard_None split: option.splits)
    have ref: "opt_known (cat_generations cat) (gen_supersedes d)" "gen_supersedes d \<noteq> ?i"
      using g by (auto simp: opt_known_def known_def list_ex_iff)
    have t: "table_ok gen_id gen_name gen_revision (max_generations (cat_limits cat)) (cat_generations cat)"
      using inv by (simp add: catalog_inv_def tables_ok_def)
    note u = upsert_table_ok [OF t up, simplified, OF g(1)]
    have n: "names_ok gen_name (cat_generation_names cat) (cat_generations cat)"
      using inv by (simp add: catalog_inv_def index_ok_def)
    have "om_inv table" using u(1) by (simp add: table_ok_def)
    note x = index_name_ok [OF n this u(2) u(3) u(4), simplified]
    let ?cat = "cat\<lparr>cat_generations := table,
      cat_generation_names := om_set (gen_name d) ?i (cat_generation_names cat)\<rparr>"
    have cat: "snd (define_generation d cat) = ?cat"
      using False up by (simp add: define_generation_def Let_def x(1) split: option.splits)
    show ?thesis unfolding cat catalog_inv_def
    proof (intro conjI)
      show "tables_ok ?cat" using inv u(1) by (simp add: catalog_inv_def tables_ok_def)
      show "refs_ok ?cat"
        using inv u(2) ref by (auto simp: catalog_inv_def refs_ok_def opt_known_def dest!: u(4))
      show "index_ok ?cat" using inv x(2) by (simp add: catalog_inv_def index_ok_def)
    qed
  qed
qed

lemma define_path_inv: "catalog_inv cat \<Longrightarrow> catalog_inv (snd (define_path d cat))"
proof -
  assume inv: "catalog_inv cat"
  let ?i = "derive_from (path_name d)" and ?d = "d\<lparr>path_id := derive_from (path_name d)\<rparr>"
  show ?thesis
  proof (cases "snd (define_path d cat) = cat")
    case True with inv show ?thesis by simp
  next
    case False
    then obtain table where up: "upsert path_name path_revision ?i ?d (path_name d)
        (max_paths (cat_limits cat)) ''path'' (cat_paths cat) = Inr table"
      by (simp add: define_path_def Let_def split: option.splits sum.splits)
    from False have g: "revision_valid (path_revision d)" "om_find (cat_generations cat) (path_generation d) \<noteq> None"
        "path_hops d \<noteq> []" "length (path_hops d) \<le> max_hops_per_path (cat_limits cat)"
        "\<not> list_ex (\<lambda>h. om_find (cat_hops cat) h = None) (path_hops d)"
      by (simp_all add: define_path_def Let_def first_guard_None split: option.splits)
    have ref: "known (cat_generations cat) (path_generation d)" "path_hops d \<noteq> []"
        "length (path_hops d) \<le> max_hops_per_path (cat_limits cat)"
        "\<forall>h \<in> set (path_hops d). known (cat_hops cat) h"
      using g by (auto simp: opt_known_def known_def list_ex_iff)
    have t: "table_ok path_id path_name path_revision (max_paths (cat_limits cat)) (cat_paths cat)"
      using inv by (simp add: catalog_inv_def tables_ok_def)
    note u = upsert_table_ok [OF t up, simplified, OF g(1)]
    have n: "names_ok path_name (cat_path_names cat) (cat_paths cat)"
      using inv by (simp add: catalog_inv_def index_ok_def)
    have "om_inv table" using u(1) by (simp add: table_ok_def)
    note x = index_name_ok [OF n this u(2) u(3) u(4), simplified]
    let ?cat = "cat\<lparr>cat_paths := table,
      cat_path_names := om_set (path_name d) ?i (cat_path_names cat)\<rparr>"
    have cat: "snd (define_path d cat) = ?cat"
      using False up by (simp add: define_path_def Let_def x(1) split: option.splits)
    show ?thesis unfolding cat catalog_inv_def
    proof (intro conjI)
      show "tables_ok ?cat" using inv u(1) by (simp add: catalog_inv_def tables_ok_def)
      show "refs_ok ?cat"
        using inv u(2) ref by (auto simp: catalog_inv_def refs_ok_def opt_known_def dest!: u(4))
      show "index_ok ?cat" using inv x(2) by (simp add: catalog_inv_def index_ok_def)
    qed
  qed
qed

section \<open>Reachable catalogs\<close>

inductive catalog_step :: "catalog \<Rightarrow> catalog \<Rightarrow> bool" where
  step_source: "catalog_step cat (snd (define_source s cat))"
| step_endpoint: "catalog_step cat (snd (define_endpoint e cat))"
| step_link: "catalog_step cat (snd (define_link l cat))"
| step_queue: "catalog_step cat (snd (define_queue q cat))"
| step_hop: "catalog_step cat (snd (define_hop h cat))"
| step_generation: "catalog_step cat (snd (define_generation g cat))"
| step_path: "catalog_step cat (snd (define_path p cat))"

inductive catalog_reach :: "limits \<Rightarrow> catalog \<Rightarrow> bool" for l where
  reach_empty: "catalog_reach l (empty_catalog l)"
| reach_step: "catalog_reach l cat \<Longrightarrow> catalog_step cat cat' \<Longrightarrow> catalog_reach l cat'"

lemmas define_invs = define_source_inv define_endpoint_inv define_link_inv define_queue_inv
  define_hop_inv define_generation_inv define_path_inv

lemma catalog_step_inv: "catalog_step cat cat' \<Longrightarrow> catalog_inv cat \<Longrightarrow> catalog_inv cat'"
  by (induction rule: catalog_step.induct) (auto intro: define_invs)

lemma empty_catalog_inv: "catalog_inv (empty_catalog l)"
  by (simp add: catalog_inv_def tables_ok_def refs_ok_def index_ok_def empty_catalog_def table_ok_def
      names_ok_def)

lemma catalog_reach_inv: "catalog_reach l cat \<Longrightarrow> catalog_inv cat"
  by (induction rule: catalog_reach.induct) (auto intro: catalog_step_inv empty_catalog_inv)

text \<open>C10: Every catalog a sequence of definitions can produce, failed ones included, is well formed:
  identities are derived from the names they are registered under, revisions are at least one, no
  table exceeds its limit, every reference of a link, queue, hop, generation or path names a
  definition that exists, paths have between one and the maximal number of hops, and the name
  indices agree with the tables.\<close>
theorem catalog_reach_wellformed:
  "catalog_reach l cat \<Longrightarrow> tables_ok cat \<and> refs_ok cat \<and> index_ok cat"
  using catalog_reach_inv by (simp add: catalog_inv_def)

definition sample_generation :: generation_def where
  "sample_generation = \<lparr>gen_id = no_id, gen_name = ''g1'', gen_revision = 1, gen_supersedes = no_id,
     gen_description = []\<rparr>"

theorem catalog_reach_wellformed_witness:
  "tables_ok (snd (define_generation sample_generation (empty_catalog default_limits))) \<and>
   length (cat_generations (snd (define_generation sample_generation (empty_catalog default_limits)))) = 1"
proof -
  have "catalog_reach default_limits (snd (define_generation sample_generation (empty_catalog default_limits)))"
    by (rule reach_step [OF reach_empty step_generation])
  from catalog_reach_wellformed [OF this] show ?thesis
    by (simp add: define_generation_def sample_generation_def empty_catalog_def first_guard.simps
        revision_valid_def upsert_def index_name_def default_limits_def no_id_def valid_id_def
        derive_from_def Let_def)
qed

section \<open>What a definition leaves behind\<close>

lemma define_path_success:
  assumes inv: "catalog_inv cat" and ok: "define_path d cat = (Inr i, cat')"
  shows "i = derive_from (path_name d)"
    and "om_find (cat_paths cat') j = (if j = i then Some (d\<lparr>path_id := i\<rparr>) else om_find (cat_paths cat) j)"
    and "om_find (cat_path_names cat') (path_name d) = Some i"
    and "om_find (cat_paths cat) i = Some w \<Longrightarrow>
      path_name w = path_name d \<and> (w = d\<lparr>path_id := i\<rparr> \<or> path_revision w < path_revision d)"
proof -
  let ?up = "upsert path_name path_revision (derive_from (path_name d))
    (d\<lparr>path_id := derive_from (path_name d)\<rparr>) (path_name d) (max_paths (cat_limits cat)) ''path''
    (cat_paths cat)"
  obtain table names where up: "?up = Inr table" and i: "i = derive_from (path_name d)"
    and names: "index_name (path_name d) i ''path name maps to a different identity''
      (cat_path_names cat) = Inr names"
    and cat': "cat' = cat\<lparr>cat_paths := table, cat_path_names := names\<rparr>"
    using ok by (simp add: define_path_def Let_def split: option.splits sum.splits)
  have t: "om_inv (cat_paths cat)" "om_inv (cat_path_names cat)"
    using inv by (simp_all add: catalog_inv_def tables_ok_def table_ok_def index_ok_def names_ok_def)
  note u = upsert_success [OF t(1) up]
  show "i = derive_from (path_name d)" by (rule i)
  show "om_find (cat_paths cat') j = (if j = i then Some (d\<lparr>path_id := i\<rparr>) else om_find (cat_paths cat) j)"
    using u(1) by (simp add: cat' i)
  show "om_find (cat_path_names cat') (path_name d) = Some i"
    using names t(2) by (auto simp: cat' index_name_def om_find_set split: option.splits if_splits)
  show "om_find (cat_paths cat) i = Some w \<Longrightarrow>
      path_name w = path_name d \<and> (w = d\<lparr>path_id := i\<rparr> \<or> path_revision w < path_revision d)"
    using u(4) [of w] by (simp add: i)
qed

lemma lookup_Inr: "lookup_def m t i = Inr v \<longleftrightarrow> om_find t i = Some v"
  by (simp add: lookup_def_def split: option.splits)

text \<open>A successful path definition is read back: in a well formed catalog the lookup by identity
  and the lookup by name both return the definition, every other path is untouched, and existing
  content is only replaced by content of a strictly greater revision under the same name.\<close>
lemma path_definition_read_back:
  "catalog_inv cat \<Longrightarrow> define_path d cat = (Inr i, cat') \<Longrightarrow>
     cat_path cat' i = Inr (d\<lparr>path_id := i\<rparr>) \<and> path_by_name cat' (path_name d) = Inr (d\<lparr>path_id := i\<rparr>) \<and>
     (\<forall>j. j \<noteq> i \<longrightarrow> cat_path cat' j = cat_path cat j) \<and>
     (\<forall>w. cat_path cat i = Inr w \<longrightarrow>
        path_name w = path_name d \<and> (w = d\<lparr>path_id := i\<rparr> \<or> path_revision w < path_revision d))"
proof (intro conjI allI impI)
  assume inv: "catalog_inv cat" and ok: "define_path d cat = (Inr i, cat')"
  note s = define_path_success [OF inv ok]
  show "cat_path cat' i = Inr (d\<lparr>path_id := i\<rparr>)" by (simp add: cat_path_def lookup_Inr s(2))
  then show "path_by_name cat' (path_name d) = Inr (d\<lparr>path_id := i\<rparr>)"
    by (simp add: path_by_name_def s(3))
  show "cat_path cat' j = cat_path cat j" if "j \<noteq> i" for j
    using that by (simp add: cat_path_def lookup_def_def s(2))
  show "path_name w = path_name d" and "w = d\<lparr>path_id := i\<rparr> \<or> path_revision w < path_revision d"
    if "cat_path cat i = Inr w" for w
    using that s(4) by (simp_all add: cat_path_def lookup_Inr)
qed

definition sample_hop :: hop_def where
  "sample_hop = \<lparr>hop_id = no_id, hop_name = ''h1'', hop_kind = Application, hop_link = no_id,
     hop_queue = no_id, hop_revision = 1\<rparr>"

definition sample_path :: path_def where
  "sample_path = \<lparr>path_id = no_id, path_name = ''p1'', path_generation = derive_from ''g1'',
     path_revision = 1, path_hops = [derive_from ''h1'']\<rparr>"

definition sample_catalog :: catalog where
  "sample_catalog = snd (define_hop sample_hop
     (snd (define_generation sample_generation (empty_catalog default_limits))))"

lemma sample_catalog_fields:
  "cat_limits sample_catalog = default_limits"
  "cat_generations sample_catalog
     = [(derive_from ''g1'', sample_generation\<lparr>gen_id := derive_from ''g1''\<rparr>)]"
  "cat_hops sample_catalog = [(derive_from ''h1'', sample_hop\<lparr>hop_id := derive_from ''h1''\<rparr>)]"
  "cat_paths sample_catalog = []" "cat_path_names sample_catalog = []"
proof -
  have g: "define_generation sample_generation (empty_catalog default_limits) =
      (Inr (derive_from ''g1''), (empty_catalog default_limits)\<lparr>
         cat_generations := [(derive_from ''g1'', sample_generation\<lparr>gen_id := derive_from ''g1''\<rparr>)],
         cat_generation_names := [(''g1'', derive_from ''g1'')]\<rparr>)"
    by (simp add: define_generation_def Let_def first_guard.simps upsert_def index_name_def
        empty_catalog_def default_limits_def sample_generation_def revision_valid_def)
      (metis derive_from_valid no_id_invalid)
  have h: "define_hop sample_hop cat = (Inr (derive_from ''h1''),
      cat\<lparr>cat_hops := [(derive_from ''h1'', sample_hop\<lparr>hop_id := derive_from ''h1''\<rparr>)]\<rparr>)"
    if "cat_hops cat = []" "cat_limits cat = default_limits" for cat
    using that by (simp add: define_hop_def Let_def first_guard.simps upsert_def default_limits_def
        sample_hop_def revision_valid_def)
  show "cat_limits sample_catalog = default_limits"
    "cat_generations sample_catalog
       = [(derive_from ''g1'', sample_generation\<lparr>gen_id := derive_from ''g1''\<rparr>)]"
    "cat_hops sample_catalog = [(derive_from ''h1'', sample_hop\<lparr>hop_id := derive_from ''h1''\<rparr>)]"
    "cat_paths sample_catalog = []" "cat_path_names sample_catalog = []"
    unfolding sample_catalog_def g by (simp_all add: h empty_catalog_def)
qed

lemma sample_catalog_inv: "catalog_inv sample_catalog"
  unfolding sample_catalog_def by (intro define_hop_inv define_generation_inv empty_catalog_inv)

lemma path_definition_read_back_example:
  "cat_path (snd (define_path sample_path sample_catalog)) (derive_from ''p1'')
     = Inr (sample_path\<lparr>path_id := derive_from ''p1''\<rparr>)"
proof -
  have "fst (define_path sample_path sample_catalog) = Inr (derive_from ''p1'')"
    by (simp add: define_path_def Let_def first_guard.simps upsert_def index_name_def
        sample_catalog_fields sample_path_def revision_valid_def)
      (simp add: default_limits_def)
  then have "define_path sample_path sample_catalog
      = (Inr (derive_from ''p1''), snd (define_path sample_path sample_catalog))"
    by (metis prod.collapse)
  from path_definition_read_back [OF sample_catalog_inv this] show ?thesis by simp
qed

section \<open>The current generation\<close>

lemma tip_fold:
  "foldl (\<lambda>(tip, tips) entry. if P (fst entry) then (tip, tips) else (fst entry, tips + 1)) (t, n) xs
     = (let open_keys = map fst (filter (\<lambda>e. \<not> P (fst e)) xs)
        in (if open_keys = [] then t else last open_keys, n + length open_keys))"
  for n :: nat
  by (induction xs arbitrary: t n) (auto simp: Let_def)

definition open_generations :: "catalog \<Rightarrow> generation_id list" where
  "open_generations cat = map fst (filter (\<lambda>e. \<not> is_superseded cat (fst e)) (cat_generations cat))"

lemma current_generation_eq:
  "current_generation cat = (if length (open_generations cat) = 1 then hd (open_generations cat) else no_id)"
  by (cases "open_generations cat" rule: rev_cases)
    (auto simp: current_generation_def tip_fold open_generations_def Let_def)

lemma set_open_generations:
  "catalog_inv cat \<Longrightarrow> set (open_generations cat) = {g. known (cat_generations cat) g \<and> \<not> is_superseded cat g}"
  "catalog_inv cat \<Longrightarrow> distinct (open_generations cat)"
proof -
  assume inv: "catalog_inv cat"
  then have o: "om_inv (cat_generations cat)" by (simp add: catalog_inv_def tables_ok_def table_ok_def)
  have "fst ` set (cat_generations cat) = {g. known (cat_generations cat) g}"
    using om.dom_entries [OF o] by (auto simp: known_def dom_def)
  then show "set (open_generations cat) = {g. known (cat_generations cat) g \<and> \<not> is_superseded cat g}"
    by (auto simp: open_generations_def)
  show "distinct (open_generations cat)"
    using om_inv_distinct [OF o] by (simp add: open_generations_def distinct_map_filter)
qed

text \<open>The current generation is the one tip of the lineage: in a well formed catalog
  \<^verbatim>\<open>current_generation\<close> returns a valid identity exactly when one defined generation is superseded by
  no other, and then it returns that one; an ambiguous or empty lineage gives no identity.\<close>
lemma current_generation_unique_tip:
  "catalog_inv cat \<Longrightarrow>
     (valid_id (current_generation cat) \<longleftrightarrow>
        (\<exists>!g. known (cat_generations cat) g \<and> \<not> is_superseded cat g)) \<and>
     (valid_id (current_generation cat) \<longrightarrow>
        known (cat_generations cat) (current_generation cat) \<and>
        \<not> is_superseded cat (current_generation cat))"
proof -
  assume inv: "catalog_inv cat"
  let ?open = "open_generations cat"
  note s = set_open_generations [OF inv]
  have derived: "valid_id g" if "g \<in> set ?open" for g
  proof -
    have "known (cat_generations cat) g" using that s(1) by auto
    then obtain d where "(g, d) \<in> set (cat_generations cat)"
      by (auto simp: known_def dest: map_of_SomeD)
    then have "g = derive_from (gen_name d)"
      using inv by (auto simp: catalog_inv_def tables_ok_def table_ok_def)
    then show ?thesis by simp
  qed
  have "(\<exists>!g. g \<in> set ?open) \<longleftrightarrow> length ?open = 1"
  proof
    assume "\<exists>!g. g \<in> set ?open"
    then have "card (set ?open) = 1" by (auto simp: card_1_singleton_iff)
    then show "length ?open = 1" using s(2) by (simp add: distinct_card)
  next
    assume "length ?open = 1"
    then show "\<exists>!g. g \<in> set ?open" by (auto simp: length_Suc_conv)
  qed
  moreover have "length ?open = 1 \<Longrightarrow> hd ?open \<in> set ?open" by (cases ?open) auto
  ultimately show ?thesis using s(1) derived by (auto simp: current_generation_eq)
qed

lemma current_generation_unique_tip_example:
  "catalog_inv sample_catalog \<and> known (cat_generations sample_catalog) (current_generation sample_catalog)"
proof -
  have "\<not> is_superseded sample_catalog (derive_from ''g1'')"
    by (simp add: is_superseded_def sample_catalog_fields sample_generation_def)
      (metis derive_from_valid no_id_invalid)
  then have "current_generation sample_catalog = derive_from ''g1''"
    by (simp add: current_generation_eq open_generations_def sample_catalog_fields)
  then have "valid_id (current_generation sample_catalog)" by simp
  then show ?thesis using current_generation_unique_tip [OF sample_catalog_inv] sample_catalog_inv by simp
qed

section \<open>Text of the semantics mask\<close>

lemma bit_flag: "m AND 2 ^ k = (if bit m k then 2 ^ k else 0)" for m :: u8
  by (rule bit_word_eqI) (auto simp: bit_and_iff bit_exp_iff)

lemma flags: "m AND 1 = (if bit m 0 then 1 else 0)" "m AND 2 = (if bit m 1 then 2 else 0)"
  "m AND 4 = (if bit m 2 then 4 else 0)" for m :: u8
  using bit_flag [of m 0] bit_flag [of m 1] bit_flag [of m 2] by simp_all

lemma low_flags: "m AND 7 = (m AND 1) OR (m AND 2) OR (m AND 4)" for m :: u8
proof -
  have "(7 :: u8) = 1 OR 2 OR 4" by simp
  then show ?thesis by (simp only: bit.conj_disj_distrib or.assoc)
qed

lemma parse_semantics_texts:
  "parse_semantics_list ''unknown'' = Some 0"
  "parse_semantics_list ''end_to_end_request_response'' = Some 1"
  "parse_semantics_list ''hop_dwell'' = Some 2"
  "parse_semantics_list ''queue_dwell'' = Some 4"
  "parse_semantics_list ''end_to_end_request_response|hop_dwell'' = Some 3"
  "parse_semantics_list ''end_to_end_request_response|queue_dwell'' = Some 5"
  "parse_semantics_list ''hop_dwell|queue_dwell'' = Some 6"
  "parse_semantics_list ''end_to_end_request_response|hop_dwell|queue_dwell'' = Some 7"
  by code_simp+

text \<open>The text of a semantics mask is lossless on the declared semantics: parsing the rendering
  of any mask returns its three declared bits, and bits without a name are dropped.\<close>
lemma semantics_text_roundtrip:
  "parse_semantics_list (semantics_to_string m) = Some (m AND 7)"
proof -
  have "semantics_to_string m = (let out = semantics_names m [] kSemantics in if out = [] then ''unknown'' else out)"
    by (simp add: semantics_to_string_def kSemantics_def)
  then show ?thesis
    by (cases "bit m 0"; cases "bit m 1"; cases "bit m 2")
      (simp_all add: kSemantics_def low_flags flags parse_semantics_texts)
qed

end
