(* ===== verification/Model_Clock.thy ===== *)
theory Model_Clock
  imports Model_Entities
begin

text \<open>
  \<^verbatim>\<open>model/clock.hpp\<close> and \<^verbatim>\<open>model/clock.cpp\<close>: clock domains, synchronisation reports and the decision
  whether readings of two domains may be compared. \<^verbatim>\<open>compare\<close> and \<^verbatim>\<open>compare_single\<close> return a
  \<^verbatim>\<open>Result\<close> that never holds an error, so their models return the comparability itself. Sums and
  differences of 64 bit readings that the source leaves unchecked go through \<open>wrap_i64\<close>.
\<close>

section \<open>Vocabulary and records\<close>

datatype clock_sync_state = UnknownSync | Unsynced | Synchronized | Holdover

definition kClockSyncStates :: "(clock_sync_state \<times> string) list" where
  "kClockSyncStates =
    [(UnknownSync, ''unknown''), (Unsynced, ''unsynced''), (Synchronized, ''synchronized''),
     (Holdover, ''holdover'')]"

definition sync_state_to_string :: "clock_sync_state \<Rightarrow> string" where
  "sync_state_to_string s = enum_name kClockSyncStates ''unknown'' s"

definition parse_clock_sync_state :: "string \<Rightarrow> clock_sync_state option" where
  "parse_clock_sync_state text = enum_parse kClockSyncStates text"

interpretation sync_state_names: named_enum kClockSyncStates "''unknown''"
proof unfold_locales
  show "e \<in> fst ` set kClockSyncStates" for e by (cases e) (simp_all add: kClockSyncStates_def)
qed (simp_all add: kClockSyncStates_def)

record clock_domain_def =
  dom_id :: clock_domain_id
  dom_name :: name
  dom_is_reference :: bool
  dom_description :: string

record clock_sync =
  sync_domain :: clock_domain_id
  sync_reference :: clock_domain_id
  sync_state :: clock_sync_state
  sync_offset_ns :: nanos
  sync_skew_ppb :: nanos
  sync_uncertainty_ns :: nanos
  sync_valid_for_ns :: nanos
  sync_observed_at :: timestamp
  sync_reported_by :: source_id
  sync_generation :: generation_id
  sync_epoch :: epoch_id
  sync_incarnation :: incarnation_id
  sync_revision :: revision

definition sync_age_ns :: "clock_sync \<Rightarrow> timestamp \<Rightarrow> nanos" where
  "sync_age_ns s now = wrap_i64 (ts_ns now - ts_ns (sync_observed_at s))"

record clock_comparability =
  cc_comparable :: bool
  cc_uncertainty_ns :: nanos
  cc_offset_first_ns :: nanos
  cc_offset_second_ns :: nanos
  cc_confidence :: confidence
  cc_evidence :: evidence

definition default_comparability :: clock_comparability where
  "default_comparability =
     \<lparr>cc_comparable = False, cc_uncertainty_ns = 0, cc_offset_first_ns = 0, cc_offset_second_ns = 0,
      cc_confidence = NoConfidence, cc_evidence = default_evidence\<rparr>"

definition incomparable :: "evidence_state \<Rightarrow> reason_code \<Rightarrow> string \<Rightarrow> clock_comparability" where
  "incomparable st code detail =
     default_comparability\<lparr>cc_evidence :=
       add_reason IncomparableClocks [] (add_reason code detail (default_evidence\<lparr>ev_state := st\<rparr>))\<rparr>"

section \<open>The registry\<close>

record clock_registry =
  reg_policy :: runtime_policy
  reg_domains :: "(clock_domain_id, clock_domain_def) omap"
  reg_syncs :: "(clock_domain_id, clock_sync) omap"

definition empty_registry :: "runtime_policy \<Rightarrow> clock_registry" where
  "empty_registry p = \<lparr>reg_policy = p, reg_domains = [], reg_syncs = []\<rparr>"

definition define_domain ::
  "clock_domain_def \<Rightarrow> clock_registry \<Rightarrow> clock_domain_id result \<times> clock_registry" where
  "define_domain definition reg =
     (let nm = dom_name definition; i = derive_from nm
      in if valid_id (dom_id definition) \<and> dom_id definition \<noteq> i
         then (fail Conflict ''clock domain id does not match its canonical name'' nm, reg)
         else
           let definition = definition\<lparr>dom_id := i\<rparr>
           in (case om_find (reg_domains reg) i of
                 None \<Rightarrow>
                   if length (reg_domains reg) \<ge> max_clock_domains (pol_limits (reg_policy reg))
                   then (fail CapacityExceeded ''clock domain registry is at capacity'' nm, reg)
                   else (Inr i, reg\<lparr>reg_domains := om_set i definition (reg_domains reg)\<rparr>)
               | Some found \<Rightarrow>
                   if found \<noteq> definition
                   then (fail Conflict ''clock domain is already defined with different content'' nm, reg)
                   else (Inr i, reg)))"

definition sync_guards :: "clock_registry \<Rightarrow> clock_sync \<Rightarrow> (bool \<times> error) list" where
  "sync_guards reg s =
     (let hex = id_to_hex (sync_domain s)
      in [(\<not> valid_id (sync_domain s), Error InvalidArgument ''clock sync requires a domain'' []),
          (om_find (reg_domains reg) (sync_domain s) = None,
            Error NotFound ''clock sync references an unknown domain'' hex),
          (valid_id (sync_reference s) \<and> om_find (reg_domains reg) (sync_reference s) = None,
            Error NotFound ''clock sync references an unknown reference domain''
              (id_to_hex (sync_reference s))),
          (sync_reference s = sync_domain s,
            Error InvalidArgument ''a clock domain cannot be its own reference'' hex),
          (sync_uncertainty_ns s < 0,
            Error InvalidArgument ''clock sync uncertainty must not be negative'' hex),
          (sync_valid_for_ns s \<le> 0,
            Error InvalidArgument ''clock sync validity window must be positive'' hex)])"

definition record_sync :: "clock_sync \<Rightarrow> clock_registry \<Rightarrow> status \<times> clock_registry" where
  "record_sync s reg =
     (case first_match (sync_guards reg s) of
         Some e \<Rightarrow> (Inl e, reg)
       | None \<Rightarrow>
           let hex = id_to_hex (sync_domain s);
               stored = reg\<lparr>reg_syncs := om_set (sync_domain s) s (reg_syncs reg)\<rparr>
           in (case om_find (reg_syncs reg) (sync_domain s) of
                 None \<Rightarrow> (ok_status, stored)
               | Some found \<Rightarrow>
                   if sync_revision s < sync_revision found
                   then (fail Conflict
                           ''clock sync revision is older than the recorded revision'' hex, reg)
                   else if sync_revision s = sync_revision found then
                     (if s = found then (ok_status, reg)
                      else if ts_ns (sync_observed_at s) \<le> ts_ns (sync_observed_at found)
                      then (fail Conflict
                        ''clock sync observation time moved backwards at the same revision'' hex, reg)
                      else (fail Conflict
                        ''clock sync content changed without a revision bump'' hex, reg))
                   else (ok_status, stored)))"

definition reg_domain :: "clock_registry \<Rightarrow> clock_domain_id \<Rightarrow> clock_domain_def option" where
  "reg_domain reg i = om_find (reg_domains reg) i"

definition reg_sync :: "clock_registry \<Rightarrow> clock_domain_id \<Rightarrow> clock_sync option" where
  "reg_sync reg i = om_find (reg_syncs reg) i"

definition list_domains :: "clock_registry \<Rightarrow> clock_domain_def list" where
  "list_domains reg = map snd (reg_domains reg)"

definition list_syncs :: "clock_registry \<Rightarrow> clock_sync list" where
  "list_syncs reg = map snd (reg_syncs reg)"

section \<open>Comparability\<close>

text \<open>The early returns of \<^verbatim>\<open>compare_single\<close> once a report exists, and its result when none applies.\<close>

definition sync_refusals ::
  "comparability_policy \<Rightarrow> clock_sync \<Rightarrow> timestamp \<Rightarrow> generation_id \<Rightarrow> epoch_id \<Rightarrow> incarnation_id
     \<Rightarrow> (bool \<times> evidence_state \<times> reason_code) list" where
  "sync_refusals p report now generation epoch incarnation =
     (let age = sync_age_ns report now
      in [(sync_state report = UnknownSync \<or> sync_state report = Unsynced,
            RefusedState, ClockUnsynced),
          (sync_state report = Holdover \<and> \<not> allow_holdover p, RefusedState, ClockHoldover),
          (require_generation_match p \<and> valid_id (sync_generation report) \<and> valid_id generation \<and>
             sync_generation report \<noteq> generation, Conflicting, ClockSyncGenerationMismatch),
          (require_epoch_match p \<and> valid_id (sync_epoch report) \<and> valid_id epoch \<and>
             sync_epoch report \<noteq> epoch, Conflicting, ClockSyncEpochMismatch),
          (require_incarnation_match p \<and> valid_id (sync_incarnation report) \<and>
             valid_id incarnation \<and> sync_incarnation report \<noteq> incarnation,
            Conflicting, ClockSyncIncarnationMismatch),
          (\<not> ts_valid (sync_observed_at report), UnknownState, ClockOffsetUnavailable),
          (ts_domain (sync_observed_at report) \<noteq> ts_domain now, Conflicting, ClockReferenceMismatch),
          (age < 0, Conflicting, ClockOffsetUnavailable),
          (age > sync_valid_for_ns report, StaleState, ClockSyncExpired)])"

definition comparable_single :: "clock_sync \<Rightarrow> name \<Rightarrow> timestamp \<Rightarrow> clock_comparability" where
  "comparable_single report nm now =
     (let aging = (sync_age_ns report now > cdiv (sync_valid_for_ns report) 2);
          (c, ev) =
            (if sync_state report = Holdover
             then (Degraded, add_reason ClockHoldover nm default_evidence)
             else if aging then (Moderate, add_reason ClockSyncStale nm default_evidence)
             else (High, default_evidence))
      in default_comparability
           \<lparr>cc_comparable := True, cc_uncertainty_ns := sync_uncertainty_ns report, cc_confidence := c,
            cc_evidence := ev\<lparr>ev_state := Observed,
              ev_freshness := (if aging then Aging else Fresh), ev_confidence := c\<rparr>\<rparr>)"

definition compare_single ::
  "clock_registry \<Rightarrow> clock_domain_id \<Rightarrow> timestamp \<Rightarrow> generation_id \<Rightarrow> epoch_id \<Rightarrow> incarnation_id
     \<Rightarrow> clock_comparability" where
  "compare_single reg i now generation epoch incarnation =
     (case reg_domain reg i of
        None \<Rightarrow> incomparable UnknownState ClockDomainMissing (id_to_hex i)
      | Some definition \<Rightarrow>
         (case reg_sync reg i of
            None \<Rightarrow> incomparable UnknownState ClockOffsetUnavailable (dom_name definition)
          | Some report \<Rightarrow>
              (case first_match (sync_refusals (pol_comparability (reg_policy reg)) report now
                      generation epoch incarnation) of
                 Some (st, code) \<Rightarrow> incomparable st code (dom_name definition)
               | None \<Rightarrow> comparable_single report (dom_name definition) now)))"

definition uncertainty_exceeded :: "nanos \<Rightarrow> clock_comparability" where
  "uncertainty_exceeded u =
     (incomparable RefusedState ClockUncertaintyExceeded (show_int u))\<lparr>cc_uncertainty_ns := u\<rparr>"

definition compare_reference ::
  "clock_registry \<Rightarrow> clock_domain_id \<Rightarrow> clock_domain_id \<Rightarrow> timestamp \<Rightarrow> generation_id \<Rightarrow> epoch_id
     \<Rightarrow> incarnation_id \<Rightarrow> clock_comparability" where
  "compare_reference reg a b now generation epoch incarnation =
     (let reference = reference_clock_domain;
          remote = (if a = reference then b else a);
          single = compare_single reg remote now generation epoch incarnation
      in if \<not> cc_comparable single then single
         else case reg_sync reg remote of
             None \<Rightarrow> incomparable Conflicting ClockReferenceMismatch
               ''synchronization does not point at the local reference domain''
           | Some remote_sync \<Rightarrow>
               if sync_reference remote_sync \<noteq> reference
               then incomparable Conflicting ClockReferenceMismatch
                 ''synchronization does not point at the local reference domain''
               else if cc_uncertainty_ns single > max_uncertainty_ns (pol_comparability (reg_policy reg))
               then uncertainty_exceeded (cc_uncertainty_ns single)
               else default_comparability
                 \<lparr>cc_comparable := True, cc_uncertainty_ns := cc_uncertainty_ns single,
                  cc_offset_first_ns := (if a = reference then 0 else sync_offset_ns remote_sync),
                  cc_offset_second_ns := (if b = reference then 0 else sync_offset_ns remote_sync),
                  cc_confidence := cc_confidence single,
                  cc_evidence := add_reason ClockComparable [] (cc_evidence single)\<rparr>)"

text \<open>
  Two remote domains. The source dereferences both synchronisation records, which a comparable single
  result guarantees to exist; a missing record, a null dereference, is None.
\<close>

definition compare_pair ::
  "clock_registry \<Rightarrow> clock_domain_id \<Rightarrow> clock_domain_id \<Rightarrow> timestamp \<Rightarrow> generation_id \<Rightarrow> epoch_id
     \<Rightarrow> incarnation_id \<Rightarrow> clock_comparability option" where
  "compare_pair reg a b now generation epoch incarnation =
     (let left = compare_single reg a now generation epoch incarnation;
          right = compare_single reg b now generation epoch incarnation
      in if \<not> cc_comparable left then Some left
         else if \<not> cc_comparable right then Some right
         else case (reg_sync reg a, reg_sync reg b) of
             (Some left_sync, Some right_sync) \<Rightarrow> Some
               (if sync_reference left_sync \<noteq> sync_reference right_sync
                then incomparable Conflicting ClockReferenceMismatch
                  ''sync records do not share a reference domain''
                else if \<not> valid_id (sync_reference left_sync)
                then incomparable RefusedState ClockReferenceMismatch
                  ''sync records do not declare a reference domain''
                else
                  let combined = wrap_i64 (cc_uncertainty_ns left + cc_uncertainty_ns right)
                  in if combined < 0
                     then incomparable RefusedState ArithmeticOverflow
                       ''combined clock uncertainty overflowed''
                     else if combined > max_uncertainty_ns (pol_comparability (reg_policy reg))
                     then uncertainty_exceeded combined
                     else default_comparability
                       \<lparr>cc_comparable := True, cc_uncertainty_ns := combined,
                        cc_offset_first_ns := sync_offset_ns left_sync,
                        cc_offset_second_ns := sync_offset_ns right_sync,
                        cc_confidence :=
                          (if confidence_rank (cc_confidence left) > confidence_rank (cc_confidence right)
                           then cc_confidence left else cc_confidence right),
                        cc_evidence := add_reason ClockComparable []
                          (merge (cc_evidence left) (cc_evidence right))\<rparr>)
           | _ \<Rightarrow> None)"

definition compare ::
  "clock_registry \<Rightarrow> clock_domain_id \<Rightarrow> clock_domain_id \<Rightarrow> timestamp \<Rightarrow> generation_id \<Rightarrow> epoch_id
     \<Rightarrow> incarnation_id \<Rightarrow> clock_comparability option" where
  "compare reg a b now generation epoch incarnation =
     (if \<not> valid_id a \<or> \<not> valid_id b
      then Some (incomparable UnknownState ClockDomainMissing ''missing clock domain identity'')
      else if a = b then Some (default_comparability
        \<lparr>cc_comparable := True, cc_confidence := High,
         cc_evidence := add_reason ClockSelfComparable [] (default_evidence
           \<lparr>ev_state := Observed, ev_freshness := Fresh, ev_confidence := High\<rparr>)\<rparr>)
      else if a = reference_clock_domain \<or> b = reference_clock_domain
      then Some (compare_reference reg a b now generation epoch incarnation)
      else compare_pair reg a b now generation epoch incarnation)"

section \<open>Age estimates\<close>

record age_estimate =
  age_value :: "nanos option"
  age_evidence :: evidence

definition no_age :: "evidence \<Rightarrow> age_estimate" where
  "no_age ev = \<lparr>age_value = None, age_evidence = ev\<rparr>"

definition estimate_age :: "clock_registry \<Rightarrow> timestamp \<Rightarrow> timestamp \<Rightarrow> age_estimate" where
  "estimate_age reg observed_at now_reference =
     (let hex = id_to_hex (ts_domain observed_at)
      in if \<not> ts_valid observed_at \<or> \<not> ts_valid now_reference
         then no_age (unknown ClockDomainMissing ''missing clock domain identity'')
         else if ts_domain observed_at = ts_domain now_reference
         then \<lparr>age_value = Some (wrap_i64 (ts_ns now_reference - ts_ns observed_at)),
               age_evidence = add_reason ClockSelfComparable []
                 (default_evidence\<lparr>ev_state := Observed, ev_confidence := High\<rparr>)\<rparr>
         else case reg_sync reg (ts_domain observed_at) of
             None \<Rightarrow> no_age (unknown ClockOffsetUnavailable hex)
           | Some report \<Rightarrow>
               let report_age = sync_age_ns report now_reference
               in (case first_match
                   [(\<not> valid_id (sync_reference report), unknown ClockOffsetUnavailable hex),
                    (sync_reference report \<noteq> ts_domain now_reference,
                      conflicting ClockReferenceMismatch hex),
                    (sync_state report = UnknownSync \<or> sync_state report = Unsynced,
                      refused ClockUnsynced hex),
                    (report_age < 0 \<or> report_age > sync_valid_for_ns report,
                      stale ClockSyncExpired hex)] of
                   Some ev \<Rightarrow> no_age ev
                 | None \<Rightarrow>
                     let ev = add_reason ClockComparable hex (default_evidence
                           \<lparr>ev_state := Observed,
                            ev_confidence := (if sync_state report = Holdover then Degraded else Moderate),
                            ev_freshness :=
                              (if report_age > cdiv (sync_valid_for_ns report) 2 then Aging else Fresh)\<rparr>)
                     in \<lparr>age_value = Some (wrap_i64 (ts_ns now_reference -
                            wrap_i64 (ts_ns observed_at - sync_offset_ns report))),
                         age_evidence =
                           (if sync_state report = Holdover then add_reason ClockHoldover hex ev else ev)\<rparr>))"

section \<open>The registry invariant\<close>

definition sync_in_range :: "clock_sync \<Rightarrow> bool" where
  "sync_in_range s \<longleftrightarrow> in_i64 (sync_offset_ns s) \<and> in_i64 (sync_uncertainty_ns s) \<and>
     in_i64 (sync_valid_for_ns s) \<and> in_i64 (ts_ns (sync_observed_at s))"

definition sync_ok :: "clock_registry \<Rightarrow> clock_sync \<Rightarrow> bool" where
  "sync_ok reg s \<longleftrightarrow> sync_in_range s \<and> 0 \<le> sync_uncertainty_ns s \<and> 0 < sync_valid_for_ns s \<and>
     sync_reference s \<noteq> sync_domain s \<and> known (reg_domains reg) (sync_domain s) \<and>
     opt_known (reg_domains reg) (sync_reference s)"

definition registry_inv :: "clock_registry \<Rightarrow> bool" where
  "registry_inv reg \<longleftrightarrow> om_inv (reg_domains reg) \<and> om_inv (reg_syncs reg) \<and>
     length (reg_domains reg) \<le> max_clock_domains (pol_limits (reg_policy reg)) \<and>
     (\<forall>(k, d) \<in> set (reg_domains reg). dom_id d = k \<and> k = derive_from (dom_name d)) \<and>
     (\<forall>(k, s) \<in> set (reg_syncs reg). sync_domain s = k \<and> sync_ok reg s)"

inductive registry_step :: "clock_registry \<Rightarrow> clock_registry \<Rightarrow> bool" where
  step_domain: "registry_step reg (snd (define_domain d reg))"
| step_sync: "sync_in_range s \<Longrightarrow> registry_step reg (snd (record_sync s reg))"

inductive registry_reach :: "runtime_policy \<Rightarrow> clock_registry \<Rightarrow> bool" for p where
  reach_none: "registry_reach p (empty_registry p)"
| reach_next: "registry_reach p reg \<Longrightarrow> registry_step reg reg' \<Longrightarrow> registry_reach p reg'"

lemmas snd_distrib = if_distrib [of snd] option.case_distrib [of snd]
lemmas fst_distrib = if_distrib [of fst] option.case_distrib [of fst]

lemma define_domain_state:
  "snd (define_domain d reg) =
     (let i = derive_from (dom_name d)
      in if (valid_id (dom_id d) \<and> dom_id d \<noteq> i) \<or> om_find (reg_domains reg) i \<noteq> None \<or>
            length (reg_domains reg) \<ge> max_clock_domains (pol_limits (reg_policy reg))
         then reg else reg\<lparr>reg_domains := om_set i (d\<lparr>dom_id := i\<rparr>) (reg_domains reg)\<rparr>)"
  by (cases "om_find (reg_domains reg) (derive_from (dom_name d))")
    (simp_all add: define_domain_def Let_def snd_distrib)

lemma define_domain_cases:
  obtains "snd (define_domain d reg) = reg"
  | "om_find (reg_domains reg) (derive_from (dom_name d)) = None"
    and "length (reg_domains reg) < max_clock_domains (pol_limits (reg_policy reg))"
    and "snd (define_domain d reg) = reg\<lparr>reg_domains :=
      om_set (derive_from (dom_name d)) (d\<lparr>dom_id := derive_from (dom_name d)\<rparr>) (reg_domains reg)\<rparr>"
proof (cases "snd (define_domain d reg) = reg")
  case True
  then show thesis by (rule that(1))
next
  case False
  then show thesis
    by (intro that(2)) (auto simp: define_domain_state Let_def split: if_splits)
qed

lemma define_domain_inv: "registry_inv reg \<Longrightarrow> registry_inv (snd (define_domain d reg))"
proof (cases rule: define_domain_cases [of d reg])
  case 1
  then show "registry_inv reg \<Longrightarrow> ?thesis" by simp
next
  case 2
  assume inv: "registry_inv reg"
  let ?i = "derive_from (dom_name d)"
  let ?doms = "om_set ?i (d\<lparr>dom_id := ?i\<rparr>) (reg_domains reg)"
  have o: "om_inv (reg_domains reg)" using inv by (simp add: registry_inv_def)
  have grow: "known (reg_domains reg) k \<Longrightarrow> known ?doms k" for k
    by (simp add: known_def om_find_set [OF o])
  have ok: "sync_ok reg s \<Longrightarrow> sync_ok (reg\<lparr>reg_domains := ?doms\<rparr>) s" for s
    using grow by (simp add: sync_ok_def opt_known_def)
  have "set ?doms = insert (?i, d\<lparr>dom_id := ?i\<rparr>) {e \<in> set (reg_domains reg). fst e \<noteq> ?i}"
    by (rule om.entries_assign [OF o])
  moreover have "length ?doms = Suc (length (reg_domains reg))" by (rule om.size_assign_new [OF o 2(1)])
  ultimately show ?thesis
    using inv 2 ok by (auto simp: registry_inv_def om_inv_set)
qed

definition sync_acceptable :: "clock_registry \<Rightarrow> clock_sync \<Rightarrow> bool" where
  "sync_acceptable reg s \<longleftrightarrow> valid_id (sync_domain s) \<and>
     om_find (reg_domains reg) (sync_domain s) \<noteq> None \<and>
     (valid_id (sync_reference s) \<longrightarrow> om_find (reg_domains reg) (sync_reference s) \<noteq> None) \<and>
     sync_reference s \<noteq> sync_domain s \<and> 0 \<le> sync_uncertainty_ns s \<and> 0 < sync_valid_for_ns s"

lemma sync_guards_None: "first_match (sync_guards reg s) = None \<longleftrightarrow> sync_acceptable reg s"
  by (auto simp: sync_guards_def sync_acceptable_def first_match_None Let_def)

lemma record_sync_reject:
  assumes "\<not> sync_acceptable reg s" shows "\<exists>e. record_sync s reg = (Inl e, reg)"
proof -
  obtain e where "first_match (sync_guards reg s) = Some e"
    using assms sync_guards_None by blast
  then show ?thesis by (simp add: record_sync_def)
qed

lemma record_sync_accept:
  assumes "sync_acceptable reg s"
  shows "om_find (reg_syncs reg) (sync_domain s) = None \<Longrightarrow>
      record_sync s reg = (ok_status, reg\<lparr>reg_syncs := om_set (sync_domain s) s (reg_syncs reg)\<rparr>)"
    and "om_find (reg_syncs reg) (sync_domain s) = Some w \<Longrightarrow> sync_revision w < sync_revision s \<Longrightarrow>
      record_sync s reg = (ok_status, reg\<lparr>reg_syncs := om_set (sync_domain s) s (reg_syncs reg)\<rparr>)"
    and "om_find (reg_syncs reg) (sync_domain s) = Some s \<Longrightarrow> record_sync s reg = (ok_status, reg)"
    and "om_find (reg_syncs reg) (sync_domain s) = Some w \<Longrightarrow> \<not> sync_revision w < sync_revision s \<Longrightarrow>
      w \<noteq> s \<Longrightarrow> \<exists>e. record_sync s reg = (Inl e, reg) \<and> err_code e = Conflict"
proof -
  have none: "first_match (sync_guards reg s) = None" using assms by (simp add: sync_guards_None)
  note body = record_sync_def [of s reg, unfolded none option.case Let_def]
  show "om_find (reg_syncs reg) (sync_domain s) = None \<Longrightarrow>
      record_sync s reg = (ok_status, reg\<lparr>reg_syncs := om_set (sync_domain s) s (reg_syncs reg)\<rparr>)"
    by (simp add: body)
  show "om_find (reg_syncs reg) (sync_domain s) = Some w \<Longrightarrow> sync_revision w < sync_revision s \<Longrightarrow>
      record_sync s reg = (ok_status, reg\<lparr>reg_syncs := om_set (sync_domain s) s (reg_syncs reg)\<rparr>)"
    by (simp add: body less_imp_neq not_less less_imp_le)
  show "om_find (reg_syncs reg) (sync_domain s) = Some s \<Longrightarrow> record_sync s reg = (ok_status, reg)"
    by (simp add: body)
  show "om_find (reg_syncs reg) (sync_domain s) = Some w \<Longrightarrow> \<not> sync_revision w < sync_revision s \<Longrightarrow>
      w \<noteq> s \<Longrightarrow> \<exists>e. record_sync s reg = (Inl e, reg) \<and> err_code e = Conflict"
    by (simp add: body fail_def not_less)
qed

lemma record_sync_cases:
  obtains (same) "snd (record_sync s reg) = reg"
  | (stored) "sync_acceptable reg s"
      "\<And>w. om_find (reg_syncs reg) (sync_domain s) = Some w \<Longrightarrow> sync_revision w < sync_revision s"
      "record_sync s reg = (ok_status, reg\<lparr>reg_syncs := om_set (sync_domain s) s (reg_syncs reg)\<rparr>)"
proof (cases "sync_acceptable reg s")
  case False
  then show thesis using record_sync_reject same by fastforce
next
  case acc: True
  note a = record_sync_accept [OF acc]
  show thesis
  proof (cases "om_find (reg_syncs reg) (sync_domain s)")
    case None
    then show thesis using stored [OF acc] a(1) by simp
  next
    case (Some w)
    consider "sync_revision w < sync_revision s" | "w = s" | "\<not> sync_revision w < sync_revision s" "w \<noteq> s"
      by blast
    then show thesis
    proof cases
      case 1 then show thesis using stored [OF acc] a(2) [OF Some] Some by simp
    next
      case 2 then show thesis using same a(3) Some by simp
    next
      case 3 then show thesis using same a(4) [OF Some] by fastforce
    qed
  qed
qed

lemma record_sync_inv:
  assumes inv: "registry_inv reg" and range: "sync_in_range s"
  shows "registry_inv (snd (record_sync s reg))"
proof (cases rule: record_sync_cases [of s reg])
  case same
  then show ?thesis using inv by simp
next
  case stored
  have o: "om_inv (reg_syncs reg)" using inv by (simp add: registry_inv_def)
  have "sync_ok reg s"
    using stored(1) range by (simp add: sync_ok_def sync_acceptable_def known_def opt_known_def)
  then show ?thesis
    using inv om.entries_assign [OF o, of "sync_domain s" s]
    by (auto simp: stored registry_inv_def om_inv_set sync_ok_def)
qed

lemma registry_reach_inv: "registry_reach p reg \<Longrightarrow> registry_inv reg \<and> reg_policy reg = p"
proof (induction rule: registry_reach.induct)
  case reach_none
  show ?case by (simp add: registry_inv_def empty_registry_def)
next
  case (reach_next reg reg')
  from reach_next(2,3) show ?case
  proof (induction rule: registry_step.induct)
    case (step_domain reg d)
    then show ?case using define_domain_inv [of reg d]
      by (cases rule: define_domain_cases [of d reg]) auto
  next
    case (step_sync s reg)
    then show ?case using record_sync_inv [of reg s]
      by (cases rule: record_sync_cases [of s reg]) auto
  qed
qed

section \<open>When readings are comparable\<close>

text \<open>What one synchronisation report must satisfy, read off the policy and not the code's order.\<close>

definition sync_usable ::
  "clock_registry \<Rightarrow> timestamp \<Rightarrow> generation_id \<Rightarrow> epoch_id \<Rightarrow> incarnation_id \<Rightarrow> clock_sync \<Rightarrow> bool" where
  "sync_usable reg now g e n s \<longleftrightarrow>
     (let p = pol_comparability (reg_policy reg)
      in sync_state s \<in> {Synchronized, Holdover} \<and> (sync_state s = Holdover \<longrightarrow> allow_holdover p) \<and>
         (require_generation_match p \<and> valid_id (sync_generation s) \<and> valid_id g \<longrightarrow> sync_generation s = g) \<and>
         (require_epoch_match p \<and> valid_id (sync_epoch s) \<and> valid_id e \<longrightarrow> sync_epoch s = e) \<and>
         (require_incarnation_match p \<and> valid_id (sync_incarnation s) \<and> valid_id n \<longrightarrow>
            sync_incarnation s = n) \<and>
         ts_valid (sync_observed_at s) \<and> ts_domain (sync_observed_at s) = ts_domain now \<and>
         0 \<le> sync_age_ns s now \<and> sync_age_ns s now \<le> sync_valid_for_ns s)"

definition side_ok ::
  "clock_registry \<Rightarrow> timestamp \<Rightarrow> generation_id \<Rightarrow> epoch_id \<Rightarrow> incarnation_id \<Rightarrow> clock_domain_id
     \<Rightarrow> nanos \<Rightarrow> nanos \<Rightarrow> clock_domain_id \<Rightarrow> bool" where
  "side_ok reg now g e n i off u ref \<longleftrightarrow>
     (if i = reference_clock_domain then off = 0 \<and> u = 0 \<and> ref = reference_clock_domain
      else known (reg_domains reg) i \<and> (\<exists>s. reg_sync reg i = Some s \<and> sync_usable reg now g e n s \<and>
        off = sync_offset_ns s \<and> u = sync_uncertainty_ns s \<and> ref = sync_reference s))"

lemma sync_state_usable: "s \<noteq> UnknownSync \<and> s \<noteq> Unsynced \<longleftrightarrow> s \<in> {Synchronized, Holdover}"
  by (cases s) auto

lemma incomparable_not [simp]:
  "\<not> cc_comparable (incomparable st code detail)" "\<not> cc_comparable (uncertainty_exceeded u)"
  by (simp_all add: incomparable_def uncertainty_exceeded_def default_comparability_def)

lemma sync_refusals_None:
  "first_match (sync_refusals (pol_comparability (reg_policy reg)) s now g e n) = None
     \<longleftrightarrow> sync_usable reg now g e n s"
  by (cases "sync_state s")
    (simp_all add: first_match_None sync_refusals_def sync_usable_def Let_def not_less, blast+)

lemma comparable_single_fields:
  "cc_comparable (comparable_single s nm now)"
  "cc_uncertainty_ns (comparable_single s nm now) = sync_uncertainty_ns s"
  "usable (cc_evidence (comparable_single s nm now))"
  "ev_confidence (cc_evidence (comparable_single s nm now)) = cc_confidence (comparable_single s nm now)"
  by (simp_all add: comparable_single_def Let_def default_comparability_def usable_def)

lemma compare_single_spec:
  assumes "reg_domain reg i = Some d" and "reg_sync reg i = Some s"
  shows "cc_comparable (compare_single reg i now g e n) \<longleftrightarrow> sync_usable reg now g e n s"
    and "sync_usable reg now g e n s \<Longrightarrow>
      compare_single reg i now g e n = comparable_single s (dom_name d) now"
  using assms by (simp_all add: compare_single_def sync_refusals_None [symmetric]
      comparable_single_fields split: option.splits)

lemma compare_single_missing:
  "reg_domain reg i = None \<or> reg_sync reg i = None \<Longrightarrow> \<not> cc_comparable (compare_single reg i now g e n)"
  by (auto simp: compare_single_def Let_def split: option.splits)

lemma compare_single_comparable:
  "cc_comparable (compare_single reg i now g e n) \<longleftrightarrow>
     (\<exists>d s. reg_domain reg i = Some d \<and> reg_sync reg i = Some s \<and> sync_usable reg now g e n s \<and>
        compare_single reg i now g e n = comparable_single s (dom_name d) now)"
proof (cases "reg_domain reg i = None \<or> reg_sync reg i = None")
  case True
  then show ?thesis using compare_single_missing by auto
next
  case False
  then obtain d s where "reg_domain reg i = Some d" "reg_sync reg i = Some s" by auto
  then show ?thesis using compare_single_spec by auto
qed

lemma side_remote:
  "i \<noteq> reference_clock_domain \<Longrightarrow> side_ok reg now g e n i off u ref \<longleftrightarrow>
     cc_comparable (compare_single reg i now g e n) \<and>
     (\<exists>s. reg_sync reg i = Some s \<and> off = sync_offset_ns s \<and>
        u = cc_uncertainty_ns (compare_single reg i now g e n) \<and> ref = sync_reference s)"
proof (cases "reg_domain reg i = None \<or> reg_sync reg i = None")
  case True
  moreover assume "i \<noteq> reference_clock_domain"
  ultimately show ?thesis
    using compare_single_missing [of reg i] by (auto simp: side_ok_def known_def reg_domain_def)
next
  case False
  assume i: "i \<noteq> reference_clock_domain"
  from False obtain d s where ds: "reg_domain reg i = Some d" "reg_sync reg i = Some s" by auto
  note c = compare_single_spec [OF ds, of now g e n]
  show ?thesis
    using i ds(1) c by (auto simp: side_ok_def known_def reg_domain_def ds(2) comparable_single_fields)
qed

text \<open>The specification of \<^verbatim>\<open>compare\<close> for two different domains.\<close>

definition pair_ok ::
  "clock_registry \<Rightarrow> timestamp \<Rightarrow> generation_id \<Rightarrow> epoch_id \<Rightarrow> incarnation_id \<Rightarrow> clock_domain_id
     \<Rightarrow> clock_domain_id \<Rightarrow> nanos \<Rightarrow> nanos \<Rightarrow> nanos \<Rightarrow> bool" where
  "pair_ok reg now g e n a b oa ob u \<longleftrightarrow>
     (\<exists>ua ub ref. side_ok reg now g e n a oa ua ref \<and> side_ok reg now g e n b ob ub ref \<and>
        valid_id ref \<and> u = ua + ub \<and> u \<le> max_uncertainty_ns (pol_comparability (reg_policy reg)))"

lemma pair_ok_swap: "pair_ok reg now g e n a b oa ob u \<longleftrightarrow> pair_ok reg now g e n b a ob oa u"
  unfolding pair_ok_def by (metis add.commute)

lemma registry_uncertainty:
  "registry_inv reg \<Longrightarrow> reg_sync reg i = Some s \<Longrightarrow> 0 \<le> sync_uncertainty_ns s \<and> in_i64 (sync_uncertainty_ns s)"
  by (auto simp: registry_inv_def reg_sync_def sync_ok_def sync_in_range_def dest!: map_of_SomeD)

lemma wrap_sum_nonneg:
  assumes "0 \<le> a" "in_i64 a" "0 \<le> b" "in_i64 b"
  shows "0 \<le> wrap_i64 (a + b) \<longleftrightarrow> in_i64 (a + b)"
proof (cases "in_i64 (a + b)")
  case True
  then show ?thesis using assms by simp
next
  case False
  then have r: "9223372036854775808 \<le> a + b" "a + b < 18446744073709551616"
    using assms unfolding in_i64_iff by linarith+
  define x where "x = a + b + 9223372036854775808"
  have x: "0 \<le> x - 18446744073709551616" "x - 18446744073709551616 < 18446744073709551616"
    using r by (simp_all add: x_def)
  have "x mod 18446744073709551616 = (x - 18446744073709551616) mod 18446744073709551616"
    by (simp only: minus_mod_self2)
  also have "\<dots> = x - 18446744073709551616" using x by (rule mod_pos_pos_trivial)
  finally have "wrap_i64 (a + b) = a + b - 18446744073709551616" by (simp add: wrap_i64_def x_def)
  then show ?thesis using False r by simp
qed

definition decides ::
  "clock_registry \<Rightarrow> timestamp \<Rightarrow> generation_id \<Rightarrow> epoch_id \<Rightarrow> incarnation_id \<Rightarrow> clock_domain_id
     \<Rightarrow> clock_domain_id \<Rightarrow> clock_comparability \<Rightarrow> bool" where
  "decides reg now g e n a b cc \<longleftrightarrow>
     (if cc_comparable cc
      then pair_ok reg now g e n a b (cc_offset_first_ns cc) (cc_offset_second_ns cc) (cc_uncertainty_ns cc)
      else \<forall>oa ob u. \<not> pair_ok reg now g e n a b oa ob u)"

lemma reference_valid [simp]: "valid_id reference_clock_domain"
  by (simp add: reference_clock_domain_def)

lemma side_reference [simp]:
  "side_ok reg now g e n reference_clock_domain off u ref
     \<longleftrightarrow> off = 0 \<and> u = 0 \<and> ref = reference_clock_domain"
  by (simp add: side_ok_def)

lemma pair_ok_reference:
  "pair_ok reg now g e n reference_clock_domain b oa ob u \<longleftrightarrow>
     oa = 0 \<and> side_ok reg now g e n b ob u reference_clock_domain \<and>
     u \<le> max_uncertainty_ns (pol_comparability (reg_policy reg))"
  by (auto simp: pair_ok_def)

lemma compare_reference_fields:
  assumes i: "i \<noteq> reference_clock_domain"
    and cc: "cc = (if first then compare_reference reg reference_clock_domain i now g e n
                   else compare_reference reg i reference_clock_domain now g e n)"
  shows "cc_comparable cc \<Longrightarrow>
       (\<exists>off. side_ok reg now g e n i off (cc_uncertainty_ns cc) reference_clock_domain \<and>
          cc_uncertainty_ns cc \<le> max_uncertainty_ns (pol_comparability (reg_policy reg)) \<and>
          cc_offset_first_ns cc = (if first then 0 else off) \<and>
          cc_offset_second_ns cc = (if first then off else 0))"
    and "\<not> cc_comparable cc \<Longrightarrow> \<not> (side_ok reg now g e n i off u reference_clock_domain \<and>
          u \<le> max_uncertainty_ns (pol_comparability (reg_policy reg)))"
proof -
  let ?single = "compare_single reg i now g e n"
  have side: "side_ok reg now g e n i off u ref \<longleftrightarrow> cc_comparable ?single \<and>
      (\<exists>s. reg_sync reg i = Some s \<and> off = sync_offset_ns s \<and> u = cc_uncertainty_ns ?single \<and> ref = sync_reference s)"
    for off u ref by (rule side_remote [OF i])
  have cc': "cc = (if \<not> cc_comparable ?single then ?single
      else case reg_sync reg i of
          None \<Rightarrow> incomparable Conflicting ClockReferenceMismatch
            ''synchronization does not point at the local reference domain''
        | Some s \<Rightarrow>
            if sync_reference s \<noteq> reference_clock_domain
            then incomparable Conflicting ClockReferenceMismatch
              ''synchronization does not point at the local reference domain''
            else if cc_uncertainty_ns ?single > max_uncertainty_ns (pol_comparability (reg_policy reg))
            then uncertainty_exceeded (cc_uncertainty_ns ?single)
            else default_comparability
              \<lparr>cc_comparable := True, cc_uncertainty_ns := cc_uncertainty_ns ?single,
               cc_offset_first_ns := (if first then 0 else sync_offset_ns s),
               cc_offset_second_ns := (if first then sync_offset_ns s else 0),
               cc_confidence := cc_confidence ?single,
               cc_evidence := add_reason ClockComparable [] (cc_evidence ?single)\<rparr>)"
    using i by (cases first; cases "reg_sync reg i") (simp_all add: cc compare_reference_def Let_def)
  show "cc_comparable cc \<Longrightarrow>
       (\<exists>off. side_ok reg now g e n i off (cc_uncertainty_ns cc) reference_clock_domain \<and>
          cc_uncertainty_ns cc \<le> max_uncertainty_ns (pol_comparability (reg_policy reg)) \<and>
          cc_offset_first_ns cc = (if first then 0 else off) \<and>
          cc_offset_second_ns cc = (if first then off else 0))"
    unfolding side by (auto simp: cc' split: if_splits option.splits)
  show "\<not> cc_comparable cc \<Longrightarrow> \<not> (side_ok reg now g e n i off u reference_clock_domain \<and>
          u \<le> max_uncertainty_ns (pol_comparability (reg_policy reg)))"
    unfolding side by (auto simp: cc' split: if_splits option.splits)
qed

lemma compare_reference_decides:
  assumes "a \<noteq> b" and "a = reference_clock_domain \<or> b = reference_clock_domain"
  shows "decides reg now g e n a b (compare_reference reg a b now g e n)"
proof (cases "a = reference_clock_domain")
  case True
  then have b: "b \<noteq> reference_clock_domain" using assms by auto
  note f = compare_reference_fields [OF b refl, of True, simplified]
  show ?thesis using f by (auto simp: decides_def True pair_ok_reference)
next
  case False
  then have b: "b = reference_clock_domain" using assms by auto
  note f = compare_reference_fields [OF False refl, of False, simplified]
  show ?thesis
    unfolding decides_def pair_ok_swap [of reg now g e n a] b using f by (auto simp: pair_ok_reference)
qed

lemma compare_pair_decides:
  assumes inv: "registry_inv reg" and max: "in_i64 (max_uncertainty_ns (pol_comparability (reg_policy reg)))"
    and ab: "a \<noteq> reference_clock_domain" "b \<noteq> reference_clock_domain"
  shows "\<exists>cc. compare_pair reg a b now g e n = Some cc \<and> decides reg now g e n a b cc"
proof -
  let ?l = "compare_single reg a now g e n" and ?r = "compare_single reg b now g e n"
  note side = side_remote [OF ab(1), of reg now g e n] side_remote [OF ab(2), of reg now g e n]
  show ?thesis
  proof (cases "cc_comparable ?l \<and> cc_comparable ?r")
    case False
    then show ?thesis by (auto simp: compare_pair_def Let_def decides_def pair_ok_def side)
  next
    case True
    then obtain dl sl dr sr where s: "reg_sync reg a = Some sl" "reg_sync reg b = Some sr"
      "?l = comparable_single sl dl now" "?r = comparable_single sr dr now"
      unfolding compare_single_comparable by blast
    let ?ul = "sync_uncertainty_ns sl" and ?ur = "sync_uncertainty_ns sr"
    note u = registry_uncertainty [OF inv s(1)] registry_uncertainty [OF inv s(2)]
    have over: "wrap_i64 (?ul + ?ur) < 0 \<longleftrightarrow> \<not> in_i64 (?ul + ?ur)"
      using wrap_sum_nonneg [of ?ul ?ur] u by linarith
    have big: "?ul + ?ur \<le> max_uncertainty_ns (pol_comparability (reg_policy reg)) \<Longrightarrow> in_i64 (?ul + ?ur)"
      using max u by (auto simp: in_i64_iff)
    have ok: "pair_ok reg now g e n a b oa ob w \<longleftrightarrow> oa = sync_offset_ns sl \<and> ob = sync_offset_ns sr \<and>
        sync_reference sl = sync_reference sr \<and> valid_id (sync_reference sl) \<and> w = ?ul + ?ur \<and>
        ?ul + ?ur \<le> max_uncertainty_ns (pol_comparability (reg_policy reg))" for oa ob w
      using True by (auto simp: pair_ok_def side s comparable_single_fields)
    show ?thesis
      using True over big
      by (auto simp: compare_pair_def Let_def s decides_def ok comparable_single_fields)
  qed
qed

lemma compare_total_decides:
  "registry_reach p reg \<Longrightarrow> in_i64 (max_uncertainty_ns (pol_comparability p)) \<Longrightarrow>
     \<exists>cc. compare reg a b now g e n = Some cc \<and>
       (cc_comparable cc \<longleftrightarrow> valid_id a \<and> valid_id b \<and>
          (a = b \<or> (\<exists>oa ob u. pair_ok reg now g e n a b oa ob u))) \<and>
       (cc_comparable cc \<and> a \<noteq> b \<longrightarrow>
          pair_ok reg now g e n a b (cc_offset_first_ns cc) (cc_offset_second_ns cc) (cc_uncertainty_ns cc))"
proof -
  assume "registry_reach p reg" and max: "in_i64 (max_uncertainty_ns (pol_comparability p))"
  then have inv: "registry_inv reg" and p: "reg_policy reg = p" using registry_reach_inv by auto
  consider "\<not> valid_id a \<or> \<not> valid_id b" | "valid_id a" "a = b"
    | "valid_id a" "valid_id b" "a \<noteq> b" "a = reference_clock_domain \<or> b = reference_clock_domain"
    | "valid_id a" "valid_id b" "a \<noteq> b" "a \<noteq> reference_clock_domain" "b \<noteq> reference_clock_domain"
    by blast
  then show ?thesis
  proof cases
    case 1 then show ?thesis by (auto simp: compare_def)
  next
    case 2 then show ?thesis by (auto simp: compare_def)
  next
    case 3
    from compare_reference_decides [OF 3(3,4), of reg now g e n] show ?thesis
      using 3 by (auto simp: compare_def decides_def split: if_splits)
  next
    case 4
    from compare_pair_decides [OF inv max [folded p] 4(4,5), of now g e n] show ?thesis
      using 4 by (auto simp: compare_def decides_def split: if_splits)
  qed
qed

text \<open>C5: Comparability is decided exactly by the documented conditions. For every reachable registry
  and every two domains the decision is made (no null report is ever dereferenced), and readings of
  different domains are comparable if and only if each side is the local reference or has a usable
  synchronisation report (state, holdover, generation, epoch, incarnation, validity window), both
  point at the same valid reference and the sum of their uncertainties stays within the policy's
  ceiling, even where that sum overflows 64 bits; the reported offsets and uncertainty are those of
  the two reports.\<close>
theorem compare_decides:
  "registry_reach p reg \<Longrightarrow> in_i64 (max_uncertainty_ns (pol_comparability p)) \<Longrightarrow>
     \<exists>cc. compare reg a b now g e n = Some cc \<and>
       (cc_comparable cc \<longleftrightarrow> valid_id a \<and> valid_id b \<and>
          (a = b \<or> (\<exists>oa ob u. pair_ok reg now g e n a b oa ob u))) \<and>
       (cc_comparable cc \<and> a \<noteq> b \<longrightarrow>
          pair_ok reg now g e n a b (cc_offset_first_ns cc) (cc_offset_second_ns cc) (cc_uncertainty_ns cc))"
  by (rule compare_total_decides)

theorem compare_decides_witness:
  "\<exists>cc. compare (empty_registry default_runtime_policy) reference_clock_domain (StrongId 7)
      \<lparr>ts_ns = 0, ts_domain = reference_clock_domain\<rparr> no_id no_id no_id = Some cc"
  using compare_decides [OF reach_none, of default_runtime_policy reference_clock_domain "StrongId 7"
      "\<lparr>ts_ns = 0, ts_domain = reference_clock_domain\<rparr>" no_id no_id no_id]
  by (auto simp: default_runtime_policy_def default_comparability_policy_def in_i64_iff)

text \<open>
  A clock whose report is right: a reading differs from the reference by the reported offset, up to
  the reported uncertainty.
\<close>

definition honest :: "nanos \<Rightarrow> nanos \<Rightarrow> int \<Rightarrow> int \<Rightarrow> bool" where
  "honest off u true_time reading \<longleftrightarrow> \<bar>reading - (true_time + off)\<bar> \<le> u"

text \<open>C17: What comparability promises: if the reports of both sides are right within their
  uncertainty, the difference of the two readings, brought onto the reference timeline with the
  returned offsets, is within the returned uncertainty of the true difference.\<close>
theorem comparable_difference_bound:
  "side_ok reg now g e n a oa ua ref \<Longrightarrow> side_ok reg now g e n b ob ub ref \<Longrightarrow>
   honest oa ua ta ra \<Longrightarrow> honest ob ub tb rb \<Longrightarrow>
   compare reg a b now g e n = Some cc \<Longrightarrow> cc_comparable cc \<Longrightarrow> a \<noteq> b \<Longrightarrow>
   registry_reach p reg \<Longrightarrow> in_i64 (max_uncertainty_ns (pol_comparability p)) \<Longrightarrow>
     \<bar>((rb - cc_offset_second_ns cc) - (ra - cc_offset_first_ns cc)) - (tb - ta)\<bar> \<le> cc_uncertainty_ns cc"
proof -
  assume s: "side_ok reg now g e n a oa ua ref" "side_ok reg now g e n b ob ub ref"
    and h: "honest oa ua ta ra" "honest ob ub tb rb"
    and c: "compare reg a b now g e n = Some cc" "cc_comparable cc" "a \<noteq> b"
    and r: "registry_reach p reg" "in_i64 (max_uncertainty_ns (pol_comparability p))"
  have uniq: "side_ok reg now g e n i o1 u1 r1 \<Longrightarrow> side_ok reg now g e n i o2 u2 r2 \<Longrightarrow> o1 = o2 \<and> u1 = u2"
    for i o1 o2 u1 u2 r1 r2 by (auto simp: side_ok_def split: if_splits)
  have "pair_ok reg now g e n a b (cc_offset_first_ns cc) (cc_offset_second_ns cc) (cc_uncertainty_ns cc)"
    using compare_total_decides [OF r, of a b now g e n] c by auto
  then have "cc_offset_first_ns cc = oa" "cc_offset_second_ns cc = ob" "cc_uncertainty_ns cc = ua + ub"
    using uniq s unfolding pair_ok_def by metis+
  then show ?thesis using h by (simp add: honest_def)
qed

definition sample_domain :: "string \<Rightarrow> clock_domain_def" where
  "sample_domain nm = \<lparr>dom_id = no_id, dom_name = nm, dom_is_reference = False, dom_description = []\<rparr>"

definition sample_sync :: clock_sync where
  "sample_sync = \<lparr>sync_domain = derive_from ''d1'', sync_reference = reference_clock_domain,
     sync_state = Synchronized, sync_offset_ns = 5, sync_skew_ppb = 0, sync_uncertainty_ns = 10,
     sync_valid_for_ns = 1000, sync_observed_at = \<lparr>ts_ns = 0, ts_domain = reference_clock_domain\<rparr>,
     sync_reported_by = no_id, sync_generation = no_id, sync_epoch = no_id, sync_incarnation = no_id,
     sync_revision = 1\<rparr>"

definition sample_domains :: clock_registry where
  "sample_domains = snd (define_domain (sample_domain ''d1'')
     (snd (define_domain (sample_domain kReferenceDomainName) (empty_registry default_runtime_policy))))"

definition sample_registry :: clock_registry where
  "sample_registry = snd (record_sync sample_sync sample_domains)"

definition sample_now :: timestamp where
  "sample_now = \<lparr>ts_ns = 100, ts_domain = reference_clock_domain\<rparr>"

lemma sample_domain_distinct: "(derive_from ''d1'' :: clock_domain_id) \<noteq> reference_clock_domain"
  by code_simp

lemma sample_domains_fields:
  "known (reg_domains sample_domains) (derive_from ''d1'')"
  "known (reg_domains sample_domains) reference_clock_domain"
  "reg_syncs sample_domains = []" "reg_policy sample_domains = default_runtime_policy"
  using sample_domain_distinct
  by (simp_all add: sample_domains_def define_domain_state sample_domain_def empty_registry_def Let_def
      known_def default_runtime_policy_def default_limits_def reference_clock_domain_def)

lemma sample_registry_fields:
  "reg_syncs sample_registry = [(derive_from ''d1'', sample_sync)]"
  "reg_domains sample_registry = reg_domains sample_domains"
  "reg_policy sample_registry = default_runtime_policy"
  using record_sync_accept(1) [of sample_domains sample_sync] sample_domains_fields sample_domain_distinct
  by (simp_all add: sample_registry_def sync_acceptable_def known_def sample_sync_def)

lemma sample_registry_reach: "registry_reach default_runtime_policy sample_registry"
  unfolding sample_registry_def sample_domains_def
  by (rule reach_next, rule reach_next, rule reach_next, rule reach_none, rule step_domain,
      rule step_domain, rule step_sync)
    (simp add: sync_in_range_def sample_sync_def in_i64_iff)

lemma sample_sides:
  "side_ok sample_registry sample_now no_id no_id no_id reference_clock_domain 0 0 reference_clock_domain"
  "side_ok sample_registry sample_now no_id no_id no_id (derive_from ''d1'') 5 10 reference_clock_domain"
  using sample_domain_distinct sample_domains_fields
  by (simp_all add: side_ok_def sample_registry_fields reg_sync_def sync_usable_def sample_sync_def
      sample_now_def ts_valid_def sync_age_ns_def in_i64_iff)

theorem comparable_difference_bound_witness:
  "\<exists>cc. compare sample_registry reference_clock_domain (derive_from ''d1'') sample_now no_id no_id no_id
       = Some cc \<and> cc_comparable cc \<and>
     \<bar>((208 - cc_offset_second_ns cc) - (100 - cc_offset_first_ns cc)) - (200 - 100)\<bar> \<le> cc_uncertainty_ns cc"
proof -
  have max: "in_i64 (max_uncertainty_ns (pol_comparability default_runtime_policy))"
    by (simp add: default_runtime_policy_def default_comparability_policy_def in_i64_iff)
  have "pair_ok sample_registry sample_now no_id no_id no_id reference_clock_domain (derive_from ''d1'') 0 5 10"
    using sample_sides(2)
    by (simp add: pair_ok_reference sample_registry_fields default_runtime_policy_def
        default_comparability_policy_def)
  then obtain cc where cc: "compare sample_registry reference_clock_domain (derive_from ''d1'')
      sample_now no_id no_id no_id = Some cc" "cc_comparable cc"
    using compare_total_decides [OF sample_registry_reach max, of reference_clock_domain
        "derive_from ''d1''" sample_now no_id no_id no_id] by auto
  have "honest 0 0 100 100" "honest 5 10 200 208" by (simp_all add: honest_def)
  from comparable_difference_bound [OF sample_sides this cc sample_domain_distinct [symmetric]
      sample_registry_reach max] cc show ?thesis by blast
qed

section \<open>Reports only move forward\<close>

lemma registry_step_forward:
  assumes "registry_step reg reg'" and "registry_inv reg"
  shows "registry_inv reg' \<and> (reg_sync reg i = Some s \<longrightarrow>
      (\<exists>s'. reg_sync reg' i = Some s' \<and> (s' = s \<or> sync_revision s < sync_revision s'))) \<and>
    (reg_domain reg i = Some d \<longrightarrow> reg_domain reg' i = Some d)"
  using assms
proof (induction rule: registry_step.induct)
  case (step_domain reg dd)
  note inv = define_domain_inv [OF step_domain, of dd]
  have o: "om_inv (reg_domains reg)" using step_domain by (simp add: registry_inv_def)
  show ?case
    using inv by (cases rule: define_domain_cases [of dd reg])
      (auto simp: reg_sync_def reg_domain_def om_find_set [OF o])
next
  case (step_sync t reg)
  note inv = record_sync_inv [OF step_sync(2,1)]
  have o: "om_inv (reg_syncs reg)" using step_sync by (simp add: registry_inv_def)
  show ?case
    using inv by (cases rule: record_sync_cases [of t reg])
      (auto simp: reg_sync_def reg_domain_def om_find_set [OF o])
qed

text \<open>Synchronisation reports only move forward and clock domains never change: along every
  sequence of registry operations a recorded report is kept or replaced by one with a strictly
  greater revision, never by an older one or by different content at the same revision, and a
  domain, once defined, keeps its definition.\<close>
lemma sync_reports_forward:
  "registry_step\<^sup>*\<^sup>* reg reg' \<Longrightarrow> registry_inv reg \<Longrightarrow>
     (reg_sync reg i = Some s \<longrightarrow>
        (\<exists>s'. reg_sync reg' i = Some s' \<and> (s' = s \<or> sync_revision s < sync_revision s'))) \<and>
     (reg_domain reg i = Some d \<longrightarrow> reg_domain reg' i = Some d)"
proof -
  assume "registry_step\<^sup>*\<^sup>* reg reg'" and inv: "registry_inv reg"
  then have "registry_inv reg' \<and> (reg_sync reg i = Some s \<longrightarrow>
      (\<exists>s'. reg_sync reg' i = Some s' \<and> (s' = s \<or> sync_revision s < sync_revision s'))) \<and>
    (reg_domain reg i = Some d \<longrightarrow> reg_domain reg' i = Some d)"
  proof (induction rule: rtranclp_induct)
    case base
    then show ?case using inv by simp
  next
    case (step mid last)
    then have IH: "registry_inv mid" by simp
    note fwd = registry_step_forward [OF step.hyps(2) IH]
    show ?case
    proof (intro conjI impI)
      show "registry_inv last" using fwd by blast
      show "reg_domain last i = Some d" if "reg_domain reg i = Some d"
        using that step.IH [OF inv] fwd by blast
      assume "reg_sync reg i = Some s"
      then obtain t where t: "reg_sync mid i = Some t" "t = s \<or> sync_revision s < sync_revision t"
        using step.IH [OF inv] by blast
      obtain u where "reg_sync last i = Some u" "u = t \<or> sync_revision t < sync_revision u"
        using fwd [of i t] t(1) by blast
      with t(2) show "\<exists>s'. reg_sync last i = Some s' \<and> (s' = s \<or> sync_revision s < sync_revision s')"
        by (auto intro: less_trans)
    qed
  qed
  then show ?thesis by blast
qed

lemma sync_reports_forward_example:
  "\<exists>s'. reg_sync (snd (record_sync (sample_sync\<lparr>sync_revision := 0\<rparr>) sample_registry)) (derive_from ''d1'')
     = Some s' \<and> (s' = sample_sync \<or> sync_revision sample_sync < sync_revision s')"
proof -
  have "registry_step\<^sup>*\<^sup>* sample_registry (snd (record_sync (sample_sync\<lparr>sync_revision := 0\<rparr>) sample_registry))"
    by (intro r_into_rtranclp step_sync) (simp add: sync_in_range_def sample_sync_def in_i64_iff)
  from sync_reports_forward [OF this, of "derive_from ''d1''" sample_sync] registry_reach_inv [OF sample_registry_reach]
  show ?thesis by (simp add: reg_sync_def sample_registry_fields)
qed

section \<open>Ages\<close>

lemma estimate_age_synced:
  assumes "age_value (estimate_age reg ob now) = Some x" and "ts_domain ob \<noteq> ts_domain now"
  obtains s where "reg_sync reg (ts_domain ob) = Some s" "sync_reference s = ts_domain now"
    "sync_state s \<in> {Synchronized, Holdover}" "0 \<le> sync_age_ns s now" "sync_age_ns s now \<le> sync_valid_for_ns s"
    "x = wrap_i64 (ts_ns now - wrap_i64 (ts_ns ob - sync_offset_ns s))"
    "usable (age_evidence (estimate_age reg ob now))"
proof (cases "reg_sync reg (ts_domain ob)")
  case None
  then show thesis using assms by (simp add: estimate_age_def Let_def no_age_def split: if_splits)
next
  case (Some s)
  define hex where "hex = id_to_hex (ts_domain ob)"
  let ?ms = "[(\<not> valid_id (sync_reference s), unknown ClockOffsetUnavailable hex),
     (sync_reference s \<noteq> ts_domain now, conflicting ClockReferenceMismatch hex),
     (sync_state s = UnknownSync \<or> sync_state s = Unsynced, refused ClockUnsynced hex),
     (sync_age_ns s now < 0 \<or> sync_age_ns s now > sync_valid_for_ns s, stale ClockSyncExpired hex)]"
  have v: "ts_valid ob" "ts_valid now"
    using assms(1) by (auto simp: estimate_age_def Let_def no_age_def split: if_splits)
  have none: "first_match ?ms = None"
    using assms v Some
    by (cases "first_match ?ms") (simp_all add: estimate_age_def Let_def no_age_def hex_def)
  then have r: "sync_reference s = ts_domain now" "sync_state s \<noteq> UnknownSync" "sync_state s \<noteq> Unsynced"
    "0 \<le> sync_age_ns s now" "sync_age_ns s now \<le> sync_valid_for_ns s"
    by (simp_all add: first_match_None not_less)
  have x: "x = wrap_i64 (ts_ns now - wrap_i64 (ts_ns ob - sync_offset_ns s))"
    "usable (age_evidence (estimate_age reg ob now))"
    using assms v Some none by (simp_all add: estimate_age_def Let_def hex_def [symmetric] usable_def)
  show thesis by (rule that [OF Some]) (use r x sync_state_usable in auto)
qed

text \<open>C18: An age estimate is never invented: an age of a reading from another domain is only produced
  through a synchronised report that points at the domain of the local reading and is inside its
  validity window: neither from the future of the local reading nor older than it stays valid. When
  that report is right within its uncertainty and the subtraction fits 64 bits, the estimate is within
  the uncertainty of the true age.\<close>
theorem age_estimate_bound:
  "age_value (estimate_age reg ob now) = Some x \<Longrightarrow> ts_domain ob \<noteq> ts_domain now \<Longrightarrow>
     \<exists>s. reg_sync reg (ts_domain ob) = Some s \<and> sync_reference s = ts_domain now \<and>
       sync_state s \<in> {Synchronized, Holdover} \<and> 0 \<le> sync_age_ns s now \<and> sync_age_ns s now \<le> sync_valid_for_ns s \<and>
       usable (age_evidence (estimate_age reg ob now)) \<and>
       (in_i64 (ts_ns ob - sync_offset_ns s) \<and> in_i64 (ts_ns now - (ts_ns ob - sync_offset_ns s)) \<longrightarrow>
         (\<forall>t. honest (sync_offset_ns s) (sync_uncertainty_ns s) t (ts_ns ob) \<longrightarrow>
            \<bar>x - (ts_ns now - t)\<bar> \<le> sync_uncertainty_ns s))"
proof -
  assume "age_value (estimate_age reg ob now) = Some x" and "ts_domain ob \<noteq> ts_domain now"
  then obtain s where s: "reg_sync reg (ts_domain ob) = Some s" "sync_reference s = ts_domain now"
    "sync_state s \<in> {Synchronized, Holdover}" "0 \<le> sync_age_ns s now" "sync_age_ns s now \<le> sync_valid_for_ns s"
    "x = wrap_i64 (ts_ns now - wrap_i64 (ts_ns ob - sync_offset_ns s))"
    "usable (age_evidence (estimate_age reg ob now))"
    by (rule estimate_age_synced)
  then show ?thesis by (auto simp: honest_def)
qed

theorem age_estimate_bound_witness:
  "\<exists>s. reg_sync sample_registry (derive_from ''d1'') = Some s \<and> 0 \<le> sync_age_ns s sample_now \<and> sync_age_ns s sample_now \<le> sync_valid_for_ns s \<and>
     age_value (estimate_age sample_registry \<lparr>ts_ns = 55, ts_domain = derive_from ''d1''\<rparr> sample_now) = Some 50"
proof -
  let ?ob = "\<lparr>ts_ns = 55, ts_domain = derive_from ''d1''\<rparr>"
  have "age_value (estimate_age sample_registry ?ob sample_now) = Some 50"
    using sample_domain_distinct
    by (simp add: estimate_age_def Let_def reg_sync_def sample_registry_fields sample_now_def ts_valid_def
        first_match.simps sample_sync_def sync_age_ns_def in_i64_iff)
  from age_estimate_bound [OF this] this sample_domain_distinct show ?thesis
    by (auto simp: sample_now_def)
qed

end
