(* ===== verification/Model_Measurement.thy ===== *)
theory Model_Measurement
  imports Model_Clock
begin

text \<open>
  \<^verbatim>\<open>model/measurement.hpp\<close> and \<^verbatim>\<open>model/measurement.cpp\<close>: observed exchanges with their hops, and the
  identity of an exchange, derived from the reporting triple and the sequence number.
\<close>

record observation_stamp =
  stamp_observed_at :: timestamp
  stamp_received_at :: timestamp
  stamp_received_mono :: mono_time

definition stamp_valid :: "observation_stamp \<Rightarrow> bool" where
  "stamp_valid s \<longleftrightarrow> ts_valid (stamp_observed_at s) \<and> ts_valid (stamp_received_at s)"

record hop_observation =
  ho_index :: hop_index
  ho_hop :: hop_id
  ho_link :: link_id
  ho_queue :: queue_id
  ho_entry_domain :: clock_domain_id
  ho_exit_domain :: clock_domain_id
  ho_entry :: timestamp
  ho_exit :: timestamp
  ho_queue_entry :: timestamp
  ho_queue_exit :: timestamp
  ho_dwell_ns :: "nanos option"
  ho_queue_dwell_ns :: "nanos option"
  ho_dwell_uncertainty_ns :: "nanos option"
  ho_queue_dwell_uncertainty_ns :: "nanos option"
  ho_evidence :: evidence

definition has_dwell :: "hop_observation \<Rightarrow> bool" where
  "has_dwell h \<longleftrightarrow> ho_dwell_ns h \<noteq> None"

record measurement_record =
  rec_id :: measurement_id
  rec_path :: path_id
  rec_generation :: generation_id
  rec_source :: source_id
  rec_epoch :: epoch_id
  rec_incarnation :: incarnation_id
  rec_source_revision :: revision
  rec_sequence :: sequence
  rec_domain :: clock_domain_id
  rec_request :: timestamp
  rec_response :: timestamp
  rec_rtt_ns :: nanos
  rec_hops :: "hop_observation list"
  rec_stamp :: observation_stamp
  rec_evidence :: evidence
  rec_synthetic :: bool

definition hop_at :: "measurement_record \<Rightarrow> hop_index \<Rightarrow> hop_observation option" where
  "hop_at r i = List.find (\<lambda>h. ho_index h = i) (rec_hops r)"

definition measurement_identity_text ::
  "source_id \<Rightarrow> epoch_id \<Rightarrow> incarnation_id \<Rightarrow> sequence \<Rightarrow> string" where
  "measurement_identity_text source epoch incarnation sq =
     ''measurement|'' @ id_to_hex source @ ''|'' @ id_to_hex epoch @ ''|'' @ id_to_hex incarnation @
     ''|'' @ show_nat (unat sq)"

definition derive_measurement_id ::
  "source_id \<Rightarrow> epoch_id \<Rightarrow> incarnation_id \<Rightarrow> sequence \<Rightarrow> measurement_id" where
  "derive_measurement_id source epoch incarnation sq =
     derive_from (measurement_identity_text source epoch incarnation sq)"

section \<open>Facts\<close>

lemma length_id_to_hex [simp]: "length (id_to_hex i) = 16"
  by (simp add: id_to_hex_def)

lemma id_to_hex_inject: "id_to_hex i = id_to_hex j \<longleftrightarrow> i = j"
proof
  assume eq: "id_to_hex i = id_to_hex j"
  have "drop_bit 0 (id_value i) = drop_bit 0 (id_value j)"
    using hex_accumulate_prefix [of 16 i] hex_accumulate_prefix [of 16 j] eq by simp
  then show "i = j" by (cases i; cases j) simp
qed simp

text \<open>The identity text of an exchange names its reporting triple and sequence number and nothing
  else: two exchanges have the same text exactly when source, epoch, incarnation and sequence agree,
  so a replay keeps its identity and a new observation gets a new text.\<close>
lemma measurement_text_injective:
  "measurement_identity_text s e n q = measurement_identity_text s' e' n' q' \<longleftrightarrow>
     s = s' \<and> e = e' \<and> n = n' \<and> q = q'"
  by (auto simp: measurement_identity_text_def id_to_hex_inject show_nat_inj word_unat_eq_iff)

end
