(* ===== verification/Stats_Distribution.thy ===== *)
theory Stats_Distribution
  imports Model_Measurement
begin

text \<open>
  \<^verbatim>\<open>stats/distribution.hpp\<close> and \<^verbatim>\<open>stats/distribution.cpp\<close>: rational quantile probes, histograms and the
  deterministic aggregate of a bounded set of values. Counters are 64 bit words; the number of
  values is below \<open>2 ^ 60\<close>, the most 64 bit elements an address space can hold.
\<close>

section \<open>Exact signed sums\<close>

definition magnitude_of :: "nanos \<Rightarrow> uint128" where
  "magnitude_of x = (if x \<ge> 0 then u128_from_u64 (to_u64 x) else u128_from_u64 (0 - to_u64 x))"

record signed_sum =
  ss_positive :: uint128
  ss_negative :: uint128

definition ss_zero :: signed_sum where
  "ss_zero = \<lparr>ss_positive = UInt128 0 0, ss_negative = UInt128 0 0\<rparr>"

definition ss_add :: "nanos \<Rightarrow> signed_sum \<Rightarrow> signed_sum" where
  "ss_add x s =
     (if x \<ge> 0 then s\<lparr>ss_positive := add_u128 (ss_positive s) (u128_from_u64 (to_u64 x))\<rparr>
      else s\<lparr>ss_negative := add_u128 (ss_negative s) (magnitude_of x)\<rparr>)"

definition ss_is_zero :: "signed_sum \<Rightarrow> bool" where
  "ss_is_zero s \<longleftrightarrow> u128_is_zero (ss_positive s) \<and> u128_is_zero (ss_negative s)"

definition ss_overflowed :: "signed_sum \<Rightarrow> bool" where
  "ss_overflowed s \<longleftrightarrow> is_saturated (ss_positive s) \<or> is_saturated (ss_negative s)"

definition ss_to_i64 :: "signed_sum \<Rightarrow> nanos option" where
  "ss_to_i64 s =
     (if ss_overflowed s then None
      else if ss_is_zero s then Some 0
      else
        let non_negative = \<not> u128_less (ss_positive s) (ss_negative s);
            diff = (if non_negative then sub_u128 (ss_positive s) (ss_negative s)
                    else sub_u128 (ss_negative s) (ss_positive s))
        in if non_negative then
             (if \<not> fits_u64 diff \<or> lo diff > kI64Max then None else Some (sint (lo diff)))
           else if \<not> fits_u64 diff \<or> lo diff > kI64MinAbs then None
           else if lo diff = kI64MinAbs then Some i64_min
           else Some (- sint (lo diff)))"

text \<open>\<^verbatim>\<open>floor_mean\<close> returns the quotient and, through its reference parameter, the remainder.\<close>

definition floor_mean :: "signed_sum \<Rightarrow> u64 \<Rightarrow> nanos option \<times> u64" where
  "floor_mean s n =
     (if n = 0 then (None, 0)
      else case ss_to_i64 s of
        None \<Rightarrow> (None, 0)
      | Some v \<Rightarrow>
          let divisor = sint n;
              quotient = cdiv v divisor;
              rest = cmod v divisor;
              (quotient, rest) = (if rest < 0 then (quotient - 1, rest + divisor) else (quotient, rest))
          in (Some quotient, to_u64 rest))"

section \<open>Quantile probes\<close>

record quantile_probe =
  qp_numerator :: u32
  qp_denominator :: u32

definition make_probe :: "u32 \<Rightarrow> u32 \<Rightarrow> quantile_probe result" where
  "make_probe numerator denominator =
     (if denominator = 0 then fail InvalidArgument ''quantile denominator must not be zero'' []
      else if numerator = 0 \<or> numerator > denominator
      then fail InvalidArgument ''quantile must satisfy 0 < numerator <= denominator'' []
      else Inr \<lparr>qp_numerator = numerator, qp_denominator = denominator\<rparr>)"

definition probe_to_string :: "quantile_probe \<Rightarrow> string" where
  "probe_to_string p = show_nat (unat (qp_numerator p)) @ ''/'' @ show_nat (unat (qp_denominator p))"

definition probe_less :: "quantile_probe \<Rightarrow> quantile_probe \<Rightarrow> bool" where
  "probe_less a b \<longleftrightarrow>
     (ucast (qp_numerator a) :: u64) * ucast (qp_denominator b) < ucast (qp_numerator b) * ucast (qp_denominator a)"

text \<open>\<^verbatim>\<open>default_quantile_probes\<close> asserts that each probe is valid; a violated assertion is None.\<close>

fun make_probes :: "(u32 \<times> u32) list \<Rightarrow> quantile_probe list option" where
  "make_probes [] = Some []"
| "make_probes ((n, d) # rest) =
     (case make_probe n d of
        Inl _ \<Rightarrow> None
      | Inr p \<Rightarrow> (case make_probes rest of None \<Rightarrow> None | Some ps \<Rightarrow> Some (p # ps)))"

definition default_quantile_probes :: "quantile_probe list option" where
  "default_quantile_probes = make_probes [(50, 100), (90, 100), (99, 100), (999, 1000)]"

section \<open>Histograms\<close>

type_synonym histogram_spec = "nanos list"

fun bounds_error :: "nanos option \<Rightarrow> nanos list \<Rightarrow> error option" where
  "bounds_error previous [] = None"
| "bounds_error previous (b # rest) =
     (if b < 0 then Some (Error InvalidArgument ''histogram bounds must not be negative'' (show_int b))
      else if (case previous of None \<Rightarrow> False | Some p \<Rightarrow> b \<le> p)
      then Some (Error InvalidArgument ''histogram bounds must be strictly increasing'' (show_int b))
      else bounds_error (Some b) rest)"

definition make_spec :: "nanos list \<Rightarrow> limits \<Rightarrow> histogram_spec result" where
  "make_spec bounds l =
     (if length bounds > max_histogram_buckets l
      then fail OutOfRange ''histogram bound count exceeds the configured limit'' (show_nat (length bounds))
      else case bounds_error None bounds of Some e \<Rightarrow> Inl e | None \<Rightarrow> Inr bounds)"

definition latency_default :: histogram_spec where
  "latency_default =
    [1000, 2000, 5000, 10000, 20000, 50000, 100000, 200000, 500000, 1000000, 2000000, 5000000,
     10000000, 20000000, 50000000, 100000000, 200000000, 500000000, 1000000000, 2000000000,
     5000000000, 10000000000]"

definition bucket_count :: "histogram_spec \<Rightarrow> nat" where "bucket_count spec = length spec + 1"

fun join_with :: "string \<Rightarrow> string list \<Rightarrow> string" where
  "join_with sep [] = []"
| "join_with sep [x] = x"
| "join_with sep (x # y # rest) = x @ sep @ join_with sep (y # rest)"

definition spec_text :: "histogram_spec \<Rightarrow> string" where
  "spec_text spec = ''histogram.bounds='' @ join_with '','' (map show_int spec) @ [CHR 0x0A]"

definition spec_digest :: "histogram_spec \<Rightarrow> string" where
  "spec_digest spec = sha256_hex (spec_text spec)"

record histogram =
  hg_spec :: histogram_spec
  hg_buckets :: "u64 list"
  hg_underflow :: u64

definition empty_histogram :: "histogram_spec \<Rightarrow> histogram" where
  "empty_histogram spec =
     \<lparr>hg_spec = spec, hg_buckets = replicate (bucket_count spec) 0, hg_underflow = 0\<rparr>"

fun bucket_index :: "nanos \<Rightarrow> nanos list \<Rightarrow> nat" where
  "bucket_index v [] = 0"
| "bucket_index v (b # rest) = (if v \<ge> b then Suc (bucket_index v rest) else 0)"

definition hist_add :: "nanos \<Rightarrow> histogram \<Rightarrow> histogram" where
  "hist_add v h =
     (let h = (if length (hg_buckets h) \<noteq> bucket_count (hg_spec h)
               then h\<lparr>hg_buckets := replicate (bucket_count (hg_spec h)) 0\<rparr> else h)
      in if v < 0 then h\<lparr>hg_underflow := hg_underflow h + 1\<rparr>
         else
           let i = bucket_index v (hg_spec h)
           in h\<lparr>hg_buckets := (hg_buckets h)[i := hg_buckets h ! i + 1]\<rparr>)"

definition hist_total :: "histogram \<Rightarrow> u64" where
  "hist_total h = foldl (+) (hg_underflow h) (hg_buckets h)"

section \<open>Nearest rank\<close>

definition nearest_rank :: "nanos list \<Rightarrow> quantile_probe \<Rightarrow> nanos option" where
  "nearest_rank sorted_values p =
     (if sorted_values = [] then None
      else
        let n = word_of_nat (length sorted_values) :: u64;
            product = mul_u64_to_u128 (ucast (qp_numerator p)) n;
            (quotient, remainder) = divmod_u128_u64 product (ucast (qp_denominator p));
            rank = lo quotient;
            rank = (if remainder \<noteq> 0 then rank + 1 else rank);
            rank = (if rank = 0 then 1 else rank);
            rank = (if rank > n then n else rank)
        in Some (sorted_values ! unat (rank - 1)))"

section \<open>Distributions\<close>

record distribution =
  d_count :: u64
  d_min_ns :: "nanos option"
  d_max_ns :: "nanos option"
  d_sum_ns :: "nanos option"
  d_mean_ns :: "nanos option"
  d_mean_remainder_ns :: u64
  d_sum_overflowed :: bool
  d_histogram :: histogram
  d_probes :: "quantile_probe list"
  d_quantiles :: "nanos option list"

definition empty_distribution :: "nat \<Rightarrow> histogram_spec \<Rightarrow> quantile_probe list \<Rightarrow> distribution" where
  "empty_distribution n spec probes =
     \<lparr>d_count = word_of_nat n, d_min_ns = None, d_max_ns = None, d_sum_ns = None, d_mean_ns = None,
      d_mean_remainder_ns = 0, d_sum_overflowed = False, d_histogram = empty_histogram spec,
      d_probes = probes, d_quantiles = replicate (length probes) None\<rparr>"

definition aggregate ::
  "nanos list \<Rightarrow> histogram_spec \<Rightarrow> quantile_probe list \<Rightarrow> limits \<Rightarrow> distribution result" where
  "aggregate xs spec probes l =
     (if length xs > max_samples_per_path l
      then fail OutOfRange ''aggregation input exceeds the configured sample limit'' (show_nat (length xs))
      else if length probes > max_quantile_probes l
      then fail OutOfRange ''quantile probe count exceeds the configured limit'' (show_nat (length probes))
      else
        let d = empty_distribution (length xs) spec probes
        in if xs = [] then Inr d
           else
             let ys = sort xs;
                 (s, h) = foldl (\<lambda>(s, h) v. (ss_add v s, hist_add v h)) (ss_zero, d_histogram d) ys;
                 total_ns = ss_to_i64 s;
                 (mean, remainder) = floor_mean s (d_count d)
             in Inr (d\<lparr>d_histogram := h, d_min_ns := Some (hd ys), d_max_ns := Some (last ys),
                  d_sum_ns := total_ns, d_sum_overflowed := (ss_overflowed s \<or> total_ns = None),
                  d_mean_ns := mean, d_mean_remainder_ns := remainder,
                  d_quantiles := map (nearest_rank ys) probes\<rparr>))"

definition aggregate_single :: "nanos \<Rightarrow> histogram_spec \<Rightarrow> limits \<Rightarrow> distribution result" where
  "aggregate_single v spec l = aggregate [v] spec [] l"

definition show_optional :: "nanos option \<Rightarrow> string" where
  "show_optional v = (case v of Some x \<Rightarrow> show_int x | None \<Rightarrow> ''unknown'')"

definition render_distribution_text :: "distribution \<Rightarrow> string" where
  "render_distribution_text d =
     ''count='' @ show_nat (unat (d_count d)) @ '' min='' @ show_optional (d_min_ns d) @ '' max='' @
     show_optional (d_max_ns d) @ '' mean='' @ show_optional (d_mean_ns d) @
     (if d_sum_overflowed d then '' overflow=true'' else [])"

section \<open>The sum is exact\<close>

definition pos_part :: "nanos list \<Rightarrow> nat" where "pos_part xs = sum_list (map nat xs)"
definition neg_part :: "nanos list \<Rightarrow> nat" where "neg_part xs = sum_list (map (\<lambda>x. nat (- x)) xs)"

lemma parts_sum: "int (pos_part xs) - int (neg_part xs) = sum_list xs"
  by (induction xs) (auto simp: pos_part_def neg_part_def)

lemma parts_bound:
  "\<forall>x \<in> set xs. in_i64 x \<Longrightarrow> pos_part xs \<le> length xs * 9223372036854775808"
  "\<forall>x \<in> set xs. in_i64 x \<Longrightarrow> neg_part xs \<le> length xs * 9223372036854775808"
  by (induction xs) (auto simp: pos_part_def neg_part_def in_i64_iff nat_le_iff)

lemma ss_add_val:
  assumes "in_i64 x" and "u128_val (ss_positive s) + nat x < 2 ^ 127"
    and "u128_val (ss_negative s) + nat (- x) < 2 ^ 127"
  shows "u128_val (ss_positive (ss_add x s)) = u128_val (ss_positive s) + nat x"
    and "u128_val (ss_negative (ss_add x s)) = u128_val (ss_negative s) + nat (- x)"
  using assms unat_to_u64 [of x] unat_neg_to_u64 [of x]
  by (auto simp: ss_add_def magnitude_of_def add_u128_val in_i64_iff)

lemma ss_foldl_val:
  assumes "\<forall>x \<in> set xs. in_i64 x" and "u128_val (ss_positive s) + pos_part xs < 2 ^ 127"
    and "u128_val (ss_negative s) + neg_part xs < 2 ^ 127"
  shows "u128_val (ss_positive (foldl (\<lambda>s x. ss_add x s) s xs)) = u128_val (ss_positive s) + pos_part xs \<and>
    u128_val (ss_negative (foldl (\<lambda>s x. ss_add x s) s xs)) = u128_val (ss_negative s) + neg_part xs"
  using assms
proof (induction xs arbitrary: s)
  case Nil
  then show ?case by (simp add: pos_part_def neg_part_def)
next
  case (Cons x xs)
  have parts: "pos_part (x # xs) = nat x + pos_part xs" "neg_part (x # xs) = nat (- x) + neg_part xs"
    by (simp_all add: pos_part_def neg_part_def)
  note v = ss_add_val [of x s]
  have "u128_val (ss_positive (ss_add x s)) = u128_val (ss_positive s) + nat x"
    "u128_val (ss_negative (ss_add x s)) = u128_val (ss_negative s) + nat (- x)"
    using v Cons.prems parts by auto
  with Cons.IH [of "ss_add x s"] Cons.prems parts show ?case by simp
qed

lemma ss_to_i64_val:
  assumes P: "u128_val (ss_positive s) = p" "p < 2 ^ 127" and N: "u128_val (ss_negative s) = n" "n < 2 ^ 127"
  shows "\<not> ss_overflowed s"
    and "ss_to_i64 s = (if in_i64 (int p - int n) then Some (int p - int n) else None)"
proof -
  show no: "\<not> ss_overflowed s" using assms by (simp add: ss_overflowed_def is_saturated_iff)
  have small: "v < 18446744073709551616 \<and> unat (lo d) = v" if "u128_val d = v" "fits_u64 d" for d v
    using that by (auto simp: fits_u64_iff u128_val_def fits_u64_def)
  show "ss_to_i64 s = (if in_i64 (int p - int n) then Some (int p - int n) else None)"
  proof (cases "p < n")
    case True
    let ?d = "sub_u128 (ss_negative s) (ss_positive s)"
    have d: "u128_val ?d = n - p" using sub_u128_val [of "ss_positive s" "ss_negative s"] P N True by simp
    have e: "ss_to_i64 s = (if \<not> fits_u64 ?d \<or> lo ?d > kI64MinAbs then None
        else if lo ?d = kI64MinAbs then Some i64_min else Some (- sint (lo ?d)))"
      using no True P N by (simp add: ss_to_i64_def Let_def u128_less_iff ss_is_zero_def u128_is_zero_iff)
    show ?thesis
    proof (cases "fits_u64 ?d")
      case f: True
      then have u: "unat (lo ?d) = n - p" using small [OF d] by simp
      show ?thesis using u True
        by (simp add: e f word_less_nat_alt word_unat_eq_iff in_i64_iff i64_min_def sint_small) arith
    next
      case False
      then have "18446744073709551616 \<le> n - p" using d by (simp add: fits_u64_iff)
      then have "int p - int n \<le> - 18446744073709551616" using True by linarith
      then show ?thesis using False by (simp add: e in_i64_iff)
    qed
  next
    case False
    let ?d = "sub_u128 (ss_positive s) (ss_negative s)"
    have d: "u128_val ?d = p - n" using sub_u128_val [of "ss_negative s" "ss_positive s"] P N False by simp
    have e: "ss_to_i64 s = (if p = 0 \<and> n = 0 then Some 0 else
        if \<not> fits_u64 ?d \<or> lo ?d > kI64Max then None else Some (sint (lo ?d)))"
      using no False P N by (simp add: ss_to_i64_def Let_def u128_less_iff ss_is_zero_def u128_is_zero_iff)
    show ?thesis
    proof (cases "fits_u64 ?d")
      case f: True
      then have u: "unat (lo ?d) = p - n" using small [OF d] by simp
      have i: "int (p - n) = int p - int n" using False by simp
      have s: "sint (lo ?d) = int (p - n)" if "p - n < 9223372036854775808"
        using sint_small [of "lo ?d"] that u by simp
      show ?thesis using u False s i
        by (simp add: e f word_less_nat_alt in_i64_iff)
    next
      case nf: False
      then have "18446744073709551616 \<le> p - n" using d by (simp add: fits_u64_iff)
      then have "18446744073709551616 \<le> int p - int n" by linarith
      then show ?thesis using nf by (simp add: e in_i64_iff)
    qed
  qed
qed

lemma sint_count: "n < 2 ^ 63 \<Longrightarrow> sint (word_of_nat n :: u64) = int n"
  by (rule sint_word_of_nat_small) simp

lemma floor_mean_val:
  assumes "0 < n" and "n < 2 ^ 63" and "ss_to_i64 s = (if in_i64 t then Some t else None)"
  shows "floor_mean s (word_of_nat n) =
     (if in_i64 t then (Some (t div int n), word_of_int (t mod int n)) else (None, 0))"
proof -
  have nz: "(word_of_nat n :: u64) \<noteq> 0" using assms(1,2) by (simp add: word_of_nat_eq_0_iff nat_dvd_not_less)
  have d: "0 < int n" using assms(1) by simp
  note F = floor_idiom_quotient [OF d, of t] floor_idiom_rest [OF d, of t]
  show ?thesis
  proof (cases "cmod t (int n) < 0")
    case True
    with F have "cdiv t (int n) - 1 = t div int n" "cmod t (int n) + int n = t mod int n" by simp_all
    with True show ?thesis
      by (simp add: floor_mean_def nz assms(3) sint_count [OF assms(2)] Let_def to_u64_def del: of_int_add)
  next
    case False
    with F have "cdiv t (int n) = t div int n" "cmod t (int n) = t mod int n" by simp_all
    with False show ?thesis
      by (simp add: floor_mean_def nz assms(3) sint_count [OF assms(2)] Let_def to_u64_def)
  qed
qed

section \<open>Histograms count every value once\<close>

lemma bucket_index_le: "bucket_index v bounds \<le> length bounds"
  by (induction v bounds rule: bucket_index.induct) auto

definition hist_wf :: "histogram \<Rightarrow> bool" where
  "hist_wf h \<longleftrightarrow> length (hg_buckets h) = bucket_count (hg_spec h)"

lemma hist_add_wf: "hist_wf h \<Longrightarrow> hist_wf (hist_add v h) \<and> hg_spec (hist_add v h) = hg_spec h"
  by (simp add: hist_wf_def hist_add_def Let_def)

lemma hist_foldl:
  assumes "hist_wf h" and "bucket_count (hg_spec h) = k" and "r = foldl (\<lambda>h v. hist_add v h) h xs"
  shows "hist_wf r \<and> hg_spec r = hg_spec h \<and>
    hg_underflow r = hg_underflow h + word_of_nat (length (filter (\<lambda>v. v < 0) xs)) \<and>
    (\<forall>i < k. hg_buckets r ! i = hg_buckets h ! i +
       word_of_nat (length (filter (\<lambda>v. 0 \<le> v \<and> bucket_index v (hg_spec h) = i) xs)))"
  using assms
proof (induction xs arbitrary: h)
  case Nil
  then show ?case by simp
next
  case (Cons v xs)
  have w: "hist_wf (hist_add v h)" "hg_spec (hist_add v h) = hg_spec h" using hist_add_wf Cons.prems by auto
  have l: "bucket_index v (hg_spec h) < length (hg_buckets h)"
    using Cons.prems bucket_index_le [of v "hg_spec h"] by (simp add: hist_wf_def bucket_count_def)
  have add: "hg_underflow (hist_add v h) = hg_underflow h + (if v < 0 then 1 else 0)"
    "i < k \<Longrightarrow> hg_buckets (hist_add v h) ! i =
       hg_buckets h ! i + (if 0 \<le> v \<and> bucket_index v (hg_spec h) = i then 1 else 0)" for i
    using Cons.prems l by (auto simp: hist_add_def Let_def hist_wf_def nth_list_update)
  from Cons.IH [OF w(1)] w(2) Cons.prems show ?case
    by (auto simp: add)
qed

section \<open>Nearest rank\<close>

definition probe_ok :: "quantile_probe \<Rightarrow> bool" where
  "probe_ok p \<longleftrightarrow> 0 < qp_numerator p \<and> qp_numerator p \<le> qp_denominator p"

text \<open>\<open>v\<close> is a quantile of \<open>xs\<close>: enough values are at most \<open>v\<close>, and too few are below it.\<close>

definition is_quantile :: "nanos list \<Rightarrow> quantile_probe \<Rightarrow> nanos \<Rightarrow> bool" where
  "is_quantile xs p v \<longleftrightarrow> v \<in> set xs \<and>
     unat (qp_numerator p) * length xs \<le> unat (qp_denominator p) * length (filter (\<lambda>x. x \<le> v) xs) \<and>
     unat (qp_denominator p) * length (filter (\<lambda>x. x < v) xs) < unat (qp_numerator p) * length xs"

lemma sorted_filter_le:
  assumes "sorted ys" and "k < length ys"
  shows "Suc k \<le> length (filter (\<lambda>x. x \<le> ys ! k) (ys :: nanos list))"
proof -
  have "filter (\<lambda>x. x \<le> ys ! k) (take (Suc k) ys) = take (Suc k) ys"
    using assms by (auto simp: filter_id_conv set_conv_nth intro!: sorted_nth_mono)
  then have "length (filter (\<lambda>x. x \<le> ys ! k) (take (Suc k) ys @ drop (Suc k) ys)) \<ge> Suc k"
    using assms(2) by (simp only: filter_append length_append) simp
  then show ?thesis by (simp only: append_take_drop_id)
qed

lemma sorted_filter_less:
  assumes "sorted ys" and "k < length ys"
  shows "length (filter (\<lambda>x. x < ys ! k) (ys :: nanos list)) \<le> k"
proof -
  have "filter (\<lambda>x. x < ys ! k) (drop k ys) = []"
    using assms by (auto simp: filter_empty_conv set_conv_nth not_less intro!: sorted_nth_mono)
  then have "length (filter (\<lambda>x. x < ys ! k) (take k ys @ drop k ys)) \<le> k"
    using length_filter_le [of "\<lambda>x. x < ys ! k" "take k ys"] by (simp only: filter_append length_append) simp
  then show ?thesis by (simp only: append_take_drop_id)
qed

lemma unat_ucast_64: "unat (ucast (w :: u32) :: u64) = unat w"
proof -
  have "unat w < 4294967296" using unsigned_less [of w, where 'a = nat] by simp
  then show ?thesis by (simp add: unsigned_ucast_eq take_bit_nat_eq_self)
qed

lemma ceil_div_bounds:
  assumes "0 < d" and "0 < x" and "c = x div d + (if x mod d = 0 then 0 else 1)"
  shows "x \<le> d * c" and "0 < c" and "d * (c - 1) < (x :: nat)"
proof -
  obtain Q R where e: "x div d = Q" "x mod d = R" "x = d * Q + R" "R < d"
    using assms(1) by (metis mod_less_divisor mult_div_mod_eq)
  show "x \<le> d * c" using e assms(3) by (auto simp: algebra_simps)
  show c: "0 < c" using e assms by (cases "R = 0") auto
  show "d * (c - 1) < x" using e assms c by (cases "R = 0") (auto simp: algebra_simps)
qed

lemma nearest_rank_val:
  assumes "probe_ok p" and "ys \<noteq> []" and "length ys < 2 ^ 60"
  obtains k where "nearest_rank ys p = Some (ys ! k)" "k < length ys"
    "unat (qp_numerator p) * length ys \<le> unat (qp_denominator p) * Suc k"
    "unat (qp_denominator p) * k < unat (qp_numerator p) * length ys"
proof -
  define n where "n = length ys"
  define a where "a = unat (qp_numerator p)"
  define d where "d = unat (qp_denominator p)"
  have ad: "0 < a" "a \<le> d" using assms(1) by (auto simp: probe_ok_def a_def d_def word_le_nat_alt unat_gt_0)
  have n: "0 < n" "n < 2 ^ 60" using assms by (auto simp: n_def)
  let ?n = "word_of_nat n :: u64"
  have un: "unat ?n = n" using n by (simp add: unat_of_nat take_bit_nat_eq_self)
  have ua: "unat (ucast (qp_numerator p) :: u64) = a" and ud: "unat (ucast (qp_denominator p) :: u64) = d"
    by (simp_all add: a_def d_def unat_ucast_64)
  have dz: "(ucast (qp_denominator p) :: u64) \<noteq> 0" using ud ad by (metis le_zero_eq less_numeral_extra(3) unat_0)
  obtain q r where qr: "divmod_u128_u64 (mul_u64_to_u128 (ucast (qp_numerator p)) ?n) (ucast (qp_denominator p)) = (q, r)"
    by force
  have q: "u128_val q = a * n div d" and r: "unat r = a * n mod d"
    using divmod_u128_u64_val [OF dz qr] ua ud un by (simp_all add: mul_u64_to_u128_val)
  have "a * n div d \<le> n" using ad div_le_mono [of "a * n" "d * n" d] by simp
  then have "u128_val q < 18446744073709551616" using q n by simp
  then have "hi q = 0" by (simp add: fits_u64_def flip: fits_u64_iff)
  then have lq: "unat (lo q) = a * n div d" using q by (simp add: u128_val_def)
  define c where "c = a * n div d + (if a * n mod d = 0 then 0 else 1)"
  note c = ceil_div_bounds [of d "a * n" c]
  have c1: "a * n \<le> d * c" and cpos: "0 < c" and c2: "d * (c - 1) < a * n"
    using c ad n by (simp_all add: c_def)
  have cn: "c \<le> n"
  proof (rule ccontr)
    assume "\<not> c \<le> n"
    then have "n \<le> c - 1" by simp
    then have "d * n \<le> d * (c - 1)" by (rule mult_le_mono2)
    moreover have "a * n \<le> d * n" using ad by simp
    ultimately show False using c2 by linarith
  qed
  define w where "w = (if r \<noteq> 0 then lo q + 1 else lo q)"
  have w: "unat w = c"
  proof -
    have "r = 0 \<longleftrightarrow> a * n mod d = 0" using r by (metis unat_eq_0)
    moreover have "unat (lo q + 1) = unat (lo q) + 1"
      using \<open>a * n div d \<le> n\<close> n lq by (simp add: unat_word_ariths)
    ultimately show ?thesis using lq by (simp add: w_def c_def)
  qed
  then have w0: "w \<noteq> 0" and wn: "\<not> w > ?n" using cpos cn un by (auto simp: word_less_nat_alt)
  then have w1: "unat (w - 1) = c - 1" using w by (simp add: unat_minus_one)
  have "nearest_rank ys p = Some (ys ! (c - 1))"
    using assms(2) w0 wn w1 qr unfolding w_def by (auto simp: nearest_rank_def Let_def n_def [symmetric])
  moreover have "c - 1 < length ys" using cpos cn by (simp add: n_def)
  ultimately show thesis using that [of "c - 1"] c1 c2 cpos by (simp add: a_def d_def n_def)
qed

lemma nearest_rank_quantile:
  assumes "probe_ok p" and "xs \<noteq> []" and "length xs < 2 ^ 60"
  shows "\<exists>v. nearest_rank (sort xs) p = Some v \<and> is_quantile xs p v"
proof -
  let ?ys = "sort xs"
  have ne: "?ys \<noteq> []" using assms(2) by (metis set_empty set_sort)
  obtain k where k: "nearest_rank ?ys p = Some (?ys ! k)" "k < length ?ys"
    "unat (qp_numerator p) * length ?ys \<le> unat (qp_denominator p) * Suc k"
    "unat (qp_denominator p) * k < unat (qp_numerator p) * length ?ys"
    using nearest_rank_val [of p ?ys] assms(1,3) ne by auto
  have s: "sorted ?ys" by simp
  have f: "length (filter P xs) = length (filter P ?ys)" for P
    by (metis filter_sort length_sort)
  have "unat (qp_denominator p) * Suc k \<le> unat (qp_denominator p) * length (filter (\<lambda>x. x \<le> ?ys ! k) ?ys)"
    by (rule mult_le_mono2 [OF sorted_filter_le [OF s k(2)]])
  moreover have "unat (qp_denominator p) * length (filter (\<lambda>x. x < ?ys ! k) ?ys) \<le> unat (qp_denominator p) * k"
    by (rule mult_le_mono2 [OF sorted_filter_less [OF s k(2)]])
  ultimately have "is_quantile xs p (?ys ! k)" using k(2-4) nth_mem [OF k(2)] unfolding is_quantile_def f
    by (simp only: length_sort set_sort simp_thms) (intro conjI; linarith)
  then show ?thesis using k(1) by simp
qed

section \<open>Aggregates\<close>

lemma foldl_plus_word: "foldl (+) (u :: u64) bs = u + sum_list bs"
  by (induction bs arbitrary: u) (auto simp: add.assoc)

lemma sum_list_bump: "i < length bs \<Longrightarrow> sum_list (bs[i := bs ! i + 1]) = sum_list bs + (1 :: u64)"
  by (induction bs arbitrary: i) (auto simp: nth_Cons add_ac split: nat.split)

lemma hist_total_add: "hist_wf h \<Longrightarrow> hist_total (hist_add v h) = hist_total h + 1"
  using bucket_index_le [of v "hg_spec h"]
  by (auto simp: hist_total_def hist_add_def hist_wf_def Let_def foldl_plus_word sum_list_bump bucket_count_def
      less_Suc_eq_le)

lemma hist_total_foldl:
  "hist_wf h \<Longrightarrow> hist_total (foldl (\<lambda>h v. hist_add v h) h xs) = hist_total h + word_of_nat (length xs)"
  by (induction xs arbitrary: h) (auto simp: hist_add_wf hist_total_add)

lemma foldl_pair:
  "foldl (\<lambda>(s, h) v. (f v s, g v h)) (s, h) xs = (foldl (\<lambda>s v. f v s) s xs, foldl (\<lambda>h v. g v h) h xs)"
  by (induction xs arbitrary: s h) auto

lemma empty_histogram_wf:
  "hist_wf (empty_histogram spec)" "hg_spec (empty_histogram spec) = spec" "hist_total (empty_histogram spec) = 0"
  by (simp_all add: hist_wf_def empty_histogram_def hist_total_def foldl_plus_word sum_list_replicate)

lemma sorted_ends:
  assumes "ys \<noteq> []" and "sorted ys"
  shows "hd ys = Min (set (ys :: nanos list))" and "last ys = Max (set ys)"
proof -
  show "hd ys = Min (set ys)" using assms by (cases ys) (auto intro!: Min_eqI [symmetric])
  have "\<forall>x \<in> set ys. x \<le> last ys" using assms by (induction ys) auto
  then show "last ys = Max (set ys)" using assms(1) by (intro Max_eqI [symmetric]) auto
qed

lemma sort_ends:
  assumes "xs \<noteq> []"
  shows "hd (sort xs) = Min (set (xs :: nanos list))" and "last (sort xs) = Max (set xs)"
  using sorted_ends [of "sort xs"] assms set_sort [where xs = xs] by (metis set_empty sorted_sort)+

text \<open>What a distribution promises about the values it was computed from.\<close>

definition describes :: "nanos list \<Rightarrow> histogram_spec \<Rightarrow> quantile_probe list \<Rightarrow> distribution \<Rightarrow> bool" where
  "describes xs spec probes d \<longleftrightarrow>
     (let n = length xs; total_ns = sum_list xs; h = d_histogram d in
      unat (d_count d) = n \<and> d_min_ns d = Some (Min (set xs)) \<and> d_max_ns d = Some (Max (set xs)) \<and>
      d_sum_overflowed d = (\<not> in_i64 total_ns) \<and>
      d_sum_ns d = (if in_i64 total_ns then Some total_ns else None) \<and>
      d_mean_ns d = (if in_i64 total_ns then Some (total_ns div int n) else None) \<and>
      uint (d_mean_remainder_ns d) = (if in_i64 total_ns then total_ns mod int n else 0) \<and>
      hg_spec h = spec \<and> hist_total h = d_count d \<and>
      unat (hg_underflow h) = length (filter (\<lambda>v. v < 0) xs) \<and>
      map unat (hg_buckets h) =
        map (\<lambda>i. length (filter (\<lambda>v. 0 \<le> v \<and> bucket_index v spec = i) xs)) [0..<bucket_count spec] \<and>
      d_probes d = probes \<and>
      list_all2 (\<lambda>p q. \<exists>v. q = Some v \<and> is_quantile xs p v) probes (d_quantiles d))"

lemma length_filter_sort: "length (filter P (sort xs)) = length (filter P (xs :: nanos list))"
  by (metis filter_sort length_sort)

lemma sum_list_sort: "sum_list (sort xs) = sum_list (xs :: nanos list)"
  by (metis mset_sort sum_mset_sum_list)

lemma unat_count: "n < 2 ^ 60 \<Longrightarrow> unat (word_of_nat n :: u64) = n"
  by (simp add: unat_of_nat take_bit_nat_eq_self)

lemma unat_count_filter: "length xs < 2 ^ 60 \<Longrightarrow> unat (word_of_nat (length (filter P xs)) :: u64) = length (filter P xs)"
  by (rule unat_count) (use length_filter_le [of P xs] in linarith)

lemma aggregate_sum:
  assumes "\<forall>x \<in> set xs. in_i64 x" and "length xs < 2 ^ 60" and "s = foldl (\<lambda>s v. ss_add v s) ss_zero xs"
  shows "\<not> ss_overflowed s" and "ss_to_i64 s = (if in_i64 (sum_list xs) then Some (sum_list xs) else None)"
proof -
  have b: "pos_part xs < 2 ^ 127" "neg_part xs < 2 ^ 127"
    using parts_bound [OF assms(1)] assms(2) by simp_all
  then have v: "u128_val (ss_positive s) = pos_part xs" "u128_val (ss_negative s) = neg_part xs"
    using ss_foldl_val [OF assms(1), of ss_zero] assms(3) by (simp_all add: ss_zero_def u128_val_def)
  show "\<not> ss_overflowed s" "ss_to_i64 s = (if in_i64 (sum_list xs) then Some (sum_list xs) else None)"
    using ss_to_i64_val [OF v(1) b(1) v(2) b(2)] by (simp_all add: parts_sum)
qed

lemma aggregate_describes:
  assumes "xs \<noteq> []" and "\<forall>x \<in> set xs. in_i64 x" and "length xs < 2 ^ 60" and "list_all probe_ok probes"
    and "length xs \<le> max_samples_per_path l" and "length probes \<le> max_quantile_probes l"
  shows "\<exists>d. aggregate xs spec probes l = Inr d \<and> describes xs spec probes d"
proof -
  let ?ys = "sort xs" and ?n = "length xs" and ?t = "sum_list xs"
  define s where "s = foldl (\<lambda>s v. ss_add v s) ss_zero ?ys"
  define h where "h = foldl (\<lambda>h v. hist_add v h) (empty_histogram spec) ?ys"
  have S: "\<not> ss_overflowed s" "ss_to_i64 s = (if in_i64 ?t then Some ?t else None)"
    using aggregate_sum [of ?ys s] assms(2,3) by (simp_all add: s_def sum_list_sort)
  have n: "0 < ?n" using assms(1) by simp
  have M: "floor_mean s (word_of_nat ?n) =
     (if in_i64 ?t then (Some (?t div int ?n), word_of_int (?t mod int ?n)) else (None, 0))"
    by (rule floor_mean_val [OF n _ S(2)]) (use assms(3) in simp)
  have r: "uint (word_of_int (?t mod int ?n) :: u64) = ?t mod int ?n"
  proof -
    have "0 \<le> ?t mod int ?n" "?t mod int ?n < int ?n" using n by simp_all
    then show ?thesis using assms(3) by (simp add: unsigned_of_int take_bit_int_eq_self)
  qed
  note H = hist_foldl [OF empty_histogram_wf(1) refl h_def]
  have HB: "map unat (hg_buckets h) =
      map (\<lambda>i. length (filter (\<lambda>v. 0 \<le> v \<and> bucket_index v spec = i) xs)) [0..<bucket_count spec]"
    using H assms(3) by (intro nth_equalityI)
      (auto simp: hist_wf_def empty_histogram_wf empty_histogram_def length_filter_sort unat_count_filter)
  have HU: "unat (hg_underflow h) = length (filter (\<lambda>v. v < 0) xs)"
    using H assms(3) by (simp add: empty_histogram_def length_filter_sort unat_count_filter)
  have HT: "hist_total h = word_of_nat ?n"
    using hist_total_foldl [OF empty_histogram_wf(1), of spec ?ys] by (simp add: h_def empty_histogram_wf)
  have Q: "list_all2 (\<lambda>p q. \<exists>v. q = Some v \<and> is_quantile xs p v) probes (map (nearest_rank ?ys) probes)"
    using assms(4) nearest_rank_quantile [OF _ assms(1,3)]
    by (auto simp: list_all2_conv_all_nth list_all_length)
  have f: "foldl (\<lambda>(s, h) v. (ss_add v s, hist_add v h)) (ss_zero, empty_histogram spec) ?ys = (s, h)"
    by (simp add: foldl_pair s_def h_def)
  let ?d = "(empty_distribution ?n spec probes)\<lparr>d_histogram := h, d_min_ns := Some (hd ?ys), d_max_ns := Some (last ?ys),
      d_sum_ns := ss_to_i64 s, d_sum_overflowed := (ss_overflowed s \<or> ss_to_i64 s = None),
      d_mean_ns := fst (floor_mean s (word_of_nat ?n)), d_mean_remainder_ns := snd (floor_mean s (word_of_nat ?n)),
      d_quantiles := map (nearest_rank ?ys) probes\<rparr>"
  have "aggregate xs spec probes l = Inr ?d"
    using assms(1,5,6) f by (simp add: aggregate_def empty_distribution_def Let_def split_beta)
  moreover have "describes xs spec probes ?d"
    unfolding describes_def Let_def
    using S M r HB HU HT Q H unat_count [OF assms(3)] sort_ends [OF assms(1)]
    by (simp add: empty_distribution_def empty_histogram_wf)
  ultimately show ?thesis by blast
qed

section \<open>Histogram bounds\<close>

lemma bounds_error_None:
  "bounds_error prev bs = None \<longleftrightarrow>
     sorted_wrt (<) (case prev of None \<Rightarrow> bs | Some p \<Rightarrow> p # bs) \<and> (\<forall>b \<in> set bs. 0 \<le> b)"
proof (induction prev bs rule: bounds_error.induct)
  case (2 prev b rest)
  then show ?case by (cases prev) (auto simp: not_less)
qed (auto split: option.splits)

lemma make_spec_Inr:
  "make_spec bs l = Inr spec \<longleftrightarrow>
     spec = bs \<and> length bs \<le> max_histogram_buckets l \<and> sorted_wrt (<) bs \<and> (\<forall>b \<in> set bs. 0 \<le> b)"
  using bounds_error_None [of None bs]
  by (auto simp: make_spec_def not_less fail_def split: option.splits)

lemma bucket_index_less: "i < bucket_index v bs \<Longrightarrow> bs ! i \<le> v"
  by (induction v bs arbitrary: i rule: bucket_index.induct) (auto simp: nth_Cons split: nat.splits if_splits)

lemma bucket_index_stop: "bucket_index v bs < length bs \<Longrightarrow> v < bs ! bucket_index v bs"
  by (induction v bs rule: bucket_index.induct) (auto split: if_splits)

lemma bucket_index_interval:
  assumes "sorted_wrt (<) bs" and "i \<le> length bs"
  shows "bucket_index v bs = i \<longleftrightarrow> (i = 0 \<or> bs ! (i - 1) \<le> v) \<and> (i = length bs \<or> v < bs ! i)"
proof
  assume "bucket_index v bs = i"
  then show "(i = 0 \<or> bs ! (i - 1) \<le> v) \<and> (i = length bs \<or> v < bs ! i)"
    using bucket_index_less [of "i - 1" v bs] bucket_index_stop [of v bs] assms(2)
    by (cases "i = 0"; cases "i = length bs") simp_all
next
  assume A: "(i = 0 \<or> bs ! (i - 1) \<le> v) \<and> (i = length bs \<or> v < bs ! i)"
  let ?k = "bucket_index v bs"
  have le: "?k \<le> length bs" by (rule bucket_index_le)
  have mono: "bs ! a \<le> bs ! b" if "a \<le> b" "b < length bs" for a b
    using sorted_wrt_nth_less [OF assms(1), of a b] that by (cases "a = b") auto
  show "?k = i"
  proof (rule ccontr)
    assume "?k \<noteq> i"
    then consider "?k < i" | "i < ?k" by linarith
    then show False
    proof cases
      case 1
      then have "v < bs ! ?k" using bucket_index_stop [of v bs] assms(2) by simp
      moreover have "bs ! ?k \<le> bs ! (i - 1)" using 1 assms(2) by (intro mono) auto
      ultimately show False using A 1 by simp
    next
      case 2
      then have "bs ! i \<le> v" by (rule bucket_index_less)
      then show False using A 2 le by simp
    qed
  qed
qed

text \<open>Accepted histogram bounds are within the limit, non-negative and strictly increasing, and
  under accepted bounds bucket \<open>i\<close> receives exactly the values from bound \<open>i - 1\<close> (inclusive) to bound
  \<open>i\<close> (exclusive); the built-in bounds are accepted.\<close>

lemma histogram_bounds:
  assumes "make_spec bs l = Inr spec" and "i < bucket_count spec" and "22 \<le> max_histogram_buckets l"
  shows "spec = bs \<and> length bs \<le> max_histogram_buckets l \<and> sorted_wrt (<) bs \<and> (\<forall>b \<in> set bs. 0 \<le> b)
    \<and> (bucket_index v spec = i \<longleftrightarrow>
        (i = 0 \<or> spec ! (i - 1) \<le> v) \<and> (i = length spec \<or> v < spec ! i))
    \<and> make_spec latency_default l = Inr latency_default"
proof -
  have a: "spec = bs" "length bs \<le> max_histogram_buckets l" "sorted_wrt (<) bs" "\<forall>b \<in> set bs. 0 \<le> b"
    using assms(1) by (simp_all add: make_spec_Inr)
  have d: "make_spec latency_default l = Inr latency_default"
    using assms(3) by (simp add: make_spec_Inr latency_default_def)
  show ?thesis using a d bucket_index_interval [OF a(3), of i v] assms(2) by (simp add: bucket_count_def)
qed

lemma histogram_bounds_example:
  "bucket_index 20 [10, 20, 40] = 2 \<and> make_spec [10, 20, 40] default_limits = Inr [10, 20, 40]"
proof -
  have m: "make_spec [10, 20, 40] default_limits = Inr [10, 20, 40]"
    by (simp add: make_spec_Inr default_limits_def)
  have "22 \<le> max_histogram_buckets default_limits" by (simp add: default_limits_def)
  from histogram_bounds [OF m _ this, of 2 20] m show ?thesis by (simp add: bucket_count_def)
qed

section \<open>The aggregate\<close>

text \<open>C7: An accepted non-empty aggregate is exact: count, minimum and maximum; the sum and the floored
  mean with its remainder whenever the mathematical sum fits 64 bits, and the overflow flag otherwise;
  per bucket counts that add up to the count; and nearest rank quantiles. It fails exactly when a limit
  is exceeded.\<close>

theorem aggregate_exact:
  assumes "xs \<noteq> []" and "\<forall>x \<in> set xs. in_i64 x" and "length xs < 2 ^ 60" and "list_all probe_ok probes"
  shows "if length xs \<le> max_samples_per_path l \<and> length probes \<le> max_quantile_probes l
    then \<exists>d. aggregate xs spec probes l = Inr d \<and> describes xs spec probes d
    else \<exists>e. aggregate xs spec probes l = Inl e \<and> err_code e = OutOfRange"
  using aggregate_describes [OF assms, of l spec] by (auto simp: aggregate_def fail_def Error_def)

theorem aggregate_exact_witness:
  "\<exists>d. aggregate [5, -7, 5] [0, 10] [] default_limits = Inr d
     \<and> d_sum_ns d = Some 3 \<and> d_mean_ns d = Some 1 \<and> unat (hg_underflow (d_histogram d)) = 1"
proof -
  have o: "\<forall>x \<in> set [5, -7, 5]. in_i64 x" by (simp add: in_i64_iff)
  obtain d where d: "aggregate [5, -7, 5] [0, 10] [] default_limits = Inr d" "describes [5, -7, 5] [0, 10] [] d"
    using aggregate_exact [OF _ o, of "[]" default_limits "[0, 10]"] by (auto simp: default_limits_def)
  have i: "in_i64 3" by (simp add: in_i64_iff)
  from d(2) have "d_sum_ns d = Some 3" "d_mean_ns d = Some 1" "unat (hg_underflow (d_histogram d)) = 1"
    by (simp_all add: describes_def Let_def i)
  then show ?thesis using d(1) by blast
qed

lemma aggregate_mset:
  assumes "mset xs = mset ys"
  shows "aggregate xs spec probes l = aggregate ys spec probes l"
proof -
  have "sort xs = sort ys" using assms by (metis properties_for_sort mset_sort sorted_sort)
  moreover have "length xs = length ys" using assms by (rule mset_eq_length)
  moreover have "xs = [] \<longleftrightarrow> ys = []" using assms by (metis mset_zero_iff mset_zero_iff_right)
  ultimately show ?thesis by (cases "ys = []") (simp_all add: aggregate_def Let_def)
qed

text \<open>The aggregate depends on the values only, not on the order they arrived in.\<close>

lemma aggregate_order_independent:
  assumes "mset xs = mset ys"
  shows "aggregate xs spec probes l = aggregate ys spec probes l"
  using assms by (rule aggregate_mset)

lemma aggregate_order_independent_example:
  "aggregate [3, 1, 2] [] [] default_limits = aggregate [1, 2, 3] [] [] default_limits"
  by (rule aggregate_order_independent) simp

text \<open>\<^verbatim>\<open>make_probe\<close> accepts exactly the fractions in \<open>(0, 1]\<close>, the built-in probes pass its
  assertion, and the order on probes compares the fractions without wrap-around.\<close>

lemma probes_are_fractions:
  assumes "make_probe a b = Inr p" and "make_probe c d = Inr q"
  shows "0 < a \<and> a \<le> b \<and> probe_ok p \<and> (\<exists>ps. default_quantile_probes = Some ps \<and> list_all probe_ok ps \<and> length ps = 4)
    \<and> (probe_less p q \<longleftrightarrow> unat a * unat d < unat c * unat b)"
proof -
  have prod: "unat ((ucast x :: u64) * ucast y) = unat x * unat y" for x y :: u32
  proof -
    have "unat x < 4294967296" "unat y < 4294967296"
      using unsigned_less [of x, where 'a = nat] unsigned_less [of y, where 'a = nat] by simp_all
    then have "unat x * unat y < 4294967296 * 4294967296" by (intro mult_strict_mono) auto
    then show ?thesis by (simp add: unat_word_ariths unat_ucast_64)
  qed
  have V: "p = \<lparr>qp_numerator = a, qp_denominator = b\<rparr>" "0 < a" "a \<le> b" "q = \<lparr>qp_numerator = c, qp_denominator = d\<rparr>"
    using assms by (auto simp: make_probe_def fail_def word_gt_0 split: if_splits)
  have "default_quantile_probes = Some [\<lparr>qp_numerator = 50, qp_denominator = 100\<rparr>, \<lparr>qp_numerator = 90, qp_denominator = 100\<rparr>,
     \<lparr>qp_numerator = 99, qp_denominator = 100\<rparr>, \<lparr>qp_numerator = 999, qp_denominator = 1000\<rparr>]"
    by (simp add: default_quantile_probes_def make_probe_def)
  then have "\<exists>ps. default_quantile_probes = Some ps \<and> list_all probe_ok ps \<and> length ps = 4"
    by (intro exI conjI) (assumption, simp_all add: probe_ok_def)
  moreover have "probe_less p q \<longleftrightarrow> unat a * unat d < unat c * unat b" "probe_ok p"
    using V by (simp_all add: probe_less_def word_less_nat_alt prod probe_ok_def)
  ultimately show ?thesis using V by blast
qed

lemma probes_are_fractions_example:
  "probe_less \<lparr>qp_numerator = 1, qp_denominator = 2\<rparr> \<lparr>qp_numerator = 2, qp_denominator = 3\<rparr>"
  using probes_are_fractions [of 1 2 "\<lparr>qp_numerator = 1, qp_denominator = 2\<rparr>" 2 3 "\<lparr>qp_numerator = 2, qp_denominator = 3\<rparr>"]
  by (simp add: make_probe_def)

end
