(* ===== verification/Ingest_Gate.thy ===== *)
theory Ingest_Gate
  imports Stats_Distribution
begin

text \<open>
  \<^verbatim>\<open>ingest/ingest.hpp\<close> and \<^verbatim>\<open>ingest/ingest.cpp\<close>: the admission gate. The catalog and the clock
  registry are the gate's references to objects it never changes: they are arguments. The gate keeps
  one fence per source; \<^verbatim>\<open>classify\<close>, \<^verbatim>\<open>apply_session_fence\<close> and \<^verbatim>\<open>derive_dwells\<close> are split into
  one definition per phase, in the order of the source, and threaded by \<^verbatim>\<open>admit\<close>.
\<close>

section \<open>Vocabulary and state\<close>

datatype admit_verdict = AcceptedCurrent | AcceptedHistorical | Rejected

definition kVerdicts :: "(admit_verdict \<times> string) list" where
  "kVerdicts = [(AcceptedCurrent, ''accepted_current''), (AcceptedHistorical, ''accepted_historical''),
     (Rejected, ''rejected'')]"

definition verdict_to_string :: "admit_verdict \<Rightarrow> string" where
  "verdict_to_string = enum_name kVerdicts ''rejected''"

interpretation verdict_names: named_enum kVerdicts "''rejected''"
proof unfold_locales
  show "e \<in> fst ` set kVerdicts" for e by (cases e) (simp_all add: kVerdicts_def)
qed (simp_all add: kVerdicts_def)

record sample_verdict =
  sv_id :: measurement_id
  sv_verdict :: admit_verdict
  sv_evidence :: evidence

definition kMaxDetailedVerdicts :: nat where "kMaxDetailedVerdicts = 64"

text \<open>\<open>rep_reason_counts\<close> is keyed by the number of the reason code, the order of the source's map.\<close>

record ingest_report =
  rep_received :: u64
  rep_accepted_current :: u64
  rep_accepted_historical :: u64
  rep_rejected :: u64
  rep_hop_dwells_computed :: u64
  rep_hop_dwells_unknown :: u64
  rep_queue_dwells_computed :: u64
  rep_queue_dwells_unknown :: u64
  rep_sequence_gaps :: u64
  rep_reordered :: u64
  rep_replays :: u64
  rep_verdicts_truncated :: bool
  rep_verdicts :: "sample_verdict list"
  rep_reason_counts :: "(nat, u64) omap"
  rep_evidence :: evidence

definition empty_report :: ingest_report where
  "empty_report = \<lparr>rep_received = 0, rep_accepted_current = 0, rep_accepted_historical = 0,
     rep_rejected = 0, rep_hop_dwells_computed = 0, rep_hop_dwells_unknown = 0,
     rep_queue_dwells_computed = 0, rep_queue_dwells_unknown = 0, rep_sequence_gaps = 0,
     rep_reordered = 0, rep_replays = 0, rep_verdicts_truncated = False, rep_verdicts = [],
     rep_reason_counts = [], rep_evidence = default_evidence\<rparr>"

definition count_reason :: "nat \<Rightarrow> u64 \<Rightarrow> (nat, u64) omap \<Rightarrow> (nat, u64) omap" where
  "count_reason c n counts =
     om_set c ((case om_find counts c of Some k \<Rightarrow> k | None \<Rightarrow> 0) + n) counts"

definition note_reasons :: "evidence \<Rightarrow> ingest_report \<Rightarrow> ingest_report" where
  "note_reasons ev rep = rep\<lparr>rep_reason_counts :=
     foldl (\<lambda>counts r. count_reason (reason_ordinal (reason_code_of r)) 1 counts)
       (rep_reason_counts rep) (ev_reasons ev)\<rparr>"

definition record_reason :: "reason_code \<Rightarrow> u64 \<Rightarrow> ingest_report \<Rightarrow> ingest_report" where
  "record_reason c n rep = rep\<lparr>rep_reason_counts := count_reason (reason_ordinal c) n (rep_reason_counts rep)\<rparr>"

record ingest_request =
  req_records :: "measurement_record list"
  req_received_at :: timestamp
  req_received_mono :: mono_time

record session_state =
  ses_ordinal :: u64
  ses_source_revision :: revision
  ses_has_last_sequence :: bool
  ses_last_sequence :: sequence
  ses_recent_sequences :: "u64 set"
  ses_recent_order :: "u64 list"
  ses_accepted_current :: u64
  ses_accepted_historical :: u64
  ses_rejected :: u64

type_synonym session_key = "epoch_id \<times> incarnation_id"

record source_fence_state =
  fen_next_ordinal :: u64
  fen_sessions :: "(session_key, session_state) omap"
  fen_current_epoch :: epoch_id
  fen_current_incarnation :: incarnation_id
  fen_current_ordinal :: u64
  fen_evicted_sessions :: u64
  fen_seen_revision :: revision

definition new_fence :: source_fence_state where
  "new_fence = \<lparr>fen_next_ordinal = 1, fen_sessions = [], fen_current_epoch = no_id,
     fen_current_incarnation = no_id, fen_current_ordinal = 0, fen_evicted_sessions = 0,
     fen_seen_revision = 0\<rparr>"

record ingest_gate =
  gate_policy :: runtime_policy
  gate_fences :: "(source_id, source_fence_state) omap"

definition new_gate :: "runtime_policy \<Rightarrow> ingest_gate" where
  "new_gate pol = \<lparr>gate_policy = pol, gate_fences = []\<rparr>"

definition restore_fence :: "source_id \<Rightarrow> source_fence_state \<Rightarrow> ingest_gate \<Rightarrow> ingest_gate" where
  "restore_fence s st g = g\<lparr>gate_fences := om_set s st (gate_fences g)\<rparr>"

fun strictly_increasing_hop_indices :: "hop_observation list \<Rightarrow> bool" where
  "strictly_increasing_hop_indices (a # b # rest) \<longleftrightarrow>
     ho_index a < ho_index b \<and> strictly_increasing_hop_indices (b # rest)"
| "strictly_increasing_hop_indices _ \<longleftrightarrow> True"

fun freshness_reason :: "freshness \<Rightarrow> reason_code" where
  "freshness_reason Fresh = EvidenceFresh"
| "freshness_reason Aging = EvidenceAging"
| "freshness_reason StaleFreshness = EvidenceStale"
| "freshness_reason Expired = EvidenceExpired"
| "freshness_reason UnknownFreshness = FreshnessUnknown"

section \<open>The session fence\<close>

text \<open>The session with the least ordinal other than the current one; ties keep the first in map order.\<close>

fun oldest_session ::
  "u64 \<Rightarrow> (session_key, session_state) omap \<Rightarrow> (session_key \<times> session_state) option
     \<Rightarrow> (session_key \<times> session_state) option" where
  "oldest_session current [] best = best"
| "oldest_session current ((k, st) # rest) best =
     (if ses_ordinal st = current then oldest_session current rest best
      else if (case best of None \<Rightarrow> True | Some (_, b) \<Rightarrow> ses_ordinal st < ses_ordinal b)
      then oldest_session current rest (Some (k, st))
      else oldest_session current rest best)"

lemma oldest_session_mem:
  "oldest_session current m best = Some e \<Longrightarrow> e \<in> set m \<or> best = Some e"
  by (induction current m best rule: oldest_session.induct) (auto split: if_splits)

function evict_sessions ::
  "nat \<Rightarrow> evidence \<Rightarrow> source_fence_state \<Rightarrow> evidence \<times> source_fence_state" where
  "evict_sessions limit ev fence =
     (if length (fen_sessions fence) > limit then
        (case oldest_session (fen_current_ordinal fence) (fen_sessions fence) None of
           None \<Rightarrow> (ev, fence)
         | Some (k, _) \<Rightarrow>
             evict_sessions limit (add_reason SessionEvicted (id_to_hex (fst k)) ev)
               (fence\<lparr>fen_sessions := om_erase k (fen_sessions fence),
                      fen_evicted_sessions := fen_evicted_sessions fence + 1\<rparr>))
      else (ev, fence))"
  by pat_completeness auto

termination evict_sessions
proof (relation "measure (\<lambda>(_, _, fence). length (fen_sessions fence))", simp)
  fix limit ev fence e k st
  assume "oldest_session (fen_current_ordinal fence) (fen_sessions fence) None = Some e" and "(k, st) = e"
  then have "(k, st) \<in> set (fen_sessions fence)" by (auto dest: oldest_session_mem)
  then have "length (om_erase k (fen_sessions fence)) < length (fen_sessions fence)"
    unfolding om_erase_def by (rule length_filter_less) simp
  then show "((limit, add_reason SessionEvicted (id_to_hex (fst k)) ev,
        fence\<lparr>fen_sessions := om_erase k (fen_sessions fence), fen_evicted_sessions := fen_evicted_sessions fence + 1\<rparr>),
       limit, ev, fence) \<in> measure (\<lambda>(_, _, fence). length (fen_sessions fence))"
    by simp
qed

declare evict_sessions.simps [simp del]

definition new_session :: "u64 \<Rightarrow> revision \<Rightarrow> session_state" where
  "new_session n r = \<lparr>ses_ordinal = n, ses_source_revision = r, ses_has_last_sequence = False,
     ses_last_sequence = 0, ses_recent_sequences = {}, ses_recent_order = [], ses_accepted_current = 0,
     ses_accepted_historical = 0, ses_rejected = 0\<rparr>"

definition session_key_of :: "measurement_record \<Rightarrow> session_key" where
  "session_key_of r = (rec_epoch r, rec_incarnation r)"

definition open_session ::
  "limits \<Rightarrow> measurement_record \<Rightarrow> evidence \<Rightarrow> source_fence_state
     \<Rightarrow> evidence \<times> session_state \<times> source_fence_state" where
  "open_session l r ev fence =
     (let state = new_session (fen_next_ordinal fence) (rec_source_revision r);
          ev = (if fen_current_ordinal fence \<noteq> 0
                then add_reason (if rec_epoch r \<noteq> fen_current_epoch fence then EpochAdvanced else IncarnationChanged)
                       (id_to_hex (rec_epoch r)) ev
                else ev);
          fence = fence\<lparr>fen_next_ordinal := fen_next_ordinal fence + 1,
                        fen_sessions := om_set (session_key_of r) state (fen_sessions fence),
                        fen_current_epoch := rec_epoch r, fen_current_incarnation := rec_incarnation r,
                        fen_current_ordinal := ses_ordinal state\<rparr>;
          (ev, fence) = evict_sessions (max_sessions_per_source l) ev fence
      in (ev, state, fence))"

definition find_session ::
  "limits \<Rightarrow> measurement_record \<Rightarrow> admit_verdict \<Rightarrow> evidence \<Rightarrow> source_fence_state
     \<Rightarrow> admit_verdict \<times> evidence \<times> session_state \<times> source_fence_state" where
  "find_session l r verdict ev fence =
     (case om_find (fen_sessions fence) (session_key_of r) of
        None \<Rightarrow> (case open_session l r ev fence of (ev, state, fence) \<Rightarrow> (verdict, ev, state, fence))
      | Some state \<Rightarrow>
          if ses_ordinal state < fen_current_ordinal fence
          then (AcceptedHistorical,
                add_reason (if rec_epoch r \<noteq> fen_current_epoch fence then EpochReplayed else IncarnationReplayed)
                  (id_to_hex (rec_epoch r)) ev, state, fence)
          else (verdict, ev, state, fence))"

definition revision_fence ::
  "measurement_record \<Rightarrow> admit_verdict \<Rightarrow> evidence \<Rightarrow> session_state
     \<Rightarrow> admit_verdict \<times> evidence \<times> session_state" where
  "revision_fence r verdict ev state =
     (let changed = (revision_valid (ses_source_revision state) \<and> ses_source_revision state \<noteq> rec_source_revision r);
          advanced = (rec_source_revision r > ses_source_revision state);
          ev' = (if changed then add_reason RevisionChanged
                   (if advanced then ''session revision advanced'' else ''session revision moved backwards'') ev
                 else ev);
          verdict' = (if changed \<and> \<not> advanced then AcceptedHistorical else verdict);
          state' = (if \<not> revision_valid (ses_source_revision state) \<or> advanced
                    then state\<lparr>ses_source_revision := rec_source_revision r\<rparr> else state)
      in (verdict', ev', state'))"

text \<open>The first component says whether the sequence number is a replay.\<close>

definition sequence_fence ::
  "measurement_record \<Rightarrow> admit_verdict \<Rightarrow> evidence \<Rightarrow> ingest_report \<Rightarrow> session_state
     \<Rightarrow> bool \<times> admit_verdict \<times> evidence \<times> ingest_report \<times> session_state" where
  "sequence_fence r verdict ev rep state =
     (let q = rec_sequence r
      in if \<not> ses_has_last_sequence state
         then (False, verdict, ev, rep, state\<lparr>ses_has_last_sequence := True, ses_last_sequence := q\<rparr>)
         else if q > ses_last_sequence state then
           let gap = q - ses_last_sequence state - 1;
               rep = (if gap \<noteq> 0 then rep\<lparr>rep_sequence_gaps := rep_sequence_gaps rep + gap\<rparr> else rep);
               ev = (if gap \<noteq> 0 then add_reason SequenceGap (show_nat (unat gap)) ev else ev)
           in (False, verdict, ev, rep, state\<lparr>ses_last_sequence := q\<rparr>)
         else if q = ses_last_sequence state \<or> q \<in> ses_recent_sequences state
         then (True, verdict, ev, rep, state)
         else (False, AcceptedHistorical, add_reason SequenceReordered (show_nat (unat q)) ev,
               rep\<lparr>rep_reordered := rep_reordered rep + 1\<rparr>, state))"

fun trim_recent :: "nat \<Rightarrow> u64 list \<Rightarrow> u64 set \<Rightarrow> u64 list \<times> u64 set" where
  "trim_recent window [] seen = ([], seen)"
| "trim_recent window (q # rest) seen =
     (if length (q # rest) > window then trim_recent window rest (seen - {q}) else (q # rest, seen))"

definition remember_sequence :: "nat \<Rightarrow> sequence \<Rightarrow> session_state \<Rightarrow> session_state" where
  "remember_sequence window q state =
     (case trim_recent window (ses_recent_order state @ [q]) (insert q (ses_recent_sequences state)) of
        (order, seen) \<Rightarrow> state\<lparr>ses_recent_order := order, ses_recent_sequences := seen\<rparr>)"

fun count_verdict :: "admit_verdict \<Rightarrow> session_state \<Rightarrow> session_state" where
  "count_verdict AcceptedCurrent st = st\<lparr>ses_accepted_current := ses_accepted_current st + 1\<rparr>"
| "count_verdict AcceptedHistorical st = st\<lparr>ses_accepted_historical := ses_accepted_historical st + 1\<rparr>"
| "count_verdict Rejected st = st\<lparr>ses_rejected := ses_rejected st + 1\<rparr>"

definition fence_of :: "ingest_gate \<Rightarrow> source_id \<Rightarrow> source_fence_state" where
  "fence_of g s = (case om_find (gate_fences g) s of Some f \<Rightarrow> f | None \<Rightarrow> new_fence)"

definition store_session ::
  "measurement_record \<Rightarrow> session_state \<Rightarrow> source_fence_state \<Rightarrow> ingest_gate \<Rightarrow> ingest_gate" where
  "store_session r state fence g =
     g\<lparr>gate_fences := om_set (rec_source r)
       (fence\<lparr>fen_sessions := om_set (session_key_of r) state (fen_sessions fence)\<rparr>) (gate_fences g)\<rparr>"

definition apply_session_fence ::
  "measurement_record \<Rightarrow> admit_verdict \<Rightarrow> evidence \<Rightarrow> ingest_report \<Rightarrow> ingest_gate
     \<Rightarrow> admit_verdict \<times> evidence \<times> ingest_report \<times> ingest_gate" where
  "apply_session_fence r verdict ev rep g =
     (let l = pol_limits (gate_policy g);
          (verdict, ev, state, fence) = find_session l r verdict ev (fence_of g (rec_source r));
          (verdict, ev, state) = revision_fence r verdict ev state;
          (replayed, verdict, ev, rep, state) = sequence_fence r verdict ev rep state
      in if replayed then
           (Rejected,
            add_reason SequenceReplay (show_nat (unat (rec_sequence r)))
              (ev\<lparr>ev_state := Conflicting, ev_freshness := UnknownFreshness\<rparr>),
            rep\<lparr>rep_replays := rep_replays rep + 1\<rparr>,
            store_session r (state\<lparr>ses_rejected := ses_rejected state + 1\<rparr>) fence g)
         else
           (verdict, ev, rep,
            store_session r (count_verdict verdict
              (remember_sequence (sequence_replay_window l) (rec_sequence r) state)) fence g))"

section \<open>Dwells\<close>

definition merge_into :: "evidence \<Rightarrow> hop_observation \<Rightarrow> hop_observation" where
  "merge_into ev hop = hop\<lparr>ho_evidence := merge (ho_evidence hop) ev\<rparr>"

text \<open>The comparison a record asks for: its generation, epoch and incarnation, at its receive time.\<close>

definition compare_for ::
  "clock_registry \<Rightarrow> measurement_record \<Rightarrow> clock_domain_id \<Rightarrow> clock_domain_id \<Rightarrow> clock_comparability option" where
  "compare_for clocks r a b =
     compare clocks a b (stamp_received_at (rec_stamp r)) (rec_generation r) (rec_epoch r) (rec_incarnation r)"

text \<open>The boolean says whether a dwell was computed.\<close>

definition derive_hop_dwell ::
  "clock_registry \<Rightarrow> measurement_record \<Rightarrow> hop_observation \<Rightarrow> hop_observation \<times> bool" where
  "derive_hop_dwell clocks r hop =
     (let hex = id_to_hex (ho_hop hop);
          unset = hop\<lparr>ho_dwell_ns := None\<rparr>;
          entry = ho_entry hop; exit = ho_exit hop
      in if ts_domain entry = ts_domain exit then
           (if ts_ns exit < ts_ns entry then (merge_into (conflicting HopOutOfOrder hex) unset, False)
            else (hop\<lparr>ho_dwell_ns := Some (wrap_i64 (ts_ns exit - ts_ns entry)),
                      ho_dwell_uncertainty_ns := Some 0\<rparr>, True))
         else case compare_for clocks r (ts_domain entry) (ts_domain exit) of
             None \<Rightarrow> (merge_into (refused IncomparableClocks hex) unset, False)
           | Some c \<Rightarrow>
               if \<not> cc_comparable c then (merge_into (cc_evidence c) unset, False)
               else
                 let entry_reference = wrap_i64 (ts_ns entry - cc_offset_first_ns c);
                     exit_reference = wrap_i64 (ts_ns exit - cc_offset_second_ns c)
                 in if exit_reference < entry_reference
                    then (merge_into (conflicting HopOutOfOrder hex) unset, False)
                    else (merge_into (cc_evidence c)
                            (hop\<lparr>ho_dwell_ns := Some (wrap_i64 (exit_reference - entry_reference)),
                                 ho_dwell_uncertainty_ns := Some (cc_uncertainty_ns c)\<rparr>), True))"

definition queue_span ::
  "clock_registry \<Rightarrow> measurement_record \<Rightarrow> name \<Rightarrow> hop_observation \<Rightarrow> hop_observation \<times> bool" where
  "queue_span clocks r qname hop =
     (let unset = hop\<lparr>ho_queue_dwell_ns := None\<rparr>;
          entry = ho_queue_entry hop; exit = ho_queue_exit hop
      in if ts_domain entry = ts_domain exit then
           (if ts_ns exit < ts_ns entry then (merge_into (conflicting HopOutOfOrder qname) unset, False)
            else (hop\<lparr>ho_queue_dwell_ns := Some (wrap_i64 (ts_ns exit - ts_ns entry)),
                      ho_queue_dwell_uncertainty_ns := Some 0\<rparr>, True))
         else case compare_for clocks r (ts_domain entry) (ts_domain exit) of
             None \<Rightarrow> (merge_into (refused IncomparableClocks qname) unset, False)
           | Some c \<Rightarrow>
               if \<not> cc_comparable c then (merge_into (cc_evidence c) unset, False)
               else
                 let entry_reference = wrap_i64 (ts_ns entry - cc_offset_first_ns c);
                     exit_reference = wrap_i64 (ts_ns exit - cc_offset_second_ns c)
                 in if exit_reference < entry_reference
                    then (merge_into (conflicting HopOutOfOrder qname) unset, False)
                    else (merge_into (cc_evidence c)
                            (hop\<lparr>ho_queue_dwell_ns := Some (wrap_i64 (exit_reference - entry_reference)),
                                 ho_queue_dwell_uncertainty_ns := Some (cc_uncertainty_ns c)\<rparr>), True))"

definition derive_queue_dwell ::
  "catalog \<Rightarrow> clock_registry \<Rightarrow> measurement_record \<Rightarrow> hop_def \<Rightarrow> hop_observation \<Rightarrow> hop_observation \<times> bool" where
  "derive_queue_dwell cat clocks r def hop =
     (let unset = hop\<lparr>ho_queue_dwell_ns := None\<rparr>
      in if has_queue def then
           (if \<not> valid_id (ho_queue hop) \<or> ho_queue hop \<noteq> hop_queue def
            then (merge_into (unsupported QueueSemanticsUndeclared (id_to_hex (ho_hop hop))) unset, False)
            else case cat_queue cat (ho_queue hop) of
                Inl _ \<Rightarrow> (merge_into (unsupported UnknownQueue (id_to_hex (ho_queue hop))) unset, False)
              | Inr q \<Rightarrow>
                  if \<not> has_semantics (queue_semantics q) QueueDwell
                  then (merge_into (unsupported QueueSemanticsUndeclared (queue_name q)) unset, False)
                  else if \<not> ts_valid (ho_queue_entry hop) \<or> \<not> ts_valid (ho_queue_exit hop)
                  then (merge_into (unsupported HopUnsupported ''queue residency timestamps are absent'') unset, False)
                  else queue_span clocks r (queue_name q) hop)
         else if valid_id (ho_queue hop)
         then (merge_into (unsupported QueueSemanticsUndeclared (id_to_hex (ho_queue hop))) unset, False)
         else (hop, False))"

definition bump_when :: "bool \<Rightarrow> u64 \<Rightarrow> u64" where "bump_when b n = (if b then n + 1 else n)"

definition derive_hop ::
  "catalog \<Rightarrow> clock_registry \<Rightarrow> measurement_record \<Rightarrow> hop_observation \<Rightarrow> ingest_report
     \<Rightarrow> hop_observation \<times> ingest_report" where
  "derive_hop cat clocks r hop rep =
     (case cat_hop cat (ho_hop hop) of
        Inl _ \<Rightarrow> (hop, rep)
      | Inr def \<Rightarrow>
          let (hop, computed) = derive_hop_dwell clocks r hop;
              rep = rep\<lparr>rep_hop_dwells_computed := bump_when computed (rep_hop_dwells_computed rep),
                        rep_hop_dwells_unknown := bump_when (ho_dwell_ns hop = None) (rep_hop_dwells_unknown rep)\<rparr>;
              (hop, computed) = derive_queue_dwell cat clocks r def hop;
              rep = rep\<lparr>rep_queue_dwells_computed := bump_when computed (rep_queue_dwells_computed rep),
                        rep_queue_dwells_unknown :=
                          bump_when (ho_queue_dwell_ns hop = None) (rep_queue_dwells_unknown rep)\<rparr>
          in (hop, rep))"

fun derive_hops ::
  "catalog \<Rightarrow> clock_registry \<Rightarrow> measurement_record \<Rightarrow> hop_observation list \<Rightarrow> ingest_report
     \<Rightarrow> hop_observation list \<times> ingest_report" where
  "derive_hops cat clocks r [] rep = ([], rep)"
| "derive_hops cat clocks r (h # hs) rep =
     (let (h, rep) = derive_hop cat clocks r h rep;
          (hs, rep) = derive_hops cat clocks r hs rep
      in (h # hs, rep))"

definition derive_dwells ::
  "catalog \<Rightarrow> clock_registry \<Rightarrow> measurement_record \<Rightarrow> ingest_report \<Rightarrow> measurement_record \<times> ingest_report" where
  "derive_dwells cat clocks r rep =
     (let (hs, rep) = derive_hops cat clocks r (rec_hops r) rep in (r\<lparr>rec_hops := hs\<rparr>, rep))"

section \<open>Classification\<close>

text \<open>\<^verbatim>\<open>reject\<close>: a structural contradiction makes the evidence conflicting and the record fatal.\<close>

definition reject :: "reason_code \<Rightarrow> string \<Rightarrow> evidence \<times> bool \<Rightarrow> evidence \<times> bool" where
  "reject c detail st = (add_reason c detail ((fst st)\<lparr>ev_state := Conflicting\<rparr>), True)"

fun reject_all :: "(bool \<times> reason_code \<times> string) list \<Rightarrow> evidence \<times> bool \<Rightarrow> evidence \<times> bool" where
  "reject_all [] st = st"
| "reject_all ((failed, c, detail) # rest) st = reject_all rest (if failed then reject c detail st else st)"

definition structure_checks :: "measurement_record \<Rightarrow> (bool \<times> reason_code \<times> string) list" where
  "structure_checks r =
     (let req = rec_request r; rsp = rec_response r in
     [(\<not> valid_id (rec_epoch r) \<or> \<not> valid_id (rec_incarnation r), InvalidFieldValue,
        ''epoch and incarnation are required''),
      (\<not> revision_valid (rec_source_revision r), RevisionChanged, ''source revision is required''),
      (\<not> valid_id (rec_domain r), ClockDomainMissing, ''the exchange has no clock domain''),
      (ts_domain req \<noteq> rec_domain r \<or> ts_domain rsp \<noteq> rec_domain r, ClockReferenceMismatch,
        ''request and response must belong to the declared exchange clock domain''),
      (ts_ns rsp < ts_ns req, InvalidFieldValue, ''response precedes the request''),
      (\<not> ts_ns rsp < ts_ns req \<and> rec_rtt_ns r \<noteq> wrap_i64 (ts_ns rsp - ts_ns req), InvalidFieldValue,
        ''declared end to end latency is inconsistent''),
      (rec_hops r \<noteq> [] \<and> \<not> strictly_increasing_hop_indices (rec_hops r), HopNotContiguous,
        ''hop indices must be strictly increasing'')])"

definition hop_mismatch :: "path_def \<Rightarrow> hop_observation \<Rightarrow> bool" where
  "hop_mismatch path hop \<longleftrightarrow>
     unat (ho_index hop) \<ge> length (path_hops path) \<or> path_hops path ! unat (ho_index hop) \<noteq> ho_hop hop"

definition check_hop ::
  "catalog \<Rightarrow> path_def \<Rightarrow> hop_observation \<Rightarrow> evidence \<times> bool \<Rightarrow> hop_observation \<times> evidence \<times> bool" where
  "check_hop cat path h st =
     (let hex = id_to_hex (ho_hop h)
      in case cat_hop cat (ho_hop h) of
           Inl _ \<Rightarrow> (merge_into (unsupported UnknownHop hex) h, st)
         | Inr _ \<Rightarrow>
             if \<not> valid_id (ts_domain (ho_entry h)) \<or> \<not> valid_id (ts_domain (ho_exit h))
             then (merge_into (unsupported ClockDomainMissing hex) h, st)
             else if hop_mismatch path h
             then (h, reject HopConflicting ''hop does not match the generation bound path'' st)
             else (h, st))"

fun check_hops ::
  "catalog \<Rightarrow> path_def \<Rightarrow> hop_observation list \<Rightarrow> evidence \<times> bool \<Rightarrow> hop_observation list \<times> evidence \<times> bool" where
  "check_hops cat path [] st = ([], st)"
| "check_hops cat path (h # hs) st =
     (let (h, st) = check_hop cat path h st;
          (hs, st) = check_hops cat path hs st
      in (h # hs, st))"

definition age_phase :: "runtime_policy \<Rightarrow> clock_registry \<Rightarrow> timestamp \<Rightarrow> timestamp \<Rightarrow> evidence \<Rightarrow> evidence" where
  "age_phase pol clocks observed_at now ev =
     (let age = estimate_age clocks observed_at now;
          ev = merge ev (age_evidence age)
      in case age_value age of
           Some a \<Rightarrow>
             let f = classify_age (pol_freshness pol) a
             in add_reason (freshness_reason f) [] (ev\<lparr>ev_freshness := f\<rparr>)
         | None \<Rightarrow> add_reason FreshnessUnknown ''observation age is unknown'' (ev\<lparr>ev_freshness := UnknownFreshness\<rparr>))"

definition inherit_freshness :: "evidence \<Rightarrow> hop_observation \<Rightarrow> hop_observation" where
  "inherit_freshness ev h =
     (if ev_state (ho_evidence h) = Observed
      then h\<lparr>ho_evidence := (ho_evidence h)\<lparr>ev_freshness := ev_freshness ev, ev_confidence := ev_confidence ev\<rparr>\<rparr>
      else h)"

definition generation_fence ::
  "catalog \<Rightarrow> path_def \<Rightarrow> measurement_record \<Rightarrow> admit_verdict \<Rightarrow> evidence \<Rightarrow> admit_verdict \<times> evidence" where
  "generation_fence cat path r verdict ev =
     (let (verdict, ev) =
            (if rec_generation r \<noteq> path_generation path
             then (AcceptedHistorical, add_reason GenerationSuperseded
                     ''record generation differs from the path generation'' ev)
             else (verdict, ev))
      in if is_superseded cat (rec_generation r)
         then (AcceptedHistorical, add_reason GenerationSuperseded (id_to_hex (rec_generation r)) ev)
         else (verdict, ev))"

definition authority_fence ::
  "source_descriptor \<Rightarrow> measurement_record \<Rightarrow> admit_verdict \<Rightarrow> evidence \<Rightarrow> admit_verdict \<times> evidence" where
  "authority_fence src r verdict ev =
     (if rec_source_revision r > src_revision src
      then (Rejected, add_reason RevisionChanged ''record revision is ahead of the registered source revision''
              (ev\<lparr>ev_state := Conflicting\<rparr>))
      else if rec_source_revision r < src_revision src
      then (AcceptedHistorical, add_reason RevisionChanged ''record was produced by an older source revision'' ev)
      else (verdict, ev))"

definition conclude :: "admit_verdict \<Rightarrow> evidence \<Rightarrow> admit_verdict" where
  "conclude verdict ev =
     (if verdict = AcceptedCurrent \<and> \<not> usable ev then AcceptedHistorical else verdict)"

definition fence_phase ::
  "catalog \<Rightarrow> path_def \<Rightarrow> source_descriptor \<Rightarrow> measurement_record \<Rightarrow> admit_verdict \<Rightarrow> evidence \<Rightarrow> ingest_report
     \<Rightarrow> ingest_gate \<Rightarrow> admit_verdict \<times> evidence \<times> ingest_report \<times> ingest_gate" where
  "fence_phase cat path src r verdict ev rep g =
     (let (verdict, ev) = generation_fence cat path r verdict ev;
          (verdict, ev, rep, g) = apply_session_fence r verdict ev rep g;
          (verdict, ev) = authority_fence src r verdict ev
      in (conclude verdict ev, ev, rep, g))"

definition inspect ::
  "catalog \<Rightarrow> clock_registry \<Rightarrow> runtime_policy \<Rightarrow> path_def \<Rightarrow> timestamp \<Rightarrow> measurement_record \<Rightarrow> evidence
     \<Rightarrow> ingest_report \<Rightarrow> measurement_record \<times> evidence \<times> bool \<times> ingest_report" where
  "inspect cat clocks pol path now r ev rep =
     (let st = reject_all (structure_checks r) (ev, False);
          (hs, ev, fatal) = check_hops cat path (rec_hops r) st;
          ev = age_phase pol clocks (stamp_observed_at (rec_stamp r)) now ev;
          r = r\<lparr>rec_hops := map (inherit_freshness ev) hs\<rparr>;
          (r, rep) = derive_dwells cat clocks r rep
      in (r, ev, fatal, rep))"

definition start_record :: "measurement_record \<Rightarrow> measurement_record" where
  "start_record r = r\<lparr>rec_hops := map (\<lambda>h. h\<lparr>ho_evidence := observed Fresh High\<rparr>) (rec_hops r)\<rparr>"

definition refuse_unknown :: "reason_code \<Rightarrow> string \<Rightarrow> evidence \<Rightarrow> evidence" where
  "refuse_unknown c detail ev = add_reason c detail (ev\<lparr>ev_state := Conflicting\<rparr>)"

definition classify ::
  "catalog \<Rightarrow> clock_registry \<Rightarrow> timestamp \<Rightarrow> measurement_record \<Rightarrow> admit_verdict \<Rightarrow> ingest_report \<Rightarrow> ingest_gate
     \<Rightarrow> measurement_record \<times> admit_verdict \<times> evidence \<times> ingest_report \<times> ingest_gate" where
  "classify cat clocks now r verdict rep g =
     (let ev = observed UnknownFreshness High;
          r = start_record r
      in case cat_path cat (rec_path r) of
           Inl _ \<Rightarrow> (r, Rejected, refuse_unknown UnknownPath (id_to_hex (rec_path r)) ev, rep, g)
         | Inr path \<Rightarrow>
         (case cat_source cat (rec_source r) of
           Inl _ \<Rightarrow> (r, Rejected, refuse_unknown UnknownSource (id_to_hex (rec_source r)) ev, rep, g)
         | Inr src \<Rightarrow>
         (case cat_generation cat (rec_generation r) of
           Inl _ \<Rightarrow> (r, Rejected, refuse_unknown UnknownGeneration (id_to_hex (rec_generation r)) ev, rep, g)
         | Inr _ \<Rightarrow>
             let (r, ev, fatal, rep) = inspect cat clocks (gate_policy g) path now r ev rep
             in if fatal then (r, Rejected, ev, rep, g)
                else let (verdict, ev, rep, g) = fence_phase cat path src r verdict ev rep g
                     in (r, verdict, ev, rep, g))))"

section \<open>Admission\<close>

definition stamp_record :: "ingest_request \<Rightarrow> measurement_record \<Rightarrow> measurement_record" where
  "stamp_record req r =
     r\<lparr>rec_stamp := (rec_stamp r)\<lparr>stamp_received_at := req_received_at req,
                                   stamp_received_mono := req_received_mono req\<rparr>,
       rec_id := derive_measurement_id (rec_source r) (rec_epoch r) (rec_incarnation r) (rec_sequence r)\<rparr>"

definition list_verdict :: "sample_verdict \<Rightarrow> ingest_report \<Rightarrow> ingest_report" where
  "list_verdict sv rep =
     (if length (rep_verdicts rep) < kMaxDetailedVerdicts
      then rep\<lparr>rep_verdicts := rep_verdicts rep @ [sv]\<rparr>
      else rep\<lparr>rep_verdicts_truncated := True\<rparr>)"

record admission =
  adm_current :: "measurement_record list"
  adm_history :: "measurement_record list"
  adm_report :: ingest_report
  adm_gate :: ingest_gate

definition settle :: "measurement_record \<Rightarrow> admit_verdict \<Rightarrow> admission \<Rightarrow> admission" where
  "settle r verdict a =
     (let rep = adm_report a
      in case verdict of
           Rejected \<Rightarrow> a\<lparr>adm_report := rep\<lparr>rep_rejected := rep_rejected rep + 1\<rparr>\<rparr>
         | AcceptedHistorical \<Rightarrow> a\<lparr>adm_report := rep\<lparr>rep_accepted_historical := rep_accepted_historical rep + 1\<rparr>,
                                   adm_history := adm_history a @ [r]\<rparr>
         | AcceptedCurrent \<Rightarrow> a\<lparr>adm_report := rep\<lparr>rep_accepted_current := rep_accepted_current rep + 1\<rparr>,
                                adm_current := adm_current a @ [r]\<rparr>)"

definition admit_record ::
  "catalog \<Rightarrow> clock_registry \<Rightarrow> ingest_request \<Rightarrow> measurement_record \<Rightarrow> admission \<Rightarrow> admission" where
  "admit_record cat clocks req r a =
     (case classify cat clocks (req_received_at req) (stamp_record req r) AcceptedCurrent (adm_report a) (adm_gate a) of
        (r, verdict, ev, rep, g) \<Rightarrow>
          let r = r\<lparr>rec_evidence := ev\<rparr>;
              rep = list_verdict \<lparr>sv_id = rec_id r, sv_verdict = verdict, sv_evidence = ev\<rparr> rep;
              rep = note_reasons ev rep
          in settle r verdict (a\<lparr>adm_report := rep, adm_gate := g\<rparr>))"

definition report_evidence :: "ingest_report \<Rightarrow> evidence" where
  "report_evidence rep =
     (let ev = (rep_evidence rep)\<lparr>ev_state := Observed, ev_freshness := Fresh, ev_confidence := High\<rparr>;
          ev = (if rep_rejected rep \<noteq> 0 then ev\<lparr>ev_state := Incomplete, ev_confidence := Low\<rparr> else ev);
          ev = (if rep_replays rep \<noteq> 0 then add_reason SequenceReplay [] ev else ev)
      in if rep_sequence_gaps rep \<noteq> 0
         then add_reason SequenceGap (show_nat (unat (rep_sequence_gaps rep))) ev else ev)"

text \<open>\<^verbatim>\<open>admit\<close> appends to the two vectors its caller passes and replaces the report.\<close>

definition admit ::
  "catalog \<Rightarrow> clock_registry \<Rightarrow> ingest_request \<Rightarrow> admission \<Rightarrow> status \<times> admission" where
  "admit cat clocks req a =
     (let a = a\<lparr>adm_report := empty_report\<rparr>
      in if \<not> ts_valid (req_received_at req)
         then (fail InvalidArgument ''ingest requires a valid receive time'' [], a)
         else if length (req_records req) > max_batch_samples (pol_limits (gate_policy (adm_gate a)))
         then (fail CapacityExceeded ''ingest batch exceeds the configured limit''
                 (show_nat (length (req_records req))), a)
         else
           let a = a\<lparr>adm_report := empty_report\<lparr>rep_received := word_of_nat (length (req_records req))\<rparr>\<rparr>;
               a = foldl (\<lambda>a r. admit_record cat clocks req r a) a (req_records req);
               rep = adm_report a
           in (ok_status, a\<lparr>adm_report := rep\<lparr>rep_evidence := report_evidence rep\<rparr>\<rparr>))"

section \<open>When a record becomes current\<close>

lemma reject_all_snd: "snd (reject_all cs st) \<longleftrightarrow> snd st \<or> (\<exists>(b, _) \<in> set cs. b)"
  by (induction cs st rule: reject_all.induct) (auto simp: reject_def)

lemma reject_all_fst: "\<not> snd (reject_all cs st) \<Longrightarrow> reject_all cs st = st"
  by (induction cs st rule: reject_all.induct) (auto simp: reject_def reject_all_snd split: if_splits)

definition hop_checked :: "catalog \<Rightarrow> path_def \<Rightarrow> hop_observation \<Rightarrow> bool" where
  "hop_checked cat path h \<longleftrightarrow> isl (cat_hop cat (ho_hop h)) \<or> \<not> valid_id (ts_domain (ho_entry h)) \<or>
     \<not> valid_id (ts_domain (ho_exit h)) \<or> \<not> hop_mismatch path h"

lemma check_hop_snd:
  "(snd (snd (check_hop cat path h st)) \<longleftrightarrow> snd st \<or> \<not> hop_checked cat path h) \<and>
   (hop_checked cat path h \<longrightarrow> snd (check_hop cat path h st) = st)"
  by (cases "cat_hop cat (ho_hop h)") (auto simp: hop_checked_def check_hop_def reject_def Let_def)

lemma check_hops_snd:
  "check_hops cat path hs st = (hs', ev, fatal) \<Longrightarrow>
     (fatal \<longleftrightarrow> snd st \<or> \<not> list_all (hop_checked cat path) hs) \<and> (\<not> fatal \<longrightarrow> ev = fst st)"
proof (induction hs arbitrary: st hs' ev fatal)
  case Nil
  then show ?case by (cases st) auto
next
  case (Cons h hs)
  obtain h1 st1 where s: "check_hop cat path h st = (h1, st1)" by (rule prod.exhaust)
  obtain hs2 ev2 f2 where c: "check_hops cat path hs st1 = (hs2, ev2, f2)" by (metis prod_cases3)
  have "ev = ev2 \<and> fatal = f2" using Cons(2) s c by simp
  with Cons(1) [OF c] check_hop_snd [of cat path h st] s show ?case by auto
qed

definition well_structured :: "measurement_record \<Rightarrow> bool" where
  "well_structured r \<longleftrightarrow>
     valid_id (rec_epoch r) \<and> valid_id (rec_incarnation r) \<and> revision_valid (rec_source_revision r) \<and>
     valid_id (rec_domain r) \<and> ts_domain (rec_request r) = rec_domain r \<and> ts_domain (rec_response r) = rec_domain r \<and>
     ts_ns (rec_request r) \<le> ts_ns (rec_response r) \<and>
     rec_rtt_ns r = wrap_i64 (ts_ns (rec_response r) - ts_ns (rec_request r)) \<and>
     sorted_wrt (<) (map ho_index (rec_hops r))"

lemma strictly_increasing_iff: "strictly_increasing_hop_indices hs \<longleftrightarrow> sorted_wrt (<) (map ho_index hs)"
  by (induction hs rule: strictly_increasing_hop_indices.induct) (auto intro: less_trans)

lemma structure_checks_iff:
  "(\<exists>(b, _) \<in> set (structure_checks r). b) \<longleftrightarrow> \<not> well_structured r"
  by (auto simp: structure_checks_def well_structured_def Let_def strictly_increasing_iff)

lemma inspect_fatal:
  assumes "inspect cat clocks pol path now r ev rep = (r', ev', fatal, rep')"
  shows "fatal \<longleftrightarrow> \<not> (well_structured r \<and> list_all (hop_checked cat path) (rec_hops r))"
    and "\<not> fatal \<Longrightarrow> ev' = age_phase pol clocks (stamp_observed_at (rec_stamp r)) now ev"
proof -
  obtain hs ev1 f1 where c: "check_hops cat path (rec_hops r) (reject_all (structure_checks r) (ev, False)) = (hs, ev1, f1)"
    by (metis prod_cases3)
  note k = check_hops_snd [OF c]
  have e: "fatal = f1" "ev' = age_phase pol clocks (stamp_observed_at (rec_stamp r)) now ev1"
    using assms c by (auto simp: inspect_def Let_def split: prod.splits)
  then show "fatal \<longleftrightarrow> \<not> (well_structured r \<and> list_all (hop_checked cat path) (rec_hops r))"
    using k by (simp add: reject_all_snd structure_checks_iff)
  assume "\<not> fatal"
  then have "\<not> snd (reject_all (structure_checks r) (ev, False))" "ev1 = fst (reject_all (structure_checks r) (ev, False))"
    using k e by auto
  then show "ev' = age_phase pol clocks (stamp_observed_at (rec_stamp r)) now ev"
    using reject_all_fst e(2) by fastforce
qed

text \<open>What inspection leaves of a record: everything but the evidence and dwells of its hops.\<close>

definition same_exchange :: "measurement_record \<Rightarrow> measurement_record \<Rightarrow> bool" where
  "same_exchange a b \<longleftrightarrow> b = a\<lparr>rec_hops := rec_hops b\<rparr>"

lemma inspect_same: "inspect cat clocks pol path now r ev rep = (r', ev', fatal, rep') \<Longrightarrow> same_exchange r r'"
  by (auto simp: inspect_def same_exchange_def derive_dwells_def Let_def split: prod.splits)

definition fresh_session :: "measurement_record \<Rightarrow> source_fence_state \<Rightarrow> bool" where
  "fresh_session r fence \<longleftrightarrow>
     (case om_find (fen_sessions fence) (session_key_of r) of
        None \<Rightarrow> True
      | Some st \<Rightarrow> \<not> ses_ordinal st < fen_current_ordinal fence \<and>
          (revision_valid (ses_source_revision st) \<longrightarrow> ses_source_revision st \<le> rec_source_revision r) \<and>
          (ses_has_last_sequence st \<longrightarrow> ses_last_sequence st < rec_sequence r))"

lemma open_session_state: "open_session l r ev fence = (ev', st, fence') \<Longrightarrow>
    st = new_session (fen_next_ordinal fence) (rec_source_revision r)"
  by (auto simp: open_session_def Let_def split: prod.splits)

lemma find_session_verdict:
  assumes "find_session l r v ev fence = (v', ev', st, fence')"
  shows "v' = AcceptedCurrent \<longleftrightarrow> v = AcceptedCurrent \<and>
      (case om_find (fen_sessions fence) (session_key_of r) of
         None \<Rightarrow> True | Some st \<Rightarrow> \<not> ses_ordinal st < fen_current_ordinal fence)"
    and "st = (case om_find (fen_sessions fence) (session_key_of r) of
         None \<Rightarrow> new_session (fen_next_ordinal fence) (rec_source_revision r) | Some st \<Rightarrow> st)"
  using assms by (auto simp: find_session_def open_session_state split: option.splits prod.splits if_splits)

lemma revision_fence_verdict:
  assumes "revision_fence r v ev st = (v', ev', st')"
  shows "v' = AcceptedCurrent \<longleftrightarrow> v = AcceptedCurrent \<and>
      (revision_valid (ses_source_revision st) \<longrightarrow> ses_source_revision st \<le> rec_source_revision r)"
    and "\<exists>w. st' = st\<lparr>ses_source_revision := w\<rparr>"
proof -
  show "v' = AcceptedCurrent \<longleftrightarrow> v = AcceptedCurrent \<and>
      (revision_valid (ses_source_revision st) \<longrightarrow> ses_source_revision st \<le> rec_source_revision r)"
    using assms by (auto simp: revision_fence_def Let_def split: if_splits)
  have "st = st\<lparr>ses_source_revision := ses_source_revision st\<rparr>" by simp
  moreover have "st' = st \<or> st' = st\<lparr>ses_source_revision := rec_source_revision r\<rparr>"
    using assms by (auto simp: revision_fence_def Let_def split: if_splits)
  ultimately show "\<exists>w. st' = st\<lparr>ses_source_revision := w\<rparr>" by metis
qed

lemma sequence_fence_verdict:
  assumes "sequence_fence r v ev rep st = (replayed, v', ev', rep', st')"
  shows "\<not> replayed \<and> v' = AcceptedCurrent \<longleftrightarrow> v = AcceptedCurrent \<and>
      (ses_has_last_sequence st \<longrightarrow> ses_last_sequence st < rec_sequence r)"
  using assms by (auto simp: sequence_fence_def Let_def split: if_splits)

lemma apply_session_fence_current:
  assumes "apply_session_fence r v ev rep g = (v', ev', rep', g')"
  shows "v' = AcceptedCurrent \<longleftrightarrow> v = AcceptedCurrent \<and> fresh_session r (fence_of g (rec_source r))"
proof -
  let ?f = "fence_of g (rec_source r)"
  obtain v1 ev1 st1 f1 where a: "find_session (pol_limits (gate_policy g)) r v ev ?f = (v1, ev1, st1, f1)"
    by (metis prod_cases4)
  obtain v2 ev2 st2 where b: "revision_fence r v1 ev1 st1 = (v2, ev2, st2)" by (metis prod_cases3)
  obtain rp v3 ev3 rep3 st3 where c: "sequence_fence r v2 ev2 rep st2 = (rp, v3, ev3, rep3, st3)" by (metis prod_cases5)
  have v': "v' = (if rp then Rejected else v3)" using assms a b c by (simp add: apply_session_fence_def Let_def split: if_splits)
  obtain w where w: "st2 = st1\<lparr>ses_source_revision := w\<rparr>" using revision_fence_verdict(2) [OF b] by blast
  show ?thesis
    using v' sequence_fence_verdict [OF c] revision_fence_verdict(1) [OF b] find_session_verdict [OF a] w
    by (auto simp: fresh_session_def new_session_def split: option.splits)
qed

lemma estimate_age_observed: "age_value (estimate_age reg t now) = Some a \<Longrightarrow> ev_state (age_evidence (estimate_age reg t now)) = Observed"
  by (auto simp: estimate_age_def Let_def no_age_def split: if_splits option.splits)

definition age_admits :: "runtime_policy \<Rightarrow> clock_registry \<Rightarrow> timestamp \<Rightarrow> timestamp \<Rightarrow> bool" where
  "age_admits pol clocks t now \<longleftrightarrow>
     (case age_value (estimate_age clocks t now) of
        None \<Rightarrow> False | Some a \<Rightarrow> classify_age (pol_freshness pol) a \<in> {Fresh, Aging})"

lemma age_phase_usable:
  "ev_state ev = Observed \<Longrightarrow> usable (age_phase pol clocks t now ev) \<longleftrightarrow> age_admits pol clocks t now"
  by (auto simp: age_phase_def age_admits_def usable_def Let_def merge_state_observed estimate_age_observed
      split: option.splits)

text \<open>Two pieces of evidence that differ in their reasons only.\<close>

definition same_standing :: "evidence \<Rightarrow> evidence \<Rightarrow> bool" where
  "same_standing a b \<longleftrightarrow> ev_state a = ev_state b \<and> ev_freshness a = ev_freshness b"

lemma same_standing_refl [simp]: "same_standing a a" by (simp add: same_standing_def)
lemma same_standing_trans: "same_standing a b \<Longrightarrow> same_standing b c \<Longrightarrow> same_standing a c"
  by (simp add: same_standing_def)
lemma same_standing_add [simp]: "same_standing a (add_reason c d b) \<longleftrightarrow> same_standing a b"
  by (simp add: same_standing_def)
lemma same_standing_usable: "same_standing a b \<Longrightarrow> usable a \<longleftrightarrow> usable b"
  by (simp add: same_standing_def usable_def)

text \<open>The eviction loop as an invariant rule.\<close>

lemma evict_sessions_rule:
  assumes "P ev f"
    and "\<And>ev f k st. P ev f \<Longrightarrow> length (fen_sessions f) > l \<Longrightarrow>
       oldest_session (fen_current_ordinal f) (fen_sessions f) None = Some (k, st) \<Longrightarrow>
       P (add_reason SessionEvicted (id_to_hex (fst k)) ev)
         (f\<lparr>fen_sessions := om_erase k (fen_sessions f), fen_evicted_sessions := fen_evicted_sessions f + 1\<rparr>)"
    and "evict_sessions l ev f = (ev', f')"
  shows "P ev' f' \<and> (length (fen_sessions f') \<le> l \<or>
    oldest_session (fen_current_ordinal f') (fen_sessions f') None = None)"
  using assms
proof (induction l ev f rule: evict_sessions.induct)
  case (1 l ev f)
  let ?o = "oldest_session (fen_current_ordinal f) (fen_sessions f) None"
  show ?case
  proof (cases "length (fen_sessions f) > l")
    case False
    then show ?thesis using 1(2,4) by (subst (asm) evict_sessions.simps) auto
  next
    case True
    show ?thesis
    proof (cases ?o)
      case None
      then show ?thesis using True 1(2,4) by (subst (asm) evict_sessions.simps) auto
    next
      case (Some e)
      obtain k st where e: "e = (k, st)" by (rule prod.exhaust)
      have go: "evict_sessions l (add_reason SessionEvicted (id_to_hex (fst k)) ev)
          (f\<lparr>fen_sessions := om_erase k (fen_sessions f), fen_evicted_sessions := fen_evicted_sessions f + 1\<rparr>) = (ev', f')"
        using 1(4) True Some e by (subst (asm) evict_sessions.simps) auto
      have "P (add_reason SessionEvicted (id_to_hex (fst k)) ev)
          (f\<lparr>fen_sessions := om_erase k (fen_sessions f), fen_evicted_sessions := fen_evicted_sessions f + 1\<rparr>)"
        by (rule 1(3) [OF 1(2) True]) (use Some e in simp)
      from 1(1) [OF True Some e [symmetric] this _ go] 1(3) show ?thesis by simp
    qed
  qed
qed

lemma evict_sessions_standing: "evict_sessions l ev f = (ev', f') \<Longrightarrow> same_standing ev ev'"
  using evict_sessions_rule [of "\<lambda>ev1 _. same_standing ev ev1" ev f l ev' f'] by simp

lemma find_session_standing: "find_session l r v ev f = (v', ev', st, f') \<Longrightarrow> same_standing ev ev'"
  by (auto simp: find_session_def open_session_def Let_def split: option.splits prod.splits if_splits
      dest!: evict_sessions_standing) (auto simp: same_standing_def)

lemma revision_fence_standing: "revision_fence r v ev st = (v', ev', st') \<Longrightarrow> same_standing ev ev'"
  by (auto simp: revision_fence_def Let_def split: if_splits)

lemma sequence_fence_standing: "sequence_fence r v ev rep st = (b, v', ev', rep', st') \<Longrightarrow> same_standing ev ev'"
  by (auto simp: sequence_fence_def Let_def split: if_splits)

lemma apply_session_fence_standing:
  assumes "apply_session_fence r v ev rep g = (v', ev', rep', g')" and "v' \<noteq> Rejected"
  shows "same_standing ev ev'"
proof -
  obtain v1 ev1 st1 f1 where a: "find_session (pol_limits (gate_policy g)) r v ev (fence_of g (rec_source r)) = (v1, ev1, st1, f1)"
    by (metis prod_cases4)
  obtain v2 ev2 st2 where b: "revision_fence r v1 ev1 st1 = (v2, ev2, st2)" by (metis prod_cases3)
  obtain rp v3 ev3 rep3 st3 where c: "sequence_fence r v2 ev2 rep st2 = (rp, v3, ev3, rep3, st3)" by (metis prod_cases5)
  have "ev' = ev3" using assms a b c by (auto simp: apply_session_fence_def Let_def split: if_splits)
  then show ?thesis
    using find_session_standing [OF a] revision_fence_standing [OF b] sequence_fence_standing [OF c]
    by (metis same_standing_trans)
qed

lemma generation_fence_current:
  assumes "generation_fence cat path r v ev = (v', ev')"
  shows "v' = AcceptedCurrent \<longleftrightarrow>
    v = AcceptedCurrent \<and> rec_generation r = path_generation path \<and> \<not> is_superseded cat (rec_generation r)"
    and "same_standing ev ev'"
  using assms by (auto simp: generation_fence_def split: if_splits)

lemma authority_fence_current:
  assumes "authority_fence src r v ev = (v', ev')"
  shows "v' = AcceptedCurrent \<longleftrightarrow> v = AcceptedCurrent \<and> rec_source_revision r = src_revision src"
    and "v' \<noteq> Rejected \<Longrightarrow> same_standing ev ev'"
proof -
  show "v' = AcceptedCurrent \<longleftrightarrow> v = AcceptedCurrent \<and> rec_source_revision r = src_revision src"
    using assms by (auto simp: authority_fence_def split: if_splits)
  show "v' \<noteq> Rejected \<Longrightarrow> same_standing ev ev'"
    using assms by (auto simp: authority_fence_def split: if_splits)
qed

lemma fence_phase_current:
  assumes "fence_phase cat path src r v ev rep g = (v', ev', rep', g')"
  shows "v' = AcceptedCurrent \<longleftrightarrow>
    v = AcceptedCurrent \<and> rec_generation r = path_generation path \<and> \<not> is_superseded cat (rec_generation r) \<and>
    rec_source_revision r = src_revision src \<and> fresh_session r (fence_of g (rec_source r)) \<and> usable ev"
    and "v' = AcceptedCurrent \<Longrightarrow> usable ev'"
proof -
  obtain v1 ev1 where a: "generation_fence cat path r v ev = (v1, ev1)" by force
  obtain v2 ev2 rep2 g2 where b: "apply_session_fence r v1 ev1 rep g = (v2, ev2, rep2, g2)" by (metis prod_cases4)
  obtain v3 ev3 where c: "authority_fence src r v2 ev2 = (v3, ev3)" by force
  have e: "v' = conclude v3 ev3" "ev' = ev3" using assms a b c by (auto simp: fence_phase_def)
  have s: "usable ev \<longleftrightarrow> usable ev3" if "v3 = AcceptedCurrent"
    using that generation_fence_current(2) [OF a] apply_session_fence_standing [OF b]
      authority_fence_current [OF c] same_standing_usable by (metis admit_verdict.distinct(3))
  show "v' = AcceptedCurrent \<Longrightarrow> usable ev'" using e by (auto simp: conclude_def split: if_splits)
  show "v' = AcceptedCurrent \<longleftrightarrow>
    v = AcceptedCurrent \<and> rec_generation r = path_generation path \<and> \<not> is_superseded cat (rec_generation r) \<and>
    rec_source_revision r = src_revision src \<and> fresh_session r (fence_of g (rec_source r)) \<and> usable ev"
  proof -
    have "v' = AcceptedCurrent \<longleftrightarrow> v3 = AcceptedCurrent \<and> usable ev3" using e by (auto simp: conclude_def)
    then show ?thesis
      using s generation_fence_current(1) [OF a] apply_session_fence_current [OF b] authority_fence_current(1) [OF c]
      by blast
  qed
qed

text \<open>The conditions of the gate for current evidence, in one place. A hop the catalog does not know, or one without
  clock domains, is not held against the path.\<close>

definition eligible :: "catalog \<Rightarrow> clock_registry \<Rightarrow> timestamp \<Rightarrow> ingest_gate \<Rightarrow> measurement_record \<Rightarrow> bool" where
  "eligible cat clocks now g r \<longleftrightarrow>
     (\<exists>path src gen. cat_path cat (rec_path r) = Inr path \<and> cat_source cat (rec_source r) = Inr src \<and>
        cat_generation cat (rec_generation r) = Inr gen \<and>
        well_structured r \<and> list_all (hop_checked cat path) (rec_hops r) \<and>
        rec_generation r = path_generation path \<and> \<not> is_superseded cat (rec_generation r) \<and>
        rec_source_revision r = src_revision src \<and>
        fresh_session r (fence_of g (rec_source r)) \<and>
        age_admits (gate_policy g) clocks (stamp_observed_at (rec_stamp r)) now)"

lemma start_record_checks:
  "well_structured (start_record r) \<longleftrightarrow> well_structured r"
  "list_all (hop_checked cat path) (rec_hops (start_record r)) \<longleftrightarrow> list_all (hop_checked cat path) (rec_hops r)"
  by (auto simp: start_record_def well_structured_def comp_def list_all_iff hop_checked_def hop_mismatch_def)

lemma start_record_fields [simp]:
  "rec_path (start_record r) = rec_path r" "rec_source (start_record r) = rec_source r"
  "rec_generation (start_record r) = rec_generation r" "rec_epoch (start_record r) = rec_epoch r"
  "rec_incarnation (start_record r) = rec_incarnation r" "rec_sequence (start_record r) = rec_sequence r"
  "rec_source_revision (start_record r) = rec_source_revision r" "rec_stamp (start_record r) = rec_stamp r"
  "rec_id (start_record r) = rec_id r" "rec_rtt_ns (start_record r) = rec_rtt_ns r"
  by (simp_all add: start_record_def)

lemma same_exchange_fields:
  assumes "same_exchange a b"
  shows "rec_source b = rec_source a" "rec_generation b = rec_generation a" "rec_source_revision b = rec_source_revision a"
    "rec_epoch b = rec_epoch a" "rec_incarnation b = rec_incarnation a" "rec_sequence b = rec_sequence a"
    "rec_stamp b = rec_stamp a" "rec_id b = rec_id a" "rec_path b = rec_path a" "rec_rtt_ns b = rec_rtt_ns a"
    "session_key_of b = session_key_of a"
proof -
  obtain hs where "b = a\<lparr>rec_hops := hs\<rparr>" using assms unfolding same_exchange_def by blast
  then show "rec_source b = rec_source a" "rec_generation b = rec_generation a" "rec_source_revision b = rec_source_revision a"
    "rec_epoch b = rec_epoch a" "rec_incarnation b = rec_incarnation a" "rec_sequence b = rec_sequence a"
    "rec_stamp b = rec_stamp a" "rec_id b = rec_id a" "rec_path b = rec_path a" "rec_rtt_ns b = rec_rtt_ns a"
    "session_key_of b = session_key_of a"
    by (simp_all add: session_key_of_def)
qed

lemma fresh_session_cong:
  "session_key_of a = session_key_of b \<Longrightarrow> rec_source_revision a = rec_source_revision b \<Longrightarrow>
   rec_sequence a = rec_sequence b \<Longrightarrow> fresh_session a f \<longleftrightarrow> fresh_session b f"
  by (simp add: fresh_session_def split: option.split)

definition recognised :: "catalog \<Rightarrow> measurement_record \<Rightarrow> bool" where
  "recognised cat r \<longleftrightarrow> \<not> isl (cat_path cat (rec_path r)) \<and> \<not> isl (cat_source cat (rec_source r)) \<and>
     \<not> isl (cat_generation cat (rec_generation r)) \<and> well_structured r \<and>
     list_all (hop_checked cat (projr (cat_path cat (rec_path r)))) (rec_hops r)"

text \<open>How classification ends: refused with the gate untouched, or through the fences.\<close>

lemma classify_cases:
  assumes "classify cat clocks now r v rep g = (r', v', ev, rep', g')"
  obtains (refused) "v' = Rejected" "g' = g" "same_exchange (start_record r) r'"
      "\<not> eligible cat clocks now g r" "\<not> recognised cat r"
  | (fenced) path src gen rep1 ev1 where "cat_path cat (rec_path r) = Inr path" "cat_source cat (rec_source r) = Inr src"
      "cat_generation cat (rec_generation r) = Inr gen" "well_structured r" "list_all (hop_checked cat path) (rec_hops r)"
      "inspect cat clocks (gate_policy g) path now (start_record r) (observed UnknownFreshness High) rep = (r', ev1, False, rep1)"
      "ev1 = age_phase (gate_policy g) clocks (stamp_observed_at (rec_stamp r)) now (observed UnknownFreshness High)"
      "fence_phase cat path src r' v ev1 rep1 g = (v', ev, rep', g')" "same_exchange (start_record r) r'"
proof (cases "isl (cat_path cat (rec_path r)) \<or> isl (cat_source cat (rec_source r)) \<or> isl (cat_generation cat (rec_generation r))")
  case True
  then have "v' = Rejected" "g' = g" "r' = start_record r"
    using assms by (auto simp: classify_def Let_def isl_def split: sum.splits prod.splits if_splits)
  with True show thesis by (intro refused) (auto simp: same_exchange_def eligible_def recognised_def)
next
  case False
  then obtain path src gen where k: "cat_path cat (rec_path r) = Inr path" "cat_source cat (rec_source r) = Inr src"
      "cat_generation cat (rec_generation r) = Inr gen" by (auto simp: isl_def) (metis sum.exhaust)
  obtain r1 ev1 fatal rep1 where i: "inspect cat clocks (gate_policy g) path now (start_record r)
      (observed UnknownFreshness High) rep = (r1, ev1, fatal, rep1)" by (metis prod_cases4)
  note same = inspect_same [OF i]
  note F = inspect_fatal [OF i, unfolded start_record_checks start_record_fields]
  show thesis
  proof (cases fatal)
    case True
    then have "v' = Rejected" "g' = g" "r' = r1" using assms k i by (auto simp: classify_def Let_def)
    then show thesis using same F True k by (intro refused) (auto simp: eligible_def recognised_def)
  next
    case nf: False
    obtain v2 ev2 rep2 g2 where f: "fence_phase cat path src r1 v ev1 rep1 g = (v2, ev2, rep2, g2)" by (metis prod_cases4)
    have "(r', v', ev, rep', g') = (r1, v2, ev2, rep2, g2)" using assms k i nf f by (simp add: classify_def Let_def)
    then show thesis using fenced [OF k] F nf i f same by auto
  qed
qed

lemma classify_current:
  assumes "classify cat clocks now r AcceptedCurrent rep g = (r', v', ev, rep', g')"
  shows "v' = AcceptedCurrent \<longleftrightarrow> eligible cat clocks now g r" and "v' = AcceptedCurrent \<Longrightarrow> usable ev"
proof -
  show "v' = AcceptedCurrent \<longleftrightarrow> eligible cat clocks now g r"
    using assms
  proof (cases rule: classify_cases)
    case (fenced path src gen rep1 ev1)
    note s = same_exchange_fields [OF fenced(9)]
    have u: "usable ev1 \<longleftrightarrow> age_admits (gate_policy g) clocks (stamp_observed_at (rec_stamp r)) now"
      unfolding fenced(7) by (rule age_phase_usable) (simp add: observed_def)
    have k: "session_key_of (start_record r) = session_key_of r" by (simp add: session_key_of_def)
    have "fresh_session r' f \<longleftrightarrow> fresh_session r f" for f by (rule fresh_session_cong) (simp_all add: s k)
    then show ?thesis using fence_phase_current(1) [OF fenced(8)] fenced(1-5) u
      by (auto simp: eligible_def s)
  qed simp
  assume "v' = AcceptedCurrent"
  with assms show "usable ev" by (cases rule: classify_cases) (auto dest: fence_phase_current(2))
qed

end
