(* ===== verification/Ingest_Runs.thy ===== *)
theory Ingest_Runs
  imports Ingest_Gate
begin

text \<open>
  The gate over time: the invariant of the fences, runs of classifications and restarts, what never
  happens twice, the accounting of a batch, and derived dwells.
\<close>

section \<open>The invariant of the fences\<close>

definition session_inv :: "nat \<Rightarrow> session_state \<Rightarrow> bool" where
  "session_inv window st \<longleftrightarrow>
     ses_recent_sequences st = set (ses_recent_order st) \<and> distinct (ses_recent_order st) \<and>
     length (ses_recent_order st) \<le> window \<and>
     (if ses_has_last_sequence st then \<forall>q \<in> set (ses_recent_order st). q \<le> ses_last_sequence st
      else ses_recent_order st = [])"

text \<open>The invariant while sessions are being evicted: the size bound may still be exceeded.\<close>

definition fence_core :: "limits \<Rightarrow> nat \<Rightarrow> source_fence_state \<Rightarrow> bool" where
  "fence_core l n f \<longleftrightarrow>
     om_inv (fen_sessions f) \<and>
     unat (fen_next_ordinal f) = Suc (unat (fen_current_ordinal f)) \<and> unat (fen_current_ordinal f) \<le> n \<and>
     (\<forall>k st. om_find (fen_sessions f) k = Some st \<longrightarrow> session_inv (sequence_replay_window l) st \<and>
        0 < ses_ordinal st \<and> ses_ordinal st \<le> fen_current_ordinal f \<and>
        (ses_ordinal st = fen_current_ordinal f \<longleftrightarrow> k = (fen_current_epoch f, fen_current_incarnation f))) \<and>
     (\<forall>k j st su. om_find (fen_sessions f) k = Some st \<and> om_find (fen_sessions f) j = Some su \<and>
        ses_ordinal st = ses_ordinal su \<longrightarrow> k = j) \<and>
     (fen_current_ordinal f \<noteq> 0 \<longrightarrow> om_find (fen_sessions f) (fen_current_epoch f, fen_current_incarnation f) \<noteq> None) \<and>
     unat (fen_evicted_sessions f) + length (fen_sessions f) = unat (fen_current_ordinal f)"

definition fence_inv :: "limits \<Rightarrow> nat \<Rightarrow> source_fence_state \<Rightarrow> bool" where
  "fence_inv l n f \<longleftrightarrow>
     fence_core l n f \<and> length (fen_sessions f) \<le> max 1 (max_sessions_per_source l)"

lemma trim_recent_suffix:
  assumes "distinct qs" and "seen = set qs"
  shows "trim_recent window qs seen = (drop (length qs - window) qs, set (drop (length qs - window) qs))"
  using assms
proof (induction window qs seen rule: trim_recent.induct)
  case (2 window q rest seen)
  have e: "seen - {q} = set rest" using 2 by auto
  show ?case
  proof (cases "length (q # rest) > window")
    case True
    then have "length (q # rest) - window = Suc (length rest - window)" by simp
    then show ?thesis using 2 True e by simp
  next
    case False
    then show ?thesis using 2 by simp
  qed
qed simp

lemma remember_sequence_inv:
  assumes "session_inv window st0" and "st = st0\<lparr>ses_has_last_sequence := True, ses_last_sequence := m\<rparr>"
    and "q \<notin> set (ses_recent_order st0)" and "q \<le> m" and "ses_has_last_sequence st0 \<longrightarrow> ses_last_sequence st0 \<le> m"
  shows "session_inv window (remember_sequence window q st)"
proof -
  define qs where "qs = ses_recent_order st0 @ [q]"
  have d: "distinct qs" and s: "insert q (ses_recent_sequences st0) = set qs"
    using assms by (auto simp: session_inv_def qs_def)
  have "x \<le> m" if "x \<in> set (drop k qs)" for x k
  proof -
    have "x \<in> set qs" using that by (rule in_set_dropD)
    then show "x \<le> m" using assms(1,4,5) by (auto simp: session_inv_def qs_def split: if_splits)
  qed
  moreover have "remember_sequence window q st =
      st\<lparr>ses_recent_order := drop (length qs - window) qs, ses_recent_sequences := set (drop (length qs - window) qs)\<rparr>"
    using trim_recent_suffix [OF d s] assms(2) by (simp add: remember_sequence_def flip: qs_def)
  ultimately show ?thesis using assms(2) d by (simp add: session_inv_def distinct_drop)
qed

lemma remember_fields [simp]:
  "ses_ordinal (remember_sequence w q st) = ses_ordinal st"
  "ses_has_last_sequence (remember_sequence w q st) = ses_has_last_sequence st"
  "ses_last_sequence (remember_sequence w q st) = ses_last_sequence st"
  "ses_source_revision (remember_sequence w q st) = ses_source_revision st"
  by (simp_all add: remember_sequence_def split: prod.split)

lemma count_verdict_fields [simp]:
  "ses_ordinal (count_verdict v st) = ses_ordinal st"
  "ses_has_last_sequence (count_verdict v st) = ses_has_last_sequence st"
  "ses_last_sequence (count_verdict v st) = ses_last_sequence st"
  "session_inv w (count_verdict v st) = session_inv w st"
  by (cases v; simp add: session_inv_def)+

lemma oldest_session_not_current:
  "oldest_session c m best = Some (k, st) \<Longrightarrow> (\<forall>b. best = Some b \<longrightarrow> ses_ordinal (snd b) \<noteq> c) \<Longrightarrow> ses_ordinal st \<noteq> c"
  by (induction c m best rule: oldest_session.induct) (auto split: if_splits)

lemma oldest_session_None:
  "oldest_session c m best = None \<Longrightarrow> best = None \<and> (\<forall>(k, st) \<in> set m. ses_ordinal st = c)"
  by (induction c m best rule: oldest_session.induct) (auto split: if_splits)


lemma fence_coreD:
  assumes "fence_core l n f" and "om_find (fen_sessions f) k = Some st"
  shows "session_inv (sequence_replay_window l) st" "0 < ses_ordinal st" "ses_ordinal st \<le> fen_current_ordinal f"
    "ses_ordinal st = fen_current_ordinal f \<longleftrightarrow> k = (fen_current_epoch f, fen_current_incarnation f)"
  using assms unfolding fence_core_def by blast+

lemma new_fence_inv: "fence_inv l n new_fence"
  by (simp add: fence_inv_def fence_core_def new_fence_def)

lemma fence_core_mono: "fence_core l n f \<Longrightarrow> n \<le> m \<Longrightarrow> fence_core l m f"
  by (auto simp: fence_core_def)

lemma session_inv_new: "session_inv w (new_session n r)"
  by (simp add: session_inv_def new_session_def)

text \<open>Updating a session in place and opening a session.\<close>

lemma fence_core_update:
  assumes "fence_core l n f" and "om_find (fen_sessions f) k = Some st"
    and "session_inv (sequence_replay_window l) st'" and "ses_ordinal st' = ses_ordinal st"
  shows "fence_core l n (f\<lparr>fen_sessions := om_set k st' (fen_sessions f)\<rparr>)"
proof -
  have i: "om_inv (fen_sessions f)" using assms(1) by (simp add: fence_core_def)
  have o: "om_find (om_set k st' (fen_sessions f)) j = (if j = k then Some st' else om_find (fen_sessions f) j)" for j
    using i by (simp add: om_find_set)
  show ?thesis
    using assms unfolding fence_core_def
    by (simp add: om_inv_set om.size_assign_old [OF i assms(2)] o) (smt (verit, best) option.inject)
qed

lemma fence_core_open:
  assumes "fence_core l n f" and "om_find (fen_sessions f) k = None" and "Suc n < 2 ^ 64 - 1"
    and "st = new_session (fen_next_ordinal f) r"
  shows "fence_core l (Suc n) (f\<lparr>fen_next_ordinal := fen_next_ordinal f + 1, fen_sessions := om_set k st (fen_sessions f),
     fen_current_epoch := fst k, fen_current_incarnation := snd k, fen_current_ordinal := ses_ordinal st\<rparr>)"
proof -
  have i: "om_inv (fen_sessions f)" and nx: "unat (fen_next_ordinal f) = Suc (unat (fen_current_ordinal f))"
    and cn: "unat (fen_current_ordinal f) \<le> n"
    using assms(1) by (simp_all add: fence_core_def)
  have o: "om_find (om_set k st (fen_sessions f)) j = (if j = k then Some st else om_find (fen_sessions f) j)" for j
    using i by (simp add: om_find_set)
  have n1: "unat (fen_next_ordinal f + 1) = Suc (unat (fen_next_ordinal f))"
    using nx cn assms(3) by (simp add: unat_word_ariths)
  have lt: "ses_ordinal su < fen_next_ordinal f" if "om_find (fen_sessions f) j = Some su" for j su
    using fence_coreD(3) [OF assms(1) that] nx by (simp add: word_less_nat_alt word_le_nat_alt)
  have so: "ses_ordinal st = fen_next_ordinal f" "session_inv (sequence_replay_window l) st"
    using assms(4) by (simp_all add: session_inv_new) (simp add: new_session_def)
  have pos: "0 < fen_next_ordinal f" using nx by (simp add: word_less_nat_alt)
  have d: "ses_ordinal su \<noteq> fen_next_ordinal f" "ses_ordinal su \<le> fen_next_ordinal f" if "om_find (fen_sessions f) j = Some su" for j su
    using lt [OF that] by auto
  have D: "session_inv (sequence_replay_window l) su" "0 < ses_ordinal su" if "om_find (fen_sessions f) j = Some su" for j su
    using fence_coreD [OF assms(1) that] by auto
  have inj: "j1 = j2" if "om_find (fen_sessions f) j1 = Some s1" "om_find (fen_sessions f) j2 = Some s2"
    "ses_ordinal s1 = ses_ordinal s2" for j1 j2 s1 s2
    using assms(1) that unfolding fence_core_def by blast
  have sz: "unat (fen_evicted_sessions f) + length (fen_sessions f) = unat (fen_current_ordinal f)"
    using assms(1) by (simp add: fence_core_def)
  show ?thesis
    unfolding fence_core_def
  proof (intro conjI allI impI)
    fix j1 j2 s1 s2
    assume "om_find (fen_sessions (f\<lparr>fen_next_ordinal := fen_next_ordinal f + 1, fen_sessions := om_set k st (fen_sessions f),
     fen_current_epoch := fst k, fen_current_incarnation := snd k, fen_current_ordinal := ses_ordinal st\<rparr>)) j1 = Some s1 \<and>
      om_find (fen_sessions (f\<lparr>fen_next_ordinal := fen_next_ordinal f + 1, fen_sessions := om_set k st (fen_sessions f),
     fen_current_epoch := fst k, fen_current_incarnation := snd k, fen_current_ordinal := ses_ordinal st\<rparr>)) j2 = Some s2 \<and>
      ses_ordinal s1 = ses_ordinal s2"
    then show "j1 = j2"
      using d(1) [of j1 s1] d(1) [of j2 s2] inj [of j1 s1 j2 s2] so by (auto simp: o split: if_splits)
  qed (use i n1 nx cn so pos d D sz om.size_assign_new [OF i assms(2), of st] in \<open>auto simp: o om_inv_set split: if_splits\<close>)
qed

lemma fence_core_erase:
  assumes "fence_core l n f" and "oldest_session (fen_current_ordinal f) (fen_sessions f) None = Some (k, st)"
  shows "fence_core l n (f\<lparr>fen_sessions := om_erase k (fen_sessions f), fen_evicted_sessions := fen_evicted_sessions f + 1\<rparr>)"
    and "k \<noteq> (fen_current_epoch f, fen_current_incarnation f)"
proof -
  have i: "om_inv (fen_sessions f)" using assms(1) by (simp add: fence_core_def)
  have "(k, st) \<in> set (fen_sessions f)" using oldest_session_mem [OF assms(2)] by simp
  then have k: "om_find (fen_sessions f) k = Some st" using i by (simp add: om.find_entries)
  have nc: "ses_ordinal st \<noteq> fen_current_ordinal f" using oldest_session_not_current [OF assms(2)] by simp
  then show kc: "k \<noteq> (fen_current_epoch f, fen_current_incarnation f)" using fence_coreD(4) [OF assms(1) k] by simp
  have sz: "unat (fen_evicted_sessions f) + length (fen_sessions f) = unat (fen_current_ordinal f)"
    using assms(1) by (simp add: fence_core_def)
  note e = om.size_erase [OF i k]
  have "unat (fen_evicted_sessions f + 1) = Suc (unat (fen_evicted_sessions f))"
    using sz e unat_less_2_64 [of "fen_current_ordinal f"] by (simp add: unat_word_ariths)
  then have sz': "unat (fen_evicted_sessions f + 1) + length (om_erase k (fen_sessions f)) = unat (fen_current_ordinal f)"
    using sz e by simp
  show "fence_core l n (f\<lparr>fen_sessions := om_erase k (fen_sessions f), fen_evicted_sessions := fen_evicted_sessions f + 1\<rparr>)"
    using assms(1) sz' kc unfolding fence_core_def
    by (simp add: om_inv_erase om_find_erase)
qed

text \<open>What a fence step keeps: sessions stay unless evicted, and evictions are counted.\<close>

definition fence_step :: "session_key \<Rightarrow> source_fence_state \<Rightarrow> source_fence_state \<Rightarrow> bool" where
  "fence_step key f f' \<longleftrightarrow>
     fen_current_ordinal f \<le> fen_current_ordinal f' \<and>
     (fen_evicted_sessions f' = 0 \<longrightarrow> fen_evicted_sessions f = 0 \<and>
       (\<forall>k. k \<noteq> key \<longrightarrow> om_find (fen_sessions f') k = om_find (fen_sessions f) k))"

lemma evict_sessions_core:
  assumes "fence_core l n f" and "evict_sessions lim ev f = (ev', f')"
  shows "fence_core l n f'" and "length (fen_sessions f') \<le> max 1 lim"
    and "om_find (fen_sessions f') (fen_current_epoch f', fen_current_incarnation f') =
         om_find (fen_sessions f) (fen_current_epoch f, fen_current_incarnation f)"
    and "fen_current_epoch f' = fen_current_epoch f" "fen_current_incarnation f' = fen_current_incarnation f"
    and "fence_step key f f'"
proof -
  let ?P = "\<lambda>_ f1. fence_core l n f1 \<and>
    om_find (fen_sessions f1) (fen_current_epoch f, fen_current_incarnation f) =
      om_find (fen_sessions f) (fen_current_epoch f, fen_current_incarnation f) \<and>
    fen_current_epoch f1 = fen_current_epoch f \<and> fen_current_incarnation f1 = fen_current_incarnation f \<and>
    fen_current_ordinal f1 = fen_current_ordinal f \<and> unat (fen_evicted_sessions f) \<le> unat (fen_evicted_sessions f1) \<and>
    (fen_evicted_sessions f1 = fen_evicted_sessions f \<longrightarrow> fen_sessions f1 = fen_sessions f)"
  have r: "?P ev' f' \<and> (length (fen_sessions f') \<le> lim \<or>
      oldest_session (fen_current_ordinal f') (fen_sessions f') None = None)"
  proof (rule evict_sessions_rule [OF _ _ assms(2)])
    show "?P ev f" using assms(1) by simp
    fix ev1 f1 k st
    assume p: "?P ev1 f1" and o: "oldest_session (fen_current_ordinal f1) (fen_sessions f1) None = Some (k, st)"
    have c: "fence_core l n f1" using p by blast
    have "unat (fen_evicted_sessions f1) + length (fen_sessions f1) = unat (fen_current_ordinal f1)"
      and "fen_sessions f1 \<noteq> []" using c o by (auto simp: fence_core_def)
    then have "Suc (unat (fen_evicted_sessions f1)) < 2 ^ 64"
      using unat_less_2_64 [of "fen_current_ordinal f1"] by (cases "fen_sessions f1") auto
    then have u: "unat (fen_evicted_sessions f1 + 1) = Suc (unat (fen_evicted_sessions f1))"
      by (simp add: unat_word_ariths)
    then have "unat (fen_evicted_sessions f1 + 1) \<noteq> unat (fen_evicted_sessions f)" using p by simp
    then have "fen_evicted_sessions f1 + 1 \<noteq> fen_evicted_sessions f" by metis
    then show "?P (add_reason SessionEvicted (id_to_hex (fst k)) ev1)
        (f1\<lparr>fen_sessions := om_erase k (fen_sessions f1), fen_evicted_sessions := fen_evicted_sessions f1 + 1\<rparr>)"
      using p u fence_core_erase [OF c o] by (simp add: om_find_erase)
  qed
  show core: "fence_core l n f'" using r by blast
  show "fen_current_epoch f' = fen_current_epoch f" "fen_current_incarnation f' = fen_current_incarnation f"
    "om_find (fen_sessions f') (fen_current_epoch f', fen_current_incarnation f') =
         om_find (fen_sessions f) (fen_current_epoch f, fen_current_incarnation f)" using r by auto
  have "fen_evicted_sessions f = 0 \<and> fen_sessions f' = fen_sessions f" if "fen_evicted_sessions f' = 0"
    using r that by (auto simp: unat_eq_0)
  then show "fence_step key f f'" using r by (auto simp: fence_step_def)
  have i: "om_inv (fen_sessions f')" using core by (simp add: fence_core_def)
  show "length (fen_sessions f') \<le> max 1 lim"
  proof (cases "length (fen_sessions f') \<le> lim")
    case False
    then have n: "oldest_session (fen_current_ordinal f') (fen_sessions f') None = None" using r by blast
    have "set (fen_sessions f') \<subseteq> {((fen_current_epoch f', fen_current_incarnation f'), the (om_find (fen_sessions f') (fen_current_epoch f', fen_current_incarnation f')))}"
    proof
      fix e assume e: "e \<in> set (fen_sessions f')"
      obtain k st where ks: "e = (k, st)" by (rule prod.exhaust)
      then have fnd: "om_find (fen_sessions f') k = Some st" using e i by (simp add: om.find_entries)
      have "ses_ordinal st = fen_current_ordinal f'" using oldest_session_None [OF n] e ks by auto
      then have "k = (fen_current_epoch f', fen_current_incarnation f')" using fence_coreD(4) [OF core fnd] by simp
      then show "e \<in> {((fen_current_epoch f', fen_current_incarnation f'), the (om_find (fen_sessions f') (fen_current_epoch f', fen_current_incarnation f')))}"
        using fnd ks by simp
    qed
    then have "card (set (fen_sessions f')) \<le> 1" by (metis card_mono card.empty card_insert_disjoint empty_iff finite.emptyI finite.insertI One_nat_def)
    moreover have "distinct (fen_sessions f')" using om_inv_distinct [OF i] by (simp add: distinct_map)
    ultimately have "length (fen_sessions f') \<le> 1" by (simp add: distinct_card)
    then show ?thesis by simp
  qed simp
qed

definition opened :: "measurement_record \<Rightarrow> source_fence_state \<Rightarrow> source_fence_state" where
  "opened r f = (let st = new_session (fen_next_ordinal f) (rec_source_revision r)
     in f\<lparr>fen_next_ordinal := fen_next_ordinal f + 1, fen_sessions := om_set (session_key_of r) st (fen_sessions f),
       fen_current_epoch := rec_epoch r, fen_current_incarnation := rec_incarnation r, fen_current_ordinal := ses_ordinal st\<rparr>)"

lemma open_session_evict:
  assumes "open_session l r ev f = (ev', st, f')"
  shows "\<exists>ev0. evict_sessions (max_sessions_per_source l) ev0 (opened r f) = (ev', f')"
    and "st = new_session (fen_next_ordinal f) (rec_source_revision r)"
  using assms by (simp_all add: open_session_def opened_def Let_def case_prod_beta) (metis prod.collapse)

lemma find_session_inv:
  assumes "fence_inv l n f" and "Suc n < 2 ^ 64 - 1" and "find_session l r v ev f = (v', ev', st, f')"
  shows "fence_inv l (Suc n) f'" and "om_find (fen_sessions f') (session_key_of r) = Some st"
    and "fence_step (session_key_of r) f f'"
proof -
  have core: "fence_core l n f" using assms(1) by (simp add: fence_inv_def)
  show "fence_inv l (Suc n) f'" and "om_find (fen_sessions f') (session_key_of r) = Some st"
    and "fence_step (session_key_of r) f f'"
  proof (atomize (full), cases "om_find (fen_sessions f) (session_key_of r)")
    case (Some st0)
    then have "f' = f" "st = st0" using assms(3) by (auto simp: find_session_def split: if_splits)
    then show "fence_inv l (Suc n) f' \<and> om_find (fen_sessions f') (session_key_of r) = Some st \<and> fence_step (session_key_of r) f f'"
      using Some assms(1) fence_core_mono [OF core, of "Suc n"] by (simp add: fence_inv_def fence_step_def)
  next
    case None
    define s0 where "s0 = new_session (fen_next_ordinal f) (rec_source_revision r)"
    obtain ev1 where "open_session l r ev f = (ev1, st, f')"
      using assms(3) None by (auto simp: find_session_def split: prod.splits)
    from open_session_evict [OF this] obtain ev0
      where e: "evict_sessions (max_sessions_per_source l) ev0 (opened r f) = (ev1, f')" and st: "st = s0"
      unfolding s0_def by blast
    have c1: "fence_core l (Suc n) (opened r f)"
      using fence_core_open [OF core None assms(2) refl, of "rec_source_revision r"]
      by (simp add: session_key_of_def opened_def Let_def)
    note E = evict_sessions_core [OF c1 e]
    have i: "om_inv (fen_sessions f)" using core by (simp add: fence_core_def)
    have fst: "om_find (fen_sessions f') (session_key_of r) = Some st"
      using E(3-5) i st by (simp add: om_find_set session_key_of_def opened_def Let_def s0_def)
    have "fen_current_ordinal f \<le> ses_ordinal s0"
      using core by (simp add: s0_def new_session_def fence_core_def word_le_nat_alt)
    then have "fence_step (session_key_of r) f f'"
      using E(6) [of "session_key_of r"] i
      by (simp add: fence_step_def om_find_set opened_def Let_def s0_def) (meson order_trans)
    then show "fence_inv l (Suc n) f' \<and> om_find (fen_sessions f') (session_key_of r) = Some st \<and> fence_step (session_key_of r) f f'"
      using E(1,2) fst by (simp add: fence_inv_def)
  qed
qed


definition gate_inv :: "nat \<Rightarrow> ingest_gate \<Rightarrow> bool" where
  "gate_inv n g \<longleftrightarrow> om_inv (gate_fences g) \<and>
     (\<forall>s f. om_find (gate_fences g) s = Some f \<longrightarrow> fence_inv (pol_limits (gate_policy g)) n f)"

lemma fence_of_inv: "gate_inv n g \<Longrightarrow> fence_inv (pol_limits (gate_policy g)) n (fence_of g s)"
  by (auto simp: gate_inv_def fence_of_def new_fence_inv split: option.split)

lemma fence_inv_mono: "fence_inv l n f \<Longrightarrow> n \<le> m \<Longrightarrow> fence_inv l m f"
  by (auto simp: fence_inv_def intro: fence_core_mono)

lemma gate_inv_mono: "gate_inv n g \<Longrightarrow> n \<le> m \<Longrightarrow> gate_inv m g"
  by (auto simp: gate_inv_def intro: fence_inv_mono)

text \<open>The state a record leaves in its session.\<close>

lemma sequence_fence_state:
  assumes "sequence_fence r v ev rep st = (replayed, v', ev', rep', st')" and "session_inv w st"
  shows "ses_ordinal st' = ses_ordinal st"
    and "replayed \<Longrightarrow> st' = st \<and> ses_has_last_sequence st \<and> rec_sequence r \<le> ses_last_sequence st"
    and "\<not> replayed \<Longrightarrow> \<exists>m. st' = st\<lparr>ses_has_last_sequence := True, ses_last_sequence := m\<rparr> \<and>
       rec_sequence r \<notin> set (ses_recent_order st) \<and> rec_sequence r \<le> m \<and>
       (ses_has_last_sequence st \<longrightarrow> ses_last_sequence st \<le> m)"
proof -
  show "ses_ordinal st' = ses_ordinal st"
    using assms(1) by (auto simp: sequence_fence_def Let_def split: if_splits)
  show "replayed \<Longrightarrow> st' = st \<and> ses_has_last_sequence st \<and> rec_sequence r \<le> ses_last_sequence st"
    using assms(1) by (auto simp: sequence_fence_def Let_def split: if_splits)
  have keep: "st = st\<lparr>ses_has_last_sequence := True, ses_last_sequence := ses_last_sequence st\<rparr>"
    if "ses_has_last_sequence st" using that by simp
  assume nr: "\<not> replayed"
  consider (first) "\<not> ses_has_last_sequence st" | (newer) "ses_has_last_sequence st" "rec_sequence r > ses_last_sequence st"
    | (older) "ses_has_last_sequence st" "\<not> rec_sequence r > ses_last_sequence st" by blast
  then show "\<exists>m. st' = st\<lparr>ses_has_last_sequence := True, ses_last_sequence := m\<rparr> \<and>
       rec_sequence r \<notin> set (ses_recent_order st) \<and> rec_sequence r \<le> m \<and>
       (ses_has_last_sequence st \<longrightarrow> ses_last_sequence st \<le> m)"
  proof cases
    case first
    then have "st' = st\<lparr>ses_has_last_sequence := True, ses_last_sequence := rec_sequence r\<rparr>"
      using assms(1) by (simp add: sequence_fence_def Let_def)
    then show ?thesis using first assms(2) by (intro exI [of _ "rec_sequence r"]) (auto simp: session_inv_def)
  next
    case newer
    then have e: "st' = st\<lparr>ses_last_sequence := rec_sequence r\<rparr>"
      using assms(1) by (simp add: sequence_fence_def Let_def)
    have "rec_sequence r \<notin> set (ses_recent_order st)"
      using newer assms(2) unfolding session_inv_def by (metis leD)
    then show ?thesis using newer e by (intro exI [of _ "rec_sequence r"]) auto
  next
    case older
    then have "st' = st" "rec_sequence r \<notin> set (ses_recent_order st)"
      using assms nr by (auto simp: sequence_fence_def Let_def session_inv_def split: if_splits)
    then show ?thesis using older keep by (intro exI [of _ "ses_last_sequence st"]) auto
  qed
qed

text \<open>One record at the fence: the invariant, what happens to other sessions, and the last sequence.\<close>

definition session_at :: "ingest_gate \<Rightarrow> source_id \<Rightarrow> session_key \<Rightarrow> session_state option" where
  "session_at g s k = om_find (fen_sessions (fence_of g s)) k"

lemma session_inv_cong:
  "session_inv w (st\<lparr>ses_rejected := a\<rparr>) = session_inv w st"
  "session_inv w (st\<lparr>ses_source_revision := b\<rparr>) = session_inv w st"
  by (simp_all add: session_inv_def)

lemma apply_session_fence_inv:
  assumes "gate_inv n g" and "Suc n < 2 ^ 64 - 1" and "apply_session_fence r v ev rep g = (v', ev', rep', g')"
  shows "gate_inv (Suc n) g'" and "gate_policy g' = gate_policy g"
    and "s \<noteq> rec_source r \<Longrightarrow> fence_of g' s = fence_of g s"
    and "fence_step (session_key_of r) (fence_of g (rec_source r)) (fence_of g' (rec_source r))"
    and "\<exists>st. session_at g' (rec_source r) (session_key_of r) = Some st \<and> ses_has_last_sequence st \<and>
       rec_sequence r \<le> ses_last_sequence st \<and>
       (\<forall>st0. session_at g (rec_source r) (session_key_of r) = Some st0 \<and> ses_has_last_sequence st0 \<longrightarrow>
          ses_last_sequence st0 \<le> ses_last_sequence st)"
proof -
  let ?l = "pol_limits (gate_policy g)" and ?f = "fence_of g (rec_source r)"
  obtain v1 ev1 st1 f1 where a: "find_session ?l r v ev ?f = (v1, ev1, st1, f1)" by (metis prod_cases4)
  obtain v2 ev2 st2 where b: "revision_fence r v1 ev1 st1 = (v2, ev2, st2)" by (metis prod_cases3)
  obtain rp v3 ev3 rep3 st3 where c: "sequence_fence r v2 ev2 rep st2 = (rp, v3, ev3, rep3, st3)" by (metis prod_cases5)
  note F = find_session_inv [OF fence_of_inv [OF assms(1)] assms(2) a]
  have core1: "fence_core ?l (Suc n) f1" using F(1) by (simp add: fence_inv_def)
  have i1: "om_inv (fen_sessions f1)" using core1 by (simp add: fence_core_def)
  obtain w where w: "st2 = st1\<lparr>ses_source_revision := w\<rparr>" using revision_fence_verdict(2) [OF b] by blast
  have si: "session_inv (sequence_replay_window ?l) st2" using fence_coreD(1) [OF core1 F(2)] w by (simp add: session_inv_cong)
  note S = sequence_fence_state [OF c si]
  define st4 where "st4 = (if rp then st3\<lparr>ses_rejected := ses_rejected st3 + 1\<rparr>
     else count_verdict v3 (remember_sequence (sequence_replay_window ?l) (rec_sequence r) st3))"
  have g': "g' = store_session r st4 f1 g"
    using assms(3) a b c by (auto simp: apply_session_fence_def Let_def st4_def split: if_splits)
  have s4: "session_inv (sequence_replay_window ?l) st4 \<and> ses_ordinal st4 = ses_ordinal st1 \<and>
      ses_has_last_sequence st4 \<and> rec_sequence r \<le> ses_last_sequence st4 \<and>
      (ses_has_last_sequence st1 \<longrightarrow> ses_last_sequence st1 \<le> ses_last_sequence st4)"
  proof (cases rp)
    case True
    then show ?thesis using S(2) si w by (simp add: st4_def session_inv_cong)
  next
    case False
    from S(3) [OF False] obtain m where "st3 = st2\<lparr>ses_has_last_sequence := True, ses_last_sequence := m\<rparr>"
      "rec_sequence r \<notin> set (ses_recent_order st2)" "rec_sequence r \<le> m" "ses_has_last_sequence st2 \<longrightarrow> ses_last_sequence st2 \<le> m"
      by blast
    with remember_sequence_inv [OF si this] False w show ?thesis by (simp add: st4_def)
  qed
  define f2 where "f2 = f1\<lparr>fen_sessions := om_set (session_key_of r) st4 (fen_sessions f1)\<rparr>"
  have f2: "fence_inv ?l (Suc n) f2"
    using fence_core_update [OF core1 F(2)] s4 F(1) om.size_assign_old [OF i1 F(2), of st4]
    by (simp add: fence_inv_def f2_def)
  have gi: "om_inv (gate_fences g)" using assms(1) by (simp add: gate_inv_def)
  have fo: "fence_of g' s = (if s = rec_source r then f2 else fence_of g s)" for s
    using gi by (simp add: g' store_session_def fence_of_def om_find_set f2_def)
  show gp: "gate_policy g' = gate_policy g" by (simp add: g' store_session_def)
  show "gate_inv (Suc n) g'"
    using assms(1) f2 fence_inv_mono [of ?l n _ "Suc n"]
    by (auto simp: gate_inv_def g' store_session_def om_inv_set om_find_set f2_def)
  show "s \<noteq> rec_source r \<Longrightarrow> fence_of g' s = fence_of g s" using fo by simp
  show "fence_step (session_key_of r) (fence_of g (rec_source r)) (fence_of g' (rec_source r))"
    using F(3) i1 by (simp add: fo f2_def fence_step_def om_find_set)
  show "\<exists>st. session_at g' (rec_source r) (session_key_of r) = Some st \<and> ses_has_last_sequence st \<and>
       rec_sequence r \<le> ses_last_sequence st \<and>
       (\<forall>st0. session_at g (rec_source r) (session_key_of r) = Some st0 \<and> ses_has_last_sequence st0 \<longrightarrow>
          ses_last_sequence st0 \<le> ses_last_sequence st)"
    using s4 i1 find_session_verdict(2) [OF a] by (auto simp: session_at_def fo f2_def om_find_set)
qed

section \<open>Runs of the gate\<close>

text \<open>
  A run: records classified one after another, each under whatever catalog, clock registry and time
  there is at that moment, and restarts that restore every fence into a new gate. The trace holds
  the classified records with their verdicts, newest first.
\<close>

definition restart :: "ingest_gate \<Rightarrow> ingest_gate" where
  "restart g = foldl (\<lambda>h (s, f). restore_fence s f h) (new_gate (gate_policy g)) (gate_fences g)"

inductive gate_run :: "runtime_policy \<Rightarrow> (measurement_record \<times> admit_verdict) list \<Rightarrow> ingest_gate \<Rightarrow> bool"
  for pol :: runtime_policy where
  run_start: "gate_run pol [] (new_gate pol)"
| run_record: "gate_run pol tr g \<Longrightarrow> classify cat clocks now r AcceptedCurrent rep g = (r', v, ev, rep', g') \<Longrightarrow>
    gate_run pol ((r', v) # tr) g'"
| run_restart: "gate_run pol tr g \<Longrightarrow> gate_run pol tr (restart g)"

inductive_cases gate_run_ConsE: "gate_run pol (x # tr) g"

lemma foldl_restore:
  assumes "om_inv (gate_fences h)" and "om_inv m"
  shows "om_inv (gate_fences (foldl (\<lambda>h (s, f). restore_fence s f h) h m)) \<and>
    om_find (gate_fences (foldl (\<lambda>h (s, f). restore_fence s f h) h m)) k =
      (case om_find m k of Some f \<Rightarrow> Some f | None \<Rightarrow> om_find (gate_fences h) k) \<and>
    gate_policy (foldl (\<lambda>h (s, f). restore_fence s f h) h m) = gate_policy h"
  using assms
proof (induction m arbitrary: h)
  case (Cons e m)
  obtain s f where e: "e = (s, f)" by (rule prod.exhaust)
  have "om_inv (gate_fences (restore_fence s f h))" using Cons.prems by (simp add: restore_fence_def om_inv_set)
  moreover have "om_inv m" and "om_find m s = None"
    using Cons.prems(2) e by (auto simp: om_inv_Cons map_of_eq_None_iff)
  ultimately show ?case using Cons.IH [of "restore_fence s f h"] Cons.prems e
    by (auto simp: restore_fence_def om_find_set split: option.splits)
qed simp

lemma restart_same:
  assumes "gate_inv n g"
  shows "gate_inv n (restart g)" and "fence_of (restart g) s = fence_of g s" and "gate_policy (restart g) = gate_policy g"
proof -
  have "om_inv (gate_fences g)" using assms by (simp add: gate_inv_def)
  then have k: "om_inv (gate_fences (restart g))" "om_find (gate_fences (restart g)) t = om_find (gate_fences g) t"
      "gate_policy (restart g) = gate_policy g" for t
    using foldl_restore [of "new_gate (gate_policy g)" "gate_fences g" t]
    by (auto simp: restart_def new_gate_def split: option.splits)
  show "gate_inv n (restart g)" "fence_of (restart g) s = fence_of g s" "gate_policy (restart g) = gate_policy g"
    using assms k by (simp_all add: gate_inv_def fence_of_def)
qed

lemma fence_phase_fence:
  assumes "fence_phase cat path src r v ev rep g = (v', ev', rep', g')"
  shows "\<exists>v1 ev1 v2 ev2 rep2. apply_session_fence r v1 ev1 rep g = (v2, ev2, rep2, g')"
proof -
  obtain v1 ev1 where a: "generation_fence cat path r v ev = (v1, ev1)" by force
  obtain v2 ev2 rep2 g2 where b: "apply_session_fence r v1 ev1 rep g = (v2, ev2, rep2, g2)" by (metis prod_cases4)
  have "g' = g2" using assms a b by (auto simp: fence_phase_def split: prod.splits)
  then show ?thesis using b by blast
qed

lemma classify_fence:
  assumes "classify cat clocks now r AcceptedCurrent rep g = (r', v, ev, rep', g')"
  obtains "g' = g" "v \<noteq> AcceptedCurrent"
  | v1 ev1 rep1 v2 ev2 rep2 where "apply_session_fence r' v1 ev1 rep1 g = (v2, ev2, rep2, g')"
      "v = AcceptedCurrent \<Longrightarrow> fresh_session r' (fence_of g (rec_source r'))"
  using assms
proof (cases rule: classify_cases)
  case refused
  then show thesis using that(1) by simp
next
  case (fenced path src gen rep1 ev1)
  obtain v1 ev2 v2 ev3 rep2 where "apply_session_fence r' v1 ev2 rep1 g = (v2, ev3, rep2, g')"
    using fence_phase_fence [OF fenced(8)] by blast
  then show thesis by (rule that(2)) (use fence_phase_current(1) [OF fenced(8)] in blast)
qed

definition current_sequences ::
  "source_id \<Rightarrow> session_key \<Rightarrow> (measurement_record \<times> admit_verdict) list \<Rightarrow> sequence list" where
  "current_sequences s k tr = map (\<lambda>(r, _). rec_sequence r)
     (filter (\<lambda>(r, v). v = AcceptedCurrent \<and> rec_source r = s \<and> session_key_of r = k) tr)"

definition covered :: "(measurement_record \<times> admit_verdict) list \<Rightarrow> ingest_gate \<Rightarrow> source_id \<Rightarrow> session_key \<Rightarrow> bool" where
  "covered tr g s k \<longleftrightarrow> sorted_wrt (>) (current_sequences s k tr) \<and>
     (current_sequences s k tr \<noteq> [] \<longrightarrow>
       (\<exists>st. session_at g s k = Some st \<and> ses_has_last_sequence st \<and>
          (\<forall>q \<in> set (current_sequences s k tr). q \<le> ses_last_sequence st)))"

definition run_inv :: "(measurement_record \<times> admit_verdict) list \<Rightarrow> ingest_gate \<Rightarrow> bool" where
  "run_inv tr g \<longleftrightarrow> (\<forall>s k. fen_evicted_sessions (fence_of g s) = 0 \<longrightarrow> covered tr g s k)"

lemma fence_stepD:
  "fence_step key f f' \<Longrightarrow> fen_evicted_sessions f' = 0 \<Longrightarrow> k \<noteq> key \<Longrightarrow>
     om_find (fen_sessions f') k = om_find (fen_sessions f) k"
  unfolding fence_step_def by blast

lemma covered_step:
  assumes "gate_inv n g" and "Suc n < 2 ^ 64 - 1" and "apply_session_fence r v1 ev1 rep1 g = (v2, ev2, rep2, g')"
    and "v = AcceptedCurrent \<Longrightarrow> fresh_session r (fence_of g (rec_source r))"
    and "run_inv tr g"
  shows "run_inv ((r, v) # tr) g'"
  unfolding run_inv_def
proof (intro allI impI)
  fix s k
  assume e0: "fen_evicted_sessions (fence_of g' s) = 0"
  note A = apply_session_fence_inv [OF assms(1-3)]
  have e1: "fen_evicted_sessions (fence_of g s) = 0"
    using e0 A(3) A(4) by (cases "s = rec_source r") (auto simp: fence_step_def)
  then have c: "covered tr g s k" using assms(5) unfolding run_inv_def by blast
  show "covered ((r, v) # tr) g' s k"
  proof (cases "s = rec_source r \<and> k = session_key_of r")
    case False
    then have "session_at g' s k = session_at g s k"
      using e0 A(3) fence_stepD [OF A(4), of k] by (cases "s = rec_source r") (auto simp: session_at_def)
    moreover have "current_sequences s k ((r, v) # tr) = current_sequences s k tr"
      using False by (auto simp: current_sequences_def)
    ultimately show ?thesis using c by (simp add: covered_def)
  next
    case True
    from A(5) True obtain st where st: "session_at g' s k = Some st" "ses_has_last_sequence st" "rec_sequence r \<le> ses_last_sequence st"
      "\<And>st0. session_at g s k = Some st0 \<Longrightarrow> ses_has_last_sequence st0 \<Longrightarrow> ses_last_sequence st0 \<le> ses_last_sequence st"
      by blast
    have old: "q \<le> ses_last_sequence st" if "q \<in> set (current_sequences s k tr)" for q
      using c that st(4) unfolding covered_def by (metis empty_iff list.set(1) order_trans)
    have new: "q < rec_sequence r" if "q \<in> set (current_sequences s k tr)" "v = AcceptedCurrent" for q
      using c that assms(4) True unfolding covered_def fresh_session_def session_at_def
      by (metis (no_types, lifting) empty_iff le_less_trans list.set(1) option.simps(5))
    show ?thesis
      using c True st(1-3) old new by (auto simp: covered_def current_sequences_def)
  qed
qed

lemma gate_run_inv:
  assumes "gate_run pol tr g" and "length tr < 2 ^ 64 - 2"
  shows "gate_inv (length tr) g \<and> gate_policy g = pol \<and> run_inv tr g"
  using assms
proof (induction rule: gate_run.induct)
  case run_start
  show ?case by (simp add: gate_inv_def new_gate_def run_inv_def covered_def current_sequences_def)
next
  case (run_record tr g cat clocks now r rep r' v ev rep' g')
  have i: "gate_inv (length tr) g" "gate_policy g = pol" "run_inv tr g" and n: "Suc (length tr) < 2 ^ 64 - 1"
    using run_record by simp_all
  from run_record(2) show ?case
  proof (cases rule: classify_fence)
    case 1
    then show ?thesis using i gate_inv_mono [OF i(1), of "Suc (length tr)"]
      by (auto simp: run_inv_def covered_def current_sequences_def)
  next
    case (2 v1 ev1 rep1 v2 ev2 rep2)
    then show ?thesis
      using apply_session_fence_inv(1,2) [OF i(1) n 2(1)] covered_step [OF i(1) n 2(1) _ i(3), of v] i(2) by simp
  qed
next
  case (run_restart tr g)
  then have "gate_inv (length tr) g" by simp
  note R = restart_same [OF this]
  show ?case using run_restart R by (simp add: run_inv_def covered_def session_at_def)
qed

section \<open>A small deployment\<close>

text \<open>One path without hops, one source at revision 2, one generation; readings in one clock domain.\<close>

definition demo_catalog :: catalog where
  "demo_catalog = (empty_catalog default_limits)\<lparr>
     cat_sources := [(StrongId 2, \<lparr>src_id = StrongId 2, src_name = ''s'', src_kind = Probe, src_authority = Primary,
        src_semantics = EndToEndRequestResponse, src_revision = 2, src_description = []\<rparr>)],
     cat_generations := [(StrongId 3, \<lparr>gen_id = StrongId 3, gen_name = ''g'', gen_revision = 1, gen_supersedes = no_id,
        gen_description = []\<rparr>)],
     cat_paths := [(StrongId 1, \<lparr>path_id = StrongId 1, path_name = ''p'', path_generation = StrongId 3, path_revision = 1,
        path_hops = []\<rparr>)]\<rparr>"

definition demo_time :: "nanos \<Rightarrow> timestamp" where "demo_time n = \<lparr>ts_ns = n, ts_domain = StrongId 4\<rparr>"

definition demo_record :: "revision \<Rightarrow> sequence \<Rightarrow> measurement_record" where
  "demo_record rv q = \<lparr>rec_id = no_id, rec_path = StrongId 1, rec_generation = StrongId 3, rec_source = StrongId 2,
     rec_epoch = StrongId 5, rec_incarnation = StrongId 6, rec_source_revision = rv, rec_sequence = q,
     rec_domain = StrongId 4, rec_request = demo_time 100, rec_response = demo_time 350, rec_rtt_ns = 250, rec_hops = [],
     rec_stamp = \<lparr>stamp_observed_at = demo_time 400, stamp_received_at = demo_time 500, stamp_received_mono = \<lparr>mono_ns = 0\<rparr>\<rparr>,
     rec_evidence = default_evidence, rec_synthetic = False\<rparr>"

definition demo_classify :: "measurement_record \<Rightarrow> ingest_gate \<Rightarrow> measurement_record \<times> admit_verdict \<times> evidence \<times> ingest_report \<times> ingest_gate" where
  "demo_classify r g = classify demo_catalog (empty_registry default_runtime_policy) (demo_time 500) r AcceptedCurrent empty_report g"

definition demo_step :: "measurement_record \<Rightarrow> ingest_gate \<Rightarrow> ingest_gate" where
  "demo_step r g = (case demo_classify r g of (_, _, _, _, g') \<Rightarrow> g')"

definition demo_verdict :: "measurement_record \<Rightarrow> ingest_gate \<Rightarrow> admit_verdict" where
  "demo_verdict r g = (case demo_classify r g of (_, v, _, _, _) \<Rightarrow> v)"

lemma demo_lookups:
  "\<exists>path. cat_path demo_catalog (StrongId 1) = Inr path \<and> path_generation path = StrongId 3"
  "\<exists>src. cat_source demo_catalog (StrongId 2) = Inr src \<and> src_revision src = 2"
  "\<exists>gen. cat_generation demo_catalog (StrongId 3) = Inr gen"
  "\<not> is_superseded demo_catalog (StrongId 3)"
  by (simp_all add: cat_path_def cat_source_def cat_generation_def lookup_def_def demo_catalog_def is_superseded_def no_id_def)

lemma demo_structured: "0 < rv \<Longrightarrow> well_structured (demo_record rv q)"
  by (simp add: well_structured_def demo_record_def demo_time_def valid_id_def revision_valid_def in_i64_iff)

lemma demo_age: "age_admits default_runtime_policy reg (demo_time 400) (demo_time 500)"
  by (simp add: age_admits_def estimate_age_def demo_time_def ts_valid_def valid_id_def in_i64_iff classify_age_def
      default_runtime_policy_def default_freshness_policy_def)

lemma demo_eligible:
  assumes "gate_policy g = default_runtime_policy" and "fresh_session (demo_record 2 q) (fence_of g (StrongId 2))"
  shows "eligible demo_catalog (empty_registry default_runtime_policy) (demo_time 500) g (demo_record 2 q)"
  using assms demo_lookups demo_structured [of 2 q] demo_age [of "empty_registry default_runtime_policy"]
  by (auto simp: eligible_def demo_record_def)

lemma demo_current:
  assumes "gate_policy g = default_runtime_policy" and "fresh_session (demo_record 2 q) (fence_of g (StrongId 2))"
  shows "demo_verdict (demo_record 2 q) g = AcceptedCurrent"
proof -
  obtain r' v ev rep g' where c: "demo_classify (demo_record 2 q) g = (r', v, ev, rep, g')" by (metis prod_cases5)
  with classify_current(1) [OF c [unfolded demo_classify_def]] demo_eligible [OF assms] show ?thesis
    by (simp add: demo_verdict_def)
qed

definition demo_session :: session_state where
  "demo_session = \<lparr>ses_ordinal = 1, ses_source_revision = 2, ses_has_last_sequence = True, ses_last_sequence = 7,
     ses_recent_sequences = {7}, ses_recent_order = [7], ses_accepted_current = 1, ses_accepted_historical = 0, ses_rejected = 0\<rparr>"

definition demo_fence :: source_fence_state where
  "demo_fence = \<lparr>fen_next_ordinal = 2, fen_sessions = [((StrongId 5, StrongId 6), demo_session)],
     fen_current_epoch = StrongId 5, fen_current_incarnation = StrongId 6, fen_current_ordinal = 1,
     fen_evicted_sessions = 0, fen_seen_revision = 0\<rparr>"

lemma classify_gate:
  assumes "classify cat clocks now r AcceptedCurrent rep g = (r', v, ev, rep', g')" and "cat_path cat (rec_path r) = Inr path"
    and "rec_generation r = path_generation path" and "\<not> is_superseded cat (rec_generation r)" and "well_structured r"
    and "list_all (hop_checked cat path) (rec_hops r)" and "cat_source cat (rec_source r) = Inr src"
    and "cat_generation cat (rec_generation r) = Inr gen"
  shows "\<exists>ev1 rep1. g' = snd (snd (snd (apply_session_fence r' AcceptedCurrent ev1 rep1 g))) \<and> same_exchange (start_record r) r'"
proof -
  obtain r1 ev1 fatal rep1 where i: "inspect cat clocks (gate_policy g) path now (start_record r)
      (observed UnknownFreshness High) rep = (r1, ev1, fatal, rep1)" by (metis prod_cases4)
  have nf: "\<not> fatal" using inspect_fatal(1) [OF i] assms(5,6) by (simp add: start_record_checks)
  note same = inspect_same [OF i]
  note s = same_exchange_fields [OF same]
  obtain v2 ev2 rep2 g2 where f: "fence_phase cat path src r1 AcceptedCurrent ev1 rep1 g = (v2, ev2, rep2, g2)" by (metis prod_cases4)
  have e: "r' = r1" "g' = g2" using assms(1,2,7,8) i nf f by (simp_all add: classify_def Let_def)
  have "generation_fence cat path r1 AcceptedCurrent ev1 = (AcceptedCurrent, ev1)"
    using assms(3,4) s by (simp add: generation_fence_def)
  then have "g2 = snd (snd (snd (apply_session_fence r1 AcceptedCurrent ev1 rep1 g)))"
    using f by (auto simp: fence_phase_def split: prod.splits)
  then show ?thesis using e same by blast
qed

lemma demo_fence_step:
  assumes "demo_classify (demo_record 2 q) g = (r', v, ev, rep, g')"
  shows "\<exists>ev rep. g' = snd (snd (snd (apply_session_fence r' AcceptedCurrent ev rep g)))"
    and "rec_source r' = StrongId 2" "session_key_of r' = (StrongId 5, StrongId 6)"
      "rec_source_revision r' = 2" "rec_sequence r' = q"
proof -
  obtain path src gen where k: "cat_source demo_catalog (StrongId 2) = Inr src" "cat_generation demo_catalog (StrongId 3) = Inr gen"
    "cat_path demo_catalog (StrongId 1) = Inr path" "path_generation path = StrongId 3"
    using demo_lookups by blast
  have f: "rec_path (demo_record 2 q) = StrongId 1" "rec_source (demo_record 2 q) = StrongId 2"
    "rec_generation (demo_record 2 q) = StrongId 3" "rec_hops (demo_record 2 q) = []"
    "session_key_of (start_record (demo_record 2 q)) = (StrongId 5, StrongId 6)"
    "rec_source_revision (demo_record 2 q) = 2" "rec_sequence (demo_record 2 q) = q"
    by (simp_all add: demo_record_def session_key_of_def start_record_def)
  have c: "\<exists>ev1 rep1. g' = snd (snd (snd (apply_session_fence r' AcceptedCurrent ev1 rep1 g))) \<and>
      same_exchange (start_record (demo_record 2 q)) r'"
    by (rule classify_gate [OF assms [unfolded demo_classify_def], of path src gen])
      (simp_all add: f k demo_lookups demo_structured)
  then show "\<exists>ev rep. g' = snd (snd (snd (apply_session_fence r' AcceptedCurrent ev rep g)))" by blast
  from c have "same_exchange (start_record (demo_record 2 q)) r'" by blast
  from same_exchange_fields [OF this] show "rec_source r' = StrongId 2" "session_key_of r' = (StrongId 5, StrongId 6)"
      "rec_source_revision r' = 2" "rec_sequence r' = q" by (simp_all add: f)
qed

lemma first_record:
  assumes "rec_source r = StrongId 2" and "session_key_of r = (StrongId 5, StrongId 6)"
    and "rec_source_revision r = 2" and "rec_sequence r = 7"
  shows "snd (snd (snd (apply_session_fence r AcceptedCurrent ev rep (new_gate default_runtime_policy)))) =
     \<lparr>gate_policy = default_runtime_policy, gate_fences = [(StrongId 2, demo_fence)]\<rparr>"
proof -
  have e: "rec_epoch r = StrongId 5" "rec_incarnation r = StrongId 6" using assms(2) by (simp_all add: session_key_of_def)
  show ?thesis
    using assms e
    by (simp add: apply_session_fence_def find_session_def open_session_def new_gate_def fence_of_def new_fence_def Let_def
      evict_sessions.simps revision_fence_def sequence_fence_def remember_sequence_def store_session_def new_session_def
      default_runtime_policy_def default_limits_def demo_fence_def demo_session_def)
qed

lemma demo_first_gate:
  "demo_step (demo_record 2 7) (new_gate default_runtime_policy) =
     \<lparr>gate_policy = default_runtime_policy, gate_fences = [(StrongId 2, demo_fence)]\<rparr>"
proof -
  obtain r' v ev rep g' where c: "demo_classify (demo_record 2 7) (new_gate default_runtime_policy) = (r', v, ev, rep, g')"
    by (metis prod_cases5)
  note D = demo_fence_step [OF c]
  from D(1) obtain ev1 rep1 where "g' = snd (snd (snd (apply_session_fence r' AcceptedCurrent ev1 rep1 (new_gate default_runtime_policy))))"
    by blast
  then have "g' = \<lparr>gate_policy = default_runtime_policy, gate_fences = [(StrongId 2, demo_fence)]\<rparr>"
    using first_record [OF D(2-5)] by simp
  then show ?thesis by (simp add: demo_step_def c)
qed

section \<open>Properties of admission\<close>

text \<open>C1: A record becomes current evidence exactly when the gate's conditions hold: path, source and
  generation are known, the exchange is consistent with itself, every hop that the catalog knows and that
  has clock domains for entry and exit stands at its position of the declared path, its generation is the
  path's and not superseded, its revision is the registered one, its session is the newest of its source
  with a strictly newer sequence number, and its age is known and fresh or aging. A hop the catalog does
  not know, or without clock domains, is not held against the path. Current evidence is observed, also
  after a gap in the sequence, and fresh or aging; and the exchange itself is left as submitted.\<close>

theorem current_iff_eligible:
  assumes "classify cat clocks now r AcceptedCurrent rep g = (r', v, ev, rep', g')"
  shows "(v = AcceptedCurrent \<longleftrightarrow> eligible cat clocks now g r)
    \<and> (v = AcceptedCurrent \<longrightarrow> usable ev \<and> ev_state ev = Observed)
    \<and> same_exchange (start_record r) r'"
  using assms classify_current [OF assms] by (cases rule: classify_cases) (auto simp: usable_def)

theorem current_iff_eligible_witness:
  "\<exists>r' ev rep' g'. classify demo_catalog (empty_registry default_runtime_policy) (demo_time 500) (demo_record 2 7)
     AcceptedCurrent empty_report (new_gate default_runtime_policy) = (r', AcceptedCurrent, ev, rep', g') \<and> usable ev"
proof -
  let ?g = "new_gate default_runtime_policy"
  obtain r' v ev rep' g' where c: "classify demo_catalog (empty_registry default_runtime_policy) (demo_time 500) (demo_record 2 7)
     AcceptedCurrent empty_report ?g = (r', v, ev, rep', g')" by (metis prod_cases5)
  have "eligible demo_catalog (empty_registry default_runtime_policy) (demo_time 500) ?g (demo_record 2 7)"
    by (rule demo_eligible) (simp_all add: new_gate_def fence_of_def fresh_session_def new_fence_def)
  with current_iff_eligible [OF c] c show ?thesis by blast
qed

text \<open>C2: Replays never become current: along every run of classifications and restarts, under changing
  catalogs, clocks and times, the sequence numbers that became current in one session of a source are
  strictly increasing, as long as no session of that source has been evicted.\<close>

theorem current_sequences_increase:
  assumes "gate_run pol tr g" and "length tr < 2 ^ 64 - 2" and "fen_evicted_sessions (fence_of g s) = 0"
  shows "sorted_wrt (>) (current_sequences s k tr)"
  using gate_run_inv [OF assms(1,2)] assms(3) unfolding run_inv_def covered_def by blast

theorem current_sequences_increase_witness:
  "\<exists>tr g. gate_run default_runtime_policy tr g \<and> current_sequences (StrongId 2) (StrongId 5, StrongId 6) tr = [8, 7] \<and>
     sorted_wrt (>) (current_sequences (StrongId 2) (StrongId 5, StrongId 6) tr)"
proof -
  let ?g0 = "new_gate default_runtime_policy"
  let ?g1 = "\<lparr>gate_policy = default_runtime_policy, gate_fences = [(StrongId 2, demo_fence)]\<rparr>"
  obtain r1 v1 ev1 rep1 g1 where c1: "demo_classify (demo_record 2 7) ?g0 = (r1, v1, ev1, rep1, g1)" by (metis prod_cases5)
  have g1: "g1 = ?g1" using demo_first_gate c1 by (simp add: demo_step_def)
  have v1: "v1 = AcceptedCurrent"
    using demo_current [of ?g0 7] c1 by (simp add: demo_verdict_def new_gate_def fence_of_def fresh_session_def new_fence_def)
  obtain r2 v2 ev2 rep2 g2 where c2: "demo_classify (demo_record 2 8) ?g1 = (r2, v2, ev2, rep2, g2)" by (metis prod_cases5)
  have key: "session_key_of (demo_record 2 8) = (StrongId 5, StrongId 6)" "rec_sequence (demo_record 2 8) = 8"
    "rec_source_revision (demo_record 2 8) = 2" by (simp_all add: demo_record_def session_key_of_def)
  have v2: "v2 = AcceptedCurrent"
    using demo_current [of ?g1 8] c2
    by (simp add: demo_verdict_def fence_of_def fresh_session_def demo_fence_def demo_session_def key)
  note D1 = demo_fence_step [OF c1] and D2 = demo_fence_step [OF c2]
  have R1: "gate_run default_runtime_policy [(r1, v1)] ?g1"
    using run_record [OF run_start c1 [unfolded demo_classify_def]] g1 by simp
  have R2: "gate_run default_runtime_policy [(r2, v2), (r1, v1)] g2"
    by (rule run_record [OF R1 c2 [unfolded demo_classify_def]])
  obtain ev rep where "g2 = snd (snd (snd (apply_session_fence r2 AcceptedCurrent ev rep ?g1)))" using D2(1) by blast
  then have "fen_evicted_sessions (fence_of g2 (StrongId 2)) = 0"
    using D2(2-5) by (simp add: apply_session_fence_def find_session_def fence_of_def demo_fence_def demo_session_def Let_def
        revision_fence_def sequence_fence_def store_session_def)
  from current_sequences_increase [OF R2 _ this] R2 show ?thesis
    using D1(2-5) D2(2-5) v1 v2 by (intro exI conjI) (auto simp: current_sequences_def)
qed

text \<open>C6: After any run the fences are well formed: at most the configured number of sessions per source
  (never fewer than the current one), unique ordinals with the current session holding the greatest,
  evicted and kept sessions adding up to the sessions ever opened, and per session a replay window
  within its limit that lists distinct sequence numbers not above the last one.\<close>

theorem fences_wellformed:
  assumes "gate_run pol tr g" and "length tr < 2 ^ 64 - 2" and "om_find (gate_fences g) s = Some f"
  shows "length (fen_sessions f) \<le> max 1 (max_sessions_per_source (pol_limits pol))
    \<and> unat (fen_evicted_sessions f) + length (fen_sessions f) = unat (fen_current_ordinal f)
    \<and> (\<forall>k st. om_find (fen_sessions f) k = Some st \<longrightarrow>
         0 < ses_ordinal st \<and> ses_ordinal st \<le> fen_current_ordinal f \<and>
         (ses_ordinal st = fen_current_ordinal f \<longleftrightarrow> k = (fen_current_epoch f, fen_current_incarnation f)) \<and>
         ses_recent_sequences st = set (ses_recent_order st) \<and> distinct (ses_recent_order st) \<and>
         length (ses_recent_order st) \<le> sequence_replay_window (pol_limits pol) \<and>
         (\<forall>q \<in> ses_recent_sequences st. q \<le> ses_last_sequence st))"
proof -
  have "gate_inv (length tr) g" and p: "gate_policy g = pol" using gate_run_inv [OF assms(1,2)] by auto
  then have c: "fence_core (pol_limits pol) (length tr) f"
    and l: "length (fen_sessions f) \<le> max 1 (max_sessions_per_source (pol_limits pol))"
    using assms(3) by (auto simp: gate_inv_def fence_inv_def)
  have "unat (fen_evicted_sessions f) + length (fen_sessions f) = unat (fen_current_ordinal f)"
    using c by (simp add: fence_core_def)
  moreover have "\<forall>q \<in> ses_recent_sequences st. q \<le> ses_last_sequence st" if "session_inv w st" for w st
    using that by (auto simp: session_inv_def split: if_splits)
  ultimately show ?thesis
    using l fence_coreD [OF c] unfolding session_inv_def by blast
qed

theorem fences_wellformed_witness:
  "\<exists>tr. gate_run default_runtime_policy tr \<lparr>gate_policy = default_runtime_policy, gate_fences = [(StrongId 2, demo_fence)]\<rparr> \<and>
     length tr = 1 \<and> unat (fen_evicted_sessions demo_fence) + length (fen_sessions demo_fence) = 1"
proof -
  let ?g1 = "\<lparr>gate_policy = default_runtime_policy, gate_fences = [(StrongId 2, demo_fence)]\<rparr>"
  obtain r1 v1 ev1 rep1 g1 where c1: "demo_classify (demo_record 2 7) (new_gate default_runtime_policy) = (r1, v1, ev1, rep1, g1)"
    by (metis prod_cases5)
  have g1: "g1 = ?g1" using demo_first_gate c1 by (simp add: demo_step_def)
  then have R: "gate_run default_runtime_policy [(r1, v1)] ?g1"
    using run_record [OF run_start c1 [unfolded demo_classify_def]] by simp
  have "unat (fen_evicted_sessions demo_fence) + length (fen_sessions demo_fence) = unat (fen_current_ordinal demo_fence)"
    using fences_wellformed [OF R, of "StrongId 2" demo_fence] by simp
  then show ?thesis using R by (intro exI [of _ "[(r1, v1)]"]) (simp add: demo_fence_def)
qed

text \<open>A record that names an unknown path, source or generation, contradicts itself or contradicts
  its declared path is rejected, and the fences stay exactly as they were: it can neither open a session
  nor consume a sequence number.\<close>

lemma unrecognised_rejected:
  assumes "classify cat clocks now r AcceptedCurrent rep g = (r', v, ev, rep', g')" and "\<not> recognised cat r"
  shows "v = Rejected \<and> g' = g"
  using assms(1)
proof (cases rule: classify_cases)
  case (fenced path src gen rep1 ev1)
  then show ?thesis using assms(2) by (simp add: recognised_def)
qed simp

lemma unrecognised_rejected_example:
  "demo_verdict (demo_record 0 7) (new_gate default_runtime_policy) = Rejected \<and>
   demo_step (demo_record 0 7) (new_gate default_runtime_policy) = new_gate default_runtime_policy"
proof -
  obtain r1 v1 ev1 rep1 g1 where c: "demo_classify (demo_record 0 7) (new_gate default_runtime_policy) = (r1, v1, ev1, rep1, g1)"
    by (metis prod_cases5)
  have "\<not> recognised demo_catalog (demo_record 0 7)"
    by (simp add: recognised_def well_structured_def demo_record_def revision_valid_def)
  from unrecognised_rejected [OF c [unfolded demo_classify_def] this] c show ?thesis
    by (simp add: demo_verdict_def demo_step_def)
qed

section \<open>Replays\<close>

definition is_replay :: "measurement_record \<Rightarrow> ingest_gate \<Rightarrow> bool" where
  "is_replay r g \<longleftrightarrow> (case session_at g (rec_source r) (session_key_of r) of
     None \<Rightarrow> False
   | Some st \<Rightarrow> ses_has_last_sequence st \<and> rec_sequence r \<le> ses_last_sequence st \<and>
       (rec_sequence r = ses_last_sequence st \<or> rec_sequence r \<in> ses_recent_sequences st))"

lemma apply_session_fence_replay:
  assumes "is_replay r g" and "apply_session_fence r v ev rep g = (v', ev', rep', g')"
  shows "v' = Rejected" and "ev_state ev' = Conflicting"
proof -
  let ?f = "fence_of g (rec_source r)"
  obtain st where st: "om_find (fen_sessions ?f) (session_key_of r) = Some st" "ses_has_last_sequence st"
    "rec_sequence r \<le> ses_last_sequence st" "rec_sequence r = ses_last_sequence st \<or> rec_sequence r \<in> ses_recent_sequences st"
    using assms(1) by (auto simp: is_replay_def session_at_def split: option.splits)
  obtain v1 ev1 st1 f1 where a: "find_session (pol_limits (gate_policy g)) r v ev ?f = (v1, ev1, st1, f1)"
    by (metis prod_cases4)
  have s1: "st1 = st" using find_session_verdict(2) [OF a] st by simp
  obtain v2 ev2 st2 where b: "revision_fence r v1 ev1 st1 = (v2, ev2, st2)" by (metis prod_cases3)
  obtain w where w: "st2 = st1\<lparr>ses_source_revision := w\<rparr>" using revision_fence_verdict(2) [OF b] by blast
  have c: "sequence_fence r v2 ev2 rep st2 = (True, v2, ev2, rep, st2)"
    using st s1 w by (simp add: sequence_fence_def Let_def)
  show "v' = Rejected" "ev_state ev' = Conflicting"
    using assms(2) a b c by (auto simp: apply_session_fence_def Let_def)
qed

text \<open>C19: A remembered sequence number is refused: when a recognised record repeats the last sequence of
  its session, or one in its replay window, and carries at least the registered source revision, the
  verdict is rejected and the evidence conflicting. With an older revision the same replay is kept as
  historical evidence instead: the revision fence overwrites the rejection.\<close>

theorem replay_verdict:
  assumes "classify cat clocks now r AcceptedCurrent rep g = (r', v, ev, rep', g')" and "recognised cat r"
    and "is_replay r g" and "cat_source cat (rec_source r) = Inr src"
  shows "v = (if rec_source_revision r < src_revision src then AcceptedHistorical else Rejected)
    \<and> ev_state ev = Conflicting"
  using assms(1)
proof (cases rule: classify_cases)
  case refused
  then show ?thesis using assms(2) by simp
next
  case (fenced path src' gen rep1 ev1)
  note s = same_exchange_fields [OF fenced(9)]
  have rp: "is_replay r' g" using assms(3) s by (simp add: is_replay_def session_key_of_def split: option.splits)
  obtain v1 ev2 where a: "generation_fence cat path r' AcceptedCurrent ev1 = (v1, ev2)" by force
  obtain v2 ev3 rep2 g2 where b: "apply_session_fence r' v1 ev2 rep1 g = (v2, ev3, rep2, g2)" by (metis prod_cases4)
  note R = apply_session_fence_replay [OF rp b]
  obtain v3 ev4 where c: "authority_fence src' r' v2 ev3 = (v3, ev4)" by force
  have e: "v = conclude v3 ev4" "ev = ev4" using fenced(8) a b c by (auto simp: fence_phase_def)
  have "src' = src" using fenced(2) assms(4) by simp
  then show ?thesis using e c R s by (auto simp: authority_fence_def conclude_def split: if_splits)
qed


theorem replay_verdict_witness:
  "is_replay (demo_record 1 7) \<lparr>gate_policy = default_runtime_policy, gate_fences = [(StrongId 2, demo_fence)]\<rparr> \<and>
   demo_verdict (demo_record 1 7) \<lparr>gate_policy = default_runtime_policy, gate_fences = [(StrongId 2, demo_fence)]\<rparr>
     = AcceptedHistorical"
proof -
  let ?g = "\<lparr>gate_policy = default_runtime_policy, gate_fences = [(StrongId 2, demo_fence)]\<rparr>"
  obtain r1 v1 ev1 rep1 g1 where c: "demo_classify (demo_record 1 7) ?g = (r1, v1, ev1, rep1, g1)" by (metis prod_cases5)
  obtain path src gen where k: "cat_source demo_catalog (StrongId 2) = Inr src" "src_revision src = 2"
    "cat_generation demo_catalog (StrongId 3) = Inr gen" "cat_path demo_catalog (StrongId 1) = Inr path"
    using demo_lookups by blast
  have f: "rec_path (demo_record 1 7) = StrongId 1" "rec_source (demo_record 1 7) = StrongId 2"
    "rec_generation (demo_record 1 7) = StrongId 3" "rec_hops (demo_record 1 7) = []"
    "session_key_of (demo_record 1 7) = (StrongId 5, StrongId 6)"
    "rec_source_revision (demo_record 1 7) = 1" "rec_sequence (demo_record 1 7) = 7"
    by (simp_all add: demo_record_def session_key_of_def)
  have r: "recognised demo_catalog (demo_record 1 7)" using demo_structured [of 1 7] by (simp add: recognised_def f k)
  have p: "is_replay (demo_record 1 7) ?g"
    by (simp add: is_replay_def session_at_def fence_of_def f demo_fence_def demo_session_def)
  have src: "cat_source demo_catalog (rec_source (demo_record 1 7)) = Inr src" by (simp add: f k)
  from replay_verdict [OF c [unfolded demo_classify_def] r p src] p k c f show ?thesis by (simp add: demo_verdict_def)
qed

section \<open>The accounting of a batch\<close>

definition same_tally :: "ingest_report \<Rightarrow> ingest_report \<Rightarrow> bool" where
  "same_tally a b \<longleftrightarrow> rep_received b = rep_received a \<and> rep_accepted_current b = rep_accepted_current a \<and>
     rep_accepted_historical b = rep_accepted_historical a \<and> rep_rejected b = rep_rejected a \<and>
     rep_verdicts b = rep_verdicts a \<and> rep_verdicts_truncated b = rep_verdicts_truncated a"

lemma same_tally_refl [simp]: "same_tally a a" by (simp add: same_tally_def)
lemma same_tally_trans: "same_tally a b \<Longrightarrow> same_tally b c \<Longrightarrow> same_tally a c" by (simp add: same_tally_def)

lemma derive_hop_tally: "derive_hop cat clocks r h rep = (h', rep') \<Longrightarrow> same_tally rep rep'"
  by (auto simp: derive_hop_def Let_def same_tally_def split: sum.splits prod.splits)

lemma derive_hops_tally: "derive_hops cat clocks r hs rep = (hs', rep') \<Longrightarrow> same_tally rep rep'"
proof (induction hs arbitrary: rep hs' rep')
  case (Cons h hs)
  then show ?case by (auto split: prod.splits) (metis derive_hop_tally same_tally_trans)
qed simp

lemma inspect_tally: "inspect cat clocks pol path now r ev rep = (r', ev', fatal, rep') \<Longrightarrow> same_tally rep rep'"
  by (auto simp: inspect_def derive_dwells_def Let_def split: prod.splits dest: derive_hops_tally)

lemma apply_session_fence_tally:
  assumes "apply_session_fence r v ev rep g = (v', ev', rep', g')"
  shows "same_tally rep rep'"
proof -
  obtain v1 ev1 st1 f1 where a: "find_session (pol_limits (gate_policy g)) r v ev (fence_of g (rec_source r)) = (v1, ev1, st1, f1)"
    by (metis prod_cases4)
  obtain v2 ev2 st2 where b: "revision_fence r v1 ev1 st1 = (v2, ev2, st2)" by (metis prod_cases3)
  obtain rp v3 ev3 rep3 st3 where c: "sequence_fence r v2 ev2 rep st2 = (rp, v3, ev3, rep3, st3)" by (metis prod_cases5)
  have "same_tally rep rep3" using c by (auto simp: sequence_fence_def Let_def same_tally_def split: if_splits)
  then show ?thesis using assms a b c by (auto simp: apply_session_fence_def Let_def same_tally_def split: if_splits)
qed

lemma fence_phase_tally:
  assumes "fence_phase cat path src r v ev rep g = (v', ev', rep', g')"
  shows "same_tally rep rep'"
proof -
  obtain v1 ev1 where a: "generation_fence cat path r v ev = (v1, ev1)" by force
  obtain v2 ev2 rep2 g2 where b: "apply_session_fence r v1 ev1 rep g = (v2, ev2, rep2, g2)" by (metis prod_cases4)
  have "rep' = rep2" using assms a b by (auto simp: fence_phase_def split: prod.splits)
  then show ?thesis using apply_session_fence_tally [OF b] by simp
qed

lemma classify_tally:
  assumes "classify cat clocks now r v rep g = (r', v', ev, rep', g')"
  shows "same_tally rep rep'"
proof (cases "isl (cat_path cat (rec_path r)) \<or> isl (cat_source cat (rec_source r)) \<or> isl (cat_generation cat (rec_generation r))")
  case True
  then have "rep' = rep"
    using assms by (auto simp: classify_def Let_def isl_def split: sum.splits prod.splits if_splits)
  then show ?thesis by simp
next
  case False
  then obtain path src gen where k: "cat_path cat (rec_path r) = Inr path" "cat_source cat (rec_source r) = Inr src"
      "cat_generation cat (rec_generation r) = Inr gen" by (auto simp: isl_def) (metis sum.exhaust)
  obtain r1 ev1 fatal rep1 where i: "inspect cat clocks (gate_policy g) path now (start_record r)
      (observed UnknownFreshness High) rep = (r1, ev1, fatal, rep1)" by (metis prod_cases4)
  obtain v2 ev2 rep2 g2 where f: "fence_phase cat path src r1 v ev1 rep1 g = (v2, ev2, rep2, g2)" by (metis prod_cases4)
  have "rep' = (if fatal then rep1 else rep2)" using assms k i f by (auto simp: classify_def Let_def)
  then show ?thesis using inspect_tally [OF i] fence_phase_tally [OF f] same_tally_trans by auto
qed

text \<open>What a batch of \<open>n\<close> records leaves behind, relative to the vectors it was given.\<close>

definition accounts ::
  "ingest_request \<Rightarrow> nat \<Rightarrow> measurement_record list \<Rightarrow> measurement_record list \<Rightarrow> admission \<Rightarrow> bool" where
  "accounts req n cur0 hist0 a \<longleftrightarrow>
     (\<exists>cur hist k. adm_current a = cur0 @ cur \<and> adm_history a = hist0 @ hist \<and> length cur + length hist + k = n \<and>
        rep_accepted_current (adm_report a) = word_of_nat (length cur) \<and>
        rep_accepted_historical (adm_report a) = word_of_nat (length hist) \<and>
        rep_rejected (adm_report a) = word_of_nat k \<and>
        (\<forall>r \<in> set cur. usable (rec_evidence r)) \<and>
        (\<forall>r \<in> set (cur @ hist). stamp_received_at (rec_stamp r) = req_received_at req \<and>
           rec_id r = derive_measurement_id (rec_source r) (rec_epoch r) (rec_incarnation r) (rec_sequence r))) \<and>
     length (rep_verdicts (adm_report a)) = min n kMaxDetailedVerdicts \<and>
     (rep_verdicts_truncated (adm_report a) \<longleftrightarrow> n > kMaxDetailedVerdicts)"

lemma stamp_record_fields:
  "stamp_received_at (rec_stamp (stamp_record req r)) = req_received_at req"
  "rec_id (stamp_record req r) = derive_measurement_id (rec_source (stamp_record req r)) (rec_epoch (stamp_record req r))
     (rec_incarnation (stamp_record req r)) (rec_sequence (stamp_record req r))"
  by (simp_all add: stamp_record_def)

lemma classify_same: "classify cat clocks now r AcceptedCurrent rep g = (r', v, ev, rep', g') \<Longrightarrow> same_exchange (start_record r) r'"
  by (elim classify_cases)

lemma admit_record_accounts:
  assumes "accounts req n cur0 hist0 a"
  shows "accounts req (Suc n) cur0 hist0 (admit_record cat clocks req r a)"
proof -
  obtain r1 v ev rep1 g1 where c: "classify cat clocks (req_received_at req) (stamp_record req r) AcceptedCurrent
      (adm_report a) (adm_gate a) = (r1, v, ev, rep1, g1)" by (metis prod_cases5)
  note s = same_exchange_fields [OF classify_same [OF c]]
  have id: "stamp_received_at (rec_stamp r1) = req_received_at req"
    "rec_id r1 = derive_measurement_id (rec_source r1) (rec_epoch r1) (rec_incarnation r1) (rec_sequence r1)"
    by (simp_all add: s stamp_record_fields)
  have t: "same_tally (adm_report a) rep1" by (rule classify_tally [OF c])
  have u: "v = AcceptedCurrent \<Longrightarrow> usable ev" by (rule classify_current(2) [OF c])
  obtain cur hist k where A: "adm_current a = cur0 @ cur" "adm_history a = hist0 @ hist" "length cur + length hist + k = n"
      "rep_accepted_current (adm_report a) = word_of_nat (length cur)"
      "rep_accepted_historical (adm_report a) = word_of_nat (length hist)" "rep_rejected (adm_report a) = word_of_nat k"
      "\<forall>r \<in> set cur. usable (rec_evidence r)"
      "\<forall>r \<in> set (cur @ hist). stamp_received_at (rec_stamp r) = req_received_at req \<and>
           rec_id r = derive_measurement_id (rec_source r) (rec_epoch r) (rec_incarnation r) (rec_sequence r)"
    and B: "length (rep_verdicts (adm_report a)) = min n kMaxDetailedVerdicts"
     "rep_verdicts_truncated (adm_report a) \<longleftrightarrow> n > kMaxDetailedVerdicts"
    using assms unfolding accounts_def by blast
  define a1 where "a1 = admit_record cat clocks req r a"
  have V: "length (rep_verdicts (adm_report a1)) = min (Suc n) kMaxDetailedVerdicts"
     "rep_verdicts_truncated (adm_report a1) \<longleftrightarrow> Suc n > kMaxDetailedVerdicts"
    using B t by (auto simp: a1_def admit_record_def c Let_def settle_def list_verdict_def note_reasons_def same_tally_def
      split: admit_verdict.split)
  have "\<exists>cur hist k. adm_current a1 = cur0 @ cur \<and> adm_history a1 = hist0 @ hist \<and> length cur + length hist + k = Suc n \<and>
        rep_accepted_current (adm_report a1) = word_of_nat (length cur) \<and>
        rep_accepted_historical (adm_report a1) = word_of_nat (length hist) \<and>
        rep_rejected (adm_report a1) = word_of_nat k \<and>
        (\<forall>r \<in> set cur. usable (rec_evidence r)) \<and>
        (\<forall>r \<in> set (cur @ hist). stamp_received_at (rec_stamp r) = req_received_at req \<and>
           rec_id r = derive_measurement_id (rec_source r) (rec_epoch r) (rec_incarnation r) (rec_sequence r))"
  proof (cases v)
    case AcceptedCurrent
    then show ?thesis using A t u id
      by (intro exI [of _ "cur @ [r1\<lparr>rec_evidence := ev\<rparr>]"] exI [of _ hist] exI [of _ k])
        (auto simp: a1_def admit_record_def c Let_def settle_def list_verdict_def note_reasons_def same_tally_def)
  next
    case AcceptedHistorical
    then show ?thesis using A t id
      by (intro exI [of _ cur] exI [of _ "hist @ [r1\<lparr>rec_evidence := ev\<rparr>]"] exI [of _ k])
        (auto simp: a1_def admit_record_def c Let_def settle_def list_verdict_def note_reasons_def same_tally_def)
  next
    case Rejected
    then show ?thesis using A t
      by (intro exI [of _ cur] exI [of _ hist] exI [of _ "Suc k"])
        (auto simp: a1_def admit_record_def c Let_def settle_def list_verdict_def note_reasons_def same_tally_def)
  qed
  then show ?thesis using V unfolding accounts_def a1_def by blast
qed

lemma admit_records_account:
  "accounts req n cur0 hist0 a \<Longrightarrow>
   accounts req (n + length rs) cur0 hist0 (foldl (\<lambda>a r. admit_record cat clocks req r a) a rs)"
  using admit_record_accounts by (induction rs arbitrary: n a) (auto, metis add_Suc)

text \<open>C20: A batch is admitted unless it has no receive time or exceeds the batch limit, in which case nothing
  is admitted and the fences are untouched. An admitted batch is fully accounted for: current,
  historical and rejected records add up to the records received, exactly the accepted ones are
  appended to the vectors of the caller, with usable evidence if current, stamped with the receive
  time and a derived identity; verdicts are listed for the first 64 records and the truncation is flagged.\<close>

theorem batch_accounted:
  "if ts_valid (req_received_at req) \<and> length (req_records req) \<le> max_batch_samples (pol_limits (gate_policy (adm_gate a)))
   then \<exists>a'. admit cat clocks req a = (ok_status, a') \<and>
     accounts req (length (req_records req)) (adm_current a) (adm_history a) a'
   else \<exists>e. admit cat clocks req a = (Inl e, a\<lparr>adm_report := empty_report\<rparr>)"
proof -
  let ?n = "length (req_records req)"
  let ?a = "a\<lparr>adm_report := empty_report\<lparr>rep_received := word_of_nat ?n\<rparr>\<rparr>"
  let ?b = "foldl (\<lambda>a r. admit_record cat clocks req r a) ?a (req_records req)"
  have "accounts req 0 (adm_current a) (adm_history a) ?a"
    by (simp add: accounts_def empty_report_def)
  from admit_records_account [OF this] have k: "accounts req ?n (adm_current a) (adm_history a) ?b" by simp
  then have "accounts req ?n (adm_current a) (adm_history a)
      (?b\<lparr>adm_report := (adm_report ?b)\<lparr>rep_evidence := report_evidence (adm_report ?b)\<rparr>\<rparr>)"
    by (simp add: accounts_def)
  then show ?thesis by (auto simp: admit_def Let_def fail_def)
qed

end
