(* ===== verification/Ingest_Dwell.thy ===== *)
theory Ingest_Dwell
  imports Ingest_Runs
begin

text \<open>
  What \<^verbatim>\<open>IngestGate::derive_dwells\<close> computes for a hop and its queue: never a fabricated value. The witness
  uses readings of the year 2023.
\<close>

section \<open>Derived dwells\<close>

text \<open>
  The dwell the policy allows between two readings: their difference in one domain, the difference on
  the reference timeline when the clock registry finds the domains comparable, nothing otherwise.
\<close>

definition allowed_dwell ::
  "clock_registry \<Rightarrow> measurement_record \<Rightarrow> timestamp \<Rightarrow> timestamp \<Rightarrow> nanos \<Rightarrow> nanos \<Rightarrow> bool" where
  "allowed_dwell clocks r entry exit d u \<longleftrightarrow> 0 \<le> d \<and>
     (if ts_domain entry = ts_domain exit then d = ts_ns exit - ts_ns entry \<and> u = 0
      else valid_id (ts_domain entry) \<and> valid_id (ts_domain exit) \<and> (\<exists>oa ob. pair_ok clocks (stamp_received_at (rec_stamp r)) (rec_generation r) (rec_epoch r) (rec_incarnation r)
             (ts_domain entry) (ts_domain exit) oa ob u \<and> d = (ts_ns exit - ob) - (ts_ns entry - oa)))"

text \<open>
  The subtractions of the code stay in 64 bits for these two readings: each reading minus the offset of
  its report and the difference of the two, for the offsets the registry gives.
\<close>

definition subtractions_fit :: "clock_registry \<Rightarrow> measurement_record \<Rightarrow> timestamp \<Rightarrow> timestamp \<Rightarrow> bool" where
  "subtractions_fit clocks r entry exit \<longleftrightarrow>
     (if ts_domain entry = ts_domain exit then ts_ns entry \<le> ts_ns exit \<longrightarrow> in_i64 (ts_ns exit - ts_ns entry)
      else \<forall>oa ob u. pair_ok clocks (stamp_received_at (rec_stamp r)) (rec_generation r) (rec_epoch r) (rec_incarnation r)
             (ts_domain entry) (ts_domain exit) oa ob u \<longrightarrow>
           in_i64 (ts_ns entry - oa) \<and> in_i64 (ts_ns exit - ob) \<and>
           (ts_ns entry - oa \<le> ts_ns exit - ob \<longrightarrow> in_i64 ((ts_ns exit - ob) - (ts_ns entry - oa))))"

text \<open>They do for readings between 1970 and 2116 in UTC nanoseconds and offsets of up to 36 years.\<close>

definition offsets_within :: "int \<Rightarrow> clock_registry \<Rightarrow> bool" where
  "offsets_within m reg \<longleftrightarrow> (\<forall>i s. reg_sync reg i = Some s \<longrightarrow> \<bar>sync_offset_ns s\<bar> \<le> m)"

lemma pair_ok_offsets: "offsets_within m reg \<Longrightarrow> 0 \<le> m \<Longrightarrow> pair_ok reg now g e n a b oa ob u \<Longrightarrow> \<bar>oa\<bar> \<le> m \<and> \<bar>ob\<bar> \<le> m"
  by (auto simp: pair_ok_def side_ok_def offsets_within_def split: if_splits)

lemma present_day_fits:
  assumes "offsets_within (2 ^ 60) clocks" and "0 \<le> ts_ns entry" "ts_ns entry \<le> 2 ^ 62" and "0 \<le> ts_ns exit" "ts_ns exit \<le> 2 ^ 62"
  shows "subtractions_fit clocks r entry exit"
proof -
  have "in_i64 (ts_ns entry - oa) \<and> in_i64 (ts_ns exit - ob) \<and> in_i64 ((ts_ns exit - ob) - (ts_ns entry - oa))"
    if "pair_ok clocks now g e n a b oa ob u" for now g e n a b oa ob u
    using pair_ok_offsets [OF assms(1) _ that] assms(2-5) by (auto simp: in_i64_iff abs_le_iff)
  moreover have "in_i64 (ts_ns exit - ts_ns entry)" using assms(2-5) by (simp add: in_i64_iff)
  ultimately show ?thesis by (auto simp: subtractions_fit_def)
qed

lemma pair_ok_unique:
  "pair_ok reg now g e n a b oa ob u \<Longrightarrow> pair_ok reg now g e n a b oa' ob' u' \<Longrightarrow> oa = oa' \<and> ob = ob' \<and> u = u'"
  by (auto simp: pair_ok_def side_ok_def split: if_splits)

definition span_of ::
  "clock_registry \<Rightarrow> measurement_record \<Rightarrow> timestamp \<Rightarrow> timestamp \<Rightarrow> (nanos \<times> nanos) option" where
  "span_of clocks r entry exit =
     (if ts_domain entry = ts_domain exit
      then if ts_ns exit < ts_ns entry then None else Some (wrap_i64 (ts_ns exit - ts_ns entry), 0)
      else case compare_for clocks r (ts_domain entry) (ts_domain exit) of
        None \<Rightarrow> None
      | Some c \<Rightarrow>
          let a = wrap_i64 (ts_ns entry - cc_offset_first_ns c); b = wrap_i64 (ts_ns exit - cc_offset_second_ns c)
          in if \<not> cc_comparable c \<or> b < a then None else Some (wrap_i64 (b - a), cc_uncertainty_ns c))"

lemma derive_hop_dwell_span:
  assumes "derive_hop_dwell clocks r h = (h', b)"
  shows "ho_dwell_ns h' = map_option fst (span_of clocks r (ho_entry h) (ho_exit h))"
    and "b \<longleftrightarrow> span_of clocks r (ho_entry h) (ho_exit h) \<noteq> None"
    and "span_of clocks r (ho_entry h) (ho_exit h) = Some (d, u) \<Longrightarrow> ho_dwell_uncertainty_ns h' = Some u"
    and "ho_queue_dwell_ns h' = ho_queue_dwell_ns h"
  using assms by (auto simp: derive_hop_dwell_def span_of_def Let_def merge_into_def split: if_splits option.splits)

lemma queue_span_span:
  assumes "queue_span clocks r nm h = (h', b)"
  shows "ho_queue_dwell_ns h' = map_option fst (span_of clocks r (ho_queue_entry h) (ho_queue_exit h))"
    and "b \<longleftrightarrow> span_of clocks r (ho_queue_entry h) (ho_queue_exit h) \<noteq> None"
    and "span_of clocks r (ho_queue_entry h) (ho_queue_exit h) = Some (d, u) \<Longrightarrow> ho_queue_dwell_uncertainty_ns h' = Some u"
    and "ho_dwell_ns h' = ho_dwell_ns h"
  using assms by (auto simp: queue_span_def span_of_def Let_def merge_into_def split: if_splits option.splits)

lemma span_of_spec:
  assumes "registry_reach p clocks" and "in_i64 (max_uncertainty_ns (pol_comparability p))" and fit: "subtractions_fit clocks r entry exit"
  shows "span_of clocks r entry exit = Some (d, u) \<longleftrightarrow> allowed_dwell clocks r entry exit d u"
proof (cases "ts_domain entry = ts_domain exit")
  case True
  then show ?thesis using fit by (auto simp: span_of_def allowed_dwell_def subtractions_fit_def)
next
  case False
  let ?P = "pair_ok clocks (stamp_received_at (rec_stamp r)) (rec_generation r) (rec_epoch r) (rec_incarnation r)
    (ts_domain entry) (ts_domain exit)"
  obtain cc where c: "compare_for clocks r (ts_domain entry) (ts_domain exit) = Some cc"
    and i: "cc_comparable cc \<longleftrightarrow> valid_id (ts_domain entry) \<and> valid_id (ts_domain exit) \<and> (\<exists>oa ob u. ?P oa ob u)"
    and v: "cc_comparable cc \<Longrightarrow> ?P (cc_offset_first_ns cc) (cc_offset_second_ns cc) (cc_uncertainty_ns cc)"
    using compare_total_decides [OF assms(1,2), of "ts_domain entry" "ts_domain exit" "stamp_received_at (rec_stamp r)"
        "rec_generation r" "rec_epoch r" "rec_incarnation r"] False unfolding compare_for_def by blast
  show ?thesis
  proof (cases "cc_comparable cc")
    case nc: False
    then show ?thesis using False c i by (auto simp: span_of_def allowed_dwell_def)
  next
    case True
    note P = v [OF True]
    let ?a = "ts_ns entry - cc_offset_first_ns cc" and ?b = "ts_ns exit - cc_offset_second_ns cc"
    have f: "in_i64 ?a" "in_i64 ?b" "?a \<le> ?b \<Longrightarrow> in_i64 (?b - ?a)" using fit False P by (auto simp: subtractions_fit_def)
    have w: "wrap_i64 ?a = ?a" "wrap_i64 ?b = ?b" using f(1,2) by simp_all
    have "span_of clocks r entry exit = (if ?b < ?a then None else Some (wrap_i64 (?b - ?a), cc_uncertainty_ns cc))"
      using False c True by (simp add: span_of_def Let_def w)
    also have "\<dots> = (if ?b < ?a then None else Some (?b - ?a, cc_uncertainty_ns cc))" using f(3) by simp
    finally have "span_of clocks r entry exit = \<dots>" .
    moreover have "(\<exists>oa ob. ?P oa ob u \<and> d = (ts_ns exit - ob) - (ts_ns entry - oa)) \<longleftrightarrow>
        u = cc_uncertainty_ns cc \<and> d = ?b - ?a"
      using P pair_ok_unique by blast
    ultimately show ?thesis using False i True by (auto simp: allowed_dwell_def)
  qed
qed



definition demo_hop :: hop_observation where
  "demo_hop = \<lparr>ho_index = 0, ho_hop = StrongId 9, ho_link = no_id, ho_queue = no_id, ho_entry_domain = reference_clock_domain,
     ho_exit_domain = derive_from ''d1'', ho_entry = \<lparr>ts_ns = 1700000000000000100, ts_domain = reference_clock_domain\<rparr>,
     ho_exit = \<lparr>ts_ns = 1700000000000000208, ts_domain = derive_from ''d1''\<rparr>, ho_queue_entry = demo_time 0, ho_queue_exit = demo_time 0,
     ho_dwell_ns = None, ho_queue_dwell_ns = None, ho_dwell_uncertainty_ns = None, ho_queue_dwell_uncertainty_ns = None,
     ho_evidence = default_evidence\<rparr>"

definition plain_record :: measurement_record where
  "plain_record = (demo_record 2 7)\<lparr>rec_generation := no_id, rec_epoch := no_id, rec_incarnation := no_id,
     rec_stamp := \<lparr>stamp_observed_at = sample_now, stamp_received_at = sample_now, stamp_received_mono = \<lparr>mono_ns = 0\<rparr>\<rparr>\<rparr>"


end
