(* ===== verification/Stats_Summary.thy ===== *)
theory Stats_Summary
  imports Ingest_Dwell
begin

text \<open>
  \<^verbatim>\<open>stats/summary.hpp\<close> and \<^verbatim>\<open>stats/summary.cpp\<close>: the classification of stored records against a
  path, generation, source and half open time window, and their aggregation into a path summary.
  A vector of record pointers is a list of options: None is a null pointer, which the source skips.
\<close>

section \<open>Vocabulary\<close>

datatype aggregation_mode = CurrentMode | HistoricalMode

fun mode_to_string :: "aggregation_mode \<Rightarrow> string" where
  "mode_to_string CurrentMode = ''current''"
| "mode_to_string HistoricalMode = ''historical''"

record time_window =
  tw_from :: timestamp
  tw_to :: timestamp

definition make_window :: "timestamp \<Rightarrow> timestamp \<Rightarrow> time_window result" where
  "make_window from to =
     (if \<not> ts_valid from \<or> \<not> ts_valid to
      then fail InvalidArgument ''time window bounds must carry a clock domain'' []
      else if ts_domain from \<noteq> ts_domain to
      then fail InvalidArgument ''time window bounds must be expressed in the same clock domain'' []
      else if ts_ns from \<ge> ts_ns to
      then fail InvalidArgument ''time window must be a non-empty half open interval'' []
      else Inr \<lparr>tw_from = from, tw_to = to\<rparr>)"

definition window_contains :: "time_window \<Rightarrow> timestamp \<Rightarrow> bool" where
  "window_contains w t \<longleftrightarrow>
     ts_domain t = ts_domain (tw_from w) \<and> ts_ns t \<ge> ts_ns (tw_from w) \<and> ts_ns t < ts_ns (tw_to w)"

definition window_valid :: "time_window \<Rightarrow> bool" where
  "window_valid w \<longleftrightarrow> ts_valid (tw_from w) \<and> ts_valid (tw_to w) \<and>
     ts_domain (tw_from w) = ts_domain (tw_to w) \<and> ts_ns (tw_from w) < ts_ns (tw_to w)"

datatype record_class =
    Included | OtherPath | OtherGeneration | OtherSource | ClockDomainMismatch | OutOfWindow
  | StaleRecord | ConflictingRecord | UnsupportedRecord

fun class_to_string :: "record_class \<Rightarrow> string" where
  "class_to_string Included = ''included''"
| "class_to_string OtherPath = ''other_path''"
| "class_to_string OtherGeneration = ''other_generation''"
| "class_to_string OtherSource = ''other_source''"
| "class_to_string ClockDomainMismatch = ''clock_domain_mismatch''"
| "class_to_string OutOfWindow = ''out_of_window''"
| "class_to_string StaleRecord = ''stale''"
| "class_to_string ConflictingRecord = ''conflicting''"
| "class_to_string UnsupportedRecord = ''unsupported''"

definition classify_record ::
  "measurement_record \<Rightarrow> path_id \<Rightarrow> generation_id \<Rightarrow> aggregation_mode \<Rightarrow> time_window \<Rightarrow> source_id \<Rightarrow> record_class" where
  "classify_record r path generation mode window restrict_to =
     (let received = stamp_received_at (rec_stamp r); state = ev_state (rec_evidence r)
      in if rec_path r \<noteq> path then OtherPath
         else if rec_generation r \<noteq> generation then OtherGeneration
         else if valid_id restrict_to \<and> rec_source r \<noteq> restrict_to then OtherSource
         else if ts_domain received \<noteq> ts_domain (tw_from window) then ClockDomainMismatch
         else if \<not> window_contains window received then OutOfWindow
         else if state = Conflicting then ConflictingRecord
         else if state = UnsupportedState \<or> state = RefusedState \<or> state = UnknownState \<or> state = Missing
         then UnsupportedRecord
         else if mode = CurrentMode \<and> \<not> usable (rec_evidence r) then StaleRecord
         else Included)"

record hop_summary =
  hs_index :: hop_index
  hs_hop :: hop_id
  hs_exchanges_included :: u64
  hs_dwells_observed :: u64
  hs_dwells_missing :: u64
  hs_dwells_unsupported :: u64
  hs_queue_dwells_observed :: u64
  hs_queue_dwells_unsupported :: u64
  hs_coverage_ppm :: u64
  hs_dwell :: distribution
  hs_queue_dwell :: distribution
  hs_evidence :: evidence

record path_summary =
  ps_path :: path_id
  ps_generation :: generation_id
  ps_domain :: clock_domain_id
  ps_mode :: aggregation_mode
  ps_window :: time_window
  ps_as_of :: timestamp
  ps_exchanges_considered :: u64
  ps_exchanges_included :: u64
  ps_excluded_other_path :: u64
  ps_excluded_other_generation :: u64
  ps_excluded_out_of_window :: u64
  ps_excluded_stale :: u64
  ps_excluded_conflicting :: u64
  ps_excluded_unsupported :: u64
  ps_excluded_clock_domain :: u64
  ps_end_to_end :: distribution
  ps_hops :: "hop_summary list"
  ps_contributing_sources :: "source_id list"
  ps_evidence :: evidence
  ps_policy_digest :: string

definition summary_empty :: "path_summary \<Rightarrow> bool" where
  "summary_empty s \<longleftrightarrow> ps_exchanges_included s = 0"

record summary_request =
  sq_path :: path_id
  sq_generation :: generation_id
  sq_mode :: aggregation_mode
  sq_window :: time_window
  sq_histogram :: histogram_spec
  sq_probes :: "quantile_probe list"
  sq_restrict_to_source :: source_id

section \<open>Aggregation\<close>

definition kPpmScale :: u64 where "kPpmScale = 1000000"

definition ratio_ppm :: "u64 \<Rightarrow> u64 \<Rightarrow> u64" where
  "ratio_ppm numerator denominator =
     (if denominator = 0 then 0
      else let product = mul_u64_to_u128 numerator kPpmScale;
               quotient = fst (divmod_u128_u64 product denominator)
           in if \<not> fits_u64 quotient then kPpmScale
              else if lo quotient > kPpmScale then kPpmScale else lo quotient)"

text \<open>A value of \<^verbatim>\<open>Distribution\<close> before aggregation: only its histogram is set.\<close>

definition unset_distribution :: "histogram_spec \<Rightarrow> distribution" where
  "unset_distribution spec =
     \<lparr>d_count = 0, d_min_ns = None, d_max_ns = None, d_sum_ns = None, d_mean_ns = None,
      d_mean_remainder_ns = 0, d_sum_overflowed = False, d_histogram = empty_histogram spec,
      d_probes = [], d_quantiles = []\<rparr>"

definition new_hop_summary :: "histogram_spec \<Rightarrow> hop_index \<Rightarrow> hop_id \<Rightarrow> hop_summary" where
  "new_hop_summary spec i h = \<lparr>hs_index = i, hs_hop = h, hs_exchanges_included = 0, hs_dwells_observed = 0,
     hs_dwells_missing = 0, hs_dwells_unsupported = 0, hs_queue_dwells_observed = 0,
     hs_queue_dwells_unsupported = 0, hs_coverage_ppm = 0, hs_dwell = unset_distribution spec,
     hs_queue_dwell = unset_distribution spec, hs_evidence = observed Fresh High\<rparr>"

fun new_hop_summaries :: "histogram_spec \<Rightarrow> nat \<Rightarrow> hop_id list \<Rightarrow> hop_summary list result" where
  "new_hop_summaries spec n [] = Inr []"
| "new_hop_summaries spec n (h # hs) =
     (case hop_index_from_value (word_of_nat n) of
        Inl _ \<Rightarrow> fail OutOfRange ''path hop index exceeds the supported range'' []
      | Inr i \<Rightarrow>
          (case new_hop_summaries spec (Suc n) hs of
             Inl e \<Rightarrow> Inl e
           | Inr rest \<Rightarrow> Inr (new_hop_summary spec i h # rest)))"

definition new_path_summary :: "summary_request \<Rightarrow> runtime_policy \<Rightarrow> hop_summary list \<Rightarrow> path_summary" where
  "new_path_summary req pol hops = \<lparr>ps_path = sq_path req, ps_generation = sq_generation req,
     ps_domain = ts_domain (tw_from (sq_window req)), ps_mode = sq_mode req, ps_window = sq_window req,
     ps_as_of = tw_to (sq_window req), ps_exchanges_considered = 0, ps_exchanges_included = 0,
     ps_excluded_other_path = 0, ps_excluded_other_generation = 0, ps_excluded_out_of_window = 0,
     ps_excluded_stale = 0, ps_excluded_conflicting = 0, ps_excluded_unsupported = 0,
     ps_excluded_clock_domain = 0, ps_end_to_end = unset_distribution (sq_histogram req), ps_hops = hops,
     ps_contributing_sources = [], ps_evidence = default_evidence, ps_policy_digest = policy_digest pol\<rparr>"

text \<open>The loop's locals; \<open>sa_hop_values\<close> and \<open>sa_queue_values\<close> run parallel to the hops.\<close>

record summary_acc =
  sa_summary :: path_summary
  sa_values :: "nanos list"
  sa_hop_values :: "nanos list list"
  sa_queue_values :: "nanos list list"
  sa_evidence :: evidence
  sa_saw_any :: bool

definition hop_step ::
  "measurement_record \<Rightarrow> hop_summary \<times> nanos list \<times> nanos list \<Rightarrow> hop_summary \<times> nanos list \<times> nanos list" where
  "hop_step r entry =
     (let (hop, dwells, queue_dwells) = entry;
          hop = hop\<lparr>hs_exchanges_included := hs_exchanges_included hop + 1\<rparr>
      in case hop_at r (hs_index hop) of
           None \<Rightarrow> (hop\<lparr>hs_dwells_missing := hs_dwells_missing hop + 1,
                         hs_evidence := merge (hs_evidence hop) (missing HopMissing (id_to_hex (hs_hop hop)))\<rparr>,
                    dwells, queue_dwells)
         | Some ob \<Rightarrow>
             let (hop, dwells) =
                   (case ho_dwell_ns ob of
                      Some d \<Rightarrow> (hop\<lparr>hs_dwells_observed := hs_dwells_observed hop + 1\<rparr>, dwells @ [d])
                    | None \<Rightarrow> (hop\<lparr>hs_dwells_unsupported := hs_dwells_unsupported hop + 1,
                                   hs_evidence := merge (hs_evidence hop) (ho_evidence ob)\<rparr>, dwells));
                 (hop, queue_dwells) =
                   (case ho_queue_dwell_ns ob of
                      Some d \<Rightarrow> (hop\<lparr>hs_queue_dwells_observed := hs_queue_dwells_observed hop + 1\<rparr>, queue_dwells @ [d])
                    | None \<Rightarrow> (if valid_id (ho_queue ob)
                               then hop\<lparr>hs_queue_dwells_unsupported := hs_queue_dwells_unsupported hop + 1\<rparr>
                               else hop, queue_dwells))
             in (hop\<lparr>hs_evidence := merge (hs_evidence hop) (ho_evidence ob)\<rparr>, dwells, queue_dwells))"

definition hop_steps ::
  "measurement_record \<Rightarrow> hop_summary list \<Rightarrow> nanos list list \<Rightarrow> nanos list list
     \<Rightarrow> (hop_summary \<times> nanos list \<times> nanos list) list" where
  "hop_steps r hops dwells queue_dwells = map (hop_step r) (zip hops (zip dwells queue_dwells))"

definition note_undeclared :: "hop_summary list \<Rightarrow> hop_observation list \<Rightarrow> evidence \<Rightarrow> evidence" where
  "note_undeclared hops obs ev =
     foldl (\<lambda>ev ob. if \<exists>hop \<in> set hops. hs_index hop = ho_index ob then ev
                    else add_reason HopConflicting (id_to_hex (ho_hop ob)) ev) ev obs"

definition add_source :: "source_id \<Rightarrow> source_id list \<Rightarrow> source_id list" where
  "add_source s sources = (if s \<in> set sources then sources else sort (sources @ [s]))"

definition include_record :: "measurement_record \<Rightarrow> summary_acc \<Rightarrow> summary_acc" where
  "include_record r acc =
     (let s = sa_summary acc;
          steps = hop_steps r (ps_hops s) (sa_hop_values acc) (sa_queue_values acc);
          ev = merge (sa_evidence acc) (rec_evidence r);
          hops = map fst steps
      in \<lparr>sa_summary = s\<lparr>ps_exchanges_included := ps_exchanges_included s + 1,
                         ps_contributing_sources := add_source (rec_source r) (ps_contributing_sources s),
                         ps_hops := hops\<rparr>,
          sa_values = (if ev_has_value (rec_evidence r) then sa_values acc @ [rec_rtt_ns r] else sa_values acc),
          sa_hop_values = map (fst \<circ> snd) steps, sa_queue_values = map (snd \<circ> snd) steps,
          sa_evidence = note_undeclared hops (rec_hops r) ev, sa_saw_any = True\<rparr>)"

fun count_excluded :: "record_class \<Rightarrow> path_summary \<Rightarrow> path_summary" where
  "count_excluded OtherPath s = s\<lparr>ps_excluded_other_path := ps_excluded_other_path s + 1\<rparr>"
| "count_excluded OtherSource s = s\<lparr>ps_excluded_other_path := ps_excluded_other_path s + 1\<rparr>"
| "count_excluded OtherGeneration s = s\<lparr>ps_excluded_other_generation := ps_excluded_other_generation s + 1\<rparr>"
| "count_excluded ClockDomainMismatch s = s\<lparr>ps_excluded_clock_domain := ps_excluded_clock_domain s + 1\<rparr>"
| "count_excluded OutOfWindow s = s\<lparr>ps_excluded_out_of_window := ps_excluded_out_of_window s + 1\<rparr>"
| "count_excluded ConflictingRecord s = s\<lparr>ps_excluded_conflicting := ps_excluded_conflicting s + 1\<rparr>"
| "count_excluded UnsupportedRecord s = s\<lparr>ps_excluded_unsupported := ps_excluded_unsupported s + 1\<rparr>"
| "count_excluded StaleRecord s = s\<lparr>ps_excluded_stale := ps_excluded_stale s + 1\<rparr>"
| "count_excluded Included s = s"

definition class_for :: "summary_request \<Rightarrow> measurement_record \<Rightarrow> record_class" where
  "class_for req r =
     classify_record r (sq_path req) (sq_generation req) (sq_mode req) (sq_window req) (sq_restrict_to_source req)"

fun consider_record :: "summary_request \<Rightarrow> summary_acc \<Rightarrow> measurement_record option \<Rightarrow> summary_acc" where
  "consider_record req acc None = acc"
| "consider_record req acc (Some r) =
     (let s = sa_summary acc;
          acc = acc\<lparr>sa_summary := s\<lparr>ps_exchanges_considered := ps_exchanges_considered s + 1\<rparr>\<rparr>
      in case class_for req r of
           Included \<Rightarrow> include_record r acc
         | c \<Rightarrow> acc\<lparr>sa_summary := count_excluded c (sa_summary acc)\<rparr>)"

definition conclude_hop ::
  "summary_request \<Rightarrow> limits \<Rightarrow> hop_summary \<Rightarrow> nanos list \<Rightarrow> nanos list \<Rightarrow> hop_summary result" where
  "conclude_hop req l hop dwells queue_dwells =
     (case aggregate dwells (sq_histogram req) (sq_probes req) l of
        Inl e \<Rightarrow> Inl e
      | Inr dwell \<Rightarrow>
          (case aggregate queue_dwells (sq_histogram req) (sq_probes req) l of
             Inl e \<Rightarrow> Inl e
           | Inr queue_dwell \<Rightarrow>
               let hex = id_to_hex (hs_hop hop);
                   hop = hop\<lparr>hs_dwell := dwell, hs_queue_dwell := queue_dwell,
                             hs_coverage_ppm := ratio_ppm (hs_dwells_observed hop) (hs_exchanges_included hop)\<rparr>
               in Inr (if hs_dwells_observed hop = 0
                       then hop\<lparr>hs_evidence := merge (hs_evidence hop)
                              (if hs_exchanges_included hop = 0 then unknown NoSamples hex else incomplete NoSamples hex)\<rparr>
                       else if hs_dwells_missing hop \<noteq> 0 \<or> hs_dwells_unsupported hop \<noteq> 0
                       then hop\<lparr>hs_evidence := add_reason PartialCoverage hex ((hs_evidence hop)\<lparr>ev_state := Incomplete\<rparr>)\<rparr>
                       else hop)))"

fun conclude_hops ::
  "summary_request \<Rightarrow> limits \<Rightarrow> hop_summary list \<Rightarrow> nanos list list \<Rightarrow> nanos list list \<Rightarrow> hop_summary list result" where
  "conclude_hops req l (h # hs) (d # ds) (q # qs) =
     (case conclude_hop req l h d q of
        Inl e \<Rightarrow> Inl e
      | Inr h' \<Rightarrow> (case conclude_hops req l hs ds qs of Inl e \<Rightarrow> Inl e | Inr hs' \<Rightarrow> Inr (h' # hs')))"
| "conclude_hops req l _ _ _ = Inr []"

definition conclude_evidence :: "bool \<Rightarrow> u64 \<Rightarrow> evidence \<Rightarrow> evidence" where
  "conclude_evidence saw_any stale_count ev =
     (let ev = (if \<not> saw_any then merge ev (unknown NoSamples ''no included exchanges'') else ev);
          ev = (if stale_count \<noteq> 0 then add_reason EvidenceStale (show_nat (unat stale_count)) ev else ev)
      in add_reason AggregateDeterministic [] ev)"

definition summarize_path ::
  "measurement_record option list \<Rightarrow> catalog \<Rightarrow> summary_request \<Rightarrow> runtime_policy \<Rightarrow> path_summary result" where
  "summarize_path records cat req pol =
     (if \<not> window_valid (sq_window req)
      then fail InvalidArgument ''summary requires a valid time window'' []
      else case cat_path cat (sq_path req) of
        Inl e \<Rightarrow> Inl e
      | Inr path \<Rightarrow>
          if \<not> valid_id (sq_generation req)
          then fail InvalidArgument ''summary requires an explicit generation'' []
          else case new_hop_summaries (sq_histogram req) 0 (path_hops path) of
            Inl e \<Rightarrow> Inl e
          | Inr hops \<Rightarrow>
              let acc = foldl (consider_record req)
                    \<lparr>sa_summary = new_path_summary req pol hops, sa_values = [],
                     sa_hop_values = replicate (length hops) [], sa_queue_values = replicate (length hops) [],
                     sa_evidence = observed Fresh High, sa_saw_any = False\<rparr> records;
                  s = sa_summary acc
              in case aggregate (sa_values acc) (sq_histogram req) (sq_probes req) (pol_limits pol) of
                   Inl e \<Rightarrow> Inl e
                 | Inr e2e \<Rightarrow>
                     (case conclude_hops req (pol_limits pol) (ps_hops s) (sa_hop_values acc) (sa_queue_values acc) of
                        Inl e \<Rightarrow> Inl e
                      | Inr hops' \<Rightarrow>
                          Inr (s\<lparr>ps_end_to_end := e2e, ps_hops := hops',
                                 ps_evidence := conclude_evidence (sa_saw_any acc) (ps_excluded_stale s) (sa_evidence acc)\<rparr>)))"

section \<open>What the loop accumulates\<close>

definition observations :: "hop_index \<Rightarrow> measurement_record list \<Rightarrow> hop_observation list" where
  "observations i rs = List.map_filter (\<lambda>r. hop_at r i) rs"

definition dwells_at :: "hop_index \<Rightarrow> measurement_record list \<Rightarrow> nanos list" where
  "dwells_at i rs = List.map_filter ho_dwell_ns (observations i rs)"

definition queue_dwells_at :: "hop_index \<Rightarrow> measurement_record list \<Rightarrow> nanos list" where
  "queue_dwells_at i rs = List.map_filter ho_queue_dwell_ns (observations i rs)"

text \<open>The counters of a hop after the included records \<open>rs\<close>, evidence left aside.\<close>

definition tally_hop :: "measurement_record list \<Rightarrow> hop_summary \<Rightarrow> hop_summary" where
  "tally_hop rs h = (let i = hs_index h; obs = observations i rs in
     h\<lparr>hs_exchanges_included := hs_exchanges_included h + word_of_nat (length rs),
       hs_dwells_observed := hs_dwells_observed h + word_of_nat (length (dwells_at i rs)),
       hs_dwells_missing := hs_dwells_missing h + word_of_nat (length (filter (\<lambda>r. hop_at r i = None) rs)),
       hs_dwells_unsupported := hs_dwells_unsupported h + word_of_nat (length (filter (\<lambda>ob. ho_dwell_ns ob = None) obs)),
       hs_queue_dwells_observed := hs_queue_dwells_observed h + word_of_nat (length (queue_dwells_at i rs)),
       hs_queue_dwells_unsupported := hs_queue_dwells_unsupported h +
         word_of_nat (length (filter (\<lambda>ob. ho_queue_dwell_ns ob = None \<and> valid_id (ho_queue ob)) obs)),
       hs_evidence := default_evidence\<rparr>)"

definition strip_hop :: "hop_summary \<Rightarrow> hop_summary" where
  "strip_hop h = h\<lparr>hs_evidence := default_evidence\<rparr>"

lemma map_filter_Cons: "List.map_filter f (x # xs) = (case f x of None \<Rightarrow> [] | Some y \<Rightarrow> [y]) @ List.map_filter f xs"
  by (simp add: List.map_filter_simps split: option.split)

lemma hop_step_index: "hs_index (fst (hop_step r e)) = hs_index (fst e)"
  by (cases e) (auto simp: hop_step_def Let_def split: option.split)

lemma hop_step_strip:
  "hop_step r (h, ds, qs) = (h', ds', qs') \<Longrightarrow>
     strip_hop h' = tally_hop [r] h \<and> ds' = ds @ dwells_at (hs_index h) [r] \<and> qs' = qs @ queue_dwells_at (hs_index h) [r]"
  by (auto simp: hop_step_def tally_hop_def strip_hop_def observations_def dwells_at_def queue_dwells_at_def Let_def
      map_filter_Cons List.map_filter_simps split: option.splits if_splits)

lemma tally_append: "tally_hop (rs @ [r]) h = tally_hop [r] (tally_hop rs h)"
  by (simp add: tally_hop_def Let_def observations_def dwells_at_def queue_dwells_at_def List.map_filter_def)

lemma tally_strip: "tally_hop rs (strip_hop h) = tally_hop rs h"
  by (simp add: tally_hop_def strip_hop_def Let_def)

text \<open>The included records of an input, and how many are of a class.\<close>

definition somes :: "'a option list \<Rightarrow> 'a list" where "somes xs = List.map_filter id xs"

definition included :: "summary_request \<Rightarrow> measurement_record option list \<Rightarrow> measurement_record list" where
  "included req rs = filter (\<lambda>r. class_for req r = Included) (somes rs)"

definition class_count :: "summary_request \<Rightarrow> record_class set \<Rightarrow> measurement_record option list \<Rightarrow> nat" where
  "class_count req cs rs = length (filter (\<lambda>r. class_for req r \<in> cs) (somes rs))"

lemma somes_append [simp]: "somes (xs @ [None]) = somes xs" "somes (xs @ [Some x]) = somes xs @ [x]"
  by (simp_all add: somes_def List.map_filter_def)

definition strip_summary :: "path_summary \<Rightarrow> path_summary" where
  "strip_summary s = s\<lparr>ps_hops := map strip_hop (ps_hops s), ps_evidence := default_evidence\<rparr>"

definition tallied ::
  "summary_request \<Rightarrow> runtime_policy \<Rightarrow> hop_summary list \<Rightarrow> measurement_record option list \<Rightarrow> path_summary \<Rightarrow> bool" where
  "tallied req pol hops rs s \<longleftrightarrow>
     ps_path s = sq_path req \<and> ps_generation s = sq_generation req \<and>
     ps_domain s = ts_domain (tw_from (sq_window req)) \<and> ps_mode s = sq_mode req \<and> ps_window s = sq_window req \<and>
     ps_as_of s = tw_to (sq_window req) \<and> ps_policy_digest s = policy_digest pol \<and>
     ps_exchanges_considered s = word_of_nat (length (somes rs)) \<and>
     ps_exchanges_included s = word_of_nat (length (included req rs)) \<and>
     ps_excluded_other_path s = word_of_nat (class_count req {OtherPath, OtherSource} rs) \<and>
     ps_excluded_other_generation s = word_of_nat (class_count req {OtherGeneration} rs) \<and>
     ps_excluded_out_of_window s = word_of_nat (class_count req {OutOfWindow} rs) \<and>
     ps_excluded_stale s = word_of_nat (class_count req {StaleRecord} rs) \<and>
     ps_excluded_conflicting s = word_of_nat (class_count req {ConflictingRecord} rs) \<and>
     ps_excluded_unsupported s = word_of_nat (class_count req {UnsupportedRecord} rs) \<and>
     ps_excluded_clock_domain s = word_of_nat (class_count req {ClockDomainMismatch} rs) \<and>
     ps_contributing_sources s = sorted_list_of_set (rec_source ` set (included req rs)) \<and>
     map strip_hop (ps_hops s) = map (tally_hop (included req rs)) hops \<and>
     map hs_index (ps_hops s) = map hs_index hops"

definition acc_ok ::
  "summary_request \<Rightarrow> runtime_policy \<Rightarrow> hop_summary list \<Rightarrow> measurement_record option list \<Rightarrow> summary_acc \<Rightarrow> bool" where
  "acc_ok req pol hops rs acc \<longleftrightarrow> (let inc = included req rs in
     tallied req pol hops rs (sa_summary acc) \<and>
     sa_values acc = map rec_rtt_ns (filter (\<lambda>r. ev_has_value (rec_evidence r)) inc) \<and>
     sa_hop_values acc = map (\<lambda>h. dwells_at (hs_index h) inc) hops \<and>
     sa_queue_values acc = map (\<lambda>h. queue_dwells_at (hs_index h) inc) hops \<and>
     sa_saw_any acc = (inc \<noteq> []))"

definition start_acc :: "summary_request \<Rightarrow> runtime_policy \<Rightarrow> hop_summary list \<Rightarrow> summary_acc" where
  "start_acc req pol hops = \<lparr>sa_summary = new_path_summary req pol hops, sa_values = [],
     sa_hop_values = replicate (length hops) [], sa_queue_values = replicate (length hops) [],
     sa_evidence = observed Fresh High, sa_saw_any = False\<rparr>"

definition hop_fresh :: "hop_summary \<Rightarrow> bool" where
  "hop_fresh h \<longleftrightarrow> (\<exists>spec i k. h = new_hop_summary spec i k)"

lemma tally_nil: "hop_fresh h \<Longrightarrow> tally_hop [] h = strip_hop h"
  by (auto simp: tally_hop_def strip_hop_def observations_def dwells_at_def queue_dwells_at_def Let_def
      List.map_filter_simps new_hop_summary_def hop_fresh_def)

lemma start_acc_ok: "list_all hop_fresh hops \<Longrightarrow> acc_ok req pol hops [] (start_acc req pol hops)"
  by (auto simp: acc_ok_def start_acc_def tallied_def included_def somes_def class_count_def
      List.map_filter_simps new_path_summary_def dwells_at_def queue_dwells_at_def observations_def Let_def
      list_all_iff tally_nil map_replicate_const)

lemma add_source_sorted:
  assumes "finite A"
  shows "add_source s (sorted_list_of_set A) = sorted_list_of_set (insert s A)"
proof (cases "s \<in> A")
  case True
  then show ?thesis using assms by (simp add: add_source_def insert_absorb)
next
  case False
  then have "sort (sorted_list_of_set A @ [s]) = sorted_list_of_set (insert s A)"
    using assms by (intro sorted_distinct_set_unique) (auto simp: sorted_insort distinct_insort set_insort_key)
  then show ?thesis using False assms by (simp add: add_source_def)
qed

lemma class_count_append [simp]:
  "class_count req cs (rs @ [None]) = class_count req cs rs"
  "class_count req cs (rs @ [Some r]) = class_count req cs rs + (if class_for req r \<in> cs then 1 else 0)"
  by (simp_all add: class_count_def)

lemma included_append [simp]:
  "included req (rs @ [None]) = included req rs"
  "included req (rs @ [Some r]) = included req rs @ (if class_for req r = Included then [r] else [])"
  by (simp_all add: included_def)

lemma include_hops:
  assumes "map hs_index hs = map hs_index hops" and "map strip_hop hs = map (tally_hop inc) hops"
    and "ds = map (\<lambda>h. dwells_at (hs_index h) inc) hops" and "qs = map (\<lambda>h. queue_dwells_at (hs_index h) inc) hops"
    and "steps = hop_steps r hs ds qs"
  shows "map strip_hop (map fst steps) = map (tally_hop (inc @ [r])) hops"
    and "map hs_index (map fst steps) = map hs_index hops"
    and "map (fst \<circ> snd) steps = map (\<lambda>h. dwells_at (hs_index h) (inc @ [r])) hops"
    and "map (snd \<circ> snd) steps = map (\<lambda>h. queue_dwells_at (hs_index h) (inc @ [r])) hops"
proof -
  have len: "length hs = length hops" using assms(1) by (metis length_map)
  have app: "dwells_at i (inc @ [r]) = dwells_at i inc @ dwells_at i [r]"
    "queue_dwells_at i (inc @ [r]) = queue_dwells_at i inc @ queue_dwells_at i [r]" for i
    by (simp_all add: dwells_at_def queue_dwells_at_def observations_def List.map_filter_def)
  have st: "steps ! k = hop_step r (hs ! k, ds ! k, qs ! k)" "length steps = length hops" if "k < length hops" for k
    using that len assms(3-5) by (auto simp: hop_steps_def)
  have l: "length steps = length hops" using len assms(3-5) by (simp add: hop_steps_def)
  have P: "strip_hop (fst (steps ! k)) = tally_hop (inc @ [r]) (hops ! k) \<and> hs_index (fst (steps ! k)) = hs_index (hops ! k) \<and>
      fst (snd (steps ! k)) = dwells_at (hs_index (hops ! k)) (inc @ [r]) \<and>
      snd (snd (steps ! k)) = queue_dwells_at (hs_index (hops ! k)) (inc @ [r])" if k: "k < length hops" for k
  proof -
    have i: "hs_index (hs ! k) = hs_index (hops ! k)" using assms(1) k len by (metis nth_map)
    have t: "strip_hop (hs ! k) = tally_hop inc (hops ! k)" using assms(2) k len by (metis nth_map)
    obtain h' ds' qs' where e: "hop_step r (hs ! k, ds ! k, qs ! k) = (h', ds', qs')" by (metis prod_cases3)
    have "tally_hop [r] (hs ! k) = tally_hop (inc @ [r]) (hops ! k)"
      using t by (metis tally_append tally_strip)
    then show ?thesis using hop_step_strip [OF e] hop_step_index [of r "(hs ! k, ds ! k, qs ! k)"] st(1) [OF k] e i k assms(3,4)
      by (simp add: app)
  qed
  show "map strip_hop (map fst steps) = map (tally_hop (inc @ [r])) hops"
    "map hs_index (map fst steps) = map hs_index hops"
    "map (fst \<circ> snd) steps = map (\<lambda>h. dwells_at (hs_index h) (inc @ [r])) hops"
    "map (snd \<circ> snd) steps = map (\<lambda>h. queue_dwells_at (hs_index h) (inc @ [r])) hops"
    using P l by (auto intro!: nth_equalityI)
qed

lemma consider_excluded:
  assumes "acc_ok req pol hops rs acc" and "class_for req r \<noteq> Included"
  shows "acc_ok req pol hops (rs @ [Some r]) (consider_record req acc (Some r))"
  using assms by (cases "class_for req r")
    (simp_all add: acc_ok_def Let_def tallied_def)

lemma consider_included:
  assumes "acc_ok req pol hops rs acc" and "class_for req r = Included"
  shows "acc_ok req pol hops (rs @ [Some r]) (consider_record req acc (Some r))"
proof -
  let ?s = "sa_summary acc" and ?inc = "included req rs"
  define steps where "steps = hop_steps r (ps_hops ?s) (sa_hop_values acc) (sa_queue_values acc)"
  have A: "tallied req pol hops rs ?s"
     "sa_values acc = map rec_rtt_ns (filter (\<lambda>r. ev_has_value (rec_evidence r)) ?inc)"
     "sa_hop_values acc = map (\<lambda>h. dwells_at (hs_index h) ?inc) hops"
     "sa_queue_values acc = map (\<lambda>h. queue_dwells_at (hs_index h) ?inc) hops"
    using assms(1) by (simp_all add: acc_ok_def Let_def)
  have H: "map hs_index (ps_hops ?s) = map hs_index hops" "map strip_hop (ps_hops ?s) = map (tally_hop ?inc) hops"
    using A(1) by (simp_all add: tallied_def)
  note I = include_hops [OF H A(3,4) steps_def]
  have src: "add_source (rec_source r) (sorted_list_of_set (rec_source ` set ?inc)) =
      sorted_list_of_set (rec_source ` set (?inc @ [r]))"
    by (simp add: add_source_sorted)
  have e: "consider_record req acc (Some r) = include_record r
      (acc\<lparr>sa_summary := ?s\<lparr>ps_exchanges_considered := ps_exchanges_considered ?s + 1\<rparr>\<rparr>)"
    using assms(2) by (simp add: Let_def)
  have sd: "hop_steps r (ps_hops ?s) (map (\<lambda>h. dwells_at (hs_index h) ?inc) hops)
      (map (\<lambda>h. queue_dwells_at (hs_index h) ?inc) hops) = steps"
    using A(3,4) by (simp add: steps_def)
  show ?thesis
    unfolding e using A I assms(2) src
    by (simp add: acc_ok_def tallied_def include_record_def Let_def sd)
qed

lemma consider_acc: "acc_ok req pol hops rs acc \<Longrightarrow> acc_ok req pol hops (rs @ [x]) (consider_record req acc x)"
proof (cases x)
  case None
  then show "acc_ok req pol hops rs acc \<Longrightarrow> ?thesis" by (simp add: acc_ok_def tallied_def)
next
  case (Some r)
  then show "acc_ok req pol hops rs acc \<Longrightarrow> ?thesis"
    using consider_included consider_excluded by (cases "class_for req r = Included") auto
qed

lemma summary_acc_ok:
  assumes "list_all hop_fresh hops"
  shows "acc_ok req pol hops rs (foldl (consider_record req) (start_acc req pol hops) rs)"
  by (induction rs rule: rev_induct) (simp_all add: start_acc_ok [OF assms] consider_acc)

section \<open>Summaries\<close>

lemma new_hop_summaries_spec:
  "new_hop_summaries spec n hs = Inr hops \<Longrightarrow>
     length hops = length hs \<and> (\<forall>k < length hs. hops ! k = new_hop_summary spec (word_of_nat (n + k)) (hs ! k))"
proof (induction spec n hs arbitrary: hops rule: new_hop_summaries.induct)
  case (2 spec n h hs)
  then obtain i rest where i: "hop_index_from_value (word_of_nat n) = Inr i"
    and r: "new_hop_summaries spec (Suc n) hs = Inr rest" and e: "hops = new_hop_summary spec i h # rest"
    by (auto simp: fail_def split: sum.splits)
  have iw: "i = word_of_nat n" using i by (auto simp: hop_index_from_value_def fail_def split: if_splits)
  show ?case using 2(1) [OF i r] e iw by (auto simp: nth_Cons add_ac split: nat.split)
qed simp

lemma new_hop_summaries_fresh: "new_hop_summaries spec n hs = Inr hops \<Longrightarrow> list_all hop_fresh hops"
  using new_hop_summaries_spec [of spec n hs hops] by (auto simp: list_all_length hop_fresh_def)

lemma conclude_hop_spec:
  assumes "conclude_hop req l hop ds qs = Inr h"
  shows "aggregate ds (sq_histogram req) (sq_probes req) l = Inr (hs_dwell h)"
    and "aggregate qs (sq_histogram req) (sq_probes req) l = Inr (hs_queue_dwell h)"
    and "strip_hop h = (strip_hop hop)\<lparr>hs_dwell := hs_dwell h, hs_queue_dwell := hs_queue_dwell h,
       hs_coverage_ppm := ratio_ppm (hs_dwells_observed hop) (hs_exchanges_included hop)\<rparr>"
  using assms by (auto simp: conclude_hop_def strip_hop_def Let_def split: sum.splits if_splits)

lemma conclude_hops_spec:
  "conclude_hops req l hs ds qs = Inr hs' \<Longrightarrow> length ds = length hs \<Longrightarrow> length qs = length hs \<Longrightarrow>
     length hs' = length hs \<and> (\<forall>k < length hs. conclude_hop req l (hs ! k) (ds ! k) (qs ! k) = Inr (hs' ! k))"
proof (induction req l hs ds qs arbitrary: hs' rule: conclude_hops.induct)
  case (1 req l h hs d ds q qs)
  then obtain h1 hs1 where "conclude_hop req l h d q = Inr h1" "conclude_hops req l hs ds qs = Inr hs1" "hs' = h1 # hs1"
    by (auto split: sum.splits)
  with 1 show ?case by (auto simp: nth_Cons split: nat.split)
qed auto

lemma ratio_ppm_floor:
  assumes "unat n \<le> unat d" and "0 < unat d"
  shows "unat (ratio_ppm n d) = unat n * 1000000 div unat d"
proof -
  obtain q r where qr: "divmod_u128_u64 (mul_u64_to_u128 n kPpmScale) d = (q, r)" by force
  have dz: "d \<noteq> 0" using assms(2) by auto
  have q: "u128_val q = unat n * 1000000 div unat d"
    using divmod_u128_u64_val(1) [OF dz qr] by (simp add: mul_u64_to_u128_val kPpmScale_def)
  have "unat n * 1000000 div unat d \<le> unat d * 1000000 div unat d" using assms(1) by (intro div_le_mono) simp
  then have le: "u128_val q \<le> 1000000" using q assms(2) by simp
  then have f: "fits_u64 q" by (simp add: fits_u64_iff)
  then have l: "unat (lo q) = u128_val q" by (simp add: fits_u64_def u128_val_def)
  then have "\<not> lo q > kPpmScale" using le by (simp add: word_less_nat_alt kPpmScale_def)
  then show ?thesis using dz qr f l q by (simp add: ratio_ppm_def)
qed

text \<open>The successful case, taken apart.\<close>

lemma summarize_cases:
  assumes "summarize_path rs cat req pol = Inr s"
  obtains path hops acc where "cat_path cat (sq_path req) = Inr path" "window_valid (sq_window req)" "valid_id (sq_generation req)"
    "new_hop_summaries (sq_histogram req) 0 (path_hops path) = Inr hops"
    "acc_ok req pol hops rs acc"
    "aggregate (sa_values acc) (sq_histogram req) (sq_probes req) (pol_limits pol) = Inr (ps_end_to_end s)"
    "conclude_hops req (pol_limits pol) (ps_hops (sa_summary acc)) (sa_hop_values acc) (sa_queue_values acc) = Inr (ps_hops s)"
    "s = (sa_summary acc)\<lparr>ps_end_to_end := ps_end_to_end s, ps_hops := ps_hops s, ps_evidence := ps_evidence s\<rparr>"
proof -
  obtain path hops where p: "cat_path cat (sq_path req) = Inr path" "window_valid (sq_window req)" "valid_id (sq_generation req)"
    "new_hop_summaries (sq_histogram req) 0 (path_hops path) = Inr hops"
    using assms by (auto simp: summarize_path_def fail_def split: sum.splits if_splits)
  define acc where "acc = foldl (consider_record req) (start_acc req pol hops) rs"
  have ok: "acc_ok req pol hops rs acc" unfolding acc_def by (rule summary_acc_ok [OF new_hop_summaries_fresh [OF p(4)]])
  obtain e2e hs' where a: "aggregate (sa_values acc) (sq_histogram req) (sq_probes req) (pol_limits pol) = Inr e2e"
    "conclude_hops req (pol_limits pol) (ps_hops (sa_summary acc)) (sa_hop_values acc) (sa_queue_values acc) = Inr hs'"
    "s = (sa_summary acc)\<lparr>ps_end_to_end := e2e, ps_hops := hs',
       ps_evidence := conclude_evidence (sa_saw_any acc) (ps_excluded_stale (sa_summary acc)) (sa_evidence acc)\<rparr>"
    using assms p unfolding summarize_path_def acc_def start_acc_def
    by (auto simp: Let_def split: sum.splits)
  show thesis by (rule that [OF p ok]) (simp_all add: a)
qed

lemma map_filter_len: "length (List.map_filter f xs) + length (filter (\<lambda>x. f x = None) xs) = length xs"
  by (induction xs) (auto simp: map_filter_Cons List.map_filter_simps split: option.splits)

definition hop_exact :: "summary_request \<Rightarrow> limits \<Rightarrow> measurement_record list \<Rightarrow> nat \<Rightarrow> hop_id \<Rightarrow> hop_summary \<Rightarrow> bool" where
  "hop_exact req l inc k hop h \<longleftrightarrow> (let i = word_of_nat k in
     hs_index h = i \<and> hs_hop h = hop \<and> unat (hs_exchanges_included h) = length inc \<and>
     unat (hs_dwells_observed h) = length (dwells_at i inc) \<and>
     unat (hs_dwells_observed h) + unat (hs_dwells_missing h) + unat (hs_dwells_unsupported h) = length inc \<and>
     unat (hs_queue_dwells_observed h) = length (queue_dwells_at i inc) \<and>
     (inc \<noteq> [] \<longrightarrow> unat (hs_coverage_ppm h) = length (dwells_at i inc) * 1000000 div length inc) \<and>
     aggregate (dwells_at i inc) (sq_histogram req) (sq_probes req) l = Inr (hs_dwell h) \<and>
     aggregate (queue_dwells_at i inc) (sq_histogram req) (sq_probes req) l = Inr (hs_queue_dwell h))"

lemma somes_len: "length (somes rs) \<le> length rs"
  using map_filter_len [of id rs] by (simp add: somes_def)

lemma strip_hop_fields:
  "hs_index (strip_hop h) = hs_index h" "hs_hop (strip_hop h) = hs_hop h"
  "hs_exchanges_included (strip_hop h) = hs_exchanges_included h" "hs_dwells_observed (strip_hop h) = hs_dwells_observed h"
  "hs_dwells_missing (strip_hop h) = hs_dwells_missing h" "hs_dwells_unsupported (strip_hop h) = hs_dwells_unsupported h"
  "hs_queue_dwells_observed (strip_hop h) = hs_queue_dwells_observed h" "hs_coverage_ppm (strip_hop h) = hs_coverage_ppm h"
  by (simp_all add: strip_hop_def)

lemma conclude_hop_exact:
  assumes c: "conclude_hop req l hop (dwells_at (hs_index h0) inc) (queue_dwells_at (hs_index h0) inc) = Inr h"
    and t: "strip_hop hop = tally_hop inc h0" and h0: "h0 = new_hop_summary spec (word_of_nat k) x" and n: "length inc < 2 ^ 60"
  shows "hop_exact req l inc k x h"
proof -
  let ?i = "word_of_nat k :: hop_index"
  note C = conclude_hop_spec [OF c]
  have lens: "length (observations ?i inc) + length (filter (\<lambda>r. hop_at r ?i = None) inc) = length inc"
    "length (dwells_at ?i inc) + length (filter (\<lambda>ob. ho_dwell_ns ob = None) (observations ?i inc)) = length (observations ?i inc)"
    "length (queue_dwells_at ?i inc) \<le> length (observations ?i inc)"
    using map_filter_len [of "\<lambda>r. hop_at r ?i" inc] map_filter_len [of ho_dwell_ns "observations ?i inc"]
      map_filter_len [of ho_queue_dwell_ns "observations ?i inc"]
    by (simp_all add: observations_def dwells_at_def queue_dwells_at_def)
  have T: "hs_index hop = ?i" "hs_hop hop = x" "hs_exchanges_included hop = word_of_nat (length inc)"
    "hs_dwells_observed hop = word_of_nat (length (dwells_at ?i inc))"
    "hs_dwells_missing hop = word_of_nat (length (filter (\<lambda>r. hop_at r ?i = None) inc))"
    "hs_dwells_unsupported hop = word_of_nat (length (filter (\<lambda>ob. ho_dwell_ns ob = None) (observations ?i inc)))"
    "hs_queue_dwells_observed hop = word_of_nat (length (queue_dwells_at ?i inc))"
    using t strip_hop_fields [of hop] by (simp_all add: tally_hop_def h0 new_hop_summary_def Let_def)
  have U: "unat (word_of_nat m :: u64) = m" if "m \<le> length inc" for m
    using that n by (intro unat_count) simp
  have S: "hs_index h = ?i" "hs_hop h = x" "hs_exchanges_included h = hs_exchanges_included hop"
    "hs_dwells_observed h = hs_dwells_observed hop" "hs_dwells_missing h = hs_dwells_missing hop"
    "hs_dwells_unsupported h = hs_dwells_unsupported hop" "hs_queue_dwells_observed h = hs_queue_dwells_observed hop"
    "hs_coverage_ppm h = ratio_ppm (hs_dwells_observed hop) (hs_exchanges_included hop)"
    using C(3) strip_hop_fields [of h] strip_hop_fields [of hop] T(1,2) by simp_all
  have cov: "inc \<noteq> [] \<Longrightarrow> unat (hs_coverage_ppm h) = length (dwells_at ?i inc) * 1000000 div length inc"
    using ratio_ppm_floor [of "hs_dwells_observed hop" "hs_exchanges_included hop"] lens by (simp add: S T U)
  show ?thesis using C(1,2) S T U lens cov h0 by (simp add: hop_exact_def new_hop_summary_def Let_def)
qed

lemma class_partition:
  "length (included req rs) + class_count req {OtherPath, OtherSource} rs + class_count req {OtherGeneration} rs +
     class_count req {OutOfWindow} rs + class_count req {StaleRecord} rs + class_count req {ConflictingRecord} rs +
     class_count req {UnsupportedRecord} rs + class_count req {ClockDomainMismatch} rs = length (somes rs)"
proof -
  have "length (filter (\<lambda>r. class_for req r = Included) xs) + length (filter (\<lambda>r. class_for req r \<in> {OtherPath, OtherSource}) xs) +
     length (filter (\<lambda>r. class_for req r \<in> {OtherGeneration}) xs) + length (filter (\<lambda>r. class_for req r \<in> {OutOfWindow}) xs) +
     length (filter (\<lambda>r. class_for req r \<in> {StaleRecord}) xs) + length (filter (\<lambda>r. class_for req r \<in> {ConflictingRecord}) xs) +
     length (filter (\<lambda>r. class_for req r \<in> {UnsupportedRecord}) xs) + length (filter (\<lambda>r. class_for req r \<in> {ClockDomainMismatch}) xs)
     = length xs" for xs
  proof (induction xs)
    case (Cons r xs)
    then show ?case by (cases "class_for req r") simp_all
  qed simp
  then show ?thesis by (simp add: class_count_def included_def)
qed

definition counts_exact :: "summary_request \<Rightarrow> measurement_record option list \<Rightarrow> path_summary \<Rightarrow> bool" where
  "counts_exact req rs s \<longleftrightarrow>
     unat (ps_exchanges_considered s) = length (somes rs) \<and> unat (ps_exchanges_included s) = length (included req rs) \<and>
     unat (ps_excluded_other_path s) = class_count req {OtherPath, OtherSource} rs \<and>
     unat (ps_excluded_other_generation s) = class_count req {OtherGeneration} rs \<and>
     unat (ps_excluded_out_of_window s) = class_count req {OutOfWindow} rs \<and>
     unat (ps_excluded_stale s) = class_count req {StaleRecord} rs \<and>
     unat (ps_excluded_conflicting s) = class_count req {ConflictingRecord} rs \<and>
     unat (ps_excluded_unsupported s) = class_count req {UnsupportedRecord} rs \<and>
     unat (ps_excluded_clock_domain s) = class_count req {ClockDomainMismatch} rs \<and>
     unat (ps_exchanges_included s) + unat (ps_excluded_other_path s) + unat (ps_excluded_other_generation s) +
       unat (ps_excluded_out_of_window s) + unat (ps_excluded_stale s) + unat (ps_excluded_conflicting s) +
       unat (ps_excluded_unsupported s) + unat (ps_excluded_clock_domain s) = unat (ps_exchanges_considered s)"

lemma tallied_counts:
  assumes "tallied req pol hops rs s" and "length rs < 2 ^ 60"
  shows "counts_exact req rs s"
proof -
  have l: "length (somes rs) < 2 ^ 60" using somes_len [of rs] assms(2) by simp
  have p: "class_count req cs rs \<le> length (somes rs)" "length (included req rs) \<le> length (somes rs)" for cs
    by (simp_all add: class_count_def included_def)
  have U: "unat (word_of_nat (class_count req cs rs) :: u64) = class_count req cs rs" for cs
    by (rule unat_count) (use p(1) [of cs] l in linarith)
  have I: "unat (word_of_nat (length (included req rs)) :: u64) = length (included req rs)"
    by (rule unat_count) (use p(2) l in linarith)
  show ?thesis using assms(1) class_partition [of req rs] by (simp add: counts_exact_def tallied_def U I unat_count [OF l])
qed

text \<open>C8: A path summary counts every record once: the records considered are the non-null ones, each is
  included or excluded for exactly one reason, the end to end distribution is the exact aggregate of
  the included latencies with a value, the contributing sources are the distinct ones in order, and
  there is one hop summary per declared hop, in path order, whose observed, missing and unsupported dwells
  add up to the included records, with the exact aggregates and the floored coverage in parts per million.\<close>

theorem summary_exact:
  assumes "summarize_path rs cat req pol = Inr s" and "length rs < 2 ^ 60" and "cat_path cat (sq_path req) = Inr path"
  shows "counts_exact req rs s
    \<and> aggregate (map rec_rtt_ns (filter (\<lambda>r. ev_has_value (rec_evidence r)) (included req rs)))
        (sq_histogram req) (sq_probes req) (pol_limits pol) = Inr (ps_end_to_end s)
    \<and> ps_contributing_sources s = sorted_list_of_set (rec_source ` set (included req rs))
    \<and> length (ps_hops s) = length (path_hops path)
    \<and> (\<forall>k < length (path_hops path). hop_exact req (pol_limits pol) (included req rs) k (path_hops path ! k) (ps_hops s ! k))"
  using assms(1)
proof (cases rule: summarize_cases)
  case (1 path' hops acc)
  let ?inc = "included req rs"
  have pa: "path' = path" using 1(1) assms(3) by simp
  have T: "tallied req pol hops rs (sa_summary acc)" and V: "sa_values acc = map rec_rtt_ns (filter (\<lambda>r. ev_has_value (rec_evidence r)) ?inc)"
    "sa_hop_values acc = map (\<lambda>h. dwells_at (hs_index h) ?inc) hops" "sa_queue_values acc = map (\<lambda>h. queue_dwells_at (hs_index h) ?inc) hops"
    using 1(5) by (simp_all add: acc_ok_def Let_def)
  have H: "map strip_hop (ps_hops (sa_summary acc)) = map (tally_hop ?inc) hops" using T by (simp add: tallied_def)
  then have lh: "length (ps_hops (sa_summary acc)) = length hops" by (metis length_map)
  note N = new_hop_summaries_spec [OF 1(4)]
  note C = conclude_hops_spec [OF 1(7)]
  have li: "length ?inc < 2 ^ 60" using somes_len [of rs] assms(2)
    by (metis (no_types, lifting) included_def le_less_trans length_filter_le)
  have hx: "hop_exact req (pol_limits pol) ?inc k (path_hops path ! k) (ps_hops s ! k)" if k: "k < length (path_hops path)" for k
  proof -
    have kh: "k < length hops" using N k pa by simp
    have h0: "hops ! k = new_hop_summary (sq_histogram req) (word_of_nat k) (path_hops path ! k)" using N k pa by simp
    have "strip_hop (ps_hops (sa_summary acc) ! k) = tally_hop ?inc (hops ! k)" using H kh lh by (metis nth_map)
    moreover have "conclude_hop req (pol_limits pol) (ps_hops (sa_summary acc) ! k) (dwells_at (hs_index (hops ! k)) ?inc)
        (queue_dwells_at (hs_index (hops ! k)) ?inc) = Inr (ps_hops s ! k)"
      using C kh lh V by simp
    ultimately show ?thesis using conclude_hop_exact h0 li by blast
  qed
  have "counts_exact req rs (sa_summary acc)" by (rule tallied_counts [OF T assms(2)])
  then have "counts_exact req rs s" by (subst 1(8)) (simp add: counts_exact_def)
  moreover have "ps_contributing_sources s = sorted_list_of_set (rec_source ` set ?inc)"
    using T by (subst 1(8)) (simp add: tallied_def)
  moreover have "length (ps_hops s) = length (path_hops path)" using C lh V N pa by simp
  ultimately show ?thesis using 1(6) V(1) hx by simp
qed

section \<open>Order independence\<close>

lemma mset_map_filter: "mset xs = mset ys \<Longrightarrow> mset (List.map_filter f xs) = mset (List.map_filter f ys)"
  by (simp add: List.map_filter_def)

lemma mset_filter_length: "mset xs = mset ys \<Longrightarrow> length (filter P xs) = length (filter P ys)"
  by (metis mset_filter size_mset)

lemma mset_observations: "mset a = mset b \<Longrightarrow> mset (observations i a) = mset (observations i b)"
  unfolding observations_def by (rule mset_map_filter)

lemma mset_dwells: "mset a = mset b \<Longrightarrow> mset (dwells_at i a) = mset (dwells_at i b)"
  unfolding dwells_at_def by (intro mset_map_filter mset_observations)

lemma mset_queue_dwells: "mset a = mset b \<Longrightarrow> mset (queue_dwells_at i a) = mset (queue_dwells_at i b)"
  unfolding queue_dwells_at_def by (intro mset_map_filter mset_observations)

lemma tally_hop_mset:
  assumes "mset a = mset b"
  shows "tally_hop a h = tally_hop b h"
proof -
  have "length a = length b" using assms by (rule mset_eq_length)
  moreover have "length (dwells_at i a) = length (dwells_at i b)" "length (queue_dwells_at i a) = length (queue_dwells_at i b)" for i
    using assms by (auto intro!: mset_eq_length mset_dwells mset_queue_dwells)
  moreover have "length (filter P a) = length (filter P b)" for P using assms by (rule mset_filter_length)
  moreover have "length (filter P (observations i a)) = length (filter P (observations i b))" for P i
    by (rule mset_filter_length [OF mset_observations [OF assms]])
  ultimately show ?thesis by (simp only: tally_hop_def Let_def)
qed

definition same_result :: "('a \<Rightarrow> 'b) \<Rightarrow> error + 'a \<Rightarrow> error + 'a \<Rightarrow> bool" where
  "same_result f x y \<longleftrightarrow> map_sum id f x = map_sum id f y"

lemma conclude_hop_same:
  assumes "strip_hop h = strip_hop h'" and "mset ds = mset ds'" and "mset qs = mset qs'"
  shows "same_result strip_hop (conclude_hop req l h ds qs) (conclude_hop req l h' ds' qs')"
proof -
  have a: "aggregate ds (sq_histogram req) (sq_probes req) l = aggregate ds' (sq_histogram req) (sq_probes req) l"
    "aggregate qs (sq_histogram req) (sq_probes req) l = aggregate qs' (sq_histogram req) (sq_probes req) l"
    using assms(2,3) by (auto intro: aggregate_mset)
  have S: "strip_hop x = (strip_hop hop)\<lparr>hs_dwell := hs_dwell x, hs_queue_dwell := hs_queue_dwell x,
       hs_coverage_ppm := ratio_ppm (hs_dwells_observed hop) (hs_exchanges_included hop)\<rparr>"
    if "conclude_hop req l hop ds0 qs0 = Inr x" for hop ds0 qs0 x by (rule conclude_hop_spec(3) [OF that])
  have F: "hs_dwells_observed h = hs_dwells_observed h'" "hs_exchanges_included h = hs_exchanges_included h'"
    using assms(1) strip_hop_fields by metis+
  show ?thesis
  proof (cases "aggregate ds' (sq_histogram req) (sq_probes req) l")
    case (Inl e)
    then show ?thesis using a by (simp add: same_result_def conclude_hop_def)
  next
    case d: (Inr x)
    show ?thesis
    proof (cases "aggregate qs' (sq_histogram req) (sq_probes req) l")
      case (Inl e)
      then show ?thesis using a d by (simp add: same_result_def conclude_hop_def)
    next
      case (Inr y)
      then obtain k k' where k: "conclude_hop req l h ds qs = Inr k" "conclude_hop req l h' ds' qs' = Inr k'"
        using a d by (simp add: conclude_hop_def Let_def)
      then show ?thesis
        using S [OF k(1)] S [OF k(2)] conclude_hop_spec(1,2) [OF k(1)] conclude_hop_spec(1,2) [OF k(2)] a assms(1) F
        by (simp add: same_result_def)
    qed
  qed
qed

lemma conclude_hops_same:
  assumes "map strip_hop hs = map strip_hop hs'" and "map mset ds = map mset ds'" and "map mset qs = map mset qs'"
    and "length ds = length hs" and "length qs = length hs"
  shows "same_result (map strip_hop) (conclude_hops req l hs ds qs) (conclude_hops req l hs' ds' qs')"
  using assms
proof (induction hs arbitrary: hs' ds ds' qs qs')
  case Nil
  then show ?case by (simp add: same_result_def)
next
  case (Cons h hs)
  obtain h' hs1 d ds1 d' ds1' q qs1 q' qs1' where e: "hs' = h' # hs1" "ds = d # ds1" "ds' = d' # ds1'" "qs = q # qs1" "qs' = q' # qs1'"
    using Cons.prems by (cases hs'; cases ds; cases ds'; cases qs; cases qs') auto
  have h: "same_result strip_hop (conclude_hop req l h d q) (conclude_hop req l h' d' q')"
    using Cons.prems e by (intro conclude_hop_same) auto
  have t: "same_result (map strip_hop) (conclude_hops req l hs ds1 qs1) (conclude_hops req l hs1 ds1' qs1')"
    using Cons.prems e by (intro Cons.IH) auto
  show ?case using h t e
    by (cases "conclude_hop req l h d q"; cases "conclude_hop req l h' d' q'";
        cases "conclude_hops req l hs ds1 qs1"; cases "conclude_hops req l hs1 ds1' qs1'")
      (auto simp: same_result_def)
qed

lemma tallied_strip:
  assumes "tallied req pol hops rs s" and "tallied req pol hops rs' s'" and "mset rs = mset rs'"
  shows "strip_summary (s\<lparr>ps_end_to_end := x, ps_hops := hs\<rparr>) = strip_summary (s'\<lparr>ps_end_to_end := x, ps_hops := hs\<rparr>)"
    and "map strip_hop (ps_hops s) = map strip_hop (ps_hops s')"
proof -
  have m: "mset (somes rs) = mset (somes rs')" unfolding somes_def by (rule mset_map_filter [OF assms(3)])
  then have i: "mset (included req rs) = mset (included req rs')" by (simp add: included_def)
  then have st: "set (included req rs) = set (included req rs')" by (rule mset_eq_setD)
  have c: "class_count req cs rs = class_count req cs rs'" for cs
    unfolding class_count_def by (rule mset_filter_length [OF m])
  show "map strip_hop (ps_hops s) = map strip_hop (ps_hops s')"
    using assms(1,2) tally_hop_mset [OF i] by (simp add: tallied_def)
  show "strip_summary (s\<lparr>ps_end_to_end := x, ps_hops := hs\<rparr>) = strip_summary (s'\<lparr>ps_end_to_end := x, ps_hops := hs\<rparr>)"
    using assms(1,2) mset_eq_length [OF m] mset_eq_length [OF i] st c
    by (intro path_summary.equality) (simp_all add: tallied_def strip_summary_def)
qed


text \<open>C22: The input order does not matter: two inputs with the same records give the same error or
  summaries that agree in every counter, distribution, coverage and contributing source; only the
  accumulated evidence is left out, since merging bounded reason lists depends on order.\<close>

theorem summary_order_independent:
  assumes "mset rs = mset rs'"
  shows "same_result strip_summary (summarize_path rs cat req pol) (summarize_path rs' cat req pol)"
proof (cases "\<exists>path hops. cat_path cat (sq_path req) = Inr path \<and> window_valid (sq_window req) \<and> valid_id (sq_generation req) \<and>
    new_hop_summaries (sq_histogram req) 0 (path_hops path) = Inr hops")
  case False
  then have "summarize_path rs cat req pol = summarize_path rs' cat req pol"
    by (auto simp: summarize_path_def split: sum.splits)
  then show ?thesis by (simp add: same_result_def)
next
  case True
  then obtain path hops where p: "cat_path cat (sq_path req) = Inr path" "window_valid (sq_window req)" "valid_id (sq_generation req)"
    "new_hop_summaries (sq_histogram req) 0 (path_hops path) = Inr hops" by blast
  define acc where "acc rs = foldl (consider_record req) (start_acc req pol hops) rs" for rs
  have ok: "acc_ok req pol hops rs (acc rs)" for rs
    unfolding acc_def by (rule summary_acc_ok [OF new_hop_summaries_fresh [OF p(4)]])
  define fin where "fin rs e2e hs = (sa_summary (acc rs))\<lparr>ps_end_to_end := e2e, ps_hops := hs, ps_evidence :=
      conclude_evidence (sa_saw_any (acc rs)) (ps_excluded_stale (sa_summary (acc rs))) (sa_evidence (acc rs))\<rparr>" for rs e2e hs
  have run: "summarize_path rs cat req pol =
     (case aggregate (sa_values (acc rs)) (sq_histogram req) (sq_probes req) (pol_limits pol) of
        Inl e \<Rightarrow> Inl e
      | Inr e2e \<Rightarrow> (case conclude_hops req (pol_limits pol) (ps_hops (sa_summary (acc rs))) (sa_hop_values (acc rs))
            (sa_queue_values (acc rs)) of Inl e \<Rightarrow> Inl e | Inr hs \<Rightarrow> Inr (fin rs e2e hs)))" for rs
    using p by (simp add: summarize_path_def acc_def start_acc_def fin_def Let_def split: sum.split)
  have i: "mset (included req rs) = mset (included req rs')"
    using mset_map_filter [OF assms, of id] by (simp add: included_def somes_def)
  have v: "mset (sa_values (acc rs)) = mset (sa_values (acc rs'))" using ok [of rs] ok [of rs'] i by (simp add: acc_ok_def Let_def)
  have T: "tallied req pol hops rs (sa_summary (acc rs))" "tallied req pol hops rs' (sa_summary (acc rs'))"
    using ok by (simp_all add: acc_ok_def Let_def)
  note S = tallied_strip [OF T assms]
  have l: "length (ps_hops (sa_summary (acc rs))) = length hops" using T(1) by (metis length_map tallied_def)
  have V: "sa_hop_values (acc rs) = map (\<lambda>h. dwells_at (hs_index h) (included req rs)) hops"
    "sa_queue_values (acc rs) = map (\<lambda>h. queue_dwells_at (hs_index h) (included req rs)) hops" for rs
    using ok [of rs] by (simp_all add: acc_ok_def Let_def)
  have c: "same_result (map strip_hop)
      (conclude_hops req (pol_limits pol) (ps_hops (sa_summary (acc rs))) (sa_hop_values (acc rs)) (sa_queue_values (acc rs)))
      (conclude_hops req (pol_limits pol) (ps_hops (sa_summary (acc rs'))) (sa_hop_values (acc rs')) (sa_queue_values (acc rs')))"
    using V l by (intro conclude_hops_same S(2)) (simp_all add: mset_dwells [OF i] mset_queue_dwells [OF i])
  have f: "strip_summary (fin rs e2e hs) = strip_summary (fin rs' e2e hs')" if "map strip_hop hs = map strip_hop hs'" for e2e hs hs'
    using S(1) [of hs e2e] that by (simp add: fin_def strip_summary_def)
  show ?thesis
    using aggregate_mset [OF v] c unfolding run [of rs] run [of rs']
    by (auto simp: same_result_def intro!: f split: sum.splits)
qed


section \<open>A summary of one record\<close>

definition demo_request :: summary_request where
  "demo_request = \<lparr>sq_path = StrongId 1, sq_generation = StrongId 3, sq_mode = CurrentMode,
     sq_window = \<lparr>tw_from = demo_time 0, tw_to = demo_time 1000\<rparr>, sq_histogram = [], sq_probes = [],
     sq_restrict_to_source = no_id\<rparr>"

definition demo_stored :: measurement_record where
  "demo_stored = (demo_record 2 7)\<lparr>rec_evidence := observed Fresh High\<rparr>"

lemma demo_included: "class_for demo_request demo_stored = Included"
  by (simp add: class_for_def classify_record_def demo_request_def demo_stored_def demo_record_def demo_time_def
      window_contains_def valid_id_def no_id_def observed_def usable_def)

lemma demo_summary: "\<exists>s. summarize_path [Some demo_stored, None] demo_catalog demo_request default_runtime_policy = Inr s"
proof -
  have p: "cat_path demo_catalog (StrongId 1) = Inr \<lparr>path_id = StrongId 1, path_name = ''p'', path_generation = StrongId 3,
      path_revision = 1, path_hops = []\<rparr>"
    by (simp add: cat_path_def lookup_def_def demo_catalog_def)
  have l: "pol_limits default_runtime_policy = default_limits" by (simp add: default_runtime_policy_def)
  obtain d where a: "aggregate [250] [] [] default_limits = Inr d"
    using aggregate_describes [of "[250]" "[]" default_limits "[]"] by (auto simp: in_i64_iff default_limits_def)
  have r: "rec_rtt_ns demo_stored = 250" "ev_has_value (rec_evidence demo_stored)"
    by (simp_all add: demo_stored_def demo_record_def ev_has_value_def observed_def)
  have w: "window_valid (sq_window demo_request)" "sq_path demo_request = StrongId 1" "valid_id (sq_generation demo_request)"
    "sq_histogram demo_request = []" "sq_probes demo_request = []"
    by (simp_all add: demo_request_def window_valid_def demo_time_def ts_valid_def valid_id_def)
  show ?thesis
    by (simp add: summarize_path_def w p l demo_included include_record_def Let_def r a hop_steps_def new_path_summary_def)
qed

theorem summary_exact_witness:
  "\<exists>s. summarize_path [Some demo_stored, None] demo_catalog demo_request default_runtime_policy = Inr s \<and>
     unat (ps_exchanges_considered s) = 1 \<and> unat (ps_exchanges_included s) = 1"
proof -
  obtain s where s: "summarize_path [Some demo_stored, None] demo_catalog demo_request default_runtime_policy = Inr s"
    using demo_summary by blast
  obtain path where p: "cat_path demo_catalog (sq_path demo_request) = Inr path"
    using demo_lookups(1) by (auto simp: demo_request_def)
  have i: "somes [Some demo_stored, None] = [demo_stored]" "included demo_request [Some demo_stored, None] = [demo_stored]"
    by (simp_all add: somes_def included_def map_filter_Cons List.map_filter_simps demo_included)
  have "counts_exact demo_request [Some demo_stored, None] s" using summary_exact [OF s _ p] by simp
  then show ?thesis using s by (simp add: counts_exact_def i)
qed

theorem summary_order_independent_witness:
  "same_result strip_summary (summarize_path [Some demo_stored, None] demo_catalog demo_request default_runtime_policy)
     (summarize_path [None, Some demo_stored] demo_catalog demo_request default_runtime_policy)"
  by (rule summary_order_independent) (simp add: add_mset_commute)

end
