(* ===== verification/Baseline.thy ===== *)
theory Baseline
  imports Stats_Summary
begin

text \<open>
  \<^verbatim>\<open>baseline/baseline.hpp\<close> and \<^verbatim>\<open>baseline/baseline.cpp\<close>: generation bound reference distributions, their
  comparison with a current summary, the classification of deviations and the baseline registry.
\<close>

section \<open>Vocabulary and records\<close>

datatype mismatch_kind =
    NoMismatch | MissingMismatch | PathMismatch | GenerationMismatch | ClockDomainMismatched
  | HistogramMismatch | RevisionMismatch | ProbesMismatch | StaleMismatch | ExpiredMismatch | NotUsable

datatype anomaly_class = NoAnomaly | Watch | Elevated | Suppressed | SuppressedElevated | UnknownAnomaly

definition kMismatchKinds :: "(mismatch_kind \<times> string) list" where
  "kMismatchKinds =
    [(NoMismatch, ''none''), (MissingMismatch, ''missing''), (PathMismatch, ''path''),
     (GenerationMismatch, ''generation''), (ClockDomainMismatched, ''clock_domain''),
     (HistogramMismatch, ''histogram''), (RevisionMismatch, ''revision''), (ProbesMismatch, ''probes''),
     (StaleMismatch, ''stale''), (ExpiredMismatch, ''expired''), (NotUsable, ''not_usable'')]"

definition kAnomalyClasses :: "(anomaly_class \<times> string) list" where
  "kAnomalyClasses =
    [(NoAnomaly, ''none''), (Watch, ''watch''), (Elevated, ''elevated''), (Suppressed, ''suppressed''),
     (SuppressedElevated, ''suppressed_elevated''), (UnknownAnomaly, ''unknown'')]"

definition mismatch_to_string :: "mismatch_kind \<Rightarrow> string" where
  "mismatch_to_string k = enum_name kMismatchKinds ''none'' k"

definition anomaly_to_string :: "anomaly_class \<Rightarrow> string" where
  "anomaly_to_string c = enum_name kAnomalyClasses ''unknown'' c"

interpretation mismatch_names: named_enum kMismatchKinds "''none''"
proof unfold_locales
  show "e \<in> fst ` set kMismatchKinds" for e by (cases e) (simp_all add: kMismatchKinds_def)
qed (simp_all add: kMismatchKinds_def)

interpretation anomaly_names: named_enum kAnomalyClasses "''unknown''"
proof unfold_locales
  show "e \<in> fst ` set kAnomalyClasses" for e by (cases e) (simp_all add: kAnomalyClasses_def)
qed (simp_all add: kAnomalyClasses_def)

fun mismatch_reason :: "mismatch_kind \<Rightarrow> reason_code" where
  "mismatch_reason MissingMismatch = BaselineMissing"
| "mismatch_reason PathMismatch = BaselinePathMismatch"
| "mismatch_reason GenerationMismatch = BaselineGenerationMismatch"
| "mismatch_reason ClockDomainMismatched = BaselineClockDomainMismatch"
| "mismatch_reason HistogramMismatch = BaselineHistogramMismatch"
| "mismatch_reason RevisionMismatch = BaselineRevisionMismatch"
| "mismatch_reason ProbesMismatch = BaselineHistogramMismatch"
| "mismatch_reason StaleMismatch = BaselineStale"
| "mismatch_reason ExpiredMismatch = BaselineExpired"
| "mismatch_reason NotUsable = InsufficientSamples"
| "mismatch_reason NoMismatch = BaselineMissing"

record baseline =
  bl_id :: baseline_id
  bl_name :: name
  bl_path :: path_id
  bl_generation :: generation_id
  bl_domain :: clock_domain_id
  bl_revision :: revision
  bl_histogram :: histogram_spec
  bl_probes :: "quantile_probe list"
  bl_source :: source_id
  bl_synthetic :: bool
  bl_created_at :: timestamp
  bl_window :: time_window
  bl_exchange_count :: u64
  bl_end_to_end :: distribution
  bl_hops :: "hop_summary list"
  bl_evidence :: evidence
  bl_policy_digest :: string

record anomaly_evidence =
  an_index :: hop_index
  an_hop :: hop_id
  an_classification :: anomaly_class
  an_mean_delta_ns :: "nanos option"
  an_p99_delta_ns :: "nanos option"
  an_ratio_ppm :: u64
  an_current_count :: u64
  an_baseline_count :: u64
  an_evidence :: evidence

record baseline_comparison =
  bc_baseline :: baseline_id
  bc_applicable :: bool
  bc_mismatches :: "(mismatch_kind \<times> string) list"
  bc_mean_delta_ns :: "nanos option"
  bc_min_delta_ns :: "nanos option"
  bc_max_delta_ns :: "nanos option"
  bc_mean_ratio_ppm :: u64
  bc_anomalies :: "anomaly_evidence list"
  bc_evidence :: evidence

section \<open>Deviations\<close>

definition delta :: "nanos option \<Rightarrow> nanos option \<Rightarrow> nanos option" where
  "delta current reference =
     (case (current, reference) of (Some c, Some r) \<Rightarrow> checked_sub_i64 c r | _ \<Rightarrow> None)"

definition mean_ratio_ppm :: "nanos option \<Rightarrow> nanos option \<Rightarrow> u64" where
  "mean_ratio_ppm current reference =
     (case (current, reference) of
        (Some c, Some r) \<Rightarrow>
          if r \<le> 0 then 0
          else
            let numerator = to_u64 (if c < 0 then 0 else c);
                quotient = fst (divmod_u128_u64 (mul_u64_to_u128 numerator 1000000) (to_u64 r))
            in if \<not> fits_u64 quotient then 0 else lo quotient
      | _ \<Rightarrow> 0)"

text \<open>The loop of \<^verbatim>\<open>quantile_at\<close> over the probes; a probe without a value ends it.\<close>

fun quantile_loop :: "u32 \<Rightarrow> u32 \<Rightarrow> quantile_probe list \<Rightarrow> nat \<Rightarrow> nanos option list \<Rightarrow> nanos option option" where
  "quantile_loop n d [] i quantiles = None"
| "quantile_loop n d (p # ps) i quantiles =
     (if qp_numerator p = n \<and> qp_denominator p = d
      then Some (if i < length quantiles then quantiles ! i else None)
      else quantile_loop n d ps (i + 1) quantiles)"

definition quantile_at :: "distribution \<Rightarrow> u32 \<Rightarrow> u32 \<Rightarrow> nanos option" where
  "quantile_at dist n d =
     (case quantile_loop n d (d_probes dist) 0 (d_quantiles dist) of
        Some q \<Rightarrow> q
      | None \<Rightarrow> if d_quantiles dist \<noteq> [] then last (d_quantiles dist) else None)"

definition deviation_class :: "anomaly_policy \<Rightarrow> nanos \<Rightarrow> anomaly_class \<times> reason_code" where
  "deviation_class p v =
     (if v \<ge> elevated_delta_ns p then (Elevated, DeviationElevated)
      else if v \<ge> watch_delta_ns p then (Watch, DeviationWatch)
      else if v \<le> - elevated_delta_ns p then (SuppressedElevated, DeviationSuppressed)
      else if v \<le> - watch_delta_ns p then (Suppressed, DeviationSuppressed)
      else (NoAnomaly, DeviationNone))"

definition classify_anomaly ::
  "distribution \<Rightarrow> distribution \<Rightarrow> hop_index \<Rightarrow> hop_id \<Rightarrow> runtime_policy \<Rightarrow> anomaly_evidence" where
  "classify_anomaly current reference index hop policy =
     (let an = pol_anomaly policy;
          ev = add_reason NoCausalInference [] default_evidence;
          statement =
            \<lparr>an_index = index, an_hop = hop, an_classification = UnknownAnomaly,
             an_mean_delta_ns = delta (d_mean_ns current) (d_mean_ns reference),
             an_p99_delta_ns = delta (quantile_at current 99 100) (quantile_at reference 99 100),
             an_ratio_ppm = mean_ratio_ppm (d_mean_ns current) (d_mean_ns reference),
             an_current_count = d_count current, an_baseline_count = d_count reference,
             an_evidence = ev\<rparr>
      in if unat (d_count current) < min_samples an \<or> unat (d_count reference) < min_samples an
         then statement\<lparr>an_evidence := add_reason InsufficientSamples []
                (ev\<lparr>ev_state := Incomplete, ev_confidence := Low\<rparr>)\<rparr>
         else case an_mean_delta_ns statement of
           None \<Rightarrow> statement\<lparr>an_evidence := add_reason BaselineAbsent [] (ev\<lparr>ev_state := UnknownState\<rparr>)\<rparr>
         | Some v \<Rightarrow>
             (case deviation_class an v of
                (classification, code) \<Rightarrow>
                  statement\<lparr>an_classification := classification,
                    an_evidence := (add_reason code (show_int v) ev)
                      \<lparr>ev_state := Observed,
                       ev_freshness := (if hg_spec (d_histogram current) = hg_spec (d_histogram reference)
                                        then Fresh else UnknownFreshness),
                       ev_confidence := (if unat (d_count current) \<ge> 4 * min_samples an mod 2 ^ 64
                                         then High else Moderate)\<rparr>\<rparr>))"

section \<open>Comparison\<close>

definition add_mismatch :: "mismatch_kind \<Rightarrow> string \<Rightarrow> baseline_comparison \<Rightarrow> baseline_comparison" where
  "add_mismatch kind detail c =
     c\<lparr>bc_mismatches := bc_mismatches c @ [(kind, detail)],
       bc_evidence := add_reason (mismatch_reason kind) detail
         ((bc_evidence c)\<lparr>ev_state := UnsupportedState, ev_confidence := NoConfidence\<rparr>)\<rparr>"

text \<open>The checks of \<^verbatim>\<open>compare\<close> in their order; every check that applies adds its mismatch.\<close>

definition mismatch_checks ::
  "baseline \<Rightarrow> path_summary \<Rightarrow> runtime_policy \<Rightarrow> (bool \<times> mismatch_kind \<times> string) list" where
  "mismatch_checks reference current policy =
     (let age = wrap_i64 (ts_ns (ps_as_of current) - ts_ns (bl_created_at reference));
          age_class = classify_age (pol_freshness policy) age
      in [(bl_path reference \<noteq> ps_path current, PathMismatch, ''baseline belongs to a different path''),
          (bl_generation reference \<noteq> ps_generation current, GenerationMismatch,
             ''baseline generation differs from the observed generation''),
          (bl_domain reference \<noteq> ps_domain current, ClockDomainMismatched,
             ''baseline clock domain differs from the observed clock domain''),
          (bl_histogram reference \<noteq> hg_spec (d_histogram (ps_end_to_end current)), HistogramMismatch,
             ''baseline histogram bucketing differs''),
          (bl_probes reference \<noteq> d_probes (ps_end_to_end current), ProbesMismatch,
             ''baseline quantile probes differ''),
          (ev_state (bl_evidence reference) = Conflicting, NotUsable, ''baseline evidence is conflicting''),
          (\<not> usable (ps_evidence current) \<and> ps_mode current = CurrentMode, NotUsable,
             ''current evidence is not usable''),
          (age < 0, NotUsable, ''baseline was created after the observed window''),
          (age \<ge> 0 \<and> age_class = StaleFreshness, StaleMismatch, show_int age),
          (age \<ge> 0 \<and> age_class = Expired, ExpiredMismatch, show_int age),
          (unat (d_count (ps_end_to_end current)) < min_samples (pol_anomaly policy), NotUsable,
             ''current window has too few samples'')])"

definition apply_check :: "baseline_comparison \<Rightarrow> bool \<times> mismatch_kind \<times> string \<Rightarrow> baseline_comparison" where
  "apply_check c check = (case check of (failed, kind, detail) \<Rightarrow> if failed then add_mismatch kind detail c else c)"

definition hop_anomalies :: "baseline \<Rightarrow> path_summary \<Rightarrow> runtime_policy \<Rightarrow> anomaly_evidence list" where
  "hop_anomalies reference current policy =
     concat (map (\<lambda>hop.
       case List.find (\<lambda>candidate. hs_index candidate = hs_index hop) (bl_hops reference) of
         None \<Rightarrow> []
       | Some reference_hop \<Rightarrow>
           [classify_anomaly (hs_dwell hop) (hs_dwell reference_hop) (hs_index hop) (hs_hop hop) policy])
       (ps_hops current))"

definition new_comparison :: "baseline_id \<Rightarrow> baseline_comparison" where
  "new_comparison i =
     \<lparr>bc_baseline = i, bc_applicable = False, bc_mismatches = [], bc_mean_delta_ns = None,
      bc_min_delta_ns = None, bc_max_delta_ns = None, bc_mean_ratio_ppm = 0, bc_anomalies = [],
      bc_evidence = default_evidence\<rparr>"

definition compare_baseline :: "baseline \<Rightarrow> path_summary \<Rightarrow> runtime_policy \<Rightarrow> baseline_comparison" where
  "compare_baseline reference current policy =
     (let c = new_comparison (bl_id reference)
      in if \<not> valid_id (bl_id reference) then
           (let c = add_mismatch MissingMismatch ''no baseline was supplied'' c
            in c\<lparr>bc_evidence := add_reason BaselineMissing [] (bc_evidence c)\<rparr>)
         else
           let c = foldl apply_check c (mismatch_checks reference current policy);
               now = ps_end_to_end current; base = bl_end_to_end reference
           in if bc_mismatches c \<noteq> [] then c\<lparr>bc_applicable := False, bc_mean_ratio_ppm := 0\<rparr>
              else
                c\<lparr>bc_applicable := True,
                  bc_evidence := add_reason NoCausalInference [] (add_reason BaselineMatched []
                    ((bc_evidence c)\<lparr>ev_state := Observed, ev_freshness := Fresh, ev_confidence := High\<rparr>)),
                  bc_mean_delta_ns := delta (d_mean_ns now) (d_mean_ns base),
                  bc_min_delta_ns := delta (d_min_ns now) (d_min_ns base),
                  bc_max_delta_ns := delta (d_max_ns now) (d_max_ns base),
                  bc_mean_ratio_ppm := mean_ratio_ppm (d_mean_ns now) (d_mean_ns base),
                  bc_anomalies := classify_anomaly now base 0 no_id policy # hop_anomalies reference current policy\<rparr>)"

section \<open>The registry\<close>

record baseline_store =
  bs_limits :: limits
  bs_policy :: runtime_policy
  bs_baselines :: "(baseline_id, baseline) omap"
  bs_by_path :: "(path_id, baseline_id list) omap"
  bs_generation_mismatch_refusals :: u64

definition empty_store :: "limits \<Rightarrow> runtime_policy \<Rightarrow> baseline_store" where
  "empty_store l p = \<lparr>bs_limits = l, bs_policy = p, bs_baselines = [], bs_by_path = [],
     bs_generation_mismatch_refusals = 0\<rparr>"

definition baseline_identity_text :: "baseline \<Rightarrow> string" where
  "baseline_identity_text b =
     ''baseline|'' @ id_to_hex (bl_path b) @ ''|'' @ id_to_hex (bl_generation b) @ ''|'' @
     id_to_hex (bl_domain b) @ ''|'' @ show_nat (unat (bl_revision b)) @ ''|'' @ bl_name b"

definition identified :: "baseline \<Rightarrow> baseline" where
  "identified b = (if valid_id (bl_id b) then b else b\<lparr>bl_id := derive_from (baseline_identity_text b)\<rparr>)"

definition store_add :: "baseline \<Rightarrow> baseline_store \<Rightarrow> baseline_id result \<times> baseline_store" where
  "store_add b s =
     (if \<not> valid_id (bl_path b) \<or> \<not> valid_id (bl_generation b) \<or> \<not> valid_id (bl_domain b)
      then (fail InvalidArgument ''a baseline requires a path, a generation and a clock domain'' [], s)
      else if \<not> revision_valid (bl_revision b)
      then (fail InvalidArgument ''a baseline requires a revision of at least 1'' [], s)
      else if bl_name b = [] then (fail InvalidArgument ''a baseline requires a name'' [], s)
      else
        let b = identified b
        in if om_find (bs_baselines s) (bl_id b) \<noteq> None
           then (fail AlreadyExists ''a baseline with this identity already exists'' (bl_name b), s)
           else if length (bs_baselines s) \<ge> max_baselines (bs_limits s)
           then (fail CapacityExceeded ''baseline registry is at capacity'' (bl_name b), s)
           else
             let b = b\<lparr>bl_evidence := add_reason AggregateDeterministic [] (bl_evidence b)\<rparr>;
                 known = (case om_find (bs_by_path s) (bl_path b) of None \<Rightarrow> [] | Some ids \<Rightarrow> ids)
             in (Inr (bl_id b),
                 s\<lparr>bs_by_path := om_set (bl_path b) (known @ [bl_id b]) (bs_by_path s),
                   bs_baselines := om_set (bl_id b) b (bs_baselines s)\<rparr>))"

definition store_get :: "baseline_store \<Rightarrow> baseline_id \<Rightarrow> baseline result" where
  "store_get s i =
     (case om_find (bs_baselines s) i of
        None \<Rightarrow> fail NotFound ''unknown baseline'' (id_to_hex i)
      | Some b \<Rightarrow> Inr b)"

fun latest_loop ::
  "(baseline_id, baseline) omap \<Rightarrow> generation_id \<Rightarrow> clock_domain_id \<Rightarrow> histogram_spec
     \<Rightarrow> baseline option \<Rightarrow> bool \<Rightarrow> baseline_id list \<Rightarrow> baseline option \<times> bool" where
  "latest_loop table gen cd spec best saw_other [] = (best, saw_other)"
| "latest_loop table gen cd spec best saw_other (i # rest) =
     (case om_find table i of
        None \<Rightarrow> latest_loop table gen cd spec best saw_other rest
      | Some b \<Rightarrow>
          if bl_generation b \<noteq> gen then latest_loop table gen cd spec best True rest
          else if bl_domain b \<noteq> cd \<or> bl_histogram b \<noteq> spec
          then latest_loop table gen cd spec best saw_other rest
          else if (case best of None \<Rightarrow> True | Some c \<Rightarrow> bl_revision b > bl_revision c)
          then latest_loop table gen cd spec (Some b) saw_other rest
          else latest_loop table gen cd spec best saw_other rest)"

definition latest_for ::
  "baseline_store \<Rightarrow> path_id \<Rightarrow> generation_id \<Rightarrow> clock_domain_id \<Rightarrow> histogram_spec \<Rightarrow> baseline result" where
  "latest_for s path gen cd spec =
     (case om_find (bs_by_path s) path of
        None \<Rightarrow> fail NotFound ''no baseline is registered for this path'' (id_to_hex path)
      | Some ids \<Rightarrow>
          (case latest_loop (bs_baselines s) gen cd spec None False ids of
             (Some b, _) \<Rightarrow> Inr b
           | (None, True) \<Rightarrow>
               fail Conflict ''a baseline exists for this path but not for the requested generation'' (id_to_hex gen)
           | (None, False) \<Rightarrow>
               fail NotFound ''no applicable baseline for this path and generation'' (id_to_hex path)))"

definition list_baselines :: "baseline_store \<Rightarrow> baseline list" where
  "list_baselines s = map snd (bs_baselines s)"

section \<open>When a comparison applies\<close>

lemma mismatches_foldl:
  "bc_mismatches (foldl apply_check c checks) = bc_mismatches c @ map snd (filter fst checks)"
  by (induction checks arbitrary: c) (auto simp: apply_check_def add_mismatch_def split: prod.splits)

lemma foldl_apply_check_frame:
  "bc_applicable (foldl apply_check c checks) = bc_applicable c"
  "bc_mean_delta_ns (foldl apply_check c checks) = bc_mean_delta_ns c"
  "bc_min_delta_ns (foldl apply_check c checks) = bc_min_delta_ns c"
  "bc_max_delta_ns (foldl apply_check c checks) = bc_max_delta_ns c"
  "bc_mean_ratio_ppm (foldl apply_check c checks) = bc_mean_ratio_ppm c"
  "bc_anomalies (foldl apply_check c checks) = bc_anomalies c"
  by (induction checks arbitrary: c) (auto simp: apply_check_def add_mismatch_def split: prod.splits)

lemma foldl_apply_check_state:
  "list_ex fst checks \<or> ev_state (bc_evidence c) = UnsupportedState
    \<Longrightarrow> ev_state (bc_evidence (foldl apply_check c checks)) = UnsupportedState"
  by (induction checks arbitrary: c) (auto simp: apply_check_def add_mismatch_def split: prod.splits)

definition baseline_applies :: "baseline \<Rightarrow> path_summary \<Rightarrow> runtime_policy \<Rightarrow> bool" where
  "baseline_applies b s p \<longleftrightarrow>
     valid_id (bl_id b) \<and> bl_path b = ps_path s \<and> bl_generation b = ps_generation s \<and> bl_domain b = ps_domain s
     \<and> bl_histogram b = hg_spec (d_histogram (ps_end_to_end s)) \<and> bl_probes b = d_probes (ps_end_to_end s)
     \<and> ev_state (bl_evidence b) \<noteq> Conflicting \<and> (usable (ps_evidence s) \<or> ps_mode s = HistoricalMode)
     \<and> ts_ns (bl_created_at b) \<le> ts_ns (ps_as_of s)
     \<and> ts_ns (ps_as_of s) - ts_ns (bl_created_at b) \<le> aging_horizon_ns (pol_freshness p)
     \<and> min_samples (pol_anomaly p) \<le> unat (d_count (ps_end_to_end s))"

lemma not_current_mode: "m \<noteq> CurrentMode \<longleftrightarrow> m = HistoricalMode"
  by (cases m) auto

lemma no_mismatch_iff:
  assumes "policy_validate p = ok_status" and "in_i64 (ts_ns (ps_as_of s) - ts_ns (bl_created_at b))" and "valid_id (bl_id b)"
  shows "\<not> list_ex fst (mismatch_checks b s p) \<longleftrightarrow> baseline_applies b s p"
proof -
  have "fresh_horizon_ns (pol_freshness p) \<le> aging_horizon_ns (pol_freshness p)"
    using freshness_policy_ordered [OF policy_validateD(2) [OF assms(1)]] by simp
  then show ?thesis
    using assms(2,3)
    by (auto simp: mismatch_checks_def baseline_applies_def classify_age_def Let_def not_current_mode not_less)
qed

lemma delta_exact:
  "in_i64 c \<Longrightarrow> in_i64 r \<Longrightarrow> in_i64 (c - r) \<Longrightarrow> delta (Some c) (Some r) = Some (c - r)"
  by (simp add: delta_def checked_sub_i64_spec)

text \<open>The end to end statement and one statement per current hop that the baseline knows.\<close>

definition compared_hops :: "baseline \<Rightarrow> path_summary \<Rightarrow> hop_index list" where
  "compared_hops b s = [hs_index h. h \<leftarrow> ps_hops s, hs_index h \<in> hs_index ` set (bl_hops b)]"

lemma an_index_classify [simp]: "an_index (classify_anomaly c r i h p) = i"
  by (simp add: classify_anomaly_def Let_def split: option.splits prod.splits)

lemma hop_anomalies_index: "map an_index (hop_anomalies b s p) = compared_hops b s"
proof -
  have one: "map an_index (case List.find (\<lambda>c. hs_index c = hs_index h) (bl_hops b) of None \<Rightarrow> []
      | Some r \<Rightarrow> [classify_anomaly (hs_dwell h) (hs_dwell r) (hs_index h) (hs_hop h) p])
    = (if hs_index h \<in> hs_index ` set (bl_hops b) then [hs_index h] else [])" for h
  proof (cases "List.find (\<lambda>c. hs_index c = hs_index h) (bl_hops b)")
    case None
    then have "hs_index h \<notin> hs_index ` set (bl_hops b)" by (auto simp: find_None_iff)
    with None show ?thesis by simp
  next
    case (Some r)
    then have "hs_index h \<in> hs_index ` set (bl_hops b)" by (auto simp: find_Some_iff) (metis image_eqI nth_mem)
    with Some show ?thesis by simp
  qed
  show ?thesis unfolding hop_anomalies_def compared_hops_def map_concat map_map comp_def one ..
qed

lemma compare_applies:
  assumes "valid_id (bl_id b)" "\<not> list_ex fst (mismatch_checks b s p)"
  shows "bc_applicable (compare_baseline b s p)" and "bc_mismatches (compare_baseline b s p) = []"
    and "bc_mean_delta_ns (compare_baseline b s p) = delta (d_mean_ns (ps_end_to_end s)) (d_mean_ns (bl_end_to_end b))"
    and "bc_min_delta_ns (compare_baseline b s p) = delta (d_min_ns (ps_end_to_end s)) (d_min_ns (bl_end_to_end b))"
    and "bc_max_delta_ns (compare_baseline b s p) = delta (d_max_ns (ps_end_to_end s)) (d_max_ns (bl_end_to_end b))"
    and "map an_index (bc_anomalies (compare_baseline b s p)) = 0 # compared_hops b s"
    and "usable (bc_evidence (compare_baseline b s p))"
proof -
  have "bc_mismatches (foldl apply_check (new_comparison (bl_id b)) (mismatch_checks b s p)) = []"
    using assms(2) by (simp add: mismatches_foldl new_comparison_def filter_empty_conv list_ex_iff)
  with assms(1) show "bc_applicable (compare_baseline b s p)" "bc_mismatches (compare_baseline b s p) = []"
    "bc_mean_delta_ns (compare_baseline b s p) = delta (d_mean_ns (ps_end_to_end s)) (d_mean_ns (bl_end_to_end b))"
    "bc_min_delta_ns (compare_baseline b s p) = delta (d_min_ns (ps_end_to_end s)) (d_min_ns (bl_end_to_end b))"
    "bc_max_delta_ns (compare_baseline b s p) = delta (d_max_ns (ps_end_to_end s)) (d_max_ns (bl_end_to_end b))"
    "map an_index (bc_anomalies (compare_baseline b s p)) = 0 # compared_hops b s"
    "usable (bc_evidence (compare_baseline b s p))"
    by (simp_all add: compare_baseline_def Let_def hop_anomalies_index usable_def)
qed

lemma compare_refused:
  assumes "\<not> valid_id (bl_id b) \<or> list_ex fst (mismatch_checks b s p)"
  shows "\<not> bc_applicable (compare_baseline b s p)" and "bc_mismatches (compare_baseline b s p) \<noteq> []"
    and "bc_mean_delta_ns (compare_baseline b s p) = None" and "bc_min_delta_ns (compare_baseline b s p) = None"
    and "bc_max_delta_ns (compare_baseline b s p) = None" and "bc_mean_ratio_ppm (compare_baseline b s p) = 0"
    and "bc_anomalies (compare_baseline b s p) = []"
    and "ev_state (bc_evidence (compare_baseline b s p)) = UnsupportedState"
proof -
  let ?c = "foldl apply_check (new_comparison (bl_id b)) (mismatch_checks b s p)"
  have "bc_mismatches ?c \<noteq> [] \<and> ev_state (bc_evidence ?c) = UnsupportedState" if "valid_id (bl_id b)"
    using assms that foldl_apply_check_state [of "mismatch_checks b s p" "new_comparison (bl_id b)"]
    by (auto simp: mismatches_foldl filter_empty_conv list_ex_iff)
  then show "\<not> bc_applicable (compare_baseline b s p)" "bc_mismatches (compare_baseline b s p) \<noteq> []"
    "bc_mean_delta_ns (compare_baseline b s p) = None" "bc_min_delta_ns (compare_baseline b s p) = None"
    "bc_max_delta_ns (compare_baseline b s p) = None" "bc_mean_ratio_ppm (compare_baseline b s p) = 0"
    "bc_anomalies (compare_baseline b s p) = []"
    "ev_state (bc_evidence (compare_baseline b s p)) = UnsupportedState"
    by (simp_all add: compare_baseline_def Let_def add_mismatch_def foldl_apply_check_frame new_comparison_def)
qed

lemma compare_revision: "compare_baseline (b\<lparr>bl_revision := revision2\<rparr>) s p = compare_baseline b s p"
  by (simp add: compare_baseline_def mismatch_checks_def hop_anomalies_def Let_def)

lemma no_revision_mismatch: "RevisionMismatch \<notin> fst ` set (bc_mismatches (compare_baseline b s p))"
proof -
  have "RevisionMismatch \<notin> fst ` snd ` set (mismatch_checks b s p)" by (simp add: mismatch_checks_def Let_def)
  then have "RevisionMismatch \<notin> fst ` set (map snd (filter fst (mismatch_checks b s p)))" by auto
  then show ?thesis by (simp add: compare_baseline_def Let_def mismatches_foldl new_comparison_def add_mismatch_def)
qed

text \<open>C24: A comparison with a baseline is produced exactly when it may be: under a valid policy, and when the
  age of the baseline is a 64-bit difference, the comparison is applicable if and only if a baseline was
  supplied, its path, generation, clock domain, histogram and probes are those of the summary, neither
  side's evidence forbids it, the baseline is not newer than the observation and not older than the aging
  horizon, and the window has enough samples. The revision of the baseline plays no part: a mismatch of
  revisions is never stated, and two baselines that differ only in it compare alike. Otherwise no number is produced: there is a mismatch, all
  deltas are absent, there is no anomaly statement and the evidence is unsupported. When it applies, the
  deltas are the exact differences of the two distributions and the statements are one for the path and
  one for each hop that both sides have, in order.\<close>
theorem comparison_applies_exactly:
  assumes "policy_validate p = ok_status" and "in_i64 (ts_ns (ps_as_of s) - ts_ns (bl_created_at b))"
  shows "(bc_applicable (compare_baseline b s p) \<longleftrightarrow> baseline_applies b s p)
    \<and> (\<not> baseline_applies b s p \<longrightarrow> bc_mismatches (compare_baseline b s p) \<noteq> []
      \<and> bc_mean_delta_ns (compare_baseline b s p) = None \<and> bc_min_delta_ns (compare_baseline b s p) = None
      \<and> bc_max_delta_ns (compare_baseline b s p) = None \<and> bc_mean_ratio_ppm (compare_baseline b s p) = 0
      \<and> bc_anomalies (compare_baseline b s p) = []
      \<and> ev_state (bc_evidence (compare_baseline b s p)) = UnsupportedState)
    \<and> (baseline_applies b s p \<longrightarrow> bc_mismatches (compare_baseline b s p) = []
      \<and> bc_mean_delta_ns (compare_baseline b s p) = delta (d_mean_ns (ps_end_to_end s)) (d_mean_ns (bl_end_to_end b))
      \<and> bc_min_delta_ns (compare_baseline b s p) = delta (d_min_ns (ps_end_to_end s)) (d_min_ns (bl_end_to_end b))
      \<and> bc_max_delta_ns (compare_baseline b s p) = delta (d_max_ns (ps_end_to_end s)) (d_max_ns (bl_end_to_end b))
      \<and> map an_index (bc_anomalies (compare_baseline b s p)) = 0 # compared_hops b s
      \<and> usable (bc_evidence (compare_baseline b s p)))
    \<and> RevisionMismatch \<notin> fst ` set (bc_mismatches (compare_baseline b s p))
    \<and> compare_baseline (b\<lparr>bl_revision := revision2\<rparr>) s p = compare_baseline b s p"
proof -
  have r: "compare_baseline (b\<lparr>bl_revision := revision2\<rparr>) s p = compare_baseline b s p" by (rule compare_revision)
  have "baseline_applies b s p \<longleftrightarrow> valid_id (bl_id b) \<and> \<not> list_ex fst (mismatch_checks b s p)"
    using no_mismatch_iff [OF assms] by (auto simp: baseline_applies_def)
  then show ?thesis
    using compare_applies [of b s p] compare_refused [of b s p] no_revision_mismatch [of b s p]
    by (cases "baseline_applies b s p") (simp_all add: r)
qed

section \<open>Deviation classes\<close>

text \<open>The opposite deviation.\<close>

fun mirrored :: "anomaly_class \<Rightarrow> anomaly_class" where
  "mirrored Elevated = SuppressedElevated" | "mirrored SuppressedElevated = Elevated"
| "mirrored Watch = Suppressed" | "mirrored Suppressed = Watch"
| "mirrored NoAnomaly = NoAnomaly" | "mirrored UnknownAnomaly = UnknownAnomaly"

lemma deviation_class_mirror:
  "0 < watch_delta_ns p \<Longrightarrow> watch_delta_ns p \<le> elevated_delta_ns p
    \<Longrightarrow> fst (deviation_class p (- v)) = mirrored (fst (deviation_class p v))"
  by (auto simp: deviation_class_def)

lemma classification_eq:
  "an_classification (classify_anomaly c r i h p) =
     (if unat (d_count c) < min_samples (pol_anomaly p) \<or> unat (d_count r) < min_samples (pol_anomaly p) then UnknownAnomaly
      else case delta (d_mean_ns c) (d_mean_ns r) of
        None \<Rightarrow> UnknownAnomaly | Some v \<Rightarrow> fst (deviation_class (pol_anomaly p) v))"
  by (simp add: classify_anomaly_def Let_def split: option.splits prod.splits)

lemma reasons_add_reason: "set (ev_reasons ev) \<subseteq> set (ev_reasons (add_reason code detail ev))"
  by (auto simp: add_reason_def Let_def)

lemma statement_disclaims:
  "NoCausalInference \<in> reason_code_of ` set (ev_reasons (an_evidence (classify_anomaly c r i h p)))"
proof -
  have "Reason NoCausalInference [] \<in> set (ev_reasons (add_reason NoCausalInference [] default_evidence))"
    by (simp add: add_reason_def default_evidence_def kMaxReasons_def)
  then have "Reason NoCausalInference [] \<in> set (ev_reasons (an_evidence (classify_anomaly c r i h p)))"
    using reasons_add_reason by (fastforce simp: classify_anomaly_def Let_def split: option.splits prod.splits)
  then show ?thesis by force
qed

text \<open>C25: A deviation is a threshold statement about exact means: with a positive watch threshold and 64-bit
  means whose difference is representable both ways, a statement is unknown exactly when a side has too few samples or no mean;
  otherwise it is elevated, watch, suppressed or strongly suppressed according to where the exact
  difference of the means lies between the policy's thresholds. It is symmetric: exchanging the two sides
  mirrors the class. Every statement carries the reminder that no cause is inferred.\<close>
theorem deviation_statement:
  assumes "policy_validate p = ok_status" and "0 < watch_delta_ns (pol_anomaly p)"
    and "\<forall>x \<in> set_option (d_mean_ns c) \<union> set_option (d_mean_ns r). in_i64 x \<and> - (2 ^ 62) < x \<and> x < 2 ^ 62"
  shows "(an_classification (classify_anomaly c r i h p) = UnknownAnomaly \<longleftrightarrow>
      unat (d_count c) < min_samples (pol_anomaly p) \<or> unat (d_count r) < min_samples (pol_anomaly p)
      \<or> d_mean_ns c = None \<or> d_mean_ns r = None)
    \<and> (\<forall>m n. d_mean_ns c = Some m \<and> d_mean_ns r = Some n
        \<and> min_samples (pol_anomaly p) \<le> min (unat (d_count c)) (unat (d_count r)) \<longrightarrow>
      an_classification (classify_anomaly c r i h p) =
        (if elevated_delta_ns (pol_anomaly p) \<le> m - n then Elevated
         else if watch_delta_ns (pol_anomaly p) \<le> m - n then Watch
         else if elevated_delta_ns (pol_anomaly p) \<le> n - m then SuppressedElevated
         else if watch_delta_ns (pol_anomaly p) \<le> n - m then Suppressed else NoAnomaly))
    \<and> an_classification (classify_anomaly r c i h p) = mirrored (an_classification (classify_anomaly c r i h p))
    \<and> NoCausalInference \<in> reason_code_of ` set (ev_reasons (an_evidence (classify_anomaly c r i h p)))"
proof -
  have w: "watch_delta_ns (pol_anomaly p) \<le> elevated_delta_ns (pol_anomaly p)"
    using policy_validateD(5) [OF assms(1)] by (simp add: anomaly_policy_validate_def require_all_ok)
  have d: "delta (d_mean_ns c) (d_mean_ns r) = (case (d_mean_ns c, d_mean_ns r) of (Some m, Some n) \<Rightarrow> Some (m - n) | _ \<Rightarrow> None)"
    and d': "delta (d_mean_ns r) (d_mean_ns c) = (case (d_mean_ns r, d_mean_ns c) of (Some m, Some n) \<Rightarrow> Some (m - n) | _ \<Rightarrow> None)"
    using assms(3) by (auto simp: delta_def checked_sub_i64_spec in_i64_iff split: option.splits)
  have k: "fst (deviation_class q v) \<noteq> UnknownAnomaly" for q v by (simp add: deviation_class_def)
  have mirror: "fst (deviation_class (pol_anomaly p) (n - m)) = mirrored (fst (deviation_class (pol_anomaly p) (m - n)))" for m n
    using deviation_class_mirror [OF assms(2) w, of "m - n"] by simp
  show ?thesis
  proof (intro conjI allI impI)
    show "an_classification (classify_anomaly c r i h p) = UnknownAnomaly \<longleftrightarrow>
      unat (d_count c) < min_samples (pol_anomaly p) \<or> unat (d_count r) < min_samples (pol_anomaly p)
      \<or> d_mean_ns c = None \<or> d_mean_ns r = None"
      by (simp add: classification_eq d k split: option.splits)
    show "an_classification (classify_anomaly r c i h p) = mirrored (an_classification (classify_anomaly c r i h p))"
      using mirror [where m = "the (d_mean_ns c)" and n = "the (d_mean_ns r)"] d d'
      by (cases "d_mean_ns c"; cases "d_mean_ns r") (simp_all add: classification_eq)
    show "NoCausalInference \<in> reason_code_of ` set (ev_reasons (an_evidence (classify_anomaly c r i h p)))"
      by (rule statement_disclaims)
    fix m n
    assume "d_mean_ns c = Some m \<and> d_mean_ns r = Some n
      \<and> min_samples (pol_anomaly p) \<le> min (unat (d_count c)) (unat (d_count r))"
    with d show "an_classification (classify_anomaly c r i h p) =
        (if elevated_delta_ns (pol_anomaly p) \<le> m - n then Elevated
         else if watch_delta_ns (pol_anomaly p) \<le> m - n then Watch
         else if elevated_delta_ns (pol_anomaly p) \<le> n - m then SuppressedElevated
         else if watch_delta_ns (pol_anomaly p) \<le> n - m then Suppressed else NoAnomaly)"
      by (simp add: classification_eq deviation_class_def)
  qed
qed

section \<open>The registry keeps its promises\<close>

inductive store_reach :: "baseline_store \<Rightarrow> bool" where
  new: "store_reach (empty_store l p)"
| add: "store_reach s \<Longrightarrow> store_reach (snd (store_add b s))"

definition store_inv :: "baseline_store \<Rightarrow> bool" where
  "store_inv s \<longleftrightarrow> om_inv (bs_baselines s) \<and> om_inv (bs_by_path s)
     \<and> length (bs_baselines s) \<le> max_baselines (bs_limits s) \<and> bs_generation_mismatch_refusals s = 0
     \<and> (\<forall>i b. om_find (bs_baselines s) i = Some b \<longrightarrow> bl_id b = i \<and> valid_id i \<and> valid_id (bl_path b)
          \<and> valid_id (bl_generation b) \<and> valid_id (bl_domain b) \<and> bl_revision b \<noteq> 0 \<and> bl_name b \<noteq> []
          \<and> (\<exists>ids. om_find (bs_by_path s) (bl_path b) = Some ids \<and> i \<in> set ids))
     \<and> (\<forall>path ids. om_find (bs_by_path s) path = Some ids \<longrightarrow> distinct ids \<and> ids \<noteq> []
          \<and> (\<forall>i \<in> set ids. \<exists>b. om_find (bs_baselines s) i = Some b \<and> bl_path b = path))"

lemma store_inv_empty: "store_inv (empty_store l p)"
  by (simp add: store_inv_def empty_store_def)

lemma store_add_cases:
  obtains (refused) e where "store_add b s = (Inl e, s)"
  | (stored) b' ids where "store_add b s = (Inr (bl_id b'),
        s\<lparr>bs_by_path := om_set (bl_path b') (ids @ [bl_id b']) (bs_by_path s),
          bs_baselines := om_set (bl_id b') b' (bs_baselines s)\<rparr>)"
      "valid_id (bl_id b')" "valid_id (bl_path b')" "valid_id (bl_generation b')" "valid_id (bl_domain b')"
      "bl_revision b' \<noteq> 0" "bl_name b' \<noteq> []" "om_find (bs_baselines s) (bl_id b') = None"
      "length (bs_baselines s) < max_baselines (bs_limits s)"
      "ids = (case om_find (bs_by_path s) (bl_path b') of None \<Rightarrow> [] | Some ids \<Rightarrow> ids)"
      "bl_path b' = bl_path b" "bl_generation b' = bl_generation b" "bl_domain b' = bl_domain b"
      "bl_revision b' = bl_revision b" "bl_histogram b' = bl_histogram b"
proof -
  define b' where "b' = (identified b)\<lparr>bl_evidence := add_reason AggregateDeterministic [] (bl_evidence (identified b))\<rparr>"
  have same: "bl_path b' = bl_path b" "bl_generation b' = bl_generation b" "bl_domain b' = bl_domain b"
      "bl_revision b' = bl_revision b" "bl_histogram b' = bl_histogram b" "bl_name b' = bl_name b"
      "bl_id b' = bl_id (identified b)" "valid_id (bl_id b')"
    by (simp_all add: b'_def identified_def)
  show thesis
  proof (cases "valid_id (bl_path b) \<and> valid_id (bl_generation b) \<and> valid_id (bl_domain b) \<and> bl_revision b \<noteq> 0
      \<and> bl_name b \<noteq> [] \<and> om_find (bs_baselines s) (bl_id b') = None \<and> length (bs_baselines s) < max_baselines (bs_limits s)")
    case True
    let ?ids = "case om_find (bs_by_path s) (bl_path b') of None \<Rightarrow> [] | Some ids \<Rightarrow> ids"
    have "store_add b s = (Inr (bl_id b'), s\<lparr>bs_by_path := om_set (bl_path b') (?ids @ [bl_id b']) (bs_by_path s),
          bs_baselines := om_set (bl_id b') b' (bs_baselines s)\<rparr>)"
      using True same by (simp add: store_add_def Let_def revision_valid_def b'_def)
    then show thesis by (rule stored) (use True same in simp_all)
  next
    case False
    then have "\<exists>e. store_add b s = (Inl e, s)"
      using same by (auto simp: store_add_def Let_def revision_valid_def fail_def)
    then show thesis using refused by blast
  qed
qed

lemma store_inv_baseline:
  assumes "store_inv s" "om_find (bs_baselines s) i = Some b"
  shows "bl_id b = i" and "valid_id i \<and> valid_id (bl_path b) \<and> valid_id (bl_generation b) \<and> valid_id (bl_domain b)
      \<and> bl_revision b \<noteq> 0 \<and> bl_name b \<noteq> []"
    and "\<exists>ids. om_find (bs_by_path s) (bl_path b) = Some ids \<and> i \<in> set ids"
  using assms unfolding store_inv_def by blast+

lemma store_inv_path:
  assumes "store_inv s" "om_find (bs_by_path s) q = Some ids"
  shows "distinct ids" and "ids \<noteq> []" and "i \<in> set ids \<Longrightarrow> \<exists>b. om_find (bs_baselines s) i = Some b \<and> bl_path b = q"
  using assms unfolding store_inv_def by blast+

lemma store_inv_add: "store_inv s \<Longrightarrow> store_inv (snd (store_add b s))"
proof (cases rule: store_add_cases [of b s])
  case (stored b' ids)
  assume inv: "store_inv s"
  let ?s = "snd (store_add b s)"
  note lookups = om_find_set [of "bs_baselines s"] om_find_set [of "bs_by_path s"]
  have "om_inv (bs_baselines s)" "om_inv (bs_by_path s)" using inv by (simp_all add: store_inv_def)
  then have fb: "om_find (bs_baselines ?s) i = (if i = bl_id b' then Some b' else om_find (bs_baselines s) i)"
    and fp: "om_find (bs_by_path ?s) q = (if q = bl_path b' then Some (ids @ [bl_id b']) else om_find (bs_by_path s) q)"
    and o: "om_inv (bs_baselines ?s)" "om_inv (bs_by_path ?s)"
    and l: "length (bs_baselines ?s) = Suc (length (bs_baselines s))" for i q
    using stored by (simp_all add: lookups om_inv_set om.size_assign_new)
  have fresh: "bl_id b' \<notin> set js" if "om_find (bs_by_path s) q = Some js" for q js
    using store_inv_path(3) [OF inv that, of "bl_id b'"] stored(8) by auto
  have ids: "distinct (ids @ [bl_id b'])" "i \<in> set ids \<Longrightarrow> \<exists>b. om_find (bs_baselines s) i = Some b \<and> bl_path b = bl_path b'" for i
    using store_inv_path(1,3) [OF inv] fresh stored(10) by (auto split: option.splits)
  have base: "bl_id c = i \<and> valid_id i \<and> valid_id (bl_path c) \<and> valid_id (bl_generation c) \<and> valid_id (bl_domain c)
      \<and> bl_revision c \<noteq> 0 \<and> bl_name c \<noteq> [] \<and> (\<exists>js. om_find (bs_by_path ?s) (bl_path c) = Some js \<and> i \<in> set js)"
    if f: "om_find (bs_baselines ?s) i = Some c" for i c
  proof (cases "i = bl_id b'")
    case True
    with f have "c = b'" by (simp add: fb)
    with True stored(2-7) show ?thesis by (simp add: fp)
  next
    case False
    with f have c: "om_find (bs_baselines s) i = Some c" by (simp add: fb)
    obtain js where "om_find (bs_by_path s) (bl_path c) = Some js" "i \<in> set js"
      using store_inv_baseline(3) [OF inv c] by blast
    then show ?thesis using store_inv_baseline(1,2) [OF inv c] stored(10) by (auto simp: fp)
  qed
  have path: "distinct js \<and> js \<noteq> [] \<and> (\<forall>i \<in> set js. \<exists>c. om_find (bs_baselines ?s) i = Some c \<and> bl_path c = q)"
    if f: "om_find (bs_by_path ?s) q = Some js" for q js
  proof (cases "q = bl_path b'")
    case True
    with f ids show ?thesis by (auto simp: fb fp)
  next
    case False
    with f have js: "om_find (bs_by_path s) q = Some js" by (simp add: fp)
    then show ?thesis using store_inv_path [OF inv js] fresh by (auto simp: fb)
  qed
  have "length (bs_baselines ?s) \<le> max_baselines (bs_limits ?s)" "bs_generation_mismatch_refusals ?s = 0"
    using l stored inv by (simp_all add: store_inv_def)
  with o base path show ?thesis unfolding store_inv_def by blast
qed simp

lemma store_reach_inv: "store_reach s \<Longrightarrow> store_inv s"
  by (induction rule: store_reach.induct) (auto intro: store_inv_empty store_inv_add)

definition matches_key :: "generation_id \<Rightarrow> clock_domain_id \<Rightarrow> histogram_spec \<Rightarrow> baseline \<Rightarrow> bool" where
  "matches_key gen cd spec b \<longleftrightarrow> bl_generation b = gen \<and> bl_domain b = cd \<and> bl_histogram b = spec"

text \<open>The baselines a list of identities names.\<close>

definition named_baselines :: "(baseline_id, baseline) omap \<Rightarrow> baseline_id list \<Rightarrow> baseline set" where
  "named_baselines table ids = {b. \<exists>i \<in> set ids. om_find table i = Some b}"

lemma named_baselines_simps [simp]:
  "named_baselines table [] = {}"
  "named_baselines table (i # ids) = set_option (om_find table i) \<union> named_baselines table ids"
  by (auto simp: named_baselines_def)

lemma latest_loop_result:
  "latest_loop table gen cd spec best saw ids = (found, other) \<Longrightarrow>
     (other \<longleftrightarrow> saw \<or> (\<exists>b \<in> named_baselines table ids. bl_generation b \<noteq> gen))
     \<and> (found = None \<longleftrightarrow> best = None \<and> (\<forall>b \<in> named_baselines table ids. \<not> matches_key gen cd spec b))
     \<and> (\<forall>b. found = Some b \<longrightarrow> (best = Some b \<or> b \<in> named_baselines table ids \<and> matches_key gen cd spec b)
          \<and> (\<forall>c. best = Some c \<or> c \<in> named_baselines table ids \<and> matches_key gen cd spec c
               \<longrightarrow> bl_revision c \<le> bl_revision b))"
proof (induction table gen cd spec best saw ids rule: latest_loop.induct)
  case (1 table gen cd spec best saw)
  then show ?case by auto
next
  case (2 table gen cd spec best saw i rest)
  show ?case
  proof (cases "om_find table i")
    case None
    then show ?thesis using 2 by simp
  next
    case (Some b)
    consider "bl_generation b \<noteq> gen" | "bl_generation b = gen" "\<not> matches_key gen cd spec b"
      | "matches_key gen cd spec b" "case best of None \<Rightarrow> True | Some c \<Rightarrow> bl_revision b > bl_revision c"
      | c where "matches_key gen cd spec b" "best = Some c" "bl_revision b \<le> bl_revision c"
      by (cases best) (fastforce simp: matches_key_def not_less)+
    then show ?thesis
    proof cases
      case 1
      then show ?thesis using 2 Some by (auto simp: matches_key_def)
    next
      case 2
      then show ?thesis using "2.prems" "2.IH" Some by (auto simp: matches_key_def)
    next
      case 3
      then show ?thesis using 2 Some
        by (cases best) (auto simp: matches_key_def dest: less_imp_le intro: order.trans [OF less_imp_le])
    next
      case (4 c)
      then have "\<not> bl_revision c < bl_revision b" by (simp add: not_less)
      with 4 show ?thesis using 2 Some by (auto simp: matches_key_def intro: order.trans)
    qed
  qed
qed

lemma registered_by_path:
  assumes "store_inv s" "om_find (bs_by_path s) q = Some ids"
  shows "named_baselines (bs_baselines s) ids = {b \<in> set (list_baselines s). bl_path b = q}"
proof -
  have inv: "om_inv (bs_baselines s)" using assms(1) by (simp add: store_inv_def)
  have reg: "b \<in> set (list_baselines s) \<longleftrightarrow> (\<exists>i. om_find (bs_baselines s) i = Some b)" for b
    using om.find_entries [OF inv] by (force simp: list_baselines_def)
  show ?thesis
  proof (intro set_eqI iffI)
    fix b assume "b \<in> named_baselines (bs_baselines s) ids"
    then obtain i where "i \<in> set ids" "om_find (bs_baselines s) i = Some b" by (auto simp: named_baselines_def)
    with store_inv_path(3) [OF assms] reg show "b \<in> {b \<in> set (list_baselines s). bl_path b = q}" by fastforce
  next
    fix b assume "b \<in> {b \<in> set (list_baselines s). bl_path b = q}"
    then obtain i where "om_find (bs_baselines s) i = Some b" "bl_path b = q" using reg by auto
    with store_inv_baseline(3) [OF assms(1)] assms(2) show "b \<in> named_baselines (bs_baselines s) ids"
      by (fastforce simp: named_baselines_def)
  qed
qed

lemma unregistered_path:
  assumes "store_inv s" "om_find (bs_by_path s) q = None" "b \<in> set (list_baselines s)"
  shows "bl_path b \<noteq> q"
proof -
  have "om_inv (bs_baselines s)" using assms(1) by (simp add: store_inv_def)
  then obtain i where "om_find (bs_baselines s) i = Some b"
    using assms(3) om.find_entries by (force simp: list_baselines_def)
  with store_inv_baseline(3) [OF assms(1)] assms(2) show ?thesis by fastforce
qed

text \<open>The baseline registry answers exactly: in every registry that additions can produce, a lookup by
  path, generation, clock domain and histogram returns a registered baseline of that key with the
  greatest revision among them; it succeeds whenever one is registered; it fails with a conflict when the
  path only has baselines of other generations and with not-found otherwise. The registry never exceeds
  its limit, and its counter of generation refusals stays zero whatever lookups are refused.\<close>
lemma baseline_lookup_exact:
  assumes "store_reach s"
  shows "(\<forall>b. latest_for s q gen cd spec = Inr b \<longrightarrow>
        b \<in> set (list_baselines s) \<and> bl_path b = q \<and> matches_key gen cd spec b
        \<and> (\<forall>c \<in> set (list_baselines s). bl_path c = q \<and> matches_key gen cd spec c \<longrightarrow> bl_revision c \<le> bl_revision b))
    \<and> ((\<exists>b \<in> set (list_baselines s). bl_path b = q \<and> matches_key gen cd spec b)
        \<longleftrightarrow> (\<exists>b. latest_for s q gen cd spec = Inr b))
    \<and> (\<forall>e. latest_for s q gen cd spec = Inl e \<longrightarrow>
        err_code e = (if \<exists>b \<in> set (list_baselines s). bl_path b = q \<and> bl_generation b \<noteq> gen then Conflict else NotFound))
    \<and> length (list_baselines s) \<le> max_baselines (bs_limits s) \<and> bs_generation_mismatch_refusals s = 0"
proof -
  have inv: "store_inv s" by (rule store_reach_inv [OF assms])
  then have size: "length (list_baselines s) \<le> max_baselines (bs_limits s)" "bs_generation_mismatch_refusals s = 0"
    by (simp_all add: store_inv_def list_baselines_def)
  show ?thesis
  proof (cases "om_find (bs_by_path s) q")
    case None
    with size unregistered_path [OF inv None] show ?thesis by (auto simp: latest_for_def)
  next
    case (Some ids)
    obtain found other where l: "latest_loop (bs_baselines s) gen cd spec None False ids = (found, other)" by force
    note r = latest_loop_result [OF l] and n = registered_by_path [OF inv Some]
    show ?thesis
    proof (cases found)
      case None
      with r n size Some l show ?thesis by (cases other) (auto simp: latest_for_def)
    next
      case (Some b)
      with r n size \<open>om_find (bs_by_path s) q = Some ids\<close> l show ?thesis by (auto simp: latest_for_def)
    qed
  qed
qed

section \<open>A sample\<close>

definition sample_distribution :: "nanos \<Rightarrow> distribution" where
  "sample_distribution mean =
     \<lparr>d_count = 10, d_min_ns = Some 1, d_max_ns = Some 9000000000, d_sum_ns = Some (10 * mean), d_mean_ns = Some mean,
      d_mean_remainder_ns = 0, d_sum_overflowed = False, d_histogram = empty_histogram latency_default,
      d_probes = [], d_quantiles = []\<rparr>"

definition sample_summary :: path_summary where
  "sample_summary =
     \<lparr>ps_path = StrongId 1, ps_generation = StrongId 2, ps_domain = StrongId 3, ps_mode = HistoricalMode,
      ps_window = \<lparr>tw_from = \<lparr>ts_ns = 0, ts_domain = StrongId 3\<rparr>, tw_to = \<lparr>ts_ns = 100, ts_domain = StrongId 3\<rparr>\<rparr>,
      ps_as_of = \<lparr>ts_ns = 200, ts_domain = StrongId 3\<rparr>, ps_exchanges_considered = 10, ps_exchanges_included = 10,
      ps_excluded_other_path = 0, ps_excluded_other_generation = 0, ps_excluded_out_of_window = 0,
      ps_excluded_stale = 0, ps_excluded_conflicting = 0, ps_excluded_unsupported = 0, ps_excluded_clock_domain = 0,
      ps_end_to_end = sample_distribution 50000000, ps_hops = [], ps_contributing_sources = [],
      ps_evidence = observed_fresh, ps_policy_digest = []\<rparr>"

definition sample_baseline :: baseline where
  "sample_baseline =
     \<lparr>bl_id = StrongId 7, bl_name = ''reference'', bl_path = StrongId 1, bl_generation = StrongId 2, bl_domain = StrongId 3,
      bl_revision = 1, bl_histogram = latency_default, bl_probes = [], bl_source = StrongId 8, bl_synthetic = False,
      bl_created_at = \<lparr>ts_ns = 150, ts_domain = StrongId 3\<rparr>,
      bl_window = \<lparr>tw_from = \<lparr>ts_ns = 0, ts_domain = StrongId 3\<rparr>, tw_to = \<lparr>ts_ns = 100, ts_domain = StrongId 3\<rparr>\<rparr>,
      bl_exchange_count = 10, bl_end_to_end = sample_distribution 1000000, bl_hops = [], bl_evidence = observed_fresh,
      bl_policy_digest = []\<rparr>"

theorem comparison_applies_exactly_witness:
  "bc_applicable (compare_baseline sample_baseline sample_summary default_runtime_policy)
   \<and> bc_mean_delta_ns (compare_baseline sample_baseline sample_summary default_runtime_policy) = Some 49000000"
proof -
  have a: "baseline_applies sample_baseline sample_summary default_runtime_policy"
    by (simp add: baseline_applies_def sample_baseline_def sample_summary_def sample_distribution_def valid_id_def
        empty_histogram_def observed_fresh_def observed_def default_runtime_policy_def default_freshness_policy_def
        default_anomaly_policy_def)
  have "in_i64 (ts_ns (ps_as_of sample_summary) - ts_ns (bl_created_at sample_baseline))"
    by (simp add: sample_summary_def sample_baseline_def in_i64_iff)
  from comparison_applies_exactly [OF default_policy_ok this] a
  have "bc_applicable (compare_baseline sample_baseline sample_summary default_runtime_policy)"
    "bc_mean_delta_ns (compare_baseline sample_baseline sample_summary default_runtime_policy) = delta (Some 50000000) (Some 1000000)"
    by (simp_all add: sample_summary_def sample_baseline_def sample_distribution_def)
  then show ?thesis by (simp add: delta_exact in_i64_iff)
qed

theorem deviation_statement_witness:
  "an_classification (classify_anomaly (sample_distribution 50000000) (sample_distribution 1000000) 0 no_id default_runtime_policy) = Elevated"
proof -
  have "\<forall>x \<in> set_option (d_mean_ns (sample_distribution 50000000)) \<union> set_option (d_mean_ns (sample_distribution 1000000)).
      in_i64 x \<and> - (2 ^ 62) < x \<and> x < 2 ^ 62"
    by (simp add: sample_distribution_def in_i64_iff)
  from deviation_statement [OF default_policy_ok _ this] show ?thesis
    by (simp add: sample_distribution_def default_runtime_policy_def default_anomaly_policy_def)
qed

lemma baseline_lookup_exact_example:
  "\<exists>b. latest_for (snd (store_add sample_baseline (empty_store default_limits default_runtime_policy)))
      (StrongId 1) (StrongId 2) (StrongId 3) latency_default = Inr b \<and> bl_path b = StrongId 1"
proof -
  let ?s = "snd (store_add sample_baseline (empty_store default_limits default_runtime_policy))"
  have r: "store_reach ?s" by (intro store_reach.intros)
  have "\<exists>b \<in> set (list_baselines ?s). bl_path b = StrongId 1 \<and> matches_key (StrongId 2) (StrongId 3) latency_default b"
    by (simp add: store_add_def empty_store_def sample_baseline_def identified_def valid_id_def revision_valid_def
        default_limits_def list_baselines_def matches_key_def)
  with baseline_lookup_exact [OF r, of "StrongId 1" "StrongId 2" "StrongId 3" latency_default] show ?thesis by blast
qed

end
