(* ===== verification/Core_Json.thy ===== *)
theory Core_Json
  imports Core_Checked
begin

unbundle bit_operations_syntax

text \<open>
  \<^verbatim>\<open>core/json.hpp\<close> and \<^verbatim>\<open>core/json.cpp\<close>: the canonical writer, a state machine over an output buffer
  and two stacks; the bounded parser; and the accessors decoders use. A failed assertion of the
  source aborts the process: an operation that asserts returns None there.
\<close>

section \<open>Values\<close>

text \<open>Numbers are always exact integers: the parser refuses everything else.\<close>

datatype json =
    JNull
  | JBool bool
  | JNumber int
  | JString string
  | JArray "json list"
  | JObject "(string \<times> json) list"

fun is_null :: "json \<Rightarrow> bool" where "is_null JNull = True" | "is_null _ = False"
fun is_object :: "json \<Rightarrow> bool" where "is_object (JObject _) = True" | "is_object _ = False"
fun is_array :: "json \<Rightarrow> bool" where "is_array (JArray _) = True" | "is_array _ = False"
fun is_string :: "json \<Rightarrow> bool" where "is_string (JString _) = True" | "is_string _ = False"

fun as_bool :: "json \<Rightarrow> bool result" where
  "as_bool (JBool b) = Inr b"
| "as_bool _ = fail InvalidArgument ''JSON value is not a boolean'' []"

fun as_int64 :: "json \<Rightarrow> int result" where
  "as_int64 (JNumber n) = Inr n"
| "as_int64 _ = fail InvalidArgument ''JSON value is not a number'' []"

definition as_uint64 :: "json \<Rightarrow> u64 result" where
  "as_uint64 j = try_bind (as_int64 j) (\<lambda>n.
     if n < 0 then fail InvalidArgument ''JSON number is negative where an unsigned value is required'' []
     else Inr (to_u64 n))"

fun as_string :: "json \<Rightarrow> string result" where
  "as_string (JString s) = Inr s"
| "as_string _ = fail InvalidArgument ''JSON value is not a string'' []"

fun as_array :: "json \<Rightarrow> json list result" where
  "as_array (JArray xs) = Inr xs"
| "as_array _ = fail InvalidArgument ''JSON value is not an array'' []"

fun as_object :: "json \<Rightarrow> (string \<times> json) list result" where
  "as_object (JObject ms) = Inr ms"
| "as_object _ = fail InvalidArgument ''JSON value is not an object'' []"

fun json_find :: "json \<Rightarrow> string \<Rightarrow> json option" where
  "json_find (JObject ms) name = map_of ms name"
| "json_find _ name = None"

definition json_require :: "json \<Rightarrow> string \<Rightarrow> json result" where
  "json_require j name =
     (if \<not> is_object j then fail InvalidArgument ''JSON value is not an object'' []
      else case json_find j name of
        None \<Rightarrow> fail NotFound ''required JSON field is missing'' name
      | Some v \<Rightarrow> Inr v)"

fun json_push_back :: "json \<Rightarrow> json \<Rightarrow> json option" where
  "json_push_back v (JArray xs) = Some (JArray (xs @ [v]))"
| "json_push_back v _ = None"

fun json_set :: "string \<Rightarrow> json \<Rightarrow> json \<Rightarrow> json option" where
  "json_set name v (JObject ms) = Some (JObject (ms @ [(name, v)]))"
| "json_set name v _ = None"

definition json_require_string :: "json \<Rightarrow> string \<Rightarrow> string result" where
  "json_require_string j name = try_bind (json_require j name) as_string"

definition json_require_int :: "json \<Rightarrow> string \<Rightarrow> int result" where
  "json_require_int j name = try_bind (json_require j name) as_int64"

definition json_require_uint :: "json \<Rightarrow> string \<Rightarrow> u64 result" where
  "json_require_uint j name = try_bind (json_require j name) as_uint64"

definition json_require_bool :: "json \<Rightarrow> string \<Rightarrow> bool result" where
  "json_require_bool j name = try_bind (json_require j name) as_bool"

definition json_require_object :: "json \<Rightarrow> string \<Rightarrow> json result" where
  "json_require_object j name = try_bind (json_require j name) (\<lambda>v.
     if is_object v then Inr v else fail InvalidArgument ''JSON field is not an object'' name)"

definition json_require_array :: "json \<Rightarrow> string \<Rightarrow> json result" where
  "json_require_array j name = try_bind (json_require j name) (\<lambda>v.
     if is_array v then Inr v else fail InvalidArgument ''JSON field is not an array'' name)"

definition json_optional_int :: "json \<Rightarrow> string \<Rightarrow> int option result" where
  "json_optional_int j name =
     (case json_find j name of
        None \<Rightarrow> Inr None
      | Some v \<Rightarrow> if is_null v then Inr None else try_bind (as_int64 v) (\<lambda>n. Inr (Some n)))"

definition json_optional_uint :: "json \<Rightarrow> string \<Rightarrow> u64 option result" where
  "json_optional_uint j name =
     (case json_find j name of
        None \<Rightarrow> Inr None
      | Some v \<Rightarrow> if is_null v then Inr None else try_bind (as_uint64 v) (\<lambda>n. Inr (Some n)))"

section \<open>The writer\<close>

text \<open>The stacks are lists with the innermost container first.\<close>

record json_writer =
  jw_out :: string
  jw_pretty :: bool
  jw_stack_is_object :: "bool list"
  jw_stack_first :: "bool list"
  jw_value_pending :: bool

type_synonym writer_op = "json_writer \<Rightarrow> json_writer option"

definition new_writer :: "string \<Rightarrow> bool \<Rightarrow> json_writer" where
  "new_writer out pretty = \<lparr>jw_out = out, jw_pretty = pretty, jw_stack_is_object = [],
     jw_stack_first = [], jw_value_pending = False\<rparr>"

definition balanced :: "json_writer \<Rightarrow> bool" where
  "balanced w \<longleftrightarrow> jw_stack_is_object w = []"

definition emit :: "string \<Rightarrow> json_writer \<Rightarrow> json_writer" where
  "emit s w = w\<lparr>jw_out := jw_out w @ s\<rparr>"

definition write_indent :: "json_writer \<Rightarrow> json_writer" where
  "write_indent w =
     (if \<not> jw_pretty w then w
      else emit (CHR 0x0A # replicate (length (jw_stack_is_object w) * 2) CHR '' '') w)"

definition before_value :: "json_writer \<Rightarrow> json_writer" where
  "before_value w =
     (if jw_value_pending w then w\<lparr>jw_value_pending := False\<rparr>
      else case jw_stack_first w of
        [] \<Rightarrow> w
      | first # outer \<Rightarrow>
          write_indent ((if \<not> first then emit '','' w else w)\<lparr>jw_stack_first := False # outer\<rparr>))"

definition begin_container :: "bool \<Rightarrow> string \<Rightarrow> json_writer \<Rightarrow> json_writer" where
  "begin_container object bracket w =
     (let w = emit bracket (before_value w)
      in w\<lparr>jw_stack_is_object := object # jw_stack_is_object w, jw_stack_first := True # jw_stack_first w\<rparr>)"

definition begin_object :: writer_op where "begin_object w = Some (begin_container True ''{'' w)"
definition begin_array :: writer_op where "begin_array w = Some (begin_container False ''['' w)"

definition end_container :: "bool \<Rightarrow> string \<Rightarrow> writer_op" where
  "end_container object bracket w =
     (case (jw_stack_is_object w, jw_stack_first w) of
        (inner # outer, was_empty # outer_first) \<Rightarrow>
          if inner \<noteq> object \<or> jw_value_pending w then None
          else
            (let w = (if \<not> was_empty \<and> jw_pretty w
                      then emit (CHR 0x0A # replicate ((length (jw_stack_is_object w) - 1) * 2) CHR '' '') w else w)
             in Some ((emit bracket w)\<lparr>jw_stack_is_object := outer, jw_stack_first := outer_first\<rparr>))
      | _ \<Rightarrow> None)"

definition end_object :: writer_op where "end_object = end_container True ''}''"
definition end_array :: writer_op where "end_array = end_container False '']''"

definition kDigits :: string where "kDigits = ''0123456789abcdef''"

definition escape_char :: "char \<Rightarrow> string" where
  "escape_char c =
     (if c = CHR 0x22 then [CHR 0x5C, CHR 0x22]
      else if c = CHR 0x5C then [CHR 0x5C, CHR 0x5C]
      else if c = CHR 0x08 then [CHR 0x5C, CHR ''b'']
      else if c = CHR 0x0C then [CHR 0x5C, CHR ''f'']
      else if c = CHR 0x0A then [CHR 0x5C, CHR ''n'']
      else if c = CHR 0x0D then [CHR 0x5C, CHR ''r'']
      else if c = CHR 0x09 then [CHR 0x5C, CHR ''t'']
      else if of_char c < (32 :: nat)
      then [CHR 0x5C, CHR ''u'', CHR ''0'', CHR ''0'', kDigits ! (of_char c div 16), kDigits ! (of_char c mod 16)]
      else [c])"

definition escape :: "string \<Rightarrow> string" where
  "escape text = [CHR 0x22] @ concat (map escape_char text) @ [CHR 0x22]"

definition json_key :: "string \<Rightarrow> writer_op" where
  "json_key name w =
     (case (jw_stack_is_object w, jw_stack_first w) of
        (True # _, first # outer) \<Rightarrow>
          if jw_value_pending w then None
          else
            let w = (if \<not> first then emit '','' w else w)\<lparr>jw_stack_first := False # outer\<rparr>;
                w = emit (escape name @ '':'') (write_indent w);
                w = (if jw_pretty w then emit '' '' w else w)
            in Some (w\<lparr>jw_value_pending := True\<rparr>)
      | _ \<Rightarrow> None)"

definition scalar :: "string \<Rightarrow> writer_op" where
  "scalar text w = Some (emit text (before_value w))"

definition value_string :: "string \<Rightarrow> writer_op" where "value_string s = scalar (escape s)"
definition value_int :: "int \<Rightarrow> writer_op" where "value_int n = scalar (show_int n)"
definition value_uint :: "u64 \<Rightarrow> writer_op" where "value_uint n = scalar (show_nat (unat n))"
definition value_bool :: "bool \<Rightarrow> writer_op" where "value_bool b = scalar (if b then ''true'' else ''false'')"
definition value_null :: writer_op where "value_null = scalar ''null''"

definition raw_value :: "string \<Rightarrow> writer_op" where
  "raw_value canonical w = (if canonical = [] then None else scalar canonical w)"

definition wseq :: "writer_op \<Rightarrow> writer_op \<Rightarrow> writer_op" where
  "wseq f g w = (case f w of None \<Rightarrow> None | Some w \<Rightarrow> g w)"

fun wrun :: "writer_op list \<Rightarrow> writer_op" where
  "wrun [] w = Some w"
| "wrun (f # fs) w = (case f w of None \<Rightarrow> None | Some w \<Rightarrow> wrun fs w)"

definition field_string :: "string \<Rightarrow> string \<Rightarrow> writer_op" where
  "field_string name v = wseq (json_key name) (value_string v)"
definition field_int :: "string \<Rightarrow> int \<Rightarrow> writer_op" where
  "field_int name v = wseq (json_key name) (value_int v)"
definition field_uint :: "string \<Rightarrow> u64 \<Rightarrow> writer_op" where
  "field_uint name v = wseq (json_key name) (value_uint v)"
definition field_bool :: "string \<Rightarrow> bool \<Rightarrow> writer_op" where
  "field_bool name v = wseq (json_key name) (value_bool v)"
definition field_null :: "string \<Rightarrow> writer_op" where
  "field_null name = wseq (json_key name) value_null"
definition field_optional_int :: "string \<Rightarrow> int option \<Rightarrow> writer_op" where
  "field_optional_int name v =
     wseq (json_key name) (case v of Some n \<Rightarrow> value_int n | None \<Rightarrow> value_null)"
definition field_optional_uint :: "string \<Rightarrow> u64 option \<Rightarrow> writer_op" where
  "field_optional_uint name v =
     wseq (json_key name) (case v of Some n \<Rightarrow> value_uint n | None \<Rightarrow> value_null)"
definition field_object :: "string \<Rightarrow> writer_op" where
  "field_object name = wseq (json_key name) begin_object"
definition field_array :: "string \<Rightarrow> writer_op" where
  "field_array name = wseq (json_key name) begin_array"

section \<open>The parser\<close>

text \<open>
  The parser's position is the part of the text still to be read; the position number the error
  context needs is what has been read. Results of the recursive part are None when the fuel runs
  out; \<open>parse_json\<close> starts with enough for every text.
\<close>

definition is_ws :: "char \<Rightarrow> bool" where
  "is_ws c \<longleftrightarrow> c = CHR '' '' \<or> c = CHR 0x09 \<or> c = CHR 0x0A \<or> c = CHR 0x0D"

definition skip_ws :: "string \<Rightarrow> string" where "skip_ws = dropWhile is_ws"

definition parse_context :: "string \<Rightarrow> string \<Rightarrow> string" where
  "parse_context text rest =
     (let position = length text - length rest;
          start = (if position > 16 then position - 16 else 0)
      in ''offset '' @ show_nat position @ '' near '' @ [CHR 0x27] @ take 24 (drop start text) @ [CHR 0x27])"

definition parse_fail :: "string \<Rightarrow> string \<Rightarrow> string \<Rightarrow> 'a result" where
  "parse_fail message text rest = fail ParseError message (parse_context text rest)"

definition quoted :: "char \<Rightarrow> string" where "quoted c = [CHR 0x27, c, CHR 0x27]"

definition to_char :: "u32 \<Rightarrow> char" where "to_char w = char_of (unat w)"

definition append_utf8 :: "u32 \<Rightarrow> string" where
  "append_utf8 cp =
     (if cp \<le> 0x7F then [to_char cp]
      else if cp \<le> 0x7FF then [to_char (0xC0 OR drop_bit 6 cp), to_char (0x80 OR (cp AND 0x3F))]
      else if cp \<le> 0xFFFF
      then [to_char (0xE0 OR drop_bit 12 cp), to_char (0x80 OR (drop_bit 6 cp AND 0x3F)), to_char (0x80 OR (cp AND 0x3F))]
      else [to_char (0xF0 OR drop_bit 18 cp), to_char (0x80 OR (drop_bit 12 cp AND 0x3F)),
            to_char (0x80 OR (drop_bit 6 cp AND 0x3F)), to_char (0x80 OR (cp AND 0x3F))])"

definition json_hex_digit :: "char \<Rightarrow> u32 option" where
  "json_hex_digit c =
     (let n = of_char c :: nat
      in if 48 \<le> n \<and> n \<le> 57 then Some (word_of_nat (n - 48))
         else if 97 \<le> n \<and> n \<le> 102 then Some (word_of_nat (n - 97) + 10)
         else if 65 \<le> n \<and> n \<le> 70 then Some (word_of_nat (n - 65) + 10)
         else None)"

fun hex4_loop :: "u32 \<Rightarrow> string \<Rightarrow> u32 option" where
  "hex4_loop acc [] = Some acc"
| "hex4_loop acc (c # rest) =
     (case json_hex_digit c of None \<Rightarrow> None | Some d \<Rightarrow> hex4_loop (push_bit 4 acc OR d) rest)"

definition parse_hex4 :: "string \<Rightarrow> u32 option" where
  "parse_hex4 rest = (if length rest < 4 then None else hex4_loop 0 (take 4 rest))"

definition simple_escape :: "char \<Rightarrow> char option" where
  "simple_escape c =
     map_of [(CHR 0x22, CHR 0x22), (CHR 0x5C, CHR 0x5C), (CHR ''/'', CHR ''/''), (CHR ''b'', CHR 0x08),
       (CHR ''f'', CHR 0x0C), (CHR ''n'', CHR 0x0A), (CHR ''r'', CHR 0x0D), (CHR ''t'', CHR 0x09)] c"

text \<open>The \<^verbatim>\<open>u\<close> escape: the bytes it stands for and the text after it.\<close>

definition unicode_escape :: "string \<Rightarrow> string \<Rightarrow> (string \<times> string) result" where
  "unicode_escape text rest =
     (case parse_hex4 rest of
        None \<Rightarrow> parse_fail (''invalid '' @ [CHR 0x5C] @ ''u escape in JSON string'') text rest
      | Some cp \<Rightarrow>
          let rest = drop 4 rest
          in if 0xD800 \<le> cp \<and> cp \<le> 0xDBFF then
               (if take 2 rest = [CHR 0x5C, CHR ''u''] then
                  let rest = drop 2 rest
                  in case parse_hex4 rest of
                       None \<Rightarrow> parse_fail ''invalid surrogate pair in JSON string'' text rest
                     | Some low \<Rightarrow>
                         let rest = drop 4 rest
                         in if low < 0xDC00 \<or> low > 0xDFFF
                            then parse_fail ''invalid low surrogate in JSON string'' text rest
                            else Inr (append_utf8 (0x10000 + push_bit 10 (cp - 0xD800) + (low - 0xDC00)), rest)
                else parse_fail ''unpaired high surrogate in JSON string'' text rest)
             else if 0xDC00 \<le> cp \<and> cp \<le> 0xDFFF
             then parse_fail ''unpaired low surrogate in JSON string'' text rest
             else Inr (append_utf8 cp, rest))"

lemma unicode_escape_shorter: "unicode_escape text rest = Inr (s, rest') \<Longrightarrow> length rest' \<le> length rest"
  by (auto simp: unicode_escape_def parse_fail_def Let_def split: option.splits if_splits)

text \<open>The loop of \<^verbatim>\<open>parse_string\<close>, after the opening quote.\<close>

function (sequential) parse_chars :: "string \<Rightarrow> string \<Rightarrow> string \<Rightarrow> (string \<times> string) result" where
  "parse_chars text out [] = parse_fail ''unterminated string in JSON document'' text []"
| "parse_chars text out (c # rest) =
     (if c = CHR 0x22 then Inr (out, rest)
      else if of_char c < (32 :: nat) then parse_fail ''control character in JSON string'' text (c # rest)
      else if c \<noteq> CHR 0x5C then parse_chars text (out @ [c]) rest
      else case rest of
        [] \<Rightarrow> parse_fail ''unterminated escape in JSON string'' text []
      | e # rest \<Rightarrow>
          (case simple_escape e of
             Some d \<Rightarrow> parse_chars text (out @ [d]) rest
           | None \<Rightarrow>
               if e = CHR ''u'' then
                 (case unicode_escape text rest of
                    Inl er \<Rightarrow> Inl er
                  | Inr (s, rest) \<Rightarrow> parse_chars text (out @ s) rest)
               else parse_fail ''unknown escape sequence in JSON string'' text rest))"
  by pat_completeness auto

termination parse_chars
  by (relation "measure (\<lambda>(_, _, rest). length rest)") (auto dest: unicode_escape_shorter)

definition parse_string :: "string \<Rightarrow> string \<Rightarrow> (string \<times> string) result" where
  "parse_string text rest = parse_chars text [] rest"

definition skip_digits :: "string \<Rightarrow> string" where "skip_digits = dropWhile is_digit"

definition number_fraction :: "string \<Rightarrow> string \<Rightarrow> (bool \<times> string) result" where
  "number_fraction text rest =
     (case rest of
        c # r \<Rightarrow>
          if c = CHR ''.'' then
            (if skip_digits r = r then parse_fail ''number fraction has no digits'' text r
             else Inr (False, skip_digits r))
          else Inr (True, rest)
      | [] \<Rightarrow> Inr (True, rest))"

definition number_exponent :: "string \<Rightarrow> string \<Rightarrow> (bool \<times> string) result" where
  "number_exponent text rest =
     (case rest of
        c # r \<Rightarrow>
          if c = CHR ''e'' \<or> c = CHR ''E'' then
            let r = (case r of d # r' \<Rightarrow> if d = CHR ''+'' \<or> d = CHR ''-'' then r' else r | [] \<Rightarrow> r)
            in if skip_digits r = r then parse_fail ''number exponent has no digits'' text r
               else Inr (False, skip_digits r)
          else Inr (True, rest)
      | [] \<Rightarrow> Inr (True, rest))"

definition parse_number :: "string \<Rightarrow> string \<Rightarrow> (json \<times> string) result" where
  "parse_number text start =
     (let r = (case start of c # r \<Rightarrow> if c = CHR ''-'' then r else start | [] \<Rightarrow> start)
      in if skip_digits r = r then parse_fail ''number has no digits'' text r
         else try_bind (number_fraction text (skip_digits r)) (\<lambda>(integral, r).
           try_bind (number_exponent text r) (\<lambda>(integral', r).
             let literal = take (length start - length r) start;
                 out_of_range = fail OutOfRange ''JSON number is not an exact 64-bit integer'' literal
             in if integral \<and> integral' \<and> length literal \<le> 20
                then case parse_i64 literal of Some n \<Rightarrow> Inr (JNumber n, r) | None \<Rightarrow> out_of_range
                else out_of_range)))"

definition parse_literal :: "string \<Rightarrow> json \<Rightarrow> string \<Rightarrow> string \<Rightarrow> (json \<times> string) result" where
  "parse_literal literal v text rest =
     (if take (length literal) rest \<noteq> literal then parse_fail ''invalid JSON literal'' text rest
      else Inr (v, drop (length literal) rest))"

definition parse_scalar :: "string \<Rightarrow> char \<Rightarrow> string \<Rightarrow> (json \<times> string) result" where
  "parse_scalar text c rest =
     (if c = CHR 0x22 then try_bind (parse_string text rest) (\<lambda>(s, r). Inr (JString s, r))
      else if c = CHR ''t'' then parse_literal ''true'' (JBool True) text (c # rest)
      else if c = CHR ''f'' then parse_literal ''false'' (JBool False) text (c # rest)
      else if c = CHR ''n'' then parse_literal ''null'' JNull text (c # rest)
      else if c = CHR ''-'' \<or> is_digit c then parse_number text (c # rest)
      else parse_fail ''unexpected character in JSON document'' text (c # rest))"

text \<open>
  The two loops of \<^verbatim>\<open>parse_object\<close> and \<^verbatim>\<open>parse_array\<close>, cut at their calls of \<^verbatim>\<open>parse_value\<close>: what comes
  before a member's value (its key, and the text at the value) and what comes after an item (whether
  another one follows).
\<close>

definition member_key :: "string \<Rightarrow> (string \<times> json) list \<Rightarrow> string \<Rightarrow> (string \<times> string) result" where
  "member_key text ms rest =
     (case skip_ws rest of
        [] \<Rightarrow> parse_fail ''expected an object key'' text []
      | q # r \<Rightarrow>
          if q \<noteq> CHR 0x22 then parse_fail ''expected an object key'' text (q # r)
          else try_bind (parse_string text r) (\<lambda>(name, r).
            if json_find (JObject ms) name \<noteq> None
            then fail ParseError ''duplicate object key in JSON document'' name
            else case skip_ws r of
              [] \<Rightarrow> parse_fail (''expected '' @ quoted CHR '':'' @ '' after an object key'') text []
            | k # r \<Rightarrow>
                if k \<noteq> CHR '':''
                then parse_fail (''expected '' @ quoted CHR '':'' @ '' after an object key'') text (k # r)
                else Inr (name, skip_ws r)))"

definition after_item :: "string \<Rightarrow> char \<Rightarrow> string \<Rightarrow> string \<Rightarrow> (bool \<times> string) result" where
  "after_item kind close text rest =
     (case skip_ws rest of
        [] \<Rightarrow> parse_fail (''unterminated '' @ kind @ '' in JSON document'') text []
      | d # r \<Rightarrow>
          if d = CHR '','' then Inr (True, r)
          else if d = close then Inr (False, r)
          else parse_fail (''expected '' @ quoted CHR '','' @ '' or '' @ quoted close @ '' in JSON '' @ kind) text (d # r))"

definition opens_empty :: "char \<Rightarrow> string \<Rightarrow> bool" where
  "opens_empty close rest \<longleftrightarrow> take 1 rest = [close]"

text \<open>
  The loops take the call of \<^verbatim>\<open>parse_value\<close> for their items as an argument. Every round consumes at least a
  character, so one unit of fuel per character of the rest is enough (\<open>parse_terminates\<close> below).
\<close>

type_synonym value_parser = "string \<Rightarrow> (json \<times> string) result option"

fun parse_members :: "value_parser \<Rightarrow> string \<Rightarrow> nat \<Rightarrow> (string \<times> json) list \<Rightarrow> value_parser" where
  "parse_members pv text 0 ms rest = None"
| "parse_members pv text (Suc n) ms rest =
     (case member_key text ms rest of
        Inl e \<Rightarrow> Some (Inl e)
      | Inr (name, r) \<Rightarrow>
          (case pv r of
             None \<Rightarrow> None
           | Some (Inl e) \<Rightarrow> Some (Inl e)
           | Some (Inr (v, r)) \<Rightarrow>
               (case after_item ''object'' CHR ''}'' text r of
                  Inl e \<Rightarrow> Some (Inl e)
                | Inr (again, r) \<Rightarrow>
                    if again then parse_members pv text n (ms @ [(name, v)]) r
                    else Some (Inr (JObject (ms @ [(name, v)]), r)))))"

fun parse_items :: "value_parser \<Rightarrow> string \<Rightarrow> nat \<Rightarrow> json list \<Rightarrow> value_parser" where
  "parse_items pv text 0 xs rest = None"
| "parse_items pv text (Suc n) xs rest =
     (case pv (skip_ws rest) of
        None \<Rightarrow> None
      | Some (Inl e) \<Rightarrow> Some (Inl e)
      | Some (Inr (v, r)) \<Rightarrow>
          (case after_item ''array'' CHR '']'' text r of
             Inl e \<Rightarrow> Some (Inl e)
           | Inr (again, r) \<Rightarrow>
               if again then parse_items pv text n (xs @ [v]) r
               else Some (Inr (JArray (xs @ [v]), r))))"

definition parse_object :: "value_parser \<Rightarrow> string \<Rightarrow> value_parser" where
  "parse_object pv text rest =
     (let rest = skip_ws rest
      in if opens_empty CHR ''}'' rest then Some (Inr (JObject [], drop 1 rest))
         else parse_members pv text (Suc (length rest)) [] rest)"

definition parse_array :: "value_parser \<Rightarrow> string \<Rightarrow> value_parser" where
  "parse_array pv text rest =
     (let rest = skip_ws rest
      in if opens_empty CHR '']'' rest then Some (Inr (JArray [], drop 1 rest))
         else parse_items pv text (Suc (length rest)) [] rest)"

function parse_value :: "string \<Rightarrow> nat \<Rightarrow> nat \<Rightarrow> value_parser" where
  "parse_value text max_depth depth rest =
     (if depth > max_depth then Some (fail OutOfRange ''JSON nesting exceeds the configured depth limit'' [])
      else case rest of
        [] \<Rightarrow> Some (parse_fail ''unexpected end of JSON document'' text rest)
      | c # r \<Rightarrow>
          if c = CHR ''{'' then parse_object (\<lambda>r. parse_value text max_depth (depth + 1) r) text r
          else if c = CHR ''['' then parse_array (\<lambda>r. parse_value text max_depth (depth + 1) r) text r
          else Some (parse_scalar text c r))"
  by pat_completeness auto

termination parse_value
  by (relation "measure (\<lambda>(_, max_depth, depth, _). Suc max_depth - depth)") auto

declare parse_value.simps [simp del]

definition parse_json :: "string \<Rightarrow> nat \<Rightarrow> json result option" where
  "parse_json text max_depth =
     (case parse_value text max_depth 0 (skip_ws text) of
        None \<Rightarrow> None
      | Some (Inl e) \<Rightarrow> Some (Inl e)
      | Some (Inr (v, rest)) \<Rightarrow>
          (let rest = skip_ws rest
           in if rest \<noteq> [] then Some (parse_fail ''trailing content after the JSON document'' text rest)
              else Some (Inr v)))"

section \<open>The parser terminates\<close>

text \<open>A parser of values that always returns and, when it succeeds, has consumed something.\<close>

definition consumes :: "value_parser \<Rightarrow> bool" where
  "consumes pv \<longleftrightarrow> (\<forall>r. pv r \<noteq> None \<and> (\<forall>v r'. pv r = Some (Inr (v, r')) \<longrightarrow> length r' < length r))"

lemma skip_ws_shorter: "length (skip_ws r) \<le> length r"
  by (simp add: skip_ws_def length_dropWhile_le)

lemma skip_digits_shorter: "length (skip_digits r) \<le> length r"
  by (simp add: skip_digits_def length_dropWhile_le)

lemma skip_ws_Cons_shorter: "skip_ws r = c # r' \<Longrightarrow> length r' < length r"
  using skip_ws_shorter [of r] by simp

lemma skip_digits_less: "skip_digits r \<noteq> r \<Longrightarrow> length (skip_digits r) < length r"
  unfolding skip_digits_def by (cases r) (auto simp: less_Suc_eq_le length_dropWhile_le split: if_splits)

lemma parse_fail_not_Inr [simp]: "parse_fail m text r \<noteq> Inr x" "Inr x \<noteq> parse_fail m text r"
  by (simp_all add: parse_fail_def)

lemma parse_chars_shorter: "parse_chars t out r = Inr (s, r') \<Longrightarrow> length r' < length r"
proof (induction t out r rule: parse_chars.induct)
  case (1 t out)
  then show ?case by simp
next
  case (2 t out c rest)
  show ?case
  proof (cases "c = CHR 0x22 \<or> of_char c < (32 :: nat) \<or> c \<noteq> CHR 0x5C \<or> rest = []")
    case True
    with "2.prems" "2.IH"(1) show ?thesis by (auto split: if_splits)
  next
    case False
    then obtain e rest' where r: "rest = e # rest'" and c: "c = CHR 0x5C" by (cases rest) auto
    show ?thesis
    proof (cases "simple_escape e")
      case (Some d)
      with "2.prems" "2.IH"(3) [OF _ _ _ r Some] c r show ?thesis by auto
    next
      case None
      with "2.prems" c r obtain s' r'' where "e = CHR ''u''" and u: "unicode_escape t rest' = Inr (s', r'')"
        and p: "parse_chars t (out @ s') r'' = Inr (s, r')"
        by (auto split: if_splits sum.splits)
      then have "length r' < length r''" using "2.IH"(2) [OF _ _ _ r None _ u] c by auto
      with unicode_escape_shorter [OF u] r show ?thesis by simp
    qed
  qed
qed

lemma skip_ws_bound: "length r < n \<Longrightarrow> length (skip_ws r) < n"
  using skip_ws_shorter [of r] by simp

lemma member_key_shorter: "member_key text ms r = Inr (name, r') \<Longrightarrow> length r' < length r"
  by (auto simp: member_key_def parse_string_def try_bind_def split: list.splits if_splits sum.splits
      dest!: skip_ws_Cons_shorter parse_chars_shorter intro!: skip_ws_bound)

lemma after_item_shorter: "after_item kind close text r = Inr (b, r') \<Longrightarrow> length r' < length r"
  by (auto simp: after_item_def split: list.splits if_splits dest: skip_ws_Cons_shorter)

lemma number_fraction_shorter: "number_fraction text r = Inr (b, r') \<Longrightarrow> length r' \<le> length r"
  using skip_digits_shorter by (auto simp: number_fraction_def le_SucI split: list.splits if_splits)

lemma number_exponent_shorter: "number_exponent text r = Inr (b, r') \<Longrightarrow> length r' \<le> length r"
  by (auto simp: number_exponent_def Let_def le_SucI intro: le_trans [OF skip_digits_shorter]
      split: list.splits if_splits)

lemma parse_number_shorter: "parse_number text r = Inr (v, r') \<Longrightarrow> length r' < length r"
  by (auto simp: parse_number_def Let_def try_bind_def split: list.splits if_splits sum.splits option.splits
      dest!: number_fraction_shorter number_exponent_shorter skip_digits_less)

lemma parse_scalar_shorter: "parse_scalar text c r = Inr (v, r') \<Longrightarrow> length r' \<le> length r"
  by (auto simp: parse_scalar_def parse_literal_def parse_string_def try_bind_def split: if_splits sum.splits
      dest: parse_chars_shorter parse_number_shorter)

lemma consumesD: "consumes pv \<Longrightarrow> pv r = Some (Inr (v, r')) \<Longrightarrow> length r' < length r" "consumes pv \<Longrightarrow> pv r \<noteq> None"
  by (auto simp: consumes_def)

lemma parse_members_consumes:
  assumes "consumes pv"
  shows "length rest < n \<Longrightarrow> parse_members pv text n ms rest \<noteq> None
    \<and> (\<forall>v r. parse_members pv text n ms rest = Some (Inr (v, r)) \<longrightarrow> length r < length rest)"
proof (induction n arbitrary: ms rest)
  case (Suc n)
  show ?case
  proof (cases "member_key text ms rest")
    case (Inr nr)
    obtain name r where nr: "nr = (name, r)" by (cases nr)
    with Inr have k: "length r < length rest" by (simp add: member_key_shorter)
    show ?thesis
    proof (cases "\<exists>v r'. pv r = Some (Inr (v, r'))")
      case True
      then obtain v r' where p: "pv r = Some (Inr (v, r'))" by blast
      show ?thesis
      proof (cases "after_item ''object'' CHR ''}'' text r'")
        case (Inr br)
        obtain again r'' where br: "br = (again, r'')" by (cases br)
        with Inr have "length r'' < length rest"
          using k consumesD(1) [OF assms p] after_item_shorter by fastforce
        then show ?thesis
          using Suc.IH [of r'' "ms @ [(name, v)]"] Suc.prems \<open>member_key text ms rest = Inr nr\<close> nr p Inr br by auto
      qed (simp add: Inr nr p)
    next
      case False
      with consumesD(2) [OF assms, of r] show ?thesis using Inr nr
        by (auto split: option.splits sum.splits)
    qed
  qed simp
qed simp

lemma parse_items_consumes:
  assumes "consumes pv"
  shows "length rest < n \<Longrightarrow> parse_items pv text n xs rest \<noteq> None
    \<and> (\<forall>v r. parse_items pv text n xs rest = Some (Inr (v, r)) \<longrightarrow> length r < length rest)"
proof (induction n arbitrary: xs rest)
  case (Suc n)
  show ?case
  proof (cases "\<exists>v r'. pv (skip_ws rest) = Some (Inr (v, r'))")
    case True
    then obtain v r' where p: "pv (skip_ws rest) = Some (Inr (v, r'))" by blast
    show ?thesis
    proof (cases "after_item ''array'' CHR '']'' text r'")
      case (Inr br)
      obtain again r'' where br: "br = (again, r'')" by (cases br)
      with Inr have "length r'' < length rest"
        using skip_ws_shorter [of rest] consumesD(1) [OF assms p] after_item_shorter by fastforce
      then show ?thesis
        using Suc.IH [of r'' "xs @ [v]"] Suc.prems p Inr br by auto
    qed (simp add: p)
  next
    case False
    with consumesD(2) [OF assms, of "skip_ws rest"] show ?thesis
      by (auto split: option.splits sum.splits)
  qed
qed simp

lemma parse_object_consumes:
  assumes "consumes pv"
  shows "parse_object pv text rest \<noteq> None
    \<and> (\<forall>v r. parse_object pv text rest = Some (Inr (v, r)) \<longrightarrow> length r \<le> length rest)"
  using parse_members_consumes [OF assms, of "skip_ws rest" "Suc (length (skip_ws rest))" "text" "[]"]
    skip_ws_shorter [of rest]
  by (fastforce simp: parse_object_def Let_def split: if_splits simp del: parse_members.simps)

lemma parse_array_consumes:
  assumes "consumes pv"
  shows "parse_array pv text rest \<noteq> None
    \<and> (\<forall>v r. parse_array pv text rest = Some (Inr (v, r)) \<longrightarrow> length r \<le> length rest)"
  using parse_items_consumes [OF assms, of "skip_ws rest" "Suc (length (skip_ws rest))" "text" "[]"]
    skip_ws_shorter [of rest]
  by (fastforce simp: parse_array_def Let_def split: if_splits simp del: parse_items.simps)

lemma parse_value_consumes: "consumes (parse_value text max_depth depth)"
proof (induction "Suc max_depth - depth" arbitrary: depth)
  case 0
  then show ?case by (simp add: consumes_def parse_value.simps [of _ _ depth])
next
  case (Suc k)
  then have IH: "consumes (parse_value text max_depth (depth + 1))" by simp
  have "parse_value text max_depth depth r \<noteq> None
    \<and> (\<forall>v r'. parse_value text max_depth depth r = Some (Inr (v, r')) \<longrightarrow> length r' < length r)" for r
    using parse_object_consumes [OF IH, of "text"] parse_array_consumes [OF IH, of "text"] parse_scalar_shorter [of "text"]
    by (auto simp: parse_value.simps [of _ _ depth] less_Suc_eq_le split: list.splits)
  then show ?case by (simp add: consumes_def)
qed

section \<open>What the parser produces\<close>

lemma item_size: "x \<in> set xs \<Longrightarrow> size x < Suc (size_list size xs)"
  by (induction xs) auto

lemma member_size: "m \<in> set ms \<Longrightarrow> size (snd m) < Suc (size_list (size_prod (\<lambda>x. 0) size) ms)"
  by (induction ms) auto

text \<open>
  A document decoders may rely on: numbers are 64-bit, no object has two members of one name, and
  no value lies deeper than the limit.
\<close>

function json_ok :: "nat \<Rightarrow> json \<Rightarrow> bool" where
  "json_ok d JNull = True"
| "json_ok d (JBool b) = True"
| "json_ok d (JNumber n) = in_i64 n"
| "json_ok d (JString s) = True"
| "json_ok d (JArray xs) = (\<forall>x \<in> set xs. 0 < d \<and> json_ok (d - 1) x)"
| "json_ok d (JObject ms) = (distinct (map fst ms) \<and> (\<forall>m \<in> set ms. 0 < d \<and> json_ok (d - 1) (snd m)))"
  by pat_completeness auto

termination json_ok
  by (relation "measure (\<lambda>(_, j). size j)") (use item_size member_size in fastforce)+

definition yields :: "(json \<Rightarrow> bool) \<Rightarrow> value_parser \<Rightarrow> bool" where
  "yields P pv \<longleftrightarrow> (\<forall>r v r'. pv r = Some (Inr (v, r')) \<longrightarrow> P v)"

lemma yieldsD: "yields P pv \<Longrightarrow> pv r = Some (Inr (v, r')) \<Longrightarrow> P v"
  by (auto simp: yields_def)

lemma parse_number_ok: "parse_number text r = Inr (v, r') \<Longrightarrow> json_ok d v"
  by (auto simp: parse_number_def Let_def try_bind_def split: list.splits if_splits sum.splits option.splits
      dest!: parse_i64_range)

lemma parse_scalar_ok: "parse_scalar text c r = Inr (v, r') \<Longrightarrow> json_ok d v"
  by (auto simp: parse_scalar_def parse_literal_def try_bind_def split: if_splits sum.splits
      dest: parse_number_ok)

lemma member_key_fresh: "member_key text ms rest = Inr (name, r) \<Longrightarrow> name \<notin> fst ` set ms"
  unfolding map_of_eq_None_iff [symmetric]
  by (auto simp: member_key_def try_bind_def simp del: map_of_eq_None_iff split: list.splits if_splits sum.splits)

lemma parse_members_yields:
  assumes "yields P pv"
  shows "distinct (map fst ms) \<Longrightarrow> \<forall>m \<in> set ms. P (snd m)
    \<Longrightarrow> parse_members pv text n ms rest = Some (Inr (v, r))
    \<Longrightarrow> \<exists>ms'. v = JObject ms' \<and> distinct (map fst ms') \<and> (\<forall>m \<in> set ms'. P (snd m))"
proof (induction n arbitrary: ms rest)
  case (Suc n)
  from Suc.prems(3) obtain name r1 u r2 again r3
    where k: "member_key text ms rest = Inr (name, r1)" and p: "pv r1 = Some (Inr (u, r2))"
      and a: "after_item ''object'' CHR ''}'' text r2 = Inr (again, r3)"
    by (auto split: sum.splits option.splits)
  have ok: "distinct (map fst (ms @ [(name, u)]))" "\<forall>m \<in> set (ms @ [(name, u)]). P (snd m)"
    using Suc.prems(1,2) member_key_fresh [OF k] yieldsD [OF assms p] by auto
  show ?case
  proof (cases again)
    case True
    with Suc.prems(3) k p a show ?thesis by (intro Suc.IH [OF ok]) simp
  next
    case False
    with Suc.prems(3) k p a have "v = JObject (ms @ [(name, u)])" by simp
    with ok show ?thesis by blast
  qed
qed simp

lemma parse_items_yields:
  assumes "yields P pv"
  shows "\<forall>x \<in> set xs. P x \<Longrightarrow> parse_items pv text n xs rest = Some (Inr (v, r))
    \<Longrightarrow> \<exists>xs'. v = JArray xs' \<and> (\<forall>x \<in> set xs'. P x)"
proof (induction n arbitrary: xs rest)
  case (Suc n)
  from Suc.prems(2) obtain u r2 again r3
    where p: "pv (skip_ws rest) = Some (Inr (u, r2))"
      and a: "after_item ''array'' CHR '']'' text r2 = Inr (again, r3)"
    by (auto split: sum.splits option.splits)
  have ok: "\<forall>x \<in> set (xs @ [u]). P x"
    using Suc.prems(1) yieldsD [OF assms p] by auto
  show ?case
  proof (cases again)
    case True
    with Suc.prems(2) p a show ?thesis by (intro Suc.IH [OF ok]) simp
  next
    case False
    with Suc.prems(2) p a have "v = JArray (xs @ [u])" by simp
    with ok show ?thesis by blast
  qed
qed simp

lemma parse_object_yields:
  assumes "yields P pv" and "parse_object pv text rest = Some (Inr (v, r))"
  shows "\<exists>ms. v = JObject ms \<and> distinct (map fst ms) \<and> (\<forall>m \<in> set ms. P (snd m))"
  using assms(2) parse_members_yields [OF assms(1), of "[]"]
  by (auto simp: parse_object_def Let_def simp del: parse_members.simps split: if_splits)

lemma parse_array_yields:
  assumes "yields P pv" and "parse_array pv text rest = Some (Inr (v, r))"
  shows "\<exists>xs. v = JArray xs \<and> (\<forall>x \<in> set xs. P x)"
  using assms(2) parse_items_yields [OF assms(1), of "[]"]
  by (auto simp: parse_array_def Let_def simp del: parse_items.simps split: if_splits)

lemma parse_value_ok:
  "parse_value text max_depth depth r = Some (Inr (v, r')) \<Longrightarrow> json_ok (max_depth - depth) v"
proof (induction "Suc max_depth - depth" arbitrary: depth r v r')
  case 0
  then show ?case by (simp add: parse_value.simps [of _ _ depth])
next
  case (Suc k)
  let ?P = "\<lambda>u. 0 < max_depth - depth \<and> json_ok (max_depth - depth - 1) u"
  let ?pv = "parse_value text max_depth (depth + 1)"
  have IH: "yields ?P ?pv"
    unfolding yields_def
  proof (intro allI impI)
    fix r v r' assume p: "?pv r = Some (Inr (v, r'))"
    then have "\<not> depth + 1 > max_depth" by (auto simp: parse_value.simps [of _ _ "Suc depth"])
    moreover have "json_ok (max_depth - (depth + 1)) v" using p Suc.hyps by (intro Suc.hyps(1)) auto
    ultimately show "?P v" by simp
  qed
  from Suc.hyps(2) have d: "\<not> depth > max_depth" by simp
  with Suc.prems obtain c rest where r: "r = c # rest" by (cases r) (auto simp: parse_value.simps [of _ _ depth])
  with Suc.prems d consider "parse_object ?pv text rest = Some (Inr (v, r'))"
    | "parse_array ?pv text rest = Some (Inr (v, r'))" | "parse_scalar text c rest = Inr (v, r')"
    by (auto simp: parse_value.simps [of _ _ depth] split: if_splits)
  then show ?case
    using parse_object_yields [OF IH] parse_array_yields [OF IH] parse_scalar_ok by cases fastforce+
qed

text \<open>C23: \<^verbatim>\<open>parse_json\<close> returns on every text, whatever bytes it holds and whatever the depth limit is: its
  loops never run out of text without ending in a value or an error.
\<close>

theorem parse_json_terminates: "\<exists>result. parse_json text max_depth = Some result"
  using consumesD(2) [OF parse_value_consumes [of "text" max_depth 0], of "skip_ws text"]
  by (auto simp: parse_json_def Let_def split: option.splits sum.splits)

text \<open>C9: what \<^verbatim>\<open>parse_json\<close> accepts is a document decoders may rely on: every number is a 64-bit
  integer, no object holds two members of one name, and no value is nested deeper than the limit.
\<close>

theorem parse_json_well_typed:
  assumes "parse_json text max_depth = Some (Inr v)"
  shows "json_ok max_depth v"
proof -
  from assms obtain r where "parse_value text max_depth 0 (skip_ws text) = Some (Inr (v, r))"
    by (auto simp: parse_json_def Let_def split: option.splits sum.splits if_splits)
  then show ?thesis using parse_value_ok [of "text" max_depth 0] by simp
qed

theorem parse_json_well_typed_witness:
  "json_ok 2 (JObject [(''a'', JArray [JNumber (- 1), JNull]), (''b'', JString ''x'')])"
proof -
  have "parse_json (''{ '' @ [CHR 0x22] @ ''a'' @ [CHR 0x22] @ '' : [-1, null], '' @ [CHR 0x22] @ ''b'' @ [CHR 0x22] @ '':''
      @ [CHR 0x22] @ ''x'' @ [CHR 0x22] @ ''} '') 2
    = Some (Inr (JObject [(''a'', JArray [JNumber (- 1), JNull]), (''b'', JString ''x'')]))"
    by code_simp
  then show ?thesis by (rule parse_json_well_typed)
qed

section \<open>The writer refines a pure rendering\<close>

text \<open>
  The text of a value at a nesting level, compact or indented, as a function of the value alone.
\<close>

definition line_break :: "bool \<Rightarrow> nat \<Rightarrow> string" where
  "line_break pretty level = (if pretty then CHR 0x0A # replicate (level * 2) CHR '' '' else [])"

definition separator :: "bool \<Rightarrow> string" where
  "separator first = (if first then [] else '','')"

definition render_key :: "bool \<Rightarrow> string \<Rightarrow> string" where
  "render_key pretty name = escape name @ '':'' @ (if pretty then '' '' else [])"

fun render :: "bool \<Rightarrow> nat \<Rightarrow> json \<Rightarrow> string"
  and render_items :: "bool \<Rightarrow> nat \<Rightarrow> bool \<Rightarrow> json list \<Rightarrow> string"
  and render_members :: "bool \<Rightarrow> nat \<Rightarrow> bool \<Rightarrow> (string \<times> json) list \<Rightarrow> string"
where
  "render pretty level JNull = ''null''"
| "render pretty level (JBool b) = (if b then ''true'' else ''false'')"
| "render pretty level (JNumber n) = show_int n"
| "render pretty level (JString s) = escape s"
| "render pretty level (JArray xs) =
     ''['' @ render_items pretty (Suc level) True xs @ (if xs = [] then [] else line_break pretty level) @ '']''"
| "render pretty level (JObject ms) =
     ''{'' @ render_members pretty (Suc level) True ms @ (if ms = [] then [] else line_break pretty level) @ ''}''"
| "render_items pretty level first [] = []"
| "render_items pretty level first (x # xs) =
     separator first @ line_break pretty level @ render pretty level x @ render_items pretty level False xs"
| "render_members pretty level first [] = []"
| "render_members pretty level first ((name, v) # ms) =
     separator first @ line_break pretty level @ render_key pretty name @ render pretty level v
       @ render_members pretty level False ms"

text \<open>The calls of the writer's operations that emit a value.\<close>

fun write_value :: "json \<Rightarrow> writer_op"
  and write_items :: "json list \<Rightarrow> writer_op"
  and write_members :: "(string \<times> json) list \<Rightarrow> writer_op"
where
  "write_value JNull w = value_null w"
| "write_value (JBool b) w = value_bool b w"
| "write_value (JNumber n) w = value_int n w"
| "write_value (JString s) w = value_string s w"
| "write_value (JArray xs) w = wseq begin_array (wseq (\<lambda>w. write_items xs w) end_array) w"
| "write_value (JObject ms) w = wseq begin_object (wseq (\<lambda>w. write_members ms w) end_object) w"
| "write_items [] w = Some w"
| "write_items (x # xs) w = wseq (\<lambda>w. write_value x w) (\<lambda>w. write_items xs w) w"
| "write_members [] w = Some w"
| "write_members ((name, v) # ms) w =
     wseq (json_key name) (wseq (\<lambda>w. write_value v w) (\<lambda>w. write_members ms w)) w"

lemmas writer_defs = emit_def write_indent_def before_value_def begin_container_def begin_object_def begin_array_def
  end_container_def end_object_def end_array_def json_key_def scalar_def value_null_def value_bool_def
  value_int_def value_string_def wseq_def line_break_def separator_def render_key_def Let_def

lemma write_value_render:
  "write_value v w = Some (emit (render (jw_pretty w) (length (jw_stack_is_object w)) v) (before_value w))"
  "jw_stack_is_object w = False # outer \<Longrightarrow> jw_stack_first w = first # outer_first \<Longrightarrow> \<not> jw_value_pending w \<Longrightarrow>
   write_items xs w = Some ((emit (render_items (jw_pretty w) (length (jw_stack_is_object w)) first xs) w)
     \<lparr>jw_stack_first := (first \<and> xs = []) # outer_first\<rparr>)"
  "jw_stack_is_object w = True # outer \<Longrightarrow> jw_stack_first w = first # outer_first \<Longrightarrow> \<not> jw_value_pending w \<Longrightarrow>
   write_members ms w = Some ((emit (render_members (jw_pretty w) (length (jw_stack_is_object w)) first ms) w)
     \<lparr>jw_stack_first := (first \<and> ms = []) # outer_first\<rparr>)"
proof (induction v w and xs w and ms w arbitrary: and outer first outer_first and outer first outer_first
    rule: write_value_write_items_write_members.induct)
  case (5 xs w)
  then show ?case by (simp add: writer_defs split: list.splits)
next
  case (6 ms w)
  then show ?case by (simp add: writer_defs split: list.splits)
next
  case (8 x xs w)
  then show ?case by (simp add: writer_defs)
next
  case (10 name v ms w)
  then show ?case by (simp add: writer_defs)
qed (simp_all add: writer_defs)

section \<open>The parser reads back what the writer writes\<close>

subsection \<open>Strings\<close>

lemma control_escapes:
  "\<forall>n \<in> set [0..<32]. parse_hex4 ([CHR ''0'', CHR ''0'', kDigits ! (n div 16), kDigits ! (n mod 16)]) = Some (word_of_nat n)
     \<and> append_utf8 (word_of_nat n) = [char_of n] \<and> \<not> (0xD800 \<le> (word_of_nat n :: u32)) \<and> \<not> (0xDC00 \<le> (word_of_nat n :: u32))"
  by (simp add: upt_rec kDigits_def parse_hex4_def json_hex_digit_def append_utf8_def to_char_def Let_def word_le_nat_alt)

lemma parse_hex4_append: "length s = 4 \<Longrightarrow> parse_hex4 (s @ rest) = parse_hex4 s"
  by (simp add: parse_hex4_def)

lemma unicode_escape_control:
  assumes "of_char c < (32 :: nat)"
  shows "unicode_escape text (CHR ''0'' # CHR ''0'' # kDigits ! (of_char c div 16) # kDigits ! (of_char c mod 16) # rest)
    = Inr ([c], rest)"
proof -
  let ?n = "of_char c :: nat" and ?u = "word_of_nat (of_char c) :: u32"
  let ?s = "[CHR ''0'', CHR ''0'', kDigits ! (?n div 16), kDigits ! (?n mod 16)]"
  from assms control_escapes have "parse_hex4 ?s = Some ?u" and a: "append_utf8 ?u = [c]" 
    and r: "\<not> 0xD800 \<le> ?u" "\<not> 0xDC00 \<le> ?u" by auto
  then have "parse_hex4 (?s @ rest) = Some ?u" using parse_hex4_append [of ?s rest] by simp
  with a r show ?thesis by (simp add: unicode_escape_def)
qed

lemma parse_chars_escape_char:
  "parse_chars text out (escape_char c @ rest) = parse_chars text (out @ [c]) rest"
  by (auto simp: escape_char_def simple_escape_def unicode_escape_control)

lemma parse_chars_escape:
  "parse_chars text out (concat (map escape_char s) @ CHR 0x22 # rest) = Inr (out @ s, rest)"
  by (induction s arbitrary: out) (simp_all add: parse_chars_escape_char del: parse_chars.simps(2), simp)

lemma parse_string_escape:
  obtains body where "escape s @ rest = CHR 0x22 # body" "parse_string text body = Inr (s, rest)"
  using parse_chars_escape [of "text" "[]" s rest]
  by (simp add: escape_def parse_string_def)

subsection \<open>Numbers\<close>

text \<open>What follows a value in a rendered document: the end, a separator, a bracket or a line break.\<close>

definition ends_value :: "string \<Rightarrow> bool" where
  "ends_value rest \<longleftrightarrow> rest = [] \<or> hd rest \<in> {CHR '','', CHR '']'', CHR ''}'', CHR 0x0A}"

lemma ends_value_not_number:
  "ends_value (c # rest) \<Longrightarrow> \<not> is_digit c \<and> c \<noteq> CHR ''.'' \<and> c \<noteq> CHR ''e'' \<and> c \<noteq> CHR ''E''"
  by (auto simp: ends_value_def is_digit_def)

lemma skip_digits_show_nat: "ends_value rest \<Longrightarrow> skip_digits (show_nat n @ rest) = rest"
  by (cases rest) (auto simp: skip_digits_def show_nat_digits dropWhile_append2 dest: ends_value_not_number)

lemma number_tail: "ends_value rest \<Longrightarrow> number_fraction text rest = Inr (True, rest) \<and> number_exponent text rest = Inr (True, rest)"
  by (cases rest) (auto simp: number_fraction_def number_exponent_def dest: ends_value_not_number)

lemma length_show_int: "in_i64 n \<Longrightarrow> length (show_int n) \<le> 20"
proof -
  assume "in_i64 n"
  then have "- n < 10 ^ 19" "n < 10 ^ 19" by (simp_all add: in_i64_iff)
  then have "nat (- n) < 10 ^ 19" "nat n < 10 ^ 19" by (simp_all add: nat_less_iff)
  then have "length (show_nat (nat (- n))) \<le> 19" "length (show_nat (nat n)) \<le> 19"
    using length_show_nat_le [of _ 19] by simp_all
  then show ?thesis by (simp add: show_int_def)
qed

lemma parse_number_show_int:
  assumes "in_i64 n" "ends_value rest"
  shows "parse_number text (show_int n @ rest) = Inr (JNumber n, rest)"
proof -
  define body where "body = (if n < 0 then show_nat (nat (- n)) else show_nat (nat n)) @ rest"
  have "skip_digits body = rest" "body \<noteq> rest"
    using assms(2) by (simp_all add: body_def skip_digits_show_nat)
  moreover have "(case show_int n @ rest of c # r \<Rightarrow> if c = CHR ''-'' then r else show_int n @ rest | [] \<Rightarrow> show_int n @ rest) = body"
    using show_nat_hd_not_sign(1) [of "nat n"] by (cases "show_nat (nat n)") (auto simp: body_def show_int_def)
  ultimately show ?thesis
    using number_tail [OF assms(2)] length_show_int [OF assms(1)] parse_i64_show_int [OF assms(1)]
    by (simp add: parse_number_def Let_def)
qed

subsection \<open>Documents\<close>

lemma skip_ws_line_break [simp]: "skip_ws (line_break pretty level @ rest) = skip_ws rest"
  by (auto simp: line_break_def skip_ws_def is_ws_def intro!: dropWhile_append2)

lemma skip_ws_Nil [simp]: "skip_ws [] = []"
  by (simp add: skip_ws_def)

lemma skip_ws_Cons [simp]: "\<not> is_ws c \<Longrightarrow> skip_ws (c # rest) = c # rest"
  by (simp add: skip_ws_def)

lemma ends_value_simps [simp]:
  "ends_value []" "ends_value (CHR '','' # r)" "ends_value (CHR '']'' # r)" "ends_value (CHR ''}'' # r)"
  "ends_value r \<Longrightarrow> ends_value (line_break pretty level @ r)"
  by (auto simp: ends_value_def line_break_def)

lemma digit_no_delimiter: "is_digit c \<Longrightarrow> \<not> is_ws c \<and> c \<noteq> CHR '']'' \<and> c \<noteq> CHR ''}''"
  by (auto simp: is_digit_def is_ws_def)

text \<open>No rendered value starts with white space or a closing bracket.\<close>

lemma render_Cons:
  obtains c r where "render pretty level v = c # r" "\<not> is_ws c" "c \<noteq> CHR '']''" "c \<noteq> CHR ''}''"
proof (cases v)
  case (JNumber n)
  then have "render pretty level v \<noteq> []" and d: "hd (render pretty level v) = CHR ''-'' \<or> is_digit (hd (render pretty level v))"
    by (auto simp: show_int_def hd_show_nat_digit)
  then obtain c r where "render pretty level v = c # r" by (cases "render pretty level v") auto
  with d that show thesis by (auto simp: is_ws_def dest: digit_no_delimiter)
next
  case (JBool b)
  with that show thesis by (cases b) (auto simp: is_ws_def)
qed (use that in \<open>auto simp: is_ws_def escape_def\<close>)

lemma skip_ws_render [simp]: "skip_ws (render pretty level v @ rest) = render pretty level v @ rest"
  by (rule render_Cons [of pretty level v]) simp

lemma after_item_comma: "after_item kind close text (CHR '','' # r) = Inr (True, r)"
  by (simp add: after_item_def is_ws_def)

lemma after_item_close:
  "close \<noteq> CHR '','' \<Longrightarrow> \<not> is_ws close \<Longrightarrow> after_item kind close text (line_break pretty level @ close # r) = Inr (False, r)"
  by (simp add: after_item_def)

lemma member_key_render:
  assumes "name \<notin> fst ` set ms"
  shows "member_key text ms (line_break pretty level @ render_key pretty name @ render pretty level v @ rest)
    = Inr (name, render pretty level v @ rest)"
proof -
  let ?rest = "CHR '':'' # (if pretty then '' '' else []) @ render pretty level v @ rest"
  obtain body where b: "escape name @ ?rest = CHR 0x22 # body" "parse_string text body = Inr (name, ?rest)"
    by (rule parse_string_escape)
  have "map_of ms name = None" using assms by (simp add: map_of_eq_None_iff)
  moreover have "skip_ws (render_key pretty name @ render pretty level v @ rest) = CHR 0x22 # body"
    using b(1) by (simp add: render_key_def is_ws_def)
  moreover have "skip_ws (CHR '' '' # render pretty level v @ rest) = render pretty level v @ rest"
    using skip_ws_render [of pretty level v rest] by (simp add: skip_ws_def is_ws_def)
  ultimately show ?thesis using b(2) by (cases pretty) (simp_all add: member_key_def is_ws_def del: map_of_eq_None_iff)
qed

lemma parse_items_render:
  assumes pv: "\<And>x rest. x \<in> set xs \<Longrightarrow> ends_value rest \<Longrightarrow> pv (render pretty (Suc level) x @ rest) = Some (Inr (x, rest))"
  shows "xs \<noteq> [] \<Longrightarrow> length xs < n
    \<Longrightarrow> parse_items pv text n acc (render_items pretty (Suc level) True xs @ line_break pretty level @ CHR '']'' # rest)
      = Some (Inr (JArray (acc @ xs), rest))"
  using pv
proof (induction xs arbitrary: n acc)
  case (Cons x xs)
  obtain m where n: "n = Suc m" using Cons.prems by (cases n) auto
  let ?fin = "line_break pretty level @ CHR '']'' # rest"
  have p: "pv (render pretty (Suc level) x @ r) = Some (Inr (x, r))" if "ends_value r" for r
    using Cons.prems that by simp
  show ?case
  proof (cases "xs = []")
    case True
    then show ?thesis using p [of ?fin] after_item_close [of "CHR '']''" "''array''" "text" pretty level rest]
      by (simp add: n is_ws_def separator_def)
  next
    case False
    let ?tail = "render_items pretty (Suc level) True xs @ ?fin"
    have eq: "render_items pretty (Suc level) True (x # xs) @ ?fin
        = line_break pretty (Suc level) @ render pretty (Suc level) x @ CHR '','' # ?tail"
      using False by (cases xs) (simp_all add: separator_def)
    have "parse_items pv text m (acc @ [x]) ?tail = Some (Inr (JArray ((acc @ [x]) @ xs), rest))"
      by (rule Cons.IH) (use False Cons.prems n in auto)
    then show ?thesis
      unfolding n eq using p [of "CHR '','' # ?tail"] by (simp add: after_item_comma)
  qed
qed simp

lemma parse_members_render:
  assumes pv: "\<And>m rest. m \<in> set ms \<Longrightarrow> ends_value rest \<Longrightarrow> pv (render pretty (Suc level) (snd m) @ rest) = Some (Inr (snd m, rest))"
  shows "ms \<noteq> [] \<Longrightarrow> length ms < n \<Longrightarrow> distinct (map fst (acc @ ms))
    \<Longrightarrow> parse_members pv text n acc (render_members pretty (Suc level) True ms @ line_break pretty level @ CHR ''}'' # rest)
      = Some (Inr (JObject (acc @ ms), rest))"
  using pv
proof (induction ms arbitrary: n acc)
  case (Cons m ms)
  obtain n' where n: "n = Suc n'" using Cons.prems by (cases n) auto
  obtain name v where m: "m = (name, v)" by (cases m)
  let ?fin = "line_break pretty level @ CHR ''}'' # rest"
  have p: "pv (render pretty (Suc level) v @ r) = Some (Inr (v, r))" if "ends_value r" for r
    using Cons.prems(4) [of m r] that m by simp
  have fresh: "name \<notin> fst ` set acc" using Cons.prems m by auto
  show ?case
  proof (cases "ms = []")
    case True
    then show ?thesis using p [of ?fin] after_item_close [of "CHR ''}''" "''object''" "text" pretty level rest]
      by (simp add: n m member_key_render [OF fresh] is_ws_def separator_def)
  next
    case False
    let ?tail = "render_members pretty (Suc level) True ms @ ?fin"
    have eq: "render_members pretty (Suc level) True (m # ms) @ ?fin
        = line_break pretty (Suc level) @ render_key pretty name @ render pretty (Suc level) v @ CHR '','' # ?tail"
      using False m by (cases ms) (auto simp: separator_def)
    have "parse_members pv text n' (acc @ [m]) ?tail = Some (Inr (JObject ((acc @ [m]) @ ms), rest))"
      by (rule Cons.IH) (use False Cons.prems n in auto)
    then show ?thesis
      unfolding n eq using p [of "CHR '','' # ?tail"] by (simp add: after_item_comma m member_key_render [OF fresh])
  qed
qed simp

lemma skip_ws_idem [simp]: "skip_ws (skip_ws r) = skip_ws r"
  by (simp add: skip_ws_def dropWhile_idem)

lemma parse_items_skip_ws: "parse_items pv text n xs (skip_ws r) = parse_items pv text n xs r"
  by (cases n) simp_all

lemma parse_members_skip_ws: "parse_members pv text n ms (skip_ws r) = parse_members pv text n ms r"
  by (cases n) (simp_all add: member_key_def)

lemma render_not_Nil: "render pretty level v \<noteq> []"
  by (rule render_Cons [of pretty level v]) simp

lemma length_render_items: "length xs \<le> length (render_items pretty level first xs)"
proof (induction xs arbitrary: first)
  case (Cons x xs)
  obtain c r where "render pretty level x = c # r" by (rule render_Cons)
  then show ?case using Cons.IH [of False] by simp
qed simp

lemma length_render_members: "length ms \<le> length (render_members pretty level first ms)"
proof (induction ms arbitrary: first)
  case (Cons m ms)
  obtain name v where m: "m = (name, v)" by (cases m)
  have "length ms \<le> length (render_members pretty level False ms)" by (rule Cons.IH)
  then show ?case using m by (simp add: render_key_def)
qed simp

lemma items_open:
  assumes "xs \<noteq> []"
  shows "\<not> opens_empty CHR '']'' (skip_ws (render_items pretty level True xs @ rest))"
    and "length xs \<le> length (skip_ws (render_items pretty level True xs @ rest))"
proof -
  obtain x ys where xs: "xs = x # ys" using assms by (cases xs) auto
  obtain c r where r: "render pretty level x = c # r" "\<not> is_ws c" "c \<noteq> CHR '']''" by (rule render_Cons)
  have eq: "skip_ws (render_items pretty level True xs @ rest) = render pretty level x @ render_items pretty level False ys @ rest"
    by (simp add: xs separator_def)
  show "\<not> opens_empty CHR '']'' (skip_ws (render_items pretty level True xs @ rest))"
    unfolding eq by (simp add: r opens_empty_def)
  show "length xs \<le> length (skip_ws (render_items pretty level True xs @ rest))"
    unfolding eq using length_render_items [of ys pretty level False] by (simp add: xs r)
qed

lemma members_open:
  assumes "ms \<noteq> []"
  shows "\<not> opens_empty CHR ''}'' (skip_ws (render_members pretty level True ms @ rest))"
    and "length ms \<le> length (skip_ws (render_members pretty level True ms @ rest))"
proof -
  obtain name v ns where ms: "ms = (name, v) # ns" using assms by (cases ms) auto
  have eq: "skip_ws (render_members pretty level True ms @ rest)
      = render_key pretty name @ render pretty level v @ render_members pretty level False ns @ rest"
    by (simp add: ms separator_def render_key_def escape_def is_ws_def)
  show "\<not> opens_empty CHR ''}'' (skip_ws (render_members pretty level True ms @ rest))"
    unfolding eq by (simp add: render_key_def escape_def opens_empty_def)
  show "length ms \<le> length (skip_ws (render_members pretty level True ms @ rest))"
    unfolding eq using length_render_members [of ns pretty level False] by (simp add: ms render_key_def)
qed

lemma parse_array_render:
  assumes "\<And>x rest. x \<in> set xs \<Longrightarrow> ends_value rest \<Longrightarrow> pv (render pretty (Suc level) x @ rest) = Some (Inr (x, rest))"
    and "render pretty level (JArray xs) @ rest = CHR ''['' # body"
  shows "parse_array pv text body = Some (Inr (JArray xs, rest))"
proof (cases "xs = []")
  case True
  with assms(2) show ?thesis by (auto simp: parse_array_def opens_empty_def is_ws_def)
next
  case False
  let ?r = "render_items pretty (Suc level) True xs @ line_break pretty level @ CHR '']'' # rest"
  have "body = ?r" using assms(2) False by simp
  then show ?thesis
    using items_open [OF False, of pretty "Suc level" "line_break pretty level @ CHR '']'' # rest"]
      parse_items_render [OF assms(1) False, of "Suc (length (skip_ws ?r))" "text" "[]" rest]
    by (simp add: parse_array_def Let_def parse_items_skip_ws del: parse_items.simps)
qed

lemma parse_object_render:
  assumes "\<And>m rest. m \<in> set ms \<Longrightarrow> ends_value rest \<Longrightarrow> pv (render pretty (Suc level) (snd m) @ rest) = Some (Inr (snd m, rest))"
    and "render pretty level (JObject ms) @ rest = CHR ''{'' # body" and "distinct (map fst ms)"
  shows "parse_object pv text body = Some (Inr (JObject ms, rest))"
proof (cases "ms = []")
  case True
  with assms(2) show ?thesis by (auto simp: parse_object_def opens_empty_def is_ws_def)
next
  case False
  let ?r = "render_members pretty (Suc level) True ms @ line_break pretty level @ CHR ''}'' # rest"
  have "body = ?r" using assms(2) False by simp
  then show ?thesis
    using members_open [OF False, of pretty "Suc level" "line_break pretty level @ CHR ''}'' # rest"] assms(3)
      parse_members_render [OF assms(1) False, of "Suc (length (skip_ws ?r))" "[]" "text" rest]
    by (simp add: parse_object_def Let_def parse_members_skip_ws del: parse_members.simps)
qed

lemma digit_starts_number:
  "is_digit c \<Longrightarrow> c \<noteq> CHR 0x22 \<and> c \<noteq> CHR ''t'' \<and> c \<noteq> CHR ''f'' \<and> c \<noteq> CHR ''n'' \<and> c \<noteq> CHR ''{'' \<and> c \<noteq> CHR ''[''"
  by (auto simp: is_digit_def)

lemma parse_scalar_render:
  assumes "ends_value rest" "json_ok d v" "\<not> is_array v" "\<not> is_object v"
    and "render pretty level v @ rest = c # body"
  shows "parse_scalar text c body = Inr (v, rest) \<and> c \<noteq> CHR ''{'' \<and> c \<noteq> CHR ''[''"
proof (cases v)
  case (JNumber n)
  have "hd (show_int n) = CHR ''-'' \<or> is_digit (hd (show_int n))" "show_int n \<noteq> []"
    by (auto simp: show_int_def hd_show_nat_digit)
  with assms(5) JNumber have c: "c = CHR ''-'' \<or> is_digit c" by (cases "show_int n") auto
  then have "c \<noteq> CHR 0x22 \<and> c \<noteq> CHR ''t'' \<and> c \<noteq> CHR ''f'' \<and> c \<noteq> CHR ''n'' \<and> c \<noteq> CHR ''{'' \<and> c \<noteq> CHR ''[''"
    using digit_starts_number [of c] by auto
  then show ?thesis
    using c parse_number_show_int [of n rest "text"] assms JNumber by (simp add: parse_scalar_def)
next
  case (JString s)
  obtain b where "escape s @ rest = CHR 0x22 # b" "parse_string text b = Inr (s, rest)"
    by (rule parse_string_escape)
  with assms(5) JString show ?thesis by (auto simp: parse_scalar_def)
next
  case (JBool b)
  with assms(5) show ?thesis by (cases b) (auto simp: parse_scalar_def parse_literal_def)
qed (use assms in \<open>auto simp: parse_scalar_def parse_literal_def\<close>)

lemma parse_value_render:
  "ends_value rest \<Longrightarrow> json_ok (max_depth - depth) v \<Longrightarrow> depth \<le> max_depth
    \<Longrightarrow> parse_value text max_depth depth (render pretty level v @ rest) = Some (Inr (v, rest))"
proof (induction v arbitrary: depth level rest)
  case (JArray xs)
  have "parse_array (parse_value text max_depth (depth + 1)) text (drop 1 (render pretty level (JArray xs) @ rest))
      = Some (Inr (JArray xs, rest))"
    by (rule parse_array_render [where pretty = pretty and level = level]) (use JArray in \<open>auto intro!: JArray.IH\<close>)
  with JArray.prems show ?case by (simp add: parse_value.simps [of _ _ depth])
next
  case (JObject ms)
  have "parse_object (parse_value text max_depth (depth + 1)) text (drop 1 (render pretty level (JObject ms) @ rest))
      = Some (Inr (JObject ms, rest))"
    by (rule parse_object_render [where pretty = pretty and level = level])
      (use JObject.prems in \<open>auto intro!: JObject.IH simp: snds.simps\<close>)
  with JObject.prems show ?case by (simp add: parse_value.simps [of _ _ depth])
next
  case JNull
  then show ?case using parse_scalar_render [of rest _ JNull pretty level] by (auto simp: parse_value.simps [of _ _ depth])
next
  case (JBool b)
  then show ?case using parse_scalar_render [of rest _ "JBool b" pretty level]
    by (auto simp: parse_value.simps [of _ _ depth] split: list.splits)
next
  case (JNumber n)
  then show ?case using parse_scalar_render [of rest _ "JNumber n" pretty level] render_not_Nil [of pretty level "JNumber n"]
    by (auto simp: parse_value.simps [of _ _ depth] split: list.splits)
next
  case (JString s)
  then show ?case using parse_scalar_render [of rest _ "JString s" pretty level] render_not_Nil [of pretty level "JString s"]
    by (auto simp: parse_value.simps [of _ _ depth] split: list.splits)
qed

text \<open>whatever value a caller emits through \<^verbatim>\<open>JsonWriter\<close>, compact or indented, none of the writer's
  assertions fails, the writer is balanced again, and the text it has appended is a function of the
  value and the mode alone: equal content gives equal bytes.
\<close>

lemma writer_refines_render:
  "write_value v (new_writer out pretty) = Some ((new_writer (out @ render pretty 0 v) pretty))
    \<and> balanced (new_writer (out @ render pretty 0 v) pretty)"
  by (simp add: write_value_render new_writer_def emit_def before_value_def balanced_def)

text \<open>C4: \<^verbatim>\<open>parse_json\<close> reads back, exactly, every document that \<^verbatim>\<open>JsonWriter\<close> writes from a value with 64-bit
  numbers, distinct member names and a nesting within the limit; strings may hold any bytes.
\<close>

theorem json_roundtrip:
  assumes "json_ok max_depth v" and "write_value v (new_writer [] pretty) = Some w"
  shows "parse_json (jw_out w) max_depth = Some (Inr v)"
proof -
  have out: "jw_out w = render pretty 0 v"
    using assms(2) by (auto simp: write_value_render new_writer_def emit_def before_value_def)
  have "parse_value (jw_out w) max_depth 0 (render pretty 0 v) = Some (Inr (v, []))"
    using parse_value_render [of "[]" max_depth 0 v "jw_out w" pretty 0] assms(1) by simp
  moreover have "skip_ws (render pretty 0 v) = render pretty 0 v" using skip_ws_render [of pretty 0 v "[]"] by simp
  ultimately show ?thesis by (simp add: parse_json_def out skip_ws_def)
qed

theorem json_roundtrip_witness:
  "parse_json (jw_out (the (write_value (JObject [(''n'', JNumber (- 5)), (''xs'', JArray [JNull, JString [CHR 0x0A]])])
      (new_writer [] True)))) 2
    = Some (Inr (JObject [(''n'', JNumber (- 5)), (''xs'', JArray [JNull, JString [CHR 0x0A]])]))"
proof -
  let ?v = "JObject [(''n'', JNumber (- 5)), (''xs'', JArray [JNull, JString [CHR 0x0A]])]"
  have "json_ok 2 ?v" by (simp add: in_i64_iff)
  then show ?thesis by (rule json_roundtrip [where pretty = True]) (simp add: write_value_render)
qed

section \<open>Unsigned values above the signed range\<close>

lemma parse_i64_too_large: "9223372036854775807 < n \<Longrightarrow> parse_i64 (show_nat n) = None"
proof -
  assume n: "9223372036854775807 < n"
  obtain c s where s: "show_nat n = c # s" "c \<noteq> CHR ''-''" "c \<noteq> CHR ''+''" by (rule show_nat_Cons)
  then have "parse_i64 (show_nat n) = (case parse_magnitude 0 (show_nat n) of None \<Rightarrow> None
      | Some magnitude \<Rightarrow> if magnitude > kI64Max then None else Some (sint magnitude))"
    by (simp add: parse_i64_def Let_def del: parse_magnitude.simps split: option.split)
  then show ?thesis using n
    by (simp add: parse_magnitude_show_nat word_of_nat_cmp)
qed

lemma parse_number_show_nat:
  assumes "length (show_nat n) \<le> 20" "ends_value rest"
  shows "parse_number text (show_nat n @ rest) = (case parse_i64 (show_nat n) of Some k \<Rightarrow> Inr (JNumber k, rest)
      | None \<Rightarrow> fail OutOfRange ''JSON number is not an exact 64-bit integer'' (show_nat n))"
proof -
  let ?s = "show_nat n @ rest"
  have "(case ?s of c # r \<Rightarrow> if c = CHR ''-'' then r else ?s | [] \<Rightarrow> ?s) = ?s"
    using show_nat_hd_not_sign(1) [of n] by (cases "show_nat n") auto
  then show ?thesis
    using skip_digits_show_nat [OF assms(2), of n] number_tail [OF assms(2)] assms(1)
    by (simp add: parse_number_def Let_def split: option.split)
qed

text \<open>\<^verbatim>\<open>JsonWriter::value_uint\<close> accepts every unsigned 64-bit value, but a document that holds one above
  the largest signed value is refused by \<^verbatim>\<open>parse_json\<close> as out of range; up to that value it is read back.
\<close>

lemma value_uint_readable_iff:
  assumes "value_uint u (new_writer [] pretty) = Some w"
  shows "parse_json (jw_out w) max_depth =
    Some (if unat u \<le> 9223372036854775807 then Inr (JNumber (int (unat u)))
          else fail OutOfRange ''JSON number is not an exact 64-bit integer'' (show_nat (unat u)))"
proof -
  let ?s = "show_nat (unat u)"
  have out: "jw_out w = ?s"
    using assms by (auto simp: value_uint_def scalar_def new_writer_def emit_def before_value_def)
  obtain c s where s: "?s = c # s" by (cases ?s) auto
  then have d: "is_digit c" using hd_show_nat_digit [of "unat u"] by simp
  have ws: "skip_ws ?s = ?s" using s digit_no_delimiter [OF d] by simp
  have "length ?s \<le> 20" using unat_less_2_64 [of u] by (intro length_show_nat_le) simp_all
  then have "parse_number ?s ?s = (case parse_i64 ?s of Some n \<Rightarrow> Inr (JNumber n, [])
      | None \<Rightarrow> fail OutOfRange ''JSON number is not an exact 64-bit integer'' ?s)"
    using parse_number_show_nat [of "unat u" "[]" ?s] by simp
  moreover have "parse_value ?s max_depth 0 ?s = Some (parse_number ?s ?s)"
    using digit_starts_number [OF d] d unfolding s by (simp add: parse_value.simps [of _ _ 0] parse_scalar_def)
  moreover have "parse_i64 ?s = (if unat u \<le> 9223372036854775807 then Some (int (unat u)) else None)"
  proof (cases "unat u \<le> 9223372036854775807")
    case True
    then have "int (unat u) \<le> 9223372036854775807" by linarith
    then have "in_i64 (int (unat u))" unfolding in_i64_iff by linarith
    from parse_i64_show_int [OF this] True show ?thesis by (simp add: show_int_def)
  qed (simp add: parse_i64_too_large)
  ultimately show ?thesis
    by (cases "unat u \<le> 9223372036854775807") (simp_all add: parse_json_def out ws fail_def)
qed

lemma value_uint_readable_iff_example:
  "parse_json (show_nat (unat (18446744073709551615 :: u64))) 0
    = Some (fail OutOfRange ''JSON number is not an exact 64-bit integer'' (show_nat (unat (18446744073709551615 :: u64))))"
proof -
  have "value_uint 18446744073709551615 (new_writer [] False) = Some (new_writer (show_nat (unat (18446744073709551615 :: u64))) False)"
    by (simp add: value_uint_def scalar_def new_writer_def emit_def before_value_def)
  from value_uint_readable_iff [OF this, of 0] show ?thesis by (simp add: new_writer_def)
qed

end
