(* ===== verification/Core_Documents.thy ===== *)
theory Core_Documents
  imports Core_Json
begin

text \<open>
  The algebra of the canonical writer: a sequence of writer calls equals the emission of one value.
  The codecs write objects and arrays field by field; with these equations the simplifier turns such
  a sequence into \<open>write_value\<close> of a document, so that the round trip of documents applies to them.
\<close>

named_theorems document_simps "writer calls as documents"

lemma wseq_assoc [document_simps]: "wseq (wseq f g) h = wseq f (wseq g h)"
  by (auto simp: wseq_def fun_eq_iff split: option.splits)

lemma wseq_Some [document_simps]: "wseq f Some = f" "wseq Some f = f"
  by (auto simp: wseq_def fun_eq_iff split: option.splits)

lemma wrun_wseq [document_simps]: "wrun [] = Some" "wrun (f # fs) = wseq f (wrun fs)"
  by (auto simp: wseq_def fun_eq_iff split: option.splits)

lemma wrun_append [document_simps]: "wrun (fs @ gs) = wseq (wrun fs) (wrun gs)"
  by (induction fs) (simp_all add: document_simps)

lemma scalars_as_values [document_simps]:
  "value_string s = write_value (JString s)" "value_int n = write_value (JNumber n)"
  "value_bool b = write_value (JBool b)" "value_null = write_value JNull"
  by (simp_all add: fun_eq_iff)

lemma value_uint_as_value [document_simps]: "value_uint u = write_value (JNumber (uint u))"
  by (simp add: fun_eq_iff value_uint_def value_int_def show_int_def)

lemma write_members_single: "write_members [(k, v)] = wseq (json_key k) (write_value v)"
  by (simp add: fun_eq_iff wseq_def split: option.splits)

lemma write_members_append: "write_members (ms @ ns) = wseq (write_members ms) (write_members ns)"
proof (induction ms)
  case (Cons m ms)
  then show ?case by (cases m) (auto simp: fun_eq_iff wseq_def split: option.splits)
qed (auto simp: fun_eq_iff wseq_def)

lemma write_items_append: "write_items (xs @ ys) = wseq (write_items xs) (write_items ys)"
  by (induction xs) (auto simp: fun_eq_iff wseq_def split: option.splits)

lemma key_value [document_simps]:
  "wseq (json_key k) (write_value v) = write_members [(k, v)]"
  "wseq (json_key k) (wseq (write_value v) f) = wseq (write_members [(k, v)]) f"
  by (simp_all add: write_members_single document_simps)

lemma members_members [document_simps]:
  "wseq (write_members ms) (write_members ns) = write_members (ms @ ns)"
  "wseq (write_members ms) (wseq (write_members ns) f) = wseq (write_members (ms @ ns)) f"
  by (simp_all add: write_members_append wseq_assoc)

lemma items_items [document_simps]:
  "wseq (write_items xs) (write_items ys) = write_items (xs @ ys)"
  "wseq (write_items xs) (wseq (write_items ys) f) = wseq (write_items (xs @ ys)) f"
  by (simp_all add: write_items_append wseq_assoc)

lemma write_object: "write_value (JObject ms) = wseq begin_object (wseq (write_members ms) end_object)"
  by (simp add: fun_eq_iff wseq_def)

lemma write_array: "write_value (JArray xs) = wseq begin_array (wseq (write_items xs) end_array)"
  by (simp add: fun_eq_iff wseq_def)

lemma object_brackets [document_simps]:
  "wseq begin_object (wseq (write_members ms) end_object) = write_value (JObject ms)"
  "wseq begin_object (wseq (write_members ms) (wseq end_object f)) = wseq (write_value (JObject ms)) f"
  by (simp_all add: write_object wseq_assoc)

lemma array_brackets [document_simps]:
  "wseq begin_array (wseq (write_items xs) end_array) = write_value (JArray xs)"
  "wseq begin_array (wseq (write_items xs) (wseq end_array f)) = wseq (write_value (JArray xs)) f"
  by (simp_all add: write_array wseq_assoc)

text \<open>A loop that writes one value per element.\<close>

lemma wrun_values [document_simps]: "wrun (map (\<lambda>x. write_value (g x)) xs) = write_items (map g xs)"
  by (induction xs) (auto simp: fun_eq_iff wseq_def split: option.splits)

text \<open>A loop inside an object that writes one member per element.\<close>

lemma wrun_members [document_simps]: "wrun (map (\<lambda>x. write_members [(k x, g x)]) xs) = write_members (map (\<lambda>x. (k x, g x)) xs)"
  by (induction xs) (auto simp: fun_eq_iff wseq_def split: option.splits)

lemmas [document_simps] = field_string_def field_int_def field_uint_def field_bool_def field_null_def
  field_object_def field_array_def

lemma field_optional_int_value [document_simps]:
  "field_optional_int k v = write_members [(k, case v of Some n \<Rightarrow> JNumber n | None \<Rightarrow> JNull)]"
  by (cases v) (simp_all add: field_optional_int_def document_simps)

lemma field_optional_uint_value [document_simps]:
  "field_optional_uint k v = write_members [(k, case v of Some n \<Rightarrow> JNumber (uint n) | None \<Rightarrow> JNull)]"
  by (cases v) (simp_all add: field_optional_uint_def document_simps)

text \<open>The text a fresh compact writer holds after a sequence of calls, and that it is read back.\<close>

definition written :: "writer_op \<Rightarrow> string option" where
  "written f = map_option jw_out (f (new_writer [] False))"

lemma written_value: "written (write_value v) = Some (render False 0 v)"
  by (simp add: written_def write_value_render new_writer_def emit_def before_value_def)

lemma parse_render: "json_ok d v \<Longrightarrow> parse_json (render pretty 0 v) d = Some (Inr v)"
  using parse_value_render [of "[]" d 0 v "render pretty 0 v" pretty 0] skip_ws_render [of pretty 0 v "[]"]
  by (simp add: parse_json_def)

lemma json_ok_mono: "json_ok d v \<Longrightarrow> d \<le> e \<Longrightarrow> json_ok e v"
proof (induction d v arbitrary: e rule: json_ok.induct)
  case (5 d xs)
  then show ?case by (auto simp: le_diff_conv) 
next
  case (6 d ms)
  then show ?case by (auto simp: le_diff_conv)
qed simp_all

end
