(* ===== verification/Model_Codec.thy ===== *)
theory Model_Codec
  imports Model_Measurement Core_Documents
begin

text \<open>
  \<^verbatim>\<open>model/codec.hpp\<close> and \<^verbatim>\<open>model/codec.cpp\<close>: the canonical JSON codecs of the domain objects. A \<^verbatim>\<open>write_json\<close>
  overload is the sequence of its writer calls; a decoder reads a parsed document field by field, in
  the order of the source, and leaves with the first error.
\<close>

section \<open>Encoders\<close>

definition optional_hex :: "'tag strong_id \<Rightarrow> string" where
  "optional_hex i = (if valid_id i then id_to_hex i else [])"

definition field_revision :: "string \<Rightarrow> revision \<Rightarrow> writer_op" where
  "field_revision name r = field_uint name (ucast r)"

definition write_timestamp :: "timestamp \<Rightarrow> writer_op" where
  "write_timestamp t = wrun
     [begin_object,
      field_int ''ns'' (ts_ns t),
      field_string ''domain'' (optional_hex (ts_domain t)),
      end_object]"

definition write_reason :: "reason \<Rightarrow> writer_op" where
  "write_reason r = wrun
     [begin_object,
      field_string ''code'' (reason_to_string (reason_code_of r)),
      field_string ''detail'' (reason_detail r),
      end_object]"

definition write_reasons :: "evidence \<Rightarrow> writer_op" where
  "write_reasons ev = wrun [field_array ''reasons'', wrun (map write_reason (ev_reasons ev)), end_array]"

definition write_evidence :: "evidence \<Rightarrow> writer_op" where
  "write_evidence ev = wrun
     [begin_object,
      field_string ''state'' (state_to_string (ev_state ev)),
      field_string ''freshness'' (freshness_to_string (ev_freshness ev)),
      field_string ''confidence'' (confidence_to_string (ev_confidence ev)),
      field_bool ''reasons_truncated'' (ev_truncated ev),
      field_array ''reasons'',
      wrun (map write_reason (ev_reasons ev)),
      end_array,
      end_object]"

definition write_stamp :: "observation_stamp \<Rightarrow> writer_op" where
  "write_stamp s = wrun
     [begin_object,
      json_key ''observed_at'', write_timestamp (stamp_observed_at s),
      json_key ''received_at'', write_timestamp (stamp_received_at s),
      end_object]"

definition write_hop_observation :: "hop_observation \<Rightarrow> writer_op" where
  "write_hop_observation h = wrun
     [begin_object,
      field_uint ''index'' (ucast (ho_index h)),
      field_string ''hop'' (id_to_hex (ho_hop h)),
      field_string ''link'' (optional_hex (ho_link h)),
      field_string ''queue'' (optional_hex (ho_queue h)),
      json_key ''entry'', write_timestamp (ho_entry h),
      json_key ''exit'', write_timestamp (ho_exit h),
      json_key ''queue_entry'', write_timestamp (ho_queue_entry h),
      json_key ''queue_exit'', write_timestamp (ho_queue_exit h),
      field_optional_int ''dwell_ns'' (ho_dwell_ns h),
      field_optional_int ''queue_dwell_ns'' (ho_queue_dwell_ns h),
      field_optional_int ''dwell_uncertainty_ns'' (ho_dwell_uncertainty_ns h),
      field_optional_int ''queue_dwell_uncertainty_ns'' (ho_queue_dwell_uncertainty_ns h),
      json_key ''evidence'', write_evidence (ho_evidence h),
      end_object]"

text \<open>The identity a record is written with: its own, or the one derived from the reporting triple.\<close>

definition emitted_id :: "measurement_record \<Rightarrow> measurement_id" where
  "emitted_id r =
     (if valid_id (rec_id r) then rec_id r
      else derive_measurement_id (rec_source r) (rec_epoch r) (rec_incarnation r) (rec_sequence r))"

definition write_measurement :: "measurement_record \<Rightarrow> writer_op" where
  "write_measurement r = wrun
     [begin_object,
      field_string ''kind'' ''measurement'',
      field_string ''id'' (id_to_hex (emitted_id r)),
      field_bool ''identity_derived'' (\<not> valid_id (rec_id r)),
      field_string ''path'' (id_to_hex (rec_path r)),
      field_string ''generation'' (id_to_hex (rec_generation r)),
      field_string ''source'' (id_to_hex (rec_source r)),
      field_string ''epoch'' (id_to_hex (rec_epoch r)),
      field_string ''incarnation'' (id_to_hex (rec_incarnation r)),
      field_revision ''source_revision'' (rec_source_revision r),
      field_uint ''sequence'' (rec_sequence r),
      field_bool ''synthetic'' (rec_synthetic r),
      json_key ''request'', write_timestamp (rec_request r),
      json_key ''response'', write_timestamp (rec_response r),
      field_int ''rtt_ns'' (rec_rtt_ns r),
      json_key ''stamp'', write_stamp (rec_stamp r),
      json_key ''evidence'', write_evidence (rec_evidence r),
      field_array ''hops'',
      wrun (map write_hop_observation (rec_hops r)),
      end_array,
      end_object]"

definition write_source :: "source_descriptor \<Rightarrow> writer_op" where
  "write_source s = wrun
     [begin_object,
      field_string ''kind'' ''source'',
      field_string ''id'' (id_to_hex (src_id s)),
      field_string ''name'' (src_name s),
      field_string ''source_kind'' (source_kind_to_string (src_kind s)),
      field_string ''authority'' (authority_to_string (src_authority s)),
      field_string ''semantics'' (semantics_to_string (src_semantics s)),
      field_revision ''revision'' (src_revision s),
      field_string ''description'' (src_description s),
      end_object]"

definition write_endpoint :: "endpoint_def \<Rightarrow> writer_op" where
  "write_endpoint e = wrun
     [begin_object,
      field_string ''kind'' ''endpoint'',
      field_string ''id'' (id_to_hex (ep_id e)),
      field_string ''name'' (ep_name e),
      field_string ''role'' (endpoint_role_to_string (ep_role e)),
      field_revision ''revision'' (ep_revision e),
      end_object]"

definition write_link :: "link_def \<Rightarrow> writer_op" where
  "write_link l = wrun
     [begin_object,
      field_string ''kind'' ''link'',
      field_string ''id'' (id_to_hex (link_id l)),
      field_string ''name'' (link_name l),
      field_string ''from'' (optional_hex (link_from l)),
      field_string ''to'' (optional_hex (link_to l)),
      field_revision ''revision'' (link_revision l),
      end_object]"

definition write_queue :: "queue_def \<Rightarrow> writer_op" where
  "write_queue q = wrun
     [begin_object,
      field_string ''kind'' ''queue'',
      field_string ''id'' (id_to_hex (queue_id q)),
      field_string ''name'' (queue_name q),
      field_string ''link'' (optional_hex (queue_link q)),
      field_string ''semantics'' (semantics_to_string (queue_semantics q)),
      field_revision ''revision'' (queue_revision q),
      end_object]"

definition write_hop :: "hop_def \<Rightarrow> writer_op" where
  "write_hop h = wrun
     [begin_object,
      field_string ''kind'' ''hop'',
      field_string ''id'' (id_to_hex (hop_id h)),
      field_string ''name'' (hop_name h),
      field_string ''hop_kind'' (hop_kind_to_string (hop_kind h)),
      field_string ''link'' (optional_hex (hop_link h)),
      field_string ''queue'' (optional_hex (hop_queue h)),
      field_revision ''revision'' (hop_revision h),
      end_object]"

definition write_generation :: "generation_def \<Rightarrow> writer_op" where
  "write_generation g = wrun
     [begin_object,
      field_string ''kind'' ''generation'',
      field_string ''id'' (id_to_hex (gen_id g)),
      field_string ''name'' (gen_name g),
      field_revision ''revision'' (gen_revision g),
      field_string ''supersedes'' (optional_hex (gen_supersedes g)),
      field_string ''description'' (gen_description g),
      end_object]"

definition write_path :: "path_def \<Rightarrow> writer_op" where
  "write_path p = wrun
     [begin_object,
      field_string ''kind'' ''path'',
      field_string ''id'' (id_to_hex (path_id p)),
      field_string ''name'' (path_name p),
      field_string ''generation'' (id_to_hex (path_generation p)),
      field_revision ''revision'' (path_revision p),
      field_array ''hops'',
      wrun (map (\<lambda>h. value_string (id_to_hex h)) (path_hops p)),
      end_array,
      end_object]"

definition write_clock_domain :: "clock_domain_def \<Rightarrow> writer_op" where
  "write_clock_domain d = wrun
     [begin_object,
      field_string ''kind'' ''clock_domain'',
      field_string ''id'' (id_to_hex (dom_id d)),
      field_string ''name'' (dom_name d),
      field_bool ''is_reference'' (dom_is_reference d),
      field_string ''description'' (dom_description d),
      end_object]"

definition write_clock_sync :: "clock_sync \<Rightarrow> writer_op" where
  "write_clock_sync s = wrun
     [begin_object,
      field_string ''kind'' ''clock_sync'',
      field_string ''domain'' (id_to_hex (sync_domain s)),
      field_string ''reference'' (optional_hex (sync_reference s)),
      field_string ''state'' (sync_state_to_string (sync_state s)),
      field_int ''offset_ns'' (sync_offset_ns s),
      field_int ''skew_ppb'' (sync_skew_ppb s),
      field_int ''uncertainty_ns'' (sync_uncertainty_ns s),
      field_int ''valid_for_ns'' (sync_valid_for_ns s),
      field_int ''observed_at_ns'' (ts_ns (sync_observed_at s)),
      field_string ''observed_at_domain'' (optional_hex (ts_domain (sync_observed_at s))),
      field_string ''reported_by'' (optional_hex (sync_reported_by s)),
      field_string ''generation'' (optional_hex (sync_generation s)),
      field_string ''epoch'' (optional_hex (sync_epoch s)),
      field_string ''incarnation'' (optional_hex (sync_incarnation s)),
      field_revision ''revision'' (sync_revision s),
      end_object]"

section \<open>Decoders\<close>

definition json_name :: "json \<Rightarrow> string \<Rightarrow> name result" where
  "json_name j field = try_bind (json_require_string j field) parse_name"

definition json_revision :: "json \<Rightarrow> string \<Rightarrow> revision result" where
  "json_revision j field = try_bind (json_require_uint j field) (\<lambda>v.
     if v = 0 \<or> v > 0xFFFFFFFF then fail OutOfRange ''revision is outside the supported range'' field
     else revision_from_value (ucast v))"

definition json_id_hex :: "json \<Rightarrow> string \<Rightarrow> string result" where
  "json_id_hex j field = json_require_string j field"

definition json_id :: "json \<Rightarrow> string \<Rightarrow> 'tag strong_id result" where
  "json_id j field = try_bind (json_id_hex j field) parse_hex"

definition json_optional_id_hex :: "json \<Rightarrow> string \<Rightarrow> string option" where
  "json_optional_id_hex j field =
     (case json_find j field of
        None \<Rightarrow> None
      | Some v \<Rightarrow>
          if is_null v then None
          else case as_string v of
            Inl e \<Rightarrow> None
          | Inr t \<Rightarrow> if t = [] then None else Some t)"

text \<open>The block every decoder repeats for an optional identity: absent leaves the invalid identity.\<close>

definition optional_id :: "json \<Rightarrow> string \<Rightarrow> 'tag strong_id result" where
  "optional_id j field =
     (case json_optional_id_hex j field of None \<Rightarrow> Inr no_id | Some t \<Rightarrow> parse_hex t)"

definition optional_text :: "json \<Rightarrow> string \<Rightarrow> string" where
  "optional_text j field = (case json_find j field of Some (JString t) \<Rightarrow> t | _ \<Rightarrow> [])"

definition decode_timestamp :: "json \<Rightarrow> timestamp result" where
  "decode_timestamp j =
     (if \<not> is_object j then fail ParseError ''timestamp must be an object'' []
      else try_bind (json_require_int j ''ns'') (\<lambda>ns.
        try_bind (json_require_string j ''domain'') (\<lambda>domain_text.
          if domain_text = [] then Inr \<lparr>ts_ns = ns, ts_domain = no_id\<rparr>
          else try_bind (parse_hex domain_text) (\<lambda>domain. Inr \<lparr>ts_ns = ns, ts_domain = domain\<rparr>))))"

fun decode_reasons :: "json list \<Rightarrow> evidence \<Rightarrow> evidence result" where
  "decode_reasons [] ev = Inr ev"
| "decode_reasons (entry # rest) ev =
     try_bind (json_require_string entry ''code'') (\<lambda>code_text.
       case parse_reason_code code_text of
         None \<Rightarrow> fail ParseError ''unknown reason code'' code_text
       | Some code \<Rightarrow> decode_reasons rest (add_reason code (optional_text entry ''detail'') ev))"

text \<open>An optional field whose text names a value of an enumeration.\<close>

definition optional_enum ::
  "json \<Rightarrow> string \<Rightarrow> (string \<Rightarrow> 'e option) \<Rightarrow> string \<Rightarrow> 'e \<Rightarrow> 'e result" where
  "optional_enum j field parse message absent =
     (case json_find j field of
        None \<Rightarrow> Inr absent
      | Some v \<Rightarrow> try_bind (as_string v) (\<lambda>t.
          case parse t of None \<Rightarrow> fail ParseError message t | Some e \<Rightarrow> Inr e))"

definition require_enum :: "json \<Rightarrow> string \<Rightarrow> (string \<Rightarrow> 'e option) \<Rightarrow> string \<Rightarrow> 'e result" where
  "require_enum j field parse message =
     try_bind (json_require_string j field) (\<lambda>t.
       case parse t of None \<Rightarrow> fail ParseError message t | Some e \<Rightarrow> Inr e)"

definition decode_evidence :: "json \<Rightarrow> evidence result" where
  "decode_evidence j =
     (if \<not> is_object j then fail ParseError ''evidence must be an object'' []
      else try_bind (require_enum j ''state'' parse_evidence_state ''unknown evidence state'') (\<lambda>st.
        try_bind (optional_enum j ''freshness'' parse_freshness ''unknown freshness'' UnknownFreshness) (\<lambda>fr.
          try_bind (optional_enum j ''confidence'' parse_confidence ''unknown confidence'' NoConfidence) (\<lambda>co.
            let ev = default_evidence\<lparr>ev_state := st, ev_freshness := fr, ev_confidence := co\<rparr>
            in case json_find j ''reasons'' of
                 None \<Rightarrow> Inr ev
               | Some reasons \<Rightarrow> try_bind (as_array reasons) (\<lambda>entries. decode_reasons entries ev)))))"

definition optional_evidence :: "json \<Rightarrow> evidence result" where
  "optional_evidence j =
     (case json_find j ''evidence'' of
        Some v \<Rightarrow> if is_object v then decode_evidence v else Inr default_evidence
      | None \<Rightarrow> Inr default_evidence)"

definition decode_observation_stamp :: "json \<Rightarrow> observation_stamp result" where
  "decode_observation_stamp j =
     (if \<not> is_object j then fail ParseError ''observation stamp must be an object'' []
      else try_bind (json_require_object j ''observed_at'') (\<lambda>observed.
        try_bind (json_require_object j ''received_at'') (\<lambda>received.
          try_bind (decode_timestamp observed) (\<lambda>observed_at.
            try_bind (decode_timestamp received) (\<lambda>received_at.
              Inr \<lparr>stamp_observed_at = observed_at, stamp_received_at = received_at,
                   stamp_received_mono = \<lparr>mono_ns = 0\<rparr>\<rparr>)))))"

definition unset_timestamp :: timestamp where "unset_timestamp = \<lparr>ts_ns = 0, ts_domain = no_id\<rparr>"

definition optional_timestamp :: "json \<Rightarrow> string \<Rightarrow> timestamp result" where
  "optional_timestamp j field =
     (case json_find j field of
        Some v \<Rightarrow> if is_object v then decode_timestamp v else Inr unset_timestamp
      | None \<Rightarrow> Inr unset_timestamp)"

definition decode_hop_observation :: "json \<Rightarrow> hop_observation result" where
  "decode_hop_observation j =
     (if \<not> is_object j then fail ParseError ''hop observation must be an object'' []
      else try_bind (json_require_uint j ''index'') (\<lambda>index_value.
        if index_value > 0xFFFFFFFF then fail OutOfRange ''hop index is outside the supported range'' []
        else try_bind (hop_index_from_value (ucast index_value)) (\<lambda>index.
        try_bind (json_id j ''hop'') (\<lambda>hop.
        try_bind (optional_id j ''link'') (\<lambda>link.
        try_bind (optional_id j ''queue'') (\<lambda>queue.
        try_bind (json_require_object j ''entry'') (\<lambda>entry.
        try_bind (json_require_object j ''exit'') (\<lambda>exit.
        try_bind (decode_timestamp entry) (\<lambda>entry_value.
        try_bind (decode_timestamp exit) (\<lambda>exit_value.
        try_bind (optional_timestamp j ''queue_entry'') (\<lambda>queue_entry.
        try_bind (optional_timestamp j ''queue_exit'') (\<lambda>queue_exit.
        try_bind (json_optional_int j ''dwell_ns'') (\<lambda>dwell.
        try_bind (json_optional_int j ''queue_dwell_ns'') (\<lambda>queue_dwell.
        try_bind (json_optional_int j ''dwell_uncertainty_ns'') (\<lambda>uncertainty.
        try_bind (json_optional_int j ''queue_dwell_uncertainty_ns'') (\<lambda>queue_uncertainty.
        try_bind (optional_evidence j) (\<lambda>ev.
          Inr \<lparr>ho_index = index, ho_hop = hop, ho_link = link, ho_queue = queue,
               ho_entry_domain = ts_domain entry_value, ho_exit_domain = ts_domain exit_value,
               ho_entry = entry_value, ho_exit = exit_value,
               ho_queue_entry = queue_entry, ho_queue_exit = queue_exit,
               ho_dwell_ns = dwell, ho_queue_dwell_ns = queue_dwell,
               ho_dwell_uncertainty_ns = uncertainty,
               ho_queue_dwell_uncertainty_ns = queue_uncertainty,
               ho_evidence = ev\<rparr>)))))))))))))))))"

fun decode_list :: "(json \<Rightarrow> 'a result) \<Rightarrow> json list \<Rightarrow> 'a list result" where
  "decode_list decode [] = Inr []"
| "decode_list decode (entry # rest) =
     try_bind (decode entry) (\<lambda>x. try_bind (decode_list decode rest) (\<lambda>xs. Inr (x # xs)))"

definition decode_measurement :: "json \<Rightarrow> measurement_record result" where
  "decode_measurement j =
     (if \<not> is_object j then fail ParseError ''measurement must be an object'' []
      else try_bind (optional_id j ''id'') (\<lambda>id.
        try_bind (json_id j ''path'') (\<lambda>path.
        try_bind (json_id j ''generation'') (\<lambda>generation.
        try_bind (json_id j ''source'') (\<lambda>source.
        try_bind (json_id j ''epoch'') (\<lambda>epoch.
        try_bind (json_id j ''incarnation'') (\<lambda>incarnation.
        try_bind (json_revision j ''source_revision'') (\<lambda>revision.
        try_bind (json_require_uint j ''sequence'') (\<lambda>sequence.
        try_bind (json_require_bool j ''synthetic'') (\<lambda>synthetic.
        try_bind (json_require_object j ''request'') (\<lambda>request.
        try_bind (json_require_object j ''response'') (\<lambda>response.
        try_bind (decode_timestamp request) (\<lambda>request_value.
        try_bind (decode_timestamp response) (\<lambda>response_value.
        if \<not> valid_id (ts_domain request_value) \<or> ts_domain request_value \<noteq> ts_domain response_value
        then fail ParseError ''request and response must share one clock domain'' []
        else try_bind (json_require_int j ''rtt_ns'') (\<lambda>rtt.
        try_bind (json_require_object j ''stamp'') (\<lambda>stamp.
        try_bind (decode_observation_stamp stamp) (\<lambda>stamp_value.
        try_bind (optional_evidence j) (\<lambda>ev.
        try_bind (case json_find j ''hops'' of
                    None \<Rightarrow> Inr []
                  | Some hops \<Rightarrow> try_bind (as_array hops) (decode_list decode_hop_observation)) (\<lambda>hops.
          Inr \<lparr>rec_id = (if valid_id id then id else derive_measurement_id source epoch incarnation sequence),
               rec_path = path, rec_generation = generation, rec_source = source, rec_epoch = epoch,
               rec_incarnation = incarnation, rec_source_revision = revision, rec_sequence = sequence,
               rec_domain = ts_domain request_value, rec_request = request_value,
               rec_response = response_value, rec_rtt_ns = rtt, rec_hops = hops,
               rec_stamp = stamp_value, rec_evidence = ev, rec_synthetic = synthetic\<rparr>)))))))))))))))))))"

definition decode_source :: "json \<Rightarrow> source_descriptor result" where
  "decode_source j =
     (if \<not> is_object j then fail ParseError ''source must be an object'' []
      else try_bind (json_name j ''name'') (\<lambda>nm.
        try_bind (require_enum j ''source_kind'' parse_source_kind ''unknown source kind'') (\<lambda>kind.
        try_bind (require_enum j ''authority'' parse_authority_class ''unknown authority class'') (\<lambda>authority.
        try_bind (require_enum j ''semantics'' parse_semantics_list ''unknown semantics profile'') (\<lambda>semantics.
        try_bind (json_revision j ''revision'') (\<lambda>revision.
          Inr \<lparr>src_id = derive_from nm, src_name = nm, src_kind = kind, src_authority = authority,
               src_semantics = semantics, src_revision = revision,
               src_description = optional_text j ''description''\<rparr>))))))"

definition decode_endpoint :: "json \<Rightarrow> endpoint_def result" where
  "decode_endpoint j =
     try_bind (json_name j ''name'') (\<lambda>nm.
       try_bind (require_enum j ''role'' parse_endpoint_role ''unknown endpoint role'') (\<lambda>role.
       try_bind (json_revision j ''revision'') (\<lambda>revision.
         Inr \<lparr>ep_id = derive_from nm, ep_name = nm, ep_role = role, ep_revision = revision\<rparr>)))"

definition decode_link :: "json \<Rightarrow> link_def result" where
  "decode_link j =
     try_bind (json_name j ''name'') (\<lambda>nm.
       try_bind (optional_id j ''from'') (\<lambda>from.
       try_bind (optional_id j ''to'') (\<lambda>to.
       try_bind (json_revision j ''revision'') (\<lambda>revision.
         Inr \<lparr>link_id = derive_from nm, link_name = nm, link_from = from, link_to = to,
              link_revision = revision\<rparr>))))"

definition decode_queue :: "json \<Rightarrow> queue_def result" where
  "decode_queue j =
     try_bind (json_name j ''name'') (\<lambda>nm.
       try_bind (optional_id j ''link'') (\<lambda>link.
       try_bind (require_enum j ''semantics'' parse_semantics_list ''unknown semantics profile'') (\<lambda>semantics.
       try_bind (json_revision j ''revision'') (\<lambda>revision.
         Inr \<lparr>queue_id = derive_from nm, queue_name = nm, queue_link = link,
              queue_semantics = semantics, queue_revision = revision\<rparr>))))"

definition decode_hop :: "json \<Rightarrow> hop_def result" where
  "decode_hop j =
     try_bind (json_name j ''name'') (\<lambda>nm.
       try_bind (require_enum j ''hop_kind'' parse_hop_kind ''unknown hop kind'') (\<lambda>kind.
       try_bind (optional_id j ''link'') (\<lambda>link.
       try_bind (optional_id j ''queue'') (\<lambda>queue.
       try_bind (json_revision j ''revision'') (\<lambda>revision.
         Inr \<lparr>hop_id = derive_from nm, hop_name = nm, hop_kind = kind, hop_link = link,
              hop_queue = queue, hop_revision = revision\<rparr>)))))"

definition decode_generation :: "json \<Rightarrow> generation_def result" where
  "decode_generation j =
     try_bind (json_name j ''name'') (\<lambda>nm.
       try_bind (json_revision j ''revision'') (\<lambda>revision.
       try_bind (optional_id j ''supersedes'') (\<lambda>supersedes.
         Inr \<lparr>gen_id = derive_from nm, gen_name = nm, gen_revision = revision,
              gen_supersedes = supersedes, gen_description = optional_text j ''description''\<rparr>)))"

definition decode_path :: "json \<Rightarrow> path_def result" where
  "decode_path j =
     try_bind (json_name j ''name'') (\<lambda>nm.
       try_bind (json_id j ''generation'') (\<lambda>generation.
       try_bind (json_revision j ''revision'') (\<lambda>revision.
       try_bind (json_require_array j ''hops'') (\<lambda>hops_value.
       try_bind (as_array hops_value) (\<lambda>hops.
       try_bind (decode_list (\<lambda>entry. try_bind (as_string entry) parse_hex) hops) (\<lambda>hop_ids.
         Inr \<lparr>path_id = derive_from nm, path_name = nm, path_generation = generation,
              path_revision = revision, path_hops = hop_ids\<rparr>))))))"

definition decode_clock_domain :: "json \<Rightarrow> clock_domain_def result" where
  "decode_clock_domain j =
     try_bind (json_name j ''name'') (\<lambda>nm.
       try_bind (json_require_bool j ''is_reference'') (\<lambda>is_reference.
         Inr \<lparr>dom_id = derive_from nm, dom_name = nm, dom_is_reference = is_reference,
              dom_description = optional_text j ''description''\<rparr>))"

definition decode_clock_sync :: "json \<Rightarrow> clock_sync result" where
  "decode_clock_sync j =
     try_bind (json_id j ''domain'') (\<lambda>domain.
       try_bind (optional_id j ''reference'') (\<lambda>reference.
       try_bind (require_enum j ''state'' parse_clock_sync_state ''unknown clock sync state'') (\<lambda>st.
       try_bind (json_require_int j ''offset_ns'') (\<lambda>offset.
       try_bind (json_require_int j ''skew_ppb'') (\<lambda>skew.
       try_bind (json_require_int j ''uncertainty_ns'') (\<lambda>uncertainty.
       try_bind (json_require_int j ''valid_for_ns'') (\<lambda>valid_for.
       try_bind (json_require_int j ''observed_at_ns'') (\<lambda>observed_at.
       try_bind (json_require_string j ''observed_at_domain'') (\<lambda>observed_domain.
       try_bind (if observed_domain = [] then Inr no_id else parse_hex observed_domain) (\<lambda>at_domain.
       try_bind (optional_id j ''reported_by'') (\<lambda>reported_by.
       try_bind (optional_id j ''generation'') (\<lambda>generation.
       try_bind (optional_id j ''epoch'') (\<lambda>epoch.
       try_bind (optional_id j ''incarnation'') (\<lambda>incarnation.
       try_bind (case json_find j ''revision'' of
                   None \<Rightarrow> Inr 0
                 | Some v \<Rightarrow> if is_null v then Inr 0 else json_revision j ''revision'') (\<lambda>revision.
         Inr \<lparr>sync_domain = domain, sync_reference = reference, sync_state = st,
              sync_offset_ns = offset, sync_skew_ppb = skew, sync_uncertainty_ns = uncertainty,
              sync_valid_for_ns = valid_for,
              sync_observed_at = \<lparr>ts_ns = observed_at, ts_domain = at_domain\<rparr>,
              sync_reported_by = reported_by, sync_generation = generation, sync_epoch = epoch,
              sync_incarnation = incarnation, sync_revision = revision\<rparr>)))))))))))))))"

definition decode_text :: "string \<Rightarrow> (json \<Rightarrow> 'a result) \<Rightarrow> string \<Rightarrow> limits \<Rightarrow> 'a result option" where
  "decode_text what decode text l =
     (if length text > max_json_bytes l
      then Some (fail OutOfRange (what @ '' document exceeds the configured size limit'') (show_nat (length text)))
      else map_option (\<lambda>document. try_bind document decode) (parse_json text (max_json_depth l)))"

definition decode_measurement_text :: "string \<Rightarrow> limits \<Rightarrow> measurement_record result option" where
  "decode_measurement_text = decode_text ''measurement'' decode_measurement"

definition decode_source_text :: "string \<Rightarrow> limits \<Rightarrow> source_descriptor result option" where
  "decode_source_text = decode_text ''source'' decode_source"

section \<open>The document of an object\<close>

definition json_of_id :: "'tag strong_id \<Rightarrow> json" where "json_of_id i = JString (id_to_hex i)"
definition json_of_optional :: "'tag strong_id \<Rightarrow> json" where "json_of_optional i = JString (optional_hex i)"
definition json_of_revision :: "revision \<Rightarrow> json" where "json_of_revision r = JNumber (uint r)"
definition uint_json :: "u64 \<Rightarrow> json" where "uint_json u = JNumber (uint u)"
definition json_of_optional_int :: "int option \<Rightarrow> json" where
  "json_of_optional_int v = (case v of Some n \<Rightarrow> JNumber n | None \<Rightarrow> JNull)"

definition json_of_timestamp :: "timestamp \<Rightarrow> json" where
  "json_of_timestamp t = JObject [(''ns'', JNumber (ts_ns t)), (''domain'', json_of_optional (ts_domain t))]"

definition json_of_reason :: "reason \<Rightarrow> json" where
  "json_of_reason r = JObject
     [(''code'', JString (reason_to_string (reason_code_of r))), (''detail'', JString (reason_detail r))]"

definition json_of_reasons :: "evidence \<Rightarrow> json" where
  "json_of_reasons ev = JArray (map json_of_reason (ev_reasons ev))"

definition json_of_evidence :: "evidence \<Rightarrow> json" where
  "json_of_evidence ev = JObject
     [(''state'', JString (state_to_string (ev_state ev))),
      (''freshness'', JString (freshness_to_string (ev_freshness ev))),
      (''confidence'', JString (confidence_to_string (ev_confidence ev))),
      (''reasons_truncated'', JBool (ev_truncated ev)),
      (''reasons'', JArray (map json_of_reason (ev_reasons ev)))]"

definition json_of_stamp :: "observation_stamp \<Rightarrow> json" where
  "json_of_stamp s = JObject
     [(''observed_at'', json_of_timestamp (stamp_observed_at s)),
      (''received_at'', json_of_timestamp (stamp_received_at s))]"

definition json_of_hop_observation :: "hop_observation \<Rightarrow> json" where
  "json_of_hop_observation h = JObject
     [(''index'', json_of_revision (ho_index h)),
      (''hop'', json_of_id (ho_hop h)),
      (''link'', json_of_optional (ho_link h)),
      (''queue'', json_of_optional (ho_queue h)),
      (''entry'', json_of_timestamp (ho_entry h)),
      (''exit'', json_of_timestamp (ho_exit h)),
      (''queue_entry'', json_of_timestamp (ho_queue_entry h)),
      (''queue_exit'', json_of_timestamp (ho_queue_exit h)),
      (''dwell_ns'', json_of_optional_int (ho_dwell_ns h)),
      (''queue_dwell_ns'', json_of_optional_int (ho_queue_dwell_ns h)),
      (''dwell_uncertainty_ns'', json_of_optional_int (ho_dwell_uncertainty_ns h)),
      (''queue_dwell_uncertainty_ns'', json_of_optional_int (ho_queue_dwell_uncertainty_ns h)),
      (''evidence'', json_of_evidence (ho_evidence h))]"

definition json_of_measurement :: "measurement_record \<Rightarrow> json" where
  "json_of_measurement r = JObject
     [(''kind'', JString ''measurement''),
      (''id'', json_of_id (emitted_id r)),
      (''identity_derived'', JBool (\<not> valid_id (rec_id r))),
      (''path'', json_of_id (rec_path r)),
      (''generation'', json_of_id (rec_generation r)),
      (''source'', json_of_id (rec_source r)),
      (''epoch'', json_of_id (rec_epoch r)),
      (''incarnation'', json_of_id (rec_incarnation r)),
      (''source_revision'', json_of_revision (rec_source_revision r)),
      (''sequence'', JNumber (uint (rec_sequence r))),
      (''synthetic'', JBool (rec_synthetic r)),
      (''request'', json_of_timestamp (rec_request r)),
      (''response'', json_of_timestamp (rec_response r)),
      (''rtt_ns'', JNumber (rec_rtt_ns r)),
      (''stamp'', json_of_stamp (rec_stamp r)),
      (''evidence'', json_of_evidence (rec_evidence r)),
      (''hops'', JArray (map json_of_hop_observation (rec_hops r)))]"

definition json_of_source :: "source_descriptor \<Rightarrow> json" where
  "json_of_source s = JObject
     [(''kind'', JString ''source''), (''id'', json_of_id (src_id s)), (''name'', JString (src_name s)),
      (''source_kind'', JString (source_kind_to_string (src_kind s))),
      (''authority'', JString (authority_to_string (src_authority s))),
      (''semantics'', JString (semantics_to_string (src_semantics s))),
      (''revision'', json_of_revision (src_revision s)),
      (''description'', JString (src_description s))]"

definition json_of_endpoint :: "endpoint_def \<Rightarrow> json" where
  "json_of_endpoint e = JObject
     [(''kind'', JString ''endpoint''), (''id'', json_of_id (ep_id e)), (''name'', JString (ep_name e)),
      (''role'', JString (endpoint_role_to_string (ep_role e))),
      (''revision'', json_of_revision (ep_revision e))]"

definition json_of_link :: "link_def \<Rightarrow> json" where
  "json_of_link l = JObject
     [(''kind'', JString ''link''), (''id'', json_of_id (link_id l)), (''name'', JString (link_name l)),
      (''from'', json_of_optional (link_from l)), (''to'', json_of_optional (link_to l)),
      (''revision'', json_of_revision (link_revision l))]"

definition json_of_queue :: "queue_def \<Rightarrow> json" where
  "json_of_queue q = JObject
     [(''kind'', JString ''queue''), (''id'', json_of_id (queue_id q)), (''name'', JString (queue_name q)),
      (''link'', json_of_optional (queue_link q)),
      (''semantics'', JString (semantics_to_string (queue_semantics q))),
      (''revision'', json_of_revision (queue_revision q))]"

definition json_of_hop :: "hop_def \<Rightarrow> json" where
  "json_of_hop h = JObject
     [(''kind'', JString ''hop''), (''id'', json_of_id (hop_id h)), (''name'', JString (hop_name h)),
      (''hop_kind'', JString (hop_kind_to_string (hop_kind h))),
      (''link'', json_of_optional (hop_link h)), (''queue'', json_of_optional (hop_queue h)),
      (''revision'', json_of_revision (hop_revision h))]"

definition json_of_generation :: "generation_def \<Rightarrow> json" where
  "json_of_generation g = JObject
     [(''kind'', JString ''generation''), (''id'', json_of_id (gen_id g)), (''name'', JString (gen_name g)),
      (''revision'', json_of_revision (gen_revision g)),
      (''supersedes'', json_of_optional (gen_supersedes g)),
      (''description'', JString (gen_description g))]"

definition json_of_path :: "path_def \<Rightarrow> json" where
  "json_of_path p = JObject
     [(''kind'', JString ''path''), (''id'', json_of_id (path_id p)), (''name'', JString (path_name p)),
      (''generation'', json_of_id (path_generation p)),
      (''revision'', json_of_revision (path_revision p)),
      (''hops'', JArray (map json_of_id (path_hops p)))]"

definition json_of_clock_domain :: "clock_domain_def \<Rightarrow> json" where
  "json_of_clock_domain d = JObject
     [(''kind'', JString ''clock_domain''), (''id'', json_of_id (dom_id d)), (''name'', JString (dom_name d)),
      (''is_reference'', JBool (dom_is_reference d)),
      (''description'', JString (dom_description d))]"

definition json_of_clock_sync :: "clock_sync \<Rightarrow> json" where
  "json_of_clock_sync s = JObject
     [(''kind'', JString ''clock_sync''),
      (''domain'', json_of_id (sync_domain s)),
      (''reference'', json_of_optional (sync_reference s)),
      (''state'', JString (sync_state_to_string (sync_state s))),
      (''offset_ns'', JNumber (sync_offset_ns s)),
      (''skew_ppb'', JNumber (sync_skew_ppb s)),
      (''uncertainty_ns'', JNumber (sync_uncertainty_ns s)),
      (''valid_for_ns'', JNumber (sync_valid_for_ns s)),
      (''observed_at_ns'', JNumber (ts_ns (sync_observed_at s))),
      (''observed_at_domain'', json_of_optional (ts_domain (sync_observed_at s))),
      (''reported_by'', json_of_optional (sync_reported_by s)),
      (''generation'', json_of_optional (sync_generation s)),
      (''epoch'', json_of_optional (sync_epoch s)),
      (''incarnation'', json_of_optional (sync_incarnation s)),
      (''revision'', json_of_revision (sync_revision s))]"

lemmas json_of_defs = json_of_id_def json_of_optional_def json_of_revision_def json_of_optional_int_def

text \<open>Every encoder emits exactly the document of its object.\<close>

lemma uint_ucast_32 [simp]: "uint (ucast (r :: u32) :: u64) = uint r"
  by (simp add: uint_up_ucast is_up)

lemma write_timestamp_document [document_simps]: "write_timestamp t = write_value (json_of_timestamp t)"
  by (simp add: write_timestamp_def json_of_timestamp_def json_of_defs document_simps)

lemma write_reason_document [document_simps]: "write_reason = (\<lambda>r. write_value (json_of_reason r))"
  by (rule ext) (simp add: write_reason_def json_of_reason_def json_of_defs document_simps)

lemma write_reasons_document [document_simps]: "write_reasons ev = write_members [(''reasons'', json_of_reasons ev)]"
  by (simp add: write_reasons_def json_of_reasons_def document_simps)

lemma value_uint_document: "value_uint = (\<lambda>u. write_value (uint_json u))"
  by (rule ext) (simp add: uint_json_def value_uint_as_value)

lemma write_evidence_document [document_simps]: "write_evidence ev = write_value (json_of_evidence ev)"
  by (simp add: write_evidence_def json_of_evidence_def json_of_defs document_simps)

lemma write_stamp_document [document_simps]: "write_stamp s = write_value (json_of_stamp s)"
  by (simp add: write_stamp_def json_of_stamp_def document_simps)

lemma field_revision_value [document_simps]: "field_revision k r = write_members [(k, json_of_revision r)]"
  by (simp add: field_revision_def json_of_revision_def document_simps)

lemma write_hop_observation_document [document_simps]:
  "write_hop_observation = (\<lambda>h. write_value (json_of_hop_observation h))"
  by (rule ext) (simp add: write_hop_observation_def json_of_hop_observation_def json_of_defs document_simps)

lemma write_measurement_document: "write_measurement r = write_value (json_of_measurement r)"
  by (simp add: write_measurement_def json_of_measurement_def json_of_defs document_simps)

lemma write_entity_documents:
  "write_source s = write_value (json_of_source s)"
  "write_endpoint e = write_value (json_of_endpoint e)"
  "write_link l = write_value (json_of_link l)"
  "write_queue q = write_value (json_of_queue q)"
  "write_hop h = write_value (json_of_hop h)"
  "write_generation g = write_value (json_of_generation g)"
  "write_path p = write_value (json_of_path p)"
  "write_clock_domain d = write_value (json_of_clock_domain d)"
  "write_clock_sync y = write_value (json_of_clock_sync y)"
  by (simp_all add: write_source_def json_of_source_def write_endpoint_def json_of_endpoint_def
      write_link_def json_of_link_def write_queue_def json_of_queue_def write_hop_def json_of_hop_def
      write_generation_def json_of_generation_def write_path_def json_of_path_def
      write_clock_domain_def json_of_clock_domain_def write_clock_sync_def json_of_clock_sync_def
      json_of_id_def [abs_def] json_of_optional_def document_simps)

section \<open>Decoders read the documents back\<close>

text \<open>
  What a decoder finds in a field, as a function of the member found there: the form in which the
  simplifier evaluates a decoder on a document.
\<close>

definition read_field :: "(json \<Rightarrow> 'a result) \<Rightarrow> string \<Rightarrow> json option \<Rightarrow> 'a result" where
  "read_field f name found =
     (case found of None \<Rightarrow> fail NotFound ''required JSON field is missing'' name | Some v \<Rightarrow> f v)"

definition read_optional :: "json option \<Rightarrow> 'tag strong_id result" where
  "read_optional found =
     (case found of
        None \<Rightarrow> Inr no_id
      | Some v \<Rightarrow> if is_null v then Inr no_id else case as_string v of
          Inl e \<Rightarrow> Inr no_id | Inr t \<Rightarrow> if t = [] then Inr no_id else parse_hex t)"

named_theorems decode_simps "decoders on documents"

lemma require_read [decode_simps]:
  "json_require_string (JObject ms) k = read_field as_string k (map_of ms k)"
  "json_require_int (JObject ms) k = read_field as_int64 k (map_of ms k)"
  "json_require_uint (JObject ms) k = read_field as_uint64 k (map_of ms k)"
  "json_require_bool (JObject ms) k = read_field as_bool k (map_of ms k)"
  "json_require_object (JObject ms) k =
     read_field (\<lambda>v. if is_object v then Inr v else fail InvalidArgument ''JSON field is not an object'' k) k (map_of ms k)"
  "json_require_array (JObject ms) k =
     read_field (\<lambda>v. if is_array v then Inr v else fail InvalidArgument ''JSON field is not an array'' k) k (map_of ms k)"
  "json_id (JObject ms) k = read_field (\<lambda>v. try_bind (as_string v) parse_hex) k (map_of ms k)"
  by (simp_all add: json_require_string_def json_require_int_def json_require_uint_def json_require_bool_def
      json_require_object_def json_require_array_def json_id_def json_id_hex_def json_require_def read_field_def
      split: option.splits)

lemma optional_read [decode_simps]: "optional_id (JObject ms) k = read_optional (map_of ms k)"
  by (simp add: optional_id_def json_optional_id_hex_def read_optional_def split: option.splits sum.splits)

lemma read_field_Some [decode_simps]: "read_field f k (Some v) = f v"
  by (simp add: read_field_def)

lemma invalid_id: "\<not> valid_id i \<Longrightarrow> i = no_id"
  by (cases i) (simp add: valid_id_def no_id_def)

lemma id_to_hex_Nil [simp]: "id_to_hex i \<noteq> []"
  using length_id_to_hex [of i] by (metis list.size(3) zero_neq_numeral)

lemma read_optional_document [decode_simps]: "read_optional (Some (json_of_optional i)) = Inr i"
  using invalid_id [of i]
  by (auto simp: read_optional_def json_of_optional_def optional_hex_def)

lemma read_optional_id [decode_simps]: "read_optional (Some (json_of_id i)) = Inr i"
  by (auto simp: read_optional_def json_of_id_def)

lemma document_accessors [decode_simps]:
  "as_string (json_of_id i) = Inr (id_to_hex i)" "as_string (json_of_optional i) = Inr (optional_hex i)"
  "is_object (json_of_timestamp t)" "is_object (json_of_evidence ev)" "is_object (json_of_stamp s)"
  "\<not> is_null (json_of_revision r)"
  by (simp_all add: json_of_defs json_of_timestamp_def json_of_evidence_def json_of_stamp_def)

lemma parse_optional_hex [decode_simps]:
  "(if optional_hex i = [] then Inr no_id else parse_hex (optional_hex i)) = Inr i"
  using invalid_id [of i] by (auto simp: optional_hex_def)

definition read_revision :: "string \<Rightarrow> json option \<Rightarrow> revision result" where
  "read_revision k found = try_bind (read_field as_uint64 k found) (\<lambda>v.
     if v = 0 \<or> v > 0xFFFFFFFF then fail OutOfRange ''revision is outside the supported range'' k
     else revision_from_value (ucast v))"

lemma json_revision_read [decode_simps]: "json_revision (JObject ms) k = read_revision k (map_of ms k)"
  by (simp add: json_revision_def read_revision_def require_read)

lemma to_u64_uint_32:
  "uint (to_u64 (uint (r :: u32))) = uint r" "\<not> to_u64 (uint r) > 0xFFFFFFFF"
  "to_u64 (uint r) = 0 \<longleftrightarrow> r = 0" "ucast (to_u64 (uint r)) = r"
proof -
  have "uint r < 4294967296" using unsigned_less [of r, where ?'a = int] by simp
  then show u: "uint (to_u64 (uint r)) = uint r" "\<not> to_u64 (uint r) > 0xFFFFFFFF"
    by (simp_all add: to_u64_def uint_word_of_int word_less_def)
  then show "to_u64 (uint r) = 0 \<longleftrightarrow> r = 0" by (metis uint_0_iff)
  show "ucast (to_u64 (uint r)) = r" by (simp only: ucast_eq u word_of_int_uint)
qed

lemma as_uint64_revision [decode_simps]: "as_uint64 (json_of_revision r) = Inr (to_u64 (uint r))"
  by (simp add: json_of_revision_def as_uint64_def)

lemma as_uint64_number [decode_simps]: "as_uint64 (JNumber (uint (q :: u64))) = Inr q"
  by (simp add: as_uint64_def to_u64_def)

lemma as_uint64_document [decode_simps]: "as_uint64 (uint_json u) = Inr u"
  by (simp add: uint_json_def as_uint64_number)

lemma read_revision_document [decode_simps]: "r \<noteq> 0 \<Longrightarrow> read_revision k (Some (json_of_revision r)) = Inr r"
  by (simp add: read_revision_def decode_simps to_u64_uint_32 revision_from_value_def)

lemma decode_timestamp_document [decode_simps]: "decode_timestamp (json_of_timestamp t) = Inr t"
  using parse_optional_hex [of "ts_domain t"]
  by (cases t) (auto simp: decode_timestamp_def json_of_timestamp_def decode_simps split: if_splits)

subsection \<open>Evidence\<close>

text \<open>The flag that says reasons were dropped is written but not read back.\<close>

definition persisted_evidence :: "evidence \<Rightarrow> evidence" where
  "persisted_evidence ev = ev\<lparr>ev_truncated := False\<rparr>"

definition evidence_storable :: "evidence \<Rightarrow> bool" where
  "evidence_storable ev \<longleftrightarrow> evidence_inv ev \<and> (\<forall>r \<in> set (ev_reasons ev). reason_code_of r \<in> fst ` set kReasons)"

lemma add_reasons_distinct:
  "distinct (ev_reasons ev @ rs) \<Longrightarrow> length (ev_reasons ev @ rs) \<le> kMaxReasons
    \<Longrightarrow> add_reasons rs ev = ev\<lparr>ev_reasons := ev_reasons ev @ rs\<rparr>"
proof (induction rs arbitrary: ev)
  case (Cons r rs)
  let ?ev = "add_reason (reason_code_of r) (reason_detail r) ev"
  have ev: "?ev = ev\<lparr>ev_reasons := ev_reasons ev @ [r]\<rparr>"
    using Cons.prems by (simp add: add_reason_def)
  have "add_reasons (r # rs) ev = add_reasons rs ?ev" by (simp add: add_reasons_def)
  also have "\<dots> = ?ev\<lparr>ev_reasons := ev_reasons ?ev @ rs\<rparr>"
    by (rule Cons.IH) (use Cons.prems ev in auto)
  finally show ?case by (simp add: ev)
qed (simp add: add_reasons_def)

lemma decode_reasons_documents:
  "\<forall>r \<in> set rs. reason_code_of r \<in> fst ` set kReasons \<Longrightarrow> decode_reasons (map json_of_reason rs) ev = Inr (add_reasons rs ev)"
proof (induction rs arbitrary: ev)
  case (Cons r rs)
  then have "parse_reason_code (reason_to_string (reason_code_of r)) = Some (reason_code_of r)"
    by (simp add: parse_reason_code_def reason_to_string_def reason_names.parse_listed)
  with Cons show ?case
    by (simp add: json_of_reason_def optional_text_def add_reasons_def decode_simps)
qed (simp add: add_reasons_def)

lemma enum_texts [decode_simps]:
  "parse_evidence_state (state_to_string st) = Some st"
  "parse_freshness (freshness_to_string fr) = Some fr"
  "parse_confidence (confidence_to_string co) = Some co"
  "parse_source_kind (source_kind_to_string sk) = Some sk"
  "parse_authority_class (authority_to_string au) = Some au"
  "parse_hop_kind (hop_kind_to_string hk) = Some hk"
  "parse_endpoint_role (endpoint_role_to_string ro) = Some ro"
  "parse_clock_sync_state (sync_state_to_string cs) = Some cs"
  by (simp_all add: parse_evidence_state_def state_to_string_def parse_freshness_def freshness_to_string_def
      parse_confidence_def confidence_to_string_def parse_source_kind_def source_kind_to_string_def
      parse_authority_class_def authority_to_string_def parse_hop_kind_def hop_kind_to_string_def
      parse_endpoint_role_def endpoint_role_to_string_def parse_clock_sync_state_def sync_state_to_string_def
      state_names.parse_name freshness_names.parse_name confidence_names.parse_name source_kind_names.parse_name
      authority_names.parse_name hop_kind_names.parse_name endpoint_role_names.parse_name sync_state_names.parse_name)

lemma decode_evidence_document [decode_simps]:
  assumes "evidence_storable ev"
  shows "decode_evidence (json_of_evidence ev) = Inr (persisted_evidence ev)"
proof -
  have "add_reasons (ev_reasons ev) e = e\<lparr>ev_reasons := ev_reasons ev\<rparr>" if "ev_reasons e = []" for e :: evidence
    using assms that by (subst add_reasons_distinct) (auto simp: evidence_storable_def evidence_inv_def)
  then show ?thesis
    using assms decode_reasons_documents [of "ev_reasons ev"]
    by (simp add: decode_evidence_def json_of_evidence_def require_enum_def optional_enum_def
        evidence_storable_def persisted_evidence_def default_evidence_def decode_simps)
qed

subsection \<open>Measurements\<close>

lemma decode_stamp_document [decode_simps]:
  "decode_observation_stamp (json_of_stamp s) = Inr (s\<lparr>stamp_received_mono := \<lparr>mono_ns = 0\<rparr>\<rparr>)"
  by (cases s) (simp add: decode_observation_stamp_def json_of_stamp_def decode_simps)

definition timestamp_storable :: "timestamp \<Rightarrow> bool" where "timestamp_storable t \<longleftrightarrow> in_i64 (ts_ns t)"

definition optional_storable :: "int option \<Rightarrow> bool" where
  "optional_storable v \<longleftrightarrow> (case v of Some n \<Rightarrow> in_i64 n | None \<Rightarrow> True)"

definition persisted_hop :: "hop_observation \<Rightarrow> hop_observation" where
  "persisted_hop h = h\<lparr>ho_entry_domain := ts_domain (ho_entry h), ho_exit_domain := ts_domain (ho_exit h),
     ho_evidence := persisted_evidence (ho_evidence h)\<rparr>"

definition hop_storable :: "hop_observation \<Rightarrow> bool" where
  "hop_storable h \<longleftrightarrow> ho_index h < kMaxExclusive
     \<and> list_all timestamp_storable [ho_entry h, ho_exit h, ho_queue_entry h, ho_queue_exit h]
     \<and> list_all optional_storable [ho_dwell_ns h, ho_queue_dwell_ns h, ho_dwell_uncertainty_ns h,
         ho_queue_dwell_uncertainty_ns h]
     \<and> evidence_storable (ho_evidence h)"

lemma optional_int_read [decode_simps]:
  "map_of ms k = Some (json_of_optional_int v) \<Longrightarrow> json_optional_int (JObject ms) k = Inr v"
  by (cases v) (simp_all add: json_optional_int_def json_of_optional_int_def)

lemma optional_timestamp_read: "map_of ms k = Some (json_of_timestamp t) \<Longrightarrow> optional_timestamp (JObject ms) k = Inr t"
  by (simp add: optional_timestamp_def decode_simps)

lemma optional_evidence_read:
  "map_of ms ''evidence'' = Some (json_of_evidence ev) \<Longrightarrow> evidence_storable ev
    \<Longrightarrow> optional_evidence (JObject ms) = Inr (persisted_evidence ev)"
  by (simp add: optional_evidence_def decode_simps)

lemma decode_hop_observation_document:
  assumes "hop_storable h"
  shows "decode_hop_observation (json_of_hop_observation h) = Inr (persisted_hop h)"
proof -
  from assms have i: "hop_index_from_value (ho_index h) = Inr (ho_index h)" and e: "evidence_storable (ho_evidence h)"
    by (simp_all add: hop_storable_def hop_index_from_value_def not_le)
  note optional_int_read [where v = "ho_dwell_ns h"] optional_int_read [where v = "ho_queue_dwell_ns h"]
    optional_int_read [where v = "ho_dwell_uncertainty_ns h"] optional_int_read [where v = "ho_queue_dwell_uncertainty_ns h"]
    optional_timestamp_read [where t = "ho_queue_entry h"] optional_timestamp_read [where t = "ho_queue_exit h"]
    optional_evidence_read [OF _ e]
  then show ?thesis
    using i e
    by (cases h) (simp add: decode_hop_observation_def json_of_hop_observation_def persisted_hop_def
        to_u64_uint_32 decode_simps)
qed

lemma decode_list_documents:
  "(\<And>x. x \<in> set xs \<Longrightarrow> decode (document x) = Inr (f x)) \<Longrightarrow> decode_list decode (map document xs) = Inr (map f xs)"
  by (induction xs) simp_all

definition persisted_record :: "measurement_record \<Rightarrow> measurement_record" where
  "persisted_record r = r\<lparr>rec_id := emitted_id r, rec_domain := ts_domain (rec_request r),
     rec_hops := map persisted_hop (rec_hops r),
     rec_stamp := (rec_stamp r)\<lparr>stamp_received_mono := \<lparr>mono_ns = 0\<rparr>\<rparr>,
     rec_evidence := persisted_evidence (rec_evidence r)\<rparr>"

definition record_storable :: "measurement_record \<Rightarrow> bool" where
  "record_storable r \<longleftrightarrow> rec_source_revision r \<noteq> 0 \<and> unat (rec_sequence r) \<le> 9223372036854775807
     \<and> valid_id (ts_domain (rec_request r)) \<and> ts_domain (rec_response r) = ts_domain (rec_request r)
     \<and> list_all timestamp_storable [rec_request r, rec_response r, stamp_observed_at (rec_stamp r),
         stamp_received_at (rec_stamp r)]
     \<and> in_i64 (rec_rtt_ns r) \<and> evidence_storable (rec_evidence r) \<and> list_all hop_storable (rec_hops r)"

lemma emitted_id_valid [simp]: "valid_id (emitted_id r)"
  by (simp add: emitted_id_def derive_measurement_id_def)

lemma decode_measurement_document:
  assumes "record_storable r"
  shows "decode_measurement (json_of_measurement r) = Inr (persisted_record r)"
proof -
  from assms have e: "evidence_storable (rec_evidence r)" and h: "\<forall>h \<in> set (rec_hops r). hop_storable h"
    and r: "rec_source_revision r \<noteq> 0" and d: "valid_id (ts_domain (rec_request r))"
      "ts_domain (rec_response r) = ts_domain (rec_request r)"
    by (simp_all add: record_storable_def list_all_iff)
  have hops: "decode_list decode_hop_observation (map json_of_hop_observation (rec_hops r)) = Inr (map persisted_hop (rec_hops r))"
    by (rule decode_list_documents) (use h decode_hop_observation_document in blast)
  note optional_evidence_read [OF _ e] optional_read read_optional_document
  then show ?thesis
    using e r d hops emitted_id_valid [of r]
    by (cases r) (simp add: decode_measurement_def json_of_measurement_def persisted_record_def decode_simps)
qed

subsection \<open>Documents are well formed\<close>

lemma in_i64_uint_32 [simp]: "in_i64 (uint (r :: u32))"
proof -
  have "0 \<le> uint r" "uint r < 4294967296" using unsigned_less [of r, where ?'a = int] by simp_all
  then show ?thesis unfolding in_i64_iff by linarith
qed

text \<open>Unsigned values above the largest signed one are written and not readable.\<close>

definition readable :: "u64 \<Rightarrow> bool" where "readable u \<longleftrightarrow> in_i64 (uint u)"

lemma json_ok_uint [simp]: "readable u \<Longrightarrow> json_ok d (uint_json u)"
  by (simp add: readable_def uint_json_def)

lemma json_ok_leaves [simp]:
  "json_ok d (json_of_id i)" "json_ok d (json_of_optional i)" "json_ok d (json_of_revision r)"
  "optional_storable v \<Longrightarrow> json_ok d (json_of_optional_int v)"
  by (simp_all add: json_of_defs optional_storable_def split: option.splits)

lemma json_ok_timestamp [simp]: "timestamp_storable t \<Longrightarrow> 1 \<le> d \<Longrightarrow> json_ok d (json_of_timestamp t)"
  by (simp add: json_of_timestamp_def timestamp_storable_def)

lemma json_ok_evidence [simp]: "3 \<le> d \<Longrightarrow> json_ok d (json_of_evidence ev)"
  by (auto simp: json_of_evidence_def json_of_reason_def)

lemma json_ok_hop: "hop_storable h \<Longrightarrow> 4 \<le> d \<Longrightarrow> json_ok d (json_of_hop_observation h)"
  by (simp add: json_of_hop_observation_def hop_storable_def)

lemma json_ok_measurement:
  assumes "record_storable r" "6 \<le> d"
  shows "json_ok d (json_of_measurement r)"
proof -
  have "unat (rec_sequence r) \<le> 9223372036854775807" using assms by (simp add: record_storable_def)
  then have "in_i64 (int (unat (rec_sequence r)))" unfolding in_i64_iff by linarith
  then have q: "in_i64 (uint (rec_sequence r))" by simp
  have "json_ok (d - 2) (json_of_hop_observation h)" if "h \<in> set (rec_hops r)" for h
    using assms that by (intro json_ok_hop) (auto simp: record_storable_def list_all_iff)
  moreover have "json_ok (d - 1) (json_of_stamp (rec_stamp r))"
    using assms by (simp add: json_of_stamp_def record_storable_def)
  ultimately show ?thesis using assms q
    by (auto simp: json_of_measurement_def record_storable_def numeral_2_eq_2)
qed

subsection \<open>Definitions and synchronisation reports\<close>

lemma description_read [decode_simps]: "map_of ms k = Some (JString t) \<Longrightarrow> optional_text (JObject ms) k = t"
  by (simp add: optional_text_def)

lemma json_name_read: "map_of ms k = Some (JString n) \<Longrightarrow> name_ok n \<Longrightarrow> json_name (JObject ms) k = Inr n"
  by (simp add: json_name_def decode_simps parse_name_iff)

lemma require_enum_read:
  "map_of ms k = Some (JString t) \<Longrightarrow> parse t = Some e \<Longrightarrow> require_enum (JObject ms) k parse m = Inr e"
  by (simp add: require_enum_def decode_simps)

lemmas entity_decoders = decode_source_def decode_endpoint_def decode_link_def decode_queue_def decode_hop_def
  decode_generation_def decode_path_def decode_clock_domain_def decode_clock_sync_def

lemmas entity_documents = json_of_source_def json_of_endpoint_def json_of_link_def json_of_queue_def json_of_hop_def
  json_of_generation_def json_of_path_def json_of_clock_domain_def json_of_clock_sync_def

lemma decode_path_hops: "decode_list (\<lambda>entry. try_bind (as_string entry) parse_hex) (map json_of_id hs) = Inr hs"
  using decode_list_documents [of hs "\<lambda>entry. try_bind (as_string entry) parse_hex" json_of_id "\<lambda>h. h"]
  by (simp add: decode_simps)

text \<open>A definition as the catalog keeps it: a valid name with the identity derived from it, and a revision.\<close>

definition entity_storable :: "name \<Rightarrow> 'tag strong_id \<Rightarrow> revision \<Rightarrow> bool" where
  "entity_storable n i r \<longleftrightarrow> name_ok n \<and> i = derive_from n \<and> r \<noteq> 0"

lemma decode_entities:
  "entity_storable (src_name s) (src_id s) (src_revision s) \<Longrightarrow>
     decode_source (json_of_source s) = Inr (s\<lparr>src_semantics := src_semantics s AND 7\<rparr>)"
  "entity_storable (ep_name e) (ep_id e) (ep_revision e) \<Longrightarrow> decode_endpoint (json_of_endpoint e) = Inr e"
  "entity_storable (link_name l) (link_id l) (link_revision l) \<Longrightarrow> decode_link (json_of_link l) = Inr l"
  "entity_storable (queue_name q) (queue_id q) (queue_revision q) \<Longrightarrow>
     decode_queue (json_of_queue q) = Inr (q\<lparr>queue_semantics := queue_semantics q AND 7\<rparr>)"
  "entity_storable (hop_name h) (hop_id h) (hop_revision h) \<Longrightarrow> decode_hop (json_of_hop h) = Inr h"
  "entity_storable (gen_name g) (gen_id g) (gen_revision g) \<Longrightarrow> decode_generation (json_of_generation g) = Inr g"
  "entity_storable (path_name p) (path_id p) (path_revision p) \<Longrightarrow> decode_path (json_of_path p) = Inr p"
  "name_ok (dom_name d) \<Longrightarrow> dom_id d = derive_from (dom_name d) \<Longrightarrow>
     decode_clock_domain (json_of_clock_domain d) = Inr d"
  by (auto simp: entity_storable_def entity_decoders entity_documents json_name_read require_enum_def
      semantics_text_roundtrip decode_path_hops decode_simps)

definition sync_storable :: "clock_sync \<Rightarrow> bool" where
  "sync_storable s \<longleftrightarrow> sync_revision s \<noteq> 0
     \<and> list_all in_i64 [sync_offset_ns s, sync_skew_ppb s, sync_uncertainty_ns s, sync_valid_for_ns s,
         ts_ns (sync_observed_at s)]"

lemma as_int64_number [decode_simps]: "as_int64 (JNumber n) = Inr n"
  by simp

lemma decode_sync:
  assumes "sync_revision s \<noteq> 0"
  shows "decode_clock_sync (json_of_clock_sync s) = Inr s"
  using assms parse_optional_hex [of "ts_domain (sync_observed_at s)"]
  by (cases s; cases "sync_observed_at s")
    (simp add: decode_clock_sync_def json_of_clock_sync_def require_enum_def decode_simps)

text \<open>A report without a revision is written with revision zero, which no decoder accepts.\<close>

lemma decode_sync_unrevised:
  assumes "sync_revision s = 0"
  shows "decode_clock_sync (json_of_clock_sync s) = fail OutOfRange ''revision is outside the supported range'' ''revision''"
  using assms parse_optional_hex [of "ts_domain (sync_observed_at s)"]
  by (cases s; cases "sync_observed_at s")
    (simp add: decode_clock_sync_def json_of_clock_sync_def require_enum_def decode_simps read_revision_def to_u64_uint_32 to_u64_def)

lemma json_ok_entities:
  "1 \<le> n \<Longrightarrow> json_ok n (json_of_source s)" "1 \<le> n \<Longrightarrow> json_ok n (json_of_endpoint e)"
  "1 \<le> n \<Longrightarrow> json_ok n (json_of_link l)" "1 \<le> n \<Longrightarrow> json_ok n (json_of_queue q)"
  "1 \<le> n \<Longrightarrow> json_ok n (json_of_hop h)" "1 \<le> n \<Longrightarrow> json_ok n (json_of_generation g)"
  "2 \<le> n \<Longrightarrow> json_ok n (json_of_path p)" "1 \<le> n \<Longrightarrow> json_ok n (json_of_clock_domain d)"
  "1 \<le> n \<Longrightarrow> list_all in_i64 [sync_offset_ns y, sync_skew_ppb y, sync_uncertainty_ns y, sync_valid_for_ns y,
         ts_ns (sync_observed_at y)] \<Longrightarrow> json_ok n (json_of_clock_sync y)"
  by (auto simp: entity_documents)

text \<open>Reading back a document through the text: what every codec theorem rests on.\<close>

lemma decode_text_written:
  assumes "written f = Some text" "f = write_value v" "json_ok (max_json_depth l) v" "length text \<le> max_json_bytes l"
  shows "decode_text what decode text l = Some (decode v)"
  using assms by (auto simp: decode_text_def written_value parse_render)

text \<open>A stored measurement is read back: for a record whose readings are 64-bit values, whose source
  revision is set, whose sequence number is at most the largest signed value, whose request and response
  share a valid clock domain and whose evidence has registered reason codes, the text that \<^verbatim>\<open>write_json\<close>
  produces, when it is within the size and depth limits, decodes to the same record; only the derived
  identity is filled in, the clock domains are taken from the readings, and the local monotonic reading
  and the flag for dropped reasons are not kept.\<close>
lemma measurement_codec_roundtrip:
  assumes "record_storable r" and "written (write_measurement r) = Some text"
    and "length text \<le> max_json_bytes l" and "6 \<le> max_json_depth l"
  shows "decode_measurement_text text l = Some (Inr (persisted_record r))"
proof -
  have "json_ok (max_json_depth l) (json_of_measurement r)" using assms by (intro json_ok_measurement)
  from decode_text_written [OF assms(2) write_measurement_document this assms(3), of "''measurement''" decode_measurement]
  show ?thesis by (simp add: decode_measurement_text_def decode_measurement_document [OF assms(1)])
qed

text \<open>A decoder reads back, through the text, what an encoder has written.\<close>

definition reads_back :: "nat \<Rightarrow> writer_op \<Rightarrow> (json \<Rightarrow> 'a result) \<Rightarrow> 'a result \<Rightarrow> bool" where
  "reads_back depth f decode result \<longleftrightarrow>
     (\<exists>text j. written f = Some text \<and> parse_json text depth = Some (Inr j) \<and> decode j = result)"

lemma reads_back_value: "json_ok depth v \<Longrightarrow> reads_back depth (write_value v) decode result \<longleftrightarrow> decode v = result"
  by (auto simp: reads_back_def written_value parse_render)

text \<open>Definitions survive their text form: a source, endpoint, link, queue, hop, generation, path or clock
  domain with a valid name, the identity derived from it and a revision is read back unchanged by its
  decoder from the text its encoder writes, except that undeclared bits of a semantics mask are dropped.
  A synchronisation report with 64-bit readings is read back unchanged when its revision is set; when it
  is not, the text is written all the same and no decoder accepts it.\<close>
lemma definition_codec_roundtrip:
  assumes "2 \<le> depth"
  shows "(entity_storable (src_name s) (src_id s) (src_revision s) \<longrightarrow>
      reads_back depth (write_source s) decode_source (Inr (s\<lparr>src_semantics := src_semantics s AND 7\<rparr>)))
    \<and> (entity_storable (ep_name e) (ep_id e) (ep_revision e) \<longrightarrow> reads_back depth (write_endpoint e) decode_endpoint (Inr e))
    \<and> (entity_storable (link_name k) (link_id k) (link_revision k) \<longrightarrow> reads_back depth (write_link k) decode_link (Inr k))
    \<and> (entity_storable (queue_name q) (queue_id q) (queue_revision q) \<longrightarrow>
      reads_back depth (write_queue q) decode_queue (Inr (q\<lparr>queue_semantics := queue_semantics q AND 7\<rparr>)))
    \<and> (entity_storable (hop_name h) (hop_id h) (hop_revision h) \<longrightarrow> reads_back depth (write_hop h) decode_hop (Inr h))
    \<and> (entity_storable (gen_name g) (gen_id g) (gen_revision g) \<longrightarrow>
      reads_back depth (write_generation g) decode_generation (Inr g))
    \<and> (entity_storable (path_name p) (path_id p) (path_revision p) \<longrightarrow> reads_back depth (write_path p) decode_path (Inr p))
    \<and> (name_ok (dom_name d) \<and> dom_id d = derive_from (dom_name d) \<longrightarrow>
      reads_back depth (write_clock_domain d) decode_clock_domain (Inr d))
    \<and> (sync_storable y \<longrightarrow> reads_back depth (write_clock_sync y) decode_clock_sync (Inr y))
    \<and> (sync_storable (y\<lparr>sync_revision := 1\<rparr>) \<and> sync_revision y = 0 \<longrightarrow>
      reads_back depth (write_clock_sync y) decode_clock_sync
        (fail OutOfRange ''revision is outside the supported range'' ''revision''))"
  using assms
  by (simp add: write_entity_documents reads_back_value json_ok_entities decode_entities decode_sync
      decode_sync_unrevised sync_storable_def)

definition sample_domain :: clock_domain_id where "sample_domain = StrongId 9"

definition sample_record :: measurement_record where
  "sample_record =
     \<lparr>rec_id = no_id, rec_path = StrongId 1, rec_generation = StrongId 2, rec_source = StrongId 3,
      rec_epoch = StrongId 4, rec_incarnation = StrongId 5, rec_source_revision = 1, rec_sequence = 7,
      rec_domain = sample_domain, rec_request = \<lparr>ts_ns = 100, ts_domain = sample_domain\<rparr>,
      rec_response = \<lparr>ts_ns = 350, ts_domain = sample_domain\<rparr>, rec_rtt_ns = 250,
      rec_hops =
        [\<lparr>ho_index = 0, ho_hop = StrongId 6, ho_link = no_id, ho_queue = no_id,
          ho_entry_domain = sample_domain, ho_exit_domain = sample_domain,
          ho_entry = \<lparr>ts_ns = 110, ts_domain = sample_domain\<rparr>,
          ho_exit = \<lparr>ts_ns = 150, ts_domain = sample_domain\<rparr>,
          ho_queue_entry = unset_timestamp, ho_queue_exit = unset_timestamp,
          ho_dwell_ns = Some 40, ho_queue_dwell_ns = None, ho_dwell_uncertainty_ns = Some 0,
          ho_queue_dwell_uncertainty_ns = None, ho_evidence = default_evidence\<rparr>],
      rec_stamp = \<lparr>stamp_observed_at = \<lparr>ts_ns = 400, ts_domain = sample_domain\<rparr>,
        stamp_received_at = \<lparr>ts_ns = 500, ts_domain = sample_domain\<rparr>, stamp_received_mono = \<lparr>mono_ns = 12\<rparr>\<rparr>,
      rec_evidence = default_evidence, rec_synthetic = False\<rparr>"

lemma sample_record_storable: "record_storable sample_record"
  by (simp add: record_storable_def sample_record_def hop_storable_def timestamp_storable_def optional_storable_def
      evidence_storable_def unset_timestamp_def kMaxExclusive_def in_i64_iff sample_domain_def valid_id_def)
    (simp add: default_evidence_def)

lemma measurement_codec_roundtrip_example:
  "decode_measurement_text (render False 0 (json_of_measurement sample_record))
     (default_limits\<lparr>max_json_bytes := length (render False 0 (json_of_measurement sample_record)), max_json_depth := 6\<rparr>)
   = Some (Inr (persisted_record sample_record))"
  by (rule measurement_codec_roundtrip [OF sample_record_storable])
    (simp_all add: write_measurement_document written_value)

lemma definition_codec_roundtrip_example:
  "reads_back 2 (write_endpoint \<lparr>ep_id = derive_from ''client'', ep_name = ''client'', ep_role = Client, ep_revision = 1\<rparr>)
     decode_endpoint (Inr \<lparr>ep_id = derive_from ''client'', ep_name = ''client'', ep_role = Client, ep_revision = 1\<rparr>)"
proof -
  let ?e = "\<lparr>ep_id = derive_from ''client'', ep_name = ''client'', ep_role = Client, ep_revision = 1\<rparr>"
  have "entity_storable (ep_name ?e) (ep_id ?e) (ep_revision ?e)"
    by (simp add: entity_storable_def name_ok_def is_name_start_def is_name_char_def kMaxLength_def)
  then show ?thesis using definition_codec_roundtrip [of 2 _ ?e] by blast
qed

end
