(* ===== verification/Stats_Codec.thy ===== *)
theory Stats_Codec
  imports Baseline Model_Codec
begin

text \<open>
  \<^verbatim>\<open>stats/codec.cpp\<close> and the \<^verbatim>\<open>write_json\<close> functions of \<^verbatim>\<open>stats/distribution.cpp\<close> and \<^verbatim>\<open>stats/summary.cpp\<close>: the
  canonical text of windows, histograms, distributions and summaries, and the decoders that read
  stored distributions back.
\<close>

section \<open>Encoders\<close>

definition write_window :: "time_window \<Rightarrow> writer_op" where
  "write_window w = wrun
     [begin_object,
      field_int ''from_ns'' (ts_ns (tw_from w)),
      field_int ''to_ns'' (ts_ns (tw_to w)),
      field_string ''clock_domain'' (optional_hex (ts_domain (tw_from w))),
      end_object]"

definition write_probe :: "quantile_probe \<Rightarrow> writer_op" where
  "write_probe p = wrun
     [begin_object,
      field_string ''probe'' (probe_to_string p),
      field_uint ''numerator'' (ucast (qp_numerator p)),
      field_uint ''denominator'' (ucast (qp_denominator p)),
      end_object]"

definition write_spec :: "histogram_spec \<Rightarrow> writer_op" where
  "write_spec spec = wrun
     [begin_object,
      field_string ''digest'' (spec_digest spec),
      field_array ''bounds'',
      wrun (map value_int spec),
      end_array,
      end_object]"

text \<open>A bucket is half open; the last one is the overflow bucket.\<close>

definition write_bucket :: "histogram \<Rightarrow> nat \<Rightarrow> writer_op" where
  "write_bucket h index = wrun
     [begin_object,
      field_uint ''index'' (word_of_nat index),
      (if index < length (hg_spec h) then wrun
         [(if index = 0 then field_int ''lower_ns'' 0 else field_int ''lower_ns'' (hg_spec h ! (index - 1))),
          field_int ''upper_ns'' (hg_spec h ! index)]
       else wrun
         [field_int ''lower_ns'' (if hg_spec h = [] then 0 else last (hg_spec h)),
          field_null ''upper_ns'']),
      field_uint ''count'' (hg_buckets h ! index),
      end_object]"

definition write_histogram :: "histogram \<Rightarrow> writer_op" where
  "write_histogram h = wrun
     [begin_object,
      json_key ''spec'', write_spec (hg_spec h),
      field_uint ''underflow'' (hg_underflow h),
      field_array ''buckets'',
      wrun (map (write_bucket h) [0..<length (hg_buckets h)]),
      end_array,
      end_object]"

definition write_quantile :: "distribution \<Rightarrow> nat \<Rightarrow> writer_op" where
  "write_quantile d index = wrun
     [begin_object,
      field_string ''probe'' (if index < length (d_probes d) then probe_to_string (d_probes d ! index) else ''unknown''),
      field_optional_int ''value_ns'' (d_quantiles d ! index),
      end_object]"

definition write_distribution :: "distribution \<Rightarrow> writer_op" where
  "write_distribution d = wrun
     [begin_object,
      field_uint ''count'' (d_count d),
      field_optional_int ''min_ns'' (d_min_ns d),
      field_optional_int ''max_ns'' (d_max_ns d),
      field_optional_int ''sum_ns'' (d_sum_ns d),
      field_optional_int ''mean_ns'' (d_mean_ns d),
      field_uint ''mean_remainder_ns'' (d_mean_remainder_ns d),
      field_bool ''sum_overflowed'' (d_sum_overflowed d),
      json_key ''histogram'', write_histogram (d_histogram d),
      field_array ''quantiles'',
      wrun (map (write_quantile d) [0..<length (d_quantiles d)]),
      end_array,
      end_object]"

definition write_hop_summary :: "hop_summary \<Rightarrow> writer_op" where
  "write_hop_summary s = wrun
     [begin_object,
      field_uint ''index'' (ucast (hs_index s)),
      field_string ''hop'' (id_to_hex (hs_hop s)),
      field_uint ''exchanges_included'' (hs_exchanges_included s),
      field_uint ''dwells_observed'' (hs_dwells_observed s),
      field_uint ''dwells_missing'' (hs_dwells_missing s),
      field_uint ''dwells_unsupported'' (hs_dwells_unsupported s),
      field_uint ''queue_dwells_observed'' (hs_queue_dwells_observed s),
      field_uint ''queue_dwells_unsupported'' (hs_queue_dwells_unsupported s),
      field_uint ''coverage_ppm'' (hs_coverage_ppm s),
      json_key ''dwell'', write_distribution (hs_dwell s),
      json_key ''queue_dwell'', write_distribution (hs_queue_dwell s),
      field_string ''evidence_state'' (state_to_string (ev_state (hs_evidence s))),
      field_string ''freshness'' (freshness_to_string (ev_freshness (hs_evidence s))),
      field_string ''confidence'' (confidence_to_string (ev_confidence (hs_evidence s))),
      write_reasons (hs_evidence s),
      end_object]"

definition write_path_summary :: "path_summary \<Rightarrow> writer_op" where
  "write_path_summary s = wrun
     [begin_object,
      field_string ''path'' (id_to_hex (ps_path s)),
      field_string ''generation'' (id_to_hex (ps_generation s)),
      field_string ''clock_domain'' (id_to_hex (ps_domain s)),
      field_string ''mode'' (mode_to_string (ps_mode s)),
      field_object ''window'',
      field_int ''from_ns'' (ts_ns (tw_from (ps_window s))),
      field_int ''to_ns'' (ts_ns (tw_to (ps_window s))),
      field_string ''clock_domain'' (id_to_hex (ts_domain (tw_from (ps_window s)))),
      end_object,
      field_int ''as_of_ns'' (ts_ns (ps_as_of s)),
      field_uint ''exchanges_considered'' (ps_exchanges_considered s),
      field_uint ''exchanges_included'' (ps_exchanges_included s),
      field_uint ''excluded_other_path'' (ps_excluded_other_path s),
      field_uint ''excluded_other_generation'' (ps_excluded_other_generation s),
      field_uint ''excluded_out_of_window'' (ps_excluded_out_of_window s),
      field_uint ''excluded_stale'' (ps_excluded_stale s),
      field_uint ''excluded_conflicting'' (ps_excluded_conflicting s),
      field_uint ''excluded_unsupported'' (ps_excluded_unsupported s),
      field_uint ''excluded_clock_domain'' (ps_excluded_clock_domain s),
      json_key ''end_to_end'', write_distribution (ps_end_to_end s),
      field_array ''hops'',
      wrun (map write_hop_summary (ps_hops s)),
      end_array,
      field_string ''evidence_state'' (state_to_string (ev_state (ps_evidence s))),
      field_string ''freshness'' (freshness_to_string (ev_freshness (ps_evidence s))),
      field_string ''confidence'' (confidence_to_string (ev_confidence (ps_evidence s))),
      field_string ''policy_digest'' (ps_policy_digest s),
      write_reasons (ps_evidence s),
      end_object]"

section \<open>Decoders\<close>

definition parse_quantile_probe :: "string \<Rightarrow> quantile_probe result" where
  "parse_quantile_probe t =
     (if CHR ''/'' \<notin> set t then fail ParseError ''quantile probe is not of the form n/d'' t
      else case (parse_u64 (takeWhile (\<lambda>c. c \<noteq> CHR ''/'') t), parse_u64 (tl (dropWhile (\<lambda>c. c \<noteq> CHR ''/'') t))) of
        (Some numerator, Some denominator) \<Rightarrow>
          if numerator > 0xFFFFFFFF \<or> denominator > 0xFFFFFFFF
          then fail ParseError ''quantile probe is not a valid rational'' t
          else make_probe (ucast numerator) (ucast denominator)
      | _ \<Rightarrow> fail ParseError ''quantile probe is not a valid rational'' t)"

definition decode_time_window :: "json \<Rightarrow> time_window result" where
  "decode_time_window j =
     (if \<not> is_object j then fail ParseError ''time window must be an object'' []
      else try_bind (json_require_int j ''from_ns'') (\<lambda>from_ns.
        try_bind (json_require_int j ''to_ns'') (\<lambda>to_ns.
        try_bind (json_require_string j ''clock_domain'') (\<lambda>domain_text.
          if domain_text = [] then fail ParseError ''time window has no clock domain'' []
          else try_bind (parse_hex domain_text) (\<lambda>domain.
            make_window \<lparr>ts_ns = from_ns, ts_domain = domain\<rparr> \<lparr>ts_ns = to_ns, ts_domain = domain\<rparr>)))))"

text \<open>The decoder applies the default limits, not the configured ones.\<close>

definition decode_histogram_spec :: "json \<Rightarrow> histogram_spec result" where
  "decode_histogram_spec j =
     (if \<not> is_object j then fail ParseError ''histogram spec must be an object'' []
      else try_bind (json_require_array j ''bounds'') (\<lambda>bounds.
        try_bind (as_array bounds) (\<lambda>items.
        try_bind (decode_list as_int64 items) (\<lambda>parsed. make_spec parsed default_limits))))"

fun decode_buckets :: "json list \<Rightarrow> nat \<Rightarrow> u64 list \<Rightarrow> (nat \<times> u64 list) result" where
  "decode_buckets [] index buckets = Inr (index, buckets)"
| "decode_buckets (entry # rest) index buckets =
     try_bind (json_require_uint entry ''index'') (\<lambda>entry_index.
     try_bind (json_require_uint entry ''count'') (\<lambda>count.
       if unat entry_index \<noteq> index \<or> index \<ge> length buckets
       then fail ParseError ''histogram buckets are not dense and ordered'' []
       else decode_buckets rest (Suc index) (buckets[index := count])))"

definition decode_histogram :: "json \<Rightarrow> histogram result" where
  "decode_histogram j =
     (if \<not> is_object j then fail ParseError ''histogram must be an object'' []
      else try_bind (json_require_object j ''spec'') (\<lambda>spec_value.
        try_bind (decode_histogram_spec spec_value) (\<lambda>spec.
        try_bind (json_require_uint j ''underflow'') (\<lambda>underflow.
        try_bind (json_require_array j ''buckets'') (\<lambda>bucket_value.
        try_bind (as_array bucket_value) (\<lambda>bucket_values.
        try_bind (decode_buckets bucket_values 0 (hg_buckets (empty_histogram spec))) (\<lambda>(index, buckets).
          if index \<noteq> length buckets
          then fail ParseError ''histogram bucket count does not match its specification'' []
          else Inr \<lparr>hg_spec = spec, hg_buckets = buckets, hg_underflow = underflow\<rparr>)))))))"

definition decode_quantile :: "json \<Rightarrow> (quantile_probe \<times> nanos option) result" where
  "decode_quantile j =
     try_bind (json_require_string j ''probe'') (\<lambda>probe_text.
     try_bind (parse_quantile_probe probe_text) (\<lambda>probe.
     try_bind (json_optional_int j ''value_ns'') (\<lambda>quantile_value. Inr (probe, quantile_value))))"

definition decode_distribution :: "json \<Rightarrow> distribution result" where
  "decode_distribution j =
     (if \<not> is_object j then fail ParseError ''distribution must be an object'' []
      else try_bind (json_require_uint j ''count'') (\<lambda>count.
        try_bind (json_optional_int j ''min_ns'') (\<lambda>minimum.
        try_bind (json_optional_int j ''max_ns'') (\<lambda>maximum.
        try_bind (json_optional_int j ''sum_ns'') (\<lambda>sum_ns.
        try_bind (json_optional_int j ''mean_ns'') (\<lambda>mean.
        try_bind (json_require_uint j ''mean_remainder_ns'') (\<lambda>remainder.
        try_bind (json_require_bool j ''sum_overflowed'') (\<lambda>overflowed.
        try_bind (json_require_object j ''histogram'') (\<lambda>histogram_value.
        try_bind (decode_histogram histogram_value) (\<lambda>histogram.
        try_bind (json_require_array j ''quantiles'') (\<lambda>quantile_array.
        try_bind (as_array quantile_array) (\<lambda>quantile_values.
        try_bind (decode_list decode_quantile quantile_values) (\<lambda>quantiles.
          if count = 0 \<and> (minimum \<noteq> None \<or> maximum \<noteq> None \<or> mean \<noteq> None)
          then fail ParseError ''an empty distribution must not carry values'' []
          else Inr \<lparr>d_count = count, d_min_ns = minimum, d_max_ns = maximum, d_sum_ns = sum_ns, d_mean_ns = mean,
             d_mean_remainder_ns = remainder, d_sum_overflowed = overflowed, d_histogram = histogram,
             d_probes = map fst quantiles, d_quantiles = map snd quantiles\<rparr>)))))))))))))"

text \<open>An optional field of a hop summary is used when it is a known text and ignored otherwise.\<close>

definition lenient_enum :: "json \<Rightarrow> string \<Rightarrow> (string \<Rightarrow> 'e option) \<Rightarrow> 'e \<Rightarrow> 'e" where
  "lenient_enum j field parse absent =
     (case json_find j field of
        Some (JString t) \<Rightarrow> (case parse t of Some e \<Rightarrow> e | None \<Rightarrow> absent)
      | _ \<Rightarrow> absent)"

definition decode_summary_evidence :: "json \<Rightarrow> evidence result" where
  "decode_summary_evidence j =
     try_bind (require_enum j ''evidence_state'' parse_evidence_state ''unknown evidence state'') (\<lambda>st.
       let ev = default_evidence\<lparr>ev_state := st,
                  ev_freshness := lenient_enum j ''freshness'' parse_freshness (ev_freshness default_evidence),
                  ev_confidence := lenient_enum j ''confidence'' parse_confidence (ev_confidence default_evidence)\<rparr>
       in case json_find j ''reasons'' of
            Some (JArray entries) \<Rightarrow> decode_reasons entries ev
          | _ \<Rightarrow> Inr ev)"

definition decode_hop_summary :: "json \<Rightarrow> hop_summary result" where
  "decode_hop_summary j =
     (if \<not> is_object j then fail ParseError ''hop summary must be an object'' []
      else try_bind (json_require_uint j ''index'') (\<lambda>index_value.
        if index_value > 0xFFFFFFFF then fail OutOfRange ''hop index is outside the supported range'' []
        else try_bind (hop_index_from_value (ucast index_value)) (\<lambda>index.
        try_bind (json_id j ''hop'') (\<lambda>hop.
        try_bind (json_require_uint j ''exchanges_included'') (\<lambda>included.
        try_bind (json_require_uint j ''dwells_observed'') (\<lambda>observed.
        try_bind (json_require_uint j ''dwells_missing'') (\<lambda>missing.
        try_bind (json_require_uint j ''dwells_unsupported'') (\<lambda>unsupported.
        try_bind (json_require_uint j ''queue_dwells_observed'') (\<lambda>queue_observed.
        try_bind (json_require_uint j ''queue_dwells_unsupported'') (\<lambda>queue_unsupported.
        try_bind (json_require_uint j ''coverage_ppm'') (\<lambda>coverage.
        try_bind (json_require_object j ''dwell'') (\<lambda>dwell_value.
        try_bind (decode_distribution dwell_value) (\<lambda>dwell.
        try_bind (json_require_object j ''queue_dwell'') (\<lambda>queue_value.
        try_bind (decode_distribution queue_value) (\<lambda>queue_dwell.
        try_bind (decode_summary_evidence j) (\<lambda>ev.
          Inr \<lparr>hs_index = index, hs_hop = hop, hs_exchanges_included = included, hs_dwells_observed = observed,
             hs_dwells_missing = missing, hs_dwells_unsupported = unsupported,
             hs_queue_dwells_observed = queue_observed, hs_queue_dwells_unsupported = queue_unsupported,
             hs_coverage_ppm = coverage, hs_dwell = dwell, hs_queue_dwell = queue_dwell, hs_evidence = ev\<rparr>))))))))))))))))"

section \<open>Documents\<close>

definition json_of_window :: "time_window \<Rightarrow> json" where
  "json_of_window w = JObject
     [(''from_ns'', JNumber (ts_ns (tw_from w))), (''to_ns'', JNumber (ts_ns (tw_to w))),
      (''clock_domain'', json_of_optional (ts_domain (tw_from w)))]"

definition json_of_spec :: "histogram_spec \<Rightarrow> json" where
  "json_of_spec spec = JObject [(''digest'', JString (spec_digest spec)), (''bounds'', JArray (map JNumber spec))]"

definition bucket_lower :: "histogram_spec \<Rightarrow> nat \<Rightarrow> nanos" where
  "bucket_lower spec i = (if i < length spec then if i = 0 then 0 else spec ! (i - 1) else if spec = [] then 0 else last spec)"

definition bucket_upper :: "histogram_spec \<Rightarrow> nat \<Rightarrow> nanos option" where
  "bucket_upper spec i = (if i < length spec then Some (spec ! i) else None)"

definition json_of_bucket :: "histogram \<Rightarrow> nat \<Rightarrow> json" where
  "json_of_bucket h i = JObject
     [(''index'', uint_json (word_of_nat i)), (''lower_ns'', JNumber (bucket_lower (hg_spec h) i)),
      (''upper_ns'', json_of_optional_int (bucket_upper (hg_spec h) i)), (''count'', uint_json (hg_buckets h ! i))]"

definition json_of_histogram :: "histogram \<Rightarrow> json" where
  "json_of_histogram h = JObject
     [(''spec'', json_of_spec (hg_spec h)), (''underflow'', uint_json (hg_underflow h)),
      (''buckets'', JArray (map (json_of_bucket h) [0..<length (hg_buckets h)]))]"

definition json_of_quantile :: "distribution \<Rightarrow> nat \<Rightarrow> json" where
  "json_of_quantile d i = JObject
     [(''probe'', JString (if i < length (d_probes d) then probe_to_string (d_probes d ! i) else ''unknown'')),
      (''value_ns'', json_of_optional_int (d_quantiles d ! i))]"

definition json_of_distribution :: "distribution \<Rightarrow> json" where
  "json_of_distribution d = JObject
     [(''count'', uint_json (d_count d)), (''min_ns'', json_of_optional_int (d_min_ns d)),
      (''max_ns'', json_of_optional_int (d_max_ns d)), (''sum_ns'', json_of_optional_int (d_sum_ns d)),
      (''mean_ns'', json_of_optional_int (d_mean_ns d)), (''mean_remainder_ns'', uint_json (d_mean_remainder_ns d)),
      (''sum_overflowed'', JBool (d_sum_overflowed d)), (''histogram'', json_of_histogram (d_histogram d)),
      (''quantiles'', JArray (map (json_of_quantile d) [0..<length (d_quantiles d)]))]"

definition json_of_hop_summary :: "hop_summary \<Rightarrow> json" where
  "json_of_hop_summary s = JObject
     [(''index'', json_of_revision (hs_index s)), (''hop'', json_of_id (hs_hop s)),
      (''exchanges_included'', uint_json (hs_exchanges_included s)),
      (''dwells_observed'', uint_json (hs_dwells_observed s)), (''dwells_missing'', uint_json (hs_dwells_missing s)),
      (''dwells_unsupported'', uint_json (hs_dwells_unsupported s)),
      (''queue_dwells_observed'', uint_json (hs_queue_dwells_observed s)),
      (''queue_dwells_unsupported'', uint_json (hs_queue_dwells_unsupported s)),
      (''coverage_ppm'', uint_json (hs_coverage_ppm s)), (''dwell'', json_of_distribution (hs_dwell s)),
      (''queue_dwell'', json_of_distribution (hs_queue_dwell s)),
      (''evidence_state'', JString (state_to_string (ev_state (hs_evidence s)))),
      (''freshness'', JString (freshness_to_string (ev_freshness (hs_evidence s)))),
      (''confidence'', JString (confidence_to_string (ev_confidence (hs_evidence s)))),
      (''reasons'', json_of_reasons (hs_evidence s))]"

lemma write_window_document [document_simps]: "write_window w = write_value (json_of_window w)"
  by (simp add: write_window_def json_of_window_def json_of_optional_def document_simps)

lemma write_spec_document [document_simps]: "write_spec s = write_value (json_of_spec s)"
  by (simp add: write_spec_def json_of_spec_def document_simps scalars_as_values(2) [abs_def])

lemma write_bucket_document [document_simps]: "write_bucket h = (\<lambda>i. write_value (json_of_bucket h i))"
  by (rule ext) (simp add: write_bucket_def json_of_bucket_def bucket_lower_def bucket_upper_def json_of_optional_int_def
      uint_json_def document_simps)

lemma write_histogram_document [document_simps]: "write_histogram h = write_value (json_of_histogram h)"
  by (simp add: write_histogram_def json_of_histogram_def uint_json_def document_simps)

lemma write_quantile_document [document_simps]: "write_quantile d = (\<lambda>i. write_value (json_of_quantile d i))"
  by (rule ext) (simp add: write_quantile_def json_of_quantile_def json_of_optional_int_def document_simps)

lemma write_distribution_document [document_simps]: "write_distribution d = write_value (json_of_distribution d)"
  by (simp add: write_distribution_def json_of_distribution_def json_of_optional_int_def uint_json_def document_simps)

lemma write_hop_summary_document [document_simps]: "write_hop_summary = (\<lambda>s. write_value (json_of_hop_summary s))"
  by (rule ext) (simp add: write_hop_summary_def json_of_hop_summary_def json_of_id_def json_of_revision_def uint_json_def document_simps)

section \<open>Reading statistics back\<close>

definition window_storable :: "time_window \<Rightarrow> bool" where
  "window_storable w \<longleftrightarrow> timestamp_storable (tw_from w) \<and> timestamp_storable (tw_to w) \<and>
     make_window (tw_from w) (tw_to w) = Inr w"

lemma decode_window_document [decode_simps]:
  assumes "window_storable w"
  shows "decode_time_window (json_of_window w) = Inr w"
proof -
  have v: "valid_id (ts_domain (tw_from w))" "ts_domain (tw_to w) = ts_domain (tw_from w)" "ts_ns (tw_from w) < ts_ns (tw_to w)"
    using assms by (auto simp: window_storable_def make_window_def ts_valid_def split: if_splits)
  then show ?thesis
    using assms by (cases w; cases "tw_from w"; cases "tw_to w")
      (simp add: decode_time_window_def json_of_window_def window_storable_def optional_hex_def decode_simps)
qed

lemma show_nat_slash: "CHR ''/'' \<notin> set (show_nat n)"
  using show_nat_digits [of "CHR ''/''" n] by (auto simp: is_digit_def)

lemma parse_probe_text [decode_simps]:
  assumes "probe_ok p"
  shows "parse_quantile_probe (probe_to_string p) = Inr p"
proof -
  let ?n = "ucast (qp_numerator p) :: u64" and ?d = "ucast (qp_denominator p) :: u64"
  have u: "unat (qp_numerator p) = unat ?n" "unat (qp_denominator p) = unat ?d"
    by (simp_all add: unat_ucast_64)
  have b: "\<not> ?n > 0xFFFFFFFF" "\<not> ?d > 0xFFFFFFFF"
    using unsigned_less [of "qp_numerator p", where ?'a = nat] unsigned_less [of "qp_denominator p", where ?'a = nat]
    by (simp_all add: word_less_nat_alt flip: u)
  have tw: "takeWhile (\<lambda>c. c \<noteq> CHR ''/'') (show_nat a @ CHR ''/'' # s) = show_nat a"
    "dropWhile (\<lambda>c. c \<noteq> CHR ''/'') (show_nat a @ CHR ''/'' # s) = CHR ''/'' # s" for a s
    by (subst takeWhile_append2 dropWhile_append2; use show_nat_slash [of a] in fastforce)+
  have "ucast (ucast w :: u64) = w" for w :: u32
    by (rule bit_word_eqI) (simp add: bit_simps)
  then have "make_probe (ucast ?n) (ucast ?d) = Inr p"
    using assms by (cases p) (auto simp: make_probe_def probe_ok_def)
  then show ?thesis
    using b by (simp add: parse_quantile_probe_def probe_to_string_def u tw parse_u64_show_nat)
qed

lemma document_objects [decode_simps]:
  "is_object (json_of_spec spec)" "is_object (json_of_histogram h)" "is_object (json_of_distribution d)"
  "is_object (json_of_window w)" "is_object (json_of_hop_summary s)"
  by (simp_all add: json_of_spec_def json_of_histogram_def json_of_distribution_def json_of_window_def json_of_hop_summary_def)

definition spec_storable :: "histogram_spec \<Rightarrow> bool" where
  "spec_storable spec \<longleftrightarrow> list_all in_i64 spec \<and> make_spec spec default_limits = Inr spec"

lemma decode_spec_document [decode_simps]:
  assumes "spec_storable spec"
  shows "decode_histogram_spec (json_of_spec spec) = Inr spec"
proof -
  have "decode_list as_int64 (map JNumber spec) = Inr spec"
    using decode_list_documents [of spec as_int64 JNumber "\<lambda>n. n"] by (simp add: decode_simps)
  then show ?thesis
    using assms by (simp add: decode_histogram_spec_def json_of_spec_def spec_storable_def decode_simps)
qed

definition histogram_storable :: "histogram \<Rightarrow> bool" where
  "histogram_storable h \<longleftrightarrow> spec_storable (hg_spec h) \<and> hist_wf h \<and> list_all readable (hg_underflow h # hg_buckets h)"

lemma bucket_read:
  "json_require_uint (json_of_bucket h i) ''index'' = Inr (word_of_nat i)"
  "json_require_uint (json_of_bucket h i) ''count'' = Inr (hg_buckets h ! i)"
  by (simp_all add: json_of_bucket_def decode_simps)

lemma decode_buckets_documents:
  assumes "i \<le> n" and "n = length (hg_buckets h)" and "n < 2 ^ 63"
    and "length buckets = n" and "take i buckets = take i (hg_buckets h)"
  shows "decode_buckets (map (json_of_bucket h) [i..<n]) i buckets = Inr (n, hg_buckets h)"
  using assms
proof (induction "n - i" arbitrary: i buckets)
  case 0
  then show ?case by simp
next
  case (Suc m)
  let ?b = "buckets[i := hg_buckets h ! i]"
  have i: "i < n" using Suc.hyps by simp
  have u: "unat (word_of_nat i :: u64) = i" using i Suc.prems(3) by (simp add: unat_of_nat take_bit_nat_eq_self)
  have t: "take (Suc i) ?b = take (Suc i) (hg_buckets h)"
    using i Suc.prems by (simp add: take_Suc_conv_app_nth)
  have "decode_buckets (map (json_of_bucket h) [Suc i..<n]) (Suc i) ?b = Inr (n, hg_buckets h)"
    by (rule Suc.hyps(1)) (use Suc i t in simp_all)
  then show ?case
    using i Suc.prems(4) u by (simp add: upt_conv_Cons bucket_read)
qed

lemma decode_histogram_document [decode_simps]:
  assumes "histogram_storable h"
  shows "decode_histogram (json_of_histogram h) = Inr h"
proof -
  have l: "length (hg_buckets h) = length (hg_spec h) + 1" and s: "spec_storable (hg_spec h)"
    using assms by (simp_all add: histogram_storable_def hist_wf_def bucket_count_def)
  then have "length (hg_buckets h) < 2 ^ 63"
    by (auto simp: spec_storable_def make_spec_def default_limits_def split: if_splits)
  then have "decode_buckets (map (json_of_bucket h) [0..<length (hg_buckets h)]) 0 (replicate (bucket_count (hg_spec h)) 0)
      = Inr (length (hg_buckets h), hg_buckets h)"
    using decode_buckets_documents [of 0 _ h "replicate (bucket_count (hg_spec h)) 0"] l
    by (simp add: bucket_count_def)
  then show ?thesis
    using s by (cases h) (simp add: decode_histogram_def json_of_histogram_def empty_histogram_def decode_simps)
qed

definition distribution_storable :: "distribution \<Rightarrow> bool" where
  "distribution_storable d \<longleftrightarrow> list_all readable [d_count d, d_mean_remainder_ns d] \<and>
     list_all optional_storable ([d_min_ns d, d_max_ns d, d_sum_ns d, d_mean_ns d] @ d_quantiles d) \<and>
     histogram_storable (d_histogram d) \<and> length (d_probes d) = length (d_quantiles d) \<and> list_all probe_ok (d_probes d) \<and>
     (d_count d = 0 \<longrightarrow> d_min_ns d = None \<and> d_max_ns d = None \<and> d_mean_ns d = None)"

lemma decode_quantile_document:
  assumes "i < length (d_probes d)" and "probe_ok (d_probes d ! i)"
  shows "decode_quantile (json_of_quantile d i) = Inr (d_probes d ! i, d_quantiles d ! i)"
  using assms optional_int_read [where v = "d_quantiles d ! i"]
  by (simp add: decode_quantile_def json_of_quantile_def decode_simps)

lemma decode_distribution_document [decode_simps]:
  assumes "distribution_storable d"
  shows "decode_distribution (json_of_distribution d) = Inr d"
proof -
  have l: "length (d_probes d) = length (d_quantiles d)" and h: "histogram_storable (d_histogram d)"
    and p: "list_all probe_ok (d_probes d)"
    using assms by (simp_all add: distribution_storable_def)
  have "decode_list decode_quantile (map (json_of_quantile d) [0..<length (d_quantiles d)])
      = Inr (map (\<lambda>i. (d_probes d ! i, d_quantiles d ! i)) [0..<length (d_quantiles d)])"
    by (rule decode_list_documents) (use l p decode_quantile_document in \<open>simp add: list_all_length\<close>)
  moreover have "map (\<lambda>i. d_probes d ! i) [0..<length (d_quantiles d)] = d_probes d"
    "map (\<lambda>i. d_quantiles d ! i) [0..<length (d_quantiles d)] = d_quantiles d"
    using l map_nth [of "d_probes d"] by (simp_all add: map_nth)
  ultimately show ?thesis
    using assms h optional_int_read [where v = "d_min_ns d"] optional_int_read [where v = "d_max_ns d"]
      optional_int_read [where v = "d_sum_ns d"] optional_int_read [where v = "d_mean_ns d"]
    by (cases d) (simp add: decode_distribution_def json_of_distribution_def distribution_storable_def comp_def decode_simps)
qed

section \<open>Documents of statistics are well formed\<close>

text \<open>What the text form needs: 64-bit values. Bounds may be more than the decoder accepts.\<close>

definition histogram_emittable :: "histogram \<Rightarrow> bool" where
  "histogram_emittable h \<longleftrightarrow> list_all in_i64 (hg_spec h) \<and> length (hg_spec h) \<le> 4096 \<and> hist_wf h \<and>
     list_all readable (hg_underflow h # hg_buckets h)"

definition distribution_emittable :: "distribution \<Rightarrow> bool" where
  "distribution_emittable d \<longleftrightarrow> list_all readable [d_count d, d_mean_remainder_ns d] \<and>
     list_all optional_storable ([d_min_ns d, d_max_ns d, d_sum_ns d, d_mean_ns d] @ d_quantiles d) \<and>
     histogram_emittable (d_histogram d)"

lemma readable_nat: "n < 2 ^ 63 \<Longrightarrow> readable (word_of_nat n)"
proof -
  assume n: "n < 2 ^ 63"
  then have "unat (word_of_nat n :: u64) = n" by (simp add: unat_of_nat take_bit_nat_eq_self)
  moreover have "int n < 9223372036854775808" using n by simp
  ultimately show ?thesis unfolding readable_def in_i64_iff uint_nat by linarith
qed

lemma bucket_range_in_i64:
  assumes "list_all in_i64 spec"
  shows "in_i64 (bucket_lower spec i)" and "optional_storable (bucket_upper spec i)"
proof -
  have n: "in_i64 (spec ! j)" if "j < length spec" for j using assms that by (simp add: list_all_length)
  have "in_i64 (last spec)" if "spec \<noteq> []" using assms that by (simp add: list_all_iff)
  then show "in_i64 (bucket_lower spec i)" using n [of "i - 1"] by (auto simp: bucket_lower_def in_i64_iff)
  show "optional_storable (bucket_upper spec i)" using n by (simp add: bucket_upper_def optional_storable_def)
qed

lemma json_ok_histogram: "histogram_emittable h \<Longrightarrow> 3 \<le> d \<Longrightarrow> json_ok d (json_of_histogram h)"
  using bucket_range_in_i64 [of "hg_spec h"] readable_nat
  by (auto simp: json_of_histogram_def json_of_spec_def json_of_bucket_def histogram_emittable_def list_all_iff hist_wf_def
      bucket_count_def)

lemma json_ok_distribution: "distribution_emittable dist \<Longrightarrow> 4 \<le> d \<Longrightarrow> json_ok d (json_of_distribution dist)"
  by (auto simp: json_of_distribution_def distribution_emittable_def json_of_quantile_def list_all_iff json_ok_histogram)

lemma spec_within: "make_spec bounds l = Inr spec \<Longrightarrow> spec = bounds \<and> length bounds \<le> max_histogram_buckets l"
  by (auto simp: make_spec_def split: if_splits option.splits)

lemma histogram_emittable: "histogram_storable h \<Longrightarrow> histogram_emittable h"
  using spec_within [of "hg_spec h" default_limits]
  by (auto simp: histogram_storable_def histogram_emittable_def spec_storable_def default_limits_def)

lemma distribution_emittable: "distribution_storable d \<Longrightarrow> distribution_emittable d"
  by (simp add: distribution_storable_def distribution_emittable_def histogram_emittable)

section \<open>Aggregates survive their text\<close>

lemma readable_uint: "uint u \<le> int n \<Longrightarrow> n < 2 ^ 60 \<Longrightarrow> readable u"
proof -
  assume u: "uint u \<le> int n" and n: "n < 2 ^ 60"
  have "int n < 1152921504606846976" using n by simp
  then show ?thesis using u unsigned_greater_eq [of u, where ?'a = int] unfolding readable_def in_i64_iff by linarith
qed

lemma in_i64_div:
  assumes "in_i64 t" and "0 < (n :: int)"
  shows "in_i64 (t div n)"
proof (cases "0 \<le> t")
  case True
  have "t div n \<le> t div 1" by (rule zdiv_mono2) (use True assms(2) in simp_all)
  moreover have "0 \<le> t div n" using True assms(2) by (simp add: pos_imp_zdiv_nonneg_iff)
  ultimately show ?thesis using assms(1) unfolding in_i64_iff by simp
next
  case False
  have "t div 1 \<le> t div n" by (rule zdiv_mono2_neg) (use False assms(2) in simp_all)
  moreover have "t div n < 0" using False assms(2) by (simp add: pos_imp_zdiv_neg_iff)
  ultimately show ?thesis using assms(1) unfolding in_i64_iff by simp
qed

lemma describes_emittable:
  assumes "describes xs spec probes d" and "xs \<noteq> []" and "\<forall>x \<in> set xs. in_i64 x" and "length xs < 2 ^ 60"
    and "list_all in_i64 spec" and "length spec \<le> 4096"
  shows "distribution_emittable d"
proof -
  let ?n = "length xs" and ?t = "sum_list xs"
  have D: "unat (d_count d) = ?n" "d_min_ns d = Some (Min (set xs))" "d_max_ns d = Some (Max (set xs))"
      "d_sum_ns d = (if in_i64 ?t then Some ?t else None)"
      "d_mean_ns d = (if in_i64 ?t then Some (?t div int ?n) else None)"
      "uint (d_mean_remainder_ns d) = (if in_i64 ?t then ?t mod int ?n else 0)"
      "hg_spec (d_histogram d) = spec" "unat (hg_underflow (d_histogram d)) = length (filter (\<lambda>v. v < 0) xs)"
      "map unat (hg_buckets (d_histogram d)) =
        map (\<lambda>i. length (filter (\<lambda>v. 0 \<le> v \<and> bucket_index v spec = i) xs)) [0..<bucket_count spec]"
      "list_all2 (\<lambda>p q. \<exists>v. q = Some v \<and> is_quantile xs p v) probes (d_quantiles d)"
    using assms(1) unfolding describes_def Let_def by blast+
  have small: "readable u" if "unat u \<le> ?n" for u
    by (rule readable_uint [OF _ assms(4)]) (use that in \<open>simp only: uint_nat of_nat_le_iff\<close>)
  have len: "length (hg_buckets (d_histogram d)) = bucket_count spec" using arg_cong [OF D(9), of length] by simp
  have "unat u \<le> ?n" if u: "u \<in> set (hg_buckets (d_histogram d))" for u
  proof -
    from u obtain i where i: "i < bucket_count spec" "u = hg_buckets (d_histogram d) ! i"
      by (metis in_set_conv_nth len)
    then have "unat u = length (filter (\<lambda>v. 0 \<le> v \<and> bucket_index v spec = i) xs)"
      using arg_cong [OF D(9), of "\<lambda>m. m ! i"] len by simp
    then show ?thesis by (simp only: length_filter_le)
  qed
  then have b: "list_all readable (hg_underflow (d_histogram d) # hg_buckets (d_histogram d))"
    using D(8) by (simp add: list_all_iff small)
  have wf: "hist_wf (d_histogram d)" using len D(7) by (simp add: hist_wf_def)
  have "Min (set xs) \<in> set xs" "Max (set xs) \<in> set xs" using assms(2) by simp_all
  then have mm: "optional_storable (d_min_ns d)" "optional_storable (d_max_ns d)"
    using assms(3) D(2,3) by (simp_all add: optional_storable_def)
  have n: "0 < int ?n" using assms(2) by simp
  have "uint (d_mean_remainder_ns d) \<le> int ?n"
    using D(6) pos_mod_bound [OF n, of ?t] by (simp split: if_splits)
  then have rem: "readable (d_mean_remainder_ns d)" by (rule readable_uint [OF _ assms(4)])
  have mean: "in_i64 (?t div int ?n)" if "in_i64 ?t" by (rule in_i64_div [OF that n])
  have q: "list_all optional_storable (d_quantiles d)"
    using D(10) assms(3) by (auto simp: list_all_length list_all2_conv_all_nth optional_storable_def is_quantile_def)
  show ?thesis
    using D(1,4,5,7) small mean rem q mm b wf assms(5,6)
    by (auto simp: distribution_emittable_def histogram_emittable_def optional_storable_def)
qed

lemma aggregate_result:
  assumes "aggregate xs spec probes l = Inr d" and "\<forall>x \<in> set xs. in_i64 x" and "length xs < 2 ^ 60"
    and "list_all probe_ok probes"
  shows "xs = [] \<and> d = empty_distribution 0 spec probes \<or> xs \<noteq> [] \<and> describes xs spec probes d"
proof (cases "xs = []")
  case True
  then show ?thesis using assms(1) by (auto simp: aggregate_def Let_def split: if_splits)
next
  case False
  have "length xs \<le> max_samples_per_path l" "length probes \<le> max_quantile_probes l"
    using assms(1) by (auto simp: aggregate_def split: if_splits)
  from aggregate_describes [OF False assms(2-4) this, of spec] assms(1) False show ?thesis by auto
qed

lemma aggregate_fields:
  assumes "aggregate xs spec probes l = Inr d" and "\<forall>x \<in> set xs. in_i64 x" and "length xs < 2 ^ 60"
    and "list_all probe_ok probes" and "list_all in_i64 spec" and "length spec \<le> 4096"
  shows "distribution_emittable d" and "hg_spec (d_histogram d) = spec" and "d_probes d = probes"
    and "length (d_quantiles d) = length probes" and "d_count d = 0 \<longrightarrow> d_min_ns d = None \<and> d_max_ns d = None \<and> d_mean_ns d = None"
proof -
  have "distribution_emittable d \<and> hg_spec (d_histogram d) = spec \<and> d_probes d = probes \<and>
      length (d_quantiles d) = length probes \<and> (d_count d = 0 \<longrightarrow> d_min_ns d = None \<and> d_max_ns d = None \<and> d_mean_ns d = None)"
    using aggregate_result [OF assms(1-4)]
  proof
    assume "xs = [] \<and> d = empty_distribution 0 spec probes"
    then show ?thesis
      using assms(5,6) by (simp add: empty_distribution_def empty_histogram_def distribution_emittable_def histogram_emittable_def
          hist_wf_def optional_storable_def readable_def in_i64_iff list_all_iff)
  next
    assume a: "xs \<noteq> [] \<and> describes xs spec probes d"
    then have "unat (d_count d) = length xs" "hg_spec (d_histogram d) = spec" "d_probes d = probes"
      "list_all2 (\<lambda>p q. \<exists>v. q = Some v \<and> is_quantile xs p v) probes (d_quantiles d)"
      unfolding describes_def Let_def by blast+
    then show ?thesis using describes_emittable [OF _ _ assms(2,3,5,6)] a by (auto dest: list_all2_lengthD)
  qed
  then show "distribution_emittable d" and "hg_spec (d_histogram d) = spec" and "d_probes d = probes"
    and "length (d_quantiles d) = length probes" and "d_count d = 0 \<longrightarrow> d_min_ns d = None \<and> d_max_ns d = None \<and> d_mean_ns d = None"
    by blast+
qed

lemma aggregate_storable:
  assumes "aggregate xs spec probes l = Inr d" and "\<forall>x \<in> set xs. in_i64 x" and "length xs < 2 ^ 60"
    and "list_all probe_ok probes" and "spec_storable spec"
  shows "distribution_storable d"
proof -
  have "list_all in_i64 spec" "length spec \<le> 4096"
    using assms(5) spec_within [of spec default_limits spec] by (simp_all add: spec_storable_def default_limits_def)
  from aggregate_fields [OF assms(1-4) this] show ?thesis
    using assms(4,5) by (auto simp: distribution_storable_def distribution_emittable_def histogram_storable_def histogram_emittable_def)
qed

text \<open>A distribution with more bounds than the default limit is written and refused.\<close>

lemma decode_distribution_refused:
  assumes "512 < length (hg_spec (d_histogram d))" 
  shows "decode_distribution (json_of_distribution d) =
     fail OutOfRange ''histogram bound count exceeds the configured limit'' (show_nat (length (hg_spec (d_histogram d))))"
proof -
  let ?spec = "hg_spec (d_histogram d)"
  have "decode_list as_int64 (map JNumber ?spec) = Inr ?spec"
    using decode_list_documents [of ?spec as_int64 JNumber "\<lambda>n. n"] by (simp add: decode_simps)
  then have s: "decode_histogram_spec (json_of_spec ?spec) =
     fail OutOfRange ''histogram bound count exceeds the configured limit'' (show_nat (length ?spec))"
    using assms by (simp add: decode_histogram_spec_def json_of_spec_def make_spec_def default_limits_def decode_simps)
  then have "decode_histogram (json_of_histogram (d_histogram d)) =
     fail OutOfRange ''histogram bound count exceeds the configured limit'' (show_nat (length ?spec))"
    by (simp add: decode_histogram_def json_of_histogram_def document_objects fail_def decode_simps)
  then show ?thesis
    using optional_int_read [where v = "d_min_ns d"] optional_int_read [where v = "d_max_ns d"]
      optional_int_read [where v = "d_sum_ns d"] optional_int_read [where v = "d_mean_ns d"]
    by (simp add: decode_distribution_def json_of_distribution_def document_objects fail_def decode_simps)
qed

text \<open>An aggregate survives its text form: whatever 64-bit values it was computed from, with any histogram
  accepted under validated limits, the text written for it is read back as exactly the same distribution:
  counters, extremes, sum, mean with remainder, every bucket and every quantile with its probe.
  The exception is a histogram with more than 512 bounds: the limits may be configured up to 4096, the
  text is written, and the decoder refuses it because it applies the default limits.\<close>

lemma distribution_codec_roundtrip:
  assumes "make_spec bounds l = Inr spec" and "max_histogram_buckets l \<le> 4096" and "list_all in_i64 bounds"
    and "aggregate xs spec probes l = Inr d" and "\<forall>x \<in> set xs. in_i64 x" and "length xs < 2 ^ 60"
    and "list_all probe_ok probes" and "4 \<le> depth"
  shows "reads_back depth (write_distribution d) decode_distribution
     (if length bounds \<le> 512 then Inr d
      else fail OutOfRange ''histogram bound count exceeds the configured limit'' (show_nat (length bounds)))"
proof -
  have s: "spec = bounds" "length bounds \<le> 4096" using spec_within [OF assms(1)] assms(2) by simp_all
  note F = aggregate_fields [OF assms(4-7) assms(3) [folded s(1)] s(2) [folded s(1)]]
  have "spec_storable spec" if "length bounds \<le> 512"
    using assms(1,3) that s by (auto simp: spec_storable_def make_spec_def default_limits_def split: if_splits option.splits)
  then have "decode_distribution (json_of_distribution d) = Inr d" if "length bounds \<le> 512"
    using that aggregate_storable [OF assms(4-7)] decode_distribution_document by blast
  then show ?thesis
    using json_ok_distribution [OF F(1) assms(8)] decode_distribution_refused [of d] F(2) s(1)
    by (simp add: write_distribution_document reads_back_value not_le)
qed

lemma distribution_codec_roundtrip_example:
  "\<exists>d. aggregate [3, 1, 2] latency_default [\<lparr>qp_numerator = 1, qp_denominator = 2\<rparr>] default_limits = Inr d \<and>
     reads_back 4 (write_distribution d) decode_distribution (Inr d)"
proof -
  let ?p = "[\<lparr>qp_numerator = 1, qp_denominator = 2\<rparr>]"
  have p: "list_all probe_ok ?p" by (simp add: probe_ok_def)
  have i: "\<forall>x \<in> set [3, 1, 2]. in_i64 x" by (simp add: in_i64_iff)
  obtain d where d: "aggregate [3, 1, 2] latency_default ?p default_limits = Inr d"
    using aggregate_describes [OF _ i _ p, of default_limits latency_default] by (auto simp: default_limits_def)
  have m: "make_spec latency_default default_limits = Inr latency_default" "list_all in_i64 latency_default"
    "length latency_default \<le> 512"
    by (simp_all add: make_spec_def latency_default_def default_limits_def in_i64_iff)
  from distribution_codec_roundtrip [OF m(1) _ m(2) d i _ p, of 4] d m(3) show ?thesis
    by (auto simp: default_limits_def)
qed

section \<open>Hop summaries\<close>

definition persisted_hop_summary :: "hop_summary \<Rightarrow> hop_summary" where
  "persisted_hop_summary s = s\<lparr>hs_evidence := persisted_evidence (hs_evidence s)\<rparr>"

definition hop_summary_storable :: "hop_summary \<Rightarrow> bool" where
  "hop_summary_storable s \<longleftrightarrow> hs_index s < kMaxExclusive \<and>
     list_all readable [hs_exchanges_included s, hs_dwells_observed s, hs_dwells_missing s, hs_dwells_unsupported s,
       hs_queue_dwells_observed s, hs_queue_dwells_unsupported s, hs_coverage_ppm s] \<and>
     distribution_storable (hs_dwell s) \<and> distribution_storable (hs_queue_dwell s) \<and> evidence_storable (hs_evidence s)"

lemma lenient_enum_read [decode_simps]:
  "map_of ms k = Some (JString t) \<Longrightarrow> lenient_enum (JObject ms) k parse absent = (case parse t of Some e \<Rightarrow> e | None \<Rightarrow> absent)"
  by (simp add: lenient_enum_def)

lemma decode_summary_evidence_document:
  assumes "evidence_storable ev"
    and "map_of ms ''evidence_state'' = Some (JString (state_to_string (ev_state ev)))"
    and "map_of ms ''freshness'' = Some (JString (freshness_to_string (ev_freshness ev)))"
    and "map_of ms ''confidence'' = Some (JString (confidence_to_string (ev_confidence ev)))"
    and "map_of ms ''reasons'' = Some (json_of_reasons ev)"
  shows "decode_summary_evidence (JObject ms) = Inr (persisted_evidence ev)"
proof -
  have "add_reasons (ev_reasons ev) e = e\<lparr>ev_reasons := ev_reasons ev\<rparr>" if "ev_reasons e = []" for e :: evidence
    using assms(1) that by (subst add_reasons_distinct) (auto simp: evidence_storable_def evidence_inv_def)
  then show ?thesis
    using assms decode_reasons_documents [of "ev_reasons ev"]
    by (simp add: decode_summary_evidence_def require_enum_def json_of_reasons_def evidence_storable_def
        persisted_evidence_def default_evidence_def decode_simps)
qed

lemma decode_hop_summary_document:
  assumes "hop_summary_storable s"
  shows "decode_hop_summary (json_of_hop_summary s) = Inr (persisted_hop_summary s)"
proof -
  have i: "hop_index_from_value (hs_index s) = Inr (hs_index s)"
    and d: "distribution_storable (hs_dwell s)" "distribution_storable (hs_queue_dwell s)" and e: "evidence_storable (hs_evidence s)"
    using assms by (simp_all add: hop_summary_storable_def hop_index_from_value_def not_le)
  note E = decode_summary_evidence_document [OF e]
  from i d show ?thesis
    by (cases s) (simp add: decode_hop_summary_def json_of_hop_summary_def E persisted_hop_summary_def to_u64_uint_32 decode_simps)
qed

lemma json_ok_reasons [simp]: "2 \<le> d \<Longrightarrow> json_ok d (json_of_reasons ev)"
  by (auto simp: json_of_reasons_def json_of_reason_def)

lemma json_ok_hop_summary: "hop_summary_storable s \<Longrightarrow> 5 \<le> d \<Longrightarrow> json_ok d (json_of_hop_summary s)"
  by (simp add: json_of_hop_summary_def hop_summary_storable_def json_ok_distribution distribution_emittable)

end
