(* ===== verification/Baseline_Codec.thy ===== *)
theory Baseline_Codec
  imports Stats_Codec
begin

text \<open>
  \<^verbatim>\<open>baseline/codec.cpp\<close> and the \<^verbatim>\<open>write_json\<close> functions of \<^verbatim>\<open>baseline/baseline.cpp\<close>: the canonical text of a
  baseline, of a comparison and of an anomaly statement, and the decoder of a stored baseline.
\<close>

section \<open>Encoders\<close>

definition write_anomaly :: "anomaly_evidence \<Rightarrow> writer_op" where
  "write_anomaly a = wrun
     [begin_object,
      field_uint ''hop_index'' (ucast (an_index a)),
      field_string ''hop'' (if valid_id (an_hop a) then id_to_hex (an_hop a) else ''end_to_end''),
      field_string ''classification'' (anomaly_to_string (an_classification a)),
      field_optional_int ''mean_delta_ns'' (an_mean_delta_ns a),
      field_optional_int ''p99_delta_ns'' (an_p99_delta_ns a),
      field_uint ''ratio_ppm'' (an_ratio_ppm a),
      field_uint ''current_count'' (an_current_count a),
      field_uint ''baseline_count'' (an_baseline_count a),
      field_string ''evidence_state'' (state_to_string (ev_state (an_evidence a))),
      write_reasons (an_evidence a),
      end_object]"

definition write_mismatch :: "mismatch_kind \<times> string \<Rightarrow> writer_op" where
  "write_mismatch e = wrun
     [begin_object,
      field_string ''kind'' (mismatch_to_string (fst e)),
      field_string ''detail'' (snd e),
      end_object]"

definition write_comparison :: "baseline_comparison \<Rightarrow> writer_op" where
  "write_comparison c = wrun
     [begin_object,
      field_string ''baseline'' (id_to_hex (bc_baseline c)),
      field_bool ''applicable'' (bc_applicable c),
      field_optional_int ''mean_delta_ns'' (bc_mean_delta_ns c),
      field_optional_int ''min_delta_ns'' (bc_min_delta_ns c),
      field_optional_int ''max_delta_ns'' (bc_max_delta_ns c),
      field_uint ''mean_ratio_ppm'' (bc_mean_ratio_ppm c),
      field_array ''mismatches'',
      wrun (map write_mismatch (bc_mismatches c)),
      end_array,
      field_array ''anomalies'',
      wrun (map write_anomaly (bc_anomalies c)),
      end_array,
      field_string ''evidence_state'' (state_to_string (ev_state (bc_evidence c))),
      write_reasons (bc_evidence c),
      end_object]"

definition write_baseline :: "baseline \<Rightarrow> writer_op" where
  "write_baseline b = wrun
     [begin_object,
      field_string ''baseline'' (id_to_hex (bl_id b)),
      field_string ''name'' (bl_name b),
      field_string ''path'' (id_to_hex (bl_path b)),
      field_string ''generation'' (id_to_hex (bl_generation b)),
      field_string ''clock_domain'' (id_to_hex (bl_domain b)),
      field_revision ''revision'' (bl_revision b),
      field_string ''source'' (id_to_hex (bl_source b)),
      field_bool ''synthetic'' (bl_synthetic b),
      field_int ''created_at_ns'' (ts_ns (bl_created_at b)),
      field_uint ''exchange_count'' (bl_exchange_count b),
      field_string ''policy_digest'' (bl_policy_digest b),
      json_key ''histogram'', write_spec (bl_histogram b),
      field_array ''probes'',
      wrun (map (\<lambda>p. value_string (probe_to_string p)) (bl_probes b)),
      end_array,
      json_key ''window'', write_window (bl_window b),
      json_key ''end_to_end'', write_distribution (bl_end_to_end b),
      field_array ''hops'',
      wrun (map write_hop_summary (bl_hops b)),
      end_array,
      field_string ''evidence_state'' (state_to_string (ev_state (bl_evidence b))),
      end_object]"

section \<open>The decoder\<close>

definition decode_baseline :: "json \<Rightarrow> baseline result" where
  "decode_baseline j =
     (if \<not> is_object j then fail ParseError ''baseline must be an object'' []
      else try_bind (json_id j ''baseline'') (\<lambda>i.
        try_bind (json_name j ''name'') (\<lambda>name.
        try_bind (json_id j ''path'') (\<lambda>path.
        try_bind (json_id j ''generation'') (\<lambda>generation.
        try_bind (json_id j ''clock_domain'') (\<lambda>domain.
        try_bind (json_revision j ''revision'') (\<lambda>revision.
        try_bind (optional_id j ''source'') (\<lambda>source.
        try_bind (json_require_bool j ''synthetic'') (\<lambda>synthetic.
        try_bind (json_require_int j ''created_at_ns'') (\<lambda>created_at.
        try_bind (json_require_uint j ''exchange_count'') (\<lambda>exchange_count.
        try_bind (json_require_string j ''policy_digest'') (\<lambda>policy_digest.
        try_bind (json_require_object j ''histogram'') (\<lambda>histogram_value.
        try_bind (decode_histogram_spec histogram_value) (\<lambda>histogram.
        try_bind (json_require_array j ''probes'') (\<lambda>probes_value.
        try_bind (as_array probes_value) (\<lambda>probe_values.
        try_bind (decode_list (\<lambda>entry. try_bind (as_string entry) parse_quantile_probe) probe_values) (\<lambda>probes.
        try_bind (json_require_object j ''window'') (\<lambda>window_value.
        try_bind (decode_time_window window_value) (\<lambda>window.
        try_bind (json_require_object j ''end_to_end'') (\<lambda>end_to_end_value.
        try_bind (decode_distribution end_to_end_value) (\<lambda>end_to_end.
        try_bind (json_require_array j ''hops'') (\<lambda>hops_value.
        try_bind (as_array hops_value) (\<lambda>hop_values.
        try_bind (decode_list decode_hop_summary hop_values) (\<lambda>hops.
        try_bind (require_enum j ''evidence_state'' parse_evidence_state ''unknown evidence state'') (\<lambda>st.
          Inr \<lparr>bl_id = i, bl_name = name, bl_path = path, bl_generation = generation, bl_domain = domain,
             bl_revision = revision, bl_histogram = histogram, bl_probes = probes, bl_source = source,
             bl_synthetic = synthetic, bl_created_at = \<lparr>ts_ns = created_at, ts_domain = domain\<rparr>, bl_window = window,
             bl_exchange_count = exchange_count, bl_end_to_end = end_to_end, bl_hops = hops,
             bl_evidence = default_evidence\<lparr>ev_state := st\<rparr>, bl_policy_digest = policy_digest\<rparr>)))))))))))))))))))))))))"

definition decode_baseline_text :: "string \<Rightarrow> limits \<Rightarrow> baseline result option" where
  "decode_baseline_text t l =
     (if length t > max_json_bytes l
      then Some (fail OutOfRange ''baseline document exceeds the configured size limit'' [])
      else map_option (\<lambda>document. try_bind document decode_baseline) (parse_json t (max_json_depth l)))"

section \<open>Documents\<close>

definition json_of_baseline :: "baseline \<Rightarrow> json" where
  "json_of_baseline b = JObject
     [(''baseline'', json_of_id (bl_id b)), (''name'', JString (bl_name b)), (''path'', json_of_id (bl_path b)),
      (''generation'', json_of_id (bl_generation b)), (''clock_domain'', json_of_id (bl_domain b)),
      (''revision'', json_of_revision (bl_revision b)), (''source'', json_of_id (bl_source b)),
      (''synthetic'', JBool (bl_synthetic b)), (''created_at_ns'', JNumber (ts_ns (bl_created_at b))),
      (''exchange_count'', uint_json (bl_exchange_count b)), (''policy_digest'', JString (bl_policy_digest b)),
      (''histogram'', json_of_spec (bl_histogram b)),
      (''probes'', JArray (map (\<lambda>p. JString (probe_to_string p)) (bl_probes b))),
      (''window'', json_of_window (bl_window b)), (''end_to_end'', json_of_distribution (bl_end_to_end b)),
      (''hops'', JArray (map json_of_hop_summary (bl_hops b))),
      (''evidence_state'', JString (state_to_string (ev_state (bl_evidence b))))]"

lemma write_baseline_document: "write_baseline b = write_value (json_of_baseline b)"
  by (simp add: write_baseline_def json_of_baseline_def json_of_id_def uint_json_def document_simps)

section \<open>Stored baselines\<close>

text \<open>Of the evidence of a baseline only the state is kept; its clock domain is that of the creation time.\<close>

definition persisted_baseline :: "baseline \<Rightarrow> baseline" where
  "persisted_baseline b = b\<lparr>bl_created_at := \<lparr>ts_ns = ts_ns (bl_created_at b), ts_domain = bl_domain b\<rparr>,
     bl_hops := map persisted_hop_summary (bl_hops b),
     bl_evidence := default_evidence\<lparr>ev_state := ev_state (bl_evidence b)\<rparr>\<rparr>"

definition baseline_storable :: "baseline \<Rightarrow> bool" where
  "baseline_storable b \<longleftrightarrow> name_ok (bl_name b) \<and> bl_revision b \<noteq> 0 \<and> timestamp_storable (bl_created_at b) \<and>
     readable (bl_exchange_count b) \<and> spec_storable (bl_histogram b) \<and> list_all probe_ok (bl_probes b) \<and>
     window_storable (bl_window b) \<and> distribution_storable (bl_end_to_end b) \<and> list_all hop_summary_storable (bl_hops b)"

lemma decode_baseline_document:
  assumes "baseline_storable b"
  shows "decode_baseline (json_of_baseline b) = Inr (persisted_baseline b)"
proof -
  have "\<forall>p \<in> set (bl_probes b). probe_ok p" "\<forall>h \<in> set (bl_hops b). hop_summary_storable h"
    using assms by (simp_all add: baseline_storable_def list_all_iff)
  then have probes: "decode_list (\<lambda>entry. try_bind (as_string entry) parse_quantile_probe)
      (map (\<lambda>p. JString (probe_to_string p)) (bl_probes b)) = Inr (bl_probes b)"
    and hops: "decode_list decode_hop_summary (map json_of_hop_summary (bl_hops b)) = Inr (map persisted_hop_summary (bl_hops b))"
    using decode_list_documents [of "bl_probes b" _ "\<lambda>p. JString (probe_to_string p)" "\<lambda>p. p"]
      decode_list_documents [of "bl_hops b" decode_hop_summary json_of_hop_summary persisted_hop_summary]
    by (simp_all add: decode_hop_summary_document decode_simps)
  from assms have "bl_revision b \<noteq> 0" "name_ok (bl_name b)" "spec_storable (bl_histogram b)" "window_storable (bl_window b)"
    "distribution_storable (bl_end_to_end b)" by (simp_all add: baseline_storable_def)
  with probes hops json_name_read [where n = "bl_name b"] show ?thesis
    by (cases b) (simp add: decode_baseline_def json_of_baseline_def persisted_baseline_def require_enum_def decode_simps)
qed

lemma json_ok_baseline:
  assumes "baseline_storable b" and "7 \<le> d"
  shows "json_ok d (json_of_baseline b)"
proof -
  have "json_ok e (json_of_window (bl_window b))" "json_ok e (json_of_spec (bl_histogram b))" if "2 \<le> e" for e
    using assms(1) that by (auto simp: baseline_storable_def json_of_window_def json_of_spec_def window_storable_def
        timestamp_storable_def spec_storable_def list_all_iff)
  then show ?thesis
    using assms
    by (auto simp: json_of_baseline_def baseline_storable_def timestamp_storable_def list_all_iff
        json_ok_distribution distribution_emittable json_ok_hop_summary)
qed

lemma find_persisted:
  "List.find (\<lambda>c. hs_index c = i) (map persisted_hop_summary hs) =
     map_option persisted_hop_summary (List.find (\<lambda>c. hs_index c = i) hs)"
  by (induction hs) (simp_all add: persisted_hop_summary_def)

lemma compare_persisted: "compare_baseline (persisted_baseline b) current policy = compare_baseline b current policy"
proof -
  have "hop_anomalies (persisted_baseline b) current policy = hop_anomalies b current policy"
    unfolding hop_anomalies_def
    by (rule arg_cong [where f = concat], rule map_cong)
      (simp_all add: persisted_baseline_def find_persisted persisted_hop_summary_def split: option.split)
  moreover have "mismatch_checks (persisted_baseline b) current policy = mismatch_checks b current policy"
    by (simp add: mismatch_checks_def persisted_baseline_def Let_def)
  moreover have "bl_id (persisted_baseline b) = bl_id b" "bl_end_to_end (persisted_baseline b) = bl_end_to_end b"
    by (simp_all add: persisted_baseline_def)
  ultimately show ?thesis by (simp only: compare_baseline_def)
qed

text \<open>C27: A stored baseline compares as before: a baseline with a valid name, a revision, a proper window and
  distributions that fit the text form is read back from the text written for it, when that is within
  the size and depth limits, and against every summary and under every policy the baseline read back
  gives exactly the comparison the original gives: the same mismatches, deltas and anomaly statements,
  although of its own evidence only the state was kept.\<close>

theorem restored_baseline_compares_alike:
  assumes "baseline_storable b" and "written (write_baseline b) = Some text"
    and "7 \<le> max_json_depth l" and "length text \<le> max_json_bytes l"
  shows "\<exists>b'. decode_baseline_text text l = Some (Inr b')
    \<and> (\<forall>current policy. compare_baseline b' current policy = compare_baseline b current policy)
    \<and> bl_id b' = bl_id b \<and> bl_revision b' = bl_revision b \<and> bl_path b' = bl_path b
    \<and> bl_generation b' = bl_generation b \<and> bl_domain b' = bl_domain b \<and> bl_histogram b' = bl_histogram b"
proof -
  have t: "text = render False 0 (json_of_baseline b)"
    using assms(2) by (simp add: write_baseline_document written_value)
  have "parse_json text (max_json_depth l) = Some (Inr (json_of_baseline b))"
    unfolding t by (rule parse_render [OF json_ok_baseline [OF assms(1,3)]])
  then have "decode_baseline_text text l = Some (Inr (persisted_baseline b))"
    using assms(4) decode_baseline_document [OF assms(1)] by (simp add: decode_baseline_text_def)
  then show ?thesis
    by (intro exI [of _ "persisted_baseline b"] conjI allI compare_persisted) (simp_all add: persisted_baseline_def)
qed

lemma sample_baseline_storable: "baseline_storable sample_baseline"
proof -
  have s: "spec_storable latency_default"
    by (simp add: spec_storable_def make_spec_def latency_default_def default_limits_def in_i64_iff)
  then have "distribution_storable (sample_distribution 1000000)"
    by (simp add: distribution_storable_def sample_distribution_def readable_def in_i64_iff optional_storable_def
        histogram_storable_def empty_histogram_def hist_wf_def list_all_iff)
  then show ?thesis
    using s by (simp add: baseline_storable_def sample_baseline_def timestamp_storable_def readable_def in_i64_iff
        window_storable_def make_window_def ts_valid_def valid_id_def name_ok_def is_name_start_def is_name_char_def kMaxLength_def)
qed

theorem restored_baseline_compares_alike_witness:
  "\<exists>text b'. written (write_baseline sample_baseline) = Some text
    \<and> decode_baseline_text text (default_limits\<lparr>max_json_bytes := length text\<rparr>) = Some (Inr b')
    \<and> compare_baseline b' sample_summary default_runtime_policy = compare_baseline sample_baseline sample_summary default_runtime_policy"
proof -
  obtain t where t: "written (write_baseline sample_baseline) = Some t"
    by (simp add: write_baseline_document written_value)
  from restored_baseline_compares_alike [OF sample_baseline_storable t, of "default_limits\<lparr>max_json_bytes := length t\<rparr>"]
  show ?thesis using t by (auto simp: default_limits_def)
qed

end
