(* ===== verification/Attribution.thy ===== *)
theory Attribution
  imports Baseline_Codec Ingest_Gate
begin

text \<open>
  \<^verbatim>\<open>attribute/attribute.cpp\<close>: the decomposition of observed end to end latency into the observed dwells of
  the hops of a path. The definitions follow the phases of \<^verbatim>\<open>attribute\<close>: the loop over the records
  with its inner loop over the declared hops, the semantics gate, the contributions, the verdict, the
  residual, and the comparison with a baseline.
\<close>

section \<open>Vocabulary\<close>

datatype attribution_kind = ObservedDecomposition | PartialDecomposition | Refused | Unsupported

definition kKinds :: "(attribution_kind \<times> string) list" where
  "kKinds = [(ObservedDecomposition, ''observed_decomposition''), (PartialDecomposition, ''partial_decomposition''),
     (Refused, ''refused''), (Unsupported, ''unsupported'')]"

definition kind_to_string :: "attribution_kind \<Rightarrow> string" where
  "kind_to_string k = enum_name kKinds ''refused'' k"

interpretation kind_names: named_enum kKinds "''refused''"
proof unfold_locales
  show "e \<in> fst ` set kKinds" for e by (cases e) (simp_all add: kKinds_def)
qed (simp_all add: kKinds_def)

record hop_contribution =
  hc_index :: hop_index
  hc_hop :: hop_id
  hc_mean_dwell_ns :: "nanos option"
  hc_sum_dwell_ns :: "nanos option"
  hc_mean_queue_dwell_ns :: "nanos option"
  hc_uncertainty_ns :: "nanos option"
  hc_share_ppm :: u64
  hc_coverage_ppm :: u64
  hc_evidence :: evidence

record attribution_request =
  aq_path :: path_id
  aq_generation :: generation_id
  aq_mode :: aggregation_mode
  aq_window :: time_window
  aq_histogram :: histogram_spec
  aq_probes :: "quantile_probe list"
  aq_baseline :: baseline_id

record attribution_result =
  ar_path :: path_id
  ar_generation :: generation_id
  ar_domain :: clock_domain_id
  ar_kind :: attribution_kind
  ar_window :: time_window
  ar_as_of :: timestamp
  ar_exchanges_considered :: u64
  ar_exchanges_included :: u64
  ar_exchanges_complete :: u64
  ar_exchanges_incomplete :: u64
  ar_negative_residuals :: u64
  ar_end_to_end_mean_ns :: "nanos option"
  ar_accounted_mean_ns :: "nanos option"
  ar_unaccounted_mean_ns :: "nanos option"
  ar_residual_min_ns :: "nanos option"
  ar_residual_max_ns :: "nanos option"
  ar_residual_mean_ns :: "nanos option"
  ar_uncertainty_ns :: "nanos option"
  ar_contributions :: "hop_contribution list"
  ar_evidence :: evidence
  ar_comparison :: "baseline_comparison option"
  ar_policy_digest :: string

definition clock_refusal_reason :: "evidence \<Rightarrow> bool" where
  "clock_refusal_reason ev \<longleftrightarrow>
     (\<exists>r \<in> set (ev_reasons ev). reason_code_of r \<in>
        {IncomparableClocks, ClockOffsetUnavailable, ClockUnsynced, ClockSyncExpired,
         ClockUncertaintyExceeded, ClockReferenceMismatch, ClockDomainMissing})"

definition absolute_at_most :: "nanos \<Rightarrow> nanos \<Rightarrow> bool" where
  "absolute_at_most v bound \<longleftrightarrow>
     (if v \<ge> 0 then v \<le> bound else if v = i64_min then False else - v \<le> bound)"

section \<open>The loop over the records\<close>

text \<open>The locals of \<^verbatim>\<open>attribute\<close> that the loop updates; lists over hops run parallel to the path's hops.\<close>

record attribution_acc =
  aa_considered :: u64
  aa_included :: u64
  aa_complete :: u64
  aa_incomplete :: u64
  aa_negative_residuals :: u64
  aa_evidence :: evidence
  aa_end_to_end_values :: "nanos list"
  aa_hop_values :: "nanos list list"
  aa_queue_values :: "nanos list list"
  aa_hop_observed :: "u64 list"
  aa_hop_missing :: "u64 list"
  aa_hop_uncertainty :: "nanos option list"
  aa_residual_values :: "nanos list"
  aa_contributing_sources :: "source_id list"
  aa_clocks_refused :: bool
  aa_refusal_evidence :: evidence

definition new_acc :: "nat \<Rightarrow> attribution_acc" where
  "new_acc n = \<lparr>aa_considered = 0, aa_included = 0, aa_complete = 0, aa_incomplete = 0, aa_negative_residuals = 0,
     aa_evidence = add_reason NoCausalInference [] default_evidence, aa_end_to_end_values = [],
     aa_hop_values = replicate n [], aa_queue_values = replicate n [], aa_hop_observed = replicate n 0,
     aa_hop_missing = replicate n 0, aa_hop_uncertainty = replicate n None, aa_residual_values = [],
     aa_contributing_sources = [], aa_clocks_refused = False, aa_refusal_evidence = default_evidence\<rparr>"

definition refuse_clocks :: "evidence \<Rightarrow> attribution_acc \<Rightarrow> attribution_acc" where
  "refuse_clocks ev acc = acc\<lparr>aa_clocks_refused := True, aa_refusal_evidence := merge (aa_refusal_evidence acc) ev\<rparr>"

text \<open>The exchange domain against the reference domain: whether comparable, and the offset.\<close>

definition check_exchange ::
  "clock_registry \<Rightarrow> measurement_record \<Rightarrow> attribution_acc \<Rightarrow> bool \<times> nanos \<times> attribution_acc" where
  "check_exchange clocks r acc =
     (if rec_domain r = reference_clock_domain then (True, 0, acc)
      else case compare_for clocks r (rec_domain r) reference_clock_domain of
        None \<Rightarrow> (False, 0, refuse_clocks (refused IncomparableClocks (id_to_hex (rec_domain r))) acc)
      | Some c \<Rightarrow> if cc_comparable c then (True, cc_offset_first_ns c, acc)
                   else (False, 0, refuse_clocks (cc_evidence c) acc))"

record exchange_view =
  xv_complete :: bool
  xv_timeline :: "nanos option list"
  xv_queue_timeline :: "nanos option list"

definition widen :: "nanos option \<Rightarrow> nanos option \<Rightarrow> nanos option" where
  "widen so_far found = (case (so_far, found) of
     (Some a, Some b) \<Rightarrow> Some (max a b) | (None, Some b) \<Rightarrow> Some b | (_, None) \<Rightarrow> so_far)"

definition observe_hop ::
  "clock_registry \<Rightarrow> measurement_record \<Rightarrow> nat \<Rightarrow> hop_observation option \<Rightarrow> exchange_view \<times> attribution_acc
     \<Rightarrow> exchange_view \<times> attribution_acc" where
  "observe_hop clocks r index found state =
     (let (view, acc) = state;
          incomplete_view = view\<lparr>xv_complete := False\<rparr>;
          missing_acc = acc\<lparr>aa_hop_missing := (aa_hop_missing acc)[index := aa_hop_missing acc ! index + 1]\<rparr>
      in case found of
           None \<Rightarrow> (incomplete_view, missing_acc)
         | Some ob \<Rightarrow>
             (case ho_dwell_ns ob of
                None \<Rightarrow> (incomplete_view, missing_acc\<lparr>
                  aa_refusal_evidence := merge (aa_refusal_evidence acc) (ho_evidence ob),
                  aa_clocks_refused := (aa_clocks_refused acc \<or> ev_state (ho_evidence ob) = RefusedState \<or>
                    ev_state (ho_evidence ob) = Conflicting \<or> clock_refusal_reason (ho_evidence ob))\<rparr>)
              | Some dwell \<Rightarrow>
                  let refusal = (if ts_domain (ho_entry ob) = rec_domain r then None
                        else case compare_for clocks r (ts_domain (ho_entry ob)) (rec_domain r) of
                          None \<Rightarrow> Some (refused IncomparableClocks (id_to_hex (ho_hop ob)))
                        | Some c \<Rightarrow> if cc_comparable c then None else Some (cc_evidence c))
                  in (case refusal of
                        Some ev \<Rightarrow> (incomplete_view, refuse_clocks ev acc)
                      | None \<Rightarrow>
                          (view\<lparr>xv_timeline := (xv_timeline view)[index := Some dwell],
                                xv_queue_timeline := (xv_queue_timeline view)[index := ho_queue_dwell_ns ob]\<rparr>,
                           acc\<lparr>aa_hop_uncertainty := (aa_hop_uncertainty acc)
                                 [index := widen (aa_hop_uncertainty acc ! index) (ho_dwell_uncertainty_ns ob)]\<rparr>))))"

fun observe_hops ::
  "clock_registry \<Rightarrow> measurement_record \<Rightarrow> nat list \<Rightarrow> exchange_view \<times> attribution_acc
     \<Rightarrow> exchange_view \<times> attribution_acc" where
  "observe_hops clocks r [] state = state"
| "observe_hops clocks r (index # rest) state =
     (case hop_index_from_value (word_of_nat index) of
        Inl e \<Rightarrow> ((fst state)\<lparr>xv_complete := False\<rparr>, snd state)
      | Inr i \<Rightarrow> observe_hops clocks r rest (observe_hop clocks r index (hop_at r i) state))"

fun account_hops :: "nanos option list \<Rightarrow> nanos \<Rightarrow> nanos option" where
  "account_hops [] accounted = Some accounted"
| "account_hops (None # rest) accounted = None"
| "account_hops (Some v # rest) accounted =
     (case checked_add_i64 accounted v of None \<Rightarrow> None | Some total_ns \<Rightarrow> account_hops rest total_ns)"

definition count_incomplete :: "attribution_acc \<Rightarrow> attribution_acc" where
  "count_incomplete acc = acc\<lparr>aa_incomplete := aa_incomplete acc + 1\<rparr>"

definition push_value :: "nanos list \<Rightarrow> nanos option \<Rightarrow> nanos list" where
  "push_value vs v = (case v of None \<Rightarrow> vs | Some x \<Rightarrow> vs @ [x])"

definition count_complete :: "exchange_view \<Rightarrow> nanos \<Rightarrow> nanos \<Rightarrow> attribution_acc \<Rightarrow> attribution_acc" where
  "count_complete view end_to_end accounted acc =
     (let residual = wrap_i64 (end_to_end - accounted)
      in acc\<lparr>aa_complete := aa_complete acc + 1,
             aa_end_to_end_values := aa_end_to_end_values acc @ [end_to_end],
             aa_residual_values := aa_residual_values acc @ [residual],
             aa_negative_residuals := (if residual < 0 then aa_negative_residuals acc + 1 else aa_negative_residuals acc),
             aa_hop_values := map2 push_value (aa_hop_values acc) (xv_timeline view),
             aa_hop_observed := map (\<lambda>n. n + 1) (aa_hop_observed acc),
             aa_queue_values := map2 push_value (aa_queue_values acc) (xv_queue_timeline view)\<rparr>)"

definition decompose_record ::
  "clock_registry \<Rightarrow> nat \<Rightarrow> measurement_record \<Rightarrow> attribution_acc \<Rightarrow> attribution_acc" where
  "decompose_record clocks hop_count r acc =
     (let acc = acc\<lparr>aa_included := aa_included acc + 1,
                    aa_contributing_sources := add_source (rec_source r) (aa_contributing_sources acc)\<rparr>;
          (comparable, exchange_offset, acc) = check_exchange clocks r acc;
          (view, acc) = observe_hops clocks r [0..<hop_count]
            (\<lparr>xv_complete = comparable, xv_timeline = replicate hop_count None,
              xv_queue_timeline = replicate hop_count None\<rparr>, acc)
      in if \<not> xv_complete view then count_incomplete acc
         else
           let request_reference = wrap_i64 (ts_ns (rec_request r) - exchange_offset);
               response_reference = wrap_i64 (ts_ns (rec_response r) - exchange_offset);
               end_to_end = wrap_i64 (response_reference - request_reference)
           in if end_to_end < 0 then count_incomplete acc
              else case account_hops (xv_timeline view) 0 of
                None \<Rightarrow> count_incomplete (acc\<lparr>aa_evidence := add_reason ArithmeticOverflow [] (aa_evidence acc)\<rparr>)
              | Some accounted \<Rightarrow> count_complete view end_to_end accounted acc)"

definition takes_part :: "attribution_request \<Rightarrow> measurement_record \<Rightarrow> bool" where
  "takes_part req r \<longleftrightarrow>
     (let received = stamp_received_at (rec_stamp r); st = ev_state (rec_evidence r)
      in rec_generation r = aq_generation req \<and> ts_domain received = ts_domain (tw_from (aq_window req)) \<and>
         window_contains (aq_window req) received \<and>
         \<not> (st = Conflicting \<or> st = UnsupportedState \<or> st = RefusedState \<or> st = UnknownState \<or> st = Missing) \<and>
         \<not> (aq_mode req = CurrentMode \<and> \<not> usable (rec_evidence r)))"

fun attribution_step ::
  "clock_registry \<Rightarrow> attribution_request \<Rightarrow> nat \<Rightarrow> attribution_acc \<Rightarrow> measurement_record option \<Rightarrow> attribution_acc" where
  "attribution_step clocks req hop_count acc None = acc"
| "attribution_step clocks req hop_count acc (Some r) =
     (if rec_path r \<noteq> aq_path req then acc
      else let acc = acc\<lparr>aa_considered := aa_considered acc + 1\<rparr>
           in if takes_part req r then decompose_record clocks hop_count r acc else acc)"

section \<open>Contributions\<close>

definition semantics_declared :: "catalog \<Rightarrow> source_id list \<Rightarrow> bool" where
  "semantics_declared cat sources \<longleftrightarrow>
     (\<exists>s \<in> set sources. case cat_source cat s of Inl e \<Rightarrow> False | Inr d \<Rightarrow> has_semantics (src_semantics d) HopDwell)"

definition finalize_distribution :: "attribution_request \<Rightarrow> runtime_policy \<Rightarrow> nanos list \<Rightarrow> distribution result" where
  "finalize_distribution req pol vs = aggregate vs (aq_histogram req) (aq_probes req) (pol_limits pol)"

definition contribution_evidence :: "hop_id \<Rightarrow> u64 \<Rightarrow> u64 \<Rightarrow> evidence" where
  "contribution_evidence hop observed_count missing_count =
     (let ev = add_reason NoCausalInference [] (observed Fresh High)
      in if observed_count = 0 then merge ev (unknown NoSamples (id_to_hex hop))
         else if missing_count \<noteq> 0 then merge ev (incomplete PartialCoverage (id_to_hex hop))
         else ev)"

definition new_contribution ::
  "attribution_acc \<Rightarrow> nat \<Rightarrow> hop_index \<Rightarrow> hop_id \<Rightarrow> distribution \<Rightarrow> distribution \<Rightarrow> hop_contribution" where
  "new_contribution acc index i hop dist queue_dist =
     (let observed_count = aa_hop_observed acc ! index; missing_count = aa_hop_missing acc ! index
      in \<lparr>hc_index = i, hc_hop = hop, hc_mean_dwell_ns = d_mean_ns dist, hc_sum_dwell_ns = d_sum_ns dist,
          hc_mean_queue_dwell_ns = d_mean_ns queue_dist, hc_uncertainty_ns = aa_hop_uncertainty acc ! index,
          hc_share_ppm = 0, hc_coverage_ppm = ratio_ppm observed_count (observed_count + missing_count),
          hc_evidence = contribution_evidence hop observed_count missing_count\<rparr>)"

text \<open>The checked sum over the hops: the sum so far and whether an addition overflowed.\<close>

definition add_accounted :: "nanos option \<Rightarrow> u64 \<times> bool \<Rightarrow> u64 \<times> bool" where
  "add_accounted hop_sum st =
     (case hop_sum of
        Some s \<Rightarrow> if s \<ge> 0 then (case checked_add_u64 (fst st) (to_u64 s) of
                    None \<Rightarrow> (fst st, True) | Some total_ns \<Rightarrow> (total_ns, snd st)) else st
      | None \<Rightarrow> st)"

fun conclude_contributions ::
  "attribution_request \<Rightarrow> runtime_policy \<Rightarrow> attribution_acc \<Rightarrow> nat \<Rightarrow> hop_id list \<Rightarrow> u64 \<times> bool
     \<Rightarrow> (hop_contribution list \<times> u64 \<times> bool) result" where
  "conclude_contributions req pol acc index [] st = Inr ([], st)"
| "conclude_contributions req pol acc index (hop # hops) st =
     try_bind (finalize_distribution req pol (aa_hop_values acc ! index)) (\<lambda>dist.
     try_bind (finalize_distribution req pol (aa_queue_values acc ! index)) (\<lambda>queue_dist.
       case hop_index_from_value (word_of_nat index) of
         Inl e \<Rightarrow> fail OutOfRange ''hop index exceeds the supported range'' []
       | Inr i \<Rightarrow>
           try_bind (conclude_contributions req pol acc (Suc index) hops (add_accounted (d_sum_ns dist) st)) (\<lambda>(cs, st').
             Inr (new_contribution acc index i hop dist queue_dist # cs, st'))))"

definition publish_share :: "u64 \<Rightarrow> hop_contribution \<Rightarrow> hop_contribution" where
  "publish_share accounted_sum c =
     (case hc_sum_dwell_ns c of
        None \<Rightarrow> c
      | Some s \<Rightarrow> if s < 0 \<or> accounted_sum = 0 then c else c\<lparr>hc_share_ppm := ratio_ppm (to_u64 s) accounted_sum\<rparr>)"

section \<open>The verdict\<close>

definition attribution_verdict ::
  "runtime_policy \<Rightarrow> bool \<Rightarrow> attribution_acc \<Rightarrow> evidence \<Rightarrow> attribution_kind \<times> evidence" where
  "attribution_verdict pol declared acc result_evidence =
     (let ev = result_evidence\<lparr>ev_state := Observed, ev_freshness := Fresh, ev_confidence := High\<rparr>
      in if aa_included acc = 0 then
           (Refused, merge ev (unknown NoSamples ''no included exchanges''))
         else if \<not> declared then
           (Unsupported, merge ev (unsupported SemanticsUnsupported ''no contributing source declares hop dwell semantics''))
         else if aa_clocks_refused acc then
           (Refused, (merge ev (aa_refusal_evidence acc))\<lparr>ev_state := RefusedState\<rparr>)
         else if aa_complete acc = 0 then
           (Refused, merge (merge ev (aa_refusal_evidence acc))
              (refused NonTilingCoverage ''no exchange was observed with every hop present''))
         else if aa_incomplete acc \<noteq> 0 then
           (let ev = (add_reason NonTilingCoverage [] (add_reason PartialCoverage (show_nat (unat (aa_incomplete acc))) ev))
                  \<lparr>ev_state := Incomplete, ev_confidence := Low\<rparr>
            in if \<not> allow_partial_decomposition (pol_attribution pol)
               then (Refused, merge ev (refused RefusedByPolicy ''incomplete hop coverage is refused by policy''))
               else (PartialDecomposition, ev))
         else (ObservedDecomposition, ev))"

definition produced :: "attribution_kind \<Rightarrow> bool" where
  "produced kind \<longleftrightarrow> kind = ObservedDecomposition \<or> kind = PartialDecomposition"

definition accounted_mean :: "u64 \<Rightarrow> u64 \<Rightarrow> evidence \<Rightarrow> nanos option \<times> evidence" where
  "accounted_mean accounted_sum complete ev =
     (if accounted_sum \<noteq> 0 \<and> complete \<noteq> 0 then
        let mean = accounted_sum div complete
        in if uint mean \<le> i64_max then (Some (uint mean), ev)
           else (None, add_reason ArithmeticOverflow ''the accounted mean exceeds the representable range'' ev)
      else (None, ev))"

definition unaccounted_mean ::
  "runtime_policy \<Rightarrow> nanos option \<Rightarrow> nanos option \<Rightarrow> evidence \<Rightarrow> nanos option \<times> evidence" where
  "unaccounted_mean pol end_to_end accounted ev =
     (case (end_to_end, accounted) of
        (Some e, Some a) \<Rightarrow>
          (case checked_sub_i64 e a of
             None \<Rightarrow> (None, ev)
           | Some residual \<Rightarrow> (Some residual,
               add_reason (if absolute_at_most residual (residual_tolerance_ns (pol_attribution pol))
                           then ResidualWithinTolerance else UnaccountedResidual) (show_int residual) ev))
      | _ \<Rightarrow> (None, ev))"

definition close_evidence :: "u64 \<Rightarrow> bool \<Rightarrow> evidence \<Rightarrow> evidence" where
  "close_evidence negative overflowed ev =
     (let ev = (if negative \<noteq> 0 then add_reason HopOverlap (show_nat (unat negative)) ev else ev);
          ev = (if overflowed then add_reason ArithmeticOverflow ''the end to end sum exceeds the representable range'' ev
                else ev)
      in add_reason NoCausalInference [] ev)"

definition summary_request_for :: "attribution_request \<Rightarrow> summary_request" where
  "summary_request_for req = \<lparr>sq_path = aq_path req, sq_generation = aq_generation req, sq_mode = aq_mode req,
     sq_window = aq_window req, sq_histogram = aq_histogram req, sq_probes = aq_probes req, sq_restrict_to_source = no_id\<rparr>"

definition attach_baseline ::
  "measurement_record option list \<Rightarrow> catalog \<Rightarrow> baseline_store option \<Rightarrow> attribution_request \<Rightarrow> runtime_policy
     \<Rightarrow> attribution_result \<Rightarrow> attribution_result result" where
  "attach_baseline records cat baselines req pol res =
     (case baselines of
        None \<Rightarrow> Inr res
      | Some store \<Rightarrow>
          if \<not> valid_id (aq_baseline req) then Inr res
          else case store_get store (aq_baseline req) of
            Inl e \<Rightarrow> Inr (res\<lparr>ar_evidence := add_reason BaselineMissing (id_to_hex (aq_baseline req)) (ar_evidence res)\<rparr>)
          | Inr reference \<Rightarrow>
              try_bind (summarize_path records cat (summary_request_for req) pol) (\<lambda>summary.
                Inr (res\<lparr>ar_comparison := Some (compare_baseline reference summary pol)\<rparr>)))"

text \<open>The result assembled from the accumulator, its distributions and its contributions.\<close>

definition assemble_result ::
  "catalog \<Rightarrow> attribution_request \<Rightarrow> runtime_policy \<Rightarrow> attribution_acc \<Rightarrow> distribution \<Rightarrow> distribution
     \<Rightarrow> hop_contribution list \<Rightarrow> u64 \<Rightarrow> bool \<Rightarrow> attribution_result" where
  "assemble_result cat req pol acc e2e residual contributions accounted_sum overflowed =
     (let declared = semantics_declared cat (aa_contributing_sources acc);
          result_evidence = (if overflowed then add_reason ArithmeticOverflow [] (aa_evidence acc) else aa_evidence acc);
          (kind, ev) = attribution_verdict pol declared acc result_evidence;
          shares = map (publish_share accounted_sum) contributions;
          published = (if produced kind then shares else map (\<lambda>c. c\<lparr>hc_share_ppm := 0\<rparr>) shares);
          (accounted, ev) = (if produced kind then accounted_mean accounted_sum (aa_complete acc) ev else (None, ev));
          (unaccounted, ev) = (if produced kind then unaccounted_mean pol (d_mean_ns e2e) accounted ev else (None, ev));
          ev = (if produced kind
                then add_reason (if kind = ObservedDecomposition then AttributionComplete else AttributionPartial) [] ev
                else ev)
      in \<lparr>ar_path = aq_path req, ar_generation = aq_generation req, ar_domain = ts_domain (tw_from (aq_window req)),
          ar_kind = kind, ar_window = aq_window req, ar_as_of = tw_to (aq_window req),
          ar_exchanges_considered = aa_considered acc, ar_exchanges_included = aa_included acc,
          ar_exchanges_complete = aa_complete acc, ar_exchanges_incomplete = aa_incomplete acc,
          ar_negative_residuals = aa_negative_residuals acc, ar_end_to_end_mean_ns = d_mean_ns e2e,
          ar_accounted_mean_ns = accounted, ar_unaccounted_mean_ns = unaccounted,
          ar_residual_min_ns = d_min_ns residual, ar_residual_max_ns = d_max_ns residual,
          ar_residual_mean_ns = d_mean_ns residual, ar_uncertainty_ns = None, ar_contributions = published,
          ar_evidence = close_evidence (aa_negative_residuals acc) (d_sum_overflowed e2e) ev,
          ar_comparison = None, ar_policy_digest = policy_digest pol\<rparr>)"

definition attribute ::
  "measurement_record option list \<Rightarrow> catalog \<Rightarrow> clock_registry \<Rightarrow> baseline_store option \<Rightarrow> attribution_request
     \<Rightarrow> runtime_policy \<Rightarrow> attribution_result result" where
  "attribute records cat clocks baselines req pol =
     (if \<not> window_valid (aq_window req) then fail InvalidArgument ''attribution requires a valid time window'' []
      else if \<not> valid_id (aq_generation req)
      then fail InvalidArgument ''attribution requires an explicit generation'' []
      else try_bind (cat_path cat (aq_path req)) (\<lambda>path.
        let hop_count = length (path_hops path);
            acc = foldl (attribution_step clocks req hop_count) (new_acc hop_count) records
        in try_bind (finalize_distribution req pol (aa_end_to_end_values acc)) (\<lambda>e2e.
           try_bind (finalize_distribution req pol (aa_residual_values acc)) (\<lambda>residual.
           try_bind (conclude_contributions req pol acc 0 (path_hops path) (0, False)) (\<lambda>(contributions, accounted_sum, overflowed).
             attach_baseline records cat baselines req pol
               (assemble_result cat req pol acc e2e residual contributions accounted_sum overflowed))))))"

section \<open>Text form\<close>

definition write_contribution :: "hop_contribution \<Rightarrow> writer_op" where
  "write_contribution c = wrun
     [begin_object,
      field_uint ''index'' (ucast (hc_index c)),
      field_string ''hop'' (id_to_hex (hc_hop c)),
      field_optional_int ''mean_dwell_ns'' (hc_mean_dwell_ns c),
      field_optional_int ''sum_dwell_ns'' (hc_sum_dwell_ns c),
      field_optional_int ''mean_queue_dwell_ns'' (hc_mean_queue_dwell_ns c),
      field_optional_int ''uncertainty_ns'' (hc_uncertainty_ns c),
      field_uint ''share_ppm'' (hc_share_ppm c),
      field_uint ''coverage_ppm'' (hc_coverage_ppm c),
      field_string ''evidence_state'' (state_to_string (ev_state (hc_evidence c))),
      end_object]"

definition write_attribution :: "attribution_result \<Rightarrow> writer_op" where
  "write_attribution r = wrun
     [begin_object,
      field_string ''path'' (id_to_hex (ar_path r)),
      field_string ''generation'' (id_to_hex (ar_generation r)),
      field_string ''clock_domain'' (id_to_hex (ar_domain r)),
      field_string ''kind'' (kind_to_string (ar_kind r)),
      field_int ''as_of_ns'' (ts_ns (ar_as_of r)),
      field_object ''window'',
      field_int ''from_ns'' (ts_ns (tw_from (ar_window r))),
      field_int ''to_ns'' (ts_ns (tw_to (ar_window r))),
      end_object,
      field_uint ''exchanges_considered'' (ar_exchanges_considered r),
      field_uint ''exchanges_included'' (ar_exchanges_included r),
      field_uint ''exchanges_complete'' (ar_exchanges_complete r),
      field_uint ''exchanges_incomplete'' (ar_exchanges_incomplete r),
      field_uint ''negative_residuals'' (ar_negative_residuals r),
      field_optional_int ''end_to_end_mean_ns'' (ar_end_to_end_mean_ns r),
      field_optional_int ''accounted_mean_ns'' (ar_accounted_mean_ns r),
      field_optional_int ''unaccounted_mean_ns'' (ar_unaccounted_mean_ns r),
      field_optional_int ''residual_min_ns'' (ar_residual_min_ns r),
      field_optional_int ''residual_max_ns'' (ar_residual_max_ns r),
      field_optional_int ''residual_mean_ns'' (ar_residual_mean_ns r),
      field_array ''contributions'',
      wrun (map write_contribution (ar_contributions r)),
      end_array,
      field_string ''policy_digest'' (ar_policy_digest r),
      field_string ''evidence_state'' (state_to_string (ev_state (ar_evidence r))),
      field_string ''confidence'' (confidence_to_string (ev_confidence (ar_evidence r))),
      write_reasons (ar_evidence r),
      (case ar_comparison r of
         Some c \<Rightarrow> wrun [json_key ''baseline_comparison'', write_comparison c]
       | None \<Rightarrow> field_null ''baseline_comparison''),
      end_object]"

section \<open>What one exchange contributes\<close>

definition domains_comparable :: "clock_registry \<Rightarrow> measurement_record \<Rightarrow> clock_domain_id \<Rightarrow> clock_domain_id \<Rightarrow> bool" where
  "domains_comparable clocks r a b \<longleftrightarrow> (case compare_for clocks r a b of None \<Rightarrow> False | Some c \<Rightarrow> cc_comparable c)"

definition exchange_comparable :: "clock_registry \<Rightarrow> measurement_record \<Rightarrow> bool" where
  "exchange_comparable clocks r \<longleftrightarrow>
     rec_domain r = reference_clock_domain \<or> domains_comparable clocks r (rec_domain r) reference_clock_domain"

text \<open>The dwell of a declared hop that may be added up: observed, on a timeline comparable with the exchange.\<close>

definition hop_dwell :: "clock_registry \<Rightarrow> measurement_record \<Rightarrow> nat \<Rightarrow> nanos option" where
  "hop_dwell clocks r i =
     (case hop_at r (word_of_nat i) of
        None \<Rightarrow> None
      | Some ob \<Rightarrow>
          if ts_domain (ho_entry ob) = rec_domain r \<or> domains_comparable clocks r (ts_domain (ho_entry ob)) (rec_domain r)
          then ho_dwell_ns ob else None)"

definition hop_refuses :: "clock_registry \<Rightarrow> measurement_record \<Rightarrow> nat \<Rightarrow> bool" where
  "hop_refuses clocks r i \<longleftrightarrow>
     (case hop_at r (word_of_nat i) of
        None \<Rightarrow> False
      | Some ob \<Rightarrow>
          if ho_dwell_ns ob = None
          then ev_state (ho_evidence ob) = RefusedState \<or> ev_state (ho_evidence ob) = Conflicting \<or>
            clock_refusal_reason (ho_evidence ob)
          else ts_domain (ho_entry ob) \<noteq> rec_domain r \<and>
            \<not> domains_comparable clocks r (ts_domain (ho_entry ob)) (rec_domain r))"

definition exchange_refuses :: "clock_registry \<Rightarrow> nat \<Rightarrow> measurement_record \<Rightarrow> bool" where
  "exchange_refuses clocks n r \<longleftrightarrow> \<not> exchange_comparable clocks r \<or> (\<exists>i < n. hop_refuses clocks r i)"

definition exchange_latency :: "measurement_record \<Rightarrow> nanos" where
  "exchange_latency r = wrap_i64 (ts_ns (rec_response r) - ts_ns (rec_request r))"

definition dwells_of :: "clock_registry \<Rightarrow> nat \<Rightarrow> measurement_record \<Rightarrow> nanos list" where
  "dwells_of clocks n r = map (\<lambda>i. the (hop_dwell clocks r i)) [0..<n]"

fun sums_fit :: "int \<Rightarrow> nanos list \<Rightarrow> bool" where
  "sums_fit s [] = True"
| "sums_fit s (d # ds) = (in_i64 (s + d) \<and> sums_fit (s + d) ds)"

text \<open>An exchange is decomposed when its hops tile it and the sum of its dwells is representable throughout.\<close>

definition decomposed :: "clock_registry \<Rightarrow> nat \<Rightarrow> measurement_record \<Rightarrow> bool" where
  "decomposed clocks n r \<longleftrightarrow> exchange_comparable clocks r \<and> (\<forall>i < n. hop_dwell clocks r i \<noteq> None) \<and>
     0 \<le> exchange_latency r \<and> sums_fit 0 (dwells_of clocks n r)"

definition residual_of :: "clock_registry \<Rightarrow> nat \<Rightarrow> measurement_record \<Rightarrow> nanos" where
  "residual_of clocks n r = wrap_i64 (exchange_latency r - sum_list (dwells_of clocks n r))"

lemma hop_index_nat: "i < 4096 \<Longrightarrow> hop_index_from_value (word_of_nat i) = Inr (word_of_nat i)"
  by (simp add: hop_index_from_value_def kMaxExclusive_def word_le_nat_alt unat_of_nat take_bit_nat_eq_self)

lemma wrap_i64_multiple: "\<exists>k. wrap_i64 x = x + k * 18446744073709551616"
proof
  show "wrap_i64 x = x + (- ((x + 9223372036854775808) div 18446744073709551616)) * 18446744073709551616"
    unfolding wrap_i64_def minus_div_mult_eq_mod [symmetric] by simp
qed

lemma wrap_i64_cong: "wrap_i64 (x + k * 18446744073709551616) = wrap_i64 x"
proof -
  have "x + k * 18446744073709551616 + 9223372036854775808 = x + 9223372036854775808 + k * 18446744073709551616" by simp
  then show ?thesis unfolding wrap_i64_def by (simp only: mod_mult_self1)
qed

lemma wrap_shift: "wrap_i64 (wrap_i64 (a - z) - wrap_i64 (b - z)) = wrap_i64 (a - b)"
proof -
  obtain k l where "wrap_i64 (a - z) = a - z + k * 18446744073709551616" "wrap_i64 (b - z) = b - z + l * 18446744073709551616"
    using wrap_i64_multiple by blast
  then have "wrap_i64 (a - z) - wrap_i64 (b - z) = a - b + (k - l) * 18446744073709551616" by (simp add: algebra_simps)
  then show ?thesis by (simp only: wrap_i64_cong)
qed

lemma account_hops_some:
  "in_i64 s \<Longrightarrow> \<forall>d \<in> set ds. in_i64 d \<Longrightarrow>
     account_hops (map Some ds) s = (if sums_fit s ds then Some (s + sum_list ds) else None)"
  by (induction ds arbitrary: s) (auto simp: checked_add_i64_spec add.assoc)

section \<open>The inner loop\<close>

lemma check_exchange_spec:
  assumes "check_exchange clocks r acc = (ok, z, acc')"
  shows "ok = exchange_comparable clocks r"
    and "\<exists>e. acc' = acc\<lparr>aa_clocks_refused := (aa_clocks_refused acc \<or> \<not> ok), aa_refusal_evidence := e\<rparr>"
proof -
  show "ok = exchange_comparable clocks r"
    using assms by (auto simp: check_exchange_def exchange_comparable_def domains_comparable_def split: if_splits option.splits)
  show "\<exists>e. acc' = acc\<lparr>aa_clocks_refused := (aa_clocks_refused acc \<or> \<not> ok), aa_refusal_evidence := e\<rparr>"
    using assms by (cases acc) (auto simp: check_exchange_def refuse_clocks_def split: if_splits option.splits)
qed

text \<open>What the loop over the hops may change of the accumulator.\<close>

definition hop_effect :: "bool \<Rightarrow> attribution_acc \<Rightarrow> attribution_acc \<Rightarrow> bool" where
  "hop_effect refusing acc acc' \<longleftrightarrow>
     (\<exists>m u e. acc' = acc\<lparr>aa_hop_missing := m, aa_hop_uncertainty := u,
        aa_clocks_refused := (aa_clocks_refused acc \<or> refusing), aa_refusal_evidence := e\<rparr> \<and>
        length m = length (aa_hop_missing acc) \<and> length u = length (aa_hop_uncertainty acc))"

lemma hop_effect_trans: "hop_effect a x y \<Longrightarrow> hop_effect b y z \<Longrightarrow> hop_effect (a \<or> b) x z"
  by (cases x) (auto simp: hop_effect_def)

lemma hop_effect_refl: "hop_effect False x x"
  by (cases x) (auto simp: hop_effect_def)

lemma observe_hop_spec:
  assumes "observe_hop clocks r i (hop_at r (word_of_nat i)) (view, acc) = (view', acc')"
  shows "xv_complete view' \<longleftrightarrow> xv_complete view \<and> hop_dwell clocks r i \<noteq> None"
    and "xv_timeline view' = (if hop_dwell clocks r i = None then xv_timeline view
           else (xv_timeline view)[i := hop_dwell clocks r i])"
    and "length (xv_queue_timeline view') = length (xv_queue_timeline view)"
    and "hop_effect (hop_refuses clocks r i) acc acc'"
proof -
  show "xv_complete view' \<longleftrightarrow> xv_complete view \<and> hop_dwell clocks r i \<noteq> None"
    and "xv_timeline view' = (if hop_dwell clocks r i = None then xv_timeline view
           else (xv_timeline view)[i := hop_dwell clocks r i])"
    and "length (xv_queue_timeline view') = length (xv_queue_timeline view)"
    using assms by (auto simp: observe_hop_def hop_dwell_def domains_comparable_def Let_def split: option.splits if_splits)
  show "hop_effect (hop_refuses clocks r i) acc acc'"
    using assms by (cases acc) (auto simp: observe_hop_def hop_effect_def hop_refuses_def domains_comparable_def refuse_clocks_def Let_def
        split: option.splits if_splits)
qed

lemma observe_hops_spec:
  assumes "observe_hops clocks r is (view, acc) = (view', acc')" and "\<forall>i \<in> set is. i < 4096"
  shows "(xv_complete view' \<longleftrightarrow> xv_complete view \<and> (\<forall>i \<in> set is. hop_dwell clocks r i \<noteq> None)) \<and>
    length (xv_timeline view') = length (xv_timeline view) \<and>
    (\<forall>j < length (xv_timeline view). xv_timeline view' ! j =
       (if j \<in> set is \<and> hop_dwell clocks r j \<noteq> None then hop_dwell clocks r j else xv_timeline view ! j)) \<and>
    length (xv_queue_timeline view') = length (xv_queue_timeline view) \<and>
    hop_effect (\<exists>i \<in> set is. hop_refuses clocks r i) acc acc'"
  using assms
proof (induction "is" arbitrary: view acc)
  case Nil
  then show ?case by (simp add: hop_effect_refl)
next
  case (Cons i "is")
  obtain v1 a1 where s: "observe_hop clocks r i (hop_at r (word_of_nat i)) (view, acc) = (v1, a1)" by (rule prod.exhaust)
  note O = observe_hop_spec [OF s]
  have "observe_hops clocks r is (v1, a1) = (view', acc')" using Cons.prems s by (simp add: hop_index_nat)
  note I = Cons.IH [OF this]
  have small: "\<forall>i \<in> set is. i < 4096" using Cons.prems(2) by simp
  have j: "j < length (xv_timeline view) \<Longrightarrow>
      xv_timeline v1 ! j = (if j = i \<and> hop_dwell clocks r j \<noteq> None then hop_dwell clocks r j else xv_timeline view ! j)" for j
    unfolding O(2) by (auto simp: nth_list_update)
  have l: "length (xv_timeline v1) = length (xv_timeline view)" unfolding O(2) by simp
  have "hop_effect (hop_refuses clocks r i \<or> (\<exists>i \<in> set is. hop_refuses clocks r i)) acc acc'"
    using hop_effect_trans [OF O(4)] I [OF small] by blast
  then show ?case using I [OF small] O(1,3) j l by auto
qed

section \<open>What the loop accumulates\<close>

definition record_in_i64 :: "measurement_record \<Rightarrow> bool" where
  "record_in_i64 r \<longleftrightarrow> (\<forall>h \<in> set (rec_hops r). (\<forall>d. ho_dwell_ns h = Some d \<longrightarrow> in_i64 d) \<and> (\<forall>d. ho_queue_dwell_ns h = Some d \<longrightarrow> in_i64 d))"

definition accumulated :: "clock_registry \<Rightarrow> nat \<Rightarrow> nat \<Rightarrow> measurement_record list \<Rightarrow> attribution_acc \<Rightarrow> bool" where
  "accumulated clocks n considered rs acc \<longleftrightarrow>
     (let ds = filter (decomposed clocks n) rs in
      aa_considered acc = word_of_nat considered \<and> aa_included acc = word_of_nat (length rs) \<and>
      aa_complete acc = word_of_nat (length ds) \<and> aa_incomplete acc = word_of_nat (length rs - length ds) \<and>
      aa_negative_residuals acc = word_of_nat (length (filter (\<lambda>r. residual_of clocks n r < 0) ds)) \<and>
      aa_end_to_end_values acc = map exchange_latency ds \<and> aa_residual_values acc = map (residual_of clocks n) ds \<and>
      aa_hop_values acc = map (\<lambda>i. map (\<lambda>r. the (hop_dwell clocks r i)) ds) [0..<n] \<and>
      length (aa_queue_values acc) = n \<and> (\<forall>q \<in> set (aa_queue_values acc). length q \<le> length ds) \<and>
      aa_hop_observed acc = replicate n (word_of_nat (length ds)) \<and>
      length (aa_hop_missing acc) = n \<and> length (aa_hop_uncertainty acc) = n \<and>
      set (aa_contributing_sources acc) = rec_source ` set rs \<and>
      (aa_clocks_refused acc \<longleftrightarrow> (\<exists>r \<in> set rs. exchange_refuses clocks n r)))"

lemma accumulated_new: "accumulated clocks n 0 [] (new_acc n)"
  by (simp add: accumulated_def new_acc_def map_replicate_const)

lemma hop_dwell_in_i64: "record_in_i64 r \<Longrightarrow> hop_dwell clocks r i = Some d \<Longrightarrow> in_i64 d"
  by (auto simp: record_in_i64_def hop_dwell_def hop_at_def find_Some_iff split: option.splits if_splits)

lemma add_source_set: "set (add_source s ss) = insert s (set ss)"
  by (auto simp: add_source_def)

definition included_acc ::
  "measurement_record \<Rightarrow> bool \<Rightarrow> u64 list \<Rightarrow> nanos option list \<Rightarrow> evidence \<Rightarrow> attribution_acc \<Rightarrow> attribution_acc" where
  "included_acc r refusing m u e acc = acc\<lparr>aa_included := aa_included acc + 1,
     aa_contributing_sources := add_source (rec_source r) (aa_contributing_sources acc), aa_hop_missing := m,
     aa_hop_uncertainty := u, aa_clocks_refused := (aa_clocks_refused acc \<or> refusing), aa_refusal_evidence := e\<rparr>"

text \<open>One record: its effect on the accumulator is that of the specification.\<close>

lemma decompose_record_spec:
  assumes "n \<le> 4096" and "record_in_i64 r"
    and "length (aa_hop_missing acc) = n" and "length (aa_hop_uncertainty acc) = n"
  obtains q m u e ev where "length m = n" "length u = n"
    "length (xv_queue_timeline q) = n" "decomposed clocks n r \<Longrightarrow> xv_timeline q = map Some (dwells_of clocks n r)"
    "decompose_record clocks n r acc =
       (if decomposed clocks n r
        then count_complete q (exchange_latency r) (sum_list (dwells_of clocks n r)) (included_acc r (exchange_refuses clocks n r) m u e acc)
        else count_incomplete ((included_acc r (exchange_refuses clocks n r) m u e acc)\<lparr>aa_evidence := ev\<rparr>))"
proof -
  let ?a0 = "acc\<lparr>aa_included := aa_included acc + 1,
              aa_contributing_sources := add_source (rec_source r) (aa_contributing_sources acc)\<rparr>"
  obtain ok z a1 where c: "check_exchange clocks r ?a0 = (ok, z, a1)" by (metis prod_cases3)
  note C = check_exchange_spec [OF c]
  let ?v0 = "\<lparr>xv_complete = ok, xv_timeline = replicate n None, xv_queue_timeline = replicate n None\<rparr>"
  obtain v a2 where o: "observe_hops clocks r [0..<n] (?v0, a1) = (v, a2)" by (rule prod.exhaust)
  have O: "xv_complete v \<longleftrightarrow> ok \<and> (\<forall>i < n. hop_dwell clocks r i \<noteq> None)" "length (xv_timeline v) = n"
    "\<forall>j < n. xv_timeline v ! j = (if hop_dwell clocks r j \<noteq> None then hop_dwell clocks r j else None)"
    "length (xv_queue_timeline v) = n" "hop_effect (\<exists>i < n. hop_refuses clocks r i) a1 a2"
    using observe_hops_spec [OF o] assms(1) by (auto simp: Bex_def)
  obtain m u e where a2: "a2 = included_acc r (exchange_refuses clocks n r) m u e acc" and l: "length m = n" "length u = n"
    using C O(5) assms(3,4) by (auto simp: hop_effect_def exchange_refuses_def included_acc_def)
  have t: "xv_timeline v = map Some (dwells_of clocks n r)" if "\<forall>i < n. hop_dwell clocks r i \<noteq> None"
    using O(2,3) that by (intro nth_equalityI) (auto simp: dwells_of_def)
  have a: "account_hops (xv_timeline v) 0 =
      (if sums_fit 0 (dwells_of clocks n r) then Some (sum_list (dwells_of clocks n r)) else None)"
    if h: "\<forall>i < n. hop_dwell clocks r i \<noteq> None"
    unfolding t [OF h] using account_hops_some [of 0 "dwells_of clocks n r"] h hop_dwell_in_i64 [OF assms(2)]
    by (auto simp: dwells_of_def in_i64_iff)
  define ev where "ev = (if xv_complete v \<and> 0 \<le> exchange_latency r \<and> account_hops (xv_timeline v) 0 = None
     then add_reason ArithmeticOverflow [] (aa_evidence acc) else aa_evidence acc)"
  have "decompose_record clocks n r acc =
      (if \<not> xv_complete v \<or> exchange_latency r < 0 then count_incomplete a2
       else case account_hops (xv_timeline v) 0 of
         None \<Rightarrow> count_incomplete (a2\<lparr>aa_evidence := add_reason ArithmeticOverflow [] (aa_evidence a2)\<rparr>)
       | Some s \<Rightarrow> count_complete v (exchange_latency r) s a2)"
    unfolding decompose_record_def by (simp add: c o wrap_shift exchange_latency_def [symmetric])
  also have "\<dots> = (if decomposed clocks n r
           then count_complete v (exchange_latency r) (sum_list (dwells_of clocks n r)) a2
           else count_incomplete (a2\<lparr>aa_evidence := ev\<rparr>))"
    using O(1) C(1) a by (auto simp: decomposed_def ev_def a2 included_acc_def)
  finally have d: "decompose_record clocks n r acc = (if decomposed clocks n r
           then count_complete v (exchange_latency r) (sum_list (dwells_of clocks n r)) a2
           else count_incomplete (a2\<lparr>aa_evidence := ev\<rparr>))" .
  have "decomposed clocks n r \<Longrightarrow> xv_timeline v = map Some (dwells_of clocks n r)" using t by (simp add: decomposed_def)
  then show thesis by (rule that [OF l O(4) _ d [unfolded a2]])
qed

lemma push_hop_values:
  assumes "t = map Some (map f [0..<n])"
  shows "map2 push_value (map (\<lambda>i. vs i) [0..<n]) t = map (\<lambda>i. vs i @ [f i]) [0..<n]"
  unfolding assms by (simp add: zip_map_map zip_same_conv_map push_value_def)

lemma push_lengths:
  assumes "\<forall>q \<in> set qs. length q \<le> m"
  shows "\<forall>q \<in> set (map2 push_value qs t). length q \<le> Suc m"
  using assms by (fastforce simp: push_value_def dest: set_zip_leftD split: option.splits)

lemma decompose_accumulates:
  assumes "accumulated clocks n c rs acc" and "n \<le> 4096" and "record_in_i64 r"
  shows "accumulated clocks n c (rs @ [r]) (decompose_record clocks n r acc)"
proof -
  let ?ds = "filter (decomposed clocks n) rs"
  have lens: "length (aa_hop_missing acc) = n" "length (aa_hop_uncertainty acc) = n"
    using assms(1) by (simp_all add: accumulated_def Let_def)
  have le: "length ?ds \<le> length rs" by simp
  obtain q m u e ev where l: "length m = n" "length u = n" "length (xv_queue_timeline q) = n"
    and t: "decomposed clocks n r \<Longrightarrow> xv_timeline q = map Some (dwells_of clocks n r)"
    and d: "decompose_record clocks n r acc =
       (if decomposed clocks n r
        then count_complete q (exchange_latency r) (sum_list (dwells_of clocks n r)) (included_acc r (exchange_refuses clocks n r) m u e acc)
        else count_incomplete ((included_acc r (exchange_refuses clocks n r) m u e acc)\<lparr>aa_evidence := ev\<rparr>))"
    by (rule decompose_record_spec [OF assms(2,3) lens, of clocks], rule that)
  show ?thesis
  proof (cases "decomposed clocks n r")
    case True
    have "map2 push_value (aa_hop_values acc) (xv_timeline q) =
        map (\<lambda>i. map (\<lambda>r. the (hop_dwell clocks r i)) ?ds @ [the (hop_dwell clocks r i)]) [0..<n]"
      using push_hop_values [of "xv_timeline q" "\<lambda>i. the (hop_dwell clocks r i)" n] t [OF True] assms(1)
      by (simp add: accumulated_def Let_def dwells_of_def)
    moreover have "\<forall>q \<in> set (map2 push_value (aa_queue_values acc) (xv_queue_timeline q)). length q \<le> Suc (length ?ds)"
      by (rule push_lengths) (use assms(1) in \<open>simp add: accumulated_def Let_def\<close>)
    ultimately show ?thesis
      using assms(1) True l
      by (simp add: d accumulated_def Let_def count_complete_def included_acc_def add_source_set residual_of_def) blast
  next
    case False
    then show ?thesis
      using assms(1) l le
      by (simp add: d accumulated_def Let_def count_incomplete_def included_acc_def add_source_set Suc_diff_le) blast
  qed
qed

definition considered_records :: "attribution_request \<Rightarrow> measurement_record option list \<Rightarrow> measurement_record list" where
  "considered_records req records = filter (\<lambda>r. rec_path r = aq_path req) (List.map_filter id records)"

definition included_records :: "attribution_request \<Rightarrow> measurement_record option list \<Rightarrow> measurement_record list" where
  "included_records req records = filter (takes_part req) (considered_records req records)"

lemma records_snoc:
  "considered_records req (records @ [x]) = considered_records req records @
     (case x of None \<Rightarrow> [] | Some r \<Rightarrow> if rec_path r = aq_path req then [r] else [])"
  "included_records req (records @ [x]) = included_records req records @
     (case x of None \<Rightarrow> [] | Some r \<Rightarrow> if rec_path r = aq_path req \<and> takes_part req r then [r] else [])"
  by (auto simp: considered_records_def included_records_def List.map_filter_def split: option.split)

lemma attribution_loop:
  assumes "n \<le> 4096" and "\<forall>r. Some r \<in> set records \<longrightarrow> record_in_i64 r"
  shows "accumulated clocks n (length (considered_records req records)) (included_records req records)
    (foldl (attribution_step clocks req n) (new_acc n) records)"
  using assms(2)
proof (induction records rule: rev_induct)
  case Nil
  then show ?case
    using accumulated_new by (simp add: considered_records_def included_records_def List.map_filter_simps)
next
  case (snoc x records)
  let ?acc = "foldl (attribution_step clocks req n) (new_acc n) records"
  have I: "accumulated clocks n (length (considered_records req records)) (included_records req records) ?acc"
    using snoc by simp
  have C: "accumulated clocks n (Suc c) rs (acc\<lparr>aa_considered := aa_considered acc + 1\<rparr>)" if "accumulated clocks n c rs acc" for c rs acc
    using that by (simp add: accumulated_def Let_def)
  show ?case
  proof (cases x)
    case (Some r)
    then show ?thesis
      using I C decompose_accumulates [OF C [OF I] assms(1)] snoc.prems by (simp add: records_snoc Let_def)
  qed (use I in \<open>simp add: records_snoc\<close>)
qed

section \<open>From the accumulator to the result\<close>

lemma conclude_contributions_spec:
  assumes "conclude_contributions req pol acc index hops st = Inr (cs, st')" and "index \<le> 4096"
  shows "index + length hops \<le> 4096 \<and> length cs = length hops \<and> st' = foldl (\<lambda>st c. add_accounted (hc_sum_dwell_ns c) st) st cs \<and>
    (\<forall>k < length hops. \<exists>dist queue_dist.
       finalize_distribution req pol (aa_hop_values acc ! (index + k)) = Inr dist \<and>
       cs ! k = new_contribution acc (index + k) (word_of_nat (index + k)) (hops ! k) dist queue_dist)"
  using assms
proof (induction hops arbitrary: index st cs)
  case (Cons hop hops)
  have i: "index < 4096"
  proof (rule ccontr)
    assume "\<not> index < 4096"
    then have "index = 4096" using Cons.prems(2) by simp
    then show False
      using Cons.prems(1) by (auto simp: try_bind_eq_Inr hop_index_from_value_def kMaxExclusive_def fail_def)
  qed
  from Cons.prems(1) i obtain dist queue_dist cs0 where d: "finalize_distribution req pol (aa_hop_values acc ! index) = Inr dist"
    and r: "conclude_contributions req pol acc (Suc index) hops (add_accounted (d_sum_ns dist) st) = Inr (cs0, st')"
    and cs: "cs = new_contribution acc index (word_of_nat index) hop dist queue_dist # cs0"
    by (auto simp: try_bind_eq_Inr hop_index_nat split: prod.splits)
  from Cons.IH [OF r] i have I: "Suc index + length hops \<le> 4096" "length cs0 = length hops"
    "st' = foldl (\<lambda>st c. add_accounted (hc_sum_dwell_ns c) st) (add_accounted (d_sum_ns dist) st) cs0"
    "\<forall>k < length hops. \<exists>dist queue_dist.
       finalize_distribution req pol (aa_hop_values acc ! (Suc index + k)) = Inr dist \<and>
       cs0 ! k = new_contribution acc (Suc index + k) (word_of_nat (Suc index + k)) (hops ! k) dist queue_dist"
    by simp_all
  have k: "\<exists>dist queue_dist. finalize_distribution req pol (aa_hop_values acc ! (index + k)) = Inr dist \<and>
       cs ! k = new_contribution acc (index + k) (word_of_nat (index + k)) ((hop # hops) ! k) dist queue_dist"
    if "k < length (hop # hops)" for k
    using I(4) that d cs by (cases k) auto
  show ?case using I(1-3) k cs by (simp add: new_contribution_def Let_def)
qed (simp add: conclude_contributions.simps)

lemma attach_baseline_keeps:
  "attach_baseline records cat baselines req pol res = Inr res' \<Longrightarrow>
     \<exists>e c. res' = res\<lparr>ar_evidence := e, ar_comparison := c\<rparr>"
  by (cases res) (auto simp: attach_baseline_def try_bind_eq_Inr split: option.splits if_splits sum.splits)

lemma attribute_result:
  assumes "attribute records cat clocks baselines req pol = Inr res"
  obtains path acc e2e residual cs total overflowed e c where "cat_path cat (aq_path req) = Inr path" "length (path_hops path) \<le> 4096"
    "acc = foldl (attribution_step clocks req (length (path_hops path))) (new_acc (length (path_hops path))) records"
    "finalize_distribution req pol (aa_end_to_end_values acc) = Inr e2e"
    "finalize_distribution req pol (aa_residual_values acc) = Inr residual"
    "conclude_contributions req pol acc 0 (path_hops path) (0, False) = Inr (cs, total, overflowed)"
    "res = (assemble_result cat req pol acc e2e residual cs total overflowed)\<lparr>ar_evidence := e, ar_comparison := c\<rparr>"
proof -
  from assms obtain path e2e residual cs total overflowed where p: "cat_path cat (aq_path req) = Inr path"
    and k: "finalize_distribution req pol (aa_end_to_end_values (foldl (attribution_step clocks req (length (path_hops path))) (new_acc (length (path_hops path))) records)) = Inr e2e"
    "finalize_distribution req pol (aa_residual_values (foldl (attribution_step clocks req (length (path_hops path))) (new_acc (length (path_hops path))) records)) = Inr residual"
    "conclude_contributions req pol (foldl (attribution_step clocks req (length (path_hops path))) (new_acc (length (path_hops path))) records) 0 (path_hops path) (0, False) = Inr (cs, total, overflowed)"
    "attach_baseline records cat baselines req pol (assemble_result cat req pol (foldl (attribution_step clocks req (length (path_hops path))) (new_acc (length (path_hops path))) records) e2e residual cs total overflowed) = Inr res"
    by (auto simp: attribute_def try_bind_eq_Inr Let_def split: if_splits)
  from attach_baseline_keeps [OF k(4)] obtain e c where
    "res = (assemble_result cat req pol (foldl (attribution_step clocks req (length (path_hops path))) (new_acc (length (path_hops path))) records) e2e residual cs total overflowed)\<lparr>ar_evidence := e, ar_comparison := c\<rparr>"
    by blast
  moreover have "length (path_hops path) \<le> 4096" using conclude_contributions_spec [OF k(3)] by simp
  ultimately show thesis by (intro that [OF p _ refl k(1-3)])
qed

lemma assemble_fields:
  fixes cat req pol acc e2e residual cs total overflowed
  defines "res \<equiv> assemble_result cat req pol acc e2e residual cs total overflowed"
    and "kind \<equiv> fst (attribution_verdict pol (semantics_declared cat (aa_contributing_sources acc)) acc default_evidence)"
  shows "ar_kind res = kind"
    and "ar_contributions res = (if produced kind then map (publish_share total) cs else map (\<lambda>c. c\<lparr>hc_share_ppm := 0\<rparr>) cs)"
    and "\<not> produced kind \<Longrightarrow> ar_accounted_mean_ns res = None \<and> ar_unaccounted_mean_ns res = None"
    and "ar_exchanges_considered res = aa_considered acc" "ar_exchanges_included res = aa_included acc"
    and "ar_exchanges_complete res = aa_complete acc" "ar_exchanges_incomplete res = aa_incomplete acc"
    and "ar_negative_residuals res = aa_negative_residuals acc" "ar_end_to_end_mean_ns res = d_mean_ns e2e"
    and "ar_residual_min_ns res = d_min_ns residual" "ar_residual_max_ns res = d_max_ns residual"
    and "ar_residual_mean_ns res = d_mean_ns residual"
    and "produced kind \<Longrightarrow> ar_accounted_mean_ns res = fst (accounted_mean total (aa_complete acc) default_evidence)"
proof -
  define ev0 where "ev0 = (if overflowed then add_reason ArithmeticOverflow [] (aa_evidence acc) else aa_evidence acc)"
  obtain ev1 where v: "attribution_verdict pol (semantics_declared cat (aa_contributing_sources acc)) acc ev0 = (kind, ev1)"
    by (cases "attribution_verdict pol (semantics_declared cat (aa_contributing_sources acc)) acc ev0")
      (simp add: kind_def attribution_verdict_def Let_def split: if_splits)
  obtain a ev2 where a: "(if produced kind then accounted_mean total (aa_complete acc) ev1 else (None, ev1)) = (a, ev2)"
    by (rule prod.exhaust)
  obtain u ev3 where u: "(if produced kind then unaccounted_mean pol (d_mean_ns e2e) a ev2 else (None, ev2)) = (u, ev3)"
    by (rule prod.exhaust)
  have z: "(publish_share total c)\<lparr>hc_share_ppm := 0\<rparr> = c\<lparr>hc_share_ppm := 0\<rparr>" for c
    by (simp add: publish_share_def split: option.split)
  note d = assemble_result_def [of cat req pol acc e2e residual cs total overflowed, folded ev0_def res_def, unfolded Let_def v prod.case a u]
  show "ar_kind res = kind"
    "ar_contributions res = (if produced kind then map (publish_share total) cs else map (\<lambda>c. c\<lparr>hc_share_ppm := 0\<rparr>) cs)"
    "ar_exchanges_considered res = aa_considered acc" "ar_exchanges_included res = aa_included acc"
    "ar_exchanges_complete res = aa_complete acc" "ar_exchanges_incomplete res = aa_incomplete acc"
    "ar_negative_residuals res = aa_negative_residuals acc" "ar_end_to_end_mean_ns res = d_mean_ns e2e"
    "ar_residual_min_ns res = d_min_ns residual" "ar_residual_max_ns res = d_max_ns residual"
    "ar_residual_mean_ns res = d_mean_ns residual"
    by (simp_all add: d z comp_def)
  show "\<not> produced kind \<Longrightarrow> ar_accounted_mean_ns res = None \<and> ar_unaccounted_mean_ns res = None"
    using a u by (simp add: d)
  show "produced kind \<Longrightarrow> ar_accounted_mean_ns res = fst (accounted_mean total (aa_complete acc) default_evidence)"
    using a by (auto simp: d accounted_mean_def Let_def split: if_splits)
qed

section \<open>Decompositions are produced exactly when they are permitted\<close>

definition hop_semantics :: "catalog \<Rightarrow> source_id \<Rightarrow> bool" where
  "hop_semantics cat s \<longleftrightarrow> (case cat_source cat s of Inl e \<Rightarrow> False | Inr d \<Rightarrow> has_semantics (src_semantics d) HopDwell)"

lemma included_length: "length (included_records req records) \<le> length records"
proof -
  have "length (List.map_filter id records) \<le> length records" by (simp add: List.map_filter_def)
  then show ?thesis
    unfolding included_records_def considered_records_def by (meson length_filter_le order_trans)
qed

lemma word_of_nat_small: "k \<le> m \<Longrightarrow> m < 2 ^ 60 \<Longrightarrow> (word_of_nat k = (0 :: u64)) = (k = 0)"
proof -
  assume "k \<le> m" and "m < 2 ^ 60"
  then have "unat (word_of_nat k :: u64) = k" by (intro unat_count) simp
  then show ?thesis by (cases "k = 0") auto
qed

lemma verdict_kind:
  "fst (attribution_verdict pol declared acc ev) =
     (if aa_included acc = 0 then Refused else if \<not> declared then Unsupported else if aa_clocks_refused acc then Refused
      else if aa_complete acc = 0 then Refused
      else if aa_incomplete acc \<noteq> 0 then (if allow_partial_decomposition (pol_attribution pol) then PartialDecomposition else Refused)
      else ObservedDecomposition)"
  by (simp add: attribution_verdict_def Let_def)

lemma filter_length_eq: "length (filter P xs) = length xs \<longleftrightarrow> filter P xs = xs"
  by (metis length_filter_less less_irrefl filter_True)

lemma attribution_kind_spec:
  fixes cat :: catalog
  assumes "accumulated clocks n c rs acc" and "length rs \<le> m" and "m < 2 ^ 60"
  defines "declared \<equiv> \<exists>r \<in> set rs. hop_semantics cat (rec_source r)"
    and "comparable \<equiv> \<forall>r \<in> set rs. \<not> exchange_refuses clocks n r"
    and "ds \<equiv> filter (decomposed clocks n) rs"
  shows "fst (attribution_verdict pol (semantics_declared cat (aa_contributing_sources acc)) acc ev) =
    (if rs = [] then Refused else if \<not> declared then Unsupported else if \<not> comparable \<or> ds = [] then Refused
     else if ds = rs then ObservedDecomposition
     else if allow_partial_decomposition (pol_attribution pol) then PartialDecomposition else Refused)"
proof -
  have A: "aa_included acc = word_of_nat (length rs)" "aa_complete acc = word_of_nat (length ds)"
    "aa_incomplete acc = word_of_nat (length rs - length ds)" "set (aa_contributing_sources acc) = rec_source ` set rs"
    "aa_clocks_refused acc \<longleftrightarrow> (\<exists>r \<in> set rs. exchange_refuses clocks n r)"
    using assms(1) unfolding accumulated_def Let_def ds_def by blast+
  have d: "semantics_declared cat (aa_contributing_sources acc) \<longleftrightarrow> declared"
    unfolding semantics_declared_def declared_def A(4) by (simp add: hop_semantics_def)
  have l: "length ds \<le> length rs" by (simp add: ds_def)
  have z: "aa_included acc = 0 \<longleftrightarrow> rs = []" "aa_complete acc = 0 \<longleftrightarrow> ds = []" "aa_incomplete acc = 0 \<longleftrightarrow> ds = rs"
  proof -
    show "aa_included acc = 0 \<longleftrightarrow> rs = []" unfolding A(1) using word_of_nat_small [OF assms(2,3)] by simp
    show "aa_complete acc = 0 \<longleftrightarrow> ds = []" unfolding A(2) using word_of_nat_small [of "length ds", OF _ assms(3)] l assms(2) by simp
    have "length rs - length ds \<le> m" using assms(2) by simp
    from word_of_nat_small [OF this assms(3)] show "aa_incomplete acc = 0 \<longleftrightarrow> ds = rs"
      unfolding A(3) using l filter_length_eq [of "decomposed clocks n" rs, folded ds_def] by (simp only:) linarith
  qed
  show ?thesis unfolding verdict_kind z d A(5) comparable_def by auto
qed

text \<open>C13: A decomposition is produced exactly when it is permitted: for the exchanges of the path, generation, window
  and mode of the request, it is complete when some contributing source declares hop dwell semantics,
  no exchange refuses and every exchange has an observed dwell for every declared hop; it is partial
  when some exchange is not decomposed, none refuses and the policy allows it. An exchange refuses when its
  clock domain or that of a hop with a dwell is not comparable, and also when a hop without a dwell has
  refused or conflicting evidence or a reason that blames a clock: one hop whose exit precedes its entry,
  all in one domain, refuses the whole request even where partial results are allowed. In every other
  case nothing is attributed: every share is zero and no accounted latency is published.\<close>

theorem attribution_decides:
  assumes "attribute records cat clocks baselines req pol = Inr res"
    and "\<forall>r. Some r \<in> set records \<longrightarrow> record_in_i64 r" and "length records < 2 ^ 60"
  shows "\<exists>path. cat_path cat (aq_path req) = Inr path \<and>
    (let n = length (path_hops path); rs = included_records req records; ds = filter (decomposed clocks n) rs;
         permitted = ((\<exists>r \<in> set rs. hop_semantics cat (rec_source r)) \<and>
           (\<forall>r \<in> set rs. exchange_comparable clocks r \<and> (\<forall>i < n. \<not> hop_refuses clocks r i)))
     in (ar_kind res = ObservedDecomposition \<longleftrightarrow> permitted \<and> ds = rs)
      \<and> (ar_kind res = PartialDecomposition \<longleftrightarrow>
           permitted \<and> ds \<noteq> [] \<and> ds \<noteq> rs \<and> allow_partial_decomposition (pol_attribution pol))
      \<and> (ar_kind res = Unsupported \<longleftrightarrow> rs \<noteq> [] \<and> (\<forall>r \<in> set rs. \<not> hop_semantics cat (rec_source r)))
      \<and> (\<not> produced (ar_kind res) \<longrightarrow> (\<forall>c \<in> set (ar_contributions res). hc_share_ppm c = 0)
           \<and> ar_accounted_mean_ns res = None \<and> ar_unaccounted_mean_ns res = None))"
proof -
  from assms(1) obtain path acc e2e residual cs total overflowed e c where p: "cat_path cat (aq_path req) = Inr path"
    and n: "length (path_hops path) \<le> 4096"
    and a: "acc = foldl (attribution_step clocks req (length (path_hops path))) (new_acc (length (path_hops path))) records"
    and r: "res = (assemble_result cat req pol acc e2e residual cs total overflowed)\<lparr>ar_evidence := e, ar_comparison := c\<rparr>"
    by (rule attribute_result)
  let ?n = "length (path_hops path)" and ?rs = "included_records req records"
  have A: "accumulated clocks ?n (length (considered_records req records)) ?rs acc"
    unfolding a by (rule attribution_loop [OF n assms(2)])
  note F = assemble_fields [where cat = cat and req = req and pol = pol and acc = acc and ?e2e.0 = e2e and residual = residual
      and cs = cs and total = total and overflowed = overflowed]
  note K = attribution_kind_spec [OF A included_length assms(3), where cat = cat and pol = pol and ev = default_evidence]
  have k: "ar_kind res = fst (attribution_verdict pol (semantics_declared cat (aa_contributing_sources acc)) acc default_evidence)"
    by (simp add: r F(1))
  have "\<not> produced (ar_kind res) \<longrightarrow> (\<forall>c \<in> set (ar_contributions res). hc_share_ppm c = 0)
      \<and> ar_accounted_mean_ns res = None \<and> ar_unaccounted_mean_ns res = None"
    using F(2,3) by (auto simp: k) (auto simp: r)
  moreover have "filter (decomposed clocks ?n) ?rs = ?rs \<longrightarrow> ?rs \<noteq> [] \<longrightarrow> filter (decomposed clocks ?n) ?rs \<noteq> []" by simp
  ultimately show ?thesis
    unfolding k K p Let_def exchange_refuses_def by (intro exI [of _ path]) auto
qed

text \<open>Conflicting evidence of a hop in the domain of its exchange: no clock comparison fails, and yet the exchange refuses.\<close>

lemma conflicting_hop_refuses:
  assumes "hop_at r (word_of_nat i) = Some h" and "ho_dwell_ns h = None" and "ev_state (ho_evidence h) = Conflicting"
  shows "hop_refuses clocks r i"
  using assms by (simp add: hop_refuses_def)

section \<open>The numbers of a decomposition\<close>

definition hop_total :: "clock_registry \<Rightarrow> measurement_record list \<Rightarrow> nat \<Rightarrow> int" where
  "hop_total clocks ds i = (\<Sum>r \<leftarrow> ds. the (hop_dwell clocks r i))"

definition latency_total :: "measurement_record list \<Rightarrow> int" where
  "latency_total ds = (\<Sum>r \<leftarrow> ds. exchange_latency r)"

definition floor_of :: "int \<Rightarrow> nat \<Rightarrow> nanos option" where
  "floor_of s n = (if in_i64 s then Some (s div int n) else None)"

lemma finalize_exact:
  assumes "finalize_distribution req pol vs = Inr d" and "vs \<noteq> []" and "\<forall>v \<in> set vs. in_i64 v" and "length vs < 2 ^ 60"
    and "list_all probe_ok (aq_probes req)"
  shows "d_sum_ns d = (if in_i64 (sum_list vs) then Some (sum_list vs) else None)"
    and "d_mean_ns d = floor_of (sum_list vs) (length vs)"
    and "d_min_ns d = Some (Min (set vs))" "d_max_ns d = Some (Max (set vs))"
proof -
  have "describes vs (aq_histogram req) (aq_probes req) d"
    using aggregate_result [OF assms(1) [unfolded finalize_distribution_def] assms(3-5)] assms(2) by blast
  then show "d_sum_ns d = (if in_i64 (sum_list vs) then Some (sum_list vs) else None)"
    "d_mean_ns d = floor_of (sum_list vs) (length vs)" "d_min_ns d = Some (Min (set vs))" "d_max_ns d = Some (Max (set vs))"
    unfolding describes_def Let_def floor_of_def by blast+
qed

lemma exchange_total:
  "(\<Sum>r \<leftarrow> ds. sum_list (dwells_of clocks n r)) = (\<Sum>i \<leftarrow> [0..<n]. hop_total clocks ds i)"
proof -
  have "(\<Sum>r \<leftarrow> ds. sum_list (dwells_of clocks n r)) = (\<Sum>i \<leftarrow> [0..<n]. \<Sum>r \<leftarrow> ds. the (hop_dwell clocks r i))"
    by (induction ds) (simp_all add: dwells_of_def sum_list_addf)
  then show ?thesis by (simp add: hop_total_def)
qed

lemma residual_total:
  assumes "\<forall>r \<in> set ds. in_i64 (exchange_latency r - sum_list (dwells_of clocks n r))"
  shows "(\<Sum>r \<leftarrow> ds. residual_of clocks n r) = latency_total ds - (\<Sum>i \<leftarrow> [0..<n]. hop_total clocks ds i)"
proof -
  have "(\<Sum>r \<leftarrow> ds. residual_of clocks n r) = (\<Sum>r \<leftarrow> ds. exchange_latency r - sum_list (dwells_of clocks n r))"
    by (rule arg_cong [where f = sum_list], rule map_cong) (use assms in \<open>simp_all add: residual_of_def\<close>)
  also have "\<dots> = latency_total ds - (\<Sum>r \<leftarrow> ds. sum_list (dwells_of clocks n r))"
    by (simp add: latency_total_def sum_list_subtractf)
  finally show ?thesis by (simp only: exchange_total)
qed

lemma dwells_in_i64:
  "decomposed clocks n r \<Longrightarrow> record_in_i64 r \<Longrightarrow> i < n \<Longrightarrow> in_i64 (the (hop_dwell clocks r i))"
  using hop_dwell_in_i64 [of r clocks i] by (auto simp: decomposed_def)

lemma included_mem: "r \<in> set (included_records req records) \<Longrightarrow> Some r \<in> set records"
  by (auto simp: included_records_def considered_records_def List.map_filter_def)

text \<open>C28: The numbers of a decomposition are exact: every record of the path is counted as considered, every eligible
  one as included and either complete or incomplete; each hop of the path, in order, gets the exact sum
  and floored mean of its dwells over the decomposed exchanges; the end to end mean is that of the same
  exchanges; and nothing is lost between them: the published residual mean is the floored mean of
  total latency minus the sum of all hop totals.\<close>

theorem attribution_exact:
  assumes "attribute records cat clocks baselines req pol = Inr res"
    and "\<forall>r. Some r \<in> set records \<longrightarrow> record_in_i64 r" and "length records < 2 ^ 60" and "list_all probe_ok (aq_probes req)"
  shows "\<exists>path. cat_path cat (aq_path req) = Inr path \<and>
    (let n = length (path_hops path); rs = included_records req records; ds = filter (decomposed clocks n) rs
     in ar_exchanges_considered res = word_of_nat (length (considered_records req records))
      \<and> unat (ar_exchanges_included res) = length rs \<and> unat (ar_exchanges_complete res) = length ds
      \<and> unat (ar_exchanges_incomplete res) = length rs - length ds
      \<and> map hc_hop (ar_contributions res) = path_hops path
      \<and> (ds \<noteq> [] \<longrightarrow>
           (\<forall>i < n. hc_sum_dwell_ns (ar_contributions res ! i) =
                (if in_i64 (hop_total clocks ds i) then Some (hop_total clocks ds i) else None)
              \<and> hc_mean_dwell_ns (ar_contributions res ! i) = floor_of (hop_total clocks ds i) (length ds))
         \<and> ar_end_to_end_mean_ns res = floor_of (latency_total ds) (length ds)
         \<and> ((\<forall>r \<in> set ds. in_i64 (exchange_latency r - sum_list (dwells_of clocks n r))) \<longrightarrow>
             ar_residual_mean_ns res =
               floor_of (latency_total ds - (\<Sum>i \<leftarrow> [0..<n]. hop_total clocks ds i)) (length ds))))"
proof -
  from assms(1) obtain path acc e2e residual cs total overflowed e c where p: "cat_path cat (aq_path req) = Inr path"
    and n: "length (path_hops path) \<le> 4096"
    and a: "acc = foldl (attribution_step clocks req (length (path_hops path))) (new_acc (length (path_hops path))) records"
    and f: "finalize_distribution req pol (aa_end_to_end_values acc) = Inr e2e"
      "finalize_distribution req pol (aa_residual_values acc) = Inr residual"
      "conclude_contributions req pol acc 0 (path_hops path) (0, False) = Inr (cs, total, overflowed)"
    and r: "res = (assemble_result cat req pol acc e2e residual cs total overflowed)\<lparr>ar_evidence := e, ar_comparison := c\<rparr>"
    by (rule attribute_result)
  let ?n = "length (path_hops path)" and ?rs = "included_records req records"
  define ds where "ds = filter (decomposed clocks ?n) ?rs"
  have A: "accumulated clocks ?n (length (considered_records req records)) ?rs acc"
    unfolding a by (rule attribution_loop [OF n assms(2)])
  have B: "aa_considered acc = word_of_nat (length (considered_records req records))" "aa_included acc = word_of_nat (length ?rs)"
    "aa_complete acc = word_of_nat (length ds)" "aa_incomplete acc = word_of_nat (length ?rs - length ds)"
    "aa_end_to_end_values acc = map exchange_latency ds" "aa_residual_values acc = map (residual_of clocks ?n) ds"
    "aa_hop_values acc = map (\<lambda>i. map (\<lambda>r. the (hop_dwell clocks r i)) ds) [0..<?n]"
    using A unfolding accumulated_def Let_def ds_def by blast+
  have len: "length ?rs < 2 ^ 60" "length ds < 2 ^ 60" "length ?rs - length ds < 2 ^ 60"
    using included_length [of req records] assms(3) length_filter_le [of "decomposed clocks ?n" ?rs] unfolding ds_def by linarith+
  note F = assemble_fields [where cat = cat and req = req and pol = pol and acc = acc and ?e2e.0 = e2e and residual = residual
      and cs = cs and total = total and overflowed = overflowed]
  note C = conclude_contributions_spec [OF f(3), simplified]
  have fields: "ar_exchanges_considered res = aa_considered acc" "ar_exchanges_included res = aa_included acc"
    "ar_exchanges_complete res = aa_complete acc" "ar_exchanges_incomplete res = aa_incomplete acc"
    "ar_end_to_end_mean_ns res = d_mean_ns e2e" "ar_residual_mean_ns res = d_mean_ns residual"
    using F(4-7,9,12) by (simp_all add: r)
  have pub: "\<exists>g. ar_contributions res = map g cs \<and> (\<forall>x. hc_hop (g x) = hc_hop x \<and> hc_sum_dwell_ns (g x) = hc_sum_dwell_ns x \<and>
      hc_mean_dwell_ns (g x) = hc_mean_dwell_ns x)"
  proof (cases "produced (ar_kind (assemble_result cat req pol acc e2e residual cs total overflowed))")
    case True
    then show ?thesis using F(1,2) by (intro exI [of _ "publish_share total"]) (auto simp: r publish_share_def split: option.splits)
  next
    case False
    then show ?thesis using F(1,2) by (intro exI [of _ "\<lambda>c. c\<lparr>hc_share_ppm := 0\<rparr>"]) (auto simp: r)
  qed
  then obtain g where g: "ar_contributions res = map g cs" "\<And>x. hc_hop (g x) = hc_hop x" "\<And>x. hc_sum_dwell_ns (g x) = hc_sum_dwell_ns x"
    "\<And>x. hc_mean_dwell_ns (g x) = hc_mean_dwell_ns x" by blast
  have hops: "map hc_hop (ar_contributions res) = path_hops path"
    using C by (intro nth_equalityI) (auto simp: g new_contribution_def Let_def dest!: spec)
  have i64: "in_i64 (the (hop_dwell clocks r i))" if "r \<in> set ds" "i < ?n" for r i
    using that dwells_in_i64 assms(2) included_mem by (auto simp: ds_def)
  have hop: "hc_sum_dwell_ns (ar_contributions res ! i) =
        (if in_i64 (hop_total clocks ds i) then Some (hop_total clocks ds i) else None)
      \<and> hc_mean_dwell_ns (ar_contributions res ! i) = floor_of (hop_total clocks ds i) (length ds)" if d: "ds \<noteq> []" and i: "i < ?n" for i
  proof -
    let ?vs = "map (\<lambda>r. the (hop_dwell clocks r i)) ds"
    obtain dist q where dist: "finalize_distribution req pol ?vs = Inr dist"
      "cs ! i = new_contribution acc i (word_of_nat i) (path_hops path ! i) dist q"
      using C i by (auto simp: B(7))
    note E = finalize_exact [OF dist(1) _ _ _ assms(4)]
    show ?thesis using E(1,2) d i64 [OF _ i] len(2) dist(2) C i by (simp add: g new_contribution_def Let_def hop_total_def)
  qed
  have v1: "\<forall>v \<in> set (map exchange_latency ds). in_i64 v" by (auto simp: exchange_latency_def)
  have v2: "\<forall>v \<in> set (map (residual_of clocks ?n) ds). in_i64 v" by (auto simp: residual_of_def)
  have mean: "ar_end_to_end_mean_ns res = floor_of (latency_total ds) (length ds)" if "ds \<noteq> []"
    using finalize_exact(2) [OF f(1) [unfolded B(5)] _ v1 _ assms(4)] that len(2) by (simp add: fields latency_total_def)
  have res_mean: "ar_residual_mean_ns res = floor_of (\<Sum>r \<leftarrow> ds. residual_of clocks ?n r) (length ds)" if "ds \<noteq> []"
    using finalize_exact(2) [OF f(2) [unfolded B(6)] _ v2 _ assms(4)] that len(2) by (simp add: fields)
  have counts: "unat (ar_exchanges_included res) = length ?rs" "unat (ar_exchanges_complete res) = length ds"
    "unat (ar_exchanges_incomplete res) = length ?rs - length ds"
    using len by (simp_all add: fields B(2-4) unat_of_nat take_bit_nat_eq_self)
  have "ar_exchanges_considered res = word_of_nat (length (considered_records req records))" by (simp only: fields B(1))
  with p counts hops hop mean res_mean residual_total [of ds clocks ?n] show ?thesis
    unfolding Let_def ds_def by (intro exI [of _ path] conjI impI allI) simp_all
qed

section \<open>When a decomposition is returned\<close>

lemma aggregate_returns:
  "length vs \<le> max_samples_per_path (pol_limits pol) \<Longrightarrow> length (aq_probes req) \<le> max_quantile_probes (pol_limits pol) \<Longrightarrow>
   \<exists>d. finalize_distribution req pol vs = Inr d"
  by (simp add: finalize_distribution_def aggregate_def Let_def split_beta)

lemma conclude_returns:
  assumes "index + length hops \<le> 4096" and "length (aq_probes req) \<le> max_quantile_probes (pol_limits pol)"
    and "\<forall>k < length hops. length (aa_hop_values acc ! (index + k)) \<le> max_samples_per_path (pol_limits pol)
           \<and> length (aa_queue_values acc ! (index + k)) \<le> max_samples_per_path (pol_limits pol)"
  shows "\<exists>cs st'. conclude_contributions req pol acc index hops st = Inr (cs, st')"
  using assms
proof (induction hops arbitrary: index st)
  case (Cons hop hops)
  have b: "length (aa_hop_values acc ! index) \<le> max_samples_per_path (pol_limits pol)"
    "length (aa_queue_values acc ! index) \<le> max_samples_per_path (pol_limits pol)"
    using Cons.prems(3) [rule_format, of 0] by simp_all
  obtain dist queue_dist where d: "finalize_distribution req pol (aa_hop_values acc ! index) = Inr dist"
    "finalize_distribution req pol (aa_queue_values acc ! index) = Inr queue_dist"
    using aggregate_returns [OF b(1) Cons.prems(2)] aggregate_returns [OF b(2) Cons.prems(2)] by blast
  have "\<forall>k < length hops. length (aa_hop_values acc ! (Suc index + k)) \<le> max_samples_per_path (pol_limits pol)
           \<and> length (aa_queue_values acc ! (Suc index + k)) \<le> max_samples_per_path (pol_limits pol)"
    using Cons.prems(3) by (metis add_Suc_right add_Suc_shift length_Cons Suc_less_eq)
  with Cons.IH [of "Suc index" "add_accounted (d_sum_ns dist) st"] Cons.prems(1,2)
  obtain cs st' where "conclude_contributions req pol acc (Suc index) hops (add_accounted (d_sum_ns dist) st) = Inr (cs, st')"
    by auto
  with d Cons.prems(1) show ?case by (simp add: hop_index_nat)
qed simp

lemma attribute_returns:
  assumes "window_valid (aq_window req)" and "valid_id (aq_generation req)" and p: "cat_path cat (aq_path req) = Inr path"
    and n: "length (path_hops path) \<le> 4096" and "\<forall>r. Some r \<in> set records \<longrightarrow> record_in_i64 r"
    and l: "length records \<le> max_samples_per_path (pol_limits pol)"
    and q: "length (aq_probes req) \<le> max_quantile_probes (pol_limits pol)" and "baselines = None \<or> \<not> valid_id (aq_baseline req)"
  shows "\<exists>res. attribute records cat clocks baselines req pol = Inr res"
proof -
  let ?n = "length (path_hops path)" and ?rs = "included_records req records"
  define acc where "acc = foldl (attribution_step clocks req ?n) (new_acc ?n) records"
  define ds where "ds = filter (decomposed clocks ?n) ?rs"
  have A: "accumulated clocks ?n (length (considered_records req records)) ?rs acc"
    unfolding acc_def by (rule attribution_loop [OF n assms(5)])
  have B: "aa_end_to_end_values acc = map exchange_latency ds" "aa_residual_values acc = map (residual_of clocks ?n) ds"
    "aa_hop_values acc = map (\<lambda>i. map (\<lambda>r. the (hop_dwell clocks r i)) ds) [0..<?n]"
    "length (aa_queue_values acc) = ?n" "\<forall>q \<in> set (aa_queue_values acc). length q \<le> length ds"
    using A unfolding accumulated_def Let_def ds_def by blast+
  have len: "length ds \<le> max_samples_per_path (pol_limits pol)"
    using included_length [of req records] l length_filter_le [of "decomposed clocks ?n" ?rs] unfolding ds_def by linarith
  obtain e2e residual where f: "finalize_distribution req pol (aa_end_to_end_values acc) = Inr e2e"
    "finalize_distribution req pol (aa_residual_values acc) = Inr residual"
    using aggregate_returns [OF _ q] len by (metis B(1,2) length_map)
  have "length (aa_queue_values acc ! k) \<le> max_samples_per_path (pol_limits pol)" if "k < ?n" for k
    using B(4,5) len that nth_mem [of k "aa_queue_values acc"] by fastforce
  then obtain cs st where "conclude_contributions req pol acc 0 (path_hops path) (0, False) = Inr (cs, st)"
    using conclude_returns [of 0 "path_hops path" req pol acc "(0, False)"] n q len by (auto simp: B(3))
  with assms(1,2,8) p f show ?thesis
    by (cases st) (auto simp: attribute_def attach_baseline_def acc_def Let_def split: option.splits)
qed

section \<open>A decomposition of one exchange\<close>

definition demo_hop_observation :: hop_observation where
  "demo_hop_observation = \<lparr>ho_index = 0, ho_hop = StrongId 9, ho_link = no_id, ho_queue = no_id,
     ho_entry_domain = reference_clock_domain, ho_exit_domain = reference_clock_domain,
     ho_entry = \<lparr>ts_ns = 110, ts_domain = reference_clock_domain\<rparr>, ho_exit = \<lparr>ts_ns = 310, ts_domain = reference_clock_domain\<rparr>,
     ho_queue_entry = \<lparr>ts_ns = 0, ts_domain = no_id\<rparr>, ho_queue_exit = \<lparr>ts_ns = 0, ts_domain = no_id\<rparr>,
     ho_dwell_ns = Some 200, ho_queue_dwell_ns = None, ho_dwell_uncertainty_ns = Some 0,
     ho_queue_dwell_uncertainty_ns = None, ho_evidence = observed Fresh High\<rparr>"

definition demo_exchange :: measurement_record where
  "demo_exchange = demo_stored\<lparr>rec_domain := reference_clock_domain, rec_hops := [demo_hop_observation]\<rparr>"

definition demo_hop_catalog :: catalog where
  "demo_hop_catalog = demo_catalog\<lparr>
     cat_sources := [(StrongId 2, \<lparr>src_id = StrongId 2, src_name = ''s'', src_kind = Probe, src_authority = Primary,
        src_semantics = HopDwell, src_revision = 2, src_description = []\<rparr>)],
     cat_paths := [(StrongId 1, \<lparr>path_id = StrongId 1, path_name = ''p'', path_generation = StrongId 3, path_revision = 1,
        path_hops = [StrongId 9]\<rparr>)]\<rparr>"

definition demo_attribution :: attribution_request where
  "demo_attribution = \<lparr>aq_path = StrongId 1, aq_generation = StrongId 3, aq_mode = CurrentMode,
     aq_window = \<lparr>tw_from = demo_time 0, tw_to = demo_time 1000\<rparr>, aq_histogram = [], aq_probes = [], aq_baseline = no_id\<rparr>"

definition demo_attribute :: "attribution_result result" where
  "demo_attribute = attribute [Some demo_exchange, None] demo_hop_catalog (empty_registry default_runtime_policy) None
     demo_attribution default_runtime_policy"

lemmas demo_attribution_defs = demo_attribution_def demo_exchange_def demo_stored_def demo_record_def demo_time_def demo_hop_observation_def

lemma demo_attribution_facts:
  "record_in_i64 demo_exchange" "included_records demo_attribution [Some demo_exchange, None] = [demo_exchange]"
  "hop_semantics demo_hop_catalog (rec_source demo_exchange)" "decomposed clocks (Suc 0) demo_exchange"
  "\<not> exchange_refuses clocks (Suc 0) demo_exchange" "exchange_latency demo_exchange = 250" "hop_total clocks [demo_exchange] 0 = 200"
  "aq_probes demo_attribution = []"
  by (simp_all add: demo_attribution_defs record_in_i64_def in_i64_iff included_records_def considered_records_def List.map_filter_def
      takes_part_def window_contains_def observed_def usable_def hop_semantics_def cat_source_def lookup_def_def demo_hop_catalog_def
      demo_catalog_def has_semantics_def decomposed_def exchange_comparable_def hop_dwell_def hop_at_def exchange_latency_def
      dwells_of_def exchange_refuses_def hop_refuses_def hop_total_def wrap_i64_def)

lemma demo_hop_path: "\<exists>path. cat_path demo_hop_catalog (aq_path demo_attribution) = Inr path \<and> path_hops path = [StrongId 9]"
  by (simp add: cat_path_def lookup_def_def demo_hop_catalog_def demo_attribution_def)

lemma demo_attribution_returns: "\<exists>res. demo_attribute = Inr res"
proof -
  obtain path where p: "cat_path demo_hop_catalog (aq_path demo_attribution) = Inr path" "path_hops path = [StrongId 9]"
    using demo_hop_path by blast
  show ?thesis unfolding demo_attribute_def
    by (rule attribute_returns [OF _ _ p(1)])
      (simp_all add: p demo_attribution_facts(1) demo_attribution_def window_valid_def demo_time_def ts_valid_def valid_id_def
        default_runtime_policy_def default_limits_def)
qed

theorem attribution_decides_witness: "\<exists>res. demo_attribute = Inr res \<and> ar_kind res = ObservedDecomposition"
proof -
  obtain res where r: "demo_attribute = Inr res" using demo_attribution_returns by blast
  obtain path where p: "cat_path demo_hop_catalog (aq_path demo_attribution) = Inr path" "path_hops path = [StrongId 9]"
    using demo_hop_path by blast
  from attribution_decides [OF r [unfolded demo_attribute_def]] show ?thesis
    using p demo_attribution_facts(5) by (auto simp: r Let_def demo_attribution_facts exchange_refuses_def)
qed

theorem attribution_exact_witness:
  "\<exists>res. demo_attribute = Inr res \<and> unat (ar_exchanges_complete res) = 1 \<and> ar_end_to_end_mean_ns res = Some 250
     \<and> map hc_mean_dwell_ns (ar_contributions res) = [Some 200]"
proof -
  obtain res where r: "demo_attribute = Inr res" using demo_attribution_returns by blast
  obtain path where p: "cat_path demo_hop_catalog (aq_path demo_attribution) = Inr path" "path_hops path = [StrongId 9]"
    using demo_hop_path by blast
  from attribution_exact [OF r [unfolded demo_attribute_def]] 
  have "unat (ar_exchanges_complete res) = 1 \<and> ar_end_to_end_mean_ns res = Some 250 \<and>
      hc_mean_dwell_ns (ar_contributions res ! 0) = Some 200 \<and> map hc_hop (ar_contributions res) = [StrongId 9]"
    using p by (auto simp: Let_def demo_attribution_facts latency_total_def floor_of_def in_i64_iff)
  then show ?thesis using r by (cases "ar_contributions res") auto
qed

section \<open>Shares\<close>

definition share_sum :: "hop_contribution \<Rightarrow> nat" where
  "share_sum c = (case hc_sum_dwell_ns c of None \<Rightarrow> 0 | Some s \<Rightarrow> if s \<ge> 0 then nat s else 0)"

lemma add_accounted_exact:
  assumes "unat (fst st) + share_sum c < 2 ^ 64"
  shows "unat (fst (add_accounted (hc_sum_dwell_ns c) st)) = unat (fst st) + share_sum c \<and> snd (add_accounted (hc_sum_dwell_ns c) st) = snd st"
proof (cases "\<exists>s. hc_sum_dwell_ns c = Some s \<and> s \<ge> 0")
  case True
  then obtain s where s: "hc_sum_dwell_ns c = Some s" "s \<ge> 0" by blast
  have n: "share_sum c = nat s" using s by (simp add: share_sum_def)
  have "unat (to_u64 s) = nat s" using assms s(2) unfolding n by (intro unat_to_u64) auto
  with assms s show ?thesis unfolding n by (simp add: add_accounted_def checked_add_u64_spec unat_add_lem [THEN iffD1])
qed (auto simp: add_accounted_def share_sum_def split: option.splits)

lemma accounted_exact:
  "unat (fst st) + sum_list (map share_sum cs) < 2 ^ 64 \<Longrightarrow>
   unat (fst (foldl (\<lambda>st c. add_accounted (hc_sum_dwell_ns c) st) st cs)) = unat (fst st) + sum_list (map share_sum cs)"
proof (induction cs arbitrary: st)
  case (Cons c cs)
  then have "unat (fst (add_accounted (hc_sum_dwell_ns c) st)) = unat (fst st) + share_sum c"
    using add_accounted_exact [of st c] by simp
  with Cons show ?case by simp
qed simp

lemma publish_share_floor:
  assumes "hc_share_ppm c = 0" and "share_sum c \<le> unat total_ns"
  shows "unat (hc_share_ppm (publish_share total_ns c)) = share_sum c * 1000000 div unat total_ns"
proof (cases "\<exists>s. hc_sum_dwell_ns c = Some s \<and> s \<ge> 0 \<and> total_ns \<noteq> 0")
  case True
  then obtain s where s: "hc_sum_dwell_ns c = Some s" "s \<ge> 0" "0 < unat total_ns" by (auto simp: unat_gt_0)
  have n: "share_sum c = nat s" using s by (simp add: share_sum_def)
  have u: "unat (to_u64 s) = nat s" using s(2) assms(2) unat_less_2_64 [of total_ns] unfolding n by (intro unat_to_u64) auto
  show ?thesis using s(1,2) True assms(2) s(3) ratio_ppm_floor [of "to_u64 s" total_ns] by (simp add: publish_share_def u n)
next
  case False
  then show ?thesis using assms(1) by (auto simp: publish_share_def share_sum_def split: option.splits)
qed

lemma floors_below: "sum_list (map (\<lambda>x. f x * m div t) xs) * t \<le> sum_list (map f xs) * (m :: nat)"
proof (induction xs)
  case (Cons x xs)
  have "f x * m div t * t \<le> f x * m" by simp
  with Cons have "f x * m div t * t + sum_list (map (\<lambda>x. f x * m div t) xs) * t \<le> f x * m + sum_list (map f xs) * m"
    by linarith
  then show ?case by (simp add: add_mult_distrib)
qed simp

lemma floors_above: "0 < t \<Longrightarrow> sum_list (map f xs) * m \<le> (sum_list (map (\<lambda>x. f x * m div t) xs) + length xs) * (t :: nat)"
proof (induction xs)
  case (Cons x xs)
  have "f x * m \<le> (f x * m div t + 1) * t" using Cons.prems dividend_less_div_times [of t "f x * m"] by (simp add: algebra_simps)
  with Cons show ?case by (simp add: algebra_simps)
qed simp

text \<open>C29: The shares of a decomposition divide the accounted latency: every hop's share is its part per million of the
  sum over the hops, rounded down, so the shares never add up to more than a million and miss it by
  less than one part per hop; the accounted mean is that sum over the decomposed exchanges.\<close>

theorem attribution_shares:
  assumes "attribute records cat clocks baselines req pol = Inr res" and "produced (ar_kind res)"
    and "sum_list (map share_sum (ar_contributions res)) < 2 ^ 64"
  shows "let t = sum_list (map share_sum (ar_contributions res)); shares = map (\<lambda>c. unat (hc_share_ppm c)) (ar_contributions res)
    in shares = map (\<lambda>c. share_sum c * 1000000 div t) (ar_contributions res) \<and> sum_list shares \<le> 1000000
     \<and> (0 < t \<longrightarrow> 1000000 \<le> sum_list shares + length shares
         \<and> (0 < unat (ar_exchanges_complete res) \<and> int (t div unat (ar_exchanges_complete res)) \<le> i64_max \<longrightarrow>
              ar_accounted_mean_ns res = Some (int (t div unat (ar_exchanges_complete res)))))"
proof -
  obtain path acc e2e residual cs total overflowed e c where "cat_path cat (aq_path req) = Inr path"
    and f: "conclude_contributions req pol acc 0 (path_hops path) (0, False) = Inr (cs, total, overflowed)"
    and r: "res = (assemble_result cat req pol acc e2e residual cs total overflowed)\<lparr>ar_evidence := e, ar_comparison := c\<rparr>"
    by (rule attribute_result [OF assms(1)], rule that)
  note F = assemble_fields [where cat = cat and req = req and pol = pol and acc = acc and ?e2e.0 = e2e and residual = residual
      and cs = cs and total = total and overflowed = overflowed]
  note C = conclude_contributions_spec [OF f, simplified]
  have cs: "ar_contributions res = map (publish_share total) cs"
    and mean: "ar_accounted_mean_ns res = fst (accounted_mean total (ar_exchanges_complete res) default_evidence)"
    using assms(2) F(1,2,6,13) by (simp_all add: r)
  have keep: "share_sum (publish_share total c) = share_sum c" for c
    by (simp add: share_sum_def publish_share_def split: option.splits)
  define t where "t = sum_list (map share_sum cs)"
  have t: "sum_list (map share_sum (ar_contributions res)) = t" by (simp add: cs keep comp_def t_def)
  have "foldl (\<lambda>st c. add_accounted (hc_sum_dwell_ns c) st) (0, False) cs = (total, overflowed)" using C by simp
  then have u: "unat total = t" using accounted_exact [of "(0, False)" cs] assms(3) t by (simp add: t_def)
  have z: "hc_share_ppm c = 0" if "c \<in> set cs" for c
    using that C by (auto simp: in_set_conv_nth new_contribution_def Let_def)
  have s: "unat (hc_share_ppm (publish_share total c)) = share_sum c * 1000000 div t" if "c \<in> set cs" for c
    using publish_share_floor [OF z [OF that], of total] member_le_sum_list [of "share_sum c" "map share_sum cs"] that u
    by (simp add: t_def)
  have shares: "map (\<lambda>c. unat (hc_share_ppm c)) (ar_contributions res) = map (\<lambda>c. share_sum c * 1000000 div t) cs"
    unfolding cs using s by simp
  have low: "sum_list (map (\<lambda>c. share_sum c * 1000000 div t) cs) \<le> 1000000"
    using floors_below [of share_sum 1000000 t cs] by (cases "t = 0") (simp_all add: t_def [symmetric] mult.commute)
  have high: "1000000 \<le> sum_list (map (\<lambda>c. share_sum c * 1000000 div t) cs) + length cs" if "0 < t"
    using floors_above [OF that, of share_sum cs 1000000] that by (simp add: t_def [symmetric] mult.commute [of t])
  have acc: "ar_accounted_mean_ns res = Some (int (t div k))" if "0 < t" "0 < k" "int (t div k) \<le> i64_max"
    "k = unat (ar_exchanges_complete res)" for k
  proof -
    have "total \<noteq> 0" "ar_exchanges_complete res \<noteq> 0" using that u by auto
    moreover have "uint (total div ar_exchanges_complete res) = int (t div k)"
      unfolding uint_nat unat_div u that(4) ..
    ultimately show ?thesis using that(3) by (simp add: mean accounted_mean_def Let_def)
  qed
  show ?thesis unfolding Let_def t shares
    using low high acc by (auto simp: cs keep comp_def)
qed

lemma demo_result:
  assumes "demo_attribute = Inr res"
  shows "ar_kind res = ObservedDecomposition" and "\<exists>c. ar_contributions res = [c] \<and> share_sum c = 200"
proof -
  let ?clocks = "empty_registry default_runtime_policy" and ?records = "[Some demo_exchange, None]"
  obtain path acc e2e residual cs total overflowed e c where
    p: "cat_path demo_hop_catalog (aq_path demo_attribution) = Inr path"
    and a: "acc = foldl (attribution_step ?clocks demo_attribution (length (path_hops path))) (new_acc (length (path_hops path))) ?records"
    and f: "conclude_contributions demo_attribution default_runtime_policy acc 0 (path_hops path) (0, False) = Inr (cs, total, overflowed)"
    and r: "res = (assemble_result demo_hop_catalog demo_attribution default_runtime_policy acc e2e residual cs total overflowed)
       \<lparr>ar_evidence := e, ar_comparison := c\<rparr>"
    by (rule attribute_result [OF assms [unfolded demo_attribute_def]], rule that)
  have n: "path_hops path = [StrongId 9]" using p demo_hop_path by auto
  have A: "accumulated ?clocks (Suc 0) (length (considered_records demo_attribution ?records)) [demo_exchange] acc"
    using attribution_loop [of 1 ?records ?clocks demo_attribution] by (simp add: a n demo_attribution_facts)
  have v: "aa_hop_values acc = [[200]]"
    using A demo_attribution_facts(7) [of ?clocks] unfolding accumulated_def Let_def
    by (simp add: demo_attribution_facts hop_total_def)
  note F = assemble_fields [where cat = demo_hop_catalog and req = demo_attribution and pol = default_runtime_policy and acc = acc
      and ?e2e.0 = e2e and residual = residual and cs = cs and total = total and overflowed = overflowed]
  have "length [demo_exchange] \<le> 1" "(1 :: nat) < 2 ^ 60" by simp_all
  note K = attribution_kind_spec [OF A this, where cat = demo_hop_catalog and pol = default_runtime_policy and ev = default_evidence]
  show k: "ar_kind res = ObservedDecomposition" using K by (auto simp: r F(1) demo_attribution_facts Let_def)
  obtain dist q where d: "finalize_distribution demo_attribution default_runtime_policy [200] = Inr dist"
    "cs = [new_contribution acc 0 0 (StrongId 9) dist q]"
    using conclude_contributions_spec [OF f] by (auto simp: n v length_Suc_conv)
  have "d_sum_ns dist = Some 200"
    using finalize_exact(1) [OF d(1)] by (simp add: in_i64_iff demo_attribution_facts)
  then show "\<exists>c. ar_contributions res = [c] \<and> share_sum c = 200"
    using F(1,2) k by (auto simp: r produced_def d(2) new_contribution_def Let_def publish_share_def share_sum_def)
qed

theorem attribution_shares_witness:
  "\<exists>res. demo_attribute = Inr res \<and> map (\<lambda>c. unat (hc_share_ppm c)) (ar_contributions res) = [1000000]"
proof -
  obtain res where r: "demo_attribute = Inr res" using demo_attribution_returns by blast
  from demo_result [OF r] obtain c where c: "produced (ar_kind res)" "ar_contributions res = [c]" "share_sum c = 200"
    by (auto simp: produced_def)
  from attribution_shares [OF r [unfolded demo_attribute_def] c(1)] show ?thesis using r c(2,3) by (auto simp: Let_def)
qed

end
