(* ===== verification/Ingest_Codec.thy ===== *)
theory Ingest_Codec
  imports Ingest_Dwell Model_Codec
begin

text \<open>
  \<^verbatim>\<open>ingest/codec.cpp\<close> and the \<^verbatim>\<open>write_json\<close> of \<^verbatim>\<open>ingest/ingest.cpp\<close>: the canonical text of the fence state that
  makes a restarted runtime refuse replays, and of an ingest report.
\<close>

section \<open>Reports\<close>

definition write_verdict :: "sample_verdict \<Rightarrow> writer_op" where
  "write_verdict v = wrun
     [begin_object,
      field_string ''measurement'' (id_to_hex (sv_id v)),
      field_string ''verdict'' (verdict_to_string (sv_verdict v)),
      field_string ''evidence_state'' (state_to_string (ev_state (sv_evidence v))),
      field_string ''freshness'' (freshness_to_string (ev_freshness (sv_evidence v))),
      write_reasons (sv_evidence v),
      end_object]"

definition write_reason_count :: "nat \<times> u64 \<Rightarrow> writer_op" where
  "write_reason_count e = wrun
     [begin_object,
      field_string ''code'' (reason_to_string (ReasonCode (fst e))),
      field_uint ''count'' (snd e),
      end_object]"

definition write_report :: "ingest_report \<Rightarrow> writer_op" where
  "write_report rep = wrun
     [begin_object,
      field_uint ''received'' (rep_received rep),
      field_uint ''accepted_current'' (rep_accepted_current rep),
      field_uint ''accepted_historical'' (rep_accepted_historical rep),
      field_uint ''rejected'' (rep_rejected rep),
      field_uint ''hop_dwells_computed'' (rep_hop_dwells_computed rep),
      field_uint ''hop_dwells_unknown'' (rep_hop_dwells_unknown rep),
      field_uint ''queue_dwells_computed'' (rep_queue_dwells_computed rep),
      field_uint ''queue_dwells_unknown'' (rep_queue_dwells_unknown rep),
      field_uint ''sequence_gaps'' (rep_sequence_gaps rep),
      field_uint ''reordered'' (rep_reordered rep),
      field_uint ''replays'' (rep_replays rep),
      field_bool ''verdicts_truncated'' (rep_verdicts_truncated rep),
      field_array ''verdicts'',
      wrun (map write_verdict (rep_verdicts rep)),
      end_array,
      field_array ''reason_counts'',
      wrun (map write_reason_count (rep_reason_counts rep)),
      end_array,
      end_object]"

section \<open>Fence state\<close>

definition write_session :: "session_key \<times> session_state \<Rightarrow> writer_op" where
  "write_session e = wrun
     [begin_object,
      field_string ''epoch'' (id_to_hex (fst (fst e))),
      field_string ''incarnation'' (id_to_hex (snd (fst e))),
      field_uint ''ordinal'' (ses_ordinal (snd e)),
      field_revision ''source_revision'' (ses_source_revision (snd e)),
      field_bool ''has_last_sequence'' (ses_has_last_sequence (snd e)),
      field_uint ''last_sequence'' (ses_last_sequence (snd e)),
      field_uint ''accepted_current'' (ses_accepted_current (snd e)),
      field_uint ''accepted_historical'' (ses_accepted_historical (snd e)),
      field_uint ''rejected'' (ses_rejected (snd e)),
      field_array ''recent_sequences'',
      wrun (map value_uint (ses_recent_order (snd e))),
      end_array,
      end_object]"

definition write_fence :: "source_id \<Rightarrow> source_fence_state \<Rightarrow> writer_op" where
  "write_fence s f = wrun
     [begin_object,
      field_string ''kind'' ''fence_state'',
      field_string ''source'' (id_to_hex s),
      field_uint ''next_ordinal'' (fen_next_ordinal f),
      field_string ''current_epoch'' (optional_hex (fen_current_epoch f)),
      field_string ''current_incarnation'' (optional_hex (fen_current_incarnation f)),
      field_uint ''current_ordinal'' (fen_current_ordinal f),
      field_uint ''evicted_sessions'' (fen_evicted_sessions f),
      field_uint ''seen_revision'' (if fen_current_ordinal f = 0 then 0 else 1),
      field_array ''sessions'',
      wrun (map write_session (fen_sessions f)),
      end_array,
      end_object]"

definition decode_session :: "json \<Rightarrow> (session_key \<times> session_state) result" where
  "decode_session j =
     try_bind (json_id j ''epoch'') (\<lambda>epoch.
     try_bind (json_id j ''incarnation'') (\<lambda>incarnation.
     try_bind (json_require_uint j ''ordinal'') (\<lambda>ordinal.
     try_bind (json_revision j ''source_revision'') (\<lambda>revision.
     try_bind (json_require_bool j ''has_last_sequence'') (\<lambda>has_last.
     try_bind (json_require_uint j ''last_sequence'') (\<lambda>last_sequence.
     try_bind (json_require_uint j ''accepted_current'') (\<lambda>accepted_current.
     try_bind (json_require_uint j ''accepted_historical'') (\<lambda>accepted_historical.
     try_bind (json_require_uint j ''rejected'') (\<lambda>rejected.
     try_bind (json_require_array j ''recent_sequences'') (\<lambda>sequences.
     try_bind (as_array sequences) (\<lambda>items.
     try_bind (decode_list as_uint64 items) (\<lambda>order.
       Inr ((epoch, incarnation),
         \<lparr>ses_ordinal = ordinal, ses_source_revision = revision, ses_has_last_sequence = has_last,
          ses_last_sequence = last_sequence, ses_recent_sequences = set order, ses_recent_order = order,
          ses_accepted_current = accepted_current, ses_accepted_historical = accepted_historical,
          ses_rejected = rejected\<rparr>)))))))))))))"

text \<open>\<^verbatim>\<open>std::map::emplace\<close> keeps an entry that is already there.\<close>

definition emplace_session :: "session_key \<times> session_state \<Rightarrow> (session_key, session_state) omap
     \<Rightarrow> (session_key, session_state) omap" where
  "emplace_session e table = (if om_find table (fst e) = None then om_set (fst e) (snd e) table else table)"

fun decode_sessions :: "json list \<Rightarrow> (session_key, session_state) omap \<Rightarrow> (session_key, session_state) omap result" where
  "decode_sessions [] table = Inr table"
| "decode_sessions (entry # rest) table =
     try_bind (decode_session entry) (\<lambda>e. decode_sessions rest (emplace_session e table))"

definition decode_fence_state :: "json \<Rightarrow> (source_id \<times> source_fence_state) result" where
  "decode_fence_state j =
     (if \<not> is_object j then fail ParseError ''fence state must be an object'' []
      else try_bind (json_id j ''source'') (\<lambda>source.
        try_bind (json_require_uint j ''next_ordinal'') (\<lambda>next_ordinal.
        try_bind (json_require_uint j ''current_ordinal'') (\<lambda>current_ordinal.
        try_bind (json_require_uint j ''evicted_sessions'') (\<lambda>evicted.
        try_bind (optional_id j ''current_epoch'') (\<lambda>epoch.
        try_bind (optional_id j ''current_incarnation'') (\<lambda>incarnation.
        try_bind (json_require_array j ''sessions'') (\<lambda>sessions.
        try_bind (as_array sessions) (\<lambda>entries.
        try_bind (decode_sessions entries []) (\<lambda>table.
          Inr (source,
            \<lparr>fen_next_ordinal = next_ordinal, fen_sessions = table, fen_current_epoch = epoch,
             fen_current_incarnation = incarnation, fen_current_ordinal = current_ordinal,
             fen_evicted_sessions = evicted, fen_seen_revision = 0\<rparr>)))))))))))"

section \<open>Documents\<close>

definition json_of_session :: "session_key \<times> session_state \<Rightarrow> json" where
  "json_of_session e = JObject
     [(''epoch'', json_of_id (fst (fst e))), (''incarnation'', json_of_id (snd (fst e))),
      (''ordinal'', uint_json (ses_ordinal (snd e))),
      (''source_revision'', json_of_revision (ses_source_revision (snd e))),
      (''has_last_sequence'', JBool (ses_has_last_sequence (snd e))),
      (''last_sequence'', uint_json (ses_last_sequence (snd e))),
      (''accepted_current'', uint_json (ses_accepted_current (snd e))),
      (''accepted_historical'', uint_json (ses_accepted_historical (snd e))),
      (''rejected'', uint_json (ses_rejected (snd e))),
      (''recent_sequences'', JArray (map uint_json (ses_recent_order (snd e))))]"

definition json_of_fence :: "source_id \<Rightarrow> source_fence_state \<Rightarrow> json" where
  "json_of_fence s f = JObject
     [(''kind'', JString ''fence_state''), (''source'', json_of_id s),
      (''next_ordinal'', uint_json (fen_next_ordinal f)),
      (''current_epoch'', json_of_optional (fen_current_epoch f)),
      (''current_incarnation'', json_of_optional (fen_current_incarnation f)),
      (''current_ordinal'', uint_json (fen_current_ordinal f)),
      (''evicted_sessions'', uint_json (fen_evicted_sessions f)),
      (''seen_revision'', uint_json (if fen_current_ordinal f = 0 then 0 else 1)),
      (''sessions'', JArray (map json_of_session (fen_sessions f)))]"

lemma write_session_document: "write_session = (\<lambda>e. write_value (json_of_session e))"
  by (rule ext) (simp add: write_session_def json_of_session_def json_of_id_def uint_json_def [abs_def]
      field_revision_value value_uint_document document_simps)

lemma write_fence_document: "write_fence s f = write_value (json_of_fence s f)"
  by (simp add: write_fence_def json_of_fence_def json_of_id_def json_of_optional_def uint_json_def
      write_session_document document_simps)

section \<open>Reading a fence back\<close>

definition session_storable :: "session_state \<Rightarrow> bool" where
  "session_storable st \<longleftrightarrow> ses_source_revision st \<noteq> 0 \<and> ses_recent_sequences st = set (ses_recent_order st) \<and>
     list_all readable ([ses_ordinal st, ses_last_sequence st, ses_accepted_current st, ses_accepted_historical st,
       ses_rejected st] @ ses_recent_order st)"

definition fence_storable :: "source_fence_state \<Rightarrow> bool" where
  "fence_storable f \<longleftrightarrow> fen_seen_revision f = 0 \<and> om_inv (fen_sessions f) \<and>
     list_all readable [fen_next_ordinal f, fen_current_ordinal f, fen_evicted_sessions f] \<and>
     list_all (\<lambda>e. session_storable (snd e)) (fen_sessions f)"

lemma decode_session_document:
  assumes "session_storable st"
  shows "decode_session (json_of_session (k, st)) = Inr (k, st)"
proof -
  have "decode_list as_uint64 (map uint_json (ses_recent_order st)) = Inr (ses_recent_order st)"
    using decode_list_documents [of "ses_recent_order st" as_uint64 uint_json "\<lambda>q. q"] by (simp add: decode_simps)
  then show ?thesis
    using assms
    by (cases st; cases k) (simp add: decode_session_def json_of_session_def session_storable_def decode_simps)
qed

lemma om_set_greatest: "\<forall>e \<in> set m. fst e < k \<Longrightarrow> om_set k v m = m @ [(k, v)]"
  by (induction k v m rule: om_set.induct) auto

lemma decode_sessions_documents:
  assumes "om_inv (table @ es)" and "\<forall>e \<in> set es. session_storable (snd e)"
  shows "decode_sessions (map json_of_session es) table = Inr (table @ es)"
  using assms
proof (induction es arbitrary: table)
  case (Cons e es)
  obtain k st where e: "e = (k, st)" by (rule prod.exhaust)
  have below: "\<forall>j \<in> set table. fst j < k"
    using Cons.prems(1) by (auto simp: om_inv_def e sorted_wrt_append)
  then have "om_find table k = None" by (auto simp: map_of_eq_None_iff)
  then have "emplace_session e table = table @ [e]"
    using below by (simp add: emplace_session_def e om_set_greatest)
  then show ?case
    using Cons.IH [of "table @ [e]"] Cons.prems decode_session_document [of st k] by (simp add: e)
qed simp

lemma decode_fence_document:
  assumes "fence_storable f"
  shows "decode_fence_state (json_of_fence s f) = Inr (s, f)"
proof -
  have "decode_sessions (map json_of_session (fen_sessions f)) [] = Inr (fen_sessions f)"
    using decode_sessions_documents [of "[]" "fen_sessions f"] assms by (simp add: fence_storable_def list_all_iff)
  then show ?thesis
    using assms
    by (cases f) (simp add: decode_fence_state_def json_of_fence_def fence_storable_def decode_simps)
qed

lemma json_ok_session: "session_storable st \<Longrightarrow> 2 \<le> d \<Longrightarrow> json_ok d (json_of_session (k, st))"
  by (cases d) (auto simp: json_of_session_def session_storable_def uint_json_def readable_def list_all_iff)

lemma json_ok_fence: "fence_storable f \<Longrightarrow> 4 \<le> d \<Longrightarrow> json_ok d (json_of_fence s f)"
  by (auto simp: json_of_fence_def fence_storable_def uint_json_def readable_def list_all_iff in_i64_iff intro!: json_ok_session)

section \<open>Fences along runs\<close>

text \<open>What a run keeps of a session beyond its own invariant: counters within the number of records.\<close>

definition session_kept :: "nat \<Rightarrow> session_state \<Rightarrow> bool" where
  "session_kept n st \<longleftrightarrow> ses_source_revision st \<noteq> 0 \<and> list_all readable (ses_last_sequence st # ses_recent_order st) \<and>
     (\<forall>c \<in> {ses_accepted_current st, ses_accepted_historical st, ses_rejected st}. unat c \<le> n)"

definition fence_kept :: "nat \<Rightarrow> source_fence_state \<Rightarrow> bool" where
  "fence_kept n f \<longleftrightarrow> fen_seen_revision f = 0 \<and> (\<forall>k st. om_find (fen_sessions f) k = Some st \<longrightarrow> session_kept n st)"

lemma session_kept_mono: "session_kept n st \<Longrightarrow> n \<le> m \<Longrightarrow> session_kept m st"
  by (auto simp: session_kept_def)

lemma fence_kept_mono: "fence_kept n f \<Longrightarrow> n \<le> m \<Longrightarrow> fence_kept m f"
  by (auto simp: fence_kept_def intro: session_kept_mono)

lemma fence_kept_new: "fence_kept n new_fence"
  by (simp add: fence_kept_def new_fence_def)

lemma evict_sessions_kept:
  assumes "fence_kept n f" and "om_inv (fen_sessions f)" and "evict_sessions l ev f = (ev', f')"
  shows "fence_kept n f' \<and> om_inv (fen_sessions f')"
proof -
  let ?P = "\<lambda>(_ :: evidence) f. fence_kept n f \<and> om_inv (fen_sessions f)"
  have "?P ev' f' \<and> (length (fen_sessions f') \<le> l \<or>
      oldest_session (fen_current_ordinal f') (fen_sessions f') None = None)"
    by (rule evict_sessions_rule [of ?P ev f l ev' f', OF _ _ assms(3)])
      (use assms(1,2) in \<open>simp_all add: fence_kept_def om_inv_erase om_find_erase\<close>)
  then show ?thesis by blast
qed

lemma find_session_kept:
  assumes "fence_kept n f" and "om_inv (fen_sessions f)" and "rec_source_revision r \<noteq> 0"
    and "find_session l r v ev f = (v', ev', st, f')"
  shows "fence_kept n f'" and "om_inv (fen_sessions f')" and "session_kept n st"
proof -
  have new: "session_kept n (new_session q (rec_source_revision r))" for q
    using assms(3) by (simp add: session_kept_def new_session_def readable_def in_i64_iff)
  have "fence_kept n f' \<and> om_inv (fen_sessions f') \<and> session_kept n st"
  proof (cases "om_find (fen_sessions f) (session_key_of r)")
    case (Some st0)
    then have "f' = f" "st = st0" using assms(4) by (auto simp: find_session_def split: if_splits)
    then show ?thesis using Some assms(1,2) unfolding fence_kept_def by blast
  next
    case None
    then obtain ev1 where "open_session l r ev f = (ev1, st, f')"
      using assms(4) by (auto simp: find_session_def split: prod.splits)
    from open_session_evict [OF this] obtain ev0
      where e: "evict_sessions (max_sessions_per_source l) ev0 (opened r f) = (ev1, f')"
        and st: "st = new_session (fen_next_ordinal f) (rec_source_revision r)" by blast
    have "fence_kept n (opened r f)" "om_inv (fen_sessions (opened r f))"
      using assms(1,2) new by (auto simp: fence_kept_def opened_def Let_def om_find_set om_inv_set)
    then show ?thesis using evict_sessions_kept [OF _ _ e] st new by simp
  qed
  then show "fence_kept n f'" and "om_inv (fen_sessions f')" and "session_kept n st" by simp_all
qed

lemma bumped: "unat (c :: u64) \<le> n \<Longrightarrow> unat (c + 1) \<le> Suc n"
  by (simp add: unat_word_ariths)

lemma trim_recent_set: "set (fst (trim_recent w qs seen)) \<subseteq> set qs"
  by (induction w qs seen rule: trim_recent.induct) auto

lemma remember_kept:
  assumes "session_kept n st" and "readable q"
  shows "session_kept n (remember_sequence w q st)"
  using assms trim_recent_set [of w "ses_recent_order st @ [q]" "insert q (ses_recent_sequences st)"]
  by (auto simp: session_kept_def remember_sequence_def list_all_iff split: prod.split)

lemma count_kept: "session_kept n st \<Longrightarrow> session_kept (Suc n) (count_verdict v st)"
  by (cases v) (auto simp: session_kept_def bumped)

lemma revision_fence_kept:
  "revision_fence r v ev st = (v', ev', st') \<Longrightarrow> rec_source_revision r \<noteq> 0 \<Longrightarrow> session_kept n st \<Longrightarrow> session_kept n st'"
  by (auto simp: revision_fence_def Let_def session_kept_def split: if_splits)

lemma sequence_fence_kept:
  "sequence_fence r v ev rep st = (rp, v', ev', rep', st') \<Longrightarrow> readable (rec_sequence r) \<Longrightarrow> session_kept n st \<Longrightarrow> session_kept n st'"
  by (auto simp: sequence_fence_def Let_def session_kept_def split: if_splits)

lemma apply_session_fence_kept:
  assumes "\<forall>s. fence_kept n (fence_of g s)" and "gate_inv m g"
    and "rec_source_revision r \<noteq> 0" and "readable (rec_sequence r)"
    and "apply_session_fence r v ev rep g = (v', ev', rep', g')"
  shows "fence_kept (Suc n) (fence_of g' s)"
proof -
  let ?l = "pol_limits (gate_policy g)" and ?f = "fence_of g (rec_source r)"
  obtain v1 ev1 st1 f1 where a: "find_session ?l r v ev ?f = (v1, ev1, st1, f1)" by (metis prod_cases4)
  obtain v2 ev2 st2 where b: "revision_fence r v1 ev1 st1 = (v2, ev2, st2)" by (metis prod_cases3)
  obtain rp v3 ev3 rep3 st3 where c: "sequence_fence r v2 ev2 rep st2 = (rp, v3, ev3, rep3, st3)" by (metis prod_cases5)
  have "om_inv (fen_sessions ?f)" using fence_of_inv [OF assms(2)] by (simp add: fence_inv_def fence_core_def)
  note F = find_session_kept [OF spec [OF assms(1)] this assms(3) a]
  have k: "session_kept n st3"
    using sequence_fence_kept [OF c assms(4) revision_fence_kept [OF b assms(3) F(3)]] .
  define st4 where "st4 = (if rp then st3\<lparr>ses_rejected := ses_rejected st3 + 1\<rparr>
     else count_verdict v3 (remember_sequence (sequence_replay_window ?l) (rec_sequence r) st3))"
  have g': "g' = store_session r st4 f1 g"
    using assms(5) a b c by (auto simp: apply_session_fence_def Let_def st4_def split: if_splits)
  have "session_kept (Suc n) st4"
    using k count_kept [OF remember_kept [OF k assms(4)]] count_kept [OF k, of Rejected] by (simp add: st4_def)
  moreover have "om_inv (gate_fences g)" using assms(2) by (simp add: gate_inv_def)
  ultimately show ?thesis
    using F fence_kept_mono [OF spec [OF assms(1)], of "Suc n"] fence_kept_mono [OF F(1), of "Suc n"]
    by (auto simp: g' store_session_def fence_of_def om_find_set fence_kept_def)
qed

lemma gate_run_kept:
  assumes "gate_run pol tr g" and "length tr < 2 ^ 64 - 2" and "\<forall>(r, _) \<in> set tr. readable (rec_sequence r)"
  shows "fence_kept (length tr) (fence_of g s)"
  using assms
proof (induction arbitrary: s rule: gate_run.induct)
  case run_start
  show ?case by (simp add: fence_of_def new_gate_def fence_kept_new)
next
  case (run_record tr g cat clocks now r rep r' v ev rep' g')
  have k: "\<forall>s. fence_kept (length tr) (fence_of g s)" and q: "readable (rec_sequence r')"
    using run_record by auto
  have i: "gate_inv (length tr) g" using gate_run_inv [OF run_record(1)] run_record.prems by simp
  from run_record(2) show ?case
  proof (cases rule: classify_cases)
    case refused
    then show ?thesis using fence_kept_mono [OF spec [OF k], of "Suc (length tr)"] by simp
  next
    case (fenced path src gen rep1 ev1)
    obtain v1 ev2 v2 ev3 rep2 where a: "apply_session_fence r' v1 ev2 rep1 g = (v2, ev3, rep2, g')"
      using fence_phase_fence [OF fenced(8)] by blast
    have "rec_source_revision r' \<noteq> 0"
      using fenced(4) same_exchange_fields [OF fenced(9)] by (simp add: well_structured_def revision_valid_def)
    from apply_session_fence_kept [OF k i this q a] show ?thesis by simp
  qed
next
  case (run_restart tr g)
  then have "gate_inv (length tr) g" using gate_run_inv by blast
  then show ?case using run_restart restart_same(2) by simp
qed

lemma run_fence_storable:
  assumes "gate_run pol tr g" and "length tr < 2 ^ 63 - 1" and "\<forall>(r, _) \<in> set tr. readable (rec_sequence r)"
  shows "fence_storable (fence_of g s)"
proof -
  have n: "length tr < 2 ^ 64 - 2" using assms(2) by simp
  have "gate_inv (length tr) g" and p: "gate_policy g = pol" using gate_run_inv [OF assms(1) n] by auto
  then have c: "fence_core (pol_limits pol) (length tr) (fence_of g s)" 
    using fence_of_inv [of "length tr" g s] by (simp add: fence_inv_def)
  note k = gate_run_kept [OF assms(1) n assms(3), of s]
  have small: "readable u" if "unat u \<le> Suc (length tr)" for u :: u64
  proof -
    have "int (unat u) \<le> int (Suc (length tr))" "int (length tr) < 9223372036854775807" using that assms(2) by (simp_all only: of_nat_le_iff) simp
    moreover have "0 \<le> int (unat u)" by simp
    ultimately show ?thesis unfolding readable_def in_i64_iff uint_nat by linarith
  qed
  have i: "om_inv (fen_sessions (fence_of g s))" using c by (simp add: fence_core_def)
  have "session_storable st" if "(j, st) \<in> set (fen_sessions (fence_of g s))" for j st
  proof -
    have f: "om_find (fen_sessions (fence_of g s)) j = Some st"
      using that om_inv_distinct [OF i] by simp
    have "unat (ses_ordinal st) \<le> Suc (length tr)"
      using fence_coreD(3) [OF c f] c by (simp add: fence_core_def word_le_nat_alt)
    moreover have "session_kept (length tr) st" using k f unfolding fence_kept_def by blast
    ultimately show ?thesis
      using fence_coreD(1) [OF c f] unfolding session_storable_def session_inv_def session_kept_def
      by (auto simp: small list_all_iff)
  qed
  then show ?thesis
    using k c i unfolding fence_storable_def fence_kept_def fence_core_def list_all_iff
    by (auto simp: small)
qed

text \<open>C26: The fences survive a restart through their text: after any run of fewer than 2^63 - 1 classified
  records whose sequence numbers fit a signed 64-bit integer, with restarts in between, the text written for the fence
  of any source is read back by the decoder as that source with exactly the same fence state, so that
  the restored gate refuses every replay the old one would have refused.\<close>

theorem fences_survive_text:
  assumes "gate_run pol tr g" and "length tr < 2 ^ 63 - 1" and "\<forall>(r, _) \<in> set tr. readable (rec_sequence r)"
    and "4 \<le> depth"
  shows "\<forall>s. reads_back depth (write_fence s (fence_of g s)) decode_fence_state (Inr (s, fence_of g s))"
proof
  fix s
  note k = run_fence_storable [OF assms(1-3), of s]
  show "reads_back depth (write_fence s (fence_of g s)) decode_fence_state (Inr (s, fence_of g s))"
    using decode_fence_document [OF k] json_ok_fence [OF k assms(4)] by (simp add: write_fence_document reads_back_value)
qed

theorem fences_survive_text_witness:
  "reads_back 4 (write_fence (StrongId 2) demo_fence) decode_fence_state (Inr (StrongId 2, demo_fence))"
proof -
  let ?g1 = "\<lparr>gate_policy = default_runtime_policy, gate_fences = [(StrongId 2, demo_fence)]\<rparr>"
  obtain r1 v1 ev1 rep1 g1 where c1: "demo_classify (demo_record 2 7) (new_gate default_runtime_policy) = (r1, v1, ev1, rep1, g1)"
    by (metis prod_cases5)
  have g1: "g1 = ?g1" using demo_first_gate c1 by (simp add: demo_step_def)
  then have R: "gate_run default_runtime_policy [(r1, v1)] ?g1"
    using run_record [OF run_start c1 [unfolded demo_classify_def]] by simp
  have "readable (rec_sequence r1)" using demo_fence_step(5) [OF c1] by (simp add: readable_def in_i64_iff)
  then show ?thesis using spec [OF fences_survive_text [OF R, of 4], of "StrongId 2"] by (simp add: fence_of_def)
qed

end
