(* ===== verification/Store.thy ===== *)
theory Store
  imports Core_Policy Core_Ids
begin

text \<open>
  \<^verbatim>\<open>store/store.cpp\<close>: the append only store. Records are framed with a length, a type and a CRC-32C, and kept
  in segment files with an integrity checked header and footer; the writer rotates segments, the
  reader stops at the first damaged record. The file system is explicit: every call that may fail
  takes its outcome from a plan, so the error paths and torn writes are part of the model.
\<close>

section \<open>Record types\<close>

datatype record_type = SourceRecord | EndpointRecord | LinkRecord | QueueRecord | HopRecord | GenerationRecord | PathRecord
  | ClockDomainRecord | ClockSyncRecord | MeasurementCurrent | MeasurementHistorical | BaselineRecord | FenceStateRecord

definition kRecordTypes :: "(record_type \<times> string) list" where
  "kRecordTypes =
    [(SourceRecord, ''source''), (EndpointRecord, ''endpoint''), (LinkRecord, ''link''), (QueueRecord, ''queue''),
     (HopRecord, ''hop''), (GenerationRecord, ''generation''), (PathRecord, ''path''), (ClockDomainRecord, ''clock_domain''),
     (ClockSyncRecord, ''clock_sync''), (MeasurementCurrent, ''measurement_current''),
     (MeasurementHistorical, ''measurement_historical''), (BaselineRecord, ''baseline''), (FenceStateRecord, ''fence_state'')]"

definition record_type_to_string :: "record_type \<Rightarrow> string" where
  "record_type_to_string t = enum_name kRecordTypes ''unknown'' t"

definition parse_record_type :: "string \<Rightarrow> record_type option" where
  "parse_record_type text = enum_parse kRecordTypes text"

interpretation record_type_names: named_enum kRecordTypes "''unknown''"
proof unfold_locales
  show "e \<in> fst ` set kRecordTypes" for e by (cases e) (simp_all add: kRecordTypes_def)
qed (simp_all add: kRecordTypes_def)

text \<open>The underlying values of the enumeration, from one.\<close>

fun record_type_byte :: "record_type \<Rightarrow> nat" where
  "record_type_byte SourceRecord = 1"
| "record_type_byte EndpointRecord = 2"
| "record_type_byte LinkRecord = 3"
| "record_type_byte QueueRecord = 4"
| "record_type_byte HopRecord = 5"
| "record_type_byte GenerationRecord = 6"
| "record_type_byte PathRecord = 7"
| "record_type_byte ClockDomainRecord = 8"
| "record_type_byte ClockSyncRecord = 9"
| "record_type_byte MeasurementCurrent = 10"
| "record_type_byte MeasurementHistorical = 11"
| "record_type_byte BaselineRecord = 12"
| "record_type_byte FenceStateRecord = 13"

definition record_type_of_byte :: "nat \<Rightarrow> record_type option" where
  "record_type_of_byte b = find (\<lambda>t. record_type_byte t = b) (map fst kRecordTypes)"

section \<open>Bytes\<close>

text \<open>A \<^verbatim>\<open>std::string\<close> or a buffer of bytes is a list of characters; integers are little endian.\<close>

definition put_le :: "nat \<Rightarrow> 'a::len word \<Rightarrow> string" where
  "put_le k v = map (\<lambda>index. char_of (unat (drop_bit (8 * index) v AND 0xFF))) [0..<k]"

definition get_le :: "nat \<Rightarrow> string \<Rightarrow> 'a::len word" where
  "get_le k data = foldl (\<lambda>v index. v OR push_bit (8 * index) (word_of_nat (byte_of (data ! index)))) 0 [0..<k]"

definition put_u16 :: "16 word \<Rightarrow> string" where "put_u16 v = put_le 2 v"
definition put_u32 :: "u32 \<Rightarrow> string" where "put_u32 v = put_le 4 v"
definition put_u64 :: "u64 \<Rightarrow> string" where "put_u64 v = put_le 8 v"
definition get_u16 :: "string \<Rightarrow> 16 word" where "get_u16 data = get_le 2 data"
definition get_u32 :: "string \<Rightarrow> u32" where "get_u32 data = get_le 4 data"
definition get_u64 :: "string \<Rightarrow> u64" where "get_u64 data = get_le 8 data"

definition kFormatVersion :: nat where "kFormatVersion = 1"
definition kStoreMagic :: string where "kStoreMagic = ''LATOBS-STORE''"
definition kSegmentMagic :: string where "kSegmentMagic = ''LOBSSEG1''"
definition kSegmentFooterMagic :: string where "kSegmentFooterMagic = ''LOBSEND1''"
definition kSegmentHeaderBytes :: nat where "kSegmentHeaderBytes = 48"
definition kRecordHeaderBytes :: nat where "kRecordHeaderBytes = 12"
definition kSegmentFooterBytes :: nat where "kSegmentFooterBytes = 40"
definition kMaxRecordPayloadBytes :: nat where "kMaxRecordPayloadBytes = 1048576"

abbreviation nul :: char where "nul \<equiv> char_of (0 :: nat)"

abbreviation crc_of :: "string \<Rightarrow> u32" where "crc_of data \<equiv> crc32c (bytes_of data)"

text \<open>\<^verbatim>\<open>%08x\<close>\<close>

definition hex8 :: "u32 \<Rightarrow> string" where
  "hex8 v = map (\<lambda>k. kDigits ! unat (drop_bit (28 - 4 * k) v AND 0x0F)) [0..<8]"

definition segment_file_name :: "u32 \<Rightarrow> string" where
  "segment_file_name i = ''seg-'' @ hex8 i @ ''.lobs''"

definition segment_id_from_name :: "string \<Rightarrow> u32 option" where
  "segment_id_from_name n =
     (if length n \<noteq> 17 \<or> take 4 n \<noteq> ''seg-'' \<or> drop 12 n \<noteq> ''.lobs'' then None
      else case hex_accumulate 0 (take 8 (drop 4 n)) of
        None \<Rightarrow> None
      | Some identifier \<Rightarrow> if identifier > 0xFFFFFFFF then None else Some (ucast identifier))"

definition join_path :: "string \<Rightarrow> string \<Rightarrow> string" where
  "join_path directory n = (if directory \<noteq> [] \<and> last directory \<noteq> CHR ''/'' then directory @ CHR ''/'' # n else directory @ n)"

definition manifest_name :: string where "manifest_name = ''manifest.lobs''"

section \<open>The file system\<close>

text \<open>
  What the store uses of the file system: whether its directory exists, the regular files in it with
  their bytes, and the outcomes of the coming calls that may fail. A failing write leaves some
  of its bytes behind. When no outcome is left every call succeeds.
\<close>

datatype root_state = AbsentRoot | FileRoot | DirectoryRoot
datatype outcome = Succeeds | FailsAfter nat

record disk =
  dk_root :: root_state
  dk_files :: "(string, string) omap"
  dk_plan :: "outcome list"

definition next_outcome :: "disk \<Rightarrow> outcome \<times> disk" where
  "next_outcome d = (case dk_plan d of [] \<Rightarrow> (Succeeds, d) | x # xs \<Rightarrow> (x, d\<lparr>dk_plan := xs\<rparr>))"

definition io_call :: "disk \<Rightarrow> bool \<times> disk" where
  "io_call d = (case next_outcome d of (x, d) \<Rightarrow> (x = Succeeds, d))"

text \<open>\<^verbatim>\<open>fopen\<close> with mode \<^verbatim>\<open>wb\<close>, \<^verbatim>\<open>fwrite\<close> with the count it returns, and the size of what is there.\<close>

definition fopen_wb :: "string \<Rightarrow> disk \<Rightarrow> bool \<times> disk" where
  "fopen_wb n d = (case io_call d of (ok, d) \<Rightarrow> (ok, if ok then d\<lparr>dk_files := om_set n [] (dk_files d)\<rparr> else d))"

definition file_bytes :: "disk \<Rightarrow> string \<Rightarrow> string" where
  "file_bytes d n = (case om_find (dk_files d) n of None \<Rightarrow> [] | Some b \<Rightarrow> b)"

definition fwrite :: "string \<Rightarrow> string \<Rightarrow> disk \<Rightarrow> nat \<times> disk" where
  "fwrite n data d =
     (case next_outcome d of (x, d) \<Rightarrow>
        let written = (case x of Succeeds \<Rightarrow> data | FailsAfter k \<Rightarrow> take k data)
        in (length written, d\<lparr>dk_files := om_set n (file_bytes d n @ written) (dk_files d)\<rparr>))"

definition durable_flush :: "string option \<Rightarrow> disk \<Rightarrow> status \<times> disk" where
  "durable_flush f d =
     (if f = None then (fail InvalidArgument ''durable flush requires an open file'' [], d)
      else case io_call d of (flushed, d) \<Rightarrow>
        if \<not> flushed then (fail IoError ''failed to flush the store file'' [], d)
        else case io_call d of (synced, d) \<Rightarrow>
          if \<not> synced then (fail IoError ''failed to commit the store file to disk'' [], d) else (ok_status, d))"

text \<open>
  The sorted names of the segment files. Directory entries are kept in the order of their names; an
  unreadable directory is the failing call.
\<close>

definition list_segments :: "string \<Rightarrow> disk \<Rightarrow> string list result \<times> disk" where
  "list_segments directory d =
     (if dk_root d = AbsentRoot then (Inr [], d)
      else case io_call d of (ok, d) \<Rightarrow>
        if \<not> ok then (fail IoError ''cannot enumerate the store directory'' directory, d)
        else (Inr (filter (\<lambda>n. segment_id_from_name n \<noteq> None) (map fst (dk_files d))), d))"

section \<open>The reader\<close>

record store_config =
  sc_directory :: string
  sc_limits :: limits
  sc_policy_digest :: string
  sc_create_if_missing :: bool

record stored_record =
  sr_type :: record_type
  sr_payload :: string
  sr_segment_id :: u32
  sr_sequence :: u64

record recovery_report =
  rr_segments_scanned :: u64
  rr_segments_accepted :: u64
  rr_segments_rejected :: u64
  rr_records_read :: u64
  rr_records_discarded :: u64
  rr_bytes_read :: u64
  rr_truncated :: bool
  rr_manifest_created :: bool
  rr_detail :: string
  rr_reasons :: "reason list"

definition empty_recovery :: recovery_report where
  "empty_recovery = \<lparr>rr_segments_scanned = 0, rr_segments_accepted = 0, rr_segments_rejected = 0, rr_records_read = 0,
     rr_records_discarded = 0, rr_bytes_read = 0, rr_truncated = False, rr_manifest_created = False, rr_detail = [],
     rr_reasons = []\<rparr>"

definition clean :: "recovery_report \<Rightarrow> bool" where
  "clean r \<longleftrightarrow> \<not> rr_truncated r \<and> rr_segments_rejected r = 0 \<and> rr_records_discarded r = 0"

definition note_recovery :: "reason_code \<Rightarrow> string \<Rightarrow> recovery_report \<Rightarrow> recovery_report" where
  "note_recovery code detail r = r\<lparr>rr_reasons := rr_reasons r @ [Reason code detail], rr_truncated := True\<rparr>"

text \<open>
  An open file is the bytes not yet read. A short read consumes what is left.
\<close>

definition read_exact :: "nat \<Rightarrow> string \<Rightarrow> string option \<times> string" where
  "read_exact n rest =
     (if n = 0 then (Some [], rest)
      else if length rest < n then (None, []) else (Some (take n rest), drop n rest))"

text \<open>The locals of the loop over one segment.\<close>

record segment_scan =
  sn_records :: "stored_record list"
  sn_report :: recovery_report
  sn_recovered :: u64
  sn_payload_bytes :: u64
  sn_saw_footer :: bool
  sn_truncated :: bool
  sn_footer_count :: u32
  sn_rest :: string

definition damaged :: "string \<Rightarrow> string \<Rightarrow> segment_scan \<Rightarrow> segment_scan" where
  "damaged n what s = s\<lparr>sn_truncated := True,
     sn_report := note_recovery RecordIntegrityFailure (n @ what) (sn_report s)\<rparr>"

definition scan_footer :: "string \<Rightarrow> string \<Rightarrow> string \<Rightarrow> segment_scan \<Rightarrow> segment_scan" where
  "scan_footer n bytes rest s =
     (let s = s\<lparr>sn_saw_footer := True, sn_footer_count := get_u32 (drop 8 bytes)\<rparr>
      in case read_exact (kSegmentFooterBytes - kRecordHeaderBytes) rest of
           (None, rest) \<Rightarrow> s\<lparr>sn_truncated := True, sn_rest := rest\<rparr>
         | (Some tail, rest) \<Rightarrow>
             let footer = bytes @ tail; s = s\<lparr>sn_rest := rest\<rparr>
             in if crc_of (take 24 footer) \<noteq> get_u32 (drop 24 footer) then damaged n '' footer'' s
                else if get_u64 (drop 16 footer) \<noteq> sn_payload_bytes s then damaged n '' payload byte count'' s
                else s)"

text \<open>One record after its header: the loop goes on when the record is intact.\<close>

definition scan_record :: "string \<Rightarrow> u32 \<Rightarrow> string \<Rightarrow> string \<Rightarrow> segment_scan \<Rightarrow> bool \<times> segment_scan" where
  "scan_record n segment bytes rest s =
     (let len = get_u32 bytes; type_byte = byte_of (bytes ! 4); crc = get_u32 (drop 8 bytes); s = s\<lparr>sn_rest := rest\<rparr>
      in if unat len > kMaxRecordPayloadBytes then (False, damaged n '' record length'' s)
         else case read_exact (unat len) rest of
           (None, rest) \<Rightarrow> (False, s\<lparr>sn_truncated := True, sn_rest := rest\<rparr>)
         | (Some payload, rest) \<Rightarrow>
             let s = s\<lparr>sn_rest := rest\<rparr>
             in if crc_of payload \<noteq> crc then (False, damaged n '' record crc'' s)
                else case record_type_of_byte type_byte of
                  None \<Rightarrow> (False, damaged n '' record type'' s)
                | Some t \<Rightarrow> (True, s\<lparr>
                    sn_records := sn_records s @ [\<lparr>sr_type = t, sr_payload = payload, sr_segment_id = segment,
                      sr_sequence = sn_recovered s\<rparr>],
                    sn_recovered := sn_recovered s + 1, sn_payload_bytes := sn_payload_bytes s + ucast len,
                    sn_report := (sn_report s)\<lparr>rr_records_read := rr_records_read (sn_report s) + 1\<rparr>\<rparr>))"

lemma scan_record_rest: "scan_record n segment bytes rest s = (b, s') \<Longrightarrow> length (sn_rest s') \<le> length rest"
  by (auto simp: scan_record_def Let_def damaged_def read_exact_def split: if_splits option.splits prod.splits)

function scan_records :: "string \<Rightarrow> u32 \<Rightarrow> segment_scan \<Rightarrow> segment_scan" where
  "scan_records n segment s =
     (if length (sn_rest s) < kRecordHeaderBytes
      then s\<lparr>sn_truncated := (sn_recovered s \<noteq> 0), sn_rest := []\<rparr>
      else let bytes = take kRecordHeaderBytes (sn_rest s); rest = drop kRecordHeaderBytes (sn_rest s)
           in if take 8 bytes = kSegmentFooterMagic then scan_footer n bytes rest s
              else case scan_record n segment bytes rest s of
                (continues, s') \<Rightarrow> if continues then scan_records n segment s' else s')"
  by pat_completeness auto
termination
  by (relation "measure (\<lambda>(n, segment, s). length (sn_rest s))")
    (auto simp: kRecordHeaderBytes_def dest!: scan_record_rest [OF sym])

declare scan_records.simps [simp del]

definition header_intact :: "string \<Rightarrow> bool" where
  "header_intact header \<longleftrightarrow> take 8 header = kSegmentMagic \<and> unat (get_u16 (drop 8 header)) = kFormatVersion \<and>
     unat (get_u16 (drop 10 header)) = kSegmentHeaderBytes \<and> get_u32 (drop 32 header) = crc_of (take 32 header)"

definition conclude_segment :: "string \<Rightarrow> segment_scan \<Rightarrow> bool \<times> recovery_report" where
  "conclude_segment n s =
     (let s = (if sn_saw_footer s \<and> \<not> sn_truncated s \<and> ucast (sn_footer_count s) \<noteq> sn_recovered s
               then damaged n '' record count'' s else s);
          report = sn_report s
      in if sn_truncated s then
           (True, (note_recovery RecoveryConservative (''reading stopped at the first damaged record in '' @ n)
              (report\<lparr>rr_records_discarded := rr_records_discarded report + 1,
                      rr_segments_rejected := rr_segments_rejected report + 1\<rparr>))\<lparr>rr_detail := ''truncated at '' @ n\<rparr>)
         else (False, report\<lparr>rr_segments_accepted := rr_segments_accepted report + 1\<rparr>))"

definition reject_segment :: "reason_code \<Rightarrow> string \<Rightarrow> recovery_report \<Rightarrow> recovery_report" where
  "reject_segment code n report =
     note_recovery code n (report\<lparr>rr_segments_rejected := rr_segments_rejected report + 1\<rparr>)"

text \<open>One segment: whether reading stops, the records so far and the report so far.\<close>

definition read_segment ::
  "string \<Rightarrow> string \<Rightarrow> stored_record list \<Rightarrow> recovery_report \<Rightarrow> bool \<times> stored_record list \<times> recovery_report" where
  "read_segment n content records report =
     (case read_exact kSegmentHeaderBytes content of
        (None, _) \<Rightarrow> (True, records, reject_segment SegmentTruncated n report)
      | (Some header, rest) \<Rightarrow>
          if \<not> header_intact header then (True, records, reject_segment RecordIntegrityFailure n report)
          else
            let s = scan_records n (get_u32 (drop 12 header))
                  \<lparr>sn_records = records, sn_report = report, sn_recovered = 0, sn_payload_bytes = 0, sn_saw_footer = False,
                   sn_truncated = False, sn_footer_count = 0, sn_rest = rest\<rparr>;
                position = length content - length (sn_rest s);
                s = s\<lparr>sn_report := (sn_report s)\<lparr>rr_bytes_read := rr_bytes_read (sn_report s) + word_of_nat position\<rparr>\<rparr>;
                (stop, report) = conclude_segment n s
            in (stop, sn_records s, report))"

fun read_segments ::
  "string \<Rightarrow> string list \<Rightarrow> disk \<Rightarrow> stored_record list \<Rightarrow> recovery_report
     \<Rightarrow> status \<times> stored_record list \<times> recovery_report \<times> disk" where
  "read_segments directory [] d records report = (ok_status, records, report, d)"
| "read_segments directory (n # ns) d records report =
     (let report = report\<lparr>rr_segments_scanned := rr_segments_scanned report + 1\<rparr>
      in case io_call d of (opened, d) \<Rightarrow>
        if \<not> opened then (fail IoError ''cannot open a store segment'' (join_path directory n), records, report, d)
        else case read_segment n (file_bytes d n) records report of
          (stop, records, report) \<Rightarrow>
            if stop then (ok_status, records, report, d) else read_segments directory ns d records report)"

definition finish_recovery :: "recovery_report \<Rightarrow> recovery_report" where
  "finish_recovery report =
     (if \<not> clean report \<and> (\<forall>r \<in> set (rr_reasons report). reason_code_of r \<noteq> RecoveryConservative)
      then report\<lparr>rr_reasons := rr_reasons report @ [Reason RecoveryConservative ''conservative recovery applied'']\<rparr>
      else report)"

definition read_all ::
  "store_config \<Rightarrow> disk \<Rightarrow> stored_record list \<Rightarrow> recovery_report \<Rightarrow> status \<times> stored_record list \<times> recovery_report \<times> disk" where
  "read_all cfg d records report =
     (case list_segments (sc_directory cfg) d of
        (Inl e, d) \<Rightarrow> (Inl e, records, report, d)
      | (Inr segments, d) \<Rightarrow>
          (case read_segments (sc_directory cfg) segments d records report of
             (Inl e, records, report, d) \<Rightarrow> (Inl e, records, report, d)
           | (Inr _, records, report, d) \<Rightarrow> (ok_status, records, finish_recovery report, d)))"

subsection \<open>The manifest\<close>

abbreviation newline :: char where "newline \<equiv> CHR 0x0A"

text \<open>\<^verbatim>\<open>std::string::find\<close> and \<^verbatim>\<open>rfind\<close>\<close>

fun find_text :: "string \<Rightarrow> string \<Rightarrow> nat option" where
  "find_text key [] = (if key = [] then Some 0 else None)"
| "find_text key (c # cs) =
     (if take (length key) (c # cs) = key then Some 0 else map_option Suc (find_text key cs))"

fun rfind_text :: "string \<Rightarrow> string \<Rightarrow> nat option" where
  "rfind_text key [] = (if key = [] then Some 0 else None)"
| "rfind_text key (c # cs) =
     (case rfind_text key cs of
        Some i \<Rightarrow> Some (Suc i)
      | None \<Rightarrow> if take (length key) (c # cs) = key then Some 0 else None)"

definition manifest_field :: "string \<Rightarrow> string \<Rightarrow> string option" where
  "manifest_field body n =
     (let key = n @ ''=''
      in case find_text key body of
           None \<Rightarrow> None
         | Some start \<Rightarrow> Some (takeWhile (\<lambda>c. c \<noteq> newline) (drop (start + length key) body)))"

record store_reader =
  rd_config :: store_config
  rd_policy_digest :: string
  rd_format :: "16 word"

definition strip_line_end :: "string \<Rightarrow> string" where
  "strip_line_end s = rev (dropWhile (\<lambda>c. c = newline \<or> c = CHR 0x0D) (rev s))"

text \<open>The checks of a manifest; at most 17 blocks of 256 bytes are read.\<close>

definition check_manifest :: "store_config \<Rightarrow> string \<Rightarrow> string \<Rightarrow> store_reader result" where
  "check_manifest cfg path content =
     (let text = take 4352 content
      in if length text > 4096 then fail IntegrityFailure ''store manifest is implausibly large'' path
         else case rfind_text ''crc32c='' text of
           None \<Rightarrow> fail IntegrityFailure ''store manifest has no integrity check'' path
         | Some crc_offset \<Rightarrow>
             let body = take crc_offset text; crc_text = strip_line_end (drop (crc_offset + 7) text)
             in if crc_text \<noteq> hex8 (crc_of body) then fail IntegrityFailure ''store manifest integrity check failed'' path
                else if manifest_field body ''magic'' \<noteq> Some kStoreMagic
                then fail IntegrityFailure ''store manifest magic does not match'' path
                else case manifest_field body ''format'' of
                  None \<Rightarrow> fail IntegrityFailure ''store manifest has no usable format version'' path
                | Some format \<Rightarrow>
                    (case parse_u64 format of
                       None \<Rightarrow> fail IntegrityFailure ''store manifest has no usable format version'' path
                     | Some version \<Rightarrow>
                         if unat version \<noteq> kFormatVersion
                         then fail VersionMismatch ''store format version is not supported by this build'' format
                         else Inr \<lparr>rd_config = cfg,
                                rd_policy_digest = (case manifest_field body ''policy_digest'' of None \<Rightarrow> [] | Some v \<Rightarrow> v),
                                rd_format = ucast version\<rparr>))"

definition open_reader :: "store_config \<Rightarrow> disk \<Rightarrow> store_reader result \<times> disk" where
  "open_reader cfg d =
     (let path = join_path (sc_directory cfg) manifest_name
      in if sc_directory cfg = [] then (fail InvalidArgument ''store directory must not be empty'' [], d)
         else case om_find (dk_files d) manifest_name of
           None \<Rightarrow> (fail NotFound ''store manifest is missing'' path, d)
         | Some content \<Rightarrow>
             (case io_call d of (opened, d) \<Rightarrow>
                if \<not> opened then (fail IoError ''cannot open the store manifest'' path, d)
                else (check_manifest cfg path content, d)))"

section \<open>The writer\<close>

record store_writer =
  wr_config :: store_config
  wr_file :: "string option"
  wr_segment_id :: u32
  wr_segment_bytes :: u64
  wr_segment_records :: u64
  wr_segment_payload_bytes :: u64
  wr_segment_digest :: u64
  wr_total_bytes :: u64
  wr_total_records :: u64
  wr_closed :: bool

definition manifest_body :: "nanos \<Rightarrow> string \<Rightarrow> string" where
  "manifest_body now digest =
     ''magic='' @ kStoreMagic @ [newline] @ ''format='' @ show_nat kFormatVersion @ [newline] @
     ''created_ns='' @ show_int now @ [newline] @ ''policy_digest='' @ digest @ [newline]"

definition manifest_text :: "nanos \<Rightarrow> string \<Rightarrow> string" where
  "manifest_text now digest =
     (let body = manifest_body now digest in body @ ''crc32c='' @ hex8 (crc_of body) @ [newline])"

definition write_manifest :: "store_config \<Rightarrow> nanos \<Rightarrow> disk \<Rightarrow> status \<times> disk" where
  "write_manifest cfg now d =
     (let path = join_path (sc_directory cfg) manifest_name; text = manifest_text now (sc_policy_digest cfg)
      in case fopen_wb manifest_name d of (opened, d) \<Rightarrow>
        if \<not> opened then (fail IoError ''cannot create the store manifest'' path, d)
        else case fwrite manifest_name text d of (written, d) \<Rightarrow>
          case durable_flush (Some manifest_name) d of (flushed, d) \<Rightarrow>
            case io_call d of (_, d) \<Rightarrow>
              if written \<noteq> length text \<or> \<not> has_value flushed
              then (fail IoError ''cannot write the store manifest'' path, d) else (ok_status, d))"

definition prepare_directory :: "store_config \<Rightarrow> disk \<Rightarrow> status \<times> disk" where
  "prepare_directory cfg d =
     (let directory = sc_directory cfg
      in case dk_root d of
           AbsentRoot \<Rightarrow>
             if \<not> sc_create_if_missing cfg then (fail NotFound ''store directory does not exist'' directory, d)
             else (case io_call d of (created, d) \<Rightarrow>
                if \<not> created then (fail IoError ''cannot create the store directory'' directory, d)
                else (ok_status, d\<lparr>dk_root := DirectoryRoot\<rparr>))
         | FileRoot \<Rightarrow> (fail InvalidArgument ''store path is not a directory'' directory, d)
         | DirectoryRoot \<Rightarrow> (ok_status, d))"

definition prepare_manifest :: "store_config \<Rightarrow> nanos \<Rightarrow> disk \<Rightarrow> status \<times> disk" where
  "prepare_manifest cfg now d =
     (if om_find (dk_files d) manifest_name \<noteq> None
      then (case open_reader cfg d of (Inl e, d) \<Rightarrow> (Inl e, d) | (Inr _, d) \<Rightarrow> (ok_status, d))
      else write_manifest cfg now d)"

definition next_segment :: "string list \<Rightarrow> u32" where
  "next_segment segments =
     (if segments = [] then 1
      else case segment_id_from_name (last segments) of
        None \<Rightarrow> 1 | Some i \<Rightarrow> if i < 0xFFFFFFFF then i + 1 else 1)"

definition fresh_writer :: "store_config \<Rightarrow> u32 \<Rightarrow> store_writer" where
  "fresh_writer cfg i = \<lparr>wr_config = cfg, wr_file = None, wr_segment_id = i, wr_segment_bytes = 0, wr_segment_records = 0,
     wr_segment_payload_bytes = 0, wr_segment_digest = 0, wr_total_bytes = 0, wr_total_records = 0, wr_closed = False\<rparr>"

definition open_writer :: "store_config \<Rightarrow> nanos \<Rightarrow> disk \<Rightarrow> store_writer result \<times> disk" where
  "open_writer cfg now d =
     (if sc_directory cfg = [] then (fail InvalidArgument ''store directory must not be empty'' [], d)
      else case prepare_directory cfg d of
        (Inl e, d) \<Rightarrow> (Inl e, d)
      | (Inr _, d) \<Rightarrow>
          (case prepare_manifest cfg now d of
             (Inl e, d) \<Rightarrow> (Inl e, d)
           | (Inr _, d) \<Rightarrow>
               (case list_segments (sc_directory cfg) d of
                  (Inl e, d) \<Rightarrow> (Inl e, d)
                | (Inr segments, d) \<Rightarrow> (Inr (fresh_writer cfg (next_segment segments)), d))))"

text \<open>\<^verbatim>\<open>LATOBS_TRY_STATUS\<close> on operations that change the writer and the disk.\<close>

definition then_do :: "status \<times> 's \<Rightarrow> ('s \<Rightarrow> status \<times> 's) \<Rightarrow> status \<times> 's" where
  "then_do r f = (case r of (Inl e, s) \<Rightarrow> (Inl e, s) | (Inr _, s) \<Rightarrow> f s)"

definition header_fields :: "u32 \<Rightarrow> nanos \<Rightarrow> string" where
  "header_fields i now = kSegmentMagic @ put_u16 (word_of_nat kFormatVersion) @ put_u16 (word_of_nat kSegmentHeaderBytes) @
     put_u32 i @ put_u64 (to_u64 now) @ replicate 4 nul @ put_u32 0"

definition segment_header :: "u32 \<Rightarrow> nanos \<Rightarrow> string" where
  "segment_header i now = header_fields i now @ put_u32 (crc_of (header_fields i now)) @ replicate 12 nul"

definition footer_fields :: "u64 \<Rightarrow> u64 \<Rightarrow> string" where
  "footer_fields records payload_bytes = kSegmentFooterMagic @ put_u32 (ucast records) @ put_u32 0 @ put_u64 payload_bytes"

definition segment_footer :: "u64 \<Rightarrow> u64 \<Rightarrow> u64 \<Rightarrow> string" where
  "segment_footer records payload_bytes digest =
     footer_fields records payload_bytes @ put_u32 (crc_of (footer_fields records payload_bytes)) @ put_u32 0 @ put_u64 digest"

definition record_header :: "record_type \<Rightarrow> string \<Rightarrow> string" where
  "record_header t payload = put_u32 (word_of_nat (length payload)) @ [char_of (record_type_byte t), nul] @ put_u16 0 @
     put_u32 (crc_of payload)"

type_synonym writer_state = "store_writer \<times> disk"

definition open_segment :: "nanos \<Rightarrow> writer_state \<Rightarrow> status \<times> writer_state" where
  "open_segment now st =
     (let (w, d) = st; n = segment_file_name (wr_segment_id w); path = join_path (sc_directory (wr_config w)) n
      in case fopen_wb n d of (opened, d) \<Rightarrow>
        if \<not> opened then (fail IoError ''cannot create a store segment'' path, w\<lparr>wr_file := None\<rparr>, d)
        else
          let w = w\<lparr>wr_file := Some n\<rparr>; header = segment_header (wr_segment_id w) now
          in case fwrite n header d of (written, d) \<Rightarrow>
            if written \<noteq> length header then (fail IoError ''cannot write the segment header'' path, w, d)
            else (ok_status, w\<lparr>wr_segment_bytes := word_of_nat kSegmentHeaderBytes, wr_segment_records := 0,
                     wr_segment_payload_bytes := 0, wr_segment_digest := 14695981039346656037\<rparr>, d))"

definition close_segment :: "writer_state \<Rightarrow> status \<times> writer_state" where
  "close_segment st =
     (let (w, d) = st
      in case wr_file w of
           None \<Rightarrow> (ok_status, w, d)
         | Some n \<Rightarrow>
             let footer = segment_footer (wr_segment_records w) (wr_segment_payload_bytes w) (wr_segment_digest w)
             in case fwrite n footer d of (written, d) \<Rightarrow>
               if written \<noteq> length footer then (fail IoError ''cannot write the segment footer'' [], w, d)
               else
                 let w = w\<lparr>wr_segment_bytes := wr_segment_bytes w + word_of_nat kSegmentFooterBytes,
                           wr_total_bytes := wr_total_bytes w + word_of_nat kSegmentFooterBytes\<rparr>
                 in case durable_flush (Some n) d of (flushed, d) \<Rightarrow> (flushed, w, d))"

definition record_bytes_of :: "string \<Rightarrow> u64" where
  "record_bytes_of payload = word_of_nat kRecordHeaderBytes + word_of_nat (length payload)"

definition must_rotate :: "store_writer \<Rightarrow> u64 \<Rightarrow> bool" where
  "must_rotate w record_bytes \<longleftrightarrow> wr_segment_records w \<noteq> 0 \<and>
     (unat (wr_segment_records w + 1) > max_segment_records (sc_limits (wr_config w)) \<or>
      unat (wr_segment_bytes w + record_bytes + word_of_nat kSegmentFooterBytes) > max_segment_bytes (sc_limits (wr_config w)))"

definition rotate_segment :: "nanos \<Rightarrow> writer_state \<Rightarrow> status \<times> writer_state" where
  "rotate_segment now st =
     then_do (close_segment st) (\<lambda>(w, d).
       case io_call d of (file_closed, d) \<Rightarrow>
         let w = w\<lparr>wr_file := None\<rparr>
         in if \<not> file_closed then (fail IoError ''cannot close a rotated segment'' [], w, d)
            else open_segment now (w\<lparr>wr_segment_id := wr_segment_id w + 1\<rparr>, d))"

definition write_record :: "record_type \<Rightarrow> string \<Rightarrow> writer_state \<Rightarrow> status \<times> writer_state" where
  "write_record t payload st =
     (let (w, d) = st; n = the (wr_file w); record_bytes = record_bytes_of payload
      in case fwrite n (record_header t payload) d of (written, d) \<Rightarrow>
        if written \<noteq> length (record_header t payload) then (fail IoError ''cannot write a record header'' [], w, d)
        else case (if payload \<noteq> [] then fwrite n payload d else (0, d)) of (payload_written, d) \<Rightarrow>
          if payload_written \<noteq> length payload then (fail IoError ''cannot write a record payload'' [], w, d)
          else (ok_status,
            w\<lparr>wr_segment_digest := (wr_segment_digest w * kFnvPrime) XOR fnv1a64 payload,
              wr_segment_records := wr_segment_records w + 1,
              wr_segment_bytes := wr_segment_bytes w + record_bytes,
              wr_segment_payload_bytes := wr_segment_payload_bytes w + word_of_nat (length payload),
              wr_total_bytes := wr_total_bytes w + record_bytes,
              wr_total_records := wr_total_records w + 1\<rparr>, d))"

text \<open>The phases of \<^verbatim>\<open>append\<close>: the limit on the whole store and the record itself, before it the limits on the
  record and the rotation, before these the state of the writer and its file.\<close>

definition append_last :: "record_type \<Rightarrow> string \<Rightarrow> writer_state \<Rightarrow> status \<times> writer_state" where
  "append_last t payload st =
     (case checked_add_u64 (wr_total_bytes (fst st)) (record_bytes_of payload) of
        None \<Rightarrow> (fail CapacityExceeded ''the store has reached its configured maximum size''
                   (show_nat (unat (wr_total_bytes (fst st)))), st)
      | Some projected \<Rightarrow>
          if unat projected > max_store_bytes (sc_limits (wr_config (fst st)))
          then (fail CapacityExceeded ''the store has reached its configured maximum size''
                  (show_nat (unat (wr_total_bytes (fst st)))), st)
          else write_record t payload st)"

definition append_rest :: "nanos \<Rightarrow> record_type \<Rightarrow> string \<Rightarrow> writer_state \<Rightarrow> status \<times> writer_state" where
  "append_rest now t payload st =
     (let record_bytes = record_bytes_of payload; l = sc_limits (wr_config (fst st))
      in if length payload > kMaxRecordPayloadBytes
         then (fail CapacityExceeded ''record payload exceeds the supported maximum'' (show_nat (length payload)), st)
         else if unat (record_bytes + word_of_nat kSegmentFooterBytes) > max_segment_bytes l
         then (fail CapacityExceeded ''the record cannot fit inside the configured segment size'' (show_nat (length payload)), st)
         else then_do (if must_rotate (fst st) record_bytes then rotate_segment now st else (ok_status, st)) (append_last t payload))"

definition append_record :: "nanos \<Rightarrow> record_type \<Rightarrow> string \<Rightarrow> writer_state \<Rightarrow> status \<times> writer_state" where
  "append_record now t payload st =
     (if wr_closed (fst st) then (fail InvalidArgument ''the writer is closed'' [], st)
      else then_do (if wr_file (fst st) = None then open_segment now st else (ok_status, st)) (append_rest now t payload))"

definition sync_writer :: "writer_state \<Rightarrow> status \<times> writer_state" where
  "sync_writer st =
     (let (w, d) = st
      in if wr_file w = None then (ok_status, w, d)
         else case durable_flush (wr_file w) d of (r, d) \<Rightarrow> (r, w, d))"

definition close_writer :: "writer_state \<Rightarrow> status \<times> writer_state" where
  "close_writer st =
     (let (w, d) = st
      in if wr_closed w then (ok_status, w, d)
         else if wr_file w = None then (ok_status, w\<lparr>wr_closed := True\<rparr>, d)
         else then_do (close_segment (w, d)) (\<lambda>(w, d).
           case io_call d of (file_closed, d) \<Rightarrow>
             let w = w\<lparr>wr_file := None, wr_closed := True\<rparr>
             in if file_closed then (ok_status, w, d) else (fail IoError ''cannot close the store segment'' [], w, d)))"

text \<open>The destructor and the move assignment.\<close>

definition destroy_writer :: "writer_state \<Rightarrow> disk" where
  "destroy_writer st =
     (if wr_file (fst st) = None then snd st
      else snd (io_call (snd (snd (close_segment st)))))"

definition move_assign :: "store_writer \<Rightarrow> store_writer \<Rightarrow> disk \<Rightarrow> store_writer \<times> store_writer \<times> disk" where
  "move_assign target source d =
     (source, source\<lparr>wr_file := None, wr_closed := True\<rparr>, if wr_file target = None then d else snd (io_call d))"

section \<open>Integers and headers are read back\<close>

lemma length_put [simp]:
  "length (put_le k v) = k" "length (put_u16 a) = 2" "length (put_u32 b) = 4" "length (put_u64 c) = 8"
  by (simp_all add: put_le_def put_u16_def put_u32_def put_u64_def)

lemma byte_word_and: "word_of_nat (byte_of (char_of (unat (w AND 0xFF :: 'a::len word)))) = w AND 0xFF"
proof -
  have m: "(0xFF :: 'a word) = mask 8" by (simp add: mask_eq_exp_minus_1)
  have "unat (w AND 0xFF) = take_bit 8 (unat w)" unfolding m by (simp add: take_bit_eq_mask [symmetric] unsigned_take_bit_eq)
  then have "unat (w AND 0xFF) < 256" by (simp add: take_bit_eq_mod)
  then show ?thesis by simp
qed

lemma take_bit_step:
  "take_bit (8 * k) v OR push_bit (8 * k) (drop_bit (8 * k) v AND 0xFF) = take_bit (8 + 8 * k) (v :: 'a::len word)"
proof -
  have m: "(0xFF :: 'a word) = mask 8" by (simp add: mask_eq_exp_minus_1)
  show ?thesis unfolding m take_bit_eq_mask [symmetric]
    by (rule bit_word_eqI) (auto simp: bit_simps)
qed

lemma get_le_put_le: "k \<le> m \<Longrightarrow> get_le k (put_le m v @ rest) = take_bit (8 * k) (v :: 'a::len word)"
proof (induction k)
  case (Suc k)
  have "(put_le m v @ rest) ! k = char_of (unat (drop_bit (8 * k) v AND 0xFF))"
    using Suc.prems by (simp add: put_le_def nth_append)
  moreover have "(get_le (Suc k) (put_le m v @ rest) :: 'a word) =
      get_le k (put_le m v @ rest) OR push_bit (8 * k) (word_of_nat (byte_of ((put_le m v @ rest) ! k)))"
    by (simp add: get_le_def)
  moreover have "(get_le k (put_le m v @ rest) :: 'a word) = take_bit (8 * k) v" using Suc by simp
  ultimately have "get_le (Suc k) (put_le m v @ rest) = take_bit (8 * k) v OR push_bit (8 * k) (drop_bit (8 * k) v AND 0xFF)"
    by (simp only: byte_word_and)
  then show ?case by (simp only: take_bit_step mult_Suc_right)
qed (simp add: get_le_def)

lemma get_put [simp]:
  "get_u16 (put_u16 a @ rest) = a" "get_u32 (put_u32 b @ rest) = b" "get_u64 (put_u64 c @ rest) = c"
  using get_le_put_le [of 2 2 a rest] get_le_put_le [of 4 4 b rest] get_le_put_le [of 8 8 c rest]
  by (simp_all add: get_u16_def get_u32_def get_u64_def put_u16_def put_u32_def put_u64_def take_bit_word_eq_self)

lemma get_le_prefix: "k \<le> length a \<Longrightarrow> get_le k (a @ b) = get_le k a"
  unfolding get_le_def by (rule foldl_cong) (auto simp: nth_append)

lemma get_u32_prefix: "4 \<le> length a \<Longrightarrow> get_u32 (a @ b) = get_u32 a"
  by (simp add: get_u32_def get_le_prefix)

lemma length_magic [simp]: "length kSegmentMagic = 8" "length kSegmentFooterMagic = 8"
  by (simp_all add: kSegmentMagic_def kSegmentFooterMagic_def)

lemma length_header [simp]: "length (header_fields i now) = 32" "length (segment_header i now) = 48"
  by (simp_all add: header_fields_def segment_header_def)

lemma length_footer [simp]: "length (footer_fields c p) = 24" "length (segment_footer c p g) = 40"
  by (simp_all add: footer_fields_def segment_footer_def)

lemma length_record_header [simp]: "length (record_header t p) = 12"
  by (simp add: record_header_def)

lemma header_is_intact: "header_intact (segment_header i now)" and header_id: "get_u32 (drop 12 (segment_header i now)) = i"
proof -
  have "take 8 (segment_header i now) = kSegmentMagic"
    "drop 8 (segment_header i now) = put_u16 (word_of_nat kFormatVersion) @ drop 10 (segment_header i now)"
    "drop 10 (segment_header i now) = put_u16 (word_of_nat kSegmentHeaderBytes) @ drop 12 (segment_header i now)"
    "drop 32 (segment_header i now) = put_u32 (crc_of (header_fields i now)) @ replicate 12 nul"
    "take 32 (segment_header i now) = header_fields i now"
    "drop 12 (segment_header i now) = put_u32 i @ drop 16 (segment_header i now)"
    by (simp_all add: segment_header_def header_fields_def)
  then show "header_intact (segment_header i now)" "get_u32 (drop 12 (segment_header i now)) = i"
    by (simp_all add: header_intact_def kFormatVersion_def kSegmentHeaderBytes_def)
qed

lemma record_type_of_byte [simp]: "record_type_of_byte (record_type_byte t) = Some t"
  by (cases t) (simp_all add: record_type_of_byte_def kRecordTypes_def)

lemma record_type_byte_bound [simp]: "record_type_byte t < 256"
  by (cases t) simp_all

lemma footer_magic_length: "unat (get_u32 kSegmentFooterMagic) > kMaxRecordPayloadBytes"
  by (simp add: get_u32_def get_le_def kSegmentFooterMagic_def kMaxRecordPayloadBytes_def upt_rec)

section \<open>Intact records are read\<close>

definition payload_ok :: "record_type \<times> string \<Rightarrow> bool" where
  "payload_ok r \<longleftrightarrow> length (snd r) \<le> kMaxRecordPayloadBytes"

definition frame :: "record_type \<times> string \<Rightarrow> string" where
  "frame r = record_header (fst r) (snd r) @ snd r"

definition take_in :: "u32 \<Rightarrow> record_type \<times> string \<Rightarrow> string \<Rightarrow> segment_scan \<Rightarrow> segment_scan" where
  "take_in segment r rest s = s\<lparr>
     sn_records := sn_records s @ [\<lparr>sr_type = fst r, sr_payload = snd r, sr_segment_id = segment, sr_sequence = sn_recovered s\<rparr>],
     sn_recovered := sn_recovered s + 1, sn_payload_bytes := sn_payload_bytes s + word_of_nat (length (snd r)),
     sn_report := (sn_report s)\<lparr>rr_records_read := rr_records_read (sn_report s) + 1\<rparr>, sn_rest := rest\<rparr>"

lemma record_header_parts:
  assumes "payload_ok (t, p)"
  shows "get_u32 (record_header t p) = word_of_nat (length p)" "record_header t p ! 4 = char_of (record_type_byte t)"
    "get_u32 (drop 8 (record_header t p)) = crc_of p" "take 8 (record_header t p) \<noteq> kSegmentFooterMagic"
    "unat (word_of_nat (length p) :: u32) = length p"
proof -
  show l: "get_u32 (record_header t p) = word_of_nat (length p)" by (simp add: record_header_def)
  show "record_header t p ! 4 = char_of (record_type_byte t)" by (simp add: record_header_def nth_append)
  have "drop 8 (record_header t p) = put_u32 (crc_of p) @ []" by (simp add: record_header_def)
  then show "get_u32 (drop 8 (record_header t p)) = crc_of p" by (simp only: get_put)
  show u: "unat (word_of_nat (length p) :: u32) = length p"
    using assms by (simp add: payload_ok_def kMaxRecordPayloadBytes_def unat_of_nat take_bit_nat_eq_self)
  show "take 8 (record_header t p) \<noteq> kSegmentFooterMagic"
  proof
    assume "take 8 (record_header t p) = kSegmentFooterMagic"
    then have "record_header t p = kSegmentFooterMagic @ drop 8 (record_header t p)" by (metis append_take_drop_id)
    then have "get_u32 (record_header t p) = get_u32 kSegmentFooterMagic"
      using get_u32_prefix [of kSegmentFooterMagic "drop 8 (record_header t p)"] by simp
    then show False using footer_magic_length assms l u by (simp add: payload_ok_def)
  qed
qed

lemma read_exact_append: "n = length a \<Longrightarrow> read_exact n (a @ b) = (Some a, b)"
  by (simp add: read_exact_def)

lemma scan_one:
  assumes "payload_ok r" and "sn_rest s = frame r @ rest"
  shows "scan_records n segment s = scan_records n segment (take_in segment r rest s)"
proof -
  obtain t p where r: "r = (t, p)" by (cases r)
  note H = record_header_parts [OF assms(1) [unfolded r]]
  have h: "take kRecordHeaderBytes (sn_rest s) = record_header t p" "drop kRecordHeaderBytes (sn_rest s) = p @ rest"
    "\<not> length (sn_rest s) < kRecordHeaderBytes"
    by (simp_all add: assms(2) frame_def r kRecordHeaderBytes_def)
  have "\<not> length p > kMaxRecordPayloadBytes" using assms(1) by (simp add: r payload_ok_def)
  moreover have "ucast (word_of_nat (length p) :: u32) = (word_of_nat (length p) :: u64)"
    using assms(1) by (simp add: r payload_ok_def kMaxRecordPayloadBytes_def word_unat_eq_iff unsigned_ucast_eq unat_of_nat take_bit_nat_eq_self)
  ultimately have "scan_record n segment (record_header t p) (p @ rest) s = (True, take_in segment r rest s)"
    by (simp add: scan_record_def Let_def H read_exact_append take_in_def r)
  then show ?thesis
    by (subst scan_records.simps) (simp add: h H(4) Let_def)
qed

fun take_all :: "u32 \<Rightarrow> (record_type \<times> string) list \<Rightarrow> string \<Rightarrow> segment_scan \<Rightarrow> segment_scan" where
  "take_all segment [] rest s = s"
| "take_all segment (r # rs) rest s = take_all segment rs rest (take_in segment r (concat (map frame rs) @ rest) s)"

lemma scan_all:
  "list_all payload_ok rs \<Longrightarrow> sn_rest s = concat (map frame rs) @ rest \<Longrightarrow>
   scan_records n segment s = scan_records n segment (take_all segment rs rest s)"
proof (induction rs arbitrary: s)
  case (Cons r rs)
  then show ?case using scan_one [of r s "concat (map frame rs) @ rest" n segment] by (simp add: take_in_def)
qed simp

definition stored_from :: "u32 \<Rightarrow> u64 \<Rightarrow> (record_type \<times> string) list \<Rightarrow> stored_record list" where
  "stored_from segment k rs = map (\<lambda>(i, r). \<lparr>sr_type = fst r, sr_payload = snd r, sr_segment_id = segment,
     sr_sequence = k + word_of_nat i\<rparr>) (enumerate 0 rs)"

definition payload_total :: "(record_type \<times> string) list \<Rightarrow> nat" where
  "payload_total rs = sum_list (map (length \<circ> snd) rs)"

lemma stored_from_Cons:
  "stored_from segment k (r # rs) = \<lparr>sr_type = fst r, sr_payload = snd r, sr_segment_id = segment, sr_sequence = k\<rparr> #
     stored_from segment (k + 1) rs"
  by (simp add: stored_from_def enumerate_Suc_eq split_beta comp_def add.assoc)

lemma take_all_eq:
  "sn_rest s = concat (map frame rs) @ rest \<Longrightarrow> take_all segment rs rest s = s\<lparr>
     sn_records := sn_records s @ stored_from segment (sn_recovered s) rs,
     sn_recovered := sn_recovered s + word_of_nat (length rs),
     sn_payload_bytes := sn_payload_bytes s + word_of_nat (payload_total rs),
     sn_report := (sn_report s)\<lparr>rr_records_read := rr_records_read (sn_report s) + word_of_nat (length rs)\<rparr>, sn_rest := rest\<rparr>"
proof (induction rs arbitrary: s)
  case Nil
  then show ?case by (simp add: stored_from_def payload_total_def)
next
  case (Cons r rs)
  show ?case
    by (simp add: Cons.IH take_in_def stored_from_Cons payload_total_def algebra_simps)
qed

section \<open>Segments as a whole\<close>

record segment =
  sg_id :: u32
  sg_now :: nanos
  sg_records :: "(record_type \<times> string) list"
  sg_closed :: bool

definition fold_digest :: "(record_type \<times> string) list \<Rightarrow> u64" where
  "fold_digest rs = foldl (\<lambda>g r. (g * kFnvPrime) XOR fnv1a64 (snd r)) 14695981039346656037 rs"

definition footer_of :: "(record_type \<times> string) list \<Rightarrow> string" where
  "footer_of rs = segment_footer (word_of_nat (length rs)) (word_of_nat (payload_total rs)) (fold_digest rs)"

definition segment_text :: "segment \<Rightarrow> string" where
  "segment_text sg = segment_header (sg_id sg) (sg_now sg) @ concat (map frame (sg_records sg)) @
     (if sg_closed sg then footer_of (sg_records sg) else [])"

definition segment_name :: "segment \<Rightarrow> string" where "segment_name sg = segment_file_name (sg_id sg)"

definition segment_ok :: "segment \<Rightarrow> bool" where
  "segment_ok sg \<longleftrightarrow> list_all payload_ok (sg_records sg) \<and> length (sg_records sg) < 2 ^ 32"

definition stored :: "segment \<Rightarrow> stored_record list" where
  "stored sg = stored_from (sg_id sg) 0 (sg_records sg)"

lemma footer_parts:
  "take 8 (take 12 (segment_footer c p g)) = kSegmentFooterMagic" "get_u32 (drop 8 (take 12 (segment_footer c p g))) = ucast c"
  "take 24 (segment_footer c p g) = footer_fields c p" "get_u32 (drop 24 (segment_footer c p g)) = crc_of (footer_fields c p)"
  "get_u64 (drop 16 (segment_footer c p g)) = p"
proof -
  show "take 8 (take 12 (segment_footer c p g)) = kSegmentFooterMagic"
    by (simp add: segment_footer_def footer_fields_def)
  have "drop 8 (take 12 (segment_footer c p g)) = put_u32 (ucast c) @ []" by (simp add: segment_footer_def footer_fields_def)
  then show "get_u32 (drop 8 (take 12 (segment_footer c p g))) = ucast c" by (simp only: get_put)
  show "take 24 (segment_footer c p g) = footer_fields c p" by (simp add: segment_footer_def)
  show "get_u32 (drop 24 (segment_footer c p g)) = crc_of (footer_fields c p)" by (simp add: segment_footer_def)
  have "drop 16 (segment_footer c p g) = put_u64 p @ drop 24 (segment_footer c p g)"
    by (simp add: segment_footer_def footer_fields_def)
  then show "get_u64 (drop 16 (segment_footer c p g)) = p" by (simp only: get_put)
qed

lemma scan_footer_intact:
  assumes "sn_rest s = segment_footer c (sn_payload_bytes s) g"
  shows "scan_records n segment s = s\<lparr>sn_saw_footer := True, sn_footer_count := ucast c, sn_rest := []\<rparr>"
proof -
  let ?f = "segment_footer c (sn_payload_bytes s) g"
  have "take 12 ?f @ drop 12 ?f = ?f" "take 8 ?f = kSegmentFooterMagic" using footer_parts(1) by simp_all
  then show ?thesis
    by (subst scan_records.simps)
      (simp add: assms kRecordHeaderBytes_def footer_parts scan_footer_def Let_def kSegmentFooterBytes_def read_exact_def del: append_take_drop_id)
qed

lemma count_ucast: "k < 2 ^ 32 \<Longrightarrow> ucast (ucast (word_of_nat k :: u64) :: u32) = (word_of_nat k :: u64)"
  by (rule word_unat_eq_iff [THEN iffD2]) (simp add: unsigned_ucast_eq unsigned_take_bit_eq unat_of_nat take_bit_nat_eq_self)

definition new_scan :: "stored_record list \<Rightarrow> recovery_report \<Rightarrow> string \<Rightarrow> segment_scan" where
  "new_scan records report rest = \<lparr>sn_records = records, sn_report = report, sn_recovered = 0, sn_payload_bytes = 0,
     sn_saw_footer = False, sn_truncated = False, sn_footer_count = 0, sn_rest = rest\<rparr>"

definition after_scan :: "string \<Rightarrow> nat \<Rightarrow> segment_scan \<Rightarrow> bool \<times> stored_record list \<times> recovery_report" where
  "after_scan n position s =
     (case conclude_segment n (s\<lparr>sn_report := (sn_report s)\<lparr>rr_bytes_read := rr_bytes_read (sn_report s) + word_of_nat position\<rparr>\<rparr>)
      of (stop, report) \<Rightarrow> (stop, sn_records s, report))"

lemma read_segment_body:
  "read_segment n (segment_header i now @ body) records report =
     (let s = scan_records n i (new_scan records report body) in after_scan n (48 + length body - length (sn_rest s)) s)"
  by (simp add: read_segment_def kSegmentHeaderBytes_def read_exact_append header_is_intact header_id Let_def new_scan_def
      after_scan_def)

lemma read_segment_closed:
  assumes "segment_ok sg" and "sg_closed sg"
  shows "read_segment n (segment_text sg) records report =
    (False, records @ stored sg,
     report\<lparr>rr_records_read := rr_records_read report + word_of_nat (length (sg_records sg)),
            rr_bytes_read := rr_bytes_read report + word_of_nat (length (segment_text sg)),
            rr_segments_accepted := rr_segments_accepted report + 1\<rparr>)"
proof -
  let ?rs = "sg_records sg" and ?body = "concat (map frame (sg_records sg)) @ footer_of (sg_records sg)"
  let ?s = "new_scan records report ?body"
  have r: "sn_rest ?s = concat (map frame ?rs) @ footer_of ?rs" by (simp add: new_scan_def)
  have ok: "list_all payload_ok ?rs" "length ?rs < 2 ^ 32" using assms(1) by (simp_all add: segment_ok_def)
  let ?t = "take_all (sg_id sg) ?rs (footer_of ?rs) ?s"
  have t: "sn_rest ?t = footer_of ?rs" "sn_payload_bytes ?t = word_of_nat (payload_total ?rs)"
    unfolding take_all_eq [OF r] by (simp_all add: new_scan_def)
  have "scan_records n (sg_id sg) ?s = ?t\<lparr>sn_saw_footer := True, sn_footer_count := ucast (word_of_nat (length ?rs) :: u64), sn_rest := []\<rparr>"
    unfolding scan_all [OF ok(1) r] by (rule scan_footer_intact) (unfold t, rule footer_of_def)
  then show ?thesis
    using assms(2) count_ucast [OF ok(2)]
    by (simp add: segment_text_def read_segment_body Let_def take_all_eq [OF r])
      (simp add: new_scan_def after_scan_def conclude_segment_def Let_def stored_def)
qed

section \<open>A segment that was cut\<close>

lemma stored_from_Nil [simp]: "stored_from segment k [] = []"
  by (simp add: stored_from_def)

lemma scan_footer_records: "sn_records (scan_footer n bytes rest s) = sn_records s"
  by (simp add: scan_footer_def Let_def damaged_def split: option.splits prod.splits)

definition frames_length :: "(record_type \<times> string) list \<Rightarrow> nat" where
  "frames_length rs = length (concat (map frame rs))"

lemma frames_length_simps [simp]:
  "frames_length [] = 0" "frames_length (r # rs) = length (frame r) + frames_length rs"
  by (simp_all add: frames_length_def)

lemma scan_cut:
  assumes "list_all payload_ok rs" and "tail = [] \<or> tail = segment_footer c p g"
    and "sn_rest s = take m (concat (map frame rs) @ tail)"
  shows "\<exists>j \<le> length rs. sn_records (scan_records n segment s) = sn_records s @ stored_from segment (sn_recovered s) (take j rs)
    \<and> (\<not> sn_truncated (scan_records n segment s) \<longrightarrow> j = length rs \<or> sn_recovered s + word_of_nat j = 0)
    \<and> frames_length (take j rs) \<le> m \<and> (j < length rs \<longrightarrow> m < frames_length (take (Suc j) rs))"
  using assms
proof (induction rs arbitrary: s m)
  case Nil
  have "take 8 (take kRecordHeaderBytes (sn_rest s)) = kSegmentFooterMagic" if "\<not> length (sn_rest s) < kRecordHeaderBytes"
    using that Nil footer_parts(1) [of c p g] by (auto simp: kRecordHeaderBytes_def min_def)
  then have "sn_records (scan_records n segment s) = sn_records s"
    by (subst scan_records.simps) (auto simp: Let_def scan_footer_records)
  then show ?case by simp
next
  case (Cons r rs)
  obtain t q where r: "r = (t, q)" by (cases r)
  have ok: "payload_ok r" "list_all payload_ok rs" using Cons.prems(1) by simp_all
  show ?case
  proof (cases "m < length (frame r)")
    case False
    let ?rest = "take (m - length (frame r)) (concat (map frame rs) @ tail)"
    let ?s = "take_in segment r ?rest s"
    have "sn_rest s = frame r @ ?rest" using False Cons.prems(3) by simp
    then have e: "scan_records n segment s = scan_records n segment ?s" by (rule scan_one [OF ok(1)])
    have "sn_rest ?s = ?rest" by (simp add: take_in_def)
    from Cons.IH [OF ok(2) Cons.prems(2) this] obtain j where j: "j \<le> length rs"
      "sn_records (scan_records n segment ?s) = sn_records ?s @ stored_from segment (sn_recovered ?s) (take j rs)"
      "\<not> sn_truncated (scan_records n segment ?s) \<longrightarrow> j = length rs \<or> sn_recovered ?s + word_of_nat j = 0"
      "frames_length (take j rs) \<le> m - length (frame r)"
      "j < length rs \<longrightarrow> m - length (frame r) < frames_length (take (Suc j) rs)" by blast
    have len: "frames_length (take (Suc j) (r # rs)) \<le> m \<and>
        (Suc j < length (r # rs) \<longrightarrow> m < frames_length (take (Suc (Suc j)) (r # rs)))"
      using j(4,5) False by (simp only: take_Suc_Cons frames_length_simps length_Cons) linarith
    show ?thesis
      using j(1-3) len unfolding e
      by (intro exI [of _ "Suc j"]) (simp add: take_in_def stored_from_Cons algebra_simps del: frames_length_simps)
  next
    case True
    have rest: "sn_rest s = take m (record_header t q @ q)" using True Cons.prems(3) by (simp add: frame_def r)
    show ?thesis
    proof (cases "m < 12")
      case True
      then have "scan_records n segment s = s\<lparr>sn_truncated := (sn_recovered s \<noteq> 0), sn_rest := []\<rparr>"
        by (subst scan_records.simps) (simp add: rest kRecordHeaderBytes_def)
      then show ?thesis using \<open>m < length (frame r)\<close> by (intro exI [of _ 0]) simp
    next
      case False
      note H = record_header_parts [OF ok(1) [unfolded r]]
      have m: "m - 12 < length q" using \<open>m < length (frame r)\<close> False by (simp add: frame_def r)
      have h: "take kRecordHeaderBytes (sn_rest s) = record_header t q" "drop kRecordHeaderBytes (sn_rest s) = take (m - 12) q"
        "\<not> length (sn_rest s) < kRecordHeaderBytes"
        using False m by (simp_all add: rest kRecordHeaderBytes_def)
      have "read_exact (length q) (take (m - 12) q) = (None, [])" using m by (auto simp: read_exact_def)
      moreover have "\<not> length q > kMaxRecordPayloadBytes" using ok(1) by (simp add: r payload_ok_def)
      ultimately have "scan_record n segment (record_header t q) (take (m - 12) q) s = (False, s\<lparr>sn_truncated := True, sn_rest := []\<rparr>)"
        by (simp add: scan_record_def Let_def H)
      then have "scan_records n segment s = s\<lparr>sn_truncated := True, sn_rest := []\<rparr>"
        by (subst scan_records.simps) (simp add: h H(4) Let_def)
      then show ?thesis using \<open>m < length (frame r)\<close> by (intro exI [of _ 0]) simp
    qed
  qed
qed

section \<open>Names of segments\<close>

definition nibbles :: "u32 \<Rightarrow> nat list" where
  "nibbles v = map (\<lambda>k. unat (drop_bit (28 - 4 * k) v AND 0x0F)) [0..<8]"

lemma hex8_nibbles: "hex8 v = map ((!) kDigits) (nibbles v)"
  by (simp add: hex8_def nibbles_def comp_def)

lemma unat_nibble: "unat (drop_bit a v AND 0x0F) = (unat (v :: 'a::len word) div 2 ^ a) mod 16"
proof -
  have m: "(0x0F :: 'a word) = mask 4" by (simp add: mask_eq_exp_minus_1)
  have "unat (take_bit 4 (drop_bit a v)) = take_bit 4 (drop_bit a (unat v))"
    by (simp add: unsigned_take_bit_eq unsigned_drop_bit_eq take_bit_nat_eq_self)
  then show ?thesis unfolding m take_bit_eq_mask [symmetric] by (simp add: take_bit_eq_mod [of 4 "_ :: nat"] drop_bit_eq_div [of _ "_ :: nat"])
qed

definition horner :: "nat list \<Rightarrow> nat" where "horner xs = foldl (\<lambda>a d. 16 * a + d) 0 xs"

lemma horner_snoc: "horner (xs @ [x]) = 16 * horner xs + x"
  by (simp add: horner_def)

lemma foldl_horner: "foldl (\<lambda>a d. 16 * a + d) a xs = a * 16 ^ length xs + horner xs"
proof (induction xs rule: rev_induct)
  case (snoc x xs)
  then show ?case by (simp add: horner_snoc)
qed (simp add: horner_def)

lemma horner_Cons: "horner (x # xs) = x * 16 ^ length xs + horner xs"
  using foldl_horner [of x xs] by (simp add: horner_def)

lemma unat_less_2_32: "unat (v :: u32) < 4294967296"
  using unsigned_less [of v, where 'a = nat] by simp

lemma horner_less: "list_all (\<lambda>x. x < 16) xs \<Longrightarrow> horner xs < 16 ^ length xs"
proof (induction xs)
  case (Cons x xs)
  then have "x * 16 ^ length xs + horner xs < (x + 1) * 16 ^ length xs" by simp
  also have "\<dots> \<le> 16 * 16 ^ length xs" using Cons.prems by (intro mult_right_mono) simp_all
  finally show ?case by (simp add: horner_Cons)
qed (simp add: horner_def)

lemma horner_order:
  "length xs = length ys \<Longrightarrow> list_all (\<lambda>x. x < 16) xs \<Longrightarrow> list_all (\<lambda>x. x < 16) ys \<Longrightarrow> horner xs < horner ys \<Longrightarrow> xs < ys"
proof (induction xs ys rule: list_induct2)
  case (Cons x xs y ys)
  have b: "horner xs < 16 ^ length xs" "horner ys < 16 ^ length xs"
    using Cons.prems Cons.hyps horner_less [of xs] horner_less [of ys] by simp_all
  have "\<not> y < x"
  proof
    assume "y < x"
    then have "(y + 1) * 16 ^ length xs \<le> x * 16 ^ length xs" by (intro mult_right_mono) simp_all
    then show False using Cons.prems(3) Cons.hyps b by (simp add: horner_Cons)
  qed
  then show ?case using Cons by (cases "x = y") (auto simp: horner_Cons)
qed simp

lemma digits_order:
  "xs < ys \<Longrightarrow> list_all (\<lambda>x. x < 16) xs \<Longrightarrow> list_all (\<lambda>x. x < 16) ys \<Longrightarrow> map ((!) kDigits) xs < map ((!) kDigits) ys"
proof (induction xs arbitrary: ys)
  case Nil
  then show ?case by (cases ys) simp_all
next
  case (Cons x xs)
  have d: "list_all (\<lambda>a. list_all (\<lambda>b. a < b \<longrightarrow> kDigits ! a < kDigits ! b) [0..<16]) [0..<16]"
    by (simp add: kDigits_def upt_rec less_char_def)
  from Cons.prems obtain y zs where y: "ys = y # zs" by (cases ys) auto
  have "x < y \<Longrightarrow> kDigits ! x < kDigits ! y" using d Cons.prems(2,3) unfolding list_all_iff y by simp
  then show ?case using Cons y by auto
qed

lemma nibbles_bound: "list_all (\<lambda>x. x < 16) (nibbles v)"
  by (simp add: nibbles_def list_all_iff unat_nibble)

lemma horner_nibbles: "horner (nibbles v) = unat v"
proof -
  have "horner (map (\<lambda>k. unat (drop_bit (28 - 4 * k) v AND 0x0F)) [0..<k]) = unat v div 16 ^ (8 - k)" if "k \<le> 8" for k
    using that
  proof (induction k)
    case 0
    show ?case using unat_less_2_32 [of v] by (simp add: horner_def)
  next
    case (Suc k)
    have e: "8 - k = Suc (8 - Suc k)" using Suc.prems by simp
    have p: "(2 :: nat) ^ (28 - 4 * k) = 16 ^ (8 - Suc k)"
      using Suc.prems power_mult [of "2 :: nat" 4 "7 - k"] by (simp add: diff_mult_distrib2)
    have "horner (map (\<lambda>k. unat (drop_bit (28 - 4 * k) v AND 0x0F)) [0..<Suc k]) =
        16 * (unat v div 16 ^ (8 - k)) + (unat v div 16 ^ (8 - Suc k)) mod 16"
      using Suc by (simp add: horner_snoc unat_nibble p)
    also have "unat v div 16 ^ (8 - k) = unat v div 16 ^ (8 - Suc k) div 16"
      unfolding e power_Suc2 by (rule div_mult2_eq)
    finally show ?case by simp
  qed
  from this [of 8] show ?thesis by (simp add: nibbles_def)
qed

lemma append_less_left: "(p @ a < p @ b) = (a < (b :: string))"
  by (induction p) simp_all

lemma append_less_right: "length a = length b \<Longrightarrow> a < b \<Longrightarrow> a @ p < b @ (p :: string)"
  by (induction a b rule: list_induct2) auto

lemma length_hex8 [simp]: "length (hex8 v) = 8"
  by (simp add: hex8_def)

lemma segment_name_order: "i < j \<Longrightarrow> segment_file_name i < segment_file_name j"
proof -
  assume "i < j"
  then have "nibbles i < nibbles j"
    by (intro horner_order) (simp_all add: nibbles_bound horner_nibbles word_less_nat_alt, simp add: nibbles_def)
  then have "hex8 i < hex8 j" unfolding hex8_nibbles by (rule digits_order [OF _ nibbles_bound nibbles_bound])
  then show ?thesis unfolding segment_file_name_def by (simp add: append_less_left append_less_right)
qed

lemma hex8_read: "hex_accumulate 0 (hex8 v) = Some (ucast v)"
proof -
  let ?i = "StrongId (ucast v) :: unit strong_id"
  have l: "length (id_to_hex ?i) = 16" by (simp add: id_to_hex_def)
  have u: "unat (ucast v :: u64) = unat v" using unat_less_2_32 [of v] by (simp add: unsigned_ucast_eq take_bit_nat_eq_self)
  have "drop 8 (id_to_hex ?i) = hex8 v"
    by (rule nth_equalityI) (simp_all add: l, simp add: id_to_hex_def hex8_def unat_nibble u diff_mult_distrib2 mult.commute [of _ 4])
  then have "hex_accumulate 0 (id_to_hex ?i) = Option.bind (hex_accumulate 0 (take 8 (id_to_hex ?i))) (\<lambda>w. hex_accumulate w (hex8 v))"
    by (metis append_take_drop_id hex_accumulate_append)
  moreover have "hex_accumulate 0 (take 8 (id_to_hex ?i)) = Some 0"
    using hex_accumulate_prefix [of 8 ?i] u unat_less_2_32 [of v]
    by (simp add: word_unat_eq_iff unsigned_drop_bit_eq drop_bit_eq_div [of _ "_ :: nat"] take_bit_nat_eq_self)
  moreover have "hex_accumulate 0 (id_to_hex ?i) = Some (ucast v)"
    using hex_accumulate_prefix [of 16 ?i] l by simp
  ultimately show ?thesis by (simp only: Option.bind.simps)
qed

lemma segment_id_name: "segment_id_from_name (segment_file_name i) = Some i"
proof -
  have "take 8 (drop 4 (segment_file_name i)) = hex8 i" "drop 12 (segment_file_name i) = ''.lobs''"
    by (simp_all add: segment_file_name_def)
  moreover have "(ucast i :: u64) \<le> 0xFFFFFFFF"
    using unat_less_2_32 [of i] by (simp add: word_le_nat_alt unsigned_ucast_eq take_bit_nat_eq_self)
  moreover have "ucast (ucast i :: u64) = i" by (rule bit_word_eqI) (simp add: bit_simps)
  ultimately show ?thesis
    by (simp add: segment_id_from_name_def hex8_read) (simp add: segment_file_name_def)
qed

end
