(* ===== verification/Store_Runs.thy ===== *)
theory Store_Runs
  imports Store
begin

text \<open>
  Runs of the store: what the segment files hold after any sequence of successful appends, that a
  reader gets exactly these records back, and what is left of them after a crash or a damaged byte.
\<close>

section \<open>What the directory holds\<close>

definition is_segment_name :: "string \<Rightarrow> bool" where
  "is_segment_name n \<longleftrightarrow> segment_id_from_name n \<noteq> None"

definition layout :: "segment list \<Rightarrow> (string \<times> string) list" where
  "layout segs = map (\<lambda>s. (segment_name s, segment_text s)) segs"

definition holds :: "disk \<Rightarrow> segment list \<Rightarrow> bool" where
  "holds d segs \<longleftrightarrow> dk_root d = DirectoryRoot \<and> om_inv (dk_files d) \<and>
     filter (\<lambda>e. is_segment_name (fst e)) (dk_files d) = layout segs \<and> sorted_wrt (<) (map sg_id segs) \<and> list_all segment_ok segs"

definition history :: "segment list \<Rightarrow> (record_type \<times> string) list" where
  "history segs = concat (map sg_records segs)"

definition contents :: "stored_record list \<Rightarrow> (record_type \<times> string) list" where
  "contents rs = map (\<lambda>r. (sr_type r, sr_payload r)) rs"

lemma contents_simps [simp]:
  "contents [] = []" "contents (a @ b) = contents a @ contents b" "contents (stored_from i k rs) = rs" "contents (stored s) = sg_records s"
proof -
  show s: "contents (stored_from i k rs) = rs" for i k rs
    by (induction rs arbitrary: k) (simp_all add: contents_def stored_from_Cons)
  show "contents (stored s) = sg_records s" by (simp add: stored_def s)
qed (simp_all add: contents_def)

lemma history_simps [simp]: "history [] = []" "history (a @ b) = history a @ history b" "history (s # segs) = sg_records s @ history segs"
  by (simp_all add: history_def)

lemma is_segment_name_segment [simp]: "is_segment_name (segment_name s)"
  by (simp add: is_segment_name_def segment_name_def segment_id_name)

lemma holds_file:
  assumes "holds d segs" and "s \<in> set segs"
  shows "file_bytes d (segment_name s) = segment_text s"
proof -
  have "(segment_name s, segment_text s) \<in> set (filter (\<lambda>e. is_segment_name (fst e)) (dk_files d))"
    using assms by (auto simp: holds_def layout_def)
  then have "(segment_name s, segment_text s) \<in> set (dk_files d)" by simp
  moreover have "distinct (map fst (dk_files d))" using assms(1) om_inv_distinct by (auto simp: holds_def)
  ultimately show ?thesis by (simp add: file_bytes_def map_of_is_SomeI)
qed

lemma io_succeeds [simp]: "dk_plan d = [] \<Longrightarrow> io_call d = (True, d)" "dk_plan d = [] \<Longrightarrow> next_outcome d = (Succeeds, d)"
  by (simp_all add: io_call_def next_outcome_def)

lemma list_segments_holds:
  assumes "holds d segs" and "dk_plan d = []"
  shows "list_segments directory d = (Inr (map segment_name segs), d)"
proof -
  have "filter (\<lambda>n. segment_id_from_name n \<noteq> None) (map fst (dk_files d)) =
      map fst (filter (\<lambda>e. is_segment_name (fst e)) (dk_files d))"
    by (simp add: filter_map comp_def is_segment_name_def)
  then show ?thesis using assms by (simp add: list_segments_def holds_def layout_def comp_def)
qed

section \<open>Reading intact segments\<close>

definition damage :: "recovery_report \<Rightarrow> bool \<times> u64 \<times> u64 \<times> reason list" where
  "damage r = (rr_truncated r, rr_segments_rejected r, rr_records_discarded r, rr_reasons r)"

lemma clean_damage: "damage r = damage r' \<Longrightarrow> clean r = clean r'"
  by (simp add: damage_def clean_def)

lemma clean_empty [simp]: "clean empty_recovery"
  by (simp add: clean_def empty_recovery_def)

lemma finish_clean: "clean r \<Longrightarrow> finish_recovery r = r"
  by (simp add: finish_recovery_def)

lemma read_segments_intact:
  assumes "dk_plan d = []" and "\<forall>s \<in> set segs. segment_ok s \<and> sg_closed s \<and> file_bytes d (segment_name s) = segment_text s"
  shows "\<exists>report'. damage report' = damage report \<and>
    read_segments directory (map segment_name segs @ ns) d records report =
      read_segments directory ns d (records @ concat (map stored segs)) report'"
  using assms(2)
proof (induction segs arbitrary: records report)
  case (Cons s segs)
  define report1 where "report1 = (report\<lparr>rr_segments_scanned := rr_segments_scanned report + 1\<rparr>)
     \<lparr>rr_records_read := rr_records_read report + word_of_nat (length (sg_records s)),
      rr_bytes_read := rr_bytes_read report + word_of_nat (length (segment_text s)),
      rr_segments_accepted := rr_segments_accepted report + 1\<rparr>"
  have "read_segments directory (map segment_name (s # segs) @ ns) d records report =
      read_segments directory (map segment_name segs @ ns) d (records @ stored s) report1"
    using Cons.prems read_segment_closed [of s] by (simp add: assms(1) report1_def)
  moreover obtain report' where "damage report' = damage report1"
    "read_segments directory (map segment_name segs @ ns) d (records @ stored s) report1 =
      read_segments directory ns d ((records @ stored s) @ concat (map stored segs)) report'"
    using Cons.IH [of report1 "records @ stored s"] Cons.prems by auto
  ultimately show ?case by (auto simp: report1_def damage_def)
qed auto

lemma read_all_intact:
  assumes "holds d segs" and "dk_plan d = []" and "list_all sg_closed segs"
  shows "\<exists>report. read_all cfg d [] empty_recovery = (ok_status, concat (map stored segs), report, d) \<and> clean report"
proof -
  have "\<forall>s \<in> set segs. segment_ok s \<and> sg_closed s \<and> file_bytes d (segment_name s) = segment_text s"
    using assms(1,3) holds_file [OF assms(1)] by (auto simp: holds_def list_all_iff)
  from read_segments_intact [OF assms(2) this, of empty_recovery "sc_directory cfg" "[]" "[]"]
  obtain report where r: "damage report = damage empty_recovery"
    "read_segments (sc_directory cfg) (map segment_name segs) d [] empty_recovery = (ok_status, concat (map stored segs), report, d)"
    by auto
  moreover have "clean report" using clean_damage [OF r(1)] by simp
  ultimately show ?thesis
    by (simp add: read_all_def list_segments_holds [OF assms(1,2)] finish_clean)
qed

lemma contents_concat: "contents (concat (map stored segs)) = history segs"
  by (induction segs) simp_all

section \<open>Changing one file\<close>

definition put_file :: "string \<Rightarrow> string \<Rightarrow> disk \<Rightarrow> disk" where
  "put_file n b d = d\<lparr>dk_files := om_set n b (dk_files d)\<rparr>"

lemma om_set_twice [simp]: "om_inv m \<Longrightarrow> om_set k a (om_set k b m) = om_set k a m"
  by (induction k b m rule: om_set.induct) (auto simp: om_inv_Cons)

lemma put_file_simps [simp]:
  "dk_plan (put_file n b d) = dk_plan d" "dk_root (put_file n b d) = dk_root d"
  "om_inv (dk_files d) \<Longrightarrow> om_inv (dk_files (put_file n b d))"
  "om_inv (dk_files d) \<Longrightarrow> put_file n a (put_file n b d) = put_file n a d"
  "om_inv (dk_files d) \<Longrightarrow> file_bytes (put_file n b d) n = b"
  by (simp_all add: put_file_def om_inv_set file_bytes_def om_find_set)

lemma fwrite_succeeds: "dk_plan d = [] \<Longrightarrow> fwrite n data d = (length data, put_file n (file_bytes d n @ data) d)"
  by (simp add: fwrite_def put_file_def)

lemma fopen_succeeds: "dk_plan d = [] \<Longrightarrow> fopen_wb n d = (True, put_file n [] d)"
  by (simp add: fopen_wb_def put_file_def)

lemma flush_succeeds: "dk_plan d = [] \<Longrightarrow> durable_flush (Some n) d = (ok_status, d)"
  by (simp add: durable_flush_def)

lemma filter_om_set:
  "om_inv m \<Longrightarrow> P k \<Longrightarrow> filter (\<lambda>e. P (fst e)) (om_set k v m) = om_set k v (filter (\<lambda>e. P (fst e)) m)"
proof (induction m)
  case (Cons e m)
  obtain j w where e: "e = (j, w)" by (cases e)
  have s: "om_set k v (filter (\<lambda>e. P (fst e)) m) = (k, v) # filter (\<lambda>e. P (fst e)) m" if "k < j"
    using Cons.prems(1) that by (cases "filter (\<lambda>e. P (fst e)) m")
      (auto simp: e om_inv_Cons dest!: filter_eq_ConsD)
  show ?case using Cons s by (auto simp: e om_inv_Cons)
qed simp

lemma om_set_end: "\<forall>e \<in> set m. fst e < k \<Longrightarrow> om_set k v m = m @ [(k, v)]"
  by (induction m) auto

lemma om_set_last: "\<forall>e \<in> set m. fst e < k \<Longrightarrow> om_set k v (m @ [(k, w)]) = m @ [(k, v)]"
  by (induction m) auto

lemma holds_new:
  assumes "holds d segs" and "\<forall>s \<in> set segs. sg_id s < sg_id sg" and "segment_ok sg"
  shows "holds (put_file (segment_name sg) (segment_text sg) d) (segs @ [sg])"
proof -
  have "\<forall>e \<in> set (layout segs). fst e < segment_name sg"
    using assms(2) segment_name_order by (auto simp: layout_def segment_name_def)
  then show ?thesis
    using assms by (simp add: holds_def filter_om_set [of _ is_segment_name] put_file_def om_inv_set om_set_end sorted_wrt_append)
      (simp add: layout_def)
qed

lemma holds_last:
  assumes "holds d (segs @ [sg])" and "sg_id sg' = sg_id sg" and "segment_ok sg'"
  shows "holds (put_file (segment_name sg) (segment_text sg') d) (segs @ [sg'])"
proof -
  have "\<forall>e \<in> set (layout segs). fst e < segment_name sg"
    using assms(1) segment_name_order by (auto simp: holds_def layout_def segment_name_def sorted_wrt_append)
  moreover have "layout (segs @ [sg]) = layout segs @ [(segment_name sg, segment_text sg)]"
    "layout (segs @ [sg']) = layout segs @ [(segment_name sg, segment_text sg')]"
    using assms(2) by (simp_all add: layout_def segment_name_def)
  ultimately show ?thesis
    using assms by (simp add: holds_def filter_om_set [of _ is_segment_name] put_file_def om_inv_set om_set_last sorted_wrt_append)
qed

section \<open>The writer keeps the files and its counters in step\<close>

definition tracks :: "store_writer \<Rightarrow> segment \<Rightarrow> bool" where
  "tracks w s \<longleftrightarrow> \<not> sg_closed s \<and> wr_file w = Some (segment_name s) \<and> sg_id s = wr_segment_id w \<and>
     wr_segment_records w = word_of_nat (length (sg_records s)) \<and>
     wr_segment_payload_bytes w = word_of_nat (payload_total (sg_records s)) \<and>
     wr_segment_digest w = fold_digest (sg_records s) \<and> wr_segment_bytes w = word_of_nat (length (segment_text s))"

definition writes :: "writer_state \<Rightarrow> segment list \<Rightarrow> bool" where
  "writes st segs \<longleftrightarrow> holds (snd st) segs \<and> dk_plan (snd st) = [] \<and>
     (if wr_file (fst st) = None then list_all sg_closed segs \<and> (\<forall>s \<in> set segs. sg_id s < wr_segment_id (fst st))
      else \<exists>prev s. segs = prev @ [s] \<and> list_all sg_closed prev \<and> tracks (fst st) s)"

lemma writesE:
  assumes "writes (w, d) segs" and "wr_file w \<noteq> None"
  obtains prev s where "segs = prev @ [s]" "list_all sg_closed prev" "tracks w s" "holds d (prev @ [s])" "dk_plan d = []"
    "file_bytes d (segment_name s) = segment_text s" "om_inv (dk_files d)"
proof -
  from assms obtain prev s where a: "segs = prev @ [s]" "list_all sg_closed prev" "tracks w s" "holds d (prev @ [s])" "dk_plan d = []"
    by (auto simp: writes_def split: if_splits)
  moreover have "file_bytes d (segment_name s) = segment_text s" by (rule holds_file [OF a(4)]) simp
  moreover have "om_inv (dk_files d)" using a(4) by (simp add: holds_def)
  ultimately show thesis by (rule that)
qed

lemma open_segment_run:
  assumes "writes (w, d) segs" and "wr_file w = None"
  shows "\<exists>w' d'. open_segment now (w, d) = (ok_status, w', d') \<and>
    writes (w', d') (segs @ [\<lparr>sg_id = wr_segment_id w, sg_now = now, sg_records = [], sg_closed = False\<rparr>]) \<and>
    wr_file w' \<noteq> None \<and> wr_segment_id w' = wr_segment_id w \<and> wr_config w' = wr_config w \<and> wr_closed w' = wr_closed w \<and>
    wr_total_bytes w' = wr_total_bytes w"
proof -
  let ?s = "\<lparr>sg_id = wr_segment_id w, sg_now = now, sg_records = [], sg_closed = False\<rparr>"
  have a: "holds d segs" "dk_plan d = []" "list_all sg_closed segs" "\<forall>s \<in> set segs. sg_id s < wr_segment_id w"
    "om_inv (dk_files d)"
    using assms by (auto simp: writes_def holds_def)
  have t: "segment_text ?s = segment_header (wr_segment_id w) now" "segment_name ?s = segment_file_name (wr_segment_id w)"
    by (simp_all add: segment_text_def segment_name_def)
  have "segment_ok ?s" by (simp add: segment_ok_def)
  then have h: "holds (put_file (segment_name ?s) (segment_text ?s) d) (segs @ [?s])"
    using a(1,4) by (intro holds_new) simp_all
  show ?thesis
    using a h by (simp add: open_segment_def Let_def fopen_succeeds fwrite_succeeds t writes_def tracks_def
        payload_total_def fold_digest_def kSegmentHeaderBytes_def)
qed

lemma close_segment_run:
  assumes "writes (w, d) segs" and "wr_file w \<noteq> None"
  shows "\<exists>segs' w' d'. close_segment (w, d) = (ok_status, w', d') \<and> holds d' segs' \<and> dk_plan d' = [] \<and>
    list_all sg_closed segs' \<and> history segs' = history segs \<and> (\<forall>s \<in> set segs'. sg_id s \<le> wr_segment_id w) \<and>
    wr_file w' \<noteq> None \<and> wr_segment_id w' = wr_segment_id w \<and> wr_config w' = wr_config w \<and> wr_closed w' = wr_closed w \<and>
    wr_total_bytes w' = wr_total_bytes w + 40"
proof -
  from assms obtain prev s where a: "segs = prev @ [s]" "list_all sg_closed prev" "tracks w s" "holds d (prev @ [s])" "dk_plan d = []"
    "file_bytes d (segment_name s) = segment_text s" "om_inv (dk_files d)" by (rule writesE)
  let ?s = "s\<lparr>sg_closed := True\<rparr>"
  have t: "segment_text ?s = segment_text s @ footer_of (sg_records s)" using a(3) by (simp add: segment_text_def tracks_def)
  have f: "segment_footer (wr_segment_records w) (wr_segment_payload_bytes w) (wr_segment_digest w) = footer_of (sg_records s)"
    using a(3) by (simp add: tracks_def footer_of_def)
  have "segment_ok ?s" using a(4) by (simp add: holds_def segment_ok_def)
  then have h: "holds (put_file (segment_name s) (segment_text ?s) d) (prev @ [?s])" by (intro holds_last [OF a(4)]) simp_all
  have ids: "\<forall>x \<in> set (prev @ [?s]). sg_id x \<le> wr_segment_id w"
    using a(3,4) by (auto simp: tracks_def holds_def sorted_wrt_append)
  show ?thesis
    using a h ids by (intro exI [of _ "prev @ [?s]"])
      (auto simp: close_segment_def Let_def f fwrite_succeeds flush_succeeds t tracks_def footer_of_def kSegmentFooterBytes_def)
qed

lemma rotate_run:
  assumes "writes (w, d) segs" and "wr_file w \<noteq> None" and "wr_segment_id w < 0xFFFFFFFF"
  shows "\<exists>segs' w' d'. rotate_segment now (w, d) = (ok_status, w', d') \<and> writes (w', d') segs' \<and> history segs' = history segs \<and>
    (\<exists>prev s. segs' = prev @ [s] \<and> sg_records s = []) \<and>
    wr_file w' \<noteq> None \<and> wr_segment_id w' = wr_segment_id w + 1 \<and> wr_config w' = wr_config w \<and> wr_closed w' = wr_closed w \<and>
    wr_total_bytes w' = wr_total_bytes w + 40"
proof -
  from close_segment_run [OF assms(1,2)] obtain segs1 w1 d1 where c: "close_segment (w, d) = (ok_status, w1, d1)"
    "holds d1 segs1" "dk_plan d1 = []" "list_all sg_closed segs1" "history segs1 = history segs"
    "\<forall>s \<in> set segs1. sg_id s \<le> wr_segment_id w" "wr_segment_id w1 = wr_segment_id w" "wr_config w1 = wr_config w"
    "wr_closed w1 = wr_closed w" "wr_total_bytes w1 = wr_total_bytes w + 40" by blast
  let ?w = "w1\<lparr>wr_file := None, wr_segment_id := wr_segment_id w1 + 1\<rparr>"
  have "\<forall>s \<in> set segs1. sg_id s < wr_segment_id w + 1"
    using c(6) assms(3) by (auto simp: word_less_nat_alt word_le_nat_alt unat_word_ariths)
  then have "writes (?w, d1) segs1" using c by (simp add: writes_def)
  from open_segment_run [OF this, of now] obtain w' d' where o: "open_segment now (?w, d1) = (ok_status, w', d')"
    "writes (w', d') (segs1 @ [\<lparr>sg_id = wr_segment_id w + 1, sg_now = now, sg_records = [], sg_closed = False\<rparr>])"
    "wr_file w' \<noteq> None" "wr_segment_id w' = wr_segment_id w + 1" "wr_config w' = wr_config w" "wr_closed w' = wr_closed w"
    "wr_total_bytes w' = wr_total_bytes w + 40"
    using c(7-10) by auto
  then have "rotate_segment now (w, d) = (ok_status, w', d')"
    by (simp add: rotate_segment_def then_do_def c Let_def)
  then show ?thesis using o(2-7) c(5)
    by (intro exI [of _ "segs1 @ [\<lparr>sg_id = wr_segment_id w + 1, sg_now = now, sg_records = [], sg_closed = False\<rparr>]"]) auto
qed

lemma write_record_run:
  assumes "writes (w, d) segs" and "wr_file w \<noteq> None" and "payload_ok (t, p)" and "segs = prev @ [s]"
    and "length (sg_records s) + 1 < 2 ^ 32"
  shows "\<exists>segs' w' d'. write_record t p (w, d) = (ok_status, w', d') \<and> writes (w', d') segs' \<and>
    history segs' = history segs @ [(t, p)] \<and> wr_segment_id w' = wr_segment_id w \<and> wr_config w' = wr_config w \<and>
    wr_closed w' = wr_closed w \<and> (\<exists>s'. segs' = prev @ [s'] \<and> sg_records s' = sg_records s @ [(t, p)])"
proof -
  from assms(1,2) obtain prev' s1 where a0: "segs = prev' @ [s1]" "list_all sg_closed prev'" "tracks w s1" "holds d (prev' @ [s1])" "dk_plan d = []"
    "file_bytes d (segment_name s1) = segment_text s1" "om_inv (dk_files d)" by (rule writesE)
  then have e: "prev' = prev" "s1 = s" using assms(4) by simp_all
  note a = a0 [unfolded e]
  let ?s = "s\<lparr>sg_records := sg_records s @ [(t, p)]\<rparr>"
  have t: "segment_text ?s = segment_text s @ record_header t p @ p"
    using a(3) by (simp add: segment_text_def tracks_def frame_def)
  have "segment_ok ?s" using a(4) assms(3,5) by (simp add: holds_def segment_ok_def)
  then have h: "holds (put_file (segment_name s) (segment_text ?s) d) (prev @ [?s])" by (intro holds_last [OF a(4)]) simp_all
  have tr: "tracks (w\<lparr>wr_segment_digest := (wr_segment_digest w * kFnvPrime) XOR fnv1a64 p,
              wr_segment_records := wr_segment_records w + 1,
              wr_segment_bytes := wr_segment_bytes w + record_bytes_of p,
              wr_segment_payload_bytes := wr_segment_payload_bytes w + word_of_nat (length p),
              wr_total_bytes := wr_total_bytes w + record_bytes_of p,
              wr_total_records := wr_total_records w + 1\<rparr>) ?s"
    using a(3) by (simp add: tracks_def t segment_name_def payload_total_def fold_digest_def record_bytes_of_def kRecordHeaderBytes_def)
  have f: "wr_file w = Some (segment_name s)" using a(3) by (simp add: tracks_def)
  show ?thesis
    using a h tr unfolding write_record_def Let_def
    by (intro exI [of _ "prev @ [?s]"]) (auto simp: f fwrite_succeeds t writes_def)
qed

section \<open>Appending\<close>

text \<open>An append either adds its record to what the files hold or leaves the records as they are.\<close>

definition appended :: "store_writer \<Rightarrow> segment list \<Rightarrow> record_type \<times> string \<Rightarrow> status \<times> writer_state \<Rightarrow> bool" where
  "appended w segs r out \<longleftrightarrow> (\<exists>segs'. writes (snd out) segs' \<and>
     history segs' = history segs @ (if has_value (fst out) then [r] else []) \<and>
     wr_config (fst (snd out)) = wr_config w \<and> wr_closed (fst (snd out)) = wr_closed w \<and>
     unat (wr_segment_id (fst (snd out))) \<le> unat (wr_segment_id w) + 1)"

lemma last_records:
  assumes "writes (w, d) (prev @ [s])" and "wr_file w \<noteq> None"
  shows "unat (wr_segment_records w) = length (sg_records s)" and "length (sg_records s) < 2 ^ 32"
proof -
  obtain prev' s' where "prev @ [s] = prev' @ [s']" "tracks w s'" "holds d (prev' @ [s'])"
    by (rule writesE [OF assms], rule that)
  then have a: "tracks w s" "segment_ok s" by (simp_all add: holds_def)
  then show l: "length (sg_records s) < 2 ^ 32" by (simp add: segment_ok_def)
  show "unat (wr_segment_records w) = length (sg_records s)"
    using a(1) l by (simp add: tracks_def unat_of_nat take_bit_nat_eq_self)
qed

definition fits :: "store_writer \<Rightarrow> string \<Rightarrow> bool" where
  "fits w p \<longleftrightarrow> length p \<le> kMaxRecordPayloadBytes \<and> length p + 52 \<le> max_segment_bytes (sc_limits (wr_config w)) \<and>
     unat (wr_total_bytes w) + length p + 52 \<le> max_store_bytes (sc_limits (wr_config w)) \<and>
     max_store_bytes (sc_limits (wr_config w)) < 2 ^ 64"

lemma record_bytes_unat:
  "length p \<le> kMaxRecordPayloadBytes \<Longrightarrow> unat (record_bytes_of p) = length p + 12"
  "length p \<le> kMaxRecordPayloadBytes \<Longrightarrow> unat (record_bytes_of p + word_of_nat kSegmentFooterBytes) = length p + 52"
  by (simp_all add: record_bytes_of_def kRecordHeaderBytes_def kSegmentFooterBytes_def kMaxRecordPayloadBytes_def unat_word_ariths
      unat_of_nat take_bit_nat_eq_self)

lemma has_value_simps [simp]: "has_value (Inr v)" "\<not> has_value (fail c m x)"
  by (simp_all add: has_value_def fail_def)

lemma append_last_run:
  assumes "writes (w, d) (prev @ [s])" and "wr_file w \<noteq> None" and "length p \<le> kMaxRecordPayloadBytes"
    and "length (sg_records s) + 1 < 2 ^ 32"
  shows "\<exists>segs' w' d' r. append_last t p (w, d) = (r, w', d') \<and> writes (w', d') segs' \<and>
    history segs' = history (prev @ [s]) @ (if has_value r then [(t, p)] else []) \<and>
    wr_config w' = wr_config w \<and> wr_closed w' = wr_closed w \<and> wr_segment_id w' = wr_segment_id w \<and>
    (unat (wr_total_bytes w) + length p + 12 \<le> max_store_bytes (sc_limits (wr_config w)) \<and>
     max_store_bytes (sc_limits (wr_config w)) < 2 ^ 64 \<longrightarrow> r = ok_status)"
proof -
  have k: "payload_ok (t, p)" using assms(3) by (simp add: payload_ok_def)
  from write_record_run [OF assms(1,2) k refl assms(4)] obtain segs' w' d' where
    w: "write_record t p (w, d) = (ok_status, w', d')" "writes (w', d') segs'" "history segs' = history (prev @ [s]) @ [(t, p)]"
    "wr_segment_id w' = wr_segment_id w" "wr_config w' = wr_config w" "wr_closed w' = wr_closed w" by blast
  let ?fits = "unat (wr_total_bytes w) + unat (record_bytes_of p) < 2 ^ 64 \<and>
      unat (wr_total_bytes w + record_bytes_of p) \<le> max_store_bytes (sc_limits (wr_config w))"
  show ?thesis
  proof (cases ?fits)
    case True
    then have "append_last t p (w, d) = (ok_status, w', d')"
      using w(1) by (simp add: append_last_def checked_add_u64_spec)
    then show ?thesis using w(2-6) by auto
  next
    case False
    then obtain m x where f: "append_last t p (w, d) = (fail CapacityExceeded m x, w, d)"
      by (auto simp: append_last_def checked_add_u64_spec)
    have "unat (wr_total_bytes w + record_bytes_of p) = unat (wr_total_bytes w) + unat (record_bytes_of p)"
      if "unat (wr_total_bytes w) + unat (record_bytes_of p) < 2 ^ 64"
      using that by (simp add: unat_word_ariths)
    then have "\<not> (unat (wr_total_bytes w) + length p + 12 \<le> max_store_bytes (sc_limits (wr_config w)) \<and>
       max_store_bytes (sc_limits (wr_config w)) < 2 ^ 64)"
      using False record_bytes_unat(1) [OF assms(3)] by auto
    with f show ?thesis using assms(1) by (intro exI [of _ "prev @ [s]"]) auto
  qed
qed

lemma append_rest_run:
  assumes "writes (w, d) (prev @ [s])" and "wr_file w \<noteq> None" and "max_segment_records (sc_limits (wr_config w)) < 2 ^ 32"
    and "unat (wr_segment_id w) + 1 < 2 ^ 32"
  shows "\<exists>w' d' r. append_rest now t p (w, d) = (r, w', d') \<and> appended w (prev @ [s]) (t, p) (r, w', d') \<and> (fits w p \<longrightarrow> r = ok_status)"
proof (cases "length p \<le> kMaxRecordPayloadBytes \<and> unat (record_bytes_of p + word_of_nat kSegmentFooterBytes) \<le> max_segment_bytes (sc_limits (wr_config w))")
  case False
  then obtain m x where "append_rest now t p (w, d) = (fail CapacityExceeded m x, w, d)"
    by (cases "length p > kMaxRecordPayloadBytes") (simp_all add: append_rest_def Let_def)
  moreover have "\<not> fits w p" using False record_bytes_unat(2) [of p] by (auto simp: fits_def)
  ultimately show ?thesis using assms(1) by (auto simp: appended_def)
next
  case True
  note k = True [THEN conjunct1] and L = last_records [OF assms(1,2)]
  show ?thesis
  proof (cases "must_rotate w (record_bytes_of p)")
    case False
    have "length (sg_records s) + 1 < 2 ^ 32"
      using False L assms(3) by (auto simp: must_rotate_def unat_word_ariths word_unat_eq_iff)
    from append_last_run [OF assms(1,2) k this, of t] obtain segs' w' d' r where a: "append_last t p (w, d) = (r, w', d')"
      "writes (w', d') segs'" "history segs' = history (prev @ [s]) @ (if has_value r then [(t, p)] else [])"
      "wr_config w' = wr_config w" "wr_closed w' = wr_closed w" "wr_segment_id w' = wr_segment_id w" 
      "unat (wr_total_bytes w) + length p + 12 \<le> max_store_bytes (sc_limits (wr_config w)) \<and>
       max_store_bytes (sc_limits (wr_config w)) < 2 ^ 64 \<longrightarrow> r = ok_status" by blast
    moreover have "append_rest now t p (w, d) = (r, w', d')"
      using True False a(1) by (simp add: append_rest_def Let_def then_do_def)
    ultimately show ?thesis by (auto simp: appended_def fits_def)
  next
    case rotates: True
    have "wr_segment_id w < 0xFFFFFFFF" using assms(4) by (simp add: word_less_nat_alt)
    from rotate_run [OF assms(1,2) this, of now] obtain segs1 w1 d1 prev1 s1 where
      r: "rotate_segment now (w, d) = (ok_status, w1, d1)" "writes (w1, d1) (prev1 @ [s1])" "history (prev1 @ [s1]) = history (prev @ [s])"
      "sg_records s1 = []" "wr_file w1 \<noteq> None" "wr_segment_id w1 = wr_segment_id w + 1" "wr_config w1 = wr_config w"
      "wr_closed w1 = wr_closed w" "wr_total_bytes w1 = wr_total_bytes w + 40" by blast
    from append_last_run [OF r(2,5) k, of t] r(4) obtain segs' w' d' out where a: "append_last t p (w1, d1) = (out, w', d')"
      "writes (w', d') segs'" "history segs' = history (prev1 @ [s1]) @ (if has_value out then [(t, p)] else [])"
      "wr_config w' = wr_config w1" "wr_closed w' = wr_closed w1" "wr_segment_id w' = wr_segment_id w1"
      "unat (wr_total_bytes w1) + length p + 12 \<le> max_store_bytes (sc_limits (wr_config w1)) \<and>
       max_store_bytes (sc_limits (wr_config w1)) < 2 ^ 64 \<longrightarrow> out = ok_status" by auto
    have "append_rest now t p (w, d) = (out, w', d')"
      using True rotates a(1) r(1) by (simp add: append_rest_def Let_def then_do_def)
    moreover have "unat (wr_segment_id w + 1) = unat (wr_segment_id w) + 1" using assms(4) by (simp add: unat_word_ariths)
    moreover have "fits w p \<longrightarrow> out = ok_status"
      using a(7) r(7,9) by (auto simp: fits_def unat_word_ariths)
    ultimately show ?thesis using a r by (auto simp: appended_def)
  qed
qed

lemma append_run:
  assumes "writes (w, d) segs" and "\<not> wr_closed w" and "max_segment_records (sc_limits (wr_config w)) < 2 ^ 32"
    and "unat (wr_segment_id w) + 1 < 2 ^ 32"
  shows "\<exists>w' d' r. append_record now t p (w, d) = (r, w', d') \<and> appended w segs (t, p) (r, w', d') \<and> (fits w p \<longrightarrow> r = ok_status)"
proof (cases "wr_file w = None")
  case True
  from open_segment_run [OF assms(1) True, of now] obtain w1 d1 s1 where o: "open_segment now (w, d) = (ok_status, w1, d1)"
    "writes (w1, d1) (segs @ [s1])" "sg_records s1 = []" "wr_file w1 \<noteq> None" "wr_segment_id w1 = wr_segment_id w"
    "wr_config w1 = wr_config w" "wr_closed w1 = wr_closed w" "wr_total_bytes w1 = wr_total_bytes w"
    by (metis segment.select_convs(3))
  from append_rest_run [OF o(2,4), of now t p] assms(3,4) o(5,6) obtain w' d' r where a: "append_rest now t p (w1, d1) = (r, w', d')"
    "appended w1 (segs @ [s1]) (t, p) (r, w', d')" "fits w1 p \<longrightarrow> r = ok_status" by auto
  have "append_record now t p (w, d) = (r, w', d')"
    using True assms(2) o(1) a(1) by (simp add: append_record_def then_do_def)
  moreover have "appended w segs (t, p) (r, w', d')" using a(2) o by (simp add: appended_def)
  moreover have "fits w1 p = fits w p" using o(6,8) by (simp add: fits_def)
  ultimately show ?thesis using a(3) by blast
next
  case False
  obtain prev s where s: "segs = prev @ [s]" by (rule writesE [OF assms(1) False], rule that)
  have "append_record now t p (w, d) = append_rest now t p (w, d)"
    using False assms(2) unfolding append_record_def then_do_def fst_conv by (simp del: not_None_eq)
  then show ?thesis using append_rest_run [OF assms(1) [unfolded s] False assms(3,4), of now t p] by (simp only: s)
qed

section \<open>A session of the writer\<close>

text \<open>The records a sequence of appends accepts, and the state it leaves.\<close>

fun append_each :: "(nanos \<times> record_type \<times> string) list \<Rightarrow> writer_state \<Rightarrow> (record_type \<times> string) list \<times> writer_state" where
  "append_each [] st = ([], st)"
| "append_each ((now, t, p) # ops) st =
     (case append_record now t p st of (r, st) \<Rightarrow>
      case append_each ops st of (accepted, st) \<Rightarrow> (if has_value r then (t, p) # accepted else accepted, st))"

lemma append_each_run:
  assumes "writes st segs" and "\<not> wr_closed (fst st)" and "max_segment_records (sc_limits (wr_config (fst st))) < 2 ^ 32"
    and "unat (wr_segment_id (fst st)) + length ops < 2 ^ 32"
  shows "\<exists>segs'. writes (snd (append_each ops st)) segs' \<and> history segs' = history segs @ fst (append_each ops st) \<and>
    \<not> wr_closed (fst (snd (append_each ops st)))"
  using assms
proof (induction ops arbitrary: st segs)
  case (Cons op ops)
  obtain now t p where op: "op = (now, t, p)" by (cases op)
  obtain w d where st: "st = (w, d)" by (cases st)
  from append_run [of w d segs now t p] Cons.prems obtain w' d' r segs1 where a: "append_record now t p (w, d) = (r, w', d')"
    "writes (w', d') segs1" "history segs1 = history segs @ (if has_value r then [(t, p)] else [])" "wr_config w' = wr_config w"
    "wr_closed w' = wr_closed w" "unat (wr_segment_id w') \<le> unat (wr_segment_id w) + 1"
    by (auto simp: st appended_def)
  from Cons.IH [OF a(2)] Cons.prems a(4-6) obtain segs' where "writes (snd (append_each ops (w', d'))) segs'"
    "history segs' = history segs1 @ fst (append_each ops (w', d'))" "\<not> wr_closed (fst (snd (append_each ops (w', d'))))"
    by (auto simp: st)
  with a(1,3) show ?case by (auto simp: op st split: prod.splits)
qed auto

lemma close_run:
  assumes "writes (w, d) segs" and "\<not> wr_closed w"
  shows "\<exists>w' d' segs'. close_writer (w, d) = (ok_status, w', d') \<and> holds d' segs' \<and> dk_plan d' = [] \<and> list_all sg_closed segs' \<and>
    history segs' = history segs \<and> (\<forall>s \<in> set segs'. sg_id s \<le> wr_segment_id w)"
proof (cases "wr_file w = None")
  case True
  then show ?thesis using assms by (auto simp: close_writer_def writes_def less_imp_le)
next
  case False
  from close_segment_run [OF assms(1) False] obtain segs' w' d' where "close_segment (w, d) = (ok_status, w', d')" "holds d' segs'"
    "dk_plan d' = []" "list_all sg_closed segs'" "history segs' = history segs" "\<forall>s \<in> set segs'. sg_id s \<le> wr_segment_id w" by blast
  then show ?thesis using False assms(2) by (auto simp: close_writer_def then_do_def Let_def)
qed

section \<open>Opening a store\<close>

lemma filter_om_set_other:
  "\<not> P k \<Longrightarrow> filter (\<lambda>e. P (fst e)) (om_set k v m) = filter (\<lambda>e. P (fst e)) m"
  by (induction m) auto

lemma manifest_not_segment [simp]: "\<not> is_segment_name manifest_name"
  by (simp add: is_segment_name_def segment_id_from_name_def manifest_name_def)

lemma holds_manifest: "holds d segs \<Longrightarrow> holds (put_file manifest_name b d) segs"
  by (simp add: holds_def put_file_def om_inv_set filter_om_set_other)

lemma prepare_manifest_run:
  assumes "holds d segs" and "dk_plan d = []" and "prepare_manifest cfg now d = (r, d')"
  shows "holds d' segs \<and> dk_plan d' = []"
proof (cases "om_find (dk_files d) manifest_name = None")
  case True
  have "om_inv (dk_files d)" using assms(1) by (simp add: holds_def)
  then have "d' = put_file manifest_name (manifest_text now (sc_policy_digest cfg)) d"
    using True assms(2,3) by (auto simp: prepare_manifest_def write_manifest_def Let_def fopen_succeeds fwrite_succeeds flush_succeeds
        split: if_splits)
  then show ?thesis using assms(1,2) by (simp add: holds_manifest)
next
  case False
  then have "d' = d" using assms(2,3) by (auto simp: prepare_manifest_def open_reader_def Let_def split: if_splits prod.splits sum.splits)
  then show ?thesis using assms by simp
qed

lemma next_segment_above:
  assumes "sorted_wrt (<) (map sg_id segs)" and "\<forall>s \<in> set segs. sg_id s < 0xFFFFFFFF" and "s \<in> set segs"
  shows "sg_id s < next_segment (map segment_name segs)"
proof -
  have n: "segs \<noteq> []" using assms(3) by auto
  have l: "sg_id s \<le> sg_id (last segs)"
    using assms(1,3) n by (induction segs) (auto simp: less_imp_le)
  have m: "sg_id (last segs) < 0xFFFFFFFF" using assms(2) n by simp
  have "next_segment (map segment_name segs) = sg_id (last segs) + 1"
    using n m by (simp add: next_segment_def last_map segment_name_def segment_id_name)
  moreover have "sg_id (last segs) < sg_id (last segs) + 1"
    using m by (simp add: word_less_nat_alt unat_word_ariths)
  ultimately show ?thesis using l by simp
qed

lemma next_segment_small:
  assumes "\<forall>s \<in> set segs. unat (sg_id s) + k < 2 ^ 32" and "k + 1 < 2 ^ 32" 
  shows "unat (next_segment (map segment_name segs)) \<le> (if segs = [] then 1 else unat (sg_id (last segs)) + 1)"
proof (cases "segs = []")
  case False
  then show ?thesis
    by (auto simp: next_segment_def last_map segment_name_def segment_id_name unat_word_ariths)
qed (simp add: next_segment_def)

lemma open_writer_run:
  assumes "holds d segs" and "dk_plan d = []" and "list_all sg_closed segs" and "open_writer cfg now d = (Inr w, d')"
    and "\<forall>s \<in> set segs. unat (sg_id s) + k + 1 < 2 ^ 32" and "k + 1 < 2 ^ 32"
  shows "writes (w, d') segs" and "wr_config w = cfg" "\<not> wr_closed w" "wr_total_bytes w = 0" "unat (wr_segment_id w) + k < 2 ^ 32"
proof -
  have root: "dk_root d = DirectoryRoot" using assms(1) by (simp add: holds_def)
  obtain d1 where m: "prepare_manifest cfg now d = (ok_status, d1)" and w: "w = fresh_writer cfg (next_segment (map segment_name segs))" "d' = d1"
  proof -
    obtain r d1 where p: "prepare_manifest cfg now d = (r, d1)" by fastforce
    have h: "holds d1 segs" "dk_plan d1 = []" using prepare_manifest_run [OF assms(1,2) p] by simp_all
    show thesis
    proof (rule that)
      show "prepare_manifest cfg now d = (ok_status, d1)"
        using assms(4) p by (auto simp: open_writer_def prepare_directory_def root fail_def split: if_splits sum.splits)
      show "w = fresh_writer cfg (next_segment (map segment_name segs))" "d' = d1"
        using assms(4) p list_segments_holds [OF h] by (auto simp: open_writer_def prepare_directory_def root fail_def split: if_splits sum.splits)
    qed
  qed
  have h: "holds d' segs" "dk_plan d' = []" using prepare_manifest_run [OF assms(1,2) m] w(2) by simp_all
  have "\<forall>s \<in> set segs. sg_id s < 0xFFFFFFFF" using assms(5) by (auto simp: word_less_nat_alt)
  then have "\<forall>s \<in> set segs. sg_id s < wr_segment_id w"
    using next_segment_above [of segs] assms(1) by (simp add: w fresh_writer_def holds_def)
  then show "writes (w, d') segs" using h assms(3) by (simp add: writes_def w fresh_writer_def)
  show "wr_config w = cfg" "\<not> wr_closed w" "wr_total_bytes w = 0" by (simp_all add: w fresh_writer_def)
  have "\<forall>s \<in> set segs. unat (sg_id s) + k < 2 ^ 32" using assms(5) by auto
  from next_segment_small [OF this assms(6)] show "unat (wr_segment_id w) + k < 2 ^ 32"
    using assms(5) [rule_format, of "last segs"] assms(6) by (cases "segs = []") (auto simp: w fresh_writer_def)
qed

text \<open>C30: What the store accepts is what a later reader gets: on a disk whose calls succeed, after opening a store whose segments are intact, any
  sequence of appends (accepted or refused for their size) and a close, reading the
  directory returns exactly the earlier records followed by the accepted ones, in order, and the
  recovery report is clean; the first append is accepted whenever the record fits the configured limits.\<close>

theorem store_roundtrip:
  assumes "holds d0 segs" and "dk_plan d0 = []" and "list_all sg_closed segs" and "open_writer cfg now d0 = (Inr w, d)"
    and "append_each ops (w, d) = (accepted, w1, d1)" and "close_writer (w1, d1) = (closing, w2, d2)"
    and "max_segment_records (sc_limits cfg) < 2 ^ 32"
    and "\<forall>s \<in> set segs. unat (sg_id s) + length ops + 2 < 2 ^ 32" and "length ops + 2 < 2 ^ 32"
  shows "closing = ok_status \<and>
    (\<exists>rs report. read_all cfg d2 [] empty_recovery = (ok_status, rs, report, d2) \<and> contents rs = history segs @ accepted \<and> clean report) \<and>
    (\<forall>time t p. fits w p \<longrightarrow> fst (append_record time t p (w, d)) = ok_status)"
proof -
  note O = open_writer_run [OF assms(1-4), of "length ops + 1", simplified, OF assms(8,9) [simplified]]
  have m: "max_segment_records (sc_limits (wr_config w)) < 2 ^ 32" using O(2) assms(7) by simp
  have "unat (wr_segment_id (fst (w, d))) + length ops < 2 ^ 32" using O(5) by simp
  from append_each_run [OF O(1) _ _ this] O(3) m obtain segs' where a: "writes (w1, d1) segs'" "history segs' = history segs @ accepted" "\<not> wr_closed w1"
    by (auto simp: assms(5))
  from close_run [OF a(1,3)] assms(6) obtain segs2 where c: "closing = ok_status" "holds d2 segs2" "dk_plan d2 = []"
    "list_all sg_closed segs2" "history segs2 = history segs'" by auto
  have "fst (append_record time t p (w, d)) = ok_status" if "fits w p" for time t p
  proof -
    have "unat (wr_segment_id w) + 1 < 2 ^ 32" using O(5) by simp
    from append_run [OF O(1,3) m this, of time t p] that show ?thesis by auto
  qed
  then show ?thesis using read_all_intact [OF c(2-4), of cfg] c(1,5) a(2) by (auto simp: contents_concat)
qed

section \<open>Reading a store with one changed segment\<close>

lemma keys_om_set_same: "om_inv m \<Longrightarrow> k \<in> fst ` set m \<Longrightarrow> map fst (om_set k v m) = map fst m"
proof (induction m)
  case (Cons e m)
  obtain j w where e: "e = (j, w)" by (cases e)
  have "\<not> k < j" using Cons.prems by (auto simp: e om_inv_Cons)
  then show ?case using Cons by (auto simp: e om_inv_Cons)
qed simp

lemma segment_name_inject: "segment_name a = segment_name b \<longleftrightarrow> sg_id a = sg_id b"
  by (metis option.inject segment_id_name segment_name_def)

lemma changed_names:
  assumes "holds d segs" and "s \<in> set segs" and "dk_plan d = []"
  shows "list_segments directory (put_file (segment_name s) b d) = (Inr (map segment_name segs), put_file (segment_name s) b d)"
proof -
  have "(segment_name s, segment_text s) \<in> set (filter (\<lambda>e. is_segment_name (fst e)) (dk_files d))"
    using assms by (auto simp: holds_def layout_def)
  then have "segment_name s \<in> fst ` set (dk_files d)" by force
  then have "map fst (dk_files (put_file (segment_name s) b d)) = map fst (dk_files d)"
    using assms(1) by (simp add: put_file_def keys_om_set_same holds_def)
  then show ?thesis
    using list_segments_holds [OF assms(1,3), of directory] assms by (simp add: list_segments_def holds_def)
qed

lemma changed_other:
  assumes "holds d (prev @ s # later)" and "q \<in> set prev"
  shows "file_bytes (put_file (segment_name s) b d) (segment_name q) = segment_text q"
proof -
  have "segment_name q \<noteq> segment_name s" using assms by (auto simp: segment_name_inject holds_def sorted_wrt_append)
  moreover have "file_bytes d (segment_name q) = segment_text q" by (rule holds_file [OF assms(1)]) (use assms(2) in simp)
  ultimately show ?thesis using assms(1) by (simp add: file_bytes_def put_file_def om_find_set holds_def)
qed

lemma read_all_changed:
  assumes "holds d (prev @ s # later)" and "dk_plan d = []" and "list_all sg_closed prev"
  shows "\<exists>report. damage report = damage empty_recovery \<and> read_all cfg (put_file (segment_name s) b d) [] empty_recovery =
    (case read_segment (segment_name s) b (concat (map stored prev)) report of (stop, records, report) \<Rightarrow>
       if stop then (ok_status, records, finish_recovery report, put_file (segment_name s) b d)
       else (case read_segments (sc_directory cfg) (map segment_name later) (put_file (segment_name s) b d) records report of
               (Inl e, records, report, d) \<Rightarrow> (Inl e, records, report, d)
             | (Inr _, records, report, d) \<Rightarrow> (ok_status, records, finish_recovery report, d)))"
proof -
  let ?d = "put_file (segment_name s) b d"
  have ok: "\<forall>q \<in> set prev. segment_ok q \<and> sg_closed q \<and> file_bytes ?d (segment_name q) = segment_text q"
    using assms changed_other [OF assms(1)] by (auto simp: holds_def list_all_iff)
  have p: "dk_plan ?d = []" using assms(2) by simp
  obtain report where r: "damage report = damage empty_recovery"
    "read_segments (sc_directory cfg) (map segment_name prev @ segment_name s # map segment_name later) ?d [] empty_recovery =
      read_segments (sc_directory cfg) (segment_name s # map segment_name later) ?d (concat (map stored prev)) report"
    using read_segments_intact [OF p ok, of empty_recovery "sc_directory cfg" "segment_name s # map segment_name later" "[]"] by auto
  have l: "list_segments (sc_directory cfg) ?d = (Inr (map segment_name prev @ segment_name s # map segment_name later), ?d)"
    using changed_names [OF assms(1) _ assms(2), of s] by simp
  have f: "file_bytes ?d (segment_name s) = b" using assms(1) by (simp add: holds_def)
  define report1 where "report1 = report\<lparr>rr_segments_scanned := rr_segments_scanned report + 1\<rparr>"
  have "damage report1 = damage empty_recovery" using r(1) by (simp add: report1_def damage_def)
  moreover have "io_call ?d = (True, ?d)" using p by simp
  then have "read_segments (sc_directory cfg) (segment_name s # map segment_name later) ?d (concat (map stored prev)) report =
      (case read_segment (segment_name s) b (concat (map stored prev)) report1 of (stop, records, report) \<Rightarrow>
         if stop then (ok_status, records, report, ?d) else read_segments (sc_directory cfg) (map segment_name later) ?d records report)"
    by (simp add: f report1_def)
  ultimately show ?thesis
    by (intro exI [of _ report1]) (simp add: read_all_def l r(2) split: prod.split)
qed

lemma finish_unclean: "\<not> clean r \<Longrightarrow> \<not> clean (finish_recovery r)"
  by (simp add: finish_recovery_def clean_def)

lemma read_all_stops:
  assumes "holds d (prev @ s # later)" and "dk_plan d = []" and "list_all sg_closed prev"
    and "\<And>records report. \<exists>report'. read_segment (segment_name s) b records report = (True, records @ found, report') \<and> \<not> clean report'"
  shows "\<exists>report. read_all cfg (put_file (segment_name s) b d) [] empty_recovery =
      (ok_status, concat (map stored prev) @ found, report, put_file (segment_name s) b d) \<and> \<not> clean report"
proof -
  obtain report where r: "read_all cfg (put_file (segment_name s) b d) [] empty_recovery =
    (case read_segment (segment_name s) b (concat (map stored prev)) report of (stop, records, report) \<Rightarrow>
       if stop then (ok_status, records, finish_recovery report, put_file (segment_name s) b d)
       else (case read_segments (sc_directory cfg) (map segment_name later) (put_file (segment_name s) b d) records report of
               (Inl e, records, report, d) \<Rightarrow> (Inl e, records, report, d)
             | (Inr _, records, report, d) \<Rightarrow> (ok_status, records, finish_recovery report, d)))"
    using read_all_changed [OF assms(1-3)] by blast
  obtain report' where "read_segment (segment_name s) b (concat (map stored prev)) report = (True, concat (map stored prev) @ found, report')"
    "\<not> clean report'" using assms(4) by blast
  with r show ?thesis by (auto simp: finish_unclean)
qed

lemma truncated_stops:
  assumes "sn_truncated s"
  shows "\<exists>report'. after_scan n k s = (True, sn_records s, report') \<and> \<not> clean report'"
  using assms by (simp add: after_scan_def conclude_segment_def Let_def clean_def note_recovery_def)

section \<open>Damage is detected\<close>

lemma crc_byte: "a \<noteq> b \<Longrightarrow> crc32c (pre @ a # post) \<noteq> crc32c (pre @ b # post)"
  by (simp add: crc32c_eq_ref) (simp add: crc32c_ref_def xor_cancel crc_foldl_inject crc_byte_ref_byte)

lemma byte_word_inject: "byte_word a = byte_word b \<longleftrightarrow> a = b"
proof
  assume "byte_word a = byte_word b"
  then have "unat (byte_word a) = unat (byte_word b)" by simp
  then have "byte_of a mod 256 = byte_of b mod 256" by (simp add: byte_word_def unat_of_nat take_bit_eq_mod)
  then have "(byte_of a :: nat) = byte_of b" by simp
  then show "a = b" using of_char_eq_iff by blast
qed simp

lemma crc_changed:
  assumes "i < length p" and "c \<noteq> p ! i"
  shows "crc_of (p[i := c]) \<noteq> crc_of p"
proof -
  have p: "p = take i p @ p ! i # drop (Suc i) p" using assms(1) by (rule id_take_nth_drop)
  have "p[i := c] = take i p @ c # drop (Suc i) p" using assms(1) by (rule upd_conv_take_nth_drop)
  then have "bytes_of (p[i := c]) = bytes_of (take i p) @ byte_word c # bytes_of (drop (Suc i) p)" by simp
  moreover have "bytes_of p = bytes_of (take i p) @ byte_word (p ! i) # bytes_of (drop (Suc i) p)" by (subst p) simp
  ultimately show ?thesis using crc_byte assms(2) by (simp add: byte_word_inject)
qed

lemma read_damaged:
  assumes "segment_ok sg" and "j < length (sg_records sg)" and "sg_records sg ! j = (t, p)" and "i < length p" and "c \<noteq> p ! i"
  shows "\<exists>report'. read_segment n (segment_header (sg_id sg) (sg_now sg) @ concat (map frame (take j (sg_records sg))) @
      record_header t p @ p[i := c] @ after) records report = (True, records @ stored_from (sg_id sg) 0 (take j (sg_records sg)), report')
    \<and> \<not> clean report'"
proof -
  let ?rs = "take j (sg_records sg)" and ?rest = "record_header t p @ p[i := c] @ after"
  let ?s = "new_scan records report (concat (map frame ?rs) @ ?rest)"
  have r: "sn_rest ?s = concat (map frame ?rs) @ ?rest" by (simp add: new_scan_def)
  have ok: "list_all payload_ok ?rs" using assms(1) by (auto simp: segment_ok_def list_all_iff dest: in_set_takeD)
  have pk: "payload_ok (t, p)" using assms(1-3) by (metis list_all_length segment_ok_def)
  note H = record_header_parts [OF pk]
  let ?t = "take_all (sg_id sg) ?rs ?rest ?s"
  have rest: "sn_rest ?t = ?rest" and recs: "sn_records ?t = records @ stored_from (sg_id sg) 0 ?rs"
    unfolding take_all_eq [OF r] by (simp_all add: new_scan_def)
  have h: "take kRecordHeaderBytes (sn_rest ?t) = record_header t p" "drop kRecordHeaderBytes (sn_rest ?t) = p[i := c] @ after"
    "\<not> length (sn_rest ?t) < kRecordHeaderBytes" unfolding rest by (simp_all add: kRecordHeaderBytes_def)
  have "\<not> length p > kMaxRecordPayloadBytes" using pk by (simp add: payload_ok_def)
  then have "scan_record n (sg_id sg) (record_header t p) (p[i := c] @ after) ?t = (False, damaged n '' record crc'' (?t\<lparr>sn_rest := after\<rparr>))"
    using crc_changed [OF assms(4,5)] by (simp add: scan_record_def Let_def H read_exact_append del: map_update)
  then have "scan_records n (sg_id sg) ?t = damaged n '' record crc'' (?t\<lparr>sn_rest := after\<rparr>)"
    by (subst scan_records.simps) (simp only: h H(4) Let_def if_False prod.case)
  then have s: "scan_records n (sg_id sg) ?s = damaged n '' record crc'' (?t\<lparr>sn_rest := after\<rparr>)"
    using scan_all [OF ok r] by simp
  have "sn_truncated (damaged n '' record crc'' (?t\<lparr>sn_rest := after\<rparr>))"
    "sn_records (damaged n '' record crc'' (?t\<lparr>sn_rest := after\<rparr>)) = records @ stored_from (sg_id sg) 0 ?rs"
    by (simp_all add: damaged_def recs)
  then show ?thesis
    using truncated_stops [of "damaged n '' record crc'' (?t\<lparr>sn_rest := after\<rparr>)" n] by (simp only: read_segment_body Let_def s)
qed

text \<open>C12: Damage to a stored payload is detected wherever it is: when one byte of the payload of a record changes in
  any segment, reading returns exactly the records before the damaged one, never the damaged one
  or anything after it, and the recovery report is not clean.\<close>

theorem store_detects_damage:
  assumes "holds d (prev @ s # later)" and "dk_plan d = []" and "list_all sg_closed prev"
    and "j < length (sg_records s)" and "sg_records s ! j = (t, p)" and "i < length p" and "c \<noteq> p ! i"
    and "d' = put_file (segment_name s) ((segment_text s)[kSegmentHeaderBytes + frames_length (take j (sg_records s)) + kRecordHeaderBytes + i := c]) d"
  shows "\<exists>rs report. read_all cfg d' [] empty_recovery = (ok_status, rs, report, d') \<and>
    contents rs = history prev @ take j (sg_records s) \<and> \<not> clean report"
proof -
  let ?rs = "sg_records s"
  let ?after = "concat (map frame (drop (Suc j) ?rs)) @ (if sg_closed s then footer_of ?rs else [])"
  have "?rs = take j ?rs @ (t, p) # drop (Suc j) ?rs" using assms(4,5) by (metis id_take_nth_drop)
  then have "concat (map frame ?rs) = concat (map frame (take j ?rs)) @ frame (t, p) @ concat (map frame (drop (Suc j) ?rs))"
    by (metis concat.simps(2) concat_append list.simps(9) map_append)
  then have "segment_text s = (segment_header (sg_id s) (sg_now s) @ concat (map frame (take j ?rs)) @ record_header t p) @ p @ ?after"
    by (simp add: segment_text_def frame_def)
  then have b: "(segment_text s)[kSegmentHeaderBytes + frames_length (take j ?rs) + kRecordHeaderBytes + i := c] =
      segment_header (sg_id s) (sg_now s) @ concat (map frame (take j ?rs)) @ record_header t p @ p[i := c] @ ?after"
    using assms(6) by (simp only: list_update_append frames_length_def)
      (simp add: kSegmentHeaderBytes_def kRecordHeaderBytes_def list_update_append)
  have "segment_ok s" using assms(1) by (simp add: holds_def)
  then have R: "\<exists>report'. read_segment (segment_name s) (segment_header (sg_id s) (sg_now s) @ concat (map frame (take j ?rs)) @
      record_header t p @ p[i := c] @ ?after) records report = (True, records @ stored_from (sg_id s) 0 (take j ?rs), report') \<and> \<not> clean report'"
    for records report by (rule read_damaged [OF _ assms(4-7)])
  from read_all_stops [OF assms(1-3), where b = "(segment_text s)[kSegmentHeaderBytes + frames_length (take j ?rs) + kRecordHeaderBytes + i := c]",
      unfolded b, OF R, of cfg]
  obtain report where "read_all cfg d' [] empty_recovery = (ok_status, concat (map stored prev) @ stored_from (sg_id s) 0 (take j ?rs), report, d')"
    "\<not> clean report" unfolding assms(8) b by blast
  then show ?thesis by (simp add: contents_concat)
qed

section \<open>A crash\<close>

text \<open>How many records lie completely within the first \<open>k\<close> bytes of a segment file.\<close>

definition complete_records :: "nat \<Rightarrow> (record_type \<times> string) list \<Rightarrow> nat \<Rightarrow> bool" where
  "complete_records k rs j \<longleftrightarrow> j \<le> length rs \<and> (j = 0 \<or> kSegmentHeaderBytes + frames_length (take j rs) \<le> k) \<and>
     (j < length rs \<longrightarrow> k < kSegmentHeaderBytes + frames_length (take (Suc j) rs))"

lemma conclude_clean:
  "after_scan n k s = (stop, records, report) \<Longrightarrow> records = sn_records s \<and> (clean report \<longrightarrow> \<not> sn_truncated s) \<and> (stop \<longrightarrow> \<not> clean report)"
  by (auto simp: after_scan_def conclude_segment_def Let_def clean_def note_recovery_def damaged_def split: if_splits)

lemma read_segment_cut:
  assumes "segment_ok sg"
  shows "\<exists>j stop report'. complete_records k (sg_records sg) j \<and>
    read_segment n (take k (segment_text sg)) records report = (stop, records @ stored_from (sg_id sg) 0 (take j (sg_records sg)), report') \<and>
    (clean report' \<longrightarrow> j = length (sg_records sg) \<or> j = 0) \<and> (stop \<longrightarrow> \<not> clean report')"
proof (cases "k < kSegmentHeaderBytes")
  case True
  then have "read_exact kSegmentHeaderBytes (take k (segment_text sg)) = (None, [])"
    by (simp add: read_exact_def kSegmentHeaderBytes_def)
  then have "read_segment n (take k (segment_text sg)) records report = (True, records, reject_segment SegmentTruncated n report)"
    by (simp add: read_segment_def)
  moreover have "\<not> clean (reject_segment SegmentTruncated n report)" by (simp add: reject_segment_def note_recovery_def clean_def)
  ultimately show ?thesis using True by (intro exI [of _ 0]) (auto simp: complete_records_def)
next
  case False
  let ?rs = "sg_records sg" and ?tail = "if sg_closed sg then footer_of (sg_records sg) else []" and ?m = "k - kSegmentHeaderBytes"
  let ?body = "take ?m (concat (map frame ?rs) @ ?tail)"
  have t: "take k (segment_text sg) = segment_header (sg_id sg) (sg_now sg) @ ?body"
    using False by (simp add: segment_text_def kSegmentHeaderBytes_def)
  have ok: "list_all payload_ok ?rs" "length ?rs < 2 ^ 32" using assms by (simp_all add: segment_ok_def)
  let ?s = "new_scan records report ?body"
  have r: "sn_rest ?s = ?body" by (simp add: new_scan_def)
  have tail: "?tail = [] \<or> ?tail = segment_footer (word_of_nat (length ?rs)) (word_of_nat (payload_total ?rs)) (fold_digest ?rs)"
    by (simp add: footer_of_def)
  from scan_cut [OF ok(1) tail r, of n "sg_id sg"] obtain j where j: "j \<le> length ?rs"
    "sn_records (scan_records n (sg_id sg) ?s) = records @ stored_from (sg_id sg) 0 (take j ?rs)"
    "\<not> sn_truncated (scan_records n (sg_id sg) ?s) \<longrightarrow> j = length ?rs \<or> word_of_nat j = (0 :: u64)"
    "frames_length (take j ?rs) \<le> ?m" "j < length ?rs \<longrightarrow> ?m < frames_length (take (Suc j) ?rs)"
    by (auto simp: new_scan_def)
  have z: "word_of_nat j = (0 :: u64) \<longleftrightarrow> j = 0"
    using j(1) ok(2) by (simp add: word_unat_eq_iff unat_of_nat take_bit_nat_eq_self)
  obtain stop recs report' where a: "after_scan n (48 + length ?body - length (sn_rest (scan_records n (sg_id sg) ?s))) (scan_records n (sg_id sg) ?s) = (stop, recs, report')"
    by (rule prod_cases3)
  have "read_segment n (take k (segment_text sg)) records report = (stop, recs, report')"
    unfolding t read_segment_body Let_def by (rule a)
  moreover have "complete_records k ?rs j" using j(1,4,5) False by (auto simp: complete_records_def)
  ultimately show ?thesis using conclude_clean [OF a] j(2,3) z by auto
qed

text \<open>C31: A crash costs at most the records that were not completely written: when the file of the last segment is cut
  at any byte, whether or not the segment had been closed, reading returns all records of the
  earlier segments and exactly those of the last one that lie completely within the cut; a clean report
  means that none or all of the last segment's records were read.\<close>

theorem store_crash:
  assumes "holds d (prev @ [s])" and "dk_plan d = []" and "list_all sg_closed prev"
    and "d' = put_file (segment_name s) (take k (segment_text s)) d"
  shows "\<exists>rs report j. read_all cfg d' [] empty_recovery = (ok_status, rs, report, d') \<and> complete_records k (sg_records s) j \<and>
    contents rs = history prev @ take j (sg_records s) \<and> (clean report \<longrightarrow> j = length (sg_records s) \<or> j = 0)"
proof -
  obtain report0 where r: "read_all cfg d' [] empty_recovery =
    (case read_segment (segment_name s) (take k (segment_text s)) (concat (map stored prev)) report0 of (stop, records, report) \<Rightarrow>
       if stop then (ok_status, records, finish_recovery report, d')
       else (case read_segments (sc_directory cfg) (map segment_name []) d' records report of
               (Inl e, records, report, d) \<Rightarrow> (Inl e, records, report, d)
             | (Inr _, records, report, d) \<Rightarrow> (ok_status, records, finish_recovery report, d)))"
    using read_all_changed [OF assms(1-3), of cfg "take k (segment_text s)"] unfolding assms(4) by blast
  have "segment_ok s" using assms(1) by (simp add: holds_def)
  from read_segment_cut [OF this, of k "segment_name s" "concat (map stored prev)" report0] obtain j stop report where
    j: "complete_records k (sg_records s) j" "read_segment (segment_name s) (take k (segment_text s)) (concat (map stored prev)) report0 =
      (stop, concat (map stored prev) @ stored_from (sg_id s) 0 (take j (sg_records s)), report)"
    "clean report \<longrightarrow> j = length (sg_records s) \<or> j = 0" by blast
  have "read_all cfg d' [] empty_recovery =
      (ok_status, concat (map stored prev) @ stored_from (sg_id s) 0 (take j (sg_records s)), finish_recovery report, d')"
    unfolding r j(2) by simp
  moreover have "clean (finish_recovery report) \<longrightarrow> clean report" using finish_unclean by blast
  ultimately show ?thesis using j(1,3) by (auto simp: contents_concat)
qed

section \<open>The limits of recovery\<close>

lemma om_set_same: "om_inv m \<Longrightarrow> om_find m k = Some v \<Longrightarrow> om_set k v m = m"
proof (induction m)
  case (Cons e m)
  obtain j w where e: "e = (j, w)" by (cases e)
  have "j < k" if "j \<noteq> k" using that Cons.prems by (auto simp: e om_inv_Cons dest!: map_of_SomeD)
  then show ?case using Cons by (auto simp: e om_inv_Cons)
qed simp

lemma put_file_same:
  assumes "holds d segs" and "s \<in> set segs"
  shows "put_file (segment_name s) (segment_text s) d = d"
proof -
  have "(segment_name s, segment_text s) \<in> set (filter (\<lambda>e. is_segment_name (fst e)) (dk_files d))"
    using assms by (auto simp: holds_def layout_def)
  then have "om_find (dk_files d) (segment_name s) = Some (segment_text s)"
    using assms(1) om_inv_distinct by (auto simp: holds_def intro!: map_of_is_SomeI)
  then have "om_set (segment_name s) (segment_text s) (dk_files d) = dk_files d"
    using assms(1) by (intro om_set_same) (simp_all add: holds_def)
  then show ?thesis by (simp add: put_file_def)
qed

lemma read_unclosed:
  assumes "segment_ok sg" and "\<not> sg_closed sg" and "sg_records sg \<noteq> []"
  shows "\<exists>report'. read_segment n (segment_text sg) records report = (True, records @ stored sg, report') \<and> \<not> clean report'"
proof -
  let ?rs = "sg_records sg" and ?body = "concat (map frame (sg_records sg))"
  let ?s = "new_scan records report ?body"
  have r: "sn_rest ?s = concat (map frame ?rs) @ []" by (simp add: new_scan_def)
  have ok: "list_all payload_ok ?rs" "length ?rs < 2 ^ 32" using assms(1) by (simp_all add: segment_ok_def)
  let ?t = "take_all (sg_id sg) ?rs [] ?s"
  have t: "sn_rest ?t = []" "sn_records ?t = records @ stored sg" "sn_recovered ?t = word_of_nat (length ?rs)"
    unfolding take_all_eq [OF r] by (simp_all add: new_scan_def stored_def)
  have "sn_recovered ?t \<noteq> 0"
    using assms(3) ok(2) unfolding t(3) by (simp add: word_unat_eq_iff unat_of_nat take_bit_nat_eq_self)
  then have "scan_records n (sg_id sg) ?s = ?t\<lparr>sn_truncated := True, sn_rest := []\<rparr>"
    unfolding scan_all [OF ok(1) r] by (subst scan_records.simps) (simp add: t(1) kRecordHeaderBytes_def)
  then show ?thesis
    using truncated_stops [of "?t\<lparr>sn_truncated := True, sn_rest := []\<rparr>" n] assms(2) t(2)
    by (simp add: segment_text_def read_segment_body Let_def)
qed

text \<open>C32: Reading ends at the first segment that was never closed and holds a record: whatever later segments hold, although their
  records were accepted, synchronised and closed, is not returned, in this and in every later session.\<close>

theorem reading_ends_at_unclosed:
  assumes "holds d (prev @ s # later)" and "dk_plan d = []" and "list_all sg_closed prev" and "\<not> sg_closed s" and "sg_records s \<noteq> []"
  shows "\<exists>rs report. read_all cfg d [] empty_recovery = (ok_status, rs, report, d) \<and>
    contents rs = history (prev @ [s]) \<and> \<not> clean report"
proof -
  have "segment_ok s" using assms(1) by (simp add: holds_def)
  then have "\<exists>report'. read_segment (segment_name s) (segment_text s) records report = (True, records @ stored s, report') \<and> \<not> clean report'"
    for records report by (rule read_unclosed [OF _ assms(4,5)])
  from read_all_stops [OF assms(1-3) this, of cfg] put_file_same [OF assms(1), of s] obtain report where
    "read_all cfg d [] empty_recovery = (ok_status, concat (map stored prev) @ stored s, report, d)" "\<not> clean report" by auto
  then show ?thesis by (simp add: contents_concat)
qed

text \<open>A cut inside the header of the first record of a segment loses the segment's records silently.\<close>

theorem cut_goes_unreported:
  assumes "holds d (prev @ [s])" and "dk_plan d = []" and "list_all sg_closed prev" and "48 \<le> k" and "k < 60" and "sg_records s \<noteq> []"
    and "d' = put_file (segment_name s) (take k (segment_text s)) d"
  shows "\<exists>rs report. read_all cfg d' [] empty_recovery = (ok_status, rs, report, d') \<and> contents rs = history prev \<and> clean report"
proof -
  obtain t p rest where r: "sg_records s = (t, p) # rest" using assms(6) by (cases "sg_records s") auto
  obtain report0 where z: "damage report0 = damage empty_recovery" "read_all cfg d' [] empty_recovery =
    (case read_segment (segment_name s) (take k (segment_text s)) (concat (map stored prev)) report0 of (stop, records, report) \<Rightarrow>
       if stop then (ok_status, records, finish_recovery report, d')
       else (case read_segments (sc_directory cfg) (map segment_name []) d' records report of
               (Inl e, records, report, d) \<Rightarrow> (Inl e, records, report, d)
             | (Inr _, records, report, d) \<Rightarrow> (ok_status, records, finish_recovery report, d)))"
    using read_all_changed [OF assms(1-3), of cfg "take k (segment_text s)"] unfolding assms(7) by blast
  have cut: "take k (segment_text s) = segment_header (sg_id s) (sg_now s) @ take (k - 48) (record_header t p)"
    using assms(4,5) by (simp add: segment_text_def r frame_def)
  let ?s = "new_scan (concat (map stored prev)) report0 (take (k - 48) (record_header t p))"
  have "scan_records (segment_name s) (sg_id s) ?s = ?s\<lparr>sn_rest := []\<rparr>"
    using assms(4,5) by (subst scan_records.simps) (simp add: new_scan_def kRecordHeaderBytes_def)
  then obtain report1 where a: "read_segment (segment_name s) (take k (segment_text s)) (concat (map stored prev)) report0 =
      (False, concat (map stored prev), report1)" and e: "damage report1 = damage report0"
    by (simp add: cut read_segment_body Let_def) (simp add: new_scan_def after_scan_def conclude_segment_def Let_def damage_def)
  have "clean report1" using clean_damage [of report1 empty_recovery] z(1) e by simp
  then show ?thesis using z(2) by (simp add: a finish_clean contents_concat)
qed

section \<open>The manifest is read back\<close>

lemma find_text_skip:
  "key \<noteq> [] \<Longrightarrow> hd key \<notin> set a \<Longrightarrow> find_text key (a @ t) = map_option ((+) (length a)) (find_text key t)"
proof (induction a)
  case (Cons c a)
  have "take (length key) (c # a @ t) \<noteq> key" using Cons.prems by (cases key) auto
  then show ?case using Cons by (simp add: option.map_comp comp_def)
qed (simp add: option.map_ident [unfolded id_def] map_option_cong [of _ _ "(+) 0" "\<lambda>x. x"])

lemma find_text_here: "key \<noteq> [] \<Longrightarrow> find_text key (key @ t) = Some 0"
  by (cases key) simp_all

lemma find_text_after: "key \<noteq> [] \<Longrightarrow> hd key \<notin> set a \<Longrightarrow> find_text key (a @ key @ t) = Some (length a)"
  by (simp add: find_text_skip find_text_here)

lemma rfind_text_none: "c \<in> set key \<Longrightarrow> c \<notin> set s \<Longrightarrow> rfind_text key s = None"
proof (induction s)
  case (Cons x s)
  have "take (length key) (x # s) \<noteq> key" using Cons.prems by (metis in_set_takeD)
  then show ?case using Cons by simp
qed auto

lemma rfind_text_append: "rfind_text key t = Some i \<Longrightarrow> rfind_text key (a @ t) = Some (length a + i)"
  by (induction a) auto

lemma hex8_chars: "c \<in> set (hex8 v) \<Longrightarrow> c \<in> set kDigits"
proof -
  assume "c \<in> set (hex8 v)"
  then obtain x where "x \<in> set (nibbles v)" "c = kDigits ! x" unfolding hex8_nibbles by auto
  moreover have "length kDigits = 16" by (simp add: kDigits_def)
  then have "x < length kDigits" if "x \<in> set (nibbles v)" using that nibbles_bound [of v] by (simp add: list_all_iff)
  ultimately show ?thesis by simp
qed

lemma rfind_crc: "rfind_text ''crc32c='' (''crc32c='' @ hex8 v @ [newline]) = Some 0"
proof -
  have "CHR ''='' \<notin> set (hex8 v @ [newline])" using hex8_chars [of "CHR ''=''" v] by (auto simp: kDigits_def)
  then have "rfind_text ''crc32c='' (hex8 v @ [newline]) = None" by (intro rfind_text_none [of "CHR ''=''"]) simp_all
  then show ?thesis by (simp add: take_Cons')
qed

lemma strip_hex8: "strip_line_end (hex8 v @ [newline]) = hex8 v"
proof -
  have "c \<noteq> newline \<and> c \<noteq> CHR 0x0D" if "c \<in> set (rev (hex8 v))" for c
    using that hex8_chars [of c v] by (auto simp: kDigits_def)
  then have "dropWhile (\<lambda>c. c = newline \<or> c = CHR 0x0D) (rev (hex8 v)) = rev (hex8 v)"
    by (cases "rev (hex8 v)") auto
  then show ?thesis by (simp add: strip_line_end_def)
qed

lemma field_here:
  assumes "find_text (n @ ''='') body = Some (length a)" and "body = a @ (n @ ''='') @ v @ newline # t" and "newline \<notin> set v"
  shows "manifest_field body n = Some v"
proof -
  have "drop (length a + length (n @ ''='')) body = v @ newline # t" by (simp add: assms(2))
  moreover have "takeWhile (\<lambda>c. c \<noteq> newline) (v @ newline # t) = v" using assms(3) by (subst takeWhile_append2) auto
  ultimately show ?thesis by (simp only: manifest_field_def Let_def assms(1) option.case)
qed

lemma show_int_chars: "c \<in> set (show_int x) \<Longrightarrow> c = CHR ''-'' \<or> is_digit c"
  using show_nat_digits by (auto simp: show_int_def split: if_splits)

lemma manifest_fields:
  assumes "newline \<notin> set digest"
  shows "manifest_field (manifest_body now digest) ''magic'' = Some kStoreMagic"
    and "manifest_field (manifest_body now digest) ''format'' = Some ''1''"
    and "manifest_field (manifest_body now digest) ''policy_digest'' = Some digest"
proof -
  let ?b = "manifest_body now digest"
  let ?m = "''magic='' @ kStoreMagic @ [newline]" and ?c = "''created_ns='' @ show_int now @ [newline]"
  have v: "show_nat kFormatVersion = ''1''" by (subst show_nat.simps) (simp add: kFormatVersion_def digit_char_def char_of_def bit_0)
  have b1: "?b = [] @ (''magic'' @ ''='') @ kStoreMagic @ newline # ''format='' @ ''1'' @ [newline] @ ?c @ ''policy_digest='' @ digest @ [newline]"
    and b2: "?b = ?m @ (''format'' @ ''='') @ ''1'' @ newline # ?c @ ''policy_digest='' @ digest @ [newline]"
    and b3: "?b = (?m @ ''format='' @ ''1'' @ [newline] @ ?c) @ (''policy_digest'' @ ''='') @ digest @ newline # []"
    by (simp_all add: manifest_body_def v)
  show "manifest_field ?b ''magic'' = Some kStoreMagic"
  proof (rule field_here [OF _ b1])
    show "find_text (''magic'' @ ''='') ?b = Some (length [])" unfolding b1 append_Nil by (subst find_text_here) simp_all
  qed (simp add: kStoreMagic_def)
  show "manifest_field ?b ''format'' = Some ''1''"
  proof (rule field_here [OF _ b2])
    show "find_text (''format'' @ ''='') ?b = Some (length ?m)"
      unfolding b2 by (rule find_text_after) (simp_all add: kStoreMagic_def)
  qed simp
  show "manifest_field ?b ''policy_digest'' = Some digest"
  proof (rule field_here [OF _ b3])
    have "CHR ''p'' \<notin> set (show_int now)" using show_int_chars by (fastforce simp: is_digit_def)
    then have "hd (''policy_digest'' @ ''='') \<notin> set (?m @ ''format='' @ ''1'' @ [newline] @ ?c)" by (simp add: kStoreMagic_def)
    then show "find_text (''policy_digest'' @ ''='') ?b = Some (length (?m @ ''format='' @ ''1'' @ [newline] @ ?c))"
      unfolding b3 by (intro find_text_after) simp_all
  qed (rule assms)
qed

text \<open>A store that a writer created is opened again: the manifest the writer leaves passes every check of the
  reader, which gets back the policy digest and the format version, as long as the digest is a
  single line and the manifest within the size the reader accepts.\<close>

lemma manifest_roundtrip:
  assumes "newline \<notin> set digest" and "length (manifest_text now digest) \<le> 4096"
  shows "check_manifest cfg path (manifest_text now digest) = Inr \<lparr>rd_config = cfg, rd_policy_digest = digest, rd_format = 1\<rparr>"
proof -
  let ?b = "manifest_body now digest"
  have t: "manifest_text now digest = ?b @ ''crc32c='' @ hex8 (crc_of ?b) @ [newline]" by (simp add: manifest_text_def Let_def)
  have r: "rfind_text ''crc32c='' (manifest_text now digest) = Some (length ?b)"
    unfolding t using rfind_text_append [OF rfind_crc, of ?b] by simp
  have b: "take (length ?b) (manifest_text now digest) = ?b" by (simp add: t)
  have c: "strip_line_end (drop (length ?b + 7) (manifest_text now digest)) = hex8 (crc_of ?b)"
    unfolding t by (simp add: strip_hex8)
  have p: "parse_u64 ''1'' = Some 1" by (simp add: parse_u64_def is_digit_def digit_value_def)
  have "take 4352 (manifest_text now digest) = manifest_text now digest" using assms(2) by simp
  then show ?thesis
    using assms(2) by (simp only: check_manifest_def Let_def r option.case b c manifest_fields [OF assms(1)] p)
      (simp add: kFormatVersion_def)
qed

section \<open>Small stores\<close>

definition demo_segment :: "u32 \<Rightarrow> bool \<Rightarrow> segment" where
  "demo_segment i c = \<lparr>sg_id = i, sg_now = 0, sg_records = [(SourceRecord, ''ab''), (PathRecord, ''c'')], sg_closed = c\<rparr>"

definition demo_disk :: "segment list \<Rightarrow> disk" where
  "demo_disk segs = \<lparr>dk_root = DirectoryRoot, dk_files = layout segs, dk_plan = []\<rparr>"

definition demo_store :: store_config where
  "demo_store = \<lparr>sc_directory = ''store'', sc_limits = default_limits, sc_policy_digest = ''d'', sc_create_if_missing = True\<rparr>"

lemma demo_holds:
  assumes "sorted_wrt (<) (map sg_id segs)" and "list_all segment_ok segs"
  shows "holds (demo_disk segs) segs" and "dk_plan (demo_disk segs) = []"
proof -
  have "sorted_wrt (<) (map segment_name segs)"
    using assms(1) segment_name_order by (simp add: sorted_wrt_map segment_name_def sorted_wrt_mono_rel [rotated])
  then have "om_inv (layout segs)" by (simp add: om_inv_def layout_def comp_def)
  moreover have "filter (\<lambda>e. is_segment_name (fst e)) (layout segs) = layout segs" by (simp add: filter_id_conv layout_def)
  ultimately show "holds (demo_disk segs) segs" using assms by (simp add: holds_def demo_disk_def)
qed (simp add: demo_disk_def)

lemma demo_segment_ok: "segment_ok (demo_segment i c)"
  by (simp add: segment_ok_def demo_segment_def payload_ok_def kMaxRecordPayloadBytes_def)

lemmas demo_one = demo_holds [of "[demo_segment 1 True]", simplified, OF demo_segment_ok]

theorem store_detects_damage_witness:
  "\<exists>rs report. read_all demo_store (put_file (segment_name (demo_segment 1 True))
      ((segment_text (demo_segment 1 True))[74 := CHR ''x'']) (demo_disk [demo_segment 1 True])) [] empty_recovery =
     (ok_status, rs, report, put_file (segment_name (demo_segment 1 True))
      ((segment_text (demo_segment 1 True))[74 := CHR ''x'']) (demo_disk [demo_segment 1 True]))
     \<and> contents rs = [(SourceRecord, ''ab'')] \<and> \<not> clean report"
proof -
  have o: "kSegmentHeaderBytes + frames_length (take 1 (sg_records (demo_segment 1 True))) + kRecordHeaderBytes + 0 = 74"
    by (simp add: kSegmentHeaderBytes_def kRecordHeaderBytes_def demo_segment_def frame_def)
  show ?thesis
    using store_detects_damage [where prev = "[]" and s = "demo_segment 1 True" and later = "[]" and d = "demo_disk [demo_segment 1 True]"
        and j = 1 and i = 0 and t = PathRecord and p = "''c''" and c = "CHR ''x''" and cfg = demo_store, OF _ demo_one(2) _ _ _ _ _ refl, unfolded o]
      demo_one(1) by (simp add: demo_segment_def)
qed

theorem store_crash_witness:
  "\<exists>rs report. read_all demo_store (put_file (segment_name (demo_segment 1 True)) (take 62 (segment_text (demo_segment 1 True)))
      (demo_disk [demo_segment 1 True])) [] empty_recovery =
     (ok_status, rs, report, put_file (segment_name (demo_segment 1 True)) (take 62 (segment_text (demo_segment 1 True)))
      (demo_disk [demo_segment 1 True])) \<and> contents rs = [(SourceRecord, ''ab'')]"
proof -
  have j: "j = 1" if "complete_records 62 (sg_records (demo_segment 1 True)) j" for j
    using that by (auto simp: complete_records_def demo_segment_def frame_def kSegmentHeaderBytes_def le_Suc_eq)
  have "holds (demo_disk [demo_segment 1 True]) ([] @ [demo_segment 1 True])" "list_all sg_closed []" using demo_one(1) by simp_all
  from store_crash [OF this(1) demo_one(2) this(2) refl, where k = 62 and cfg = demo_store] obtain rs report j where
    r: "read_all demo_store (put_file (segment_name (demo_segment 1 True)) (take 62 (segment_text (demo_segment 1 True)))
      (demo_disk [demo_segment 1 True])) [] empty_recovery = (ok_status, rs, report, put_file (segment_name (demo_segment 1 True))
        (take 62 (segment_text (demo_segment 1 True))) (demo_disk [demo_segment 1 True]))"
    "complete_records 62 (sg_records (demo_segment 1 True)) j" "contents rs = take j (sg_records (demo_segment 1 True))"
    by auto
  have "contents rs = [(SourceRecord, ''ab'')]" unfolding r(3) j [OF r(2)] by (simp add: demo_segment_def)
  with r(1) show ?thesis by blast
qed

theorem reading_ends_at_unclosed_witness:
  "\<exists>rs report. read_all demo_store (demo_disk [demo_segment 1 False, demo_segment 2 True]) [] empty_recovery =
     (ok_status, rs, report, demo_disk [demo_segment 1 False, demo_segment 2 True])
     \<and> contents rs = [(SourceRecord, ''ab''), (PathRecord, ''c'')] \<and> \<not> clean report"
proof -
  have h: "holds (demo_disk [demo_segment 1 False, demo_segment 2 True]) [demo_segment 1 False, demo_segment 2 True]"
    by (rule demo_holds) (simp_all add: demo_segment_ok, simp add: demo_segment_def)
  show ?thesis
    using reading_ends_at_unclosed [where prev = "[]" and s = "demo_segment 1 False" and later = "[demo_segment 2 True]"
        and d = "demo_disk [demo_segment 1 False, demo_segment 2 True]" and cfg = demo_store] h
    by (simp add: demo_disk_def) (simp add: demo_segment_def)
qed

lemma manifest_roundtrip_example:
  "check_manifest demo_store ''m'' (manifest_text 0 ''d'') = Inr \<lparr>rd_config = demo_store, rd_policy_digest = ''d'', rd_format = 1\<rparr>"
proof (rule manifest_roundtrip)
  have "length (show_nat 1) \<le> 1" "length (show_nat 0) \<le> 1" using length_show_nat_le [of _ 1] by simp_all
  then show "length (manifest_text 0 ''d'') \<le> 4096"
    by (simp add: manifest_text_def manifest_body_def kStoreMagic_def show_int_def kFormatVersion_def)
qed simp

lemma demo_opens:
  "\<exists>w d. open_writer demo_store 0 (demo_disk []) = (Inr w, d)"
  by (simp add: open_writer_def demo_store_def prepare_directory_def demo_disk_def prepare_manifest_def layout_def write_manifest_def
      Let_def fopen_succeeds fwrite_succeeds flush_succeeds list_segments_def)

theorem store_roundtrip_witness:
  "\<exists>d2 rs report. read_all demo_store d2 [] empty_recovery = (ok_status, rs, report, d2) \<and>
     contents rs = [(SourceRecord, ''ab'')] \<and> clean report"
proof -
  have h: "holds (demo_disk []) []" "dk_plan (demo_disk []) = []" by (rule demo_holds; simp)+
  obtain w d where o: "open_writer demo_store 0 (demo_disk []) = (Inr w, d)" using demo_opens by blast
  obtain accepted w1 d1 where a: "append_each [(0, SourceRecord, ''ab'')] (w, d) = (accepted, w1, d1)" by (rule prod_cases3)
  obtain closing w2 d2 where c: "close_writer (w1, d1) = (closing, w2, d2)" by (rule prod_cases3)
  note R = store_roundtrip [OF h _ o a c]
  have "fits w ''ab''"
    using open_writer_run [OF h _ o, of 0] by (simp add: fits_def demo_store_def default_limits_def kMaxRecordPayloadBytes_def)
  then have "has_value (fst (append_record 0 SourceRecord ''ab'' (w, d)))" using R by (simp add: demo_store_def default_limits_def)
  then have "accepted = [(SourceRecord, ''ab'')]" using a by (auto split: prod.splits)
  then show ?thesis using R by (auto simp: demo_store_def default_limits_def)
qed

end
