(* ===== verification/Worker_Pool.thy ===== *)
theory Worker_Pool
  imports Core_Error
begin

text \<open>
  \<^verbatim>\<open>runtime/worker_pool.cpp\<close> and \<^verbatim>\<open>runtime/cancellation.hpp\<close>: the bounded pool of workers. Each critical section
  of the code, and each action on shared state outside the lock, is one function on the state; threads
  interleave them, which is a step relation. A thread that waits on a condition variable is blocked until it
  is notified or wakes up spuriously, so a notification the code does not send is one the model does not
  have. A submitted function is the caller's code and is represented by what its call gives.
\<close>

section \<open>Cancellation\<close>

text \<open>A token: the reason it was cancelled with, if it was.\<close>

type_synonym cancellation_token = "string option"

definition token_cancel :: "string \<Rightarrow> cancellation_token \<Rightarrow> cancellation_token" where
  "token_cancel reason token = Some reason"

definition token_error :: "cancellation_token \<Rightarrow> error" where
  "token_error token = (let reason = (case token of None \<Rightarrow> [] | Some r \<Rightarrow> r)
     in Error Cancelled (if reason = [] then ''operation cancelled'' else reason) [])"

definition check_cancelled :: "cancellation_token \<Rightarrow> status" where
  "check_cancelled token = (if token \<noteq> None then Inl (token_error token) else ok_status)"

section \<open>The state of the pool\<close>

text \<open>
  A submitted function is the caller's code: a task carries what its call gives. A task is
  identified with its promise, and promises are numbered in the order of submission.
\<close>

type_synonym task_outcome = "string result"

datatype call_result = Returns task_outcome | Throws string | ThrowsUnknown

record task =
  tk_id :: nat
  tk_call :: call_result
  tk_token :: cancellation_token

record pool_config =
  pc_workers :: nat
  pc_queue_depth :: nat

record pool_stats =
  st_submitted :: u64
  st_completed :: u64
  st_failed :: u64
  st_cancelled :: u64
  st_refused :: u64
  st_reentrant_refusals :: u64
  st_peak_pending :: u64
  st_pending :: nat
  st_shutting_down :: bool

definition new_stats :: pool_stats where
  "new_stats = \<lparr>st_submitted = 0, st_completed = 0, st_failed = 0, st_cancelled = 0, st_refused = 0,
     st_reentrant_refusals = 0, st_peak_pending = 0, st_pending = 0, st_shutting_down = False\<rparr>"

text \<open>
  Where a call of \<^verbatim>\<open>shutdown\<close> stands: blocked on the condition variable \<^verbatim>\<open>idle\<close> or woken from it; past the
  first critical section and about to notify; settling the tasks it took out of the queue, outside the
  lock; having settled one and about to count it; joining the workers; returned.
\<close>

datatype shutdown_phase =
    IdleAsleep | IdleAwake | Notifying "task list" | Settling "task list" | Counting "task list" | Joining | Returned

record shutdown_call =
  sd_drain :: bool
  sd_phase :: shutdown_phase

text \<open>
  The shared state, the tasks the workers hold, the workers that are about to test the condition of
  their loop and those blocked on \<^verbatim>\<open>not_empty\<close>, the calls of \<^verbatim>\<open>shutdown\<close>, whether the threads were joined and
  cleared, and the settled promises. \<open>wp_next\<close> numbers the promises. Nothing waits on \<^verbatim>\<open>not_full\<close>.
\<close>

record pool =
  wp_config :: pool_config
  wp_queue :: "task list"
  wp_stats :: pool_stats
  wp_stopping :: bool
  wp_draining :: bool
  wp_active :: nat
  wp_running :: "task list"
  wp_awake :: nat
  wp_asleep :: nat
  wp_calls :: "shutdown_call list"
  wp_joined :: bool
  wp_settled :: "(nat \<times> task_outcome) list"
  wp_next :: nat

definition create_pool :: "pool_config \<Rightarrow> pool result" where
  "create_pool config =
     (if pc_workers config = 0 then fail InvalidArgument ''a worker pool needs at least one worker'' []
      else if pc_queue_depth config = 0 then fail InvalidArgument ''a worker pool needs a non-zero queue depth'' []
      else Inr \<lparr>wp_config = config, wp_queue = [], wp_stats = new_stats, wp_stopping = False, wp_draining = False, wp_active = 0,
        wp_running = [], wp_awake = pc_workers config, wp_asleep = 0, wp_calls = [], wp_joined = False, wp_settled = [], wp_next = 0\<rparr>)"

text \<open>The workers that have not left their loop.\<close>

definition living :: "pool \<Rightarrow> nat" where
  "living p = wp_awake p + wp_asleep p + length (wp_running p)"

section \<open>Notifications\<close>

definition notify_worker :: "pool \<Rightarrow> pool" where
  "notify_worker p = (if wp_asleep p = 0 then p else p\<lparr>wp_asleep := wp_asleep p - 1, wp_awake := wp_awake p + 1\<rparr>)"

definition notify_workers :: "pool \<Rightarrow> pool" where
  "notify_workers p = p\<lparr>wp_asleep := 0, wp_awake := wp_awake p + wp_asleep p\<rparr>"

definition woken :: "shutdown_call \<Rightarrow> shutdown_call" where
  "woken c = (if sd_phase c = IdleAsleep then c\<lparr>sd_phase := IdleAwake\<rparr> else c)"

definition notify_idle :: "pool \<Rightarrow> pool" where
  "notify_idle p = p\<lparr>wp_calls := map woken (wp_calls p)\<rparr>"

section \<open>The critical sections\<close>

text \<open>\<^verbatim>\<open>promise::set_value\<close>: a second value throws, which every caller ignores.\<close>

definition settle :: "nat \<Rightarrow> task_outcome \<Rightarrow> pool \<Rightarrow> bool \<times> pool" where
  "settle i result p =
     (if i \<in> fst ` set (wp_settled p) then (False, p) else (True, p\<lparr>wp_settled := wp_settled p @ [(i, result)]\<rparr>))"

definition submit_task :: "bool \<Rightarrow> call_result option \<Rightarrow> pool \<Rightarrow> nat result \<times> pool" where
  "submit_task from_worker function p =
     (case function of
        None \<Rightarrow> (fail InvalidArgument ''cannot submit an empty task'' [], p)
      | Some call \<Rightarrow>
          let stats = wp_stats p
          in if from_worker then
               (fail InvalidArgument ''re-entrant submission from a worker of the same pool is refused'' [],
                p\<lparr>wp_stats := stats\<lparr>st_reentrant_refusals := st_reentrant_refusals stats + 1\<rparr>\<rparr>)
             else if wp_stopping p then (fail ShuttingDown ''the worker pool is shutting down'' [], p)
             else if length (wp_queue p) \<ge> pc_queue_depth (wp_config p) then
               (fail CapacityExceeded ''the worker pool queue is full'' (show_nat (pc_queue_depth (wp_config p))),
                p\<lparr>wp_stats := stats\<lparr>st_refused := st_refused stats + 1\<rparr>\<rparr>)
             else
               let queue = wp_queue p @ [\<lparr>tk_id = wp_next p, tk_call = call, tk_token = None\<rparr>];
                   stats = stats\<lparr>st_submitted := st_submitted stats + 1\<rparr>;
                   stats = (if length queue > unat (st_peak_pending stats)
                            then stats\<lparr>st_peak_pending := word_of_nat (length queue)\<rparr> else stats)
               in (Inr (wp_next p), notify_worker (p\<lparr>wp_queue := queue, wp_stats := stats, wp_next := wp_next p + 1\<rparr>)))"

text \<open>
  What a worker does: under the lock it tests the condition and takes a task, goes to sleep or leaves;
  it runs the task without the lock; under the lock again it publishes what the task gave.
\<close>

definition worker_turn :: "pool \<Rightarrow> pool" where
  "worker_turn p =
     (let p = p\<lparr>wp_awake := wp_awake p - 1\<rparr>
      in case wp_queue p of
           [] \<Rightarrow> if wp_stopping p then p else p\<lparr>wp_asleep := wp_asleep p + 1\<rparr>
         | task # rest \<Rightarrow> p\<lparr>wp_queue := rest, wp_active := wp_active p + 1, wp_running := wp_running p @ [task]\<rparr>)"

definition task_result :: "task \<Rightarrow> task_outcome" where
  "task_result task =
     (if tk_token task \<noteq> None then Inl (token_error (tk_token task))
      else case tk_call task of
        Returns r \<Rightarrow> r
      | Throws what \<Rightarrow> fail Internal ''task threw an exception'' what
      | ThrowsUnknown \<Rightarrow> fail Internal ''task threw an unknown exception'' [])"

definition count_outcome :: "task_outcome \<Rightarrow> pool_stats \<Rightarrow> pool_stats" where
  "count_outcome r stats =
     (case r of
        Inr _ \<Rightarrow> stats\<lparr>st_completed := st_completed stats + 1\<rparr>
      | Inl e \<Rightarrow> if err_code e = Cancelled then stats\<lparr>st_cancelled := st_cancelled stats + 1\<rparr>
                 else stats\<lparr>st_failed := st_failed stats + 1\<rparr>)"

definition drained :: "pool \<Rightarrow> bool" where
  "drained p \<longleftrightarrow> wp_queue p = [] \<and> wp_active p = 0"

definition finish_task :: "task \<Rightarrow> pool \<Rightarrow> pool" where
  "finish_task task p =
     (let r = task_result task;
          p = p\<lparr>wp_active := wp_active p - 1, wp_running := remove1 task (wp_running p), wp_awake := wp_awake p + 1,
                wp_stats := count_outcome r (wp_stats p)\<rparr>;
          p = snd (settle (tk_id task) r p)
      in if drained p then notify_idle p else p)"

definition cancel_pending :: "string \<Rightarrow> pool \<Rightarrow> pool" where
  "cancel_pending reason p =
     p\<lparr>wp_queue := map (\<lambda>task. task\<lparr>tk_token := token_cancel reason (tk_token task)\<rparr>) (wp_queue p)\<rparr>"

text \<open>
  A call of \<^verbatim>\<open>shutdown\<close>: its first critical section up to a blocking wait, then one action per turn. None: it is
  blocked, or has returned. A promise is settled before the lock is taken again to count it. The token of
  an abandoned task is cancelled too; the task is dropped, so nobody reads it.
\<close>

definition begin_shutdown :: "bool \<Rightarrow> pool \<Rightarrow> pool" where
  "begin_shutdown drain p =
     (let enter = (\<lambda>phase p. p\<lparr>wp_calls := wp_calls p @ [\<lparr>sd_drain = drain, sd_phase = phase\<rparr>]\<rparr>)
      in if wp_stopping p \<and> wp_joined p then enter Returned p
         else let p = p\<lparr>wp_stopping := True, wp_draining := drain\<rparr>
              in if drain then enter (if drained p then Notifying [] else IdleAsleep) p
                 else enter (Notifying (wp_queue p)) (p\<lparr>wp_queue := []\<rparr>))"

definition set_phase :: "nat \<Rightarrow> shutdown_phase \<Rightarrow> pool \<Rightarrow> pool" where
  "set_phase i phase p = p\<lparr>wp_calls := (wp_calls p)[i := (wp_calls p ! i)\<lparr>sd_phase := phase\<rparr>]\<rparr>"

definition abandoned_outcome :: task_outcome where
  "abandoned_outcome = fail Cancelled ''the runtime shut down before the task started'' []"

definition shutdown_turn :: "nat \<Rightarrow> pool \<Rightarrow> pool option" where
  "shutdown_turn i p =
     (case sd_phase (wp_calls p ! i) of
        IdleAsleep \<Rightarrow> None
      | IdleAwake \<Rightarrow> Some (set_phase i (if drained p then Notifying [] else IdleAsleep) p)
      | Notifying tasks \<Rightarrow> Some (set_phase i (Settling tasks) (notify_workers p))
      | Settling [] \<Rightarrow> Some (set_phase i Joining p)
      | Settling (task # tasks) \<Rightarrow>
          (case settle (tk_id task) abandoned_outcome p of
             (True, p) \<Rightarrow> Some (set_phase i (Counting tasks) p)
           | (False, p) \<Rightarrow> Some (set_phase i (Settling tasks) p))
      | Counting tasks \<Rightarrow>
          Some (set_phase i (Settling tasks) (p\<lparr>wp_stats := (wp_stats p)\<lparr>st_cancelled := st_cancelled (wp_stats p) + 1\<rparr>\<rparr>))
      | Joining \<Rightarrow> if living p = 0 then Some (set_phase i Returned (p\<lparr>wp_joined := True\<rparr>)) else None
      | Returned \<Rightarrow> None)"

definition pool_stats_now :: "pool \<Rightarrow> pool_stats" where
  "pool_stats_now p = (wp_stats p)\<lparr>st_pending := length (wp_queue p), st_shutting_down := wp_stopping p\<rparr>"

text \<open>\<^verbatim>\<open>Handle::get\<close>: what it returns, or none while it blocks; a default handle has no task.\<close>

definition handle_get :: "nat option \<Rightarrow> pool \<Rightarrow> task_outcome option" where
  "handle_get handle p =
     (case handle of None \<Rightarrow> Some (fail InvalidArgument ''the handle has no task'' []) | Some i \<Rightarrow> map_of (wp_settled p) i)"

section \<open>Interleavings\<close>

text \<open>
  The progress of the pool on its own: its workers and the running calls of \<^verbatim>\<open>shutdown\<close>. The actions add what
  callers do. The steps add spurious wake-ups, which a condition variable allows and never promises.
\<close>

inductive pool_progress :: "pool \<Rightarrow> pool \<Rightarrow> bool" where
  turns: "0 < wp_awake p \<Longrightarrow> pool_progress p (worker_turn p)"
| finishes: "task \<in> set (wp_running p) \<Longrightarrow> pool_progress p (finish_task task p)"
| goes_on: "i < length (wp_calls p) \<Longrightarrow> shutdown_turn i p = Some q \<Longrightarrow> pool_progress p q"

inductive pool_action :: "pool \<Rightarrow> pool \<Rightarrow> bool" where
  works: "pool_progress p q \<Longrightarrow> pool_action p q"
| submits: "pool_action p (snd (submit_task from_worker function p))"
| cancels: "pool_action p (cancel_pending reason p)"
| shuts: "pool_action p (begin_shutdown drain p)"

inductive pool_step :: "pool \<Rightarrow> pool \<Rightarrow> bool" where
  acts: "pool_action p q \<Longrightarrow> pool_step p q"
| worker_wakes: "0 < wp_asleep p \<Longrightarrow> pool_step p (notify_worker p)"
| idle_wakes: "i < length (wp_calls p) \<Longrightarrow> sd_phase (wp_calls p ! i) = IdleAsleep \<Longrightarrow> pool_step p (set_phase i IdleAwake p)"

inductive pool_reach :: "pool \<Rightarrow> bool" where
  created: "create_pool config = Inr p \<Longrightarrow> pool_reach p"
| stepped: "pool_reach p \<Longrightarrow> pool_step p q \<Longrightarrow> pool_reach q"

section \<open>The invariant\<close>

text \<open>The tasks a call of \<^verbatim>\<open>shutdown\<close> still has to settle, whether it has settled one it has not counted, and whether it has notified.\<close>

fun phase_tasks :: "shutdown_phase \<Rightarrow> task list" where
  "phase_tasks (Notifying ts) = ts"
| "phase_tasks (Settling ts) = ts"
| "phase_tasks (Counting ts) = ts"
| "phase_tasks _ = []"

fun phase_uncounted :: "shutdown_phase \<Rightarrow> nat" where
  "phase_uncounted (Counting ts) = 1"
| "phase_uncounted _ = 0"

fun phase_notified :: "shutdown_phase \<Rightarrow> bool" where
  "phase_notified IdleAsleep = False"
| "phase_notified IdleAwake = False"
| "phase_notified (Notifying ts) = False"
| "phase_notified _ = True"

definition call_ids :: "shutdown_call \<Rightarrow> nat list" where
  "call_ids c = map tk_id (phase_tasks (sd_phase c))"

definition uncounted :: "pool \<Rightarrow> nat" where
  "uncounted p = sum_list (map (phase_uncounted \<circ> sd_phase) (wp_calls p))"

definition counted :: "pool_stats \<Rightarrow> u64" where
  "counted s = st_completed s + st_failed s + st_cancelled s"

definition all_ids :: "pool \<Rightarrow> nat list" where
  "all_ids p = map tk_id (wp_queue p) @ map tk_id (wp_running p) @ concat (map call_ids (wp_calls p)) @ map fst (wp_settled p)"

text \<open>Every task is in one place, and the counters agree with the settled promises.\<close>

definition tasks_inv :: "pool \<Rightarrow> bool" where
  "tasks_inv p \<longleftrightarrow> mset (all_ids p) = mset [0..<wp_next p] \<and> length (wp_queue p) \<le> pc_queue_depth (wp_config p) \<and>
     wp_active p = length (wp_running p) \<and> st_submitted (wp_stats p) = word_of_nat (wp_next p) \<and>
     counted (wp_stats p) + word_of_nat (uncounted p) = word_of_nat (length (wp_settled p))"

text \<open>No worker sleeps through queued work, no worker sleeps once a shutdown has notified, and calls that all drain are woken.\<close>

definition drains_only :: "pool \<Rightarrow> bool" where
  "drains_only p \<longleftrightarrow> (\<forall>c \<in> set (wp_calls p). sd_drain c)"

definition workers_inv :: "pool \<Rightarrow> bool" where
  "workers_inv p \<longleftrightarrow> 0 < pc_workers (wp_config p) \<and> living p \<le> pc_workers (wp_config p) \<and>
     (living p < pc_workers (wp_config p) \<longrightarrow> wp_stopping p \<and> wp_queue p = []) \<and>
     (wp_queue p \<noteq> [] \<longrightarrow> 0 < wp_awake p \<or> wp_running p \<noteq> []) \<and>
     (wp_calls p \<noteq> [] \<longrightarrow> wp_stopping p) \<and> (wp_joined p \<longrightarrow> living p = 0)"

definition call_ok :: "nat \<Rightarrow> bool \<Rightarrow> bool \<Rightarrow> shutdown_call \<Rightarrow> bool" where
  "call_ok asleep drains idle c \<longleftrightarrow> (phase_notified (sd_phase c) \<longrightarrow> asleep = 0) \<and>
     (sd_phase c = IdleAsleep \<or> sd_phase c = IdleAwake \<longrightarrow> sd_drain c) \<and> (drains \<and> sd_phase c = IdleAsleep \<longrightarrow> \<not> idle)"

definition wake_inv :: "pool \<Rightarrow> bool" where
  "wake_inv p \<longleftrightarrow> workers_inv p \<and> (\<forall>c \<in> set (wp_calls p). call_ok (wp_asleep p) (drains_only p) (drained p) c)"

lemma concat_update:
  "i < length xs \<Longrightarrow> mset (concat (map f (xs[i := y]))) + mset (f (xs ! i)) = mset (concat (map f xs)) + mset (f y)"
  by (induction xs arbitrary: i) (auto split: nat.split simp: ac_simps)

lemma sum_update:
  fixes g :: "'a \<Rightarrow> nat"
  shows "i < length xs \<Longrightarrow> sum_list (map g (xs[i := y])) + g (xs ! i) = sum_list (map g xs) + g y"
  by (induction xs arbitrary: i) (auto split: nat.split)

lemma tasks_inv_distinct: "tasks_inv p \<Longrightarrow> distinct (all_ids p)" and tasks_inv_ids: "tasks_inv p \<Longrightarrow> set (all_ids p) = {..<wp_next p}"
proof -
  assume "tasks_inv p"
  then have m: "mset (all_ids p) = mset [0..<wp_next p]" by (simp add: tasks_inv_def)
  then show "distinct (all_ids p)" using mset_eq_imp_distinct_iff by fastforce
  have "set (all_ids p) = set [0..<wp_next p]" using m by (rule mset_eq_setD)
  then show "set (all_ids p) = {..<wp_next p}" by (simp add: atLeast0LessThan)
qed

lemma settle_fresh:
  "i \<notin> fst ` set (wp_settled p) \<Longrightarrow> settle i r p = (True, p\<lparr>wp_settled := wp_settled p @ [(i, r)]\<rparr>)"
  by (simp add: settle_def)

lemma count_outcome_sum: "counted (count_outcome r s) = counted s + 1" "st_submitted (count_outcome r s) = st_submitted s"
  by (simp_all add: count_outcome_def counted_def split: sum.split)

text \<open>What a notification changes: only who sleeps.\<close>

lemma woken_fields [simp]: "sd_drain (woken c) = sd_drain c" "call_ids (woken c) = call_ids c"
  "phase_uncounted (sd_phase (woken c)) = phase_uncounted (sd_phase c)" "phase_notified (sd_phase (woken c)) = phase_notified (sd_phase c)"
  "sd_phase (woken c) \<noteq> IdleAsleep"
  by (simp_all add: woken_def call_ids_def)

lemma notify_fields [simp]:
  "wp_config (notify_worker p) = wp_config p" "wp_queue (notify_worker p) = wp_queue p" "wp_stats (notify_worker p) = wp_stats p"
  "wp_stopping (notify_worker p) = wp_stopping p" "wp_active (notify_worker p) = wp_active p" "wp_running (notify_worker p) = wp_running p"
  "wp_calls (notify_worker p) = wp_calls p" "wp_joined (notify_worker p) = wp_joined p" "wp_settled (notify_worker p) = wp_settled p"
  "wp_next (notify_worker p) = wp_next p" "living (notify_worker p) = living p" "drained (notify_worker p) = drained p"
  by (auto simp: notify_worker_def living_def drained_def)

lemma notify_all_fields [simp]:
  "wp_config (notify_workers p) = wp_config p" "wp_queue (notify_workers p) = wp_queue p" "wp_stats (notify_workers p) = wp_stats p"
  "wp_stopping (notify_workers p) = wp_stopping p" "wp_active (notify_workers p) = wp_active p" "wp_running (notify_workers p) = wp_running p"
  "wp_calls (notify_workers p) = wp_calls p" "wp_joined (notify_workers p) = wp_joined p" "wp_settled (notify_workers p) = wp_settled p"
  "wp_next (notify_workers p) = wp_next p" "living (notify_workers p) = living p" "drained (notify_workers p) = drained p"
  by (auto simp: notify_workers_def living_def drained_def)

lemma notify_idle_fields [simp]:
  "wp_config (notify_idle p) = wp_config p" "wp_queue (notify_idle p) = wp_queue p" "wp_stats (notify_idle p) = wp_stats p"
  "wp_stopping (notify_idle p) = wp_stopping p" "wp_active (notify_idle p) = wp_active p" "wp_running (notify_idle p) = wp_running p"
  "wp_awake (notify_idle p) = wp_awake p" "wp_asleep (notify_idle p) = wp_asleep p" "wp_joined (notify_idle p) = wp_joined p"
  "wp_settled (notify_idle p) = wp_settled p" "wp_next (notify_idle p) = wp_next p" "living (notify_idle p) = living p"
  "drained (notify_idle p) = drained p" "wp_calls (notify_idle p) = map woken (wp_calls p)"
  by (auto simp: notify_idle_def living_def drained_def)

lemma notify_tasks [simp]:
  "tasks_inv (notify_worker p) = tasks_inv p" "tasks_inv (notify_workers p) = tasks_inv p" "tasks_inv (notify_idle p) = tasks_inv p"
  by (simp_all add: tasks_inv_def all_ids_def uncounted_def comp_def)

lemma set_phase_fields [simp]:
  "wp_config (set_phase i ph p) = wp_config p" "wp_queue (set_phase i ph p) = wp_queue p" "wp_stats (set_phase i ph p) = wp_stats p"
  "wp_stopping (set_phase i ph p) = wp_stopping p" "wp_active (set_phase i ph p) = wp_active p" "wp_running (set_phase i ph p) = wp_running p"
  "wp_awake (set_phase i ph p) = wp_awake p" "wp_asleep (set_phase i ph p) = wp_asleep p" "wp_joined (set_phase i ph p) = wp_joined p"
  "wp_settled (set_phase i ph p) = wp_settled p" "wp_next (set_phase i ph p) = wp_next p" "living (set_phase i ph p) = living p"
  "drained (set_phase i ph p) = drained p" "length (wp_calls (set_phase i ph p)) = length (wp_calls p)"
  by (auto simp: set_phase_def living_def drained_def)

section \<open>No task is lost\<close>

lemma submit_accepts:
  assumes "\<not> from_worker" and "\<not> wp_stopping p" and "length (wp_queue p) < pc_queue_depth (wp_config p)"
  obtains s where "snd (submit_task from_worker (Some call) p) =
      notify_worker (p\<lparr>wp_queue := wp_queue p @ [\<lparr>tk_id = wp_next p, tk_call = call, tk_token = None\<rparr>], wp_stats := s, wp_next := wp_next p + 1\<rparr>)"
    "st_submitted s = st_submitted (wp_stats p) + 1" "counted s = counted (wp_stats p)"
  using assms by (simp add: submit_task_def Let_def not_le [symmetric] counted_def split: if_splits)

lemma submit_cases:
  obtains s where "snd (submit_task from_worker function p) = p\<lparr>wp_stats := s\<rparr>"
    "st_submitted s = st_submitted (wp_stats p)" "counted s = counted (wp_stats p)"
  | call s where "\<not> wp_stopping p" "length (wp_queue p) < pc_queue_depth (wp_config p)" "snd (submit_task from_worker function p) =
      notify_worker (p\<lparr>wp_queue := wp_queue p @ [\<lparr>tk_id = wp_next p, tk_call = call, tk_token = None\<rparr>], wp_stats := s, wp_next := wp_next p + 1\<rparr>)"
    "st_submitted s = st_submitted (wp_stats p) + 1" "counted s = counted (wp_stats p)"
proof (cases "\<exists>call. function = Some call \<and> \<not> from_worker \<and> \<not> wp_stopping p \<and> length (wp_queue p) < pc_queue_depth (wp_config p)")
  case True
  then show thesis using submit_accepts that(2) by metis
next
  case False
  then show thesis using that(1) [of "wp_stats (snd (submit_task from_worker function p))"]
    by (auto simp: submit_task_def Let_def counted_def split: option.splits if_splits)
qed

lemma submit_tasks: "tasks_inv p \<Longrightarrow> tasks_inv (snd (submit_task from_worker function p))"
  by (cases rule: submit_cases [of from_worker "function" p]) (simp_all add: tasks_inv_def all_ids_def uncounted_def algebra_simps)

lemma turn_tasks: "tasks_inv p \<Longrightarrow> tasks_inv (worker_turn p)"
  by (auto simp: worker_turn_def Let_def tasks_inv_def all_ids_def uncounted_def split: list.split)

lemma mset_remove1_id:
  "t \<in> set xs \<Longrightarrow> add_mset (tk_id t) (mset (map tk_id (remove1 t xs))) = mset (map tk_id xs)"
  by (induction xs) (auto simp: add_mset_commute)

lemma running_fresh: "tasks_inv p \<Longrightarrow> t \<in> set (wp_running p) \<Longrightarrow> tk_id t \<notin> fst ` set (wp_settled p)"
  using tasks_inv_distinct [of p] by (auto simp: all_ids_def)

lemma abandoned_fresh:
  "tasks_inv p \<Longrightarrow> i < length (wp_calls p) \<Longrightarrow> t \<in> set (phase_tasks (sd_phase (wp_calls p ! i))) \<Longrightarrow> tk_id t \<notin> fst ` set (wp_settled p)"
proof
  assume I: "tasks_inv p" and i: "i < length (wp_calls p)" and t: "t \<in> set (phase_tasks (sd_phase (wp_calls p ! i)))"
    and m: "tk_id t \<in> fst ` set (wp_settled p)"
  have "tk_id t \<in> set (call_ids (wp_calls p ! i))" using t by (simp add: call_ids_def)
  then have "tk_id t \<in> set (concat (map call_ids (wp_calls p)))" using nth_mem [OF i] by auto
  then show False using tasks_inv_distinct [OF I] m unfolding all_ids_def by (simp only: distinct_append set_append set_map) blast
qed

definition finished :: "task \<Rightarrow> pool \<Rightarrow> pool" where
  "finished t p = p\<lparr>wp_active := wp_active p - 1, wp_running := remove1 t (wp_running p), wp_awake := wp_awake p + 1,
    wp_stats := count_outcome (task_result t) (wp_stats p), wp_settled := wp_settled p @ [(tk_id t, task_result t)]\<rparr>"

lemma finish_eq:
  assumes "tasks_inv p" and "t \<in> set (wp_running p)"
  shows "finish_task t p = (if drained (finished t p) then notify_idle (finished t p) else finished t p)"
  using running_fresh [OF assms] by (simp add: finish_task_def Let_def settle_def finished_def)

lemma finish_tasks:
  assumes "tasks_inv p" and "t \<in> set (wp_running p)"
  shows "tasks_inv (finish_task t p)"
proof -
  have "length (remove1 t (wp_running p)) = length (wp_running p) - 1" using assms(2) by (simp add: length_remove1)
  moreover have "mset (map tk_id (wp_running p)) = add_mset (tk_id t) (mset (map tk_id (remove1 t (wp_running p))))"
    using mset_remove1_id [OF assms(2)] by simp
  ultimately have "tasks_inv (finished t p)"
    using assms(1) by (auto simp: finished_def tasks_inv_def all_ids_def uncounted_def count_outcome_sum ac_simps)
  then show ?thesis by (simp add: finish_eq [OF assms])
qed

lemma set_phase_ids:
  "i < length (wp_calls p) \<Longrightarrow> mset (all_ids (set_phase i ph p)) + mset (call_ids (wp_calls p ! i)) = mset (all_ids p) + mset (map tk_id (phase_tasks ph))"
  using concat_update [of i "wp_calls p" call_ids "(wp_calls p ! i)\<lparr>sd_phase := ph\<rparr>"]
  by (simp add: all_ids_def set_phase_def call_ids_def ac_simps)

lemma set_phase_uncounted:
  "i < length (wp_calls p) \<Longrightarrow> uncounted (set_phase i ph p) + phase_uncounted (sd_phase (wp_calls p ! i)) = uncounted p + phase_uncounted ph"
  using sum_update [of i "wp_calls p" "phase_uncounted \<circ> sd_phase" "(wp_calls p ! i)\<lparr>sd_phase := ph\<rparr>"]
  by (simp add: uncounted_def set_phase_def)

lemma set_phase_tasks:
  assumes "tasks_inv p" and "i < length (wp_calls p)" and "phase_tasks ph = phase_tasks (sd_phase (wp_calls p ! i))"
    and "phase_uncounted ph = phase_uncounted (sd_phase (wp_calls p ! i))"
  shows "tasks_inv (set_phase i ph p)"
  using assms set_phase_ids [OF assms(2), of ph] set_phase_uncounted [OF assms(2), of ph]
  by (simp add: tasks_inv_def call_ids_def)


lemma settling_tasks:
  assumes "tasks_inv p" and "i < length (wp_calls p)" and "sd_phase (wp_calls p ! i) = Settling (t # ts)"
  shows "tasks_inv (set_phase i (Counting ts) (p\<lparr>wp_settled := wp_settled p @ [(tk_id t, abandoned_outcome)]\<rparr>))"
proof -
  let ?p = "p\<lparr>wp_settled := wp_settled p @ [(tk_id t, abandoned_outcome)]\<rparr>"
  have i: "i < length (wp_calls ?p)" using assms(2) by simp
  have "mset (all_ids ?p) = add_mset (tk_id t) (mset (all_ids p))" by (simp add: all_ids_def)
  then have "mset (all_ids (set_phase i (Counting ts) ?p)) = mset (all_ids p)"
    using set_phase_ids [OF i, of "Counting ts"] assms(3) by (simp add: call_ids_def)
  moreover have "uncounted (set_phase i (Counting ts) ?p) = uncounted p + 1"
    using set_phase_uncounted [OF i, of "Counting ts"] assms(3) by (simp add: uncounted_def)
  ultimately show ?thesis using assms(1) by (simp add: tasks_inv_def ac_simps)
qed

lemma counting_tasks:
  assumes "tasks_inv p" and "i < length (wp_calls p)" and "sd_phase (wp_calls p ! i) = Counting ts"
  shows "tasks_inv (set_phase i (Settling ts) (p\<lparr>wp_stats := (wp_stats p)\<lparr>st_cancelled := st_cancelled (wp_stats p) + 1\<rparr>\<rparr>))"
proof -
  let ?p = "p\<lparr>wp_stats := (wp_stats p)\<lparr>st_cancelled := st_cancelled (wp_stats p) + 1\<rparr>\<rparr>"
  have i: "i < length (wp_calls ?p)" using assms(2) by simp
  have "mset (all_ids (set_phase i (Settling ts) ?p)) = mset (all_ids p)"
    using set_phase_ids [OF i, of "Settling ts"] assms(3) by (simp add: call_ids_def all_ids_def)
  moreover have "uncounted p = uncounted (set_phase i (Settling ts) ?p) + 1"
    using set_phase_uncounted [OF i, of "Settling ts"] assms(3) by (simp add: uncounted_def)
  ultimately show ?thesis using assms(1) by (simp add: tasks_inv_def counted_def ac_simps)
qed

lemma joined_tasks [simp]: "tasks_inv (p\<lparr>wp_joined := b\<rparr>) = tasks_inv p"
  by (simp add: tasks_inv_def all_ids_def uncounted_def)

text \<open>What a turn of a shutdown does, with the promise of an abandoned task always still open.\<close>

lemma shutdown_turn_cases:
  assumes "shutdown_turn i p = Some q" and "tasks_inv p" and "i < length (wp_calls p)"
  obtains "sd_phase (wp_calls p ! i) = IdleAwake" "q = set_phase i (if drained p then Notifying [] else IdleAsleep) p"
  | ts where "sd_phase (wp_calls p ! i) = Notifying ts" "q = set_phase i (Settling ts) (notify_workers p)"
  | "sd_phase (wp_calls p ! i) = Settling []" "q = set_phase i Joining p"
  | t ts where "sd_phase (wp_calls p ! i) = Settling (t # ts)"
      "q = set_phase i (Counting ts) (p\<lparr>wp_settled := wp_settled p @ [(tk_id t, abandoned_outcome)]\<rparr>)"
  | ts where "sd_phase (wp_calls p ! i) = Counting ts"
      "q = set_phase i (Settling ts) (p\<lparr>wp_stats := (wp_stats p)\<lparr>st_cancelled := st_cancelled (wp_stats p) + 1\<rparr>\<rparr>)"
  | "sd_phase (wp_calls p ! i) = Joining" "living p = 0" "q = set_phase i Returned (p\<lparr>wp_joined := True\<rparr>)"
proof (cases "sd_phase (wp_calls p ! i)")
  case (Settling ts)
  show thesis
  proof (cases ts)
    case (Cons t rest)
    then have "tk_id t \<notin> fst ` set (wp_settled p)" using abandoned_fresh [OF assms(2,3), of t] Settling by simp
    then show thesis using assms(1) Settling Cons that(4) by (simp add: shutdown_turn_def settle_fresh)
  qed (use assms(1) Settling that(3) in \<open>simp add: shutdown_turn_def\<close>)
next
  case IdleAwake
  then show thesis using assms(1) by (intro that(1)) (auto simp: shutdown_turn_def)
next
  case (Notifying ts)
  then show thesis using assms(1) by (intro that(2)) (auto simp: shutdown_turn_def)
next
  case (Counting ts)
  then show thesis using assms(1) by (intro that(5)) (auto simp: shutdown_turn_def)
next
  case Joining
  then show thesis using assms(1) by (intro that(6)) (auto simp: shutdown_turn_def split: if_splits)
qed (use assms(1) in \<open>simp_all add: shutdown_turn_def\<close>)

lemma shutdown_turn_tasks:
  assumes "shutdown_turn i p = Some q" and "tasks_inv p" and "i < length (wp_calls p)"
  shows "tasks_inv q"
  using assms
proof (cases rule: shutdown_turn_cases)
  case (4 t ts)
  then show ?thesis using settling_tasks assms by simp
next
  case (5 ts)
  then show ?thesis using counting_tasks assms by simp
qed (use assms in \<open>simp_all add: set_phase_tasks\<close>)

lemma cancel_ids: "map tk_id (map (\<lambda>task. task\<lparr>tk_token := token_cancel reason (tk_token task)\<rparr>) ts) = map tk_id ts"
  by (induction ts) simp_all

lemma begin_tasks: "tasks_inv p \<Longrightarrow> tasks_inv (begin_shutdown drain p)"
  by (auto simp: begin_shutdown_def Let_def tasks_inv_def all_ids_def uncounted_def call_ids_def ac_simps)

lemma progress_tasks: "pool_progress p q \<Longrightarrow> tasks_inv p \<Longrightarrow> tasks_inv q"
  by (induction rule: pool_progress.induct) (auto intro: turn_tasks finish_tasks shutdown_turn_tasks)

lemma action_tasks: "pool_action p q \<Longrightarrow> tasks_inv p \<Longrightarrow> tasks_inv q"
proof (induction rule: pool_action.induct)
  case (cancels p reason)
  then show ?case by (simp add: cancel_pending_def tasks_inv_def all_ids_def uncounted_def comp_def)
qed (auto intro: progress_tasks submit_tasks begin_tasks)

lemma step_tasks: "pool_step p q \<Longrightarrow> tasks_inv p \<Longrightarrow> tasks_inv q"
  by (induction rule: pool_step.induct) (auto intro: action_tasks set_phase_tasks)


section \<open>No wake-up is lost\<close>

lemma drains_only_same: "map sd_drain (wp_calls q) = map sd_drain (wp_calls p) \<Longrightarrow> drains_only q = drains_only p"
  unfolding drains_only_def by (metis (no_types, lifting) imageE image_eqI list.set_map)

lemma set_phase_drain: "i < length (wp_calls p) \<Longrightarrow> map sd_drain (wp_calls (set_phase i ph p)) = map sd_drain (wp_calls p)"
  by (simp add: set_phase_def map_update list_update_same_conv)

lemma set_phase_calls: "c \<in> set (wp_calls (set_phase i ph p)) \<Longrightarrow> c = (wp_calls p ! i)\<lparr>sd_phase := ph\<rparr> \<or> c \<in> set (wp_calls p)"
  using set_update_subset_insert [of "wp_calls p" i] by (auto simp: set_phase_def)

lemma wake_inv_call: "wake_inv p \<Longrightarrow> i < length (wp_calls p) \<Longrightarrow> call_ok (wp_asleep p) (drains_only p) (drained p) (wp_calls p ! i)"
  by (simp add: wake_inv_def)

lemma set_phase_wake:
  assumes I: "wake_inv p" and i: "i < length (wp_calls p)"
    and ok: "call_ok (wp_asleep p) (drains_only p) (drained p) ((wp_calls p ! i)\<lparr>sd_phase := ph\<rparr>)"
  shows "wake_inv (set_phase i ph p)"
proof -
  have "drains_only (set_phase i ph p) = drains_only p" by (rule drains_only_same) (rule set_phase_drain [OF i])
  moreover have "workers_inv (set_phase i ph p)" using I i by (auto simp: wake_inv_def workers_inv_def set_phase_def living_def)
  ultimately show ?thesis using I ok by (auto simp: wake_inv_def dest!: set_phase_calls)
qed

lemma submit_wake: "wake_inv p \<Longrightarrow> wake_inv (snd (submit_task from_worker function p))"
proof (cases rule: submit_cases [of from_worker "function" p])
  case (1 s)
  assume "wake_inv p"
  then show ?thesis by (simp add: 1 wake_inv_def workers_inv_def living_def drains_only_def drained_def)
next
  case (2 call s)
  assume I: "wake_inv p"
  then have c: "wp_calls p = []" using 2(1) by (auto simp: wake_inv_def workers_inv_def)
  have "0 < wp_awake p + wp_asleep p + length (wp_running p)" using I 2(1) by (auto simp: wake_inv_def workers_inv_def living_def)
  then show ?thesis using I c 2(1) unfolding 2(3)
    by (auto simp: wake_inv_def workers_inv_def living_def notify_worker_def)
qed

lemma turn_workers: "workers_inv p \<Longrightarrow> 0 < wp_awake p \<Longrightarrow> workers_inv (worker_turn p)"
  by (auto simp: worker_turn_def Let_def workers_inv_def living_def split: list.split)

lemma turn_calls:
  "wp_calls (worker_turn p) = wp_calls p" "drains_only (worker_turn p) = drains_only p"
  "drained (worker_turn p) \<Longrightarrow> drained p" "wp_stopping p \<Longrightarrow> wp_asleep (worker_turn p) = wp_asleep p"
  by (auto simp: worker_turn_def Let_def drains_only_def drained_def split: list.splits if_splits)

lemma call_ok_mono: "call_ok n a d c \<Longrightarrow> (a' \<Longrightarrow> d' \<Longrightarrow> a \<and> d) \<Longrightarrow> call_ok n a' d' c"
  by (auto simp: call_ok_def)

lemma turn_wake:
  assumes I: "wake_inv p" and "0 < wp_awake p"
  shows "wake_inv (worker_turn p)"
proof -
  have "call_ok (wp_asleep (worker_turn p)) (drains_only p) (drained (worker_turn p)) c" if c: "c \<in> set (wp_calls p)" for c
  proof -
    have "wp_stopping p" using I c by (auto simp: wake_inv_def workers_inv_def)
    then have "wp_asleep (worker_turn p) = wp_asleep p" by (rule turn_calls(4))
    moreover have "call_ok (wp_asleep p) (drains_only p) (drained p) c" using I c by (simp add: wake_inv_def)
    ultimately show ?thesis using turn_calls(3) by (auto intro: call_ok_mono)
  qed
  then show ?thesis using I assms(2) by (simp add: wake_inv_def turn_workers turn_calls(1,2))
qed

lemma woken_ok: "call_ok n a d c \<Longrightarrow> call_ok n a d' (woken c)"
  by (auto simp: call_ok_def woken_def)

lemma finish_wake:
  assumes T: "tasks_inv p" and I: "wake_inv p" and t: "t \<in> set (wp_running p)"
  shows "wake_inv (finish_task t p)"
proof -
  have l: "length (wp_running p) = Suc (length (remove1 t (wp_running p)))"
    using t length_pos_if_in_set [OF t] by (simp add: length_remove1)
  have f: "living (finished t p) = living p" "wp_calls (finished t p) = wp_calls p" "wp_asleep (finished t p) = wp_asleep p"
    "wp_joined (finished t p) = wp_joined p" "wp_config (finished t p) = wp_config p" "wp_queue (finished t p) = wp_queue p"
    "wp_stopping (finished t p) = wp_stopping p" "0 < wp_awake (finished t p)"
    using l by (simp_all add: finished_def living_def)
  have w: "workers_inv (finished t p)" "workers_inv (notify_idle (finished t p))" using I by (auto simp: wake_inv_def workers_inv_def f)
  have d: "drains_only (finished t p) = drains_only p" "drains_only (notify_idle (finished t p)) = drains_only p"
    by (simp_all add: drains_only_def f)
  show ?thesis
  proof (cases "drained (finished t p)")
    case True
    then show ?thesis using I w(2) by (auto simp: finish_eq [OF T t] wake_inv_def d f woken_ok)
  next
    case False
    then show ?thesis using I w(1) by (auto simp: finish_eq [OF T t] wake_inv_def d f elim: call_ok_mono)
  qed
qed

lemma notify_workers_wake: "wake_inv p \<Longrightarrow> wake_inv (notify_workers p)"
  by (auto simp: wake_inv_def workers_inv_def drains_only_def notify_workers_def living_def drained_def call_ok_def)

lemma notify_worker_wake: "wake_inv p \<Longrightarrow> wake_inv (notify_worker p)"
  by (auto simp: wake_inv_def workers_inv_def drains_only_def notify_worker_def living_def drained_def call_ok_def)

lemma shutdown_turn_wake:
  assumes "shutdown_turn i p = Some q" and "tasks_inv p" and I: "wake_inv p" and i: "i < length (wp_calls p)"
  shows "wake_inv q"
proof -
  note ok = wake_inv_call [OF I i]
  have same: "wake_inv (p\<lparr>wp_settled := s\<rparr>)" "wake_inv (p\<lparr>wp_stats := t\<rparr>)" for s t
    using I by (simp_all add: wake_inv_def workers_inv_def living_def drains_only_def drained_def)
  have d: "drains_only (p\<lparr>wp_settled := s\<rparr>) = drains_only p" "drains_only (p\<lparr>wp_stats := t\<rparr>) = drains_only p" for s t
    by (simp_all add: drains_only_def)
  from assms(1,2) i show ?thesis
  proof (cases rule: shutdown_turn_cases)
    case 1
    then show ?thesis unfolding 1(2) using ok by (intro set_phase_wake [OF I i]) (simp add: call_ok_def)
  next
    case (2 ts)
    show ?thesis unfolding 2(2) using i by (intro set_phase_wake [OF notify_workers_wake [OF I]]) (simp_all add: call_ok_def notify_workers_def)
  next
    case 3
    show ?thesis unfolding 3(2) using ok 3(1) by (intro set_phase_wake [OF I i]) (simp add: call_ok_def)
  next
    case (4 t ts)
    show ?thesis unfolding 4(2) using ok 4(1) i by (intro set_phase_wake [OF same(1)]) (simp_all add: call_ok_def)
  next
    case (5 ts)
    show ?thesis unfolding 5(2) using ok 5(1) i by (intro set_phase_wake [OF same(2)]) (simp_all add: call_ok_def)
  next
    case 6
    have "wake_inv (p\<lparr>wp_joined := True\<rparr>)" using I 6(2)
      by (auto simp: wake_inv_def workers_inv_def living_def drains_only_def drained_def)
    then show ?thesis unfolding 6(3) using ok 6(1) i by (intro set_phase_wake) (simp_all add: call_ok_def)
  qed
qed

lemma new_call_wake:
  assumes "workers_inv p" and "wp_stopping p" and "call_ok (wp_asleep p) (drains_only p) (drained p) c"
    and "\<And>b. b \<in> set (wp_calls p) \<Longrightarrow> call_ok (wp_asleep p) (drains_only p \<and> sd_drain c) (drained p) b"
  shows "wake_inv (p\<lparr>wp_calls := wp_calls p @ [c]\<rparr>)"
proof -
  let ?q = "p\<lparr>wp_calls := wp_calls p @ [c]\<rparr>"
  have "workers_inv ?q" using assms(1,2) by (simp add: workers_inv_def living_def)
  moreover have "drains_only ?q = (drains_only p \<and> sd_drain c)" "drained ?q = drained p" by (auto simp: drains_only_def drained_def)
  moreover have "call_ok (wp_asleep p) (drains_only p \<and> sd_drain c) (drained p) c" using assms(3) by (auto intro: call_ok_mono)
  ultimately show ?thesis using assms(4) by (simp add: wake_inv_def)
qed

lemma stop_workers: "workers_inv p \<Longrightarrow> workers_inv (p\<lparr>wp_stopping := True, wp_draining := d\<rparr>)"
  "workers_inv p \<Longrightarrow> workers_inv (p\<lparr>wp_stopping := True, wp_draining := d, wp_queue := []\<rparr>)"
  by (auto simp: workers_inv_def living_def)

lemma begin_wake:
  assumes I: "wake_inv p"
  shows "wake_inv (begin_shutdown drain p)"
proof -
  have w: "workers_inv p" and k: "\<And>c. c \<in> set (wp_calls p) \<Longrightarrow> call_ok (wp_asleep p) (drains_only p) (drained p) c"
    using I by (simp_all add: wake_inv_def)
  let ?p = "p\<lparr>wp_stopping := True, wp_draining := drain\<rparr>"
  have d: "drains_only ?p = drains_only p" "drained ?p = drained p" by (simp_all add: drains_only_def drained_def)
  consider (again) "wp_stopping p \<and> wp_joined p" | (drains) "\<not> (wp_stopping p \<and> wp_joined p)" drain
    | (aborts) "\<not> (wp_stopping p \<and> wp_joined p)" "\<not> drain" by blast
  then show ?thesis
  proof cases
    case again
    then have "wp_asleep p = 0" using w by (simp add: workers_inv_def living_def)
    then have "wake_inv (p\<lparr>wp_calls := wp_calls p @ [\<lparr>sd_drain = drain, sd_phase = Returned\<rparr>]\<rparr>)"
      using again k by (intro new_call_wake [OF w]) (auto simp: call_ok_def)
    then show ?thesis using again by (simp add: begin_shutdown_def)
  next
    case drains
    have "wake_inv (?p\<lparr>wp_calls := wp_calls ?p @ [\<lparr>sd_drain = True, sd_phase = if drained ?p then Notifying [] else IdleAsleep\<rparr>]\<rparr>)"
      using k by (intro new_call_wake stop_workers(1) [OF w]) (auto simp: d call_ok_def)
    then show ?thesis using drains by (auto simp: begin_shutdown_def Let_def)
  next
    case aborts
    let ?r = "?p\<lparr>wp_queue := []\<rparr>"
    have "workers_inv ?r" using stop_workers(2) [OF w] by simp
    then have "wake_inv (?r\<lparr>wp_calls := wp_calls ?r @ [\<lparr>sd_drain = False, sd_phase = Notifying (wp_queue p)\<rparr>]\<rparr>)"
      using k by (intro new_call_wake) (auto simp: call_ok_def)
    then show ?thesis using aborts by (auto simp: begin_shutdown_def Let_def)
  qed
qed

definition pool_inv :: "pool \<Rightarrow> bool" where
  "pool_inv p \<longleftrightarrow> tasks_inv p \<and> wake_inv p"

lemma progress_inv: "pool_progress p q \<Longrightarrow> pool_inv p \<Longrightarrow> pool_inv q"
  by (induction rule: pool_progress.induct)
    (auto simp: pool_inv_def intro: turn_tasks finish_tasks shutdown_turn_tasks turn_wake finish_wake shutdown_turn_wake)

lemma cancel_wake: "wake_inv p \<Longrightarrow> wake_inv (cancel_pending reason p)"
  by (simp add: cancel_pending_def wake_inv_def workers_inv_def living_def drains_only_def drained_def)

lemma action_inv: "pool_action p q \<Longrightarrow> pool_inv p \<Longrightarrow> pool_inv q"
proof (induction rule: pool_action.induct)
  case (cancels p reason)
  then show ?case using action_tasks [OF pool_action.cancels] cancel_wake by (simp add: pool_inv_def)
next
  case (works p q)
  then show ?case by (rule progress_inv)
qed (simp_all add: pool_inv_def submit_tasks begin_tasks submit_wake begin_wake)

lemma step_inv: "pool_step p q \<Longrightarrow> pool_inv p \<Longrightarrow> pool_inv q"
proof (induction rule: pool_step.induct)
  case (idle_wakes i p)
  then have "call_ok (wp_asleep p) (drains_only p) (drained p) (wp_calls p ! i)" by (auto simp: pool_inv_def wake_inv_call)
  then show ?case using idle_wakes set_phase_wake [of p i IdleAwake] set_phase_tasks [of p i IdleAwake] by (simp add: pool_inv_def call_ok_def)
next
  case (worker_wakes p)
  then show ?case by (simp add: pool_inv_def notify_worker_wake)
qed (rule action_inv)

lemma reach_inv: "pool_reach p \<Longrightarrow> pool_inv p"
proof (induction rule: pool_reach.induct)
  case (created config p)
  then show ?case
    by (auto simp: create_pool_def pool_inv_def tasks_inv_def wake_inv_def workers_inv_def all_ids_def new_stats_def counted_def uncounted_def
      living_def split: if_splits)
qed (rule step_inv)


section \<open>Progress\<close>

text \<open>A bound on the work left: every queued task is taken and finished, every woken worker takes one turn, every call of \<^verbatim>\<open>shutdown\<close> runs to its end.\<close>

fun phase_cost :: "nat \<Rightarrow> shutdown_phase \<Rightarrow> nat" where
  "phase_cost w IdleAsleep = w + 4"
| "phase_cost w IdleAwake = w + 5"
| "phase_cost w (Notifying ts) = w + 3 + 2 * length ts"
| "phase_cost w (Settling ts) = 2 + 2 * length ts"
| "phase_cost w (Counting ts) = 3 + 2 * length ts"
| "phase_cost w Joining = 1"
| "phase_cost w Returned = 0"

definition calls_cost :: "pool \<Rightarrow> nat" where
  "calls_cost p = sum_list (map (phase_cost (pc_workers (wp_config p)) \<circ> sd_phase) (wp_calls p))"

definition work_left :: "pool \<Rightarrow> nat" where
  "work_left p = (3 + length (wp_calls p)) * length (wp_queue p) + (2 + length (wp_calls p)) * length (wp_running p) +
     wp_awake p + calls_cost p"

lemma set_phase_cost:
  "i < length (wp_calls p) \<Longrightarrow> calls_cost (set_phase i ph p) + phase_cost (pc_workers (wp_config p)) (sd_phase (wp_calls p ! i)) =
     calls_cost p + phase_cost (pc_workers (wp_config p)) ph"
  using sum_update [of i "wp_calls p" "phase_cost (pc_workers (wp_config p)) \<circ> sd_phase" "(wp_calls p ! i)\<lparr>sd_phase := ph\<rparr>"]
  by (simp add: calls_cost_def set_phase_def)

lemma turn_cost: "0 < wp_awake p \<Longrightarrow> work_left (worker_turn p) < work_left p"
  by (auto simp: worker_turn_def Let_def work_left_def calls_cost_def split: list.split)

lemma woken_cost: "sum_list (map (phase_cost w \<circ> sd_phase) (map woken cs)) \<le> sum_list (map (phase_cost w \<circ> sd_phase) cs) + length cs"
  by (induction cs) (auto simp: woken_def)

lemma finish_cost:
  assumes "tasks_inv p" and t: "t \<in> set (wp_running p)"
  shows "work_left (finish_task t p) < work_left p"
proof -
  have l: "length (wp_running p) = Suc (length (remove1 t (wp_running p)))"
    using t length_pos_if_in_set [OF t] by (simp add: length_remove1)
  have "work_left (finished t p) + 1 + length (wp_calls p) = work_left p"
    by (simp add: finished_def work_left_def calls_cost_def l algebra_simps)
  moreover have "work_left (notify_idle (finished t p)) \<le> work_left (finished t p) + length (wp_calls p)"
    using woken_cost [of "pc_workers (wp_config p)" "wp_calls p"] by (simp add: work_left_def calls_cost_def finished_def)
  ultimately show ?thesis unfolding finish_eq [OF assms] by auto
qed

lemma shutdown_turn_cost:
  assumes "shutdown_turn i p = Some q" and "pool_inv p" and i: "i < length (wp_calls p)"
  shows "work_left q < work_left p"
proof -
  have T: "tasks_inv p" and "wp_asleep p \<le> pc_workers (wp_config p)"
    using assms(2) by (auto simp: pool_inv_def wake_inv_def workers_inv_def living_def)
  note c = set_phase_cost [OF i]
  from assms(1) T i show ?thesis
  proof (cases rule: shutdown_turn_cases)
    case 1
    then show ?thesis using c [of "Notifying []"] c [of IdleAsleep] by (simp add: work_left_def)
  next
    case (2 ts)
    have "calls_cost (set_phase i (Settling ts) (notify_workers p)) = calls_cost (set_phase i (Settling ts) p)"
      by (simp add: calls_cost_def set_phase_def)
    then show ?thesis using 2 c [of "Settling ts"] \<open>wp_asleep p \<le> _\<close> by (simp add: work_left_def notify_workers_def)
  next
    case 3
    then show ?thesis using c [of Joining] by (simp add: work_left_def)
  next
    case (4 t ts)
    have "calls_cost (set_phase i (Counting ts) (p\<lparr>wp_settled := s\<rparr>)) = calls_cost (set_phase i (Counting ts) p)" for s
      by (simp add: calls_cost_def set_phase_def)
    then show ?thesis using 4 c [of "Counting ts"] by (simp add: work_left_def)
  next
    case (5 ts)
    have "calls_cost (set_phase i (Settling ts) (p\<lparr>wp_stats := s\<rparr>)) = calls_cost (set_phase i (Settling ts) p)" for s
      by (simp add: calls_cost_def set_phase_def)
    then show ?thesis using 5 c [of "Settling ts"] by (simp add: work_left_def)
  next
    case 6
    have "calls_cost (set_phase i Returned (p\<lparr>wp_joined := True\<rparr>)) = calls_cost (set_phase i Returned p)"
      by (simp add: calls_cost_def set_phase_def)
    then show ?thesis using 6 c [of Returned] by (simp add: work_left_def)
  qed
qed

lemma progress_cost: "pool_progress p q \<Longrightarrow> pool_inv p \<Longrightarrow> work_left q < work_left p"
  by (induction rule: pool_progress.induct) (auto simp: pool_inv_def intro: turn_cost finish_cost shutdown_turn_cost)


lemma progress_calls:
  assumes "pool_progress p q" and "pool_inv p"
  shows "wp_next q = wp_next p \<and> map sd_drain (wp_calls q) = map sd_drain (wp_calls p)"
  using assms
proof (induction rule: pool_progress.induct)
  case (turns p)
  then show ?case by (simp add: turn_calls(1)) (simp add: worker_turn_def Let_def split: list.split)
next
  case (finishes task p)
  then show ?case by (simp add: pool_inv_def finish_eq) (simp add: finished_def)
next
  case (goes_on i p q)
  then have "tasks_inv p" by (simp add: pool_inv_def)
  from goes_on(2) this goes_on(1) show ?case
    by (cases rule: shutdown_turn_cases) (use goes_on(1) in \<open>simp_all add: set_phase_drain\<close>)
qed

lemma progress_runs:
  "(pool_progress ^^ n) p q \<Longrightarrow> pool_inv p \<Longrightarrow>
     pool_inv q \<and> n + work_left q \<le> work_left p \<and> wp_next q = wp_next p \<and> map sd_drain (wp_calls q) = map sd_drain (wp_calls p)"
proof (induction n arbitrary: q)
  case (Suc n)
  then obtain r where r: "(pool_progress ^^ n) p r" "pool_progress r q" by auto
  with Suc have I: "pool_inv r" "n + work_left r \<le> work_left p" "wp_next r = wp_next p" "map sd_drain (wp_calls r) = map sd_drain (wp_calls p)" by auto
  then show ?case using progress_inv [OF r(2)] progress_cost [OF r(2)] progress_calls [OF r(2)] by simp
qed simp

text \<open>A pool that cannot go on: nothing is queued or running, and every call of \<^verbatim>\<open>shutdown\<close> has returned or waits for \<^verbatim>\<open>idle\<close>.\<close>

lemma stuck_workers:
  assumes "pool_inv q" and "\<nexists>r. pool_progress q r"
  shows "wp_awake q = 0" "wp_running q = []" "wp_queue q = []" "drained q"
proof -
  show a: "wp_awake q = 0" using assms(2) turns by blast
  show r: "wp_running q = []" using assms(2) finishes by (metis list.set_intros(1) neq_Nil_conv)
  show "wp_queue q = []" using assms(1) a r by (auto simp: pool_inv_def wake_inv_def workers_inv_def)
  then show "drained q" using assms(1) r by (simp add: drained_def pool_inv_def tasks_inv_def)
qed

lemma stuck_calls:
  assumes I: "pool_inv q" and no: "\<nexists>r. pool_progress q r" and c: "c \<in> set (wp_calls q)"
  shows "sd_phase c = Returned \<or> sd_phase c = IdleAsleep \<and> sd_drain c \<and> \<not> drains_only q"
proof -
  obtain i where i: "i < length (wp_calls q)" "wp_calls q ! i = c" using c by (auto simp: in_set_conv_nth)
  then have none: "shutdown_turn i q = None" using no goes_on by (metis option.exhaust)
  have ok: "call_ok (wp_asleep q) (drains_only q) (drained q) c" using I c by (simp add: pool_inv_def wake_inv_def)
  note s = stuck_workers [OF I no]
  show ?thesis
  proof (cases "sd_phase c")
    case (Settling ts)
    then show ?thesis using none i by (auto simp: shutdown_turn_def settle_def split: list.splits if_splits)
  next
    case Joining
    then have "living q = 0" using ok s by (simp add: call_ok_def living_def)
    then show ?thesis using none i Joining by (simp add: shutdown_turn_def)
  qed (use none i ok s(4) in \<open>auto simp: shutdown_turn_def call_ok_def\<close>)
qed

lemma stuck_settled:
  assumes I: "pool_inv q" and no: "\<nexists>r. pool_progress q r" and "i < wp_next q"
  shows "handle_get (Some i) q \<noteq> None"
proof -
  have "call_ids c = []" if "c \<in> set (wp_calls q)" for c using stuck_calls [OF I no that] by (auto simp: call_ids_def)
  then have "set (all_ids q) = fst ` set (wp_settled q)" using stuck_workers [OF I no] by (simp add: all_ids_def)
  then have "i \<in> fst ` set (wp_settled q)" using tasks_inv_ids [of q] I assms(3) by (auto simp: pool_inv_def)
  then show ?thesis by (simp add: handle_get_def map_of_eq_None_iff)
qed

section \<open>A drain that is never woken\<close>

text \<open>A draining call that waits although nothing is left to drain.\<close>

definition forgotten :: "nat \<Rightarrow> pool \<Rightarrow> bool" where
  "forgotten i p \<longleftrightarrow> i < length (wp_calls p) \<and> sd_phase (wp_calls p ! i) = IdleAsleep \<and> wp_stopping p \<and> drained p \<and> wp_running p = []"

lemma set_phase_other: "i \<noteq> j \<Longrightarrow> wp_calls (set_phase j ph p) ! i = wp_calls p ! i"
  by (simp add: set_phase_def)

lemma shutdown_turn_other:
  assumes "shutdown_turn j p = Some q" and "tasks_inv p" and "j < length (wp_calls p)" and "i \<noteq> j"
  shows "wp_calls q ! i = wp_calls p ! i" "length (wp_calls q) = length (wp_calls p)" "wp_stopping q = wp_stopping p" "drained q = drained p"
    "wp_running q = wp_running p"
  using assms by (cases rule: shutdown_turn_cases; simp add: set_phase_other drained_def)+

lemma forgotten_progress: "pool_progress p q \<Longrightarrow> pool_inv p \<Longrightarrow> forgotten i p \<Longrightarrow> forgotten i q"
proof (induction rule: pool_progress.induct)
  case (turns p)
  then show ?case by (simp add: worker_turn_def Let_def forgotten_def drained_def)
next
  case (goes_on j p q)
  then have "i \<noteq> j" by (auto simp: forgotten_def shutdown_turn_def)
  then show ?case using shutdown_turn_other [OF goes_on(2) _ goes_on(1)] goes_on by (simp add: forgotten_def pool_inv_def)
qed (simp add: forgotten_def)

lemma forgotten_action: "pool_action p q \<Longrightarrow> pool_inv p \<Longrightarrow> forgotten i p \<Longrightarrow> forgotten i q"
proof (induction rule: pool_action.induct)
  case (submits p from_worker f)
  then show ?case by (cases rule: submit_cases [of from_worker f p]) (simp_all add: forgotten_def drained_def)
next
  case (works p q)
  then show ?case by (rule forgotten_progress)
qed (auto simp: forgotten_def drained_def cancel_pending_def begin_shutdown_def Let_def nth_append)

lemma forgotten_actions:
  assumes "pool_inv p" and "forgotten i p" and "pool_action\<^sup>*\<^sup>* p q"
  shows "forgotten i q"
proof -
  from assms(3,1,2) have "pool_inv q \<and> forgotten i q"
    by (induction rule: rtranclp_induct) (auto intro: action_inv forgotten_action)
  then show ?thesis by simp
qed

lemma stuck_forgotten:
  assumes I: "pool_inv q" and no: "\<nexists>r. pool_progress q r" and i: "i < length (wp_calls q)" and s: "sd_phase (wp_calls q ! i) = IdleAsleep"
  shows "forgotten i q"
proof -
  have "wp_stopping q" using I i by (auto simp: pool_inv_def wake_inv_def workers_inv_def)
  then show ?thesis using stuck_workers [OF I no] i s by (simp add: forgotten_def)
qed

section \<open>Properties of the pool\<close>

lemma uncounted_calls: "uncounted p = length (filter (\<lambda>c. \<exists>ts. sd_phase c = Counting ts) (wp_calls p))"
proof -
  have "phase_uncounted ph = (if \<exists>ts. ph = Counting ts then 1 else 0)" for ph by (cases ph) simp_all
  then have "sum_list (map (phase_uncounted \<circ> sd_phase) cs) = length (filter (\<lambda>c. \<exists>ts. sd_phase c = Counting ts) cs)" for cs
    by (induction cs) simp_all
  then show ?thesis by (simp add: uncounted_def)
qed

text \<open>C33: No submitted task is lost or settled twice: in every reachable state of the pool, under every
  interleaving of submissions, cancellations, shutdowns, workers and spurious wake-ups, each submitted
  task is either queued, held by one worker, taken out by a shutdown, or settled exactly once; the queue
  and the running tasks stay within their bounds; and the counters account for every settled task but
  those an aborting shutdown has settled outside the lock and not yet counted, at most one per call.\<close>

theorem pool_accounts:
  assumes "pool_reach p"
  shows "distinct (all_ids p) \<and> set (all_ids p) = {..<wp_next p} \<and> length (wp_queue p) \<le> pc_queue_depth (wp_config p) \<and>
    wp_active p = length (wp_running p) \<and> wp_active p \<le> pc_workers (wp_config p) \<and>
    st_submitted (wp_stats p) = word_of_nat (wp_next p) \<and>
    st_completed (wp_stats p) + st_failed (wp_stats p) + st_cancelled (wp_stats p) + word_of_nat (uncounted p) =
      word_of_nat (length (wp_settled p)) \<and>
    uncounted p = length (filter (\<lambda>c. \<exists>ts. sd_phase c = Counting ts) (wp_calls p))"
  using reach_inv [OF assms] tasks_inv_distinct [of p] tasks_inv_ids [of p]
  by (auto simp: pool_inv_def tasks_inv_def wake_inv_def workers_inv_def living_def counted_def uncounted_calls)


section \<open>A pool with one worker\<close>

definition demo_pool :: pool where
  "demo_pool = \<lparr>wp_config = \<lparr>pc_workers = 1, pc_queue_depth = 1\<rparr>, wp_queue = [], wp_stats = new_stats, wp_stopping = False,
     wp_draining = False, wp_active = 0, wp_running = [], wp_awake = 1, wp_asleep = 0, wp_calls = [], wp_joined = False, wp_settled = [], wp_next = 0\<rparr>"

text \<open>The worker sleeps, a task is submitted, and two calls of \<^verbatim>\<open>shutdown\<close> arrive, the first draining, the second aborting.\<close>

definition demo_submitted :: pool where
  "demo_submitted = snd (submit_task False (Some (Returns (Inr ''r''))) (worker_turn demo_pool))"

definition demo_drain :: pool where
  "demo_drain = begin_shutdown True demo_submitted"

definition demo_mixed :: pool where
  "demo_mixed = begin_shutdown False demo_drain"

lemma demo_reach: "pool_reach demo_submitted" "pool_reach demo_drain" "pool_reach demo_mixed"
proof -
  have "create_pool \<lparr>pc_workers = 1, pc_queue_depth = 1\<rparr> = Inr demo_pool" by (simp add: create_pool_def demo_pool_def)
  then have "pool_reach demo_pool" by (rule created)
  moreover have "pool_step demo_pool (worker_turn demo_pool)" by (intro acts works turns) (simp add: demo_pool_def)
  ultimately have "pool_reach (worker_turn demo_pool)" by (rule stepped)
  then show s: "pool_reach demo_submitted" unfolding demo_submitted_def by (rule stepped) (intro acts submits)
  then show d: "pool_reach demo_drain" unfolding demo_drain_def by (rule stepped) (intro acts shuts)
  then show "pool_reach demo_mixed" unfolding demo_mixed_def by (rule stepped) (intro acts shuts)
qed

lemma demo_fields:
  "wp_next demo_drain = 1" "wp_awake demo_drain = 1" "wp_asleep demo_drain = 0" "handle_get (Some 0) demo_drain = None"
  "map sd_phase (wp_calls demo_drain) = [IdleAsleep]" "drains_only demo_drain"
  "length (wp_calls demo_mixed) = 2" "sd_phase (wp_calls demo_mixed ! 0) = IdleAsleep" "wp_queue demo_mixed = []" "wp_active demo_mixed = 0"
  by (simp_all add: demo_mixed_def demo_drain_def demo_submitted_def submit_task_def worker_turn_def demo_pool_def begin_shutdown_def
    notify_worker_def handle_get_def drained_def drains_only_def Let_def)

theorem pool_accounts_witness: "set (all_ids demo_mixed) = {0}"
proof -
  have "wp_next demo_mixed = 1" using demo_fields(1) by (simp add: demo_mixed_def begin_shutdown_def Let_def)
  then show ?thesis using pool_accounts [OF demo_reach(3)] by (simp add: lessThan_Suc)
qed


text \<open>The exception is reachable: the aborting call leaves the draining one waiting for a pool that is idle already.\<close>

lemma aborted_drain_forgotten: "pool_reach demo_mixed \<and> forgotten 0 demo_mixed"
proof -
  have I: "pool_inv demo_mixed" using demo_reach(3) by (rule reach_inv)
  then have "wp_running demo_mixed = []" "wp_stopping demo_mixed"
    using demo_fields by (auto simp: pool_inv_def tasks_inv_def wake_inv_def workers_inv_def)
  then show ?thesis using demo_reach(3) demo_fields by (simp add: forgotten_def drained_def)
qed

end
