(* ===== verification/Engine.thy ===== *)
theory Engine
  imports Attribution Ingest_Codec Baseline_Codec Store_Runs Worker_Pool
begin

text \<open>
  \<^verbatim>\<open>runtime/engine.cpp\<close>: the runtime that owns the catalog, the clock registry, the ingest gate, the
  baselines and the loaded records, and writes everything it accepts to the store. Every entry point
  holds one lock for its whole body, so an entry point is one step on the engine and the disk.
  Readings of the wall clock are arguments: \<open>now\<close> is the reading an append makes when it opens a
  segment, and \<open>clock\<close> numbers the readings of an operation that appends several records.
\<close>

section \<open>State\<close>

record runtime_config =
  rc_policy :: runtime_policy
  rc_store_directory :: "string option"
  rc_durable_writes :: bool
  rc_readonly :: bool
  rc_workers :: pool_config

record engine_stats =
  es_session_started_at :: timestamp
  es_session_uptime_ns :: nanos
  es_measurements_stored :: u64
  es_measurements_current :: u64
  es_measurements_historical :: u64
  es_measurements_rejected :: u64
  es_ingest_batches :: u64
  es_records_persisted :: u64
  es_baselines :: u64
  es_sources :: u64
  es_paths :: u64
  es_generations :: u64
  es_clock_domains :: u64
  es_queries :: u64
  es_records_recovered :: u64
  es_recovery_truncated :: bool
  es_store_bytes :: u64
  es_workers :: pool_stats

definition empty_stats :: engine_stats where
  "empty_stats = \<lparr>es_session_started_at = unset_timestamp, es_session_uptime_ns = 0, es_measurements_stored = 0,
     es_measurements_current = 0, es_measurements_historical = 0, es_measurements_rejected = 0, es_ingest_batches = 0,
     es_records_persisted = 0, es_baselines = 0, es_sources = 0, es_paths = 0, es_generations = 0, es_clock_domains = 0,
     es_queries = 0, es_records_recovered = 0, es_recovery_truncated = False, es_store_bytes = 0, es_workers = new_stats\<rparr>"

record engine =
  en_policy :: runtime_policy
  en_config :: runtime_config
  en_catalog :: catalog
  en_clocks :: clock_registry
  en_gate :: ingest_gate
  en_baselines :: baseline_store
  en_records :: "measurement_record list"
  en_recovery :: recovery_report
  en_stats :: engine_stats
  en_session_start :: timestamp
  en_record_capacity :: nat
  en_query_count :: u64
  en_writer :: "store_writer option"
  en_pool :: "pool option"
  en_shut_down :: bool

type_synonym world = "engine \<times> disk"

text \<open>The constructor; the capacity and the session start are set by \<^verbatim>\<open>create\<close> before anything else runs.\<close>

definition new_engine :: "runtime_config \<Rightarrow> timestamp \<Rightarrow> engine" where
  "new_engine config start =
     (let policy = rc_policy config
      in \<lparr>en_policy = policy, en_config = config, en_catalog = empty_catalog (pol_limits policy),
          en_clocks = empty_registry policy, en_gate = new_gate policy, en_baselines = empty_store (pol_limits policy) policy,
          en_records = [], en_recovery = empty_recovery, en_stats = empty_stats, en_session_start = start,
          en_record_capacity = max_total_samples (pol_limits policy), en_query_count = 0, en_writer = None, en_pool = None,
          en_shut_down = False\<rparr>)"

text \<open>
  \<^verbatim>\<open>encode_with\<close>: the text a fresh compact writer holds after the calls. The assertion that it is
  balanced is the case None of \<open>written\<close>; \<open>encode_with_value\<close> shows that it holds for every encoder.
\<close>

definition encode_with :: "writer_op \<Rightarrow> string" where
  "encode_with f = the (written f)"

text \<open>A failed reading of a text is an error value; \<open>parse_json\<close> always returns.\<close>

definition parse_payload :: "string \<Rightarrow> limits \<Rightarrow> json result" where
  "parse_payload payload l = the (parse_json payload (max_json_depth l))"

section \<open>Loading a store\<close>

definition reclassify_loaded :: "engine \<Rightarrow> measurement_record \<Rightarrow> measurement_record" where
  "reclassify_loaded e r =
     (let age = estimate_age (en_clocks e) (stamp_observed_at (rec_stamp r)) (en_session_start e);
          ev = (rec_evidence r)\<lparr>ev_freshness := (case age_value age of
                  Some a \<Rightarrow> classify_age (pol_freshness (en_policy e)) a | None \<Rightarrow> UnknownFreshness)\<rparr>;
          ev = add_reason RestartLoadedEvidence [] ev;
          ev = (if \<not> usable ev \<and> ev_state ev = Observed then add_reason EvidenceStale [] ev else ev)
      in r\<lparr>rec_evidence := ev\<rparr>)"

text \<open>A definition, report or baseline read from the store goes through the same operation as a new one.\<close>

definition restore_with :: "'a result \<Rightarrow> ('a \<Rightarrow> engine \<Rightarrow> 'b result \<times> engine) \<Rightarrow> engine \<Rightarrow> status \<times> engine" where
  "restore_with decoded operation e =
     (case decoded of
        Inl err \<Rightarrow> (Inl err, e)
      | Inr value \<Rightarrow> (case operation value e of (Inl err, e) \<Rightarrow> (Inl err, e) | (Inr _, e) \<Rightarrow> (ok_status, e)))"

definition on_catalog :: "('a \<Rightarrow> catalog \<Rightarrow> 'b result \<times> catalog) \<Rightarrow> 'a \<Rightarrow> engine \<Rightarrow> 'b result \<times> engine" where
  "on_catalog f v e = (case f v (en_catalog e) of (r, c) \<Rightarrow> (r, e\<lparr>en_catalog := c\<rparr>))"

definition on_clocks :: "('a \<Rightarrow> clock_registry \<Rightarrow> 'b result \<times> clock_registry) \<Rightarrow> 'a \<Rightarrow> engine \<Rightarrow> 'b result \<times> engine" where
  "on_clocks f v e = (case f v (en_clocks e) of (r, c) \<Rightarrow> (r, e\<lparr>en_clocks := c\<rparr>))"

definition on_baselines :: "('a \<Rightarrow> baseline_store \<Rightarrow> 'b result \<times> baseline_store) \<Rightarrow> 'a \<Rightarrow> engine \<Rightarrow> 'b result \<times> engine" where
  "on_baselines f v e = (case f v (en_baselines e) of (r, b) \<Rightarrow> (r, e\<lparr>en_baselines := b\<rparr>))"

definition add_record :: "measurement_record \<Rightarrow> engine \<Rightarrow> status \<times> engine" where
  "add_record r e = (ok_status, e\<lparr>en_records := en_records e @ [reclassify_loaded e r]\<rparr>)"

definition add_fence :: "source_id \<times> source_fence_state \<Rightarrow> engine \<Rightarrow> status \<times> engine" where
  "add_fence restored e = (ok_status, e\<lparr>en_gate := restore_fence (fst restored) (snd restored) (en_gate e)\<rparr>)"

fun restore_document :: "record_type \<Rightarrow> json \<Rightarrow> engine \<Rightarrow> status \<times> engine" where
  "restore_document SourceRecord document = restore_with (decode_source document) (on_catalog define_source)"
| "restore_document EndpointRecord document = restore_with (decode_endpoint document) (on_catalog define_endpoint)"
| "restore_document LinkRecord document = restore_with (decode_link document) (on_catalog define_link)"
| "restore_document QueueRecord document = restore_with (decode_queue document) (on_catalog define_queue)"
| "restore_document HopRecord document = restore_with (decode_hop document) (on_catalog define_hop)"
| "restore_document GenerationRecord document = restore_with (decode_generation document) (on_catalog define_generation)"
| "restore_document PathRecord document = restore_with (decode_path document) (on_catalog define_path)"
| "restore_document ClockDomainRecord document = restore_with (decode_clock_domain document) (on_clocks define_domain)"
| "restore_document ClockSyncRecord document = restore_with (decode_clock_sync document) (on_clocks record_sync)"
| "restore_document MeasurementCurrent document = restore_with (decode_measurement document) add_record"
| "restore_document MeasurementHistorical document = restore_with (decode_measurement document) add_record"
| "restore_document BaselineRecord document = restore_with (decode_baseline document) (on_baselines store_add)"
| "restore_document FenceStateRecord document = restore_with (decode_fence_state document) add_fence"

definition load_record :: "record_type \<times> string \<Rightarrow> engine \<Rightarrow> status \<times> engine" where
  "load_record record e =
     (case parse_payload (snd record) (pol_limits (en_policy e)) of
        Inl err \<Rightarrow> (Inl err, e)
      | Inr document \<Rightarrow> restore_document (fst record) document e)"

fun load_records :: "(record_type \<times> string) list \<Rightarrow> engine \<Rightarrow> status \<times> engine" where
  "load_records [] e = (ok_status, e)"
| "load_records (record # rest) e = then_do (load_record record e) (load_records rest)"

definition load_store :: "string \<Rightarrow> world \<Rightarrow> status \<times> world" where
  "load_store directory s =
     (let (e, d) = s;
          config = \<lparr>sc_directory = directory, sc_limits = pol_limits (en_policy e), sc_policy_digest = policy_digest (en_policy e),
            sc_create_if_missing = False\<rparr>
      in case open_reader config d of
           (Inl err, d) \<Rightarrow> (Inl err, e, d)
         | (Inr reader, d) \<Rightarrow>
             (case read_all (rd_config reader) d [] (en_recovery e) of (r, loaded, report, d) \<Rightarrow>
                let e = e\<lparr>en_recovery := report\<rparr>
                in case r of
                     Inl err \<Rightarrow> (Inl err, e, d)
                   | Inr _ \<Rightarrow>
                       if length loaded > en_record_capacity e
                       then (fail CapacityExceeded ''the store holds more records than this runtime is configured to load''
                               (show_nat (length loaded)), e, d)
                       else case load_records (map (\<lambda>r. (sr_type r, sr_payload r)) loaded) e of (r, e) \<Rightarrow> (r, e, d)))"

text \<open>\<^verbatim>\<open>create\<close>: \<open>start\<close> is the reading for the session, \<open>now\<close> the one a new manifest is written with.\<close>

definition attach_store :: "nanos \<Rightarrow> string \<Rightarrow> world \<Rightarrow> status \<times> world" where
  "attach_store now directory s =
     then_do (if om_find (dk_files (snd s)) manifest_name \<noteq> None then load_store directory s else (ok_status, s)) (\<lambda>(e, d).
       let config = \<lparr>sc_directory = directory, sc_limits = pol_limits (en_policy e), sc_policy_digest = policy_digest (en_policy e),
             sc_create_if_missing = True\<rparr>
       in case open_writer config now d of
            (Inl err, d) \<Rightarrow> (Inl err, e, d)
          | (Inr w, d) \<Rightarrow> (ok_status, e\<lparr>en_writer := Some w\<rparr>, d))"

definition create_engine :: "runtime_config \<Rightarrow> timestamp \<Rightarrow> nanos \<Rightarrow> disk \<Rightarrow> engine result \<times> disk" where
  "create_engine config start now d =
     (case policy_validate (rc_policy config) of
        Inl err \<Rightarrow> (Inl err, d)
      | Inr _ \<Rightarrow>
          (case (case rc_store_directory config of
                   None \<Rightarrow> (ok_status, new_engine config start, d)
                 | Some directory \<Rightarrow> attach_store now directory (new_engine config start, d)) of
             (Inl err, e, d) \<Rightarrow> (Inl err, d)
           | (Inr _, e, d) \<Rightarrow>
               (case create_pool (rc_workers config) of
                  Inl err \<Rightarrow> (Inl err, d)
                | Inr pool \<Rightarrow> (Inr (e\<lparr>en_pool := Some pool\<rparr>), d))))"

section \<open>Writers\<close>

definition persist :: "nanos \<Rightarrow> record_type \<Rightarrow> string \<Rightarrow> bool \<Rightarrow> world \<Rightarrow> status \<times> world" where
  "persist now t payload sync_now s =
     (let (e, d) = s
      in if rc_readonly (en_config e) then (fail error_code.Refused ''the runtime is configured as read only'' [], s)
         else case en_writer e of
           None \<Rightarrow> (ok_status, s)
         | Some w \<Rightarrow>
             (case then_do (append_record now t payload (w, d))
                     (\<lambda>st. if rc_durable_writes (en_config e) \<and> sync_now then sync_writer st else (ok_status, st)) of
                (r, w, d) \<Rightarrow> (r, e\<lparr>en_writer := Some w\<rparr>, d)))"

text \<open>
  The body the nine defining entry points share: the operation on the catalog or the registry, then
  the text of what the caller passed. \<open>change\<close> is the operation, \<open>f\<close> the encoder applied to the argument.
\<close>

definition define_with :: "nanos \<Rightarrow> record_type \<Rightarrow> (engine \<Rightarrow> 'i result \<times> engine) \<Rightarrow> writer_op \<Rightarrow> world \<Rightarrow> 'i result \<times> world" where
  "define_with now t change f s =
     (let (e, d) = s
      in if en_shut_down e then (fail ShuttingDown ''the runtime is shut down'' [], s)
         else case change e of
           (Inl err, e) \<Rightarrow> (Inl err, e, d)
         | (Inr i, e) \<Rightarrow>
             (case persist now t (encode_with f) True (e, d) of
                (Inl err, s) \<Rightarrow> (Inl err, s)
              | (Inr _, s) \<Rightarrow> (Inr i, s)))"

definition engine_define_source :: "nanos \<Rightarrow> source_descriptor \<Rightarrow> world \<Rightarrow> source_id result \<times> world" where
  "engine_define_source now descriptor = define_with now SourceRecord (on_catalog define_source descriptor) (write_source descriptor)"

definition engine_define_endpoint :: "nanos \<Rightarrow> endpoint_def \<Rightarrow> world \<Rightarrow> endpoint_id result \<times> world" where
  "engine_define_endpoint now v = define_with now EndpointRecord (on_catalog define_endpoint v) (write_endpoint v)"

definition engine_define_link :: "nanos \<Rightarrow> link_def \<Rightarrow> world \<Rightarrow> link_id result \<times> world" where
  "engine_define_link now v = define_with now LinkRecord (on_catalog define_link v) (write_link v)"

definition engine_define_queue :: "nanos \<Rightarrow> queue_def \<Rightarrow> world \<Rightarrow> queue_id result \<times> world" where
  "engine_define_queue now v = define_with now QueueRecord (on_catalog define_queue v) (write_queue v)"

definition engine_define_hop :: "nanos \<Rightarrow> hop_def \<Rightarrow> world \<Rightarrow> hop_id result \<times> world" where
  "engine_define_hop now v = define_with now HopRecord (on_catalog define_hop v) (write_hop v)"

definition engine_define_generation :: "nanos \<Rightarrow> generation_def \<Rightarrow> world \<Rightarrow> generation_id result \<times> world" where
  "engine_define_generation now v = define_with now GenerationRecord (on_catalog define_generation v) (write_generation v)"

definition engine_define_path :: "nanos \<Rightarrow> path_def \<Rightarrow> world \<Rightarrow> path_id result \<times> world" where
  "engine_define_path now v = define_with now PathRecord (on_catalog define_path v) (write_path v)"

definition engine_define_clock_domain :: "nanos \<Rightarrow> clock_domain_def \<Rightarrow> world \<Rightarrow> clock_domain_id result \<times> world" where
  "engine_define_clock_domain now v = define_with now ClockDomainRecord (on_clocks define_domain v) (write_clock_domain v)"

definition engine_record_clock_sync :: "nanos \<Rightarrow> clock_sync \<Rightarrow> world \<Rightarrow> status \<times> world" where
  "engine_record_clock_sync now v = define_with now ClockSyncRecord (on_clocks record_sync v) (write_clock_sync v)"

definition bump_persisted :: "engine \<Rightarrow> engine" where
  "bump_persisted e = e\<lparr>en_stats := (en_stats e)\<lparr>es_records_persisted := es_records_persisted (en_stats e) + 1\<rparr>\<rparr>"

text \<open>The three loops of \<^verbatim>\<open>ingest\<close>; \<open>clock n\<close> is the reading of its append number n.\<close>

fun persist_records :: "(nat \<Rightarrow> nanos) \<Rightarrow> nat \<Rightarrow> record_type \<Rightarrow> measurement_record list \<Rightarrow> world \<Rightarrow> status \<times> world" where
  "persist_records clock n t [] s = (ok_status, s)"
| "persist_records clock n t (r # rs) s =
     then_do (persist (clock n) t (encode_with (write_measurement r)) False s) (\<lambda>(e, d).
       persist_records clock (Suc n) t rs (let e = bump_persisted e in e\<lparr>en_records := en_records e @ [r]\<rparr>, d))"

fun persist_fences :: "(nat \<Rightarrow> nanos) \<Rightarrow> nat \<Rightarrow> (source_id \<times> source_fence_state) list \<Rightarrow> world \<Rightarrow> status \<times> world" where
  "persist_fences clock n [] s = (ok_status, s)"
| "persist_fences clock n (entry # rest) s =
     then_do (persist (clock n) FenceStateRecord (encode_with (write_fence (fst entry) (snd entry))) False s) (\<lambda>(e, d).
       persist_fences clock (Suc n) rest (bump_persisted e, d))"

definition sync_store :: "world \<Rightarrow> status \<times> world" where
  "sync_store s =
     (let (e, d) = s
      in case en_writer e of
           None \<Rightarrow> (ok_status, s)
         | Some w \<Rightarrow> (case sync_writer (w, d) of (r, w, d) \<Rightarrow> (r, e\<lparr>en_writer := Some w\<rparr>, d)))"

definition persist_batch :: "(nat \<Rightarrow> nanos) \<Rightarrow> admission \<Rightarrow> world \<Rightarrow> status \<times> world" where
  "persist_batch clock a s =
     then_do (persist_records clock 0 MeasurementCurrent (adm_current a) s) (\<lambda>s.
     then_do (persist_records clock (length (adm_current a)) MeasurementHistorical (adm_history a) s) (\<lambda>s.
     then_do (persist_fences clock (length (adm_current a) + length (adm_history a)) (gate_fences (adm_gate a)) s) (\<lambda>s.
       if rc_durable_writes (en_config (fst s)) then sync_store s else (ok_status, s))))"

definition tally_batch :: "ingest_report \<Rightarrow> engine \<Rightarrow> engine" where
  "tally_batch report e =
     (let s = en_stats e
      in e\<lparr>en_stats := s\<lparr>es_measurements_stored := word_of_nat (length (en_records e)),
           es_measurements_current := es_measurements_current s + rep_accepted_current report,
           es_measurements_historical := es_measurements_historical s + rep_accepted_historical report,
           es_measurements_rejected := es_measurements_rejected s + rep_rejected report\<rparr>\<rparr>)"

definition over_capacity :: "engine \<Rightarrow> ingest_request \<Rightarrow> bool" where
  "over_capacity e request =
     (case checked_add_size (word_of_nat (length (en_records e))) (word_of_nat (length (req_records request))) of
        None \<Rightarrow> True | Some projected \<Rightarrow> unat projected > en_record_capacity e)"

definition engine_ingest :: "(nat \<Rightarrow> nanos) \<Rightarrow> ingest_request \<Rightarrow> world \<Rightarrow> ingest_report result \<times> world" where
  "engine_ingest clock request s =
     (let (e, d) = s
      in if en_shut_down e then (fail ShuttingDown ''the runtime is shut down'' [], s)
         else if rc_readonly (en_config e) then (fail error_code.Refused ''the runtime is read only'' [], s)
         else if over_capacity e request
         then (fail CapacityExceeded ''the runtime has reached its configured evidence capacity'' (show_nat (length (en_records e))), s)
         else case admit (en_catalog e) (en_clocks e) request
                \<lparr>adm_current = [], adm_history = [], adm_report = empty_report, adm_gate = en_gate e\<rparr> of
           (r, a) \<Rightarrow>
             let e = e\<lparr>en_gate := adm_gate a\<rparr>
             in case r of
                  Inl err \<Rightarrow> (Inl err, e, d)
                | Inr _ \<Rightarrow>
                    let e = e\<lparr>en_stats := (en_stats e)\<lparr>es_ingest_batches := es_ingest_batches (en_stats e) + 1\<rparr>\<rparr>
                    in case persist_batch clock a (e, d) of
                         (Inl err, s) \<Rightarrow> (Inl err, s)
                       | (Inr _, e, d) \<Rightarrow> (Inr (adm_report a), tally_batch (adm_report a) e, d))"

section \<open>Baselines\<close>

record baseline_request =
  bq_name :: name
  bq_path :: path_id
  bq_generation :: generation_id
  bq_mode :: aggregation_mode
  bq_window :: time_window
  bq_histogram :: histogram_spec
  bq_probes :: "quantile_probe list"
  bq_source :: source_id

text \<open>\<^verbatim>\<open>records_locked\<close>: a pointer to every record, in the order in which they are held.\<close>

definition records_locked :: "engine \<Rightarrow> measurement_record option list" where
  "records_locked e = map Some (en_records e)"

definition baseline_summary_request :: "baseline_request \<Rightarrow> summary_request" where
  "baseline_summary_request q = \<lparr>sq_path = bq_path q, sq_generation = bq_generation q, sq_mode = bq_mode q, sq_window = bq_window q,
     sq_histogram = bq_histogram q, sq_probes = bq_probes q, sq_restrict_to_source = bq_source q\<rparr>"

definition new_baseline :: "baseline_request \<Rightarrow> path_summary \<Rightarrow> runtime_policy \<Rightarrow> timestamp \<Rightarrow> baseline" where
  "new_baseline q summary policy created_at =
     \<lparr>bl_id = no_id, bl_name = bq_name q, bl_path = bq_path q, bl_generation = bq_generation q,
      bl_domain = ts_domain (tw_from (bq_window q)), bl_revision = first_revision, bl_histogram = bq_histogram q,
      bl_probes = bq_probes q, bl_source = bq_source q, bl_synthetic = valid_id (bq_source q), bl_created_at = created_at,
      bl_window = bq_window q, bl_exchange_count = ps_exchanges_included summary, bl_end_to_end = ps_end_to_end summary,
      bl_hops = ps_hops summary, bl_evidence = ps_evidence summary, bl_policy_digest = policy_digest policy\<rparr>"

definition create_baseline :: "nanos \<Rightarrow> timestamp \<Rightarrow> baseline_request \<Rightarrow> world \<Rightarrow> baseline_id result \<times> world" where
  "create_baseline now created_at q s =
     (let (e, d) = s
      in if en_shut_down e then (fail ShuttingDown ''the runtime is shut down'' [], s)
         else case summarize_path (records_locked e) (en_catalog e) (baseline_summary_request q) (en_policy e) of
           Inl err \<Rightarrow> (Inl err, s)
         | Inr summary \<Rightarrow>
             if ps_exchanges_included summary = 0
             then (fail error_code.Refused ''a baseline cannot be created from a window with no usable evidence'' [], s)
             else case store_add (new_baseline q summary (en_policy e) created_at) (en_baselines e) of
               (Inl err, b) \<Rightarrow> (Inl err, e\<lparr>en_baselines := b\<rparr>, d)
             | (Inr i, b) \<Rightarrow>
                 let e = e\<lparr>en_baselines := b\<rparr>
                 in case store_get b i of
                      Inl err \<Rightarrow> (Inl err, e, d)
                    | Inr kept \<Rightarrow>
                        (case persist now BaselineRecord (encode_with (write_baseline kept)) True (e, d) of
                           (Inl err, s) \<Rightarrow> (Inl err, s)
                         | (Inr _, e, d) \<Rightarrow>
                             let e = bump_persisted e
                             in (Inr i, e\<lparr>en_stats := (en_stats e)\<lparr>es_baselines := word_of_nat (length (bs_baselines (en_baselines e)))\<rparr>\<rparr>, d)))"

definition engine_list_baselines :: "engine \<Rightarrow> baseline list result" where
  "engine_list_baselines e = Inr (list_baselines (en_baselines e))"

section \<open>Readers\<close>

definition count_query :: "engine \<Rightarrow> engine" where
  "count_query e = e\<lparr>en_query_count := en_query_count e + 1\<rparr>"

definition engine_summarize :: "summary_request \<Rightarrow> engine \<Rightarrow> path_summary result \<times> engine" where
  "engine_summarize request e = (summarize_path (records_locked e) (en_catalog e) request (en_policy e), count_query e)"

definition engine_attribute :: "attribution_request \<Rightarrow> engine \<Rightarrow> attribution_result result \<times> engine" where
  "engine_attribute request e =
     (attribute (records_locked e) (en_catalog e) (en_clocks e) (Some (en_baselines e)) request (en_policy e), count_query e)"

section \<open>Life cycle\<close>

definition engine_flush :: "world \<Rightarrow> status \<times> world" where
  "engine_flush s = sync_store s"

definition cancel_pending_work :: "string \<Rightarrow> engine \<Rightarrow> status \<times> engine" where
  "cancel_pending_work reason e = (ok_status, e\<lparr>en_pool := map_option (cancel_pending reason) (en_pool e)\<rparr>)"

text \<open>
  \<^verbatim>\<open>shutdown\<close>: \<open>stop\<close> is the pool as its own draining shutdown leaves it, which always returns success.
\<close>

definition engine_shutdown :: "(pool option \<Rightarrow> pool option) \<Rightarrow> world \<Rightarrow> status \<times> world" where
  "engine_shutdown stop s =
     (let (e, d) = s
      in if en_shut_down e then (ok_status, s)
         else
           let e = e\<lparr>en_shut_down := True, en_pool := stop (en_pool e)\<rparr>
           in case en_writer e of
                None \<Rightarrow> (ok_status, e, d)
              | Some w \<Rightarrow>
                  (case close_writer (w, d) of
                     (Inl err, w, d) \<Rightarrow> (Inl err, e\<lparr>en_writer := Some w\<rparr>, d)
                   | (Inr _, w, d) \<Rightarrow> (ok_status, e\<lparr>en_writer := None\<rparr>, d)))"

definition stats_now :: "timestamp \<Rightarrow> engine \<Rightarrow> engine_stats" where
  "stats_now now e =
     (let s = en_stats e
      in empty_stats\<lparr>es_session_started_at := en_session_start e,
        es_session_uptime_ns := wrap_i64 (ts_ns now - ts_ns (en_session_start e)),
        es_measurements_stored := word_of_nat (length (en_records e)),
        es_measurements_current := es_measurements_current s,
        es_measurements_historical := es_measurements_historical s,
        es_measurements_rejected := es_measurements_rejected s,
        es_ingest_batches := es_ingest_batches s,
        es_records_persisted := es_records_persisted s,
        es_baselines := word_of_nat (length (bs_baselines (en_baselines e))),
        es_sources := word_of_nat (length (cat_sources (en_catalog e))),
        es_paths := word_of_nat (length (cat_paths (en_catalog e))),
        es_generations := word_of_nat (length (cat_generations (en_catalog e))),
        es_clock_domains := word_of_nat (length (reg_domains (en_clocks e))),
        es_queries := en_query_count e,
        es_records_recovered := rr_records_read (en_recovery e),
        es_recovery_truncated := rr_truncated (en_recovery e),
        es_store_bytes := (case en_writer e of Some w \<Rightarrow> wr_total_bytes w | None \<Rightarrow> 0),
        es_workers := (case en_pool e of Some p \<Rightarrow> pool_stats_now p | None \<Rightarrow> new_stats)\<rparr>)"

end
