(* ===== verification/Engine_Queries.thy ===== *)
theory Engine_Queries
  imports Engine
begin

text \<open>
  The answers of \<^verbatim>\<open>runtime/engine.cpp\<close> that the engine builds itself: the history of a path in buckets of
  time, explanations with their provenance (\<^verbatim>\<open>runtime/explain.cpp\<close>), and exports as JSON or CSV
  (\<^verbatim>\<open>runtime/export.cpp\<close>), with the accounting of what an export leaves out.
\<close>

section \<open>History\<close>

record history_bucket =
  hb_from :: timestamp
  hb_to :: timestamp
  hb_exchanges_considered :: u64
  hb_exchanges_included :: u64
  hb_excluded_stale :: u64
  hb_excluded_conflicting :: u64
  hb_excluded_unsupported :: u64
  hb_end_to_end :: distribution
  hb_evidence :: evidence

record history_request =
  hq_path :: path_id
  hq_generation :: generation_id
  hq_mode :: aggregation_mode
  hq_window :: time_window
  hq_bucket_ns :: nanos
  hq_histogram :: histogram_spec
  hq_probes :: "quantile_probe list"
  hq_restrict_to_source :: source_id

record history_result =
  hr_path :: path_id
  hr_generation :: generation_id
  hr_domain :: clock_domain_id
  hr_mode :: aggregation_mode
  hr_bucket_ns :: nanos
  hr_buckets_with_evidence :: u64
  hr_buckets_empty :: u64
  hr_buckets :: "history_bucket list"
  hr_evidence :: evidence
  hr_policy_digest :: string

text \<open>The number of buckets, rounded up, or the error of the checks on it.\<close>

definition history_bucket_count :: "history_request \<Rightarrow> limits \<Rightarrow> nat result" where
  "history_bucket_count q l =
     (case checked_sub_i64 (ts_ns (tw_to (hq_window q))) (ts_ns (tw_from (hq_window q))) of
        None \<Rightarrow> fail Overflow ''history window span overflows'' []
      | Some span \<Rightarrow>
          (case checked_add_i64 span (hq_bucket_ns q - 1) of
             None \<Rightarrow> fail Overflow ''history bucket rounding overflows'' []
           | Some rounded \<Rightarrow>
               let many = unat (to_u64 (cdiv rounded (hq_bucket_ns q)))
               in if many = 0 \<or> many > max_history_buckets l
                  then fail OutOfRange ''history bucket count exceeds the configured limit'' (show_nat many)
                  else Inr many))"

definition new_bucket :: "history_request \<Rightarrow> nat \<Rightarrow> history_bucket" where
  "new_bucket q index =
     (let from = wrap_i64 (ts_ns (tw_from (hq_window q)) + int index * hq_bucket_ns q); domain = ts_domain (tw_from (hq_window q))
      in \<lparr>hb_from = \<lparr>ts_ns = from, ts_domain = domain\<rparr>, hb_to = \<lparr>ts_ns = wrap_i64 (from + hq_bucket_ns q), ts_domain = domain\<rparr>,
          hb_exchanges_considered = 0, hb_exchanges_included = 0, hb_excluded_stale = 0, hb_excluded_conflicting = 0,
          hb_excluded_unsupported = 0, hb_end_to_end = unset_distribution (hq_histogram q), hb_evidence = default_evidence\<rparr>)"

record history_acc =
  ha_buckets :: "history_bucket list"
  ha_values :: "nanos list list"
  ha_evidence :: evidence
  ha_saw_any :: bool

definition history_class :: "history_request \<Rightarrow> measurement_record \<Rightarrow> record_class" where
  "history_class q r =
     classify_record r (hq_path q) (hq_generation q) (hq_mode q) (hq_window q) (hq_restrict_to_source q)"

definition history_index :: "history_request \<Rightarrow> measurement_record \<Rightarrow> nat" where
  "history_index q r =
     unat (to_u64 (ts_ns (stamp_received_at (rec_stamp r)) - ts_ns (tw_from (hq_window q))) div to_u64 (hq_bucket_ns q))"

fun count_in_bucket :: "record_class \<Rightarrow> history_bucket \<Rightarrow> history_bucket" where
  "count_in_bucket ConflictingRecord b = b\<lparr>hb_excluded_conflicting := hb_excluded_conflicting b + 1\<rparr>"
| "count_in_bucket UnsupportedRecord b = b\<lparr>hb_excluded_unsupported := hb_excluded_unsupported b + 1\<rparr>"
| "count_in_bucket StaleRecord b = b\<lparr>hb_excluded_stale := hb_excluded_stale b + 1\<rparr>"
| "count_in_bucket _ b = b\<lparr>hb_exchanges_included := hb_exchanges_included b + 1\<rparr>"

definition history_step :: "history_request \<Rightarrow> nat \<Rightarrow> history_acc \<Rightarrow> measurement_record \<Rightarrow> history_acc" where
  "history_step q many acc r =
     (let c = history_class q r; index = history_index q r
      in if c \<noteq> Included \<and> c \<noteq> ConflictingRecord \<and> c \<noteq> UnsupportedRecord \<and> c \<noteq> StaleRecord then acc
         else if index \<ge> many then acc
         else
           let b = ha_buckets acc ! index;
               b = count_in_bucket c (b\<lparr>hb_exchanges_considered := hb_exchanges_considered b + 1\<rparr>);
               acc = acc\<lparr>ha_buckets := (ha_buckets acc)[index := b]\<rparr>
           in if c \<noteq> Included then acc
              else acc\<lparr>ha_values := (ha_values acc)[index := ha_values acc ! index @ [rec_rtt_ns r]], ha_saw_any := True,
                     ha_evidence := merge (ha_evidence acc) (rec_evidence r)\<rparr>)"

definition bucket_evidence :: "history_bucket \<Rightarrow> evidence" where
  "bucket_evidence b =
     (let ev = (hb_evidence b)\<lparr>ev_state := Observed, ev_freshness := Fresh, ev_confidence := High\<rparr>;
          ev = (if hb_exchanges_included b = 0
                then merge ev (unknown NoSamples (show_int (ts_ns (hb_from b))))
                else
                  let ev = (if hb_excluded_stale b \<noteq> 0 then add_reason EvidenceStale (show_nat (unat (hb_excluded_stale b))) ev else ev)
                  in if hb_excluded_conflicting b \<noteq> 0
                     then add_reason HopConflicting (show_nat (unat (hb_excluded_conflicting b))) ev else ev)
      in add_reason AggregateDeterministic [] ev)"

fun finish_buckets :: "history_request \<Rightarrow> limits \<Rightarrow> history_bucket list \<Rightarrow> nanos list list \<Rightarrow> history_bucket list result" where
  "finish_buckets q l (b # bs) (xs # xss) =
     try_bind (aggregate xs (hq_histogram q) (hq_probes q) l) (\<lambda>distribution.
       try_bind (finish_buckets q l bs xss) (\<lambda>rest.
         Inr (b\<lparr>hb_end_to_end := distribution, hb_evidence := bucket_evidence b\<rparr> # rest)))"
| "finish_buckets q l _ _ = Inr []"

definition history_evidence :: "bool \<Rightarrow> evidence \<Rightarrow> evidence" where
  "history_evidence saw_any ev =
     add_reason AggregateDeterministic []
       (if saw_any then ev else merge ev (unknown NoSamples ''no evidence in window''))"

definition count_buckets :: "(history_bucket \<Rightarrow> bool) \<Rightarrow> history_bucket list \<Rightarrow> u64" where
  "count_buckets P bs = word_of_nat (length (filter P bs))"

definition history_checks :: "history_request \<Rightarrow> status" where
  "history_checks q =
     (if \<not> window_valid (hq_window q) then fail InvalidArgument ''history requires a valid time window'' []
      else if hq_bucket_ns q \<le> 0 then fail InvalidArgument ''history bucket width must be positive'' []
      else if \<not> valid_id (hq_generation q) then fail InvalidArgument ''history requires an explicit generation'' []
      else ok_status)"

definition history_of :: "history_request \<Rightarrow> engine \<Rightarrow> history_result result" where
  "history_of q e =
     (let l = pol_limits (en_policy e)
      in try_bind (history_checks q) (\<lambda>_.
         try_bind (cat_path (en_catalog e) (hq_path q)) (\<lambda>_.
         try_bind (history_bucket_count q l) (\<lambda>many.
           let acc = foldl (history_step q many)
                 \<lparr>ha_buckets = map (new_bucket q) [0..<many], ha_values = replicate many [],
                  ha_evidence = observed Fresh High, ha_saw_any = False\<rparr> (en_records e)
           in try_bind (finish_buckets q l (ha_buckets acc) (ha_values acc)) (\<lambda>buckets.
                Inr \<lparr>hr_path = hq_path q, hr_generation = hq_generation q, hr_domain = ts_domain (tw_from (hq_window q)),
                     hr_mode = hq_mode q, hr_bucket_ns = hq_bucket_ns q,
                     hr_buckets_with_evidence = count_buckets (\<lambda>b. hb_exchanges_included b \<noteq> 0) buckets,
                     hr_buckets_empty = count_buckets (\<lambda>b. hb_exchanges_included b = 0) buckets,
                     hr_buckets = buckets, hr_evidence = history_evidence (ha_saw_any acc) (ha_evidence acc),
                     hr_policy_digest = policy_digest (en_policy e)\<rparr>)))))"

definition engine_history :: "history_request \<Rightarrow> engine \<Rightarrow> history_result result \<times> engine" where
  "engine_history q e = (history_of q e, count_query e)"

section \<open>Explanations\<close>

record provenance_entry =
  pe_measurement :: string
  pe_source :: string
  pe_epoch :: string
  pe_incarnation :: string
  pe_sequence :: u64
  pe_source_kind :: string
  pe_authority :: string
  pe_observed_at_ns :: nanos
  pe_observed_at_domain :: string
  pe_received_at_ns :: nanos
  pe_state :: string
  pe_freshness :: string
  pe_synthetic :: bool

record explanation =
  ex_subject :: string
  ex_policy_digest :: string
  ex_policy_text :: string
  ex_histogram_digest :: string
  ex_window_from_ns :: u64
  ex_window_to_ns :: u64
  ex_as_of_ns :: nanos
  ex_evidence_state :: string
  ex_freshness :: string
  ex_confidence :: string
  ex_reasons :: "reason list"
  ex_provenance :: "provenance_entry list"
  ex_notes :: "string list"
  ex_provenance_truncated :: bool
  ex_recovery_applied :: bool
  ex_recovery_reasons :: "reason list"

definition kProvenanceLimit :: nat where "kProvenanceLimit = 64"

definition kNoCausalityNote :: string where
  "kNoCausalityNote = ''no causal claim: the runtime reports observed time and deviations from a generation bound baseline, never causes''"

definition states_no_causality :: "explanation \<Rightarrow> bool" where
  "states_no_causality x \<longleftrightarrow> kNoCausalityNote \<in> set (ex_notes x)"

definition coverage_text :: "u64 \<Rightarrow> u64 \<Rightarrow> string" where
  "coverage_text seen all_of_them =
     show_nat (unat seen) @ ''/'' @ show_nat (unat all_of_them) @
     (if seen < all_of_them then '' (unknown='' @ show_nat (unat (all_of_them - seen)) @ '')'' else [])"

definition provenance_of :: "catalog \<Rightarrow> measurement_record \<Rightarrow> provenance_entry" where
  "provenance_of cat r =
     (let source = cat_source cat (rec_source r)
      in \<lparr>pe_measurement = id_to_hex (rec_id r), pe_source = id_to_hex (rec_source r), pe_epoch = id_to_hex (rec_epoch r),
          pe_incarnation = id_to_hex (rec_incarnation r), pe_sequence = rec_sequence r,
          pe_source_kind = (case source of Inr s \<Rightarrow> source_kind_to_string (src_kind s) | Inl _ \<Rightarrow> []),
          pe_authority = (case source of Inr s \<Rightarrow> authority_to_string (src_authority s) | Inl _ \<Rightarrow> []),
          pe_observed_at_ns = ts_ns (stamp_observed_at (rec_stamp r)),
          pe_observed_at_domain = id_to_hex (ts_domain (stamp_observed_at (rec_stamp r))),
          pe_received_at_ns = ts_ns (stamp_received_at (rec_stamp r)), pe_state = state_to_string (ev_state (rec_evidence r)),
          pe_freshness = freshness_to_string (ev_freshness (rec_evidence r)), pe_synthetic = rec_synthetic r\<rparr>)"

text \<open>The loop: it stops at the first record after the limit is reached, whatever that record is.\<close>

fun collect_provenance :: "catalog \<Rightarrow> summary_request \<Rightarrow> provenance_entry list \<Rightarrow> measurement_record list \<Rightarrow> provenance_entry list \<times> bool" where
  "collect_provenance cat q entries [] = (entries, False)"
| "collect_provenance cat q entries (r # rs) =
     (if length entries \<ge> kProvenanceLimit then (entries, True)
      else if class_for q r \<noteq> Included then collect_provenance cat q entries rs
      else collect_provenance cat q (entries @ [provenance_of cat r]) rs)"

definition explanation_notes :: "catalog \<Rightarrow> path_summary \<Rightarrow> string list" where
  "explanation_notes cat s =
     [kNoCausalityNote,
      ''aggregation is deterministic: identical evidence yields identical output regardless of arrival order'',
      ''missing hops are unknown, never zero: coverage is reported separately from the distribution''] @
     (if ps_mode s = HistoricalMode
      then [''historical mode: stale evidence is included and its freshness is reported per bucket''] else []) @
     (if ps_generation s \<noteq> current_generation cat \<and> valid_id (current_generation cat)
      then [''the queried generation is not the current generation of this lineage''] else [])"

definition window_bound :: "timestamp \<Rightarrow> u64" where
  "window_bound t = to_u64 (if ts_ns t < 0 then 0 else ts_ns t)"

definition explain_locked :: "summary_request \<Rightarrow> path_summary \<Rightarrow> engine \<Rightarrow> explanation" where
  "explain_locked q s e =
     (let (entries, truncated) = collect_provenance (en_catalog e) q [] (en_records e);
          recovered = rr_truncated (en_recovery e) \<or> rr_segments_rejected (en_recovery e) \<noteq> 0
      in \<lparr>ex_subject = ''path.summary'', ex_policy_digest = policy_digest (en_policy e), ex_policy_text = policy_text (en_policy e),
          ex_histogram_digest = spec_digest (sq_histogram q), ex_window_from_ns = window_bound (tw_from (ps_window s)),
          ex_window_to_ns = window_bound (tw_to (ps_window s)), ex_as_of_ns = ts_ns (ps_as_of s),
          ex_evidence_state = state_to_string (ev_state (ps_evidence s)),
          ex_freshness = freshness_to_string (ev_freshness (ps_evidence s)),
          ex_confidence = confidence_to_string (ev_confidence (ps_evidence s)), ex_reasons = ev_reasons (ps_evidence s),
          ex_provenance = entries, ex_notes = explanation_notes (en_catalog e) s, ex_provenance_truncated = truncated,
          ex_recovery_applied = recovered, ex_recovery_reasons = (if recovered then rr_reasons (en_recovery e) else [])\<rparr>)"

definition engine_explain :: "summary_request \<Rightarrow> engine \<Rightarrow> explanation result \<times> engine" where
  "engine_explain q e =
     (try_bind (summarize_path (records_locked e) (en_catalog e) q (en_policy e)) (\<lambda>s. Inr (explain_locked q s e)), count_query e)"

definition write_provenance :: "provenance_entry \<Rightarrow> writer_op" where
  "write_provenance p = wrun
     [begin_object,
      field_string ''measurement'' (pe_measurement p),
      field_string ''source'' (pe_source p),
      field_string ''source_kind'' (pe_source_kind p),
      field_string ''authority'' (pe_authority p),
      field_string ''epoch'' (pe_epoch p),
      field_string ''incarnation'' (pe_incarnation p),
      field_uint ''sequence'' (pe_sequence p),
      field_int ''observed_at_ns'' (pe_observed_at_ns p),
      field_string ''observed_at_domain'' (pe_observed_at_domain p),
      field_int ''received_at_ns'' (pe_received_at_ns p),
      field_string ''state'' (pe_state p),
      field_string ''freshness'' (pe_freshness p),
      field_bool ''synthetic'' (pe_synthetic p),
      end_object]"

definition write_explanation :: "explanation \<Rightarrow> writer_op" where
  "write_explanation x = wrun
     [begin_object,
      field_string ''subject'' (ex_subject x),
      field_string ''policy_digest'' (ex_policy_digest x),
      field_string ''histogram_digest'' (ex_histogram_digest x),
      field_uint ''window_from_ns'' (ex_window_from_ns x),
      field_uint ''window_to_ns'' (ex_window_to_ns x),
      field_int ''as_of_ns'' (ex_as_of_ns x),
      field_string ''evidence_state'' (ex_evidence_state x),
      field_string ''freshness'' (ex_freshness x),
      field_string ''confidence'' (ex_confidence x),
      field_array ''reasons'',
      wrun (map write_reason (ex_reasons x)),
      end_array,
      field_array ''provenance'',
      wrun (map write_provenance (ex_provenance x)),
      end_array,
      field_bool ''provenance_truncated'' (ex_provenance_truncated x),
      field_array ''notes'',
      wrun (map value_string (ex_notes x)),
      end_array,
      field_bool ''recovery_applied'' (ex_recovery_applied x),
      field_array ''recovery_reasons'',
      wrun (map write_reason (ex_recovery_reasons x)),
      end_array,
      field_object ''policy'',
      field_string ''version'' ''1'',
      end_object,
      end_object]"

definition render_reason :: "reason \<Rightarrow> string" where
  "render_reason r = ''  - '' @ reason_to_string (reason_code_of r) @
     (if reason_detail r \<noteq> [] then '': '' @ reason_detail r else []) @ [newline]"

definition render_provenance :: "provenance_entry \<Rightarrow> string" where
  "render_provenance p = ''  - measurement='' @ pe_measurement p @ '' source='' @ pe_source p @ '' sequence='' @
     show_nat (unat (pe_sequence p)) @ '' observed_at_ns='' @ show_int (pe_observed_at_ns p) @ '' received_at_ns='' @
     show_int (pe_received_at_ns p) @ '' freshness='' @ pe_freshness p @ [newline]"

definition render_text :: "explanation \<Rightarrow> string" where
  "render_text x =
     ''subject: '' @ ex_subject x @ [newline] @
     ''as_of_ns: '' @ show_int (ex_as_of_ns x) @ [newline] @
     ''evidence: '' @ ex_evidence_state x @ ''/'' @ ex_freshness x @ ''/'' @ ex_confidence x @ [newline] @
     ''policy_digest: '' @ ex_policy_digest x @ [newline] @
     ''reasons:'' @ [newline] @ concat (map render_reason (ex_reasons x)) @
     ''provenance: '' @ show_nat (length (ex_provenance x)) @ (if ex_provenance_truncated x then '' (truncated)'' else []) @ [newline] @
     concat (map render_provenance (ex_provenance x)) @
     ''notes:'' @ [newline] @ concat (map (\<lambda>note. ''  - '' @ note @ [newline]) (ex_notes x))"

section \<open>What a history counts\<close>

definition counted :: "history_request \<Rightarrow> measurement_record \<Rightarrow> bool" where
  "counted q r \<longleftrightarrow> history_class q r \<in> {Included, ConflictingRecord, UnsupportedRecord, StaleRecord}"

definition received_ns :: "measurement_record \<Rightarrow> nanos" where
  "received_ns r = ts_ns (stamp_received_at (rec_stamp r))"

definition classed :: "history_request \<Rightarrow> record_class \<Rightarrow> nat \<Rightarrow> measurement_record list \<Rightarrow> measurement_record list" where
  "classed q c i rs = filter (\<lambda>r. history_class q r = c \<and> history_index q r = i) rs"

definition tally_bucket :: "history_request \<Rightarrow> measurement_record list \<Rightarrow> nat \<Rightarrow> history_bucket" where
  "tally_bucket q rs i = (new_bucket q i)
     \<lparr>hb_exchanges_considered := word_of_nat (length (filter (\<lambda>r. counted q r \<and> history_index q r = i) rs)),
      hb_exchanges_included := word_of_nat (length (classed q Included i rs)),
      hb_excluded_stale := word_of_nat (length (classed q StaleRecord i rs)),
      hb_excluded_conflicting := word_of_nat (length (classed q ConflictingRecord i rs)),
      hb_excluded_unsupported := word_of_nat (length (classed q UnsupportedRecord i rs))\<rparr>"

definition tally_history :: "history_request \<Rightarrow> nat \<Rightarrow> measurement_record list \<Rightarrow> history_acc" where
  "tally_history q many rs =
     \<lparr>ha_buckets = map (tally_bucket q rs) [0..<many],
      ha_values = map (\<lambda>i. map rec_rtt_ns (classed q Included i rs)) [0..<many],
      ha_evidence = foldl merge (observed Fresh High)
        (map rec_evidence (filter (\<lambda>r. history_class q r = Included \<and> history_index q r < many) rs)),
      ha_saw_any = (\<exists>r \<in> set rs. history_class q r = Included \<and> history_index q r < many)\<rparr>"

lemma classed_snoc:
  "classed q c i (rs @ [r]) = classed q c i rs @ (if history_class q r = c \<and> history_index q r = i then [r] else [])"
  by (simp add: classed_def)

lemma map_upt_update: "k < n \<Longrightarrow> (\<And>i. i \<noteq> k \<Longrightarrow> g i = f i) \<Longrightarrow> (map f [0..<n])[k := g k] = map g [0..<n]"
  by (rule nth_equalityI) (auto simp: nth_list_update)

lemma map_upt_same: "(\<And>i. i < n \<Longrightarrow> g i = f i) \<Longrightarrow> map f [0..<n] = map g [0..<n]"
  by simp

lemma tally_other:
  "i \<noteq> history_index q r \<or> \<not> counted q r \<Longrightarrow> tally_bucket q (rs @ [r]) i = tally_bucket q rs i"
  by (auto simp: tally_bucket_def classed_snoc counted_def)

lemma tally_here:
  assumes "counted q r"
  shows "tally_bucket q (rs @ [r]) (history_index q r) =
    (let b = tally_bucket q rs (history_index q r)
     in count_in_bucket (history_class q r) (b\<lparr>hb_exchanges_considered := hb_exchanges_considered b + 1\<rparr>))"
  using assms
  by (auto simp: counted_def tally_bucket_def classed_snoc new_bucket_def Let_def algebra_simps)

lemma history_step_tally: "history_step q many (tally_history q many rs) r = tally_history q many (rs @ [r])"
proof (cases "counted q r \<and> history_index q r < many")
  case True
  then have u: "(map (tally_bucket q rs) [0..<many])[history_index q r := tally_bucket q (rs @ [r]) (history_index q r)] =
      map (tally_bucket q (rs @ [r])) [0..<many]"
    by (intro map_upt_update) (auto simp: tally_other)
  show ?thesis
  proof (cases "history_class q r = Included")
    case inc: True
    have v: "(map (\<lambda>i. map rec_rtt_ns (classed q Included i rs)) [0..<many])
          [history_index q r := map rec_rtt_ns (classed q Included (history_index q r) (rs @ [r]))] =
        map (\<lambda>i. map rec_rtt_ns (classed q Included i (rs @ [r]))) [0..<many]"
      using True by (intro map_upt_update) (auto simp: classed_snoc)
    show ?thesis using True u v inc unfolding history_step_def tally_history_def
      by (simp add: counted_def Let_def tally_here [unfolded Let_def] classed_snoc)
  next
    case False
    then show ?thesis using True u unfolding history_step_def tally_history_def
      by (auto simp: counted_def Let_def tally_here [unfolded Let_def] classed_snoc)
  qed
next
  case False
  have "map (tally_bucket q rs) [0..<many] = map (tally_bucket q (rs @ [r])) [0..<many]"
    using False by (intro map_upt_same tally_other) auto
  then show ?thesis using False unfolding history_step_def tally_history_def
    by (auto simp: counted_def Let_def classed_snoc)
qed

lemma history_loop:
  "foldl (history_step q many) \<lparr>ha_buckets = map (new_bucket q) [0..<many], ha_values = replicate many [],
     ha_evidence = observed Fresh High, ha_saw_any = False\<rparr> rs = tally_history q many rs"
proof (induction rs rule: rev_induct)
  case Nil
  show ?case by (simp add: tally_history_def classed_def tally_bucket_def new_bucket_def Let_def map_replicate_const)
next
  case (snoc r rs)
  then show ?case by (simp add: history_step_tally)
qed

lemma finish_buckets_Inr:
  assumes "finish_buckets q l bs xss = Inr out" and "length xss = length bs"
  shows "length out = length bs \<and> (\<forall>i < length bs. \<exists>dist. aggregate (xss ! i) (hq_histogram q) (hq_probes q) l = Inr dist \<and>
    out ! i = (bs ! i)\<lparr>hb_end_to_end := dist, hb_evidence := bucket_evidence (bs ! i)\<rparr>)"
  using assms
proof (induction bs arbitrary: xss out)
  case (Cons b bs)
  then obtain xs xss' where x: "xss = xs # xss'" "length xss' = length bs" by (cases xss) auto
  from Cons.prems(1) x(1) obtain dist rest where o: "aggregate xs (hq_histogram q) (hq_probes q) l = Inr dist"
    "finish_buckets q l bs xss' = Inr rest" "out = b\<lparr>hb_end_to_end := dist, hb_evidence := bucket_evidence b\<rparr> # rest"
    by (auto simp: try_bind_def split: sum.splits)
  from Cons.IH [OF o(2) x(2)] show ?case using o x by (auto simp: less_Suc_eq_0_disj)
qed simp

lemma bucket_count_Inr:
  assumes "history_bucket_count q l = Inr many" and "in_i64 (ts_ns (tw_from (hq_window q)))" and "in_i64 (ts_ns (tw_to (hq_window q)))"
    and "in_i64 (hq_bucket_ns q)" and "window_valid (hq_window q)" and "0 < hq_bucket_ns q"
  shows "many = nat ((ts_ns (tw_to (hq_window q)) - ts_ns (tw_from (hq_window q)) + hq_bucket_ns q - 1) div hq_bucket_ns q)"
    and "ts_ns (tw_to (hq_window q)) - ts_ns (tw_from (hq_window q)) + hq_bucket_ns q - 1 \<le> 9223372036854775807"
proof -
  define span where "span = ts_ns (tw_to (hq_window q)) - ts_ns (tw_from (hq_window q))"
  define w where "w = hq_bucket_ns q"
  have p: "0 < span" using assms(5) by (simp add: window_valid_def span_def)
  have w: "in_i64 (w - 1)" "0 < w" using assms(4,6) by (auto simp: w_def in_i64_iff)
  from assms(1) have r: "in_i64 span" "in_i64 (span + (w - 1))" "many = unat (to_u64 (cdiv (span + (w - 1)) w))"
    unfolding history_bucket_count_def checked_sub_i64_spec [OF assms(3,2)] span_def [symmetric] w_def [symmetric]
    by (auto simp: fail_def Let_def checked_add_i64_spec w split: if_splits)
  have "0 \<le> (span + (w - 1)) div w" "(span + (w - 1)) div w \<le> span + (w - 1)"
    using p w zdiv_mono2 [of "span + (w - 1)" 1 w] by (simp_all add: pos_imp_zdiv_nonneg_iff)
  then have "unat (to_u64 (cdiv (span + (w - 1)) w)) = nat ((span + (w - 1)) div w)"
    using r(2) p w by (simp add: cdiv_nonneg unat_to_u64 in_i64_iff)
  then show "many = nat ((ts_ns (tw_to (hq_window q)) - ts_ns (tw_from (hq_window q)) + hq_bucket_ns q - 1) div hq_bucket_ns q)"
    using r(3) by (simp add: span_def w_def algebra_simps)
  show "ts_ns (tw_to (hq_window q)) - ts_ns (tw_from (hq_window q)) + hq_bucket_ns q - 1 \<le> 9223372036854775807"
    using r(2) by (simp add: span_def w_def in_i64_iff algebra_simps)
qed


lemma counted_in_window:
  assumes "counted q r" and "window_valid (hq_window q)"
  shows "ts_ns (tw_from (hq_window q)) \<le> received_ns r \<and> received_ns r < ts_ns (tw_to (hq_window q))"
  using assms
  by (auto simp: counted_def history_class_def classify_record_def window_contains_def received_ns_def Let_def split: if_splits)

lemma history_index_slot:
  assumes "counted q r" and "window_valid (hq_window q)" and "0 < hq_bucket_ns q"
    and "ts_ns (tw_to (hq_window q)) - ts_ns (tw_from (hq_window q)) + hq_bucket_ns q - 1 \<le> 9223372036854775807"
  shows "history_index q r = nat ((received_ns r - ts_ns (tw_from (hq_window q))) div hq_bucket_ns q)"
    and "history_index q r = i \<longleftrightarrow> ts_ns (tw_from (hq_window q)) + int i * hq_bucket_ns q \<le> received_ns r \<and>
      received_ns r < ts_ns (tw_from (hq_window q)) + (int i + 1) * hq_bucket_ns q"
    and "history_index q r < nat ((ts_ns (tw_to (hq_window q)) - ts_ns (tw_from (hq_window q)) + hq_bucket_ns q - 1) div hq_bucket_ns q)"
proof -
  define f where "f = ts_ns (tw_from (hq_window q))"
  define w where "w = hq_bucket_ns q"
  define t where "t = ts_ns (tw_to (hq_window q))"
  define x where "x = received_ns r - f"
  have x: "0 \<le> x" "x < t - f" using counted_in_window [OF assms(1,2)] by (auto simp: x_def f_def t_def)
  have b: "t - f + w - 1 \<le> 9223372036854775807" "0 < w" using assms by (simp_all add: f_def t_def w_def)
  have "unat (to_u64 x div to_u64 w) = nat x div nat w"
    using x b by (simp add: unat_div unat_to_u64)
  then have e: "history_index q r = nat (x div w)"
    using x b by (simp add: history_index_def x_def w_def f_def received_ns_def nat_div_distrib)
  then show "history_index q r = nat ((received_ns r - ts_ns (tw_from (hq_window q))) div hq_bucket_ns q)" by (simp add: x_def f_def w_def)
  have m: "0 \<le> x mod w" "x mod w < w" using b(2) by simp_all
  have d: "x = (x div w) * w + x mod w" by (rule div_mult_mod_eq [symmetric])
  have "x div w = int i \<longleftrightarrow> int i * w \<le> x \<and> x < (int i + 1) * w"
  proof
    assume "x div w = int i"
    then have "x = int i * w + x mod w" using d by (simp only:)
    then show "int i * w \<le> x \<and> x < (int i + 1) * w" using m unfolding distrib_right by linarith
  next
    assume "int i * w \<le> x \<and> x < (int i + 1) * w"
    then show "x div w = int i" using b(2) by (intro int_div_pos_eq [of _ _ _ "x - int i * w"]) (auto simp: algebra_simps)
  qed
  moreover have n: "0 \<le> x div w" using x b by (simp add: pos_imp_zdiv_nonneg_iff)
  ultimately show "history_index q r = i \<longleftrightarrow> ts_ns (tw_from (hq_window q)) + int i * hq_bucket_ns q \<le> received_ns r \<and>
      received_ns r < ts_ns (tw_from (hq_window q)) + (int i + 1) * hq_bucket_ns q"
    unfolding e by (auto simp: x_def f_def w_def)
  have "(x div w + 1) * w \<le> t - f + w - 1"
    using x(2) m(1) d unfolding distrib_right by linarith
  then have "x div w + 1 \<le> (t - f + w - 1) div w" using zdiv_mono1 [OF _ b(2), of "(x div w + 1) * w"] b(2) by simp
  then show "history_index q r < nat ((ts_ns (tw_to (hq_window q)) - ts_ns (tw_from (hq_window q)) + hq_bucket_ns q - 1) div hq_bucket_ns q)"
    using n unfolding e f_def t_def w_def by linarith
qed


text \<open>The records a bucket is about: counted in the window and received in the slot of the bucket.\<close>

definition in_slot :: "history_request \<Rightarrow> nat \<Rightarrow> measurement_record \<Rightarrow> bool" where
  "in_slot q i r \<longleftrightarrow> counted q r \<and> ts_ns (tw_from (hq_window q)) + int i * hq_bucket_ns q \<le> received_ns r \<and>
     received_ns r < ts_ns (tw_from (hq_window q)) + (int i + 1) * hq_bucket_ns q"

lemma bucket_evidence_state:
  "hb_exchanges_included b = 0 \<Longrightarrow> ev_state (bucket_evidence b) = UnknownState"
  "hb_exchanges_included b \<noteq> 0 \<Longrightarrow> ev_state (bucket_evidence b) = Observed \<and> ev_freshness (bucket_evidence b) = Fresh"
  by (simp_all add: bucket_evidence_def Let_def unknown_def merge_state_def worse_def is_coverage_def add_reason_def default_evidence_def)

lemma length_filter_partition:
  assumes "\<And>x. x \<in> set xs \<Longrightarrow> P x \<Longrightarrow> g x < (n :: nat)"
  shows "(\<Sum>i < n. length (filter (\<lambda>x. P x \<and> g x = i) xs)) = length (filter P xs)"
  using assms
proof (induction xs)
  case (Cons x xs)
  have "(\<Sum>i < n. length (filter (\<lambda>y. P y \<and> g y = i) (x # xs))) =
      (\<Sum>i < n. (if P x \<and> g x = i then 1 else 0) + length (filter (\<lambda>y. P y \<and> g y = i) xs))"
    by (intro sum.cong) auto
  also have "\<dots> = (if P x then 1 else 0) + length (filter P xs)"
  proof -
    have "(\<Sum>i < n. if g x = i then 1 else 0) = (1 :: nat)" if "P x"
      using Cons.prems [of x] that by (subst sum.delta') simp_all
    then show ?thesis using Cons by (simp add: sum.distrib)
  qed
  finally show ?case by simp
qed simp

lemma history_of_Inr:
  assumes "history_of q e = Inr h"
  obtains many where "window_valid (hq_window q)" "0 < hq_bucket_ns q" "history_bucket_count q (pol_limits (en_policy e)) = Inr many"
    "finish_buckets q (pol_limits (en_policy e)) (map (tally_bucket q (en_records e)) [0..<many])
       (map (\<lambda>i. map rec_rtt_ns (classed q Included i (en_records e))) [0..<many]) = Inr (hr_buckets h)"
  using assms
  by (auto simp: history_of_def history_checks_def fail_def try_bind_def Let_def history_loop tally_history_def split: sum.splits if_splits)

text \<open>What bucket number i says of the records of an engine.\<close>

definition bucket_exact :: "history_request \<Rightarrow> engine \<Rightarrow> nat \<Rightarrow> history_bucket \<Rightarrow> bool" where
  "bucket_exact q e i b \<longleftrightarrow>
     (let slot = filter (in_slot q i) (en_records e); of_class = (\<lambda>c. filter (\<lambda>r. history_class q r = c) slot)
      in hb_exchanges_considered b = word_of_nat (length slot) \<and>
         hb_exchanges_included b = word_of_nat (length (of_class Included)) \<and>
         hb_excluded_stale b = word_of_nat (length (of_class StaleRecord)) \<and>
         hb_excluded_conflicting b = word_of_nat (length (of_class ConflictingRecord)) \<and>
         hb_excluded_unsupported b = word_of_nat (length (of_class UnsupportedRecord)) \<and>
         aggregate (map rec_rtt_ns (of_class Included)) (hq_histogram q) (hq_probes q) (pol_limits (en_policy e)) = Inr (hb_end_to_end b) \<and>
         (hb_exchanges_included b = 0 \<longrightarrow> ev_state (hb_evidence b) = UnknownState))"

lemma tally_bucket_exact:
  assumes "in_slot q i = (\<lambda>r. counted q r \<and> history_index q r = i)"
    and "aggregate (map rec_rtt_ns (classed q Included i (en_records e))) (hq_histogram q) (hq_probes q) (pol_limits (en_policy e)) = Inr dist"
  shows "bucket_exact q e i ((tally_bucket q (en_records e) i)
    \<lparr>hb_end_to_end := dist, hb_evidence := bucket_evidence (tally_bucket q (en_records e) i)\<rparr>)"
proof -
  have c: "classed q k i rs = filter (\<lambda>r. history_class q r = k) (filter (in_slot q i) rs)"
    if "k \<in> {Included, ConflictingRecord, UnsupportedRecord, StaleRecord}" for k rs
    using that unfolding assms(1) by (auto simp: classed_def counted_def intro!: filter_cong)
  note k = c [of Included] c [of StaleRecord] c [of ConflictingRecord] c [of UnsupportedRecord]
  show ?thesis
    using assms(2) bucket_evidence_state(1) [of "tally_bucket q (en_records e) i"]
    unfolding bucket_exact_def Let_def tally_bucket_def k [simplified] by (simp add: assms(1))
qed

text \<open>C35: A history counts every record once, in the bucket of its receive time: when a history is returned for a window and
  a bucket width of 64 bits, the buckets divide the window (rounded up) into slots of the requested
  width; bucket number i counts exactly the records of the path, generation and source received in
  slot i, splits them into included, stale, conflicting and unsupported ones, and its distribution is the
  aggregate of the latencies of the included ones; every record counted in the window is in exactly one
  bucket; and a bucket without an included record is unknown.\<close>

theorem history_exact:
  assumes "history_of q e = Inr h" and "in_i64 (ts_ns (tw_from (hq_window q)))" and "in_i64 (ts_ns (tw_to (hq_window q)))"
    and "in_i64 (hq_bucket_ns q)"
  shows "length (hr_buckets h) =
      nat ((ts_ns (tw_to (hq_window q)) - ts_ns (tw_from (hq_window q)) + hq_bucket_ns q - 1) div hq_bucket_ns q) \<and>
    (\<forall>i < length (hr_buckets h). bucket_exact q e i (hr_buckets h ! i)) \<and>
    (\<Sum>i < length (hr_buckets h). length (filter (in_slot q i) (en_records e))) = length (filter (counted q) (en_records e))"
proof -
  obtain many where o: "window_valid (hq_window q)" "0 < hq_bucket_ns q" "history_bucket_count q (pol_limits (en_policy e)) = Inr many"
    "finish_buckets q (pol_limits (en_policy e)) (map (tally_bucket q (en_records e)) [0..<many])
       (map (\<lambda>i. map rec_rtt_ns (classed q Included i (en_records e))) [0..<many]) = Inr (hr_buckets h)"
    by (rule history_of_Inr [OF assms(1)])
  note n = bucket_count_Inr [OF o(3) assms(2-4) o(1,2)]
  note x = history_index_slot [OF _ o(1,2) n(2)]
  have s: "in_slot q i = (\<lambda>r. counted q r \<and> history_index q r = i)" for i
    using x(2) by (fastforce simp: in_slot_def)
  note f = finish_buckets_Inr [OF o(4), simplified]
  have "bucket_exact q e i (hr_buckets h ! i)" if "i < many" for i
    using f tally_bucket_exact [OF s] that by fastforce
  moreover have "(\<Sum>i < many. length (filter (in_slot q i) (en_records e))) = length (filter (counted q) (en_records e))"
    unfolding s using x(3) n(1) by (intro length_filter_partition) auto
  ultimately show ?thesis using f n(1) by simp
qed

text \<open>A bucket with an included record always says fresh, whatever the records say.\<close>

lemma history_freshness_fixed:
  assumes "history_of q e = Inr h" and "b \<in> set (hr_buckets h)" and "hb_exchanges_included b \<noteq> 0"
  shows "ev_freshness (hb_evidence b) = Fresh"
proof -
  obtain many where "finish_buckets q (pol_limits (en_policy e)) (map (tally_bucket q (en_records e)) [0..<many])
       (map (\<lambda>i. map rec_rtt_ns (classed q Included i (en_records e))) [0..<many]) = Inr (hr_buckets h)"
    by (rule history_of_Inr [OF assms(1)])
  from finish_buckets_Inr [OF this] obtain c dist where "b = c\<lparr>hb_end_to_end := dist, hb_evidence := bucket_evidence c\<rparr>"
    using assms(2) by (auto simp: in_set_conv_nth)
  then show ?thesis using assms(3) bucket_evidence_state(2) [of c] by simp
qed

section \<open>What an explanation cites\<close>

lemma collect_provenance_eq:
  assumes "length entries \<le> kProvenanceLimit" and "collect_provenance cat q entries rs = (out, truncated)"
  shows "out = entries @ map (provenance_of cat) (take (kProvenanceLimit - length entries) (filter (\<lambda>r. class_for q r = Included) rs)) \<and>
    (\<not> truncated \<longrightarrow> length entries + length (filter (\<lambda>r. class_for q r = Included) rs) \<le> kProvenanceLimit) \<and>
    (kProvenanceLimit < length entries + length (filter (\<lambda>r. class_for q r = Included) rs) \<longrightarrow> truncated)"
  using assms
proof (induction rs arbitrary: entries)
  case (Cons r rs)
  show ?case
  proof (cases "length entries \<ge> kProvenanceLimit")
    case True
    then show ?thesis using Cons.prems by auto
  next
    case False
    then have l: "kProvenanceLimit - length entries = Suc (kProvenanceLimit - Suc (length entries))" by simp
    show ?thesis
      using Cons.IH [of entries] Cons.IH [of "entries @ [provenance_of cat r]"] Cons.prems False
      by (auto simp: l split: if_splits)
  qed
qed auto

text \<open>C36: An explanation cites the evidence behind a summary: the provenance lists, in order, the records the
  summary includes, up to sixty-four of them; when there are more the explanation says that it is
  truncated, and when it does not say so every included record is cited; it always states that no
  causal claim is made, and after a recovery that cut or rejected a segment it says so.\<close>

theorem explanation_cites:
  assumes "engine_explain q e = (Inr x, e')"
  shows "ex_provenance x = map (provenance_of (en_catalog e))
      (take kProvenanceLimit (filter (\<lambda>r. class_for q r = Included) (en_records e))) \<and>
    (\<not> ex_provenance_truncated x \<longrightarrow>
      ex_provenance x = map (provenance_of (en_catalog e)) (filter (\<lambda>r. class_for q r = Included) (en_records e))) \<and>
    (kProvenanceLimit < length (filter (\<lambda>r. class_for q r = Included) (en_records e)) \<longrightarrow> ex_provenance_truncated x) \<and>
    states_no_causality x \<and>
    (ex_recovery_applied x \<longleftrightarrow> rr_truncated (en_recovery e) \<or> rr_segments_rejected (en_recovery e) \<noteq> 0)"
proof -
  obtain out truncated where c: "collect_provenance (en_catalog e) q [] (en_records e) = (out, truncated)" by fastforce
  from assms obtain s where x: "x = explain_locked q s e" by (auto simp: engine_explain_def try_bind_def split: sum.splits)
  have f: "ex_provenance x = out" "ex_provenance_truncated x = truncated" "ex_notes x = explanation_notes (en_catalog e) s"
    "ex_recovery_applied x \<longleftrightarrow> rr_truncated (en_recovery e) \<or> rr_segments_rejected (en_recovery e) \<noteq> 0"
    by (simp_all add: x explain_locked_def c Let_def)
  have "kNoCausalityNote \<in> set (explanation_notes (en_catalog e) s)" unfolding explanation_notes_def by (simp only: set_append append_Cons list.set Un_iff insert_iff simp_thms)
  with collect_provenance_eq [OF _ c] show ?thesis by (simp add: f states_no_causality_def)
qed

section \<open>An engine with one record\<close>

definition demo_engine :: engine where
  "demo_engine = (new_engine \<lparr>rc_policy = default_runtime_policy, rc_store_directory = None, rc_durable_writes = True, rc_readonly = False,
     rc_workers = \<lparr>pc_workers = 1, pc_queue_depth = 1\<rparr>\<rparr> (demo_time 0))\<lparr>en_catalog := demo_catalog, en_records := [demo_stored]\<rparr>"

definition demo_history :: history_request where
  "demo_history = \<lparr>hq_path = StrongId 1, hq_generation = StrongId 3, hq_mode = CurrentMode,
     hq_window = \<lparr>tw_from = demo_time 0, tw_to = demo_time 1000\<rparr>, hq_bucket_ns = 600, hq_histogram = [], hq_probes = [],
     hq_restrict_to_source = no_id\<rparr>"

lemma demo_engine_fields [simp]:
  "en_records demo_engine = [demo_stored]" "en_catalog demo_engine = demo_catalog" "en_policy demo_engine = default_runtime_policy"
  by (simp_all add: demo_engine_def new_engine_def Let_def)

lemma aggregate_total:
  "length xs \<le> max_samples_per_path l \<Longrightarrow> length probes \<le> max_quantile_probes l \<Longrightarrow> \<exists>d. aggregate xs spec probes l = Inr d"
  by (auto simp: aggregate_def Let_def split: prod.splits)

lemma finish_buckets_returns:
  assumes "\<forall>xs \<in> set xss. length xs \<le> max_samples_per_path l" and "length (hq_probes q) \<le> max_quantile_probes l"
  shows "\<exists>out. finish_buckets q l bs xss = Inr out"
  using assms
proof (induction q l bs xss rule: finish_buckets.induct)
  case (1 q l b bs xs xss)
  then show ?case using aggregate_total [of xs l "hq_probes q" "hq_histogram q"] by (cases "aggregate xs (hq_histogram q) (hq_probes q) l") (auto simp: try_bind_def)
qed auto


theorem history_exact_witness:
  "\<exists>h. history_of demo_history demo_engine = Inr h \<and> length (hr_buckets h) = 2 \<and> bucket_exact demo_history demo_engine 0 (hr_buckets h ! 0)"
proof -
  define acc where "acc = tally_history demo_history 2 [demo_stored]"
  have w: "history_checks demo_history = ok_status"
    by (simp add: history_checks_def demo_history_def window_valid_def demo_time_def ts_valid_def valid_id_def)
  have p: "\<exists>path. cat_path demo_catalog (hq_path demo_history) = Inr path"
    using demo_lookups(1) by (auto simp: demo_history_def)
  have n: "history_bucket_count demo_history (pol_limits default_runtime_policy) = Inr 2"
    by (simp add: history_bucket_count_def demo_history_def demo_time_def checked_sub_i64_spec checked_add_i64_spec in_i64_iff
        cdiv_nonneg unat_to_u64 default_runtime_policy_def default_limits_def)
  have "\<exists>out. finish_buckets demo_history (pol_limits default_runtime_policy) (ha_buckets acc) (ha_values acc) = Inr out"
    by (rule finish_buckets_returns)
      (auto simp: acc_def tally_history_def classed_def demo_history_def default_runtime_policy_def default_limits_def)
  then obtain out where o: "finish_buckets demo_history (pol_limits default_runtime_policy) (ha_buckets acc) (ha_values acc) = Inr out" by blast
  from p obtain path where "cat_path demo_catalog (hq_path demo_history) = Inr path" by blast
  then have "\<exists>h. history_of demo_history demo_engine = Inr h"
    unfolding history_of_def Let_def demo_engine_fields w
    by (simp only: try_bind_def sum.case n history_loop acc_def [symmetric] o) blast
  then obtain h where h: "history_of demo_history demo_engine = Inr h" by blast
  have i: "in_i64 (ts_ns (tw_from (hq_window demo_history)))" "in_i64 (ts_ns (tw_to (hq_window demo_history)))" "in_i64 (hq_bucket_ns demo_history)"
    by (simp_all add: demo_history_def demo_time_def in_i64_iff)
  from history_exact [OF h i] have "length (hr_buckets h) = 2" by (simp add: demo_history_def demo_time_def)
  with history_exact [OF h i] h show ?thesis by auto
qed

theorem explanation_cites_witness:
  "\<exists>x e. engine_explain demo_request demo_engine = (Inr x, e) \<and> ex_provenance x = [provenance_of demo_catalog demo_stored] \<and> states_no_causality x"
proof -
  have "foldl (consider_record demo_request) a [Some demo_stored, None] = foldl (consider_record demo_request) a [Some demo_stored]" for a by simp
  then have "summarize_path [Some demo_stored] demo_catalog demo_request default_runtime_policy =
      summarize_path [Some demo_stored, None] demo_catalog demo_request default_runtime_policy"
    unfolding summarize_path_def by (simp only:)
  with demo_summary obtain s where "summarize_path [Some demo_stored] demo_catalog demo_request default_runtime_policy = Inr s" by auto
  then obtain x e where x: "engine_explain demo_request demo_engine = (Inr x, e)"
    by (auto simp: engine_explain_def records_locked_def)
  from explanation_cites [OF this] show ?thesis using x by (auto simp: demo_included kProvenanceLimit_def)
qed

end
