(* ===== verification/Engine_Export.thy ===== *)
theory Engine_Export
  imports Engine_Queries
begin

text \<open>
  \<^verbatim>\<open>runtime/export.cpp\<close> and the export, capability and encoding functions of \<^verbatim>\<open>runtime/engine.cpp\<close>. An
  export is a text with the number of records written and left out; a CSV export is shown to have
  the same columns in every line.
\<close>

section \<open>Vocabulary\<close>

datatype export_kind = SamplesExport | SummaryExport | BaselinesExport
datatype export_format = JsonFormat | CsvFormat

definition kKinds :: "(export_kind \<times> string) list" where
  "kKinds = [(SamplesExport, ''samples''), (SummaryExport, ''summary''), (BaselinesExport, ''baselines'')]"

definition kFormats :: "(export_format \<times> string) list" where
  "kFormats = [(JsonFormat, ''json''), (CsvFormat, ''csv'')]"

definition export_kind_to_string :: "export_kind \<Rightarrow> string" where
  "export_kind_to_string k = enum_name kKinds ''summary'' k"

definition parse_export_kind :: "string \<Rightarrow> export_kind option" where
  "parse_export_kind text = enum_parse kKinds text"

definition export_format_to_string :: "export_format \<Rightarrow> string" where
  "export_format_to_string f = enum_name kFormats ''json'' f"

definition parse_export_format :: "string \<Rightarrow> export_format option" where
  "parse_export_format text = enum_parse kFormats text"

record export_request =
  xq_kind :: export_kind
  xq_format :: export_format
  xq_path :: path_id
  xq_generation :: generation_id
  xq_from :: timestamp
  xq_to :: timestamp
  xq_limit :: nat
  xq_pretty :: bool

record export_result =
  xr_text :: string
  xr_records_exported :: u64
  xr_records_skipped :: u64
  xr_truncated :: bool
  xr_content_digest :: string
  xr_notes :: "string list"

definition write_export_result :: "export_result \<Rightarrow> writer_op" where
  "write_export_result x = wrun
     [begin_object,
      field_uint ''records_exported'' (xr_records_exported x),
      field_uint ''records_skipped'' (xr_records_skipped x),
      field_bool ''truncated'' (xr_truncated x),
      field_string ''content_digest'' (xr_content_digest x),
      field_array ''notes'',
      wrun (map value_string (xr_notes x)),
      end_array,
      end_object]"

section \<open>Text\<close>

definition csv_escape :: "string \<Rightarrow> string" where
  "csv_escape t =
     (if \<not> list_ex (\<lambda>c. c = CHR '','' \<or> c = CHR 0x22 \<or> c = newline \<or> c = CHR 0x0D) t then t
      else CHR 0x22 # concat (map (\<lambda>c. if c = CHR 0x22 then [CHR 0x22, c] else [c]) t) @ [CHR 0x22])"

definition optional_nanos_text :: "nanos option \<Rightarrow> string" where
  "optional_nanos_text v = (case v of Some n \<Rightarrow> show_int n | None \<Rightarrow> [])"

definition finish_export :: "export_result \<Rightarrow> string \<Rightarrow> export_request \<Rightarrow> export_result" where
  "finish_export x t q =
     x\<lparr>xr_text := t, xr_content_digest := sha256_hex t,
       xr_notes := xr_notes x @ [''unknown quantities are exported as null or an empty field, never as zero''] @
         (if xr_truncated x
          then [''the export stopped at the requested limit; records_skipped reports how many matched records were left out''] else []) @
         (if xq_format q = CsvFormat then [''csv columns are positional and stable for this format version''] else [])\<rparr>"

definition empty_export :: export_result where
  "empty_export = \<lparr>xr_text = [], xr_records_exported = 0, xr_records_skipped = 0, xr_truncated = False, xr_content_digest = [],
     xr_notes = []\<rparr>"

text \<open>The text of a writer in the requested layout.\<close>

definition written_as :: "bool \<Rightarrow> writer_op \<Rightarrow> string" where
  "written_as pretty f = the (map_option jw_out (f (new_writer [] pretty)))"

section \<open>The three kinds of export\<close>

definition export_window :: "timestamp \<Rightarrow> export_request \<Rightarrow> time_window result" where
  "export_window now q =
     make_window (if ts_valid (xq_from q) then xq_from q else \<lparr>ts_ns = 0, ts_domain = ts_domain now\<rparr>)
       (if ts_valid (xq_to q) then xq_to q else \<lparr>ts_ns = wrap_i64 (ts_ns now + 1), ts_domain = ts_domain now\<rparr>)"

definition export_summary :: "timestamp \<Rightarrow> export_request \<Rightarrow> engine \<Rightarrow> export_result result" where
  "export_summary now q e =
     (if \<not> valid_id (xq_path q) then fail InvalidArgument ''a summary export requires a path'' []
      else if \<not> valid_id (xq_generation q) then fail InvalidArgument ''a summary export requires a generation'' []
      else try_bind (export_window now q) (\<lambda>window.
        let request = \<lparr>sq_path = xq_path q, sq_generation = xq_generation q, sq_mode = HistoricalMode, sq_window = window,
              sq_histogram = latency_default, sq_probes = the default_quantile_probes, sq_restrict_to_source = no_id\<rparr>
        in try_bind (summarize_path (records_locked e) (en_catalog e) request (en_policy e)) (\<lambda>summary.
             Inr (finish_export (empty_export\<lparr>xr_records_exported := ps_exchanges_included summary\<rparr>)
               (written_as (xq_pretty q) (write_path_summary summary)) q))))"

text \<open>
  The loops that write what matches up to the limit and count the rest: the entries written, the
  number left out.
\<close>

fun export_loop :: "nat \<Rightarrow> nat \<Rightarrow> 'a list \<Rightarrow> 'a list \<times> nat" where
  "export_loop limit exported [] = ([], 0)"
| "export_loop limit exported (x # xs) =
     (if exported \<ge> limit then (case export_loop limit exported xs of (ys, skipped) \<Rightarrow> (ys, skipped + 1))
      else (case export_loop limit (exported + 1) xs of (ys, skipped) \<Rightarrow> (x # ys, skipped)))"

definition accounted :: "'a list \<times> nat \<Rightarrow> export_result" where
  "accounted chosen = empty_export\<lparr>xr_records_exported := word_of_nat (length (fst chosen)),
     xr_records_skipped := word_of_nat (snd chosen), xr_truncated := (snd chosen \<noteq> 0)\<rparr>"

definition export_limit :: "export_request \<Rightarrow> engine \<Rightarrow> nat" where
  "export_limit q e = min (xq_limit q) (max_export_records (pol_limits (en_policy e)))"

definition export_list :: "string \<Rightarrow> string \<Rightarrow> engine \<Rightarrow> writer_op list \<Rightarrow> writer_op" where
  "export_list kind name e entries = wrun
     [begin_object,
      field_string ''kind'' kind,
      field_string ''policy_digest'' (policy_digest (en_policy e)),
      field_array name,
      wrun entries,
      end_array,
      end_object]"

definition export_baselines :: "export_request \<Rightarrow> engine \<Rightarrow> export_result" where
  "export_baselines q e =
     (let chosen = export_loop (export_limit q e) 0 (list_baselines (en_baselines e))
      in finish_export (accounted chosen)
           (written_as (xq_pretty q) (export_list ''baselines'' ''baselines'' e (map write_baseline (fst chosen)))) q)"

definition export_matches :: "export_request \<Rightarrow> measurement_record \<Rightarrow> bool" where
  "export_matches q r \<longleftrightarrow>
     \<not> (valid_id (xq_path q) \<and> rec_path r \<noteq> xq_path q) \<and>
     \<not> (valid_id (xq_generation q) \<and> rec_generation r \<noteq> xq_generation q) \<and>
     \<not> (ts_valid (xq_from q) \<and> ts_ns (stamp_received_at (rec_stamp r)) < ts_ns (xq_from q)) \<and>
     \<not> (ts_valid (xq_to q) \<and> ts_ns (stamp_received_at (rec_stamp r)) \<ge> ts_ns (xq_to q))"

definition csv_header :: "nat \<Rightarrow> string" where
  "csv_header max_hops =
     ''measurement,path,generation,source,epoch,incarnation,sequence,observed_at_ns,observed_at_domain,received_at_ns,state,freshness,confidence,rtt_ns'' @
     concat (map (\<lambda>i. '',hop'' @ show_nat i @ ''_dwell_ns,hop'' @ show_nat i @ ''_queue_dwell_ns'') [0..<max_hops]) @ [newline]"

definition csv_hop :: "measurement_record \<Rightarrow> nat \<Rightarrow> string" where
  "csv_hop r i =
     '','' @ (case (case hop_index_from_value (word_of_nat i) of Inr index \<Rightarrow> hop_at r index | Inl _ \<Rightarrow> None) of
        Some h \<Rightarrow> optional_nanos_text (ho_dwell_ns h) @ '','' @ optional_nanos_text (ho_queue_dwell_ns h)
      | None \<Rightarrow> '','')"

definition csv_row :: "nat \<Rightarrow> measurement_record \<Rightarrow> string" where
  "csv_row max_hops r =
     csv_escape (id_to_hex (rec_id r)) @ '','' @
     csv_escape (id_to_hex (rec_path r)) @ '','' @
     csv_escape (id_to_hex (rec_generation r)) @ '','' @
     csv_escape (id_to_hex (rec_source r)) @ '','' @
     csv_escape (id_to_hex (rec_epoch r)) @ '','' @
     csv_escape (id_to_hex (rec_incarnation r)) @ '','' @
     show_nat (unat (rec_sequence r)) @ '','' @
     show_int (ts_ns (stamp_observed_at (rec_stamp r))) @ '','' @
     csv_escape (id_to_hex (ts_domain (stamp_observed_at (rec_stamp r)))) @ '','' @
     show_int (ts_ns (stamp_received_at (rec_stamp r))) @ '','' @
     state_to_string (ev_state (rec_evidence r)) @ '','' @
     freshness_to_string (ev_freshness (rec_evidence r)) @ '','' @
     confidence_to_string (ev_confidence (rec_evidence r)) @ '','' @
     show_int (rec_rtt_ns r) @ concat (map (csv_hop r) [0..<max_hops]) @ [newline]"

definition csv_max_hops :: "measurement_record list \<Rightarrow> nat" where
  "csv_max_hops rs = foldl (\<lambda>m r. foldl (\<lambda>m h. max m (unat (ho_index h) + 1)) m (rec_hops r)) 0 rs"

definition export_samples :: "export_request \<Rightarrow> engine \<Rightarrow> export_result" where
  "export_samples q e =
     (let chosen = export_loop (export_limit q e) 0 (filter (export_matches q) (en_records e));
          max_hops = csv_max_hops (en_records e);
          t = (if xq_format q = CsvFormat then csv_header max_hops @ concat (map (csv_row max_hops) (fst chosen))
               else written_as (xq_pretty q) (export_list ''samples'' ''measurements'' e (map write_measurement (fst chosen))))
      in finish_export (accounted chosen) t q)"

definition export_locked :: "timestamp \<Rightarrow> export_request \<Rightarrow> engine \<Rightarrow> export_result result" where
  "export_locked now q e =
     (if xq_limit q = 0 then fail InvalidArgument ''an export limit of zero would export nothing'' []
      else case xq_kind q of
        SummaryExport \<Rightarrow> export_summary now q e
      | BaselinesExport \<Rightarrow> Inr (export_baselines q e)
      | SamplesExport \<Rightarrow> Inr (export_samples q e))"

definition export_data :: "timestamp \<Rightarrow> export_request \<Rightarrow> engine \<Rightarrow> export_result result \<times> engine" where
  "export_data now q e = (export_locked now q e, count_query e)"

section \<open>Capabilities and encoders\<close>

record capability =
  cb_name :: string
  cb_status :: string
  cb_detail :: string

record capabilities =
  cs_version :: string
  cs_build_type :: string
  cs_compiler :: string
  cs_executable_process :: bool
  cs_tcp_transport :: bool
  cs_persistence :: bool
  cs_sanitizers :: bool
  cs_hardware_telemetry :: bool
  cs_entries :: "capability list"

definition Capability :: "string \<Rightarrow> string \<Rightarrow> string \<Rightarrow> capability" where
  "Capability name status detail = \<lparr>cb_name = name, cb_status = status, cb_detail = detail\<rparr>"

text \<open>The build type, the compiler and the sanitizer flag are fixed when the program is compiled.\<close>

definition engine_capabilities :: "string \<Rightarrow> string \<Rightarrow> bool \<Rightarrow> engine \<Rightarrow> capabilities" where
  "engine_capabilities build_type compiler asan e =
     (let persistence = en_writer e \<noteq> None
      in \<lparr>cs_version = ''1.0.0'', cs_build_type = build_type, cs_compiler = compiler, cs_executable_process = True,
          cs_tcp_transport = True, cs_persistence = persistence, cs_sanitizers = asan, cs_hardware_telemetry = False,
          cs_entries =
            [Capability ''latency observation (end to end and per hop)'' ''real''
               ''measured from submitted observations with full provenance'',
             Capability ''deterministic aggregation'' ''real''
               ''count, min, max, sum, exact rational quantiles, explicit histograms'',
             Capability ''clock comparability gating'' ''real''
               ''dwells are only derived when both clock domains are comparable'',
             Capability ''generation bound baselines'' ''real''
               ''a baseline is refused across generations, paths, domains and bucketings'',
             Capability ''versioned integrity checked persistence'' ''real''
               (if persistence then ''segment framing with CRC-32C and a versioned manifest'' else ''not configured for this process''),
             Capability ''network ingest transport'' ''real''
               ''line oriented TCP transport, proven with independent processes'',
             Capability ''switch, ASIC, RDMA, InfiniBand or NVLink telemetry'' ''unsupported''
               ''the runtime never claims hardware counters it did not receive'',
             Capability ''causality inference'' ''unsupported''
               ''anomalies are statistical deviations from a baseline, never causes'',
             Capability ''latency SLO enforcement or traffic control'' ''unsupported''
               ''out of scope: this runtime observes and attributes only'',
             Capability ''multi host fabric observation'' ''unsupported''
               ''sources are declarations; the runtime does not verify remote topology'',
             Capability ''synthetic scenario generator'' ''synthetic''
               ''the demo scenario is generated in process and labelled synthetic'']\<rparr>)"

definition write_history_bucket :: "history_bucket \<Rightarrow> writer_op" where
  "write_history_bucket b = wrun
     [begin_object,
      field_int ''from_ns'' (ts_ns (hb_from b)),
      field_int ''to_ns'' (ts_ns (hb_to b)),
      field_uint ''exchanges_considered'' (hb_exchanges_considered b),
      field_uint ''exchanges_included'' (hb_exchanges_included b),
      field_uint ''excluded_stale'' (hb_excluded_stale b),
      field_uint ''excluded_conflicting'' (hb_excluded_conflicting b),
      field_uint ''excluded_unsupported'' (hb_excluded_unsupported b),
      json_key ''end_to_end'', write_distribution (hb_end_to_end b),
      field_string ''evidence_state'' (state_to_string (ev_state (hb_evidence b))),
      write_reasons (hb_evidence b),
      end_object]"

definition write_history :: "history_result \<Rightarrow> writer_op" where
  "write_history h = wrun
     [begin_object,
      field_string ''path'' (id_to_hex (hr_path h)),
      field_string ''generation'' (id_to_hex (hr_generation h)),
      field_string ''clock_domain'' (id_to_hex (hr_domain h)),
      field_string ''mode'' (mode_to_string (hr_mode h)),
      field_int ''bucket_ns'' (hr_bucket_ns h),
      field_uint ''buckets_with_evidence'' (hr_buckets_with_evidence h),
      field_uint ''buckets_empty'' (hr_buckets_empty h),
      field_string ''policy_digest'' (hr_policy_digest h),
      field_array ''buckets'',
      wrun (map write_history_bucket (hr_buckets h)),
      end_array,
      field_string ''evidence_state'' (state_to_string (ev_state (hr_evidence h))),
      end_object]"

definition write_capability :: "capability \<Rightarrow> writer_op" where
  "write_capability c = wrun
     [begin_object,
      field_string ''capability'' (cb_name c),
      field_string ''status'' (cb_status c),
      field_string ''detail'' (cb_detail c),
      end_object]"

definition write_capabilities :: "capabilities \<Rightarrow> writer_op" where
  "write_capabilities c = wrun
     [begin_object,
      field_string ''version'' (cs_version c),
      field_string ''build_type'' (cs_build_type c),
      field_string ''compiler'' (cs_compiler c),
      field_bool ''executable_process'' (cs_executable_process c),
      field_bool ''tcp_transport'' (cs_tcp_transport c),
      field_bool ''persistence'' (cs_persistence c),
      field_bool ''sanitizers'' (cs_sanitizers c),
      field_bool ''hardware_telemetry'' (cs_hardware_telemetry c),
      field_array ''entries'',
      wrun (map write_capability (cs_entries c)),
      end_array,
      end_object]"

definition write_stats :: "engine_stats \<Rightarrow> writer_op" where
  "write_stats s = wrun
     [begin_object,
      field_int ''session_started_at_ns'' (ts_ns (es_session_started_at s)),
      field_int ''session_uptime_ns'' (es_session_uptime_ns s),
      field_uint ''measurements_stored'' (es_measurements_stored s),
      field_uint ''measurements_current'' (es_measurements_current s),
      field_uint ''measurements_historical'' (es_measurements_historical s),
      field_uint ''measurements_rejected'' (es_measurements_rejected s),
      field_uint ''ingest_batches'' (es_ingest_batches s),
      field_uint ''records_persisted'' (es_records_persisted s),
      field_uint ''baselines'' (es_baselines s),
      field_uint ''sources'' (es_sources s),
      field_uint ''paths'' (es_paths s),
      field_uint ''generations'' (es_generations s),
      field_uint ''clock_domains'' (es_clock_domains s),
      field_uint ''queries'' (es_queries s),
      field_uint ''records_recovered'' (es_records_recovered s),
      field_bool ''recovery_truncated'' (es_recovery_truncated s),
      field_uint ''store_bytes'' (es_store_bytes s),
      field_object ''workers'',
      field_uint ''submitted'' (st_submitted (es_workers s)),
      field_uint ''completed'' (st_completed (es_workers s)),
      field_uint ''failed'' (st_failed (es_workers s)),
      field_uint ''cancelled'' (st_cancelled (es_workers s)),
      field_uint ''refused'' (st_refused (es_workers s)),
      field_uint ''reentrant_refusals'' (st_reentrant_refusals (es_workers s)),
      field_uint ''peak_pending'' (st_peak_pending (es_workers s)),
      field_uint ''pending'' (word_of_nat (st_pending (es_workers s))),
      field_bool ''shutting_down'' (st_shutting_down (es_workers s)),
      end_object,
      end_object]"

section \<open>What an export contains\<close>

lemma export_loop_eq: "export_loop limit k xs = (take (limit - k) xs, length xs - (limit - k))"
proof (induction xs arbitrary: k)
  case (Cons x xs)
  show ?case
  proof (cases "k < limit")
    case True
    then have "limit - k = Suc (limit - Suc k)" by simp
    then show ?thesis using True Cons by simp
  qed (simp add: Cons)
qed simp

lemma written_as_value: "written_as pretty (write_value v) = render pretty 0 v"
  by (simp add: written_as_def write_value_render new_writer_def emit_def before_value_def)

lemma export_list_document:
  "export_list kind name e (map (\<lambda>x. write_value (g x)) xs) = write_value (JObject
     [(''kind'', JString kind), (''policy_digest'', JString (policy_digest (en_policy e))), (name, JArray (map g xs))])"
  by (simp add: export_list_def document_simps)

text \<open>C37: An export accounts for every matching record: an export of samples writes the first records that match the
  request, up to the smaller of the two limits, counts them and the matching records left out, and is
  marked truncated exactly when one was left out. As JSON, compact or indented, the text is read back
  as an object with exactly the documents of the records written; the digest is the one of the text.\<close>

theorem export_accounts:
  assumes "export_data now q e = (Inr x, e')" and "xq_kind q = SamplesExport" and "length (en_records e) < 2 ^ 64"
  shows "let matching = filter (export_matches q) (en_records e); written = take (export_limit q e) matching
    in unat (xr_records_exported x) = length written \<and>
       unat (xr_records_exported x) + unat (xr_records_skipped x) = length matching \<and>
       (xr_truncated x \<longleftrightarrow> length written < length matching) \<and>
       xr_content_digest x = sha256_hex (xr_text x) \<and>
       (xq_format q = JsonFormat \<and> list_all record_storable written \<and> 8 \<le> depth \<longrightarrow>
         parse_json (xr_text x) depth = Some (Inr (JObject
           [(''kind'', JString ''samples''), (''policy_digest'', JString (policy_digest (en_policy e))),
            (''measurements'', JArray (map json_of_measurement written))])))"
proof -
  define matching where "matching = filter (export_matches q) (en_records e)"
  have x: "x = export_samples q e" using assms(1,2) by (auto simp: export_data_def export_locked_def fail_def split: if_splits)
  have l: "length matching < 2 ^ 64" unfolding matching_def using length_filter_le [of "export_matches q" "en_records e"] assms(3) by (rule le_less_trans)
  have n: "unat (word_of_nat k :: u64) = k" if "k \<le> length matching" for k
    using that l by (simp add: unat_of_nat take_bit_nat_eq_self)
  note d = export_samples_def Let_def matching_def [symmetric] export_loop_eq accounted_def empty_export_def finish_export_def
  have "unat (xr_records_exported x) = length (take (export_limit q e) matching)" unfolding x d by (simp add: n)
  moreover have "unat (xr_records_exported x) + unat (xr_records_skipped x) = length matching" unfolding x d by (simp add: n)
  moreover have "xr_truncated x \<longleftrightarrow> length (take (export_limit q e) matching) < length matching" unfolding x d by auto
  moreover have "xr_content_digest x = sha256_hex (xr_text x)" unfolding x d by simp
  moreover have "parse_json (xr_text x) depth = Some (Inr (JObject
      [(''kind'', JString ''samples''), (''policy_digest'', JString (policy_digest (en_policy e))),
       (''measurements'', JArray (map json_of_measurement (take (export_limit q e) matching)))]))"
    if "xq_format q = JsonFormat" "list_all record_storable (take (export_limit q e) matching)" "8 \<le> depth"
  proof -
    have w: "write_measurement = (\<lambda>r. write_value (json_of_measurement r))" by (simp add: write_measurement_document fun_eq_iff)
    have t: "xr_text x = render (xq_pretty q) 0 (JObject
      [(''kind'', JString ''samples''), (''policy_digest'', JString (policy_digest (en_policy e))),
       (''measurements'', JArray (map json_of_measurement (take (export_limit q e) matching)))])"
      using that(1) unfolding x d w by (simp add: export_list_document written_as_value)
    show ?thesis unfolding t
      by (rule parse_render) (use that in \<open>auto simp: list_all_iff intro!: json_ok_measurement\<close>)
  qed
  ultimately show ?thesis unfolding matching_def [symmetric] Let_def by blast
qed

section \<open>Every line of a CSV export has the same columns\<close>

definition plain :: "string \<Rightarrow> bool" where
  "plain t \<longleftrightarrow> (\<forall>c \<in> set t. c \<noteq> CHR '','' \<and> c \<noteq> CHR 0x22 \<and> c \<noteq> newline \<and> c \<noteq> CHR 0x0D)"

lemma plain_append [simp]: "plain (a @ b) \<longleftrightarrow> plain a \<and> plain b" "plain []"
  by (auto simp: plain_def)

lemma csv_escape_plain [simp]: "plain t \<Longrightarrow> csv_escape t = t"
  by (auto simp: csv_escape_def plain_def list_ex_iff)

lemma digit_plain: "is_digit c \<Longrightarrow> plain [c]"
  by (auto simp: plain_def is_digit_def)

lemma plain_numbers [simp]: "plain (show_nat n)" "plain (show_int x)"
proof -
  show n: "plain (show_nat n)" for n using digit_plain show_nat_digits [of _ n] by (auto simp: plain_def)
  show "plain (show_int x)" using n unfolding show_int_def by (simp add: plain_def)
qed

lemma plain_hex [simp]: "plain (id_to_hex i)"
proof -
  have "plain Core_Digest.kDigits" "length Core_Digest.kDigits = 16" by (simp_all add: plain_def Core_Digest.kDigits_def)
  then have "plain [Core_Digest.kDigits ! unat (drop_bit k (id_value i) AND 0x0F)]" for k
    using nth_mem [of "unat (drop_bit k (id_value i) AND 0x0F)" Core_Digest.kDigits] by (simp add: plain_def unat_nibble)
  then show ?thesis unfolding id_to_hex_def plain_def by auto
qed

lemma plain_state [simp]: "plain (state_to_string s)"
  by (cases s) (simp_all add: plain_def state_to_string_def enum_name_def kStates_def)

lemma plain_freshness [simp]: "plain (freshness_to_string f)"
  by (cases f) (simp_all add: plain_def freshness_to_string_def enum_name_def kFreshness_def)

lemma plain_confidence [simp]: "plain (confidence_to_string c)"
  by (cases c) (simp_all add: plain_def confidence_to_string_def enum_name_def kConfidence_def)

lemma plain_optional [simp]: "plain (optional_nanos_text v)"
  by (cases v) (simp_all add: optional_nanos_text_def)

text \<open>A line with k commas and no line end.\<close>

definition row_of :: "nat \<Rightarrow> string \<Rightarrow> bool" where
  "row_of k t \<longleftrightarrow> newline \<notin> set t \<and> count_list t (CHR '','') = k"

lemma row_of_append: "row_of j a \<Longrightarrow> row_of k b \<Longrightarrow> row_of (j + k) (a @ b)"
  by (auto simp: row_of_def)

lemma row_of_plain: "plain t \<Longrightarrow> row_of 0 t"
  by (auto simp: row_of_def plain_def intro!: count_notin)

lemma row_of_field: "plain t \<Longrightarrow> row_of k b \<Longrightarrow> row_of (Suc k) (t @ CHR '','' # b)"
  using row_of_append [OF row_of_plain, of t k b] by (auto simp: row_of_def)

lemma row_of_concat: "(\<And>i. i \<in> set is \<Longrightarrow> row_of k (f i)) \<Longrightarrow> row_of (k * length is) (concat (map f is))"
proof (induction "is")
  case (Cons i "is")
  then have "row_of (k + k * length is) (f i @ concat (map f is))" by (intro row_of_append) auto
  then show ?case by simp
qed (simp add: row_of_def)

lemma csv_hop_row: "row_of 2 (csv_hop r i)"
proof -
  have "row_of 2 ([] @ CHR '','' # a @ CHR '','' # b)" if "plain a" "plain b" for a b
    using that row_of_field [of "[]" 1] row_of_field [of a 0 b] row_of_plain [of b] by (simp add: numeral_2_eq_2)
  from this [of "[]" "[]"] this show ?thesis by (auto simp: csv_hop_def split: option.splits)
qed

lemma row_of_fields: "list_all plain ts \<Longrightarrow> row_of k b \<Longrightarrow> row_of (length ts + k) (concat (map (\<lambda>t. t @ '','') ts) @ b)"
  by (induction ts) (auto intro: row_of_field)

lemma csv_row_shape: "\<exists>line. csv_row m r = line @ [newline] \<and> row_of (13 + 2 * m) line"
proof -
  let ?fields = "[id_to_hex (rec_id r), id_to_hex (rec_path r), id_to_hex (rec_generation r), id_to_hex (rec_source r),
     id_to_hex (rec_epoch r), id_to_hex (rec_incarnation r), show_nat (unat (rec_sequence r)),
     show_int (ts_ns (stamp_observed_at (rec_stamp r))), id_to_hex (ts_domain (stamp_observed_at (rec_stamp r))),
     show_int (ts_ns (stamp_received_at (rec_stamp r))), state_to_string (ev_state (rec_evidence r)),
     freshness_to_string (ev_freshness (rec_evidence r)), confidence_to_string (ev_confidence (rec_evidence r))]"
  let ?rest = "show_int (rec_rtt_ns r) @ concat (map (csv_hop r) [0..<m])"
  have "row_of (2 * m) (concat (map (csv_hop r) [0..<m]))" using row_of_concat [OF csv_hop_row, of "[0..<m]"] by simp
  then have "row_of (2 * m) ?rest" using row_of_append [OF row_of_plain, of "show_int (rec_rtt_ns r)"] by fastforce
  then have "row_of (length ?fields + 2 * m) (concat (map (\<lambda>t. t @ '','') ?fields) @ ?rest)" by (intro row_of_fields) simp_all
  moreover have "length ?fields + 2 * m = 13 + 2 * m" by simp
  moreover have "csv_row m r = (concat (map (\<lambda>t. t @ '','') ?fields) @ ?rest) @ [newline]" by (simp add: csv_row_def)
  ultimately show ?thesis by (intro exI [of _ "concat (map (\<lambda>t. t @ '','') ?fields) @ ?rest"]) (simp only: simp_thms)
qed

lemma csv_header_shape: "\<exists>line. csv_header m = line @ [newline] \<and> row_of (13 + 2 * m) line"
proof -
  have "row_of 2 ('',hop'' @ show_nat i @ ''_dwell_ns,hop'' @ show_nat i @ ''_queue_dwell_ns'')" for i
  proof -
    have "row_of 1 '',hop''" "row_of 1 ''_dwell_ns,hop''" "row_of 0 ''_queue_dwell_ns''" by (simp_all add: row_of_def)
    from row_of_append [OF this(1) row_of_append [OF row_of_plain row_of_append [OF this(2) row_of_append [OF row_of_plain this(3)]]]]
    show ?thesis by (simp add: numeral_2_eq_2)
  qed
  from row_of_concat [OF this, of "[0..<m]"]
  have h: "row_of (2 * m) (concat (map (\<lambda>i. '',hop'' @ show_nat i @ ''_dwell_ns,hop'' @ show_nat i @ ''_queue_dwell_ns'') [0..<m]))"
    by (simp only: length_upt diff_zero)
  have "row_of 13 ''measurement,path,generation,source,epoch,incarnation,sequence,observed_at_ns,observed_at_domain,received_at_ns,state,freshness,confidence,rtt_ns''"
    by (simp add: row_of_def)
  from row_of_append [OF this h] show ?thesis unfolding csv_header_def append_assoc [symmetric] by blast
qed

text \<open>A CSV export is a table: for every request and every set of records the text is a header line and one line per
  record written, and every line has the same number of fields, fourteen and two for each hop index
  that occurs, whether or not the record reported the hop; the text of a reading is empty exactly when
  there is no reading, so an unknown value is never a zero.\<close>

lemma csv_rectangular:
  assumes "export_data now q e = (Inr x, e')" and "xq_kind q = SamplesExport" and "xq_format q = CsvFormat"
  shows "(\<exists>lines. xr_text x = concat (map (\<lambda>line. line @ [newline]) lines) \<and>
      length lines = Suc (min (export_limit q e) (length (filter (export_matches q) (en_records e)))) \<and>
      (\<forall>line \<in> set lines. newline \<notin> set line \<and>
        Suc (count_list line (CHR '','')) = 14 + 2 * csv_max_hops (en_records e))) \<and>
    (\<forall>v. optional_nanos_text v = [] \<longleftrightarrow> v = None)"
proof -
  define m where "m = csv_max_hops (en_records e)"
  define rs where "rs = take (export_limit q e) (filter (export_matches q) (en_records e))"
  have x: "x = export_samples q e" using assms(1,2) by (auto simp: export_data_def export_locked_def fail_def split: if_splits)
  have t: "xr_text x = csv_header m @ concat (map (csv_row m) rs)"
    using assms(3) by (simp add: x export_samples_def Let_def export_loop_eq finish_export_def m_def rs_def)
  obtain h where h: "csv_header m = h @ [newline]" "row_of (13 + 2 * m) h" using csv_header_shape by blast
  obtain f where f: "csv_row m r = f r @ [newline]" "row_of (13 + 2 * m) (f r)" for r using csv_row_shape by metis
  have "csv_row m = (\<lambda>r. f r @ [newline])" by (rule ext) (rule f(1))
  then have "xr_text x = concat (map (\<lambda>line. line @ [newline]) (h # map f rs))" by (simp add: t h(1) comp_def)
  moreover have "length (h # map f rs) = Suc (min (export_limit q e) (length (filter (export_matches q) (en_records e))))"
    by (simp add: rs_def)
  moreover have "\<forall>line \<in> set (h # map f rs). newline \<notin> set line \<and> Suc (count_list line (CHR '','')) = 14 + 2 * m"
    using h(2) f(2) by (auto simp: row_of_def)
  moreover have "optional_nanos_text v = [] \<longleftrightarrow> v = None" for v
    by (cases v) (simp_all add: optional_nanos_text_def show_int_def)
  ultimately show ?thesis unfolding m_def by blast
qed

section \<open>Exports of one record\<close>

definition demo_export :: "export_format \<Rightarrow> export_request" where
  "demo_export f = \<lparr>xq_kind = SamplesExport, xq_format = f, xq_path = no_id, xq_generation = no_id, xq_from = unset_timestamp,
     xq_to = unset_timestamp, xq_limit = 10, xq_pretty = False\<rparr>"

lemma demo_export_runs: "export_data now (demo_export f) demo_engine = (Inr (export_samples (demo_export f) demo_engine), count_query demo_engine)"
  by (simp add: export_data_def export_locked_def demo_export_def)

lemma demo_export_matches:
  "export_matches (demo_export f) demo_stored" "export_limit (demo_export f) demo_engine = 10"
  by (simp_all add: export_matches_def demo_export_def valid_id_def no_id_def ts_valid_def unset_timestamp_def export_limit_def
      default_runtime_policy_def default_limits_def)

theorem export_accounts_witness:
  "unat (xr_records_exported (export_samples (demo_export JsonFormat) demo_engine)) = 1"
proof -
  have k: "xq_kind (demo_export JsonFormat) = SamplesExport" "length (en_records demo_engine) < 2 ^ 64" by (simp_all add: demo_export_def)
  show ?thesis using export_accounts [OF demo_export_runs k, unfolded Let_def, THEN conjunct1] by (simp add: demo_export_matches)
qed

lemma csv_rectangular_example:
  "\<exists>lines. xr_text (export_samples (demo_export CsvFormat) demo_engine) = concat (map (\<lambda>line. line @ [newline]) lines) \<and> length lines = 2"
proof -
  have k: "xq_kind (demo_export CsvFormat) = SamplesExport" "xq_format (demo_export CsvFormat) = CsvFormat" by (simp_all add: demo_export_def)
  have n: "Suc (min (export_limit (demo_export CsvFormat) demo_engine)
      (length (filter (export_matches (demo_export CsvFormat)) (en_records demo_engine)))) = 2"
    by (simp add: demo_export_matches)
  show ?thesis using csv_rectangular [OF demo_export_runs k, THEN conjunct1, unfolded n] by blast
qed

end
