(* ===== verification/Engine_Log.thy ===== *)
theory Engine_Log
  imports Engine_Export
begin

text \<open>
  The store as the log of the engine (\<^verbatim>\<open>runtime/engine.cpp\<close>): what of the engine survives a restart, the
  interface of a log that is replayed, and that what the definitions and an ingest append, when it is
  loaded again, has the effect they had.
\<close>

section \<open>The state that survives a restart\<close>

text \<open>
  What the engine keeps of the past, without what is recomputed on loading or not stored: of a record its
  stored form with the state of its evidence, but neither freshness, confidence and reasons nor the
  monotonic time of its receipt; an identity it lacked is the derived one. Of a baseline all but the
  reasons, freshness and confidence of its evidence and the clock domain of its creation.
\<close>

definition record_core :: "measurement_record \<Rightarrow> measurement_record" where
  "record_core r = (persisted_record r)\<lparr>rec_evidence := default_evidence\<lparr>ev_state := ev_state (rec_evidence r)\<rparr>\<rparr>"

definition kept_baselines :: "baseline_store \<Rightarrow> baseline_store" where
  "kept_baselines b = b\<lparr>bs_baselines := map (\<lambda>(i, v). (i, persisted_baseline v)) (bs_baselines b)\<rparr>"

definition durable_state ::
  "engine \<Rightarrow> runtime_policy \<times> catalog \<times> clock_registry \<times> ingest_gate \<times> baseline_store \<times> measurement_record list" where
  "durable_state e = (en_policy e, en_catalog e, en_clocks e, en_gate e, kept_baselines (en_baselines e), map record_core (en_records e))"

lemma add_reason_state [simp]:
  "ev_state (add_reason c d ev) = ev_state ev" "ev_freshness (add_reason c d ev) = ev_freshness ev"
  "ev_confidence (add_reason c d ev) = ev_confidence ev"
  by (simp_all add: add_reason_def Let_def)

lemma reclassify_core: "record_core (reclassify_loaded e r) = record_core r"
  by (simp add: record_core_def reclassify_loaded_def persisted_record_def emitted_id_def Let_def)

lemma record_core_persisted: "record_core (persisted_record r) = record_core r"
proof -
  have "persisted_hop (persisted_hop h) = persisted_hop h" for h by (simp add: persisted_hop_def persisted_evidence_def)
  then have "map persisted_hop (map persisted_hop hs) = map persisted_hop hs" for hs by simp
  moreover have v: "valid_id (emitted_id r)" by simp
  then have "emitted_id (r'\<lparr>rec_id := emitted_id r\<rparr>) = emitted_id r" for r' unfolding emitted_id_def [of "r'\<lparr>rec_id := emitted_id r\<rparr>"] by simp
  ultimately show ?thesis using v
    by (simp add: record_core_def persisted_record_def persisted_evidence_def emitted_id_def [of "r\<lparr>rec_id := _, rec_domain := _, rec_hops := _, rec_stamp := _, rec_evidence := _\<rparr>"])
qed

lemmas restoring_defs = restore_with_def on_catalog_def on_clocks_def on_baselines_def add_record_def add_fence_def

lemma om_find_values: "om_find (map (\<lambda>(i, v). (i, f v)) m) k = map_option f (om_find m k)"
  by (induction m) auto

lemma om_set_values: "om_set k (f v) (map (\<lambda>(i, v). (i, f v)) m) = map (\<lambda>(i, v). (i, f v)) (om_set k v m)"
  by (induction m) auto

text \<open>Of the baselines already there, adding one reads no more than their identities.\<close>

lemma store_add_view:
  assumes "kept_baselines s = kept_baselines t"
  shows "fst (store_add b s) = fst (store_add b t) \<and> kept_baselines (snd (store_add b s)) = kept_baselines (snd (store_add b t))"
proof -
  have f: "bs_limits s = bs_limits t" "bs_policy s = bs_policy t" "bs_by_path s = bs_by_path t"
    "bs_generation_mismatch_refusals s = bs_generation_mismatch_refusals t"
    and m: "map (\<lambda>(i, v). (i, persisted_baseline v)) (bs_baselines s) = map (\<lambda>(i, v). (i, persisted_baseline v)) (bs_baselines t)"
    using assms by (cases s; cases t; simp add: kept_baselines_def)+
  have l: "length (bs_baselines s) = length (bs_baselines t)" using arg_cong [OF m, of length] by simp
  have "map_option persisted_baseline (om_find (bs_baselines s) i) = map_option persisted_baseline (om_find (bs_baselines t) i)" for i
    using m om_find_values [of persisted_baseline _ i] by metis
  then have i: "(om_find (bs_baselines s) i = None) = (om_find (bs_baselines t) i = None)" for i
    by (metis None_eq_map_option_iff)
  have "map (\<lambda>(i, v). (i, persisted_baseline v)) (om_set k v (bs_baselines s)) =
      map (\<lambda>(i, v). (i, persisted_baseline v)) (om_set k v (bs_baselines t))" for k v
    using m om_set_values [of k persisted_baseline v] by metis
  then show ?thesis using assms f l i unfolding store_add_def kept_baselines_def by (simp add: Let_def del: not_None_eq)
qed

section \<open>Reading a log again\<close>

text \<open>
  A log whose records are applied one after another, up to the first failure, and a view of the state
  that determines whether a record applies and what the view is afterwards. Replaying then needs no
  more than the view.
\<close>

locale replay_log =
  fixes apply_record :: "'r \<Rightarrow> 's \<Rightarrow> status \<times> 's"
    and replay :: "'r list \<Rightarrow> 's \<Rightarrow> status \<times> 's"
    and view :: "'s \<Rightarrow> 'v"
  assumes replay_Nil: "replay [] s = (ok_status, s)"
    and replay_Cons: "replay (x # xs) s = then_do (apply_record x s) (replay xs)"
    and apply_view: "view s = view t \<Longrightarrow>
      fst (apply_record x s) = fst (apply_record x t) \<and> view (snd (apply_record x s)) = view (snd (apply_record x t))"
begin

lemma replay_append: "replay (xs @ ys) s = then_do (replay xs s) (replay ys)"
  by (induction xs arbitrary: s) (auto simp: replay_Nil replay_Cons then_do_def split: sum.splits prod.splits)

lemma replay_view:
  "view s = view t \<Longrightarrow> fst (replay xs s) = fst (replay xs t) \<and> view (snd (replay xs s)) = view (snd (replay xs t))"
proof (induction xs arbitrary: s t)
  case (Cons x xs)
  obtain r s1 where a: "apply_record x s = (r, s1)" by fastforce
  obtain q t1 where b: "apply_record x t = (q, t1)" by fastforce
  have "r = q" "view s1 = view t1" using apply_view [OF Cons.prems, of x] a b by simp_all
  then show ?case using Cons.IH [of s1 t1] a b by (auto simp: replay_Cons then_do_def split: sum.splits)
qed (simp add: replay_Nil)

lemma replay_extend:
  assumes "replay xs s0 = (ok_status, s1)" and "view s1 = view s" and "replay ys s = (ok_status, t)"
  shows "\<exists>t'. replay (xs @ ys) s0 = (ok_status, t') \<and> view t' = view t"
  using replay_view [OF assms(2), of ys] assms(1,3)
  by (cases "replay ys s1") (auto simp: replay_append then_do_def)

end

lemma restore_document_view:
  assumes "durable_state e = durable_state f"
  shows "fst (restore_document t document e) = fst (restore_document t document f) \<and>
    durable_state (snd (restore_document t document e)) = durable_state (snd (restore_document t document f))"
proof (cases "t = BaselineRecord")
  case True
  have "kept_baselines (en_baselines e) = kept_baselines (en_baselines f)" using assms by (simp add: durable_state_def)
  note store_add_view [OF this]
  then show ?thesis using True assms
    by (auto simp: durable_state_def restore_with_def on_baselines_def case_prod_unfold split: sum.splits)
next
  case False
  then show ?thesis using assms
    by (cases t) (auto simp: durable_state_def restoring_defs reclassify_core split: sum.splits prod.splits)
qed

interpretation store_log: replay_log load_record load_records durable_state
proof
  fix e f :: engine and x :: "record_type \<times> string"
  assume d: "durable_state e = durable_state f"
  then have "en_policy e = en_policy f" by (simp add: durable_state_def)
  then show "fst (load_record x e) = fst (load_record x f) \<and> durable_state (snd (load_record x e)) = durable_state (snd (load_record x f))"
    using restore_document_view [OF d] d by (auto simp: load_record_def split: sum.splits)
qed simp_all

text \<open>A history restores a state: whatever session reads it, loading succeeds and ends in that state.\<close>

definition restores :: "runtime_config \<Rightarrow> (record_type \<times> string) list \<Rightarrow> engine \<Rightarrow> bool" where
  "restores config hist e \<longleftrightarrow> (\<forall>start. \<exists>f. load_records hist (new_engine config start) = (ok_status, f) \<and> durable_state f = durable_state e)"

lemma restores_new: "restores config [] (new_engine config start)"
  by (simp add: restores_def durable_state_def new_engine_def Let_def)

lemma restores_step:
  assumes "restores config hist e" and "load_records added e = (ok_status, f)" and "durable_state f = durable_state g"
  shows "restores config (hist @ added) g"
  using assms store_log.replay_extend [OF _ _ assms(2)] unfolding restores_def by metis

lemma restores_durable: "restores config hist e \<Longrightarrow> durable_state f = durable_state e \<Longrightarrow> restores config hist f"
  by (simp add: restores_def)

section \<open>What each entry point writes restores its effect\<close>

lemma encode_with_value: "encode_with (write_value v) = render False 0 v"
  by (simp add: encode_with_def written_value)

lemma load_record_value:
  assumes "json_ok (max_json_depth (pol_limits (en_policy e))) v"
  shows "load_record (t, encode_with (write_value v)) e = restore_document t v e"
  using parse_render [OF assms] by (simp add: load_record_def parse_payload_def encode_with_value)

text \<open>A decoder derives the identity from the name, whatever identity was written.\<close>

lemma decode_named_entities:
  "name_ok (src_name s) \<Longrightarrow> src_revision s \<noteq> 0 \<Longrightarrow> src_semantics s AND 7 = src_semantics s \<Longrightarrow>
     decode_source (json_of_source s) = Inr (s\<lparr>src_id := derive_from (src_name s)\<rparr>)"
  "name_ok (ep_name e) \<Longrightarrow> ep_revision e \<noteq> 0 \<Longrightarrow> decode_endpoint (json_of_endpoint e) = Inr (e\<lparr>ep_id := derive_from (ep_name e)\<rparr>)"
  "name_ok (link_name l) \<Longrightarrow> link_revision l \<noteq> 0 \<Longrightarrow> decode_link (json_of_link l) = Inr (l\<lparr>link_id := derive_from (link_name l)\<rparr>)"
  "name_ok (queue_name q) \<Longrightarrow> queue_revision q \<noteq> 0 \<Longrightarrow> queue_semantics q AND 7 = queue_semantics q \<Longrightarrow>
     decode_queue (json_of_queue q) = Inr (q\<lparr>queue_id := derive_from (queue_name q)\<rparr>)"
  "name_ok (hop_name h) \<Longrightarrow> hop_revision h \<noteq> 0 \<Longrightarrow> decode_hop (json_of_hop h) = Inr (h\<lparr>hop_id := derive_from (hop_name h)\<rparr>)"
  "name_ok (gen_name g) \<Longrightarrow> gen_revision g \<noteq> 0 \<Longrightarrow>
     decode_generation (json_of_generation g) = Inr (g\<lparr>gen_id := derive_from (gen_name g)\<rparr>)"
  "name_ok (path_name p) \<Longrightarrow> path_revision p \<noteq> 0 \<Longrightarrow> decode_path (json_of_path p) = Inr (p\<lparr>path_id := derive_from (path_name p)\<rparr>)"
  "name_ok (dom_name d) \<Longrightarrow> decode_clock_domain (json_of_clock_domain d) = Inr (d\<lparr>dom_id := derive_from (dom_name d)\<rparr>)"
  by (auto simp: entity_decoders entity_documents json_name_read require_enum_def
      semantics_text_roundtrip decode_path_hops decode_simps)

text \<open>The catalog and the registry store the derived identity.\<close>

lemma define_derived:
  "define_source s cat = (Inr i, cat') \<Longrightarrow> src_revision s \<noteq> 0 \<and> define_source (s\<lparr>src_id := derive_from (src_name s)\<rparr>) cat = (Inr i, cat')"
  "define_endpoint e cat = (Inr j, cat') \<Longrightarrow> ep_revision e \<noteq> 0 \<and> define_endpoint (e\<lparr>ep_id := derive_from (ep_name e)\<rparr>) cat = (Inr j, cat')"
  "define_link l cat = (Inr k, cat') \<Longrightarrow> link_revision l \<noteq> 0 \<and> define_link (l\<lparr>link_id := derive_from (link_name l)\<rparr>) cat = (Inr k, cat')"
  "define_queue q cat = (Inr m, cat') \<Longrightarrow> queue_revision q \<noteq> 0 \<and> define_queue (q\<lparr>queue_id := derive_from (queue_name q)\<rparr>) cat = (Inr m, cat')"
  "define_hop h cat = (Inr n, cat') \<Longrightarrow> hop_revision h \<noteq> 0 \<and> define_hop (h\<lparr>hop_id := derive_from (hop_name h)\<rparr>) cat = (Inr n, cat')"
  "define_generation g cat = (Inr gi, cat') \<Longrightarrow>
     gen_revision g \<noteq> 0 \<and> define_generation (g\<lparr>gen_id := derive_from (gen_name g)\<rparr>) cat = (Inr gi, cat')"
  "define_path p cat = (Inr pi, cat') \<Longrightarrow> path_revision p \<noteq> 0 \<and> define_path (p\<lparr>path_id := derive_from (path_name p)\<rparr>) cat = (Inr pi, cat')"
  "define_domain d reg = (Inr di, reg') \<Longrightarrow> define_domain (d\<lparr>dom_id := derive_from (dom_name d)\<rparr>) reg = (Inr di, reg')"
  by (auto simp: define_source_def define_endpoint_def define_link_def define_queue_def define_hop_def define_generation_def
      define_path_def define_domain_def Let_def revision_valid_def first_guard.simps split: if_splits option.splits)

lemma on_catalog_Inr: "on_catalog f v e = (Inr i, e1) \<longleftrightarrow> (\<exists>c. f v (en_catalog e) = (Inr i, c) \<and> e1 = e\<lparr>en_catalog := c\<rparr>)"
  by (auto simp: on_catalog_def split: prod.splits)

lemma on_Inr:
  "f v (en_catalog e) = (Inr i, c) \<Longrightarrow> on_catalog f v e = (Inr i, e\<lparr>en_catalog := c\<rparr>)"
  "g w (en_clocks e) = (Inr j, k) \<Longrightarrow> on_clocks g w e = (Inr j, e\<lparr>en_clocks := k\<rparr>)"
  by (simp_all add: on_catalog_def on_clocks_def)

lemma on_clocks_Inr: "on_clocks f v e = (Inr i, e1) \<longleftrightarrow> (\<exists>c. f v (en_clocks e) = (Inr i, c) \<and> e1 = e\<lparr>en_clocks := c\<rparr>)"
  by (auto simp: on_clocks_def split: prod.splits)

text \<open>The definitions a caller may pass: names that were parsed, declared semantics, reports with a revision.\<close>

datatype definition_command =
    DefineSource source_descriptor | DefineEndpoint endpoint_def | DefineLink link_def | DefineQueue queue_def | DefineHop hop_def
  | DefineGeneration generation_def | DefinePath path_def | DefineClockDomain clock_domain_def | RecordClockSync clock_sync

fun command_ok :: "definition_command \<Rightarrow> bool" where
  "command_ok (DefineSource v) \<longleftrightarrow> name_ok (src_name v) \<and> src_semantics v AND 7 = src_semantics v"
| "command_ok (DefineEndpoint v) \<longleftrightarrow> name_ok (ep_name v)"
| "command_ok (DefineLink v) \<longleftrightarrow> name_ok (link_name v)"
| "command_ok (DefineQueue v) \<longleftrightarrow> name_ok (queue_name v) \<and> queue_semantics v AND 7 = queue_semantics v"
| "command_ok (DefineHop v) \<longleftrightarrow> name_ok (hop_name v)"
| "command_ok (DefineGeneration v) \<longleftrightarrow> name_ok (gen_name v)"
| "command_ok (DefinePath v) \<longleftrightarrow> name_ok (path_name v)"
| "command_ok (DefineClockDomain v) \<longleftrightarrow> name_ok (dom_name v)"
| "command_ok (RecordClockSync v) \<longleftrightarrow> sync_storable v"

text \<open>What an entry point does to the engine, the type of its record and its encoder; results without their value.\<close>

definition forget :: "'a result \<times> 's \<Rightarrow> status \<times> 's" where
  "forget x = (case x of (Inl err, s) \<Rightarrow> (Inl err, s) | (Inr _, s) \<Rightarrow> (ok_status, s))"

fun command_change :: "definition_command \<Rightarrow> engine \<Rightarrow> status \<times> engine" where
  "command_change (DefineSource v) = (\<lambda>e. forget (on_catalog define_source v e))"
| "command_change (DefineEndpoint v) = (\<lambda>e. forget (on_catalog define_endpoint v e))"
| "command_change (DefineLink v) = (\<lambda>e. forget (on_catalog define_link v e))"
| "command_change (DefineQueue v) = (\<lambda>e. forget (on_catalog define_queue v e))"
| "command_change (DefineHop v) = (\<lambda>e. forget (on_catalog define_hop v e))"
| "command_change (DefineGeneration v) = (\<lambda>e. forget (on_catalog define_generation v e))"
| "command_change (DefinePath v) = (\<lambda>e. forget (on_catalog define_path v e))"
| "command_change (DefineClockDomain v) = (\<lambda>e. forget (on_clocks define_domain v e))"
| "command_change (RecordClockSync v) = (\<lambda>e. forget (on_clocks record_sync v e))"

fun command_record :: "definition_command \<Rightarrow> record_type \<times> json" where
  "command_record (DefineSource v) = (SourceRecord, json_of_source v)"
| "command_record (DefineEndpoint v) = (EndpointRecord, json_of_endpoint v)"
| "command_record (DefineLink v) = (LinkRecord, json_of_link v)"
| "command_record (DefineQueue v) = (QueueRecord, json_of_queue v)"
| "command_record (DefineHop v) = (HopRecord, json_of_hop v)"
| "command_record (DefineGeneration v) = (GenerationRecord, json_of_generation v)"
| "command_record (DefinePath v) = (PathRecord, json_of_path v)"
| "command_record (DefineClockDomain v) = (ClockDomainRecord, json_of_clock_domain v)"
| "command_record (RecordClockSync v) = (ClockSyncRecord, json_of_clock_sync v)"

fun define_command :: "nanos \<Rightarrow> definition_command \<Rightarrow> world \<Rightarrow> status \<times> world" where
  "define_command now (DefineSource v) s = forget (engine_define_source now v s)"
| "define_command now (DefineEndpoint v) s = forget (engine_define_endpoint now v s)"
| "define_command now (DefineLink v) s = forget (engine_define_link now v s)"
| "define_command now (DefineQueue v) s = forget (engine_define_queue now v s)"
| "define_command now (DefineHop v) s = forget (engine_define_hop now v s)"
| "define_command now (DefineGeneration v) s = forget (engine_define_generation now v s)"
| "define_command now (DefinePath v) s = forget (engine_define_path now v s)"
| "define_command now (DefineClockDomain v) s = forget (engine_define_clock_domain now v s)"
| "define_command now (RecordClockSync v) s = forget (engine_record_clock_sync now v s)"

lemma forget_define_with: "forget (define_with now t change f s) = define_with now t (\<lambda>e. forget (change e)) f s"
  by (auto simp: forget_def define_with_def Let_def fail_def split: prod.splits sum.splits)

lemma define_command_eq:
  "define_command now c s =
     define_with now (fst (command_record c)) (command_change c) (write_value (snd (command_record c))) s"
  by (cases c) (simp_all add: forget_define_with engine_define_source_def engine_define_endpoint_def engine_define_link_def
      engine_define_queue_def engine_define_hop_def engine_define_generation_def engine_define_path_def engine_define_clock_domain_def
      engine_record_clock_sync_def write_entity_documents)

lemma forget_Inr: "forget x = (ok_status, s) \<longleftrightarrow> (\<exists>i. x = (Inr i, s))"
  by (cases x) (auto simp: forget_def split: sum.splits)

lemma restore_catalog:
  assumes "forget (on_catalog f v e) = (ok_status, e1)"
    and "\<And>i c. f v (en_catalog e) = (Inr i, c) \<Longrightarrow> decoded = Inr w \<and> f w (en_catalog e) = (Inr i, c)"
  shows "restore_with decoded (on_catalog f) e = (ok_status, e1)"
proof -
  from assms(1) obtain i c where "f v (en_catalog e) = (Inr i, c)" "e1 = e\<lparr>en_catalog := c\<rparr>" by (auto simp: forget_Inr on_catalog_Inr)
  then show ?thesis using assms(2) [of i c] by (simp add: restore_with_def on_Inr)
qed

lemma restore_clocks:
  assumes "forget (on_clocks f v e) = (ok_status, e1)"
    and "\<And>i c. f v (en_clocks e) = (Inr i, c) \<Longrightarrow> decoded = Inr w \<and> f w (en_clocks e) = (Inr i, c)"
  shows "restore_with decoded (on_clocks f) e = (ok_status, e1)"
proof -
  from assms(1) obtain i c where "f v (en_clocks e) = (Inr i, c)" "e1 = e\<lparr>en_clocks := c\<rparr>" by (auto simp: forget_Inr on_clocks_Inr)
  then show ?thesis using assms(2) [of i c] by (simp add: restore_with_def on_Inr)
qed

lemma restore_command:
  assumes "command_ok c" and "command_change c e = (ok_status, e1)"
  shows "restore_document (fst (command_record c)) (snd (command_record c)) e = (ok_status, e1)"
proof (cases c)
  case (DefineSource v)
  with assms have "forget (on_catalog define_source v e) = (ok_status, e1)" and "command_ok (DefineSource v)" by simp_all
  then show ?thesis unfolding DefineSource command_record.simps fst_conv snd_conv restore_document.simps
    by (intro restore_catalog [where v = v and w = "v\<lparr>src_id := derive_from (src_name v)\<rparr>"]) (auto dest: define_derived(1) intro: decode_named_entities(1))
next
  case (DefineEndpoint v)
  with assms have "forget (on_catalog define_endpoint v e) = (ok_status, e1)" and "command_ok (DefineEndpoint v)" by simp_all
  then show ?thesis unfolding DefineEndpoint command_record.simps fst_conv snd_conv restore_document.simps
    by (intro restore_catalog [where v = v and w = "v\<lparr>ep_id := derive_from (ep_name v)\<rparr>"]) (auto dest: define_derived(2) intro: decode_named_entities(2))
next
  case (DefineLink v)
  with assms have "forget (on_catalog define_link v e) = (ok_status, e1)" and "command_ok (DefineLink v)" by simp_all
  then show ?thesis unfolding DefineLink command_record.simps fst_conv snd_conv restore_document.simps
    by (intro restore_catalog [where v = v and w = "v\<lparr>link_id := derive_from (link_name v)\<rparr>"]) (auto dest: define_derived(3) intro: decode_named_entities(3))
next
  case (DefineQueue v)
  with assms have "forget (on_catalog define_queue v e) = (ok_status, e1)" and "command_ok (DefineQueue v)" by simp_all
  then show ?thesis unfolding DefineQueue command_record.simps fst_conv snd_conv restore_document.simps
    by (intro restore_catalog [where v = v and w = "v\<lparr>queue_id := derive_from (queue_name v)\<rparr>"]) (auto dest: define_derived(4) intro: decode_named_entities(4))
next
  case (DefineHop v)
  with assms have "forget (on_catalog define_hop v e) = (ok_status, e1)" and "command_ok (DefineHop v)" by simp_all
  then show ?thesis unfolding DefineHop command_record.simps fst_conv snd_conv restore_document.simps
    by (intro restore_catalog [where v = v and w = "v\<lparr>hop_id := derive_from (hop_name v)\<rparr>"]) (auto dest: define_derived(5) intro: decode_named_entities(5))
next
  case (DefineGeneration v)
  with assms have "forget (on_catalog define_generation v e) = (ok_status, e1)" and "command_ok (DefineGeneration v)" by simp_all
  then show ?thesis unfolding DefineGeneration command_record.simps fst_conv snd_conv restore_document.simps
    by (intro restore_catalog [where v = v and w = "v\<lparr>gen_id := derive_from (gen_name v)\<rparr>"]) (auto dest: define_derived(6) intro: decode_named_entities(6))
next
  case (DefinePath v)
  with assms have "forget (on_catalog define_path v e) = (ok_status, e1)" and "command_ok (DefinePath v)" by simp_all
  then show ?thesis unfolding DefinePath command_record.simps fst_conv snd_conv restore_document.simps
    by (intro restore_catalog [where v = v and w = "v\<lparr>path_id := derive_from (path_name v)\<rparr>"]) (auto dest: define_derived(7) intro: decode_named_entities(7))
next
  case (DefineClockDomain v)
  with assms have "forget (on_clocks define_domain v e) = (ok_status, e1)" and "command_ok (DefineClockDomain v)" by simp_all
  then show ?thesis unfolding DefineClockDomain command_record.simps fst_conv snd_conv restore_document.simps
    by (intro restore_clocks [where v = v and w = "v\<lparr>dom_id := derive_from (dom_name v)\<rparr>"]) (auto dest: define_derived(8) intro: decode_named_entities(8))
next
  case (RecordClockSync v)
  with assms have "forget (on_clocks record_sync v e) = (ok_status, e1)" and "command_ok (RecordClockSync v)" by simp_all
  then show ?thesis unfolding RecordClockSync command_record.simps fst_conv snd_conv restore_document.simps
    by (intro restore_clocks [where v = v and w = v]) (auto simp: sync_storable_def decode_sync)
qed

lemma command_document_ok:
  assumes "command_ok c" and "2 \<le> d"
  shows "json_ok d (snd (command_record c))"
  using assms by (cases c) (auto simp: json_ok_entities sync_storable_def)

lemma load_command:
  assumes "command_ok c" and "command_change c e = (ok_status, e1)" and "2 \<le> max_json_depth (pol_limits (en_policy e))"
  shows "load_records [(fst (command_record c), encode_with (write_value (snd (command_record c))))] e = (ok_status, e1)"
  using load_record_value [OF command_document_ok [OF assms(1,3)], of "fst (command_record c)"] restore_command [OF assms(1,2)]
  by (simp add: then_do_def)

section \<open>The manifest stays\<close>

definition apart :: "writer_state \<Rightarrow> bool" where
  "apart st \<longleftrightarrow> om_inv (dk_files (snd st)) \<and> wr_file (fst st) \<noteq> Some manifest_name"

definition spares :: "writer_state \<Rightarrow> writer_state \<Rightarrow> bool" where
  "spares st st' \<longleftrightarrow> apart st' \<and> om_find (dk_files (snd st')) manifest_name = om_find (dk_files (snd st)) manifest_name"

lemma spares_refl: "apart st \<Longrightarrow> spares st st"
  by (simp add: spares_def)

lemma spares_trans: "spares a b \<Longrightarrow> spares b c \<Longrightarrow> spares a c"
  by (simp add: spares_def)

lemma spares_then:
  assumes "spares st (snd r)" and "\<And>s. fst r = ok_status \<Longrightarrow> snd r = s \<Longrightarrow> spares s (snd (f s))"
  shows "spares st (snd (then_do r f))"
  using assms(1) spares_trans [OF assms(1) assms(2)] by (cases r) (auto simp: then_do_def split: sum.splits)

lemma segment_not_manifest [simp]: "segment_file_name i \<noteq> manifest_name"
  by (metis is_segment_name_segment manifest_not_segment segment.select_convs(1) segment_name_def)

lemma disk_calls:
  "dk_files (snd (io_call d)) = dk_files d" "dk_files (snd (next_outcome d)) = dk_files d" "dk_files (snd (durable_flush f d)) = dk_files d"
  by (simp_all add: io_call_def next_outcome_def durable_flush_def case_prod_unfold split: list.splits)

lemma write_calls:
  assumes "om_inv (dk_files d)" and "n \<noteq> manifest_name"
  shows "om_inv (dk_files (snd (fopen_wb n d)))" "om_find (dk_files (snd (fopen_wb n d))) manifest_name = om_find (dk_files d) manifest_name"
    "om_inv (dk_files (snd (fwrite n data d)))" "om_find (dk_files (snd (fwrite n data d))) manifest_name = om_find (dk_files d) manifest_name"
  using assms disk_calls(1,2) [of d] by (simp_all add: fopen_wb_def fwrite_def case_prod_unfold Let_def om_inv_set om_find_set)

lemma open_segment_spares: "apart st \<Longrightarrow> spares st (snd (open_segment now st))"
  by (simp add: open_segment_def case_prod_unfold Let_def spares_def apart_def write_calls)

lemma close_segment_spares: "apart st \<Longrightarrow> spares st (snd (close_segment st))"
  by (auto simp: close_segment_def case_prod_unfold Let_def spares_def apart_def write_calls disk_calls split: option.splits)

lemma rotate_spares:
  assumes "apart st"
  shows "spares st (snd (rotate_segment now st))"
  unfolding rotate_segment_def
proof (rule spares_then [OF close_segment_spares [OF assms]])
  fix s
  assume "fst (close_segment st) = ok_status" and "snd (close_segment st) = s"
  then have "apart s" using close_segment_spares [OF assms] by (simp add: spares_def)
  then show "spares s (snd ((\<lambda>(w, d). case io_call d of (file_closed, d) \<Rightarrow>
         let w = w\<lparr>wr_file := None\<rparr>
         in if \<not> file_closed then (fail IoError ''cannot close a rotated segment'' [], w, d)
            else open_segment now (w\<lparr>wr_segment_id := wr_segment_id w + 1\<rparr>, d)) s))"
    using open_segment_spares [of "((fst s)\<lparr>wr_file := None, wr_segment_id := wr_segment_id (fst s) + 1\<rparr>, snd (io_call (snd s)))" now]
    by (simp add: case_prod_unfold Let_def spares_def apart_def disk_calls)
qed

lemma write_record_spares: "apart st \<Longrightarrow> wr_file (fst st) \<noteq> None \<Longrightarrow> spares st (snd (write_record t p st))"
  by (auto simp: write_record_def case_prod_unfold Let_def spares_def apart_def write_calls)

lemma opened_file: "fst (open_segment now st) = ok_status \<Longrightarrow> wr_file (fst (snd (open_segment now st))) \<noteq> None"
  by (auto simp: open_segment_def case_prod_unfold Let_def split: if_splits)

lemma rotated_file: "fst (rotate_segment now st) = ok_status \<Longrightarrow> wr_file (fst (snd (rotate_segment now st))) \<noteq> None"
  using opened_file by (fastforce simp: rotate_segment_def then_do_def case_prod_unfold Let_def split: if_splits sum.splits)

lemma append_last_spares: "apart st \<Longrightarrow> wr_file (fst st) \<noteq> None \<Longrightarrow> spares st (snd (append_last t p st))"
  using write_record_spares spares_refl by (auto simp: append_last_def split: option.splits)

lemma append_rest_spares:
  assumes "apart st" and "wr_file (fst st) \<noteq> None"
  shows "spares st (snd (append_rest now t p st))"
proof -
  have "spares st (snd (then_do (if must_rotate (fst st) (record_bytes_of p) then rotate_segment now st else (ok_status, st)) (append_last t p)))"
  proof (rule spares_then)
    show a: "spares st (snd (if must_rotate (fst st) (record_bytes_of p) then rotate_segment now st else (ok_status, st)))"
      using rotate_spares spares_refl assms(1) by simp
    fix s
    assume "fst (if must_rotate (fst st) (record_bytes_of p) then rotate_segment now st else (ok_status, st)) = ok_status"
      and "snd (if must_rotate (fst st) (record_bytes_of p) then rotate_segment now st else (ok_status, st)) = s"
    then show "spares s (snd (append_last t p s))"
      using a assms rotated_file [of now st] by (intro append_last_spares) (auto simp: spares_def split: if_splits)
  qed
  then show ?thesis using spares_refl [OF assms(1)] by (auto simp: append_rest_def Let_def)
qed

lemma append_spares:
  assumes "apart st"
  shows "spares st (snd (append_record now t p st))"
proof -
  have "spares st (snd (then_do (if wr_file (fst st) = None then open_segment now st else (ok_status, st)) (append_rest now t p)))"
  proof (rule spares_then)
    show a: "spares st (snd (if wr_file (fst st) = None then open_segment now st else (ok_status, st)))"
      using open_segment_spares spares_refl assms by simp
    fix s
    assume "fst (if wr_file (fst st) = None then open_segment now st else (ok_status, st)) = ok_status"
      and "snd (if wr_file (fst st) = None then open_segment now st else (ok_status, st)) = s"
    then show "spares s (snd (append_rest now t p s))"
      using a assms opened_file [of now st] by (intro append_rest_spares) (auto simp: spares_def split: if_splits)
  qed
  then show ?thesis using spares_refl [OF assms] by (auto simp: append_record_def)
qed

lemma close_writer_spares:
  assumes "apart st"
  shows "spares st (snd (close_writer st))"
  using close_segment_spares [OF assms] spares_refl [OF assms]
  by (auto simp: close_writer_def then_do_def case_prod_unfold Let_def spares_def apart_def disk_calls split: sum.splits)

section \<open>What the store holds\<close>

definition persists_to :: "runtime_config \<Rightarrow> string \<Rightarrow> nat \<Rightarrow> world \<Rightarrow> (record_type \<times> string) list \<Rightarrow> bool" where
  "persists_to config manifest base s hist \<longleftrightarrow> (\<exists>w segs. en_writer (fst s) = Some w \<and> en_config (fst s) = config \<and> writes (w, snd s) segs \<and>
     \<not> wr_closed w \<and> sc_limits (wr_config w) = pol_limits (rc_policy config) \<and> unat (wr_segment_id w) \<le> base + length hist \<and>
     history segs = hist \<and> om_find (dk_files (snd s)) manifest_name = Some manifest)"

lemma writes_apart: "writes st segs \<Longrightarrow> apart st"
  by (auto simp: writes_def holds_def apart_def tracks_def segment_name_def split: if_splits)

definition storable_config :: "runtime_config \<Rightarrow> bool" where
  "storable_config config \<longleftrightarrow> \<not> rc_readonly config \<and> max_segment_records (pol_limits (rc_policy config)) < 2 ^ 32 \<and>
     7 \<le> max_json_depth (pol_limits (rc_policy config))"

lemma sync_run: "writes (w, d) segs \<Longrightarrow> sync_writer (w, d) = (ok_status, w, d)"
  by (cases "wr_file w") (auto simp: sync_writer_def writes_def flush_succeeds)

lemma persist_run:
  assumes "persists_to config manifest base (e, d) hist" and "storable_config config" and "base + length hist + 1 < 2 ^ 32"
    and "persist now t p sync (e, d) = (ok_status, s)"
  shows "\<exists>w. fst s = e\<lparr>en_writer := Some w\<rparr> \<and> persists_to config manifest base s (hist @ [(t, p)])"
proof -
  obtain w segs where o: "en_writer e = Some w" "en_config e = config" "writes (w, d) segs" "\<not> wr_closed w"
    "sc_limits (wr_config w) = pol_limits (rc_policy config)" "unat (wr_segment_id w) \<le> base + length hist" "history segs = hist"
    "om_find (dk_files d) manifest_name = Some manifest"
    using assms(1) by (auto simp: persists_to_def)
  have "max_segment_records (sc_limits (wr_config w)) < 2 ^ 32" "unat (wr_segment_id w) + 1 < 2 ^ 32"
    using assms(2,3) o(5,6) by (simp_all add: storable_config_def)
  from append_run [OF o(3,4) this, of now t p] obtain w1 d1 r segs1 where a: "append_record now t p (w, d) = (r, w1, d1)"
    "writes (w1, d1) segs1" "history segs1 = history segs @ (if has_value r then [(t, p)] else [])" "wr_config w1 = wr_config w"
    "wr_closed w1 = wr_closed w" "unat (wr_segment_id w1) \<le> unat (wr_segment_id w) + 1"
    by (auto simp: appended_def)
  have "has_value r \<and> s = (e\<lparr>en_writer := Some w1\<rparr>, d1)"
    using assms(2,4) o(1,2) a(1) sync_run [OF a(2)]
    by (auto simp: persist_def storable_config_def then_do_def split: sum.splits if_splits)
  moreover have "om_find (dk_files d1) manifest_name = Some manifest"
    using append_spares [OF writes_apart [OF o(3)], of now t p] a(1) o(8) by (simp add: spares_def)
  ultimately show ?thesis using a o by (auto simp: persists_to_def)
qed

definition measurement_entry :: "record_type \<Rightarrow> measurement_record \<Rightarrow> record_type \<times> string" where
  "measurement_entry t r = (t, encode_with (write_measurement r))"

definition fence_entry :: "source_id \<times> source_fence_state \<Rightarrow> record_type \<times> string" where
  "fence_entry x = (FenceStateRecord, encode_with (write_fence (fst x) (snd x)))"

definition same_but_counters :: "engine \<Rightarrow> engine \<Rightarrow> bool" where
  "same_but_counters e f \<longleftrightarrow> f\<lparr>en_writer := None, en_stats := empty_stats\<rparr> = e\<lparr>en_writer := None, en_stats := empty_stats\<rparr>"

lemma same_but_counters_simps [simp]:
  "same_but_counters e (bump_persisted f) \<longleftrightarrow> same_but_counters e f" "same_but_counters e (f\<lparr>en_writer := w\<rparr>) \<longleftrightarrow> same_but_counters e f"
  "same_but_counters (bump_persisted e) f \<longleftrightarrow> same_but_counters e f" "same_but_counters e (tally_batch rep f) \<longleftrightarrow> same_but_counters e f"
  "same_but_counters (e\<lparr>en_writer := w\<rparr>) f \<longleftrightarrow> same_but_counters e f" "same_but_counters (e\<lparr>en_stats := st\<rparr>) f \<longleftrightarrow> same_but_counters e f"
  "same_but_counters e e"
  by (simp_all add: same_but_counters_def bump_persisted_def tally_batch_def Let_def)

lemma same_but_counters_trans: "same_but_counters e f \<Longrightarrow> same_but_counters f g \<Longrightarrow> same_but_counters e g"
  by (simp add: same_but_counters_def)

lemma same_but_counters_durable: "same_but_counters e f \<Longrightarrow> durable_state f = durable_state e"
  unfolding same_but_counters_def durable_state_def by (cases e; cases f) simp

lemma persists_to_counters [simp]:
  "persists_to config manifest base (bump_persisted e, d) hist = persists_to config manifest base (e, d) hist"
  "persists_to config manifest base (e\<lparr>en_records := rs\<rparr>, d) hist = persists_to config manifest base (e, d) hist"
  "persists_to config manifest base (tally_batch rep e, d) hist = persists_to config manifest base (e, d) hist"
  "persists_to config manifest base (e\<lparr>en_stats := st\<rparr>, d) hist = persists_to config manifest base (e, d) hist"
  "persists_to config manifest base (e\<lparr>en_gate := g\<rparr>, d) hist = persists_to config manifest base (e, d) hist"
  by (simp_all add: persists_to_def bump_persisted_def tally_batch_def Let_def)

lemma then_do_ok: "then_do r f = (ok_status, s) \<longleftrightarrow> (\<exists>s1. r = (ok_status, s1) \<and> f s1 = (ok_status, s))"
  by (cases r) (auto simp: then_do_def split: sum.splits)

lemma persist_records_run:
  assumes "persists_to config manifest base (e, d) hist" and "storable_config config" and "base + length hist + length rs < 2 ^ 32"
    and "persist_records clock n t rs (e, d) = (ok_status, s)"
  shows "same_but_counters (e\<lparr>en_records := en_records e @ rs\<rparr>) (fst s) \<and> persists_to config manifest base s (hist @ map (measurement_entry t) rs)"
  using assms
proof (induction rs arbitrary: n e d hist)
  case (Cons r rs)
  from Cons.prems(4) obtain e1 d1 where p: "persist (clock n) t (encode_with (write_measurement r)) False (e, d) = (ok_status, e1, d1)"
    and q: "persist_records clock (Suc n) t rs ((bump_persisted e1)\<lparr>en_records := en_records (bump_persisted e1) @ [r]\<rparr>, d1) = (ok_status, s)"
    by (auto simp: then_do_ok Let_def)
  from persist_run [OF Cons.prems(1,2) _ p] Cons.prems(3) obtain w where w: "e1 = e\<lparr>en_writer := Some w\<rparr>"
    "persists_to config manifest base (e1, d1) (hist @ [measurement_entry t r])" by (auto simp: measurement_entry_def)
  have l: "base + length (hist @ [measurement_entry t r]) + length rs < 2 ^ 32" using Cons.prems(3) by simp
  have "persists_to config manifest base ((bump_persisted e1)\<lparr>en_records := en_records (bump_persisted e1) @ [r]\<rparr>, d1) (hist @ [measurement_entry t r])"
    using w(2) by simp
  from Cons.IH [OF this Cons.prems(2) l q] show ?case by (simp add: w(1) bump_persisted_def same_but_counters_def)
qed auto

lemma persist_fences_run:
  assumes "persists_to config manifest base (e, d) hist" and "storable_config config" and "base + length hist + length m < 2 ^ 32"
    and "persist_fences clock n m (e, d) = (ok_status, s)"
  shows "same_but_counters e (fst s) \<and> persists_to config manifest base s (hist @ map fence_entry m)"
  using assms
proof (induction m arbitrary: n e d hist)
  case (Cons x m)
  from Cons.prems(4) obtain e1 d1 where p: "persist (clock n) FenceStateRecord (encode_with (write_fence (fst x) (snd x))) False (e, d) = (ok_status, e1, d1)"
    and q: "persist_fences clock (Suc n) m (bump_persisted e1, d1) = (ok_status, s)"
    by (auto simp: then_do_ok)
  from persist_run [OF Cons.prems(1,2) _ p] Cons.prems(3) obtain w where w: "e1 = e\<lparr>en_writer := Some w\<rparr>"
    "persists_to config manifest base (e1, d1) (hist @ [fence_entry x])" by (auto simp: fence_entry_def)
  have l: "base + length (hist @ [fence_entry x]) + length m < 2 ^ 32" using Cons.prems(3) by simp
  have "persists_to config manifest base (bump_persisted e1, d1) (hist @ [fence_entry x])" using w(2) by simp
  from Cons.IH [OF this Cons.prems(2) l q] show ?case by (simp add: w(1))
qed auto

lemma sync_store_run:
  assumes "persists_to config manifest base s hist" and "sync_store s = (r, s')"
  shows "r = ok_status \<and> s' = s"
  using assms sync_run by (cases s) (auto simp: persists_to_def sync_store_def Let_def)

definition batch_entries :: "admission \<Rightarrow> (record_type \<times> string) list" where
  "batch_entries a = map (measurement_entry MeasurementCurrent) (adm_current a) @
     map (measurement_entry MeasurementHistorical) (adm_history a) @ map fence_entry (gate_fences (adm_gate a))"

lemma persist_batch_run:
  assumes "persists_to config manifest base (e, d) hist" and "storable_config config" and "base + length hist + length (batch_entries a) < 2 ^ 32"
    and "persist_batch clock a (e, d) = (ok_status, s)"
  shows "same_but_counters (e\<lparr>en_records := en_records e @ adm_current a @ adm_history a\<rparr>) (fst s) \<and>
    persists_to config manifest base s (hist @ batch_entries a)"
proof -
  from assms(4) obtain e1 d1 e2 d2 e3 d3 where p: "persist_records clock 0 MeasurementCurrent (adm_current a) (e, d) = (ok_status, e1, d1)"
    "persist_records clock (length (adm_current a)) MeasurementHistorical (adm_history a) (e1, d1) = (ok_status, e2, d2)"
    "persist_fences clock (length (adm_current a) + length (adm_history a)) (gate_fences (adm_gate a)) (e2, d2) = (ok_status, e3, d3)"
    "(if rc_durable_writes (en_config e3) then sync_store (e3, d3) else (ok_status, e3, d3)) = (ok_status, s)"
    by (auto simp: persist_batch_def then_do_ok)
  have "base + length hist + length (adm_current a) < 2 ^ 32" using assms(3) by (simp add: batch_entries_def)
  from persist_records_run [OF assms(1,2) this p(1)]
  have a: "same_but_counters (e\<lparr>en_records := en_records e @ adm_current a\<rparr>) e1"
    "persists_to config manifest base (e1, d1) (hist @ map (measurement_entry MeasurementCurrent) (adm_current a))" by simp_all
  have "base + length (hist @ map (measurement_entry MeasurementCurrent) (adm_current a)) + length (adm_history a) < 2 ^ 32"
    using assms(3) by (simp add: batch_entries_def)
  from persist_records_run [OF a(2) assms(2) this p(2)]
  have b: "same_but_counters (e1\<lparr>en_records := en_records e1 @ adm_history a\<rparr>) e2"
    "persists_to config manifest base (e2, d2) ((hist @ map (measurement_entry MeasurementCurrent) (adm_current a)) @
       map (measurement_entry MeasurementHistorical) (adm_history a))" by simp_all
  have "base + length ((hist @ map (measurement_entry MeasurementCurrent) (adm_current a)) @
       map (measurement_entry MeasurementHistorical) (adm_history a)) + length (gate_fences (adm_gate a)) < 2 ^ 32"
    using assms(3) by (simp add: batch_entries_def)
  from persist_fences_run [OF b(2) assms(2) this p(3)]
  have c: "same_but_counters e2 e3" "persists_to config manifest base (e3, d3) (hist @ batch_entries a)" by (simp_all add: batch_entries_def)
  have s: "s = (e3, d3)" using p(4) sync_store_run [OF c(2)] by (cases "sync_store (e3, d3)") (auto split: if_splits)
  have "same_but_counters (e\<lparr>en_records := en_records e @ adm_current a @ adm_history a\<rparr>) (e1\<lparr>en_records := en_records e1 @ adm_history a\<rparr>)"
    using a(1) by (cases e; cases e1) (simp add: same_but_counters_def)
  from same_but_counters_trans [OF same_but_counters_trans [OF this b(1)] c(1)] show ?thesis using c(2) s by simp
qed

section \<open>Loading what an ingest has written\<close>

lemma om_eqI:
  assumes "om_inv a" and "om_inv b" and "\<And>k. om_find a k = om_find b k"
  shows "a = b"
proof -
  have m: "map_of a = map_of b" using assms(3) by (simp add: fun_eq_iff)
  have "set (map fst a) = set (map fst b)" using m by (metis dom_map_of_conv_image_fst list.set_map)
  then have k: "map fst a = map fst b" using assms(1,2) by (intro strict_sorted_equal) (simp_all add: om_inv_def)
  have "map (\<lambda>k. (k, the (map_of c k))) (map fst c) = c" if "om_inv c" for c :: "('a, 'b) omap"
    using om_inv_distinct [OF that] by (auto simp: comp_def intro!: map_idI)
  then show ?thesis using assms(1,2) k m by metis
qed

lemma load_measurement:
  assumes "record_storable r" and "6 \<le> max_json_depth (pol_limits (en_policy e))" and "t = MeasurementCurrent \<or> t = MeasurementHistorical"
  shows "load_record (measurement_entry t r) e = (ok_status, e\<lparr>en_records := en_records e @ [reclassify_loaded e (persisted_record r)]\<rparr>)"
proof -
  have "json_ok (max_json_depth (pol_limits (en_policy e))) (json_of_measurement r)" by (rule json_ok_measurement [OF assms(1,2)])
  from load_record_value [OF this, of t] show ?thesis using assms(3)
    by (auto simp: measurement_entry_def write_measurement_document restore_with_def add_record_def decode_measurement_document [OF assms(1)])
qed

lemma load_measurements:
  assumes "list_all record_storable rs" and "6 \<le> max_json_depth (pol_limits (en_policy e))" and "t = MeasurementCurrent \<or> t = MeasurementHistorical"
  shows "\<exists>f. load_records (map (measurement_entry t) rs) e = (ok_status, f) \<and> durable_state f = durable_state (e\<lparr>en_records := en_records e @ rs\<rparr>)"
  using assms
proof (induction rs arbitrary: e)
  case (Cons r rs)
  define e1 where "e1 = e\<lparr>en_records := en_records e @ [reclassify_loaded e (persisted_record r)]\<rparr>"
  have l: "load_record (measurement_entry t r) e = (ok_status, e1)"
    unfolding e1_def by (rule load_measurement) (use Cons.prems in simp_all)
  from Cons.IH [of e1] Cons.prems obtain f where f: "load_records (map (measurement_entry t) rs) e1 = (ok_status, f)"
    "durable_state f = durable_state (e1\<lparr>en_records := en_records e1 @ rs\<rparr>)" by (auto simp: e1_def)
  have "durable_state (e1\<lparr>en_records := en_records e1 @ rs\<rparr>) = durable_state (e\<lparr>en_records := en_records e @ r # rs\<rparr>)"
    by (simp add: e1_def durable_state_def reclassify_core record_core_persisted)
  then show ?case using l f by (simp add: then_do_def)
qed simp

lemma load_fence:
  assumes "fence_storable (snd x)" and "4 \<le> max_json_depth (pol_limits (en_policy e))"
  shows "load_record (fence_entry x) e = (ok_status, e\<lparr>en_gate := restore_fence (fst x) (snd x) (en_gate e)\<rparr>)"
proof -
  have "json_ok (max_json_depth (pol_limits (en_policy e))) (json_of_fence (fst x) (snd x))" by (rule json_ok_fence [OF assms])
  from load_record_value [OF this, of FenceStateRecord] show ?thesis
    by (simp add: fence_entry_def write_fence_document restore_with_def add_fence_def decode_fence_document [OF assms(1)])
qed

lemma load_fences:
  assumes "\<forall>x \<in> set m. fence_storable (snd x)" and "4 \<le> max_json_depth (pol_limits (en_policy e))"
  shows "load_records (map fence_entry m) e = (ok_status, e\<lparr>en_gate := foldl (\<lambda>h (s, f). restore_fence s f h) (en_gate e) m\<rparr>)"
  using assms
proof (induction m arbitrary: e)
  case (Cons x m)
  then show ?case by (simp add: load_fence then_do_def case_prod_unfold)
qed simp

text \<open>The fences written after a batch are all of them, so they replace the earlier ones.\<close>

lemma restore_all_fences:
  assumes "om_inv (gate_fences g)" and "om_inv (gate_fences g')" and "gate_policy g' = gate_policy g"
    and "\<And>s. om_find (gate_fences g) s \<noteq> None \<Longrightarrow> om_find (gate_fences g') s \<noteq> None"
  shows "foldl (\<lambda>h (s, f). restore_fence s f h) g (gate_fences g') = g'"
proof -
  define h where "h = foldl (\<lambda>h (s, f). restore_fence s f h) g (gate_fences g')"
  have k: "om_inv (gate_fences h)" "gate_policy h = gate_policy g"
    "om_find (gate_fences h) s = (case om_find (gate_fences g') s of Some f \<Rightarrow> Some f | None \<Rightarrow> om_find (gate_fences g) s)" for s
    using foldl_restore [OF assms(1,2), of s] by (simp_all add: h_def)
  have "om_find (gate_fences h) s = om_find (gate_fences g') s" for s
    using k(3) [of s] assms(4) [of s] by (cases "om_find (gate_fences g) s") (auto split: option.splits)
  then have "gate_fences h = gate_fences g'" by (rule om_eqI [OF k(1) assms(2)])
  then show ?thesis using k(2) assms(3) unfolding h_def [symmetric] by simp
qed

lemma classify_keeps_fences:
  assumes "classify cat clocks now r AcceptedCurrent rep g = (r', v, ev, rep', g')" and "om_inv (gate_fences g)"
    and "om_find (gate_fences g) s \<noteq> None"
  shows "om_find (gate_fences g') s \<noteq> None"
  using assms(1)
proof (cases rule: classify_fence)
  case 1
  then show ?thesis using assms(3) by simp
next
  case (2 v1 ev1 rep1 v2 ev2 rep2)
  then show ?thesis using assms(2,3)
    by (auto simp: apply_session_fence_def store_session_def Let_def om_find_set split: prod.splits if_splits)
qed

end
