(* ===== verification/Engine_Restart.thy ===== *)
theory Engine_Restart
  imports Engine_Log
begin

text \<open>
  Restarts of the runtime: batches and baselines are restored by what they append, a closed store is
  opened again, every run of sessions on one store keeps engine and store consistent, and what a
  restart does to the freshness of a record.
\<close>

lemma load_batch:
  assumes "list_all record_storable (adm_current a @ adm_history a)" and "\<forall>x \<in> set (gate_fences (adm_gate a)). fence_storable (snd x)"
    and "om_inv (gate_fences (en_gate e))" and "om_inv (gate_fences (adm_gate a))" and "gate_policy (adm_gate a) = gate_policy (en_gate e)"
    and "\<And>s. om_find (gate_fences (en_gate e)) s \<noteq> None \<Longrightarrow> om_find (gate_fences (adm_gate a)) s \<noteq> None"
    and "6 \<le> max_json_depth (pol_limits (en_policy e))"
  shows "\<exists>f. load_records (batch_entries a) e = (ok_status, f) \<and>
    durable_state f = durable_state (e\<lparr>en_gate := adm_gate a, en_records := en_records e @ adm_current a @ adm_history a\<rparr>)"
proof -
  let ?c = "map (measurement_entry MeasurementCurrent) (adm_current a)" and ?h = "map (measurement_entry MeasurementHistorical) (adm_history a)"
  define e1 where "e1 = e\<lparr>en_records := en_records e @ adm_current a\<rparr>"
  define e2 where "e2 = e1\<lparr>en_records := en_records e1 @ adm_history a\<rparr>"
  have d: "6 \<le> max_json_depth (pol_limits (en_policy e1))" "4 \<le> max_json_depth (pol_limits (en_policy e2))" using assms(7) by (simp_all add: e1_def e2_def)
  obtain f1 where f1: "load_records ?c e = (ok_status, f1)" "durable_state f1 = durable_state e1"
    using load_measurements [of "adm_current a" e MeasurementCurrent] assms(1,7) by (auto simp: e1_def)
  obtain f2 where f2: "load_records ?h e1 = (ok_status, f2)" "durable_state f2 = durable_state e2"
    using load_measurements [OF _ d(1), of "adm_history a" MeasurementHistorical] assms(1) by (auto simp: e2_def)
  obtain f3 where f3: "load_records (?c @ ?h) e = (ok_status, f3)" "durable_state f3 = durable_state e2"
    using store_log.replay_extend [OF f1 f2(1)] f2(2) by auto
  have "foldl (\<lambda>h (s, f). restore_fence s f h) (en_gate e2) (gate_fences (adm_gate a)) = adm_gate a"
    using restore_all_fences [OF assms(3-6)] by (simp add: e1_def e2_def)
  from load_fences [OF assms(2) d(2), unfolded this] store_log.replay_extend [OF f3, of "map fence_entry (gate_fences (adm_gate a))"]
  obtain f where "load_records (batch_entries a) e = (ok_status, f)" "durable_state f = durable_state (e2\<lparr>en_gate := adm_gate a\<rparr>)"
    by (auto simp: batch_entries_def)
  then show ?thesis by (auto simp: e1_def e2_def durable_state_def)
qed

text \<open>A batch moves the gate along a run and takes no fence away.\<close>

definition moves_gate :: "measurement_record list \<Rightarrow> ingest_gate \<Rightarrow> ingest_gate \<Rightarrow> bool" where
  "moves_gate rs g g' \<longleftrightarrow> (\<forall>pol tr. gate_run pol tr g \<longrightarrow> length tr + length rs < 2 ^ 64 - 2 \<longrightarrow>
     (\<forall>s. om_find (gate_fences g) s \<noteq> None \<longrightarrow> om_find (gate_fences g') s \<noteq> None) \<and>
     (\<exists>tr'. gate_run pol (tr' @ tr) g' \<and> length tr' = length rs \<and> (\<forall>(r, _) \<in> set tr'. rec_sequence r \<in> rec_sequence ` set rs)))"

lemma moves_gateD:
  assumes "moves_gate rs g g'" and "gate_run pol tr g" and "length tr + length rs < 2 ^ 64 - 2"
  shows "\<forall>s. om_find (gate_fences g) s \<noteq> None \<longrightarrow> om_find (gate_fences g') s \<noteq> None"
    and "\<exists>tr'. gate_run pol (tr' @ tr) g' \<and> length tr' = length rs \<and> (\<forall>(r, _) \<in> set tr'. rec_sequence r \<in> rec_sequence ` set rs)"
  using assms unfolding moves_gate_def by blast+

lemma moves_gate_refl: "moves_gate [] g g"
  by (simp add: moves_gate_def)

lemma moves_gate_trans:
  assumes "moves_gate rs g h" and "moves_gate qs h k"
  shows "moves_gate (rs @ qs) g k"
  unfolding moves_gate_def
proof (intro allI impI)
  fix pol tr
  assume g: "gate_run pol tr g" and l: "length tr + length (rs @ qs) < 2 ^ 64 - 2"
  have l1: "length tr + length rs < 2 ^ 64 - 2" using l by simp
  from moves_gateD(2) [OF assms(1) g l1] obtain t1 where t1: "gate_run pol (t1 @ tr) h" "length t1 = length rs"
    "\<forall>(r, _) \<in> set t1. rec_sequence r \<in> rec_sequence ` set rs" by blast
  have l2: "length (t1 @ tr) + length qs < 2 ^ 64 - 2" using l t1(2) by simp
  from moves_gateD(2) [OF assms(2) t1(1) l2] obtain t2 where t2: "gate_run pol (t2 @ t1 @ tr) k" "length t2 = length qs"
    "\<forall>(r, _) \<in> set t2. rec_sequence r \<in> rec_sequence ` set qs" by blast
  note k = moves_gateD(1) [OF assms(1) g l1] moves_gateD(1) [OF assms(2) t1(1) l2]
  have "\<exists>tr'. gate_run pol (tr' @ tr) k \<and> length tr' = length (rs @ qs) \<and> (\<forall>(r, _) \<in> set tr'. rec_sequence r \<in> rec_sequence ` set (rs @ qs))"
    using t1 t2 by (intro exI [of _ "t2 @ t1"]) auto
  then show "(\<forall>s. om_find (gate_fences g) s \<noteq> None \<longrightarrow> om_find (gate_fences k) s \<noteq> None) \<and>
     (\<exists>tr'. gate_run pol (tr' @ tr) k \<and> length tr' = length (rs @ qs) \<and> (\<forall>(r, _) \<in> set tr'. rec_sequence r \<in> rec_sequence ` set (rs @ qs)))"
    using k by blast
qed

lemma settle_gate [simp]: "adm_gate (Ingest_Gate.settle r v a) = adm_gate a"
  by (simp add: Ingest_Gate.settle_def Let_def split: admit_verdict.split)

lemma admit_record_moves: "moves_gate [r] (adm_gate a) (adm_gate (admit_record cat clocks req r a))"
  unfolding moves_gate_def
proof (intro allI impI)
  fix pol tr
  assume g: "gate_run pol tr (adm_gate a)" and l: "length tr + length [r] < 2 ^ 64 - 2"
  obtain r1 v ev rep1 g1 where c: "classify cat clocks (req_received_at req) (stamp_record req r) AcceptedCurrent
      (adm_report a) (adm_gate a) = (r1, v, ev, rep1, g1)" by (metis prod_cases5)
  have i: "om_inv (gate_fences (adm_gate a))" using gate_run_inv [OF g] l by (simp add: gate_inv_def)
  have "rec_sequence r1 = rec_sequence r" using same_exchange_fields [OF classify_same [OF c]] by (simp add: stamp_record_def)
  then have "\<exists>tr'. gate_run pol (tr' @ tr) g1 \<and> length tr' = length [r] \<and> (\<forall>(r', _) \<in> set tr'. rec_sequence r' \<in> rec_sequence ` set [r])"
    using run_record [OF g c] by (intro exI [of _ "[(r1, v)]"]) auto
  moreover have "adm_gate (admit_record cat clocks req r a) = g1" by (simp add: admit_record_def c Let_def)
  ultimately show "(\<forall>s. om_find (gate_fences (adm_gate a)) s \<noteq> None \<longrightarrow>
        om_find (gate_fences (adm_gate (admit_record cat clocks req r a))) s \<noteq> None) \<and>
      (\<exists>tr'. gate_run pol (tr' @ tr) (adm_gate (admit_record cat clocks req r a)) \<and> length tr' = length [r] \<and>
        (\<forall>(r', _) \<in> set tr'. rec_sequence r' \<in> rec_sequence ` set [r]))"
    using classify_keeps_fences [OF c i] by simp
qed

lemma admit_moves:
  assumes "admit cat clocks req a = (ok_status, a')"
  shows "moves_gate (req_records req) (adm_gate a) (adm_gate a')"
proof -
  have "moves_gate rs (adm_gate b) (adm_gate (foldl (\<lambda>a r. admit_record cat clocks req r a) b rs))" for rs b
  proof (induction rs arbitrary: b)
    case (Cons r rs)
    then show ?case using moves_gate_trans [OF admit_record_moves [of r b cat clocks req]] by fastforce
  qed (simp add: moves_gate_refl)
  note this [of "req_records req" "a\<lparr>adm_report := empty_report\<lparr>rep_received := word_of_nat (length (req_records req))\<rparr>\<rparr>"]
  then show ?thesis using assms by (auto simp: admit_def Let_def fail_def split: if_splits)
qed

section \<open>Entry points\<close>

lemma om_find_set_same [simp]: "om_find (om_set k v m) k = Some v"
  by (induction k v m rule: om_set.induct) auto

lemma store_add_Inr:
  assumes "store_add v s = (Inr i, b)"
  shows "\<exists>kept. om_find (bs_baselines b) i = Some kept \<and> bl_id kept = i \<and> valid_id i \<and>
    (\<exists>b'. store_add (persisted_baseline kept) s = (Inr i, b') \<and> kept_baselines b' = kept_baselines b)"
proof -
  define kept where "kept = (identified v)\<lparr>bl_evidence := add_reason AggregateDeterministic [] (bl_evidence (identified v))\<rparr>"
  have v: "valid_id (bl_id (identified v))" by (simp add: identified_def Let_def)
  have f: "bl_path kept = bl_path v" "bl_generation kept = bl_generation v" "bl_domain kept = bl_domain v" "bl_revision kept = bl_revision v"
    "bl_name kept = bl_name v" "bl_id kept = bl_id (identified v)" "bl_path (identified v) = bl_path v"
    by (simp_all add: kept_def identified_def Let_def)
  define again where "again = (persisted_baseline kept)\<lparr>bl_evidence := add_reason AggregateDeterministic [] (bl_evidence (persisted_baseline kept))\<rparr>"
  have p: "identified (persisted_baseline kept) = persisted_baseline kept"
    using v f(6) by (simp add: identified_def persisted_baseline_def)
  have "persisted_hop_summary (persisted_hop_summary h) = persisted_hop_summary h" for h by (simp add: persisted_hop_summary_def persisted_evidence_def)
  then have a: "persisted_baseline again = persisted_baseline kept" "bl_id again = bl_id kept"
    by (simp_all add: again_def persisted_baseline_def)
  define known where "known = (case om_find (bs_by_path s) (bl_path v) of None \<Rightarrow> [] | Some ids \<Rightarrow> ids)"
  have i: "i = bl_id kept" and b: "b = s\<lparr>bs_by_path := om_set (bl_path v) (known @ [i]) (bs_by_path s), bs_baselines := om_set i kept (bs_baselines s)\<rparr>"
    using assms f unfolding store_add_def by (auto simp: Let_def kept_def known_def fail_def split: if_splits)
  have g: "bl_path (persisted_baseline kept) = bl_path v" "bl_generation (persisted_baseline kept) = bl_generation v"
    "bl_domain (persisted_baseline kept) = bl_domain v" "bl_revision (persisted_baseline kept) = bl_revision v"
    "bl_name (persisted_baseline kept) = bl_name v" "bl_id (persisted_baseline kept) = i"
    using f i by (simp_all add: persisted_baseline_def)
  have "store_add (persisted_baseline kept) s =
      (Inr i, s\<lparr>bs_by_path := om_set (bl_path v) (known @ [i]) (bs_by_path s), bs_baselines := om_set i again (bs_baselines s)\<rparr>)"
    using assms f(6) i unfolding store_add_def by (auto simp: Let_def p g again_def known_def fail_def split: if_splits)
  moreover have "kept_baselines (s\<lparr>bs_by_path := om_set (bl_path v) (known @ [i]) (bs_by_path s), bs_baselines := om_set i again (bs_baselines s)\<rparr>) = kept_baselines b"
    using om_set_values [of i persisted_baseline again] om_set_values [of i persisted_baseline kept] a(1) by (simp add: kept_baselines_def b)
  ultimately show ?thesis using b i v f(6) by auto
qed


definition command_entry :: "definition_command \<Rightarrow> record_type \<times> string" where
  "command_entry c = (fst (command_record c), encode_with (write_value (snd (command_record c))))"

lemma command_frame:
  assumes "command_change c e = (r, e1)"
  shows "en_writer e1 = en_writer e" "en_config e1 = en_config e" "en_policy e1 = en_policy e" "en_gate e1 = en_gate e"
    "en_shut_down e1 = en_shut_down e"
  using assms by (cases c; auto simp: forget_def on_catalog_def on_clocks_def split: prod.splits sum.splits)+

lemma persists_to_frame:
  "persists_to config manifest base (e, d) hist \<Longrightarrow> en_writer f = en_writer e \<Longrightarrow> en_config f = en_config e \<Longrightarrow>
     persists_to config manifest base (f, d) hist"
  by (simp add: persists_to_def)

lemma define_run:
  assumes "persists_to config manifest base (e, d) hist" and "storable_config config" and "base + length hist + 1 < 2 ^ 32"
    and "define_command now c (e, d) = (ok_status, s)"
  shows "\<exists>e1. command_change c e = (ok_status, e1) \<and> same_but_counters e1 (fst s) \<and> persists_to config manifest base s (hist @ [command_entry c])"
proof -
  from assms(4) obtain e1 where c: "command_change c e = (ok_status, e1)"
    and p: "persist now (fst (command_record c)) (encode_with (write_value (snd (command_record c)))) True (e1, d) = (ok_status, s)"
    unfolding define_command_eq define_with_def by (auto simp: Let_def fail_def split: if_splits prod.splits sum.splits)
  from persist_run [OF persists_to_frame [OF assms(1) command_frame(1,2) [OF c]] assms(2,3) p] c
  show ?thesis by (auto simp: command_entry_def)
qed

lemma baseline_run:
  assumes "persists_to config manifest base (e, d) hist" and "storable_config config" and "base + length hist + 1 < 2 ^ 32"
    and "create_baseline now created_at q (e, d) = (Inr i, s)"
  shows "\<exists>v b kept. store_add v (en_baselines e) = (Inr i, b) \<and> om_find (bs_baselines b) i = Some kept \<and>
    same_but_counters (e\<lparr>en_baselines := b\<rparr>) (fst s) \<and>
    persists_to config manifest base s (hist @ [(BaselineRecord, encode_with (write_baseline kept))])"
proof -
  from assms(4) obtain v b kept e2 d2 where b: "store_add v (en_baselines e) = (Inr i, b)" "store_get b i = Inr kept"
    and p: "persist now BaselineRecord (encode_with (write_baseline kept)) True (e\<lparr>en_baselines := b\<rparr>, d) = (ok_status, e2, d2)"
    and s: "fst s = (bump_persisted e2)\<lparr>en_stats := (en_stats (bump_persisted e2))\<lparr>es_baselines :=
          word_of_nat (length (bs_baselines (en_baselines (bump_persisted e2))))\<rparr>\<rparr>" "snd s = d2"
    unfolding create_baseline_def by (auto simp: Let_def fail_def split: if_splits prod.splits sum.splits)
  have "persists_to config manifest base (e\<lparr>en_baselines := b\<rparr>, d) hist" by (rule persists_to_frame [OF assms(1)]) simp_all
  from persist_run [OF this assms(2,3) p] obtain w where w: "e2 = e\<lparr>en_baselines := b, en_writer := Some w\<rparr>"
    "persists_to config manifest base (e2, d2) (hist @ [(BaselineRecord, encode_with (write_baseline kept))])" by auto
  have "same_but_counters (e\<lparr>en_baselines := b\<rparr>) (fst s)" using w(1) s(1) by (simp add: same_but_counters_def bump_persisted_def)
  moreover have "persists_to config manifest base s (hist @ [(BaselineRecord, encode_with (write_baseline kept))])"
    using w(2) s by (cases s) (simp add: persists_to_def bump_persisted_def)
  moreover have "om_find (bs_baselines b) i = Some kept" using b(2) by (auto simp: store_get_def fail_def split: option.splits)
  ultimately show ?thesis using b(1) by blast
qed

lemma load_baseline:
  assumes "store_add v (en_baselines e) = (Inr i, b)" and "om_find (bs_baselines b) i = Some kept" and "baseline_storable kept"
    and "7 \<le> max_json_depth (pol_limits (en_policy e))"
  shows "\<exists>f. load_records [(BaselineRecord, encode_with (write_baseline kept))] e = (ok_status, f) \<and>
    durable_state f = durable_state (e\<lparr>en_baselines := b\<rparr>)"
proof -
  from store_add_Inr [OF assms(1)] assms(2) obtain b' where b: "store_add (persisted_baseline kept) (en_baselines e) = (Inr i, b')"
    "kept_baselines b' = kept_baselines b" by auto
  from load_record_value [OF json_ok_baseline [OF assms(3,4)], of BaselineRecord] have
    "load_record (BaselineRecord, encode_with (write_baseline kept)) e = (ok_status, e\<lparr>en_baselines := b'\<rparr>)"
    using b(1) by (simp add: write_baseline_document restore_with_def on_baselines_def decode_baseline_document [OF assms(3)])
  then show ?thesis using b(2) by (simp add: then_do_def durable_state_def)
qed

lemma ingest_run:
  assumes "persists_to config manifest base (e, d) hist" and "storable_config config" and "engine_ingest clock req (e, d) = (Inr rep, s)"
    and "admit (en_catalog e) (en_clocks e) req \<lparr>adm_current = [], adm_history = [], adm_report = empty_report, adm_gate = en_gate e\<rparr> = (r, a)"
    and "base + length hist + length (batch_entries a) < 2 ^ 32"
  shows "r = ok_status \<and>
    same_but_counters (e\<lparr>en_gate := adm_gate a, en_records := en_records e @ adm_current a @ adm_history a\<rparr>) (fst s) \<and>
    persists_to config manifest base s (hist @ batch_entries a)"
proof -
  define e1 where "e1 = (e\<lparr>en_gate := adm_gate a\<rparr>)\<lparr>en_stats := (en_stats e)\<lparr>es_ingest_batches := es_ingest_batches (en_stats e) + 1\<rparr>\<rparr>"
  from assms(3,4) obtain e2 d2 where r: "r = ok_status" and p: "persist_batch clock a (e1, d) = (ok_status, e2, d2)"
    and s: "s = (tally_batch (adm_report a) e2, d2)"
    unfolding engine_ingest_def by (auto simp: Let_def fail_def e1_def split: if_splits prod.splits sum.splits)
  have "persists_to config manifest base (e1, d) hist" by (rule persists_to_frame [OF assms(1)]) (simp_all add: e1_def)
  from persist_batch_run [OF this assms(2,5) p] have
    "same_but_counters (e1\<lparr>en_records := en_records e1 @ adm_current a @ adm_history a\<rparr>) e2" "persists_to config manifest base (e2, d2) (hist @ batch_entries a)"
    by simp_all
  moreover have "same_but_counters (e\<lparr>en_gate := adm_gate a, en_records := en_records e @ adm_current a @ adm_history a\<rparr>)
      (e1\<lparr>en_records := en_records e1 @ adm_current a @ adm_history a\<rparr>)" by (simp add: same_but_counters_def e1_def)
  ultimately show ?thesis using r s same_but_counters_trans by fastforce
qed

section \<open>Closing and opening\<close>

definition manifest_reads :: "string \<Rightarrow> bool" where
  "manifest_reads manifest \<longleftrightarrow> (\<forall>cfg path. \<exists>rd. check_manifest cfg path manifest = Inr rd \<and> rd_config rd = cfg)"

lemma sha256_hex_shape: "length (sha256_hex t) = 64" "newline \<notin> set (sha256_hex t)"
proof -
  have l: "length (fst (sha_finish s)) = 32" for s
    by (simp add: sha_finish_def Let_def sha_transform_def sha_word_bytes_def split: prod.splits)
  have h: "length (to_hex bs) = 2 * length bs" for bs by (induction bs) (simp_all add: to_hex_def)
  show "length (sha256_hex t) = 64" by (simp add: sha256_hex_def h l)
  have "newline \<notin> set Core_Digest.kDigits" "length Core_Digest.kDigits = 16" by (simp_all add: Core_Digest.kDigits_def)
  moreover have "unat (b AND 0x0F) < 16" for b :: u8
    using word_and_le1 [of b "0x0F"] word_and_le2 [of b "0x0F"] by (simp add: word_le_nat_alt)
  ultimately have d: "newline \<noteq> Core_Digest.kDigits ! unat (b AND 0x0F)" for b :: u8 by (metis nth_mem)
  have "newline \<notin> set (to_hex bs)" for bs by (induction bs) (auto simp: to_hex_def d)
  then show "newline \<notin> set (sha256_hex t)" by (simp add: sha256_hex_def)
qed

lemma manifest_text_reads:
  assumes "in_i64 now"
  shows "manifest_reads (manifest_text now (policy_digest p))"
proof -
  have "length (show_nat 1) \<le> 1" using length_show_nat_le [of 1 1] by simp
  then have "length (manifest_text now (policy_digest p)) \<le> 4096"
    using length_show_int [OF assms] sha256_hex_shape(1)
    by (simp add: manifest_text_def manifest_body_def kStoreMagic_def kFormatVersion_def policy_digest_def)
  moreover have "newline \<notin> set (policy_digest p)" by (simp add: policy_digest_def sha256_hex_shape)
  ultimately show ?thesis using manifest_roundtrip unfolding manifest_reads_def by fastforce
qed

definition closed_store :: "string \<Rightarrow> nat \<Rightarrow> (record_type \<times> string) list \<Rightarrow> disk \<Rightarrow> bool" where
  "closed_store manifest n hist d \<longleftrightarrow> (\<exists>segs. holds d segs \<and> dk_plan d = [] \<and> list_all sg_closed segs \<and> history segs = hist \<and>
     om_find (dk_files d) manifest_name = Some manifest \<and> (\<forall>s \<in> set segs. unat (sg_id s) \<le> n))"

lemma shutdown_run:
  assumes "persists_to config manifest base s hist" and "base + length hist \<le> n" and "\<not> en_shut_down (fst s)"
    and "engine_shutdown stop s = (r, s')"
  shows "r = ok_status \<and> closed_store manifest n hist (snd s')"
proof -
  obtain e d where s: "s = (e, d)" by (cases s)
  from assms(1) obtain w segs where o: "en_writer e = Some w" "writes (w, d) segs" "\<not> wr_closed w" "unat (wr_segment_id w) \<le> base + length hist"
    "history segs = hist" "om_find (dk_files d) manifest_name = Some manifest" by (auto simp: persists_to_def s)
  from close_run [OF o(2,3)] obtain w1 d1 segs1 where c: "close_writer (w, d) = (ok_status, w1, d1)" "holds d1 segs1" "dk_plan d1 = []"
    "list_all sg_closed segs1" "history segs1 = history segs" "\<forall>s \<in> set segs1. sg_id s \<le> wr_segment_id w" by blast
  have "om_find (dk_files d1) manifest_name = Some manifest"
    using close_writer_spares [OF writes_apart [OF o(2)]] c(1) o(6) by (simp add: spares_def)
  moreover have "\<forall>s \<in> set segs1. unat (sg_id s) \<le> n" using c(6) o(4) assms(2) by (fastforce simp: word_le_nat_alt)
  ultimately show ?thesis using assms(3,4) c o by (auto simp: engine_shutdown_def s Let_def closed_store_def)
qed

lemma reader_opens:
  assumes "om_find (dk_files d) manifest_name = Some manifest" and "manifest_reads manifest" and "dk_plan d = []" and "sc_directory cfg \<noteq> []"
  shows "\<exists>rd. open_reader cfg d = (Inr rd, d) \<and> rd_config rd = cfg"
  using assms by (auto simp: open_reader_def manifest_reads_def)

definition same_frame :: "engine \<Rightarrow> engine \<Rightarrow> bool" where
  "same_frame e f \<longleftrightarrow> en_policy f = en_policy e \<and> en_config f = en_config e \<and> en_shut_down f = en_shut_down e \<and> en_recovery f = en_recovery e \<and> en_writer f = en_writer e"

lemma restore_with_frame:
  assumes "\<And>v. same_frame e (snd (f v e))"
  shows "same_frame e (snd (restore_with decoded f e))"
proof (cases decoded)
  case (Inr v)
  then show ?thesis using assms [of v] by (cases "f v e") (auto simp: restore_with_def split: sum.splits)
qed (simp add: restore_with_def same_frame_def)

lemma operation_frames:
  "same_frame e (snd (on_catalog f v e))" "same_frame e (snd (on_clocks g w e))" "same_frame e (snd (on_baselines h x e))"
  "same_frame e (snd (add_record r e))" "same_frame e (snd (add_fence k e))"
  by (simp_all add: on_catalog_def on_clocks_def on_baselines_def add_record_def add_fence_def case_prod_unfold same_frame_def)

lemma load_record_frame: "same_frame e (snd (load_record x e))"
proof -
  have "same_frame e (snd (restore_document t document e))" for t document
    by (cases t) (simp_all add: restore_with_frame operation_frames)
  then show ?thesis by (simp add: load_record_def same_frame_def split: sum.splits)
qed

lemma load_frame: "same_frame e (snd (load_records xs e))"
proof (induction xs arbitrary: e)
  case (Cons x xs)
  show ?case using Cons.IH load_record_frame [of e x] by (fastforce simp: then_do_def same_frame_def split: prod.splits sum.splits)
qed (simp add: same_frame_def)

lemma load_store_run:
  assumes "closed_store manifest n hist d" and "manifest_reads manifest" and "directory \<noteq> []" and "restores config hist e"
    and "length hist \<le> max_total_samples (pol_limits (rc_policy config))"
  shows "\<exists>f. load_store directory (new_engine config start, d) = (ok_status, f, d) \<and> durable_state f = durable_state e \<and>
    clean (en_recovery f) \<and> en_policy f = rc_policy config \<and> en_config f = config \<and> \<not> en_shut_down f"
proof -
  from assms(1) obtain segs where h: "holds d segs" "dk_plan d = []" "list_all sg_closed segs" "history segs = hist"
    "om_find (dk_files d) manifest_name = Some manifest" by (auto simp: closed_store_def)
  let ?e = "new_engine config start"
  let ?cfg = "\<lparr>sc_directory = directory, sc_limits = pol_limits (en_policy ?e), sc_policy_digest = policy_digest (en_policy ?e), sc_create_if_missing = False\<rparr>"
  from reader_opens [OF h(5) assms(2) h(2), of ?cfg] assms(3) obtain rd where rd: "open_reader ?cfg d = (Inr rd, d)" "rd_config rd = ?cfg" by auto
  from read_all_intact [OF h(1-3), of ?cfg] obtain report where r: "read_all ?cfg d [] empty_recovery = (ok_status, concat (map stored segs), report, d)"
    "clean report" by blast
  have k: "map (\<lambda>r. (sr_type r, sr_payload r)) (concat (map stored segs)) = hist" using contents_concat [of segs] h(4) by (simp add: contents_def)
  then have l: "length (concat (map stored segs)) = length hist" by (metis length_map)
  from assms(4) obtain g where g: "load_records hist ?e = (ok_status, g)" "durable_state g = durable_state e" by (auto simp: restores_def)
  obtain q f where f: "load_records hist (?e\<lparr>en_recovery := report\<rparr>) = (q, f)" by fastforce
  have v: "q = ok_status \<and> durable_state f = durable_state e"
    using store_log.replay_view [of "?e\<lparr>en_recovery := report\<rparr>" ?e hist] f g by (simp add: durable_state_def)
  have n: "en_recovery ?e = empty_recovery" "en_record_capacity ?e = max_total_samples (pol_limits (rc_policy config))" "en_config ?e = config" "\<not> en_shut_down ?e" "en_policy ?e = rc_policy config"
    by (simp_all add: new_engine_def Let_def)
  have "load_store directory (?e, d) = (ok_status, f, d)"
    using rd r l v f n assms(5) by (simp add: load_store_def k)
  then show ?thesis using v load_frame [of "?e\<lparr>en_recovery := report\<rparr>" hist] f r(2) n(3-5) by (simp add: same_frame_def)
qed

lemma open_closed_store:
  assumes "closed_store manifest n hist d" and "manifest_reads manifest" and "sc_directory cfg \<noteq> []" and "n + 2 < 2 ^ 32"
  shows "\<exists>w segs. open_writer cfg now d = (Inr w, d) \<and> writes (w, d) segs \<and> history segs = hist \<and> wr_config w = cfg \<and> \<not> wr_closed w \<and>
    unat (wr_segment_id w) \<le> Suc n"
proof -
  from assms(1) obtain segs where h: "holds d segs" "dk_plan d = []" "list_all sg_closed segs" "history segs = hist"
    "om_find (dk_files d) manifest_name = Some manifest" "\<forall>s \<in> set segs. unat (sg_id s) \<le> n" by (auto simp: closed_store_def)
  define w where "w = fresh_writer cfg (next_segment (map segment_name segs))"
  have root: "dk_root d = DirectoryRoot" using h(1) by (simp add: holds_def)
  from reader_opens [OF h(5) assms(2) h(2) assms(3)] have p: "prepare_manifest cfg now d = (ok_status, d)"
    using h(5) by (auto simp: prepare_manifest_def)
  have o: "open_writer cfg now d = (Inr w, d)"
    using assms(3) list_segments_holds [OF h(1,2)] by (simp add: open_writer_def prepare_directory_def root p w_def)
  have "\<forall>s \<in> set segs. unat (sg_id s) + 0 + 1 < 2 ^ 32" using h(6) assms(4) by fastforce
  from open_writer_run [OF h(1-3) o this] have "writes (w, d) segs" "wr_config w = cfg" "\<not> wr_closed w" by simp_all
  moreover have "unat (wr_segment_id w) \<le> Suc n"
  proof -
    have "\<forall>s \<in> set segs. unat (sg_id s) + 1 < 2 ^ 32" using h(6) assms(4) by fastforce
    from next_segment_small [OF this] show ?thesis
      using bspec [OF h(6), of "last segs"] by (cases "segs = []") (auto simp: w_def fresh_writer_def)
  qed
  ultimately show ?thesis using o h(4) by blast
qed

text \<open>What a running engine and its disk agree on.\<close>

definition consistent :: "runtime_config \<Rightarrow> nat \<Rightarrow> (record_type \<times> string) list \<Rightarrow> world \<Rightarrow> bool" where
  "consistent config n hist s \<longleftrightarrow> \<not> en_shut_down (fst s) \<and> en_policy (fst s) = rc_policy config \<and> restores config hist (fst s) \<and>
     (\<exists>manifest base. persists_to config manifest base s hist \<and> base + length hist \<le> n \<and> manifest_reads manifest) \<and>
     (\<exists>tr. gate_run (rc_policy config) tr (en_gate (fst s)) \<and> length tr \<le> n \<and> (\<forall>(r, _) \<in> set tr. readable (rec_sequence r)))"

definition usable_config :: "runtime_config \<Rightarrow> bool" where
  "usable_config config \<longleftrightarrow> storable_config config \<and> has_value (policy_validate (rc_policy config)) \<and>
     has_value (create_pool (rc_workers config)) \<and> rc_store_directory config \<noteq> None \<and> rc_store_directory config \<noteq> Some []"

lemma reopen_run:
  assumes "closed_store manifest n hist d" and "manifest_reads manifest" and "usable_config config" and "restores config hist e"
    and "length hist \<le> max_total_samples (pol_limits (rc_policy config))" and "length hist \<le> n" and "n + 2 < 2 ^ 32"
  shows "\<exists>f. create_engine config start now d = (Inr f, d) \<and> durable_state f = durable_state e \<and> clean (en_recovery f) \<and>
    \<not> en_shut_down f \<and> persists_to config manifest (Suc n - length hist) (f, d) hist"
proof -
  from assms(3) obtain directory where dir: "rc_store_directory config = Some directory" "directory \<noteq> []" by (auto simp: usable_config_def)
  from assms(3) obtain pool where pool: "policy_validate (rc_policy config) = ok_status" "create_pool (rc_workers config) = Inr pool"
    by (auto simp: usable_config_def has_value_def split: sum.splits)
  from load_store_run [OF assms(1,2) dir(2) assms(4,5)] obtain f where f: "load_store directory (new_engine config start, d) = (ok_status, f, d)"
    "durable_state f = durable_state e" "clean (en_recovery f)" "en_policy f = rc_policy config" "en_config f = config" "\<not> en_shut_down f" by blast
  let ?cfg = "\<lparr>sc_directory = directory, sc_limits = pol_limits (en_policy f), sc_policy_digest = policy_digest (en_policy f), sc_create_if_missing = True\<rparr>"
  from open_closed_store [OF assms(1,2) _ assms(7), of ?cfg now] dir(2) obtain w segs where w: "open_writer ?cfg now d = (Inr w, d)" "writes (w, d) segs"
    "history segs = hist" "wr_config w = ?cfg" "\<not> wr_closed w" "unat (wr_segment_id w) \<le> Suc n" by auto
  have m: "om_find (dk_files d) manifest_name = Some manifest" using assms(1) by (auto simp: closed_store_def)
  let ?f = "f\<lparr>en_writer := Some w, en_pool := Some pool\<rparr>"
  have "persists_to config manifest (Suc n - length hist) (?f, d) hist"
    using w m f(4,5) assms(6) by (auto simp: persists_to_def)
  moreover have "create_engine config start now d = (Inr ?f, d)"
    using pool dir m f(1) w(1) by (simp add: create_engine_def attach_store_def then_do_def)
  ultimately show ?thesis using f by (auto simp: durable_state_def)
qed


definition fresh_disk :: "disk \<Rightarrow> bool" where
  "fresh_disk d \<longleftrightarrow> holds d [] \<and> dk_plan d = [] \<and> om_find (dk_files d) manifest_name = None"

lemma create_fresh:
  assumes "fresh_disk d" and "usable_config config" and "in_i64 now"
  shows "\<exists>e d'. create_engine config start now d = (Inr e, d') \<and> consistent config 1 [] (e, d') \<and>
    en_catalog e = empty_catalog (pol_limits (rc_policy config)) \<and> (\<forall>w. en_writer e = Some w \<longrightarrow> wr_total_bytes w = 0)"
proof -
  from assms(2) obtain directory where dir: "rc_store_directory config = Some directory" "directory \<noteq> []" by (auto simp: usable_config_def)
  from assms(2) obtain pool where pool: "policy_validate (rc_policy config) = ok_status" "create_pool (rc_workers config) = Inr pool"
    by (auto simp: usable_config_def has_value_def split: sum.splits)
  let ?e = "new_engine config start"
  let ?cfg = "\<lparr>sc_directory = directory, sc_limits = pol_limits (en_policy ?e), sc_policy_digest = policy_digest (en_policy ?e), sc_create_if_missing = True\<rparr>"
  define manifest where "manifest = manifest_text now (policy_digest (en_policy ?e))"
  define d1 where "d1 = put_file manifest_name manifest d"
  have h: "holds d []" "dk_plan d = []" "om_find (dk_files d) manifest_name = None" "om_inv (dk_files d)" "dk_root d = DirectoryRoot"
    using assms(1) by (simp_all add: fresh_disk_def holds_def)
  have h1: "holds d1 []" "dk_plan d1 = []" "om_find (dk_files d1) manifest_name = Some manifest"
    using holds_manifest [OF h(1)] h(2) by (simp_all add: d1_def put_file_def)
  have p: "prepare_manifest ?cfg now d = (ok_status, d1)"
    using h(2-4) by (simp add: prepare_manifest_def write_manifest_def Let_def fopen_succeeds fwrite_succeeds flush_succeeds d1_def manifest_def)
  define w where "w = fresh_writer ?cfg 1"
  have o: "open_writer ?cfg now d = (Inr w, d1)"
    using dir(2) p list_segments_holds [OF h1(1,2)] h(5) by (simp add: open_writer_def prepare_directory_def w_def next_segment_def)
  let ?f = "?e\<lparr>en_writer := Some w, en_pool := Some pool\<rparr>"
  have c: "create_engine config start now d = (Inr ?f, d1)"
    using pool dir h(3) o by (simp add: create_engine_def attach_store_def then_do_def)
  have n: "en_policy ?e = rc_policy config" "en_config ?e = config" "\<not> en_shut_down ?e" "en_gate ?e = new_gate (rc_policy config)"
    "en_catalog ?e = empty_catalog (pol_limits (rc_policy config))"
    by (simp_all add: new_engine_def Let_def)
  have "writes (w, d1) []" using h1 by (simp add: writes_def w_def fresh_writer_def)
  then have "persists_to config manifest 1 (?f, d1) []" using n h1(3) unfolding persists_to_def by (auto simp: w_def fresh_writer_def)
  moreover have "restores config [] ?f" using restores_durable [OF restores_new [of config start]] by (simp add: durable_state_def)
  moreover have "manifest_reads manifest" unfolding manifest_def by (rule manifest_text_reads [OF assms(3)])
  ultimately have "consistent config 1 [] (?f, d1)"
    using n run_start [of "rc_policy config"] unfolding consistent_def by fastforce
  then show ?thesis using c n(5) by (simp add: w_def fresh_writer_def)
qed

section \<open>Every run stays consistent with its store\<close>

lemma same_but_counters_fields:
  "same_but_counters e f \<Longrightarrow> en_policy f = en_policy e \<and> en_gate f = en_gate e \<and> en_shut_down f = en_shut_down e \<and>
     en_baselines f = en_baselines e"
  unfolding same_but_counters_def by (cases e; cases f) simp

lemma consistent_extend:
  assumes "persists_to config manifest base s (hist @ added)" and "base + length (hist @ added) \<le> n" and "manifest_reads manifest"
    and "restores config hist e" and "load_records added e = (ok_status, f)" and "durable_state f = durable_state g" and "same_but_counters g (fst s)"
    and "\<not> en_shut_down g" and "en_policy g = rc_policy config"
    and "gate_run (rc_policy config) tr (en_gate g)" and "length tr \<le> n" and "\<forall>(r, _) \<in> set tr. readable (rec_sequence r)"
  shows "consistent config n (hist @ added) s"
proof -
  have "durable_state f = durable_state (fst s)" using assms(6) same_but_counters_durable [OF assms(7)] by simp
  from restores_step [OF assms(4,5) this] same_but_counters_fields [OF assms(7)] show ?thesis
    using assms(1-3,8-12) unfolding consistent_def by auto
qed

lemma consistent_defined:
  assumes "consistent config n hist (e, d)" and "storable_config config" and "n + 1 < 2 ^ 32" and "command_ok c"
    and "define_command now c (e, d) = (ok_status, s)"
  shows "consistent config (n + 1) (hist @ [command_entry c]) s"
proof -
  from assms(1) obtain manifest base tr where C: "\<not> en_shut_down e" "en_policy e = rc_policy config" "restores config hist e"
    "persists_to config manifest base (e, d) hist" "base + length hist \<le> n" "manifest_reads manifest"
    "gate_run (rc_policy config) tr (en_gate e)" "length tr \<le> n" "\<forall>(r, _) \<in> set tr. readable (rec_sequence r)"
    by (auto simp: consistent_def)
  have "base + length hist + 1 < 2 ^ 32" using C(5) assms(3) by simp
  from define_run [OF C(4) assms(2) this assms(5)] obtain e1 where d: "command_change c e = (ok_status, e1)" "same_but_counters e1 (fst s)"
    "persists_to config manifest base s (hist @ [command_entry c])" by blast
  have l: "load_records [command_entry c] e = (ok_status, e1)"
    using load_command [OF assms(4) d(1)] assms(2) C(2) by (simp add: command_entry_def storable_config_def)
  show ?thesis using consistent_extend [OF d(3) _ C(6,3) l refl d(2)] C command_frame [OF d(1)] by simp
qed

lemma consistent_baseline:
  assumes "consistent config n hist (e, d)" and "storable_config config" and "n + 1 < 2 ^ 32"
    and "create_baseline now created_at q (e, d) = (Inr i, s)" and "store_get (en_baselines (fst s)) i = Inr kept" and "baseline_storable kept"
  shows "consistent config (n + 1) (hist @ [(BaselineRecord, encode_with (write_baseline kept))]) s"
proof -
  from assms(1) obtain manifest base tr where C: "\<not> en_shut_down e" "en_policy e = rc_policy config" "restores config hist e"
    "persists_to config manifest base (e, d) hist" "base + length hist \<le> n" "manifest_reads manifest"
    "gate_run (rc_policy config) tr (en_gate e)" "length tr \<le> n" "\<forall>(r, _) \<in> set tr. readable (rec_sequence r)"
    by (auto simp: consistent_def)
  have "base + length hist + 1 < 2 ^ 32" using C(5) assms(3) by simp
  from baseline_run [OF C(4) assms(2) this assms(4)] obtain v b kept' where b: "store_add v (en_baselines e) = (Inr i, b)"
    "om_find (bs_baselines b) i = Some kept'" "same_but_counters (e\<lparr>en_baselines := b\<rparr>) (fst s)"
    "persists_to config manifest base s (hist @ [(BaselineRecord, encode_with (write_baseline kept'))])" by blast
  have k: "kept' = kept" using assms(5) b(2) same_but_counters_fields [OF b(3)] by (simp add: store_get_def)
  have "7 \<le> max_json_depth (pol_limits (en_policy e))" using assms(2) C(2) by (simp add: storable_config_def)
  from load_baseline [OF b(1,2) _ this] assms(6) k obtain f where l: "load_records [(BaselineRecord, encode_with (write_baseline kept))] e = (ok_status, f)"
    "durable_state f = durable_state (e\<lparr>en_baselines := b\<rparr>)" by blast
  show ?thesis using consistent_extend [OF b(4) [unfolded k] _ C(6,3) l b(3)] C by simp
qed

lemma consistent_ingested:
  assumes "consistent config n hist (e, d)" and "storable_config config" and "n + length (req_records req) + length (batch_entries a) < 2 ^ 32"
    and "engine_ingest clock req (e, d) = (Inr rep, s)"
    and "admit (en_catalog e) (en_clocks e) req \<lparr>adm_current = [], adm_history = [], adm_report = empty_report, adm_gate = en_gate e\<rparr> = (r, a)"
    and "list_all (\<lambda>r. readable (rec_sequence r)) (req_records req)" and "list_all record_storable (adm_current a @ adm_history a)"
  shows "consistent config (n + length (req_records req) + length (batch_entries a)) (hist @ batch_entries a) s"
proof -
  from assms(1) obtain manifest base tr where C: "\<not> en_shut_down e" "en_policy e = rc_policy config" "restores config hist e"
    "persists_to config manifest base (e, d) hist" "base + length hist \<le> n" "manifest_reads manifest"
    "gate_run (rc_policy config) tr (en_gate e)" "length tr \<le> n" "\<forall>(r, _) \<in> set tr. readable (rec_sequence r)"
    by (auto simp: consistent_def)
  have "base + length hist + length (batch_entries a) < 2 ^ 32" using C(5) assms(3) by simp
  from ingest_run [OF C(4) assms(2,4,5) this] have i: "r = ok_status"
    "same_but_counters (e\<lparr>en_gate := adm_gate a, en_records := en_records e @ adm_current a @ adm_history a\<rparr>) (fst s)"
    "persists_to config manifest base s (hist @ batch_entries a)" by simp_all
  have m: "moves_gate (req_records req) (en_gate e) (adm_gate a)" using admit_moves [OF assms(5) [unfolded i(1)]] by simp
  have l: "length tr + length (req_records req) < 2 ^ 64 - 2" using C(8) assms(3) by simp
  from moves_gateD(2) [OF m C(7) l] obtain t where t: "gate_run (rc_policy config) (t @ tr) (adm_gate a)" "length t = length (req_records req)"
    "\<forall>(r, _) \<in> set t. rec_sequence r \<in> rec_sequence ` set (req_records req)" by blast
  have q: "\<forall>(r, _) \<in> set (t @ tr). readable (rec_sequence r)" using t(3) C(9) assms(6) by (fastforce simp: list_all_iff)
  have g: "gate_inv (length tr) (en_gate e)" "gate_policy (en_gate e) = rc_policy config" using gate_run_inv [OF C(7)] l by simp_all
  have g': "gate_inv (length (t @ tr)) (adm_gate a)" "gate_policy (adm_gate a) = rc_policy config" using gate_run_inv [OF t(1)] t(2) l by simp_all
  have "length (t @ tr) < 2 ^ 63 - 1" using t(2) C(8) assms(3) by simp
  note F = run_fence_storable [OF t(1) this q]
  have "fence_storable (snd x)" if "x \<in> set (gate_fences (adm_gate a))" for x
  proof -
    have "om_find (gate_fences (adm_gate a)) (fst x) = Some (snd x)"
      using that g'(1) om_inv_distinct [of "gate_fences (adm_gate a)"] by (intro map_of_is_SomeI) (simp_all add: gate_inv_def)
    then show ?thesis using F [of "fst x"] by (simp add: fence_of_def)
  qed
  with load_batch [OF assms(7), of e] g g' moves_gateD(1) [OF m C(7) l] assms(2) C(2) obtain f where f:
    "load_records (batch_entries a) e = (ok_status, f)"
    "durable_state f = durable_state (e\<lparr>en_gate := adm_gate a, en_records := en_records e @ adm_current a @ adm_history a\<rparr>)"
    by (auto simp: gate_inv_def storable_config_def)
  show ?thesis using consistent_extend [OF i(3) _ C(6,3) f i(2)] C t(1,2) q by simp
qed


lemma consistent_other:
  assumes "consistent config n hist (e, d)" and "durable_state f = durable_state e" and "en_writer f = en_writer e" and "en_config f = en_config e"
    and "en_shut_down f = en_shut_down e"
  shows "consistent config n hist (f, d)"
proof -
  have p: "persists_to config manifest base (e, d) hist \<Longrightarrow> persists_to config manifest base (f, d) hist" for manifest base
    using persists_to_frame assms(3,4) by blast
  have "en_policy f = en_policy e" "en_gate f = en_gate e" using assms(2) by (simp_all add: durable_state_def)
  then show ?thesis using assms(1,5) restores_durable [OF _ assms(2)] p unfolding consistent_def fst_conv by metis
qed

lemma consistent_restarted:
  assumes "consistent config n hist s" and "usable_config config" and "n + 2 < 2 ^ 32"
    and "length hist \<le> max_total_samples (pol_limits (rc_policy config))" and "engine_shutdown stop s = (r, s1)"
  shows "r = ok_status \<and> (\<exists>e. create_engine config start now (snd s1) = (Inr e, snd s1) \<and> durable_state e = durable_state (fst s) \<and>
    clean (en_recovery e) \<and> consistent config (n + 1) hist (e, snd s1))"
proof -
  from assms(1) obtain manifest base tr where C: "\<not> en_shut_down (fst s)" "en_policy (fst s) = rc_policy config" "restores config hist (fst s)"
    "persists_to config manifest base s hist" "base + length hist \<le> n" "manifest_reads manifest"
    "gate_run (rc_policy config) tr (en_gate (fst s))" "length tr \<le> n" "\<forall>(r, _) \<in> set tr. readable (rec_sequence r)"
    by (auto simp: consistent_def)
  from shutdown_run [OF C(4,5,1) assms(5)] have s: "r = ok_status" "closed_store manifest n hist (snd s1)" by simp_all
  have h: "length hist \<le> n" using C(5) by simp
  from reopen_run [OF s(2) C(6) assms(2) C(3) assms(4) h assms(3)] obtain e where e: "create_engine config start now (snd s1) = (Inr e, snd s1)"
    "durable_state e = durable_state (fst s)" "clean (en_recovery e)" "\<not> en_shut_down e"
    "persists_to config manifest (Suc n - length hist) (e, snd s1) hist" by blast
  have "en_policy e = rc_policy config" "en_gate e = en_gate (fst s)" using e(2) C(2) by (simp_all add: durable_state_def)
  moreover have "restores config hist e" by (rule restores_durable [OF C(3) e(2)])
  moreover have "Suc n - length hist + length hist \<le> n + 1" using h by simp
  moreover have "length tr \<le> n + 1" using C(8) by simp
  ultimately have "consistent config (n + 1) hist (e, snd s1)"
    unfolding consistent_def using e(4,5) C(6,7,9) by (metis fst_conv)
  then show ?thesis using s(1) e by blast
qed

lemma create_within_capacity:
  assumes "closed_store manifest n hist d" and "manifest_reads manifest" and "rc_store_directory config = Some directory"
    and "create_engine config start now d = (Inr e, d')"
  shows "length hist \<le> max_total_samples (pol_limits (rc_policy config))"
proof -
  from assms(1) obtain segs where h: "holds d segs" "dk_plan d = []" "list_all sg_closed segs" "history segs = hist"
    "om_find (dk_files d) manifest_name = Some manifest" by (auto simp: closed_store_def)
  let ?e = "new_engine config start"
  let ?cfg = "\<lparr>sc_directory = directory, sc_limits = pol_limits (en_policy ?e), sc_policy_digest = policy_digest (en_policy ?e), sc_create_if_missing = False\<rparr>"
  have "fst (load_store directory (?e, d)) = ok_status"
    using assms(3,4) h(5) by (auto simp: create_engine_def attach_store_def then_do_def split: sum.splits prod.splits)
  moreover from this have "directory \<noteq> []" by (auto simp: load_store_def open_reader_def fail_def)
  moreover from this reader_opens [OF h(5) assms(2) h(2), of ?cfg] obtain rd where rd: "open_reader ?cfg d = (Inr rd, d)" "rd_config rd = ?cfg" by auto
  moreover from read_all_intact [OF h(1-3), of ?cfg] obtain report where r: "read_all ?cfg d [] empty_recovery = (ok_status, concat (map stored segs), report, d)"
    by blast
  moreover have "length (concat (map stored segs)) = length hist" using contents_concat [of segs] h(4) by (metis contents_def length_map)
  moreover have "en_recovery ?e = empty_recovery" "en_record_capacity ?e = max_total_samples (pol_limits (rc_policy config))"
    by (simp_all add: new_engine_def Let_def)
  ultimately show ?thesis by (auto simp: load_store_def Let_def fail_def split: if_splits)
qed


text \<open>
  A run of the runtime over any number of sessions on one store: definitions, batches, baselines,
  any operation that changes neither what survives nor the store (queries, refused calls), and an
  orderly restart. The number counts what was ever received or written; the list is what was written.
\<close>

inductive runtime_run :: "runtime_config \<Rightarrow> nat \<Rightarrow> (record_type \<times> string) list \<Rightarrow> world \<Rightarrow> bool" for config :: runtime_config where
  session_created: "fresh_disk d \<Longrightarrow> in_i64 now \<Longrightarrow> create_engine config start now d = (Inr e, d') \<Longrightarrow> runtime_run config 1 [] (e, d')"
| session_defined: "runtime_run config n hist (e, d) \<Longrightarrow> command_ok c \<Longrightarrow> define_command now c (e, d) = (ok_status, s) \<Longrightarrow>
    runtime_run config (n + 1) (hist @ [command_entry c]) s"
| session_ingested: "runtime_run config n hist (e, d) \<Longrightarrow> engine_ingest clock req (e, d) = (Inr rep, s) \<Longrightarrow>
    admit (en_catalog e) (en_clocks e) req \<lparr>adm_current = [], adm_history = [], adm_report = empty_report, adm_gate = en_gate e\<rparr> = (r, a) \<Longrightarrow>
    list_all (\<lambda>r. readable (rec_sequence r)) (req_records req) \<Longrightarrow> list_all record_storable (adm_current a @ adm_history a) \<Longrightarrow>
    runtime_run config (n + length (req_records req) + length (batch_entries a)) (hist @ batch_entries a) s"
| session_baseline: "runtime_run config n hist (e, d) \<Longrightarrow> create_baseline now created_at q (e, d) = (Inr i, s) \<Longrightarrow>
    store_get (en_baselines (fst s)) i = Inr kept \<Longrightarrow> baseline_storable kept \<Longrightarrow>
    runtime_run config (n + 1) (hist @ [(BaselineRecord, encode_with (write_baseline kept))]) s"
| session_other: "runtime_run config n hist (e, d) \<Longrightarrow> durable_state f = durable_state e \<Longrightarrow> en_writer f = en_writer e \<Longrightarrow>
    en_config f = en_config e \<Longrightarrow> en_shut_down f = en_shut_down e \<Longrightarrow> runtime_run config n hist (f, d)"
| session_restarted: "runtime_run config n hist s \<Longrightarrow> engine_shutdown stop s = (r, s1) \<Longrightarrow>
    create_engine config start now (snd s1) = (Inr e, d) \<Longrightarrow> runtime_run config (n + 1) hist (e, d)"

lemma run_consistent:
  assumes "runtime_run config n hist s" and "usable_config config" and "n + 1 < 2 ^ 32"
  shows "consistent config n hist s"
  using assms(1,3)
proof (induction rule: runtime_run.induct)
  case (session_created d now start e d')
  then show ?case using create_fresh [OF session_created(1) assms(2) session_created(2), of start] by auto
next
  case (session_defined n hist e d c now s)
  then show ?case using assms(2) by (intro consistent_defined) (simp_all add: usable_config_def)
next
  case (session_ingested n hist e d clock req rep s r a)
  then show ?case using assms(2) by (intro consistent_ingested) (simp_all add: usable_config_def)
next
  case (session_baseline n hist e d now created_at q i s kept)
  then show ?case using assms(2) by (intro consistent_baseline) (simp_all add: usable_config_def)
next
  case (session_other n hist e d f)
  then show ?case using consistent_other by blast
next
  case (session_restarted n hist s stop r s1 start now e d)
  then have c: "consistent config n hist s" and n: "n + 2 < 2 ^ 32" by simp_all
  from c obtain manifest base where m: "persists_to config manifest base s hist" "base + length hist \<le> n" "manifest_reads manifest" "\<not> en_shut_down (fst s)"
    by (auto simp: consistent_def)
  from assms(2) obtain directory where "rc_store_directory config = Some directory" by (auto simp: usable_config_def)
  from create_within_capacity [OF _ m(3) this session_restarted(3)] shutdown_run [OF m(1,2,4) session_restarted(2)]
  have "length hist \<le> max_total_samples (pol_limits (rc_policy config))" by blast
  from consistent_restarted [OF c assms(2) n this session_restarted(2), of start now] session_restarted(3) show ?case by auto
qed

text \<open>C3: A restart loses nothing: after any run of the runtime on its store, through any number of
  sessions of definitions, clock reports, batches, baselines, queries and restarts, shutting down
  succeeds, and a runtime created on the same directory with the same configuration opens it, finds
  the store undamaged, and holds the same catalog, clock registry and fences, the same baselines up to the
  reasons, freshness and confidence of their evidence and the clock domain of their creation, and the
  same records in the same order with their times of observation and receipt and the state of their evidence,
  up to its freshness, confidence and reasons and the monotonic time of receipt, as long as what was
  written fits the capacity the configuration allows and the counters of the store do not wrap.\<close>

theorem restart_restores:
  assumes "runtime_run config n hist s" and "usable_config config" and "n + 2 < 2 ^ 32"
    and "length hist \<le> max_total_samples (pol_limits (rc_policy config))" and "engine_shutdown stop s = (r, s1)"
  shows "r = ok_status \<and> (\<exists>e. create_engine config start now (snd s1) = (Inr e, snd s1) \<and> clean (en_recovery e) \<and>
    en_catalog e = en_catalog (fst s) \<and> en_clocks e = en_clocks (fst s) \<and> en_gate e = en_gate (fst s) \<and>
    kept_baselines (en_baselines e) = kept_baselines (en_baselines (fst s)) \<and>
    map record_core (en_records e) = map record_core (en_records (fst s)))"
proof -
  have "n + 1 < 2 ^ 32" using assms(3) by simp
  from consistent_restarted [OF run_consistent [OF assms(1,2) this] assms(2-5), of start now] show ?thesis
    by (auto simp: durable_state_def)
qed

definition demo_runtime :: runtime_config where
  "demo_runtime = \<lparr>rc_policy = default_runtime_policy, rc_store_directory = Some ''store'', rc_durable_writes = True, rc_readonly = False,
     rc_workers = \<lparr>pc_workers = 1, pc_queue_depth = 1\<rparr>\<rparr>"

definition demo_endpoint :: endpoint_def where
  "demo_endpoint = \<lparr>ep_id = no_id, ep_name = ''e'', ep_role = Client, ep_revision = 1\<rparr>"

lemma demo_usable: "usable_config demo_runtime"
  by (simp add: usable_config_def storable_config_def demo_runtime_def default_policy_ok create_pool_def)
    (simp add: default_runtime_policy_def default_limits_def)

lemma demo_defined:
  assumes "consistent demo_runtime 1 [] (e, d)" and "en_catalog e = empty_catalog default_limits" and "\<forall>w. en_writer e = Some w \<longrightarrow> wr_total_bytes w = 0"
  shows "\<exists>s. define_command 0 (DefineEndpoint demo_endpoint) (e, d) = (ok_status, s)"
proof -
  define p where "p = encode_with (write_endpoint demo_endpoint)"
  obtain c where c: "define_endpoint demo_endpoint (empty_catalog default_limits) = (Inr (derive_from ''e''), c)"
    by (simp add: define_endpoint_def demo_endpoint_def revision_valid_def upsert_def empty_catalog_def default_limits_def Let_def first_guard.simps)
  from assms(1) obtain w segs where w: "en_writer e = Some w" "en_config e = demo_runtime" "writes (w, d) segs" "\<not> wr_closed w" "\<not> en_shut_down e"
    "sc_limits (wr_config w) = default_limits" "unat (wr_segment_id w) \<le> 1"
    by (auto simp: consistent_def persists_to_def demo_runtime_def default_runtime_policy_def)
  have "length p \<le> 200"
    unfolding p_def write_entity_documents encode_with_value by code_simp
  then have "fits w p" using assms(3) w(1,6) by (simp add: fits_def default_limits_def kMaxRecordPayloadBytes_def)
  with append_run [OF w(3,4), of 0 EndpointRecord p] w(6,7) obtain w1 d1 segs1 where "append_record 0 EndpointRecord p (w, d) = (ok_status, w1, d1)"
    "writes (w1, d1) segs1" by (auto simp: default_limits_def appended_def)
  then show ?thesis using assms(2) c w(1,2,5) sync_run [of w1 d1 segs1]
    by (simp add: engine_define_endpoint_def define_with_def on_catalog_def persist_def demo_runtime_def then_do_def forget_def p_def)
qed


theorem restart_restores_witness:
  "\<exists>s e d. runtime_run demo_runtime 2 [command_entry (DefineEndpoint demo_endpoint)] s \<and>
     create_engine demo_runtime (demo_time 9) 9 d = (Inr e, d) \<and> clean (en_recovery e) \<and> en_catalog e = en_catalog (fst s)"
proof -
  have f: "fresh_disk (demo_disk [])" using demo_holds [of "[]"] by (simp add: fresh_disk_def demo_disk_def layout_def)
  have p: "rc_policy demo_runtime = default_runtime_policy" "pol_limits default_runtime_policy = default_limits"
    by (simp_all add: demo_runtime_def default_runtime_policy_def)
  have i: "in_i64 0" by (simp add: in_i64_iff)
  from create_fresh [OF f demo_usable i, of "demo_time 0"] obtain e d where c: "create_engine demo_runtime (demo_time 0) 0 (demo_disk []) = (Inr e, d)"
    "consistent demo_runtime 1 [] (e, d)" "en_catalog e = empty_catalog default_limits" "\<forall>w. en_writer e = Some w \<longrightarrow> wr_total_bytes w = 0"
    by (auto simp: p)
  from demo_defined [OF c(2-4)] obtain s where s: "define_command 0 (DefineEndpoint demo_endpoint) (e, d) = (ok_status, s)" by blast
  have ok: "command_ok (DefineEndpoint demo_endpoint)"
    by (simp add: demo_endpoint_def name_ok_def is_name_start_def is_name_char_def kMaxLength_def)
  from session_defined [OF session_created [OF f i c(1)] ok s] have r: "runtime_run demo_runtime 2 [command_entry (DefineEndpoint demo_endpoint)] s"
    by (simp add: numeral_2_eq_2)
  obtain q s1 where q: "engine_shutdown (\<lambda>p. p) s = (q, s1)" by (metis surj_pair)
  from restart_restores [OF r demo_usable _ _ q, of "demo_time 9" 9] obtain f where
    "create_engine demo_runtime (demo_time 9) 9 (snd s1) = (Inr f, snd s1)" "clean (en_recovery f)" "en_catalog f = en_catalog (fst s)"
    by (auto simp: p default_limits_def)
  with r show ?thesis by blast
qed

end
