(* ===== verification/Engine_Current.thy ===== *)
theory Engine_Current
  imports Engine_Restart
begin

text \<open>
  What counts as current timing in the engine: records as the gate admitted them, and records a new
  session has loaded. Queries look at the evidence of a record, not at its verdict.
\<close>

section \<open>What a current query counts\<close>

lemma fence_phase_standing:
  assumes "fence_phase cat path src r v ev rep g = (v', ev', rep', g')" and "v' \<noteq> Rejected" and "rec_source_revision r = src_revision src"
  shows "same_standing ev ev'"
proof -
  obtain v1 ev1 where a: "generation_fence cat path r v ev = (v1, ev1)" by force
  obtain v2 ev2 rep2 g2 where b: "apply_session_fence r v1 ev1 rep g = (v2, ev2, rep2, g2)" by (metis prod_cases4)
  have c: "authority_fence src r v2 ev2 = (v2, ev2)" using assms(3) by (simp add: authority_fence_def)
  have e: "v' = conclude v2 ev2" "ev' = ev2" using assms(1) a b c by (auto simp: fence_phase_def)
  have "v2 \<noteq> Rejected" using e(1) assms(2) by (auto simp: conclude_def)
  from same_standing_trans [OF generation_fence_current(2) [OF a] apply_session_fence_standing [OF b this]] show ?thesis by (simp add: e)
qed

lemma admitted_usable:
  assumes "classify cat clocks now r AcceptedCurrent rep g = (r', v, ev, rep', g')" and "v \<noteq> Rejected"
    and "cat_source cat (rec_source r) = Inr src" and "rec_source_revision r = src_revision src"
  shows "(usable ev \<longleftrightarrow> age_admits (gate_policy g) clocks (stamp_observed_at (rec_stamp r)) now) \<and> same_exchange (start_record r) r'"
  using assms(1)
proof (cases rule: classify_cases)
  case (fenced path src1 gen rep1 ev1)
  note s = same_exchange_fields [OF fenced(9)]
  have "rec_source_revision r' = src_revision src1" using assms(3,4) fenced(2) by (simp add: s)
  then have "usable ev1 \<longleftrightarrow> usable ev" using fence_phase_standing [OF fenced(8) assms(2)] by (intro same_standing_usable)
  moreover have "usable ev1 \<longleftrightarrow> age_admits (gate_policy g) clocks (stamp_observed_at (rec_stamp r)) now"
    unfolding fenced(7) by (rule age_phase_usable) (simp add: observed_def)
  ultimately show ?thesis using fenced(9) by simp
qed (use assms(2) in simp)

text \<open>A query for current timing over the path, generation and window of a record.\<close>

definition asks_current :: "summary_request \<Rightarrow> measurement_record \<Rightarrow> bool" where
  "asks_current req r \<longleftrightarrow> sq_mode req = CurrentMode \<and> sq_path req = rec_path r \<and> sq_generation req = rec_generation r \<and>
     (valid_id (sq_restrict_to_source req) \<longrightarrow> sq_restrict_to_source req = rec_source r) \<and>
     window_contains (sq_window req) (stamp_received_at (rec_stamp r))"

lemma current_class: "asks_current req r \<Longrightarrow> class_for req r = Included \<longleftrightarrow> usable (rec_evidence r)"
  by (auto simp: asks_current_def class_for_def classify_record_def Let_def window_contains_def usable_def)

text \<open>C38: The verdict of the gate does not decide what a current query counts. A record of the registered source
  revision that the gate admits as history only, because its generation is not the path's or is superseded,
  its session is an older one or its sequence number is out of order, keeps evidence whose standing
  is that of its age alone; a query for current timing over its path, generation and window includes it exactly when its
  age was admissible at receipt, as if it had been admitted as current.\<close>

theorem historical_counts_as_current:
  assumes "classify cat clocks now r AcceptedCurrent rep g = (r', AcceptedHistorical, ev, rep', g')"
    and "cat_source cat (rec_source r) = Inr src" and "rec_source_revision r = src_revision src" and "asks_current req r"
  shows "class_for req (r'\<lparr>rec_evidence := ev\<rparr>) = Included \<longleftrightarrow>
    age_admits (gate_policy g) clocks (stamp_observed_at (rec_stamp r)) now"
proof -
  have u: "usable ev \<longleftrightarrow> age_admits (gate_policy g) clocks (stamp_observed_at (rec_stamp r)) now" "same_exchange (start_record r) r'"
    using admitted_usable [OF assms(1) _ assms(2,3)] by simp_all
  note s = same_exchange_fields [OF u(2)]
  have "asks_current req (r'\<lparr>rec_evidence := ev\<rparr>)" using assms(4) s by (simp add: asks_current_def)
  from current_class [OF this] show ?thesis using u(1) by simp
qed

definition current_query :: summary_request where
  "current_query = \<lparr>sq_path = StrongId 1, sq_generation = StrongId 3, sq_mode = CurrentMode,
     sq_window = \<lparr>tw_from = demo_time 0, tw_to = demo_time 1000\<rparr>, sq_histogram = [], sq_probes = [], sq_restrict_to_source = no_id\<rparr>"

text \<open>A record out of order, with sequence number 5 after 7, is history for the gate and counted by a current query.\<close>

lemma reordered_historical:
  "demo_verdict (demo_record 2 5) \<lparr>gate_policy = default_runtime_policy, gate_fences = [(StrongId 2, demo_fence)]\<rparr> = AcceptedHistorical"
proof -
  obtain path src gen where k: "cat_source demo_catalog (StrongId 2) = Inr src" "cat_generation demo_catalog (StrongId 3) = Inr gen"
    "cat_path demo_catalog (StrongId 1) = Inr path" "path_generation path = StrongId 3" "src_revision src = 2" "\<not> is_superseded demo_catalog (StrongId 3)"
    using demo_lookups by auto
  show ?thesis
    by (simp add: demo_verdict_def demo_classify_def classify_def inspect_def start_record_def demo_record_def demo_time_def k Let_def
      structure_checks_def valid_id_def revision_valid_def wrap_i64_def derive_dwells_def age_phase_def estimate_age_def ts_valid_def
      fence_phase_def generation_fence_def apply_session_fence_def find_session_def fence_of_def demo_fence_def demo_session_def session_key_of_def
      revision_fence_def sequence_fence_def default_runtime_policy_def default_limits_def classify_age_def usable_def
      no_id_def authority_fence_def conclude_def)
qed

theorem historical_counts_as_current_witness:
  "\<exists>r' ev rep' g'. demo_classify (demo_record 2 5) \<lparr>gate_policy = default_runtime_policy, gate_fences = [(StrongId 2, demo_fence)]\<rparr> =
      (r', AcceptedHistorical, ev, rep', g') \<and> class_for current_query (r'\<lparr>rec_evidence := ev\<rparr>) = Included"
proof -
  let ?g = "\<lparr>gate_policy = default_runtime_policy, gate_fences = [(StrongId 2, demo_fence)]\<rparr>"
  obtain r' v ev rep' g' where c: "demo_classify (demo_record 2 5) ?g = (r', v, ev, rep', g')" by (metis prod_cases5)
  have v: "v = AcceptedHistorical" using reordered_historical c by (simp add: demo_verdict_def)
  obtain src where src: "cat_source demo_catalog (StrongId 2) = Inr src" "src_revision src = 2" using demo_lookups(2) by blast
  have f: "rec_source (demo_record 2 5) = StrongId 2" "rec_source_revision (demo_record 2 5) = 2" "asks_current current_query (demo_record 2 5)"
    by (simp_all add: demo_record_def current_query_def asks_current_def window_contains_def demo_time_def valid_id_def no_id_def)
  have "class_for current_query (r'\<lparr>rec_evidence := ev\<rparr>) = Included \<longleftrightarrow>
      age_admits (gate_policy ?g) (empty_registry default_runtime_policy) (stamp_observed_at (rec_stamp (demo_record 2 5))) (demo_time 500)"
    by (rule historical_counts_as_current [OF c [unfolded demo_classify_def v]])
      (use src f in simp_all)
  then show ?thesis using c v demo_age [of "empty_registry default_runtime_policy"] by (auto simp: demo_record_def)
qed

section \<open>Freshness after a restart\<close>

text \<open>The records of an engine that has only loaded: each classified against the session start, under the policy.\<close>

definition loaded_at :: "runtime_policy \<Rightarrow> timestamp \<Rightarrow> engine \<Rightarrow> bool" where
  "loaded_at pol start e \<longleftrightarrow> en_policy e = pol \<and> en_session_start e = start \<and>
     (\<forall>r \<in> set (en_records e). \<exists>f r0. en_policy f = pol \<and> en_session_start f = start \<and> r = reclassify_loaded f r0)"

lemma restore_with_loaded:
  assumes "loaded_at pol start e" and "\<And>v. loaded_at pol start (snd (f v e))"
  shows "loaded_at pol start (snd (restore_with decoded f e))"
proof (cases decoded)
  case (Inr v)
  then show ?thesis using assms(2) [of v] by (cases "f v e") (auto simp: restore_with_def split: sum.splits)
qed (simp add: restore_with_def assms(1))

lemma operations_loaded:
  assumes "loaded_at pol start e"
  shows "loaded_at pol start (snd (on_catalog f v e))" "loaded_at pol start (snd (on_clocks g w e))" "loaded_at pol start (snd (on_baselines h x e))"
    "loaded_at pol start (snd (add_record r e))" "loaded_at pol start (snd (add_fence k e))"
  using assms by (auto simp: on_catalog_def on_clocks_def on_baselines_def add_record_def add_fence_def case_prod_unfold loaded_at_def)

lemma load_record_loaded:
  assumes "loaded_at pol start e"
  shows "loaded_at pol start (snd (load_record x e))"
proof -
  have "loaded_at pol start (snd (restore_document t document e))" for t document
    by (cases t) (simp_all add: restore_with_loaded operations_loaded assms)
  then show ?thesis using assms by (simp add: load_record_def split: sum.splits)
qed

lemma load_records_loaded: "loaded_at pol start e \<Longrightarrow> loaded_at pol start (snd (load_records xs e))"
proof (induction xs arbitrary: e)
  case (Cons x xs)
  then show ?case using load_record_loaded [OF Cons.prems, of x] by (cases "load_record x e") (auto simp: then_do_def split: sum.splits)
qed simp

lemma load_store_loaded:
  assumes "loaded_at pol start (fst s)"
  shows "loaded_at pol start (fst (snd (load_store directory s)))"
proof -
  have "loaded_at pol start (e\<lparr>en_recovery := x\<rparr>) = loaded_at pol start e" for e x by (simp add: loaded_at_def)
  then show ?thesis using assms load_records_loaded
    by (cases s) (auto simp: load_store_def Let_def split: prod.splits sum.splits, metis snd_conv)
qed

lemma loaded_at_fields [simp]:
  "loaded_at pol start (e\<lparr>en_writer := w\<rparr>) = loaded_at pol start e" "loaded_at pol start (e\<lparr>en_pool := q\<rparr>) = loaded_at pol start e"
  by (simp_all add: loaded_at_def)

lemma attach_store_loaded:
  assumes "loaded_at pol start (fst s)" and "attach_store now directory s = (r, e, d)"
  shows "loaded_at pol start e"
proof -
  let ?x = "if om_find (dk_files (snd s)) manifest_name \<noteq> None then load_store directory s else (ok_status, s)"
  obtain r1 e1 d1 where x: "?x = (r1, e1, d1)" by (metis prod_cases3)
  have "loaded_at pol start (fst (snd ?x))" using assms(1) load_store_loaded [OF assms(1)] by simp
  then have "loaded_at pol start e1" by (simp only: x fst_conv snd_conv)
  then show ?thesis using assms(2) unfolding attach_store_def x
    by (auto simp: then_do_def Let_def split: prod.splits sum.splits)
qed

lemma create_engine_loaded:
  assumes "create_engine config start now d = (Inr e, d')"
  shows "loaded_at (rc_policy config) start e"
proof -
  have n: "loaded_at (rc_policy config) start (new_engine config start)" by (simp add: loaded_at_def new_engine_def Let_def)
  show ?thesis
  proof (cases "rc_store_directory config")
    case None
    then show ?thesis using assms n by (auto simp: create_engine_def split: sum.splits)
  next
    case (Some directory)
    obtain r1 e1 d1 where a: "attach_store now directory (new_engine config start, d) = (r1, e1, d1)" by (metis prod_cases3)
    have "loaded_at (rc_policy config) start e1" by (rule attach_store_loaded [OF _ a]) (simp add: n)
    then show ?thesis using assms Some a by (auto simp: create_engine_def split: sum.splits)
  qed
qed

lemma reclassified_usable:
  assumes "ts_domain (stamp_observed_at (rec_stamp r)) = ts_domain (en_session_start f)" and "ts_valid (en_session_start f)"
    and "in_i64 (ts_ns (en_session_start f) - ts_ns (stamp_observed_at (rec_stamp r)))"
    and "freshness_policy_validate (pol_freshness (en_policy f)) = ok_status"
  shows "usable (rec_evidence (reclassify_loaded f r)) \<longleftrightarrow> ev_state (rec_evidence r) = Observed \<and>
    ts_ns (stamp_observed_at (rec_stamp r)) \<le> ts_ns (en_session_start f) \<and>
    ts_ns (en_session_start f) - ts_ns (stamp_observed_at (rec_stamp r)) \<le> aging_horizon_ns (pol_freshness (en_policy f))"
proof -
  have "fresh_horizon_ns (pol_freshness (en_policy f)) < aging_horizon_ns (pol_freshness (en_policy f))"
    using freshness_policy_ordered [OF assms(4)] by simp
  then show ?thesis using assms(1-3)
    by (auto simp: reclassify_loaded_def Let_def usable_def estimate_age_def ts_valid_def classify_age_def)
qed

lemma record_core_fields:
  assumes "record_core r = record_core r'"
  shows "stamp_observed_at (rec_stamp r) = stamp_observed_at (rec_stamp r')" "stamp_received_at (rec_stamp r) = stamp_received_at (rec_stamp r')"
    "ev_state (rec_evidence r) = ev_state (rec_evidence r')" "rec_path r = rec_path r'" "rec_generation r = rec_generation r'" "rec_source r = rec_source r'"
  using arg_cong [OF assms, of "\<lambda>r. stamp_observed_at (rec_stamp r)"] arg_cong [OF assms, of "\<lambda>r. stamp_received_at (rec_stamp r)"]
    arg_cong [OF assms, of "\<lambda>r. ev_state (rec_evidence r)"] arg_cong [OF assms, of rec_path]
    arg_cong [OF assms, of rec_generation] arg_cong [OF assms, of rec_source]
  by (simp_all add: record_core_def persisted_record_def)

lemma loaded_record:
  assumes "loaded_at pol start e" and "r \<in> set (en_records e)" and "ts_domain (stamp_observed_at (rec_stamp r)) = ts_domain start"
    and "ts_valid start" and "in_i64 (ts_ns start - ts_ns (stamp_observed_at (rec_stamp r)))" and "freshness_policy_validate (pol_freshness pol) = ok_status"
  shows "usable (rec_evidence r) \<longleftrightarrow> ev_state (rec_evidence r) = Observed \<and> ts_ns (stamp_observed_at (rec_stamp r)) \<le> ts_ns start \<and>
    ts_ns start - ts_ns (stamp_observed_at (rec_stamp r)) \<le> aging_horizon_ns (pol_freshness pol)"
proof -
  from assms(1,2) obtain f r0 where f: "en_policy f = pol" "en_session_start f = start" "r = reclassify_loaded f r0"
    unfolding loaded_at_def by blast
  have "rec_stamp r = rec_stamp r0" "ev_state (rec_evidence r) = ev_state (rec_evidence r0)"
    by (simp_all add: f(3) reclassify_loaded_def Let_def)
  then show ?thesis using reclassified_usable [of r0 f] assms(3-6) f by simp
qed

text \<open>C39: What a restart makes of stored records, exactly: whatever the directory holds, a record that a new runtime has loaded,
  with its observation in the clock domain of the session start, is counted by queries for current timing if and only if its
  evidence is observed and its age at the start of the session is neither negative nor beyond the aging
  horizon. Neither its verdict nor its freshness in the earlier session plays a part: after a prompt restart stored records still
  count as current, and one stored as history because its clock ran ahead, so that its age at receipt
  was unknown, counts as current once a session starts after its reading.\<close>

theorem restart_usability:
  assumes "create_engine config start now d = (Inr e, d')" and "r \<in> set (en_records e)"
    and "ts_domain (stamp_observed_at (rec_stamp r)) = ts_domain start" and "ts_valid start"
    and "in_i64 (ts_ns start - ts_ns (stamp_observed_at (rec_stamp r)))" and "asks_current req r"
  shows "class_for req r = Included \<longleftrightarrow> ev_state (rec_evidence r) = Observed \<and>
    ts_ns (stamp_observed_at (rec_stamp r)) \<le> ts_ns start \<and>
    ts_ns start - ts_ns (stamp_observed_at (rec_stamp r)) \<le> aging_horizon_ns (pol_freshness (rc_policy config))"
proof -
  have "policy_validate (rc_policy config) = ok_status" using assms(1) by (auto simp: create_engine_def split: sum.splits)
  then have "freshness_policy_validate (pol_freshness (rc_policy config)) = ok_status" using policy_validateD(2) by auto
  from loaded_record [OF create_engine_loaded [OF assms(1)] assms(2-5) this] current_class [OF assms(6)] show ?thesis by simp
qed

text \<open>In particular for the records of an earlier session, which come back with their times and the state of their evidence.\<close>

lemma restarted_usability:
  assumes "runtime_run config n hist s" and "usable_config config" and "n + 2 < 2 ^ 32"
    and "length hist \<le> max_total_samples (pol_limits (rc_policy config))" and "engine_shutdown stop s = (q, s1)"
    and "create_engine config start now (snd s1) = (Inr e, d)"
    and "i < length (en_records (fst s))" and "r = en_records (fst s) ! i"
    and "ts_domain (stamp_observed_at (rec_stamp r)) = ts_domain start" and "ts_valid start"
    and "in_i64 (ts_ns start - ts_ns (stamp_observed_at (rec_stamp r)))"
  shows "length (en_records e) = length (en_records (fst s)) \<and>
    stamp_observed_at (rec_stamp (en_records e ! i)) = stamp_observed_at (rec_stamp r) \<and>
    stamp_received_at (rec_stamp (en_records e ! i)) = stamp_received_at (rec_stamp r) \<and>
    (usable (rec_evidence (en_records e ! i)) \<longleftrightarrow> ev_state (rec_evidence r) = Observed \<and>
       ts_ns (stamp_observed_at (rec_stamp r)) \<le> ts_ns start \<and>
       ts_ns start - ts_ns (stamp_observed_at (rec_stamp r)) \<le> aging_horizon_ns (pol_freshness (rc_policy config)))"
proof -
  have "n + 1 < 2 ^ 32" using assms(3) by simp
  from consistent_restarted [OF run_consistent [OF assms(1,2) this] assms(2-5), of start now] assms(6)
  have m: "map record_core (en_records e) = map record_core (en_records (fst s))" by (auto simp: durable_state_def)
  then have l: "length (en_records e) = length (en_records (fst s))" by (metis length_map)
  then have "record_core (en_records e ! i) = record_core r" using m assms(7,8) by (metis nth_map)
  note c = record_core_fields [OF this]
  have f: "freshness_policy_validate (pol_freshness (rc_policy config)) = ok_status"
    using assms(2) policy_validateD(2) by (auto simp: usable_config_def has_value_def split: sum.splits)
  have "en_records e ! i \<in> set (en_records e)" using l assms(7) by simp
  from loaded_record [OF create_engine_loaded [OF assms(6)] this, unfolded c(1,3), OF assms(9-11) f] show ?thesis using l c by simp
qed

section \<open>A record whose clock ran ahead\<close>

definition ahead_record :: measurement_record where
  "ahead_record = (demo_record 2 7)\<lparr>rec_stamp := (rec_stamp (demo_record 2 7))\<lparr>stamp_observed_at := demo_time 700\<rparr>\<rparr>"

definition ahead_evidence :: evidence where
  "ahead_evidence = \<lparr>ev_state = Observed, ev_freshness = UnknownFreshness, ev_confidence = High,
     ev_reasons = [Reason ClockSelfComparable [], Reason FreshnessUnknown []], ev_truncated = False\<rparr>"

lemma ahead_evidence_eq:
  "add_reason FreshnessUnknown [] (merge (observed UnknownFreshness High)
     (add_reason ClockSelfComparable [] (default_evidence\<lparr>ev_state := Observed, ev_confidence := High\<rparr>))\<lparr>ev_freshness := UnknownFreshness\<rparr>) = ahead_evidence"
  by code_simp

lemma ahead_classified:
  "\<exists>rep g'. demo_classify ahead_record (new_gate default_runtime_policy) = (ahead_record, AcceptedHistorical, ahead_evidence, rep, g')"
proof -
  obtain path src gen where k: "cat_source demo_catalog (StrongId 2) = Inr src" "cat_generation demo_catalog (StrongId 3) = Inr gen"
    "cat_path demo_catalog (StrongId 1) = Inr path" "path_generation path = StrongId 3" "src_revision src = 2" "\<not> is_superseded demo_catalog (StrongId 3)"
    using demo_lookups by auto
  show ?thesis unfolding ahead_evidence_eq [symmetric]
    by (simp add: demo_classify_def classify_def inspect_def start_record_def ahead_record_def demo_record_def demo_time_def k Let_def
      structure_checks_def valid_id_def revision_valid_def wrap_i64_def derive_dwells_def age_phase_def estimate_age_def ts_valid_def
      fence_phase_def generation_fence_def apply_session_fence_def find_session_def open_session_def new_gate_def fence_of_def new_fence_def session_key_of_def
      evict_sessions.simps revision_fence_def sequence_fence_def new_session_def default_runtime_policy_def default_limits_def classify_age_def usable_def
      no_id_def authority_fence_def conclude_def)
qed

definition ahead_stored :: measurement_record where
  "ahead_stored = ahead_record\<lparr>rec_evidence := ahead_evidence\<rparr>"

lemma ahead_storable: "record_storable ahead_stored"
  by (simp add: ahead_stored_def ahead_record_def demo_record_def demo_time_def record_storable_def valid_id_def timestamp_storable_def in_i64_iff
    evidence_storable_def ahead_evidence_def evidence_inv_def kMaxReasons_def kReasons_def)

lemma ahead_length: "length (encode_with (write_measurement ahead_stored)) \<le> 2000"
  unfolding write_measurement_document encode_with_value by code_simp

text \<open>The record goes to a store as history, and a session that starts 200 nanoseconds after its reading loads it.\<close>

lemma ahead_loaded:
  "\<exists>d e r. create_engine demo_runtime (demo_time 900) 9 d = (Inr e, d) \<and> en_records e = [r] \<and> record_core r = record_core ahead_stored"
proof -
  let ?entry = "measurement_entry MeasurementHistorical ahead_stored" and ?p = "encode_with (write_measurement ahead_stored)"
  have f: "fresh_disk (demo_disk [])" using demo_holds [of "[]"] by (simp add: fresh_disk_def demo_disk_def layout_def)
  have p: "rc_policy demo_runtime = default_runtime_policy" "pol_limits default_runtime_policy = default_limits"
    by (simp_all add: demo_runtime_def default_runtime_policy_def)
  from create_fresh [OF f demo_usable, of 0 "demo_time 0"] obtain e d where c: "create_engine demo_runtime (demo_time 0) 0 (demo_disk []) = (Inr e, d)"
    "consistent demo_runtime 1 [] (e, d)" "\<forall>w. en_writer e = Some w \<longrightarrow> wr_total_bytes w = 0" by (auto simp: in_i64_iff)
  from c(2) obtain manifest base where m: "persists_to demo_runtime manifest base (e, d) []" "base \<le> 1" "manifest_reads manifest" "\<not> en_shut_down e"
    by (auto simp: consistent_def)
  from m(1) obtain w segs where w: "en_writer e = Some w" "en_config e = demo_runtime" "writes (w, d) segs" "\<not> wr_closed w"
    "sc_limits (wr_config w) = default_limits" "unat (wr_segment_id w) \<le> base" by (auto simp: persists_to_def p)
  have "fits w ?p" using ahead_length c(3) w(1,5) by (simp add: fits_def default_limits_def kMaxRecordPayloadBytes_def)
  with append_run [OF w(3,4), of 0 MeasurementHistorical ?p] w(5,6) m(2) obtain w1 d1 where
    "append_record 0 MeasurementHistorical ?p (w, d) = (ok_status, w1, d1)" by (auto simp: default_limits_def appended_def)
  then have s: "persist 0 MeasurementHistorical ?p False (e, d) = (ok_status, e\<lparr>en_writer := Some w1\<rparr>, d1)"
    using w(1,2) by (simp add: persist_def demo_runtime_def then_do_def)
  have sc: "storable_config demo_runtime" using demo_usable by (simp add: usable_config_def)
  from persist_run [OF m(1) sc _ s] m(2) have t: "persists_to demo_runtime manifest base (e\<lparr>en_writer := Some w1\<rparr>, d1) [?entry]"
    by (simp add: measurement_entry_def)
  obtain q s1 where q: "engine_shutdown (\<lambda>x. x) (e\<lparr>en_writer := Some w1\<rparr>, d1) = (q, s1)" by (metis surj_pair)
  from shutdown_run [OF t _ _ q, of 2] m(2,4) have cl: "closed_store manifest 2 [?entry] (snd s1)" by simp
  let ?n = "new_engine demo_runtime (demo_time 0)"
  have n: "en_policy ?n = default_runtime_policy" "en_records ?n = []" by (simp_all add: new_engine_def Let_def demo_runtime_def)
  obtain g where g: "load_records [?entry] ?n = (ok_status, g)" "durable_state g = durable_state (?n\<lparr>en_records := [ahead_stored]\<rparr>)"
    using load_measurements [of "[ahead_stored]" ?n MeasurementHistorical] ahead_storable n by (auto simp: p default_limits_def)
  have "restores demo_runtime [?entry] g" using restores_step [OF restores_new g(1) refl] by simp
  from reopen_run [OF cl m(3) demo_usable this, of "demo_time 900" 9] obtain h where
    h: "create_engine demo_runtime (demo_time 900) 9 (snd s1) = (Inr h, snd s1)" "durable_state h = durable_state g"
    by (auto simp: p default_limits_def)
  have "map record_core (en_records h) = [record_core ahead_stored]" using h(2) g(2) by (simp add: durable_state_def)
  then show ?thesis using h(1) by auto
qed

theorem restart_usability_witness:
  "(\<exists>rep g'. demo_classify ahead_record (new_gate default_runtime_policy) = (ahead_record, AcceptedHistorical, ahead_evidence, rep, g')) \<and>
   (\<exists>d e r. create_engine demo_runtime (demo_time 900) 9 d = (Inr e, d) \<and> r \<in> set (en_records e) \<and>
      record_core r = record_core (ahead_record\<lparr>rec_evidence := ahead_evidence\<rparr>) \<and> class_for current_query r = Included)"
proof -
  from ahead_loaded obtain d e r where c: "create_engine demo_runtime (demo_time 900) 9 d = (Inr e, d)" "en_records e = [r]"
    "record_core r = record_core ahead_stored" by blast
  note k = record_core_fields [OF c(3)]
  have r: "stamp_observed_at (rec_stamp r) = demo_time 700" "ev_state (rec_evidence r) = Observed" "asks_current current_query r"
    using k by (simp_all add: ahead_stored_def ahead_record_def ahead_evidence_def demo_record_def asks_current_def current_query_def
      window_contains_def demo_time_def valid_id_def no_id_def)
  have "class_for current_query r = Included"
    using restart_usability [OF c(1) _ _ _ _ r(3)] c(2) r(1,2)
    by (simp add: demo_time_def ts_valid_def valid_id_def in_i64_iff demo_runtime_def default_runtime_policy_def default_freshness_policy_def)
  moreover have "r \<in> set (en_records e)" using c(2) by simp
  ultimately show ?thesis using ahead_classified c(1) c(3) [unfolded ahead_stored_def] by blast
qed

end
