(* ===== verification/Service.thy ===== *)
theory Service
  imports Engine_Current
begin

text \<open>
  \<^verbatim>\<open>runtime/service.cpp\<close>: the request and response service. A request is a JSON object with an operation;
  names in it are resolved against the catalog and the clock registry, the engine performs the
  operation, and the answer is a document again.
\<close>

section \<open>Names in requests\<close>

definition looks_like_identity :: "string \<Rightarrow> bool" where
  "looks_like_identity t \<longleftrightarrow> length t = 16 \<and>
     list_all (\<lambda>c. (CHR ''0'' \<le> c \<and> c \<le> CHR ''9'') \<or> (CHR ''a'' \<le> c \<and> c \<le> CHR ''f'') \<or> (CHR ''A'' \<le> c \<and> c \<le> CHR ''F'')) t"

text \<open>An identity is read as such; any other text is a name that \<open>lookup\<close> finds.\<close>

definition resolve_text :: "(string \<Rightarrow> 'tag strong_id result) \<Rightarrow> string \<Rightarrow> 'tag strong_id result" where
  "resolve_text lookup t = (if looks_like_identity t then parse_hex t else lookup t)"

definition resolve_path :: "engine \<Rightarrow> json \<Rightarrow> string \<Rightarrow> path_id result" where
  "resolve_path e request field = try_bind (json_require_string request field)
     (resolve_text (\<lambda>t. try_bind (path_by_name (en_catalog e) t) (\<lambda>v. Inr (path_id v))))"

definition resolve_generation :: "engine \<Rightarrow> json \<Rightarrow> string \<Rightarrow> generation_id result" where
  "resolve_generation e request field = try_bind (json_require_string request field)
     (resolve_text (\<lambda>t. try_bind (generation_by_name (en_catalog e) t) (\<lambda>v. Inr (gen_id v))))"

definition resolve_source :: "engine \<Rightarrow> json \<Rightarrow> string \<Rightarrow> source_id result" where
  "resolve_source e request field = try_bind (json_require_string request field)
     (resolve_text (\<lambda>t. try_bind (source_by_name (en_catalog e) t) (\<lambda>v. Inr (src_id v))))"

definition resolve_hop :: "engine \<Rightarrow> string \<Rightarrow> hop_id result" where
  "resolve_hop e = resolve_text (\<lambda>t. try_bind (cat_hop (en_catalog e) (derive_from t)) (\<lambda>v. Inr (hop_id v)))"

definition resolve_queue :: "engine \<Rightarrow> string \<Rightarrow> queue_id result" where
  "resolve_queue e = resolve_text (\<lambda>t. try_bind (cat_queue (en_catalog e) (derive_from t)) (\<lambda>v. Inr (queue_id v)))"

definition resolve_link :: "engine \<Rightarrow> string \<Rightarrow> link_id result" where
  "resolve_link e = resolve_text (\<lambda>t. try_bind (cat_link (en_catalog e) (derive_from t)) (\<lambda>v. Inr (link_id v)))"

definition resolve_endpoint :: "engine \<Rightarrow> string \<Rightarrow> endpoint_id result" where
  "resolve_endpoint e = resolve_text (\<lambda>t. try_bind (cat_endpoint (en_catalog e) (derive_from t)) (\<lambda>v. Inr (ep_id v)))"

definition resolve_epoch :: "string \<Rightarrow> epoch_id" where
  "resolve_epoch t = (if looks_like_identity t then (case parse_hex t of Inr i \<Rightarrow> i | Inl _ \<Rightarrow> derive_from t) else derive_from t)"

definition resolve_incarnation :: "string \<Rightarrow> incarnation_id" where
  "resolve_incarnation t = (if looks_like_identity t then (case parse_hex t of Inr i \<Rightarrow> i | Inl _ \<Rightarrow> derive_from t) else derive_from t)"

definition resolve_clock_domain :: "engine \<Rightarrow> string \<Rightarrow> clock_domain_id result" where
  "resolve_clock_domain e = resolve_text (\<lambda>t.
     case List.find (\<lambda>d. dom_name d = t) (list_domains (en_clocks e)) of
       Some d \<Rightarrow> Inr (dom_id d) | None \<Rightarrow> fail NotFound ''unknown clock domain'' t)"

definition resolve_timestamp :: "json \<Rightarrow> string \<Rightarrow> timestamp \<Rightarrow> timestamp result" where
  "resolve_timestamp request field fallback = try_bind (json_optional_int request field) (\<lambda>v.
     case v of None \<Rightarrow> Inr fallback | Some n \<Rightarrow> Inr \<lparr>ts_ns = n, ts_domain = ts_domain fallback\<rparr>)"

definition resolve_window :: "json \<Rightarrow> timestamp \<Rightarrow> time_window result" where
  "resolve_window request now =
     try_bind (resolve_timestamp request ''from_ns'' \<lparr>ts_ns = 0, ts_domain = ts_domain now\<rparr>) (\<lambda>from.
     try_bind (resolve_timestamp request ''to_ns'' \<lparr>ts_ns = wrap_i64 (ts_ns now + 1), ts_domain = ts_domain now\<rparr>) (\<lambda>to.
     make_window from to))"

definition resolve_mode :: "json \<Rightarrow> aggregation_mode \<Rightarrow> aggregation_mode result" where
  "resolve_mode request fallback =
     (case json_find request ''mode'' of
        None \<Rightarrow> Inr fallback
      | Some v \<Rightarrow>
          if is_null v then Inr fallback
          else try_bind (as_string v) (\<lambda>t.
            if t = ''current'' then Inr CurrentMode
            else if t = ''historical'' then Inr HistoricalMode
            else fail InvalidArgument ''unknown aggregation mode'' t))"

text \<open>The two shapes of an optional member: used when it is a string, used when it is present and not null.\<close>

definition when_string :: "json \<Rightarrow> string \<Rightarrow> 'a \<Rightarrow> (string \<Rightarrow> 'a result) \<Rightarrow> 'a result" where
  "when_string request field fallback f = (case json_find request field of Some (JString t) \<Rightarrow> f t | _ \<Rightarrow> Inr fallback)"

definition when_present :: "json \<Rightarrow> string \<Rightarrow> 'a \<Rightarrow> (json \<Rightarrow> 'a result) \<Rightarrow> 'a result" where
  "when_present request field fallback f =
     (case json_find request field of None \<Rightarrow> Inr fallback | Some v \<Rightarrow> if is_null v then Inr fallback else f v)"

definition named_value :: "json \<Rightarrow> string \<Rightarrow> (string \<Rightarrow> 'e option) \<Rightarrow> string \<Rightarrow> 'e result" where
  "named_value request field parse message = try_bind (json_require_string request field) (\<lambda>t.
     case parse t of None \<Rightarrow> fail InvalidArgument message t | Some v \<Rightarrow> Inr v)"

section \<open>Requests\<close>

definition supported_operations :: "string list" where
  "supported_operations =
     [''capabilities'', ''status'', ''operations'', ''define_source'', ''define_generation'', ''define_endpoint'', ''define_link'',
      ''define_queue'', ''define_hop'', ''define_path'', ''define_clock_domain'', ''clock_sync'', ''ingest'', ''summarize'', ''history'',
      ''baseline_create'', ''baseline_list'', ''attribute'', ''explain'', ''export'', ''flush'', ''shutdown'']"

definition source_request :: "json \<Rightarrow> source_descriptor result" where
  "source_request request =
     try_bind (json_name request ''name'') (\<lambda>n.
     try_bind (named_value request ''source_kind'' parse_source_kind ''unknown source kind'') (\<lambda>k.
     try_bind (named_value request ''authority'' parse_authority_class ''unknown authority class'') (\<lambda>a.
     try_bind (named_value request ''semantics'' parse_semantics_list ''unknown semantics profile'') (\<lambda>m.
     try_bind (json_revision request ''revision'') (\<lambda>r.
     Inr \<lparr>src_id = no_id, src_name = n, src_kind = k, src_authority = a, src_semantics = m, src_revision = r,
       src_description = optional_text request ''description''\<rparr>)))))"

definition generation_request :: "engine \<Rightarrow> json \<Rightarrow> generation_def result" where
  "generation_request e request =
     try_bind (json_name request ''name'') (\<lambda>n.
     try_bind (json_revision request ''revision'') (\<lambda>r.
     try_bind (case json_optional_id_hex request ''supersedes'' of
         Some t \<Rightarrow> parse_hex t
       | None \<Rightarrow> when_string request ''supersedes_name'' no_id (\<lambda>t. try_bind (generation_by_name (en_catalog e) t) (\<lambda>v. Inr (gen_id v)))) (\<lambda>s.
     Inr \<lparr>gen_id = no_id, gen_name = n, gen_revision = r, gen_supersedes = s, gen_description = optional_text request ''description''\<rparr>)))"

definition endpoint_request :: "json \<Rightarrow> endpoint_def result" where
  "endpoint_request request =
     try_bind (json_name request ''name'') (\<lambda>n.
     try_bind (named_value request ''role'' parse_endpoint_role ''unknown endpoint role'') (\<lambda>v.
     try_bind (json_revision request ''revision'') (\<lambda>r.
     Inr \<lparr>ep_id = no_id, ep_name = n, ep_role = v, ep_revision = r\<rparr>)))"

definition link_request :: "engine \<Rightarrow> json \<Rightarrow> link_def result" where
  "link_request e request =
     try_bind (json_name request ''name'') (\<lambda>n.
     try_bind (json_require_string request ''from'') (\<lambda>from_text.
     try_bind (resolve_endpoint e from_text) (\<lambda>from.
     try_bind (json_require_string request ''to'') (\<lambda>to_text.
     try_bind (resolve_endpoint e to_text) (\<lambda>to.
     try_bind (json_revision request ''revision'') (\<lambda>r.
     Inr \<lparr>link_id = no_id, link_name = n, link_from = from, link_to = to, link_revision = r\<rparr>))))))"

definition queue_request :: "engine \<Rightarrow> json \<Rightarrow> queue_def result" where
  "queue_request e request =
     try_bind (json_name request ''name'') (\<lambda>n.
     try_bind (json_require_string request ''link'') (\<lambda>link_text.
     try_bind (resolve_link e link_text) (\<lambda>link.
     try_bind (named_value request ''semantics'' parse_semantics_list ''unknown semantics profile'') (\<lambda>m.
     try_bind (json_revision request ''revision'') (\<lambda>r.
     Inr \<lparr>queue_id = no_id, queue_name = n, queue_link = link, queue_semantics = m, queue_revision = r\<rparr>)))))"

definition hop_request :: "engine \<Rightarrow> json \<Rightarrow> hop_def result" where
  "hop_request e request =
     try_bind (json_name request ''name'') (\<lambda>n.
     try_bind (named_value request ''hop_kind'' parse_hop_kind ''unknown hop kind'') (\<lambda>k.
     try_bind (when_string request ''link'' no_id (resolve_link e)) (\<lambda>link.
     try_bind (when_string request ''queue'' no_id (resolve_queue e)) (\<lambda>q.
     try_bind (json_revision request ''revision'') (\<lambda>r.
     Inr \<lparr>hop_id = no_id, hop_name = n, hop_kind = k, hop_link = link, hop_queue = q, hop_revision = r\<rparr>)))))"

definition path_request :: "engine \<Rightarrow> json \<Rightarrow> path_def result" where
  "path_request e request =
     try_bind (json_name request ''name'') (\<lambda>n.
     try_bind (resolve_generation e request ''generation'') (\<lambda>g.
     try_bind (json_revision request ''revision'') (\<lambda>r.
     try_bind (json_require_array request ''hops'') (\<lambda>hops.
     try_bind (as_array hops) (\<lambda>entries.
     try_bind (decode_list (\<lambda>entry. try_bind (as_string entry) (resolve_hop e)) entries) (\<lambda>hs.
     Inr \<lparr>path_id = no_id, path_name = n, path_generation = g, path_revision = r, path_hops = hs\<rparr>))))))"

definition clock_domain_request :: "json \<Rightarrow> clock_domain_def result" where
  "clock_domain_request request =
     try_bind (json_name request ''name'') (\<lambda>n.
     try_bind (json_require_bool request ''is_reference'') (\<lambda>b.
     Inr \<lparr>dom_id = no_id, dom_name = n, dom_is_reference = b, dom_description = optional_text request ''description''\<rparr>))"

definition require_domain :: "engine \<Rightarrow> json \<Rightarrow> string \<Rightarrow> clock_domain_id result" where
  "require_domain e request field = try_bind (json_require_string request field) (resolve_clock_domain e)"

definition clock_sync_request :: "engine \<Rightarrow> json \<Rightarrow> clock_sync result" where
  "clock_sync_request e request =
     try_bind (require_domain e request ''domain'') (\<lambda>domain.
     try_bind (require_domain e request ''reference'') (\<lambda>reference.
     try_bind (named_value request ''state'' parse_clock_sync_state ''unknown clock sync state'') (\<lambda>state.
     try_bind (json_require_int request ''offset_ns'') (\<lambda>offset.
     try_bind (when_present request ''skew_ppb'' 0 as_int64) (\<lambda>skew.
     try_bind (json_require_int request ''uncertainty_ns'') (\<lambda>uncertainty.
     try_bind (json_require_int request ''valid_for_ns'') (\<lambda>valid_for.
     try_bind (json_require_int request ''observed_at_ns'') (\<lambda>observed_at.
     try_bind (require_domain e request ''observed_at_domain'') (\<lambda>observed_domain.
     try_bind (json_revision request ''revision'') (\<lambda>r.
     try_bind (when_string request ''reported_by'' no_id (\<lambda>_. resolve_source e request ''reported_by'')) (\<lambda>source.
     try_bind (when_string request ''generation'' no_id (\<lambda>_. resolve_generation e request ''generation'')) (\<lambda>g.
     try_bind (when_string request ''epoch'' no_id (\<lambda>t. Inr (resolve_epoch t))) (\<lambda>epoch.
     try_bind (when_string request ''incarnation'' no_id (\<lambda>t. Inr (resolve_incarnation t))) (\<lambda>incarnation.
     Inr \<lparr>sync_domain = domain, sync_reference = reference, sync_state = state, sync_offset_ns = offset, sync_skew_ppb = skew,
       sync_uncertainty_ns = uncertainty, sync_valid_for_ns = valid_for,
       sync_observed_at = \<lparr>ts_ns = observed_at, ts_domain = observed_domain\<rparr>, sync_reported_by = source, sync_generation = g,
       sync_epoch = epoch, sync_incarnation = incarnation, sync_revision = r\<rparr>))))))))))))))"

definition required_reading :: "engine \<Rightarrow> json \<Rightarrow> string \<Rightarrow> string \<Rightarrow> timestamp result" where
  "required_reading e entry ns_field domain_field =
     try_bind (json_require_int entry ns_field) (\<lambda>n.
     try_bind (require_domain e entry domain_field) (\<lambda>domain.
     Inr \<lparr>ts_ns = n, ts_domain = domain\<rparr>))"

definition optional_reading :: "json \<Rightarrow> string \<Rightarrow> clock_domain_id \<Rightarrow> timestamp result" where
  "optional_reading entry field domain = when_present entry field unset_timestamp (\<lambda>v.
     try_bind (as_int64 v) (\<lambda>n. Inr \<lparr>ts_ns = n, ts_domain = domain\<rparr>))"

definition hop_observation_request :: "engine \<Rightarrow> json \<Rightarrow> hop_observation result" where
  "hop_observation_request e entry =
     try_bind (json_require_uint entry ''index'') (\<lambda>index_value.
     if index_value > 0xFFFFFFFF then fail OutOfRange ''hop index is outside the supported range'' []
     else
     try_bind (hop_index_from_value (ucast index_value)) (\<lambda>index.
     try_bind (json_require_string entry ''hop'') (\<lambda>hop_text.
     try_bind (resolve_hop e hop_text) (\<lambda>hop.
     try_bind (when_string entry ''link'' no_id (resolve_link e)) (\<lambda>link.
     try_bind (when_string entry ''queue'' no_id (resolve_queue e)) (\<lambda>queue.
     try_bind (required_reading e entry ''entry_ns'' ''entry_domain'') (\<lambda>entered.
     try_bind (required_reading e entry ''exit_ns'' ''exit_domain'') (\<lambda>left.
     try_bind (optional_reading entry ''queue_entry_ns'' (ts_domain entered)) (\<lambda>queue_entry.
     try_bind (optional_reading entry ''queue_exit_ns'' (ts_domain left)) (\<lambda>queue_exit.
     Inr \<lparr>ho_index = index, ho_hop = hop, ho_link = link, ho_queue = queue, ho_entry_domain = ts_domain entered,
       ho_exit_domain = ts_domain left, ho_entry = entered, ho_exit = left, ho_queue_entry = queue_entry, ho_queue_exit = queue_exit,
       ho_dwell_ns = None, ho_queue_dwell_ns = None, ho_dwell_uncertainty_ns = None, ho_queue_dwell_uncertainty_ns = None,
       ho_evidence = default_evidence\<rparr>))))))))))"

definition measurement_request :: "engine \<Rightarrow> timestamp \<Rightarrow> json \<Rightarrow> measurement_record result" where
  "measurement_request e received_at entry =
     try_bind (resolve_path e entry ''path'') (\<lambda>path.
     try_bind (resolve_generation e entry ''generation'') (\<lambda>g.
     try_bind (resolve_source e entry ''source'') (\<lambda>source.
     try_bind (json_require_string entry ''epoch'') (\<lambda>epoch_text.
     try_bind (json_require_string entry ''incarnation'') (\<lambda>incarnation_text.
     try_bind (json_revision entry ''source_revision'') (\<lambda>r.
     try_bind (json_require_uint entry ''sequence'') (\<lambda>sequence.
     try_bind (require_domain e entry ''domain'') (\<lambda>domain.
     try_bind (json_require_int entry ''request_ns'') (\<lambda>request_ns.
     try_bind (json_require_int entry ''response_ns'') (\<lambda>response_ns.
     try_bind (when_present entry ''rtt_ns'' (wrap_i64 (response_ns - request_ns)) as_int64) (\<lambda>rtt_ns.
     try_bind (required_reading e entry ''observed_at_ns'' ''observed_at_domain'') (\<lambda>observed_at.
     try_bind (json_optional_int entry ''synthetic'') (\<lambda>synthetic.
     try_bind (case json_find entry ''hops'' of
         None \<Rightarrow> Inr []
       | Some hops \<Rightarrow> try_bind (as_array hops) (decode_list (hop_observation_request e))) (\<lambda>hops.
     Inr \<lparr>rec_id = no_id, rec_path = path, rec_generation = g, rec_source = source, rec_epoch = resolve_epoch epoch_text,
       rec_incarnation = resolve_incarnation incarnation_text, rec_source_revision = r, rec_sequence = sequence, rec_domain = domain,
       rec_request = \<lparr>ts_ns = request_ns, ts_domain = domain\<rparr>, rec_response = \<lparr>ts_ns = response_ns, ts_domain = domain\<rparr>,
       rec_rtt_ns = rtt_ns, rec_hops = hops,
       rec_stamp = \<lparr>stamp_observed_at = observed_at, stamp_received_at = received_at, stamp_received_mono = \<lparr>mono_ns = 0\<rparr>\<rparr>,
       rec_evidence = default_evidence, rec_synthetic = (case synthetic of None \<Rightarrow> False | Some n \<Rightarrow> n \<noteq> 0)\<rparr>))))))))))))))"

definition batch_request :: "engine \<Rightarrow> limits \<Rightarrow> timestamp \<Rightarrow> json \<Rightarrow> ingest_request result" where
  "batch_request e l now request =
     try_bind (resolve_timestamp request ''received_at_ns'' now) (\<lambda>received_at.
     try_bind (json_require_array request ''records'') (\<lambda>records.
     try_bind (as_array records) (\<lambda>entries.
     if length entries > max_batch_samples l
     then fail CapacityExceeded ''the ingest batch exceeds the configured limit'' (show_nat (length entries))
     else
     try_bind (decode_list (measurement_request e received_at) entries) (\<lambda>rs.
     Inr \<lparr>req_records = rs, req_received_at = received_at, req_received_mono = \<lparr>mono_ns = 0\<rparr>\<rparr>))))"

text \<open>Path, generation, mode and window, which five operations read alike.\<close>

definition scope_request :: "engine \<Rightarrow> timestamp \<Rightarrow> aggregation_mode \<Rightarrow> json \<Rightarrow> summary_request result" where
  "scope_request e now fallback request =
     try_bind (resolve_path e request ''path'') (\<lambda>path.
     try_bind (resolve_generation e request ''generation'') (\<lambda>g.
     try_bind (resolve_mode request fallback) (\<lambda>m.
     try_bind (resolve_window request now) (\<lambda>window.
     Inr \<lparr>sq_path = path, sq_generation = g, sq_mode = m, sq_window = window, sq_histogram = latency_default,
       sq_probes = the default_quantile_probes, sq_restrict_to_source = no_id\<rparr>))))"

definition history_query :: "engine \<Rightarrow> timestamp \<Rightarrow> json \<Rightarrow> history_request result" where
  "history_query e now request =
     try_bind (scope_request e now HistoricalMode request) (\<lambda>q.
     try_bind (json_require_int request ''bucket_ns'') (\<lambda>bucket.
     try_bind (when_string request ''source'' no_id (\<lambda>_. resolve_source e request ''source'')) (\<lambda>source.
     Inr \<lparr>hq_path = sq_path q, hq_generation = sq_generation q, hq_mode = sq_mode q, hq_window = sq_window q, hq_bucket_ns = bucket,
       hq_histogram = sq_histogram q, hq_probes = sq_probes q, hq_restrict_to_source = source\<rparr>)))"

definition baseline_query :: "engine \<Rightarrow> timestamp \<Rightarrow> json \<Rightarrow> baseline_request result" where
  "baseline_query e now request =
     try_bind (json_name request ''name'') (\<lambda>n.
     try_bind (scope_request e now CurrentMode request) (\<lambda>q.
     try_bind (when_string request ''source'' no_id (\<lambda>_. resolve_source e request ''source'')) (\<lambda>source.
     Inr \<lparr>bq_name = n, bq_path = sq_path q, bq_generation = sq_generation q, bq_mode = sq_mode q, bq_window = sq_window q,
       bq_histogram = sq_histogram q, bq_probes = sq_probes q, bq_source = source\<rparr>)))"

definition attribution_query :: "engine \<Rightarrow> timestamp \<Rightarrow> json \<Rightarrow> attribution_request result" where
  "attribution_query e now request =
     try_bind (scope_request e now CurrentMode request) (\<lambda>q.
     try_bind (when_string request ''baseline'' no_id parse_hex) (\<lambda>b.
     Inr \<lparr>aq_path = sq_path q, aq_generation = sq_generation q, aq_mode = sq_mode q, aq_window = sq_window q,
       aq_histogram = sq_histogram q, aq_probes = sq_probes q, aq_baseline = b\<rparr>))"

definition export_query :: "engine \<Rightarrow> timestamp \<Rightarrow> json \<Rightarrow> export_request result" where
  "export_query e now request =
     try_bind (named_value request ''kind'' parse_export_kind ''unknown export kind'') (\<lambda>k.
     try_bind (named_value request ''format'' parse_export_format ''unknown export format'') (\<lambda>f.
     try_bind (when_string request ''path'' no_id (\<lambda>_. resolve_path e request ''path'')) (\<lambda>path.
     try_bind (when_string request ''generation'' no_id (\<lambda>_. resolve_generation e request ''generation'')) (\<lambda>g.
     try_bind (optional_reading request ''from_ns'' (ts_domain now)) (\<lambda>from.
     try_bind (optional_reading request ''to_ns'' (ts_domain now)) (\<lambda>to.
     try_bind (when_present request ''limit'' 1000 (\<lambda>v. try_bind (as_uint64 v) (\<lambda>n. Inr (unat n)))) (\<lambda>limit.
     try_bind (when_present request ''pretty'' False as_bool) (\<lambda>pretty.
     Inr \<lparr>xq_kind = k, xq_format = f, xq_path = path, xq_generation = g, xq_from = from, xq_to = to, xq_limit = limit,
       xq_pretty = pretty\<rparr>))))))))"

section \<open>Answers\<close>

definition write_operations :: writer_op where
  "write_operations = wrun
     [begin_object, field_array ''operations'', wrun (map value_string supported_operations), end_array, end_object]"

definition describe_operations :: string where
  "describe_operations = written_as True write_operations"

definition write_named :: "string \<Rightarrow> 'tag strong_id \<Rightarrow> name \<Rightarrow> writer_op" where
  "write_named field i n = wrun [begin_object, field_string field (id_to_hex i), field_string ''name'' n, end_object]"

definition write_identity :: "string \<Rightarrow> 'tag strong_id \<Rightarrow> writer_op" where
  "write_identity field i = wrun [begin_object, field_string field (id_to_hex i), end_object]"

definition write_flag :: "string \<Rightarrow> writer_op" where
  "write_flag field = wrun [begin_object, field_bool field True, end_object]"

definition write_status :: "engine_stats \<Rightarrow> engine \<Rightarrow> writer_op" where
  "write_status stats e =
     (let report = en_recovery e
      in wrun
     [begin_object,
      json_key ''stats'', write_stats stats,
      field_object ''recovery'',
      field_uint ''segments_scanned'' (rr_segments_scanned report),
      field_uint ''segments_accepted'' (rr_segments_accepted report),
      field_uint ''segments_rejected'' (rr_segments_rejected report),
      field_uint ''records_read'' (rr_records_read report),
      field_uint ''records_discarded'' (rr_records_discarded report),
      field_bool ''truncated'' (rr_truncated report),
      field_string ''detail'' (rr_detail report),
      end_object,
      field_string ''policy_digest'' (policy_digest (en_policy e)),
      field_bool ''shut_down'' (en_shut_down e),
      end_object])"

definition write_sync_answer :: "clock_sync \<Rightarrow> writer_op" where
  "write_sync_answer v = wrun
     [begin_object, field_string ''clock_domain'' (id_to_hex (sync_domain v)),
      field_string ''state'' (sync_state_to_string (sync_state v)), end_object]"

definition write_baselines :: "baseline list \<Rightarrow> writer_op" where
  "write_baselines bs = wrun [begin_object, field_array ''baselines'', wrun (map write_baseline bs), end_array, end_object]"

definition write_export_answer :: "export_result \<Rightarrow> writer_op" where
  "write_export_answer x = wrun
     [begin_object,
      field_uint ''records_exported'' (xr_records_exported x),
      field_uint ''records_skipped'' (xr_records_skipped x),
      field_bool ''truncated'' (xr_truncated x),
      field_string ''content_digest'' (xr_content_digest x),
      field_array ''notes'', wrun (map value_string (xr_notes x)), end_array,
      field_string ''content'' (xr_text x),
      end_object]"

definition explanation_answer :: "json \<Rightarrow> explanation \<Rightarrow> writer_op result" where
  "explanation_answer request x = when_string request ''format'' (write_explanation x) (\<lambda>f.
     if f = ''text'' then Inr (value_string (render_text x))
     else if f \<noteq> ''json'' then fail InvalidArgument ''unknown explanation format'' f
     else Inr (write_explanation x))"

section \<open>The service\<close>

text \<open>
  The readings of the clock a request makes: the one of \<^verbatim>\<open>dispatch\<close>, those of the appends, and the one
  inside the call of the engine; and what the build knows of itself.
\<close>

record readings =
  rx_now :: timestamp
  rx_append :: "nat \<Rightarrow> nanos"
  rx_inner :: timestamp

record build_info =
  bi_type :: string
  bi_compiler :: string
  bi_sanitizers :: bool

record service =
  sv_engine :: engine
  sv_limits :: limits
  sv_max_request_bytes :: nat
  sv_build :: build_info

definition create_service :: "build_info \<Rightarrow> runtime_config \<Rightarrow> timestamp \<Rightarrow> nanos \<Rightarrow> disk \<Rightarrow> service result \<times> disk" where
  "create_service build config start now d =
     (case policy_validate (rc_policy config) of
        Inl err \<Rightarrow> (Inl err, d)
      | Inr _ \<Rightarrow>
          let l = pol_limits (rc_policy config)
          in case create_engine config start now d of
               (Inl err, d) \<Rightarrow> (Inl err, d)
             | (Inr e, d) \<Rightarrow> (Inr \<lparr>sv_engine = e, sv_limits = l, sv_max_request_bytes = max_json_bytes l, sv_build = build\<rparr>, d))"

definition respond :: "('a \<Rightarrow> writer_op) \<Rightarrow> 'a result \<times> world \<Rightarrow> string result \<times> world" where
  "respond f x = (case x of (Inl err, s) \<Rightarrow> (Inl err, s) | (Inr v, s) \<Rightarrow> (Inr (encode_with (f v)), s))"

definition ask :: "'q result \<Rightarrow> ('q \<Rightarrow> world \<Rightarrow> string result \<times> world) \<Rightarrow> world \<Rightarrow> string result \<times> world" where
  "ask q f s = (case q of Inl err \<Rightarrow> (Inl err, s) | Inr v \<Rightarrow> f v s)"

definition on_engine :: "(engine \<Rightarrow> 'a result \<times> engine) \<Rightarrow> world \<Rightarrow> 'a result \<times> world" where
  "on_engine f s = (case f (fst s) of (r, e) \<Rightarrow> (r, e, snd s))"

definition explain_operation :: "readings \<Rightarrow> json \<Rightarrow> world \<Rightarrow> string result \<times> world" where
  "explain_operation rx request s =
     ask (scope_request (fst s) (rx_now rx) CurrentMode request) (\<lambda>q s.
       case on_engine (engine_explain q) s of
         (Inl err, s) \<Rightarrow> (Inl err, s)
       | (Inr x, s) \<Rightarrow> respond (\<lambda>f. f) (explanation_answer request x, s)) s"

definition perform :: "build_info \<Rightarrow> readings \<Rightarrow> limits \<Rightarrow> string \<Rightarrow> json \<Rightarrow> world \<Rightarrow> string result \<times> world" where
  "perform build rx l op request s =
     (let e = fst s; now = rx_now rx; wall = rx_append rx 0
      in if op = ''capabilities''
         then respond write_capabilities (Inr (engine_capabilities (bi_type build) (bi_compiler build) (bi_sanitizers build) e), s)
         else if op = ''operations'' then respond (\<lambda>_. write_operations) (ok_status, s)
         else if op = ''status'' then respond (write_status (stats_now (rx_inner rx) e)) (Inr e, s)
         else if op = ''define_source''
         then ask (source_request request) (\<lambda>v s. respond (\<lambda>i. write_named ''source'' i (src_name v)) (engine_define_source wall v s)) s
         else if op = ''define_generation''
         then ask (generation_request e request)
                (\<lambda>v s. respond (\<lambda>i. write_named ''generation'' i (gen_name v)) (engine_define_generation wall v s)) s
         else if op = ''define_endpoint''
         then ask (endpoint_request request) (\<lambda>v s. respond (write_identity ''endpoint'') (engine_define_endpoint wall v s)) s
         else if op = ''define_link''
         then ask (link_request e request) (\<lambda>v s. respond (write_identity ''link'') (engine_define_link wall v s)) s
         else if op = ''define_queue''
         then ask (queue_request e request) (\<lambda>v s. respond (write_identity ''queue'') (engine_define_queue wall v s)) s
         else if op = ''define_hop''
         then ask (hop_request e request) (\<lambda>v s. respond (write_identity ''hop'') (engine_define_hop wall v s)) s
         else if op = ''define_path''
         then ask (path_request e request) (\<lambda>v s. respond (write_identity ''path'') (engine_define_path wall v s)) s
         else if op = ''define_clock_domain''
         then ask (clock_domain_request request)
                (\<lambda>v s. respond (write_identity ''clock_domain'') (engine_define_clock_domain wall v s)) s
         else if op = ''clock_sync''
         then ask (clock_sync_request e request) (\<lambda>v s. respond (\<lambda>_. write_sync_answer v) (engine_record_clock_sync wall v s)) s
         else if op = ''ingest''
         then ask (batch_request e l now request) (\<lambda>v s. respond write_report (engine_ingest (rx_append rx) v s)) s
         else if op = ''summarize''
         then ask (scope_request e now CurrentMode request)
                (\<lambda>q s. respond write_path_summary (on_engine (engine_summarize q) s)) s
         else if op = ''explain'' then explain_operation rx request s
         else if op = ''history''
         then ask (history_query e now request) (\<lambda>q s. respond write_history (on_engine (engine_history q) s)) s
         else if op = ''baseline_create''
         then ask (baseline_query e now request)
                (\<lambda>q s. respond (\<lambda>i. write_named ''baseline'' i (bq_name q)) (create_baseline wall (rx_inner rx) q s)) s
         else if op = ''baseline_list'' then respond write_baselines (engine_list_baselines e, s)
         else if op = ''attribute''
         then ask (attribution_query e now request) (\<lambda>q s. respond write_attribution (on_engine (engine_attribute q) s)) s
         else if op = ''export''
         then ask (export_query e now request) (\<lambda>q s. respond write_export_answer (on_engine (export_data (rx_inner rx) q) s)) s
         else if op = ''flush'' then respond (\<lambda>_. write_flag ''flushed'') (engine_flush s)
         else if op = ''shutdown'' then respond (\<lambda>_. write_flag ''shutting_down'') (ok_status, s)
         else (fail error_code.Unsupported ''unknown operation'' op, s))"

text \<open>\<^verbatim>\<open>dispatch\<close>; the operation named so far comes first.\<close>

definition dispatch :: "build_info \<Rightarrow> readings \<Rightarrow> limits \<Rightarrow> json \<Rightarrow> world \<Rightarrow> string \<times> string result \<times> world" where
  "dispatch build rx l request s =
     (if \<not> is_object request then (''unknown'', fail ParseError ''a request must be a JSON object'' [], s)
      else case json_require_string request ''op'' of
             Inl err \<Rightarrow> (''unknown'', Inl err, s)
           | Inr op \<Rightarrow> (op, perform build rx l op request s))"

definition write_failure :: "string \<Rightarrow> error \<Rightarrow> writer_op" where
  "write_failure op err = wrun
     [begin_object, field_bool ''ok'' False, field_string ''op'' op,
      field_object ''error'',
      field_string ''code'' (error_code_to_string (err_code err)),
      field_string ''message'' (err_message err),
      field_string ''context'' (err_context err),
      end_object,
      end_object]"

definition write_success :: "string \<Rightarrow> string \<Rightarrow> string \<Rightarrow> writer_op" where
  "write_success op digest outcome = wrun
     [begin_object, field_bool ''ok'' True, field_string ''op'' op, field_string ''policy_digest'' digest,
      json_key ''result'', raw_value outcome,
      end_object]"

definition execute_request :: "readings \<Rightarrow> json \<Rightarrow> service \<times> disk \<Rightarrow> string \<times> service \<times> disk" where
  "execute_request rx request st =
     (let (v, d) = st
      in case dispatch (sv_build v) rx (sv_limits v) request (sv_engine v, d) of
           (op, outcome, e, d) \<Rightarrow>
             (encode_with (case outcome of
                 Inr t \<Rightarrow> write_success op (policy_digest (en_policy e)) t
               | Inl err \<Rightarrow> write_failure op err), v\<lparr>sv_engine := e\<rparr>, d))"

definition execute :: "readings \<Rightarrow> string \<Rightarrow> service \<times> disk \<Rightarrow> string \<times> service \<times> disk" where
  "execute rx request_text st =
     (let v = fst st
      in if length request_text > sv_max_request_bytes v
         then (encode_with (write_failure ''unknown''
                 (Error OutOfRange ''the request exceeds the configured maximum size'' (show_nat (length request_text)))), st)
         else case parse_payload request_text (sv_limits v) of
                Inl err \<Rightarrow> (encode_with (write_failure ''unknown'' err), st)
              | Inr request \<Rightarrow> execute_request rx request st)"

definition service_shutdown :: "(pool option \<Rightarrow> pool option) \<Rightarrow> service \<times> disk \<Rightarrow> status \<times> service \<times> disk" where
  "service_shutdown stop st =
     (case engine_shutdown stop (sv_engine (fst st), snd st) of (r, e, d) \<Rightarrow> (r, (fst st)\<lparr>sv_engine := e\<rparr>, d))"

section \<open>Every answer is a document\<close>

definition emits :: "writer_op \<Rightarrow> bool" where
  "emits f \<longleftrightarrow> (\<exists>v. f = write_value v)"

lemma emits_value [simp]: "emits (write_value v)"
  by (auto simp: emits_def)

lemma emits_choice: "(\<And>x. emits (f x)) \<Longrightarrow> \<exists>g. f = (\<lambda>x. write_value (g x))"
  unfolding emits_def by (metis ext)

text \<open>A loop over parts that are documents writes the items of an array.\<close>

lemma emits_items: "(\<And>x. emits (f x)) \<Longrightarrow> \<exists>vs. wrun (map f xs) = write_items vs"
  using emits_choice [of f] wrun_values by metis

lemma emits_leaves:
  "emits (write_verdict v)" "emits (write_reason_count c)" "emits (write_provenance p)" "emits (write_capability k)"
  "emits (write_contribution h)" "emits (write_stats st)" "emits (write_history_bucket b)" "emits (write_anomaly a)" "emits (write_mismatch m)"
  "emits (write_baseline bl)" "emits (write_reason r)"
  by (simp_all add: write_verdict_def write_reason_count_def write_provenance_def write_capability_def write_contribution_def write_stats_def
      write_history_bucket_def write_anomaly_def write_mismatch_def write_baseline_document document_simps)

lemma value_string_items: "wrun (map value_string xs) = write_items (map JString xs)"
  using wrun_values [of JString xs] by (simp add: scalars_as_values [abs_def])

lemma emits_small:
  "emits (write_named field i n)" "emits (write_identity field j)" "emits (write_flag field)" "emits write_operations" "emits (write_sync_answer v)"
  "emits (write_status st e)" "emits (write_export_answer x)" "emits (value_string t)"
  using emits_leaves(6) [of st] unfolding emits_def [of "write_stats st"]
  by (auto simp: write_named_def write_identity_def write_flag_def write_operations_def write_sync_answer_def write_status_def
      write_export_answer_def Let_def value_string_items document_simps)

lemma emits_lists:
  "emits (write_baselines bs)" "emits (write_capabilities c)" "emits (write_history h)" "emits (write_path_summary s)" "emits (write_report rep)"
  "emits (write_explanation x)"
proof -
  obtain v1 where "wrun (map write_baseline bs) = write_items v1" using emits_items emits_leaves(10) by blast
  then show "emits (write_baselines bs)" by (simp add: write_baselines_def document_simps)
  obtain v2 where "wrun (map write_capability (cs_entries c)) = write_items v2" using emits_items emits_leaves(4) by blast
  then show "emits (write_capabilities c)" by (simp add: write_capabilities_def document_simps)
  obtain v3 where "wrun (map write_history_bucket (hr_buckets h)) = write_items v3" using emits_items emits_leaves(7) by blast
  then show "emits (write_history h)" by (simp add: write_history_def document_simps)
  show "emits (write_path_summary s)" by (simp add: write_path_summary_def document_simps)
  obtain v5 where "wrun (map write_verdict (rep_verdicts rep)) = write_items v5" using emits_items emits_leaves(1) by blast
  moreover obtain v6 where "wrun (map write_reason_count (rep_reason_counts rep)) = write_items v6" using emits_items emits_leaves(2) by blast
  ultimately show "emits (write_report rep)" by (simp add: write_report_def document_simps)
  obtain v7 where "wrun (map write_provenance (ex_provenance x)) = write_items v7" using emits_items emits_leaves(3) by blast
  then show "emits (write_explanation x)" by (simp add: write_explanation_def value_string_items document_simps)
qed

lemma emits_comparison: "emits (write_comparison c)"
proof -
  obtain v1 where "wrun (map write_mismatch (bc_mismatches c)) = write_items v1" using emits_items emits_leaves(9) by blast
  moreover obtain v2 where "wrun (map write_anomaly (bc_anomalies c)) = write_items v2" using emits_items emits_leaves(8) by blast
  ultimately show ?thesis by (simp add: write_comparison_def document_simps)
qed

lemma emits_attribution: "emits (write_attribution r)"
proof -
  obtain v1 where "wrun (map write_contribution (ar_contributions r)) = write_items v1" using emits_items emits_leaves(5) by blast
  moreover have "\<exists>v. (case ar_comparison r of Some c \<Rightarrow> wrun [json_key ''baseline_comparison'', write_comparison c]
      | None \<Rightarrow> field_null ''baseline_comparison'') = write_members [(''baseline_comparison'', v)]"
  proof (cases "ar_comparison r")
    case (Some c)
    obtain v where "write_comparison c = write_value v" using emits_comparison [of c] by (auto simp: emits_def)
    then show ?thesis using Some by (auto simp: document_simps)
  qed (auto simp: document_simps)
  ultimately show ?thesis by (auto simp: write_attribution_def document_simps)
qed

lemma encode_emitted: "emits f \<Longrightarrow> \<exists>v. encode_with f = render False 0 v"
  by (auto simp: emits_def encode_with_value)

section \<open>What an answer looks like\<close>

lemma render_compact:
  "\<not> p \<Longrightarrow> render p m v = render p n v" "\<not> p \<Longrightarrow> render_items p m first xs = render_items p n first xs"
  "\<not> p \<Longrightarrow> render_members p m first ms = render_members p n first ms"
proof (induction p m v and p m first xs and p m first ms arbitrary: n and n and n rule: render_render_items_render_members.induct)
  case (5 p m xs)
  then show ?case by (auto simp: line_break_def)
next
  case (6 p m ms)
  then show ?case by (auto simp: line_break_def)
next
  case (8 p m first x xs)
  then have "render p m x = render p n x" "render_items p m False xs = render_items p n False xs" by blast+
  then show ?case using 8(3) by (simp add: line_break_def)
next
  case (10 p m first k v ms)
  then have "render p m v = render p n v" "render_members p m False ms = render_members p n False ms" by blast+
  then show ?case using 10(3) by (simp add: line_break_def)
qed simp_all

lemma newline_not_escaped: "CHR 0x0A \<notin> set (escape t)"
proof -
  have "CHR 0x0A \<notin> set Core_Json.kDigits" by (simp add: Core_Json.kDigits_def)
  then have k: "CHR 0x0A \<noteq> Core_Json.kDigits ! i" if "i < 16" for i
    using that nth_mem [of i Core_Json.kDigits] by (auto simp: Core_Json.kDigits_def)
  have "CHR 0x0A \<notin> set (escape_char c)" for c
    by (auto simp: escape_char_def k)
  then show ?thesis by (simp add: escape_def)
qed

lemma render_one_line:
  "\<not> p \<Longrightarrow> CHR 0x0A \<notin> set (render p m v)" "\<not> p \<Longrightarrow> CHR 0x0A \<notin> set (render_items p m first xs)"
  "\<not> p \<Longrightarrow> CHR 0x0A \<notin> set (render_members p m first ms)"
  by (induction p m v and p m first xs and p m first ms rule: render_render_items_render_members.induct)
    (simp_all add: line_break_def separator_def render_key_def newline_not_escaped newline_not_digit)

lemma raw_value_render:
  assumes "\<not> jw_pretty w"
  shows "raw_value (render False 0 v) w = write_value v w"
proof -
  have "render False 0 v \<noteq> []" by (cases v) (auto simp: escape_def show_int_def show_nat.simps)
  then show ?thesis
    using assms render_compact(1) [of False "length (jw_stack_is_object w)" v 0] by (simp add: raw_value_def scalar_def write_value_render(1))
qed

definition success_document :: "string \<Rightarrow> string \<Rightarrow> json \<Rightarrow> json" where
  "success_document op digest v =
     JObject [(''ok'', JBool True), (''op'', JString op), (''policy_digest'', JString digest), (''result'', v)]"

definition failure_document :: "string \<Rightarrow> error \<Rightarrow> json" where
  "failure_document op err = JObject [(''ok'', JBool False), (''op'', JString op),
     (''error'', JObject [(''code'', JString (error_code_to_string (err_code err))), (''message'', JString (err_message err)),
        (''context'', JString (err_context err))])]"

lemma write_failure_document: "write_failure op err = write_value (failure_document op err)"
  by (simp add: write_failure_def failure_document_def document_simps)

lemma write_success_text: "encode_with (write_success op digest (render False 0 v)) = render False 0 (success_document op digest v)"
proof -
  define ms where "ms = [(''ok'', JBool True), (''op'', JString op), (''policy_digest'', JString digest)]"
  define w1 where "w1 = begin_container True ''{'' (new_writer [] False)"
  have b: "begin_object (new_writer [] False) = Some w1" by (simp add: begin_object_def w1_def)
  have w: "jw_stack_is_object w1 = [True]" "jw_stack_first w1 = [True]" "\<not> jw_value_pending w1" "\<not> jw_pretty w1"
    by (simp_all add: w1_def begin_container_def new_writer_def before_value_def emit_def)
  obtain w2 where m: "write_members ms w1 = Some w2" and w2: "jw_stack_is_object w2 = [True]" "jw_stack_first w2 = [False]" "\<not> jw_value_pending w2" "\<not> jw_pretty w2"
    using write_value_render(3) [OF w(1,2,3), of ms] w by (simp add: emit_def ms_def)
  obtain w3 where k: "json_key ''result'' w2 = Some w3" and w3: "\<not> jw_pretty w3"
    using w2 by (simp add: json_key_def write_indent_def emit_def)
  have "write_success op digest t = wseq begin_object (wseq (write_members ms) (wseq (json_key ''result'') (wseq (raw_value t) end_object)))" for t
    by (simp add: write_success_def ms_def document_simps)
  then have "write_success op digest (render False 0 v) (new_writer [] False) =
      wseq begin_object (wseq (write_members ms) (wseq (json_key ''result'') (wseq (write_value v) end_object))) (new_writer [] False)"
    by (simp add: wseq_def b m k raw_value_render [OF w3])
  also have "wseq begin_object (wseq (write_members ms) (wseq (json_key ''result'') (wseq (write_value v) end_object))) = write_value (success_document op digest v)"
    by (simp add: success_document_def ms_def document_simps)
  finally show ?thesis using encode_with_value [of "success_document op digest v"] by (simp add: encode_with_def written_def)
qed

lemma respond_text: "respond f x = (Inr t, s) \<Longrightarrow> (\<And>v. emits (f v)) \<Longrightarrow> \<exists>v. t = render False 0 v"
  using encode_emitted by (fastforce simp: respond_def split: prod.splits sum.splits)

lemma ask_respond_text:
  "ask q (\<lambda>v s. respond (f v) (h v s)) s = (Inr t, s') \<Longrightarrow> (\<And>v i. emits (f v i)) \<Longrightarrow> \<exists>v. t = render False 0 v"
  by (cases q) (auto simp: ask_def dest: respond_text)

lemma explain_text:
  assumes "explain_operation rx request s = (Inr t, s')"
  shows "\<exists>v. t = render False 0 v"
proof -
  have "emits f" if "explanation_answer request x = Inr f" for x f
    using that emits_lists(6) emits_small(8)
    by (auto simp: explanation_answer_def when_string_def fail_def split: option.splits json.splits if_splits)
  then show ?thesis using assms encode_emitted
    by (fastforce simp: explain_operation_def ask_def respond_def split: prod.splits sum.splits)
qed

lemmas answer_documents = emits_leaves emits_small emits_lists emits_attribution

lemma perform_text:
  assumes "perform build rx l op request s = (Inr t, s')"
  shows "\<exists>v. t = render False 0 v"
  using assms unfolding perform_def Let_def
  by (auto split: if_splits elim!: respond_text ask_respond_text explain_text simp: answer_documents fail_def)

text \<open>
  An answer: one line that is the compact text of a document of one of the two forms, and read back
  as that document, a refusal always and a success whenever its numbers fit a signed 64 bit integer.
\<close>

definition answered :: "string \<Rightarrow> string \<Rightarrow> bool" where
  "answered digest t \<longleftrightarrow> (\<exists>doc. t = render False 0 doc \<and> CHR 0x0A \<notin> set t \<and>
     ((\<exists>op v. doc = success_document op digest v) \<or> (\<exists>op err. doc = failure_document op err \<and> parse_json t 2 = Some (Inr doc))) \<and>
     (\<forall>d. json_ok d doc \<longrightarrow> parse_json t d = Some (Inr doc)))"

lemma answered_failure: "answered digest (encode_with (write_failure op err))"
proof -
  have "json_ok 2 (failure_document op err)" by (simp add: failure_document_def)
  moreover have "encode_with (write_failure op err) = render False 0 (failure_document op err)" by (simp add: write_failure_document encode_with_value)
  ultimately show ?thesis unfolding answered_def
    using parse_render [of _ "failure_document op err" False] render_one_line(1) [of False 0 "failure_document op err"] by auto
qed

lemma answered_success: "answered digest (encode_with (write_success op digest (render False 0 v)))"
  unfolding answered_def write_success_text
  by (intro exI [of _ "success_document op digest v"]) (auto simp: render_one_line parse_render)

lemma dispatch_text:
  assumes "dispatch build rx l request s = (op, Inr t, s')"
  shows "\<exists>v. t = render False 0 v"
  using assms perform_text by (fastforce simp: dispatch_def fail_def split: if_splits sum.splits)

lemma request_answered:
  "execute_request rx request st = (t, v, d) \<Longrightarrow> answered (policy_digest (en_policy (sv_engine v))) t"
  using answered_failure answered_success
  by (auto simp: execute_request_def split: prod.splits sum.splits dest!: dispatch_text)


section \<open>Which requests change anything\<close>

definition changing_operations :: "string list" where
  "changing_operations =
     [''define_source'', ''define_generation'', ''define_endpoint'', ''define_link'', ''define_queue'', ''define_hop'', ''define_path'',
      ''define_clock_domain'', ''clock_sync'', ''ingest'', ''baseline_create'']"

text \<open>What a query may touch: the count of queries, and the failures the disk has still in store for a flush.\<close>

definition untouched :: "world \<Rightarrow> world \<Rightarrow> bool" where
  "untouched s s' \<longleftrightarrow> durable_state (fst s') = durable_state (fst s) \<and> en_writer (fst s') = en_writer (fst s) \<and>
     en_config (fst s') = en_config (fst s) \<and> en_shut_down (fst s') = en_shut_down (fst s) \<and> dk_files (snd s') = dk_files (snd s)"

lemma untouched_refl [simp]: "untouched s s"
  by (simp add: untouched_def)

lemma respond_world [simp]: "snd (respond f x) = snd x"
  by (simp add: respond_def split: prod.splits sum.splits)

lemma ask_untouched: "(\<And>v. q = Inr v \<Longrightarrow> untouched s (snd (g v s))) \<Longrightarrow> untouched s (snd (ask q g s))"
  by (auto simp: ask_def split: sum.splits)

lemma queries_untouched:
  "untouched s (snd (on_engine (engine_summarize q1) s))" "untouched s (snd (on_engine (engine_explain q2) s))"
  "untouched s (snd (on_engine (engine_history q3) s))" "untouched s (snd (on_engine (engine_attribute q4) s))"
  "untouched s (snd (on_engine (export_data now q5) s))"
  by (simp_all add: on_engine_def engine_summarize_def engine_explain_def engine_history_def engine_attribute_def export_data_def
      untouched_def count_query_def durable_state_def)

lemma explain_untouched: "untouched s (snd (explain_operation rx request s))"
proof -
  have "untouched s (snd (case on_engine (engine_explain q) s of (Inl err, s) \<Rightarrow> (Inl err, s)
       | (Inr x, s) \<Rightarrow> respond (\<lambda>f. f) (explanation_answer request x, s)))" for q
    using queries_untouched(2) [of s q] by (cases "on_engine (engine_explain q) s") (auto split: sum.splits)
  then show ?thesis unfolding explain_operation_def by (intro ask_untouched)
qed

lemma flush_untouched: "untouched s (snd (engine_flush s))"
  using disk_calls(3)
  by (cases s) (auto simp: engine_flush_def sync_store_def sync_writer_def untouched_def Let_def durable_state_def case_prod_unfold split: option.splits)

lemma perform_unknown:
  assumes "op \<notin> set supported_operations"
  shows "perform build rx l op request s = (fail error_code.Unsupported ''unknown operation'' op, s)"
  using assms unfolding perform_def Let_def supported_operations_def by simp

lemma query_operations:
  "op \<in> set supported_operations \<Longrightarrow> op \<notin> set changing_operations \<Longrightarrow>
     op \<in> set [''capabilities'', ''status'', ''operations'', ''summarize'', ''history'', ''baseline_list'', ''attribute'', ''explain'', ''export'',
       ''flush'', ''shutdown'']"
  unfolding supported_operations_def changing_operations_def list.set insert_iff empty_iff by (elim disjE FalseE) simp_all

lemma perform_queries:
  "perform build rx l ''capabilities'' request s =
     respond write_capabilities (Inr (engine_capabilities (bi_type build) (bi_compiler build) (bi_sanitizers build) (fst s)), s)"
  "perform build rx l ''status'' request s = respond (write_status (stats_now (rx_inner rx) (fst s))) (Inr (fst s), s)"
  "perform build rx l ''operations'' request s = respond (\<lambda>_. write_operations) (ok_status, s)"
  "perform build rx l ''summarize'' request s = ask (scope_request (fst s) (rx_now rx) CurrentMode request)
     (\<lambda>q s. respond write_path_summary (on_engine (engine_summarize q) s)) s"
  "perform build rx l ''history'' request s = ask (history_query (fst s) (rx_now rx) request)
     (\<lambda>q s. respond write_history (on_engine (engine_history q) s)) s"
  "perform build rx l ''baseline_list'' request s = respond write_baselines (engine_list_baselines (fst s), s)"
  "perform build rx l ''attribute'' request s = ask (attribution_query (fst s) (rx_now rx) request)
     (\<lambda>q s. respond write_attribution (on_engine (engine_attribute q) s)) s"
  "perform build rx l ''explain'' request s = explain_operation rx request s"
  "perform build rx l ''export'' request s = ask (export_query (fst s) (rx_now rx) request)
     (\<lambda>q s. respond write_export_answer (on_engine (export_data (rx_inner rx) q) s)) s"
  "perform build rx l ''flush'' request s = respond (\<lambda>_. write_flag ''flushed'') (engine_flush s)"
  "perform build rx l ''shutdown'' request s = respond (\<lambda>_. write_flag ''shutting_down'') (ok_status, s)"
  by (simp_all add: perform_def Let_def)

lemma perform_untouched:
  assumes "op \<notin> set changing_operations"
  shows "untouched s (snd (perform build rx l op request s))"
proof (cases "op \<in> set supported_operations")
  case True
  from query_operations [OF True assms] show ?thesis unfolding list.set insert_iff empty_iff
    by (elim disjE FalseE)
      (simp_all add: perform_queries ask_untouched queries_untouched explain_untouched flush_untouched)
qed (simp add: perform_unknown)

text \<open>Queries change nothing: a request for an operation that is not one of the eleven that define, report,
  ingest or create a baseline leaves everything that survives a restart, the writer and the files of
  the store as they were, and a request for an operation that the service does not list is refused as unsupported
  without touching anything.\<close>

lemma service_queries_preserve:
  assumes "is_object request" and "json_require_string request ''op'' = Inr op" and "op \<notin> set changing_operations"
    and "execute_request rx request (v, d) = (t, v', d')"
  shows "untouched (sv_engine v, d) (sv_engine v', d') \<and>
    (op \<notin> set supported_operations \<longrightarrow> (v', d') = (v, d) \<and>
       t = encode_with (write_failure op (Error error_code.Unsupported ''unknown operation'' op)))"
proof -
  have e: "dispatch (sv_build v) rx (sv_limits v) request (sv_engine v, d) = (op, perform (sv_build v) rx (sv_limits v) op request (sv_engine v, d))"
    using assms(1,2) by (simp add: dispatch_def)
  have w: "snd (perform (sv_build v) rx (sv_limits v) op request (sv_engine v, d)) = (sv_engine v', d')"
    using assms(4) e by (auto simp: execute_request_def split: prod.splits)
  have "untouched (sv_engine v, d) (sv_engine v', d')" using perform_untouched [OF assms(3), of "(sv_engine v, d)"] w by metis
  moreover have "(v', d') = (v, d) \<and> t = encode_with (write_failure op (Error error_code.Unsupported ''unknown operation'' op))"
    if "op \<notin> set supported_operations"
    using assms(4) e perform_unknown [OF that] by (simp add: execute_request_def fail_def)
  ultimately show ?thesis by blast
qed

definition demo_service :: service where
  "demo_service = \<lparr>sv_engine = demo_engine, sv_limits = default_limits, sv_max_request_bytes = max_json_bytes default_limits,
     sv_build = \<lparr>bi_type = ''release'', bi_compiler = ''c'', bi_sanitizers = False\<rparr>\<rparr>"

definition demo_readings :: readings where
  "demo_readings = \<lparr>rx_now = demo_time 900, rx_append = (\<lambda>_. 900), rx_inner = demo_time 900\<rparr>"

lemma service_queries_preserve_example:
  "execute_request demo_readings (JObject [(''op'', JString ''drop'')]) (demo_service, demo_disk []) =
     (encode_with (write_failure ''drop'' (Error error_code.Unsupported ''unknown operation'' ''drop'')), demo_service, demo_disk [])"
proof -
  obtain t v d where x: "execute_request demo_readings (JObject [(''op'', JString ''drop'')]) (demo_service, demo_disk []) = (t, v, d)"
    by (metis prod_cases3)
  have o: "json_require_string (JObject [(''op'', JString ''drop'')]) ''op'' = Inr ''drop''"
    by (simp add: json_require_string_def json_require_def)
  from service_queries_preserve [OF _ o _ x] show ?thesis
    using x by (simp add: changing_operations_def supported_operations_def)
qed

text \<open>A name of sixteen hexadecimal digits may be defined, and no request can refer to what it names.\<close>

lemma identity_like_name:
  "name_ok ''deadbeefdeadbeef'' \<and> looks_like_identity ''deadbeefdeadbeef'' \<and>
   resolve_endpoint e ''deadbeefdeadbeef'' = Inr (StrongId 0xDEADBEEFDEADBEEF) \<and>
   (derive_from ''deadbeefdeadbeef'' :: endpoint_id) \<noteq> StrongId 0xDEADBEEFDEADBEEF"
proof -
  have l: "looks_like_identity ''deadbeefdeadbeef''" by (simp add: looks_like_identity_def)
  have "parse_hex ''deadbeefdeadbeef'' = Inr (StrongId 0xDEADBEEFDEADBEEF :: endpoint_id)" by code_simp
  moreover have "name_ok ''deadbeefdeadbeef''" by code_simp
  moreover have "(derive_from ''deadbeefdeadbeef'' :: endpoint_id) \<noteq> StrongId 0xDEADBEEFDEADBEEF" by code_simp
  ultimately show ?thesis using l by (simp add: resolve_endpoint_def resolve_text_def)
qed

end
