(* ===== verification/Transport.thy ===== *)
theory Transport
  imports Service
begin

text \<open>
  \<^verbatim>\<open>runtime/transport.cpp\<close>: requests and responses as lines over a connection. The results of the socket calls are
  inputs of the model: what each \<^verbatim>\<open>recv\<close> delivers and how much each \<^verbatim>\<open>send\<close> takes.
\<close>

section \<open>Lines over a socket\<close>

text \<open>The results of \<^verbatim>\<open>recv\<close> and \<^verbatim>\<open>send\<close>: a positive number of bytes, nothing for now, or a failure; a peer that closed (\<^verbatim>\<open>recv\<close> returned 0).\<close>

datatype received = Bytes string | PeerClosed | ReadAgain | ReadFailed
datatype sent = Sent nat | WriteAgain | WriteFailed

text \<open>The inner loop of \<^verbatim>\<open>read_line\<close> over one buffer: the line so far, or what \<^verbatim>\<open>read_line\<close> returns.\<close>

fun scan_buffer :: "nat \<Rightarrow> string \<Rightarrow> string \<Rightarrow> string + string result" where
  "scan_buffer max_bytes line [] = Inl line"
| "scan_buffer max_bytes line (c # cs) =
     (if c = newline then Inr (Inr line)
      else if length (line @ [c]) > max_bytes
      then Inr (fail CapacityExceeded ''the request line exceeds the configured limit'' (show_nat (length (line @ [c]))))
      else scan_buffer max_bytes (line @ [c]) cs)"

text \<open>None: the peer is still silent after everything that arrived.\<close>

fun read_line :: "nat \<Rightarrow> string \<Rightarrow> received list \<Rightarrow> (string result \<times> received list) option" where
  "read_line max_bytes line [] = None"
| "read_line max_bytes line (Bytes b # rest) =
     (case scan_buffer max_bytes line b of Inl line \<Rightarrow> read_line max_bytes line rest | Inr r \<Rightarrow> Some (r, rest))"
| "read_line max_bytes line (PeerClosed # rest) =
     Some (if line = [] then fail IoError ''the peer closed the connection without a request'' [] else Inr line, rest)"
| "read_line max_bytes line (ReadAgain # rest) = read_line max_bytes line rest"
| "read_line max_bytes line (ReadFailed # rest) = Some (fail IoError ''the connection failed while reading'' [], rest)"

text \<open>\<^verbatim>\<open>write_all\<close>: the bytes that went out, what it returns, and the outcomes left.\<close>

fun write_all :: "string \<Rightarrow> sent list \<Rightarrow> (status \<times> string \<times> sent list) option" where
  "write_all data outcomes =
     (if data = [] then Some (ok_status, [], outcomes)
      else case outcomes of
             [] \<Rightarrow> None
           | Sent n # rest \<Rightarrow>
               (case write_all (drop n data) rest of
                  None \<Rightarrow> None | Some (r, wire, left) \<Rightarrow> Some (r, take n data @ wire, left))
           | WriteAgain # rest \<Rightarrow> write_all data rest
           | WriteFailed # rest \<Rightarrow> Some (fail IoError ''the connection failed while writing'' [], [], rest))"

declare write_all.simps [simp del]

record transport_config =
  tc_max_connections :: nat
  tc_max_line_bytes :: nat

record transport_stats =
  ts_connections_accepted :: u64
  ts_connections_rejected :: u64
  ts_requests_served :: u64
  ts_requests_refused :: u64
  ts_bytes_received :: u64
  ts_bytes_sent :: u64
  ts_stopped :: bool

text \<open>The accounting when \<^verbatim>\<open>accept\<close> returned a connection; the boolean says whether it is served.\<close>

definition accept_connection :: "transport_config \<Rightarrow> nat \<times> transport_stats \<Rightarrow> bool \<times> nat \<times> transport_stats" where
  "accept_connection config st =
     (let (active, stats) = st
      in if active < tc_max_connections config
         then (True, active + 1, stats\<lparr>ts_connections_accepted := ts_connections_accepted stats + 1\<rparr>)
         else (False, active, stats\<lparr>ts_connections_rejected := ts_connections_rejected stats + 1\<rparr>))"

definition connection_closed :: "nat \<Rightarrow> nat" where
  "connection_closed active = (if active > 0 then active - 1 else active)"

definition quoted :: "string \<Rightarrow> string" where "quoted t = [CHR 0x22] @ t @ [CHR 0x22]"

definition busy_text :: string where
  "busy_text = ''{'' @ quoted ''ok'' @ '':false,'' @ quoted ''op'' @ '':'' @ quoted ''unknown'' @ '','' @ quoted ''error'' @ '':{'' @
     quoted ''code'' @ '':'' @ quoted ''capacity_exceeded'' @ '','' @ quoted ''message'' @ '':'' @
     quoted ''the server is at its connection limit'' @ '','' @ quoted ''context'' @ '':'' @ quoted [] @ ''}}'' @ [newline]"

text \<open>The quoted word that a request to stop contains.\<close>

definition shutdown_word :: string where "shutdown_word = quoted ''shutdown''"

record exchange =
  xc_wire :: string
  xc_goes_on :: bool
  xc_stop :: bool

text \<open>One turn of the loop of a connection, from the line read to the decision whether to go on.\<close>

definition serve_line :: "readings \<Rightarrow> string \<Rightarrow> sent list \<Rightarrow> (service \<times> disk) \<times> transport_stats
    \<Rightarrow> (exchange \<times> sent list \<times> (service \<times> disk) \<times> transport_stats) option" where
  "serve_line rx line outcomes st =
     (let (v, stats) = st;
          stats = stats\<lparr>ts_bytes_received := ts_bytes_received stats + word_of_nat (length line + 1)\<rparr>
      in case execute rx line v of (response, v) \<Rightarrow>
         (case write_all response outcomes of
            None \<Rightarrow> None
          | Some (sent, wire, outcomes) \<Rightarrow>
              (case (if has_value sent then write_all [newline] outcomes else Some (sent, [], outcomes)) of
                 None \<Rightarrow> None
               | Some (terminator, wire2, outcomes) \<Rightarrow>
                   let stats = (if has_value sent
                         then stats\<lparr>ts_requests_served := ts_requests_served stats + 1,
                                ts_bytes_sent := ts_bytes_sent stats + word_of_nat (length response + 1)\<rparr>
                         else stats\<lparr>ts_requests_refused := ts_requests_refused stats + 1\<rparr>);
                       stop = (has_value terminator \<and> find_text shutdown_word line \<noteq> None)
                   in Some (\<lparr>xc_wire = wire @ wire2, xc_goes_on = (has_value terminator \<and> \<not> stop), xc_stop = stop\<rparr>, outcomes, v, stats))))"

text \<open>The loop of a connection: each turn sees the stop flag and takes its clock readings. \<^const>\<open>None\<close>: the connection is still open after the turns, bytes and writes given.\<close>

fun serve_connection :: "transport_config \<Rightarrow> (bool \<times> readings) list \<Rightarrow> received list \<Rightarrow> sent list \<Rightarrow> (service \<times> disk) \<times> transport_stats
    \<Rightarrow> (exchange list \<times> (service \<times> disk) \<times> transport_stats) option" where
  "serve_connection config [] rs outcomes st = None"
| "serve_connection config ((stop_requested, rx) # turns) rs outcomes st =
     (if stop_requested then Some ([], st)
      else case read_line (tc_max_line_bytes config) [] rs of
             None \<Rightarrow> None
           | Some (Inl _, rs) \<Rightarrow> Some ([], st)
           | Some (Inr line, rs) \<Rightarrow>
               (case serve_line rx line outcomes st of
                  None \<Rightarrow> None
                | Some (x, outcomes, st) \<Rightarrow>
                    if xc_goes_on x
                    then case serve_connection config turns rs outcomes st of
                           None \<Rightarrow> None | Some (xs, st) \<Rightarrow> Some (x # xs, st)
                    else Some ([x], st)))"

text \<open>\<^verbatim>\<open>send_request\<close> once connected: the bytes sent, and what the caller gets, given what arrives.\<close>

definition send_request :: "string \<Rightarrow> nat \<Rightarrow> sent list \<Rightarrow> received list \<Rightarrow> (string \<times> string result) option" where
  "send_request request max_response_bytes outcomes rs =
     (case write_all request outcomes of
        None \<Rightarrow> None
      | Some (Inl e, wire, _) \<Rightarrow> Some (wire, Inl e)
      | Some (Inr _, wire, outcomes) \<Rightarrow>
          (case write_all [newline] outcomes of
             None \<Rightarrow> None
           | Some (Inl e, wire2, _) \<Rightarrow> Some (wire @ wire2, Inl e)
           | Some (Inr _, wire2, _) \<Rightarrow>
               (case read_line max_response_bytes [] rs of
                  None \<Rightarrow> None | Some (line, _) \<Rightarrow> Some (wire @ wire2, line))))"

section \<open>A line arrives whole\<close>

definition arriving :: "received list \<Rightarrow> string" where
  "arriving rs = concat (map (\<lambda>r. case r of Bytes b \<Rightarrow> b | _ \<Rightarrow> []) rs)"

definition uninterrupted :: "received list \<Rightarrow> bool" where
  "uninterrupted rs \<longleftrightarrow> PeerClosed \<notin> set rs \<and> ReadFailed \<notin> set rs"

lemma scan_buffer_line:
  assumes "newline \<notin> set b" and "length line + length b \<le> max_bytes"
  shows "scan_buffer max_bytes line b = Inl (line @ b)"
  using assms by (induction b arbitrary: line) auto

lemma scan_buffer_end:
  assumes "newline \<notin> set b" and "length line + length b \<le> max_bytes"
  shows "scan_buffer max_bytes line (b @ newline # more_bytes) = Inr (Inr (line @ b))"
  using assms by (induction b arbitrary: line) auto

lemma read_line_whole:
  assumes "uninterrupted rs" and "arriving rs = t @ newline # rest" and "newline \<notin> set t" and "length line + length t \<le> max_bytes"
  shows "\<exists>left. read_line max_bytes line rs = Some (Inr (line @ t), left)"
  using assms
proof (induction rs arbitrary: line t)
  case Nil
  then show ?case by (simp add: arriving_def)
next
  case (Cons r rs)
  have u: "uninterrupted rs" using Cons.prems(1) by (simp add: uninterrupted_def)
  show ?case
  proof (cases r)
    case (Bytes b)
    have e: "b @ arriving rs = t @ newline # rest" using Cons.prems(2) Bytes by (simp add: arriving_def)
    then consider (inside) us where "t = b @ us" "arriving rs = us @ newline # rest" | (ends) us where "b = t @ newline # us"
      by (auto simp: append_eq_append_conv2 append_eq_Cons_conv)
    then show ?thesis
    proof cases
      case inside
      have "scan_buffer max_bytes line b = Inl (line @ b)" using inside(1) Cons.prems(3,4) by (intro scan_buffer_line) auto
      moreover obtain left where "read_line max_bytes (line @ b) rs = Some (Inr ((line @ b) @ us), left)"
        using Cons.IH [OF u inside(2), of "line @ b"] inside(1) Cons.prems(3,4) by auto
      ultimately show ?thesis using Bytes inside(1) by simp
    next
      case ends
      then show ?thesis using Bytes scan_buffer_end [OF Cons.prems(3,4)] by simp
    qed
  next
    case ReadAgain
    then show ?thesis using Cons.IH [OF u _ Cons.prems(3,4)] Cons.prems(2) by (simp add: arriving_def)
  qed (use Cons.prems(1) in \<open>simp_all add: uninterrupted_def\<close>)
qed

section \<open>A line goes out whole\<close>

text \<open>A socket that takes bytes: no write fails, none takes nothing.\<close>

definition writable :: "sent list \<Rightarrow> bool" where
  "writable outcomes \<longleftrightarrow> WriteFailed \<notin> set outcomes \<and> Sent 0 \<notin> set outcomes"

definition sends :: "sent list \<Rightarrow> nat" where
  "sends outcomes = length (filter (\<lambda>r. r \<noteq> WriteAgain) outcomes)"

lemma write_all_completes:
  assumes "writable outcomes" and "length data \<le> sends outcomes"
  shows "\<exists>left. write_all data outcomes = Some (ok_status, data, left) \<and> writable left \<and> sends outcomes \<le> sends left + length data"
  using assms
proof (induction outcomes arbitrary: data)
  case Nil
  then show ?case by (simp add: sends_def write_all.simps)
next
  case (Cons o1 rest)
  have w: "writable rest" using Cons.prems(1) by (simp add: writable_def)
  show ?case
  proof (cases "data = []")
    case True
    then show ?thesis using Cons.prems(1) by (simp add: write_all.simps)
  next
    case False
    show ?thesis
    proof (cases o1)
      case (Sent n)
      have n: "0 < n" using Cons.prems(1) Sent by (simp add: writable_def)
      then have "length (drop n data) \<le> sends rest" using Cons.prems(2) Sent False by (simp add: sends_def)
      then obtain left where left: "write_all (drop n data) rest = Some (ok_status, drop n data, left)" "writable left"
        "sends rest \<le> sends left + length (drop n data)"
        using Cons.IH [OF w] by blast
      have "length (drop n data) < length data" using n False by simp
      then have "sends (o1 # rest) \<le> sends left + length data" using left(3) Sent by (simp add: sends_def)
      then show ?thesis using left(1,2) Sent False by (simp add: write_all.simps [of data])
    next
      case WriteAgain
      then show ?thesis using Cons.IH [OF w, of data] Cons.prems(2) False by (simp add: sends_def write_all.simps [of data])
    next
      case WriteFailed
      then show ?thesis using Cons.prems(1) by (simp add: writable_def)
    qed
  qed
qed

lemma write_line_completes:
  assumes "writable outcomes" and "length data < sends outcomes"
  obtains left left2 where "write_all data outcomes = Some (ok_status, data, left)"
    "write_all [newline] left = Some (ok_status, [newline], left2)" "writable left2"
proof -
  obtain left where left: "write_all data outcomes = Some (ok_status, data, left)" "writable left" "sends outcomes \<le> sends left + length data"
    using write_all_completes [OF assms(1), of data] assms(2) by auto
  then have "length [newline] \<le> sends left" using assms(2) by simp
  then show thesis using write_all_completes [OF left(2)] left(1) that by blast
qed

section \<open>A request and its answer\<close>

lemma execute_one_line: "newline \<notin> set (fst (execute rx line v))"
  using answered_failure request_answered
  by (auto simp: execute_def Let_def answered_def split: sum.splits) (metis prod.collapse)

lemma serve_line_completes:
  assumes "writable outcomes" and "length (fst (execute rx line v)) < sends outcomes"
  obtains x left where "serve_line rx line outcomes (v, stats) = Some (x, left, snd (execute rx line v),
      stats\<lparr>ts_bytes_received := ts_bytes_received stats + word_of_nat (length line + 1),
            ts_requests_served := ts_requests_served stats + 1,
            ts_bytes_sent := ts_bytes_sent stats + word_of_nat (length (fst (execute rx line v)) + 1)\<rparr>)"
    "xc_wire x = fst (execute rx line v) @ [newline]" "xc_stop x \<longleftrightarrow> find_text shutdown_word line \<noteq> None" "xc_goes_on x \<longleftrightarrow> \<not> xc_stop x"
    "writable left"
proof -
  obtain left left2 where w: "write_all (fst (execute rx line v)) outcomes = Some (ok_status, fst (execute rx line v), left)"
    "write_all [newline] left = Some (ok_status, [newline], left2)" "writable left2"
    by (rule write_line_completes [OF assms])
  obtain t u where e: "execute rx line v = (t, u)" by (metis surj_pair)
  show thesis
    by (rule that [of "\<lparr>xc_wire = t @ [newline], xc_goes_on = (find_text shutdown_word line = None), xc_stop = (find_text shutdown_word line \<noteq> None)\<rparr>" left2])
      (use w e in \<open>simp_all add: serve_line_def Let_def has_value_def\<close>)
qed

text \<open>A request and its answer travel whole. A client sends a request without line breaks and within
  the line limit of the server; both sockets take what is written, in pieces of any size; the bytes
  arrive in chunks of any size, with idle reads in between. Then the server reads exactly that request,
  executes it once and counts it as served, and the client's call returns exactly the answer of the
  service, when it is within the client's limit.\<close>

theorem request_response:
  assumes client: "writable couts" "length request < sends couts"
    and request: "newline \<notin> set request" "length request \<le> tc_max_line_bytes config"
    and server_reads: "uninterrupted rs" "arriving rs = request @ [newline]"
    and server_writes: "writable souts" "length (fst (execute rx request v)) < sends souts"
    and client_reads: "uninterrupted cs" "arriving cs = fst (execute rx request v) @ [newline]"
    and fits: "length (fst (execute rx request v)) \<le> max_response_bytes"
  shows "send_request request max_response_bytes couts cs = Some (request @ [newline], Inr (fst (execute rx request v)))
    \<and> (\<exists>left x souts2 stats2. read_line (tc_max_line_bytes config) [] rs = Some (Inr request, left)
        \<and> serve_line rx request souts (v, stats) = Some (x, souts2, snd (execute rx request v), stats2)
        \<and> xc_wire x = fst (execute rx request v) @ [newline]
        \<and> ts_requests_served stats2 = ts_requests_served stats + 1)"
proof
  obtain left where r: "read_line max_response_bytes [] cs = Some (Inr (fst (execute rx request v)), left)"
    using read_line_whole [OF client_reads execute_one_line, of "[]" max_response_bytes] fits by auto
  obtain sent sent2 where "write_all request couts = Some (ok_status, request, sent)" "write_all [newline] sent = Some (ok_status, [newline], sent2)"
    by (rule write_line_completes [OF client])
  then show "send_request request max_response_bytes couts cs = Some (request @ [newline], Inr (fst (execute rx request v)))"
    using r by (simp add: send_request_def)
  obtain left2 where r2: "read_line (tc_max_line_bytes config) [] rs = Some (Inr request, left2)"
    using read_line_whole [OF server_reads request(1), of "[]" "tc_max_line_bytes config"] request(2) by auto
  show "\<exists>left x souts2 stats2. read_line (tc_max_line_bytes config) [] rs = Some (Inr request, left)
        \<and> serve_line rx request souts (v, stats) = Some (x, souts2, snd (execute rx request v), stats2)
        \<and> xc_wire x = fst (execute rx request v) @ [newline]
        \<and> ts_requests_served stats2 = ts_requests_served stats + 1"
    by (rule serve_line_completes [OF server_writes, of stats]) (use r2 in auto)
qed

text \<open>A refused connection gets the answer a refused request would get.\<close>

lemma busy_is_answer:
  "busy_text = encode_with (write_failure ''unknown'' (Error CapacityExceeded ''the server is at its connection limit'' [])) @ [newline]"
  by code_simp

lemma accept_within: "accept_connection config (active, stats) = (served, active', stats') \<Longrightarrow> active \<le> tc_max_connections config \<Longrightarrow>
    active' \<le> tc_max_connections config \<and> (served \<longleftrightarrow> active < tc_max_connections config)"
  by (auto simp: accept_connection_def split: if_splits)

text \<open>Two requests that arrive in one buffer: the second is dropped with the rest of the buffer, and
  the connection waits for bytes that were already read.\<close>

lemma pipelined_request_lost:
  "read_line 100 [] [Bytes (''first'' @ [newline] @ ''second'' @ [newline])] = Some (Inr ''first'', [])"
  by simp

text \<open>A request to define a path called shutdown stops the server once it is answered.\<close>

lemma name_stops_server:
  "find_text shutdown_word (render False 0 (JObject [(''op'', JString ''define_path''), (''name'', JString ''shutdown'')])) \<noteq> None"
  by code_simp

end
