(* ===== verification/Spec2Isabelle.thy ===== *)
theory Spec2Isabelle
  imports Transport
begin

text \<open>
  Verification library of Latency Observatory, a C++20 runtime that records end to end and per hop
  latency observations, keeps them with their evidence, and answers queries about them: summaries,
  baselines, comparisons and decompositions of the observed latency into hops.

  \<^bold>\<open>The program and how its parts interact.\<close> A producer defines sources, endpoints, links, queues, hops,
  generations and paths in a catalog (\<^verbatim>\<open>model/entities\<close>) and clock domains with synchronisation reports in
  a clock registry (\<^verbatim>\<open>model/clock\<close>). Batches of measurement records go through the ingest gate
  (\<^verbatim>\<open>ingest/ingest\<close>), which fences sessions, generations, revisions and sequence numbers, derives dwells
  where the clocks allow it, and calls a record current, historical or rejected. Accepted records are
  written as canonical JSON (\<^verbatim>\<open>core/json\<close> and the codecs) to an append only store (\<^verbatim>\<open>store/store\<close>). Queries
  select records, aggregate them (\<^verbatim>\<open>stats\<close>), compare them with stored baselines (\<^verbatim>\<open>baseline\<close>) and
  decompose them (\<^verbatim>\<open>attribute\<close>). Every answer carries evidence (\<^verbatim>\<open>core/evidence\<close>) under one policy
  (\<^verbatim>\<open>core/policy\<close>).

  \<^bold>\<open>Which theory models which part.\<close> Paths are relative to \<^verbatim>\<open>src/src\<close> with the headers of the same name.
  \<^item> \<^verbatim>\<open>Prelude\<close>: machine integers, \<^verbatim>\<open>std::to_string\<close>, \<^verbatim>\<open>std::map\<close> as a strictly ordered association list with
    its interface \<open>ordered_map\<close>, enumeration tables with the interface \<open>named_enum\<close>.
  \<^item> \<^verbatim>\<open>Core_Error\<close>, \<^verbatim>\<open>Core_Checked\<close>, \<^verbatim>\<open>Core_Digest\<close>, \<^verbatim>\<open>Core_Ids\<close>, \<^verbatim>\<open>Core_Time\<close>, \<^verbatim>\<open>Core_Evidence\<close>,
    \<^verbatim>\<open>Core_Policy\<close>, \<^verbatim>\<open>Core_Json\<close>, \<^verbatim>\<open>Core_Documents\<close>: the files of \<^verbatim>\<open>core\<close>. A \<^verbatim>\<open>Result\<close> is a sum type, the
    macros \<^verbatim>\<open>LATOBS_TRY\<close> are \<open>try_bind\<close>; 64 bit counters are words, nanoseconds integers with the range
    written out.
  \<^item> \<^verbatim>\<open>Model_Entities\<close>, \<^verbatim>\<open>Model_Clock\<close>, \<^verbatim>\<open>Model_Measurement\<close>, \<^verbatim>\<open>Model_Codec\<close>: the files of \<^verbatim>\<open>model\<close>. The
    catalog and the registry are records of ordered maps, their operations functions on these states.
  \<^item> \<^verbatim>\<open>Stats_Distribution\<close>, \<^verbatim>\<open>Stats_Summary\<close>, \<^verbatim>\<open>Stats_Codec\<close>: the files of \<^verbatim>\<open>stats\<close>.
  \<^item> \<^verbatim>\<open>Ingest_Gate\<close>, \<^verbatim>\<open>Ingest_Dwell\<close>, \<^verbatim>\<open>Ingest_Runs\<close>, \<^verbatim>\<open>Ingest_Codec\<close>: the files of \<^verbatim>\<open>ingest\<close>; the gate, the
    dwells, and the step relation of all runs of the gate.
  \<^item> \<^verbatim>\<open>Baseline\<close>, \<^verbatim>\<open>Baseline_Codec\<close>: the files of \<^verbatim>\<open>baseline\<close>.
  \<^item> \<^verbatim>\<open>Attribution\<close>: \<^verbatim>\<open>attribute/attribute.cpp\<close>.
  \<^item> \<^verbatim>\<open>Store\<close>, \<^verbatim>\<open>Store_Runs\<close>: \<^verbatim>\<open>store/store.cpp\<close> over an explicit file system whose calls may fail, and
    the runs of writer and reader.
  \<^item> \<^verbatim>\<open>Worker_Pool\<close>: \<^verbatim>\<open>runtime/worker_pool.cpp\<close>. Each critical section, and each action on shared state outside the
    lock, is one step of a transition relation, so all interleavings of submitters, workers and calls of
    shutdown are covered. A thread that waits on a condition variable is blocked until a notification of the code,
    or a spurious wake-up, releases it.
  \<^item> \<^verbatim>\<open>Engine\<close>, \<^verbatim>\<open>Engine_Queries\<close>, \<^verbatim>\<open>Engine_Export\<close>: \<^verbatim>\<open>runtime/engine.cpp\<close>, \<^verbatim>\<open>runtime/explain.cpp\<close> and
    \<^verbatim>\<open>runtime/export.cpp\<close>. The state is the record \<open>engine\<close>, an entry point one step on engine and disk:
    creation with recovery, definitions, ingest, baselines, summaries, decompositions, histories,
    explanations, exports, flush and shutdown.
  \<^item> \<^verbatim>\<open>Engine_Log\<close>, \<^verbatim>\<open>Engine_Restart\<close>: the store as the log of the engine, and runs over several sessions.
  \<^item> \<^verbatim>\<open>Engine_Current\<close>: which records queries for current timing count, as admitted and after a restart.
  \<^item> \<^verbatim>\<open>Service\<close>: \<^verbatim>\<open>runtime/service.cpp\<close>, one decoder per request, one writer per answer, and the dispatch between
    them. \<^verbatim>\<open>Transport\<close>: the line protocol of \<^verbatim>\<open>runtime/transport.cpp\<close> over given results of the socket calls.

  \<^bold>\<open>What the lemmas show.\<close>
  \<^item> Core: the 128 bit arithmetic is exact; SHA-256 fed in pieces is SHA-256 of the whole; civil time and its text are inverse;
    the parser of JSON always returns, accepts only well typed documents and inverts the printer; merging
    evidence never makes it usable, and does not depend on the order while the reasons fit.
  \<^item> Model: every reachable catalog is well formed; clocks are compared exactly when the reports permit it, and a difference taken through a reference is off by no more than the stated
    uncertainty.
  \<^item> Statistics: counts, means, quantiles and histogram of an aggregate are those of the sample, in
    whatever order the records come.
  \<^item> Ingest: a record becomes current exactly under the conditions of the gate, no sequence number
    twice, through any run of batches and restarts; every record of a batch is accounted for.
  \<^item> Baselines and decomposition: a comparison or a decomposition is produced exactly when it applies, with the exact
    figures, and refused otherwise.
  \<^item> Store: what was appended is read back; after a crash or a changed byte reading stops with
    a prefix and says so; where it does not, the case is stated.
  \<^item> Runtime: every submitted task is settled exactly once under every interleaving, and no wake-up is
    lost but for one mix of shutdown calls that is stated; histories, explanations and exports account for the records they
    cover; a restart restores catalog, clocks, fences, baselines and records; what counts as current
    depends on state and age of the evidence alone; every request is answered with one document on one
    line, only the operations that change something do, and a line crosses a connection whole.

  \<^bold>\<open>Interfaces.\<close> The locales \<open>ordered_map\<close>, \<open>named_enum\<close> and \<open>name_table\<close> (Prelude), \<open>rank_order\<close>
  (Core_Evidence), \<open>versioned_table\<close> (Model_Entities) and \<open>replay_log\<close> (Engine_Log) are each interpreted on the
  definitions of the model: the association lists, the enumeration tables, the ranks of evidence, the tables of
  the catalog and the loading of a store.

  \<^bold>\<open>Bounds and fuel.\<close> Recursion that is not structural has a measure: the scan of a segment and the blocks of
  SHA-256 the bytes left, the digits of a 128 bit number its value, the integer square root its bit, the
  eviction of sessions their number. The number of steps a pool can still make is bounded by \<open>work_left\<close>. The parser of JSON takes fuel of one unit per
  character of the text, and \<open>parse_json_terminates\<close> shows that it never runs out. Machine integers keep their
  width; a theorem that needs a counter not to wrap says so in a hypothesis (fewer than \<open>2 ^ 32\<close>
  segments or \<open>2 ^ 64\<close> records).

  \<^bold>\<open>Not modelled.\<close> The calls of the operating system behind a connection (addresses, listening, the threads of
  connections), the command line tools, the demonstration, benchmarks and tests. Threads are modelled
  where they matter, in the pool; the one lock of the engine makes its entry points atomic, and a request
  of the service one step. The wall clock is a parameter of each operation, the file system an explicit
  state with a plan of failing calls.
\<close>

end
